(* ===== verification/Prelude.thy ===== *)
theory Prelude
  imports Main "HOL-Library.Product_Lexorder" "HOL-Library.List_Lexorder" "HOL-Library.Char_ord"
    "HOL-Library.AList"
begin

text \<open>
  Shared vocabulary of the development: time stamps, Python exceptions as values, the few
  relational operations the services issue through SQLAlchemy (guarded UPDATE and DELETE with
  their row counts, primary-key reads, ordered and limited SELECT with SKIP LOCKED), and the
  generic contracts the components instantiate: a preserved invariant and a fenced lease.

  A table is the list of its rows. An UPDATE keeps the row order, an unordered SELECT reads the
  rows in table order, an ordered one sorts them by the key of its ORDER BY clause. Strings are
  ordered by code point (the C collation). A comparison with NULL does not hold, so a nullable
  column is an option and the comparison operators below are false on \<open>None\<close>.
\<close>

subsection \<open>Time, errors, results\<close>

type_synonym timestamp = int

text \<open>Python and PostgreSQL both count microseconds; the code adds whole seconds to instants.\<close>

definition seconds :: "int \<Rightarrow> int" where
  "seconds n = n * 1000000"

datatype py_error =
    ValueError string
  | RuntimeError string
  | KeyError string
  | FlightLockBusy string
  | StorageCleanupConflict string
  | AppError string string

type_synonym 'a result = "py_error + 'a"

definition is_ok :: "'a result \<Rightarrow> bool" where
  "is_ok r \<longleftrightarrow> (case r of Inl _ \<Rightarrow> False | Inr _ \<Rightarrow> True)"

text \<open>Sequencing: a raised exception ends the operation.\<close>

definition and_then :: "'a result \<Rightarrow> ('a \<Rightarrow> 'b result) \<Rightarrow> 'b result" where
  "and_then r f = (case r of Inl x \<Rightarrow> Inl x | Inr v \<Rightarrow> f v)"

lemma and_then_simps [simp]: "and_then (Inl x) f = Inl x" "and_then (Inr v) f = f v"
  by (simp_all add: and_then_def)

lemma and_then_ok: "and_then r f = Inr y \<longleftrightarrow> (\<exists>v. r = Inr v \<and> f v = Inr y)"
  by (cases r) auto

lemma and_then_okE:
  assumes "and_then r f = Inr y"
  obtains v where "r = Inr v" and "f v = Inr y"
  using assms by (auto simp: and_then_ok)

text \<open>JSON documents, as the JSON columns and the notification payloads hold them. A Python dict is
  an association list in insertion order: \<open>d[k] = v\<close> is \<open>AList.update\<close>, which overwrites in place or
  appends, and \<open>d.pop(k)\<close> is \<open>AList.delete\<close>.\<close>

datatype json =
    JNull
  | JBool bool
  | JInt int
  | JStr string
  | JList "json list"
  | JObj "(string \<times> json) list"

type_synonym payload = "(string \<times> json) list"

text \<open>\<open>{**base, **new}\<close>.\<close>

definition merge_obj :: "payload \<Rightarrow> payload \<Rightarrow> payload" where
  "merge_obj base new = fold (\<lambda>(k, v) d. AList.update k v d) new base"

text \<open>The settings the modelled services read (\<open>backend_core/config.py\<close>).\<close>

record settings =
  distributed_runtime_enabled :: bool
  lock_ttl_seconds :: int
  runtime_outbox_retry_seconds :: int
  runtime_outbox_claim_ttl_seconds :: int
  runtime_outbox_max_attempts :: int
  runtime_compute_max_attempts :: int
  runtime_work_lease_ttl_seconds :: int

text \<open>The bounds the settings model declares (\<open>ge=1\<close> on every field).\<close>

definition valid_settings :: "settings \<Rightarrow> bool" where
  "valid_settings c \<longleftrightarrow>
     1 \<le> lock_ttl_seconds c \<and> 1 \<le> runtime_outbox_retry_seconds c \<and>
     1 \<le> runtime_outbox_claim_ttl_seconds c \<and> 1 \<le> runtime_outbox_max_attempts c \<and>
     1 \<le> runtime_compute_max_attempts c \<and> 1 \<le> runtime_work_lease_ttl_seconds c"

text \<open>The values the examples run with.\<close>

definition example_settings :: settings where
  "example_settings = \<lparr>distributed_runtime_enabled = True, lock_ttl_seconds = 30, runtime_outbox_retry_seconds = 5,
     runtime_outbox_claim_ttl_seconds = 60, runtime_outbox_max_attempts = 10, runtime_compute_max_attempts = 3,
     runtime_work_lease_ttl_seconds = 60\<rparr>"

text \<open>The initial lease of a claim only covers its delivery to the worker
  (\<open>backend_core/claiming.py\<close>).\<close>

definition CLAIM_DELIVERY_LEASE_SECONDS :: int where
  "CLAIM_DELIVERY_LEASE_SECONDS = 20"

text \<open>Python truthiness of an optional string: \<open>None\<close> and the empty string are false.\<close>

definition truthy :: "string option \<Rightarrow> bool" where
  "truthy s \<longleftrightarrow> (case s of None \<Rightarrow> False | Some v \<Rightarrow> v \<noteq> [])"

text \<open>\<open>x or y\<close> on an optional string.\<close>

definition or_else :: "string option \<Rightarrow> string \<Rightarrow> string" where
  "or_else s d = (if truthy s then the s else d)"

subsection \<open>SQL comparisons on nullable columns\<close>

definition sql_le :: "'a::linorder option \<Rightarrow> 'a \<Rightarrow> bool" where
  "sql_le x t \<longleftrightarrow> (case x of None \<Rightarrow> False | Some v \<Rightarrow> v \<le> t)"

definition sql_gt :: "'a::linorder option \<Rightarrow> 'a \<Rightarrow> bool" where
  "sql_gt x t \<longleftrightarrow> (case x of None \<Rightarrow> False | Some v \<Rightarrow> t < v)"

definition sql_in :: "'a option \<Rightarrow> 'a list \<Rightarrow> bool" where
  "sql_in x vs \<longleftrightarrow> (case x of None \<Rightarrow> False | Some v \<Rightarrow> v \<in> set vs)"

text \<open>The aggregate \<open>min\<close>: NULL on no rows, NULL inputs skipped.\<close>

fun sql_min :: "timestamp option list \<Rightarrow> timestamp option" where
  "sql_min [] = None"
| "sql_min (None # xs) = sql_min xs"
| "sql_min (Some x # xs) = (case sql_min xs of None \<Rightarrow> Some x | Some y \<Rightarrow> Some (min x y))"

lemma sql_le_simps [simp]:
  "sql_le None t = False" "sql_le (Some v) t = (v \<le> t)"
  by (simp_all add: sql_le_def)

lemma sql_gt_simps [simp]:
  "sql_gt None t = False" "sql_gt (Some v) t = (t < v)"
  by (simp_all add: sql_gt_def)

lemma sql_in_simps [simp]:
  "sql_in None vs = False" "sql_in (Some v) vs = (v \<in> set vs)"
  by (simp_all add: sql_in_def)

lemma sql_gt_not_le: "sql_gt x t \<Longrightarrow> \<not> sql_le x t"
  by (cases x) auto

lemma sql_gt_earlier: "sql_gt x t \<Longrightarrow> u \<le> t \<Longrightarrow> sql_gt x u"
  by (cases x) auto

lemma sql_min_lower: "Some v \<in> set xs \<Longrightarrow> \<exists>m. sql_min xs = Some m \<and> m \<le> v"
  by (induction xs rule: sql_min.induct) (force split: option.splits)+

lemma sql_min_mem: "sql_min xs = Some m \<Longrightarrow> Some m \<in> set xs"
proof (induction xs arbitrary: m rule: sql_min.induct)
  case (3 x xs)
  then show ?case by (cases "sql_min xs"; cases "x \<le> the (sql_min xs)") (auto simp: min_def)
qed simp_all

lemma sql_min_None_iff: "sql_min xs = None \<longleftrightarrow> (\<forall>x \<in> set xs. x = None)"
  by (induction xs rule: sql_min.induct) (auto split: option.splits)

subsection \<open>Tables\<close>

definition update_where :: "('r \<Rightarrow> bool) \<Rightarrow> ('r \<Rightarrow> 'r) \<Rightarrow> 'r list \<Rightarrow> 'r list" where
  "update_where P f rs = map (\<lambda>r. if P r then f r else r) rs"

definition delete_where :: "('r \<Rightarrow> bool) \<Rightarrow> 'r list \<Rightarrow> 'r list" where
  "delete_where P rs = filter (\<lambda>r. \<not> P r) rs"

definition rowcount :: "('r \<Rightarrow> bool) \<Rightarrow> 'r list \<Rightarrow> nat" where
  "rowcount P rs = length (filter P rs)"

text \<open>\<open>session.get\<close>: the row with a primary key.\<close>

definition get_row :: "('r \<Rightarrow> 'k) \<Rightarrow> 'k \<Rightarrow> 'r list \<Rightarrow> 'r option" where
  "get_row key k rs = find (\<lambda>r. key r = k) rs"

definition unique_by :: "('r \<Rightarrow> 'k) \<Rightarrow> 'r list \<Rightarrow> bool" where
  "unique_by key rs \<longleftrightarrow> distinct (map key rs)"

text \<open>\<open>SELECT ... WHERE P ORDER BY ord LIMIT n FOR UPDATE SKIP LOCKED\<close>, where \<open>locked\<close> are the
  rows other transactions hold.\<close>

definition select_ordered :: "('r \<Rightarrow> bool) \<Rightarrow> ('r \<Rightarrow> 'o::linorder) \<Rightarrow> nat \<Rightarrow> 'r list \<Rightarrow> 'r list" where
  "select_ordered P ord n rs = take n (sort_key ord (filter P rs))"

definition first_row :: "'r list \<Rightarrow> 'r option" where
  "first_row rs = (case rs of [] \<Rightarrow> None | r # _ \<Rightarrow> Some r)"

subsection \<open>Facts about tables\<close>

named_theorems table_simps \<open>rewriting primary-key reads after writes\<close>

lemma set_update_where: "set (update_where P f rs) = (\<lambda>r. if P r then f r else r) ` set rs"
  by (simp add: update_where_def)

lemma update_where_Cons:
  "update_where P f (r # rs) = (if P r then f r else r) # update_where P f rs"
  by (simp add: update_where_def)

lemma map_update_where_frame:
  "(\<And>r. r \<in> set rs \<Longrightarrow> P r \<Longrightarrow> g (f r) = g r) \<Longrightarrow> map g (update_where P f rs) = map g rs"
  by (simp add: update_where_def)

lemma update_where_none: "(\<And>r. r \<in> set rs \<Longrightarrow> \<not> P r) \<Longrightarrow> update_where P f rs = rs"
  by (simp add: update_where_def map_idI)

lemma rowcount_0_iff: "rowcount P rs = 0 \<longleftrightarrow> (\<forall>r \<in> set rs. \<not> P r)"
  by (simp add: rowcount_def filter_empty_conv)

lemma update_where_rowcount_0: "rowcount P rs = 0 \<Longrightarrow> update_where P f rs = rs"
  by (simp add: rowcount_0_iff update_where_none)

lemma delete_where_rowcount_0: "rowcount P rs = 0 \<Longrightarrow> delete_where P rs = rs"
  by (simp add: rowcount_0_iff delete_where_def)

lemma get_row_simps [table_simps]:
  "get_row key k [] = None"
  "get_row key k (r # rs) = (if key r = k then Some r else get_row key k rs)"
  by (simp_all add: get_row_def)

lemma get_row_append [table_simps]:
  "get_row key k (rs @ ss) = (case get_row key k rs of None \<Rightarrow> get_row key k ss | Some r \<Rightarrow> Some r)"
  by (induction rs) (simp_all add: table_simps)

lemma get_row_SomeD: "get_row key k rs = Some r \<Longrightarrow> r \<in> set rs \<and> key r = k"
  by (auto simp: get_row_def find_Some_iff)

lemma get_row_None_iff: "get_row key k rs = None \<longleftrightarrow> k \<notin> key ` set rs"
  by (auto simp: get_row_def find_None_iff)

lemma get_row_unique: "unique_by key rs \<Longrightarrow> r \<in> set rs \<Longrightarrow> get_row key (key r) rs = Some r"
  by (induction rs) (auto simp: table_simps unique_by_def)

lemma unique_by_eq: "unique_by key rs \<Longrightarrow> r \<in> set rs \<Longrightarrow> s \<in> set rs \<Longrightarrow> key r = key s \<Longrightarrow> r = s"
  by (metis get_row_unique option.inject)

lemma get_row_update [table_simps]:
  "(\<And>r. key (f r) = key r) \<Longrightarrow>
   get_row key k (update_where P f rs) = map_option (\<lambda>r. if P r then f r else r) (get_row key k rs)"
  by (induction rs) (auto simp: table_simps update_where_def)

lemma get_row_replace:
  "key v = k0 \<Longrightarrow> get_row key k (update_where (\<lambda>r. key r = k0) (\<lambda>_. v) rs) =
     (if k = k0 then map_option (\<lambda>_. v) (get_row key k rs) else get_row key k rs)"
  by (induction rs) (auto simp: table_simps update_where_def)

lemma get_row_delete:
  "unique_by key rs \<Longrightarrow>
   get_row key k (delete_where P rs) =
     (case get_row key k rs of None \<Rightarrow> None | Some r \<Rightarrow> if P r then None else Some r)"
proof (induction rs)
  case Nil
  then show ?case by (simp add: table_simps delete_where_def)
next
  case (Cons a rs)
  then have u: "unique_by key rs" and n: "key a \<notin> key ` set rs"
    by (auto simp: unique_by_def)
  have "k = key a \<Longrightarrow> get_row key k (delete_where P rs) = None"
    using n by (auto simp: get_row_None_iff delete_where_def)
  then show ?case
    using Cons.IH [OF u] by (auto simp: table_simps delete_where_def)
qed

lemma unique_update: "(\<And>r. key (f r) = key r) \<Longrightarrow> unique_by key (update_where P f rs) = unique_by key rs"
  by (simp add: unique_by_def map_update_where_frame)

lemma unique_delete: "unique_by key rs \<Longrightarrow> unique_by key (delete_where P rs)"
  by (auto simp: unique_by_def delete_where_def intro: distinct_map_filter)

lemma unique_append1: "unique_by key (rs @ [r]) \<longleftrightarrow> unique_by key rs \<and> get_row key (key r) rs = None"
  by (auto simp: unique_by_def get_row_None_iff)

lemma rowcount_key_le1:
  assumes "unique_by key rs" and "\<And>r. P r \<Longrightarrow> key r = k"
  shows "rowcount P rs \<le> 1"
  using assms
proof (induction rs)
  case (Cons a rs)
  then have IH: "rowcount P rs \<le> 1" and n: "key a \<notin> key ` set rs"
    by (auto simp: unique_by_def)
  have "P a \<Longrightarrow> rowcount P rs = 0"
    using n Cons.prems(2) by (force simp: rowcount_0_iff)
  with IH show ?case by (auto simp: rowcount_def)
qed (simp add: rowcount_def)

lemma rowcount_key_1:
  assumes "unique_by key rs" and "\<And>r. P r \<Longrightarrow> key r = k"
  shows "rowcount P rs = 1 \<longleftrightarrow> (\<exists>r. get_row key k rs = Some r \<and> P r)"
proof -
  have "rowcount P rs = 1 \<longleftrightarrow> rowcount P rs \<noteq> 0"
    using rowcount_key_le1 [of key rs P k, OF assms] by linarith
  also have "\<dots> \<longleftrightarrow> (\<exists>r. get_row key k rs = Some r \<and> P r)"
    unfolding rowcount_0_iff using assms
    by (metis get_row_SomeD get_row_unique)
  finally show ?thesis .
qed

lemma rowcount_key_0:
  assumes "unique_by key rs" and "\<And>r. P r \<Longrightarrow> key r = k"
  shows "rowcount P rs = 0 \<longleftrightarrow> \<not> (\<exists>r. get_row key k rs = Some r \<and> P r)"
proof -
  have "rowcount P rs = 1 \<longleftrightarrow> (\<exists>r. get_row key k rs = Some r \<and> P r)"
    using assms by (rule rowcount_key_1)
  moreover have "rowcount P rs \<le> 1" using assms by (rule rowcount_key_le1)
  then have "rowcount P rs = 0 \<longleftrightarrow> rowcount P rs \<noteq> 1" by linarith
  ultimately show ?thesis by blast
qed

lemma list_all2_update_where:
  "(\<And>r. R r r) \<Longrightarrow> (\<And>r. r \<in> set rs \<Longrightarrow> P r \<Longrightarrow> R r (f r)) \<Longrightarrow> list_all2 R rs (update_where P f rs)"
  by (induction rs) (auto simp: update_where_def)

lemma get_row_rel:
  "list_all2 R rs ys \<Longrightarrow> (\<And>a b. R a b \<Longrightarrow> key b = key a) \<Longrightarrow> rel_option R (get_row key k rs) (get_row key k ys)"
  by (induction rule: list_all2_induct) (auto simp: table_simps)

lemma get_row_map_eq:
  "map (\<lambda>r. (key r, f r)) rs = map (\<lambda>r. (key r, f r)) ts \<Longrightarrow>
   map_option f (get_row key k rs) = map_option f (get_row key k ts)"
proof (induction rs arbitrary: ts)
  case (Cons r rs)
  then obtain u us where "ts = u # us" "key u = key r" "f u = f r"
      "map (\<lambda>r. (key r, f r)) rs = map (\<lambda>r. (key r, f r)) us"
    by (cases ts) auto
  then show ?case using Cons.IH by (simp add: table_simps)
qed (simp add: table_simps)

lemma unique_rel:
  "list_all2 R rs ys \<Longrightarrow> (\<And>a b. R a b \<Longrightarrow> key b = key a) \<Longrightarrow> unique_by key ys = unique_by key rs"
proof -
  assume "list_all2 R rs ys" and k: "\<And>a b. R a b \<Longrightarrow> key b = key a"
  then have "map key ys = map key rs" by (induction rule: list_all2_induct) auto
  then show ?thesis by (simp add: unique_by_def)
qed

lemma unique_filter_key:
  "unique_by key rs \<Longrightarrow> get_row key k rs = Some r \<Longrightarrow> P r \<Longrightarrow> (\<And>x. P x \<Longrightarrow> key x = k) \<Longrightarrow> filter P rs = [r]"
proof (induction rs)
  case (Cons a rs)
  show ?case
  proof (cases "key a = k")
    case True
    then have "a = r" using Cons.prems(2) by (simp add: table_simps)
    moreover have "\<not> P x" if "x \<in> set rs" for x
      using Cons.prems(1) Cons.prems(4) [of x] True that by (auto simp: unique_by_def image_iff)
    then have "filter P rs = []" by (simp add: filter_empty_conv)
    ultimately show ?thesis using Cons.prems(3) by simp
  next
    case False
    then show ?thesis using Cons by (auto simp: table_simps unique_by_def)
  qed
qed (simp add: table_simps)

subsection \<open>Ordered selection\<close>

lemma set_select_ordered: "set (select_ordered P ord n rs) \<subseteq> {r \<in> set rs. P r}"
  unfolding select_ordered_def using set_take_subset by fastforce

lemma select_ordered_length: "length (select_ordered P ord n rs) \<le> n"
  by (simp add: select_ordered_def)

lemma distinct_select_ordered: "distinct rs \<Longrightarrow> distinct (select_ordered P ord n rs)"
  by (simp add: select_ordered_def)

lemma unique_select_ordered: "unique_by key rs \<Longrightarrow> distinct (map key (select_ordered P ord n rs))"
proof -
  assume "unique_by key rs"
  then have "distinct (map key (filter P rs))" by (simp add: unique_by_def distinct_map_filter)
  then have "distinct (map key (sort_key ord (filter P rs)))" by (simp add: distinct_map)
  then show ?thesis by (simp add: select_ordered_def take_map [symmetric])
qed

lemma first_row_simps [simp]: "first_row [] = None" "first_row (r # rs) = Some r"
  by (simp_all add: first_row_def)

lemma first_row_None_iff: "first_row rs = None \<longleftrightarrow> rs = []"
  by (cases rs) simp_all

lemma first_row_select_None:
  "first_row (select_ordered P ord (Suc n) rs) = None \<longleftrightarrow> (\<forall>r \<in> set rs. \<not> P r)"
proof -
  have "sort_key ord (filter P rs) = [] \<longleftrightarrow> filter P rs = []"
    by (metis set_sort set_empty)
  then show ?thesis by (simp add: first_row_None_iff select_ordered_def filter_empty_conv)
qed

lemma sort_key_hd_le:
  assumes "sort_key ord rs = r # ss" and "s \<in> set rs"
  shows "ord r \<le> ord s"
proof -
  have "sorted (map ord (r # ss))" using assms(1) by (metis sorted_sort_key)
  moreover have "s \<in> set (r # ss)" using assms by (metis set_sort)
  ultimately show ?thesis by auto
qed

lemma first_row_select_Some:
  assumes "first_row (select_ordered P ord (Suc n) rs) = Some r"
  shows "r \<in> set rs \<and> P r \<and> (\<forall>s \<in> set rs. P s \<longrightarrow> ord r \<le> ord s)"
proof -
  from assms obtain ss where srt: "sort_key ord (filter P rs) = r # ss"
    unfolding select_ordered_def
    by (cases "sort_key ord (filter P rs)") auto
  then have "r \<in> set (filter P rs)" by (metis list.set_intros(1) set_sort)
  moreover have "\<forall>s \<in> set (filter P rs). ord r \<le> ord s"
    using sort_key_hd_le [OF srt] by blast
  ultimately show ?thesis by simp
qed

text \<open>What an ordered selection leaves out comes after what it takes, and it stops short only when
  nothing is left.\<close>

lemma select_ordered_rest:
  assumes "s \<in> set rs" and "P s" and "s \<notin> set (select_ordered P ord n rs)"
    and "r \<in> set (select_ordered P ord n rs)"
  shows "ord r \<le> ord s"
proof -
  let ?l = "sort_key ord (filter P rs)"
  have "s \<in> set ?l" using assms(1,2) by simp
  then have d: "s \<in> set (drop n ?l)" using assms(3) unfolding select_ordered_def
    by (metis Un_iff append_take_drop_id set_append)
  have "sorted (map ord (take n ?l @ drop n ?l))" by simp
  then have "\<forall>x \<in> set (map ord (take n ?l)). \<forall>y \<in> set (map ord (drop n ?l)). x \<le> y"
    unfolding map_append sorted_append by blast
  then show ?thesis using d assms(4) by (auto simp: select_ordered_def)
qed

lemma select_ordered_full:
  assumes "s \<in> set rs" and "P s" and "s \<notin> set (select_ordered P ord n rs)"
  shows "length (select_ordered P ord n rs) = n"
proof (rule ccontr)
  assume "length (select_ordered P ord n rs) \<noteq> n"
  then have "select_ordered P ord n rs = sort_key ord (filter P rs)"
    by (auto simp: select_ordered_def min_def split: if_splits)
  then show False using assms by simp
qed

subsection \<open>Contracts\<close>

text \<open>An invariant every step keeps holds along every run.\<close>

locale preserved =
  fixes step :: "'s \<Rightarrow> 's \<Rightarrow> bool"
    and inv :: "'s \<Rightarrow> bool"
  assumes step_inv: "step s t \<Longrightarrow> inv s \<Longrightarrow> inv t"
begin

lemma run_inv: "step\<^sup>*\<^sup>* s t \<Longrightarrow> inv s \<Longrightarrow> inv t"
  by (induction rule: rtranclp_induct) (auto intro: step_inv)

end

text \<open>
  A fenced lease: rows \<open>'k\<close> of a state carry a lease generation, and \<open>current s k tok g\<close> says
  that the claim with token \<open>tok\<close> and generation \<open>g\<close> is the one the row records. Generations
  never fall, a recorded claim carries the row's generation, and a claim that appears carries a
  generation above the old one. Then a claim that was lost is lost for good.
\<close>

locale fenced_lease = preserved step inv
  for step :: "'s \<Rightarrow> 's \<Rightarrow> bool" and inv :: "'s \<Rightarrow> bool" +
  fixes generation :: "'s \<Rightarrow> 'k \<Rightarrow> int"
    and current :: "'s \<Rightarrow> 'k \<Rightarrow> string \<Rightarrow> int \<Rightarrow> bool"
  assumes generation_mono: "step s t \<Longrightarrow> inv s \<Longrightarrow> generation s k \<le> generation t k"
    and current_generation: "inv s \<Longrightarrow> current s k tok g \<Longrightarrow> generation s k = g"
    and new_claim: "step s t \<Longrightarrow> inv s \<Longrightarrow> current t k tok g \<Longrightarrow> \<not> current s k tok g \<Longrightarrow> generation s k < g"
begin

lemma stays_lost:
  "step\<^sup>*\<^sup>* s t \<Longrightarrow> inv s \<Longrightarrow> \<not> current s k tok g \<Longrightarrow> g \<le> generation s k \<Longrightarrow>
   inv t \<and> \<not> current t k tok g \<and> g \<le> generation t k"
proof (induction rule: rtranclp_induct)
  case base
  then show ?case by simp
next
  case (step t u)
  then have t: "inv t" "\<not> current t k tok g" "g \<le> generation t k" by auto
  have "inv u" using step.hyps t(1) by (blast intro: step_inv)
  moreover have "\<not> current u k tok g"
    using new_claim [OF step.hyps(2) t(1)] t(2,3) by fastforce
  moreover have "g \<le> generation u k"
    using generation_mono [OF step.hyps(2) t(1)] t(3) by (meson order_trans)
  ultimately show ?case by blast
qed

lemma generation_run_mono: "step\<^sup>*\<^sup>* s t \<Longrightarrow> inv s \<Longrightarrow> generation s k \<le> generation t k"
proof (induction rule: rtranclp_induct)
  case (step x y)
  then have "inv x" by (blast intro: run_inv)
  then show ?case using step generation_mono by (meson order_trans)
qed simp

lemma fencing:
  assumes "inv s" and "current s k tok g" and "step\<^sup>*\<^sup>* s t" and "\<not> current t k tok g"
    and "step\<^sup>*\<^sup>* t u"
  shows "\<not> current u k tok g"
proof -
  have "inv t" using run_inv assms(1,3) by blast
  moreover have "g \<le> generation t k"
    using generation_run_mono [OF assms(3,1), of k] current_generation [OF assms(1,2)] by simp
  ultimately show ?thesis using stays_lost assms(4,5) by blast
qed

lemma supersedes:
  assumes "inv s" and "step\<^sup>*\<^sup>* s t" and "current s k tok g" and "current t k tok' g'"
  shows "g \<le> g'"
  using assms current_generation run_inv generation_run_mono by metis

end

text \<open>Rows that evolve one by one under a relation, with new ones appended.\<close>

definition rows_evolve :: "('r \<Rightarrow> 'r \<Rightarrow> bool) \<Rightarrow> 'r list \<Rightarrow> 'r list \<Rightarrow> bool" where
  "rows_evolve R rs ts \<longleftrightarrow> (\<exists>ys xs. ts = ys @ xs \<and> list_all2 R rs ys)"

lemma rows_evolve_refl [simp]: "(\<And>r. R r r) \<Longrightarrow> rows_evolve R rs rs"
  unfolding rows_evolve_def by (intro exI [of _ rs] exI [of _ "[]"]) (simp add: list_all2_refl)

lemma rows_evolve_append: "(\<And>r. R r r) \<Longrightarrow> rows_evolve R rs (rs @ xs)"
  unfolding rows_evolve_def by (intro exI [of _ rs] exI [of _ xs]) (simp add: list_all2_refl)

lemma rows_evolve_update:
  "(\<And>r. R r r) \<Longrightarrow> (\<And>r. r \<in> set rs \<Longrightarrow> P r \<Longrightarrow> R r (f r)) \<Longrightarrow> rows_evolve R rs (update_where P f rs)"
  unfolding rows_evolve_def
  by (intro exI [of _ "update_where P f rs"] exI [of _ "[]"]) (simp add: list_all2_update_where)

lemma rows_evolve_trans:
  assumes "\<And>a b c. R a b \<Longrightarrow> R b c \<Longrightarrow> R a c" and "rows_evolve R rs ts" and "rows_evolve R ts us"
  shows "rows_evolve R rs us"
proof -
  obtain ys xs where t: "ts = ys @ xs" "list_all2 R rs ys" using assms(2) by (auto simp: rows_evolve_def)
  obtain zs ws where u: "us = zs @ ws" "list_all2 R ts zs" using assms(3) by (auto simp: rows_evolve_def)
  from t(1) u(2) obtain z1 z2 where z: "zs = z1 @ z2" "list_all2 R ys z1" by (auto simp: list_all2_append1)
  have "list_all2 R rs z1" by (rule list_all2_trans [OF _ t(2) z(2)]) (rule assms(1))
  then show ?thesis unfolding rows_evolve_def by (intro exI [of _ z1] exI [of _ "z2 @ ws"]) (simp add: u(1) z(1))
qed

lemma rows_evolve_kept:
  assumes "rows_evolve R rs ts" and "\<And>a b. R a b \<Longrightarrow> key b = key a" and "get_row key k rs = Some a"
  shows "\<exists>b. get_row key k ts = Some b \<and> R a b"
proof -
  obtain ys xs where t: "ts = ys @ xs" "list_all2 R rs ys" using assms(1) by (auto simp: rows_evolve_def)
  have "rel_option R (get_row key k rs) (get_row key k ys)" by (rule get_row_rel [OF t(2) assms(2)])
  then obtain b where "get_row key k ys = Some b" "R a b" using assms(3) by (cases "get_row key k ys") auto
  then show ?thesis by (simp add: t(1) table_simps)
qed

text \<open>
  The usual source of a fenced lease: a table whose rows carry a generation and, while claimed, the
  holder's token. A transaction moves the rows one by one and may append unclaimed ones; a row keeps
  its key, and a new holder comes with a higher generation.
\<close>

definition lease_move :: "('r \<Rightarrow> 'k) \<Rightarrow> ('r \<Rightarrow> int) \<Rightarrow> ('r \<Rightarrow> string option) \<Rightarrow> 'r \<Rightarrow> 'r \<Rightarrow> bool" where
  "lease_move key gen holder a b \<longleftrightarrow>
     key b = key a \<and> (gen a < gen b \<or> gen b = gen a \<and> (holder b = None \<or> holder b = holder a))"

definition row_generation :: "('r \<Rightarrow> 'k) \<Rightarrow> ('r \<Rightarrow> int) \<Rightarrow> 'r list \<Rightarrow> 'k \<Rightarrow> int" where
  "row_generation key gen rs k = (case get_row key k rs of None \<Rightarrow> 0 | Some r \<Rightarrow> gen r)"

definition row_current :: "('r \<Rightarrow> 'k) \<Rightarrow> ('r \<Rightarrow> int) \<Rightarrow> ('r \<Rightarrow> string option) \<Rightarrow> 'r list \<Rightarrow> 'k \<Rightarrow> string \<Rightarrow> int \<Rightarrow> bool" where
  "row_current key gen holder rs k tok g \<longleftrightarrow>
     (case get_row key k rs of None \<Rightarrow> False | Some r \<Rightarrow> holder r = Some tok \<and> gen r = g)"

lemma lease_move_refl [simp]: "lease_move key gen holder a a"
  by (simp add: lease_move_def)

lemma lease_move_trans: "lease_move key gen holder a b \<Longrightarrow> lease_move key gen holder b c \<Longrightarrow> lease_move key gen holder a c"
  by (auto simp: lease_move_def)

lemma lease_moves_refl [simp]: "list_all2 (lease_move key gen holder) rs rs"
  by (simp add: list_all2_refl)

lemma lease_moves_trans:
  "list_all2 (lease_move key gen holder) xs ys \<Longrightarrow> list_all2 (lease_move key gen holder) ys zs \<Longrightarrow>
   list_all2 (lease_move key gen holder) xs zs"
  by (rule list_all2_trans) (auto intro: lease_move_trans)

lemma lease_moves_update:
  "(\<And>r. r \<in> set rs \<Longrightarrow> P r \<Longrightarrow> lease_move key gen holder r (f r)) \<Longrightarrow>
   list_all2 (lease_move key gen holder) rs (update_where P f rs)"
  by (rule list_all2_update_where) auto

definition table_move :: "('r \<Rightarrow> 'k) \<Rightarrow> ('r \<Rightarrow> int) \<Rightarrow> ('r \<Rightarrow> string option) \<Rightarrow> 'r list \<Rightarrow> 'r list \<Rightarrow> bool" where
  "table_move key gen holder rs ts \<longleftrightarrow>
     (\<exists>ys xs. ts = ys @ xs \<and> list_all2 (lease_move key gen holder) rs ys \<and> (\<forall>x \<in> set xs. holder x = None \<and> 0 \<le> gen x))"

lemma table_move_rows: "list_all2 (lease_move key gen holder) rs ts \<Longrightarrow> table_move key gen holder rs ts"
  unfolding table_move_def by (intro exI [of _ ts] exI [of _ "[]"]) simp

lemma table_move_refl [simp]: "table_move key gen holder rs rs"
  by (rule table_move_rows) simp

lemma table_move_append: "holder x = None \<Longrightarrow> 0 \<le> gen x \<Longrightarrow> table_move key gen holder rs (rs @ [x])"
  unfolding table_move_def by (intro exI [of _ rs] exI [of _ "[x]"]) simp

lemma table_move_get_row:
  assumes "table_move key gen holder rs ts" and "get_row key k ts = Some b"
  shows "(\<exists>a. get_row key k rs = Some a \<and> lease_move key gen holder a b) \<or>
         (get_row key k rs = None \<and> holder b = None \<and> 0 \<le> gen b)"
proof -
  obtain ys xs where t: "ts = ys @ xs" "list_all2 (lease_move key gen holder) rs ys"
      "\<forall>x \<in> set xs. holder x = None \<and> 0 \<le> gen x"
    using assms(1) by (auto simp: table_move_def)
  have rel: "rel_option (lease_move key gen holder) (get_row key k rs) (get_row key k ys)"
    by (rule get_row_rel [OF t(2)]) (simp add: lease_move_def)
  show ?thesis
  proof (cases "get_row key k ys")
    case None
    then have "b \<in> set xs" using assms(2) t(1) by (auto simp: table_simps dest: get_row_SomeD)
    moreover have "get_row key k rs = None" using rel None by (cases "get_row key k rs") auto
    ultimately show ?thesis using t(3) by blast
  next
    case (Some c)
    then have "c = b" using assms(2) t(1) by (simp add: table_simps)
    then show ?thesis using rel Some by (cases "get_row key k rs") auto
  qed
qed

lemma table_move_kept:
  assumes "table_move key gen holder rs ts" and "get_row key k rs = Some a"
  shows "\<exists>b. get_row key k ts = Some b \<and> lease_move key gen holder a b"
proof -
  obtain ys xs where t: "ts = ys @ xs" "list_all2 (lease_move key gen holder) rs ys"
    using assms(1) by (auto simp: table_move_def)
  have "rel_option (lease_move key gen holder) (get_row key k rs) (get_row key k ys)"
    by (rule get_row_rel [OF t(2)]) (simp add: lease_move_def)
  then obtain b where "get_row key k ys = Some b" "lease_move key gen holder a b"
    using assms(2) by (cases "get_row key k ys") auto
  then show ?thesis by (simp add: t(1) table_simps)
qed

locale lease_table = preserved step inv
  for step :: "'s \<Rightarrow> 's \<Rightarrow> bool" and inv :: "'s \<Rightarrow> bool" +
  fixes rows :: "'s \<Rightarrow> 'r list"
    and key :: "'r \<Rightarrow> 'k"
    and gen :: "'r \<Rightarrow> int"
    and holder :: "'r \<Rightarrow> string option"
  assumes moves: "step s t \<Longrightarrow> inv s \<Longrightarrow> table_move key gen holder (rows s) (rows t)"

sublocale lease_table \<subseteq> fenced_lease step inv "\<lambda>s. row_generation key gen (rows s)" "\<lambda>s. row_current key gen holder (rows s)"
proof unfold_locales
  fix s t k tok g
  assume st: "step s t" "inv s"
  note m = moves [OF st]
  show "row_generation key gen (rows s) k \<le> row_generation key gen (rows t) k"
    using table_move_get_row [OF m, of k] table_move_kept [OF m, of k]
    by (cases "get_row key k (rows s)"; cases "get_row key k (rows t)")
      (auto simp: row_generation_def lease_move_def)
  show "row_generation key gen (rows s) k < g"
    if c: "row_current key gen holder (rows t) k tok g" and n: "\<not> row_current key gen holder (rows s) k tok g"
  proof -
    from c obtain b where b: "get_row key k (rows t) = Some b" "holder b = Some tok" "gen b = g"
      by (auto simp: row_current_def split: option.splits)
    then obtain a where "get_row key k (rows s) = Some a" "lease_move key gen holder a b"
      using table_move_get_row [OF m b(1)] by auto
    then show ?thesis using b n by (auto simp: row_generation_def row_current_def lease_move_def)
  qed
qed (auto simp: row_generation_def row_current_def split: option.splits)

end
