(* ===== verification/Locks.thy ===== *)
theory Locks
  imports Prelude
begin

text \<open>
  Resource locks (\<open>modules/locks/service.py\<close>, \<open>backend_core/persistence/locks/models.py\<close>): advisory
  edit locks with an owner, a token and a lease. Each operation is a sequence of SQL statements,
  each atomic, with other sessions running between them; \<open>env i\<close> is what they did before the
  \<open>i\<close>-th statement, \<open>nows\<close> and \<open>toks\<close> are the clock readings and the fresh \<open>uuid4\<close> tokens of the
  attempts. The relation \<open>lock_step\<close> lists the statements that write the table; the last part
  shows that every operation is a run of them and that a live lock excludes other owners.
\<close>

subsection \<open>Rows\<close>

record resource_lock =
  lk_resource_type :: string
  lk_resource_id :: string
  lk_owner_id :: string
  lk_lock_token :: string
  lk_acquired_at :: timestamp
  lk_expires_at :: timestamp
  lk_last_heartbeat :: timestamp

record lock_status =
  ls_resource_type :: string
  ls_resource_id :: string
  ls_owner_id :: string
  ls_lock_token :: string
  ls_acquired_at :: timestamp
  ls_expires_at :: timestamp
  ls_last_heartbeat :: timestamp
  ls_is_expired :: bool

type_synonym lock_table = "resource_lock list"

abbreviation lock_key :: "resource_lock \<Rightarrow> string \<times> string" where
  "lock_key l \<equiv> (lk_resource_type l, lk_resource_id l)"

definition is_expired :: "timestamp \<Rightarrow> resource_lock \<Rightarrow> bool" where
  "is_expired now l \<longleftrightarrow> lk_expires_at l \<le> now"

text \<open>\<open>ttl_seconds or settings.lock_ttl_seconds\<close>: a missing or zero TTL takes the default.\<close>

definition lock_expires_at :: "settings \<Rightarrow> timestamp \<Rightarrow> int option \<Rightarrow> timestamp" where
  "lock_expires_at cfg now ttl =
     now + seconds (case ttl of None \<Rightarrow> lock_ttl_seconds cfg
                    | Some n \<Rightarrow> if n = 0 then lock_ttl_seconds cfg else n)"

definition lock_status_of :: "resource_lock \<Rightarrow> timestamp \<Rightarrow> lock_status" where
  "lock_status_of l now =
     \<lparr>ls_resource_type = lk_resource_type l, ls_resource_id = lk_resource_id l, ls_owner_id = lk_owner_id l,
      ls_lock_token = lk_lock_token l, ls_acquired_at = lk_acquired_at l, ls_expires_at = lk_expires_at l,
      ls_last_heartbeat = lk_last_heartbeat l, ls_is_expired = is_expired now l\<rparr>"

definition get_lock :: "string \<Rightarrow> string \<Rightarrow> lock_table \<Rightarrow> resource_lock option" where
  "get_lock rt rid t = get_row lock_key (rt, rid) t"

subsection \<open>The statements that write the table\<close>

text \<open>\<open>INSERT\<close>: refused by the primary key and by the unique token.\<close>

definition insert_lock :: "resource_lock \<Rightarrow> lock_table \<Rightarrow> lock_table option" where
  "insert_lock l t =
     (if get_row lock_key (lock_key l) t \<noteq> None \<or> get_row lk_lock_token (lk_lock_token l) t \<noteq> None
      then None else Some (t @ [l]))"

definition delete_expired_where :: "string \<Rightarrow> string \<Rightarrow> timestamp \<Rightarrow> resource_lock \<Rightarrow> bool" where
  "delete_expired_where rt rid now l \<longleftrightarrow> lock_key l = (rt, rid) \<and> lk_expires_at l \<le> now"

definition delete_expired_lock :: "string \<Rightarrow> string \<Rightarrow> timestamp \<Rightarrow> lock_table \<Rightarrow> bool \<times> lock_table" where
  "delete_expired_lock rt rid now t =
     (rowcount (delete_expired_where rt rid now) t = 1, delete_where (delete_expired_where rt rid now) t)"

definition take_where :: "string \<Rightarrow> string \<Rightarrow> string \<Rightarrow> timestamp \<Rightarrow> resource_lock \<Rightarrow> bool" where
  "take_where rt rid owner now l \<longleftrightarrow>
     lock_key l = (rt, rid) \<and> (lk_owner_id l = owner \<or> lk_expires_at l \<le> now)"

definition take_values :: "string \<Rightarrow> string \<Rightarrow> timestamp \<Rightarrow> timestamp \<Rightarrow> resource_lock \<Rightarrow> resource_lock" where
  "take_values owner tok now expires l =
     l\<lparr>lk_owner_id := owner, lk_lock_token := tok, lk_acquired_at := now, lk_expires_at := expires,
       lk_last_heartbeat := now\<rparr>"

text \<open>The guarded \<open>UPDATE\<close> of \<open>acquire_lock\<close>: the unique token refuses it.\<close>

definition take_lock ::
  "string \<Rightarrow> string \<Rightarrow> string \<Rightarrow> string \<Rightarrow> timestamp \<Rightarrow> timestamp \<Rightarrow> lock_table \<Rightarrow> lock_table option" where
  "take_lock rt rid owner tok now expires t =
     (if list_ex (\<lambda>l. lk_lock_token l = tok \<and> \<not> take_where rt rid owner now l) t then None
      else Some (update_where (take_where rt rid owner now) (take_values owner tok now expires) t))"

definition token_where :: "string \<Rightarrow> string \<Rightarrow> string \<Rightarrow> string \<Rightarrow> timestamp \<Rightarrow> resource_lock \<Rightarrow> bool" where
  "token_where rt rid owner tok now l \<longleftrightarrow>
     lock_key l = (rt, rid) \<and> lk_owner_id l = owner \<and> lk_lock_token l = tok \<and> lk_expires_at l > now"

definition heartbeat_values :: "timestamp \<Rightarrow> timestamp \<Rightarrow> resource_lock \<Rightarrow> resource_lock" where
  "heartbeat_values now expires l = l\<lparr>lk_last_heartbeat := now, lk_expires_at := expires\<rparr>"

subsection \<open>Operations\<close>

definition lookup_lock_status ::
  "string \<Rightarrow> string \<Rightarrow> timestamp \<Rightarrow> (nat \<Rightarrow> lock_table \<Rightarrow> lock_table) \<Rightarrow> lock_table \<Rightarrow>
   (lock_status option \<times> bool) \<times> lock_table" where
  "lookup_lock_status rt rid now env t =
     (let t0 = env 0 t
      in case get_lock rt rid t0 of
           None \<Rightarrow> ((None, False), t0)
         | Some l \<Rightarrow>
             if is_expired now l then
               (let (deleted, t1) = delete_expired_lock rt rid now (env 1 t0)
                in if deleted then ((None, True), t1)
                   else let t2 = env 2 t1
                        in case get_lock rt rid t2 of
                             None \<Rightarrow> ((None, False), t2)
                           | Some l2 \<Rightarrow> ((Some (lock_status_of l2 now), False), t2))
             else ((Some (lock_status_of l now), False), t0))"

definition locked_by_other :: "string \<Rightarrow> string \<Rightarrow> py_error" where
  "locked_by_other rt rid = ValueError (rt @ '' '' @ rid @ '' is locked by another owner'')"

definition lock_not_acquired :: "string \<Rightarrow> string \<Rightarrow> py_error" where
  "lock_not_acquired rt rid = ValueError (rt @ '' '' @ rid @ '' lock could not be acquired'')"

definition lock_not_active :: "string \<Rightarrow> string \<Rightarrow> py_error" where
  "lock_not_active rt rid = ValueError (rt @ '' '' @ rid @ '' lock is not active'')"

definition owned_by_other :: "string \<Rightarrow> string \<Rightarrow> py_error" where
  "owned_by_other rt rid = ValueError (rt @ '' '' @ rid @ '' lock is owned by another owner'')"

text \<open>One pass of the loop of \<open>acquire_lock\<close>; \<open>None\<close> is \<open>continue\<close>. After a successful insert the
  row is read back with \<open>session.refresh\<close>, which fails if the row is gone.\<close>

definition acquire_attempt ::
  "settings \<Rightarrow> string \<Rightarrow> string \<Rightarrow> string \<Rightarrow> int option \<Rightarrow> timestamp \<Rightarrow> string \<Rightarrow>
   (nat \<Rightarrow> lock_table \<Rightarrow> lock_table) \<Rightarrow> lock_table \<Rightarrow> lock_status result option \<times> lock_table" where
  "acquire_attempt cfg rt rid owner ttl now tok env t =
     (let t0 = env 0 t; t1 = env 1 t0
      in case get_lock rt rid t0 of
           None \<Rightarrow>
             (case insert_lock \<lparr>lk_resource_type = rt, lk_resource_id = rid, lk_owner_id = owner,
                      lk_lock_token = tok, lk_acquired_at = now, lk_expires_at = lock_expires_at cfg now ttl,
                      lk_last_heartbeat = now\<rparr> t1 of
                None \<Rightarrow> (None, t1)
              | Some t2 \<Rightarrow>
                  (let t3 = env 2 t2
                   in case get_lock rt rid t3 of
                        None \<Rightarrow> (Some (Inl (RuntimeError ''Could not refresh instance'')), t3)
                      | Some l \<Rightarrow> (Some (Inr (lock_status_of l now)), t3)))
         | Some l \<Rightarrow>
             if lk_owner_id l \<noteq> owner \<and> \<not> is_expired now l
             then (Some (Inl (locked_by_other rt rid)), t0)
             else if rowcount (take_where rt rid owner now) t1 \<noteq> 1 then (None, t1)
             else case take_lock rt rid owner tok now (lock_expires_at cfg now ttl) t1 of
                    None \<Rightarrow> (Some (Inl (RuntimeError ''IntegrityError'')), t1)
                  | Some t2 \<Rightarrow>
                      (let t3 = env 2 t2
                       in case get_lock rt rid t3 of
                            None \<Rightarrow> (None, t3)
                          | Some c \<Rightarrow> (Some (Inr (lock_status_of c now)), t3)))"

text \<open>The verdict after both passes went round.\<close>

definition acquire_verdict :: "string \<Rightarrow> string \<Rightarrow> string \<Rightarrow> timestamp \<Rightarrow> lock_table \<Rightarrow> py_error" where
  "acquire_verdict rt rid owner now t =
     (case get_lock rt rid t of
        None \<Rightarrow> lock_not_acquired rt rid
      | Some c \<Rightarrow> if lk_owner_id c = owner \<or> is_expired now c then lock_not_acquired rt rid
                  else locked_by_other rt rid)"

definition acquire_lock ::
  "settings \<Rightarrow> string \<Rightarrow> string \<Rightarrow> string \<Rightarrow> int option \<Rightarrow> (nat \<Rightarrow> timestamp) \<Rightarrow> (nat \<Rightarrow> string) \<Rightarrow>
   (nat \<Rightarrow> lock_table \<Rightarrow> lock_table) \<Rightarrow> lock_table \<Rightarrow> lock_status result \<times> lock_table" where
  "acquire_lock cfg rt rid owner ttl nows toks env t =
     (case acquire_attempt cfg rt rid owner ttl (nows 0) (toks 0) env t of
        (Some r, t1) \<Rightarrow> (r, t1)
      | (None, t1) \<Rightarrow>
          (case acquire_attempt cfg rt rid owner ttl (nows 1) (toks 1) (\<lambda>i. env (3 + i)) t1 of
             (Some r, t2) \<Rightarrow> (r, t2)
           | (None, t2) \<Rightarrow> let t3 = env 6 t2 in (Inl (acquire_verdict rt rid owner (nows 2) t3), t3)))"

definition heartbeat_lock ::
  "settings \<Rightarrow> string \<Rightarrow> string \<Rightarrow> string \<Rightarrow> string \<Rightarrow> int option \<Rightarrow> timestamp \<Rightarrow>
   (nat \<Rightarrow> lock_table \<Rightarrow> lock_table) \<Rightarrow> lock_table \<Rightarrow> lock_status result \<times> lock_table" where
  "heartbeat_lock cfg rt rid owner tok ttl now env t =
     (let t0 = env 0 t
      in if rowcount (token_where rt rid owner tok now) t0 \<noteq> 1 then
           (let t1 = env 1 t0
            in case get_lock rt rid t1 of
                 None \<Rightarrow> (Inl (lock_not_active rt rid), t1)
               | Some l \<Rightarrow>
                   if is_expired now l then (Inl (lock_not_active rt rid), t1)
                   else if lk_owner_id l = owner then (Inr (lock_status_of l now), t1)
                   else (Inl (owned_by_other rt rid), t1))
         else
           let t1 = update_where (token_where rt rid owner tok now)
                      (heartbeat_values now (lock_expires_at cfg now ttl)) t0;
               t2 = env 1 t1
           in case get_lock rt rid t2 of
                None \<Rightarrow> (Inl (lock_not_active rt rid), t2)
              | Some l \<Rightarrow> (Inr (lock_status_of l now), t2))"

definition release_lock ::
  "string \<Rightarrow> string \<Rightarrow> string \<Rightarrow> string \<Rightarrow> timestamp \<Rightarrow> (nat \<Rightarrow> lock_table \<Rightarrow> lock_table) \<Rightarrow> lock_table \<Rightarrow>
   bool \<times> lock_table" where
  "release_lock rt rid owner tok now env t =
     (let t0 = env 0 t; P = token_where rt rid owner tok now; t1 = delete_where P t0
      in if rowcount P t0 = 1 then (True, t1)
         else (False, snd (delete_expired_lock rt rid now (env 1 t1))))"

definition ensure_mutation_lock ::
  "string \<Rightarrow> string \<Rightarrow> string option \<Rightarrow> timestamp \<Rightarrow> (nat \<Rightarrow> lock_table \<Rightarrow> lock_table) \<Rightarrow> lock_table \<Rightarrow>
   unit result \<times> lock_table" where
  "ensure_mutation_lock rt rid owner now env t =
     (let t0 = env 0 t
      in case get_lock rt rid t0 of
           None \<Rightarrow> (Inr (), t0)
         | Some l \<Rightarrow>
             if is_expired now l then (Inr (), snd (delete_expired_lock rt rid now (env 1 t0)))
             else if owner \<noteq> Some (lk_owner_id l) then (Inl (locked_by_other rt rid), t0)
             else (Inr (), t0))"

subsection \<open>The table as a transition system\<close>

text \<open>\<open>lock_step who now t t'\<close>: one statement of a session of owner \<open>who\<close> whose clock read \<open>now\<close>.\<close>

inductive lock_step :: "string \<Rightarrow> timestamp \<Rightarrow> lock_table \<Rightarrow> lock_table \<Rightarrow> bool" where
  step_insert: "insert_lock l t = Some t' \<Longrightarrow> lk_owner_id l = who \<Longrightarrow> lock_step who now t t'"
| step_take: "take_lock rt rid who tok now e t = Some t' \<Longrightarrow> lock_step who now t t'"
| step_heartbeat: "lock_step who now t (update_where (token_where rt rid who tok now) (heartbeat_values now e) t)"
| step_release: "lock_step who now t (delete_where (token_where rt rid who tok now) t)"
| step_expire: "lock_step who now t (delete_where (delete_expired_where rt rid now) t)"

definition lock_inv :: "lock_table \<Rightarrow> bool" where
  "lock_inv t \<longleftrightarrow> unique_by lock_key t \<and> unique_by lk_lock_token t"

text \<open>What sessions of owners other than \<open>a\<close> do while their clocks read less than \<open>deadline\<close>.\<close>

definition other_step :: "string \<Rightarrow> timestamp \<Rightarrow> lock_table \<Rightarrow> lock_table \<Rightarrow> bool" where
  "other_step a deadline t t' \<longleftrightarrow> (\<exists>who now. who \<noteq> a \<and> now < deadline \<and> lock_step who now t t')"

text \<open>The lock of \<open>a\<close> on a resource is in the table and runs at least to \<open>deadline\<close>.\<close>

definition held_until :: "resource_lock \<Rightarrow> timestamp \<Rightarrow> lock_table \<Rightarrow> bool" where
  "held_until l deadline t \<longleftrightarrow> lock_inv t \<and> l \<in> set t \<and> deadline \<le> lk_expires_at l"


lemma take_where_key: "take_where rt rid owner now l \<Longrightarrow> lock_key l = (rt, rid)"
  by (simp add: take_where_def)

lemma token_where_key: "token_where rt rid owner tok now l \<Longrightarrow> lock_key l = (rt, rid)"
  by (simp add: token_where_def)

lemma take_values_key [simp]:
  "lk_resource_type (take_values o' tok now e l) = lk_resource_type l"
  "lk_resource_id (take_values o' tok now e l) = lk_resource_id l"
  by (simp_all add: take_values_def)

lemma heartbeat_values_frame [simp]:
  "lk_resource_type (heartbeat_values now e l) = lk_resource_type l"
  "lk_resource_id (heartbeat_values now e l) = lk_resource_id l"
  "lk_lock_token (heartbeat_values now e l) = lk_lock_token l"
  "lk_owner_id (heartbeat_values now e l) = lk_owner_id l"
  by (simp_all add: heartbeat_values_def)

lemma unique_token_take:
  assumes "unique_by lock_key t" and "unique_by lk_lock_token t"
    and "\<And>l. l \<in> set t \<Longrightarrow> lk_lock_token l = tok \<Longrightarrow> P l" and "\<And>l. P l \<Longrightarrow> lock_key l = k"
    and "\<And>l. lk_lock_token (f l) = tok"
  shows "unique_by lk_lock_token (update_where P f t)"
  using assms(1-3)
proof (induction t)
  case (Cons a t)
  have IH: "unique_by lk_lock_token (update_where P f t)"
    using Cons by (simp add: unique_by_def)
  show ?case
  proof (cases "P a")
    case True
    then have "\<forall>l \<in> set t. \<not> P l" using Cons.prems(1) assms(4) by (force simp: unique_by_def)
    then have "update_where P f t = t" "\<forall>l \<in> set t. lk_lock_token l \<noteq> tok"
      using Cons.prems(3) by (auto intro: update_where_none)
    then show ?thesis using Cons.prems(2) True assms(5) by (auto simp: unique_by_def update_where_def)
  next
    case False
    have "lk_lock_token a \<notin> lk_lock_token ` set (update_where P f t)"
      using Cons.prems(2,3) False assms(5) by (force simp: unique_by_def set_update_where)
    then show ?thesis using IH False by (simp add: unique_by_def update_where_Cons)
  qed
qed (simp add: unique_by_def update_where_def)

lemma lock_step_inv: "lock_step who now t t' \<Longrightarrow> lock_inv t \<Longrightarrow> lock_inv t'"
proof (induction rule: lock_step.induct)
  case (step_insert l t t' who now)
  then show ?case by (auto simp: lock_inv_def insert_lock_def unique_append1 split: if_splits)
next
  case (step_take rt rid who tok now e t t')
  then have t': "t' = update_where (take_where rt rid who now) (take_values who tok now e) t"
      and tok: "\<And>l. l \<in> set t \<Longrightarrow> lk_lock_token l = tok \<Longrightarrow> take_where rt rid who now l"
    by (auto simp: take_lock_def list_ex_iff split: if_splits)
  have "unique_by lk_lock_token t'"
    unfolding t' by (rule unique_token_take [OF _ _ tok take_where_key])
      (use step_take.prems in \<open>auto simp: lock_inv_def take_values_def\<close>)
  then show ?case using step_take.prems by (simp add: lock_inv_def t' unique_update)
qed (simp_all add: lock_inv_def unique_update unique_delete)

text \<open>A statement of another owner leaves a lock that has not expired as it is.\<close>

lemma lock_step_other:
  assumes "lock_step who now t t'" and "l \<in> set t" and "lk_owner_id l \<noteq> who" and "now < lk_expires_at l"
  shows "l \<in> set t'"
  using assms
proof (induction rule: lock_step.induct)
  case (step_insert l t t' who now)
  then show ?case by (auto simp: insert_lock_def split: if_splits)
next
  case (step_take rt rid who tok now e t t')
  then show ?case
    by (force simp: take_lock_def set_update_where take_where_def split: if_splits)
next
  case (step_heartbeat who now t rt rid tok e)
  then show ?case by (force simp: set_update_where token_where_def)
qed (auto simp: delete_where_def token_where_def delete_expired_where_def)

interpretation lock_others: preserved "other_step a deadline" "\<lambda>t. lk_owner_id l = a \<and> held_until l deadline t"
  by unfold_locales (auto simp: other_step_def held_until_def intro: lock_step_inv lock_step_other)

interpretation lock_any: preserved "\<lambda>t t'. \<exists>who now. lock_step who now t t'" lock_inv
  by unfold_locales (auto intro: lock_step_inv)

subsection \<open>Operations are runs of statements\<close>

text \<open>
  The setting of an operation: \<open>R\<close> contains the statements of the caller at the clock readings it
  takes, and the other sessions move by \<open>R\<close> too.
\<close>

locale lock_session =
  fixes R :: "lock_table \<Rightarrow> lock_table \<Rightarrow> bool"
    and owner :: string
    and clock :: "timestamp \<Rightarrow> bool"
    and env :: "nat \<Rightarrow> lock_table \<Rightarrow> lock_table"
  assumes own: "clock now \<Longrightarrow> lock_step owner now t t' \<Longrightarrow> R t t'"
    and others: "R\<^sup>*\<^sup>* t (env i t)"
begin

lemma own_run: "R\<^sup>*\<^sup>* s t \<Longrightarrow> clock now \<Longrightarrow> lock_step owner now t t' \<Longrightarrow> R\<^sup>*\<^sup>* s t'"
  using own by (meson rtranclp.rtrancl_into_rtrancl)

lemma env_run: "R\<^sup>*\<^sup>* s t \<Longrightarrow> R\<^sup>*\<^sup>* s (env i t)"
  using others by (meson rtranclp_trans)

lemma expire_run: "R\<^sup>*\<^sup>* s t \<Longrightarrow> clock now \<Longrightarrow> R\<^sup>*\<^sup>* s (snd (delete_expired_lock rt rid now t))"
  using own_run step_expire by (auto simp: delete_expired_lock_def)

lemma insert_run:
  "insert_lock l t = Some t' \<Longrightarrow> lk_owner_id l = owner \<Longrightarrow> clock now \<Longrightarrow> R\<^sup>*\<^sup>* s t \<Longrightarrow> R\<^sup>*\<^sup>* s t'"
  using own_run step_insert by blast

lemma take_run:
  "take_lock rt rid owner tok now e t = Some t' \<Longrightarrow> clock now \<Longrightarrow> R\<^sup>*\<^sup>* s t \<Longrightarrow> R\<^sup>*\<^sup>* s t'"
  using own_run step_take by blast

lemma attempt_run:
  assumes "clock now" and "R\<^sup>*\<^sup>* s t"
  shows "R\<^sup>*\<^sup>* s (snd (acquire_attempt cfg rt rid owner ttl now tok (\<lambda>i. env (n + i)) t))"
  using assms
  by (auto simp: acquire_attempt_def Let_def split: option.split
           intro!: env_run intro: insert_run take_run)

lemma acquire_run:
  assumes "\<And>i. clock (nows i)"
  shows "R\<^sup>*\<^sup>* t (snd (acquire_lock cfg rt rid owner ttl nows toks env t))"
proof -
  obtain r1 t1 where a1: "acquire_attempt cfg rt rid owner ttl (nows 0) (toks 0) env t = (r1, t1)"
    by force
  obtain r2 t2 where a2:
    "acquire_attempt cfg rt rid owner ttl (nows 1) (toks 1) (\<lambda>i. env (3 + i)) t1 = (r2, t2)" by force
  have "R\<^sup>*\<^sup>* t t1" using attempt_run [OF assms, where n = 0 and t = t and s = t] a1 by (metis (no_types, lifting) add_0 ext rtranclp.rtrancl_refl snd_conv)
  then have "R\<^sup>*\<^sup>* t t2" using attempt_run [OF assms, where n = 3 and t = t1 and s = t] a2 by (metis snd_conv)
  with \<open>R\<^sup>*\<^sup>* t t1\<close> show ?thesis
    using a1 a2 by (auto simp: acquire_lock_def Let_def split: option.split intro: env_run)
qed

lemma heartbeat_run:
  "clock now \<Longrightarrow> R\<^sup>*\<^sup>* t (snd (heartbeat_lock cfg rt rid owner tok ttl now env t))"
  by (auto simp: heartbeat_lock_def Let_def split: option.split intro!: env_run own_run [OF _ _ step_heartbeat])

lemma release_run: "clock now \<Longrightarrow> R\<^sup>*\<^sup>* t (snd (release_lock rt rid owner tok now env t))"
  by (auto simp: release_lock_def Let_def intro!: env_run own_run [OF _ _ step_release] expire_run)

lemma lookup_run: "clock now \<Longrightarrow> R\<^sup>*\<^sup>* t (snd (lookup_lock_status rt rid now env t))"
  by (auto simp: lookup_lock_status_def Let_def split_beta split: option.split intro!: env_run expire_run)

lemma ensure_run: "clock now \<Longrightarrow> R\<^sup>*\<^sup>* t (snd (ensure_mutation_lock rt rid who now env t))"
  by (auto simp: ensure_mutation_lock_def Let_def split: option.split intro: env_run expire_run)

end

interpretation lock_solo: lock_session "\<lambda>t t'. \<exists>who now. lock_step who now t t'" owner "\<lambda>_. True" "\<lambda>_ t. t"
  by unfold_locales auto

subsection \<open>What the operations promise\<close>

text \<open>The lock table as a map from resources to locks, and the operations on it.\<close>

type_synonym lock_map = "string \<times> string \<Rightarrow> resource_lock option"

definition lock_map :: "lock_table \<Rightarrow> lock_map" where
  "lock_map t = (\<lambda>k. get_row lock_key k t)"

definition new_lock :: "settings \<Rightarrow> string \<Rightarrow> string \<Rightarrow> string \<Rightarrow> int option \<Rightarrow> timestamp \<Rightarrow> string \<Rightarrow> resource_lock" where
  "new_lock cfg rt rid owner ttl now tok =
     \<lparr>lk_resource_type = rt, lk_resource_id = rid, lk_owner_id = owner, lk_lock_token = tok,
      lk_acquired_at = now, lk_expires_at = lock_expires_at cfg now ttl, lk_last_heartbeat = now\<rparr>"

definition blocked_for :: "string \<Rightarrow> timestamp \<Rightarrow> resource_lock option \<Rightarrow> bool" where
  "blocked_for owner now r \<longleftrightarrow> (case r of None \<Rightarrow> False | Some l \<Rightarrow> lk_owner_id l \<noteq> owner \<and> now < lk_expires_at l)"

definition spec_acquire ::
  "settings \<Rightarrow> string \<Rightarrow> string \<Rightarrow> string \<Rightarrow> int option \<Rightarrow> timestamp \<Rightarrow> string \<Rightarrow> lock_map \<Rightarrow>
   lock_status result \<times> lock_map" where
  "spec_acquire cfg rt rid owner ttl now tok m =
     (if blocked_for owner now (m (rt, rid)) then (Inl (locked_by_other rt rid), m)
      else let l = new_lock cfg rt rid owner ttl now tok
           in (Inr (lock_status_of l now), m((rt, rid) \<mapsto> l)))"

definition holds_token :: "string \<Rightarrow> string \<Rightarrow> timestamp \<Rightarrow> resource_lock option \<Rightarrow> bool" where
  "holds_token owner tok now r \<longleftrightarrow>
     (case r of None \<Rightarrow> False | Some l \<Rightarrow> lk_owner_id l = owner \<and> lk_lock_token l = tok \<and> now < lk_expires_at l)"

definition spec_heartbeat ::
  "settings \<Rightarrow> string \<Rightarrow> string \<Rightarrow> string \<Rightarrow> string \<Rightarrow> int option \<Rightarrow> timestamp \<Rightarrow> lock_map \<Rightarrow>
   lock_status result \<times> lock_map" where
  "spec_heartbeat cfg rt rid owner tok ttl now m =
     (case m (rt, rid) of
        None \<Rightarrow> (Inl (lock_not_active rt rid), m)
      | Some l \<Rightarrow>
          if is_expired now l then (Inl (lock_not_active rt rid), m)
          else if lk_owner_id l \<noteq> owner then (Inl (owned_by_other rt rid), m)
          else if lk_lock_token l \<noteq> tok then (Inr (lock_status_of l now), m)
          else let l' = heartbeat_values now (lock_expires_at cfg now ttl) l
               in (Inr (lock_status_of l' now), m((rt, rid) \<mapsto> l')))"

definition spec_release :: "string \<Rightarrow> string \<Rightarrow> string \<Rightarrow> string \<Rightarrow> timestamp \<Rightarrow> lock_map \<Rightarrow> bool \<times> lock_map" where
  "spec_release rt rid owner tok now m =
     (case m (rt, rid) of
        None \<Rightarrow> (False, m)
      | Some l \<Rightarrow>
          if is_expired now l then (False, m((rt, rid) := None))
          else if lk_owner_id l = owner \<and> lk_lock_token l = tok then (True, m((rt, rid) := None))
          else (False, m))"

lemma lock_map_get: "get_lock rt rid t = lock_map t (rt, rid)"
  by (simp add: get_lock_def lock_map_def)

lemma lock_map_key: "lock_map t (rt, rid) = Some l \<Longrightarrow> lk_resource_type l = rt \<and> lk_resource_id l = rid"
  using get_row_SomeD by (fastforce simp: lock_map_def)

lemma lock_map_insert: "insert_lock l t = Some t' \<Longrightarrow> lock_map t' = (lock_map t)(lock_key l \<mapsto> l)"
  by (rule ext) (auto simp: lock_map_def insert_lock_def table_simps split: if_splits option.splits)

lemma lock_map_update:
  assumes "\<And>l. P l \<Longrightarrow> lock_key l = (rt, rid)" and "\<And>l. lock_key (f l) = lock_key l"
  shows "lock_map (update_where P f t) =
    (case lock_map t (rt, rid) of None \<Rightarrow> lock_map t
     | Some l \<Rightarrow> if P l then (lock_map t)((rt, rid) \<mapsto> f l) else lock_map t)"
proof (rule ext)
  fix k
  have "lock_map (update_where P f t) k = map_option (\<lambda>l. if P l then f l else l) (lock_map t k)"
    using assms(2) by (simp add: lock_map_def get_row_update)
  moreover have "lock_map t k = Some l \<Longrightarrow> P l \<Longrightarrow> k = (rt, rid)" for l
    using assms(1) get_row_SomeD by (fastforce simp: lock_map_def)
  ultimately show "lock_map (update_where P f t) k =
     (case lock_map t (rt, rid) of None \<Rightarrow> lock_map t
     | Some l \<Rightarrow> if P l then (lock_map t)((rt, rid) \<mapsto> f l) else lock_map t) k"
    by (cases "lock_map t k"; cases "lock_map t (rt, rid)") auto
qed

lemma lock_map_delete:
  assumes "lock_inv t" and "\<And>l. P l \<Longrightarrow> lock_key l = (rt, rid)"
  shows "lock_map (delete_where P t) =
    (case lock_map t (rt, rid) of None \<Rightarrow> lock_map t
     | Some l \<Rightarrow> if P l then (lock_map t)((rt, rid) := None) else lock_map t)"
proof (rule ext)
  fix k
  have "lock_map (delete_where P t) k =
      (case lock_map t k of None \<Rightarrow> None | Some l \<Rightarrow> if P l then None else Some l)"
    using assms(1) by (simp add: lock_map_def get_row_delete lock_inv_def)
  moreover have "lock_map t k = Some l \<Longrightarrow> P l \<Longrightarrow> k = (rt, rid)" for l
    using assms(2) get_row_SomeD by (fastforce simp: lock_map_def)
  ultimately show "lock_map (delete_where P t) k =
     (case lock_map t (rt, rid) of None \<Rightarrow> lock_map t
     | Some l \<Rightarrow> if P l then (lock_map t)((rt, rid) := None) else lock_map t) k"
    by (cases "lock_map t k"; cases "lock_map t (rt, rid)") auto
qed

lemma lock_map_count:
  assumes "lock_inv t" and "\<And>l. P l \<Longrightarrow> lock_key l = (rt, rid)"
  shows "rowcount P t = 1 \<longleftrightarrow> (\<exists>l. lock_map t (rt, rid) = Some l \<and> P l)"
  using rowcount_key_1 [of lock_key t P "(rt, rid)"] assms by (simp add: lock_inv_def lock_map_def)

lemma lock_map_count_0:
  assumes "lock_inv t" and "\<And>l. P l \<Longrightarrow> lock_key l = (rt, rid)"
  shows "rowcount P t = 0 \<longleftrightarrow> \<not> (\<exists>l. lock_map t (rt, rid) = Some l \<and> P l)"
  using rowcount_key_0 [of lock_key t P "(rt, rid)"] assms by (simp add: lock_inv_def lock_map_def)

lemma take_values_new:
  "lk_resource_type l = rt \<Longrightarrow> lk_resource_id l = rid \<Longrightarrow>
   take_values owner tok now (lock_expires_at cfg now ttl) l = new_lock cfg rt rid owner ttl now tok"
  by (simp add: take_values_def new_lock_def)

lemma fresh_take_lock: "get_row lk_lock_token tok t = None \<Longrightarrow>
   take_lock rt rid owner tok now e t = Some (update_where (take_where rt rid owner now) (take_values owner tok now e) t)"
  by (auto simp: take_lock_def list_ex_iff get_row_None_iff)

lemma other_session:
  "owner \<noteq> a \<Longrightarrow> (\<And>i s. (other_step a deadline)\<^sup>*\<^sup>* s (env i s)) \<Longrightarrow>
   lock_session (other_step a deadline) owner (\<lambda>n. n < deadline) env"
  by unfold_locales (auto simp: other_step_def)

lemma held_run: "(other_step (lk_owner_id l) deadline)\<^sup>*\<^sup>* t t' \<Longrightarrow> held_until l deadline t \<Longrightarrow> held_until l deadline t'"
  using lock_others.run_inv by blast

lemma held_get: "held_until l deadline t \<Longrightarrow> lock_key l = (rt, rid) \<Longrightarrow> get_lock rt rid t = Some l"
  using get_row_unique [of lock_key t l] by (simp add: held_until_def lock_inv_def get_lock_def)

lemma held_live: "held_until l deadline t \<Longrightarrow> now < deadline \<Longrightarrow> \<not> is_expired now l"
  by (simp add: held_until_def is_expired_def)

lemma held_no_token:
  assumes "held_until l deadline t" and "lock_key l = (rt, rid)" and "owner \<noteq> lk_owner_id l"
  shows "rowcount (token_where rt rid owner tok now) t = 0"
proof -
  have "r = l" if "r \<in> set t" "lock_key r = (rt, rid)" for r
    using that assms(1,2) unique_by_eq [of lock_key t r l] by (simp add: held_until_def lock_inv_def)
  then show ?thesis using assms(3) by (auto simp: rowcount_0_iff token_where_def)
qed

subsection \<open>Properties\<close>

text \<open>C7: while a lock is live, sessions of other owners are kept out under every interleaving with
  yet other sessions: their acquire is refused, their heartbeat and release fail whatever token they
  present, a mutation of theirs is refused, and after each of these the lock is unchanged.\<close>

theorem live_lock_excludes_others:
  assumes held: "held_until l deadline t" and key: "lock_key l = (rt, rid)"
    and other: "owner \<noteq> lk_owner_id l"
    and clocks: "\<And>i. nows i < deadline" and clock: "now < deadline"
    and env: "\<And>i s. (other_step (lk_owner_id l) deadline)\<^sup>*\<^sup>* s (env i s)"
  shows "fst (acquire_lock cfg rt rid owner ttl nows toks env t) = Inl (locked_by_other rt rid) \<and>
    held_until l deadline (snd (acquire_lock cfg rt rid owner ttl nows toks env t)) \<and>
    fst (heartbeat_lock cfg rt rid owner tok ttl now env t) = Inl (owned_by_other rt rid) \<and>
    held_until l deadline (snd (heartbeat_lock cfg rt rid owner tok ttl now env t)) \<and>
    fst (release_lock rt rid owner tok now env t) = False \<and>
    held_until l deadline (snd (release_lock rt rid owner tok now env t)) \<and>
    fst (ensure_mutation_lock rt rid (Some owner) now env t) = Inl (locked_by_other rt rid) \<and>
    held_until l deadline (snd (ensure_mutation_lock rt rid (Some owner) now env t))"
proof -
  have ses: "lock_session (other_step (lk_owner_id l) deadline) owner (\<lambda>n. n < deadline) env"
    by (rule other_session [OF other env])
  have kept: "held_until l deadline (snd (acquire_lock cfg rt rid owner ttl nows toks env t))"
      "held_until l deadline (snd (heartbeat_lock cfg rt rid owner tok ttl now env t))"
      "held_until l deadline (snd (release_lock rt rid owner tok now env t))"
      "held_until l deadline (snd (ensure_mutation_lock rt rid (Some owner) now env t))"
    by (rule held_run [OF lock_session.acquire_run [OF ses] held] held_run [OF lock_session.heartbeat_run [OF ses] held]
          held_run [OF lock_session.release_run [OF ses] held] held_run [OF lock_session.ensure_run [OF ses] held],
        rule clock clocks)+
  have h0: "held_until l deadline (env 0 t)" and h1: "held_until l deadline (env 1 (env 0 t))"
    by (rule held_run [OF env], rule held, rule held_run [OF env], rule held_run [OF env], rule held)
  note g0 = held_get [OF h0 key] and g1 = held_get [OF h1 key]
  have "fst (acquire_lock cfg rt rid owner ttl nows toks env t) = Inl (locked_by_other rt rid)"
    using g0 other held_live [OF h0 clocks] by (simp add: acquire_lock_def acquire_attempt_def)
  moreover have "fst (heartbeat_lock cfg rt rid owner tok ttl now env t) = Inl (owned_by_other rt rid)"
    using g1 other held_live [OF h0 clock] held_no_token [OF h0 key other]
    by (simp add: heartbeat_lock_def)
  moreover have "fst (release_lock rt rid owner tok now env t) = False"
    using held_no_token [OF h0 key other] by (simp add: release_lock_def)
  moreover have "fst (ensure_mutation_lock rt rid (Some owner) now env t) = Inl (locked_by_other rt rid)"
    using g0 other held_live [OF h0 clock] by (simp add: ensure_mutation_lock_def)
  ultimately show ?thesis using kept by blast
qed

definition example_lock :: resource_lock where
  "example_lock = \<lparr>lk_resource_type = ''analysis'', lk_resource_id = ''a1'', lk_owner_id = ''ann'',
     lk_lock_token = ''t1'', lk_acquired_at = 0, lk_expires_at = 30000000, lk_last_heartbeat = 0\<rparr>"

theorem live_lock_excludes_others_witness:
  "fst (acquire_lock example_settings ''analysis'' ''a1'' ''bob'' None (\<lambda>_. 5) (\<lambda>_. ''t2'') (\<lambda>_ s. s) [example_lock]) =
     Inl (ValueError ''analysis a1 is locked by another owner'')"
proof -
  have "fst (acquire_lock example_settings ''analysis'' ''a1'' ''bob'' None (\<lambda>_. 5) (\<lambda>_. ''t2'') (\<lambda>_ s. s) [example_lock]) =
     Inl (locked_by_other ''analysis'' ''a1'')"
    by (rule live_lock_excludes_others [where l = example_lock and deadline = 30000000 and now = 5, THEN conjunct1])
      (simp_all add: example_lock_def held_until_def lock_inv_def unique_by_def)
  then show ?thesis by (simp add: locked_by_other_def)
qed

text \<open>C22: with no session in between, \<open>acquire_lock\<close> with a fresh token implements the map
  specification: it is refused exactly when another owner's lock is live, and otherwise grants a
  lock with the new token that runs for the requested or the default TTL, touching no other
  resource.\<close>

theorem acquire_lock_refines:
  assumes inv: "lock_inv t" and fresh: "get_row lk_lock_token (toks 0) t = None"
  shows "(let (r, t') = acquire_lock cfg rt rid owner ttl nows toks (\<lambda>_ s. s) t in (r, lock_map t')) =
         spec_acquire cfg rt rid owner ttl (nows 0) (toks 0) (lock_map t)"
proof (cases "lock_map t (rt, rid)")
  case None
  let ?l = "new_lock cfg rt rid owner ttl (nows 0) (toks 0)"
  have ins: "insert_lock ?l t = Some (t @ [?l])"
    using None fresh by (simp add: insert_lock_def lock_map_def new_lock_def)
  note m = lock_map_insert [OF this]
  show ?thesis
    using None ins m
    by (simp add: acquire_lock_def acquire_attempt_def lock_map_get spec_acquire_def blocked_for_def
        Let_def new_lock_def)
next
  case (Some l)
  note k = lock_map_key [OF Some]
  let ?P = "take_where rt rid owner (nows 0)"
  have n: "rowcount ?P t = 1 \<longleftrightarrow> ?P l"
    using lock_map_count [OF inv, of ?P rt rid] take_where_key Some by auto
  have m: "lock_map (update_where ?P (take_values owner (toks 0) (nows 0) e) t) =
     (if ?P l then (lock_map t)((rt, rid) \<mapsto> take_values owner (toks 0) (nows 0) e l) else lock_map t)" for e
    using Some by (simp add: lock_map_update [OF take_where_key])
  have "?P l \<longleftrightarrow> \<not> blocked_for owner (nows 0) (Some l)"
    using k by (auto simp: take_where_def blocked_for_def)
  then show ?thesis
    using Some n m k fresh
    by (auto simp: acquire_lock_def acquire_attempt_def lock_map_get spec_acquire_def blocked_for_def
        Let_def fresh_take_lock take_values_new is_expired_def)
qed

theorem acquire_lock_refines_witness:
  "snd (spec_acquire example_settings ''analysis'' ''a1'' ''bob'' (Some 60) 30000000 ''t2'' (lock_map [example_lock]))
     (''analysis'', ''a1'') = Some (new_lock example_settings ''analysis'' ''a1'' ''bob'' (Some 60) 30000000 ''t2'') \<and>
   (let (r, t') = acquire_lock example_settings ''analysis'' ''a1'' ''bob'' (Some 60) (\<lambda>_. 30000000) (\<lambda>_. ''t2'')
                    (\<lambda>_ s. s) [example_lock] in (r, lock_map t')) =
     spec_acquire example_settings ''analysis'' ''a1'' ''bob'' (Some 60) 30000000 ''t2'' (lock_map [example_lock])"
  using acquire_lock_refines [where t = "[example_lock]" and toks = "\<lambda>_. ''t2''" and nows = "\<lambda>_. 30000000"
      and cfg = example_settings and rt = "''analysis''" and rid = "''a1''" and owner = "''bob''" and ttl = "Some 60"]
  by (simp add: lock_inv_def unique_by_def example_lock_def table_simps spec_acquire_def lock_map_def
      blocked_for_def Let_def)

text \<open>With no session in between, \<open>heartbeat_lock\<close> and \<open>release_lock\<close> implement their map
  specifications: only the live token of its owner extends or deletes a lock, a newer token of the
  same owner is reported without being extended, and an expired lock is not active and is cleaned
  up by a release that still answers false.\<close>

theorem heartbeat_release_refine:
  assumes inv: "lock_inv t"
  shows "(let (r, t') = heartbeat_lock cfg rt rid owner tok ttl now (\<lambda>_ s. s) t in (r, lock_map t')) =
           spec_heartbeat cfg rt rid owner tok ttl now (lock_map t) \<and>
         (let (b, t') = release_lock rt rid owner tok now (\<lambda>_ s. s) t in (b, lock_map t')) =
           spec_release rt rid owner tok now (lock_map t)"
proof -
  let ?P = "token_where rt rid owner tok now" and ?D = "delete_expired_where rt rid now"
  have w: "lock_map t (rt, rid) = Some l \<Longrightarrow>
      ?P l = (lk_owner_id l = owner \<and> lk_lock_token l = tok \<and> \<not> is_expired now l) \<and> ?D l = is_expired now l" for l
    using lock_map_key by (auto simp: token_where_def delete_expired_where_def is_expired_def)
  note up = lock_map_update [of ?P rt rid, OF token_where_key]
  have del: "lock_map (delete_where ?P t) = (case lock_map t (rt, rid) of None \<Rightarrow> lock_map t
     | Some l \<Rightarrow> if ?P l then (lock_map t)((rt, rid) := None) else lock_map t)"
    by (rule lock_map_delete [OF inv token_where_key])
  have delx: "lock_map (delete_where ?D t) = (case lock_map t (rt, rid) of None \<Rightarrow> lock_map t
     | Some l \<Rightarrow> if ?D l then (lock_map t)((rt, rid) := None) else lock_map t)"
    by (rule lock_map_delete [OF inv]) (simp add: delete_expired_where_def)
  show ?thesis
  proof (cases "\<exists>l. lock_map t (rt, rid) = Some l \<and> ?P l")
    case True
    then obtain l where l: "lock_map t (rt, rid) = Some l" "?P l" by blast
    then have "rowcount ?P t = 1" using lock_map_count [OF inv, of ?P rt rid] token_where_key by blast
    then show ?thesis using l w [OF l(1)] up del
      by (simp add: heartbeat_lock_def release_lock_def Let_def lock_map_get spec_heartbeat_def spec_release_def)
  next
    case False
    then have n: "rowcount ?P t = 0"
      using lock_map_count_0 [OF inv, of ?P rt rid] token_where_key by blast
    then have d: "delete_where ?P t = t" by (rule delete_where_rowcount_0)
    show ?thesis
    proof (cases "lock_map t (rt, rid)")
      case None
      then show ?thesis using n d delx
        by (simp add: heartbeat_lock_def release_lock_def Let_def lock_map_get spec_heartbeat_def
            spec_release_def delete_expired_lock_def)
    next
      case (Some l)
      then show ?thesis using n d delx False w [OF Some]
        by (simp add: heartbeat_lock_def release_lock_def Let_def lock_map_get spec_heartbeat_def
            spec_release_def delete_expired_lock_def)
    qed
  qed
qed

theorem heartbeat_release_refine_witness:
  "(let (b, t') = release_lock ''analysis'' ''a1'' ''ann'' ''t1'' 5 (\<lambda>_ s. s) [example_lock] in (b, lock_map t')) =
     spec_release ''analysis'' ''a1'' ''ann'' ''t1'' 5 (lock_map [example_lock]) \<and>
   fst (spec_release ''analysis'' ''a1'' ''ann'' ''t1'' 5 (lock_map [example_lock]))"
  using heartbeat_release_refine [where t = "[example_lock]" and rt = "''analysis''" and rid = "''a1''"
      and owner = "''ann''" and tok = "''t1''" and now = 5]
  by (simp add: lock_inv_def unique_by_def lock_map_def table_simps example_lock_def spec_release_def is_expired_def)

end
