(* ===== verification/Lock_Watchers.thy ===== *)
theory Lock_Watchers
  imports Prelude
begin

text \<open>
  The registry of lock watchers (\<open>modules/locks/watchers.py\<close>): websockets per resource, a publication
  version per resource and one delivery lock per resource, all changed under the registry's lock. A
  durable snapshot is sent only if no publication happened since its version was read. Websockets and
  delivery locks are numbers; \<open>env\<close> is what other tasks do to the registry while a task waits for a
  delivery lock.
\<close>

type_synonym lock_watch_key = "string \<times> string \<times> string"

record watch_registry =
  wr_watchers :: "(lock_watch_key \<times> nat list) list"
  wr_versions :: "(lock_watch_key \<times> nat) list"
  wr_delivery_locks :: "(lock_watch_key \<times> nat) list"
  wr_next_version :: nat

definition new_registry :: watch_registry where
  "new_registry = \<lparr>wr_watchers = [], wr_versions = [], wr_delivery_locks = [], wr_next_version = 0\<rparr>"

text \<open>\<open>lock_obj\<close> is the identity of the \<open>asyncio.Lock\<close> created for a new key.\<close>

definition add_watcher :: "nat \<Rightarrow> nat \<Rightarrow> lock_watch_key \<Rightarrow> watch_registry \<Rightarrow> watch_registry" where
  "add_watcher lock_obj ws key r =
     (let r1 = (if map_of (wr_watchers r) key = None
                then r\<lparr>wr_next_version := wr_next_version r + 1,
                       wr_versions := AList.update key (wr_next_version r + 1) (wr_versions r),
                       wr_delivery_locks := AList.update key lock_obj (wr_delivery_locks r)\<rparr>
                else r);
          cur = (case map_of (wr_watchers r1) key of None \<Rightarrow> [] | Some s \<Rightarrow> s)
      in r1\<lparr>wr_watchers := AList.update key (if ws \<in> set cur then cur else cur @ [ws]) (wr_watchers r1)\<rparr>)"

definition discard_watcher :: "nat \<Rightarrow> lock_watch_key \<Rightarrow> watch_registry \<Rightarrow> watch_registry" where
  "discard_watcher ws key r =
     (case map_of (wr_watchers r) key of
        None \<Rightarrow> r
      | Some sockets \<Rightarrow>
          let rest = filter (\<lambda>s. s \<noteq> ws) sockets
          in if rest \<noteq> [] then r\<lparr>wr_watchers := AList.update key rest (wr_watchers r)\<rparr>
             else r\<lparr>wr_watchers := AList.delete key (wr_watchers r), wr_versions := AList.delete key (wr_versions r),
                    wr_delivery_locks := AList.delete key (wr_delivery_locks r)\<rparr>)"

definition current_version :: "lock_watch_key \<Rightarrow> watch_registry \<Rightarrow> nat" where
  "current_version key r = (case map_of (wr_versions r) key of None \<Rightarrow> 0 | Some v \<Rightarrow> v)"

definition active_keys :: "watch_registry \<Rightarrow> (lock_watch_key \<times> nat) list" where
  "active_keys r = wr_versions r"

definition clear_registry :: "watch_registry \<Rightarrow> watch_registry" where
  "clear_registry r = r\<lparr>wr_watchers := [], wr_versions := [], wr_delivery_locks := []\<rparr>"

text \<open>The critical section of \<open>_deliver_status\<close>: the sockets to send to, or \<open>None\<close> when the delivery lock
  was replaced or a publication won.\<close>

definition begin_delivery :: "nat \<Rightarrow> lock_watch_key \<Rightarrow> nat option \<Rightarrow> watch_registry \<Rightarrow> nat list option \<times> watch_registry" where
  "begin_delivery lock_obj key expected r =
     (if map_of (wr_delivery_locks r) key \<noteq> Some lock_obj then (None, r)
      else if expected \<noteq> None \<and> map_of (wr_versions r) key \<noteq> expected then (None, r)
      else (Some (case map_of (wr_watchers r) key of None \<Rightarrow> [] | Some s \<Rightarrow> s),
            r\<lparr>wr_next_version := wr_next_version r + 1,
              wr_versions := AList.update key (wr_next_version r + 1) (wr_versions r)\<rparr>))"

text \<open>\<open>_send_status\<close>: a payload that does not serialize drops every watcher it was meant for, a socket
  that does not take the message in time is dropped. The first list is what was sent.\<close>

definition send_status ::
  "bool \<Rightarrow> (nat \<Rightarrow> bool) \<Rightarrow> lock_watch_key \<Rightarrow> nat list \<Rightarrow> watch_registry \<Rightarrow> nat list \<times> bool \<times> watch_registry" where
  "send_status serializes sent key sockets r =
     (if sockets = [] then ([], False, r)
      else if \<not> serializes then ([], False, fold (\<lambda>s. discard_watcher s key) sockets r)
      else (filter sent sockets, True, fold (\<lambda>s. discard_watcher s key) (filter (\<lambda>s. \<not> sent s) sockets) r))"

definition deliver_status ::
  "bool \<Rightarrow> (nat \<Rightarrow> bool) \<Rightarrow> (watch_registry \<Rightarrow> watch_registry) \<Rightarrow> lock_watch_key \<Rightarrow> nat option \<Rightarrow> watch_registry \<Rightarrow>
   nat list \<times> bool \<times> watch_registry" where
  "deliver_status serializes sent env key expected r =
     (case map_of (wr_delivery_locks r) key of
        None \<Rightarrow> ([], False, r)
      | Some l \<Rightarrow>
          (case begin_delivery l key expected (env r) of
             (None, r1) \<Rightarrow> ([], False, r1)
           | (Some sockets, r1) \<Rightarrow> send_status serializes sent key sockets r1))"

definition notify_watchers ::
  "bool \<Rightarrow> (nat \<Rightarrow> bool) \<Rightarrow> (watch_registry \<Rightarrow> watch_registry) \<Rightarrow> lock_watch_key \<Rightarrow> watch_registry \<Rightarrow>
   nat list \<times> bool \<times> watch_registry" where
  "notify_watchers serializes sent env key r = deliver_status serializes sent env key None r"

definition refresh_watchers ::
  "bool \<Rightarrow> (nat \<Rightarrow> bool) \<Rightarrow> (watch_registry \<Rightarrow> watch_registry) \<Rightarrow> lock_watch_key \<Rightarrow> nat \<Rightarrow> watch_registry \<Rightarrow>
   nat list \<times> bool \<times> watch_registry" where
  "refresh_watchers serializes sent env key expected r = deliver_status serializes sent env key (Some expected) r"

subsection \<open>The registry as a transition system\<close>

text \<open>The three dicts have the same keys, a key has at least one watcher, and no version is ahead of
  the counter.\<close>

definition registry_inv :: "watch_registry \<Rightarrow> bool" where
  "registry_inv r \<longleftrightarrow>
     dom (map_of (wr_versions r)) = dom (map_of (wr_watchers r)) \<and>
     dom (map_of (wr_delivery_locks r)) = dom (map_of (wr_watchers r)) \<and>
     (\<forall>key. map_of (wr_watchers r) key \<noteq> Some []) \<and>
     (\<forall>key v. map_of (wr_versions r) key = Some v \<longrightarrow> v \<le> wr_next_version r)"

inductive registry_step :: "watch_registry \<Rightarrow> watch_registry \<Rightarrow> bool" where
  rs_add: "registry_step r (add_watcher lock_obj ws key r)"
| rs_discard: "registry_step r (discard_watcher ws key r)"
| rs_deliver: "registry_step r (snd (begin_delivery lock_obj key expected r))"
| rs_clear: "registry_step r (clear_registry r)"

lemma add_watcher_maps:
  "map_of (wr_watchers (add_watcher l ws key r)) =
     (map_of (wr_watchers r))(key \<mapsto> (case map_of (wr_watchers r) key of None \<Rightarrow> [ws]
        | Some s \<Rightarrow> if ws \<in> set s then s else s @ [ws]))"
  "map_of (wr_versions (add_watcher l ws key r)) =
     (if map_of (wr_watchers r) key = None then (map_of (wr_versions r))(key \<mapsto> wr_next_version r + 1) else map_of (wr_versions r))"
  "map_of (wr_delivery_locks (add_watcher l ws key r)) =
     (if map_of (wr_watchers r) key = None then (map_of (wr_delivery_locks r))(key \<mapsto> l) else map_of (wr_delivery_locks r))"
  "wr_next_version (add_watcher l ws key r) = (if map_of (wr_watchers r) key = None then wr_next_version r + 1 else wr_next_version r)"
  by (auto simp: add_watcher_def Let_def update_conv' split: option.split)

lemma discard_watcher_maps:
  "map_of (wr_watchers (discard_watcher ws key r)) =
     (case map_of (wr_watchers r) key of None \<Rightarrow> map_of (wr_watchers r)
      | Some s \<Rightarrow> if filter (\<lambda>x. x \<noteq> ws) s \<noteq> [] then (map_of (wr_watchers r))(key \<mapsto> filter (\<lambda>x. x \<noteq> ws) s)
                  else (map_of (wr_watchers r))(key := None))"
  "map_of (wr_versions (discard_watcher ws key r)) =
     (case map_of (wr_watchers r) key of None \<Rightarrow> map_of (wr_versions r)
      | Some s \<Rightarrow> if filter (\<lambda>x. x \<noteq> ws) s \<noteq> [] then map_of (wr_versions r) else (map_of (wr_versions r))(key := None))"
  "map_of (wr_delivery_locks (discard_watcher ws key r)) =
     (case map_of (wr_watchers r) key of None \<Rightarrow> map_of (wr_delivery_locks r)
      | Some s \<Rightarrow> if filter (\<lambda>x. x \<noteq> ws) s \<noteq> [] then map_of (wr_delivery_locks r) else (map_of (wr_delivery_locks r))(key := None))"
  "wr_next_version (discard_watcher ws key r) = wr_next_version r"
  by (auto simp: discard_watcher_def Let_def update_conv' delete_conv' split: option.split)

lemma begin_delivery_maps:
  "wr_watchers (snd (begin_delivery l key expected r)) = wr_watchers r"
  "wr_delivery_locks (snd (begin_delivery l key expected r)) = wr_delivery_locks r"
  "begin_delivery l key expected r = (Some s, r') \<Longrightarrow>
     map_of (wr_versions r') = (map_of (wr_versions r))(key \<mapsto> wr_next_version r + 1) \<and> wr_next_version r' = wr_next_version r + 1"
  "begin_delivery l key expected r = (None, r') \<Longrightarrow> r' = r"
  by (auto simp: begin_delivery_def update_conv' split: if_splits)

lemma registry_step_inv: "registry_step r r' \<Longrightarrow> registry_inv r \<Longrightarrow> registry_inv r'"
proof (induction rule: registry_step.induct)
  case (rs_add r l ws key)
  then show ?case
    by (cases "map_of (wr_watchers r) key") (auto simp: registry_inv_def add_watcher_maps le_Suc_eq)
next
  case (rs_discard r ws key)
  show ?case
  proof (cases "map_of (wr_watchers r) key")
    case None
    then show ?thesis using rs_discard by (simp add: registry_inv_def discard_watcher_maps)
  next
    case (Some s)
    then show ?thesis using rs_discard
      by (cases "filter (\<lambda>x. x \<noteq> ws) s = []") (auto simp: registry_inv_def discard_watcher_maps)
  qed
next
  case (rs_deliver r l key expected)
  obtain x r' where b: "begin_delivery l key expected r = (x, r')" by force
  show ?case
  proof (cases x)
    case None
    then have "r' = r" using b begin_delivery_maps(4) by blast
    then show ?thesis using b rs_deliver by simp
  next
    case (Some s)
    then have "map_of (wr_delivery_locks r) key \<noteq> None" using b by (auto simp: begin_delivery_def split: if_splits)
    then show ?thesis using Some b rs_deliver begin_delivery_maps(1,2) [of l key expected r]
        begin_delivery_maps(3) [of l key expected r s r']
      by (auto simp: registry_inv_def le_Suc_eq)
  qed
next
  case (rs_clear r)
  then show ?case by (simp add: registry_inv_def clear_registry_def)
qed

interpretation registry: preserved registry_step registry_inv
  by unfold_locales (rule registry_step_inv)

text \<open>A version of a key that is no longer current never becomes current again.\<close>

definition version_past :: "lock_watch_key \<Rightarrow> nat \<Rightarrow> watch_registry \<Rightarrow> bool" where
  "version_past key v r \<longleftrightarrow> v \<le> wr_next_version r \<and> map_of (wr_versions r) key \<noteq> Some v"

lemma registry_step_past: "registry_step r r' \<Longrightarrow> version_past key v r \<Longrightarrow> version_past key v r'"
proof (induction rule: registry_step.induct)
  case (rs_deliver r l k expected)
  obtain x r' where b: "begin_delivery l k expected r = (x, r')" by force
  then show ?case using rs_deliver begin_delivery_maps(3,4) [of l k expected r]
    by (cases x) (auto simp: version_past_def)
next
  case (rs_discard r ws k)
  then show ?case
    by (cases "map_of (wr_watchers r) k") (auto simp: version_past_def discard_watcher_maps)
qed (auto simp: version_past_def add_watcher_maps clear_registry_def)

interpretation past: preserved registry_step "version_past key v"
  by unfold_locales (rule registry_step_past)

subsection \<open>Properties\<close>

text \<open>C26: a stale snapshot is never sent. If a publication on a resource went out after its version
  was read, then at any later point, whatever the other tasks do meanwhile, a refresh that presents
  the old version sends nothing and changes no version.\<close>

theorem stale_snapshot_dropped:
  assumes inv: "registry_inv r" and read: "current_version key r = v" "v \<noteq> 0"
    and published: "begin_delivery l key None r = (Some sockets, r1)"
    and run: "registry_step\<^sup>*\<^sup>* r1 r2" and env: "registry_step\<^sup>*\<^sup>* r2 (env r2)"
  shows "\<exists>r3. refresh_watchers serializes sent env key v r2 = ([], False, r3) \<and> wr_versions r3 \<in> {wr_versions r2, wr_versions (env r2)}"
proof -
  have "map_of (wr_versions r) key = Some v"
    using read by (auto simp: current_version_def split: option.splits)
  then have "v \<le> wr_next_version r" using inv unfolding registry_inv_def by blast
  then have "version_past key v r1" using begin_delivery_maps(3) [OF published] by (auto simp: version_past_def)
  then have "version_past key v (env r2)" using past.run_inv run env by (meson rtranclp_trans)
  then have "begin_delivery x key (Some v) (env r2) = (None, env r2)" for x
    by (auto simp: begin_delivery_def version_past_def)
  then show ?thesis
    by (cases "map_of (wr_delivery_locks r2) key") (auto simp: refresh_watchers_def deliver_status_def)
qed

theorem stale_snapshot_dropped_witness:
  "\<exists>r3. refresh_watchers True (\<lambda>_. True) (\<lambda>r. r) (''n'', ''analysis'', ''a1'') 1
     (snd (begin_delivery 7 (''n'', ''analysis'', ''a1'') None (add_watcher 7 3 (''n'', ''analysis'', ''a1'') new_registry))) =
     ([], False, r3)"
proof -
  let ?k = "(''n'', ''analysis'', ''a1'')" and ?r = "add_watcher 7 3 (''n'', ''analysis'', ''a1'') new_registry"
  have inv: "registry_inv ?r"
    by (rule registry_step_inv [OF rs_add]) (simp add: registry_inv_def new_registry_def)
  have "\<exists>r3. refresh_watchers True (\<lambda>_. True) (\<lambda>r. r) ?k 1 (snd (begin_delivery 7 ?k None ?r)) = ([], False, r3) \<and>
     wr_versions r3 \<in> {wr_versions (snd (begin_delivery 7 ?k None ?r)), wr_versions (snd (begin_delivery 7 ?k None ?r))}"
    by (rule stale_snapshot_dropped [OF inv _ _ _ rtranclp.rtrancl_refl rtranclp.rtrancl_refl, where l = 7 and sockets = "[3]"])
      (simp_all add: current_version_def begin_delivery_def add_watcher_def new_registry_def)
  then show ?thesis by blast
qed

text \<open>The registry does not leak. In every state the registry can reach, the version and the
  delivery-lock dicts have exactly the keys of the watcher dict, and a key is there only while it has
  a watcher.\<close>

theorem registry_keys_agree:
  assumes "registry_step\<^sup>*\<^sup>* new_registry r"
  shows "dom (map_of (wr_versions r)) = dom (map_of (wr_watchers r)) \<and>
         dom (map_of (wr_delivery_locks r)) = dom (map_of (wr_watchers r)) \<and> map_of (wr_watchers r) key \<noteq> Some []"
proof -
  have "registry_inv new_registry" by (simp add: registry_inv_def new_registry_def)
  then have "registry_inv r" by (rule registry.run_inv [OF assms])
  then show ?thesis unfolding registry_inv_def by blast
qed

theorem registry_keys_agree_witness:
  "map_of (wr_watchers (discard_watcher 3 (''n'', ''analysis'', ''a1'')
     (add_watcher 7 3 (''n'', ''analysis'', ''a1'') new_registry))) (''n'', ''analysis'', ''a1'') \<noteq> Some []"
proof -
  have "registry_step\<^sup>*\<^sup>* new_registry (discard_watcher 3 (''n'', ''analysis'', ''a1'')
     (add_watcher 7 3 (''n'', ''analysis'', ''a1'') new_registry))"
    by (meson rs_add rs_discard rtranclp.rtrancl_into_rtrancl rtranclp.rtrancl_refl)
  then show ?thesis using registry_keys_agree by blast
qed

end
