(* ===== verification/Work_Index.thy ===== *)
theory Work_Index
  imports Prelude
begin

text \<open>
  The durable wake index of \<open>backend_core/runtime_work_service.py\<close>: one marker row per namespace
  and queue kind (\<open>runtime_namespace_work\<close>) and append-only wake pointers
  (\<open>runtime_namespace_work_wakes\<close>). Producers append a wake in the transaction of the work they
  enqueue; consumers capture a bounded set of wake IDs, snapshot the queue, compare-and-swap the
  marker and delete exactly the captured IDs. The environment functions \<open>e1\<close>, \<open>e2\<close>, \<open>e3\<close> are what
  other transactions commit between the statements of a refresh (READ COMMITTED).
\<close>

subsection \<open>State\<close>

datatype work_kind =
    K_OUTBOX
  | K_BUILD
  | K_COMPUTE
  | K_DATASOURCE_DELETE
  | K_STORAGE_CLEANUP
  | K_SCHEDULE

definition WORKER_RECOVERY_KINDS :: "work_kind list" where
  "WORKER_RECOVERY_KINDS = [K_BUILD, K_COMPUTE, K_DATASOURCE_DELETE, K_STORAGE_CLEANUP]"

definition WAKE_BATCH_SIZE :: nat where
  "WAKE_BATCH_SIZE = 256"

record work_row =
  nw_namespace :: string
  nw_kind :: work_kind
  nw_pending :: bool
  nw_generation :: int
  nw_processed_generation :: int
  nw_due_at :: "timestamp option"
  nw_updated_at :: timestamp

record wake_row =
  wk_id :: int
  wk_namespace :: string
  wk_kind :: work_kind
  wk_created_at :: timestamp

text \<open>Messages queued with \<open>pg_notify\<close> are delivered when their transaction commits.\<close>

record work_db =
  ipc_sent :: "payload list"
  work_rows :: "work_row list"
  wake_rows :: "wake_row list"

abbreviation work_key :: "work_row \<Rightarrow> string \<times> work_kind" where
  "work_key r \<equiv> (nw_namespace r, nw_kind r)"

definition notify_on_commit :: "payload \<Rightarrow> 'a work_db_scheme \<Rightarrow> 'a work_db_scheme" where
  "notify_on_commit p db = db\<lparr>ipc_sent := ipc_sent db @ [p]\<rparr>"

text \<open>What a transaction draws from outside: \<open>current_timestamp\<close>, \<open>statement_timestamp()\<close> and
  \<open>clock_timestamp()\<close>, the fresh \<open>uuid4\<close> strings and the IDs of the wakes it appends, in order.\<close>

record txn =
  tx_now :: timestamp
  tx_stmt :: timestamp
  tx_wall :: timestamp
  tx_ids :: "nat \<Rightarrow> string"
  tx_wakes :: "nat \<Rightarrow> int"

subsection \<open>Producers\<close>

text \<open>The wake ID is drawn from the identity sequence of the table.\<close>

definition append_wake ::
  "settings \<Rightarrow> int \<Rightarrow> timestamp \<Rightarrow> string \<Rightarrow> work_kind \<Rightarrow> 'a work_db_scheme \<Rightarrow> int option \<times> 'a work_db_scheme" where
  "append_wake cfg wake_id stmt_now ns kind db =
     (if \<not> distributed_runtime_enabled cfg then (None, db)
      else (Some wake_id,
            db\<lparr>wake_rows := wake_rows db @
                [\<lparr>wk_id = wake_id, wk_namespace = ns, wk_kind = kind, wk_created_at = stmt_now\<rparr>]\<rparr>))"

definition mark_schedule_pending ::
  "settings \<Rightarrow> int \<Rightarrow> timestamp \<Rightarrow> string \<Rightarrow> 'a work_db_scheme \<Rightarrow> 'a work_db_scheme" where
  "mark_schedule_pending cfg wake_id stmt_now ns db = snd (append_wake cfg wake_id stmt_now ns K_SCHEDULE db)"

subsection \<open>Readers\<close>

definition wakes_of :: "string \<Rightarrow> work_kind \<Rightarrow> 'a work_db_scheme \<Rightarrow> wake_row list" where
  "wakes_of ns kind db = filter (\<lambda>w. wk_namespace w = ns \<and> wk_kind w = kind) (wake_rows db)"

definition captured_wakes :: "string \<Rightarrow> work_kind \<Rightarrow> 'a work_db_scheme \<Rightarrow> int list" where
  "captured_wakes ns kind db = map wk_id (take WAKE_BATCH_SIZE (sort_key wk_id (wakes_of ns kind db)))"

definition work_row_due :: "timestamp \<Rightarrow> work_row \<Rightarrow> bool" where
  "work_row_due stmt_now r \<longleftrightarrow> nw_pending r \<or> sql_le (nw_due_at r) stmt_now"

text \<open>The inner UNION ALL of the pending-work query: marker rows with their priority time, then
  one row per namespace of the wake table.\<close>

definition pending_entries :: "work_kind list \<Rightarrow> timestamp \<Rightarrow> 'a work_db_scheme \<Rightarrow> (string \<times> timestamp option) list" where
  "pending_entries kinds stmt_now db =
     map (\<lambda>r. (nw_namespace r, if nw_pending r then Some (nw_updated_at r) else nw_due_at r))
       (filter (\<lambda>r. nw_kind r \<in> set kinds \<and> work_row_due stmt_now r) (work_rows db)) @
     map (\<lambda>ns. (ns, sql_min (map (\<lambda>w. Some (wk_created_at w))
                       (filter (\<lambda>w. wk_namespace w = ns \<and> wk_kind w \<in> set kinds) (wake_rows db)))))
       (remdups (map wk_namespace (filter (\<lambda>w. wk_kind w \<in> set kinds) (wake_rows db))))"

definition list_pending_namespaces ::
  "settings \<Rightarrow> work_kind list \<Rightarrow> timestamp \<Rightarrow> 'a work_db_scheme \<Rightarrow> string list" where
  "list_pending_namespaces cfg kinds stmt_now db =
     (if \<not> distributed_runtime_enabled cfg then []
      else if kinds = [] then []
      else
        let es = pending_entries kinds stmt_now db;
            prio = (\<lambda>ns. case sql_min (map snd (filter (\<lambda>e. fst e = ns) es)) of None \<Rightarrow> 0 | Some t \<Rightarrow> t)
        in sort_key (\<lambda>ns. (prio ns, ns)) (remdups (map fst es)))"

text \<open>The schedule variant also returns each namespace's marker generation and captured wakes.\<close>

definition schedule_candidates :: "timestamp \<Rightarrow> 'a work_db_scheme \<Rightarrow> string list" where
  "schedule_candidates stmt_now db =
     remdups (map nw_namespace (filter (\<lambda>r. nw_kind r = K_SCHEDULE \<and> work_row_due stmt_now r) (work_rows db)) @
              map wk_namespace (filter (\<lambda>w. wk_kind w = K_SCHEDULE) (wake_rows db)))"

definition schedule_priority :: "timestamp \<Rightarrow> 'a work_db_scheme \<Rightarrow> string \<Rightarrow> timestamp" where
  "schedule_priority stmt_now db ns =
     (let wake_age = (case sql_min (map (\<lambda>w. Some (wk_created_at w)) (wakes_of ns K_SCHEDULE db)) of
                        None \<Rightarrow> stmt_now | Some t \<Rightarrow> t)
      in case get_row work_key (ns, K_SCHEDULE) (work_rows db) of
           None \<Rightarrow> wake_age
         | Some r \<Rightarrow>
             if nw_pending r then nw_updated_at r
             else if sql_le (nw_due_at r) stmt_now then the (nw_due_at r)
             else wake_age)"

definition list_due_schedule_namespaces ::
  "settings \<Rightarrow> nat \<Rightarrow> timestamp \<Rightarrow> 'a work_db_scheme \<Rightarrow> (string \<times> int \<times> int list) list" where
  "list_due_schedule_namespaces cfg limit stmt_now db =
     (if \<not> distributed_runtime_enabled cfg then []
      else map (\<lambda>ns. (ns, (case get_row work_key (ns, K_SCHEDULE) (work_rows db) of
                             None \<Rightarrow> 0 | Some r \<Rightarrow> nw_generation r),
                      captured_wakes ns K_SCHEDULE db))
             (take limit (sort_key (\<lambda>ns. (schedule_priority stmt_now db ns, ns)) (schedule_candidates stmt_now db))))"

subsection \<open>Consumers\<close>

definition delete_wakes :: "string \<Rightarrow> work_kind \<Rightarrow> int list \<Rightarrow> 'a work_db_scheme \<Rightarrow> 'a work_db_scheme" where
  "delete_wakes ns kind ids db =
     db\<lparr>wake_rows := delete_where (\<lambda>w. wk_namespace w = ns \<and> wk_kind w = kind \<and> wk_id w \<in> set ids) (wake_rows db)\<rparr>"

definition finish_schedule_scan ::
  "settings \<Rightarrow> timestamp \<Rightarrow> string \<Rightarrow> int \<Rightarrow> timestamp option \<Rightarrow> int list \<Rightarrow> 'a work_db_scheme \<Rightarrow>
   'a work_db_scheme result" where
  "finish_schedule_scan cfg stmt_now ns gen due_at wake_ids db =
     (if \<not> distributed_runtime_enabled cfg then Inr db
      else
        let db1 = (case get_row work_key (ns, K_SCHEDULE) (work_rows db) of
                     Some _ \<Rightarrow> db
                   | None \<Rightarrow> db\<lparr>work_rows := work_rows db @
                       [\<lparr>nw_namespace = ns, nw_kind = K_SCHEDULE, nw_pending = False, nw_generation = 0,
                         nw_processed_generation = 0, nw_due_at = None, nw_updated_at = stmt_now\<rparr>]\<rparr>);
            db2 = (if wake_ids = [] then db1 else delete_wakes ns K_SCHEDULE wake_ids db1);
            P = (\<lambda>r. nw_namespace r = ns \<and> nw_kind r = K_SCHEDULE \<and> nw_generation r = gen);
            upd = (\<lambda>r. r\<lparr>nw_generation := nw_generation r + 1,
                         nw_processed_generation := nw_generation r + 1,
                         nw_pending := wakes_of ns K_SCHEDULE db2 \<noteq> [],
                         nw_due_at := due_at, nw_updated_at := stmt_now\<rparr>)
        in if rowcount P (work_rows db2) = 0
           then Inl (RuntimeError (''Schedule work changed while scanning namespace '' @ ns))
           else Inr (db2\<lparr>work_rows := update_where P upd (work_rows db2)\<rparr>))"

text \<open>The upsert that publishes a snapshot: insert the marker, or replace it if its generation is
  still the one the snapshot saw. The flag is whether a row was returned.\<close>

definition publish_marker ::
  "timestamp \<Rightarrow> string \<Rightarrow> work_kind \<Rightarrow> int \<Rightarrow> bool \<Rightarrow> timestamp option \<Rightarrow> 'a work_db_scheme \<Rightarrow>
   bool \<times> 'a work_db_scheme" where
  "publish_marker stmt_now ns kind gen pending due_at db =
     (let due = (if pending then None else due_at)
      in case get_row work_key (ns, kind) (work_rows db) of
           None \<Rightarrow>
             (True, db\<lparr>work_rows := work_rows db @
                [\<lparr>nw_namespace = ns, nw_kind = kind, nw_pending = pending, nw_generation = gen + 1,
                  nw_processed_generation = gen + 1, nw_due_at = due, nw_updated_at = stmt_now\<rparr>]\<rparr>)
         | Some r \<Rightarrow>
             if nw_generation r = gen
             then (True, db\<lparr>work_rows := update_where (\<lambda>x. work_key x = (ns, kind))
                     (\<lambda>x. x\<lparr>nw_pending := pending, nw_generation := nw_generation x + 1,
                            nw_processed_generation := gen + 1, nw_due_at := due, nw_updated_at := stmt_now\<rparr>)
                     (work_rows db)\<rparr>)
             else (False, db))"

definition refresh_pending_work ::
  "settings \<Rightarrow> string \<Rightarrow> work_kind \<Rightarrow>
   (timestamp \<Rightarrow> 'a work_db_scheme \<Rightarrow> bool) \<Rightarrow> (timestamp \<Rightarrow> 'a work_db_scheme \<Rightarrow> timestamp option) \<Rightarrow>
   timestamp \<Rightarrow> timestamp \<Rightarrow>
   ('a work_db_scheme \<Rightarrow> 'a work_db_scheme) \<Rightarrow> ('a work_db_scheme \<Rightarrow> 'a work_db_scheme) \<Rightarrow>
   ('a work_db_scheme \<Rightarrow> 'a work_db_scheme) \<Rightarrow> 'a work_db_scheme \<Rightarrow> 'a work_db_scheme" where
  "refresh_pending_work cfg ns kind pending_query due_query snap_now upd_now e1 e2 e3 db =
     (if \<not> distributed_runtime_enabled cfg then db
      else
        let captured = captured_wakes ns kind db;
            snapshot = e1 db;
            gen = (case get_row work_key (ns, kind) (work_rows snapshot) of None \<Rightarrow> 0 | Some r \<Rightarrow> nw_generation r);
            pending = pending_query snap_now snapshot;
            due_at = due_query snap_now snapshot;
            (updated, db1) = publish_marker upd_now ns kind gen pending due_at (e2 snapshot);
            db2 = e3 db1
        in if updated \<and> captured \<noteq> [] then delete_wakes ns kind captured db2 else db2)"

text \<open>The refresh as one atomic transaction, as the queue services use it.\<close>

definition refresh_quiet ::
  "settings \<Rightarrow> string \<Rightarrow> work_kind \<Rightarrow>
   (timestamp \<Rightarrow> 'a work_db_scheme \<Rightarrow> bool) \<Rightarrow> (timestamp \<Rightarrow> 'a work_db_scheme \<Rightarrow> timestamp option) \<Rightarrow>
   timestamp \<Rightarrow> 'a work_db_scheme \<Rightarrow> 'a work_db_scheme" where
  "refresh_quiet cfg ns kind pending_query due_query stmt_now db =
     refresh_pending_work cfg ns kind pending_query due_query stmt_now stmt_now
       (\<lambda>d. d) (\<lambda>d. d) (\<lambda>d. d) db"


subsection \<open>When a namespace is listed\<close>

definition namespace_listed :: "string \<Rightarrow> work_kind \<Rightarrow> timestamp \<Rightarrow> 'a work_db_scheme \<Rightarrow> bool" where
  "namespace_listed ns kind t db \<longleftrightarrow>
     list_ex (\<lambda>r. nw_namespace r = ns \<and> nw_kind r = kind \<and> work_row_due t r) (work_rows db) \<or>
     wakes_of ns kind db \<noteq> []"

definition work_inv :: "'a work_db_scheme \<Rightarrow> bool" where
  "work_inv db \<longleftrightarrow> unique_by work_key (work_rows db)"

lemma namespace_listed_iff:
  "namespace_listed ns kind t db \<longleftrightarrow>
     (\<exists>r \<in> set (work_rows db). nw_namespace r = ns \<and> nw_kind r = kind \<and> work_row_due t r) \<or>
     (\<exists>w \<in> set (wake_rows db). wk_namespace w = ns \<and> wk_kind w = kind)"
  by (auto simp: namespace_listed_def list_ex_iff wakes_of_def filter_empty_conv)

lemma work_row_due_later: "work_row_due t r \<Longrightarrow> t \<le> u \<Longrightarrow> work_row_due u r"
  by (cases "nw_due_at r") (auto simp: work_row_due_def)

lemma namespace_listed_later: "namespace_listed ns kind t db \<Longrightarrow> t \<le> u \<Longrightarrow> namespace_listed ns kind u db"
  unfolding namespace_listed_iff by (blast intro: work_row_due_later)

lemma namespace_listed_frame:
  "work_rows db' = work_rows db \<Longrightarrow> wake_rows db' = wake_rows db \<Longrightarrow>
   namespace_listed ns kind t db' = namespace_listed ns kind t db"
  by (simp add: namespace_listed_def wakes_of_def)

lemma set_pending_entries:
  "fst ` set (pending_entries kinds t db) =
     {ns. \<exists>kind \<in> set kinds. namespace_listed ns kind t db}"
proof -
  have "fst ` set (pending_entries kinds t db) =
     nw_namespace ` {r \<in> set (work_rows db). nw_kind r \<in> set kinds \<and> work_row_due t r} \<union>
     wk_namespace ` {w \<in> set (wake_rows db). wk_kind w \<in> set kinds}"
    by (simp add: pending_entries_def image_Un image_image)
  then show ?thesis by (auto simp: namespace_listed_iff)
qed

lemma set_list_pending_namespaces:
  "set (list_pending_namespaces cfg kinds t db) =
     (if distributed_runtime_enabled cfg then {ns. \<exists>kind \<in> set kinds. namespace_listed ns kind t db} else {})"
  by (auto simp: list_pending_namespaces_def Let_def set_pending_entries)

lemma set_schedule_candidates:
  "set (schedule_candidates t db) = {ns. namespace_listed ns K_SCHEDULE t db}"
  unfolding schedule_candidates_def namespace_listed_iff by auto

lemma append_wake_work_rows [simp]: "work_rows (snd (append_wake cfg i now ns k db)) = work_rows db"
  by (simp add: append_wake_def)

lemma append_wake_more: "distributed_runtime_enabled cfg \<Longrightarrow>
   wake_rows (snd (append_wake cfg i now ns k db)) =
     wake_rows db @ [\<lparr>wk_id = i, wk_namespace = ns, wk_kind = k, wk_created_at = now\<rparr>]"
  by (simp add: append_wake_def)

lemma append_wake_listed: "distributed_runtime_enabled cfg \<Longrightarrow>
   namespace_listed ns k t (snd (append_wake cfg i now ns k db))"
  by (simp add: namespace_listed_iff append_wake_more)

lemma append_wake_keeps_listed:
  "namespace_listed ns' k' t db \<Longrightarrow> namespace_listed ns' k' t (snd (append_wake cfg i now ns k db))"
  by (auto simp: namespace_listed_iff append_wake_def)

lemma append_wake_inv: "work_inv (snd (append_wake cfg i now ns k db)) = work_inv db"
  by (simp add: work_inv_def)

subsection \<open>The marker upsert\<close>

lemma publish_marker_wakes [simp]: "wake_rows (snd (publish_marker n ns k g p d db)) = wake_rows db"
  by (auto simp: publish_marker_def Let_def split: option.split)

lemma publish_marker_ipc [simp]: "ipc_sent (snd (publish_marker n ns k g p d db)) = ipc_sent db"
  by (auto simp: publish_marker_def Let_def split: option.split)

lemma publish_marker_inv: "work_inv db \<Longrightarrow> work_inv (snd (publish_marker n ns k g p d db))"
  unfolding work_inv_def publish_marker_def Let_def
  by (auto simp: unique_append1 unique_update split: option.split)

lemma publish_marker_row:
  assumes "publish_marker n ns k g p d db = (True, db')"
  shows "\<exists>r. get_row work_key (ns, k) (work_rows db') = Some r \<and> nw_pending r = p \<and>
             nw_due_at r = (if p then None else d) \<and> nw_processed_generation r = g + 1 \<and>
             nw_generation r = g + 1"
proof (cases "get_row work_key (ns, k) (work_rows db)")
  case None
  with assms show ?thesis by (auto simp: publish_marker_def Let_def table_simps)
next
  case (Some r)
  then have k: "nw_namespace r = ns" "nw_kind r = k" using get_row_SomeD by fastforce+
  from assms Some have g: "nw_generation r = g"
    by (simp add: publish_marker_def Let_def split: if_splits)
  with assms Some have "work_rows db' = update_where (\<lambda>x. work_key x = (ns, k))
      (\<lambda>x. x\<lparr>nw_pending := p, nw_generation := nw_generation x + 1, nw_processed_generation := g + 1,
             nw_due_at := if p then None else d, nw_updated_at := n\<rparr>) (work_rows db)"
    by (auto simp: publish_marker_def Let_def)
  then show ?thesis using Some k g by (simp add: get_row_update)
qed

lemma publish_marker_refused:
  "publish_marker n ns k g p d db = (False, db') \<Longrightarrow>
   db' = db \<and> (\<exists>r. get_row work_key (ns, k) (work_rows db) = Some r \<and> nw_generation r \<noteq> g)"
  by (auto simp: publish_marker_def Let_def split: option.splits if_splits)

lemma publish_marker_other:
  assumes "(ns', k') \<noteq> (ns, k)"
  shows "get_row work_key (ns', k') (work_rows (snd (publish_marker n ns k g p d db))) =
         get_row work_key (ns', k') (work_rows db)"
proof -
  have upd: "map_option (\<lambda>r. if work_key r = (ns, k) then f r else r) (get_row work_key (ns', k') rs) =
             get_row work_key (ns', k') rs" for f rs
    using assms by (cases "get_row work_key (ns', k') rs") (auto dest!: get_row_SomeD)
  show ?thesis
  proof (cases "get_row work_key (ns, k) (work_rows db)")
    case None
    then show ?thesis
      using assms by (auto simp: publish_marker_def Let_def get_row_append get_row_simps split: option.split)
  next
    case (Some r)
    then show ?thesis using upd by (simp add: publish_marker_def Let_def get_row_update)
  qed
qed

lemma delete_wakes_work_rows [simp]: "work_rows (delete_wakes ns k ids db) = work_rows db"
  by (simp add: delete_wakes_def)

lemma delete_wakes_keeps:
  "w \<in> set (wake_rows db) \<Longrightarrow> wk_id w \<notin> set ids \<Longrightarrow> w \<in> set (wake_rows (delete_wakes ns k ids db))"
  by (simp add: delete_wakes_def delete_where_def)

subsection \<open>Recoverable queues: no ready work is lost from the index\<close>

text \<open>
  What the index asks of a queue: readiness does not depend on the index, time only makes work
  ready, and when nothing is ready the due query names an instant by which the next row is.
  \<open>pending\<close> and \<open>due\<close> are the queue's \<open>pending_query\<close> and \<open>due_query\<close>.
\<close>

locale recoverable_queue =
  fixes pending :: "timestamp \<Rightarrow> 'a work_db_scheme \<Rightarrow> bool"
    and due :: "timestamp \<Rightarrow> 'a work_db_scheme \<Rightarrow> timestamp option"
  assumes pending_frame: "pending t (db\<lparr>work_rows := ws, wake_rows := vs\<rparr>) = pending t db"
    and pending_later: "pending t db \<Longrightarrow> t \<le> u \<Longrightarrow> pending u db"
    and due_covers: "\<not> pending t db \<Longrightarrow> pending u db \<Longrightarrow> t \<le> u \<Longrightarrow> \<exists>d. due t db = Some d \<and> d \<le> u"
begin

definition covered :: "string \<Rightarrow> work_kind \<Rightarrow> timestamp \<Rightarrow> 'a work_db_scheme \<Rightarrow> bool" where
  "covered ns k now db \<longleftrightarrow> (\<forall>t \<ge> now. pending t db \<longrightarrow> namespace_listed ns k t db)"

lemma pending_work_rows: "pending t (db\<lparr>work_rows := ws\<rparr>) = pending t db"
  using pending_frame [where db = db and ws = ws and vs = "wake_rows db"] by simp

lemma pending_wake_rows: "pending t (db\<lparr>wake_rows := vs\<rparr>) = pending t db"
  using pending_frame [where db = db and ws = "work_rows db" and vs = vs] by simp

lemma pending_publish: "pending t (snd (publish_marker n ns k g p d db)) = pending t db"
  by (auto simp: publish_marker_def Let_def pending_work_rows split: option.split)

lemma pending_delete_wakes: "pending t (delete_wakes ns k ids db) = pending t db"
  by (simp add: delete_wakes_def pending_wake_rows)

lemma marker_covers:
  assumes "get_row work_key (ns, k) (work_rows db) = Some r"
    and "nw_pending r = pending now q" and "nw_due_at r = (if pending now q then None else due now q)"
    and "pending t q" and "now \<le> t"
  shows "namespace_listed ns k t db"
proof -
  have "work_row_due t r"
  proof (cases "pending now q")
    case True
    with assms(2) show ?thesis by (simp add: work_row_due_def)
  next
    case False
    then obtain d where "due now q = Some d" "d \<le> t"
      using due_covers assms(4,5) by blast
    with False assms(3) show ?thesis by (simp add: work_row_due_def)
  qed
  moreover have "r \<in> set (work_rows db)" "nw_namespace r = ns" "nw_kind r = k"
    using get_row_SomeD [OF assms(1)] by auto
  ultimately show ?thesis by (auto simp: namespace_listed_iff)
qed

text \<open>
  A commit between the statements of a refresh may make work ready only together with a wake the
  refresh has not captured, and it leaves the row the refresh has locked alone.
\<close>

definition announces :: "string \<Rightarrow> work_kind \<Rightarrow> int list \<Rightarrow> 'a work_db_scheme \<Rightarrow> 'a work_db_scheme \<Rightarrow> bool" where
  "announces ns k ids d d' \<longleftrightarrow>
     (\<forall>w \<in> set (wakes_of ns k d). wk_id w \<notin> set ids \<longrightarrow> w \<in> set (wakes_of ns k d')) \<and>
     (\<forall>t. pending t d' \<longrightarrow> pending t d \<or> (\<exists>w \<in> set (wakes_of ns k d'). wk_id w \<notin> set ids))"

lemma announces_refl: "announces ns k ids d d"
  by (simp add: announces_def)

lemma announces_trans: "announces ns k ids d d' \<Longrightarrow> announces ns k ids d' d'' \<Longrightarrow> announces ns k ids d d''"
  unfolding announces_def by (meson)

lemma listed_if_uncaptured:
  "w \<in> set (wakes_of ns k db) \<Longrightarrow> wk_id w \<notin> set ids \<Longrightarrow> namespace_listed ns k t (delete_wakes ns k ids db)"
  by (auto simp: namespace_listed_iff wakes_of_def dest: delete_wakes_keeps)

lemma refresh_covers:
  assumes dist: "distributed_runtime_enabled cfg"
    and e2: "announces ns k (captured_wakes ns k db) (e1 db) (e2 (e1 db))"
    and ok: "P (e2 (e1 db))" "\<And>g p d x. P x \<Longrightarrow> P (snd (publish_marker upd ns k g p d x))"
    and e3: "\<And>d. P d \<Longrightarrow> announces ns k (captured_wakes ns k db) d (e3 d)"
    and lock: "\<And>d. P d \<Longrightarrow> get_row work_key (ns, k) (work_rows (e3 d)) = get_row work_key (ns, k) (work_rows d)"
    and cas: "\<And>r. get_row work_key (ns, k) (work_rows (e2 (e1 db))) = Some r \<Longrightarrow>
       nw_generation r = (case get_row work_key (ns, k) (work_rows (e1 db)) of None \<Rightarrow> 0 | Some r \<Rightarrow> nw_generation r)"
  shows "covered ns k now (refresh_pending_work cfg ns k pending due now upd e1 e2 e3 db)"
proof -
  let ?ids = "captured_wakes ns k db" and ?q = "e1 db"
  define gen where "gen = (case get_row work_key (ns, k) (work_rows ?q) of None \<Rightarrow> 0 | Some r \<Rightarrow> nw_generation r)"
  obtain u db1 where pm: "publish_marker upd ns k gen (pending now ?q) (due now ?q) (e2 ?q) = (u, db1)"
    by (cases "publish_marker upd ns k gen (pending now ?q) (due now ?q) (e2 ?q)")
  have u: "u = True"
  proof (rule ccontr)
    assume "u \<noteq> True"
    then obtain r where "get_row work_key (ns, k) (work_rows (e2 ?q)) = Some r" "nw_generation r \<noteq> gen"
      using publish_marker_refused pm by (metis (full_types))
    then show False using cas gen_def by simp
  qed
  have P1: "P db1" using ok(2) [OF ok(1), of gen "pending now ?q" "due now ?q"] pm by simp
  define db2 where "db2 = e3 db1"
  define res where "res = delete_wakes ns k ?ids db2"
  have "refresh_pending_work cfg ns k pending due now upd e1 e2 e3 db = (if ?ids \<noteq> [] then res else db2)"
    using dist pm u by (simp add: refresh_pending_work_def gen_def Let_def db2_def res_def)
  moreover have "?ids = [] \<Longrightarrow> res = db2"
    by (simp add: res_def delete_wakes_def delete_where_def)
  ultimately have eq: "refresh_pending_work cfg ns k pending due now upd e1 e2 e3 db = res" by auto
  from pm u obtain r where r: "get_row work_key (ns, k) (work_rows res) = Some r"
      "nw_pending r = pending now ?q" "nw_due_at r = (if pending now ?q then None else due now ?q)"
    using publish_marker_row lock [OF P1] by (fastforce simp: res_def db2_def)
  have "namespace_listed ns k t res" if t: "now \<le> t" "pending t res" for t
  proof (cases "\<exists>w \<in> set (wakes_of ns k db2). wk_id w \<notin> set ?ids")
    case True
    then show ?thesis using listed_if_uncaptured by (auto simp: res_def)
  next
    case False
    have db1: "db1 = snd (publish_marker upd ns k gen (pending now ?q) (due now ?q) (e2 ?q))"
      using pm by simp
    have "pending t db2" using t(2) by (simp add: res_def pending_delete_wakes)
    then have "pending t db1" using e3 [OF P1] False by (auto simp: announces_def db2_def)
    then have "pending t (e2 ?q)" by (simp add: db1 pending_publish)
    moreover have "\<forall>w \<in> set (wakes_of ns k (e2 ?q)). wk_id w \<in> set ?ids"
    proof
      fix w assume "w \<in> set (wakes_of ns k (e2 ?q))"
      then have "w \<in> set (wakes_of ns k db1)" by (simp add: wakes_of_def db1)
      then show "wk_id w \<in> set ?ids"
        using e3 [OF P1] False unfolding announces_def db2_def by blast
    qed
    ultimately have "pending t ?q" using e2 unfolding announces_def by blast
    then show ?thesis using marker_covers [OF r] t(1) by blast
  qed
  then show ?thesis unfolding eq covered_def by blast
qed

lemma refresh_quiet_covers:
  assumes "distributed_runtime_enabled cfg"
  shows "covered ns k now (refresh_quiet cfg ns k pending due now db)"
  unfolding refresh_quiet_def
  by (rule refresh_covers [OF assms, where P = "\<lambda>_. True"]) (auto simp: announces_def)

text \<open>Between refreshes: a step that only makes work ready later than work it found ready, or that
  appends a wake, keeps the index covering the queue.\<close>

lemma covered_wake:
  "distributed_runtime_enabled cfg \<Longrightarrow> covered ns k now (snd (append_wake cfg i stmt ns k db))"
  by (simp add: covered_def append_wake_listed)

lemma covered_advance: "covered ns k now db \<Longrightarrow> now \<le> later \<Longrightarrow> covered ns k later db"
  by (simp add: covered_def)

lemma covered_step:
  assumes "covered ns k now db"
    and "work_rows db' = work_rows db" and "set (wake_rows db) \<subseteq> set (wake_rows db')"
    and "\<And>t. now \<le> t \<Longrightarrow> pending t db' \<Longrightarrow> pending t db \<or> pending now db"
  shows "covered ns k now db'"
  unfolding covered_def
proof (intro allI impI)
  fix t assume t: "now \<le> t" "pending t db'"
  then have "pending t db \<or> pending now db" using assms(4) by blast
  then have "namespace_listed ns k t db"
    using assms(1) t(1) pending_later unfolding covered_def by blast
  then show "namespace_listed ns k t db'"
    using assms(2,3) unfolding namespace_listed_iff by auto
qed

end

subsection \<open>Properties\<close>

lemma captured_wakes_subset: "set (captured_wakes ns k db) \<subseteq> wk_id ` set (wakes_of ns k db)"
  unfolding captured_wakes_def using set_take_subset by fastforce

text \<open>The recovery listing of a set of queue kinds is complete, sound and free of duplicates: it
  returns a namespace exactly when one of those kinds has a pending or due marker or an unconsumed
  wake there.\<close>

theorem pending_listing_exact:
  "distinct (list_pending_namespaces cfg kinds now db) \<and>
   set (list_pending_namespaces cfg kinds now db) =
     (if distributed_runtime_enabled cfg then {ns. \<exists>kind \<in> set kinds. namespace_listed ns kind now db} else {})"
  by (simp add: set_list_pending_namespaces) (simp add: list_pending_namespaces_def Let_def)

text \<open>Whether the upsert of a refresh finds the generation its snapshot saw.\<close>

definition wins_marker :: "string \<Rightarrow> work_kind \<Rightarrow> 'a work_db_scheme \<Rightarrow> 'a work_db_scheme \<Rightarrow> bool" where
  "wins_marker ns k snapshot db =
     (case get_row work_key (ns, k) (work_rows db) of
        None \<Rightarrow> True
      | Some r \<Rightarrow> nw_generation r =
          (case get_row work_key (ns, k) (work_rows snapshot) of None \<Rightarrow> 0 | Some s \<Rightarrow> nw_generation s))"

lemma refresh_lost:
  assumes "distributed_runtime_enabled cfg" and "\<not> wins_marker ns k (e1 db) (e2 (e1 db))"
  shows "refresh_pending_work cfg ns k pq dq now upd e1 e2 e3 db = e3 (e2 (e1 db))"
  using assms by (auto simp: refresh_pending_work_def wins_marker_def publish_marker_def Let_def split: option.splits)

text \<open>A refresh consumes wakes exactly: whatever other sessions do between its statements, the
  wakes of its queue that remain are those of the state before its deletion whose IDs it had not
  captured when it won the marker compare-and-swap, and all of them when it lost it; wakes of other
  queues are never deleted.\<close>

theorem refresh_deletes_only_captured:
  assumes "distributed_runtime_enabled cfg"
  shows "\<exists>db1. wake_rows db1 = wake_rows (e2 (e1 db)) \<and>
    wake_rows (refresh_pending_work cfg ns k pq dq now upd e1 e2 e3 db) =
      filter (\<lambda>w. \<not> (wins_marker ns k (e1 db) (e2 (e1 db)) \<and> wk_namespace w = ns \<and> wk_kind w = k \<and>
                      wk_id w \<in> wk_id ` set (wakes_of ns k db) \<and> wk_id w \<in> set (captured_wakes ns k db)))
        (wake_rows (e3 db1))"
proof -
  define gen where "gen = (case get_row work_key (ns, k) (work_rows (e1 db)) of None \<Rightarrow> 0 | Some r \<Rightarrow> nw_generation r)"
  let ?won = "wins_marker ns k (e1 db) (e2 (e1 db))"
  obtain u db1 where pm: "publish_marker upd ns k gen (pq now (e1 db)) (dq now (e1 db)) (e2 (e1 db)) = (u, db1)"
    by force
  then have u: "u = ?won"
    unfolding wins_marker_def gen_def [symmetric]
    by (auto simp: publish_marker_def Let_def split: option.splits if_splits)
  have w: "wake_rows db1 = wake_rows (e2 (e1 db))" using publish_marker_wakes pm by (metis snd_conv)
  have "refresh_pending_work cfg ns k pq dq now upd e1 e2 e3 db =
      (if ?won \<and> captured_wakes ns k db \<noteq> [] then delete_wakes ns k (captured_wakes ns k db) (e3 db1) else e3 db1)"
    using assms(1) pm u by (simp add: refresh_pending_work_def gen_def Let_def)
  then show ?thesis using w
    by (intro exI [of _ db1])
      (auto simp: delete_wakes_def delete_where_def intro!: filter_cong dest: subsetD [OF captured_wakes_subset])
qed

definition example_index :: work_db where
  "example_index = \<lparr>ipc_sent = [],
     work_rows = [\<lparr>nw_namespace = ''n'', nw_kind = K_BUILD, nw_pending = True, nw_generation = 4,
                    nw_processed_generation = 4, nw_due_at = None, nw_updated_at = 1\<rparr>],
     wake_rows = [\<lparr>wk_id = 7, wk_namespace = ''n'', wk_kind = K_BUILD, wk_created_at = 1\<rparr>]\<rparr>"

theorem refresh_deletes_only_captured_witness:
  "wake_rows (refresh_pending_work example_settings ''n'' K_BUILD (\<lambda>_ _. False) (\<lambda>_ _. None) 5 6 (\<lambda>d. d) (\<lambda>d. d)
      (\<lambda>d. snd (append_wake example_settings 8 6 ''n'' K_BUILD d)) example_index) =
     [\<lparr>wk_id = 8, wk_namespace = ''n'', wk_kind = K_BUILD, wk_created_at = 6\<rparr>]"
  using refresh_deletes_only_captured [where cfg = example_settings and ns = "''n''" and k = K_BUILD
      and ?e1.0 = "\<lambda>d. d" and ?e2.0 = "\<lambda>d. d" and db = example_index and pq = "\<lambda>_ _. False" and dq = "\<lambda>_ _. None"
      and now = 5 and upd = 6 and ?e3.0 = "\<lambda>d. snd (append_wake example_settings 8 6 ''n'' K_BUILD d)"]
  by (auto simp: example_index_def example_settings_def table_simps wins_marker_def wakes_of_def captured_wakes_def
      WAKE_BATCH_SIZE_def append_wake_def)

end
