(* ===== verification/Outbox.thy ===== *)
theory Outbox
  imports Work_Index
begin

text \<open>
  The transactional outbox of \<open>backend_core/runtime_outbox_service.py\<close>: events enqueued in the
  transaction that makes them true, claimed in batches with a token and a lease generation, and
  finalized only by the claim that still holds the row. Runtime wakes are sent with the finalizing
  commit; external deliveries (e-mail, Telegram) and storage clean-ups have consumers of their own.
\<close>

subsection \<open>State\<close>

datatype outbox_status = OB_PENDING | OB_DISPATCHING | OB_DISPATCHED | OB_FAILED | OB_POISONED

record outbox_event =
  ev_id :: string
  ev_kind :: string
  ev_status :: outbox_status
  ev_payload_json :: payload
  ev_catalog_namespace :: "string option"
  ev_catalog_table :: "string option"
  ev_catalog_family_prefix :: "string option"
  ev_attempts :: int
  ev_claim_token :: "string option"
  ev_lease_generation :: int
  ev_lease_expires_at :: "timestamp option"
  ev_last_error :: "string option"
  ev_available_at :: timestamp
  ev_created_at :: timestamp
  ev_updated_at :: timestamp
  ev_dispatched_at :: "timestamp option"

record delivery_receipt =
  rc_event_id :: string
  rc_kind :: string
  rc_delivered_at :: timestamp

record part_receipt =
  pr_event_id :: string
  pr_part_key :: string
  pr_delivered_at :: timestamp

record outbox_db = work_db +
  events :: "outbox_event list"
  receipts :: "delivery_receipt list"
  part_receipts :: "part_receipt list"

record outbox_claim =
  oc_event_id :: string
  oc_claim_token :: string
  oc_lease_generation :: int
  oc_event_kind :: string
  oc_payload :: payload
  oc_already_delivered :: bool
  oc_completed_parts :: "string list"

definition EMAIL_DELIVERY :: string where "EMAIL_DELIVERY = ''email_delivery''"
definition TELEGRAM_DELIVERY :: string where "TELEGRAM_DELIVERY = ''telegram_delivery''"
definition STORAGE_CLEANUP_KIND :: string where "STORAGE_CLEANUP_KIND = ''storage_cleanup''"

definition EXTERNAL_DELIVERY_KINDS :: "string list" where
  "EXTERNAL_DELIVERY_KINDS = [EMAIL_DELIVERY, TELEGRAM_DELIVERY]"

definition ISOLATED_DELIVERY_KINDS :: "string list" where
  "ISOLATED_DELIVERY_KINDS = EXTERNAL_DELIVERY_KINDS @ [STORAGE_CLEANUP_KIND]"

text \<open>The tokens of \<open>RuntimePayloadKind\<close>.\<close>

definition RUNTIME_PAYLOAD_KINDS :: "string list" where
  "RUNTIME_PAYLOAD_KINDS = [''build'', ''engine'', ''job'', ''compute_request'', ''compute_response'', ''datasource_delete'']"

definition payload_kind :: "payload \<Rightarrow> string option" where
  "payload_kind p = (case map_of p ''kind'' of
     Some (JStr k) \<Rightarrow> if k \<in> set RUNTIME_PAYLOAD_KINDS then Some k else None
   | _ \<Rightarrow> None)"

subsection \<open>Redaction\<close>

text \<open>Python's \<open>str.replace\<close> with a non-empty pattern.\<close>

function replace_all :: "string \<Rightarrow> string \<Rightarrow> string \<Rightarrow> string" where
  "replace_all old new [] = []"
| "replace_all old new (c # cs) =
     (if old \<noteq> [] \<and> take (length old) (c # cs) = old
      then new @ replace_all old new (drop (length old) (c # cs))
      else c # replace_all old new cs)"
  by pat_completeness auto
termination by (relation "measure (\<lambda>(_, _, s). length s)") (auto simp: Suc_le_eq)

definition redact_secrets_in_text :: "string \<Rightarrow> string list \<Rightarrow> string" where
  "redact_secrets_in_text message secrets =
     fold (\<lambda>s m. if s \<noteq> [] then replace_all s ''[REDACTED]'' m else m) secrets message"

definition SENSITIVE_ERROR_FIELDS :: "string list" where
  "SENSITIVE_ERROR_FIELDS = [''password'', ''smtp_password'', ''telegram_bot_token'', ''openrouter_api_key'',
     ''openai_api_key'', ''kaggle_api_key'', ''api_key'', ''authorization'', ''bot_token'', ''token'']"

definition payload_secrets :: "payload \<Rightarrow> string list" where
  "payload_secrets p = concat (map (\<lambda>(k, v). case v of
       JStr s \<Rightarrow> if k \<in> set SENSITIVE_ERROR_FIELDS \<and> s \<noteq> [] then [s] else [] | _ \<Rightarrow> []) p)"

definition redact_payload_secrets :: "string \<Rightarrow> payload \<Rightarrow> string" where
  "redact_payload_secrets message p = redact_secrets_in_text message (payload_secrets p)"

subsection \<open>Enqueueing\<close>

definition notify_dispatcher :: "string \<Rightarrow> 'a work_db_scheme \<Rightarrow> 'a work_db_scheme" where
  "notify_dispatcher ns db =
     notify_on_commit [(''kind'', JStr ''runtime_outbox_wakeup''), (''namespace'', JStr ns)] db"

definition new_event :: "string \<Rightarrow> timestamp \<Rightarrow> string \<Rightarrow> payload \<Rightarrow> outbox_event" where
  "new_event uid now kind p =
     \<lparr>ev_id = uid, ev_kind = kind, ev_status = OB_PENDING, ev_payload_json = p, ev_catalog_namespace = None,
      ev_catalog_table = None, ev_catalog_family_prefix = None, ev_attempts = 0, ev_claim_token = None,
      ev_lease_generation = 0, ev_lease_expires_at = None, ev_last_error = None, ev_available_at = now,
      ev_created_at = now, ev_updated_at = now, ev_dispatched_at = None\<rparr>"

text \<open>\<open>i\<close> is the position of this enqueue among those of the transaction.\<close>

definition enqueue_event ::
  "settings \<Rightarrow> txn \<Rightarrow> nat \<Rightarrow> string \<Rightarrow> payload \<Rightarrow> string \<Rightarrow> 'a outbox_db_scheme \<Rightarrow> 'a outbox_db_scheme" where
  "enqueue_event cfg tx i kind p ns db =
     (let db1 = db\<lparr>events := events db @ [new_event (tx_ids tx i) (tx_now tx) kind p]\<rparr>;
          db2 = snd (append_wake cfg (tx_wakes tx i) (tx_stmt tx) ns K_OUTBOX db1)
      in notify_dispatcher ns db2)"

definition enqueue_runtime_event ::
  "settings \<Rightarrow> txn \<Rightarrow> nat \<Rightarrow> string \<Rightarrow> payload \<Rightarrow> 'a outbox_db_scheme \<Rightarrow> 'a outbox_db_scheme result" where
  "enqueue_runtime_event cfg tx i cur_ns p db =
     (case payload_kind p of
        None \<Rightarrow> Inl (ValueError ''Unsupported runtime outbox payload kind'')
      | Some kind \<Rightarrow>
          let ns = (case map_of p ''namespace'' of Some (JStr n) \<Rightarrow> if n \<noteq> [] then n else cur_ns | _ \<Rightarrow> cur_ns)
          in Inr (enqueue_event cfg tx i kind p ns db))"

definition enqueue_notification_delivery ::
  "settings \<Rightarrow> txn \<Rightarrow> nat \<Rightarrow> string \<Rightarrow> payload \<Rightarrow> 'a outbox_db_scheme \<Rightarrow> 'a outbox_db_scheme result" where
  "enqueue_notification_delivery cfg tx i cur_ns p db =
     (case map_of p ''kind'' of
        Some (JStr kind) \<Rightarrow>
          if kind \<in> set EXTERNAL_DELIVERY_KINDS then Inr (enqueue_event cfg tx i kind p cur_ns db)
          else Inl (ValueError ''Unsupported notification delivery kind'')
      | _ \<Rightarrow> Inl (ValueError ''Unsupported notification delivery kind''))"

definition list_pending_outbox_namespaces :: "settings \<Rightarrow> timestamp \<Rightarrow> 'a work_db_scheme \<Rightarrow> string list" where
  "list_pending_outbox_namespaces cfg stmt_now db = list_pending_namespaces cfg [K_OUTBOX] stmt_now db"

definition enqueue_api_build_notification ::
  "settings \<Rightarrow> txn \<Rightarrow> nat \<Rightarrow> string \<Rightarrow> string \<Rightarrow> string \<Rightarrow> int \<Rightarrow> 'a outbox_db_scheme \<Rightarrow> 'a outbox_db_scheme result" where
  "enqueue_api_build_notification cfg tx i cur_ns ns build_id latest_sequence db =
     enqueue_runtime_event cfg tx i cur_ns
       [(''kind'', JStr ''build''), (''namespace'', JStr ns), (''build_id'', JStr build_id),
        (''latest_sequence'', JInt latest_sequence)] db"

definition enqueue_build_job_notification ::
  "settings \<Rightarrow> txn \<Rightarrow> nat \<Rightarrow> string \<Rightarrow> 'a outbox_db_scheme \<Rightarrow> 'a outbox_db_scheme result" where
  "enqueue_build_job_notification cfg tx i cur_ns db =
     enqueue_runtime_event cfg tx i cur_ns [(''kind'', JStr ''job''), (''namespace'', JStr cur_ns)] db"

definition enqueue_datasource_delete_notification ::
  "settings \<Rightarrow> txn \<Rightarrow> nat \<Rightarrow> string \<Rightarrow> string \<Rightarrow> 'a outbox_db_scheme \<Rightarrow> 'a outbox_db_scheme result" where
  "enqueue_datasource_delete_notification cfg tx i cur_ns datasource_id db =
     enqueue_runtime_event cfg tx i cur_ns
       [(''kind'', JStr ''datasource_delete''), (''namespace'', JStr cur_ns), (''datasource_id'', JStr datasource_id)] db"

subsection \<open>Claiming\<close>

definition event_claimable :: "timestamp \<Rightarrow> string list option \<Rightarrow> outbox_event \<Rightarrow> bool" where
  "event_claimable now kinds e \<longleftrightarrow>
     (ev_status e = OB_PENDING \<or> ev_status e = OB_FAILED \<or>
      (ev_status e = OB_DISPATCHING \<and> sql_le (ev_lease_expires_at e) now)) \<and>
     ev_available_at e \<le> now \<and>
     (case kinds of None \<Rightarrow> ev_kind e \<notin> set ISOLATED_DELIVERY_KINDS | Some ks \<Rightarrow> ev_kind e \<in> set ks)"

definition claim_event :: "settings \<Rightarrow> timestamp \<Rightarrow> string \<Rightarrow> outbox_event \<Rightarrow> outbox_event" where
  "claim_event cfg now tok e =
     e\<lparr>ev_status := OB_DISPATCHING, ev_claim_token := Some tok, ev_lease_generation := ev_lease_generation e + 1,
       ev_lease_expires_at := Some (now + seconds (runtime_outbox_claim_ttl_seconds cfg)),
       ev_attempts := ev_attempts e + 1, ev_updated_at := now\<rparr>"

definition claim_of :: "'a outbox_db_scheme \<Rightarrow> string \<Rightarrow> outbox_event \<Rightarrow> outbox_claim" where
  "claim_of db tok e =
     \<lparr>oc_event_id = ev_id e, oc_claim_token = tok, oc_lease_generation = ev_lease_generation e + 1,
      oc_event_kind = ev_kind e, oc_payload = ev_payload_json e,
      oc_already_delivered = (ev_kind e \<in> set EXTERNAL_DELIVERY_KINDS \<and> get_row rc_event_id (ev_id e) (receipts db) \<noteq> None),
      oc_completed_parts = (if ev_kind e = TELEGRAM_DELIVERY
         then remdups (map pr_part_key (filter (\<lambda>p. pr_event_id p = ev_id e) (part_receipts db))) else [])\<rparr>"

definition claimable_events ::
  "timestamp \<Rightarrow> (string \<Rightarrow> bool) \<Rightarrow> int \<Rightarrow> string list option \<Rightarrow> 'a outbox_db_scheme \<Rightarrow> outbox_event list" where
  "claimable_events now locked limit kinds db =
     select_ordered (\<lambda>e. event_claimable now kinds e \<and> \<not> locked (ev_id e))
       (\<lambda>e. (ev_available_at e, ev_created_at e, ev_id e)) (nat limit) (events db)"

definition claim_events :: "settings \<Rightarrow> timestamp \<Rightarrow> (nat \<Rightarrow> string) \<Rightarrow> outbox_event list \<Rightarrow> outbox_event list \<Rightarrow> outbox_event list" where
  "claim_events cfg now toks chosen evs =
     fold (\<lambda>(j, e) rs. update_where (\<lambda>r. ev_id r = ev_id e) (claim_event cfg now (toks j)) rs)
       (enumerate 0 chosen) evs"

definition claim_next_events ::
  "settings \<Rightarrow> txn \<Rightarrow> (string \<Rightarrow> bool) \<Rightarrow> int \<Rightarrow> string list option \<Rightarrow> 'a outbox_db_scheme \<Rightarrow>
   outbox_claim list \<times> 'a outbox_db_scheme" where
  "claim_next_events cfg tx locked limit kinds db =
     (if limit < 1 then ([], db)
      else let chosen = claimable_events (tx_now tx) locked limit kinds db
           in if chosen = [] then ([], db)
              else (map (\<lambda>(j, e). claim_of db (tx_ids tx j) e) (enumerate 0 chosen),
                    db\<lparr>events := claim_events cfg (tx_now tx) (tx_ids tx) chosen (events db)\<rparr>))"

subsection \<open>Finalizing\<close>

definition finalize_values :: "settings \<Rightarrow> timestamp \<Rightarrow> string option \<Rightarrow> outbox_event \<Rightarrow> outbox_event" where
  "finalize_values cfg now err e =
     (let poisoned = (err \<noteq> None \<and> ev_kind e \<noteq> STORAGE_CLEANUP_KIND \<and> ev_attempts e \<ge> runtime_outbox_max_attempts cfg)
      in e\<lparr>ev_status := (if err = None then OB_DISPATCHED else if poisoned then OB_POISONED else OB_FAILED),
           ev_claim_token := None, ev_lease_expires_at := None,
           ev_last_error := map_option (take 1000) err,
           ev_available_at := (if err \<noteq> None \<and> \<not> poisoned then now + seconds (runtime_outbox_retry_seconds cfg) else now),
           ev_dispatched_at := (if err = None then Some now else None), ev_updated_at := now\<rparr>)"

text \<open>The body of the loop over the locked rows, for a row whose claim is current. The NOTIFY raises
  on a payload kind it does not know.\<close>

definition finalize_event ::
  "settings \<Rightarrow> timestamp \<Rightarrow> bool \<Rightarrow> string option \<Rightarrow> outbox_event \<Rightarrow> 'a outbox_db_scheme \<Rightarrow> 'a outbox_db_scheme result" where
  "finalize_event cfg now record_receipt err e db =
     (let msg = merge_obj (ev_payload_json e) [(''event_id'', JStr (ev_id e))];
          notifies = (err = None \<and> ev_kind e \<notin> set ISOLATED_DELIVERY_KINDS)
      in if notifies \<and> payload_kind msg = None
         then Inl (ValueError ''Unsupported runtime notification payload kind'')
         else
           let db1 = (if notifies then notify_on_commit msg db else db);
               db2 = (if record_receipt \<and> err = None \<and> ev_kind e \<in> set EXTERNAL_DELIVERY_KINDS \<and>
                         get_row rc_event_id (ev_id e) (receipts db1) = None
                      then db1\<lparr>receipts := receipts db1 @
                             [\<lparr>rc_event_id = ev_id e, rc_kind = ev_kind e, rc_delivered_at = now\<rparr>]\<rparr>
                      else db1);
               db3 = (if err = None \<and> ev_kind e = TELEGRAM_DELIVERY
                      then db2\<lparr>part_receipts := delete_where (\<lambda>p. pr_event_id p = ev_id e) (part_receipts db2)\<rparr>
                      else db2)
           in Inr (db3\<lparr>events := update_where (\<lambda>r. ev_id r = ev_id e) (finalize_values cfg now err) (events db3)\<rparr>))"

type_synonym outcome = "outbox_claim \<times> string option"

text \<open>\<open>claims_by_id\<close>: a later outcome of the same event replaces an earlier one.\<close>

definition claims_by_id :: "outcome list \<Rightarrow> (string \<times> outcome) list" where
  "claims_by_id outcomes = fold (\<lambda>x d. AList.update (oc_event_id (fst x)) x d) outcomes []"

definition claim_matches :: "outbox_claim \<Rightarrow> outbox_event \<Rightarrow> bool" where
  "claim_matches c e \<longleftrightarrow> ev_claim_token e = Some (oc_claim_token c) \<and> ev_lease_generation e = oc_lease_generation c"

fun finalize_loop ::
  "settings \<Rightarrow> timestamp \<Rightarrow> bool \<Rightarrow> (string \<times> outcome) list \<Rightarrow> outbox_event list \<Rightarrow> nat \<times> nat \<Rightarrow> 'a outbox_db_scheme \<Rightarrow>
   ((nat \<times> nat) \<times> 'a outbox_db_scheme) result" where
  "finalize_loop cfg now rec by_id [] n db = Inr (n, db)"
| "finalize_loop cfg now rec by_id (e # es) (f, d) db =
     (case map_of by_id (ev_id e) of
        None \<Rightarrow> finalize_loop cfg now rec by_id es (f, d) db
      | Some (c, err) \<Rightarrow>
          if \<not> claim_matches c e then finalize_loop cfg now rec by_id es (f, d) db
          else case finalize_event cfg now rec err e db of
                 Inl x \<Rightarrow> Inl x
               | Inr db' \<Rightarrow> finalize_loop cfg now rec by_id es (Suc f, if err = None then Suc d else d) db')"

definition finalize_claims ::
  "settings \<Rightarrow> txn \<Rightarrow> outcome list \<Rightarrow> bool \<Rightarrow> 'a outbox_db_scheme \<Rightarrow> ((nat \<times> nat) \<times> 'a outbox_db_scheme) result" where
  "finalize_claims cfg tx outcomes record_receipt db =
     (if outcomes = [] then Inr ((0, 0), db)
      else let by_id = claims_by_id outcomes;
               rows = filter (\<lambda>e. ev_id e \<in> fst ` set by_id \<and> ev_status e = OB_DISPATCHING) (events db)
           in case finalize_loop cfg (tx_now tx) record_receipt by_id rows (0, 0) db of
                Inl x \<Rightarrow> Inl x
              | Inr ((f, d), db') \<Rightarrow> if f = 0 then Inr ((0, 0), db) else Inr ((f, d), db'))"

subsection \<open>The wake index\<close>

definition outbox_pending :: "timestamp \<Rightarrow> 'a outbox_db_scheme \<Rightarrow> bool" where
  "outbox_pending t db \<longleftrightarrow>
     list_ex (\<lambda>e. ev_kind e \<noteq> STORAGE_CLEANUP_KIND \<and>
        (((ev_status e = OB_PENDING \<or> ev_status e = OB_FAILED) \<and> ev_available_at e \<le> t) \<or>
         (ev_status e = OB_DISPATCHING \<and> sql_le (ev_lease_expires_at e) t \<and> ev_available_at e \<le> t))) (events db)"

definition next_attempt_at :: "outbox_event \<Rightarrow> timestamp option" where
  "next_attempt_at e =
     (if ev_kind e = STORAGE_CLEANUP_KIND then None
      else case ev_status e of
             OB_PENDING \<Rightarrow> Some (ev_available_at e)
           | OB_FAILED \<Rightarrow> Some (ev_available_at e)
           | OB_DISPATCHING \<Rightarrow> map_option (max (ev_available_at e)) (ev_lease_expires_at e)
           | _ \<Rightarrow> None)"

definition outbox_due :: "timestamp \<Rightarrow> 'a outbox_db_scheme \<Rightarrow> timestamp option" where
  "outbox_due t db = sql_min (filter (\<lambda>x. sql_gt x t) (map next_attempt_at (events db)))"

definition clear_namespace_pending_if_idle :: "settings \<Rightarrow> string \<Rightarrow> timestamp \<Rightarrow> 'a outbox_db_scheme \<Rightarrow> 'a outbox_db_scheme" where
  "clear_namespace_pending_if_idle cfg ns stmt_now db =
     refresh_quiet cfg ns K_OUTBOX outbox_pending outbox_due stmt_now db"

subsection \<open>Dispatching\<close>

definition exc_text :: "py_error \<Rightarrow> string" where
  "exc_text x = (case x of ValueError m \<Rightarrow> m | RuntimeError m \<Rightarrow> m | KeyError m \<Rightarrow> m | FlightLockBusy m \<Rightarrow> m | StorageCleanupConflict m \<Rightarrow> m | AppError _ m \<Rightarrow> m)"

text \<open>One round of the batch dispatcher: the finalizing commit carries the NOTIFYs; if it raises, it
  is rolled back and the whole batch is finalized as failed. \<open>tx1\<close>, \<open>tx2\<close>, \<open>tx3\<close> are the claiming,
  the finalizing and the compensating transaction.\<close>

definition dispatch_round ::
  "settings \<Rightarrow> txn \<times> txn \<times> txn \<Rightarrow> (string \<Rightarrow> bool) \<Rightarrow> int \<Rightarrow> 'a outbox_db_scheme \<Rightarrow>
   (outbox_claim list \<times> nat \<times> 'a outbox_db_scheme) result" where
  "dispatch_round cfg txs locked limit db =
     (case txs of (tx1, tx2, tx3) \<Rightarrow>
       let (claims, db1) = claim_next_events cfg tx1 locked limit None db
       in if claims = [] then Inr ([], 0, db1)
          else case finalize_claims cfg tx2 (map (\<lambda>c. (c, None)) claims) False db1 of
                 Inr ((_, d), db2) \<Rightarrow> Inr (claims, d, db2)
               | Inl x \<Rightarrow>
                   (case finalize_claims cfg tx3
                       (map (\<lambda>c. (c, Some (redact_payload_secrets (exc_text x) (oc_payload c)))) claims) False db1 of
                      Inr ((_, d), db2) \<Rightarrow> Inr (claims, d, db2)
                    | Inl y \<Rightarrow> Inl y))"

function dispatch_postgres_rounds ::
  "settings \<Rightarrow> (nat \<Rightarrow> txn \<times> txn \<times> txn) \<Rightarrow> (string \<Rightarrow> bool) \<Rightarrow> nat \<Rightarrow> nat \<Rightarrow> 'a outbox_db_scheme \<Rightarrow>
   (nat \<times> 'a outbox_db_scheme) result" where
  "dispatch_postgres_rounds cfg txs locked i remaining db =
     (if remaining = 0 then Inr (0, db)
      else case dispatch_round cfg (txs i) locked (int remaining) db of
             Inl x \<Rightarrow> Inl x
           | Inr (claims, d, db') \<Rightarrow>
               if claims = [] then Inr (0, db')
               else case dispatch_postgres_rounds cfg txs locked (Suc i) (remaining - length claims) db' of
                      Inl x \<Rightarrow> Inl x
                    | Inr (d', db'') \<Rightarrow> Inr (d + d', db''))"
  by pat_completeness auto
termination by (relation "measure (\<lambda>(_, _, _, _, remaining, _). remaining)") auto

declare dispatch_postgres_rounds.simps [simp del]

text \<open>Without the distributed runtime each claim is sent on the publisher's own connection, which commits every statement at
  once: \<open>_send_postgres_message\<close> tries the NOTIFY again after an error of the connection. \<open>sent\<close> is how many of its
  NOTIFYs were committed (two when the answer to the first was lost), and the text of the exception if the second attempt
  raised.\<close>

definition notify_runtime_payload ::
  "payload \<Rightarrow> nat \<times> string option \<Rightarrow> 'a work_db_scheme \<Rightarrow> string option \<times> 'a work_db_scheme" where
  "notify_runtime_payload p sent db =
     (if payload_kind p = None then (Some ''Unsupported runtime notification payload kind'', db)
      else (snd sent, db\<lparr>ipc_sent := ipc_sent db @ replicate (fst sent) p\<rparr>))"

fun dispatch_direct_rounds ::
  "settings \<Rightarrow> (nat \<Rightarrow> txn \<times> txn) \<Rightarrow> (nat \<Rightarrow> payload \<Rightarrow> nat \<times> string option) \<Rightarrow> (string \<Rightarrow> bool) \<Rightarrow> nat \<Rightarrow> nat \<Rightarrow>
   'a outbox_db_scheme \<Rightarrow> (nat \<times> 'a outbox_db_scheme) result" where
  "dispatch_direct_rounds cfg txs send locked i 0 db = Inr (0, db)"
| "dispatch_direct_rounds cfg txs send locked i (Suc n) db =
     (case claim_next_events cfg (fst (txs i)) locked 1 None db of
        ([], db1) \<Rightarrow> Inr (0, db1)
      | (c # _, db1) \<Rightarrow>
          let msg = merge_obj (oc_payload c) [(''event_id'', JStr (oc_event_id c))];
              err = map_option (\<lambda>m. redact_payload_secrets m (oc_payload c)) (fst (notify_runtime_payload msg (send i msg) db1));
              db2 = snd (notify_runtime_payload msg (send i msg) db1)
          in case finalize_claims cfg (snd (txs i)) [(c, err)] False db2 of
               Inl x \<Rightarrow> Inl x
             | Inr ((f, _), db3) \<Rightarrow>
                 (case dispatch_direct_rounds cfg txs send locked (Suc i) n db3 of
                    Inl x \<Rightarrow> Inl x
                  | Inr (d, db4) \<Rightarrow> Inr ((if err = None \<and> f \<noteq> 0 then Suc d else d), db4)))"

definition dispatch_pending_events ::
  "settings \<Rightarrow> string \<Rightarrow> (nat \<Rightarrow> txn \<times> txn \<times> txn) \<Rightarrow> (nat \<Rightarrow> payload \<Rightarrow> nat \<times> string option) \<Rightarrow> (string \<Rightarrow> bool) \<Rightarrow>
   timestamp \<Rightarrow> int \<Rightarrow> 'a outbox_db_scheme \<Rightarrow> (nat \<times> 'a outbox_db_scheme) result" where
  "dispatch_pending_events cfg cur_ns txs send locked stmt_now limit db =
     (case (if distributed_runtime_enabled cfg
            then dispatch_postgres_rounds cfg txs locked 0 (nat limit) db
            else dispatch_direct_rounds cfg (\<lambda>i. (fst (txs i), fst (snd (txs i)))) send locked 0 (nat limit) db) of
        Inl x \<Rightarrow> Inl x
      | Inr (d, db') \<Rightarrow> Inr (d, clear_namespace_pending_if_idle cfg cur_ns stmt_now db'))"

subsection \<open>Isolated consumers\<close>

definition claim_external_deliveries ::
  "settings \<Rightarrow> txn \<Rightarrow> (string \<Rightarrow> bool) \<Rightarrow> string \<Rightarrow> int \<Rightarrow> 'a outbox_db_scheme \<Rightarrow> outbox_claim list \<times> 'a outbox_db_scheme" where
  "claim_external_deliveries cfg tx locked kind limit db = claim_next_events cfg tx locked limit (Some [kind]) db"

definition claim_storage_cleanups ::
  "settings \<Rightarrow> txn \<Rightarrow> (string \<Rightarrow> bool) \<Rightarrow> int \<Rightarrow> 'a outbox_db_scheme \<Rightarrow> outbox_claim list \<times> 'a outbox_db_scheme" where
  "claim_storage_cleanups cfg tx locked limit db =
     claim_next_events cfg tx locked (min (max limit 1) 16) (Some [STORAGE_CLEANUP_KIND]) db"

definition finalize_storage_cleanup ::
  "settings \<Rightarrow> txn \<Rightarrow> outbox_claim \<Rightarrow> string option \<Rightarrow> 'a outbox_db_scheme \<Rightarrow> (bool \<times> 'a outbox_db_scheme) result" where
  "finalize_storage_cleanup cfg tx claim err db =
     (case finalize_claims cfg tx [(claim, err)] False db of
        Inl x \<Rightarrow> Inl x | Inr ((f, _), db') \<Rightarrow> Inr (f = 1, db'))"

definition finalize_external_delivery ::
  "settings \<Rightarrow> string \<Rightarrow> txn \<Rightarrow> timestamp \<Rightarrow> outbox_claim \<Rightarrow> string option \<Rightarrow> 'a outbox_db_scheme \<Rightarrow>
   (bool \<times> 'a outbox_db_scheme) result" where
  "finalize_external_delivery cfg cur_ns tx stmt_now claim err db =
     (let redacted = map_option (\<lambda>m. redact_payload_secrets m (oc_payload claim)) err
      in case finalize_claims cfg tx [(claim, redacted)] (err = None \<and> \<not> oc_already_delivered claim) db of
           Inl x \<Rightarrow> Inl x
         | Inr ((f, _), db') \<Rightarrow>
             Inr (f = 1, if f \<noteq> 0 then clear_namespace_pending_if_idle cfg cur_ns stmt_now db' else db'))"

definition record_external_delivery_part ::
  "settings \<Rightarrow> txn \<Rightarrow> outbox_claim \<Rightarrow> string \<Rightarrow> 'a outbox_db_scheme \<Rightarrow> (bool \<times> 'a outbox_db_scheme) result" where
  "record_external_delivery_part cfg tx claim part_key db =
     (if oc_event_kind claim \<noteq> TELEGRAM_DELIVERY
      then Inl (ValueError ''Per-part progress is only supported for Telegram deliveries'')
      else if part_key = [] \<or> length part_key > 128
      then Inl (ValueError ''Telegram delivery part key is invalid'')
      else case get_row ev_id (oc_event_id claim) (events db) of
             None \<Rightarrow> Inr (False, db)
           | Some e \<Rightarrow>
               if ev_kind e \<noteq> TELEGRAM_DELIVERY \<or> ev_status e \<noteq> OB_DISPATCHING \<or> \<not> claim_matches claim e \<or>
                  \<not> sql_gt (ev_lease_expires_at e) (tx_wall tx)
               then Inr (False, db)
               else
                 let db1 = (if get_row (\<lambda>p. (pr_event_id p, pr_part_key p)) (ev_id e, part_key) (part_receipts db) = None
                            then db\<lparr>part_receipts := part_receipts db @
                                   [\<lparr>pr_event_id = ev_id e, pr_part_key = part_key, pr_delivered_at = tx_wall tx\<rparr>]\<rparr>
                            else db)
                 in Inr (True, db1\<lparr>events := update_where (\<lambda>r. ev_id r = ev_id e)
                      (\<lambda>r. r\<lparr>ev_lease_expires_at := Some (tx_wall tx + seconds (runtime_outbox_claim_ttl_seconds cfg)),
                             ev_updated_at := tx_wall tx\<rparr>) (events db1)\<rparr>))"

end
