(* ===== verification/Outbox_Facts.thy ===== *)
theory Outbox_Facts
  imports Outbox
begin

text \<open>
  What the outbox guarantees: the claim and finalize transactions form a fenced lease, so that a
  lost claim can never finalize an event; a finalized runtime event is notified exactly once with
  its commit in the distributed runtime; failures are retried and then poisoned, storage clean-ups never; and the wake index
  keeps listing the namespace while an event can still become ready.
\<close>

subsection \<open>The queue behind the wake index\<close>

definition event_ready :: "timestamp \<Rightarrow> outbox_event \<Rightarrow> bool" where
  "event_ready t e \<longleftrightarrow> ev_kind e \<noteq> STORAGE_CLEANUP_KIND \<and> ev_available_at e \<le> t \<and>
     (ev_status e = OB_PENDING \<or> ev_status e = OB_FAILED \<or>
      ev_status e = OB_DISPATCHING \<and> sql_le (ev_lease_expires_at e) t)"

lemma outbox_pending_iff: "outbox_pending t db \<longleftrightarrow> (\<exists>e \<in> set (events db). event_ready t e)"
  by (auto simp: outbox_pending_def event_ready_def list_ex_iff)

lemma event_ready_iff_attempt: "event_ready t e \<longleftrightarrow> (\<exists>a. next_attempt_at e = Some a \<and> a \<le> t)"
  by (cases "ev_status e"; cases "ev_lease_expires_at e") (auto simp: event_ready_def next_attempt_at_def)

interpretation outbox_queue: recoverable_queue outbox_pending outbox_due
proof unfold_locales
  show "outbox_pending t (db\<lparr>work_rows := ws, wake_rows := vs\<rparr>) = outbox_pending t db"
    for t ws vs and db :: "'a outbox_db_scheme"
    by (simp add: outbox_pending_def)
  show "outbox_pending t db \<Longrightarrow> t \<le> u \<Longrightarrow> outbox_pending u db" for t u and db :: "'a outbox_db_scheme"
    unfolding outbox_pending_iff event_ready_iff_attempt by (meson order_trans)
  fix t u and db :: "'a outbox_db_scheme"
  assume n: "\<not> outbox_pending t db" and p: "outbox_pending u db" and "t \<le> u"
  then obtain e a where e: "e \<in> set (events db)" "next_attempt_at e = Some a" "a \<le> u"
    unfolding outbox_pending_iff event_ready_iff_attempt by blast
  moreover have "\<not> a \<le> t" using n e unfolding outbox_pending_iff event_ready_iff_attempt by blast
  ultimately have "Some a \<in> set (filter (\<lambda>x. sql_gt x t) (map next_attempt_at (events db)))"
    by (force simp: image_iff)
  then show "\<exists>d. outbox_due t db = Some d \<and> d \<le> u"
    using sql_min_lower e(3) unfolding outbox_due_def by (meson order_trans)
qed

subsection \<open>The table as a fenced lease\<close>

definition event_holder :: "outbox_event \<Rightarrow> string option" where
  "event_holder e = (if ev_status e = OB_DISPATCHING then ev_claim_token e else None)"

abbreviation event_move :: "outbox_event \<Rightarrow> outbox_event \<Rightarrow> bool" where
  "event_move \<equiv> lease_move ev_id ev_lease_generation event_holder"

definition outbox_inv :: "'a outbox_db_scheme \<Rightarrow> bool" where
  "outbox_inv db \<longleftrightarrow> unique_by ev_id (events db)"

inductive outbox_step :: "settings \<Rightarrow> 'a outbox_db_scheme \<Rightarrow> 'a outbox_db_scheme \<Rightarrow> bool" for cfg where
  ob_enqueue: "get_row ev_id (tx_ids tx i) (events db) = None \<Longrightarrow>
     outbox_step cfg db (enqueue_event cfg tx i kind p ns db)"
| ob_claim: "claim_next_events cfg tx locked limit kinds db = (cs, db') \<Longrightarrow> outbox_step cfg db db'"
| ob_finalize: "finalize_claims cfg tx outcomes rec db = Inr (n, db') \<Longrightarrow> outbox_step cfg db db'"
| ob_part: "record_external_delivery_part cfg tx claim part db = Inr (b, db') \<Longrightarrow> outbox_step cfg db db'"
| ob_refresh: "outbox_step cfg db (clear_namespace_pending_if_idle cfg ns stmt_now db)"
| ob_send: "\<not> distributed_runtime_enabled cfg \<Longrightarrow> outbox_step cfg db (snd (notify_runtime_payload p sent db))"

lemma events_frames [simp]:
  "events (notify_on_commit p db) = events db"
  "events (notify_dispatcher ns db) = events db"
  "events (snd (append_wake cfg i now ns k db)) = events db"
  "events (delete_wakes ns k ids db) = events db"
  "events (snd (publish_marker n ns k g pd d db)) = events db"
  "events (snd (notify_runtime_payload p sent db)) = events db"
  by (auto simp: notify_runtime_payload_def notify_on_commit_def notify_dispatcher_def append_wake_def delete_wakes_def publish_marker_def
      Let_def split: option.split)

lemma refresh_quiet_cases:
  "refresh_quiet cfg ns k pq dq now db = db \<or>
   (\<exists>g p d. refresh_quiet cfg ns k pq dq now db = snd (publish_marker now ns k g p d db) \<or>
     (\<exists>ids. refresh_quiet cfg ns k pq dq now db = delete_wakes ns k ids (snd (publish_marker now ns k g p d db))))"
  by (auto simp: refresh_quiet_def refresh_pending_work_def Let_def split_beta)

lemma events_refresh_quiet [simp]: "events (refresh_quiet cfg ns k pq dq now db) = events db"
  using refresh_quiet_cases [of cfg ns k pq dq now db] by auto

lemma events_clear [simp]: "events (clear_namespace_pending_if_idle cfg ns now db) = events db"
  by (simp add: clear_namespace_pending_if_idle_def)

lemma events_enqueue: "events (enqueue_event cfg tx i kind p ns db) = events db @ [new_event (tx_ids tx i) (tx_now tx) kind p]"
  by (simp add: enqueue_event_def Let_def)

lemma claim_event_move: "event_move e (claim_event cfg now tok e)"
  by (simp add: lease_move_def claim_event_def)

lemma finalize_values_move: "event_move e (finalize_values cfg now err e)"
  by (simp add: lease_move_def finalize_values_def event_holder_def Let_def)

lemma claim_events_moves: "list_all2 event_move evs (claim_events cfg now toks chosen evs)"
proof -
  have "list_all2 event_move evs
      (fold (\<lambda>(j, e) rs. update_where (\<lambda>r. ev_id r = ev_id e) (claim_event cfg now (toks j)) rs) ps evs)" for ps
  proof (induction ps arbitrary: evs)
    case (Cons p ps)
    have "list_all2 event_move evs (update_where (\<lambda>r. ev_id r = ev_id (snd p)) (claim_event cfg now (toks (fst p))) evs)"
      by (rule lease_moves_update) (rule claim_event_move)
    then show ?case using Cons.IH by (auto simp: split_beta intro: lease_moves_trans)
  qed simp
  then show ?thesis by (simp add: claim_events_def)
qed

lemma finalize_event_events:
  "finalize_event cfg now rec err e db = Inr db' \<Longrightarrow>
   events db' = update_where (\<lambda>r. ev_id r = ev_id e) (finalize_values cfg now err) (events db)"
  by (auto simp: finalize_event_def Let_def split: if_splits)

lemma finalize_loop_moves:
  "finalize_loop cfg now rec by_id es n db = Inr (n', db') \<Longrightarrow> list_all2 event_move (events db) (events db')"
proof (induction cfg now rec by_id es n db rule: finalize_loop.induct)
  case (2 cfg now rec by_id e es f d db)
  show ?case
  proof (cases "\<exists>c err. map_of by_id (ev_id e) = Some (c, err) \<and> claim_matches c e")
    case False
    then have "finalize_loop cfg now rec by_id (e # es) (f, d) db = finalize_loop cfg now rec by_id es (f, d) db"
      by (auto split: option.split)
    then show ?thesis using 2 False by (cases "map_of by_id (ev_id e)") auto
  next
    case True
    then obtain c err where c: "map_of by_id (ev_id e) = Some (c, err)" "claim_matches c e" by blast
    with "2.prems" obtain db1 where f: "finalize_event cfg now rec err e db = Inr db1"
      by (auto split: sum.splits)
    have "list_all2 event_move (events db) (events db1)"
      unfolding finalize_event_events [OF f] by (rule lease_moves_update) (rule finalize_values_move)
    moreover have "list_all2 event_move (events db1) (events db')"
      using "2.IH"(3) [OF c(1) refl _ f] "2.prems" c f by auto
    ultimately show ?thesis by (rule lease_moves_trans)
  qed
qed simp

lemma finalize_claims_moves:
  "finalize_claims cfg tx outcomes rec db = Inr (n, db') \<Longrightarrow> list_all2 event_move (events db) (events db')"
  unfolding finalize_claims_def Let_def
  by (auto split: if_splits sum.splits prod.splits dest: finalize_loop_moves)

lemma claim_next_events_moves:
  "claim_next_events cfg tx locked limit kinds db = (cs, db') \<Longrightarrow> list_all2 event_move (events db) (events db')"
  by (auto simp: claim_next_events_def Let_def claim_events_moves split: if_splits)

lemma record_part_moves:
  "record_external_delivery_part cfg tx claim part db = Inr (b, db') \<Longrightarrow> list_all2 event_move (events db) (events db')"
  by (auto simp: record_external_delivery_part_def Let_def lease_move_def event_holder_def
      intro!: lease_moves_update split: if_splits option.splits)

lemma outbox_step_moves:
  "outbox_step cfg db db' \<Longrightarrow> table_move ev_id ev_lease_generation event_holder (events db) (events db')"
proof (induction rule: outbox_step.induct)
  case (ob_enqueue tx i db kind p ns)
  then show ?case by (auto simp: events_enqueue new_event_def event_holder_def intro!: table_move_append)
next
  case (ob_claim tx locked limit kinds db cs db')
  then show ?case by (blast intro: table_move_rows claim_next_events_moves)
next
  case (ob_finalize tx outcomes rec db n db')
  then show ?case by (blast intro: table_move_rows finalize_claims_moves)
next
  case (ob_part tx claim part db b db')
  then show ?case by (blast intro: table_move_rows record_part_moves)
qed simp_all

lemma event_moves_unique: "list_all2 event_move rs ts \<Longrightarrow> unique_by ev_id ts = unique_by ev_id rs"
  by (erule unique_rel) (simp add: lease_move_def)

lemma outbox_step_inv: "outbox_step cfg db db' \<Longrightarrow> outbox_inv db \<Longrightarrow> outbox_inv db'"
proof (induction rule: outbox_step.induct)
  case (ob_enqueue tx i db kind p ns)
  then show ?case by (simp add: outbox_inv_def events_enqueue unique_append1 new_event_def)
next
  case (ob_claim tx locked limit kinds db cs db')
  then show ?case by (simp add: outbox_inv_def event_moves_unique [OF claim_next_events_moves])
next
  case (ob_finalize tx outcomes rec db n db')
  then show ?case by (simp add: outbox_inv_def event_moves_unique [OF finalize_claims_moves])
next
  case (ob_part tx claim part db b db')
  then show ?case by (simp add: outbox_inv_def event_moves_unique [OF record_part_moves])
qed (simp_all add: outbox_inv_def)

interpretation outbox_lease: lease_table "outbox_step cfg" outbox_inv events ev_id ev_lease_generation event_holder
  by unfold_locales (auto intro: outbox_step_inv outbox_step_moves)

subsection \<open>Dispatching is a run of transactions\<close>

lemma claim_then_finalize_run:
  assumes "claim_next_events cfg tx locked limit kinds db = (cs, db1)"
    and "finalize_claims cfg tx' outcomes rec db1 = Inr (n, db2)"
  shows "(outbox_step cfg)\<^sup>*\<^sup>* db db2"
  using ob_claim [OF assms(1)] ob_finalize [OF assms(2)] by (meson converse_rtranclp_into_rtranclp r_into_rtranclp)

lemma dispatch_round_run:
  assumes "dispatch_round cfg txs locked limit db = Inr (cs, d, db')"
  shows "(outbox_step cfg)\<^sup>*\<^sup>* db db'"
proof -
  obtain tx1 tx2 tx3 where txs: "txs = (tx1, tx2, tx3)" by (cases txs)
  obtain cs1 db1 where c: "claim_next_events cfg tx1 locked limit None db = (cs1, db1)" by force
  show ?thesis
  proof (cases "cs1 = []")
    case True
    then have "db' = db1" using assms txs c by (simp add: dispatch_round_def)
    then show ?thesis using ob_claim [OF c] by auto
  next
    case False
    then obtain tx outcomes n where "finalize_claims cfg tx outcomes False db1 = Inr (n, db')"
      using assms txs c by (auto simp: dispatch_round_def split: sum.splits)
    then show ?thesis by (rule claim_then_finalize_run [OF c])
  qed
qed

lemma dispatch_rounds_run:
  "dispatch_postgres_rounds cfg txs locked i n db = Inr (d, db') \<Longrightarrow> (outbox_step cfg)\<^sup>*\<^sup>* db db'"
proof (induction cfg txs locked i n db arbitrary: d rule: dispatch_postgres_rounds.induct)
  case (1 cfg txs locked i n db)
  show ?case
  proof (cases "n = 0")
    case False
    with "1.prems" obtain cs d1 db1 where r: "dispatch_round cfg (txs i) locked (int n) db = Inr (cs, d1, db1)"
      by (auto simp: dispatch_postgres_rounds.simps [of cfg txs locked i n] split: sum.splits)
    note run = dispatch_round_run [OF r]
    show ?thesis
    proof (cases "cs = []")
      case True
      then show ?thesis using "1.prems" False r run by (simp add: dispatch_postgres_rounds.simps [of cfg txs locked i n])
    next
      case cs: False
      with "1.prems" False r obtain d2 where
        "dispatch_postgres_rounds cfg txs locked (Suc i) (n - length cs) db1 = Inr (d2, db')"
        by (auto simp: dispatch_postgres_rounds.simps [of cfg txs locked i n] split: sum.splits)
      with run "1.IH" [OF False r refl refl cs] show ?thesis by (meson rtranclp_trans)
    qed
  qed (use "1.prems" in \<open>simp add: dispatch_postgres_rounds.simps\<close>)
qed

lemma dispatch_direct_run:
  "dispatch_direct_rounds cfg txs send locked i n db = Inr (d, db') \<Longrightarrow> \<not> distributed_runtime_enabled cfg \<Longrightarrow> (outbox_step cfg)\<^sup>*\<^sup>* db db'"
proof (induction cfg txs send locked i n db arbitrary: d rule: dispatch_direct_rounds.induct)
  case (2 cfg txs send locked i n db)
  obtain cs db1 where c: "claim_next_events cfg (fst (txs i)) locked 1 None db = (cs, db1)" by force
  then have s1: "outbox_step cfg db db1" by (rule ob_claim)
  show ?case
  proof (cases cs)
    case Nil
    then show ?thesis using 2 c s1 by auto
  next
    case (Cons x xs)
    let ?msg = "merge_obj (oc_payload x) [(''event_id'', JStr (oc_event_id x))]"
    let ?sent = "notify_runtime_payload ?msg (send i ?msg) db1"
    let ?err = "map_option (\<lambda>m. redact_payload_secrets m (oc_payload x)) (fst ?sent)"
    from "2.prems"(1) c Cons obtain f g db2 d2 where
      f: "finalize_claims cfg (snd (txs i)) [(x, ?err)] False (snd ?sent) = Inr ((f, g), db2)" and
      r: "dispatch_direct_rounds cfg txs send locked (Suc i) n db2 = Inr (d2, db')"
      by (auto simp: Let_def split: sum.splits)
    have "outbox_step cfg db1 (snd ?sent)" using "2.prems"(2) by (rule ob_send)
    moreover have "outbox_step cfg (snd ?sent) db2" using f by (rule ob_finalize)
    moreover have "(outbox_step cfg)\<^sup>*\<^sup>* db2 db'"
      using "2.IH" [OF c [symmetric] Cons refl refl refl f refl refl r "2.prems"(2)] .
    ultimately show ?thesis using s1 by (meson converse_rtranclp_into_rtranclp)
  qed
qed simp

lemma dispatch_pending_events_run:
  "dispatch_pending_events cfg ns txs send locked now limit db = Inr (d, db') \<Longrightarrow> (outbox_step cfg)\<^sup>*\<^sup>* db db'"
proof -
  assume a: "dispatch_pending_events cfg ns txs send locked now limit db = Inr (d, db')"
  let ?r = "if distributed_runtime_enabled cfg then dispatch_postgres_rounds cfg txs locked 0 (nat limit) db
            else dispatch_direct_rounds cfg (\<lambda>i. (fst (txs i), fst (snd (txs i)))) send locked 0 (nat limit) db"
  obtain db1 where r: "?r = Inr (d, db1)" and db': "db' = clear_namespace_pending_if_idle cfg ns now db1"
    using a by (auto simp: dispatch_pending_events_def split: sum.splits)
  have "(outbox_step cfg)\<^sup>*\<^sup>* db db1"
    using r by (cases "distributed_runtime_enabled cfg") (auto dest: dispatch_rounds_run dispatch_direct_run)
  then show ?thesis unfolding db' using ob_refresh by (rule rtranclp.rtrancl_into_rtrancl)
qed

subsection \<open>The finalizing loop\<close>

text \<open>Induction over the loop: the rows still to visit are untouched rows of the table.\<close>

lemma finalize_loop_keeps:
  assumes "finalize_loop cfg now rec by_id es n db = Inr (n', db')"
    and "unique_by ev_id (events db)" and "distinct (map ev_id es)"
    and "\<forall>e \<in> set es. e \<in> set (events db) \<and> ev_status e = OB_DISPATCHING" and "Q db"
    and fin: "\<And>c err e db db'. Q db \<Longrightarrow> unique_by ev_id (events db) \<Longrightarrow> e \<in> set (events db) \<Longrightarrow>
      ev_status e = OB_DISPATCHING \<Longrightarrow> finalize_event cfg now rec err e db = Inr db' \<Longrightarrow> map_of by_id (ev_id e) = Some (c, err) \<Longrightarrow> Q db'"
  shows "Q db'"
  using assms(1-5)
proof (induction es arbitrary: n db)
  case (Cons e es)
  obtain f d where n: "n = (f, d)" by (cases n)
  show ?case
  proof (cases "\<exists>c err. map_of by_id (ev_id e) = Some (c, err) \<and> claim_matches c e")
    case False
    then have "finalize_loop cfg now rec by_id (e # es) n db = finalize_loop cfg now rec by_id es n db"
      by (auto simp: n split: option.split)
    then show ?thesis using Cons by auto
  next
    case True
    then obtain c err where c: "map_of by_id (ev_id e) = Some (c, err)" "claim_matches c e" by blast
    with Cons.prems(1) n obtain db1 where f: "finalize_event cfg now rec err e db = Inr db1"
      by (auto split: sum.splits)
    have "Q db1" using fin [OF Cons.prems(5) Cons.prems(2) _ _ f c(1)] Cons.prems(4) by auto
    moreover have "unique_by ev_id (events db1)"
      using Cons.prems(2) unfolding finalize_event_events [OF f]
      by (subst unique_update) (auto simp: finalize_values_def Let_def)
    moreover have "\<forall>x \<in> set es. x \<in> set (events db1) \<and> ev_status x = OB_DISPATCHING"
      unfolding finalize_event_events [OF f] using Cons.prems(3,4) by (force simp: set_update_where image_iff)
    ultimately show ?thesis using Cons.IH [of "(Suc f, if err = None then Suc d else d)" db1] Cons.prems(1,3) c f n by auto
  qed
qed simp

lemma claims_by_id_mem: "map_of (claims_by_id outcomes) k = Some x \<Longrightarrow> x \<in> set outcomes"
proof -
  have "map_of (fold (\<lambda>x d. AList.update (oc_event_id (fst x)) x d) outcomes d) k = Some x \<Longrightarrow> x \<in> set outcomes \<or> map_of d k = Some x" for d
  proof (induction outcomes arbitrary: d)
    case (Cons y ys)
    then show ?case using Cons.IH [of "AList.update (oc_event_id (fst y)) y d"] by (auto simp: update_conv' split: if_splits)
  qed simp
  then show "map_of (claims_by_id outcomes) k = Some x \<Longrightarrow> x \<in> set outcomes" by (fastforce simp: claims_by_id_def)
qed

lemma finalize_claims_keeps:
  assumes "finalize_claims cfg tx outcomes rec db = Inr (n, db')" and inv: "outbox_inv db" and "Q db"
    and fin: "\<And>c err e db db'. Q db \<Longrightarrow> unique_by ev_id (events db) \<Longrightarrow> e \<in> set (events db) \<Longrightarrow>
      ev_status e = OB_DISPATCHING \<Longrightarrow> finalize_event cfg (tx_now tx) rec err e db = Inr db' \<Longrightarrow> (c, err) \<in> set outcomes \<Longrightarrow> Q db'"
  shows "Q db'"
proof -
  let ?rows = "filter (\<lambda>e. ev_id e \<in> fst ` set (claims_by_id outcomes) \<and> ev_status e = OB_DISPATCHING) (events db)"
  have d: "distinct (map ev_id ?rows)" using inv by (simp add: outbox_inv_def unique_by_def distinct_map_filter)
  have u: "unique_by ev_id (events db)" using inv by (simp add: outbox_inv_def)
  consider "db' = db" | n' where
      "finalize_loop cfg (tx_now tx) rec (claims_by_id outcomes) ?rows (0, 0) db = Inr (n', db')"
    using assms(1) unfolding finalize_claims_def Let_def by (auto split: if_splits sum.splits)
  then show ?thesis
  proof cases
    case 2
    from 2 u d _ assms(3) show ?thesis by (rule finalize_loop_keeps) (auto intro: fin [OF _ _ _ _ _ claims_by_id_mem])
  qed (simp add: assms(3))
qed

lemma finalize_loop_none:
  "(\<And>e c err. e \<in> set es \<Longrightarrow> map_of by_id (ev_id e) = Some (c, err) \<Longrightarrow> \<not> claim_matches c e) \<Longrightarrow>
   finalize_loop cfg now rec by_id es n db = Inr (n, db)"
proof (induction es)
  case (Cons e es)
  obtain f d where "n = (f, d)" by (cases n)
  with Cons show ?case by (auto split: option.split)
qed simp

lemma claims_by_id_single: "claims_by_id [(c, err)] = [(oc_event_id c, (c, err))]"
  by (simp add: claims_by_id_def)

lemma finalize_stale:
  assumes "\<And>e. get_row ev_id (oc_event_id c) (events db) = Some e \<Longrightarrow> ev_status e = OB_DISPATCHING \<Longrightarrow> \<not> claim_matches c e"
    and "outbox_inv db"
  shows "finalize_claims cfg tx [(c, err)] rec db = Inr ((0, 0), db)"
proof -
  let ?rows = "filter (\<lambda>e. ev_id e \<in> fst ` set (claims_by_id [(c, err)]) \<and> ev_status e = OB_DISPATCHING) (events db)"
  have "finalize_loop cfg (tx_now tx) rec (claims_by_id [(c, err)]) ?rows (0, 0) db = Inr ((0, 0), db)"
  proof (rule finalize_loop_none)
    fix e c' err' assume e: "e \<in> set ?rows" "map_of (claims_by_id [(c, err)]) (ev_id e) = Some (c', err')"
    then have "c' = c" "ev_id e = oc_event_id c" "ev_status e = OB_DISPATCHING" "e \<in> set (events db)"
      by (auto simp: claims_by_id_single split: if_splits)
    then show "\<not> claim_matches c' e"
      using assms get_row_unique [of ev_id "events db" e] by (simp add: outbox_inv_def)
  qed
  then show ?thesis by (simp add: finalize_claims_def Let_def)
qed

lemma finalize_current:
  assumes inv: "outbox_inv db" and row: "get_row ev_id (oc_event_id c) (events db) = Some e"
    and st: "ev_status e = OB_DISPATCHING" "claim_matches c e"
  shows "finalize_claims cfg tx [(c, err)] rec db =
    (case finalize_event cfg (tx_now tx) rec err e db of Inl x \<Rightarrow> Inl x
     | Inr db' \<Rightarrow> Inr ((1, if err = None then 1 else 0), db'))"
proof -
  have id: "ev_id e = oc_event_id c" using get_row_SomeD [OF row] by simp
  have "filter (\<lambda>x. ev_id x \<in> fst ` set (claims_by_id [(c, err)]) \<and> ev_status x = OB_DISPATCHING) (events db) = [e]"
    by (rule unique_filter_key [where k = "oc_event_id c" and key = ev_id])
      (use inv row st id in \<open>auto simp: outbox_inv_def claims_by_id_single\<close>)
  then show ?thesis using st id
    by (simp add: finalize_claims_def Let_def claims_by_id_single split: sum.split)
qed

subsection \<open>Claims\<close>

lemma claimable_events_facts:
  assumes "outbox_inv db"
  shows "set (claimable_events now locked limit kinds db) \<subseteq>
           {e \<in> set (events db). event_claimable now kinds e \<and> \<not> locked (ev_id e)}"
    and "distinct (map ev_id (claimable_events now locked limit kinds db))"
    and "length (claimable_events now locked limit kinds db) \<le> nat limit"
proof -
  let ?P = "\<lambda>e. event_claimable now kinds e \<and> \<not> locked (ev_id e)"
  show "set (claimable_events now locked limit kinds db) \<subseteq> {e \<in> set (events db). ?P e}"
    unfolding claimable_events_def by (rule set_select_ordered)
  show "distinct (map ev_id (claimable_events now locked limit kinds db))"
    using assms unfolding claimable_events_def outbox_inv_def by (rule unique_select_ordered)
  show "length (claimable_events now locked limit kinds db) \<le> nat limit"
    unfolding claimable_events_def by (rule select_ordered_length)
qed

lemma enumerate_mem: "(j, e) \<in> set (enumerate n xs) \<Longrightarrow> e \<in> set xs"
  by (metis image_eqI list.set_map map_snd_enumerate snd_conv)

lemma get_row_claims_fold:
  "distinct (map (ev_id \<circ> snd) ps) \<Longrightarrow>
   get_row ev_id k (fold (\<lambda>(j, e) rs. update_where (\<lambda>r. ev_id r = ev_id e) (claim_event cfg now (toks j)) rs) ps evs) =
     (case find (\<lambda>p. ev_id (snd p) = k) ps of
        None \<Rightarrow> get_row ev_id k evs
      | Some p \<Rightarrow> map_option (claim_event cfg now (toks (fst p))) (get_row ev_id k evs))"
proof (induction ps arbitrary: evs)
  case (Cons p ps)
  obtain j e where p: "p = (j, e)" by (cases p)
  have upd: "get_row ev_id k (update_where (\<lambda>r. ev_id r = ev_id e) (claim_event cfg now (toks j)) evs) =
     map_option (\<lambda>r. if ev_id r = ev_id e then claim_event cfg now (toks j) r else r) (get_row ev_id k evs)"
    by (rule get_row_update) (simp add: claim_event_def)
  have key: "get_row ev_id k evs = Some r \<Longrightarrow> ev_id r = k" for r using get_row_SomeD by fastforce
  have none: "ev_id e = k \<Longrightarrow> find (\<lambda>p. ev_id (snd p) = k) ps = None"
    using Cons.prems p by (force simp: find_None_iff image_iff)
  show ?case
    using Cons.IH [of "update_where (\<lambda>r. ev_id r = ev_id e) (claim_event cfg now (toks j)) evs"] Cons.prems upd key none
    by (cases "get_row ev_id k evs") (auto simp: p split: option.split)
qed simp

lemma get_row_claim_events:
  assumes "distinct (map ev_id chosen)"
  shows "get_row ev_id k (claim_events cfg now toks chosen evs) =
     (case find (\<lambda>p. ev_id (snd p) = k) (enumerate 0 chosen) of
        None \<Rightarrow> get_row ev_id k evs
      | Some p \<Rightarrow> map_option (claim_event cfg now (toks (fst p))) (get_row ev_id k evs))"
  unfolding claim_events_def using assms
  by (intro get_row_claims_fold) (simp add: map_map [symmetric] del: map_map)

lemma find_enumerate:
  assumes "distinct (map ev_id chosen)" and "(j, e) \<in> set (enumerate n chosen)"
  shows "find (\<lambda>p. ev_id (snd p) = ev_id e) (enumerate n chosen) = Some (j, e)"
  using assms
proof (induction chosen arbitrary: n)
  case (Cons a chosen)
  show ?case
  proof (cases "(j, e) = (n, a)")
    case False
    then have "(j, e) \<in> set (enumerate (Suc n) chosen)" using Cons.prems(2) by auto
    moreover then have "ev_id a \<noteq> ev_id e" using enumerate_mem Cons.prems(1) by fastforce
    ultimately show ?thesis using Cons.IH Cons.prems(1) by simp
  qed simp
qed simp

lemma claim_next_events_rows:
  assumes inv: "outbox_inv db" and claim: "claim_next_events cfg tx locked limit kinds db = (cs, db')" and c: "c \<in> set cs"
  shows "\<exists>e. get_row ev_id (oc_event_id c) (events db) = Some e \<and>
     event_claimable (tx_now tx) kinds e \<and> \<not> locked (ev_id e) \<and>
     c = claim_of db (oc_claim_token c) e \<and>
     get_row ev_id (oc_event_id c) (events db') = Some (claim_event cfg (tx_now tx) (oc_claim_token c) e)"
proof -
  let ?ch = "claimable_events (tx_now tx) locked limit kinds db"
  from claim c have db': "db' = db\<lparr>events := claim_events cfg (tx_now tx) (tx_ids tx) ?ch (events db)\<rparr>"
    and cs: "cs = map (\<lambda>(j, e). claim_of db (tx_ids tx j) e) (enumerate 0 ?ch)"
    by (auto simp: claim_next_events_def Let_def split: if_splits)
  from c cs obtain j e where je: "(j, e) \<in> set (enumerate 0 ?ch)" "c = claim_of db (tx_ids tx j) e" by auto
  then have e: "e \<in> set ?ch" using enumerate_mem by metis
  then have m: "e \<in> set (events db)" "event_claimable (tx_now tx) kinds e" "\<not> locked (ev_id e)"
    using claimable_events_facts(1) [OF inv] by blast+
  have row: "get_row ev_id (ev_id e) (events db) = Some e"
    using get_row_unique inv m(1) by (auto simp: outbox_inv_def)
  have "get_row ev_id (ev_id e) (events db') = Some (claim_event cfg (tx_now tx) (tx_ids tx j) e)"
    using row find_enumerate [OF claimable_events_facts(2) [OF inv] je(1)]
    by (simp add: db' get_row_claim_events [OF claimable_events_facts(2) [OF inv]])
  then show ?thesis using row m je(2) by (auto simp: claim_of_def)
qed

lemma claim_next_events_frame:
  assumes inv: "outbox_inv db" and claim: "claim_next_events cfg tx locked limit kinds db = (cs, db')"
    and k: "k \<notin> oc_event_id ` set cs"
  shows "get_row ev_id k (events db') = get_row ev_id k (events db)"
proof -
  let ?ch = "claimable_events (tx_now tx) locked limit kinds db"
  have "find (\<lambda>p. ev_id (snd p) = k) (enumerate 0 ?ch) = None" if "cs \<noteq> []"
  proof -
    have "cs = map (\<lambda>(j, e). claim_of db (tx_ids tx j) e) (enumerate 0 ?ch)"
      using claim that by (auto simp: claim_next_events_def Let_def split: if_splits)
    then have "oc_event_id ` set cs = ev_id ` snd ` set (enumerate 0 ?ch)"
      by (force simp: claim_of_def image_iff)
    then show ?thesis using k by (force simp: find_None_iff image_iff)
  qed
  then show ?thesis
    using claim get_row_claim_events [OF claimable_events_facts(2) [OF inv]]
    by (auto simp: claim_next_events_def Let_def enumerate_eq_zip split: if_splits)
qed

subsection \<open>Terminal events and notifications\<close>

definition event_terminal :: "outbox_event \<Rightarrow> bool" where
  "event_terminal e \<longleftrightarrow> ev_status e = OB_DISPATCHED \<or> ev_status e = OB_POISONED"

text \<open>The NOTIFY messages that carry the ID of an event, and how many there ought to be.\<close>

definition notified :: "string \<Rightarrow> 'a work_db_scheme \<Rightarrow> nat" where
  "notified k db = length (filter (\<lambda>m. map_of m ''event_id'' = Some (JStr k)) (ipc_sent db))"

definition owed :: "string \<Rightarrow> 'a outbox_db_scheme \<Rightarrow> nat" where
  "owed k db = (case get_row ev_id k (events db) of
     None \<Rightarrow> 0
   | Some e \<Rightarrow> if ev_status e = OB_DISPATCHED \<and> ev_kind e \<notin> set ISOLATED_DELIVERY_KINDS then 1 else 0)"

lemma merge_event_id: "map_of (merge_obj p [(''event_id'', v)]) ''event_id'' = Some v"
  by (simp add: merge_obj_def update_conv')

lemma finalize_event_ipc:
  "finalize_event cfg now rec err e db = Inr db' \<Longrightarrow>
   ipc_sent db' = ipc_sent db @ (if err = None \<and> ev_kind e \<notin> set ISOLATED_DELIVERY_KINDS
     then [merge_obj (ev_payload_json e) [(''event_id'', JStr (ev_id e))]] else [])"
  by (auto simp: finalize_event_def notify_on_commit_def Let_def split: if_splits)

lemma get_row_finalized:
  assumes "finalize_event cfg now rec err e db = Inr db'" and "unique_by ev_id (events db)" and "e \<in> set (events db)"
  shows "get_row ev_id k (events db') =
    (if k = ev_id e then Some (finalize_values cfg now err e) else get_row ev_id k (events db))"
proof -
  have "get_row ev_id (ev_id e) (events db) = Some e" using assms(2,3) by (rule get_row_unique)
  then show ?thesis
    unfolding finalize_event_events [OF assms(1)]
    by (subst get_row_update)
      (auto simp: finalize_values_def Let_def dest: get_row_SomeD intro!: map_option_idI)
qed

lemma finalize_event_balance:
  assumes "finalize_event cfg now rec err e db = Inr db'" and "unique_by ev_id (events db)" and "e \<in> set (events db)"
    and "ev_status e = OB_DISPATCHING"
  shows "notified k db' + owed k db = notified k db + owed k db'"
proof -
  have e: "get_row ev_id (ev_id e) (events db) = Some e" using assms(2,3) by (rule get_row_unique)
  show ?thesis
    using assms(4) e get_row_finalized [OF assms(1-3), of k] finalize_event_ipc [OF assms(1)]
    by (cases "k = ev_id e") (auto simp: notified_def owed_def merge_event_id finalize_values_def Let_def)
qed

lemma claim_next_events_ipc: "claim_next_events cfg tx locked limit kinds db = (cs, db') \<Longrightarrow> ipc_sent db' = ipc_sent db"
  by (auto simp: claim_next_events_def Let_def split: if_splits)

lemma claim_next_events_owed:
  assumes inv: "outbox_inv db" and claim: "claim_next_events cfg tx locked limit kinds db = (cs, db')"
  shows "owed k db' = owed k db"
proof (cases "k \<in> oc_event_id ` set cs")
  case False
  then show ?thesis using claim_next_events_frame [OF inv claim] by (simp add: owed_def)
next
  case True
  then obtain c where c: "c \<in> set cs" "k = oc_event_id c" by blast
  from claim_next_events_rows [OF inv claim c(1)] c(2) obtain e where
    "get_row ev_id k (events db) = Some e" "event_claimable (tx_now tx) kinds e"
    "get_row ev_id k (events db') = Some (claim_event cfg (tx_now tx) (oc_claim_token c) e)" by blast
  then show ?thesis by (auto simp: owed_def event_claimable_def claim_event_def)
qed

lemma record_part_frame:
  assumes "record_external_delivery_part cfg tx claim part db = Inr (b, db')"
  shows "ipc_sent db' = ipc_sent db \<and>
   (\<exists>P f. events db' = update_where P f (events db) \<and> (\<forall>r. ev_id (f r) = ev_id r \<and> ev_status (f r) = ev_status r \<and> ev_kind (f r) = ev_kind r))"
proof (cases b)
  case True
  then obtain e where e: "get_row ev_id (oc_event_id claim) (events db) = Some e"
    using assms by (auto simp: record_external_delivery_part_def split: if_splits option.splits)
  with True have "ipc_sent db' = ipc_sent db" "events db' = update_where (\<lambda>r. ev_id r = ev_id e)
      (\<lambda>r. r\<lparr>ev_lease_expires_at := Some (tx_wall tx + seconds (runtime_outbox_claim_ttl_seconds cfg)),
             ev_updated_at := tx_wall tx\<rparr>) (events db)"
    using assms by (auto simp: record_external_delivery_part_def Let_def split: if_splits)
  then show ?thesis by (intro conjI exI) auto
next
  case False
  then have "db' = db" using assms by (auto simp: record_external_delivery_part_def Let_def split: if_splits option.splits)
  then show ?thesis by (auto simp: update_where_def intro!: exI [of _ "\<lambda>_. False"] exI [of _ "\<lambda>r. r"])
qed

lemma ipc_refresh_quiet [simp]: "ipc_sent (refresh_quiet cfg ns k pq dq now db) = ipc_sent db"
  using refresh_quiet_cases [of cfg ns k pq dq now db] by (auto simp: delete_wakes_def)

text \<open>Every transaction commits as many messages for an event as it makes owed; the direct dispatcher may commit more.\<close>

lemma outbox_step_balance:
  assumes "outbox_step cfg db db'" and "outbox_inv db"
  shows "notified k db + owed k db' \<le> notified k db' + owed k db \<and>
    (distributed_runtime_enabled cfg \<longrightarrow> notified k db' + owed k db = notified k db + owed k db')"
  using assms
proof (induction rule: outbox_step.induct)
  case (ob_enqueue tx i db kind p ns)
  have "ipc_sent (enqueue_event cfg tx i kind p ns db) =
      ipc_sent db @ [[(''kind'', JStr ''runtime_outbox_wakeup''), (''namespace'', JStr ns)]]"
    by (simp add: enqueue_event_def notify_dispatcher_def notify_on_commit_def Let_def append_wake_def)
  then show ?case using ob_enqueue
    by (auto simp: notified_def owed_def events_enqueue table_simps new_event_def split: option.splits)
next
  case (ob_claim tx locked limit kinds db cs db')
  have "owed k db' = owed k db" using ob_claim(2,1) by (rule claim_next_events_owed)
  then show ?case using claim_next_events_ipc [OF ob_claim(1)] by (simp add: notified_def)
next
  case (ob_finalize tx outcomes rec db n db')
  have "notified k db' + owed k db = notified k db + owed k db'"
    by (rule finalize_claims_keeps [OF ob_finalize(1,2), where Q = "\<lambda>d. notified k d + owed k db = notified k db + owed k d"])
      (use finalize_event_balance [of cfg _ rec _ _ _ _ k] in fastforce)+
  then show ?case by simp
next
  case (ob_part tx claim part db b db')
  then obtain P f where u: "ipc_sent db' = ipc_sent db" "events db' = update_where P f (events db)"
    "\<forall>r. ev_id (f r) = ev_id r \<and> ev_status (f r) = ev_status r \<and> ev_kind (f r) = ev_kind r"
    using record_part_frame by metis
  then have "get_row ev_id k (events db') = map_option (\<lambda>r. if P r then f r else r) (get_row ev_id k (events db))"
    by (simp add: get_row_update)
  then show ?case using u
    by (cases "get_row ev_id k (events db)") (auto simp: notified_def owed_def)
next
  case (ob_refresh db ns stmt_now)
  then show ?case by (simp add: notified_def owed_def clear_namespace_pending_if_idle_def)
next
  case (ob_send db p sent)
  then show ?case by (simp add: notified_def owed_def notify_runtime_payload_def)
qed

lemma outbox_step_terminal:
  assumes "outbox_step cfg db db'" and "outbox_inv db" and "get_row ev_id k (events db) = Some e" and "event_terminal e"
  shows "get_row ev_id k (events db') = Some e"
  using assms
proof (induction rule: outbox_step.induct)
  case (ob_enqueue tx i db kind p ns)
  then show ?case by (simp add: events_enqueue table_simps)
next
  case (ob_claim tx locked limit kinds db cs db')
  then show ?case using claim_next_events_rows claim_next_events_frame
    by (cases "k \<in> oc_event_id ` set cs") (fastforce simp: event_claimable_def event_terminal_def)+
next
  case (ob_finalize tx outcomes rec db n db')
  from ob_finalize(1-3) show ?case
    by (rule finalize_claims_keeps [where Q = "\<lambda>d. get_row ev_id k (events d) = Some e"])
      (use ob_finalize(4) in \<open>auto simp: get_row_finalized event_terminal_def dest: get_row_unique\<close>)
next
  case (ob_part tx claim part db b db')
  have "x = e" if "get_row ev_id (oc_event_id claim) (events db) = Some x" "ev_id x = ev_id e" for x
    using that ob_part.prems(2) get_row_SomeD by (metis option.inject)
  with ob_part show ?case
    by (fastforce simp: record_external_delivery_part_def Let_def get_row_update event_terminal_def
        split: if_splits option.splits)
qed simp_all

interpretation outbox_exact: preserved "outbox_step cfg"
  "\<lambda>db. outbox_inv db \<and> owed k db \<le> notified k db \<and> (distributed_runtime_enabled cfg \<longrightarrow> notified k db = owed k db)"
proof unfold_locales
  fix db db' :: "'a outbox_db_scheme"
  assume step: "outbox_step cfg db db'" and
    ok: "outbox_inv db \<and> owed k db \<le> notified k db \<and> (distributed_runtime_enabled cfg \<longrightarrow> notified k db = owed k db)"
  then show "outbox_inv db' \<and> owed k db' \<le> notified k db' \<and> (distributed_runtime_enabled cfg \<longrightarrow> notified k db' = owed k db')"
    using outbox_step_balance [OF step, of k] outbox_step_inv [OF step] by simp
qed

interpretation outbox_settled: preserved "outbox_step cfg" "\<lambda>db. outbox_inv db \<and> get_row ev_id k (events db) = Some e \<and> event_terminal e"
  by unfold_locales (auto intro: outbox_step_inv outbox_step_terminal)

subsection \<open>Properties\<close>

text \<open>An outbox with one runtime event, claimed or not.\<close>

definition example_txn :: "timestamp \<Rightarrow> string \<Rightarrow> txn" where
  "example_txn t i = \<lparr>tx_now = t, tx_stmt = t, tx_wall = t, tx_ids = (\<lambda>_. i), tx_wakes = (\<lambda>_. 1)\<rparr>"

definition example_payload :: payload where
  "example_payload = [(''kind'', JStr ''job''), (''namespace'', JStr ''n'')]"

definition example_outbox :: outbox_db where
  "example_outbox = enqueue_event example_settings (example_txn 5 ''e1'') 0 ''job'' example_payload ''n''
     \<lparr>ipc_sent = [], work_rows = [], wake_rows = [], events = [], receipts = [], part_receipts = []\<rparr>"

definition claimed_outbox :: outbox_db where
  "claimed_outbox = snd (claim_next_events example_settings (example_txn 6 ''t1'') (\<lambda>_. False) 8 None example_outbox)"

lemmas outbox_example_defs = example_outbox_def claimed_outbox_def example_txn_def example_settings_def example_payload_def
  enqueue_event_def append_wake_def notify_dispatcher_def notify_on_commit_def new_event_def claim_next_events_def
  claimable_events_def select_ordered_def event_claimable_def ISOLATED_DELIVERY_KINDS_def EXTERNAL_DELIVERY_KINDS_def
  EMAIL_DELIVERY_def TELEGRAM_DELIVERY_def STORAGE_CLEANUP_KIND_def claim_events_def claim_event_def update_where_def
  claim_of_def seconds_def

lemma example_outbox_inv: "outbox_inv example_outbox"
  by (simp add: outbox_inv_def unique_by_def outbox_example_defs)

lemma claimed_outbox_inv: "outbox_inv claimed_outbox"
  by (simp add: outbox_inv_def unique_by_def outbox_example_defs)

lemma claimed_outbox_claim: "fst (claim_next_events example_settings (example_txn 6 ''t1'') (\<lambda>_. False) 8 None example_outbox) =
   [\<lparr>oc_event_id = ''e1'', oc_claim_token = ''t1'', oc_lease_generation = 1, oc_event_kind = ''job'',
     oc_payload = example_payload, oc_already_delivered = False, oc_completed_parts = []\<rparr>]"
  by (simp add: outbox_example_defs)

text \<open>C6: fencing. Once a claim on an outbox event was lost (its lease ran out and the event was
  claimed again, or it was finalized), then after any further outbox transactions finalizing with it
  changes nothing and reports zero, and it cannot record a delivered part.\<close>

theorem lost_outbox_claim_is_inert:
  assumes inv: "outbox_inv s"
    and held: "row_current ev_id ev_lease_generation event_holder (events s) (oc_event_id c) (oc_claim_token c) (oc_lease_generation c)"
    and run1: "(outbox_step cfg)\<^sup>*\<^sup>* s t"
    and lost: "\<not> row_current ev_id ev_lease_generation event_holder (events t) (oc_event_id c) (oc_claim_token c) (oc_lease_generation c)"
    and run2: "(outbox_step cfg)\<^sup>*\<^sup>* t u"
  shows "finalize_claims cfg tx [(c, err)] rec u = Inr ((0, 0), u) \<and>
         record_external_delivery_part cfg tx c part u \<noteq> Inr (True, u')"
proof -
  have n: "\<not> row_current ev_id ev_lease_generation event_holder (events u) (oc_event_id c) (oc_claim_token c) (oc_lease_generation c)"
    by (rule outbox_lease.fencing [OF inv held run1 lost run2])
  have "outbox_inv u" using outbox_lease.run_inv run1 run2 inv by (meson rtranclp_trans)
  moreover have stale: "get_row ev_id (oc_event_id c) (events u) = Some e \<Longrightarrow> ev_status e = OB_DISPATCHING \<Longrightarrow> \<not> claim_matches c e" for e
    using n by (auto simp: row_current_def event_holder_def claim_matches_def)
  ultimately have "finalize_claims cfg tx [(c, err)] rec u = Inr ((0, 0), u)" by (intro finalize_stale)
  moreover have "record_external_delivery_part cfg tx c part u \<noteq> Inr (True, u')"
    using stale by (auto simp: record_external_delivery_part_def split: option.split)
  ultimately show ?thesis by blast
qed

theorem lost_outbox_claim_is_inert_witness:
  "finalize_claims example_settings (example_txn 100 ''x'')
     [(hd (fst (claim_next_events example_settings (example_txn 6 ''t1'') (\<lambda>_. False) 8 None example_outbox)), None)] False
     (snd (claim_next_events example_settings (example_txn 60000006 ''t2'') (\<lambda>_. False) 8 None claimed_outbox)) =
   Inr ((0, 0), snd (claim_next_events example_settings (example_txn 60000006 ''t2'') (\<lambda>_. False) 8 None claimed_outbox))"
proof -
  let ?u = "snd (claim_next_events example_settings (example_txn 60000006 ''t2'') (\<lambda>_. False) 8 None claimed_outbox)"
  have "outbox_step example_settings claimed_outbox ?u" by (rule ob_claim) (rule prod.collapse [symmetric])
  then show ?thesis unfolding claimed_outbox_claim list.sel
    by (intro conjunct1 [OF lost_outbox_claim_is_inert [OF claimed_outbox_inv _ r_into_rtranclp _ rtranclp.rtrancl_refl]])
      (simp_all add: outbox_example_defs row_current_def table_simps event_holder_def)
qed

text \<open>C23: exactly-once notification in the distributed runtime. Along every run of outbox transactions, the number of
  committed NOTIFY messages that carry an event's ID is one if the event is a dispatched runtime event and
  zero otherwise: crashes, retries and reclaims neither lose nor duplicate it. Without the distributed runtime the direct
  dispatcher sends on its own connection besides the finalizing commit, so there are at least as many.\<close>

theorem outbox_notifies_exactly_once:
  assumes "outbox_inv s" and "notified k s = owed k s" and "(outbox_step cfg)\<^sup>*\<^sup>* s t"
    and "n = (case get_row ev_id k (events t) of
      None \<Rightarrow> 0
    | Some e \<Rightarrow> if ev_status e = OB_DISPATCHED \<and> ev_kind e \<notin> set ISOLATED_DELIVERY_KINDS then 1 else 0)"
  shows "n \<le> notified k t \<and> (distributed_runtime_enabled cfg \<longrightarrow> notified k t = n)"
  using outbox_exact.run_inv [OF assms(3)] assms(1,2,4) by (simp add: owed_def)

definition example_claim :: outbox_claim where
  "example_claim = \<lparr>oc_event_id = ''e1'', oc_claim_token = ''t1'', oc_lease_generation = 1, oc_event_kind = ''job'',
     oc_payload = example_payload, oc_already_delivered = False, oc_completed_parts = []\<rparr>"

definition dispatched_outbox :: outbox_db where
  "dispatched_outbox = snd (projr (finalize_claims example_settings (example_txn 7 ''x'') [(example_claim, None)] False claimed_outbox))"

lemmas finalize_example_defs = finalize_claims_def claims_by_id_def claim_matches_def finalize_event_def
  finalize_values_def merge_obj_def payload_kind_def RUNTIME_PAYLOAD_KINDS_def example_claim_def

lemma dispatched_outbox_step: "outbox_step example_settings claimed_outbox dispatched_outbox"
proof (rule ob_finalize)
  show "finalize_claims example_settings (example_txn 7 ''x'') [(example_claim, None)] False claimed_outbox =
      Inr ((1, 1), dispatched_outbox)"
    unfolding dispatched_outbox_def by (simp add: outbox_example_defs finalize_example_defs)
qed

lemma dispatched_outbox_run: "(outbox_step example_settings)\<^sup>*\<^sup>* claimed_outbox dispatched_outbox"
  using dispatched_outbox_step by (rule r_into_rtranclp)

definition direct_settings :: settings where
  "direct_settings = example_settings\<lparr>distributed_runtime_enabled := False\<rparr>"

definition direct_outbox :: outbox_db where
  "direct_outbox = snd (projr (dispatch_pending_events direct_settings ''n'' (\<lambda>_. (example_txn 6 ''t1'', example_txn 7 ''x'', example_txn 7 ''x''))
     (\<lambda>_ _. (1, None)) (\<lambda>_. False) 8 1 example_outbox))"

text \<open>The batch dispatcher sends the event once, the direct one twice.\<close>

theorem outbox_notifies_exactly_once_witness:
  "notified ''e1'' dispatched_outbox = 1 \<and> 1 \<le> notified ''e1'' direct_outbox \<and> notified ''e1'' direct_outbox = 2"
proof -
  let ?owed = "\<lambda>db :: outbox_db. case get_row ev_id ''e1'' (events db) of
      None \<Rightarrow> 0
    | Some e \<Rightarrow> if ev_status e = OB_DISPATCHED \<and> ev_kind e \<notin> set ISOLATED_DELIVERY_KINDS then 1 else (0 :: nat)"
  have "notified ''e1'' claimed_outbox = owed ''e1'' claimed_outbox"
    by (simp add: notified_def owed_def outbox_example_defs table_simps)
  then have "?owed dispatched_outbox \<le> notified ''e1'' dispatched_outbox \<and>
      (distributed_runtime_enabled example_settings \<longrightarrow> notified ''e1'' dispatched_outbox = ?owed dispatched_outbox)"
    by (rule outbox_notifies_exactly_once [OF claimed_outbox_inv _ dispatched_outbox_run refl])
  moreover have "distributed_runtime_enabled example_settings" by (simp add: example_settings_def)
  moreover have "?owed dispatched_outbox = 1" by (simp add: dispatched_outbox_def outbox_example_defs finalize_example_defs table_simps)
  ultimately have "notified ''e1'' dispatched_outbox = 1" by simp
  moreover have "1 \<le> notified ''e1'' direct_outbox"
  proof -
    have "notified ''e1'' example_outbox = owed ''e1'' example_outbox"
      by (simp add: notified_def owed_def outbox_example_defs table_simps)
    moreover have "dispatch_pending_events direct_settings ''n'' (\<lambda>_. (example_txn 6 ''t1'', example_txn 7 ''x'', example_txn 7 ''x''))
       (\<lambda>_ _. (1, None)) (\<lambda>_. False) 8 1 example_outbox = Inr (1, direct_outbox)" unfolding direct_outbox_def by code_simp
    ultimately have "?owed direct_outbox \<le> notified ''e1'' direct_outbox \<and>
      (distributed_runtime_enabled direct_settings \<longrightarrow> notified ''e1'' direct_outbox = ?owed direct_outbox)"
      by (intro outbox_notifies_exactly_once [OF example_outbox_inv _ dispatch_pending_events_run refl])
    moreover have "?owed direct_outbox = 1" by code_simp
    ultimately show ?thesis by simp
  qed
  moreover have "notified ''e1'' direct_outbox = 2" by code_simp
  ultimately show ?thesis by simp
qed

text \<open>A dispatched or poisoned event is final: no outbox transaction, whatever its inputs,
  changes its row again.\<close>

theorem outbox_terminal_final:
  assumes "outbox_inv s" and "get_row ev_id k (events s) = Some e"
    and "ev_status e = OB_DISPATCHED \<or> ev_status e = OB_POISONED" and "(outbox_step cfg)\<^sup>*\<^sup>* s t"
  shows "get_row ev_id k (events t) = Some e"
  using outbox_settled.run_inv [OF assms(4)] assms(1-3) unfolding event_terminal_def by blast

theorem outbox_terminal_final_witness:
  "get_row ev_id ''e1'' (events (snd (claim_next_events example_settings (example_txn 900000000 ''z'') (\<lambda>_. False) 8 None dispatched_outbox))) =
   get_row ev_id ''e1'' (events dispatched_outbox)"
proof -
  obtain e where e: "get_row ev_id ''e1'' (events dispatched_outbox) = Some e" "ev_status e = OB_DISPATCHED \<or> ev_status e = OB_POISONED"
    by (simp add: dispatched_outbox_def outbox_example_defs finalize_example_defs table_simps)
  have "outbox_inv dispatched_outbox" using outbox_step_inv dispatched_outbox_step claimed_outbox_inv by blast
  moreover have "outbox_step example_settings dispatched_outbox
     (snd (claim_next_events example_settings (example_txn 900000000 ''z'') (\<lambda>_. False) 8 None dispatched_outbox))"
    by (rule ob_claim) (rule prod.collapse [symmetric])
  ultimately show ?thesis using outbox_terminal_final e r_into_rtranclp by metis
qed

text \<open>The outcome of finalizing a current claim, on every branch. Success marks the event
  dispatched and sends its payload with the commit when it is a runtime event; a failure keeps the
  first 1000 characters of the error and either backs off for the retry interval or, at the attempt
  limit, poisons the event; a storage clean-up is retried for ever. Other events are untouched.\<close>

theorem finalize_current_outcome:
  assumes inv: "outbox_inv db" and row: "get_row ev_id (oc_event_id c) (events db) = Some e"
    and st: "ev_status e = OB_DISPATCHING" "claim_matches c e"
    and kind: "payload_kind (merge_obj (ev_payload_json e) [(''event_id'', JStr (ev_id e))]) \<noteq> None"
  shows "\<exists>db' e'. finalize_claims cfg tx [(c, err)] rec db = Inr ((1, if err = None then 1 else 0), db') \<and>
    get_row ev_id (oc_event_id c) (events db') = Some e' \<and> ev_claim_token e' = None \<and>
    ev_lease_generation e' = ev_lease_generation e \<and> ev_attempts e' = ev_attempts e \<and>
    (\<forall>k. k = oc_event_id c \<or> get_row ev_id k (events db') = get_row ev_id k (events db)) \<and>
    (case err of
       None \<Rightarrow> ev_status e' = OB_DISPATCHED \<and> ev_dispatched_at e' = Some (tx_now tx) \<and>
         ipc_sent db' = ipc_sent db @ (if ev_kind e \<in> set ISOLATED_DELIVERY_KINDS then []
            else [merge_obj (ev_payload_json e) [(''event_id'', JStr (ev_id e))]])
     | Some m \<Rightarrow> ipc_sent db' = ipc_sent db \<and> ev_last_error e' = Some (take 1000 m) \<and>
         (if ev_kind e \<noteq> STORAGE_CLEANUP_KIND \<and> runtime_outbox_max_attempts cfg \<le> ev_attempts e
          then ev_status e' = OB_POISONED
          else ev_status e' = OB_FAILED \<and>
               ev_available_at e' = tx_now tx + seconds (runtime_outbox_retry_seconds cfg)))"
proof -
  have e: "e \<in> set (events db)" "ev_id e = oc_event_id c" using get_row_SomeD [OF row] by auto
  obtain db' where f: "finalize_event cfg (tx_now tx) rec err e db = Inr db'"
    using kind by (auto simp: finalize_event_def Let_def)
  have u: "unique_by ev_id (events db)" using inv by (simp add: outbox_inv_def)
  note g = get_row_finalized [OF f u e(1)]
  show ?thesis
    using finalize_current [OF inv row st, of cfg tx err rec] f g e(2) finalize_event_ipc [OF f]
    by (intro exI [of _ db'] exI [of _ "finalize_values cfg (tx_now tx) err e"])
      (auto simp: finalize_values_def Let_def split: option.split)
qed

theorem finalize_current_outcome_witness:
  "\<exists>db' e'. finalize_claims example_settings (example_txn 7 ''x'') [(example_claim, Some ''boom'')] False claimed_outbox =
     Inr ((1, 0), db') \<and> get_row ev_id ''e1'' (events db') = Some e' \<and> ev_status e' = OB_FAILED \<and> ev_available_at e' = 5000007"
proof -
  obtain e where e: "get_row ev_id ''e1'' (events claimed_outbox) = Some e" "ev_status e = OB_DISPATCHING"
      "claim_matches example_claim e" "ev_attempts e = 1" "ev_kind e = ''job''"
      "payload_kind (merge_obj (ev_payload_json e) [(''event_id'', JStr (ev_id e))]) \<noteq> None"
    by (simp add: outbox_example_defs table_simps finalize_example_defs)
  show ?thesis
    using finalize_current_outcome [OF claimed_outbox_inv _ e(2,3,6), of example_settings "example_txn 7 ''x''" "Some ''boom''" False] e
    by (auto simp: example_claim_def example_settings_def example_txn_def seconds_def)
qed

text \<open>A claim takes the earliest claimable events that are not locked, at most as many as asked
  for, each once, never one whose lease still runs or whose kind has another consumer, and gives each
  a claim that is current afterwards with the next lease generation; every other event is untouched.\<close>

theorem claim_next_events_correct:
  assumes inv: "outbox_inv db" and claim: "claim_next_events cfg tx locked limit kinds db = (cs, db')"
    and c: "c \<in> set cs"
  shows "length cs \<le> nat limit \<and>
    (\<exists>e. get_row ev_id (oc_event_id c) (events db) = Some e \<and> event_claimable (tx_now tx) kinds e \<and> \<not> locked (ev_id e) \<and>
       oc_payload c = ev_payload_json e \<and> oc_lease_generation c = ev_lease_generation e + 1 \<and>
       row_current ev_id ev_lease_generation event_holder (events db') (oc_event_id c) (oc_claim_token c) (oc_lease_generation c) \<and>
       (\<forall>f \<in> set (events db). event_claimable (tx_now tx) kinds f \<and> \<not> locked (ev_id f) \<longrightarrow>
          ev_id f \<in> oc_event_id ` set cs \<or>
          (ev_available_at e, ev_created_at e, ev_id e) \<le> (ev_available_at f, ev_created_at f, ev_id f))) \<and>
    (\<forall>k. k \<in> oc_event_id ` set cs \<or> get_row ev_id k (events db') = get_row ev_id k (events db))"
proof -
  let ?ch = "claimable_events (tx_now tx) locked limit kinds db"
  have cs: "cs = map (\<lambda>(j, e). claim_of db (tx_ids tx j) e) (enumerate 0 ?ch)"
    using claim c by (auto simp: claim_next_events_def Let_def split: if_splits)
  then have len: "length cs \<le> nat limit" using claimable_events_facts(3) [OF inv] by simp
  have "map oc_event_id cs = map (\<lambda>p. ev_id (snd p)) (enumerate 0 ?ch)"
    unfolding cs map_map by (rule map_cong) (auto simp: claim_of_def)
  then have "map oc_event_id cs = map ev_id (map snd (enumerate 0 ?ch))" by (simp only: map_map o_def)
  then have ids: "oc_event_id ` set cs = ev_id ` set ?ch" by (metis list.set_map map_snd_enumerate)
  obtain e where e: "get_row ev_id (oc_event_id c) (events db) = Some e" "event_claimable (tx_now tx) kinds e"
      "\<not> locked (ev_id e)" "c = claim_of db (oc_claim_token c) e"
      "get_row ev_id (oc_event_id c) (events db') = Some (claim_event cfg (tx_now tx) (oc_claim_token c) e)"
    using claim_next_events_rows [OF inv claim c] by blast
  have gen: "oc_lease_generation c = ev_lease_generation e + 1" "oc_payload c = ev_payload_json e" "oc_event_id c = ev_id e"
    by (subst e(4), simp add: claim_of_def)+
  have ech: "e \<in> set ?ch"
  proof -
    have "oc_event_id c \<in> ev_id ` set ?ch" using ids c by blast
    then obtain x where x: "x \<in> set ?ch" "ev_id x = ev_id e" using gen(3) by auto
    then have "x \<in> set (events db)" using claimable_events_facts(1) [OF inv] by blast
    then have "get_row ev_id (ev_id x) (events db) = Some x" using inv by (simp add: outbox_inv_def get_row_unique)
    then show ?thesis using x e(1) gen(3) by simp
  qed
  have "(ev_available_at e, ev_created_at e, ev_id e) \<le> (ev_available_at f, ev_created_at f, ev_id f)"
    if "f \<in> set (events db)" "event_claimable (tx_now tx) kinds f \<and> \<not> locked (ev_id f)" "ev_id f \<notin> oc_event_id ` set cs" for f
  proof -
    have n: "f \<notin> set ?ch" using that(3) ids by blast
    show ?thesis
      by (rule select_ordered_rest [OF that(1,2) n [unfolded claimable_events_def] ech [unfolded claimable_events_def]])
  qed
  moreover have "row_current ev_id ev_lease_generation event_holder (events db') (oc_event_id c) (oc_claim_token c) (oc_lease_generation c)"
    using e(5) gen by (simp add: row_current_def event_holder_def claim_event_def)
  ultimately show ?thesis using len e(1-3) gen claim_next_events_frame [OF inv claim]
    by (intro conjI exI [of _ e] allI ballI impI) blast+
qed

theorem claim_next_events_correct_witness:
  "row_current ev_id ev_lease_generation event_holder (events claimed_outbox) ''e1'' ''t1'' 1"
proof -
  have c: "example_claim \<in> set (fst (claim_next_events example_settings (example_txn 6 ''t1'') (\<lambda>_. False) 8 None example_outbox))"
    unfolding claimed_outbox_claim by (simp add: example_claim_def)
  have p: "claim_next_events example_settings (example_txn 6 ''t1'') (\<lambda>_. False) 8 None example_outbox =
     (fst (claim_next_events example_settings (example_txn 6 ''t1'') (\<lambda>_. False) 8 None example_outbox), claimed_outbox)"
    by (simp add: claimed_outbox_def)
  have "row_current ev_id ev_lease_generation event_holder (events claimed_outbox)
     (oc_event_id example_claim) (oc_claim_token example_claim) (oc_lease_generation example_claim)"
    using claim_next_events_correct [OF example_outbox_inv p c] by blast
  then show ?thesis by (simp add: example_claim_def)
qed

subsection \<open>Refreshing the wake index while others commit\<close>

text \<open>What other sessions may commit between the statements of a refresh of the outbox marker of \<open>ns\<close>, whose captured
  wakes are \<open>ids\<close>: an enqueue, whose wake has a new ID; a claim; a successful delivery; a delivered part whose lease is not
  shortened; and anything that changes neither the events nor the marker and removes no wake of this queue. A failed
  delivery is not among them (it is announced by the refresh that follows it), and neither is another refresh of the marker.\<close>

inductive announced_step :: "settings \<Rightarrow> string \<Rightarrow> int list \<Rightarrow> 'a outbox_db_scheme \<Rightarrow> 'a outbox_db_scheme \<Rightarrow> bool" for cfg ns ids where
  an_enqueue: "get_row ev_id (tx_ids tx i) (events db) = None \<Longrightarrow> tx_wakes tx i \<notin> set ids \<Longrightarrow>
     announced_step cfg ns ids db (enqueue_event cfg tx i kind p ns db)"
| an_claim: "claim_next_events cfg tx locked limit kinds db = (cs, db') \<Longrightarrow> announced_step cfg ns ids db db'"
| an_delivered: "finalize_claims cfg tx (map (\<lambda>c. (c, None)) cs) rec db = Inr (n, db') \<Longrightarrow> announced_step cfg ns ids db db'"
| an_part: "record_external_delivery_part cfg tx claim part db = Inr (b, db') \<Longrightarrow>
     (\<And>e. get_row ev_id (oc_event_id claim) (events db) = Some e \<Longrightarrow>
        sql_le (ev_lease_expires_at e) (tx_wall tx + seconds (runtime_outbox_claim_ttl_seconds cfg))) \<Longrightarrow>
     announced_step cfg ns ids db db'"
| an_other: "events db' = events db \<Longrightarrow> get_row work_key (ns, K_OUTBOX) (work_rows db') = get_row work_key (ns, K_OUTBOX) (work_rows db) \<Longrightarrow>
     set (wakes_of ns K_OUTBOX db) \<subseteq> set (wakes_of ns K_OUTBOX db') \<Longrightarrow> announced_step cfg ns ids db db'"

definition keeps_index :: "'a work_db_scheme \<Rightarrow> 'a work_db_scheme \<Rightarrow> bool" where
  "keeps_index db db' \<longleftrightarrow> work_rows db' = work_rows db \<and> wake_rows db' = wake_rows db"

lemma announces_if_ready_before:
  assumes "keeps_index db db'" and "\<And>t. outbox_pending t db' \<Longrightarrow> outbox_pending t db"
  shows "outbox_queue.announces ns K_OUTBOX ids db db'"
  using assms by (auto simp: outbox_queue.announces_def keeps_index_def wakes_of_def)

lemma claimed_ready_before:
  assumes "event_claimable now kinds e" and "event_ready t (claim_event cfg now tok e)" and "0 \<le> runtime_outbox_claim_ttl_seconds cfg"
  shows "event_ready t e"
proof -
  have "now \<le> t" using assms(2,3) by (auto simp: event_ready_def claim_event_def seconds_def)
  then show ?thesis using assms(1,2)
    by (cases "ev_lease_expires_at e") (auto simp: event_ready_def event_claimable_def claim_event_def)
qed

lemma claim_pending_before:
  assumes inv: "outbox_inv db" and claim: "claim_next_events cfg tx locked limit kinds db = (cs, db')"
    and ttl: "0 \<le> runtime_outbox_claim_ttl_seconds cfg" and p: "outbox_pending t db'"
  shows "outbox_pending t db"
proof -
  obtain e where e: "e \<in> set (events db')" "event_ready t e" using p by (auto simp: outbox_pending_iff)
  have "outbox_inv db'" using outbox_step_inv [OF ob_claim [OF claim] inv] .
  then have row: "get_row ev_id (ev_id e) (events db') = Some e" using e(1) by (simp add: outbox_inv_def get_row_unique)
  show ?thesis
  proof (cases "ev_id e \<in> oc_event_id ` set cs")
    case True
    then obtain c where c: "c \<in> set cs" "ev_id e = oc_event_id c" by auto
    obtain x where x: "get_row ev_id (oc_event_id c) (events db) = Some x" "event_claimable (tx_now tx) kinds x"
        "get_row ev_id (oc_event_id c) (events db') = Some (claim_event cfg (tx_now tx) (oc_claim_token c) x)"
      using claim_next_events_rows [OF inv claim c(1)] by blast
    have "e = claim_event cfg (tx_now tx) (oc_claim_token c) x" using row x(3) unfolding c(2) by simp
    then have "event_ready t x" using claimed_ready_before [OF x(2) _ ttl] e(2) by simp
    then show ?thesis using get_row_SomeD [OF x(1)] by (auto simp: outbox_pending_iff)
  next
    case False
    then have "get_row ev_id (ev_id e) (events db) = Some e" using claim_next_events_frame [OF inv claim] row by simp
    then show ?thesis using e(2) by (auto simp: outbox_pending_iff dest: get_row_SomeD)
  qed
qed

lemma claim_keeps_index: "claim_next_events cfg tx locked limit kinds db = (cs, db') \<Longrightarrow> keeps_index db db'"
  by (auto simp: claim_next_events_def keeps_index_def Let_def split: if_splits)

lemma part_keeps_index: "record_external_delivery_part cfg tx claim part db = Inr (b, db') \<Longrightarrow> keeps_index db db'"
  by (auto simp: record_external_delivery_part_def keeps_index_def Let_def split: if_splits option.splits)

lemma finalize_event_keeps_index: "finalize_event cfg now rec err e db = Inr db' \<Longrightarrow> keeps_index db db'"
  by (auto simp: finalize_event_def keeps_index_def notify_on_commit_def Let_def split: if_splits)

lemma delivered_keeps:
  assumes "finalize_claims cfg tx (map (\<lambda>c. (c, None)) cs) rec db = Inr (n, db')" and "outbox_inv db"
  shows "keeps_index db db' \<and> (\<forall>t. outbox_pending t db' \<longrightarrow> outbox_pending t db)"
proof (rule finalize_claims_keeps [OF assms])
  show "keeps_index db db \<and> (\<forall>t. outbox_pending t db \<longrightarrow> outbox_pending t db)" by (simp add: keeps_index_def)
next
  fix c err e and d d' :: "'a outbox_db_scheme"
  assume q: "keeps_index db d \<and> (\<forall>t. outbox_pending t d \<longrightarrow> outbox_pending t db)"
    and f: "finalize_event cfg (tx_now tx) rec err e d = Inr d'" and c: "(c, err) \<in> set (map (\<lambda>c. (c, None)) cs)"
  have "err = None" using c by auto
  then have "outbox_pending t d" if "outbox_pending t d'" for t
    using that unfolding outbox_pending_iff finalize_event_events [OF f] set_update_where
    by (auto simp: finalize_values_def event_ready_def Let_def split: if_splits)
  then show "keeps_index db d' \<and> (\<forall>t. outbox_pending t d' \<longrightarrow> outbox_pending t db)"
    using q finalize_event_keeps_index [OF f] by (auto simp: keeps_index_def)
qed

lemma part_pending_before:
  assumes inv: "outbox_inv db" and part: "record_external_delivery_part cfg tx claim part db = Inr (b, db')"
    and lease: "\<And>e. get_row ev_id (oc_event_id claim) (events db) = Some e \<Longrightarrow>
      sql_le (ev_lease_expires_at e) (tx_wall tx + seconds (runtime_outbox_claim_ttl_seconds cfg))"
    and p: "outbox_pending t db'"
  shows "outbox_pending t db"
proof (cases "events db' = events db")
  case True
  then show ?thesis using p by (simp add: outbox_pending_iff)
next
  case False
  then obtain e where e: "get_row ev_id (oc_event_id claim) (events db) = Some e" "ev_status e = OB_DISPATCHING"
      "events db' = update_where (\<lambda>r. ev_id r = ev_id e) (\<lambda>r. r\<lparr>ev_lease_expires_at :=
         Some (tx_wall tx + seconds (runtime_outbox_claim_ttl_seconds cfg)), ev_updated_at := tx_wall tx\<rparr>) (events db)"
    using part by (auto simp: record_external_delivery_part_def Let_def split: if_splits option.splits)
  obtain r where r: "r \<in> set (events db)" "event_ready t (if ev_id r = ev_id e then r\<lparr>ev_lease_expires_at :=
         Some (tx_wall tx + seconds (runtime_outbox_claim_ttl_seconds cfg)), ev_updated_at := tx_wall tx\<rparr> else r)"
    using p unfolding outbox_pending_iff e(3) set_update_where by auto
  have "r = e" if "ev_id r = ev_id e"
    using unique_by_eq [OF inv [unfolded outbox_inv_def] r(1), of e] get_row_SomeD [OF e(1)] that by simp
  then have "event_ready t r" using r(2) lease [OF e(1)] e(2)
    by (cases "ev_lease_expires_at e") (auto simp: event_ready_def split: if_splits)
  then show ?thesis using r(1) by (auto simp: outbox_pending_iff)
qed

lemma announced_step_inv:
  assumes "announced_step cfg ns ids db db'" and "outbox_inv db"
  shows "outbox_inv db'"
  using assms
proof (induction rule: announced_step.induct)
  case (an_enqueue tx i db kind p)
  then show ?case using outbox_step_inv ob_enqueue by blast
next
  case (an_claim tx locked limit kinds db cs db')
  then show ?case using outbox_step_inv ob_claim by blast
next
  case (an_delivered tx cs rec db n db')
  then show ?case using outbox_step_inv ob_finalize by blast
next
  case (an_part tx claim part db b db')
  then show ?case using outbox_step_inv ob_part by blast
qed (simp add: outbox_inv_def)

lemma announced_step_index:
  assumes "announced_step cfg ns ids db db'" and "outbox_inv db"
  shows "get_row work_key (ns, K_OUTBOX) (work_rows db') = get_row work_key (ns, K_OUTBOX) (work_rows db)"
  using assms
proof (induction rule: announced_step.induct)
  case (an_enqueue tx i db kind p)
  then show ?case by (simp add: enqueue_event_def notify_dispatcher_def notify_on_commit_def append_wake_def Let_def)
next
  case (an_claim tx locked limit kinds db cs db')
  then show ?case using claim_keeps_index by (metis keeps_index_def)
next
  case (an_delivered tx cs rec db n db')
  then show ?case using delivered_keeps by (metis keeps_index_def)
next
  case (an_part tx claim part db b db')
  then show ?case using part_keeps_index by (metis keeps_index_def)
qed simp

lemma announced_step_announces:
  assumes dist: "distributed_runtime_enabled cfg" "0 \<le> runtime_outbox_claim_ttl_seconds cfg"
    and "announced_step cfg ns ids db db'" and "outbox_inv db"
  shows "outbox_queue.announces ns K_OUTBOX ids db db'"
  using assms(3,4)
proof (induction rule: announced_step.induct)
  case (an_enqueue tx i db kind p)
  have "wake_rows (enqueue_event cfg tx i kind p ns db) =
      wake_rows db @ [\<lparr>wk_id = tx_wakes tx i, wk_namespace = ns, wk_kind = K_OUTBOX, wk_created_at = tx_stmt tx\<rparr>]"
    using dist(1) by (simp add: enqueue_event_def notify_dispatcher_def notify_on_commit_def append_wake_def Let_def)
  then show ?case using an_enqueue(2) by (simp add: outbox_queue.announces_def wakes_of_def)
next
  case (an_claim tx locked limit kinds db cs db')
  show ?case by (rule announces_if_ready_before [OF claim_keeps_index [OF an_claim(1)] claim_pending_before [OF an_claim(2,1) dist(2)]])
next
  case (an_delivered tx cs rec db n db')
  then show ?case using announces_if_ready_before delivered_keeps by blast
next
  case (an_part tx claim part db b db')
  show ?case by (rule announces_if_ready_before [OF part_keeps_index [OF an_part(1)] part_pending_before [OF an_part(3,1,2)]])
next
  case (an_other db' db)
  have "outbox_pending t db' = outbox_pending t db" for t using an_other(1) by (simp add: outbox_pending_iff)
  then show ?case using an_other(3) unfolding outbox_queue.announces_def by auto
qed

lemma announced_run:
  assumes "(announced_step cfg ns ids)\<^sup>*\<^sup>* db db'" and dist: "distributed_runtime_enabled cfg" "0 \<le> runtime_outbox_claim_ttl_seconds cfg"
    and inv: "outbox_inv db"
  shows "outbox_inv db' \<and> get_row work_key (ns, K_OUTBOX) (work_rows db') = get_row work_key (ns, K_OUTBOX) (work_rows db) \<and>
    outbox_queue.announces ns K_OUTBOX ids db db'"
  using assms(1)
proof (induction rule: rtranclp_induct)
  case base
  then show ?case using inv by (simp add: outbox_queue.announces_refl)
next
  case (step d d')
  then show ?case
    using announced_step_inv [OF step(2)] announced_step_index [OF step(2)] announced_step_announces [OF dist step(2)]
      outbox_queue.announces_trans [of ns K_OUTBOX ids db d d'] by auto
qed

text \<open>C24: a refresh of the wake index loses no outbox work. Let other sessions commit enqueues, claims, successful
  deliveries, delivered parts and changes of other queues between the statements of a refresh of a namespace's outbox
  marker (the environments \<open>e2\<close> and \<open>e3\<close>; before the snapshot anything may happen). Then the namespace is
  listed at every later instant at which one of its events is ready. When the marker's generation did move under the
  refresh, as it does when another refresh commits, the refresh changes nothing: no marker, and no wake is deleted.
  Failed deliveries are not covered: their own refresh announces the retry.\<close>

theorem outbox_refresh_loses_nothing:
  assumes dist: "distributed_runtime_enabled cfg" and ttl: "0 \<le> runtime_outbox_claim_ttl_seconds cfg"
    and inv: "outbox_inv (e1 db)" and ids: "ids = captured_wakes ns K_OUTBOX db"
    and e2: "(announced_step cfg ns ids)\<^sup>*\<^sup>* (e1 db) (e2 (e1 db))" and e3: "\<And>d. (announced_step cfg ns ids)\<^sup>*\<^sup>* d (e3 d)"
    and r: "r = refresh_pending_work cfg ns K_OUTBOX outbox_pending outbox_due now upd e1 e2 e3 db"
  shows "(\<forall>t. outbox_pending t r \<and> now \<le> t \<longrightarrow> ns \<in> set (list_pending_outbox_namespaces cfg t r)) \<and>
    (\<forall>e2'. \<not> wins_marker ns K_OUTBOX (e1 db) (e2' (e1 db)) \<longrightarrow>
       refresh_pending_work cfg ns K_OUTBOX outbox_pending outbox_due now upd e1 e2' e3 db = e3 (e2' (e1 db)))"
proof -
  note run2 = announced_run [OF e2 dist ttl inv] and run3 = announced_run [OF e3 dist ttl]
  have "outbox_queue.covered ns K_OUTBOX now r"
    unfolding r
  proof (rule outbox_queue.refresh_covers [OF dist, where P = outbox_inv])
    show "outbox_queue.announces ns K_OUTBOX (captured_wakes ns K_OUTBOX db) (e1 db) (e2 (e1 db))" using run2 ids by simp
    show "outbox_inv (e2 (e1 db))" using run2 by simp
    show "outbox_inv (snd (publish_marker upd ns K_OUTBOX g p d x))" if "outbox_inv x" for g p d x using that by (simp add: outbox_inv_def)
    show "outbox_queue.announces ns K_OUTBOX (captured_wakes ns K_OUTBOX db) d (e3 d)" if "outbox_inv d" for d using run3 [OF that] ids by simp
    show "get_row work_key (ns, K_OUTBOX) (work_rows (e3 d)) = get_row work_key (ns, K_OUTBOX) (work_rows d)" if "outbox_inv d" for d
      using run3 [OF that] by simp
    show "nw_generation row = (case get_row work_key (ns, K_OUTBOX) (work_rows (e1 db)) of None \<Rightarrow> 0 | Some r \<Rightarrow> nw_generation r)"
      if "get_row work_key (ns, K_OUTBOX) (work_rows (e2 (e1 db))) = Some row" for row
    proof -
      have "get_row work_key (ns, K_OUTBOX) (work_rows (e1 db)) = Some row" using run2 that by metis
      then show ?thesis by simp
    qed
  qed
  then have "\<forall>t. outbox_pending t r \<and> now \<le> t \<longrightarrow> ns \<in> set (list_pending_outbox_namespaces cfg t r)"
    using dist unfolding outbox_queue.covered_def list_pending_outbox_namespaces_def by (simp add: set_list_pending_namespaces)
  then show ?thesis using refresh_lost [OF dist] by blast
qed

text \<open>Between the statements of the refresh the event is claimed, and another one is enqueued.\<close>

definition claiming :: "outbox_db \<Rightarrow> outbox_db" where
  "claiming db = snd (claim_next_events example_settings (example_txn 6 ''t1'') (\<lambda>_. False) 8 None db)"

definition enqueueing :: "outbox_db \<Rightarrow> outbox_db" where
  "enqueueing db = (if get_row ev_id ''e2'' (events db) = None
     then enqueue_event example_settings ((example_txn 7 ''e2'')\<lparr>tx_wakes := \<lambda>_. 2\<rparr>) 0 ''job'' example_payload ''n'' db else db)"

theorem outbox_refresh_loses_nothing_witness:
  "''n'' \<in> set (list_pending_outbox_namespaces example_settings 8
     (refresh_pending_work example_settings ''n'' K_OUTBOX outbox_pending outbox_due 6 6 (\<lambda>d. d) claiming enqueueing example_outbox))"
proof -
  let ?r = "refresh_pending_work example_settings ''n'' K_OUTBOX outbox_pending outbox_due 6 6 (\<lambda>d. d) claiming enqueueing example_outbox"
  let ?ids = "captured_wakes ''n'' K_OUTBOX example_outbox"
  have ids: "?ids = [1]" by code_simp
  have cfg: "distributed_runtime_enabled example_settings" "0 \<le> runtime_outbox_claim_ttl_seconds example_settings"
    by (simp_all add: example_settings_def)
  have e2: "(announced_step example_settings ''n'' ?ids)\<^sup>*\<^sup>* ((\<lambda>d. d) example_outbox) (claiming ((\<lambda>d. d) example_outbox))"
    unfolding claiming_def by (rule r_into_rtranclp) (rule an_claim, rule prod.collapse [symmetric])
  have e3: "(announced_step example_settings ''n'' ?ids)\<^sup>*\<^sup>* d (enqueueing d)" for d
  proof (cases "get_row ev_id ''e2'' (events d) = None")
    case True
    have "announced_step example_settings ''n'' ?ids d
        (enqueue_event example_settings ((example_txn 7 ''e2'')\<lparr>tx_wakes := \<lambda>_. 2\<rparr>) 0 ''job'' example_payload ''n'' d)"
      by (rule an_enqueue) (use True in \<open>simp_all add: ids example_txn_def\<close>)
    then show ?thesis using True by (simp add: enqueueing_def)
  next
    case False
    then have "enqueueing d = d" unfolding enqueueing_def by (rule if_not_P)
    then show ?thesis by simp
  qed
  have "outbox_pending 8 ?r" by code_simp
  moreover have "(6 :: int) \<le> 8" by simp
  ultimately show ?thesis
    using outbox_refresh_loses_nothing [where ?e1.0 = "\<lambda>d. d" and ?e2.0 = claiming and ?e3.0 = enqueueing and db = example_outbox
        and now = 6 and upd = 6, OF cfg example_outbox_inv refl e2 e3 refl] by blast
qed

end
