(* ===== verification/Wake_Dispatch.thy ===== *)
theory Wake_Dispatch
  imports Prelude
begin

text \<open>
  In-process wake-ups: the version hubs of \<open>backend_core/live_hubs.py\<close>, whose publications bump a
  version and release waiters, and the namespace queue of \<open>backend_core/runtime_outbox_dispatcher.py\<close>,
  which turns wake hints and the durable listing into one turn per namespace. Futures are numbers and
  \<open>done\<close> says which of them are already settled; an operation returns the futures it resolves or
  cancels.
\<close>

subsection \<open>Python containers\<close>

text \<open>\<open>list(dict.fromkeys(xs))\<close>: the distinct elements in the order of their first occurrence.\<close>

definition dict_fromkeys :: "'a list \<Rightarrow> 'a list" where
  "dict_fromkeys xs = rev (remdups (rev xs))"

text \<open>\<open>xs[-n:]\<close> and a bounded deque.\<close>

definition last_n :: "nat \<Rightarrow> 'a list \<Rightarrow> 'a list" where
  "last_n n xs = drop (length xs - n) xs"

subsection \<open>VersionHub\<close>

definition HISTORY_SIZE :: nat where
  "HISTORY_SIZE = 2048"

definition MAX_KEYED_VERSIONS :: nat where
  "MAX_KEYED_VERSIONS = 4096"

record version_hub =
  vh_version :: nat
  vh_history :: "(nat \<times> string option) list"
  vh_waiters :: "nat list"
  vh_max_waiters :: nat

definition new_hub :: "nat \<Rightarrow> version_hub" where
  "new_hub max_waiters = \<lparr>vh_version = 0, vh_history = [], vh_waiters = [], vh_max_waiters = max_waiters\<rparr>"

definition hub_publish :: "(nat \<Rightarrow> bool) \<Rightarrow> string option \<Rightarrow> version_hub \<Rightarrow> (nat \<times> nat) list \<times> version_hub" where
  "hub_publish done payload h =
     (let v = vh_version h + 1
      in (map (\<lambda>f. (f, v)) (filter (\<lambda>f. \<not> done f) (vh_waiters h)),
          h\<lparr>vh_version := v, vh_history := last_n HISTORY_SIZE (vh_history h @ [(v, payload)]), vh_waiters := []\<rparr>))"

definition payloads_since :: "nat \<Rightarrow> version_hub \<Rightarrow> string option list" where
  "payloads_since last_seen h =
     (if last_seen \<ge> vh_version h then []
      else case vh_history h of
             [] \<Rightarrow> []
           | (v, _) # _ \<Rightarrow>
               if v > last_seen + 1 then [snd (last (vh_history h))]
               else dict_fromkeys (map snd (filter (\<lambda>p. fst p > last_seen) (vh_history h))))"

definition evict_overflow :: "version_hub \<Rightarrow> nat list \<times> version_hub" where
  "evict_overflow h =
     (if length (vh_waiters h) \<le> vh_max_waiters h then ([], h)
      else (take (length (vh_waiters h) - vh_max_waiters h) (vh_waiters h),
            h\<lparr>vh_waiters := last_n (vh_max_waiters h) (vh_waiters h)\<rparr>))"

text \<open>\<open>wait\<close> up to its suspension: the version if it is not the one last seen, else the future \<open>fut\<close>
  is registered and the overflow is cancelled (all but \<open>fut\<close> itself).\<close>

definition hub_wait :: "(nat \<Rightarrow> bool) \<Rightarrow> nat \<Rightarrow> nat option \<Rightarrow> version_hub \<Rightarrow> (nat list + nat) \<times> version_hub" where
  "hub_wait done fut last_seen h =
     (if last_seen \<noteq> None \<and> last_seen \<noteq> Some (vh_version h) then (Inr (vh_version h), h)
      else let h1 = h\<lparr>vh_waiters := filter (\<lambda>f. \<not> done f) (vh_waiters h) @ [fut]\<rparr>;
               (evicted, h2) = evict_overflow h1
           in (Inl (filter (\<lambda>f. f \<noteq> fut) evicted), h2))"

definition hub_discard_waiter :: "(nat \<Rightarrow> bool) \<Rightarrow> nat \<Rightarrow> version_hub \<Rightarrow> version_hub" where
  "hub_discard_waiter done fut h = h\<lparr>vh_waiters := filter (\<lambda>f. f \<noteq> fut \<and> \<not> done f) (vh_waiters h)\<rparr>"

definition hub_clear :: "(nat \<Rightarrow> bool) \<Rightarrow> version_hub \<Rightarrow> nat list \<times> version_hub" where
  "hub_clear done h =
     (filter (\<lambda>f. \<not> done f) (vh_waiters h), h\<lparr>vh_version := 0, vh_history := [], vh_waiters := []\<rparr>)"

subsection \<open>KeyedVersionHub\<close>

record keyed_hub =
  kh_versions :: "(string \<times> nat) list"
  kh_waiters :: "(string \<times> nat list) list"

definition keyed_version :: "string \<Rightarrow> keyed_hub \<Rightarrow> nat" where
  "keyed_version key h = (case map_of (kh_versions h) key of None \<Rightarrow> 0 | Some v \<Rightarrow> v)"

text \<open>The ordered dict moves the published key to the end and drops the oldest keys.\<close>

definition keyed_publish :: "(nat \<Rightarrow> bool) \<Rightarrow> string \<Rightarrow> keyed_hub \<Rightarrow> (nat \<times> nat) list \<times> keyed_hub" where
  "keyed_publish done key h =
     (let v = keyed_version key h + 1;
          vs = AList.delete key (kh_versions h) @ [(key, v)];
          ws = (case map_of (kh_waiters h) key of None \<Rightarrow> [] | Some fs \<Rightarrow> fs)
      in (map (\<lambda>f. (f, v)) (filter (\<lambda>f. \<not> done f) ws),
          h\<lparr>kh_versions := last_n MAX_KEYED_VERSIONS vs, kh_waiters := AList.delete key (kh_waiters h)\<rparr>))"

definition keyed_wait :: "(nat \<Rightarrow> bool) \<Rightarrow> nat \<Rightarrow> string \<Rightarrow> nat option \<Rightarrow> keyed_hub \<Rightarrow> nat option \<times> keyed_hub" where
  "keyed_wait done fut key last_seen h =
     (if last_seen \<noteq> None \<and> last_seen \<noteq> Some (keyed_version key h) then (Some (keyed_version key h), h)
      else let cur = (case map_of (kh_waiters h) key of None \<Rightarrow> [] | Some fs \<Rightarrow> filter (\<lambda>f. \<not> done f) fs)
           in (None, h\<lparr>kh_waiters := AList.update key (cur @ [fut]) (kh_waiters h)\<rparr>))"

definition discard_keyed_waiter :: "(nat \<Rightarrow> bool) \<Rightarrow> string \<Rightarrow> nat \<Rightarrow> (string \<times> nat list) list \<Rightarrow> (string \<times> nat list) list" where
  "discard_keyed_waiter done key fut ws =
     (case map_of ws key of
        None \<Rightarrow> ws
      | Some fs \<Rightarrow>
          let nxt = filter (\<lambda>f. f \<noteq> fut \<and> \<not> done f) fs
          in if nxt \<noteq> [] then AList.update key nxt ws else AList.delete key ws)"

definition waiter_count :: "keyed_hub \<Rightarrow> nat" where
  "waiter_count h = sum_list (map (\<lambda>p. length (snd p)) (kh_waiters h))"

definition keyed_clear :: "(nat \<Rightarrow> bool) \<Rightarrow> keyed_hub \<Rightarrow> nat list \<times> keyed_hub" where
  "keyed_clear done h =
     (filter (\<lambda>f. \<not> done f) (concat (map snd (kh_waiters h))), h\<lparr>kh_waiters := [], kh_versions := []\<rparr>)"

subsection \<open>The namespace queue\<close>

record dispatcher =
  dp_namespaces :: "string list"
  dp_next_refresh :: timestamp
  dp_refresh_period :: int
  dp_pending :: "string list"
  dp_pending_set :: "string list"

definition enqueue_namespace :: "string \<Rightarrow> dispatcher \<Rightarrow> dispatcher" where
  "enqueue_namespace ns d =
     (if ns = [] \<or> ns \<in> set (dp_pending_set d) then d
      else d\<lparr>dp_pending := dp_pending d @ [ns], dp_pending_set := ns # dp_pending_set d\<rparr>)"

definition enqueue_wake_namespaces :: "nat \<Rightarrow> version_hub \<Rightarrow> dispatcher \<Rightarrow> dispatcher" where
  "enqueue_wake_namespaces last_seen h d =
     fold (\<lambda>p d. case p of None \<Rightarrow> d | Some ns \<Rightarrow> enqueue_namespace ns d) (payloads_since last_seen h) d"

text \<open>The refresh of \<open>_next_namespace\<close>: \<open>names\<close> is the durable listing, an error if it failed; with no
  earlier snapshot the error propagates.\<close>

definition refresh_namespaces :: "timestamp \<Rightarrow> string list result \<Rightarrow> dispatcher \<Rightarrow> dispatcher result" where
  "refresh_namespaces now names d =
     (if now < dp_next_refresh d then Inr d
      else case names of
             Inl x \<Rightarrow>
               if dp_namespaces d = [] then Inl x
               else Inr (fold enqueue_namespace (dp_namespaces d)
                      (d\<lparr>dp_next_refresh := now + min (dp_refresh_period d) (seconds 1)\<rparr>))
           | Inr ns \<Rightarrow>
               Inr (fold enqueue_namespace ns
                 (d\<lparr>dp_namespaces := dict_fromkeys (filter (\<lambda>n. n \<noteq> []) ns),
                    dp_next_refresh := now + dp_refresh_period d\<rparr>)))"

definition pop_namespace :: "dispatcher \<Rightarrow> string option \<times> dispatcher" where
  "pop_namespace d =
     (case dp_pending d of
        [] \<Rightarrow> (None, d)
      | ns # rest \<Rightarrow> (Some ns, d\<lparr>dp_pending := rest, dp_pending_set := filter (\<lambda>n. n \<noteq> ns) (dp_pending_set d)\<rparr>))"

definition next_namespace :: "timestamp \<Rightarrow> string list result \<Rightarrow> dispatcher \<Rightarrow> (string option \<times> dispatcher) result" where
  "next_namespace now names d =
     (case refresh_namespaces now names d of Inl x \<Rightarrow> Inl x | Inr d' \<Rightarrow> Inr (pop_namespace d'))"

text \<open>One turn of \<open>run\<close> up to its wait: hints first, then one namespace, which goes back to the tail if
  its batch dispatched something. \<open>dispatch ns\<close> is the number of events \<open>dispatch_namespace\<close> sent, or what it raised:
  the loop logs that and goes on with the next turn, and the namespace is not put back.\<close>

definition dispatched_some :: "nat result \<Rightarrow> bool" where
  "dispatched_some r \<longleftrightarrow> (case r of Inl _ \<Rightarrow> False | Inr n \<Rightarrow> n \<noteq> 0)"

definition run_turn ::
  "nat \<Rightarrow> version_hub \<Rightarrow> timestamp \<Rightarrow> string list result \<Rightarrow> (string \<Rightarrow> nat result) \<Rightarrow> dispatcher \<Rightarrow>
   (string option \<times> dispatcher) result" where
  "run_turn last_seen h now names dispatch d =
     (case next_namespace now names (enqueue_wake_namespaces last_seen h d) of
        Inl x \<Rightarrow> Inl x
      | Inr (None, d1) \<Rightarrow> Inr (None, d1)
      | Inr (Some ns, d1) \<Rightarrow> Inr (Some ns, if dispatched_some (dispatch ns) then enqueue_namespace ns d1 else d1))"

subsection \<open>Facts about hubs\<close>

definition hub_inv :: "version_hub \<Rightarrow> bool" where
  "hub_inv h \<longleftrightarrow> length (vh_history h) = min (vh_version h) HISTORY_SIZE \<and>
     map fst (vh_history h) = [vh_version h + 1 - length (vh_history h)..<vh_version h + 1]"

lemma last_n_length: "length (last_n n xs) = min n (length xs)"
  by (auto simp: last_n_def)

lemma map_last_n: "map f (last_n n xs) = last_n n (map f xs)"
  by (simp add: last_n_def drop_map)

lemma hub_publish_inv: "hub_inv h \<Longrightarrow> hub_inv (snd (hub_publish done p h))"
proof -
  assume inv: "hub_inv h"
  let ?n = "length (vh_history h)" and ?v = "vh_version h"
  have n: "?n = min ?v HISTORY_SIZE" and m: "map fst (vh_history h) = [?v + 1 - ?n..<?v + 1]"
    using inv by (auto simp: hub_inv_def)
  have "map fst (vh_history h @ [(?v + 1, p)]) = [?v + 1 - ?n..<?v + 2]"
    using m n by simp
  moreover have "map fst (last_n HISTORY_SIZE (vh_history h @ [(?v + 1, p)])) =
      drop (?n + 1 - HISTORY_SIZE) (map fst (vh_history h @ [(?v + 1, p)]))"
    unfolding map_last_n by (simp add: last_n_def)
  ultimately have "map fst (last_n HISTORY_SIZE (vh_history h @ [(?v + 1, p)])) =
      drop (?n + 1 - HISTORY_SIZE) [?v + 1 - ?n..<?v + 2]" by (simp only:)
  also have "\<dots> = [?v + 2 - min HISTORY_SIZE (?n + 1)..<?v + 2]"
  proof -
    have "?v + 1 - ?n + (?n + 1 - HISTORY_SIZE) = ?v + 2 - min HISTORY_SIZE (?n + 1)" using n by (auto simp: min_def)
    then show ?thesis by (simp only: drop_upt)
  qed
  finally show ?thesis using n
    by (auto simp: hub_inv_def hub_publish_def Let_def last_n_length min_def simp del: upt_Suc)
qed

lemma new_hub_inv: "hub_inv (new_hub n)"
  by (simp add: hub_inv_def new_hub_def)

definition publish_all :: "string option list \<Rightarrow> version_hub \<Rightarrow> version_hub" where
  "publish_all ps h = fold (\<lambda>p h. snd (hub_publish (\<lambda>_. False) p h)) ps h"

lemma publish_all_version: "vh_version (publish_all ps h) = vh_version h + length ps"
  unfolding publish_all_def by (induction ps arbitrary: h) (auto simp: hub_publish_def Let_def)

lemma publish_all_inv: "hub_inv h \<Longrightarrow> hub_inv (publish_all ps h)"
  unfolding publish_all_def by (induction ps arbitrary: h) (auto intro: hub_publish_inv)

lemma last_n_append: "last_n n (last_n n xs @ ys) = last_n n (xs @ ys)"
  by (cases "length xs \<le> n") (auto simp: last_n_def add.commute)

lemma last_n_append_short: "length ys \<le> n \<Longrightarrow> last_n n (xs @ ys) = last_n (n - length ys) xs @ ys"
  by (auto simp: last_n_def)

lemma set_last_n: "set (last_n n xs) \<subseteq> set xs"
  by (simp add: last_n_def set_drop_subset)

lemma publish_all_history:
  "vh_history (publish_all ps h) = last_n HISTORY_SIZE (vh_history h @ zip [vh_version h + 1..<vh_version h + 1 + length ps] ps)"
  if "length (vh_history h) \<le> HISTORY_SIZE"
  using that unfolding publish_all_def
proof (induction ps arbitrary: h)
  case (Cons p ps)
  let ?h = "snd (hub_publish (\<lambda>_. False) p h)"
  have h: "vh_version ?h = vh_version h + 1" "vh_history ?h = last_n HISTORY_SIZE (vh_history h @ [(vh_version h + 1, p)])"
    by (simp_all add: hub_publish_def Let_def)
  then show ?case using Cons.IH [of ?h]
    by (simp add: last_n_length last_n_append upt_conv_Cons del: upt_Suc)
qed (simp add: last_n_def)

lemma hub_inv_versions: "hub_inv h \<Longrightarrow> p \<in> set (vh_history h) \<Longrightarrow> fst p \<le> vh_version h"
proof -
  assume "hub_inv h" "p \<in> set (vh_history h)"
  then have "fst p \<in> set [vh_version h + 1 - length (vh_history h)..<vh_version h + 1]"
    unfolding hub_inv_def by (metis image_eqI list.set_map)
  then show ?thesis by auto
qed

lemma filter_recent:
  assumes "hub_inv h" and "length ps \<le> HISTORY_SIZE"
  shows "filter (\<lambda>p. fst p > vh_version h) (vh_history (publish_all ps h)) = zip [vh_version h + 1..<vh_version h + 1 + length ps] ps"
proof -
  let ?z = "zip [vh_version h + 1..<vh_version h + 1 + length ps] ps"
  have "vh_history (publish_all ps h) = last_n (HISTORY_SIZE - length ps) (vh_history h) @ ?z"
    using assms by (simp add: publish_all_history hub_inv_def last_n_append_short del: upt_Suc)
  moreover have "filter (\<lambda>p. fst p > vh_version h) (last_n (HISTORY_SIZE - length ps) (vh_history h)) = []"
    using hub_inv_versions [OF assms(1)] set_last_n by (fastforce simp: filter_empty_conv)
  moreover have "filter (\<lambda>p. fst p > vh_version h) ?z = ?z"
    by (auto simp: filter_id_conv dest!: set_zip_leftD)
  ultimately show ?thesis by (simp del: upt_Suc)
qed

subsection \<open>Facts about the namespace queue\<close>

definition queue_inv :: "dispatcher \<Rightarrow> bool" where
  "queue_inv d \<longleftrightarrow> distinct (dp_pending d) \<and> set (dp_pending_set d) = set (dp_pending d) \<and> [] \<notin> set (dp_pending d)"

lemma enqueue_namespace_inv: "queue_inv d \<Longrightarrow> queue_inv (enqueue_namespace ns d)"
  by (auto simp: queue_inv_def enqueue_namespace_def)

lemma fold_enqueue_inv: "queue_inv d \<Longrightarrow> queue_inv (fold enqueue_namespace ns d)"
  by (induction ns arbitrary: d) (auto intro: enqueue_namespace_inv)

lemma pop_namespace_inv: "queue_inv d \<Longrightarrow> queue_inv (snd (pop_namespace d))"
  by (cases "dp_pending d") (auto simp: queue_inv_def pop_namespace_def)

lemma enqueue_namespace_pending: "\<exists>xs. dp_pending (enqueue_namespace ns d) = dp_pending d @ xs"
  by (simp add: enqueue_namespace_def)

lemma fold_enqueue_pending: "\<exists>xs. dp_pending (fold enqueue_namespace ns d) = dp_pending d @ xs"
proof (induction ns arbitrary: d)
  case (Cons n ns)
  then show ?case using enqueue_namespace_pending by (metis append.assoc fold_simps(2))
qed simp

lemma wake_namespaces_fold:
  "enqueue_wake_namespaces v h d =
   fold enqueue_namespace (concat (map (\<lambda>p. case p of None \<Rightarrow> [] | Some ns \<Rightarrow> [ns]) (payloads_since v h))) d"
proof -
  have "fold (\<lambda>p d. case p of None \<Rightarrow> d | Some ns \<Rightarrow> enqueue_namespace ns d) ps d =
      fold enqueue_namespace (concat (map (\<lambda>p. case p of None \<Rightarrow> [] | Some ns \<Rightarrow> [ns]) ps)) d" for ps
    by (induction ps arbitrary: d) (auto split: option.split)
  then show ?thesis by (simp add: enqueue_wake_namespaces_def)
qed

lemma refresh_namespaces_pending:
  "refresh_namespaces now names d = Inr d' \<Longrightarrow> queue_inv d \<Longrightarrow> queue_inv d' \<and> (\<exists>xs. dp_pending d' = dp_pending d @ xs)"
proof -
  assume r: "refresh_namespaces now names d = Inr d'" and q: "queue_inv d"
  then consider "d' = d" | e ns where "d' = fold enqueue_namespace ns e" "dp_pending e = dp_pending d" "dp_pending_set e = dp_pending_set d"
    by (auto simp: refresh_namespaces_def split: if_splits sum.splits)
  then show ?thesis
  proof cases
    case 2
    then have "queue_inv e" using q by (simp add: queue_inv_def)
    then show ?thesis using 2 fold_enqueue_inv fold_enqueue_pending by metis
  qed (use q in simp)
qed

lemma run_turn_pending:
  assumes "run_turn v h now names disp d = Inr (r, d')" and "queue_inv d"
  shows "queue_inv d' \<and> (\<exists>xs. case dp_pending d @ xs of [] \<Rightarrow> r = None \<and> dp_pending d' = []
     | n # rest \<Rightarrow> r = Some n \<and> (\<exists>ys. dp_pending d' = rest @ ys))"
proof -
  let ?d1 = "enqueue_wake_namespaces v h d"
  have d1: "queue_inv ?d1" and p1: "\<exists>xs. dp_pending ?d1 = dp_pending d @ xs"
    unfolding wake_namespaces_fold using fold_enqueue_inv [OF assms(2)] fold_enqueue_pending by blast+
  obtain d2 where d2: "refresh_namespaces now names ?d1 = Inr d2"
    using assms(1) by (auto simp: run_turn_def next_namespace_def split: sum.splits)
  have q2: "queue_inv d2" and p2: "\<exists>xs. dp_pending d2 = dp_pending d @ xs"
    using refresh_namespaces_pending [OF d2 d1] p1 by (auto simp: append_assoc)
  have r: "(r, d') = (case pop_namespace d2 of (None, d3) \<Rightarrow> (None, d3)
      | (Some ns, d3) \<Rightarrow> (Some ns, if dispatched_some (disp ns) then enqueue_namespace ns d3 else d3))"
    using assms(1) d2 by (auto simp: run_turn_def next_namespace_def split: prod.splits option.splits)
  have "queue_inv d'"
    using r pop_namespace_inv [OF q2] by (auto split: prod.splits option.splits intro: enqueue_namespace_inv)
  moreover have "case dp_pending d2 of [] \<Rightarrow> r = None \<and> dp_pending d' = []
     | n # rest \<Rightarrow> r = Some n \<and> (\<exists>ys. dp_pending d' = rest @ ys)"
  proof (cases "dp_pending d2")
    case Nil
    then show ?thesis using r by (simp add: pop_namespace_def)
  next
    case (Cons n rest)
    let ?x = "snd (pop_namespace d2)"
    have x: "r = Some n" "d' = ?x \<or> d' = enqueue_namespace n ?x" "dp_pending ?x = rest"
      using r Cons by (auto simp: pop_namespace_def split: if_splits)
    then show ?thesis using Cons enqueue_namespace_pending [of n ?x] by auto
  qed
  ultimately show ?thesis using p2 by auto
qed

text \<open>A sequence of turns, with the inputs of each.\<close>

fun run_turns ::
  "(nat \<times> version_hub \<times> timestamp \<times> string list result \<times> (string \<Rightarrow> nat result)) list \<Rightarrow> dispatcher \<Rightarrow>
   (string option list \<times> dispatcher) result" where
  "run_turns [] d = Inr ([], d)"
| "run_turns ((v, h, now, names, disp) # ts) d =
     (case run_turn v h now names disp d of
        Inl x \<Rightarrow> Inl x
      | Inr (r, d1) \<Rightarrow> (case run_turns ts d1 of Inl x \<Rightarrow> Inl x | Inr (rs, d2) \<Rightarrow> Inr (r # rs, d2)))"

subsection \<open>Properties\<close>

text \<open>A hub reader that comes back with the last version it saw gets every distinct payload
  published since, in order of first publication, as long as no more than the history size were
  published in between.\<close>

theorem hub_payloads_complete:
  assumes inv: "hub_inv h" and len: "length ps \<le> HISTORY_SIZE"
  shows "payloads_since (vh_version h) (publish_all ps h) = dict_fromkeys ps"
proof (cases "ps = []")
  case True
  then show ?thesis by (simp add: payloads_since_def publish_all_def dict_fromkeys_def)
next
  case False
  let ?z = "zip [vh_version h + 1..<vh_version h + 1 + length ps] ps"
  have hist: "vh_history (publish_all ps h) = last_n (HISTORY_SIZE - length ps) (vh_history h) @ ?z"
    using inv len by (simp add: publish_all_history hub_inv_def last_n_append_short del: upt_Suc)
  have z: "?z = (vh_version h + 1, hd ps) # tl ?z"
    using False by (cases ps) (simp_all add: upt_conv_Cons del: upt_Suc)
  have "fst (hd (vh_history (publish_all ps h))) \<le> vh_version h + 1"
  proof (cases "last_n (HISTORY_SIZE - length ps) (vh_history h)")
    case Nil
    then show ?thesis using hist z by (metis append_Nil fst_conv list.sel(1) order_refl)
  next
    case (Cons p xs)
    then have "p \<in> set (vh_history h)"
      using set_last_n [of "HISTORY_SIZE - length ps" "vh_history h"] by auto
    then show ?thesis using hist Cons hub_inv_versions [OF inv] by fastforce
  qed
  moreover have "vh_history (publish_all ps h) \<noteq> []" using hist z by force
  ultimately have "payloads_since (vh_version h) (publish_all ps h) =
      dict_fromkeys (map snd (filter (\<lambda>p. fst p > vh_version h) (vh_history (publish_all ps h))))"
    using False by (auto simp: payloads_since_def publish_all_version split: list.split)
  also have "\<dots> = dict_fromkeys ps" using filter_recent [OF inv len] by (simp del: upt_Suc)
  finally show ?thesis .
qed

theorem hub_payloads_complete_witness:
  "payloads_since 0 (publish_all [Some ''a'', Some ''b'', Some ''a''] (new_hub 4)) = [Some ''a'', Some ''b'']"
  using hub_payloads_complete [OF new_hub_inv [of 4], of "[Some ''a'', Some ''b'', Some ''a'']"]
  by (simp add: new_hub_def HISTORY_SIZE_def dict_fromkeys_def)

text \<open>C25: round robin without starvation. A namespace waiting at position \<open>i\<close> of the queue is
  dispatched within the next \<open>i + 1\<close> turns, whatever hints and listings arrive and however often other
  namespaces are put back because they had more to send.\<close>

theorem namespace_turn_bounded:
  assumes "queue_inv d" and "i < length (dp_pending d)" and "i < length ts" and "run_turns ts d = Inr (popped, d')"
  shows "Some (dp_pending d ! i) \<in> set (take (Suc i) popped)"
  using assms
proof (induction i arbitrary: ts d popped)
  case 0
  then obtain v h now names disp ts' where ts: "ts = (v, h, now, names, disp) # ts'" by (cases ts) auto
  from 0 ts obtain r d1 rs where r: "run_turn v h now names disp d = Inr (r, d1)" "popped = r # rs"
    by (auto split: sum.splits)
  from run_turn_pending [OF r(1) 0(1)] 0(2) show ?case
    by (cases "dp_pending d") (auto simp: r(2))
next
  case (Suc i)
  then obtain v h now names disp ts' where ts: "ts = (v, h, now, names, disp) # ts'" by (cases ts) auto
  from Suc.prems ts obtain r d1 rs where r: "run_turn v h now names disp d = Inr (r, d1)" "popped = r # rs"
      and rest: "run_turns ts' d1 = Inr (rs, d')"
    by (auto split: sum.splits)
  from run_turn_pending [OF r(1) Suc.prems(1)] Suc.prems(2) obtain n q ys where
    q: "dp_pending d = n # q" "queue_inv d1" "\<exists>xs. dp_pending d1 = (q @ xs) @ ys"
    by (cases "dp_pending d") auto
  then have "i < length (dp_pending d1)" "dp_pending d1 ! i = dp_pending d ! Suc i"
    using Suc.prems(2) by (auto simp: nth_append)
  then show ?case using Suc.IH [OF q(2) _ _ rest] Suc.prems(3) ts r(2) by auto
qed

definition example_dispatcher :: dispatcher where
  "example_dispatcher = \<lparr>dp_namespaces = [], dp_next_refresh = 0, dp_refresh_period = seconds 5,
     dp_pending = [''a'', ''b''], dp_pending_set = [''b'', ''a'']\<rparr>"

theorem namespace_turn_bounded_witness:
  "\<exists>popped d'. run_turns [(0, new_hub 4, -1, Inr [], \<lambda>_. Inl (RuntimeError ''down'')), (0, new_hub 4, -1, Inr [], \<lambda>_. Inr 3)] example_dispatcher = Inr (popped, d') \<and>
     Some ''b'' \<in> set (take 2 popped)"
proof -
  let ?ts = "[(0, new_hub 4, -1, Inr [], \<lambda>_. Inl (RuntimeError ''down'')), (0, new_hub 4, -1, Inr [], \<lambda>_. Inr 3)]"
  obtain popped d' where r: "run_turns ?ts example_dispatcher = Inr (popped, d')"
    by (simp add: run_turn_def dispatched_some_def next_namespace_def refresh_namespaces_def enqueue_wake_namespaces_def
        payloads_since_def new_hub_def example_dispatcher_def pop_namespace_def enqueue_namespace_def)
  have "Some (dp_pending example_dispatcher ! 1) \<in> set (take (Suc 1) popped)"
    by (rule namespace_turn_bounded [OF _ _ _ r]) (auto simp: queue_inv_def example_dispatcher_def)
  then show ?thesis using r by (auto simp: example_dispatcher_def numeral_2_eq_2)
qed

end
