(* ===== verification/Build_Runs.thy ===== *)
theory Build_Runs
  imports Outbox "HOL-Library.Word"
begin

text \<open>
  Durable build runs (\<open>backend_core/build_runs_service.py\<close>, \<open>persistence/build_runs/models.py\<close>,
  \<open>domain/build_runs/models.py\<close> and the event classes of \<open>domain/compute/schemas.py\<close>): a run row is the
  projection of an append-only event log with one sequence per run. Floating-point columns are only
  stored and copied; they are carried as their 64-bit patterns. The JSON form of an event is its
  model dump, which the code reads back with the adapter of the same union, so rows hold the event
  itself.
\<close>

subsection \<open>Events\<close>

type_synonym float64 = "64 word"

datatype build_run_status = BR_QUEUED | BR_RUNNING | BR_COMPLETED | BR_FAILED | BR_CANCELLED | BR_ORPHANED

definition run_is_terminal :: "build_run_status \<Rightarrow> bool" where
  "run_is_terminal s \<longleftrightarrow> s = BR_COMPLETED \<or> s = BR_FAILED \<or> s = BR_CANCELLED \<or> s = BR_ORPHANED"

definition to_build_lifecycle_status :: "build_run_status \<Rightarrow> string \<times> string option" where
  "to_build_lifecycle_status s = (case s of
     BR_QUEUED \<Rightarrow> (''queued'', None)
   | BR_RUNNING \<Rightarrow> (''running'', None)
   | BR_COMPLETED \<Rightarrow> (''completed'', None)
   | BR_CANCELLED \<Rightarrow> (''cancelled'', None)
   | BR_FAILED \<Rightarrow> (''failed'', None)
   | BR_ORPHANED \<Rightarrow> (''failed'', Some ''Build orphaned during startup recovery''))"

record step_info =
  si_build_step_index :: int
  si_step_index :: int
  si_step_id :: string
  si_step_name :: string
  si_step_type :: string
  si_total_steps :: int

record terminal_info =
  ti_progress :: float64
  ti_elapsed_ms :: int
  ti_total_steps :: int
  ti_tabs_built :: int
  ti_results :: "json list"
  ti_duration_ms :: int

datatype build_event_body =
    BuildPlanEvent string string
  | BuildStepStartEvent step_info
  | BuildStepCompleteEvent step_info int "int option"
  | BuildStepFailedEvent step_info string
  | BuildProgressEvent float64 int "int option" "string option" "int option" int
  | BuildResourceEvent float64 float64 "float64 option" int "int option"
  | BuildLogEvent string string "string option" "string option"
  | BuildCompleteEvent terminal_info
  | BuildFailedEvent terminal_info "string option"
  | BuildCancelledEvent terminal_info timestamp "string option"

record build_event =
  be_build_id :: string
  be_analysis_id :: string
  be_emitted_at :: timestamp
  be_current_kind :: "string option"
  be_current_datasource_id :: "string option"
  be_tab_id :: "string option"
  be_tab_name :: "string option"
  be_current_output_id :: "string option"
  be_current_output_name :: "string option"
  be_compute_worker_run_id :: "string option"
  be_body :: build_event_body

definition event_type :: "build_event \<Rightarrow> string" where
  "event_type e = (case be_body e of
     BuildPlanEvent _ _ \<Rightarrow> ''plan''
   | BuildStepStartEvent _ \<Rightarrow> ''step_start''
   | BuildStepCompleteEvent _ _ _ \<Rightarrow> ''step_complete''
   | BuildStepFailedEvent _ _ \<Rightarrow> ''step_failed''
   | BuildProgressEvent _ _ _ _ _ _ \<Rightarrow> ''progress''
   | BuildResourceEvent _ _ _ _ _ \<Rightarrow> ''resources''
   | BuildLogEvent _ _ _ _ \<Rightarrow> ''log''
   | BuildCompleteEvent _ \<Rightarrow> ''complete''
   | BuildFailedEvent _ _ \<Rightarrow> ''failed''
   | BuildCancelledEvent _ _ _ \<Rightarrow> ''cancelled'')"

definition terminal_status_for_event :: "build_event \<Rightarrow> build_run_status option" where
  "terminal_status_for_event e = (case be_body e of
     BuildCompleteEvent _ \<Rightarrow> Some BR_COMPLETED
   | BuildFailedEvent _ _ \<Rightarrow> Some BR_FAILED
   | BuildCancelledEvent _ _ _ \<Rightarrow> Some BR_CANCELLED
   | _ \<Rightarrow> None)"

subsection \<open>Rows\<close>

record build_run =
  run_id :: string
  run_namespace :: string
  run_schedule_id :: "string option"
  run_analysis_id :: string
  run_analysis_name :: string
  run_status :: build_run_status
  run_request_json :: payload
  run_starter_json :: payload
  run_resource_config_json :: "payload option"
  run_result_json :: "payload option"
  run_current_compute_worker_run_id :: "string option"
  run_current_kind :: "string option"
  run_current_datasource_id :: "string option"
  run_current_tab_id :: "string option"
  run_current_tab_name :: "string option"
  run_current_output_id :: "string option"
  run_current_output_name :: "string option"
  run_progress :: float64
  run_elapsed_ms :: int
  run_estimated_remaining_ms :: "int option"
  run_current_step :: "string option"
  run_current_step_index :: "int option"
  run_total_steps :: int
  run_total_tabs :: int
  run_duration_ms :: "int option"
  run_error_message :: "string option"
  run_cancelled_at :: "timestamp option"
  run_cancelled_by :: "string option"
  run_created_at :: timestamp
  run_started_at :: timestamp
  run_completed_at :: "timestamp option"
  run_updated_at :: timestamp
  run_version :: int
  run_execution_generation :: int
  run_next_event_sequence :: int

record build_event_row =
  bev_id :: string
  bev_build_id :: string
  bev_namespace :: string
  bev_sequence :: int
  bev_type :: string
  bev_payload :: build_event
  bev_compute_worker_run_id :: "string option"
  bev_emitted_at :: timestamp
  bev_created_at :: timestamp

record run_datasource =
  rd_build_id :: string
  rd_namespace :: string
  rd_datasource_id :: string

record build_db = outbox_db +
  runs :: "build_run list"
  run_events :: "build_event_row list"
  run_datasources :: "run_datasource list"

subsection \<open>Projection of events\<close>

definition apply_event_context :: "build_event \<Rightarrow> build_run \<Rightarrow> build_run" where
  "apply_event_context e r =
     (let keep = (\<lambda>new old. if new \<noteq> None then new else old)
      in r\<lparr>run_current_datasource_id := keep (be_current_datasource_id e) (run_current_datasource_id r),
           run_current_tab_id := keep (be_tab_id e) (run_current_tab_id r),
           run_current_tab_name := keep (be_tab_name e) (run_current_tab_name r),
           run_current_output_id := keep (be_current_output_id e) (run_current_output_id r),
           run_current_output_name := keep (be_current_output_name e) (run_current_output_name r),
           run_current_compute_worker_run_id := keep (be_compute_worker_run_id e) (run_current_compute_worker_run_id r)\<rparr>)"

definition apply_step :: "step_info \<Rightarrow> build_run \<Rightarrow> build_run" where
  "apply_step s r = r\<lparr>run_current_step := Some (si_step_name s), run_current_step_index := Some (si_build_step_index s),
                      run_total_steps := si_total_steps s\<rparr>"

definition apply_runtime_event :: "build_event \<Rightarrow> build_run \<Rightarrow> build_run" where
  "apply_runtime_event e r = (case be_body e of
     BuildProgressEvent progress elapsed remaining step idx steps \<Rightarrow>
       r\<lparr>run_progress := progress, run_elapsed_ms := elapsed, run_estimated_remaining_ms := remaining,
         run_current_step := step, run_current_step_index := idx, run_total_steps := steps\<rparr>
   | BuildStepStartEvent s \<Rightarrow> apply_step s r
   | BuildStepCompleteEvent s _ _ \<Rightarrow> apply_step s r
   | BuildStepFailedEvent s _ \<Rightarrow> apply_step s r
   | _ \<Rightarrow> r)"

definition apply_terminal_info :: "build_run_status \<Rightarrow> timestamp \<Rightarrow> terminal_info \<Rightarrow> build_run \<Rightarrow> build_run" where
  "apply_terminal_info st emitted t r =
     r\<lparr>run_status := st, run_progress := ti_progress t, run_elapsed_ms := ti_elapsed_ms t,
       run_total_steps := ti_total_steps t, run_duration_ms := Some (ti_duration_ms t),
       run_completed_at := Some emitted, run_error_message := None\<rparr>"

definition apply_terminal_event :: "build_event \<Rightarrow> build_run \<Rightarrow> bool \<times> build_run" where
  "apply_terminal_event e r =
     (if run_is_terminal (run_status r) then (False, r)
      else case be_body e of
             BuildCompleteEvent t \<Rightarrow> (True, apply_terminal_info BR_COMPLETED (be_emitted_at e) t r)
           | BuildFailedEvent t err \<Rightarrow>
               (True, (apply_terminal_info BR_FAILED (be_emitted_at e) t r)\<lparr>run_error_message := err\<rparr>)
           | BuildCancelledEvent t at by \<Rightarrow>
               (True, (apply_terminal_info BR_CANCELLED (be_emitted_at e) t r)
                  \<lparr>run_error_message := Some ''Build cancelled'', run_cancelled_at := Some at, run_cancelled_by := by\<rparr>)
           | _ \<Rightarrow> (True, r))"

subsection \<open>Staging and reading runs\<close>

text \<open>\<open>run\<close> carries the caller's arguments in the fields the function copies.\<close>

definition stage_build_run :: "build_run \<Rightarrow> string list \<Rightarrow> 'a build_db_scheme \<Rightarrow> 'a build_db_scheme result" where
  "stage_build_run run datasource_ids db =
     (if get_row run_id (run_id run) (runs db) \<noteq> None then Inl (RuntimeError ''IntegrityError'')
      else Inr (db\<lparr>runs := runs db @ [run\<lparr>run_current_compute_worker_run_id := None, run_progress := 0,
                       run_elapsed_ms := 0, run_estimated_remaining_ms := None, run_current_step := None,
                       run_current_step_index := None, run_total_steps := 0, run_duration_ms := None,
                       run_error_message := None, run_cancelled_at := None, run_cancelled_by := None,
                       run_completed_at := None, run_updated_at := run_created_at run, run_version := 1,
                       run_next_event_sequence := 1\<rparr>],
                   run_datasources := run_datasources db @
                     map (\<lambda>d. \<lparr>rd_build_id = run_id run, rd_namespace = run_namespace run, rd_datasource_id = d\<rparr>)
                       (sort (remdups datasource_ids))\<rparr>))"

definition get_build_run :: "string \<Rightarrow> 'a build_db_scheme \<Rightarrow> build_run option" where
  "get_build_run bid db = get_row run_id bid (runs db)"

definition run_in_flight :: "build_run \<Rightarrow> bool" where
  "run_in_flight r \<longleftrightarrow> run_status r = BR_QUEUED \<or> run_status r = BR_RUNNING"

definition has_active_build_for_datasource :: "string \<Rightarrow> string \<Rightarrow> 'a build_db_scheme \<Rightarrow> bool" where
  "has_active_build_for_datasource ns ds db \<longleftrightarrow>
     list_ex (\<lambda>d. rd_namespace d = ns \<and> rd_datasource_id d = ds \<and>
        list_ex (\<lambda>r. run_id r = rd_build_id d \<and> run_namespace r = ns \<and> run_in_flight r) (runs db)) (run_datasources db)"

definition has_inflight_build_for_schedule :: "string \<Rightarrow> 'a build_db_scheme \<Rightarrow> bool" where
  "has_inflight_build_for_schedule sid db \<longleftrightarrow>
     list_ex (\<lambda>r. run_schedule_id r = Some sid \<and> run_in_flight r) (runs db)"

subsection \<open>Compare and swap\<close>

text \<open>\<open>env\<close> is what other sessions commit between the read of \<open>run\<close> and the guarded update. The
  notification is part of the transaction, so a lost swap rolls it back.\<close>

definition cas_where :: "build_run \<Rightarrow> build_run_status \<Rightarrow> build_run \<Rightarrow> bool" where
  "cas_where run expected r \<longleftrightarrow> run_id r = run_id run \<and> run_status r = expected \<and> run_version r = run_version run"

definition cas_update_build_run ::
  "settings \<Rightarrow> txn \<Rightarrow> string \<Rightarrow> build_run \<Rightarrow> (build_run \<Rightarrow> build_run) \<Rightarrow> build_run_status \<Rightarrow> bool \<Rightarrow>
   'a build_db_scheme \<Rightarrow> (build_run option \<times> 'a build_db_scheme) result" where
  "cas_update_build_run cfg tx cur_ns run vals expected notify db =
     (case (if notify
            then enqueue_api_build_notification cfg tx 0 cur_ns (run_namespace run) (run_id run)
                   (max (run_next_event_sequence run - 1) 0) db
            else Inr db) of
        Inl x \<Rightarrow> Inl x
      | Inr db1 \<Rightarrow>
          let db2 = (if rowcount (cas_where run expected) (runs db1) = 1
                     then db1\<lparr>runs := update_where (cas_where run expected) vals (runs db1)\<rparr>
                     else db)
          in Inr (get_build_run (run_id run) db2, db2))"

definition mark_build_running ::
  "settings \<Rightarrow> txn \<Rightarrow> string \<Rightarrow> string \<Rightarrow> int \<Rightarrow> timestamp \<Rightarrow> ('a build_db_scheme \<Rightarrow> 'a build_db_scheme) \<Rightarrow>
   'a build_db_scheme \<Rightarrow> (build_run option \<times> 'a build_db_scheme) result" where
  "mark_build_running cfg tx cur_ns bid generation now env db =
     (case get_build_run bid db of
        None \<Rightarrow> Inr (None, db)
      | Some run \<Rightarrow>
          if \<not> run_in_flight run then Inr (Some run, db)
          else if generation < run_execution_generation run then Inr (None, db)
          else if run_status run = BR_RUNNING \<and> generation = run_execution_generation run then Inr (Some run, db)
          else cas_update_build_run cfg tx cur_ns run
                 (\<lambda>r. r\<lparr>run_status := BR_RUNNING, run_execution_generation := generation, run_updated_at := now,
                        run_version := run_version run + 1\<rparr>)
                 (run_status run) (run_status run = BR_QUEUED) (env db))"

definition stage_build_result_json ::
  "string \<Rightarrow> payload option \<Rightarrow> timestamp \<Rightarrow> 'a build_db_scheme \<Rightarrow> 'a build_db_scheme result" where
  "stage_build_result_json bid result now db =
     (case get_build_run bid db of
        None \<Rightarrow> Inl (ValueError (''Build run '' @ bid @ '' not found''))
      | Some _ \<Rightarrow> Inr (db\<lparr>runs := update_where (\<lambda>r. run_id r = bid)
          (\<lambda>r. r\<lparr>run_result_json := result, run_updated_at := now, run_version := run_version r + 1\<rparr>) (runs db)\<rparr>))"

subsection \<open>The event log\<close>

text \<open>The row after an accepted event, before the sequence is drawn.\<close>

definition project_event :: "build_event \<Rightarrow> payload option \<Rightarrow> int option \<Rightarrow> build_run \<Rightarrow> build_run" where
  "project_event e resource_config authoritative run =
     (if run_is_terminal (run_status run) then run
      else let r1 = (case authoritative of None \<Rightarrow> run | Some g \<Rightarrow> run\<lparr>run_execution_generation := g\<rparr>);
               r2 = apply_event_context e r1;
               r3 = (if resource_config \<noteq> None then r2\<lparr>run_resource_config_json := resource_config\<rparr> else r2);
               r4 = apply_runtime_event e r3;
               r5 = (if terminal_status_for_event e \<noteq> None then snd (apply_terminal_event e r4) else r4)
           in r5\<lparr>run_updated_at := be_emitted_at e, run_version := run_version r5 + 1\<rparr>)"

definition event_rejected :: "build_event \<Rightarrow> int option \<Rightarrow> int option \<Rightarrow> build_run \<Rightarrow> bool" where
  "event_rejected e expected authoritative run \<longleftrightarrow>
     (expected \<noteq> None \<and> expected \<noteq> Some (run_execution_generation run)) \<or>
     (case authoritative of None \<Rightarrow> False | Some g \<Rightarrow> g \<le> run_execution_generation run) \<or>
     (run_is_terminal (run_status run) \<and> terminal_status_for_event e \<noteq> Some (run_status run))"

definition notification_mismatch :: "string \<Rightarrow> string \<Rightarrow> string option \<Rightarrow> 'a outbox_db_scheme \<Rightarrow> bool" where
  "notification_mismatch ns bid notif db \<longleftrightarrow>
     (case notif of None \<Rightarrow> False
      | Some i \<Rightarrow> (case get_row ev_id i (events db) of
          None \<Rightarrow> True
        | Some ev \<Rightarrow> map_of (ev_payload_json ev) ''namespace'' \<noteq> Some (JStr ns) \<or>
                     map_of (ev_payload_json ev) ''build_id'' \<noteq> Some (JStr bid)))"

text \<open>The messages an accepted event sends: the prepared outbox row gets the sequence, a terminal
  event without one enqueues its own, any other event is notified on commit.\<close>

definition announce_event ::
  "settings \<Rightarrow> txn \<Rightarrow> string \<Rightarrow> string \<Rightarrow> string \<Rightarrow> int \<Rightarrow> bool \<Rightarrow> string option \<Rightarrow> bool \<Rightarrow> 'a outbox_db_scheme \<Rightarrow>
   'a outbox_db_scheme result" where
  "announce_event cfg tx cur_ns ns bid seq terminal notif scheduled db =
     (case (case notif of
              Some i \<Rightarrow> Inr (db\<lparr>events := update_where (\<lambda>ev. ev_id ev = i)
                 (\<lambda>ev. ev\<lparr>ev_payload_json := merge_obj (ev_payload_json ev) [(''latest_sequence'', JInt seq)]\<rparr>) (events db)\<rparr>)
            | None \<Rightarrow> if terminal then enqueue_api_build_notification cfg tx 2 cur_ns ns bid seq db else Inr db) of
        Inl x \<Rightarrow> Inl x
      | Inr db1 \<Rightarrow>
          let db2 = (if terminal \<and> scheduled then mark_schedule_pending cfg (tx_wakes tx 3) (tx_stmt tx) ns db1 else db1);
              db3 = (if notif = None \<and> \<not> terminal
                     then notify_on_commit [(''kind'', JStr ''build''), (''namespace'', JStr ns), (''build_id'', JStr bid),
                            (''latest_sequence'', JInt seq)] db2
                     else db2)
          in Inr db3)"

definition stage_build_event ::
  "settings \<Rightarrow> txn \<Rightarrow> string \<Rightarrow> timestamp \<Rightarrow> string \<Rightarrow> build_event \<Rightarrow> payload option \<Rightarrow> int option \<Rightarrow> int option \<Rightarrow>
   string option \<Rightarrow> 'a build_db_scheme \<Rightarrow> (build_event_row option \<times> 'a build_db_scheme) result" where
  "stage_build_event cfg tx cur_ns now bid e resource_config expected authoritative notif db =
     (if expected \<noteq> None \<and> authoritative \<noteq> None
      then Inl (ValueError ''Expected and authoritative execution generations are mutually exclusive'')
      else case get_build_run bid db of
             None \<Rightarrow> Inl (ValueError (''Build run '' @ bid @ '' not found''))
           | Some run \<Rightarrow>
               if event_rejected e expected authoritative run then Inr (None, db)
               else if notification_mismatch (run_namespace run) bid notif db
               then Inl (ValueError ''Build notification namespace does not match its run'')
               else
                 let seq = run_next_event_sequence run;
                     run' = (project_event e resource_config authoritative run)\<lparr>run_next_event_sequence := seq + 1\<rparr>;
                     row = \<lparr>bev_id = tx_ids tx 1, bev_build_id = bid, bev_namespace = run_namespace run, bev_sequence = seq,
                            bev_type = event_type e, bev_payload = e,
                            bev_compute_worker_run_id = be_compute_worker_run_id e, bev_emitted_at = be_emitted_at e,
                            bev_created_at = now\<rparr>;
                     db1 = db\<lparr>run_events := run_events db @ [row],
                              runs := update_where (\<lambda>r. run_id r = bid) (\<lambda>_. run') (runs db)\<rparr>
                 in case announce_event cfg tx cur_ns (run_namespace run) bid seq
                          (terminal_status_for_event e \<noteq> None) notif (run_schedule_id run \<noteq> None) db1 of
                      Inl x \<Rightarrow> Inl x
                    | Inr db2 \<Rightarrow> Inr (Some row, db2))"

text \<open>\<open>append_build_event\<close> runs in one transaction: a rejected event rolls its notification back.\<close>

definition append_build_event ::
  "settings \<Rightarrow> txn \<Rightarrow> string \<Rightarrow> timestamp \<Rightarrow> string \<Rightarrow> build_event \<Rightarrow> payload option \<Rightarrow> int option \<Rightarrow> int option \<Rightarrow>
   'a build_db_scheme \<Rightarrow> (build_event_row option \<times> 'a build_db_scheme) result" where
  "append_build_event cfg tx cur_ns now bid e resource_config expected authoritative db =
     (case (if terminal_status_for_event e \<noteq> None
            then (case enqueue_api_build_notification cfg tx 0 cur_ns cur_ns bid 0 db of
                    Inl x \<Rightarrow> Inl x | Inr db1 \<Rightarrow> Inr (Some (tx_ids tx 0), db1))
            else Inr (None, db)) of
        Inl x \<Rightarrow> Inl x
      | Inr (notif, db1) \<Rightarrow>
          (case stage_build_event cfg tx cur_ns now bid e resource_config expected authoritative notif db1 of
             Inl x \<Rightarrow> Inl x
           | Inr (None, _) \<Rightarrow> Inr (None, db)
           | Inr (Some row, db2) \<Rightarrow> Inr (Some row, db2)))"

definition list_build_events_after :: "string \<Rightarrow> int \<Rightarrow> 'a build_db_scheme \<Rightarrow> build_event_row list" where
  "list_build_events_after bid seq db =
     sort_key bev_sequence (filter (\<lambda>e. bev_build_id e = bid \<and> bev_sequence e > seq) (run_events db))"

definition get_latest_sequence :: "string \<Rightarrow> 'a build_db_scheme \<Rightarrow> int" where
  "get_latest_sequence bid db =
     (case get_build_run bid db of None \<Rightarrow> 0 | Some r \<Rightarrow> max (run_next_event_sequence r - 1) 0)"

text \<open>\<open>persist_build_event\<close>, up to the protobuf rendering of the row.\<close>

definition persist_build_event ::
  "settings \<Rightarrow> txn \<Rightarrow> string \<Rightarrow> timestamp \<Rightarrow> string \<Rightarrow> int \<Rightarrow> build_event \<Rightarrow> payload option \<Rightarrow> 'a build_db_scheme \<Rightarrow>
   ((build_event_row \<times> int) option \<times> 'a build_db_scheme) result" where
  "persist_build_event cfg tx cur_ns now bid generation e resource_config db =
     (case append_build_event cfg tx cur_ns now bid e resource_config (Some generation) None db of
        Inl x \<Rightarrow> Inl x
      | Inr (None, db1) \<Rightarrow> Inr (None, db1)
      | Inr (Some row, db1) \<Rightarrow> Inr (Some (row, bev_sequence row), db1))"

subsection \<open>Build detail\<close>

datatype step_state = SS_RUNNING | SS_COMPLETED | SS_FAILED

record step_snapshot =
  ss_step :: step_info
  ss_tab_id :: "string option"
  ss_tab_name :: "string option"
  ss_state :: step_state
  ss_duration_ms :: "int option"
  ss_row_count :: "int option"
  ss_error :: "string option"

record build_detail =
  bd_steps :: "((string option \<times> string) \<times> step_snapshot) list"
  bd_plans :: "((string option \<times> string option) \<times> (string \<times> string)) list"
  bd_resources :: "(timestamp \<times> build_event_body) list"
  bd_logs :: "build_event list"
  bd_results :: "json list"

definition snapshot :: "build_event \<Rightarrow> step_info \<Rightarrow> step_snapshot" where
  "snapshot e s = \<lparr>ss_step = s, ss_tab_id = be_tab_id e, ss_tab_name = be_tab_name e, ss_state = SS_RUNNING,
     ss_duration_ms = None, ss_row_count = None, ss_error = None\<rparr>"

definition fold_event :: "build_event \<Rightarrow> build_detail \<Rightarrow> build_detail" where
  "fold_event e d = (case be_body e of
     BuildPlanEvent opt unopt \<Rightarrow> d\<lparr>bd_plans := AList.update (be_tab_id e, be_tab_name e) (opt, unopt) (bd_plans d)\<rparr>
   | BuildStepStartEvent s \<Rightarrow> d\<lparr>bd_steps := AList.update (be_tab_id e, si_step_id s) (snapshot e s) (bd_steps d)\<rparr>
   | BuildStepCompleteEvent s dur rows \<Rightarrow> d\<lparr>bd_steps := AList.update (be_tab_id e, si_step_id s)
       ((snapshot e s)\<lparr>ss_state := SS_COMPLETED, ss_duration_ms := Some dur, ss_row_count := rows\<rparr>) (bd_steps d)\<rparr>
   | BuildStepFailedEvent s err \<Rightarrow> d\<lparr>bd_steps := AList.update (be_tab_id e, si_step_id s)
       ((snapshot e s)\<lparr>ss_state := SS_FAILED, ss_error := Some err\<rparr>) (bd_steps d)\<rparr>
   | BuildResourceEvent _ _ _ _ _ \<Rightarrow> d\<lparr>bd_resources := bd_resources d @ [(be_emitted_at e, be_body e)]\<rparr>
   | BuildLogEvent _ _ _ _ \<Rightarrow> d\<lparr>bd_logs := bd_logs d @ [e]\<rparr>
   | BuildCompleteEvent t \<Rightarrow> d\<lparr>bd_results := ti_results t\<rparr>
   | BuildFailedEvent t _ \<Rightarrow> d\<lparr>bd_results := ti_results t\<rparr>
   | BuildCancelledEvent t _ _ \<Rightarrow> d\<lparr>bd_results := ti_results t\<rparr>
   | BuildProgressEvent _ _ _ _ _ _ \<Rightarrow> d)"

record folded_build =
  fb_steps :: "step_snapshot list"
  fb_query_plans :: "((string option \<times> string option) \<times> (string \<times> string)) list"
  fb_latest_resources :: "(timestamp \<times> build_event_body) option"
  fb_resources :: "(timestamp \<times> build_event_body) list"
  fb_logs :: "build_event list"
  fb_results :: "json list"
  fb_duration_ms :: "int option"
  fb_error :: "string option"
  fb_status :: string

definition fold_build_detail :: "build_run \<Rightarrow> 'a build_db_scheme \<Rightarrow> folded_build" where
  "fold_build_detail run db =
     (let d = fold (\<lambda>row. fold_event (bev_payload row)) (list_build_events_after (run_id run) 0 db)
                \<lparr>bd_steps = [], bd_plans = [], bd_resources = [], bd_logs = [], bd_results = []\<rparr>;
          (status, orphan_error) = to_build_lifecycle_status (run_status run)
      in \<lparr>fb_steps = sort_key (\<lambda>s. si_build_step_index (ss_step s)) (map snd (bd_steps d)),
          fb_query_plans = bd_plans d,
          fb_latest_resources = (if bd_resources d = [] then None else Some (last (bd_resources d))),
          fb_resources = bd_resources d, fb_logs = bd_logs d, fb_results = bd_results d,
          fb_duration_ms = run_duration_ms run,
          fb_error = (if truthy (run_error_message run) then run_error_message run else orphan_error),
          fb_status = status\<rparr>)"

end
