(* ===== verification/Build_Jobs.thy ===== *)
theory Build_Jobs
  imports Build_Runs
begin

text \<open>
  The durable build queue (\<open>backend_core/build_jobs_service.py\<close>, \<open>persistence/build_jobs/models.py\<close>,
  \<open>domain/build_jobs/models.py\<close>): one job per build run, claimed by workers under a lease with a
  token and a generation, renewed while it runs, finished only by the live claim, cancelled by
  anyone, and failed together with its run when the lease runs out after the last attempt.
\<close>

datatype build_job_status = BJ_QUEUED | BJ_LEASED | BJ_RUNNING | BJ_COMPLETED | BJ_FAILED | BJ_CANCELLED

definition job_is_active :: "build_job_status \<Rightarrow> bool" where
  "job_is_active s \<longleftrightarrow> s = BJ_LEASED \<or> s = BJ_RUNNING"

definition job_is_terminal :: "build_job_status \<Rightarrow> bool" where
  "job_is_terminal s \<longleftrightarrow> s = BJ_COMPLETED \<or> s = BJ_FAILED \<or> s = BJ_CANCELLED"

definition RECONCILIATION_BATCH_SIZE :: nat where
  "RECONCILIATION_BATCH_SIZE = 100"

record build_job =
  job_id :: string
  job_build_id :: string
  job_namespace :: string
  job_status :: build_job_status
  job_priority :: int
  job_lease_owner :: "string option"
  job_claim_token :: "string option"
  job_lease_generation :: int
  job_lease_expires_at :: "timestamp option"
  job_claimed_at :: "timestamp option"
  job_last_renewed_at :: "timestamp option"
  job_attempts :: int
  job_max_attempts :: int
  job_last_error :: "string option"
  job_available_at :: timestamp
  job_created_at :: timestamp
  job_updated_at :: timestamp

record jobs_db = build_db +
  jobs :: "build_job list"

definition clear_lease :: "build_job \<Rightarrow> build_job" where
  "clear_lease j = j\<lparr>job_lease_owner := None, job_claim_token := None, job_lease_expires_at := None,
                     job_claimed_at := None, job_last_renewed_at := None\<rparr>"

definition is_orphaned :: "string list \<Rightarrow> build_job \<Rightarrow> bool" where
  "is_orphaned reclaimable j \<longleftrightarrow>
     job_is_active (job_status j) \<and> (job_lease_owner j = None \<or> sql_in (job_lease_owner j) reclaimable)"

subsection \<open>The wake index\<close>

definition build_work_pending :: "timestamp \<Rightarrow> 'a jobs_db_scheme \<Rightarrow> bool" where
  "build_work_pending t db \<longleftrightarrow>
     list_ex (\<lambda>j. job_status j = BJ_QUEUED \<or>
        (job_is_active (job_status j) \<and> (job_lease_owner j = None \<or> sql_le (job_lease_expires_at j) t))) (jobs db)"

definition build_work_due :: "timestamp \<Rightarrow> 'a jobs_db_scheme \<Rightarrow> timestamp option" where
  "build_work_due t db =
     sql_min (map job_lease_expires_at
       (filter (\<lambda>j. job_is_active (job_status j) \<and> sql_gt (job_lease_expires_at j) t) (jobs db)))"

subsection \<open>Operations\<close>

definition stage_job ::
  "settings \<Rightarrow> txn \<Rightarrow> string \<Rightarrow> string \<Rightarrow> int \<Rightarrow> 'a jobs_db_scheme \<Rightarrow> (build_job \<times> 'a jobs_db_scheme) result" where
  "stage_job cfg tx bid ns max_attempts db =
     (let job = \<lparr>job_id = tx_ids tx 0, job_build_id = bid, job_namespace = ns, job_status = BJ_QUEUED,
                 job_priority = 0, job_lease_owner = None, job_claim_token = None, job_lease_generation = 0,
                 job_lease_expires_at = None, job_claimed_at = None, job_last_renewed_at = None, job_attempts = 0,
                 job_max_attempts = max_attempts, job_last_error = None, job_available_at = tx_now tx,
                 job_created_at = tx_now tx, job_updated_at = tx_now tx\<rparr>
      in if get_row job_id (job_id job) (jobs db) \<noteq> None \<or> get_row job_build_id bid (jobs db) \<noteq> None
         then Inl (RuntimeError ''IntegrityError'')
         else Inr (job, snd (append_wake cfg (tx_wakes tx 0) (tx_stmt tx) ns K_BUILD (db\<lparr>jobs := jobs db @ [job]\<rparr>))))"

definition get_job_by_build_id :: "string \<Rightarrow> 'a jobs_db_scheme \<Rightarrow> build_job option" where
  "get_job_by_build_id bid db = get_row job_build_id bid (jobs db)"

definition job_claimable :: "timestamp \<Rightarrow> string list \<Rightarrow> build_job \<Rightarrow> bool" where
  "job_claimable now reclaimable j \<longleftrightarrow>
     job_available_at j \<le> now \<and>
     (job_status j = BJ_QUEUED \<or>
      (job_is_active (job_status j) \<and>
       (job_lease_owner j = None \<or> sql_in (job_lease_owner j) reclaimable \<or> sql_le (job_lease_expires_at j) now) \<and>
       job_attempts j < job_max_attempts j))"

definition claim_order :: "build_job \<Rightarrow> int \<times> timestamp \<times> timestamp \<times> string" where
  "claim_order j = (- job_priority j, job_available_at j, job_created_at j, job_id j)"

text \<open>\<open>claim_by_lease_owner\<close> of \<open>backend_core/claiming.py\<close> on the job table.\<close>

definition claim_where :: "build_job \<Rightarrow> build_job \<Rightarrow> bool" where
  "claim_where row j \<longleftrightarrow> job_id j = job_id row \<and> job_attempts j = job_attempts row \<and>
     job_lease_generation j = job_lease_generation row \<and> job_status j = job_status row \<and>
     job_lease_owner j = job_lease_owner row"

definition claim_values :: "string \<Rightarrow> string \<Rightarrow> timestamp \<Rightarrow> build_job \<Rightarrow> build_job \<Rightarrow> build_job" where
  "claim_values worker tok lease_now row j =
     j\<lparr>job_status := BJ_RUNNING, job_lease_owner := Some worker, job_claim_token := Some tok,
       job_lease_generation := job_lease_generation row + 1,
       job_lease_expires_at := Some (lease_now + seconds CLAIM_DELIVERY_LEASE_SECONDS),
       job_claimed_at := Some lease_now, job_last_renewed_at := Some lease_now,
       job_attempts := job_attempts row + 1, job_updated_at := lease_now\<rparr>"

definition claim_next_job ::
  "txn \<Rightarrow> (string \<Rightarrow> bool) \<Rightarrow> string \<Rightarrow> string list \<Rightarrow> 'a jobs_db_scheme \<Rightarrow> build_job option \<times> 'a jobs_db_scheme" where
  "claim_next_job tx locked worker reclaimable db =
     (case first_row (select_ordered (\<lambda>j. job_claimable (tx_now tx) reclaimable j \<and> \<not> locked (job_id j)) claim_order 1 (jobs db)) of
        None \<Rightarrow> (None, db)
      | Some row \<Rightarrow>
          if rowcount (claim_where row) (jobs db) \<noteq> 1 then (None, db)
          else let db1 = db\<lparr>jobs := update_where (claim_where row) (claim_values worker (tx_ids tx 0) (tx_wall tx) row) (jobs db)\<rparr>
               in (get_row job_id (job_id row) (jobs db1), db1))"

definition exhausted_job :: "timestamp \<Rightarrow> build_job \<Rightarrow> bool" where
  "exhausted_job now j \<longleftrightarrow> job_is_active (job_status j) \<and> sql_le (job_lease_expires_at j) now \<and> job_attempts j \<ge> job_max_attempts j"

definition exhaust_error :: string where
  "exhaust_error = ''Build job lease expired after maximum attempts''"

text \<open>One exhausted job: the job fails, its run is orphaned if it was still in flight, and a scheduled
  run wakes the scheduler.\<close>

definition exhaust_one :: "settings \<Rightarrow> txn \<Rightarrow> string \<Rightarrow> nat \<times> build_job \<Rightarrow> 'a jobs_db_scheme \<Rightarrow> 'a jobs_db_scheme" where
  "exhaust_one cfg tx cur_ns p db =
     (case p of (i, row) \<Rightarrow>
       let schedule_id = (case get_row run_id (job_build_id row) (runs db) of None \<Rightarrow> None | Some r \<Rightarrow> run_schedule_id r);
           db1 = db\<lparr>jobs := update_where (\<lambda>j. job_id j = job_id row)
                      (\<lambda>j. (clear_lease j)\<lparr>job_status := BJ_FAILED, job_last_error := Some exhaust_error,
                                           job_updated_at := tx_now tx\<rparr>) (jobs db),
                    runs := update_where (\<lambda>r. run_id r = job_build_id row \<and> run_in_flight r)
                      (\<lambda>r. r\<lparr>run_status := BR_ORPHANED, run_error_message := Some exhaust_error,
                             run_completed_at := Some (tx_now tx), run_updated_at := tx_now tx\<rparr>) (runs db)\<rparr>
       in if schedule_id \<noteq> None then mark_schedule_pending cfg (tx_wakes tx i) (tx_stmt tx) cur_ns db1 else db1)"

definition stage_exhausted_jobs ::
  "settings \<Rightarrow> txn \<Rightarrow> (string \<Rightarrow> bool) \<Rightarrow> string \<Rightarrow> 'a jobs_db_scheme \<Rightarrow> string list \<times> 'a jobs_db_scheme" where
  "stage_exhausted_jobs cfg tx locked cur_ns db =
     (let rows = select_ordered (\<lambda>j. exhausted_job (tx_now tx) j \<and> \<not> locked (job_id j))
                   (\<lambda>j. (the (job_lease_expires_at j), job_id j)) RECONCILIATION_BATCH_SIZE (jobs db);
          db1 = fold (exhaust_one cfg tx cur_ns) (enumerate 0 rows) db
      in (map job_build_id rows,
          refresh_quiet cfg cur_ns K_BUILD build_work_pending build_work_due (tx_stmt tx) db1))"

definition live_claim :: "string \<Rightarrow> string \<Rightarrow> string \<Rightarrow> int \<Rightarrow> timestamp \<Rightarrow> build_job \<Rightarrow> bool" where
  "live_claim jid worker tok generation t j \<longleftrightarrow>
     job_id j = jid \<and> job_status j = BJ_RUNNING \<and> job_lease_owner j = Some worker \<and> job_claim_token j = Some tok \<and>
     job_lease_generation j = generation \<and> sql_gt (job_lease_expires_at j) t"

definition renew_job_lease ::
  "settings \<Rightarrow> txn \<Rightarrow> string \<Rightarrow> string \<Rightarrow> string \<Rightarrow> int \<Rightarrow> 'a jobs_db_scheme \<Rightarrow> build_job option \<times> 'a jobs_db_scheme" where
  "renew_job_lease cfg tx jid worker tok generation db =
     (let P = live_claim jid worker tok generation (tx_wall tx)
      in if rowcount P (jobs db) \<noteq> 1 then (None, db)
         else let db1 = db\<lparr>jobs := update_where P
                    (\<lambda>j. j\<lparr>job_lease_expires_at := Some (tx_wall tx + seconds (runtime_work_lease_ttl_seconds cfg)),
                           job_last_renewed_at := Some (tx_wall tx), job_updated_at := tx_wall tx\<rparr>) (jobs db)\<rparr>
              in (get_row job_id jid (jobs db1), db1))"

definition active_job_claim :: "txn \<Rightarrow> string \<Rightarrow> string \<Rightarrow> string \<Rightarrow> string \<Rightarrow> int \<Rightarrow> 'a jobs_db_scheme \<Rightarrow> build_job option" where
  "active_job_claim tx jid bid worker tok generation db =
     find (\<lambda>j. live_claim jid worker tok generation (tx_now tx) j \<and> job_build_id j = bid) (jobs db)"

definition finish_claimed_job ::
  "txn \<Rightarrow> string \<Rightarrow> string \<Rightarrow> string \<Rightarrow> string \<Rightarrow> int \<Rightarrow> build_job_status \<Rightarrow> string option \<Rightarrow> 'a jobs_db_scheme \<Rightarrow>
   (build_job option \<times> 'a jobs_db_scheme) result" where
  "finish_claimed_job tx jid worker bid tok generation status err db =
     (if \<not> job_is_terminal status then Inl (ValueError ''Unsupported claimed build job terminal status'')
      else let P = (\<lambda>j. live_claim jid worker tok generation (tx_now tx) j \<and> job_build_id j = bid)
           in if rowcount P (jobs db) \<noteq> 1 then Inr (None, db)
              else let db1 = db\<lparr>jobs := update_where P
                         (\<lambda>j. (clear_lease j)\<lparr>job_status := status, job_last_error := err, job_updated_at := tx_now tx\<rparr>)
                         (jobs db)\<rparr>
                   in Inr (get_row job_id jid (jobs db1), db1))"

definition stage_job_cancelled :: "txn \<Rightarrow> string \<Rightarrow> 'a jobs_db_scheme \<Rightarrow> (build_job \<times> 'a jobs_db_scheme) result" where
  "stage_job_cancelled tx jid db =
     (let P = (\<lambda>j. job_id j = jid \<and> (job_status j = BJ_QUEUED \<or> job_is_active (job_status j)));
          db1 = (if rowcount P (jobs db) = 1
                 then db\<lparr>jobs := update_where P
                      (\<lambda>j. (clear_lease j)\<lparr>job_status := BJ_CANCELLED, job_lease_generation := job_lease_generation j + 1,
                                           job_updated_at := tx_now tx\<rparr>) (jobs db)\<rparr>
                 else db)
      in case get_row job_id jid (jobs db1) of
           None \<Rightarrow> Inl (ValueError (''Build job '' @ jid @ '' not found''))
         | Some j \<Rightarrow> Inr (j, db1))"

end
