(* ===== verification/Build_Facts.thy ===== *)
theory Build_Facts
  imports Build_Jobs Outbox_Facts
begin

text \<open>
  Correctness of build runs and build jobs as one transition system: the event log of a run is
  gapless, a terminal run and a terminal job are final, superseded executions and lost claims are
  fenced off, and an exhausted job takes its run with it.
\<close>

subsection \<open>The transition system\<close>

inductive build_step :: "settings \<Rightarrow> 'a jobs_db_scheme \<Rightarrow> 'a jobs_db_scheme \<Rightarrow> bool" for cfg where
  bs_stage_run: "stage_build_run run ids db = Inr db' \<Longrightarrow> build_step cfg db db'"
| bs_mark: "mark_build_running cfg tx ns bid g now (\<lambda>d. d) db = Inr (x, db') \<Longrightarrow> build_step cfg db db'"
| bs_result: "stage_build_result_json bid res now db = Inr db' \<Longrightarrow> build_step cfg db db'"
| bs_event: "append_build_event cfg tx ns now bid e rc ex au db = Inr (x, db') \<Longrightarrow> build_step cfg db db'"
| bs_stage_event: "stage_build_event cfg tx ns now bid e rc ex au notif db = Inr (x, db') \<Longrightarrow> build_step cfg db db'"
| bs_stage_job: "1 \<le> m \<Longrightarrow> stage_job cfg tx bid ns m db = Inr (j, db') \<Longrightarrow> build_step cfg db db'"
| bs_claim: "claim_next_job tx locked w rec db = (j, db') \<Longrightarrow> build_step cfg db db'"
| bs_exhaust: "stage_exhausted_jobs cfg tx locked ns db = (bids, db') \<Longrightarrow> build_step cfg db db'"
| bs_renew: "renew_job_lease cfg tx jid w tok g db = (j, db') \<Longrightarrow> build_step cfg db db'"
| bs_finish: "finish_claimed_job tx jid w bid tok g st err db = Inr (j, db') \<Longrightarrow> build_step cfg db db'"
| bs_cancel: "stage_job_cancelled tx jid db = Inr (j, db') \<Longrightarrow> build_step cfg db db'"

subsection \<open>Frames\<close>

lemma build_frames [simp]:
  "runs (notify_on_commit p db) = runs db" "run_events (notify_on_commit p db) = run_events db"
  "runs (notify_dispatcher ns db) = runs db" "run_events (notify_dispatcher ns db) = run_events db"
  "runs (snd (append_wake c i n ns k db)) = runs db" "run_events (snd (append_wake c i n ns k db)) = run_events db"
  "runs (mark_schedule_pending c i n ns db) = runs db" "run_events (mark_schedule_pending c i n ns db) = run_events db"
  "runs (delete_wakes ns k ids db) = runs db" "run_events (delete_wakes ns k ids db) = run_events db"
  "runs (snd (publish_marker n ns k g pd d db)) = runs db" "run_events (snd (publish_marker n ns k g pd d db)) = run_events db"
  by (auto simp: notify_on_commit_def notify_dispatcher_def append_wake_def mark_schedule_pending_def delete_wakes_def
      publish_marker_def Let_def split: option.split)

lemma job_frames [simp]:
  "jobs (notify_on_commit p db) = jobs db" "jobs (notify_dispatcher ns db) = jobs db"
  "jobs (snd (append_wake c i n ns k db)) = jobs db" "jobs (mark_schedule_pending c i n ns db) = jobs db"
  "jobs (delete_wakes ns k ids db) = jobs db" "jobs (snd (publish_marker n ns k g pd d db)) = jobs db"
  by (auto simp: notify_on_commit_def notify_dispatcher_def append_wake_def mark_schedule_pending_def delete_wakes_def
      publish_marker_def Let_def split: option.split)

lemma refresh_frames [simp]:
  "runs (refresh_quiet c ns k pq dq now db) = runs db" "run_events (refresh_quiet c ns k pq dq now db) = run_events db"
  using refresh_quiet_cases [of c ns k pq dq now db] by auto

lemma refresh_jobs [simp]: "jobs (refresh_quiet c ns k pq dq now db) = jobs db"
  using refresh_quiet_cases [of c ns k pq dq now db] by auto

lemma enqueue_notification_frames:
  assumes "enqueue_api_build_notification c tx i cur ns bid seq db = Inr db'"
  shows "runs db' = runs db" "run_events db' = run_events db"
  using assms
  by (auto simp: enqueue_api_build_notification_def enqueue_runtime_event_def enqueue_event_def Let_def split: option.splits)

lemma enqueue_notification_jobs:
  "enqueue_api_build_notification c tx i cur ns bid seq db = Inr db' \<Longrightarrow> jobs db' = jobs db"
  by (auto simp: enqueue_api_build_notification_def enqueue_runtime_event_def enqueue_event_def Let_def split: option.splits)

lemma announce_frames:
  assumes "announce_event c tx cur ns bid seq tm notif sch db = Inr db'"
  shows "runs db' = runs db" "run_events db' = run_events db"
  using assms enqueue_notification_frames
  by (fastforce simp: announce_event_def Let_def split: option.splits sum.splits if_splits)+

lemma announce_jobs: "announce_event c tx cur ns bid seq tm notif sch db = Inr db' \<Longrightarrow> jobs db' = jobs db"
  by (auto simp: announce_event_def Let_def dest: enqueue_notification_jobs split: option.splits sum.splits if_splits)

subsection \<open>How a run row may move\<close>

definition run_move :: "build_run \<Rightarrow> build_run \<Rightarrow> bool" where
  "run_move r r' \<longleftrightarrow>
     run_id r' = run_id r \<and> run_schedule_id r' = run_schedule_id r \<and> run_created_at r' = run_created_at r \<and>
     run_version r \<le> run_version r' \<and> run_execution_generation r \<le> run_execution_generation r' \<and>
     run_next_event_sequence r \<le> run_next_event_sequence r' \<and>
     (run_is_terminal (run_status r) \<longrightarrow> run_status r' = run_status r \<and> run_error_message r' = run_error_message r \<and>
        run_completed_at r' = run_completed_at r \<and> run_execution_generation r' = run_execution_generation r) \<and>
     (run_version r' = run_version r \<and> run_in_flight r' \<longrightarrow> r' = r)"

lemma run_move_refl [simp]: "run_move r r"
  by (simp add: run_move_def)

lemma run_in_flight_iff: "run_in_flight r \<longleftrightarrow> \<not> run_is_terminal (run_status r)"
  by (cases "run_status r") (auto simp: run_in_flight_def run_is_terminal_def)

lemma run_move_trans: "run_move a b \<Longrightarrow> run_move b c \<Longrightarrow> run_move a c"
  unfolding run_move_def by (smt (verit) order_antisym order_trans)

lemma run_move_key: "run_move a b \<Longrightarrow> run_id b = run_id a"
  by (simp add: run_move_def)

lemma apply_event_context_frame [simp]:
  "run_id (apply_event_context e r) = run_id r" "run_version (apply_event_context e r) = run_version r"
  "run_status (apply_event_context e r) = run_status r" "run_execution_generation (apply_event_context e r) = run_execution_generation r"
  "run_next_event_sequence (apply_event_context e r) = run_next_event_sequence r"
  "run_namespace (apply_event_context e r) = run_namespace r" "run_schedule_id (apply_event_context e r) = run_schedule_id r"
  "run_created_at (apply_event_context e r) = run_created_at r"
  by (simp_all add: apply_event_context_def Let_def)

lemma apply_runtime_event_frame [simp]:
  "run_id (apply_runtime_event e r) = run_id r" "run_version (apply_runtime_event e r) = run_version r"
  "run_status (apply_runtime_event e r) = run_status r" "run_execution_generation (apply_runtime_event e r) = run_execution_generation r"
  "run_next_event_sequence (apply_runtime_event e r) = run_next_event_sequence r"
  "run_namespace (apply_runtime_event e r) = run_namespace r" "run_schedule_id (apply_runtime_event e r) = run_schedule_id r"
  "run_created_at (apply_runtime_event e r) = run_created_at r"
  by (simp_all add: apply_runtime_event_def apply_step_def split: build_event_body.split)

lemma apply_terminal_event_frame [simp]:
  "run_id (snd (apply_terminal_event e r)) = run_id r" "run_version (snd (apply_terminal_event e r)) = run_version r"
  "run_execution_generation (snd (apply_terminal_event e r)) = run_execution_generation r"
  "run_next_event_sequence (snd (apply_terminal_event e r)) = run_next_event_sequence r"
  "run_schedule_id (snd (apply_terminal_event e r)) = run_schedule_id r" "run_created_at (snd (apply_terminal_event e r)) = run_created_at r"
  by (simp_all add: apply_terminal_event_def apply_terminal_info_def split: build_event_body.split)

lemma project_event_facts:
  assumes "\<not> event_rejected e ex au r"
  shows "run_id (project_event e rc au r) = run_id r"
    and "run_next_event_sequence (project_event e rc au r) = run_next_event_sequence r"
    and "run_is_terminal (run_status r) \<Longrightarrow> project_event e rc au r = r"
    and "\<not> run_is_terminal (run_status r) \<Longrightarrow> run_version (project_event e rc au r) = run_version r + 1"
    and "run_execution_generation r \<le> run_execution_generation (project_event e rc au r)"
  using assms by (auto simp: project_event_def Let_def event_rejected_def split: option.split)

lemma project_event_origin [simp]:
  "run_schedule_id (project_event e rc au r) = run_schedule_id r" "run_created_at (project_event e rc au r) = run_created_at r"
  by (simp_all add: project_event_def Let_def split: option.split)

lemma project_event_move:
  assumes "\<not> event_rejected e ex au r"
  shows "run_move r ((project_event e rc au r)\<lparr>run_next_event_sequence := run_next_event_sequence r + 1\<rparr>)"
proof (cases "run_is_terminal (run_status r)")
  case True
  then show ?thesis using project_event_facts(3) [OF assms True] run_in_flight_iff by (auto simp: run_move_def run_in_flight_def)
next
  case False
  then show ?thesis using project_event_facts(1,2,5) [OF assms] project_event_facts(4) [OF assms False]
    by (simp add: run_move_def)
qed

subsection \<open>What the operations write\<close>

definition runs_inv :: "'a build_db_scheme \<Rightarrow> bool" where
  "runs_inv db \<longleftrightarrow> unique_by run_id (runs db)"

text \<open>The rows after an accepted event.\<close>

definition event_written :: "string \<Rightarrow> build_event \<Rightarrow> payload option \<Rightarrow> int option \<Rightarrow> build_run \<Rightarrow> build_event_row \<Rightarrow>
    'a build_db_scheme \<Rightarrow> 'a build_db_scheme \<Rightarrow> bool" where
  "event_written bid e rc au run row db db' \<longleftrightarrow>
     get_build_run bid db = Some run \<and> bev_build_id row = bid \<and> bev_sequence row = run_next_event_sequence run \<and>
     bev_payload row = e \<and> run_events db' = run_events db @ [row] \<and>
     runs db' = update_where (\<lambda>r. run_id r = bid)
        (\<lambda>_. (project_event e rc au run)\<lparr>run_next_event_sequence := run_next_event_sequence run + 1\<rparr>) (runs db)"

lemma stage_build_event_cases:
  assumes "stage_build_event cfg tx ns now bid e rc ex au notif db = Inr (x, db')"
  shows "(x = None \<and> db' = db) \<or>
    (\<exists>run row. x = Some row \<and> \<not> event_rejected e ex au run \<and> event_written bid e rc au run row db db')"
proof -
  obtain run where run: "get_build_run bid db = Some run"
    using assms by (auto simp: stage_build_event_def split: if_splits option.splits)
  show ?thesis
  proof (cases "event_rejected e ex au run")
    case True
    then show ?thesis using assms run by (auto simp: stage_build_event_def split: if_splits)
  next
    case False
    then show ?thesis using assms run announce_frames
      unfolding stage_build_event_def Let_def event_written_def
      by (fastforce split: if_splits sum.splits)
  qed
qed

lemma append_build_event_cases:
  assumes "append_build_event cfg tx ns now bid e rc ex au db = Inr (x, db')"
  shows "(x = None \<and> db' = db) \<or>
    (\<exists>run row. x = Some row \<and> \<not> event_rejected e ex au run \<and> event_written bid e rc au run row db db')"
proof (cases x)
  case None
  then show ?thesis using assms by (auto simp: append_build_event_def split: sum.splits option.splits if_splits)
next
  case (Some row)
  have "\<exists>notif db1. (notif = None \<and> db1 = db \<or> enqueue_api_build_notification cfg tx 0 ns ns bid 0 db = Inr db1) \<and>
     stage_build_event cfg tx ns now bid e rc ex au notif db1 = Inr (Some row, db')"
  proof (cases "terminal_status_for_event e")
    case None
    then have "stage_build_event cfg tx ns now bid e rc ex au None db = Inr (Some row, db')"
      using assms Some by (auto simp: append_build_event_def split: sum.splits option.splits)
    then show ?thesis by blast
  next
    case (Some st)
    then obtain db1 where "enqueue_api_build_notification cfg tx 0 ns ns bid 0 db = Inr db1"
        "stage_build_event cfg tx ns now bid e rc ex au (Some (tx_ids tx 0)) db1 = Inr (Some row, db')"
      using assms \<open>x = Some row\<close>
      by (cases "enqueue_api_build_notification cfg tx 0 ns ns bid 0 db")
        (auto simp: append_build_event_def split: sum.splits option.splits)
    then show ?thesis by blast
  qed
  then obtain notif db1 where
    en: "notif = None \<and> db1 = db \<or> enqueue_api_build_notification cfg tx 0 ns ns bid 0 db = Inr db1" and
    st: "stage_build_event cfg tx ns now bid e rc ex au notif db1 = Inr (Some row, db')" by blast
  have "runs db1 = runs db" "run_events db1 = run_events db" using en enqueue_notification_frames by auto
  then show ?thesis using stage_build_event_cases [OF st] Some by (auto simp: event_written_def get_build_run_def)
qed

lemma event_written_moves:
  assumes "event_written bid e rc au run row db db'" and "\<not> event_rejected e ex au run" and "runs_inv db"
  shows "rows_evolve run_move (runs db) (runs db')"
proof -
  have run: "get_row run_id bid (runs db) = Some run"
      and upd: "runs db' = update_where (\<lambda>r. run_id r = bid)
        (\<lambda>_. (project_event e rc au run)\<lparr>run_next_event_sequence := run_next_event_sequence run + 1\<rparr>) (runs db)"
    using assms(1) by (auto simp: event_written_def get_build_run_def)
  have "r = run" if "r \<in> set (runs db)" "run_id r = bid" for r
    using that run assms(3) get_row_unique [of run_id "runs db" r] by (simp add: runs_inv_def)
  then show ?thesis unfolding upd using project_event_move [OF assms(2)]
    by (intro rows_evolve_update) auto
qed

lemma cas_update_cases:
  assumes "cas_update_build_run cfg tx ns run vals st nt db = Inr (x, db')"
  shows "db' = db \<or> (run_events db' = run_events db \<and> runs db' = update_where (cas_where run st) vals (runs db) \<and>
     rowcount (cas_where run st) (runs db) = 1)"
proof -
  obtain db1 where en: "nt \<and> enqueue_api_build_notification cfg tx 0 ns (run_namespace run) (run_id run)
       (max (run_next_event_sequence run - 1) 0) db = Inr db1 \<or> db1 = db"
    and db': "db' = (if rowcount (cas_where run st) (runs db1) = 1
       then db1\<lparr>runs := update_where (cas_where run st) vals (runs db1)\<rparr> else db)"
    using assms by (cases nt) (auto simp: cas_update_build_run_def Let_def split: sum.splits)
  have "runs db1 = runs db" "run_events db1 = run_events db" using en enqueue_notification_frames by auto
  then show ?thesis using db' by auto
qed

lemma mark_build_running_cases:
  assumes "mark_build_running cfg tx ns bid g now env db = Inr (x, db')"
  shows "db' = db \<or> (\<exists>run. get_build_run bid db = Some run \<and> run_in_flight run \<and> run_execution_generation run \<le> g \<and>
     (db' = env db \<or> (run_events db' = run_events (env db) \<and> rowcount (cas_where run (run_status run)) (runs (env db)) = 1 \<and>
        runs db' = update_where (cas_where run (run_status run))
          (\<lambda>r. r\<lparr>run_status := BR_RUNNING, run_execution_generation := g, run_updated_at := now, run_version := run_version run + 1\<rparr>)
          (runs (env db)))))"
  using assms
  by (auto simp: mark_build_running_def split: option.splits if_splits dest!: cas_update_cases)

lemma mark_build_running_moves:
  assumes "mark_build_running cfg tx ns bid g now (\<lambda>d. d) db = Inr (x, db')" and "runs_inv db"
  shows "rows_evolve run_move (runs db) (runs db') \<and> run_events db' = run_events db"
proof -
  consider "db' = db" | run where "get_build_run bid db = Some run" "run_in_flight run" "run_execution_generation run \<le> g"
      "run_events db' = run_events db" "runs db' = update_where (cas_where run (run_status run))
          (\<lambda>r. r\<lparr>run_status := BR_RUNNING, run_execution_generation := g, run_updated_at := now, run_version := run_version run + 1\<rparr>) (runs db)"
    using mark_build_running_cases [OF assms(1)] by blast
  then show ?thesis
  proof cases
    case 2
    have "r = run" if "r \<in> set (runs db)" "cas_where run (run_status run) r" for r
      using that 2(1) assms(2) get_row_SomeD [of run_id bid "runs db" run] unique_by_eq [of run_id "runs db" r run]
      by (auto simp: get_build_run_def runs_inv_def cas_where_def)
    then have "rows_evolve run_move (runs db) (runs db')"
      unfolding 2(5) using 2(2,3) by (intro rows_evolve_update) (fastforce simp: run_move_def run_in_flight_iff)+
    then show ?thesis using 2(4) by blast
  qed simp
qed

lemma exhaust_one_runs:
  "rows_evolve run_move (runs db) (runs (exhaust_one cfg tx ns p db)) \<and> run_events (exhaust_one cfg tx ns p db) = run_events db"
proof -
  obtain i row where p: "p = (i, row)" by (cases p)
  have "runs (exhaust_one cfg tx ns p db) = update_where (\<lambda>r. run_id r = job_build_id row \<and> run_in_flight r)
      (\<lambda>r. r\<lparr>run_status := BR_ORPHANED, run_error_message := Some exhaust_error, run_completed_at := Some (tx_now tx),
             run_updated_at := tx_now tx\<rparr>) (runs db)"
    by (simp add: p exhaust_one_def Let_def)
  moreover have "rows_evolve run_move (runs db) \<dots>"
    by (rule rows_evolve_update) (auto simp: run_move_def run_in_flight_def run_is_terminal_def)
  ultimately show ?thesis by (simp add: p exhaust_one_def Let_def)
qed

lemma exhaust_fold_runs:
  "rows_evolve run_move (runs db) (runs (fold (exhaust_one cfg tx ns) ps db)) \<and>
   run_events (fold (exhaust_one cfg tx ns) ps db) = run_events db"
proof (induction ps arbitrary: db)
  case (Cons p ps)
  have "rows_evolve run_move (runs db) (runs (fold (exhaust_one cfg tx ns) ps (exhaust_one cfg tx ns p db)))"
    by (rule rows_evolve_trans [OF run_move_trans _ conjunct1 [OF Cons.IH]]) (auto simp: exhaust_one_runs)
  then show ?case using Cons.IH exhaust_one_runs by (metis fold_simps(2))
qed simp

lemma exhausted_runs:
  assumes "stage_exhausted_jobs cfg tx locked ns db = (bids, db')"
  shows "rows_evolve run_move (runs db) (runs db') \<and> run_events db' = run_events db"
  using assms by (auto simp: stage_exhausted_jobs_def Let_def exhaust_fold_runs)

lemma job_ops_runs:
  "stage_job cfg tx bid ns m db = Inr (j, db') \<Longrightarrow> runs db' = runs db \<and> run_events db' = run_events db"
  "claim_next_job tx locked w rec db = (j', db') \<Longrightarrow> runs db' = runs db \<and> run_events db' = run_events db"
  "renew_job_lease cfg tx jid w tok g db = (j', db') \<Longrightarrow> runs db' = runs db \<and> run_events db' = run_events db"
  "finish_claimed_job tx jid w bid tok g st err db = Inr (j', db') \<Longrightarrow> runs db' = runs db \<and> run_events db' = run_events db"
  "stage_job_cancelled tx jid db = Inr (j, db') \<Longrightarrow> runs db' = runs db \<and> run_events db' = run_events db"
  by (auto simp: stage_job_def claim_next_job_def renew_job_lease_def finish_claimed_job_def stage_job_cancelled_def Let_def
      split: if_splits option.splits)

lemma rows_evolve_unique:
  assumes "rows_evolve run_move rs ts" and "length ts = length rs"
  shows "unique_by run_id ts = unique_by run_id rs"
proof -
  obtain ys xs where t: "ts = ys @ xs" "list_all2 run_move rs ys" using assms(1) by (auto simp: rows_evolve_def)
  then have "xs = []" using assms(2) list_all2_lengthD by fastforce
  then show ?thesis using unique_rel [OF t(2) run_move_key] t(1) by simp
qed

lemma exhaust_fold_length: "length (runs (fold (exhaust_one cfg tx ns) ps db)) = length (runs db)"
proof (induction ps arbitrary: db)
  case (Cons p ps)
  have "length (runs (exhaust_one cfg tx ns p db)) = length (runs db)"
    by (cases p) (simp add: exhaust_one_def Let_def update_where_def)
  then show ?case using Cons by simp
qed simp

text \<open>Every step moves the run rows and keeps their IDs unique.\<close>

lemma build_step_runs:
  assumes "build_step cfg db db'" and "runs_inv db"
  shows "rows_evolve run_move (runs db) (runs db') \<and> runs_inv db'"
  using assms
proof (induction rule: build_step.induct)
  case (bs_stage_run run ids db db')
  then show ?case
    by (auto simp: stage_build_run_def runs_inv_def unique_append1 rows_evolve_append split: if_splits)
next
  case (bs_mark tx ns bid g now db x db')
  then have e: "rows_evolve run_move (runs db) (runs db')" using mark_build_running_moves by blast
  moreover have "length (runs db') = length (runs db)"
    using mark_build_running_cases [OF bs_mark.hyps] by (auto simp: update_where_def)
  ultimately show ?case using bs_mark.prems rows_evolve_unique by (auto simp: runs_inv_def)
next
  case (bs_result bid res now db db')
  then have "runs db' = update_where (\<lambda>r. run_id r = bid)
      (\<lambda>r. r\<lparr>run_result_json := res, run_updated_at := now, run_version := run_version r + 1\<rparr>) (runs db)"
    by (auto simp: stage_build_result_json_def split: option.splits)
  then show ?case using bs_result.prems
    by (auto simp: runs_inv_def unique_update run_move_def intro!: rows_evolve_update)
next
  case (bs_event tx ns now bid e rc ex au db x db')
  from append_build_event_cases [OF bs_event.hyps] show ?case
  proof (elim disjE exE conjE)
    fix run row assume w: "\<not> event_rejected e ex au run" "event_written bid e rc au run row db db'"
    have "rows_evolve run_move (runs db) (runs db')" by (rule event_written_moves [OF w(2,1) bs_event.prems])
    moreover have "length (runs db') = length (runs db)" using w(2) by (simp add: event_written_def update_where_def)
    ultimately show ?thesis using bs_event.prems rows_evolve_unique by (auto simp: runs_inv_def)
  qed (use bs_event.prems in simp)
next
  case (bs_stage_event tx ns now bid e rc ex au notif db x db')
  from stage_build_event_cases [OF bs_stage_event.hyps] show ?case
  proof (elim disjE exE conjE)
    fix run row assume w: "\<not> event_rejected e ex au run" "event_written bid e rc au run row db db'"
    have "rows_evolve run_move (runs db) (runs db')" by (rule event_written_moves [OF w(2,1) bs_stage_event.prems])
    moreover have "length (runs db') = length (runs db)" using w(2) by (simp add: event_written_def update_where_def)
    ultimately show ?thesis using bs_stage_event.prems rows_evolve_unique by (auto simp: runs_inv_def)
  qed (use bs_stage_event.prems in simp)
next
  case (bs_exhaust tx locked ns db bids db')
  have "length (runs db') = length (runs db)"
    using bs_exhaust.hyps by (auto simp: stage_exhausted_jobs_def Let_def exhaust_fold_length)
  then show ?case using exhausted_runs [OF bs_exhaust.hyps] bs_exhaust.prems rows_evolve_unique by (auto simp: runs_inv_def)
qed (auto simp: runs_inv_def dest: job_ops_runs)

interpretation build_runs: preserved "build_step cfg" "\<lambda>db. runs_inv db"
  by unfold_locales (auto dest: build_step_runs)

lemma build_run_moves: "(build_step cfg)\<^sup>*\<^sup>* db db' \<Longrightarrow> runs_inv db \<Longrightarrow> rows_evolve run_move (runs db) (runs db')"
proof (induction rule: rtranclp_induct)
  case (step s t)
  then have "runs_inv s" using build_runs.run_inv by blast
  then have "rows_evolve run_move (runs s) (runs t)" using step.hyps build_step_runs by blast
  with step.IH [OF step.prems] show ?case by (rule rows_evolve_trans [rotated]) (rule run_move_trans)
qed simp

lemma build_run_kept:
  "(build_step cfg)\<^sup>*\<^sup>* db db' \<Longrightarrow> runs_inv db \<Longrightarrow> get_build_run bid db = Some r \<Longrightarrow>
   \<exists>r'. get_build_run bid db' = Some r' \<and> run_move r r'"
  unfolding get_build_run_def by (rule rows_evolve_kept [OF build_run_moves run_move_key])

subsection \<open>The event log\<close>

definition log_of :: "string \<Rightarrow> 'a build_db_scheme \<Rightarrow> int list" where
  "log_of bid db = map bev_sequence (filter (\<lambda>e. bev_build_id e = bid) (run_events db))"

definition log_expected :: "string \<Rightarrow> 'a build_db_scheme \<Rightarrow> int list" where
  "log_expected bid db =
     (case map_option run_next_event_sequence (get_build_run bid db) of None \<Rightarrow> [] | Some n \<Rightarrow> [1..n - 1])"

definition log_inv :: "'a build_db_scheme \<Rightarrow> bool" where
  "log_inv db \<longleftrightarrow> runs_inv db \<and> (\<forall>bid. log_of bid db = log_expected bid db) \<and>
     (\<forall>r \<in> set (runs db). 1 \<le> run_next_event_sequence r)"

abbreviation sequences :: "build_run list \<Rightarrow> (string \<times> int) list" where
  "sequences rs \<equiv> map (\<lambda>r. (run_id r, run_next_event_sequence r)) rs"

lemma log_inv_frame:
  assumes "sequences (runs db') = sequences (runs db)" and "run_events db' = run_events db" and "log_inv db" and "runs_inv db'"
  shows "log_inv db'"
proof -
  have "log_expected bid db' = log_expected bid db" "log_of bid db' = log_of bid db" for bid
    using get_row_map_eq [OF assms(1), of bid] assms(2) by (simp_all add: log_expected_def get_build_run_def log_of_def)
  moreover have "run_next_event_sequence ` set (runs db') = run_next_event_sequence ` set (runs db)"
    using arg_cong [OF assms(1), of "map snd"] by (metis (no_types, lifting) list.map_comp list.set_map map_eq_conv o_apply snd_conv)
  ultimately show ?thesis using assms(3,4) unfolding log_inv_def by (metis (no_types, lifting) image_iff)
qed

lemma exhaust_fold_sequences: "sequences (runs (fold (exhaust_one cfg tx ns) ps db)) = sequences (runs db)"
proof (induction ps arbitrary: db)
  case (Cons p ps)
  have "sequences (runs (exhaust_one cfg tx ns p db)) = sequences (runs db)"
    by (cases p) (simp add: exhaust_one_def Let_def map_update_where_frame)
  then show ?case using Cons by simp
qed simp

lemma event_written_log:
  assumes w: "event_written bid e rc au run row db db'" and "\<not> event_rejected e ex au run" and inv: "log_inv db" and "runs_inv db'"
  shows "log_inv db'"
proof -
  let ?run' = "(project_event e rc au run)\<lparr>run_next_event_sequence := run_next_event_sequence run + 1\<rparr>"
  have run: "get_row run_id bid (runs db) = Some run" and row: "bev_build_id row = bid" "bev_sequence row = run_next_event_sequence run"
      and ev: "run_events db' = run_events db @ [row]"
      and upd: "runs db' = update_where (\<lambda>r. run_id r = bid) (\<lambda>_. ?run') (runs db)"
    using w by (auto simp: event_written_def get_build_run_def)
  have id: "run_id run = bid" "run \<in> set (runs db)" using get_row_SomeD [OF run] by auto
  have pid: "run_id ?run' = bid" using project_event_facts(1) [OF assms(2)] id by simp
  have "run \<in> set (runs db)" by (rule id)
  then have n: "1 \<le> run_next_event_sequence run" using inv by (simp add: log_inv_def)
  have get: "get_row run_id k (runs db') = (if k = bid then Some ?run' else get_row run_id k (runs db))" for k
    unfolding upd using run get_row_replace [where key = run_id and v = ?run' and ?k0.0 = bid, OF pid] by simp
  have "log_of k db' = log_expected k db'" for k
  proof (cases "k = bid")
    case True
    have "log_of bid db = [1..run_next_event_sequence run - 1]"
      using inv run by (simp add: log_inv_def log_expected_def get_build_run_def)
    then have "log_of bid db' = [1..run_next_event_sequence run - 1] @ [run_next_event_sequence run]"
      using row ev by (simp add: log_of_def)
    also have "\<dots> = [1..run_next_event_sequence run]" using n by (simp add: upto_rec2 [of 1 "run_next_event_sequence run"])
    finally show ?thesis using True get by (simp add: log_expected_def get_build_run_def)
  next
    case False
    then show ?thesis using inv get row ev by (simp add: log_inv_def log_expected_def get_build_run_def log_of_def)
  qed
  moreover have "\<forall>r \<in> set (runs db'). 1 \<le> run_next_event_sequence r"
    using inv n unfolding upd by (auto simp: set_update_where log_inv_def)
  ultimately show ?thesis using assms(4) by (simp add: log_inv_def)
qed

lemma build_step_log:
  assumes st: "build_step cfg db db'" and inv: "log_inv db"
  shows "log_inv db'"
proof -
  have r: "runs_inv db" using inv by (simp add: log_inv_def)
  have r': "runs_inv db'" using build_step_runs [OF st r] by blast
  note frame = log_inv_frame [OF _ _ inv r']
  from st show ?thesis
  proof cases
    case (bs_stage_run run ids)
    then have new: "get_row run_id (run_id run) (runs db) = None"
      and ev: "run_events db' = run_events db" and "\<exists>x. runs db' = runs db @ [x] \<and> run_id x = run_id run \<and> run_next_event_sequence x = 1"
      by (auto simp: stage_build_run_def split: if_splits)
    then obtain x where x: "runs db' = runs db @ [x]" "run_id x = run_id run" "run_next_event_sequence x = 1" by blast
    have "log_of k db' = log_expected k db'" for k
    proof (cases "k = run_id run")
      case True
      then have "log_of k db = []" using inv new by (simp add: log_inv_def log_expected_def get_build_run_def)
      then show ?thesis using True x new ev by (simp add: log_of_def log_expected_def get_build_run_def table_simps)
    next
      case False
      then show ?thesis using inv x ev
        by (auto simp: log_inv_def log_of_def log_expected_def get_build_run_def table_simps split: option.split)
    qed
    then show ?thesis using inv r' x by (auto simp: log_inv_def)
  next
    case (bs_mark tx ns bid g now x)
    have "sequences (runs db') = sequences (runs db)"
      using mark_build_running_cases [OF bs_mark] by (auto simp: map_update_where_frame)
    then show ?thesis using mark_build_running_moves [OF bs_mark r] frame by blast
  next
    case (bs_result bid res now)
    then show ?thesis by (intro frame) (auto simp: stage_build_result_json_def map_update_where_frame split: option.splits)
  next
    case (bs_event tx ns now bid e rc ex au x)
    then show ?thesis using append_build_event_cases event_written_log inv r' by metis
  next
    case (bs_stage_event tx ns now bid e rc ex au notif x)
    then show ?thesis using stage_build_event_cases event_written_log inv r' by metis
  next
    case (bs_exhaust tx locked ns bids)
    then show ?thesis using exhausted_runs [OF bs_exhaust]
      by (intro frame) (auto simp: stage_exhausted_jobs_def Let_def exhaust_fold_sequences)
  qed (auto intro!: frame dest: job_ops_runs)
qed

interpretation build_log: preserved "build_step cfg" log_inv
  by unfold_locales (rule build_step_log)

lemma notification_enqueued:
  "\<exists>db'. enqueue_api_build_notification cfg tx i cur ns bid seq db = Inr db' \<and> runs db' = runs db"
proof -
  have "\<exists>db'. enqueue_api_build_notification cfg tx i cur ns bid seq db = Inr db'"
    by (simp add: enqueue_api_build_notification_def enqueue_runtime_event_def payload_kind_def RUNTIME_PAYLOAD_KINDS_def)
  then show ?thesis using enqueue_notification_frames by blast
qed

lemma append_rejected:
  fixes db :: "'a build_db_scheme"
  assumes "get_build_run bid db = Some run" and "event_rejected e ex au run" and "\<not> (ex \<noteq> None \<and> au \<noteq> None)"
  shows "append_build_event cfg tx ns now bid e rc ex au db = Inr (None, db)"
proof -
  obtain db1 where en: "enqueue_api_build_notification cfg tx 0 ns ns bid 0 db = Inr db1" "runs db1 = runs db"
    using notification_enqueued by blast
  have "stage_build_event cfg tx ns now bid e rc ex au notif d = Inr (None, d)" if "runs d = runs db"
    for notif and d :: "'a build_db_scheme"
    using assms that by (auto simp: stage_build_event_def get_build_run_def)
  then show ?thesis using en by (auto simp: append_build_event_def)
qed

subsection \<open>Properties of build runs\<close>

lemma log_after:
  assumes "log_inv db" and "get_build_run bid db = Some r" and "0 \<le> n"
  shows "map bev_sequence (list_build_events_after bid n db) = [n + 1..run_next_event_sequence r - 1]"
proof -
  let ?es = "filter (\<lambda>e. bev_build_id e = bid \<and> bev_sequence e > n) (run_events db)"
  have "map bev_sequence ?es = filter (\<lambda>i. i > n) (log_of bid db)"
    by (simp add: log_of_def filter_map comp_def conj_commute)
  also have "\<dots> = filter (\<lambda>i. i > n) [1..run_next_event_sequence r - 1]"
    using assms(1,2) by (simp add: log_inv_def log_expected_def)
  also have "\<dots> = [n + 1..run_next_event_sequence r - 1]"
  proof (cases "n + 1 \<le> run_next_event_sequence r - 1")
    case True
    then have "[1..run_next_event_sequence r - 1] = [1..n] @ [n + 1..run_next_event_sequence r - 1]"
      using assms(3) upto_split1 [of 1 "n + 1" "run_next_event_sequence r - 1"] by auto
    then show ?thesis by (simp add: filter_empty_conv filter_id_conv)
  next
    case False
    then show ?thesis by (auto simp: filter_empty_conv)
  qed
  finally have m: "map bev_sequence ?es = [n + 1..run_next_event_sequence r - 1]" .
  then have "sort_key bev_sequence ?es = ?es" by (intro sort_key_id_if_sorted) simp
  then show ?thesis using m by (simp add: list_build_events_after_def)
qed

text \<open>A queued scheduled run, and events for it.\<close>

definition example_run :: build_run where
  "example_run = \<lparr>run_id = ''b1'', run_namespace = ''n'', run_schedule_id = Some ''s1'', run_analysis_id = ''a1'',
     run_analysis_name = ''A'', run_status = BR_QUEUED, run_request_json = [], run_starter_json = [],
     run_resource_config_json = None, run_result_json = None, run_current_compute_worker_run_id = None,
     run_current_kind = None, run_current_datasource_id = None, run_current_tab_id = None, run_current_tab_name = None,
     run_current_output_id = None, run_current_output_name = None, run_progress = 0, run_elapsed_ms = 0,
     run_estimated_remaining_ms = None, run_current_step = None, run_current_step_index = None, run_total_steps = 0,
     run_total_tabs = 1, run_duration_ms = None, run_error_message = None, run_cancelled_at = None, run_cancelled_by = None,
     run_created_at = 1, run_started_at = 1, run_completed_at = None, run_updated_at = 1, run_version = 1,
     run_execution_generation = 0, run_next_event_sequence = 1\<rparr>"

definition empty_builds :: jobs_db where
  "empty_builds = \<lparr>ipc_sent = [], work_rows = [], wake_rows = [], events = [], receipts = [], part_receipts = [],
     runs = [], run_events = [], run_datasources = [], jobs = []\<rparr>"

definition queued_builds :: jobs_db where
  "queued_builds = projr (stage_build_run example_run [''d2'', ''d1'', ''d2''] empty_builds)"

definition example_event :: "build_event_body \<Rightarrow> build_event" where
  "example_event b = \<lparr>be_build_id = ''b1'', be_analysis_id = ''a1'', be_emitted_at = 9, be_current_kind = None,
     be_current_datasource_id = None, be_tab_id = None, be_tab_name = None, be_current_output_id = None,
     be_current_output_name = None, be_compute_worker_run_id = None, be_body = b\<rparr>"

definition example_end :: terminal_info where
  "example_end = \<lparr>ti_progress = 1, ti_elapsed_ms = 8, ti_total_steps = 1, ti_tabs_built = 1, ti_results = [], ti_duration_ms = 8\<rparr>"

definition done_builds :: jobs_db where
  "done_builds = snd (projr (append_build_event example_settings (example_txn 9 ''x'') ''n'' 9 ''b1''
     (example_event (BuildCompleteEvent example_end)) None None None queued_builds))"

lemmas build_example_defs = example_run_def empty_builds_def queued_builds_def stage_build_run_def example_event_def
  example_end_def append_build_event_def stage_build_event_def terminal_status_for_event_def get_build_run_def
  enqueue_api_build_notification_def enqueue_runtime_event_def payload_kind_def RUNTIME_PAYLOAD_KINDS_def
  enqueue_event_def new_event_def append_wake_def notify_dispatcher_def notify_on_commit_def event_rejected_def
  run_is_terminal_def notification_mismatch_def project_event_def apply_event_context_def apply_runtime_event_def
  apply_terminal_event_def apply_terminal_info_def announce_event_def update_where_def merge_obj_def event_type_def
  mark_schedule_pending_def example_txn_def example_settings_def Let_def

lemma queued_builds_step: "build_step cfg empty_builds queued_builds"
proof (rule bs_stage_run)
  show "stage_build_run example_run [''d2'', ''d1'', ''d2''] empty_builds = Inr queued_builds"
    unfolding queued_builds_def by (simp add: stage_build_run_def empty_builds_def table_simps)
qed

lemma done_builds_step: "build_step example_settings queued_builds done_builds"
proof (rule bs_event)
  show "append_build_event example_settings (example_txn 9 ''x'') ''n'' 9 ''b1''
     (example_event (BuildCompleteEvent example_end)) None None None queued_builds =
     Inr (Some \<lparr>bev_id = ''x'', bev_build_id = ''b1'', bev_namespace = ''n'', bev_sequence = 1, bev_type = ''complete'',
       bev_payload = example_event (BuildCompleteEvent example_end), bev_compute_worker_run_id = None, bev_emitted_at = 9,
       bev_created_at = 9\<rparr>, done_builds)"
    unfolding done_builds_def by (simp add: build_example_defs table_simps)
qed

lemma done_builds_run: "\<exists>r. get_build_run ''b1'' done_builds = Some r \<and> run_status r = BR_COMPLETED \<and> run_next_event_sequence r = 2"
  by (simp add: done_builds_def build_example_defs table_simps)

lemma empty_builds_log: "log_inv empty_builds"
  by (simp add: log_inv_def runs_inv_def unique_by_def log_of_def log_expected_def get_build_run_def empty_builds_def table_simps)

lemma builds_reach: "(build_step example_settings)\<^sup>*\<^sup>* empty_builds done_builds"
  using queued_builds_step done_builds_step by (meson converse_rtranclp_into_rtranclp r_into_rtranclp)

lemma done_builds_inv: "runs_inv done_builds" "log_inv done_builds"
  using build_log.run_inv [OF builds_reach empty_builds_log] by (simp_all add: log_inv_def)

text \<open>The event log of a build is gapless. After any build and job transactions, asking for the
  events after a sequence number returns exactly the consecutive sequence numbers up to the latest
  one, in order and without duplicates, so a reader that polls with its last sequence misses nothing.\<close>

theorem build_events_gapless:
  assumes "log_inv s" and "(build_step cfg)\<^sup>*\<^sup>* s t" and "get_build_run bid t = Some r" and "0 \<le> n"
  shows "map bev_sequence (list_build_events_after bid n t) = [n + 1..get_latest_sequence bid t]"
proof -
  have inv: "log_inv t" using build_log.run_inv assms(1,2) by blast
  have "r \<in> set (runs t)" using assms(3) get_row_SomeD by (fastforce simp: get_build_run_def)
  then have "get_latest_sequence bid t = run_next_event_sequence r - 1"
    using inv assms(3) by (auto simp: get_latest_sequence_def log_inv_def)
  then show ?thesis using log_after [OF inv assms(3,4)] by simp
qed

theorem build_events_gapless_witness:
  "map bev_sequence (list_build_events_after ''b1'' 0 done_builds) = [1..get_latest_sequence ''b1'' done_builds] \<and>
   get_latest_sequence ''b1'' done_builds = 1"
proof -
  obtain r where r: "get_build_run ''b1'' done_builds = Some r" "run_next_event_sequence r = 2" using done_builds_run by blast
  then show ?thesis using build_events_gapless [OF empty_builds_log builds_reach r(1), of 0]
    by (simp add: get_latest_sequence_def)
qed

text \<open>A terminal build run is final. Whatever transactions follow, its status, error and
  completion time stay, and an event that would mean another outcome is rejected with nothing
  written.\<close>

theorem terminal_build_run_final:
  assumes inv: "runs_inv s" and run: "get_build_run bid s = Some r" and tm: "run_is_terminal (run_status r)"
    and steps: "(build_step cfg)\<^sup>*\<^sup>* s t" and other: "terminal_status_for_event e \<noteq> Some (run_status r)"
  shows "(\<exists>r'. get_build_run bid t = Some r' \<and> run_status r' = run_status r \<and> run_error_message r' = run_error_message r \<and>
            run_completed_at r' = run_completed_at r) \<and>
         append_build_event cfg tx ns now bid e rc ex None t = Inr (None, t)"
proof -
  obtain r' where r': "get_build_run bid t = Some r'" "run_move r r'" using build_run_kept [OF steps inv run] by blast
  then have same: "run_status r' = run_status r" "run_error_message r' = run_error_message r" "run_completed_at r' = run_completed_at r"
    using tm by (auto simp: run_move_def)
  then have rej: "event_rejected e ex None r'" using tm other by (simp add: event_rejected_def)
  have "append_build_event cfg tx ns now bid e rc ex None t = Inr (None, t)"
    by (rule append_rejected [OF r'(1) rej]) simp
  then show ?thesis using r'(1) same by blast
qed

theorem terminal_build_run_final_witness:
  "append_build_event example_settings (example_txn 11 ''y'') ''n'' 11 ''b1''
     (example_event (BuildFailedEvent example_end (Some ''late''))) None None None done_builds = Inr (None, done_builds)"
proof -
  obtain r where r: "get_build_run ''b1'' done_builds = Some r" "run_status r = BR_COMPLETED" using done_builds_run by blast
  show ?thesis
    by (rule conjunct2 [OF terminal_build_run_final [OF done_builds_inv(1) r(1) _ rtranclp.rtrancl_refl]])
      (simp_all add: r(2) run_is_terminal_def terminal_status_for_event_def example_event_def)
qed

text \<open>C10: superseded executions are fenced. Once a run's execution generation is above a worker's, then
  after any transactions the worker's events are rejected, nothing is written for them, and its
  attempt to mark the run running leaves the database as it is.\<close>

theorem superseded_execution_fenced:
  assumes inv: "runs_inv s" and run: "get_build_run bid s = Some r" and old: "g < run_execution_generation r"
    and steps: "(build_step cfg)\<^sup>*\<^sup>* s t"
  shows "append_build_event cfg tx ns now bid e rc (Some g) None t = Inr (None, t) \<and>
         (\<exists>x. mark_build_running cfg tx ns bid g now env t = Inr (x, t))"
proof -
  obtain r' where r': "get_build_run bid t = Some r'" "run_move r r'" using build_run_kept [OF steps inv run] by blast
  then have gen: "g < run_execution_generation r'" using old by (auto simp: run_move_def)
  then have "append_build_event cfg tx ns now bid e rc (Some g) None t = Inr (None, t)"
    by (intro append_rejected [OF r'(1)]) (auto simp: event_rejected_def)
  moreover have "\<exists>x. mark_build_running cfg tx ns bid g now env t = Inr (x, t)"
    using gen r'(1) by (simp add: mark_build_running_def)
  ultimately show ?thesis by blast
qed

definition running_builds :: jobs_db where
  "running_builds = snd (projr (mark_build_running example_settings (example_txn 5 ''m'') ''n'' ''b1'' 4 5 (\<lambda>d. d) queued_builds))"

lemma running_builds_run: "\<exists>r. get_build_run ''b1'' running_builds = Some r \<and> run_execution_generation r = 4"
  by (simp add: running_builds_def mark_build_running_def cas_update_build_run_def run_in_flight_def cas_where_def
      rowcount_def build_example_defs table_simps)

lemma running_builds_inv: "runs_inv running_builds"
  by (simp add: runs_inv_def unique_by_def running_builds_def mark_build_running_def cas_update_build_run_def run_in_flight_def
      cas_where_def rowcount_def build_example_defs table_simps)

theorem superseded_execution_fenced_witness:
  "append_build_event example_settings (example_txn 11 ''y'') ''n'' 11 ''b1''
     (example_event (BuildLogEvent ''info'' ''late'' None None)) None (Some 3) None running_builds = Inr (None, running_builds)"
proof -
  obtain r where r: "get_build_run ''b1'' running_builds = Some r" "run_execution_generation r = 4" using running_builds_run by blast
  show ?thesis
    by (rule conjunct1 [OF superseded_execution_fenced [OF running_builds_inv r(1) _ rtranclp.rtrancl_refl]]) (simp add: r(2))
qed

lemma project_terminal_status:
  "run_in_flight r \<Longrightarrow> terminal_status_for_event e = Some st \<Longrightarrow> run_status (project_event e rc None r) = st"
  by (auto simp: project_event_def run_in_flight_iff Let_def apply_terminal_event_def apply_terminal_info_def
      terminal_status_for_event_def split: build_event_body.splits)

text \<open>A terminal event and its notification are atomic. Accepting a terminal event of the current
  execution records it with the next sequence number, gives the run its final status, enqueues exactly
  one outbox event carrying that sequence number, and wakes the scheduler of a scheduled run.\<close>

theorem terminal_event_atomic:
  assumes inv: "runs_inv db" and run: "get_build_run bid db = Some r" and live: "run_in_flight r"
    and gen: "ex = None \<or> ex = Some (run_execution_generation r)" and ns: "run_namespace r = ns"
    and fresh: "get_row ev_id (tx_ids tx 0) (events db) = None" and st: "terminal_status_for_event e = Some st"
    and dist: "distributed_runtime_enabled cfg" "ns \<noteq> []"
  shows "\<exists>row ev db'. append_build_event cfg tx ns now bid e rc ex None db = Inr (Some row, db') \<and>
    bev_sequence row = run_next_event_sequence r \<and> run_events db' = run_events db @ [row] \<and>
    map_option run_status (get_build_run bid db') = Some st \<and>
    events db' = events db @ [ev] \<and> ev_status ev = OB_PENDING \<and>
    map_of (ev_payload_json ev) ''latest_sequence'' = Some (JInt (run_next_event_sequence r)) \<and>
    (run_schedule_id r = None \<or> namespace_listed ns K_SCHEDULE t db')"
proof -
  have uniq: "unique_by run_id (runs db)" using inv by (simp add: runs_inv_def)
  have rid: "run_id r = bid" using run get_row_SomeD by (fastforce simp: get_build_run_def)
  let ?base = "new_event (tx_ids tx 0) (tx_now tx) ''build'' [(''kind'', JStr ''build''), (''namespace'', JStr ns),
      (''build_id'', JStr bid), (''latest_sequence'', JInt 0)]"
  let ?ev = "?base\<lparr>ev_payload_json := [(''kind'', JStr ''build''), (''namespace'', JStr ns),
      (''build_id'', JStr bid), (''latest_sequence'', JInt (run_next_event_sequence r))]\<rparr>"
  obtain db1 where en: "enqueue_api_build_notification cfg tx 0 ns ns bid 0 db = Inr db1"
      and db1: "events db1 = events db @ [?base]" "runs db1 = runs db" "run_events db1 = run_events db"
    using dist(2) by (simp add: enqueue_api_build_notification_def enqueue_runtime_event_def payload_kind_def
        RUNTIME_PAYLOAD_KINDS_def events_enqueue) (simp add: enqueue_event_def Let_def)
  have nrej: "\<not> event_rejected e ex None r" using gen live by (auto simp: event_rejected_def run_in_flight_iff)
  have mm: "\<not> notification_mismatch ns bid (Some (tx_ids tx 0)) db1"
    using db1(1) fresh by (simp add: notification_mismatch_def table_simps new_event_def)
  have evs: "update_where (\<lambda>ev. ev_id ev = tx_ids tx 0)
        (\<lambda>ev. ev\<lparr>ev_payload_json := merge_obj (ev_payload_json ev) [(''latest_sequence'', JInt (run_next_event_sequence r))]\<rparr>)
        (events db1) = events db @ [?ev]"
  proof -
    have "\<And>ev. ev \<in> set (events db) \<Longrightarrow> ev_id ev \<noteq> tx_ids tx 0"
      using fresh get_row_None_iff [of ev_id "tx_ids tx 0" "events db"] by (metis imageI)
    then show ?thesis by (simp add: db1(1) update_where_def new_event_def merge_obj_def map_idI)
  qed
  let ?run' = "(project_event e rc None r)\<lparr>run_next_event_sequence := run_next_event_sequence r + 1\<rparr>"
  let ?row = "\<lparr>bev_id = tx_ids tx 1, bev_build_id = bid, bev_namespace = ns, bev_sequence = run_next_event_sequence r,
      bev_type = event_type e, bev_payload = e, bev_compute_worker_run_id = be_compute_worker_run_id e,
      bev_emitted_at = be_emitted_at e, bev_created_at = now\<rparr>"
  let ?db2 = "db1\<lparr>run_events := run_events db @ [?row], runs := update_where (\<lambda>r. run_id r = bid) (\<lambda>_. ?run') (runs db),
      events := events db @ [?ev]\<rparr>"
  let ?db3 = "if run_schedule_id r \<noteq> None then mark_schedule_pending cfg (tx_wakes tx 3) (tx_stmt tx) ns ?db2 else ?db2"
  have "stage_build_event cfg tx ns now bid e rc ex None (Some (tx_ids tx 0)) db1 = Inr (Some ?row, ?db3)"
    using run nrej mm st ns evs db1(2,3)
    by (simp add: stage_build_event_def get_build_run_def announce_event_def Let_def)
  then have app: "append_build_event cfg tx ns now bid e rc ex None db = Inr (Some ?row, ?db3)"
    using en st by (simp add: append_build_event_def)
  have pid: "run_id ?run' = bid" using project_event_facts(1) [OF nrej] rid by simp
  have "get_row run_id bid (update_where (\<lambda>r. run_id r = bid) (\<lambda>_. ?run') (runs db)) = Some ?run'"
    using run get_row_replace [where key = run_id and v = ?run' and ?k0.0 = bid, OF pid] by (simp add: get_build_run_def)
  then have stat: "map_option run_status (get_build_run bid ?db3) = Some st"
    using project_terminal_status [OF live st] by (simp add: get_build_run_def)
  have sch: "run_schedule_id r = None \<or> namespace_listed ns K_SCHEDULE t ?db3"
    by (simp add: mark_schedule_pending_def append_wake_listed [OF dist(1)])
  have log: "run_events ?db3 = run_events db @ [?row]" "events ?db3 = events db @ [?ev]"
    by (simp_all add: mark_schedule_pending_def)
  show ?thesis
    by (intro exI conjI, rule app, simp, rule log(1), rule stat, rule log(2), simp add: new_event_def, simp, rule sch)
qed

theorem terminal_event_atomic_witness:
  "\<exists>row ev db'. append_build_event example_settings (example_txn 9 ''x'') ''n'' 9 ''b1''
     (example_event (BuildCompleteEvent example_end)) None None None queued_builds = Inr (Some row, db') \<and>
     events db' = [ev] \<and> map_of (ev_payload_json ev) ''latest_sequence'' = Some (JInt 1) \<and> namespace_listed ''n'' K_SCHEDULE 10 db'"
proof -
  obtain r where r: "get_build_run ''b1'' queued_builds = Some r" "run_in_flight r" "run_namespace r = ''n''"
      "run_next_event_sequence r = 1" "run_schedule_id r = Some ''s1''" and q: "events queued_builds = []"
    by (simp add: run_in_flight_def build_example_defs table_simps)
  have inv: "runs_inv queued_builds"
    using build_step_runs [OF queued_builds_step] empty_builds_log by (simp add: log_inv_def)
  show ?thesis
    using terminal_event_atomic [OF inv r(1,2), of None "''n''" "example_txn 9 ''x''"
        "example_event (BuildCompleteEvent example_end)" BR_COMPLETED example_settings 9 None 10] r q
    by (fastforce simp: table_simps terminal_status_for_event_def example_event_def example_settings_def)
qed

text \<open>Marking a build running is linearizable. With any build and job transactions between its
  read and its compare-and-swap, the effect of the whole operation is that of those transactions
  followed either by nothing or by one uninterrupted call: a lost race writes nothing, not even the
  notification.\<close>

theorem mark_running_linearizable:
  assumes inv: "runs_inv db" and env: "(build_step cfg)\<^sup>*\<^sup>* db (env db)"
    and mark: "mark_build_running cfg tx ns bid g now env db = Inr (x, db')"
  shows "db' = db \<or> db' = env db \<or> (\<exists>y. mark_build_running cfg tx ns bid g now (\<lambda>d. d) (env db) = Inr (y, db'))"
proof (cases "db' = db \<or> db' = env db")
  case False
  then obtain run where run: "get_build_run bid db = Some run" "run_in_flight run" "run_execution_generation run \<le> g"
      "\<not> (run_status run = BR_RUNNING \<and> g = run_execution_generation run)"
      and one: "rowcount (cas_where run (run_status run)) (runs (env db)) = 1"
      and cas: "cas_update_build_run cfg tx ns run (\<lambda>r. r\<lparr>run_status := BR_RUNNING, run_execution_generation := g,
          run_updated_at := now, run_version := run_version run + 1\<rparr>) (run_status run) (run_status run = BR_QUEUED) (env db) = Inr (x, db')"
    using mark mark_build_running_cases [OF mark]
    by (auto simp: mark_build_running_def split: option.splits if_splits)
  obtain r' where r': "get_build_run bid (env db) = Some r'" "run_move run r'" using build_run_kept [OF env inv run(1)] by blast
  have "runs_inv (env db)" using build_runs.run_inv env inv by blast
  then have "\<exists>q. get_row run_id (run_id run) (runs (env db)) = Some q \<and> cas_where run (run_status run) q"
    using one rowcount_key_1 [of run_id "runs (env db)" "cas_where run (run_status run)" "run_id run"]
    by (auto simp: runs_inv_def cas_where_def)
  moreover have "run_id run = bid" using run(1) get_row_SomeD by (fastforce simp: get_build_run_def)
  ultimately have "cas_where run (run_status run) r'" using r'(1) by (simp add: get_build_run_def)
  then have "r' = run" using r'(2) run(2) by (auto simp: run_move_def cas_where_def run_in_flight_def)
  then show ?thesis using r'(1) run cas by (auto simp: mark_build_running_def)
qed blast

theorem mark_running_linearizable_witness:
  "mark_build_running example_settings (example_txn 5 ''m'') ''n'' ''b1'' 4 5 (\<lambda>_. done_builds) queued_builds =
     Inr (get_build_run ''b1'' done_builds, done_builds)"
proof -
  have inv: "runs_inv queued_builds"
    using build_step_runs [OF queued_builds_step] empty_builds_log by (simp add: log_inv_def)
  have run: "(build_step example_settings)\<^sup>*\<^sup>* queued_builds ((\<lambda>_. done_builds) queued_builds)"
    using done_builds_step by (simp add: r_into_rtranclp)
  have m: "mark_build_running example_settings (example_txn 5 ''m'') ''n'' ''b1'' 4 5 (\<lambda>_. done_builds) queued_builds =
     Inr (get_build_run ''b1'' done_builds, done_builds)"
    by (simp add: mark_build_running_def cas_update_build_run_def run_in_flight_def cas_where_def rowcount_def
        done_builds_def build_example_defs table_simps)
  from mark_running_linearizable [OF inv run m] show ?thesis using m by simp
qed

end
