(* ===== verification/Job_Facts.thy ===== *)
theory Job_Facts
  imports Build_Facts
begin

text \<open>
  The build queue: claims form a fenced lease over the job table, attempts stay within their limit,
  a claim takes the first claimable job, an exhausted job fails together with its run, terminal jobs
  are final, and the wake index covers the queue.
\<close>

subsection \<open>The job table as a fenced lease\<close>

definition job_holder :: "build_job \<Rightarrow> string option" where
  "job_holder j = (if job_status j = BJ_RUNNING then job_claim_token j else None)"

abbreviation job_move :: "build_job \<Rightarrow> build_job \<Rightarrow> bool" where
  "job_move \<equiv> lease_move job_id job_lease_generation job_holder"

definition job_ok :: "build_job \<Rightarrow> bool" where
  "job_ok j \<longleftrightarrow> 0 \<le> job_attempts j \<and> job_attempts j \<le> job_max_attempts j \<and> 1 \<le> job_max_attempts j \<and>
     (job_status j = BJ_QUEUED \<longrightarrow> job_attempts j = 0)"

definition jobs_inv :: "'a jobs_db_scheme \<Rightarrow> bool" where
  "jobs_inv db \<longleftrightarrow> unique_by job_id (jobs db) \<and> unique_by job_build_id (jobs db) \<and> (\<forall>j \<in> set (jobs db). job_ok j)"

lemma clear_lease_frame [simp]:
  "job_id (clear_lease j) = job_id j" "job_build_id (clear_lease j) = job_build_id j"
  "job_lease_generation (clear_lease j) = job_lease_generation j" "job_attempts (clear_lease j) = job_attempts j"
  "job_max_attempts (clear_lease j) = job_max_attempts j" "job_status (clear_lease j) = job_status j"
  "job_lease_owner (clear_lease j) = None" "job_lease_expires_at (clear_lease j) = None" "job_claim_token (clear_lease j) = None"
  by (simp_all add: clear_lease_def)

lemma claim_values_frame [simp]:
  "job_id (claim_values w tok now row j) = job_id j" "job_build_id (claim_values w tok now row j) = job_build_id j"
  by (simp_all add: claim_values_def)

text \<open>Every job transaction rewrites rows in place or appends one; this is what a rewrite keeps.\<close>

definition job_rewrite :: "build_job list \<Rightarrow> (build_job \<Rightarrow> bool) \<Rightarrow> (build_job \<Rightarrow> build_job) \<Rightarrow> bool" where
  "job_rewrite js P f \<longleftrightarrow> (\<forall>j \<in> set js. P j \<longrightarrow> job_ok j \<longrightarrow> job_move j (f j) \<and> job_ok (f j)) \<and>
     (\<forall>j. job_id (f j) = job_id j \<and> job_build_id (f j) = job_build_id j)"

lemma job_rewrite_keeps:
  fixes db db' :: "'a jobs_db_scheme"
  assumes "jobs_inv db" and "jobs db' = update_where P f (jobs db)" and "job_rewrite (jobs db) P f"
  shows "jobs_inv db' \<and> table_move job_id job_lease_generation job_holder (jobs db) (jobs db')"
proof -
  have "unique_by job_id (jobs db')" "unique_by job_build_id (jobs db')"
    using assms by (simp_all add: jobs_inv_def job_rewrite_def unique_update)
  moreover have "\<forall>j \<in> set (jobs db'). job_ok j"
    using assms by (auto simp: jobs_inv_def job_rewrite_def set_update_where)
  moreover have "list_all2 job_move (jobs db) (jobs db')"
    unfolding assms(2) using assms(1,3) by (intro lease_moves_update) (auto simp: jobs_inv_def job_rewrite_def)
  ultimately show ?thesis by (simp add: jobs_inv_def table_move_rows)
qed

lemma claim_rewrite:
  assumes "job_claimable now rec row" and "row \<in> set js" and "unique_by job_id js"
  shows "job_rewrite js (claim_where row) (claim_values w tok t row)"
proof -
  have "j = row" if "j \<in> set js" "claim_where row j" for j
    using that assms unique_by_eq [of job_id js j row] by (simp add: claim_where_def)
  then show ?thesis using assms(1)
    by (fastforce simp: job_rewrite_def claim_values_def lease_move_def job_ok_def job_claimable_def)
qed

lemma exhaust_rewrite:
  "job_rewrite js (\<lambda>j. job_id j = k) (\<lambda>j. (clear_lease j)\<lparr>job_status := BJ_FAILED, job_last_error := e, job_updated_at := t\<rparr>)"
  by (auto simp: job_rewrite_def lease_move_def job_holder_def job_ok_def)

lemma renew_rewrite:
  "job_rewrite js (live_claim jid w tok g t) (\<lambda>j. j\<lparr>job_lease_expires_at := e, job_last_renewed_at := e', job_updated_at := u\<rparr>)"
  by (auto simp: job_rewrite_def lease_move_def job_holder_def job_ok_def)

lemma finish_rewrite:
  "job_is_terminal st \<Longrightarrow>
   job_rewrite js P (\<lambda>j. (clear_lease j)\<lparr>job_status := st, job_last_error := e, job_updated_at := t\<rparr>)"
  by (auto simp: job_rewrite_def lease_move_def job_holder_def job_ok_def job_is_terminal_def)

lemma cancel_rewrite:
  "job_rewrite js P (\<lambda>j. (clear_lease j)\<lparr>job_status := BJ_CANCELLED, job_lease_generation := job_lease_generation j + 1, job_updated_at := t\<rparr>)"
  by (auto simp: job_rewrite_def lease_move_def job_ok_def)

lemma claim_next_job_cases:
  assumes "claim_next_job tx locked w rec db = (r, db')"
  shows "(r = None \<and> db' = db) \<or>
    (\<exists>row. first_row (select_ordered (\<lambda>j. job_claimable (tx_now tx) rec j \<and> \<not> locked (job_id j)) claim_order 1 (jobs db)) = Some row \<and>
       jobs db' = update_where (claim_where row) (claim_values w (tx_ids tx 0) (tx_wall tx) row) (jobs db) \<and>
       r = get_row job_id (job_id row) (jobs db'))"
  using assms by (auto simp: claim_next_job_def Let_def split: option.splits if_splits)

lemma exhaust_one_jobs:
  "jobs (exhaust_one cfg tx ns (i, row) db) = update_where (\<lambda>j. job_id j = job_id row)
     (\<lambda>j. (clear_lease j)\<lparr>job_status := BJ_FAILED, job_last_error := Some exhaust_error, job_updated_at := tx_now tx\<rparr>) (jobs db)"
  by (simp add: exhaust_one_def Let_def)

lemma exhaust_fold_keeps:
  assumes "jobs_inv db"
  shows "jobs_inv (fold (exhaust_one cfg tx ns) ps db) \<and>
    list_all2 job_move (jobs db) (jobs (fold (exhaust_one cfg tx ns) ps db))"
  using assms
proof (induction ps arbitrary: db)
  case (Cons p ps)
  obtain i row where p: "p = (i, row)" by (cases p)
  note k = job_rewrite_keeps [OF Cons.prems exhaust_one_jobs exhaust_rewrite, of cfg tx ns i row]
  have m: "list_all2 job_move (jobs db) (jobs (exhaust_one cfg tx ns (i, row) db))"
    unfolding exhaust_one_jobs
    using exhaust_rewrite [where js = "jobs db" and k = "job_id row" and e = "Some exhaust_error" and t = "tx_now tx"] Cons.prems
    by (intro lease_moves_update) (auto simp: job_rewrite_def jobs_inv_def)
  show ?case using Cons.IH [of "exhaust_one cfg tx ns (i, row) db"] k m lease_moves_trans
    by (auto simp: p)
qed simp

lemma exhausted_jobs_keeps:
  assumes "stage_exhausted_jobs cfg tx locked ns db = (bids, db')" and "jobs_inv db"
  shows "jobs_inv db' \<and> table_move job_id job_lease_generation job_holder (jobs db) (jobs db')"
  using assms exhaust_fold_keeps [OF assms(2)]
  by (auto simp: stage_exhausted_jobs_def Let_def jobs_inv_def intro: table_move_rows)

lemma build_ops_jobs:
  fixes db :: "'a jobs_db_scheme"
  shows "stage_build_run run ids db = Inr db' \<Longrightarrow> jobs db' = jobs db"
    and "mark_build_running cfg tx ns bid g now (\<lambda>d. d) db = Inr (x, db') \<Longrightarrow> jobs db' = jobs db"
    and "stage_build_result_json bid res now db = Inr db' \<Longrightarrow> jobs db' = jobs db"
    and stage_event_jobs: "stage_build_event cfg tx ns now bid e rc ex au notif db = Inr (y, db') \<Longrightarrow> jobs db' = jobs db"
  by (auto simp: stage_build_run_def mark_build_running_def cas_update_build_run_def stage_build_result_json_def
      stage_build_event_def Let_def dest!: enqueue_notification_jobs announce_jobs split: if_splits option.splits sum.splits)

lemma append_event_jobs:
  fixes db :: "'a jobs_db_scheme"
  assumes "append_build_event cfg tx ns now bid e rc ex au db = Inr (x, db')"
  shows "jobs db' = jobs db"
  using assms
  by (auto simp: append_build_event_def dest!: enqueue_notification_jobs stage_event_jobs split: if_splits option.splits sum.splits)

lemma build_step_jobs:
  assumes "build_step cfg db db'" and "jobs_inv db"
  shows "jobs_inv db' \<and> table_move job_id job_lease_generation job_holder (jobs db) (jobs db')"
  using assms
proof cases
  case (bs_stage_job m tx bid ns j)
  then have new: "get_row job_id (tx_ids tx 0) (jobs db) = None" "get_row job_build_id bid (jobs db) = None"
    and j: "jobs db' = jobs db @ [j]" "job_id j = tx_ids tx 0" "job_build_id j = bid" "job_status j = BJ_QUEUED" "job_attempts j = 0"
      "job_max_attempts j = m" "job_lease_generation j = 0"
    by (auto simp: stage_job_def Let_def split: if_splits)
  then show ?thesis using assms(2) bs_stage_job(1)
    by (auto simp: jobs_inv_def unique_append1 job_ok_def job_holder_def intro!: table_move_append)
next
  case (bs_claim tx locked w rec j)
  from claim_next_job_cases [OF bs_claim] show ?thesis
  proof (elim disjE exE conjE)
    fix row assume sel: "first_row (select_ordered (\<lambda>j. job_claimable (tx_now tx) rec j \<and> \<not> locked (job_id j)) claim_order 1 (jobs db)) = Some row"
      and upd: "jobs db' = update_where (claim_where row) (claim_values w (tx_ids tx 0) (tx_wall tx) row) (jobs db)"
    have "row \<in> set (jobs db)" "job_claimable (tx_now tx) rec row"
      using first_row_select_Some [of _ claim_order 0] sel by (metis One_nat_def)+
    then show ?thesis using job_rewrite_keeps [OF assms(2) upd claim_rewrite] assms(2) by (simp add: jobs_inv_def)
  qed (use assms(2) in simp)
next
  case (bs_exhaust tx locked ns bids)
  then show ?thesis using exhausted_jobs_keeps assms(2) by blast
next
  case (bs_renew tx jid w tok g j)
  then consider "db' = db" | "jobs db' = update_where (live_claim jid w tok g (tx_wall tx))
      (\<lambda>j. j\<lparr>job_lease_expires_at := Some (tx_wall tx + seconds (runtime_work_lease_ttl_seconds cfg)),
             job_last_renewed_at := Some (tx_wall tx), job_updated_at := tx_wall tx\<rparr>) (jobs db)"
    by (auto simp: renew_job_lease_def Let_def split: if_splits)
  then show ?thesis using assms(2) job_rewrite_keeps [OF assms(2) _ renew_rewrite] by cases auto
next
  case (bs_finish tx jid w bid tok g st err j)
  then consider "db' = db" | P where "job_is_terminal st" "jobs db' = update_where P
      (\<lambda>j. (clear_lease j)\<lparr>job_status := st, job_last_error := err, job_updated_at := tx_now tx\<rparr>) (jobs db)"
    by (auto simp: finish_claimed_job_def Let_def split: if_splits)
  then show ?thesis using assms(2) job_rewrite_keeps [OF assms(2) _ finish_rewrite] by cases auto
next
  case (bs_cancel tx jid j)
  then consider "db' = db" | P where "jobs db' = update_where P (\<lambda>j. (clear_lease j)\<lparr>job_status := BJ_CANCELLED,
      job_lease_generation := job_lease_generation j + 1, job_updated_at := tx_now tx\<rparr>) (jobs db)"
    by (auto simp: stage_job_cancelled_def Let_def split: if_splits option.splits)
  then show ?thesis using assms(2) job_rewrite_keeps [OF assms(2) _ cancel_rewrite] by cases auto
qed (use assms(2) in \<open>auto simp: jobs_inv_def dest!: build_ops_jobs append_event_jobs\<close>)

interpretation job_lease: lease_table "build_step cfg" jobs_inv jobs job_id job_lease_generation job_holder
  by unfold_locales (auto dest: build_step_jobs)

subsection \<open>The queue behind the wake index\<close>

definition job_ready :: "timestamp \<Rightarrow> build_job \<Rightarrow> bool" where
  "job_ready t j \<longleftrightarrow> job_status j = BJ_QUEUED \<or>
     job_is_active (job_status j) \<and> (job_lease_owner j = None \<or> sql_le (job_lease_expires_at j) t)"

lemma build_work_pending_iff: "build_work_pending t db \<longleftrightarrow> (\<exists>j \<in> set (jobs db). job_ready t j)"
  by (auto simp: build_work_pending_def job_ready_def list_ex_iff)

lemma job_ready_later: "job_ready t j \<Longrightarrow> t \<le> u \<Longrightarrow> job_ready u j"
  by (cases "job_lease_expires_at j") (auto simp: job_ready_def)

interpretation build_queue: recoverable_queue build_work_pending build_work_due
proof unfold_locales
  show "build_work_pending t (db\<lparr>work_rows := ws, wake_rows := vs\<rparr>) = build_work_pending t db"
    for t ws vs and db :: "'a jobs_db_scheme"
    by (simp add: build_work_pending_def)
  show "build_work_pending t db \<Longrightarrow> t \<le> u \<Longrightarrow> build_work_pending u db" for t u and db :: "'a jobs_db_scheme"
    unfolding build_work_pending_iff using job_ready_later by blast
  fix t u and db :: "'a jobs_db_scheme"
  assume n: "\<not> build_work_pending t db" and p: "build_work_pending u db" and "t \<le> u"
  then obtain j where j: "j \<in> set (jobs db)" "job_ready u j" "\<not> job_ready t j" unfolding build_work_pending_iff by blast
  then obtain x where x: "job_is_active (job_status j)" "job_lease_expires_at j = Some x" "t < x" "x \<le> u"
    by (cases "job_lease_expires_at j") (auto simp: job_ready_def)
  then have "Some x \<in> set (map job_lease_expires_at
      (filter (\<lambda>j. job_is_active (job_status j) \<and> sql_gt (job_lease_expires_at j) t) (jobs db)))"
    using j(1) by (force simp: image_iff)
  then show "\<exists>d. build_work_due t db = Some d \<and> d \<le> u"
    using sql_min_lower x(4) unfolding build_work_due_def by (meson order_trans)
qed

subsection \<open>Exhaustion\<close>

lemma snd_set_enumerate: "snd ` set (enumerate n xs) = set xs"
  by (metis list.set_map map_snd_enumerate)

definition exhausted_values :: "timestamp \<Rightarrow> build_job \<Rightarrow> build_job" where
  "exhausted_values t j = (clear_lease j)\<lparr>job_status := BJ_FAILED, job_last_error := Some exhaust_error, job_updated_at := t\<rparr>"

lemma get_job_exhausted:
  "get_row job_id k (jobs (fold (exhaust_one cfg tx ns) ps db)) =
   map_option (\<lambda>j. if k \<in> job_id ` snd ` set ps then exhausted_values (tx_now tx) j else j) (get_row job_id k (jobs db))"
proof (induction ps arbitrary: db)
  case (Cons p ps)
  obtain i row where p: "p = (i, row)" by (cases p)
  have idem: "exhausted_values t (exhausted_values t j) = exhausted_values t j" for t j
    by (simp add: exhausted_values_def clear_lease_def)
  have "get_row job_id k (jobs (exhaust_one cfg tx ns p db)) =
     map_option (\<lambda>j. if job_id j = job_id row then exhausted_values (tx_now tx) j else j) (get_row job_id k (jobs db))"
    unfolding p exhaust_one_jobs exhausted_values_def by (rule get_row_update) simp
  moreover have "get_row job_id k (jobs db) = Some j \<Longrightarrow> job_id j = k" for j using get_row_SomeD by fastforce
  ultimately show ?case using Cons.IH [of "exhaust_one cfg tx ns p db"] idem
    by (cases "get_row job_id k (jobs db)") (auto simp: p)
qed (simp add: option.map_ident)

lemma exhaust_fold_run_moves: "list_all2 run_move (runs db) (runs (fold (exhaust_one cfg tx ns) ps db))"
proof -
  obtain ys xs where y: "runs (fold (exhaust_one cfg tx ns) ps db) = ys @ xs" "list_all2 run_move (runs db) ys"
    using exhaust_fold_runs unfolding rows_evolve_def by blast
  then have "xs = []" using exhaust_fold_length [of cfg tx ns ps db] list_all2_lengthD by fastforce
  then show ?thesis using y by simp
qed

lemma exhausted_run_not_in_flight:
  assumes "p \<in> set ps" and "get_row run_id (job_build_id (snd p)) (runs (fold (exhaust_one cfg tx ns) ps db)) = Some r"
  shows "\<not> run_in_flight r"
  using assms
proof (induction ps arbitrary: db)
  case (Cons q ps)
  show ?case
  proof (cases "p \<in> set ps")
    case True
    then show ?thesis using Cons by simp
  next
    case False
    then have pq: "q = p" using Cons.prems(1) by simp
    let ?d = "exhaust_one cfg tx ns p db" and ?k = "job_build_id (snd p)"
    have "rel_option run_move (get_row run_id ?k (runs ?d)) (get_row run_id ?k (runs (fold (exhaust_one cfg tx ns) ps ?d)))"
      by (rule get_row_rel [OF exhaust_fold_run_moves run_move_key])
    then obtain r0 where r0: "get_row run_id ?k (runs ?d) = Some r0" "run_move r0 r"
      using Cons.prems(2) pq by (cases "get_row run_id ?k (runs ?d)") auto
    have "get_row run_id ?k (runs ?d) = map_option (\<lambda>r. if run_id r = ?k \<and> run_in_flight r
        then r\<lparr>run_status := BR_ORPHANED, run_error_message := Some exhaust_error, run_completed_at := Some (tx_now tx),
               run_updated_at := tx_now tx\<rparr> else r) (get_row run_id ?k (runs db))"
      by (cases p) (simp add: exhaust_one_def Let_def get_row_update)
    then have "\<not> run_in_flight r0" using r0(1) get_row_SomeD [of run_id ?k "runs db"]
      by (cases "get_row run_id ?k (runs db)") (auto simp: run_in_flight_def split: if_splits)
    then show ?thesis using r0(2) by (auto simp: run_in_flight_iff run_move_def)
  qed
qed simp

subsection \<open>Terminal jobs\<close>

lemma update_where_other:
  "get_row key k rs = Some r \<Longrightarrow> \<not> P r \<Longrightarrow> (\<And>r. key (f r) = key r) \<Longrightarrow> get_row key k (update_where P f rs) = Some r"
  by (simp add: get_row_update)

lemma build_step_terminal_job:
  assumes "build_step cfg db db'" and inv: "jobs_inv db" and j: "get_row job_id k (jobs db) = Some j" and t: "job_is_terminal (job_status j)"
  shows "get_row job_id k (jobs db') = Some j"
  using assms(1)
proof cases
  case (bs_stage_job m tx bid ns j')
  then show ?thesis using j by (auto simp: stage_job_def Let_def table_simps split: if_splits)
next
  case (bs_claim tx locked w rec j')
  from claim_next_job_cases [OF bs_claim] show ?thesis
  proof (elim disjE exE conjE)
    fix row assume sel: "first_row (select_ordered (\<lambda>j. job_claimable (tx_now tx) rec j \<and> \<not> locked (job_id j)) claim_order 1 (jobs db)) = Some row"
      and upd: "jobs db' = update_where (claim_where row) (claim_values w (tx_ids tx 0) (tx_wall tx) row) (jobs db)"
    have "job_claimable (tx_now tx) rec row" using first_row_select_Some [of _ claim_order 0] sel by (metis One_nat_def)
    then have "\<not> claim_where row j" using t by (auto simp: job_claimable_def claim_where_def job_is_terminal_def job_is_active_def)
    then show ?thesis unfolding upd using j by (intro update_where_other) auto
  qed (use j in simp)
next
  case (bs_exhaust tx locked ns bids)
  let ?rows = "select_ordered (\<lambda>j. exhausted_job (tx_now tx) j \<and> \<not> locked (job_id j))
      (\<lambda>j. (the (job_lease_expires_at j), job_id j)) RECONCILIATION_BATCH_SIZE (jobs db)"
  have "k \<notin> job_id ` snd ` set (enumerate 0 ?rows)"
  proof
    assume "k \<in> job_id ` snd ` set (enumerate 0 ?rows)"
    then obtain x where x: "x \<in> set ?rows" "job_id x = k" unfolding snd_set_enumerate by blast
    from x(1) have "x \<in> {j \<in> set (jobs db). exhausted_job (tx_now tx) j \<and> \<not> locked (job_id j)}"
      by (rule subsetD [OF set_select_ordered])
    then have "x \<in> set (jobs db)" "exhausted_job (tx_now tx) x" by auto
    moreover from this have "x = j" using j inv x(2) get_row_unique [of job_id "jobs db" x] by (simp add: jobs_inv_def)
    ultimately show False using t by (auto simp: exhausted_job_def job_is_active_def job_is_terminal_def)
  qed
  then show ?thesis using bs_exhaust j by (auto simp: stage_exhausted_jobs_def Let_def get_job_exhausted)
next
  case (bs_renew tx jid w tok g j')
  then show ?thesis using j t
    by (auto simp: renew_job_lease_def Let_def live_claim_def job_is_terminal_def get_row_update split: if_splits)
next
  case (bs_finish tx jid w bid tok g st err j')
  then show ?thesis using j t
    by (auto simp: finish_claimed_job_def Let_def live_claim_def job_is_terminal_def get_row_update split: if_splits)
next
  case (bs_cancel tx jid j')
  then show ?thesis using j t
    by (auto simp: stage_job_cancelled_def Let_def job_is_terminal_def job_is_active_def get_row_update split: if_splits option.splits)
qed (use j in \<open>auto dest!: build_ops_jobs append_event_jobs\<close>)

interpretation job_final: preserved "build_step cfg"
  "\<lambda>db. jobs_inv db \<and> get_row job_id k (jobs db) = Some j \<and> job_is_terminal (job_status j)"
  by unfold_locales (auto dest: build_step_jobs intro: build_step_terminal_job)

subsection \<open>Properties\<close>

definition staged_jobs :: jobs_db where
  "staged_jobs = snd (projr (stage_job example_settings (example_txn 2 ''j1'') ''b1'' ''n'' 1 queued_builds))"

definition claimed_jobs :: jobs_db where
  "claimed_jobs = snd (claim_next_job (example_txn 3 ''t1'') (\<lambda>_. False) ''w1'' [] staged_jobs)"

lemmas job_example_defs = staged_jobs_def claimed_jobs_def stage_job_def claim_next_job_def select_ordered_def job_claimable_def
  job_is_active_def claim_order_def claim_where_def claim_values_def rowcount_def CLAIM_DELIVERY_LEASE_SECONDS_def seconds_def
  first_row_def

lemma staged_jobs_step: "build_step example_settings queued_builds staged_jobs"
proof (rule bs_stage_job)
  show "stage_job example_settings (example_txn 2 ''j1'') ''b1'' ''n'' 1 queued_builds =
     Inr (fst (projr (stage_job example_settings (example_txn 2 ''j1'') ''b1'' ''n'' 1 queued_builds)), staged_jobs)"
    unfolding staged_jobs_def by (simp add: stage_job_def build_example_defs table_simps)
qed simp

lemma empty_builds_jobs: "jobs_inv empty_builds"
  by (simp add: jobs_inv_def empty_builds_def unique_by_def)

lemma queued_builds_inv: "jobs_inv queued_builds"
  using build_step_jobs [OF queued_builds_step empty_builds_jobs] by blast

lemma staged_jobs_inv: "jobs_inv staged_jobs"
  using build_step_jobs [OF staged_jobs_step queued_builds_inv] by blast

lemma claimed_jobs_step: "build_step cfg staged_jobs claimed_jobs"
  unfolding claimed_jobs_def by (rule bs_claim) (rule prod.collapse [symmetric])

lemma claimed_jobs_inv: "jobs_inv claimed_jobs"
  using build_step_jobs [OF claimed_jobs_step staged_jobs_inv] by blast

text \<open>C8: fencing of build jobs. Once a worker's claim on a job was lost (reclaimed, finished,
  exhausted or cancelled), then after any further transactions it can neither renew the lease nor
  finish the job, and trying changes nothing.\<close>

theorem lost_job_claim_is_inert:
  assumes inv: "jobs_inv s" and held: "row_current job_id job_lease_generation job_holder (jobs s) jid tok g"
    and run1: "(build_step cfg)\<^sup>*\<^sup>* s t" and lost: "\<not> row_current job_id job_lease_generation job_holder (jobs t) jid tok g"
    and run2: "(build_step cfg)\<^sup>*\<^sup>* t u" and st: "job_is_terminal status"
  shows "renew_job_lease cfg tx jid worker tok g u = (None, u) \<and>
         finish_claimed_job tx jid worker bid tok g status err u = Inr (None, u) \<and>
         active_job_claim tx jid bid worker tok g u = None"
proof -
  have n: "\<not> row_current job_id job_lease_generation job_holder (jobs u) jid tok g"
    by (rule job_lease.fencing [OF inv held run1 lost run2])
  have uniq: "unique_by job_id (jobs u)"
    using job_lease.run_inv run1 run2 inv by (metis jobs_inv_def rtranclp_trans)
  have none: "\<not> live_claim jid worker tok g t' j" if "j \<in> set (jobs u)" for t' j
    using n that get_row_unique [OF uniq that] by (auto simp: live_claim_def row_current_def job_holder_def)
  have "rowcount (live_claim jid worker tok g (tx_wall tx)) (jobs u) = 0"
    "rowcount (\<lambda>j. live_claim jid worker tok g (tx_now tx) j \<and> job_build_id j = bid) (jobs u) = 0"
    using none by (auto simp: rowcount_0_iff)
  then show ?thesis using st none
    by (auto simp: renew_job_lease_def finish_claimed_job_def active_job_claim_def Let_def find_None_iff)
qed

definition cancelled_jobs :: jobs_db where
  "cancelled_jobs = snd (projr (stage_job_cancelled (example_txn 4 ''x'') ''j1'' claimed_jobs))"

lemma cancelled_jobs_step: "build_step cfg claimed_jobs cancelled_jobs"
proof (rule bs_cancel)
  show "stage_job_cancelled (example_txn 4 ''x'') ''j1'' claimed_jobs =
      Inr (fst (projr (stage_job_cancelled (example_txn 4 ''x'') ''j1'' claimed_jobs)), cancelled_jobs)"
    unfolding cancelled_jobs_def
    by (simp add: stage_job_cancelled_def job_example_defs build_example_defs table_simps clear_lease_def)
qed

theorem lost_job_claim_is_inert_witness:
  "finish_claimed_job (example_txn 6 ''x'') ''j1'' ''w1'' ''b1'' ''t1'' 1 BJ_COMPLETED None cancelled_jobs = Inr (None, cancelled_jobs)"
proof -
  have held: "row_current job_id job_lease_generation job_holder (jobs claimed_jobs) ''j1'' ''t1'' 1"
    by (simp add: row_current_def job_holder_def job_example_defs build_example_defs table_simps)
  have lost: "\<not> row_current job_id job_lease_generation job_holder (jobs cancelled_jobs) ''j1'' ''t1'' 1"
    by (simp add: row_current_def job_holder_def cancelled_jobs_def stage_job_cancelled_def job_example_defs build_example_defs
        table_simps clear_lease_def)
  have run: "(build_step example_settings)\<^sup>*\<^sup>* claimed_jobs cancelled_jobs"
    using cancelled_jobs_step by (rule r_into_rtranclp)
  show ?thesis
    using lost_job_claim_is_inert [OF claimed_jobs_inv held run lost rtranclp.rtrancl_refl, of BJ_COMPLETED] by (simp add: job_is_terminal_def)
qed

text \<open>C12: attempts are bounded. In every state reached from one where it holds, no job has been
  claimed more often than its limit allows, and a queued job has not been claimed at all.\<close>

theorem job_attempts_bounded:
  assumes "jobs_inv s" and "(build_step cfg)\<^sup>*\<^sup>* s t" and "j \<in> set (jobs t)"
  shows "0 \<le> job_attempts j \<and> job_attempts j \<le> job_max_attempts j \<and> (job_status j \<noteq> BJ_QUEUED \<or> job_attempts j = 0)"
  using job_lease.run_inv [OF assms(2,1)] assms(3) by (auto simp: jobs_inv_def job_ok_def)

theorem job_attempts_bounded_witness: "job_attempts (hd (jobs claimed_jobs)) \<le> job_max_attempts (hd (jobs claimed_jobs))"
proof -
  have "hd (jobs claimed_jobs) \<in> set (jobs claimed_jobs)"
    by (simp add: job_example_defs build_example_defs table_simps)
  moreover have "(build_step example_settings)\<^sup>*\<^sup>* staged_jobs claimed_jobs"
    using claimed_jobs_step by (rule r_into_rtranclp)
  ultimately show ?thesis using job_attempts_bounded [OF staged_jobs_inv] by blast
qed

text \<open>A terminal build job is final: no transaction changes its row again.\<close>

theorem terminal_job_final:
  assumes "jobs_inv s" and "get_row job_id k (jobs s) = Some j" and "job_is_terminal (job_status j)" and "(build_step cfg)\<^sup>*\<^sup>* s t"
  shows "get_row job_id k (jobs t) = Some j"
  using job_final.run_inv [OF assms(4)] assms(1-3) by blast

theorem terminal_job_final_witness:
  "get_row job_id ''j1'' (jobs (snd (claim_next_job (example_txn 900 ''t2'') (\<lambda>_. False) ''w2'' [''w1''] cancelled_jobs))) =
   get_row job_id ''j1'' (jobs cancelled_jobs)"
proof -
  obtain j where j: "get_row job_id ''j1'' (jobs cancelled_jobs) = Some j" "job_is_terminal (job_status j)"
    by (simp add: cancelled_jobs_def stage_job_cancelled_def job_is_terminal_def job_example_defs build_example_defs
        table_simps clear_lease_def)
  have inv: "jobs_inv cancelled_jobs" using build_step_jobs [OF cancelled_jobs_step claimed_jobs_inv] by blast
  have "build_step example_settings cancelled_jobs (snd (claim_next_job (example_txn 900 ''t2'') (\<lambda>_. False) ''w2'' [''w1''] cancelled_jobs))"
    by (rule bs_claim) (rule prod.collapse [symmetric])
  then have "(build_step example_settings)\<^sup>*\<^sup>* cancelled_jobs (snd (claim_next_job (example_txn 900 ''t2'') (\<lambda>_. False) ''w2'' [''w1''] cancelled_jobs))"
    by (rule r_into_rtranclp)
  then show ?thesis using terminal_job_final [OF inv j] j(1) by simp
qed

text \<open>What a claim takes. It returns a job exactly when some unlocked job is claimable; the job is
  first by priority, availability, creation and ID among those, it now runs for the worker with the
  next lease generation, one more attempt and a fresh delivery lease, and no other job changes.\<close>

theorem claim_next_job_correct:
  assumes inv: "jobs_inv db" and claim: "claim_next_job tx locked worker rec db = (r, db')"
  shows "case r of
      None \<Rightarrow> db' = db \<and> \<not> (\<exists>j \<in> set (jobs db). job_claimable (tx_now tx) rec j \<and> \<not> locked (job_id j))
    | Some j' \<Rightarrow> \<exists>j. get_row job_id (job_id j') (jobs db) = Some j \<and> job_claimable (tx_now tx) rec j \<and> \<not> locked (job_id j) \<and>
        (\<forall>i \<in> set (jobs db). job_claimable (tx_now tx) rec i \<and> \<not> locked (job_id i) \<longrightarrow> claim_order j \<le> claim_order i) \<and>
        job_status j' = BJ_RUNNING \<and> job_lease_owner j' = Some worker \<and> job_lease_generation j' = job_lease_generation j + 1 \<and>
        job_attempts j' = job_attempts j + 1 \<and> job_lease_expires_at j' = Some (tx_wall tx + seconds 20) \<and>
        get_row job_id (job_id j') (jobs db') = Some j' \<and>
        (\<forall>k. k = job_id j' \<or> get_row job_id k (jobs db') = get_row job_id k (jobs db))"
proof -
  let ?P = "\<lambda>j. job_claimable (tx_now tx) rec j \<and> \<not> locked (job_id j)"
  have uniq: "unique_by job_id (jobs db)" using inv by (simp add: jobs_inv_def)
  show ?thesis
  proof (cases "first_row (select_ordered ?P claim_order (Suc 0) (jobs db))")
    case None
    then have "r = None" "db' = db" using claim by (simp_all add: claim_next_job_def)
    moreover have "\<forall>j \<in> set (jobs db). \<not> ?P j" by (rule iffD1 [OF first_row_select_None None])
    ultimately show ?thesis by simp
  next
    case (Some row)
    have row: "row \<in> set (jobs db)" "?P row" "\<forall>i \<in> set (jobs db). ?P i \<longrightarrow> claim_order row \<le> claim_order i"
      using first_row_select_Some [OF Some] by auto
    let ?new = "claim_values worker (tx_ids tx 0) (tx_wall tx) row row"
    let ?js = "update_where (claim_where row) (claim_values worker (tx_ids tx 0) (tx_wall tx) row) (jobs db)"
    have g: "get_row job_id (job_id row) (jobs db) = Some row" by (rule get_row_unique [OF uniq row(1)])
    have one: "rowcount (claim_where row) (jobs db) = 1"
      using rowcount_key_1 [of job_id "jobs db" "claim_where row" "job_id row"] uniq g by (auto simp: claim_where_def)
    have all: "get_row job_id k ?js = map_option (\<lambda>j. if claim_where row j then claim_values worker (tx_ids tx 0) (tx_wall tx) row j else j)
        (get_row job_id k (jobs db))" for k by (rule get_row_update) simp
    have other: "get_row job_id k ?js = get_row job_id k (jobs db)" if "k \<noteq> job_id row" for k
      using that all [of k] get_row_SomeD [of job_id k "jobs db"]
      by (cases "get_row job_id k (jobs db)") (auto simp: claim_where_def)
    have new: "get_row job_id (job_id row) ?js = Some ?new" using all g by (simp add: claim_where_def)
    have r: "r = Some ?new" "jobs db' = ?js"
      using claim Some one new by (auto simp: claim_next_job_def Let_def)
    show ?thesis unfolding r option.case
      using row g new other by (intro exI [of _ row]) (auto simp: claim_values_def CLAIM_DELIVERY_LEASE_SECONDS_def)
  qed
qed

theorem claim_next_job_correct_witness:
  "\<exists>j. fst (claim_next_job (example_txn 3 ''t1'') (\<lambda>_. False) ''w1'' [] staged_jobs) = Some j \<and> job_lease_generation j = 1 \<and>
     job_lease_expires_at j = Some 20000003"
  using claim_next_job_correct [OF staged_jobs_inv prod.collapse [symmetric], of "example_txn 3 ''t1''" "\<lambda>_. False" "''w1''" "[]"]
  by (simp add: job_example_defs build_example_defs table_simps)

text \<open>An exhausted job never leaves a live run behind. For every build the reconciliation returns,
  the job is failed with its lease cleared and its run is no longer queued or running.\<close>

theorem exhausted_job_orphans_run:
  assumes inv: "jobs_inv db" and ex: "stage_exhausted_jobs cfg tx locked ns db = (bids, db')" and bid: "bid \<in> set bids"
  shows "(\<exists>j. get_job_by_build_id bid db' = Some j \<and> job_status j = BJ_FAILED \<and> job_lease_owner j = None \<and>
            job_last_error j = Some ''Build job lease expired after maximum attempts'') \<and>
         \<not> (\<exists>r. get_build_run bid db' = Some r \<and> run_in_flight r)"
proof -
  let ?rows = "select_ordered (\<lambda>j. exhausted_job (tx_now tx) j \<and> \<not> locked (job_id j))
      (\<lambda>j. (the (job_lease_expires_at j), job_id j)) RECONCILIATION_BATCH_SIZE (jobs db)"
  let ?db1 = "fold (exhaust_one cfg tx ns) (enumerate 0 ?rows) db"
  have d: "jobs db' = jobs ?db1" "runs db' = runs ?db1" "bids = map job_build_id ?rows"
    using ex by (auto simp: stage_exhausted_jobs_def Let_def)
  from bid d(3) obtain row where row: "row \<in> set ?rows" "job_build_id row = bid" by auto
  then have m: "row \<in> set (jobs db)" using set_select_ordered by fastforce
  then have "get_row job_id (job_id row) (jobs db) = Some row" using inv by (simp add: jobs_inv_def get_row_unique)
  then have new: "get_row job_id (job_id row) (jobs db') = Some (exhausted_values (tx_now tx) row)"
    using row(1) by (simp add: d(1) get_job_exhausted snd_set_enumerate)
  have "unique_by job_build_id (jobs db')" using exhausted_jobs_keeps [OF ex inv] by (simp add: jobs_inv_def)
  moreover have "exhausted_values (tx_now tx) row \<in> set (jobs db')" using get_row_SomeD [OF new] by simp
  ultimately have "get_row job_build_id bid (jobs db') = Some (exhausted_values (tx_now tx) row)"
    using get_row_unique row(2) by (fastforce simp: exhausted_values_def)
  moreover have "\<not> run_in_flight r" if "get_build_run bid db' = Some r" for r
  proof -
    obtain i where "(i, row) \<in> set (enumerate 0 ?rows)" using row(1) snd_set_enumerate [of 0 ?rows] by force
    then show ?thesis using exhausted_run_not_in_flight [of "(i, row)" "enumerate 0 ?rows" cfg tx ns db r] that row(2) d(2)
      by (simp add: get_build_run_def)
  qed
  ultimately show ?thesis
    by (auto simp: get_job_by_build_id_def exhausted_values_def exhaust_error_def)
qed

theorem exhausted_job_orphans_run_witness:
  "\<not> (\<exists>r. get_build_run ''b1'' (snd (stage_exhausted_jobs example_settings (example_txn 20000003 ''x'') (\<lambda>_. False) ''n'' claimed_jobs)) = Some r \<and>
        run_in_flight r)"
proof -
  have "''b1'' \<in> set (fst (stage_exhausted_jobs example_settings (example_txn 20000003 ''x'') (\<lambda>_. False) ''n'' claimed_jobs))"
    by (simp add: stage_exhausted_jobs_def exhausted_job_def RECONCILIATION_BATCH_SIZE_def job_example_defs build_example_defs table_simps)
  then show ?thesis using exhausted_job_orphans_run [OF claimed_jobs_inv prod.collapse [symmetric]] by blast
qed

text \<open>The index covers the build queue from an instant on: the recovery listing names the namespace
  whenever a job is ready.\<close>

definition builds_listed :: "settings \<Rightarrow> string \<Rightarrow> timestamp \<Rightarrow> 'a jobs_db_scheme \<Rightarrow> bool" where
  "builds_listed cfg ns now db \<longleftrightarrow>
     (\<forall>t \<ge> now. build_work_pending t db \<longrightarrow> ns \<in> set (list_pending_namespaces cfg WORKER_RECOVERY_KINDS t db))"

lemma builds_listed_if_covered:
  "distributed_runtime_enabled cfg \<Longrightarrow> build_queue.covered ns K_BUILD now db \<Longrightarrow> builds_listed cfg ns now db"
  by (auto simp: builds_listed_def build_queue.covered_def set_list_pending_namespaces WORKER_RECOVERY_KINDS_def)

lemma pending_rewrite:
  assumes "jobs db' = update_where P f (jobs db)" and "\<And>j. P j \<Longrightarrow> \<not> job_ready t (f j)" and "build_work_pending t db'"
  shows "build_work_pending t db"
proof -
  obtain j where "j \<in> set (jobs db)" "job_ready t (if P j then f j else j)"
    using assms(1,3) by (auto simp: build_work_pending_iff set_update_where)
  then show ?thesis using assms(2) by (auto simp: build_work_pending_iff split: if_splits)
qed

lemma claim_next_job_index: "claim_next_job tx locked w rec db = (r, db') \<Longrightarrow> work_rows db' = work_rows db \<and> wake_rows db' = wake_rows db"
  by (auto simp: claim_next_job_def Let_def split: option.splits if_splits)

text \<open>No ready build is lost from the index. Staging a job lists its namespace at once; the
  reconciliation leaves the index covering the queue; and a claim (of queued or expired work), a
  finish and a cancellation keep an index that covers the queue covering it, across crashes of the
  worker that holds a claim.\<close>

theorem build_work_never_unlisted:
  assumes dist: "distributed_runtime_enabled cfg"
    and cov: "build_queue.covered ns K_BUILD (tx_now tx) db"
  shows "(\<forall>j db'. stage_job cfg tx' bid ns m db0 = Inr (j, db') \<longrightarrow> builds_listed cfg ns now db') \<and>
    builds_listed cfg ns (tx_stmt tx') (snd (stage_exhausted_jobs cfg tx' locked ns db0)) \<and>
    builds_listed cfg ns (tx_now tx) (snd (claim_next_job tx locked worker [] db)) \<and>
    (\<forall>r db'. finish_claimed_job tx jid worker bid tok g status err db = Inr (r, db') \<longrightarrow> builds_listed cfg ns (tx_now tx) db') \<and>
    (\<forall>j db'. stage_job_cancelled tx jid db = Inr (j, db') \<longrightarrow> builds_listed cfg ns (tx_now tx) db')"
proof (intro conjI allI impI)
  fix j db' assume "stage_job cfg tx' bid ns m db0 = Inr (j, db')"
  then have "\<exists>d. db' = snd (append_wake cfg (tx_wakes tx' 0) (tx_stmt tx') ns K_BUILD d)"
    by (auto simp: stage_job_def Let_def split: if_splits)
  then show "builds_listed cfg ns now db'"
    using dist by (auto simp: builds_listed_def set_list_pending_namespaces WORKER_RECOVERY_KINDS_def append_wake_listed [OF dist])
next
  show "builds_listed cfg ns (tx_stmt tx') (snd (stage_exhausted_jobs cfg tx' locked ns db0))"
    unfolding stage_exhausted_jobs_def Let_def snd_conv
    by (rule builds_listed_if_covered [OF dist build_queue.refresh_quiet_covers [OF dist]])
next
  obtain r db' where c: "claim_next_job tx locked worker [] db = (r, db')" by force
  have "build_queue.covered ns K_BUILD (tx_now tx) db'"
  proof (rule build_queue.covered_step [OF cov])
    show "work_rows db' = work_rows db" "set (wake_rows db) \<subseteq> set (wake_rows db')" using claim_next_job_index [OF c] by auto
    fix t assume "tx_now tx \<le> t" "build_work_pending t db'"
    then show "build_work_pending t db \<or> build_work_pending (tx_now tx) db"
    proof (cases "db' = db")
      case False
      then obtain row where "first_row (select_ordered (\<lambda>j. job_claimable (tx_now tx) [] j \<and> \<not> locked (job_id j)) claim_order (Suc 0) (jobs db)) = Some row"
        using claim_next_job_cases [OF c] by auto
      then have "row \<in> set (jobs db)" "job_claimable (tx_now tx) [] row" by (auto dest: first_row_select_Some)
      moreover from this(2) have "job_ready (tx_now tx) row"
        by (cases "job_lease_owner row") (auto simp: job_claimable_def job_ready_def)
      ultimately show ?thesis unfolding build_work_pending_iff by blast
    qed simp
  qed
  then show "builds_listed cfg ns (tx_now tx) (snd (claim_next_job tx locked worker [] db))"
    using c builds_listed_if_covered [OF dist] by simp
next
  fix r db' assume f: "finish_claimed_job tx jid worker bid tok g status err db = Inr (r, db')"
  then have "work_rows db' = work_rows db" "wake_rows db' = wake_rows db" and
    "db' = db \<or> job_is_terminal status \<and> (\<exists>P. jobs db' = update_where P
       (\<lambda>j. (clear_lease j)\<lparr>job_status := status, job_last_error := err, job_updated_at := tx_now tx\<rparr>) (jobs db))"
    by (auto simp: finish_claimed_job_def Let_def split: if_splits)
  then have "build_queue.covered ns K_BUILD (tx_now tx) db'"
    by (intro build_queue.covered_step [OF cov])
      (auto dest!: pending_rewrite simp: job_ready_def job_is_terminal_def job_is_active_def)
  then show "builds_listed cfg ns (tx_now tx) db'" by (rule builds_listed_if_covered [OF dist])
next
  fix j db' assume f: "stage_job_cancelled tx jid db = Inr (j, db')"
  then have "work_rows db' = work_rows db" "wake_rows db' = wake_rows db" and
    "db' = db \<or> (\<exists>P. jobs db' = update_where P (\<lambda>j. (clear_lease j)\<lparr>job_status := BJ_CANCELLED,
       job_lease_generation := job_lease_generation j + 1, job_updated_at := tx_now tx\<rparr>) (jobs db))"
    by (auto simp: stage_job_cancelled_def Let_def split: if_splits option.splits)
  then have "build_queue.covered ns K_BUILD (tx_now tx) db'"
    by (intro build_queue.covered_step [OF cov])
      (auto dest!: pending_rewrite simp: job_ready_def job_is_active_def)
  then show "builds_listed cfg ns (tx_now tx) db'" by (rule builds_listed_if_covered [OF dist])
qed

theorem build_work_never_unlisted_witness:
  "builds_listed example_settings ''n'' (tx_now (example_txn 3 ''t1''))
     (snd (claim_next_job (example_txn 3 ''t1'') (\<lambda>_. False) ''w1'' [] staged_jobs))"
proof -
  have c: "build_queue.covered ''n'' K_BUILD (tx_now (example_txn 3 ''t1'')) staged_jobs"
    by (simp add: build_queue.covered_def namespace_listed_iff staged_jobs_def stage_job_def build_example_defs table_simps)
  have d: "distributed_runtime_enabled example_settings" by (simp add: example_settings_def)
  show ?thesis by (rule conjunct1 [OF conjunct2 [OF conjunct2 [OF build_work_never_unlisted [OF d c]]]])
qed

end
