(* ===== verification/Worker_Runs.thy ===== *)
theory Worker_Runs
  imports Build_Jobs
begin

text \<open>
  The audit records of what compute workers executed (\<open>backend_core/compute_worker_runs_service.py\<close>,
  \<open>persistence/compute_worker_runs/models.py\<close>): idempotent creation and the guarded update that never
  leaves a terminal status. The Pydantic validation of an execution entry is the parameter \<open>dump\<close>;
  operations return the row, its rendering as an API response is not modelled.
\<close>

datatype worker_run_status = WR_RUNNING | WR_SUCCESS | WR_FAILED | WR_CANCELLED

definition worker_run_is_terminal :: "worker_run_status \<Rightarrow> bool" where
  "worker_run_is_terminal s \<longleftrightarrow> s = WR_SUCCESS \<or> s = WR_FAILED \<or> s = WR_CANCELLED"

datatype worker_run_kind = WK_BUILD | WK_PREVIEW | WK_ROW_COUNT | WK_DOWNLOAD | WK_INGEST

type_synonym timings = "(string \<times> float64) list"

record worker_run =
  wr_id :: string
  wr_namespace :: string
  wr_analysis_id :: "string option"
  wr_datasource_id :: string
  wr_kind :: worker_run_kind
  wr_status :: worker_run_status
  wr_request_json :: payload
  wr_result_json :: "payload option"
  wr_error_message :: "string option"
  wr_created_at :: timestamp
  wr_completed_at :: "timestamp option"
  wr_duration_ms :: "int option"
  wr_step_timings :: timings
  wr_query_plan :: "string option"
  wr_progress :: float64
  wr_current_step :: "string option"
  wr_triggered_by :: "string option"

text \<open>The keyword arguments of an update: \<open>None\<close> is a key that is not in \<open>changes\<close>.\<close>

record run_changes =
  ch_analysis_id :: "string option option"
  ch_datasource_id :: "string option"
  ch_kind :: "worker_run_kind option"
  ch_status :: "worker_run_status option"
  ch_request_json :: "payload option"
  ch_result_json :: "payload option option"
  ch_error_message :: "string option option"
  ch_completed_at :: "timestamp option option"
  ch_duration_ms :: "int option option"
  ch_step_timings :: "timings option option"
  ch_query_plan :: "string option option"
  ch_execution_entries :: "json list option option"
  ch_progress :: "float64 option"
  ch_current_step :: "string option option"
  ch_triggered_by :: "string option option"

record worker_runs_db = jobs_db +
  worker_runs :: "worker_run list"

text \<open>The payload of a creation is the row to insert with its entries and idempotency key.\<close>

record run_payload =
  rp_run :: worker_run
  rp_execution_entries :: "json list"
  rp_idempotency_key :: "string option"

definition normalize_step_timings :: "timings option \<Rightarrow> timings" where
  "normalize_step_timings v = (case v of None \<Rightarrow> [] | Some d \<Rightarrow> fold (\<lambda>(k, x) m. AList.update k x m) d [])"

fun dump_entries :: "(json \<Rightarrow> json result) \<Rightarrow> json list \<Rightarrow> json list result" where
  "dump_entries dump [] = Inr []"
| "dump_entries dump (e # es) =
     and_then (dump e) (\<lambda>d. and_then (dump_entries dump es) (\<lambda>ds. Inr (d # ds)))"

definition same_request :: "string \<Rightarrow> worker_run \<Rightarrow> worker_run \<Rightarrow> bool" where
  "same_request ns p existing \<longleftrightarrow>
     wr_namespace existing = ns \<and> wr_analysis_id existing = wr_analysis_id p \<and>
     wr_datasource_id existing = wr_datasource_id p \<and> wr_kind existing = wr_kind p \<and>
     wr_request_json existing = wr_request_json p"

definition insert_worker_run :: "worker_run \<Rightarrow> 'a worker_runs_db_scheme \<Rightarrow> (worker_run \<times> 'a worker_runs_db_scheme) result" where
  "insert_worker_run r db =
     (if get_row wr_id (wr_id r) (worker_runs db) \<noteq> None then Inl (RuntimeError ''IntegrityError'')
      else Inr (r, db\<lparr>worker_runs := worker_runs db @ [r]\<rparr>))"

definition stage_create_compute_worker_run ::
  "(json \<Rightarrow> json result) \<Rightarrow> string \<Rightarrow> run_payload \<Rightarrow> 'a worker_runs_db_scheme \<Rightarrow> (worker_run \<times> 'a worker_runs_db_scheme) result" where
  "stage_create_compute_worker_run dump ns p db =
     (let r = rp_run p;
          existing = (if rp_idempotency_key p = None then None else get_row wr_id (wr_id r) (worker_runs db))
      in case existing of
           Some e \<Rightarrow>
             if same_request ns r e then Inr (e, db)
             else Inl (ValueError ''Compute worker run idempotency key was reused for a different request'')
         | None \<Rightarrow>
             and_then (dump_entries dump (rp_execution_entries p)) (\<lambda>ds.
                  let result = (if rp_execution_entries p = [] then wr_result_json r
                                else Some (AList.update ''execution_entries'' (JList ds)
                                             (case wr_result_json r of None \<Rightarrow> [] | Some d \<Rightarrow> d)))
                  in insert_worker_run (r\<lparr>wr_namespace := ns, wr_result_json := result,
                       wr_step_timings := normalize_step_timings (Some (wr_step_timings r))\<rparr>) db))"

definition get_compute_worker_run :: "string \<Rightarrow> string \<Rightarrow> 'a worker_runs_db_scheme \<Rightarrow> worker_run option" where
  "get_compute_worker_run ns rid db =
     (case get_row wr_id rid (worker_runs db) of
        None \<Rightarrow> None | Some r \<Rightarrow> if wr_namespace r \<noteq> ns then None else Some r)"

text \<open>The assignments of an update, in the order of the code: \<open>result_json\<close> is merged before
  \<open>execution_entries\<close> rewrites it.\<close>

definition merge_result :: "bool \<Rightarrow> payload option option \<Rightarrow> payload option \<Rightarrow> payload option" where
  "merge_result merge ch old =
     (case ch of
        None \<Rightarrow> old
      | Some None \<Rightarrow> None
      | Some (Some new) \<Rightarrow> Some (merge_obj (if merge then (case old of None \<Rightarrow> [] | Some d \<Rightarrow> d) else []) new))"

definition put_entries :: "json list option option \<Rightarrow> payload option \<Rightarrow> payload option" where
  "put_entries ch result =
     (let d = (case result of None \<Rightarrow> [] | Some x \<Rightarrow> x)
      in case ch of
           None \<Rightarrow> result
         | Some None \<Rightarrow> Some (AList.delete ''execution_entries'' d)
         | Some (Some es) \<Rightarrow> Some (AList.update ''execution_entries'' (JList es) d))"

definition or_keep :: "'a option \<Rightarrow> 'a \<Rightarrow> 'a" where
  "or_keep ch old = (case ch of None \<Rightarrow> old | Some v \<Rightarrow> v)"

definition apply_changes :: "bool \<Rightarrow> run_changes \<Rightarrow> json list option option \<Rightarrow> worker_run \<Rightarrow> worker_run" where
  "apply_changes merge ch entries r =
     r\<lparr>wr_analysis_id := or_keep (ch_analysis_id ch) (wr_analysis_id r),
       wr_datasource_id := or_keep (ch_datasource_id ch) (wr_datasource_id r),
       wr_kind := or_keep (ch_kind ch) (wr_kind r),
       wr_status := or_keep (ch_status ch) (wr_status r),
       wr_request_json := or_keep (ch_request_json ch) (wr_request_json r),
       wr_result_json := put_entries entries (merge_result merge (ch_result_json ch) (wr_result_json r)),
       wr_error_message := or_keep (ch_error_message ch) (wr_error_message r),
       wr_completed_at := or_keep (ch_completed_at ch) (wr_completed_at r),
       wr_duration_ms := or_keep (ch_duration_ms ch) (wr_duration_ms r),
       wr_step_timings := or_keep (map_option normalize_step_timings (ch_step_timings ch)) (wr_step_timings r),
       wr_query_plan := or_keep (ch_query_plan ch) (wr_query_plan r),
       wr_progress := or_keep (ch_progress ch) (wr_progress r),
       wr_current_step := or_keep (ch_current_step ch) (wr_current_step r),
       wr_triggered_by := or_keep (ch_triggered_by ch) (wr_triggered_by r)\<rparr>"

definition dumped_entries :: "(json \<Rightarrow> json result) \<Rightarrow> json list option option \<Rightarrow> json list option option result" where
  "dumped_entries dump ch =
     (case ch of
        Some (Some es) \<Rightarrow> and_then (dump_entries dump es) (\<lambda>ds. Inr (Some (Some ds)))
      | other \<Rightarrow> Inr other)"

text \<open>With \<open>serialize_response=False\<close> the operation answers whether the change was not rejected.\<close>

definition stage_update_compute_worker_run ::
  "(json \<Rightarrow> json result) \<Rightarrow> string \<Rightarrow> string \<Rightarrow> bool \<Rightarrow> run_changes \<Rightarrow> 'a worker_runs_db_scheme \<Rightarrow>
   (bool \<times> 'a worker_runs_db_scheme) result" where
  "stage_update_compute_worker_run dump ns rid merge ch db =
     (case find (\<lambda>r. wr_id r = rid \<and> wr_namespace r = ns) (worker_runs db) of
        None \<Rightarrow> Inl (AppError ''ENGINE_RUN_NOT_FOUND'' (''Compute worker run '' @ rid @ '' not found''))
      | Some r \<Rightarrow>
          if worker_run_is_terminal (wr_status r)
          then Inr (\<not> (ch_status ch \<noteq> None \<and> ch_status ch \<noteq> Some (wr_status r)), db)
          else and_then (dumped_entries dump (ch_execution_entries ch)) (\<lambda>es.
                    Inr (True, db\<lparr>worker_runs := update_where (\<lambda>x. wr_id x = rid) (\<lambda>_. apply_changes merge ch es r)
                                   (worker_runs db)\<rparr>)))"

end
