(* ===== verification/Compute_Types.thy ===== *)
theory Compute_Types
  imports Worker_Runs
begin

text \<open>
  The data of the compute request queue: kinds and commands (\<open>compute.proto\<close>, as far as
  \<open>backend_core/compute_requests_service.py\<close> reads them), the rows of
  \<open>persistence/compute_requests/models.py\<close>, the datasource rows they refer to, and the pure functions
  of the service: dependencies and engine identity of a command, flight keys, priorities, caching.

  A protobuf message and its bytes are the same value here; the fields the service never reads are
  carried along in \<open>cmd_settings\<close> and \<open>rs_response\<close>. A string field that is not set is the empty string.
\<close>

subsection \<open>Commands\<close>

datatype compute_kind =
    CK_PREVIEW | CK_SCHEMA | CK_ROW_COUNT | CK_DOWNLOAD | CK_EXPORT
  | CK_CREATE_FILE_DATASOURCE | CK_CREATE_DATABASE_DATASOURCE | CK_CREATE_ICEBERG_DATASOURCE | CK_INGEST_DATASOURCE
  | CK_DATASOURCE_SCHEMA | CK_DATASOURCE_COLUMN_STATS | CK_COMPARE_ICEBERG_SNAPSHOTS
  | CK_SPAWN_ENGINE | CK_CONFIGURE_ENGINE | CK_SHUTDOWN_ENGINE | CK_DATASOURCE_PREFLIGHT

datatype compute_status = CR_QUEUED | CR_RUNNING | CR_COMPLETED | CR_FAILED

datatype worker_scope = SCOPE_DATASOURCE_PREVIEW | SCOPE_ANALYSIS_INTERACTIVE | SCOPE_BUILD

datatype reuse_policy = POLICY_SHARED | POLICY_EXCLUSIVE

record worker_identity =
  wi_scope :: worker_scope
  wi_reuse_policy :: reuse_policy
  wi_resource_id :: string

datatype step_config = Cfg_Join string | Cfg_Union_By_Name "string list" | Cfg_View | Cfg_Other string

record pipeline_tab =
  tab_datasource_id :: string
  tab_steps :: "step_config list"

record pipeline =
  pl_analysis_id :: string
  pl_tabs :: "pipeline_tab list"

datatype preflight_action = PF_INITIAL | PF_PREVIEW | PF_RESOLVE_SELECTION

record preflight =
  pf_preflight_id :: string
  pf_source_path :: string
  pf_action :: preflight_action
  pf_datasource_id :: "string option"
  pf_delete_source :: bool

datatype datasource_command =
    DC_Create_File string
  | DC_Create_Database
  | DC_Create_Iceberg
  | DC_Ingest string
  | DC_Schema string bool
  | DC_Column_Stats string
  | DC_Compare_Snapshots string
  | DC_Preflight preflight

datatype command_body =
    C_Preview "worker_identity option" string pipeline
  | C_Schema string pipeline
  | C_Row_Count string pipeline
  | C_Download string pipeline
  | C_Export string pipeline
  | C_Spawn_Engine worker_identity
  | C_Configure_Engine worker_identity
  | C_Shutdown_Engine worker_identity
  | C_Datasource "datasource_command option"

record compute_command =
  cmd_input_revisions :: "(string \<times> int) list"
  cmd_body :: "command_body option"
  cmd_settings :: payload

record command_envelope =
  ce_kind :: compute_kind
  ce_correlation_id :: string
  ce_command :: compute_command

record response_envelope =
  rs_kind :: compute_kind
  rs_status :: compute_status
  rs_correlation_id :: string
  rs_response :: payload
  rs_error_message :: "string option"

subsection \<open>Rows\<close>

record compute_request =
  rq_id :: string
  rq_namespace :: string
  rq_kind :: compute_kind
  rq_status :: compute_status
  rq_worker_identity :: "worker_identity option"
  rq_command_envelope :: command_envelope
  rq_response_envelope :: "response_envelope option"
  rq_error_message :: "string option"
  rq_artifact_path :: "string option"
  rq_artifact_name :: "string option"
  rq_artifact_content_type :: "string option"
  rq_lease_owner :: "string option"
  rq_claim_token :: "string option"
  rq_lease_generation :: int
  rq_lease_expires_at :: "timestamp option"
  rq_claimed_at :: "timestamp option"
  rq_last_renewed_at :: "timestamp option"
  rq_attempts :: int
  rq_max_attempts :: int
  rq_created_at :: timestamp
  rq_updated_at :: timestamp
  rq_completed_at :: "timestamp option"

record request_datasource =
  rqd_request_id :: string
  rqd_datasource_id :: string

record request_flight =
  fl_namespace :: string
  fl_flight_key :: string
  fl_request_id :: string
  fl_created_at :: timestamp
  fl_expires_at :: "timestamp option"

record datasource =
  ds_id :: string
  ds_name :: string
  ds_description :: "string option"
  ds_source_type :: string
  ds_config :: json
  ds_schema_cache :: "json option"
  ds_revision :: int
  ds_created_by_analysis_id :: "string option"
  ds_created_by :: string
  ds_is_hidden :: bool
  ds_is_pending_delete :: bool
  ds_owner_id :: "string option"
  ds_created_at :: timestamp
  ds_delete_requested_at :: "timestamp option"

record compute_db = worker_runs_db +
  requests :: "compute_request list"
  request_datasources :: "request_datasource list"
  flights :: "request_flight list"
  datasources :: "datasource list"

definition request_active :: "compute_status \<Rightarrow> bool" where
  "request_active s \<longleftrightarrow> s = CR_QUEUED \<or> s = CR_RUNNING"

subsection \<open>What a command means to the queue\<close>

definition HIGH_PRIORITY_REQUEST_KINDS :: "compute_kind list" where
  "HIGH_PRIORITY_REQUEST_KINDS =
     [CK_SPAWN_ENGINE, CK_CONFIGURE_ENGINE, CK_SHUTDOWN_ENGINE, CK_PREVIEW, CK_SCHEMA, CK_ROW_COUNT, CK_DATASOURCE_SCHEMA,
      CK_DATASOURCE_COLUMN_STATS, CK_COMPARE_ICEBERG_SNAPSHOTS, CK_DATASOURCE_PREFLIGHT, CK_DOWNLOAD, CK_EXPORT]"

definition USER_CREATE_REQUEST_KINDS :: "compute_kind list" where
  "USER_CREATE_REQUEST_KINDS = [CK_CREATE_FILE_DATASOURCE, CK_CREATE_DATABASE_DATASOURCE, CK_CREATE_ICEBERG_DATASOURCE]"

definition request_priority :: "compute_kind \<Rightarrow> nat" where
  "request_priority k =
     (if k \<in> set HIGH_PRIORITY_REQUEST_KINDS then 0 else if k \<in> set USER_CREATE_REQUEST_KINDS then 1 else 2)"

definition DATASOURCE_FLIGHT_REQUEST_KINDS :: "compute_kind list" where
  "DATASOURCE_FLIGHT_REQUEST_KINDS = [CK_DATASOURCE_SCHEMA, CK_DATASOURCE_COLUMN_STATS, CK_COMPARE_ICEBERG_SNAPSHOTS]"

definition ANALYSIS_FLIGHT_REQUEST_KINDS :: "compute_kind list" where
  "ANALYSIS_FLIGHT_REQUEST_KINDS = [CK_PREVIEW, CK_SCHEMA, CK_ROW_COUNT]"

definition SHARED_FLIGHT_REQUEST_KINDS :: "compute_kind list" where
  "SHARED_FLIGHT_REQUEST_KINDS = ANALYSIS_FLIGHT_REQUEST_KINDS @ DATASOURCE_FLIGHT_REQUEST_KINDS"

text \<open>\<open>command.WhichOneof('command')\<close>.\<close>

definition command_name :: "compute_command \<Rightarrow> string option" where
  "command_name c =
     map_option (\<lambda>b. case b of
         C_Preview _ _ _ \<Rightarrow> ''preview'' | C_Schema _ _ \<Rightarrow> ''schema'' | C_Row_Count _ _ \<Rightarrow> ''row_count''
       | C_Download _ _ \<Rightarrow> ''download'' | C_Export _ _ \<Rightarrow> ''export'' | C_Spawn_Engine _ \<Rightarrow> ''spawn_engine''
       | C_Configure_Engine _ \<Rightarrow> ''configure_engine'' | C_Shutdown_Engine _ \<Rightarrow> ''shutdown_engine''
       | C_Datasource _ \<Rightarrow> ''datasource'') (cmd_body c)"

definition shared_flight_command :: "compute_kind \<Rightarrow> string" where
  "shared_flight_command k =
     (if k = CK_PREVIEW then ''preview'' else if k = CK_SCHEMA then ''schema''
      else if k = CK_ROW_COUNT then ''row_count'' else ''datasource'')"

definition datasource_preview_identity :: "string \<Rightarrow> worker_identity" where
  "datasource_preview_identity rid =
     \<lparr>wi_scope = SCOPE_DATASOURCE_PREVIEW, wi_reuse_policy = POLICY_SHARED, wi_resource_id = rid\<rparr>"

definition interactive_identity :: "string \<Rightarrow> pipeline \<Rightarrow> worker_identity option" where
  "interactive_identity aid p =
     (let analysis_id = (if pl_analysis_id p \<noteq> [] then pl_analysis_id p else aid)
      in if analysis_id = [] then None
         else Some \<lparr>wi_scope = SCOPE_ANALYSIS_INTERACTIVE, wi_reuse_policy = POLICY_SHARED, wi_resource_id = analysis_id\<rparr>)"

text \<open>The \<open>datasource_id\<close> field of a datasource command, empty when the message has no such field or
  it is not set.\<close>

definition command_datasource_id :: "datasource_command \<Rightarrow> string" where
  "command_datasource_id c =
     (case c of DC_Ingest d \<Rightarrow> d | DC_Schema d _ \<Rightarrow> d | DC_Column_Stats d \<Rightarrow> d | DC_Compare_Snapshots d \<Rightarrow> d
      | DC_Preflight p \<Rightarrow> (case pf_datasource_id p of None \<Rightarrow> [] | Some d \<Rightarrow> d)
      | DC_Create_File _ \<Rightarrow> [] | DC_Create_Database \<Rightarrow> [] | DC_Create_Iceberg \<Rightarrow> [])"

definition compute_worker_identity_for_command :: "string \<Rightarrow> compute_command \<Rightarrow> worker_identity option" where
  "compute_worker_identity_for_command request_id c =
     (case cmd_body c of
        None \<Rightarrow> None
      | Some (C_Spawn_Engine i) \<Rightarrow> Some i
      | Some (C_Configure_Engine i) \<Rightarrow> Some i
      | Some (C_Shutdown_Engine i) \<Rightarrow> Some i
      | Some (C_Preview (Some i) _ _) \<Rightarrow> Some i
      | Some (C_Preview None aid p) \<Rightarrow> interactive_identity aid p
      | Some (C_Schema aid p) \<Rightarrow> interactive_identity aid p
      | Some (C_Row_Count aid p) \<Rightarrow> interactive_identity aid p
      | Some (C_Download aid p) \<Rightarrow> interactive_identity aid p
      | Some (C_Export aid p) \<Rightarrow> interactive_identity aid p
      | Some (C_Datasource None) \<Rightarrow> None
      | Some (C_Datasource (Some d)) \<Rightarrow>
          (case d of
             DC_Create_File _ \<Rightarrow> Some (datasource_preview_identity request_id)
           | DC_Create_Database \<Rightarrow> Some (datasource_preview_identity request_id)
           | DC_Create_Iceberg \<Rightarrow> Some (datasource_preview_identity request_id)
           | DC_Preflight p \<Rightarrow> Some (datasource_preview_identity (pf_preflight_id p))
           | _ \<Rightarrow> if command_datasource_id d \<noteq> [] then Some (datasource_preview_identity (command_datasource_id d)) else None))"

definition pipeline_datasource_ids :: "pipeline \<Rightarrow> string list" where
  "pipeline_datasource_ids p =
     remdups (filter (\<lambda>d. d \<noteq> []) (map tab_datasource_id (pl_tabs p)) @
       concat (map (\<lambda>s. case s of
            Cfg_Join r \<Rightarrow> if r \<noteq> [] then [r] else []
          | Cfg_Union_By_Name ss \<Rightarrow> filter (\<lambda>d. d \<noteq> []) ss
          | _ \<Rightarrow> []) (concat (map tab_steps (pl_tabs p)))))"

definition datasource_ids_for_command :: "compute_command \<Rightarrow> string list" where
  "datasource_ids_for_command c =
     (case cmd_body c of
        None \<Rightarrow> []
      | Some (C_Datasource None) \<Rightarrow> []
      | Some (C_Datasource (Some d)) \<Rightarrow> if command_datasource_id d \<noteq> [] then [command_datasource_id d] else []
      | Some (C_Preview _ _ p) \<Rightarrow> pipeline_datasource_ids p
      | Some (C_Schema _ p) \<Rightarrow> pipeline_datasource_ids p
      | Some (C_Row_Count _ p) \<Rightarrow> pipeline_datasource_ids p
      | Some (C_Download _ p) \<Rightarrow> pipeline_datasource_ids p
      | Some (C_Export _ p) \<Rightarrow> pipeline_datasource_ids p
      | Some _ \<Rightarrow> [])"

text \<open>The protocol number of a kind, in decimal.\<close>

fun kind_number :: "compute_kind \<Rightarrow> string" where
  "kind_number CK_PREVIEW = ''1''"
| "kind_number CK_SCHEMA = ''2''"
| "kind_number CK_ROW_COUNT = ''3''"
| "kind_number CK_DOWNLOAD = ''4''"
| "kind_number CK_EXPORT = ''5''"
| "kind_number CK_CREATE_FILE_DATASOURCE = ''6''"
| "kind_number CK_CREATE_DATABASE_DATASOURCE = ''7''"
| "kind_number CK_CREATE_ICEBERG_DATASOURCE = ''8''"
| "kind_number CK_INGEST_DATASOURCE = ''9''"
| "kind_number CK_DATASOURCE_SCHEMA = ''10''"
| "kind_number CK_DATASOURCE_COLUMN_STATS = ''11''"
| "kind_number CK_COMPARE_ICEBERG_SNAPSHOTS = ''12''"
| "kind_number CK_SPAWN_ENGINE = ''13''"
| "kind_number CK_CONFIGURE_ENGINE = ''14''"
| "kind_number CK_SHUTDOWN_ENGINE = ''15''"
| "kind_number CK_DATASOURCE_PREFLIGHT = ''16''"

text \<open>\<open>digest\<close> is the hexadecimal SHA-256 digest of the deterministic serialization of a command.\<close>

definition flight_key :: "(compute_command \<Rightarrow> string) \<Rightarrow> compute_kind \<Rightarrow> compute_command \<Rightarrow> string option" where
  "flight_key digest kind c =
     (if kind \<notin> set SHARED_FLIGHT_REQUEST_KINDS then None else Some (kind_number kind @ '':'' @ digest c))"

definition snapshot_input_revisions :: "'a compute_db_scheme \<Rightarrow> compute_command \<Rightarrow> compute_command" where
  "snapshot_input_revisions db c =
     c\<lparr>cmd_input_revisions :=
         concat (map (\<lambda>d. case get_row ds_id d (datasources db) of None \<Rightarrow> [] | Some r \<Rightarrow> [(d, ds_revision r)])
           (sort (datasource_ids_for_command c)))\<rparr>"

definition command_envelope_for_request :: "compute_request \<Rightarrow> command_envelope result" where
  "command_envelope_for_request r =
     (let e = rq_command_envelope r
      in if ce_kind e \<noteq> rq_kind r then Inl (ValueError (''Compute request '' @ rq_id r @ '' envelope kind does not match row kind''))
         else if ce_correlation_id e \<noteq> rq_id r
         then Inl (ValueError (''Compute request '' @ rq_id r @ '' envelope correlation id does not match request id''))
         else Inr e)"

definition response_payload :: "compute_request \<Rightarrow> payload result" where
  "response_payload r =
     (case rq_response_envelope r of
        None \<Rightarrow> Inl (ValueError (''Compute request '' @ rq_id r @ '' has no response envelope''))
      | Some e \<Rightarrow>
          if rs_kind e \<noteq> rq_kind r then Inl (ValueError (''Compute request '' @ rq_id r @ '' response kind does not match row kind''))
          else if rs_status e \<noteq> rq_status r
          then Inl (ValueError (''Compute request '' @ rq_id r @ '' response status does not match row status''))
          else if rs_correlation_id e \<noteq> rq_id r
          then Inl (ValueError (''Compute request '' @ rq_id r @ '' response correlation id does not match request id''))
          else Inr (rs_response e))"

definition is_shared_flight_request :: "(compute_command \<Rightarrow> string) \<Rightarrow> compute_request \<Rightarrow> bool result" where
  "is_shared_flight_request digest r =
     and_then (command_envelope_for_request r) (\<lambda>e. Inr (flight_key digest (rq_kind r) (ce_command e) \<noteq> None))"

definition view_step :: "command_body option \<Rightarrow> bool" where
  "view_step b = (case b of Some (C_Preview _ _ p) \<Rightarrow> list_ex (\<lambda>t. Cfg_View \<in> set (tab_steps t)) (pl_tabs p) | _ \<Rightarrow> False)"

definition schema_refresh :: "command_body option \<Rightarrow> bool" where
  "schema_refresh b = (case b of Some (C_Datasource (Some (DC_Schema _ refresh))) \<Rightarrow> refresh | _ \<Rightarrow> False)"

definition cache_completed_flight :: "compute_request \<Rightarrow> bool result" where
  "cache_completed_flight r =
     (if rq_kind r = CK_PREVIEW
      then and_then (command_envelope_for_request r) (\<lambda>e. Inr (\<not> view_step (cmd_body (ce_command e))))
      else if rq_kind r \<noteq> CK_DATASOURCE_SCHEMA then Inr True
      else and_then (command_envelope_for_request r) (\<lambda>e. Inr (\<not> schema_refresh (cmd_body (ce_command e)))))"

subsection \<open>Reads other services rely on\<close>

definition get_request :: "string \<Rightarrow> 'a compute_db_scheme \<Rightarrow> compute_request option" where
  "get_request rid db = get_row rq_id rid (requests db)"

definition request_claim_live :: "string \<Rightarrow> string \<Rightarrow> string \<Rightarrow> int \<Rightarrow> timestamp \<Rightarrow> compute_request \<Rightarrow> bool" where
  "request_claim_live rid worker tok g lease_now r \<longleftrightarrow>
     rq_id r = rid \<and> rq_status r = CR_RUNNING \<and> rq_lease_owner r = Some worker \<and> rq_claim_token r = Some tok \<and>
     rq_lease_generation r = g \<and> sql_gt (rq_lease_expires_at r) lease_now"

text \<open>\<open>get_active_request_claim\<close> and \<open>lock_active_request_claim\<close>, which differ in the row lock.\<close>

definition active_request_claim ::
  "txn \<Rightarrow> string \<Rightarrow> string \<Rightarrow> string \<Rightarrow> int \<Rightarrow> 'a compute_db_scheme \<Rightarrow> compute_request option" where
  "active_request_claim tx rid worker tok g db = find (request_claim_live rid worker tok g (tx_wall tx)) (requests db)"

definition has_active_request_for_datasource :: "string \<Rightarrow> 'a compute_db_scheme \<Rightarrow> bool" where
  "has_active_request_for_datasource did db \<longleftrightarrow>
     list_ex (\<lambda>a. rqd_datasource_id a = did \<and>
        list_ex (\<lambda>r. rq_id r = rqd_request_id a \<and> request_active (rq_status r)) (requests db)) (request_datasources db)"

definition list_terminal_requests :: "string list \<Rightarrow> 'a compute_db_scheme \<Rightarrow> compute_request list" where
  "list_terminal_requests ids db =
     (if ids = [] then []
      else filter (\<lambda>r. rq_id r \<in> set ids \<and> (rq_status r = CR_COMPLETED \<or> rq_status r = CR_FAILED)) (requests db))"

end
