(* ===== verification/Storage_Cleanup.thy ===== *)
theory Storage_Cleanup
  imports Compute_Types Urls
begin

text \<open>
  Durable ownership of stored objects (\<open>backend_core/storage_cleanup_service.py\<close>). Every object or
  prefix the runtime writes to managed storage is tracked by one outbox event of the kind
  \<open>storage_cleanup\<close>, the intent, whose payload names its owner and its phase. An intent is tracked
  until a datasource publishes the object or until a cleanup claim is authorized to delete it;
  authorization is refused while anything may still read or write the object.

  Parameters: \<open>uuid5\<close> is \<open>uuid.uuid5(uuid.NAMESPACE_URL, .)\<close>, \<open>ns\<close> the namespace of the session, \<open>dburl\<close>
  the setting \<open>database_url\<close>. \<open>env\<close> is what other sessions commit between the unlocked read of an
  intent and the row locks of its owner and itself; from the locks to the commit an operation is
  one step. \<open>i\<close> counts the wakes of the transaction. The service writes strings to the payload fields
  it reads with \<open>str\<close>; \<open>str\<close> of another JSON value is not modelled.
\<close>

subsection \<open>Phases, owners and identities\<close>

datatype storage_phase = SP_TRACKED | SP_PUBLISHED | SP_AUTHORIZED | SP_DELETED

fun phase_value :: "storage_phase \<Rightarrow> string" where
  "phase_value SP_TRACKED = ''tracked''"
| "phase_value SP_PUBLISHED = ''published''"
| "phase_value SP_AUTHORIZED = ''authorized''"
| "phase_value SP_DELETED = ''deleted''"

datatype storage_owner = OW_UPLOAD | OW_PREFLIGHT | OW_SOURCE | OW_DATASOURCE | OW_COMPUTE | OW_BUILD

fun owner_value :: "storage_owner \<Rightarrow> string" where
  "owner_value OW_UPLOAD = ''upload''"
| "owner_value OW_PREFLIGHT = ''preflight''"
| "owner_value OW_SOURCE = ''source''"
| "owner_value OW_DATASOURCE = ''datasource''"
| "owner_value OW_COMPUTE = ''compute''"
| "owner_value OW_BUILD = ''build''"

datatype owner_row = Owner_Request compute_request | Owner_Job build_job | Owner_Datasource datasource

definition PREFLIGHT_TTL :: int where
  "PREFLIGHT_TTL = seconds (30 * 60)"

text \<open>Python equality of dicts does not see the order of the items.\<close>

definition same_dict :: "payload \<Rightarrow> payload \<Rightarrow> bool" where
  "same_dict p q \<longleftrightarrow> set p = set q"

definition str_field :: "string \<Rightarrow> payload \<Rightarrow> string result" where
  "str_field k p =
     (case map_of p k of
        None \<Rightarrow> Inl (KeyError k)
      | Some (JStr s) \<Rightarrow> Inr s
      | Some _ \<Rightarrow> Inl (ValueError (k @ '' is not a string'')))"

definition get_str :: "string \<Rightarrow> payload \<Rightarrow> string option" where
  "get_str k p = (case map_of p k of Some (JStr s) \<Rightarrow> Some s | _ \<Rightarrow> None)"

definition phase_of :: "payload \<Rightarrow> storage_phase result" where
  "phase_of p =
     and_then (str_field ''phase'' p) (\<lambda>s.
       if s = ''tracked'' then Inr SP_TRACKED else if s = ''published'' then Inr SP_PUBLISHED
       else if s = ''authorized'' then Inr SP_AUTHORIZED else if s = ''deleted'' then Inr SP_DELETED
       else Inl (ValueError (s @ '' is not a valid StorageCleanupPhase'')))"

definition with_phase :: "storage_phase \<Rightarrow> payload \<Rightarrow> payload" where
  "with_phase ph p = AList.update ''phase'' (JStr (phase_value ph)) p"

definition MANAGED_ROOTS :: "string list" where
  "MANAGED_ROOTS = [''uploads'', ''clean'', ''exports'', ''runtime-staging'']"

definition is_managed_url :: "string \<Rightarrow> string list \<Rightarrow> string \<Rightarrow> bool result" where
  "is_managed_url ns roots url =
     and_then (urlparse url) (\<lambda>u.
       Inr (url_scheme u = ''s3'' \<and> url_netloc u = ns \<and> hd (path_segments u) \<in> set roots \<and>
            \<not> list_ex (\<lambda>s. s = ''.'' \<or> s = ''..'') (path_segments u)))"

definition storage_event_id :: "(string \<Rightarrow> string) \<Rightarrow> string \<Rightarrow> string \<Rightarrow> string" where
  "storage_event_id uuid5 ns url = uuid5 (''dataforge-storage-cleanup:'' @ ns @ '':'' @ url)"

subsection \<open>Intents\<close>

definition put_event :: "outbox_event \<Rightarrow> 'a outbox_db_scheme \<Rightarrow> 'a outbox_db_scheme" where
  "put_event e db = db\<lparr>events := update_where (\<lambda>r. ev_id r = ev_id e) (\<lambda>_. e) (events db)\<rparr>"

definition storage_wake :: "settings \<Rightarrow> txn \<Rightarrow> nat \<Rightarrow> string \<Rightarrow> 'a work_db_scheme \<Rightarrow> 'a work_db_scheme" where
  "storage_wake cfg tx i ns db =
     notify_on_commit [(''kind'', JStr ''storage_cleanup_wakeup''), (''namespace'', JStr ns)]
       (snd (append_wake cfg (tx_wakes tx i) (tx_stmt tx) ns K_STORAGE_CLEANUP db))"

definition rearm_event :: "timestamp \<Rightarrow> timestamp option \<Rightarrow> outbox_event \<Rightarrow> outbox_event" where
  "rearm_event now available_at e =
     e\<lparr>ev_status := OB_PENDING, ev_claim_token := None, ev_lease_expires_at := None,
       ev_lease_generation := ev_lease_generation e + 1,
       ev_available_at := (case available_at of None \<Rightarrow> now | Some t \<Rightarrow> t), ev_updated_at := now\<rparr>"

definition rearm ::
  "settings \<Rightarrow> txn \<Rightarrow> nat \<Rightarrow> string \<Rightarrow> outbox_event \<Rightarrow> timestamp option \<Rightarrow> 'a outbox_db_scheme \<Rightarrow> 'a outbox_db_scheme" where
  "rearm cfg tx i ns e available_at db =
     storage_wake cfg tx i ns (put_event (rearm_event (tx_now tx) available_at e) db)"

definition lock_owner :: "payload \<Rightarrow> 'a compute_db_scheme \<Rightarrow> owner_row option result" where
  "lock_owner p db =
     and_then (str_field ''owner_kind'' p) (\<lambda>kind. and_then (str_field ''owner_id'' p) (\<lambda>oid.
       if kind = owner_value OW_UPLOAD then Inr None
       else if kind = owner_value OW_BUILD then Inr (map_option Owner_Job (get_row job_id oid (jobs db)))
       else if kind = owner_value OW_DATASOURCE then Inr (map_option Owner_Datasource (get_row ds_id oid (datasources db)))
       else if kind \<in> {owner_value OW_PREFLIGHT, owner_value OW_SOURCE, owner_value OW_COMPUTE}
       then Inr (map_option Owner_Request (get_row rq_id oid (requests db)))
       else Inl (ValueError ''Unsupported storage cleanup owner kind'')))"

definition new_intent :: "string \<Rightarrow> timestamp \<Rightarrow> timestamp option \<Rightarrow> string \<Rightarrow> payload \<Rightarrow> outbox_event" where
  "new_intent eid now available_at url p =
     (new_event eid now STORAGE_CLEANUP_KIND (with_phase SP_TRACKED (AList.update ''url'' (JStr url) p)))
       \<lparr>ev_catalog_namespace := get_str ''catalog_namespace'' p, ev_catalog_table := get_str ''catalog_table'' p,
        ev_catalog_family_prefix := get_str ''catalog_family_prefix'' p,
        ev_available_at := (case available_at of None \<Rightarrow> now | Some t \<Rightarrow> t)\<rparr>"

definition identity_in_use :: "string \<Rightarrow> outbox_event \<Rightarrow> bool" where
  "identity_in_use url e \<longleftrightarrow> ev_kind e \<noteq> STORAGE_CLEANUP_KIND \<or> map_of (ev_payload_json e) ''url'' \<noteq> Some (JStr url)"

definition enqueue_intent ::
  "(string \<Rightarrow> string) \<Rightarrow> settings \<Rightarrow> txn \<Rightarrow> nat \<Rightarrow> string \<Rightarrow> string \<Rightarrow> payload \<Rightarrow> timestamp option \<Rightarrow> 'a outbox_db_scheme \<Rightarrow>
   (outbox_event \<times> 'a outbox_db_scheme) result" where
  "enqueue_intent uuid5 cfg tx i ns url p available_at db =
     and_then (is_managed_url ns MANAGED_ROOTS url) (\<lambda>managed.
       if \<not> managed then Inl (ValueError ''Storage cleanup must target an exact managed namespace object or prefix'')
       else case get_row ev_id (storage_event_id uuid5 ns url) (events db) of
              Some e \<Rightarrow>
                if identity_in_use url e then Inl (ValueError ''Storage cleanup identity is already in use'')
                else if available_at = None \<and> (ev_status e = OB_PENDING \<or> ev_status e = OB_FAILED)
                then let e1 = e\<lparr>ev_available_at := tx_now tx\<rparr> in Inr (e1, storage_wake cfg tx i ns (put_event e1 db))
                else Inr (e, db)
            | None \<Rightarrow>
                let e = new_intent (storage_event_id uuid5 ns url) (tx_now tx) available_at url p
                in Inr (e, storage_wake cfg tx i ns (db\<lparr>events := events db @ [e]\<rparr>)))"

subsection \<open>Uploads and preflight sources\<close>

definition owner_payload :: "string \<Rightarrow> storage_owner \<Rightarrow> string \<Rightarrow> payload" where
  "owner_payload resource_id kind oid =
     [(''resource_id'', JStr resource_id), (''owner_kind'', JStr (owner_value kind)), (''owner_id'', JStr oid), (''is_prefix'', JBool False)]"

text \<open>\<open>{**payload, 'owner_kind': kind, 'owner_id': oid, 'resource_id': resource_id}\<close>.\<close>

definition transfer_to :: "storage_owner \<Rightarrow> string \<Rightarrow> string \<Rightarrow> payload \<Rightarrow> payload" where
  "transfer_to kind oid resource_id p =
     merge_obj p [(''owner_kind'', JStr (owner_value kind)), (''owner_id'', JStr oid), (''resource_id'', JStr resource_id)]"

definition register_preflight_source ::
  "(string \<Rightarrow> string) \<Rightarrow> settings \<Rightarrow> txn \<Rightarrow> nat \<Rightarrow> string \<Rightarrow> string \<Rightarrow> string \<Rightarrow> string \<Rightarrow> timestamp option \<Rightarrow> 'a outbox_db_scheme \<Rightarrow>
   'a outbox_db_scheme result" where
  "register_preflight_source uuid5 cfg tx i ns preflight_id resource_id source_path available_at db =
     (case get_row ev_id (storage_event_id uuid5 ns source_path) (events db) of
        Some e \<Rightarrow>
          if map_of (ev_payload_json e) ''owner_kind'' = Some (JStr (owner_value OW_UPLOAD))
          then and_then (phase_of (ev_payload_json e)) (\<lambda>ph.
                 if ph \<noteq> SP_TRACKED then Inl (StorageCleanupConflict ''Uploaded preflight source is no longer available'')
                 else Inr (rearm cfg tx i ns
                        (e\<lparr>ev_payload_json := transfer_to OW_PREFLIGHT preflight_id resource_id (ev_payload_json e)\<rparr>) available_at db))
          else and_then (enqueue_intent uuid5 cfg tx i ns source_path (owner_payload resource_id OW_PREFLIGHT preflight_id) available_at db)
                 (\<lambda>(_, db'). Inr db')
      | None \<Rightarrow> and_then (enqueue_intent uuid5 cfg tx i ns source_path (owner_payload resource_id OW_PREFLIGHT preflight_id) available_at db)
                 (\<lambda>(_, db'). Inr db'))"

definition register_upload_source ::
  "(string \<Rightarrow> string) \<Rightarrow> settings \<Rightarrow> txn \<Rightarrow> string \<Rightarrow> string \<Rightarrow> string \<Rightarrow> 'a outbox_db_scheme \<Rightarrow> 'a outbox_db_scheme result" where
  "register_upload_source uuid5 cfg tx ns upload_id source_path db =
     and_then (enqueue_intent uuid5 cfg tx 0 ns source_path (owner_payload upload_id OW_UPLOAD upload_id)
                 (Some (tx_now tx + PREFLIGHT_TTL)) db) (\<lambda>(e, db').
       if map_of (ev_payload_json e) ''owner_kind'' \<noteq> Some (JStr (owner_value OW_UPLOAD)) \<or>
          map_of (ev_payload_json e) ''owner_id'' \<noteq> Some (JStr upload_id)
       then Inl (StorageCleanupConflict ''Upload target already has a different durable owner'')
       else Inr db')"

definition lock_tracked_upload ::
  "(string \<Rightarrow> string) \<Rightarrow> string \<Rightarrow> string \<Rightarrow> string \<Rightarrow> string \<Rightarrow> 'a outbox_db_scheme \<Rightarrow> outbox_event result" where
  "lock_tracked_upload uuid5 ns upload_id source_path conflict db =
     (case get_row ev_id (storage_event_id uuid5 ns source_path) (events db) of
        None \<Rightarrow> Inl (StorageCleanupConflict conflict)
      | Some e \<Rightarrow>
          if ev_kind e \<noteq> STORAGE_CLEANUP_KIND \<or>
             map_of (ev_payload_json e) ''owner_kind'' \<noteq> Some (JStr (owner_value OW_UPLOAD)) \<or>
             map_of (ev_payload_json e) ''owner_id'' \<noteq> Some (JStr upload_id)
          then Inl (StorageCleanupConflict conflict)
          else and_then (phase_of (ev_payload_json e)) (\<lambda>ph.
                 if ph \<noteq> SP_TRACKED then Inl (StorageCleanupConflict conflict) else Inr e))"

text \<open>\<open>complete_upload_source\<close> is the same operation.\<close>

definition renew_upload_source ::
  "(string \<Rightarrow> string) \<Rightarrow> settings \<Rightarrow> txn \<Rightarrow> string \<Rightarrow> string \<Rightarrow> string \<Rightarrow> 'a outbox_db_scheme \<Rightarrow> 'a outbox_db_scheme result" where
  "renew_upload_source uuid5 cfg tx ns upload_id source_path db =
     and_then (lock_tracked_upload uuid5 ns upload_id source_path ''Upload source ownership was lost'' db)
       (\<lambda>e. Inr (rearm cfg tx 0 ns e (Some (tx_now tx + PREFLIGHT_TTL)) db))"

definition release_upload_source_for_cleanup ::
  "(string \<Rightarrow> string) \<Rightarrow> settings \<Rightarrow> txn \<Rightarrow> string \<Rightarrow> string \<Rightarrow> string \<Rightarrow> 'a outbox_db_scheme \<Rightarrow> 'a outbox_db_scheme result" where
  "release_upload_source_for_cleanup uuid5 cfg tx ns upload_id source_path db =
     and_then (lock_tracked_upload uuid5 ns upload_id source_path ''Upload source ownership was lost before cleanup handoff'' db)
       (\<lambda>e. Inr (rearm cfg tx 0 ns e None db))"

definition lock_source_intent ::
  "(string \<Rightarrow> string) \<Rightarrow> string \<Rightarrow> string \<Rightarrow> ('a compute_db_scheme \<Rightarrow> 'a compute_db_scheme) \<Rightarrow> 'a compute_db_scheme \<Rightarrow>
   (outbox_event \<times> owner_row option) option result" where
  "lock_source_intent uuid5 ns source_path env db =
     (case get_row ev_id (storage_event_id uuid5 ns source_path) (events db) of
        None \<Rightarrow> Inr None
      | Some seen \<Rightarrow>
          let p = ev_payload_json seen; db1 = env db
          in and_then (lock_owner p db1) (\<lambda>owner.
               case get_row ev_id (ev_id seen) (events db1) of
                 None \<Rightarrow> Inl (RuntimeError ''AssertionError'')
               | Some e \<Rightarrow>
                   if \<not> same_dict (ev_payload_json e) p
                   then Inl (StorageCleanupConflict ''Source ownership changed while enqueueing'')
                   else and_then (phase_of (ev_payload_json e)) (\<lambda>ph.
                     if ph \<noteq> SP_TRACKED \<and> ph \<noteq> SP_PUBLISHED
                     then Inl (StorageCleanupConflict ''Source cleanup was already authorized'')
                     else and_then (str_field ''owner_kind'' p) (\<lambda>kind.
                       if ph = SP_TRACKED \<and> owner = None \<and> kind \<noteq> owner_value OW_DATASOURCE \<and> kind \<noteq> owner_value OW_UPLOAD
                       then Inl (StorageCleanupConflict ''Source ownership has been retired'')
                       else Inr (Some (e, owner))))))"

definition validate_source_enqueue ::
  "(string \<Rightarrow> string) \<Rightarrow> string \<Rightarrow> string \<Rightarrow> ('a compute_db_scheme \<Rightarrow> 'a compute_db_scheme) \<Rightarrow> 'a compute_db_scheme \<Rightarrow> unit result" where
  "validate_source_enqueue uuid5 ns source_path env db =
     and_then (lock_source_intent uuid5 ns source_path env db) (\<lambda>_. Inr ())"

definition drop_artifact :: "compute_request \<Rightarrow> compute_request" where
  "drop_artifact r = r\<lparr>rq_artifact_path := None, rq_artifact_name := None, rq_artifact_content_type := None\<rparr>"

definition hand_over ::
  "settings \<Rightarrow> txn \<Rightarrow> nat \<Rightarrow> string \<Rightarrow> string \<Rightarrow> outbox_event \<Rightarrow> 'a outbox_db_scheme \<Rightarrow> 'a outbox_db_scheme" where
  "hand_over cfg tx i ns request_id e db =
     rearm cfg tx i ns (e\<lparr>ev_payload_json := transfer_to OW_SOURCE request_id request_id (ev_payload_json e)\<rparr>) None db"

definition transfer_preflight_source ::
  "(string \<Rightarrow> string) \<Rightarrow> settings \<Rightarrow> txn \<Rightarrow> nat \<Rightarrow> string \<Rightarrow> string \<Rightarrow> string \<Rightarrow>
   ('a compute_db_scheme \<Rightarrow> 'a compute_db_scheme) \<Rightarrow> 'a compute_db_scheme \<Rightarrow> 'a compute_db_scheme result" where
  "transfer_preflight_source uuid5 cfg tx i ns source_path request_id env db =
     and_then (lock_source_intent uuid5 ns source_path env db) (\<lambda>locked.
       let db1 = env db
       in case locked of
            None \<Rightarrow>
              and_then (is_managed_url ns [''uploads''] source_path) (\<lambda>managed.
                if managed
                then and_then (enqueue_intent uuid5 cfg tx i ns source_path (owner_payload request_id OW_SOURCE request_id) None db1)
                       (\<lambda>(_, db2). Inr db2)
                else Inr db1)
          | Some (e, owner) \<Rightarrow>
              and_then (phase_of (ev_payload_json e)) (\<lambda>ph.
              and_then (str_field ''owner_kind'' (ev_payload_json e)) (\<lambda>kind.
              and_then (str_field ''owner_id'' (ev_payload_json e)) (\<lambda>oid.
                if ph = SP_PUBLISHED then Inr db1
                else if kind = owner_value OW_SOURCE \<and> oid = request_id then Inr db1
                else if kind = owner_value OW_UPLOAD then Inr (hand_over cfg tx i ns request_id e db1)
                else if kind \<noteq> owner_value OW_PREFLIGHT
                then Inl (StorageCleanupConflict ''Source ownership has already transferred to another consumer'')
                else case owner of
                       Some (Owner_Request r) \<Rightarrow>
                         if rq_status r \<noteq> CR_COMPLETED then Inl (StorageCleanupConflict ''Preflight source has not completed'')
                         else Inr (hand_over cfg tx i ns request_id e
                                (db1\<lparr>requests := update_where (\<lambda>x. rq_id x = rq_id r) drop_artifact (requests db1)\<rparr>))
                     | _ \<Rightarrow> Inl (StorageCleanupConflict ''Preflight source has not completed'')))))"

subsection \<open>Deleting a datasource\<close>

text \<open>A JSON object's field, as \<open>config.get(key)\<close> on a mapping.\<close>

definition json_get :: "string \<Rightarrow> json \<Rightarrow> json option" where
  "json_get k c = (case c of JObj d \<Rightarrow> map_of d k | _ \<Rightarrow> None)"

definition json_str :: "string \<Rightarrow> json \<Rightarrow> string option" where
  "json_str k c = (case json_get k c of Some (JStr s) \<Rightarrow> Some s | _ \<Rightarrow> None)"

definition catalog_cleanup_identity :: "string \<Rightarrow> json \<Rightarrow> string \<Rightarrow> payload result" where
  "catalog_cleanup_identity dburl config datasource_id =
     (case (json_str ''namespace'' config, json_str ''table'' config) of
        (Some nsp, Some tbl) \<Rightarrow>
          if nsp = [] \<or> tbl = [] then Inr []
          else let ctype = json_str ''catalog_type'' config;
                   falsy = json_get ''catalog_uri'' config \<in> {None, Some JNull, Some (JBool False), Some (JInt 0), Some (JStr []), Some (JList []), Some (JObj [])};
                   curi = (if ctype = Some ''sql'' \<and> falsy then Some dburl else json_str ''catalog_uri'' config);
                   wh = json_str ''warehouse'' config
               in if \<not> truthy ctype \<or> \<not> truthy curi \<or> \<not> truthy wh
                  then Inl (ValueError ''Iceberg cleanup requires a complete catalog type, URI, and warehouse'')
                  else Inr ([(''catalog_identifier'', JStr (nsp @ ''.'' @ tbl)), (''catalog_type'', JStr (the ctype)),
                             (''catalog_uri'', JStr (the curi)), (''warehouse'', JStr (the wh)),
                             (''catalog_namespace'', JStr nsp), (''catalog_table'', JStr tbl)] @
                            (if tbl = datasource_id \<or> starts_with tbl (datasource_id @ ''_'')
                             then [(''catalog_family_prefix'', JStr (datasource_id @ ''_''))] else []))
      | _ \<Rightarrow> Inr [])"

definition enqueue_datasource_target ::
  "(string \<Rightarrow> string) \<Rightarrow> settings \<Rightarrow> txn \<Rightarrow> nat \<Rightarrow> string \<Rightarrow> string \<Rightarrow> payload \<Rightarrow> 'a outbox_db_scheme \<Rightarrow> 'a outbox_db_scheme result" where
  "enqueue_datasource_target uuid5 cfg tx i ns url p db =
     (case get_row ev_id (storage_event_id uuid5 ns url) (events db) of
        None \<Rightarrow> and_then (enqueue_intent uuid5 cfg tx i ns url p None db) (\<lambda>(_, db'). Inr db')
      | Some e \<Rightarrow>
          if identity_in_use url e then Inl (ValueError ''Storage cleanup identity is already in use'')
          else and_then (phase_of (ev_payload_json e)) (\<lambda>ph.
            if ph = SP_AUTHORIZED \<or> ph = SP_DELETED then Inr db
            else Inr (rearm cfg tx i ns
                   (e\<lparr>ev_payload_json := with_phase SP_TRACKED (AList.update ''url'' (JStr url) p), ev_dispatched_at := None\<rparr>) None db)))"

definition table_family_prefixes :: "string \<Rightarrow> string list" where
  "table_family_prefixes t = map (\<lambda>n. take (Suc n) t) (filter (\<lambda>n. t ! n = CHR ''_'') [0..<length t])"

definition sql_starts_with :: "string option \<Rightarrow> string \<Rightarrow> bool" where
  "sql_starts_with x p = (case x of None \<Rightarrow> False | Some s \<Rightarrow> starts_with s p)"

definition catalog_intents :: "string \<Rightarrow> string \<Rightarrow> string option \<Rightarrow> 'a outbox_db_scheme \<Rightarrow> outbox_event list" where
  "catalog_intents nsp tbl family_prefix db =
     sort_key ev_id (filter (\<lambda>e. ev_kind e = STORAGE_CLEANUP_KIND \<and> ev_catalog_namespace e = Some nsp \<and>
       (ev_catalog_table e = Some tbl \<or> sql_in (ev_catalog_family_prefix e) (table_family_prefixes tbl) \<or>
        (family_prefix \<noteq> None \<and> sql_starts_with (ev_catalog_table e) (the family_prefix)))) (events db))"

definition intent_matches_catalog_table :: "payload \<Rightarrow> string \<Rightarrow> bool" where
  "intent_matches_catalog_table p tbl \<longleftrightarrow>
     map_of p ''catalog_table'' = Some (JStr tbl) \<or>
     (case get_str ''catalog_family_prefix'' p of None \<Rightarrow> False | Some f \<Rightarrow> starts_with tbl f)"

fun rearm_published ::
  "settings \<Rightarrow> txn \<Rightarrow> nat \<Rightarrow> string \<Rightarrow> string \<Rightarrow> string option \<Rightarrow> outbox_event list \<Rightarrow> 'a outbox_db_scheme \<Rightarrow> 'a outbox_db_scheme result" where
  "rearm_published cfg tx i ns tbl fp [] db = Inr db"
| "rearm_published cfg tx i ns tbl fp (s # ss) db =
     and_then (phase_of (ev_payload_json s)) (\<lambda>ph.
       let p = ev_payload_json s;
           affects = (intent_matches_catalog_table p tbl \<or> (fp \<noteq> None \<and> sql_starts_with (get_str ''catalog_table'' p) (the fp)))
       in if ph \<noteq> SP_PUBLISHED \<or> ev_status s \<noteq> OB_DISPATCHED \<or> \<not> affects
          then rearm_published cfg tx i ns tbl fp ss db
          else case get_row ev_id (ev_id s) (events db) of
                 None \<Rightarrow> rearm_published cfg tx i ns tbl fp ss db
               | Some e \<Rightarrow>
                   if \<not> same_dict (ev_payload_json e) p \<or> ev_status e \<noteq> OB_DISPATCHED
                   then rearm_published cfg tx i ns tbl fp ss db
                   else rearm_published cfg tx (Suc i) ns tbl fp ss
                          (rearm cfg tx i ns (e\<lparr>ev_payload_json := with_phase SP_TRACKED p, ev_dispatched_at := None\<rparr>) None db))"

definition rearm_published_catalog_intents ::
  "settings \<Rightarrow> txn \<Rightarrow> nat \<Rightarrow> string \<Rightarrow> string \<Rightarrow> string \<Rightarrow> string option \<Rightarrow> 'a outbox_db_scheme \<Rightarrow> 'a outbox_db_scheme result" where
  "rearm_published_catalog_intents cfg tx i ns nsp tbl fp db =
     rearm_published cfg tx i ns tbl fp (catalog_intents nsp tbl fp db) db"

text \<open>The targets of a datasource: URL, whether it is a prefix, and the catalog identity. A later
  assignment to the same URL replaces the earlier one, \<open>setdefault\<close> keeps it.\<close>

type_synonym targets = "(string \<times> bool \<times> payload) list"

definition metadata_targets :: "string \<Rightarrow> payload \<Rightarrow> string option \<Rightarrow> targets result" where
  "metadata_targets datasource_id identity metadata_path =
     (case metadata_path of
        None \<Rightarrow> Inr []
      | Some m \<Rightarrow>
          let t1 = [(m, (\<not> ends_with m ''.metadata.json'', identity))]
          in and_then (urlparse m) (\<lambda>u.
               let segs = path_segments u;
                   root = ''s3://'' @ url_netloc u @ ''/'' @
                            join_with ''/'' (takeWhile (\<lambda>s. s \<noteq> datasource_id) segs @ [datasource_id])
               in if datasource_id \<in> set segs \<and> root \<noteq> rstrip_char (CHR ''/'') m
                  then Inr (AList.update root (True, identity) t1) else Inr t1))"

definition setdefault :: "'k \<Rightarrow> 'v \<Rightarrow> ('k \<times> 'v) list \<Rightarrow> ('k \<times> 'v) list" where
  "setdefault k v d = (case map_of d k of Some _ \<Rightarrow> d | None \<Rightarrow> d @ [(k, v)])"

definition file_targets :: "datasource \<Rightarrow> targets \<Rightarrow> targets" where
  "file_targets d ts =
     (let config = ds_config d;
          direct = (if ds_source_type d = ''file'' then [json_str ''file_path'' config] else []);
          nested = (case json_get ''source'' config of
                      Some (JObj src) \<Rightarrow> if get_str ''source_type'' src = Some ''file'' then [get_str ''file_path'' src] else []
                    | _ \<Rightarrow> [])
      in fold (\<lambda>x acc. case x of
             None \<Rightarrow> acc
           | Some f \<Rightarrow> setdefault f (False, []) acc) (direct @ nested) ts)"

fun enqueue_targets ::
  "(string \<Rightarrow> string) \<Rightarrow> settings \<Rightarrow> txn \<Rightarrow> nat \<Rightarrow> string \<Rightarrow> string \<Rightarrow> targets \<Rightarrow> 'a outbox_db_scheme \<Rightarrow> (nat \<times> 'a outbox_db_scheme) result" where
  "enqueue_targets uuid5 cfg tx i ns did [] db = Inr (i, db)"
| "enqueue_targets uuid5 cfg tx i ns did ((url, pre, identity) # ts) db =
     and_then (is_managed_url ns MANAGED_ROOTS url) (\<lambda>managed.
       if \<not> managed then enqueue_targets uuid5 cfg tx i ns did ts db
       else and_then (enqueue_datasource_target uuid5 cfg tx i ns url
                (merge_obj [(''resource_id'', JStr did), (''owner_kind'', JStr (owner_value OW_DATASOURCE)),
                            (''owner_id'', JStr did), (''is_prefix'', JBool pre)] identity) db)
              (\<lambda>db'. enqueue_targets uuid5 cfg tx (Suc i) ns did ts db'))"

definition enqueue_datasource_cleanup ::
  "(string \<Rightarrow> string) \<Rightarrow> string \<Rightarrow> settings \<Rightarrow> txn \<Rightarrow> string \<Rightarrow> datasource \<Rightarrow> 'a outbox_db_scheme \<Rightarrow> 'a outbox_db_scheme result" where
  "enqueue_datasource_cleanup uuid5 dburl cfg tx ns d db =
     (case ds_config d of
        JObj _ \<Rightarrow>
          let iceberg = (ds_source_type d = ''iceberg'')
          in and_then (if iceberg then catalog_cleanup_identity dburl (ds_config d) (ds_id d) else Inr []) (\<lambda>identity.
             and_then (metadata_targets (ds_id d) identity (if iceberg then json_str ''metadata_path'' (ds_config d) else None)) (\<lambda>ts.
             and_then (enqueue_targets uuid5 cfg tx 0 ns (ds_id d) (sort_key fst (file_targets d ts)) db) (\<lambda>(i, db1).
               case (get_str ''catalog_namespace'' identity, get_str ''catalog_table'' identity) of
                 (Some nsp, Some tbl) \<Rightarrow>
                   rearm_published_catalog_intents cfg tx i ns nsp tbl (get_str ''catalog_family_prefix'' identity) db1
               | _ \<Rightarrow> Inr db1)))
      | _ \<Rightarrow> Inr db)"

subsection \<open>Publication\<close>

definition settle_values :: "timestamp \<Rightarrow> outbox_event \<Rightarrow> outbox_event" where
  "settle_values now e =
     e\<lparr>ev_payload_json := with_phase SP_PUBLISHED (ev_payload_json e), ev_status := OB_DISPATCHED, ev_claim_token := None,
       ev_lease_expires_at := None, ev_dispatched_at := Some now, ev_updated_at := now\<rparr>"

definition settle_referenced :: "txn \<Rightarrow> outbox_event \<Rightarrow> 'a outbox_db_scheme \<Rightarrow> 'a outbox_db_scheme result" where
  "settle_referenced tx e db =
     and_then (phase_of (ev_payload_json e)) (\<lambda>ph.
       if ph \<noteq> SP_TRACKED \<and> ph \<noteq> SP_PUBLISHED
       then Inl (StorageCleanupConflict ''Storage cleanup was already authorized for this path'')
       else Inr (put_event (settle_values (tx_now tx) e) db))"

text \<open>Settle the intents with these IDs, those that exist and are cleanup intents.\<close>

fun settle_all :: "txn \<Rightarrow> string list \<Rightarrow> 'a outbox_db_scheme \<Rightarrow> 'a outbox_db_scheme result" where
  "settle_all tx [] db = Inr db"
| "settle_all tx (i # is) db =
     (case get_row ev_id i (events db) of
        None \<Rightarrow> settle_all tx is db
      | Some e \<Rightarrow> if ev_kind e \<noteq> STORAGE_CLEANUP_KIND then settle_all tx is db
                  else and_then (settle_referenced tx e db) (settle_all tx is))"

definition nested :: "string \<Rightarrow> json \<Rightarrow> json" where
  "nested k c = (case json_get k c of Some x \<Rightarrow> x | None \<Rightarrow> JNull)"

text \<open>The paths a configuration publishes, without repetition and in string order.\<close>

definition published_paths :: "json \<Rightarrow> string list" where
  "published_paths config =
     (let source = nested ''source'' config
      in sort (remdups (concat (map (\<lambda>x. case x of None \<Rightarrow> [] | Some s \<Rightarrow> [s])
           [json_str ''metadata_path'' config, json_str ''file_path'' config, json_str ''file_path'' source,
            json_str ''metadata_path'' source, json_str ''claim_prefix'' (nested ''ingest'' config)]))))"

definition settle_publication ::
  "(string \<Rightarrow> string) \<Rightarrow> txn \<Rightarrow> string \<Rightarrow> json \<Rightarrow> 'a outbox_db_scheme \<Rightarrow> 'a outbox_db_scheme result" where
  "settle_publication uuid5 tx ns config db =
     and_then (settle_all tx (map (storage_event_id uuid5 ns) (published_paths config)) db) (\<lambda>db1.
       case (json_str ''namespace'' config, json_str ''table'' config) of
         (Some nsp, Some tbl) \<Rightarrow>
           if nsp = [] \<or> tbl = [] then Inr db1
           else settle_all tx (map ev_id (filter (\<lambda>e. intent_matches_catalog_table (ev_payload_json e) tbl)
                  (catalog_intents nsp tbl None db1))) db1
       | _ \<Rightarrow> Inr db1)"

subsection \<open>Staging areas of a claimed attempt\<close>

definition register_stage_paths ::
  "string \<Rightarrow> storage_owner \<Rightarrow> string \<Rightarrow> string \<Rightarrow> string \<Rightarrow> string \<times> string" where
  "register_stage_paths ns kind did owner_id_gen tok =
     (''s3://'' @ ns @ ''/clean/'' @ did @ ''__claim_'' @ replace_char (CHR ''-'') ''_'' tok @ ''/'',
      ''s3://'' @ ns @ ''/runtime-staging/'' @
        (if kind = OW_COMPUTE then ''datasource-stage/'' else ''schedule-ingest/'') @ owner_id_gen @ ''/manifest.json'')"

text \<open>\<open>parts[-2]\<close> of a single part raises.\<close>

definition stage_table :: "string \<Rightarrow> string result" where
  "stage_table prefix_url =
     (let parts = split_on (CHR ''/'') (rstrip_char (CHR ''/'') prefix_url)
      in if length parts < 2 then Inl (RuntimeError ''IndexError'') else Inr (parts ! (length parts - 2)))"

definition staging_claim ::
  "txn \<Rightarrow> string \<Rightarrow> storage_owner option \<Rightarrow> string \<Rightarrow> string \<Rightarrow> string \<Rightarrow> int \<Rightarrow> string option \<Rightarrow> 'a compute_db_scheme \<Rightarrow> unit result" where
  "staging_claim tx did kind owner_id worker tok g build_id db =
     (case (kind, build_id) of
        (Some OW_COMPUTE, _) \<Rightarrow>
          (case active_request_claim tx owner_id worker tok g db of
             None \<Rightarrow> Inl (StorageCleanupConflict ''Datasource staging claim is no longer active'')
           | Some r \<Rightarrow> if map_option wi_resource_id (rq_worker_identity r) \<noteq> Some did
                       then Inl (StorageCleanupConflict ''Datasource staging claim targets a different exact RID'') else Inr ())
      | (Some OW_BUILD, Some bid) \<Rightarrow>
          (case active_job_claim tx owner_id bid worker tok g db of
             None \<Rightarrow> Inl (StorageCleanupConflict ''Datasource staging claim is no longer active'')
           | Some _ \<Rightarrow> Inr ())
      | _ \<Rightarrow> Inl (ValueError ''Datasource staging requires one complete compute or build claim''))"

definition register_stage ::
  "(string \<Rightarrow> string) \<Rightarrow> string \<Rightarrow> settings \<Rightarrow> txn \<Rightarrow> string \<Rightarrow> string \<Rightarrow> storage_owner option \<Rightarrow> string \<Rightarrow> string \<Rightarrow>
   string \<Rightarrow> int \<Rightarrow> string \<Rightarrow> string \<Rightarrow> string \<Rightarrow> string option \<Rightarrow> 'a compute_db_scheme \<Rightarrow> 'a compute_db_scheme result" where
  "register_stage uuid5 dburl cfg tx ns did kind owner_id worker tok g prefix_url manifest_url catalog_identifier build_id db =
     and_then (staging_claim tx did kind owner_id worker tok g build_id db) (\<lambda>_.
       let ow = the kind; (pre, manifest) = register_stage_paths ns ow did (owner_id @ ''/'' @ show_int g) tok
       in and_then (stage_table prefix_url) (\<lambda>tbl.
            if \<not> starts_with prefix_url pre \<or> manifest_url \<noteq> manifest \<or> catalog_identifier \<noteq> ''clean.'' @ tbl
            then Inl (ValueError ''Datasource staging targets do not match the claimed attempt'')
            else let p = [(''resource_id'', JStr did), (''owner_kind'', JStr (owner_value ow)), (''owner_id'', JStr owner_id),
                          (''owner_token'', JStr tok), (''owner_generation'', JInt g), (''worker_id'', JStr worker)]
                 in and_then (enqueue_intent uuid5 cfg tx 0 ns prefix_url
                        (p @ [(''is_prefix'', JBool True), (''catalog_identifier'', JStr catalog_identifier), (''catalog_type'', JStr ''sql''),
                              (''catalog_uri'', JStr dburl), (''warehouse'', JStr (''s3://'' @ ns @ ''/clean'')),
                              (''catalog_namespace'', JStr ''clean''), (''catalog_table'', JStr tbl)]) None db) (\<lambda>(_, db1).
                    and_then (enqueue_intent uuid5 cfg tx 1 ns manifest_url (p @ [(''is_prefix'', JBool False)]) None db1) (\<lambda>(_, db2).
                      Inr db2))))"

subsection \<open>Claiming, authorizing and completing a cleanup\<close>

definition storage_work_pending :: "timestamp \<Rightarrow> 'a outbox_db_scheme \<Rightarrow> bool" where
  "storage_work_pending t db \<longleftrightarrow>
     list_ex (\<lambda>e. ev_kind e = STORAGE_CLEANUP_KIND \<and> ev_available_at e \<le> t \<and>
        (ev_status e = OB_PENDING \<or> ev_status e = OB_FAILED \<or>
         (ev_status e = OB_DISPATCHING \<and> sql_le (ev_lease_expires_at e) t))) (events db)"

text \<open>\<open>greatest\<close> ignores NULL.\<close>

definition storage_work_due :: "timestamp \<Rightarrow> 'a outbox_db_scheme \<Rightarrow> timestamp option" where
  "storage_work_due t db =
     sql_min (map (\<lambda>e. Some (case (ev_status e, ev_lease_expires_at e) of
           (OB_DISPATCHING, Some x) \<Rightarrow> max (ev_available_at e) x | _ \<Rightarrow> ev_available_at e))
       (filter (\<lambda>e. ev_kind e = STORAGE_CLEANUP_KIND \<and>
          (ev_status e = OB_PENDING \<or> ev_status e = OB_FAILED \<or> ev_status e = OB_DISPATCHING)) (events db)))"

definition refresh_storage :: "settings \<Rightarrow> txn \<Rightarrow> string \<Rightarrow> 'a outbox_db_scheme \<Rightarrow> 'a outbox_db_scheme" where
  "refresh_storage cfg tx ns db =
     refresh_quiet cfg ns K_STORAGE_CLEANUP storage_work_pending storage_work_due (tx_stmt tx) db"

definition claim_cleanups ::
  "settings \<Rightarrow> txn \<Rightarrow> (string \<Rightarrow> bool) \<Rightarrow> string \<Rightarrow> int \<Rightarrow> 'a outbox_db_scheme \<Rightarrow> outbox_claim list \<times> 'a outbox_db_scheme" where
  "claim_cleanups cfg tx locked ns limit db =
     (let (claims, db1) = claim_storage_cleanups cfg tx locked limit db in (claims, refresh_storage cfg tx ns db1))"

text \<open>The values of a JSON column compared as text; only strings can equal or extend an object URL.\<close>

definition reference_paths :: "json \<Rightarrow> string list" where
  "reference_paths config =
     concat (map (\<lambda>x. case x of None \<Rightarrow> [] | Some s \<Rightarrow> [s])
       [json_str ''metadata_path'' config, json_str ''file_path'' config,
        json_str ''metadata_path'' (nested ''source'' config), json_str ''file_path'' (nested ''source'' config)])"

definition has_reference ::
  "string \<Rightarrow> bool \<Rightarrow> string option \<Rightarrow> string option \<Rightarrow> string option \<Rightarrow> 'a compute_db_scheme \<Rightarrow> bool" where
  "has_reference url pre nsp tbl family db \<longleftrightarrow>
     list_ex (\<lambda>d. let c = ds_config d in
        list_ex (\<lambda>p. p = url \<or> (pre \<and> starts_with p (rstrip_char (CHR ''/'') url @ ''/''))) (reference_paths c) \<or>
        (nsp \<noteq> None \<and> tbl \<noteq> None \<and> json_str ''namespace'' c = nsp \<and>
         (json_str ''table'' c = tbl \<or> (family \<noteq> None \<and> sql_starts_with (json_str ''table'' c) (the family))))) (datasources db)"

definition source_in_use :: "string \<Rightarrow> string \<Rightarrow> string \<Rightarrow> 'a compute_db_scheme \<Rightarrow> bool" where
  "source_in_use ns url resource_id db \<longleftrightarrow>
     has_active_request_for_datasource resource_id db \<or> has_active_build_for_datasource ns resource_id db \<or>
     list_ex (\<lambda>r. rq_namespace r = ns \<and> request_active (rq_status r) \<and>
        (map_option wi_resource_id (rq_worker_identity r) = Some resource_id \<or> rq_artifact_path r = Some url)) (requests db)"

definition claim_holds_event :: "string \<Rightarrow> int \<Rightarrow> payload \<Rightarrow> outbox_event \<Rightarrow> bool" where
  "claim_holds_event tok g p e \<longleftrightarrow>
     ev_status e = OB_DISPATCHING \<and> ev_claim_token e = Some tok \<and> ev_lease_generation e = g \<and>
     same_dict (ev_payload_json e) p"

datatype owner_verdict = Owner_Gone | Owner_Holds | Owner_Dropped

text \<open>Whether the owner of an intent still holds the object: a live datasource, a preflight or source
  request that is queued or running, the exact claim of a worker with a running lease. A preflight
  that gave its source away settles the intent instead.\<close>

definition lease_verdict :: "payload \<Rightarrow> timestamp \<Rightarrow> string option \<Rightarrow> int \<Rightarrow> timestamp option \<Rightarrow> owner_verdict result" where
  "lease_verdict p now tok g expires =
     (case map_of p ''owner_token'' of
        None \<Rightarrow> Inl (KeyError ''owner_token'')
      | Some t \<Rightarrow>
          if t \<noteq> (case tok of None \<Rightarrow> JNull | Some s \<Rightarrow> JStr s) then Inr Owner_Gone
          else (case map_of p ''owner_generation'' of
                  None \<Rightarrow> Inl (KeyError ''owner_generation'')
                | Some x \<Rightarrow> Inr (if x = JInt g \<and> sql_gt expires now then Owner_Holds else Owner_Gone)))"

definition owner_verdict :: "string \<Rightarrow> payload \<Rightarrow> timestamp \<Rightarrow> owner_row option \<Rightarrow> owner_verdict result" where
  "owner_verdict kind p now owner =
     (case owner of
        None \<Rightarrow> Inr Owner_Gone
      | Some (Owner_Datasource d) \<Rightarrow> Inr Owner_Holds
      | Some (Owner_Job j) \<Rightarrow> lease_verdict p now (job_claim_token j) (job_lease_generation j) (job_lease_expires_at j)
      | Some (Owner_Request r) \<Rightarrow>
          if kind = owner_value OW_PREFLIGHT
          then and_then (str_field ''url'' p) (\<lambda>url.
                 Inr (if rq_artifact_path r \<noteq> Some url then Owner_Dropped
                      else if request_active (rq_status r) then Owner_Holds else Owner_Gone))
          else if kind = owner_value OW_SOURCE
          then Inr (if request_active (rq_status r) then Owner_Holds else Owner_Gone)
          else lease_verdict p now (rq_claim_token r) (rq_lease_generation r) (rq_lease_expires_at r))"

text \<open>\<open>session.delete\<close> of a request cascades to its datasource associations and its flight.\<close>

definition delete_request :: "string \<Rightarrow> 'a compute_db_scheme \<Rightarrow> 'a compute_db_scheme" where
  "delete_request rid db =
     db\<lparr>requests := delete_where (\<lambda>r. rq_id r = rid) (requests db),
        request_datasources := delete_where (\<lambda>a. rqd_request_id a = rid) (request_datasources db),
        flights := delete_where (\<lambda>f. fl_request_id f = rid) (flights db)\<rparr>"

definition authorize_payload ::
  "txn \<Rightarrow> string \<Rightarrow> timestamp \<Rightarrow> string \<Rightarrow> payload \<Rightarrow> owner_row option \<Rightarrow> outbox_event \<Rightarrow> 'a compute_db_scheme \<Rightarrow>
   (bool \<times> 'a compute_db_scheme) result" where
  "authorize_payload tx ns wall2 kind p owner e db =
     and_then (str_field ''url'' p) (\<lambda>url.
       if map_of p ''is_prefix'' = None then Inl (KeyError ''is_prefix'')
       else if has_reference url (map_of p ''is_prefix'' = Some (JBool True)) (get_str ''catalog_namespace'' p)
            (get_str ''catalog_table'' p) (get_str ''catalog_family_prefix'' p) db
       then and_then (settle_referenced tx e db) (\<lambda>db'. Inr (False, db'))
       else and_then (str_field ''resource_id'' p) (\<lambda>resource_id.
            if source_in_use ns url resource_id db then Inr (False, db)
            else if \<not> sql_gt (ev_lease_expires_at e) wall2 then Inr (False, db)
            else let db1 = (case owner of
                         Some (Owner_Request r) \<Rightarrow> if kind = owner_value OW_PREFLIGHT then delete_request (rq_id r) db else db
                       | _ \<Rightarrow> db)
            in Inr (True, put_event (e\<lparr>ev_payload_json := with_phase SP_AUTHORIZED (ev_payload_json e)\<rparr>) db1)))"

definition authorize_cleanup ::
  "txn \<Rightarrow> string \<Rightarrow> timestamp \<Rightarrow> ('a compute_db_scheme \<Rightarrow> 'a compute_db_scheme) \<Rightarrow> string \<Rightarrow> string \<Rightarrow> int \<Rightarrow> 'a compute_db_scheme \<Rightarrow>
   (bool \<times> 'a compute_db_scheme) result" where
  "authorize_cleanup tx ns wall2 env eid tok g db =
     (case get_row ev_id eid (events db) of
        None \<Rightarrow> Inr (False, db)
      | Some seen \<Rightarrow>
          if ev_kind seen \<noteq> STORAGE_CLEANUP_KIND then Inr (False, db)
          else let p = ev_payload_json seen; db1 = env db
               in and_then (str_field ''owner_kind'' p) (\<lambda>kind. and_then (lock_owner p db1) (\<lambda>owner.
                    case get_row ev_id eid (events db1) of
                      None \<Rightarrow> Inr (False, db1)
                    | Some e \<Rightarrow>
                        if \<not> claim_holds_event tok g p e then Inr (False, db1)
                        else and_then (phase_of (ev_payload_json e)) (\<lambda>ph.
                          if ph \<noteq> SP_TRACKED \<and> ph \<noteq> SP_AUTHORIZED \<or> \<not> sql_gt (ev_lease_expires_at e) (tx_wall tx) then Inr (False, db1)
                          else and_then (owner_verdict kind p (tx_wall tx) owner) (\<lambda>v.
                            case v of
                              Owner_Holds \<Rightarrow> Inr (False, db1)
                            | Owner_Dropped \<Rightarrow> and_then (settle_referenced tx e db1) (\<lambda>db'. Inr (False, db'))
                            | Owner_Gone \<Rightarrow> authorize_payload tx ns wall2 kind p owner e db1)))))"

definition complete_cleanup ::
  "settings \<Rightarrow> txn \<Rightarrow> string \<Rightarrow> string \<Rightarrow> string \<Rightarrow> int \<Rightarrow> string option \<Rightarrow> 'a outbox_db_scheme \<Rightarrow> (bool \<times> 'a outbox_db_scheme) result" where
  "complete_cleanup cfg tx ns eid tok g err db =
     (case get_row ev_id eid (events db) of
        None \<Rightarrow> Inr (False, db)
      | Some e \<Rightarrow>
          if ev_kind e \<noteq> STORAGE_CLEANUP_KIND then Inr (False, db)
          else if ev_status e \<noteq> OB_DISPATCHING \<or> ev_claim_token e \<noteq> Some tok \<or> ev_lease_generation e \<noteq> g then Inr (False, db)
          else and_then (if err = None then phase_of (ev_payload_json e) else Inr SP_AUTHORIZED) (\<lambda>ph.
            if ph \<noteq> SP_AUTHORIZED then Inl (ValueError ''Storage cleanup must be authorized before completion'')
            else let claim = \<lparr>oc_event_id = eid, oc_claim_token = tok, oc_lease_generation = g, oc_event_kind = STORAGE_CLEANUP_KIND,
                              oc_payload = ev_payload_json e, oc_already_delivered = False, oc_completed_parts = []\<rparr>;
                     db1 = (if err = None then put_event (e\<lparr>ev_payload_json := with_phase SP_DELETED (ev_payload_json e)\<rparr>) db else db)
                 in and_then (finalize_storage_cleanup cfg tx claim err db1) (\<lambda>(ok, db2). Inr (ok, refresh_storage cfg tx ns db2))))"

end
