(* ===== verification/Compute_Requests.thy ===== *)
theory Compute_Requests
  imports Storage_Cleanup
begin

text \<open>
  The compute request queue (\<open>backend_core/compute_requests_service.py\<close>): staging with one shared
  flight per exact command, directed claims that never run two requests on one engine, fenced
  renewal and completion, retirement of abandoned and exhausted requests.

  Parameters: \<open>digest\<close> is the SHA-256 digest of a serialized command, \<open>free\<close> says which advisory locks
  the transaction obtains (by name), \<open>locked\<close> which rows other transactions hold, \<open>now\<close> is the Python
  clock. Environment functions stand for what other sessions commit between two statements.
\<close>

subsection \<open>The wake index\<close>

definition compute_work_pending :: "timestamp \<Rightarrow> 'a compute_db_scheme \<Rightarrow> bool" where
  "compute_work_pending t db \<longleftrightarrow>
     list_ex (\<lambda>r. rq_status r = CR_QUEUED \<or>
        (rq_status r = CR_RUNNING \<and> (rq_lease_owner r = None \<or> sql_le (rq_lease_expires_at r) t))) (requests db)"

definition compute_work_due :: "timestamp \<Rightarrow> 'a compute_db_scheme \<Rightarrow> timestamp option" where
  "compute_work_due t db =
     sql_min (map rq_lease_expires_at (filter (\<lambda>r. rq_status r = CR_RUNNING \<and> sql_gt (rq_lease_expires_at r) t) (requests db)))"

definition refresh_compute_work :: "settings \<Rightarrow> txn \<Rightarrow> string \<Rightarrow> 'a compute_db_scheme \<Rightarrow> 'a compute_db_scheme" where
  "refresh_compute_work cfg tx ns db = refresh_quiet cfg ns K_COMPUTE compute_work_pending compute_work_due (tx_stmt tx) db"

subsection \<open>Shared flights\<close>

definition FLIGHT_CACHE_SECONDS :: int where
  "FLIGHT_CACHE_SECONDS = 300"

abbreviation flight_id :: "request_flight \<Rightarrow> string \<times> string" where
  "flight_id f \<equiv> (fl_namespace f, fl_flight_key f)"

definition read_flight :: "string \<Rightarrow> string \<Rightarrow> 'a compute_db_scheme \<Rightarrow> (request_flight \<times> compute_request option) option" where
  "read_flight ns key db =
     map_option (\<lambda>f. (f, get_row rq_id (fl_request_id f) (requests db))) (get_row flight_id (ns, key) (flights db))"

definition reusable_flight_request :: "timestamp \<Rightarrow> compute_request option \<Rightarrow> request_flight \<Rightarrow> compute_request option result" where
  "reusable_flight_request now request flight =
     (case request of
        None \<Rightarrow> Inr None
      | Some r \<Rightarrow>
          if request_active (rq_status r) then Inr (Some r)
          else if rq_status r = CR_COMPLETED \<and> rq_response_envelope r \<noteq> None \<and> sql_gt (fl_expires_at flight) now
          then and_then (cache_completed_flight r) (\<lambda>c. Inr (if c then Some r else None))
          else Inr None)"

definition find_reusable_flight :: "string \<Rightarrow> string \<Rightarrow> timestamp \<Rightarrow> 'a compute_db_scheme \<Rightarrow> compute_request option result" where
  "find_reusable_flight ns key now db =
     (case read_flight ns key db of None \<Rightarrow> Inr None | Some (f, r) \<Rightarrow> reusable_flight_request now r f)"

text \<open>The locked variant deletes a flight that is still stale after the row lock; \<open>env\<close> runs between.\<close>

definition reusable_flight ::
  "string \<Rightarrow> string \<Rightarrow> timestamp \<Rightarrow> ('a compute_db_scheme \<Rightarrow> 'a compute_db_scheme) \<Rightarrow> 'a compute_db_scheme \<Rightarrow>
   (compute_request option \<times> 'a compute_db_scheme) result" where
  "reusable_flight ns key now env db =
     (case read_flight ns key db of
        None \<Rightarrow> Inr (None, db)
      | Some (f, r) \<Rightarrow>
          and_then (reusable_flight_request now r f) (\<lambda>x.
            case x of
              Some q \<Rightarrow> Inr (Some q, db)
            | None \<Rightarrow>
                let db1 = env db
                in (case get_row flight_id (ns, key) (flights db1) of
                      None \<Rightarrow> Inr (None, db1)
                    | Some stale \<Rightarrow>
                        and_then (reusable_flight_request now (get_row rq_id (fl_request_id stale) (requests db1)) stale) (\<lambda>y.
                          case y of
                            Some q \<Rightarrow> Inr (Some q, db1)
                          | None \<Rightarrow> Inr (None, db1\<lparr>flights := delete_where (\<lambda>g. flight_id g = (ns, key)) (flights db1)\<rparr>)))))"

definition finish_flight :: "string \<Rightarrow> bool \<Rightarrow> timestamp \<Rightarrow> 'a compute_db_scheme \<Rightarrow> 'a compute_db_scheme" where
  "finish_flight rid cache_result completed_at db =
     (if cache_result
      then db\<lparr>flights := update_where (\<lambda>f. fl_request_id f = rid)
                (\<lambda>f. f\<lparr>fl_expires_at := Some (completed_at + seconds FLIGHT_CACHE_SECONDS)\<rparr>) (flights db)\<rparr>
      else db\<lparr>flights := delete_where (\<lambda>f. fl_request_id f = rid) (flights db)\<rparr>)"

subsection \<open>Staging\<close>

definition datasource_command_of :: "compute_command \<Rightarrow> datasource_command option" where
  "datasource_command_of c = (case cmd_body c of Some (C_Datasource d) \<Rightarrow> d | _ \<Rightarrow> None)"

text \<open>A follow-up command of an Excel preflight needs the completed preflight of the same source.\<close>

definition check_preflight_parent :: "compute_command \<Rightarrow> 'a compute_db_scheme \<Rightarrow> unit result" where
  "check_preflight_parent c db =
     (case datasource_command_of c of
        Some (DC_Preflight p) \<Rightarrow>
          if pf_action p = PF_INITIAL \<or> pf_datasource_id p \<noteq> None then Inr ()
          else (case get_row rq_id (pf_preflight_id p) (requests db) of
                  None \<Rightarrow> Inl (ValueError ''Excel preflight source has been retired'')
                | Some parent \<Rightarrow>
                    if rq_kind parent \<noteq> CK_DATASOURCE_PREFLIGHT then Inl (ValueError ''Excel preflight source has been retired'')
                    else and_then (command_envelope_for_request parent) (\<lambda>e.
                      let original = (case datasource_command_of (ce_command e) of Some (DC_Preflight q) \<Rightarrow> pf_source_path q | _ \<Rightarrow> [])
                      in if rq_status parent \<noteq> CR_COMPLETED \<or> original \<noteq> pf_source_path p
                         then Inl (ValueError ''Excel preflight source is not available for this command'') else Inr ()))
      | _ \<Rightarrow> Inr ())"

definition new_request :: "settings \<Rightarrow> timestamp \<Rightarrow> string \<Rightarrow> compute_kind \<Rightarrow> compute_command \<Rightarrow> string \<Rightarrow> compute_request" where
  "new_request cfg now ns kind c rid =
     \<lparr>rq_id = rid, rq_namespace = ns, rq_kind = kind, rq_status = CR_QUEUED,
      rq_worker_identity = compute_worker_identity_for_command rid c,
      rq_command_envelope = \<lparr>ce_kind = kind, ce_correlation_id = rid, ce_command = c\<rparr>,
      rq_response_envelope = None, rq_error_message = None,
      rq_artifact_path = (case datasource_command_of c of
          Some (DC_Preflight p) \<Rightarrow> Some (pf_source_path p) | Some (DC_Create_File f) \<Rightarrow> Some f | _ \<Rightarrow> None),
      rq_artifact_name = (case datasource_command_of c of
          Some (DC_Preflight p) \<Rightarrow> if pf_action p = PF_INITIAL \<and> pf_delete_source p then Some ''preflight-source'' else None | _ \<Rightarrow> None),
      rq_artifact_content_type = (case datasource_command_of c of
          Some (DC_Preflight p) \<Rightarrow>
            if pf_action p = PF_INITIAL \<and> pf_delete_source p then Some ''application/vnd.dataforge.preflight-source'' else None
        | _ \<Rightarrow> None),
      rq_lease_owner = None, rq_claim_token = None, rq_lease_generation = 0, rq_lease_expires_at = None, rq_claimed_at = None,
      rq_last_renewed_at = None, rq_attempts = 0, rq_max_attempts = runtime_compute_max_attempts cfg,
      rq_created_at = now, rq_updated_at = now, rq_completed_at = None\<rparr>"

text \<open>The storage side of a staging: a file creation takes the uploaded source over, a preflight
  validates it, an initial preflight of an upload registers it with a time to live.\<close>

definition stage_sources ::
  "(string \<Rightarrow> string) \<Rightarrow> settings \<Rightarrow> txn \<Rightarrow> string \<Rightarrow> compute_command \<Rightarrow> string \<Rightarrow>
   ('a compute_db_scheme \<Rightarrow> 'a compute_db_scheme) \<Rightarrow> 'a compute_db_scheme \<Rightarrow> 'a compute_db_scheme result" where
  "stage_sources uuid5 cfg tx ns c rid env db =
     (case datasource_command_of c of
        Some (DC_Create_File f) \<Rightarrow> transfer_preflight_source uuid5 cfg tx 0 ns f rid env db
      | Some (DC_Preflight p) \<Rightarrow> and_then (validate_source_enqueue uuid5 ns (pf_source_path p) env db) (\<lambda>_. Inr (env db))
      | _ \<Rightarrow> Inr db)"

definition register_sources ::
  "(string \<Rightarrow> string) \<Rightarrow> settings \<Rightarrow> txn \<Rightarrow> string \<Rightarrow> timestamp \<Rightarrow> compute_command \<Rightarrow> string \<Rightarrow> 'a compute_db_scheme \<Rightarrow> 'a compute_db_scheme result" where
  "register_sources uuid5 cfg tx ns now c rid db =
     (case datasource_command_of c of
        Some (DC_Preflight p) \<Rightarrow>
          if pf_action p = PF_INITIAL \<and> pf_delete_source p
          then register_preflight_source uuid5 cfg tx 1 ns rid (pf_preflight_id p) (pf_source_path p) (Some (now + PREFLIGHT_TTL)) db
          else Inr db
      | _ \<Rightarrow> Inr db)"

definition insert_request ::
  "(string \<Rightarrow> string) \<Rightarrow> settings \<Rightarrow> txn \<Rightarrow> timestamp \<Rightarrow> string \<Rightarrow> compute_kind \<Rightarrow> compute_command \<Rightarrow> string \<Rightarrow> string option \<Rightarrow>
   ('a compute_db_scheme \<Rightarrow> 'a compute_db_scheme) \<Rightarrow> 'a compute_db_scheme \<Rightarrow> (compute_request \<times> 'a compute_db_scheme) result" where
  "insert_request uuid5 cfg tx now ns kind c rid key env db =
     and_then (stage_sources uuid5 cfg tx ns c rid env db) (\<lambda>db1.
     and_then (register_sources uuid5 cfg tx ns now c rid db1) (\<lambda>db2.
       let r = new_request cfg now ns kind c rid
       in if get_row rq_id rid (requests db2) \<noteq> None \<or>
             (key \<noteq> None \<and> get_row flight_id (ns, the key) (flights db2) \<noteq> None) \<or>
             (key \<noteq> None \<and> get_row fl_request_id rid (flights db2) \<noteq> None)
          then Inl (RuntimeError ''IntegrityError'')
          else let db3 = db2\<lparr>requests := requests db2 @ [r],
                    request_datasources := request_datasources db2 @
                      map (\<lambda>d. \<lparr>rqd_request_id = rid, rqd_datasource_id = d\<rparr>) (datasource_ids_for_command c),
                    flights := flights db2 @ (case key of None \<Rightarrow> []
                      | Some k \<Rightarrow> [\<lparr>fl_namespace = ns, fl_flight_key = k, fl_request_id = rid, fl_created_at = now, fl_expires_at = None\<rparr>])\<rparr>
               in Inr (r, snd (append_wake cfg (tx_wakes tx 2) (tx_stmt tx) ns K_COMPUTE db3))))"

text \<open>The sessions of the environment run between the unlocked lookup of the flight and the advisory
  lock (\<open>e1\<close>), between the two reads of a stale flight (\<open>e2\<close>), and around the storage locks (\<open>e3\<close>).\<close>

record 'd stage_env =
  se_lookup :: "'d \<Rightarrow> 'd"
  se_stale :: "'d \<Rightarrow> 'd"
  se_source :: "'d \<Rightarrow> 'd"

definition stage_request_core ::
  "(string \<Rightarrow> string) \<Rightarrow> (compute_command \<Rightarrow> string) \<Rightarrow> settings \<Rightarrow> txn \<Rightarrow> timestamp \<Rightarrow> string \<Rightarrow> compute_kind \<Rightarrow> compute_command \<Rightarrow> bool \<Rightarrow>
   string option \<Rightarrow> ('a compute_db_scheme \<Rightarrow> py_error option) \<Rightarrow> (string \<Rightarrow> bool) \<Rightarrow> 'a compute_db_scheme stage_env \<Rightarrow> 'a compute_db_scheme \<Rightarrow>
   ((compute_request \<times> bool) \<times> 'a compute_db_scheme) result" where
  "stage_request_core uuid5 digest cfg tx now ns kind c dedup request_id validate free env db =
     and_then (case validate db of None \<Rightarrow> Inr () | Some x \<Rightarrow> Inl x) (\<lambda>_.
     and_then (check_preflight_parent c db) (\<lambda>_.
       let c1 = snapshot_input_revisions db c;
           rid = (if truthy request_id then the request_id else tx_ids tx 0);
           key = (if dedup then flight_key digest kind c1 else None);
           create = (\<lambda>d. and_then (insert_request uuid5 cfg tx now ns kind c1 rid key (se_source env) d) (\<lambda>(r, d'). Inr ((r, True), d')))
       in case key of
            None \<Rightarrow> create db
          | Some k \<Rightarrow>
              and_then (find_reusable_flight ns k now db) (\<lambda>x.
                case x of
                  Some r \<Rightarrow> Inr ((r, False), db)
                | None \<Rightarrow>
                    if \<not> free (''dataforge:compute-flight:'' @ ns @ '':'' @ k)
                    then Inl (FlightLockBusy (''Compute flight '' @ k @ '' is being staged''))
                    else and_then (reusable_flight ns k now (se_stale env) (se_lookup env db)) (\<lambda>(y, db1).
                      case y of Some r \<Rightarrow> Inr ((r, False), db1) | None \<Rightarrow> create db1))))"

definition stage_request ::
  "(string \<Rightarrow> string) \<Rightarrow> (compute_command \<Rightarrow> string) \<Rightarrow> settings \<Rightarrow> txn \<Rightarrow> timestamp \<Rightarrow> string \<Rightarrow> compute_kind \<Rightarrow> compute_command \<Rightarrow>
   string option \<Rightarrow> (string \<Rightarrow> bool) \<Rightarrow> 'a compute_db_scheme stage_env \<Rightarrow> 'a compute_db_scheme \<Rightarrow>
   (compute_request \<times> 'a compute_db_scheme) result" where
  "stage_request uuid5 digest cfg tx now ns kind c request_id free env db =
     and_then (stage_request_core uuid5 digest cfg tx now ns kind c False request_id (\<lambda>_. None) free env db)
       (\<lambda>((r, _), db'). Inr (r, db'))"

definition stage_shared_flight_request ::
  "(string \<Rightarrow> string) \<Rightarrow> (compute_command \<Rightarrow> string) \<Rightarrow> settings \<Rightarrow> txn \<Rightarrow> timestamp \<Rightarrow> string \<Rightarrow> compute_kind \<Rightarrow> compute_command \<Rightarrow>
   string option \<Rightarrow> ('a compute_db_scheme \<Rightarrow> py_error option) \<Rightarrow> (string \<Rightarrow> bool) \<Rightarrow> 'a compute_db_scheme stage_env \<Rightarrow> 'a compute_db_scheme \<Rightarrow>
   ((compute_request \<times> bool) \<times> 'a compute_db_scheme) result" where
  "stage_shared_flight_request uuid5 digest cfg tx now ns kind c request_id validate free env db =
     (if kind \<notin> set SHARED_FLIGHT_REQUEST_KINDS then Inl (ValueError ''kind does not support shared request flights'')
      else if command_name c \<noteq> Some (shared_flight_command kind)
      then Inl (ValueError (''kind requires a '' @ shared_flight_command kind @ '' command''))
      else stage_request_core uuid5 digest cfg tx now ns kind c True request_id validate free env db)"

subsection \<open>Terminal states\<close>

definition terminal_values ::
  "compute_status \<Rightarrow> response_envelope \<Rightarrow> string option \<Rightarrow> timestamp \<Rightarrow> compute_request \<Rightarrow> compute_request" where
  "terminal_values status response err completed_at r =
     r\<lparr>rq_status := status, rq_response_envelope := Some response, rq_error_message := err, rq_completed_at := Some completed_at,
       rq_updated_at := completed_at, rq_lease_owner := None, rq_claim_token := None, rq_lease_expires_at := None,
       rq_claimed_at := None, rq_last_renewed_at := None\<rparr>"

text \<open>\<open>artifacts\<close> are the columns the caller assigned on the same row before.\<close>

definition publish_terminal ::
  "compute_status \<Rightarrow> response_envelope \<Rightarrow> string option \<Rightarrow> timestamp \<Rightarrow> bool \<Rightarrow> (compute_request \<Rightarrow> compute_request) \<Rightarrow> string \<Rightarrow> string \<Rightarrow>
   'a compute_db_scheme \<Rightarrow> 'a compute_db_scheme" where
  "publish_terminal status response err completed_at cache_result artifacts rid ns db =
     notify_on_commit [(''kind'', JStr ''compute_response''), (''request_id'', JStr rid), (''namespace'', JStr ns)]
       (finish_flight rid cache_result completed_at
          (db\<lparr>requests := update_where (\<lambda>r. rq_id r = rid)
                (\<lambda>r. terminal_values status response err completed_at (artifacts r)) (requests db)\<rparr>))"

definition retire_response :: "compute_request \<Rightarrow> string \<Rightarrow> payload option \<Rightarrow> response_envelope" where
  "retire_response r reason p =
     \<lparr>rs_kind = rq_kind r, rs_status = CR_FAILED, rs_correlation_id = rq_id r,
      rs_response = (case p of Some (x # xs) \<Rightarrow> x # xs | _ \<Rightarrow> [(''error'', JStr reason)]), rs_error_message = Some reason\<rparr>"

definition retire_request ::
  "timestamp \<Rightarrow> string \<Rightarrow> payload option \<Rightarrow> compute_request \<Rightarrow> 'a compute_db_scheme \<Rightarrow> 'a compute_db_scheme" where
  "retire_request now reason p r db =
     publish_terminal CR_FAILED (retire_response r reason p) (Some reason) now False (\<lambda>x. x) (rq_id r) (rq_namespace r) db"

definition cancel_disconnected_request ::
  "(compute_command \<Rightarrow> string) \<Rightarrow> timestamp \<Rightarrow> string \<Rightarrow> string \<Rightarrow> 'a compute_db_scheme \<Rightarrow> (compute_request option \<times> 'a compute_db_scheme) result" where
  "cancel_disconnected_request digest now rid reason db =
     (case find (\<lambda>r. rq_id r = rid \<and> request_active (rq_status r)) (requests db) of
        None \<Rightarrow> Inr (None, db)
      | Some r \<Rightarrow>
          and_then (is_shared_flight_request digest r) (\<lambda>shared.
            if shared then Inr (None, db)
            else and_then (if rq_status r = CR_RUNNING then map_sum id Some (command_envelope_for_request r) else Inr None) (\<lambda>envelope.
              if rq_status r = CR_RUNNING \<and> compute_worker_identity_for_command (rq_id r) (ce_command (the envelope)) = None
              then Inr (None, db)
              else let db1 = retire_request now reason (Some [(''error'', JStr reason)]) r db
                   in Inr (get_row rq_id rid (requests db1), db1))))"

definition targets_engine :: "string \<Rightarrow> worker_identity \<Rightarrow> compute_request \<Rightarrow> bool" where
  "targets_engine ns i r \<longleftrightarrow> rq_namespace r = ns \<and> rq_worker_identity r = Some i"

definition cancel_active_requests_for_engine ::
  "timestamp \<Rightarrow> string \<Rightarrow> worker_identity \<Rightarrow> string \<Rightarrow> 'a compute_db_scheme \<Rightarrow> nat \<times> 'a compute_db_scheme" where
  "cancel_active_requests_for_engine now ns i reason db =
     (let rs = filter (\<lambda>r. targets_engine ns i r \<and> request_active (rq_status r)) (requests db)
      in (length rs, fold (retire_request now reason (Some [(''error'', JStr reason)])) rs db))"

subsection \<open>Claiming\<close>

definition same_engine :: "compute_request \<Rightarrow> compute_request \<Rightarrow> bool" where
  "same_engine a b \<longleftrightarrow>
     rq_worker_identity a \<noteq> None \<and> rq_namespace a = rq_namespace b \<and> rq_worker_identity a = rq_worker_identity b"

definition running_sibling :: "compute_request \<Rightarrow> 'a compute_db_scheme \<Rightarrow> bool" where
  "running_sibling r db \<longleftrightarrow>
     list_ex (\<lambda>s. same_engine r s \<and> rq_status s = CR_RUNNING \<and> rq_id s \<noteq> rq_id r) (requests db)"

text \<open>The recheck under the engine lock compares the columns with the values of the row it read; on a
  row without an identity SQLAlchemy renders these comparisons as IS NULL, so that all requests of the
  namespace without an identity count as siblings.\<close>

definition active_sibling :: "compute_request \<Rightarrow> 'a compute_db_scheme \<Rightarrow> bool" where
  "active_sibling row db \<longleftrightarrow>
     list_ex (\<lambda>s. rq_namespace s = rq_namespace row \<and> rq_worker_identity s = rq_worker_identity row \<and>
        rq_status s = CR_RUNNING \<and> rq_id s \<noteq> rq_id row) (requests db)"

definition request_claimable :: "timestamp \<Rightarrow> string list \<Rightarrow> compute_request \<Rightarrow> bool" where
  "request_claimable now reclaimable r \<longleftrightarrow>
     rq_status r = CR_QUEUED \<or>
     (rq_status r = CR_RUNNING \<and>
      (rq_lease_owner r = None \<or> sql_in (rq_lease_owner r) reclaimable \<or> sql_le (rq_lease_expires_at r) now) \<and>
      rq_attempts r < rq_max_attempts r)"

type_synonym engine = "string \<times> worker_identity"

definition engine_claim_identity :: "compute_request \<Rightarrow> engine option" where
  "engine_claim_identity r = map_option (Pair (rq_namespace r)) (rq_worker_identity r)"

definition engine_free :: "(engine \<Rightarrow> bool) \<Rightarrow> compute_request \<Rightarrow> bool" where
  "engine_free free r = (case engine_claim_identity r of None \<Rightarrow> True | Some e \<Rightarrow> free e)"

definition claim_candidate ::
  "timestamp \<Rightarrow> string list \<Rightarrow> compute_kind list option \<Rightarrow> engine list \<Rightarrow> 'a compute_db_scheme \<Rightarrow> compute_request \<Rightarrow> bool" where
  "claim_candidate now reclaimable allowed blocked db r \<longleftrightarrow>
     request_claimable now reclaimable r \<and> \<not> running_sibling r db \<and>
     (case allowed of None \<Rightarrow> True | Some ks \<Rightarrow> rq_kind r \<in> set ks) \<and>
     (case engine_claim_identity r of None \<Rightarrow> True | Some e \<Rightarrow> e \<notin> set blocked)"

definition request_order :: "compute_request \<Rightarrow> nat \<times> timestamp \<times> string" where
  "request_order r = (request_priority (rq_kind r), rq_created_at r, rq_id r)"

definition request_claim_where :: "compute_request \<Rightarrow> compute_request \<Rightarrow> bool" where
  "request_claim_where row r \<longleftrightarrow> rq_id r = rq_id row \<and> rq_status r = rq_status row \<and>
     rq_lease_generation r = rq_lease_generation row \<and> rq_lease_owner r = rq_lease_owner row"

definition request_claim_values :: "string \<Rightarrow> string \<Rightarrow> timestamp \<Rightarrow> compute_request \<Rightarrow> compute_request \<Rightarrow> compute_request" where
  "request_claim_values worker tok lease_now row r =
     r\<lparr>rq_status := CR_RUNNING, rq_lease_owner := Some worker, rq_claim_token := Some tok,
       rq_lease_generation := rq_lease_generation row + 1,
       rq_lease_expires_at := Some (lease_now + seconds CLAIM_DELIVERY_LEASE_SECONDS),
       rq_claimed_at := Some lease_now, rq_last_renewed_at := Some lease_now, rq_attempts := rq_attempts row + 1,
       rq_updated_at := lease_now\<rparr>"

text \<open>What one round of the claim loop meets: the rows other transactions hold, the engine locks it
  gets, and what they commit between its snapshot and the sibling check under the engine lock.\<close>

record 'd claim_round =
  cr_txn :: txn
  cr_locked :: "string \<Rightarrow> bool"
  cr_free :: "engine \<Rightarrow> bool"
  cr_env :: "'d \<Rightarrow> 'd"

definition pick_request ::
  "string list \<Rightarrow> compute_kind list option \<Rightarrow> engine list \<Rightarrow> 'a compute_db_scheme claim_round \<Rightarrow> 'a compute_db_scheme \<Rightarrow> compute_request option" where
  "pick_request reclaimable allowed blocked rd db =
     first_row (select_ordered (\<lambda>r. claim_candidate (tx_now (cr_txn rd)) reclaimable allowed blocked db r \<and> \<not> cr_locked rd (rq_id r))
       request_order 1 (requests db))"

text \<open>The claim of the chosen row: the compare-and-swap and, after the commit, the read that returns
  it (\<open>late\<close> is what other sessions commit in between).\<close>

definition take_request ::
  "txn \<Rightarrow> string \<Rightarrow> ('a compute_db_scheme \<Rightarrow> 'a compute_db_scheme) \<Rightarrow> compute_request \<Rightarrow> 'a compute_db_scheme \<Rightarrow>
   compute_request option \<times> 'a compute_db_scheme" where
  "take_request tx worker late row db =
     (if rowcount (request_claim_where row) (requests db) \<noteq> 1 then (None, db)
      else let db1 = late (db\<lparr>requests := update_where (request_claim_where row)
                        (request_claim_values worker (tx_ids tx 0) (tx_wall tx) row) (requests db)\<rparr>)
           in (case get_row rq_id (rq_id row) (requests db1) of
                 None \<Rightarrow> (None, db1)
               | Some r \<Rightarrow> if rq_status r \<noteq> CR_RUNNING \<or> rq_claim_token r = None \<or> rq_lease_expires_at r = None
                           then (None, db1) else (Some r, db1)))"

text \<open>The loop, one round per element; \<open>None\<close> is a loop that has not ended after these rounds. A
  round that fails to lock the engine of its candidate blocks that engine for the later rounds.\<close>

fun claim_rounds ::
  "string \<Rightarrow> string list \<Rightarrow> compute_kind list option \<Rightarrow> ('a compute_db_scheme \<Rightarrow> 'a compute_db_scheme) \<Rightarrow> engine list \<Rightarrow>
   'a compute_db_scheme claim_round list \<Rightarrow> 'a compute_db_scheme \<Rightarrow> (compute_request option \<times> 'a compute_db_scheme) option" where
  "claim_rounds worker reclaimable allowed late blocked [] db = None"
| "claim_rounds worker reclaimable allowed late blocked (rd # rds) db =
     (case pick_request reclaimable allowed blocked rd db of
        None \<Rightarrow> Some (None, db)
      | Some row \<Rightarrow>
          if \<not> engine_free (cr_free rd) row
          then claim_rounds worker reclaimable allowed late (the (engine_claim_identity row) # blocked) rds (cr_env rd db)
          else if active_sibling row (cr_env rd db) then claim_rounds worker reclaimable allowed late blocked rds (cr_env rd db)
          else Some (take_request (cr_txn rd) worker late row (cr_env rd db)))"

definition claim_next_request ::
  "string \<Rightarrow> string list \<Rightarrow> compute_kind list option \<Rightarrow> ('a compute_db_scheme \<Rightarrow> 'a compute_db_scheme) \<Rightarrow>
   'a compute_db_scheme claim_round list \<Rightarrow> 'a compute_db_scheme \<Rightarrow> (compute_request option \<times> 'a compute_db_scheme) option" where
  "claim_next_request worker reclaimable allowed late rounds db = claim_rounds worker reclaimable allowed late [] rounds db"

subsection \<open>Recovery and renewal\<close>

definition exhausted_request :: "string \<Rightarrow> timestamp \<Rightarrow> compute_request \<Rightarrow> bool" where
  "exhausted_request ns now r \<longleftrightarrow> rq_namespace r = ns \<and> rq_status r = CR_RUNNING \<and> rq_attempts r \<ge> rq_max_attempts r \<and>
     sql_le (rq_lease_expires_at r) now"

definition exhausted_reason :: "compute_request \<Rightarrow> string" where
  "exhausted_reason r = ''Compute request exhausted '' @ show_int (rq_max_attempts r) @ '' execution attempts''"

definition stage_exhausted_requests ::
  "settings \<Rightarrow> txn \<Rightarrow> (string \<Rightarrow> bool) \<Rightarrow> string \<Rightarrow> 'a compute_db_scheme \<Rightarrow> nat \<times> 'a compute_db_scheme" where
  "stage_exhausted_requests cfg tx locked ns db =
     (let rs = select_ordered (\<lambda>r. exhausted_request ns (tx_now tx) r \<and> \<not> locked (rq_id r))
                 (\<lambda>r. (the (rq_lease_expires_at r), rq_id r)) RECONCILIATION_BATCH_SIZE (requests db);
          db1 = fold (\<lambda>r. retire_request (tx_now tx) (exhausted_reason r) None r) rs db
      in (length rs, refresh_compute_work cfg tx ns db1))"

record request_claim =
  rc_request_id :: string
  rc_claim_token :: string
  rc_lease_generation :: int

definition renewable :: "string \<Rightarrow> timestamp \<Rightarrow> request_claim list \<Rightarrow> compute_request \<Rightarrow> bool" where
  "renewable worker lease_now claims r \<longleftrightarrow>
     rq_status r = CR_RUNNING \<and> rq_lease_owner r = Some worker \<and> sql_gt (rq_lease_expires_at r) lease_now \<and>
     list_ex (\<lambda>c. rq_id r = rc_request_id c \<and> rq_claim_token r = Some (rc_claim_token c) \<and>
        rq_lease_generation r = rc_lease_generation c) claims"

definition renew_request_leases ::
  "settings \<Rightarrow> txn \<Rightarrow> request_claim list \<Rightarrow> string \<Rightarrow> 'a compute_db_scheme \<Rightarrow> (string list \<times> 'a compute_db_scheme) result" where
  "renew_request_leases cfg tx claims worker db =
     (if claims = [] \<or> \<not> distinct (map rc_request_id claims)
      then Inl (ValueError ''Compute lease renewal batch must contain unique request IDs'')
      else let P = renewable worker (tx_wall tx) claims
           in Inr (map rq_id (filter P (requests db)),
                   db\<lparr>requests := update_where P (\<lambda>r. r\<lparr>rq_lease_expires_at := Some (tx_wall tx + seconds (runtime_work_lease_ttl_seconds cfg)),
                        rq_last_renewed_at := Some (tx_wall tx), rq_updated_at := tx_wall tx\<rparr>) (requests db)\<rparr>))"

subsection \<open>Completion\<close>

record run_finalization =
  rf_run_id :: string
  rf_fields :: run_changes
  rf_merge_result_json :: bool

definition stage_run_finalization ::
  "(json \<Rightarrow> json result) \<Rightarrow> string \<Rightarrow> compute_request \<Rightarrow> run_finalization option \<Rightarrow> worker_run_status \<Rightarrow> 'a compute_db_scheme \<Rightarrow>
   'a compute_db_scheme result" where
  "stage_run_finalization dump ns r fin expected db =
     (case fin of
        None \<Rightarrow> Inr db
      | Some f \<Rightarrow>
          if rq_kind r \<noteq> CK_PREVIEW then Inl (ValueError ''Only preview requests can finalize a preview compute worker run'')
          else if ch_status (rf_fields f) \<noteq> Some expected
          then Inl (ValueError ''Preview compute worker run must finish with the status of its request'')
          else if ch_completed_at (rf_fields f) = None
          then Inl (ValueError ''Preview compute worker run finalization requires completed_at'')
          else and_then (stage_update_compute_worker_run dump ns (rf_run_id f) (rf_merge_result_json f) (rf_fields f) db) (\<lambda>(ok, db1).
            if \<not> ok then Inl (ValueError (''Preview compute worker run '' @ rf_run_id f @ '' rejected its terminal status transition''))
            else Inr db1))"

definition matching_terminal_request ::
  "string \<Rightarrow> compute_status \<Rightarrow> response_envelope \<Rightarrow> string option \<Rightarrow> string option \<times> string option \<times> string option \<Rightarrow>
   'a compute_db_scheme \<Rightarrow> compute_request option" where
  "matching_terminal_request rid status response err artifacts db =
     (case get_row rq_id rid (requests db) of
        None \<Rightarrow> None
      | Some r \<Rightarrow>
          if rq_status r \<noteq> status \<or> rq_response_envelope r \<noteq> Some response \<or> rq_error_message r \<noteq> err \<or>
             (rq_artifact_path r, rq_artifact_name r, rq_artifact_content_type r) \<noteq> artifacts
          then None else Some r)"

definition validate_response_envelope :: "compute_request \<Rightarrow> response_envelope \<Rightarrow> compute_status \<Rightarrow> unit result" where
  "validate_response_envelope r e expected =
     (if rs_kind e \<noteq> rq_kind r then Inl (ValueError (''Compute request '' @ rq_id r @ '' response kind does not match request kind''))
      else if rs_status e \<noteq> expected
      then Inl (ValueError (''Compute request '' @ rq_id r @ '' response status does not match completion status''))
      else if rs_correlation_id e \<noteq> rq_id r
      then Inl (ValueError (''Compute request '' @ rq_id r @ '' response correlation id does not match request id''))
      else Inr ())"

definition put_artifacts :: "(string option \<times> string option \<times> string option) option \<Rightarrow> compute_request \<Rightarrow> compute_request" where
  "put_artifacts a r =
     (case a of
        None \<Rightarrow> r
      | Some (p, n, t) \<Rightarrow> r\<lparr>rq_artifact_path := p, rq_artifact_name := n, rq_artifact_content_type := t\<rparr>)"

text \<open>\<open>env\<close> runs between the unlocked preparation and the locked write. A claim lost in between rolls
  the staged run back: the answer is read from the state the others left.\<close>

definition finish_claimed_request ::
  "(json \<Rightarrow> json result) \<Rightarrow> string \<Rightarrow> txn \<Rightarrow> timestamp \<Rightarrow> string \<Rightarrow> compute_status \<Rightarrow> response_envelope \<Rightarrow> string \<Rightarrow> string \<Rightarrow> int \<Rightarrow>
   string option \<Rightarrow> (string option \<times> string option \<times> string option) option \<Rightarrow> run_finalization option \<Rightarrow>
   ('a compute_db_scheme \<Rightarrow> 'a compute_db_scheme) \<Rightarrow> 'a compute_db_scheme \<Rightarrow> (compute_request option \<times> 'a compute_db_scheme) result" where
  "finish_claimed_request dump ns tx now rid status response worker tok g err artifacts fin env db =
     (let completed = (status = CR_COMPLETED);
          arts = (case artifacts of None \<Rightarrow> (None, None, None) | Some a \<Rightarrow> a)
      in case active_request_claim tx rid worker tok g db of
           None \<Rightarrow> Inr (matching_terminal_request rid status response err arts db, db)
         | Some r \<Rightarrow>
             and_then (validate_response_envelope r response status) (\<lambda>_.
             and_then (stage_run_finalization dump ns r fin (if completed then WR_SUCCESS else WR_FAILED) (env db)) (\<lambda>db1.
               case active_request_claim tx rid worker tok g (env db) of
                 None \<Rightarrow> Inr (matching_terminal_request rid status response err arts (env db), env db)
               | Some q \<Rightarrow>
                   and_then (if completed then cache_completed_flight (put_artifacts artifacts q) else Inr False) (\<lambda>cached.
                     let db2 = publish_terminal status response err now cached (put_artifacts artifacts) rid (rq_namespace q) db1
                     in Inr (get_row rq_id rid (requests db2), db2)))))"

definition mark_request_completed ::
  "(json \<Rightarrow> json result) \<Rightarrow> string \<Rightarrow> txn \<Rightarrow> timestamp \<Rightarrow> string \<Rightarrow> response_envelope \<Rightarrow> string \<Rightarrow> string \<Rightarrow> int \<Rightarrow>
   string option \<times> string option \<times> string option \<Rightarrow> run_finalization option \<Rightarrow>
   ('a compute_db_scheme \<Rightarrow> 'a compute_db_scheme) \<Rightarrow> 'a compute_db_scheme \<Rightarrow> (compute_request option \<times> 'a compute_db_scheme) result" where
  "mark_request_completed dump ns tx now rid response worker tok g artifacts fin env db =
     finish_claimed_request dump ns tx now rid CR_COMPLETED response worker tok g None (Some artifacts) fin env db"

definition mark_request_failed ::
  "(json \<Rightarrow> json result) \<Rightarrow> string \<Rightarrow> txn \<Rightarrow> timestamp \<Rightarrow> string \<Rightarrow> string \<Rightarrow> response_envelope \<Rightarrow> string \<Rightarrow> string \<Rightarrow> int \<Rightarrow>
   run_finalization option \<Rightarrow>
   ('a compute_db_scheme \<Rightarrow> 'a compute_db_scheme) \<Rightarrow> 'a compute_db_scheme \<Rightarrow> (compute_request option \<times> 'a compute_db_scheme) result" where
  "mark_request_failed dump ns tx now rid err response worker tok g fin env db =
     finish_claimed_request dump ns tx now rid CR_FAILED response worker tok g (Some err) None fin env db"

end
