(* ===== verification/Preflights.thy ===== *)
theory Preflights
  imports Compute_Requests
begin

text \<open>
  The end of Excel preflights (\<open>modules/datasource/preflight.py\<close>): a preflight is a durable compute request that
  keeps an uploaded source until the client clears it or it expires. Both transactions hand the source to the
  storage cleanup and delete the request. \<open>ns\<close> is the namespace of the session, \<open>now\<close> the Python clock.
\<close>

definition preflight_source :: "compute_request \<Rightarrow> string option" where
  "preflight_source r = (if rq_artifact_name r = Some ''preflight-source'' then rq_artifact_path r else None)"

text \<open>The source is registered for cleanup under the preflight, with its exact engine.\<close>

definition release_preflight ::
  "(string \<Rightarrow> string) \<Rightarrow> settings \<Rightarrow> txn \<Rightarrow> nat \<Rightarrow> string \<Rightarrow> string option \<Rightarrow> compute_request \<Rightarrow> 'a compute_db_scheme \<Rightarrow> 'a compute_db_scheme result" where
  "release_preflight uuid5 cfg tx i ns source r db =
     (case source of
        None \<Rightarrow> Inr (delete_request (rq_id r) db)
      | Some path \<Rightarrow>
          (case rq_worker_identity r of
             None \<Rightarrow> Inl (ValueError ''Preflight source ownership requires its exact engine RID'')
           | Some identity \<Rightarrow>
               and_then (register_preflight_source uuid5 cfg tx i ns (rq_id r) (wi_resource_id identity) path None db)
                 (\<lambda>db1. Inr (delete_request (rq_id r) db1))))"

definition remove_preflight ::
  "(string \<Rightarrow> string) \<Rightarrow> settings \<Rightarrow> txn \<Rightarrow> string \<Rightarrow> string \<Rightarrow> bool \<Rightarrow> 'a compute_db_scheme \<Rightarrow> (string option \<times> 'a compute_db_scheme) result" where
  "remove_preflight uuid5 cfg tx ns preflight_id delete_source db =
     (case get_row rq_id preflight_id (requests db) of
        None \<Rightarrow> Inr (None, db)
      | Some r \<Rightarrow>
          if rq_kind r \<noteq> CK_DATASOURCE_PREFLIGHT then Inr (None, db)
          else let source = (if delete_source then preflight_source r else None)
               in and_then (release_preflight uuid5 cfg tx 0 ns source r db) (\<lambda>db'. Inr (source, db')))"

definition preflight_expired :: "timestamp \<Rightarrow> compute_request \<Rightarrow> bool" where
  "preflight_expired before r \<longleftrightarrow>
     rq_kind r = CK_DATASOURCE_PREFLIGHT \<and> map_option wi_resource_id (rq_worker_identity r) = Some (rq_id r) \<and>
     rq_created_at r < before \<and> (rq_status r = CR_COMPLETED \<or> rq_status r = CR_FAILED)"

definition preflight_active :: "string \<Rightarrow> 'a compute_db_scheme \<Rightarrow> bool" where
  "preflight_active rid db \<longleftrightarrow>
     list_ex (\<lambda>r. map_option wi_resource_id (rq_worker_identity r) = Some rid \<and> request_active (rq_status r)) (requests db)"

fun expire_rows ::
  "(string \<Rightarrow> string) \<Rightarrow> settings \<Rightarrow> txn \<Rightarrow> nat \<Rightarrow> string \<Rightarrow> compute_request list \<Rightarrow> 'a compute_db_scheme \<Rightarrow> 'a compute_db_scheme result" where
  "expire_rows uuid5 cfg tx i ns [] db = Inr db"
| "expire_rows uuid5 cfg tx i ns (r # rs) db =
     (if preflight_active (rq_id r) db then expire_rows uuid5 cfg tx i ns rs db
      else and_then (release_preflight uuid5 cfg tx i ns (preflight_source r) r db) (expire_rows uuid5 cfg tx (Suc i) ns rs))"

text \<open>The query has a limit but no order: \<open>scan\<close> is the order in which the database meets the rows. Rows that other
  transactions hold are skipped.\<close>

definition expire_preflights ::
  "(string \<Rightarrow> string) \<Rightarrow> settings \<Rightarrow> txn \<Rightarrow> string \<Rightarrow> timestamp \<Rightarrow> (string \<Rightarrow> bool) \<Rightarrow> (compute_request list \<Rightarrow> compute_request list) \<Rightarrow>
   'a compute_db_scheme \<Rightarrow> 'a compute_db_scheme result" where
  "expire_preflights uuid5 cfg tx ns now locked scan db =
     expire_rows uuid5 cfg tx 0 ns
       (take 32 (scan (filter (\<lambda>r. preflight_expired (now - PREFLIGHT_TTL) r \<and> \<not> locked (rq_id r)) (requests db)))) db"

end
