(* ===== verification/Compute_Facts.thy ===== *)
theory Compute_Facts
  imports Preflights Job_Facts
begin

text \<open>
  Correctness of the compute request queue: claims form a fenced lease, one engine runs one request
  at a time, a shared flight hands its followers a request for the very same command, terminal
  requests are final and answer with a readable response, and the claim loop ends.

  Every operation is decomposed into a few elementary effects on the request and flight tables; the
  invariants are proved once per effect. Rows of preflight requests are also deleted: a set \<open>keep\<close> names requests
  whose rows are left in place.
\<close>

subsection \<open>Elementary effects\<close>

definition request_pending :: "compute_request \<Rightarrow> bool" where
  "request_pending r \<longleftrightarrow> rq_status r = CR_QUEUED \<or> rq_status r = CR_RUNNING"

definition response_fits :: "compute_request \<Rightarrow> compute_status \<Rightarrow> response_envelope \<Rightarrow> bool" where
  "response_fits r st e \<longleftrightarrow> rs_kind e = rq_kind r \<and> rs_status e = st \<and> rs_correlation_id e = rq_id r"

inductive request_effect ::
  "(compute_command \<Rightarrow> string) \<Rightarrow> 'a compute_db_scheme \<Rightarrow> 'a compute_db_scheme \<Rightarrow> bool" for digest where
  eff_frame: "requests db' = requests db \<Longrightarrow> flights db' = flights db \<Longrightarrow> request_effect digest db db'"
| eff_artifact: "requests db' = update_where P drop_artifact (requests db) \<Longrightarrow> flights db' = flights db \<Longrightarrow>
    request_effect digest db db'"
| eff_insert: "requests db' = requests db @ [new_request cfg now ns kind c rid] \<Longrightarrow> get_row rq_id rid (requests db) = None \<Longrightarrow>
    1 \<le> runtime_compute_max_attempts cfg \<Longrightarrow>
    flights db' = flights db @ (case key of None \<Rightarrow> [] | Some k \<Rightarrow>
      [\<lparr>fl_namespace = ns, fl_flight_key = k, fl_request_id = rid, fl_created_at = now, fl_expires_at = None\<rparr>]) \<Longrightarrow>
    (\<And>k. key = Some k \<Longrightarrow> flight_key digest kind c = Some k \<and> get_row flight_id (ns, k) (flights db) = None \<and>
       get_row fl_request_id rid (flights db) = None) \<Longrightarrow> request_effect digest db db'"
| eff_renew: "requests db' = update_where P (\<lambda>r. r\<lparr>rq_lease_expires_at := Some t, rq_last_renewed_at := Some u, rq_updated_at := v\<rparr>) (requests db) \<Longrightarrow>
    (\<And>r. P r \<Longrightarrow> rq_status r = CR_RUNNING) \<Longrightarrow> flights db' = flights db \<Longrightarrow> request_effect digest db db'"
| eff_claim: "requests db' = update_where (request_claim_where row) (request_claim_values w tok t row) (requests db) \<Longrightarrow>
    row \<in> set (requests db) \<Longrightarrow> request_claimable now rec row \<Longrightarrow> \<not> active_sibling row db \<Longrightarrow>
    flights db' = flights db \<Longrightarrow> request_effect digest db db'"
| eff_finish: "requests db' = update_where (\<lambda>r. rq_id r = rq_id row) (\<lambda>r. terminal_values st e err t (put_artifacts a r)) (requests db) \<Longrightarrow>
    row \<in> set (requests db) \<Longrightarrow> request_pending row \<Longrightarrow> \<not> request_pending (terminal_values st e err t row) \<Longrightarrow> response_fits row st e \<Longrightarrow>
    (cached \<Longrightarrow> st = CR_COMPLETED) \<Longrightarrow>
    flights db' = (if cached then update_where (\<lambda>f. fl_request_id f = rq_id row) (\<lambda>f. f\<lparr>fl_expires_at := x\<rparr>) (flights db)
                   else delete_where (\<lambda>f. fl_request_id f = rq_id row) (flights db)) \<Longrightarrow> request_effect digest db db'"
| eff_drop: "requests db' = requests db \<Longrightarrow> flights db' = delete_where Q (flights db) \<Longrightarrow> request_effect digest db db'"

subsection \<open>The invariant\<close>

definition request_holder :: "compute_request \<Rightarrow> string option" where
  "request_holder r = (if rq_status r = CR_RUNNING then rq_claim_token r else None)"

definition request_ok :: "compute_request \<Rightarrow> bool" where
  "request_ok r \<longleftrightarrow>
     ce_kind (rq_command_envelope r) = rq_kind r \<and> ce_correlation_id (rq_command_envelope r) = rq_id r \<and>
     (rq_status r = CR_RUNNING \<longleftrightarrow> rq_claim_token r \<noteq> None) \<and> (rq_claim_token r \<noteq> None \<longleftrightarrow> rq_lease_owner r \<noteq> None) \<and>
     (rq_claim_token r \<noteq> None \<longleftrightarrow> rq_lease_expires_at r \<noteq> None) \<and>
     0 \<le> rq_attempts r \<and> rq_attempts r \<le> rq_max_attempts r \<and> 1 \<le> rq_max_attempts r \<and>
     (rq_status r = CR_QUEUED \<longrightarrow> rq_attempts r = 0) \<and>
     (\<not> request_pending r \<longrightarrow> (\<exists>e. rq_response_envelope r = Some e \<and> response_fits r (rq_status r) e))"

definition request_move :: "compute_request \<Rightarrow> compute_request \<Rightarrow> bool" where
  "request_move a b \<longleftrightarrow> lease_move rq_id rq_lease_generation request_holder a b \<and>
     rq_namespace b = rq_namespace a \<and> rq_kind b = rq_kind a \<and> rq_worker_identity b = rq_worker_identity a \<and>
     rq_command_envelope b = rq_command_envelope a \<and>
     (\<not> request_pending a \<longrightarrow> rq_status b = rq_status a \<and> rq_response_envelope b = rq_response_envelope a \<and>
        rq_error_message b = rq_error_message a \<and> rq_completed_at b = rq_completed_at a)"

definition flight_ok :: "(compute_command \<Rightarrow> string) \<Rightarrow> compute_request list \<Rightarrow> request_flight \<Rightarrow> bool" where
  "flight_ok digest rs f \<longleftrightarrow>
     (\<exists>r. get_row rq_id (fl_request_id f) rs = Some r \<and> rq_namespace r = fl_namespace f \<and> rq_status r \<noteq> CR_FAILED \<and>
        flight_key digest (rq_kind r) (ce_command (rq_command_envelope r)) = Some (fl_flight_key f))"

definition engines_exclusive :: "compute_request list \<Rightarrow> bool" where
  "engines_exclusive rs \<longleftrightarrow>
     (\<forall>a \<in> set rs. \<forall>b \<in> set rs. same_engine a b \<and> rq_status a = CR_RUNNING \<and> rq_status b = CR_RUNNING \<longrightarrow> rq_id a = rq_id b)"

definition compute_inv :: "(compute_command \<Rightarrow> string) \<Rightarrow> 'a compute_db_scheme \<Rightarrow> bool" where
  "compute_inv digest db \<longleftrightarrow> unique_by rq_id (requests db) \<and> (\<forall>r \<in> set (requests db). request_ok r) \<and>
     engines_exclusive (requests db) \<and> unique_by flight_id (flights db) \<and> unique_by fl_request_id (flights db) \<and>
     (\<forall>f \<in> set (flights db). flight_ok digest (requests db) f)"

lemma request_move_refl [simp]: "request_move r r"
  by (simp add: request_move_def)

lemma request_move_trans: "request_move a b \<Longrightarrow> request_move b c \<Longrightarrow> request_move a c"
  unfolding request_move_def request_pending_def by (auto intro: lease_move_trans)

lemma request_move_id: "request_move a b \<Longrightarrow> rq_id b = rq_id a"
  by (simp add: request_move_def lease_move_def)

text \<open>What an in-place rewrite keeps, once for all effects but the insertion.\<close>

lemma rewrite_keeps:
  assumes uniq: "unique_by rq_id rs" and ok: "\<forall>r \<in> set rs. request_ok r"
    and rw: "\<And>r. r \<in> set rs \<Longrightarrow> P r \<Longrightarrow> request_ok r \<Longrightarrow> request_move r (f r) \<and> request_ok (f r)"
    and key: "\<And>r. rq_id (f r) = rq_id r"
  shows "unique_by rq_id (update_where P f rs) \<and> (\<forall>r \<in> set (update_where P f rs). request_ok r) \<and>
    rows_evolve request_move rs (update_where P f rs)"
  using assms by (auto simp: set_update_where unique_update intro!: rows_evolve_update)

lemma flight_ok_rewrite:
  assumes "flight_ok digest rs f" and "list_all2 request_move rs ts"
    and "\<And>r. get_row rq_id (fl_request_id f) ts = Some r \<Longrightarrow> rq_status r \<noteq> CR_FAILED"
  shows "flight_ok digest ts f"
proof -
  obtain r where r: "get_row rq_id (fl_request_id f) rs = Some r" "rq_namespace r = fl_namespace f"
      "flight_key digest (rq_kind r) (ce_command (rq_command_envelope r)) = Some (fl_flight_key f)"
    using assms(1) by (auto simp: flight_ok_def)
  have "rel_option request_move (get_row rq_id (fl_request_id f) rs) (get_row rq_id (fl_request_id f) ts)"
    by (rule get_row_rel [OF assms(2)]) (rule request_move_id)
  then obtain s where "get_row rq_id (fl_request_id f) ts = Some s" "request_move r s"
    using r(1) by (cases "get_row rq_id (fl_request_id f) ts") auto
  then show ?thesis using r assms(3) by (auto simp: flight_ok_def request_move_def)
qed

lemma engines_exclusive_rewrite:
  assumes "engines_exclusive rs"
    and "\<And>r. rq_id (f r) = rq_id r \<and> rq_namespace (f r) = rq_namespace r \<and> rq_worker_identity (f r) = rq_worker_identity r"
    and "\<And>r. r \<in> set rs \<Longrightarrow> P r \<Longrightarrow> rq_status (f r) = CR_RUNNING \<Longrightarrow> rq_status r = CR_RUNNING"
  shows "engines_exclusive (update_where P f rs)"
proof -
  have orig: "\<exists>q \<in> set rs. rq_id q = rq_id r \<and> rq_namespace q = rq_namespace r \<and> rq_worker_identity q = rq_worker_identity r \<and>
      (rq_status r = CR_RUNNING \<longrightarrow> rq_status q = CR_RUNNING)" if r: "r \<in> set (update_where P f rs)" for r
  proof -
    from r obtain q where q: "q \<in> set rs" "r = (if P q then f q else q)" by (auto simp: set_update_where)
    then show ?thesis using assms(2) [of q] assms(3) [of q] by (intro bexI [of _ q]) auto
  qed
  show ?thesis unfolding engines_exclusive_def
  proof (intro ballI impI)
    fix a b assume ab: "a \<in> set (update_where P f rs)" "b \<in> set (update_where P f rs)"
      and e: "same_engine a b \<and> rq_status a = CR_RUNNING \<and> rq_status b = CR_RUNNING"
    from orig [OF ab(1)] obtain p where p: "p \<in> set rs" "rq_id p = rq_id a" "rq_namespace p = rq_namespace a"
        "rq_worker_identity p = rq_worker_identity a" "rq_status p = CR_RUNNING" using e by blast
    from orig [OF ab(2)] obtain q where q: "q \<in> set rs" "rq_id q = rq_id b" "rq_namespace q = rq_namespace b"
        "rq_worker_identity q = rq_worker_identity b" "rq_status q = CR_RUNNING" using e by blast
    have "same_engine p q" using e p q by (auto simp: same_engine_def)
    then show "rq_id a = rq_id b" using assms(1) p q unfolding engines_exclusive_def by metis
  qed
qed

subsection \<open>The effects keep it\<close>

lemma pending_terminal: "request_pending (terminal_values st e err t r) \<longleftrightarrow> st = CR_QUEUED \<or> st = CR_RUNNING"
  by (simp add: request_pending_def terminal_values_def)

lemma put_artifacts_frame [simp]:
  "rq_id (put_artifacts a r) = rq_id r" "rq_namespace (put_artifacts a r) = rq_namespace r" "rq_kind (put_artifacts a r) = rq_kind r"
  "rq_status (put_artifacts a r) = rq_status r" "rq_worker_identity (put_artifacts a r) = rq_worker_identity r"
  "rq_command_envelope (put_artifacts a r) = rq_command_envelope r" "rq_lease_generation (put_artifacts a r) = rq_lease_generation r"
  "rq_attempts (put_artifacts a r) = rq_attempts r" "rq_max_attempts (put_artifacts a r) = rq_max_attempts r"
  by (simp_all add: put_artifacts_def split: option.split)

lemma drop_artifact_row: "request_ok r \<Longrightarrow> request_move r (drop_artifact r) \<and> request_ok (drop_artifact r)"
  by (auto simp: drop_artifact_def request_move_def lease_move_def request_holder_def request_ok_def request_pending_def response_fits_def)

lemma renew_row: "request_ok r \<Longrightarrow> rq_status r = CR_RUNNING \<Longrightarrow>
    request_move r (r\<lparr>rq_lease_expires_at := Some t, rq_last_renewed_at := u, rq_updated_at := v\<rparr>) \<and>
    request_ok (r\<lparr>rq_lease_expires_at := Some t, rq_last_renewed_at := u, rq_updated_at := v\<rparr>)"
  by (auto simp: request_move_def lease_move_def request_holder_def request_ok_def request_pending_def)

lemma claim_row: "request_ok r \<Longrightarrow> request_claimable now rec r \<Longrightarrow>
    request_move r (request_claim_values w tok t r r) \<and> request_ok (request_claim_values w tok t r r)"
  by (auto simp: request_claim_values_def request_move_def lease_move_def request_ok_def request_pending_def request_claimable_def)

lemma finish_row:
  assumes "request_ok r" and "request_pending r" and "st = CR_COMPLETED \<or> st = CR_FAILED" and "response_fits r st e"
  shows "request_move r (terminal_values st e err t (put_artifacts a r)) \<and> request_ok (terminal_values st e err t (put_artifacts a r))"
  using assms
  by (auto simp: request_move_def lease_move_def request_holder_def request_ok_def request_pending_def terminal_values_def response_fits_def)

lemma new_request_ok: "1 \<le> runtime_compute_max_attempts cfg \<Longrightarrow> request_ok (new_request cfg now ns kind c rid)"
  by (simp add: new_request_def request_ok_def request_pending_def)

abbreviation requests_move :: "compute_request list \<Rightarrow> compute_request list \<Rightarrow> bool" where
  "requests_move \<equiv> table_move rq_id rq_lease_generation request_holder"

definition effect_kept :: "(compute_command \<Rightarrow> string) \<Rightarrow> 'a compute_db_scheme \<Rightarrow> 'a compute_db_scheme \<Rightarrow> bool" where
  "effect_kept digest db db' \<longleftrightarrow> compute_inv digest db' \<and> rows_evolve request_move (requests db) (requests db') \<and>
     requests_move (requests db) (requests db')"

lemma rewrite_effect:
  fixes db db' :: "'a compute_db_scheme"
  assumes inv: "compute_inv digest db" and reqs: "requests db' = update_where P f (requests db)"
    and row: "\<And>r. r \<in> set (requests db) \<Longrightarrow> P r \<Longrightarrow> request_ok r \<Longrightarrow> request_move r (f r) \<and> request_ok (f r)"
    and ids: "\<And>r. rq_id (f r) = rq_id r"
    and excl: "engines_exclusive (requests db')"
    and uniq: "unique_by flight_id (flights db')" "unique_by fl_request_id (flights db')"
    and fls: "\<And>x. x \<in> set (flights db') \<Longrightarrow> \<exists>y \<in> set (flights db). flight_id y = flight_id x \<and> fl_request_id y = fl_request_id x"
    and live: "\<And>x r. x \<in> set (flights db') \<Longrightarrow> get_row rq_id (fl_request_id x) (requests db') = Some r \<Longrightarrow> rq_status r \<noteq> CR_FAILED"
  shows "effect_kept digest db db'"
proof -
  have ok: "unique_by rq_id (requests db)" "\<forall>r \<in> set (requests db). request_ok r" using inv by (simp_all add: compute_inv_def)
  note k = rewrite_keeps [OF ok row ids, where P = P]
  have moves: "list_all2 request_move (requests db) (requests db')"
    unfolding reqs using row ok(2) by (intro list_all2_update_where) auto
  have "flight_ok digest (requests db') x" if x: "x \<in> set (flights db')" for x
  proof -
    from fls [OF x] obtain y where y: "y \<in> set (flights db)" "flight_id y = flight_id x" "fl_request_id y = fl_request_id x" by blast
    have "flight_ok digest (requests db) x" using inv y by (auto simp: compute_inv_def flight_ok_def)
    then show ?thesis by (rule flight_ok_rewrite [OF _ moves]) (rule live [OF x])
  qed
  moreover have "list_all2 (lease_move rq_id rq_lease_generation request_holder) (requests db) (requests db')"
    by (rule list_all2_mono [OF moves]) (simp add: request_move_def)
  ultimately show ?thesis using k excl uniq by (simp add: effect_kept_def compute_inv_def reqs table_move_rows)
qed

text \<open>The rewrites that leave flights alone and cannot make a request fail.\<close>

lemma rewrite_effect_live:
  fixes db db' :: "'a compute_db_scheme"
  assumes inv: "compute_inv digest db" and reqs: "requests db' = update_where P f (requests db)"
    and row: "\<And>r. r \<in> set (requests db) \<Longrightarrow> P r \<Longrightarrow> request_ok r \<Longrightarrow> request_move r (f r) \<and> request_ok (f r)"
    and ids: "\<And>r. rq_id (f r) = rq_id r"
    and excl: "engines_exclusive (requests db')"
    and alive: "\<And>r. r \<in> set (requests db) \<Longrightarrow> P r \<Longrightarrow> rq_status (f r) = CR_FAILED \<Longrightarrow> rq_status r = CR_FAILED"
    and fls: "flights db' = flights db"
  shows "effect_kept digest db db'"
proof (rule rewrite_effect [OF inv reqs row ids excl])
  show "unique_by flight_id (flights db')" "unique_by fl_request_id (flights db')"
    using inv fls by (simp_all add: compute_inv_def)
next
  fix x r assume x: "x \<in> set (flights db')" and r: "get_row rq_id (fl_request_id x) (requests db') = Some r"
  have "flight_ok digest (requests db) x" using inv x fls by (simp add: compute_inv_def)
  then obtain q where q: "get_row rq_id (fl_request_id x) (requests db) = Some q" "rq_status q \<noteq> CR_FAILED" by (auto simp: flight_ok_def)
  have uniq: "unique_by rq_id (requests db)" using inv by (simp add: compute_inv_def)
  from r obtain p where p: "p \<in> set (requests db)" "r = (if P p then f p else p)" "rq_id p = fl_request_id x"
    using get_row_SomeD [OF r] ids by (auto simp: reqs set_update_where split: if_splits)
  then have "p = q" using q(1) uniq get_row_SomeD [OF q(1)] unique_by_eq by metis
  then show "rq_status r \<noteq> CR_FAILED" using p q alive by auto
qed (use fls in auto)

lemma effect_frame_kept:
  fixes db db' :: "'a compute_db_scheme"
  assumes "compute_inv digest db" and "requests db' = requests db" and "flights db' = delete_where Q (flights db)"
  shows "effect_kept digest db db'"
proof -
  have "set (flights db') \<subseteq> set (flights db)" "unique_by flight_id (flights db')" "unique_by fl_request_id (flights db')"
    using assms by (auto simp: compute_inv_def delete_where_def unique_by_def distinct_map_filter)
  then show ?thesis using assms by (auto simp: effect_kept_def compute_inv_def)
qed

lemma effect_insert_kept:
  fixes db db' :: "'a compute_db_scheme"
  assumes inv: "compute_inv digest db" and reqs: "requests db' = requests db @ [new_request cfg now ns kind c rid]"
    and fresh: "get_row rq_id rid (requests db) = None" and cfg: "1 \<le> runtime_compute_max_attempts cfg"
    and fls: "flights db' = flights db @ (case key of None \<Rightarrow> [] | Some k \<Rightarrow>
      [\<lparr>fl_namespace = ns, fl_flight_key = k, fl_request_id = rid, fl_created_at = now, fl_expires_at = None\<rparr>])"
    and key: "\<And>k. key = Some k \<Longrightarrow> flight_key digest kind c = Some k \<and> get_row flight_id (ns, k) (flights db) = None \<and>
       get_row fl_request_id rid (flights db) = None"
  shows "effect_kept digest db db'"
proof -
  let ?r = "new_request cfg now ns kind c rid"
  have r: "rq_id ?r = rid" "rq_status ?r = CR_QUEUED" "rq_namespace ?r = ns" "rq_kind ?r = kind" "rq_lease_generation ?r = 0"
      "ce_command (rq_command_envelope ?r) = c" by (simp_all add: new_request_def)
  have "unique_by flight_id (flights db')" "unique_by fl_request_id (flights db')"
    using inv key fls by (cases key; simp add: compute_inv_def unique_append1)+
  moreover have "flight_ok digest (requests db') x" if x: "x \<in> set (flights db')" for x
  proof (cases "x \<in> set (flights db)")
    case True
    then have "flight_ok digest (requests db) x" using inv by (simp add: compute_inv_def)
    then show ?thesis by (auto simp: flight_ok_def reqs table_simps)
  next
    case False
    then obtain k where "key = Some k" "x = \<lparr>fl_namespace = ns, fl_flight_key = k, fl_request_id = rid, fl_created_at = now, fl_expires_at = None\<rparr>"
      using x fls by (cases key) auto
    then show ?thesis using key r fresh by (simp add: flight_ok_def reqs table_simps)
  qed
  moreover have "engines_exclusive (requests db')"
    using inv r by (auto simp: compute_inv_def engines_exclusive_def reqs)
  moreover have "requests_move (requests db) (requests db')"
    unfolding reqs by (rule table_move_append) (simp_all add: request_holder_def r)
  moreover have "rows_evolve request_move (requests db) (requests db')"
    unfolding reqs by (rule rows_evolve_append) simp
  ultimately show ?thesis
    using inv new_request_ok [OF cfg] fresh by (simp add: effect_kept_def compute_inv_def reqs unique_append1 r)
qed

lemma claim_row_only:
  "unique_by rq_id rs \<Longrightarrow> row \<in> set rs \<Longrightarrow> r \<in> set rs \<Longrightarrow> request_claim_where row r \<Longrightarrow> r = row"
  by (simp add: request_claim_where_def unique_by_eq)

lemma request_claim_values_frame [simp]:
  "rq_id (request_claim_values w tok t row r) = rq_id r" "rq_namespace (request_claim_values w tok t row r) = rq_namespace r"
  "rq_worker_identity (request_claim_values w tok t row r) = rq_worker_identity r"
  "rq_status (request_claim_values w tok t row r) = CR_RUNNING"
  by (simp_all add: request_claim_values_def)

lemma claim_exclusive:
  assumes "engines_exclusive rs" and uniq: "unique_by rq_id rs" and row: "row \<in> set rs"
    and free: "\<not> list_ex (\<lambda>s. rq_namespace s = rq_namespace row \<and> rq_worker_identity s = rq_worker_identity row \<and>
        rq_status s = CR_RUNNING \<and> rq_id s \<noteq> rq_id row) rs"
  shows "engines_exclusive (update_where (request_claim_where row) (request_claim_values w tok t row) rs)"
  unfolding engines_exclusive_def
proof (intro ballI impI)
  fix a b
  assume ab: "a \<in> set (update_where (request_claim_where row) (request_claim_values w tok t row) rs)"
      "b \<in> set (update_where (request_claim_where row) (request_claim_values w tok t row) rs)"
    and e: "same_engine a b \<and> rq_status a = CR_RUNNING \<and> rq_status b = CR_RUNNING"
  have orig: "x \<in> set rs \<or> x = request_claim_values w tok t row row"
    if "x \<in> set (update_where (request_claim_where row) (request_claim_values w tok t row) rs)" for x
    using that claim_row_only [OF uniq row] by (auto simp: set_update_where)
  have other: "rq_id x = rq_id row" if "x \<in> set rs" "rq_status x = CR_RUNNING"
      "rq_namespace x = rq_namespace row" "rq_worker_identity x = rq_worker_identity row" for x
    using free that by (auto simp: list_ex_iff)
  let ?c = "request_claim_values w tok t row row"
  have s: "rq_namespace a = rq_namespace b" "rq_worker_identity a = rq_worker_identity b" using e by (auto simp: same_engine_def)
  show "rq_id a = rq_id b"
  proof (cases "a = ?c \<or> b = ?c")
    case True
    then show ?thesis using orig [OF ab(1)] orig [OF ab(2)] e s other [of a] other [of b] by (elim disjE) simp_all
  next
    case False
    then have "a \<in> set rs" "b \<in> set rs" using orig ab by blast+
    then show ?thesis using assms(1) e unfolding engines_exclusive_def by blast
  qed
qed

lemma effect_claim_kept:
  fixes db db' :: "'a compute_db_scheme"
  assumes inv: "compute_inv digest db" and reqs: "requests db' = update_where (request_claim_where row) (request_claim_values w tok t row) (requests db)"
    and row: "row \<in> set (requests db)" "request_claimable now rec row" and free: "\<not> active_sibling row db" and fls: "flights db' = flights db"
  shows "effect_kept digest db db'"
proof (rule rewrite_effect_live [OF inv reqs _ _ _ _ fls])
  have uniq: "unique_by rq_id (requests db)" using inv by (simp add: compute_inv_def)
  show "request_move r (request_claim_values w tok t row r) \<and> request_ok (request_claim_values w tok t row r)"
    if "r \<in> set (requests db)" "request_claim_where row r" "request_ok r" for r
    using that claim_row_only [OF uniq row(1)] claim_row [of row now rec] row(2) by blast
  show "engines_exclusive (requests db')"
    unfolding reqs using inv free row(1) by (intro claim_exclusive) (auto simp: compute_inv_def active_sibling_def)
qed simp_all

lemma effect_finish_kept:
  fixes db db' :: "'a compute_db_scheme"
  assumes inv: "compute_inv digest db"
    and reqs: "requests db' = update_where (\<lambda>r. rq_id r = rq_id row) (\<lambda>r. terminal_values st e err t (put_artifacts a r)) (requests db)"
    and row: "row \<in> set (requests db)" "request_pending row" and st: "\<not> request_pending (terminal_values st e err t row)"
    and fit: "response_fits row st e" and cached: "cached \<Longrightarrow> st = CR_COMPLETED"
    and fls: "flights db' = (if cached then update_where (\<lambda>f. fl_request_id f = rq_id row) (\<lambda>f. f\<lparr>fl_expires_at := x\<rparr>) (flights db)
                   else delete_where (\<lambda>f. fl_request_id f = rq_id row) (flights db))"
  shows "effect_kept digest db db'"
proof (rule rewrite_effect [OF inv reqs])
  have uniq: "unique_by rq_id (requests db)" using inv by (simp add: compute_inv_def)
  have only: "r = row" if "r \<in> set (requests db)" "rq_id r = rq_id row" for r using that uniq row(1) by (simp add: unique_by_eq)
  have tst: "st = CR_COMPLETED \<or> st = CR_FAILED" using st by (cases st) (auto simp: pending_terminal)
  show "request_move r (terminal_values st e err t (put_artifacts a r)) \<and> request_ok (terminal_values st e err t (put_artifacts a r))"
    if "r \<in> set (requests db)" "rq_id r = rq_id row" "request_ok r" for r
    using that only finish_row [OF _ _ tst] row(2) fit by blast
  show "engines_exclusive (requests db')" unfolding reqs
    using inv tst by (intro engines_exclusive_rewrite) (auto simp: compute_inv_def terminal_values_def)
  show "unique_by flight_id (flights db')" "unique_by fl_request_id (flights db')"
    using inv fls by (auto simp: compute_inv_def unique_update unique_delete)
  show "\<exists>y \<in> set (flights db). flight_id y = flight_id z \<and> fl_request_id y = fl_request_id z" if "z \<in> set (flights db')" for z
    using that fls by (auto simp: set_update_where delete_where_def split: if_splits)
  fix z r assume z: "z \<in> set (flights db')" and r: "get_row rq_id (fl_request_id z) (requests db') = Some r"
  show "rq_status r \<noteq> CR_FAILED"
  proof (cases "fl_request_id z = rq_id row")
    case True
    then have c: cached using z fls by (auto simp: delete_where_def split: if_splits)
    have "r \<in> set (requests db')" "rq_id r = rq_id row" using get_row_SomeD [OF r] True by auto
    then show ?thesis using cached [OF c] by (auto simp: reqs set_update_where terminal_values_def)
  next
    case False
    then have zin: "z \<in> set (flights db)" using z fls by (auto simp: set_update_where delete_where_def split: if_splits)
    have "get_row rq_id (fl_request_id z) (requests db') = get_row rq_id (fl_request_id z) (requests db)"
      unfolding reqs using False
      by (cases "get_row rq_id (fl_request_id z) (requests db)") (auto simp: table_simps terminal_values_def dest: get_row_SomeD)
    then show ?thesis using zin r inv by (auto simp: compute_inv_def flight_ok_def)
  qed
qed (simp add: terminal_values_def)

lemma request_effect_kept:
  assumes "request_effect digest db db'" and "compute_inv digest db"
  shows "effect_kept digest db db'"
  using assms
proof cases
  case eff_frame
  then show ?thesis using effect_frame_kept [OF assms(2), of db' "\<lambda>_. False"] by (simp add: delete_where_def)
next
  case (eff_artifact P)
  have "engines_exclusive (requests db')" unfolding eff_artifact(1)
    using assms(2) by (intro engines_exclusive_rewrite) (auto simp: compute_inv_def drop_artifact_def)
  then show ?thesis using eff_artifact drop_artifact_row
    by (intro rewrite_effect_live [OF assms(2) eff_artifact(1)]) (auto simp: drop_artifact_def)
next
  case (eff_renew P t u v)
  have "engines_exclusive (requests db')" unfolding eff_renew(1)
    using assms(2) by (intro engines_exclusive_rewrite) (auto simp: compute_inv_def)
  then show ?thesis using eff_renew renew_row
    by (intro rewrite_effect_live [OF assms(2) eff_renew(1)]) auto
next
  case eff_insert
  then show ?thesis by (intro effect_insert_kept [OF assms(2)])
next
  case eff_claim
  then show ?thesis by (intro effect_claim_kept [OF assms(2)])
next
  case eff_finish
  then show ?thesis by (intro effect_finish_kept [OF assms(2)])
next
  case (eff_drop Q)
  then show ?thesis by (intro effect_frame_kept [OF assms(2)])
qed

interpretation effect_lease: lease_table "request_effect digest" "compute_inv digest" requests rq_id rq_lease_generation request_holder
  by unfold_locales (auto dest: request_effect_kept simp: effect_kept_def)

subsection \<open>Effects and removals\<close>

inductive request_change ::
  "(compute_command \<Rightarrow> string) \<Rightarrow> string set \<Rightarrow> 'a compute_db_scheme \<Rightarrow> 'a compute_db_scheme \<Rightarrow> bool" for digest keep where
  ch_effect: "request_effect digest db db' \<Longrightarrow> request_change digest keep db db'"
| ch_remove: "requests db' = delete_where P (requests db) \<Longrightarrow> flights db' = delete_where Q (flights db) \<Longrightarrow>
    (\<And>r. r \<in> set (requests db) \<Longrightarrow> P r \<Longrightarrow> rq_id r \<notin> keep) \<Longrightarrow>
    (\<And>r f. r \<in> set (requests db) \<Longrightarrow> P r \<Longrightarrow> fl_request_id f = rq_id r \<Longrightarrow> Q f) \<Longrightarrow> request_change digest keep db db'"

text \<open>The kept rows stay and move.\<close>

definition kept_moves :: "string set \<Rightarrow> compute_request list \<Rightarrow> compute_request list \<Rightarrow> bool" where
  "kept_moves keep rs ts \<longleftrightarrow>
     (\<forall>k \<in> keep. \<forall>r. get_row rq_id k rs = Some r \<longrightarrow> (\<exists>r'. get_row rq_id k ts = Some r' \<and> request_move r r'))"

lemma kept_moves_refl [simp]: "kept_moves keep rs rs"
  by (simp add: kept_moves_def)

lemma kept_moves_trans: "kept_moves keep rs ts \<Longrightarrow> kept_moves keep ts us \<Longrightarrow> kept_moves keep rs us"
  unfolding kept_moves_def by (blast intro: request_move_trans)

lemma get_row_delete_key:
  "(\<And>r. r \<in> set rs \<Longrightarrow> P r \<Longrightarrow> key r \<noteq> k) \<Longrightarrow> get_row key k (delete_where P rs) = get_row key k rs"
  unfolding get_row_def delete_where_def by (induction rs) auto

lemma removal_inv:
  fixes db db' :: "'a compute_db_scheme"
  assumes inv: "compute_inv digest db" and rs: "requests db' = delete_where P (requests db)" and fl: "flights db' = delete_where Q (flights db)"
    and q: "\<And>r f. r \<in> set (requests db) \<Longrightarrow> P r \<Longrightarrow> fl_request_id f = rq_id r \<Longrightarrow> Q f"
  shows "compute_inv digest db'"
proof -
  have sub: "set (requests db') \<subseteq> set (requests db)" "set (flights db') \<subseteq> set (flights db)" by (auto simp: rs fl delete_where_def)
  have "flight_ok digest (requests db') f" if "f \<in> set (flights db')" for f
  proof -
    have f: "f \<in> set (flights db)" "\<not> Q f" using that by (auto simp: fl delete_where_def)
    have "get_row rq_id (fl_request_id f) (requests db') = get_row rq_id (fl_request_id f) (requests db)"
      unfolding rs by (rule get_row_delete_key) (use q f(2) in force)
    moreover have "flight_ok digest (requests db) f" using inv f(1) by (simp add: compute_inv_def)
    ultimately show ?thesis by (simp add: flight_ok_def)
  qed
  moreover have "unique_by rq_id (requests db')" "unique_by flight_id (flights db')" "unique_by fl_request_id (flights db')"
    using inv by (simp_all add: compute_inv_def rs fl unique_delete)
  moreover have "engines_exclusive (requests db')" using inv sub(1) unfolding compute_inv_def engines_exclusive_def by (meson subsetD)
  ultimately show ?thesis using inv sub(1) by (auto simp: compute_inv_def)
qed

lemma change_kept:
  assumes "request_change digest keep db db'" and inv: "compute_inv digest db"
  shows "compute_inv digest db' \<and> kept_moves keep (requests db) (requests db')"
  using assms(1)
proof cases
  case ch_effect
  then have k: "effect_kept digest db db'" using request_effect_kept inv by blast
  then have "rows_evolve request_move (requests db) (requests db')" by (simp add: effect_kept_def)
  then have "kept_moves keep (requests db) (requests db')"
    unfolding kept_moves_def using rows_evolve_kept [where key = rq_id, OF _ request_move_id] by blast
  then show ?thesis using k by (simp add: effect_kept_def)
next
  case (ch_remove P Q)
  have "get_row rq_id k (requests db') = get_row rq_id k (requests db)" if "k \<in> keep" for k
    unfolding ch_remove(1) by (rule get_row_delete_key) (use ch_remove(3) that in blast)
  then have "kept_moves keep (requests db) (requests db')" by (simp add: kept_moves_def)
  moreover have "compute_inv digest db'" by (rule removal_inv [OF inv ch_remove(1,2)]) (rule ch_remove(4))
  ultimately show ?thesis by blast
qed

lemma removed_generation:
  assumes "requests db' = delete_where P (requests db)" and "\<And>r. r \<in> set (requests db) \<Longrightarrow> P r \<Longrightarrow> rq_id r \<notin> keep" and "k \<in> keep"
  shows "row_generation rq_id rq_lease_generation (requests db') k = row_generation rq_id rq_lease_generation (requests db) k"
    and "row_current rq_id rq_lease_generation request_holder (requests db') k tok g = row_current rq_id rq_lease_generation request_holder (requests db) k tok g"
proof -
  have "get_row rq_id k (requests db') = get_row rq_id k (requests db)" unfolding assms(1) by (rule get_row_delete_key) (use assms(2,3) in blast)
  then show "row_generation rq_id rq_lease_generation (requests db') k = row_generation rq_id rq_lease_generation (requests db) k"
      "row_current rq_id rq_lease_generation request_holder (requests db') k tok g = row_current rq_id rq_lease_generation request_holder (requests db) k tok g"
    by (simp_all add: row_generation_def row_current_def)
qed

interpretation request_lease: fenced_lease "request_change digest keep" "compute_inv digest"
    "\<lambda>s k. if k \<in> keep then row_generation rq_id rq_lease_generation (requests s) k else 0"
    "\<lambda>s k tok g. k \<in> keep \<and> row_current rq_id rq_lease_generation request_holder (requests s) k tok g"
  for digest :: "compute_command \<Rightarrow> string" and keep :: "string set"
proof unfold_locales
  fix s t :: "'a compute_db_scheme" and k tok and g :: int
  let ?gen = "\<lambda>s :: 'a compute_db_scheme. row_generation rq_id rq_lease_generation (requests s) k"
  let ?cur = "\<lambda>s :: 'a compute_db_scheme. row_current rq_id rq_lease_generation request_holder (requests s) k tok g"
  show "compute_inv digest t" if "request_change digest keep s t" "compute_inv digest s" using change_kept [OF that] by blast
  show "(if k \<in> keep then ?gen s else 0) = g" if "compute_inv digest s" "k \<in> keep \<and> ?cur s"
    using effect_lease.current_generation [OF that(1), of k tok g] that(2) by simp
  assume st: "request_change digest keep s t" "compute_inv digest s"
  show "(if k \<in> keep then ?gen s else 0) \<le> (if k \<in> keep then ?gen t else 0)"
    using st(1) by cases (use effect_lease.generation_mono [OF _ st(2)] removed_generation(1) in force)+
  show "(if k \<in> keep then ?gen s else 0) < g" if c: "k \<in> keep \<and> ?cur t" "\<not> (k \<in> keep \<and> ?cur s)"
    using st(1)
  proof cases
    case ch_effect
    then show ?thesis using effect_lease.new_claim [OF _ st(2)] c by auto
  next
    case (ch_remove P Q)
    then show ?thesis using removed_generation(2) [OF ch_remove(1,3)] c by blast
  qed
qed

lemma effects_kept:
  assumes "(request_change digest keep)\<^sup>*\<^sup>* db db'" and "compute_inv digest db"
  shows "compute_inv digest db' \<and> kept_moves keep (requests db) (requests db')"
  using assms
proof (induction rule: rtranclp_induct)
  case (step x y)
  then show ?case using change_kept [OF step.hyps(2)] kept_moves_trans by blast
qed simp

subsection \<open>The transition system\<close>

definition quiet_env :: "'d stage_env" where
  "quiet_env = \<lparr>se_lookup = (\<lambda>d. d), se_stale = (\<lambda>d. d), se_source = (\<lambda>d. d)\<rparr>"

text \<open>A transaction that leaves the rows of certain requests in place.\<close>

definition keeps_rows :: "string set \<Rightarrow> 'a compute_db_scheme \<Rightarrow> 'a compute_db_scheme \<Rightarrow> bool" where
  "keeps_rows keep db db' \<longleftrightarrow> rq_id ` set (requests db) \<inter> keep \<subseteq> rq_id ` set (requests db')"

text \<open>One committed transaction of the service on its own; \<open>cs_other\<close> is any transaction of another
  service that leaves requests and flights alone. A claim step is the end of a claim loop, under the row and engine
  locks. Requests are only deleted with the preflights: when one is cleared, when preflights expire, and when the cleanup of
  a preflight source is authorized; these transactions keep the rows of the requests in \<open>keep\<close>.\<close>

inductive compute_step ::
  "(string \<Rightarrow> string) \<Rightarrow> (compute_command \<Rightarrow> string) \<Rightarrow> settings \<Rightarrow> string set \<Rightarrow> 'a compute_db_scheme \<Rightarrow> 'a compute_db_scheme \<Rightarrow> bool"
  for uuid5 digest cfg keep where
  cs_stage: "stage_request_core uuid5 digest cfg tx now ns kind c dedup rid validate free quiet_env db = Inr (x, db') \<Longrightarrow>
    compute_step uuid5 digest cfg keep db db'"
| cs_claim: "row \<in> set (requests db) \<Longrightarrow> request_claimable now rec row \<Longrightarrow> \<not> active_sibling row db \<Longrightarrow>
    take_request tx w (\<lambda>d. d) row db = (r, db') \<Longrightarrow> compute_step uuid5 digest cfg keep db db'"
| cs_renew: "renew_request_leases cfg tx claims w db = Inr (ids, db') \<Longrightarrow> compute_step uuid5 digest cfg keep db db'"
| cs_complete: "mark_request_completed dump ns tx now rid e w tok g arts fin (\<lambda>d. d) db = Inr (x, db') \<Longrightarrow> compute_step uuid5 digest cfg keep db db'"
| cs_fail: "mark_request_failed dump ns tx now rid err e w tok g fin (\<lambda>d. d) db = Inr (x, db') \<Longrightarrow> compute_step uuid5 digest cfg keep db db'"
| cs_cancel: "cancel_disconnected_request digest now rid reason db = Inr (x, db') \<Longrightarrow> compute_step uuid5 digest cfg keep db db'"
| cs_cancel_engine: "cancel_active_requests_for_engine now ns i reason db = (n, db') \<Longrightarrow> compute_step uuid5 digest cfg keep db db'"
| cs_exhaust: "stage_exhausted_requests cfg tx locked ns db = (n, db') \<Longrightarrow> compute_step uuid5 digest cfg keep db db'"
| cs_remove: "remove_preflight uuid5 cfg tx ns pid delete_source db = Inr (src, db') \<Longrightarrow> keeps_rows keep db db' \<Longrightarrow>
    compute_step uuid5 digest cfg keep db db'"
| cs_expire: "expire_preflights uuid5 cfg tx ns now locked scan db = Inr db' \<Longrightarrow> (\<And>rs. set (scan rs) \<subseteq> set rs) \<Longrightarrow> keeps_rows keep db db' \<Longrightarrow>
    compute_step uuid5 digest cfg keep db db'"
| cs_authorize: "authorize_cleanup tx ns wall2 (\<lambda>d. d) eid tok g db = Inr (ok, db') \<Longrightarrow> keeps_rows keep db db' \<Longrightarrow>
    compute_step uuid5 digest cfg keep db db'"
| cs_other: "requests db' = requests db \<Longrightarrow> flights db' = flights db \<Longrightarrow> compute_step uuid5 digest cfg keep db db'"

abbreviation effects :: "(compute_command \<Rightarrow> string) \<Rightarrow> string set \<Rightarrow> 'a compute_db_scheme \<Rightarrow> 'a compute_db_scheme \<Rightarrow> bool" where
  "effects digest keep \<equiv> (request_change digest keep)\<^sup>*\<^sup>*"

subsection \<open>Frames of the other services\<close>

lemma compute_frames [simp]:
  fixes db :: "'a compute_db_scheme"
  shows "requests (notify_on_commit p db) = requests db" "flights (notify_on_commit p db) = flights db"
    "requests (snd (append_wake c wid n ns k db)) = requests db" "flights (snd (append_wake c wid n ns k db)) = flights db"
    "requests (storage_wake c tx i ns db) = requests db" "flights (storage_wake c tx i ns db) = flights db"
    "requests (put_event e db) = requests db" "flights (put_event e db) = flights db"
    "requests (rearm c tx i ns e at db) = requests db" "flights (rearm c tx i ns e at db) = flights db"
    "requests (hand_over c tx i ns rid e db) = requests db" "flights (hand_over c tx i ns rid e db) = flights db"
  by (simp_all add: notify_on_commit_def append_wake_def storage_wake_def put_event_def rearm_def hand_over_def)

lemma compute_refresh_frames [simp]:
  fixes db :: "'a compute_db_scheme"
  shows "requests (refresh_quiet c ns k pq dq now db) = requests db" "flights (refresh_quiet c ns k pq dq now db) = flights db"
  using refresh_quiet_cases [of c ns k pq dq now db] by (auto simp: publish_marker_def delete_wakes_def Let_def split: option.splits)

lemma enqueue_intent_frames:
  fixes db :: "'a compute_db_scheme"
  assumes "enqueue_intent uuid5 cfg tx i ns url p at db = Inr (e, db')"
  shows "requests db' = requests db \<and> flights db' = flights db"
  using assms by (auto simp: enqueue_intent_def Let_def elim!: and_then_okE split: if_splits option.splits)

lemma transfer_source_effect:
  fixes db :: "'a compute_db_scheme"
  assumes "transfer_preflight_source uuid5 cfg tx i ns path rid env db = Inr db'"
  shows "flights db' = flights (env db) \<and> (\<exists>P. requests db' = update_where P drop_artifact (requests (env db)))"
proof -
  have same: "\<exists>P. requests x = update_where P drop_artifact (requests x)" for x :: "'a compute_db_scheme"
    by (rule exI [of _ "\<lambda>_. False"]) (simp add: update_where_def)
  from assms obtain locked where l: "lock_source_intent uuid5 ns path env db = Inr locked"
    by (auto simp: transfer_preflight_source_def elim!: and_then_okE)
  show ?thesis
  proof (cases locked)
    case None
    then show ?thesis using assms l same
      by (auto simp: transfer_preflight_source_def Let_def elim!: and_then_okE dest!: enqueue_intent_frames split: if_splits)
  next
    case (Some eo)
    obtain e ow where eo: "eo = (e, ow)" by (cases eo)
    show ?thesis using assms l Some same
      by (auto simp: transfer_preflight_source_def Let_def eo elim!: and_then_okE split: if_splits option.splits owner_row.splits) blast
  qed
qed

lemma register_sources_frames:
  fixes db :: "'a compute_db_scheme"
  assumes "register_sources uuid5 cfg tx ns now c rid db = Inr db'"
  shows "requests db' = requests db \<and> flights db' = flights db"
  using assms
  by (auto simp: register_sources_def register_preflight_source_def elim!: and_then_okE dest!: enqueue_intent_frames
      split: option.splits datasource_command.splits if_splits)

subsection \<open>Every operation is a run of effects\<close>

lemma insert_request_effects:
  fixes db :: "'a compute_db_scheme"
  assumes ins: "insert_request uuid5 cfg tx now ns kind c rid key env db = Inr (r, db')"
    and key: "\<And>k. key = Some k \<Longrightarrow> flight_key digest kind c = Some k" and cfg: "1 \<le> runtime_compute_max_attempts cfg"
    and env: "effects digest keep db (env db)"
  shows "effects digest keep db db' \<and> r = new_request cfg now ns kind c rid"
proof -
  from ins obtain db1 db2 where d1: "stage_sources uuid5 cfg tx ns c rid env db = Inr db1"
      and d2: "register_sources uuid5 cfg tx ns now c rid db1 = Inr db2"
      and fresh: "get_row rq_id rid (requests db2) = None"
        "key = None \<or> get_row flight_id (ns, the key) (flights db2) = None \<and> get_row fl_request_id rid (flights db2) = None"
      and r: "r = new_request cfg now ns kind c rid"
      and d': "requests db' = requests db2 @ [r]" "flights db' = flights db2 @ (case key of None \<Rightarrow> []
                      | Some k \<Rightarrow> [\<lparr>fl_namespace = ns, fl_flight_key = k, fl_request_id = rid, fl_created_at = now, fl_expires_at = None\<rparr>])"
    by (auto simp: insert_request_def Let_def elim!: and_then_okE split: if_splits)
  have "effects digest keep db db1"
  proof (cases "\<exists>f. datasource_command_of c = Some (DC_Create_File f)")
    case True
    then obtain P where "requests db1 = update_where P drop_artifact (requests (env db))" "flights db1 = flights (env db)"
      using d1 transfer_source_effect by (fastforce simp: stage_sources_def)
    then show ?thesis using env by (blast intro: rtranclp.rtrancl_into_rtrancl ch_effect eff_artifact)
  next
    case False
    then have "db1 = db \<or> db1 = env db" using d1
      by (auto simp: stage_sources_def elim!: and_then_okE split: option.splits datasource_command.splits)
    then show ?thesis using env by auto
  qed
  moreover have "request_change digest keep db1 db2" using register_sources_frames [OF d2] by (blast intro: ch_effect eff_frame)
  moreover have "request_change digest keep db2 db'"
    by (rule ch_effect, rule eff_insert [OF _ fresh(1) cfg d'(2)]) (use d'(1) r key fresh(2) in auto)
  ultimately show ?thesis using r by (meson rtranclp.rtrancl_into_rtrancl)
qed

lemma reusable_flight_effects:
  fixes db :: "'a compute_db_scheme"
  assumes "reusable_flight ns key now env db = Inr (x, db')" and "effects digest keep db (env db)"
  shows "effects digest keep db db'"
proof -
  have "db' = db \<or> db' = env db \<or> (\<exists>Q. db' = (env db)\<lparr>flights := delete_where Q (flights (env db))\<rparr>)"
    using assms(1) by (auto simp: reusable_flight_def Let_def elim!: and_then_okE split: option.splits) blast
  moreover have "request_change digest keep (env db) ((env db)\<lparr>flights := delete_where Q (flights (env db))\<rparr>)" for Q
    by (rule ch_effect, rule eff_drop) simp_all
  ultimately show ?thesis using assms(2) by (meson rtranclp.rtrancl_into_rtrancl rtranclp.rtrancl_refl)
qed

lemma stage_core_cases:
  fixes db :: "'a compute_db_scheme"
  assumes "stage_request_core uuid5 digest cfg tx now ns kind c dedup rid validate free env db = Inr ((r, created), db')"
  shows "(\<exists>rid'. insert_request uuid5 cfg tx now ns kind (snapshot_input_revisions db c) rid' None (se_source env) db = Inr (r, db')) \<or>
    (\<exists>k. dedup \<and> flight_key digest kind (snapshot_input_revisions db c) = Some k \<and>
      (find_reusable_flight ns k now db = Inr (Some r) \<and> db' = db \<and> \<not> created \<or>
       reusable_flight ns k now (se_stale env) (se_lookup env db) = Inr (Some r, db') \<and> \<not> created \<or>
       (\<exists>db1 rid'. reusable_flight ns k now (se_stale env) (se_lookup env db) = Inr (None, db1) \<and>
          insert_request uuid5 cfg tx now ns kind (snapshot_input_revisions db c) rid' (Some k) (se_source env) db1 = Inr (r, db'))))"
proof (cases "if dedup then flight_key digest kind (snapshot_input_revisions db c) else None")
  case None
  then show ?thesis using assms by (auto simp: stage_request_core_def Let_def elim!: and_then_okE)
next
  case (Some k)
  then have d: dedup "flight_key digest kind (snapshot_input_revisions db c) = Some k" by (auto split: if_splits)
  show ?thesis using assms
    by (auto simp: stage_request_core_def Let_def d elim!: and_then_okE split: option.splits if_splits)
qed

lemma stage_core_effects:
  fixes db :: "'a compute_db_scheme"
  assumes st: "stage_request_core uuid5 digest cfg tx now ns kind c dedup rid validate free env db = Inr ((r, created), db')"
    and cfg: "1 \<le> runtime_compute_max_attempts cfg"
    and env: "\<And>d. effects digest keep d (se_lookup env d)" "\<And>d. effects digest keep d (se_stale env d)" "\<And>d. effects digest keep d (se_source env d)"
  shows "effects digest keep db db'"
  using stage_core_cases [OF st]
proof (elim disjE exE conjE)
  fix rid'
  assume "insert_request uuid5 cfg tx now ns kind (snapshot_input_revisions db c) rid' None (se_source env) db = Inr (r, db')"
  from insert_request_effects [OF this _ cfg env(3)] show ?thesis by simp
next
  fix k
  assume "reusable_flight ns k now (se_stale env) (se_lookup env db) = Inr (Some r, db')"
  from reusable_flight_effects [OF this env(2)] show ?thesis using env(1) by (rule rtranclp_trans [rotated])
next
  fix k db1 rid'
  assume k: "flight_key digest kind (snapshot_input_revisions db c) = Some k"
    and f: "reusable_flight ns k now (se_stale env) (se_lookup env db) = Inr (None, db1)"
    and i: "insert_request uuid5 cfg tx now ns kind (snapshot_input_revisions db c) rid' (Some k) (se_source env) db1 = Inr (r, db')"
  have "effects digest keep db1 db'" using insert_request_effects [OF i _ cfg env(3)] k by simp
  then show ?thesis using reusable_flight_effects [OF f env(2)] env(1) by (meson rtranclp_trans)
qed simp

lemma retire_effect:
  fixes db :: "'a compute_db_scheme"
  assumes "row \<in> set (requests db)" and "request_pending row"
  shows "request_change digest keep db (retire_request now reason p row db)"
proof (rule ch_effect, rule eff_finish [where row = row and cached = False and a = None])
  show "requests (retire_request now reason p row db) = update_where (\<lambda>r. rq_id r = rq_id row)
      (\<lambda>r. terminal_values CR_FAILED (retire_response row reason p) (Some reason) now (put_artifacts None r)) (requests db)"
    by (simp add: retire_request_def publish_terminal_def finish_flight_def put_artifacts_def)
  show "response_fits row CR_FAILED (retire_response row reason p)" by (simp add: response_fits_def retire_response_def)
qed (use assms in \<open>simp_all add: retire_request_def publish_terminal_def finish_flight_def pending_terminal\<close>)

lemma retire_other:
  fixes db :: "'a compute_db_scheme"
  shows "q \<in> set (requests db) \<Longrightarrow> rq_id q \<noteq> rq_id r \<Longrightarrow> q \<in> set (requests (retire_request now reason p r db))"
  by (force simp: retire_request_def publish_terminal_def finish_flight_def set_update_where)

lemma retire_fold_effects:
  fixes db :: "'a compute_db_scheme"
  assumes "set rs \<subseteq> set (requests db)" and "distinct (map rq_id rs)" and "\<forall>r \<in> set rs. request_pending r"
  shows "effects digest keep db (fold (\<lambda>r. retire_request now (reason r) p r) rs db)"
  using assms
proof (induction rs arbitrary: db)
  case (Cons r rs)
  let ?d = "retire_request now (reason r) p r db"
  have "effects digest keep ?d (fold (\<lambda>r. retire_request now (reason r) p r) rs ?d)"
    using Cons.prems by (intro Cons.IH subsetI retire_other) (auto simp: image_iff)
  moreover have "request_change digest keep db ?d" using Cons.prems by (intro retire_effect) auto
  ultimately show ?case by (simp add: converse_rtranclp_into_rtranclp)
qed simp

lemma filter_distinct_ids: "unique_by rq_id rs \<Longrightarrow> distinct (map rq_id (filter P rs))"
  by (simp add: unique_by_def distinct_map_filter)

lemma cancel_effects:
  fixes db :: "'a compute_db_scheme"
  assumes "cancel_disconnected_request digest' now rid reason db = Inr (x, db')"
  shows "effects digest keep db db'"
proof -
  have "db' = db \<or> (\<exists>r p. find (\<lambda>r. rq_id r = rid \<and> request_active (rq_status r)) (requests db) = Some r \<and> db' = retire_request now reason p r db)"
    using assms by (auto simp: cancel_disconnected_request_def Let_def elim!: and_then_okE split: option.splits if_splits) blast+
  then show ?thesis
  proof (elim disjE exE conjE)
    fix r p assume "find (\<lambda>r. rq_id r = rid \<and> request_active (rq_status r)) (requests db) = Some r"
    then have "r \<in> set (requests db)" "request_pending r" by (auto simp: find_Some_iff request_active_def request_pending_def)
    moreover assume "db' = retire_request now reason p r db"
    ultimately show ?thesis by (blast intro: retire_effect)
  qed simp
qed

lemma finish_effects:
  fixes db :: "'a compute_db_scheme"
  assumes fin: "finish_claimed_request dump ns tx now rid st e w tok g err arts fz env db = Inr (x, db')"
    and st: "st = CR_COMPLETED \<or> st = CR_FAILED" and inv: "compute_inv digest db"
    and env: "effects digest keep db (env db)" "rid \<in> keep \<or> env db = db"
  shows "effects digest keep db db'"
proof -
  from fin have "db' = db \<or> db' = env db \<or> (\<exists>r q db1 cached. active_request_claim tx rid w tok g db = Some r \<and>
      active_request_claim tx rid w tok g (env db) = Some q \<and> validate_response_envelope r e st = Inr () \<and>
      stage_run_finalization dump ns r fz (if st = CR_COMPLETED then WR_SUCCESS else WR_FAILED) (env db) = Inr db1 \<and>
      (cached \<longrightarrow> st = CR_COMPLETED) \<and> db' = publish_terminal st e err now cached (put_artifacts arts) rid (rq_namespace q) db1)"
    by (auto simp: finish_claimed_request_def Let_def elim!: and_then_okE split: option.splits if_splits)
  then show ?thesis
  proof (elim disjE exE conjE)
    fix r q db1 cached
    assume r: "active_request_claim tx rid w tok g db = Some r" and q: "active_request_claim tx rid w tok g (env db) = Some q"
      and v: "validate_response_envelope r e st = Inr ()" and d1: "stage_run_finalization dump ns r fz (if st = CR_COMPLETED then WR_SUCCESS else WR_FAILED) (env db) = Inr db1"
      and c: "cached \<longrightarrow> st = CR_COMPLETED" and d': "db' = publish_terminal st e err now cached (put_artifacts arts) rid (rq_namespace q) db1"
    have f: "requests db1 = requests (env db)" "flights db1 = flights (env db)"
      using d1 by (auto simp: stage_run_finalization_def stage_update_compute_worker_run_def elim!: and_then_okE split: option.splits if_splits)
    have qr: "q \<in> set (requests (env db))" "rq_id q = rid" "rq_status q = CR_RUNNING"
      using q by (auto simp: active_request_claim_def find_Some_iff request_claim_live_def)
    have rr: "r \<in> set (requests db)" "rq_id r = rid" "rs_kind e = rq_kind r" "rs_status e = st" "rs_correlation_id e = rid"
      using r v by (auto simp: active_request_claim_def find_Some_iff request_claim_live_def validate_response_envelope_def split: if_splits)
    have "get_row rq_id rid (requests db) = Some r" using inv rr(1,2) get_row_unique by (fastforce simp: compute_inv_def)
    then have "\<exists>q'. get_row rq_id rid (requests (env db)) = Some q' \<and> request_move r q'"
      using env(2) conjunct2 [OF effects_kept [OF env(1) inv]] unfolding kept_moves_def by (metis request_move_refl)
    then obtain q' where q': "get_row rq_id rid (requests (env db)) = Some q'" "request_move r q'" by blast
    have "get_row rq_id rid (requests (env db)) = Some q"
      using qr(1,2) effects_kept [OF env(1) inv] get_row_unique by (fastforce simp: compute_inv_def)
    then have "request_move r q" using q' by simp
    then have fit: "response_fits q st e" using rr qr by (simp add: response_fits_def request_move_def)
    have "request_change digest keep (env db) db'"
    proof (rule ch_effect, rule eff_finish [where row = q and cached = cached and a = arts and st = st and e = e and err = err and t = now])
      show "flights db' = (if cached then update_where (\<lambda>f. fl_request_id f = rq_id q)
          (\<lambda>f. f\<lparr>fl_expires_at := Some (now + seconds FLIGHT_CACHE_SECONDS)\<rparr>) (flights (env db))
          else delete_where (\<lambda>f. fl_request_id f = rq_id q) (flights (env db)))"
        by (simp add: d' publish_terminal_def finish_flight_def f qr)
    qed (use qr st c fit in \<open>auto simp: d' publish_terminal_def finish_flight_def f request_pending_def pending_terminal terminal_values_def\<close>)
    then show ?thesis using env(1) by simp
  qed (use env(1) in auto)
qed

lemma take_request_effect:
  fixes db :: "'a compute_db_scheme"
  assumes "row \<in> set (requests db)" and "request_claimable now rec row" and "\<not> active_sibling row db"
  shows "request_change digest keep db (if rowcount (request_claim_where row) (requests db) \<noteq> 1 then db
    else db\<lparr>requests := update_where (request_claim_where row) (request_claim_values w tok t row) (requests db)\<rparr>)"
  by (rule ch_effect, cases "rowcount (request_claim_where row) (requests db) = 1") (auto intro: eff_frame eff_claim [OF _ assms])

lemma take_request_db:
  "snd (take_request tx w late row db) = (if rowcount (request_claim_where row) (requests db) \<noteq> 1 then db
    else late (db\<lparr>requests := update_where (request_claim_where row) (request_claim_values w (tx_ids tx 0) (tx_wall tx) row) (requests db)\<rparr>))"
  by (auto simp: take_request_def Let_def split: option.split)

text \<open>The transactions that delete requests.\<close>

lemma register_preflight_frames:
  fixes db :: "'a compute_db_scheme"
  assumes "register_preflight_source uuid5 cfg tx i ns pid rid path at db = Inr db'"
  shows "requests db' = requests db \<and> flights db' = flights db"
  using assms by (auto simp: register_preflight_source_def elim!: and_then_okE dest!: enqueue_intent_frames split: option.splits if_splits)

lemma release_preflight_tables:
  fixes db :: "'a compute_db_scheme"
  assumes "release_preflight uuid5 cfg tx i ns source r db = Inr db'"
  shows "requests db' = delete_where (\<lambda>x. rq_id x = rq_id r) (requests db) \<and> flights db' = delete_where (\<lambda>f. fl_request_id f = rq_id r) (flights db)"
  using assms
  by (auto simp: release_preflight_def delete_request_def elim!: and_then_okE dest!: register_preflight_frames split: option.splits)

lemma keeps_rows_trans: "keeps_rows keep db db' \<Longrightarrow> rq_id ` set (requests db1) \<subseteq> rq_id ` set (requests db) \<Longrightarrow>
    rq_id ` set (requests db') \<subseteq> rq_id ` set (requests db1) \<Longrightarrow> keeps_rows keep db db1 \<and> keeps_rows keep db1 db'"
proof -
  have "A \<inter> K \<subseteq> C \<Longrightarrow> B \<subseteq> A \<Longrightarrow> C \<subseteq> B \<Longrightarrow> A \<inter> K \<subseteq> B \<and> B \<inter> K \<subseteq> C" for A B C K :: "string set" by auto
  then show "keeps_rows keep db db' \<Longrightarrow> rq_id ` set (requests db1) \<subseteq> rq_id ` set (requests db) \<Longrightarrow>
    rq_id ` set (requests db') \<subseteq> rq_id ` set (requests db1) \<Longrightarrow> keeps_rows keep db db1 \<and> keeps_rows keep db1 db'"
    unfolding keeps_rows_def .
qed

lemma delete_effects:
  fixes db db' :: "'a compute_db_scheme"
  assumes "requests db' = delete_where (\<lambda>x. rq_id x = rid) (requests db)" and "flights db' = delete_where (\<lambda>f. fl_request_id f = rid) (flights db)"
    and kept: "keeps_rows keep db db'"
  shows "request_change digest keep db db'"
proof (rule ch_remove [OF assms(1,2)])
  show "rq_id r \<notin> keep" if "r \<in> set (requests db)" "rq_id r = rid" for r
  proof
    assume "rq_id r \<in> keep"
    then have "rq_id r \<in> rq_id ` set (requests db')" using kept that(1) by (auto simp: keeps_rows_def)
    then show False using that(2) by (auto simp: assms(1) delete_where_def)
  qed
qed simp

lemma remove_effects:
  fixes db :: "'a compute_db_scheme"
  assumes "remove_preflight uuid5 cfg tx ns pid delete_source db = Inr (src, db')" and "keeps_rows keep db db'"
  shows "effects digest keep db db'"
proof (cases "db' = db")
  case False
  then obtain r source where "release_preflight uuid5 cfg tx 0 ns source r db = Inr db'"
    using assms(1) by (auto simp: remove_preflight_def Let_def elim!: and_then_okE split: option.splits if_splits)
  from release_preflight_tables [OF this] show ?thesis using delete_effects [OF _ _ assms(2)] by blast
qed simp

lemma expire_rows_ids:
  fixes db :: "'a compute_db_scheme"
  shows "expire_rows uuid5 cfg tx i ns rs db = Inr db' \<Longrightarrow> rq_id ` set (requests db') \<subseteq> rq_id ` set (requests db)"
proof (induction uuid5 cfg tx i ns rs db rule: expire_rows.induct)
  case (2 uuid5 cfg tx i ns r rs db)
  show ?case
  proof (cases "preflight_active (rq_id r) db")
    case True
    then show ?thesis using 2 by simp
  next
    case False
    then obtain db1 where db1: "release_preflight uuid5 cfg tx i ns (preflight_source r) r db = Inr db1" "expire_rows uuid5 cfg tx (Suc i) ns rs db1 = Inr db'"
      using "2.prems" by (auto elim!: and_then_okE)
    have "set (requests db1) \<subseteq> set (requests db)" using release_preflight_tables [OF db1(1)] by (auto simp: delete_where_def)
    then show ?thesis using "2.IH"(2) [OF False db1(2)] by blast
  qed
qed simp

lemma expire_effects:
  fixes db :: "'a compute_db_scheme"
  shows "expire_rows uuid5 cfg tx i ns rs db = Inr db' \<Longrightarrow> keeps_rows keep db db' \<Longrightarrow> effects digest keep db db'"
proof (induction uuid5 cfg tx i ns rs db rule: expire_rows.induct)
  case (2 uuid5 cfg tx i ns r rs db)
  show ?case
  proof (cases "preflight_active (rq_id r) db")
    case True
    then show ?thesis using 2 by simp
  next
    case False
    then obtain db1 where db1: "release_preflight uuid5 cfg tx i ns (preflight_source r) r db = Inr db1" "expire_rows uuid5 cfg tx (Suc i) ns rs db1 = Inr db'"
      using "2.prems"(1) by (auto elim!: and_then_okE)
    note t = release_preflight_tables [OF db1(1)]
    have "rq_id ` set (requests db1) \<subseteq> rq_id ` set (requests db)" using t by (auto simp: delete_where_def)
    then have k: "keeps_rows keep db db1" "keeps_rows keep db1 db'"
      using keeps_rows_trans [OF "2.prems"(2)] expire_rows_ids [OF db1(2)] by blast+
    have "request_change digest keep db db1" using t delete_effects [OF _ _ k(1)] by blast
    then show ?thesis using "2.IH"(2) [OF False db1(2) k(2)] by (rule converse_rtranclp_into_rtranclp)
  qed
qed simp

lemma settle_frames:
  fixes db :: "'a compute_db_scheme"
  assumes "settle_referenced tx e db = Inr db'"
  shows "requests db' = requests db \<and> flights db' = flights db"
  using assms by (auto simp: settle_referenced_def elim!: and_then_okE split: if_splits)

lemma authorize_tables:
  fixes db :: "'a compute_db_scheme"
  assumes "authorize_cleanup tx ns wall2 (\<lambda>d. d) eid tok g db = Inr (ok, db')"
  shows "(requests db' = requests db \<and> flights db' = flights db) \<or>
    (\<exists>rid. requests db' = delete_where (\<lambda>x. rq_id x = rid) (requests db) \<and> flights db' = delete_where (\<lambda>f. fl_request_id f = rid) (flights db))"
proof -
  have pay: "(requests db' = requests db \<and> flights db' = flights db) \<or>
      (\<exists>rid. requests db' = delete_where (\<lambda>x. rq_id x = rid) (requests db) \<and> flights db' = delete_where (\<lambda>f. fl_request_id f = rid) (flights db))"
    if "authorize_payload tx ns wall2 kind p owner e db = Inr (ok, db')" for kind p owner e
  proof -
    show ?thesis using that
      by (auto simp: authorize_payload_def Let_def delete_request_def dest!: settle_frames elim!: and_then_okE split: if_splits option.splits owner_row.splits) blast+
  qed
  show ?thesis using assms pay
    by (auto simp: authorize_cleanup_def Let_def dest!: settle_frames elim!: and_then_okE split: if_splits option.splits owner_verdict.splits)
qed

lemma authorize_effects:
  fixes db :: "'a compute_db_scheme"
  assumes "authorize_cleanup tx ns wall2 (\<lambda>d. d) eid tok g db = Inr (ok, db')" and kept: "keeps_rows keep db db'"
  shows "effects digest keep db db'"
  using authorize_tables [OF assms(1)]
proof (elim disjE exE conjE)
  assume "requests db' = requests db" "flights db' = flights db"
  then show ?thesis by (blast intro: ch_effect eff_frame)
next
  fix rid
  assume "requests db' = delete_where (\<lambda>x. rq_id x = rid) (requests db)" "flights db' = delete_where (\<lambda>f. fl_request_id f = rid) (flights db)"
  then show ?thesis using delete_effects [OF _ _ kept] by blast
qed

lemma compute_step_effects:
  assumes "compute_step uuid5 digest cfg keep db db'" and inv: "compute_inv digest db" and cfg: "1 \<le> runtime_compute_max_attempts cfg"
  shows "effects digest keep db db'"
  using assms(1)
proof cases
  case (cs_stage tx now ns kind c dedup rid validate free x)
  obtain r created where x: "x = (r, created)" by (cases x)
  show ?thesis by (rule stage_core_effects [OF cs_stage [unfolded x] cfg]) (simp_all add: quiet_env_def)
next
  case (cs_claim row now rec tx w r)
  then show ?thesis using take_request_effect [OF cs_claim(1-3), of digest keep w "tx_ids tx 0" "tx_wall tx"] take_request_db [of tx w "\<lambda>d. d" row db]
    by (auto split: if_splits)
next
  case (cs_renew tx claims w ids)
  then have "requests db' = update_where (renewable w (tx_wall tx) claims)
      (\<lambda>r. r\<lparr>rq_lease_expires_at := Some (tx_wall tx + seconds (runtime_work_lease_ttl_seconds cfg)),
              rq_last_renewed_at := Some (tx_wall tx), rq_updated_at := tx_wall tx\<rparr>) (requests db)" "flights db' = flights db"
    by (auto simp: renew_request_leases_def Let_def split: if_splits)
  from ch_effect [OF eff_renew [OF this(1) _ this(2), of digest]] have "request_change digest keep db db'" by (simp add: renewable_def)
  then show ?thesis by simp
next
  case cs_complete
  then show ?thesis unfolding mark_request_completed_def by (rule finish_effects) (simp_all add: inv)
next
  case cs_fail
  then show ?thesis unfolding mark_request_failed_def by (rule finish_effects) (simp_all add: inv)
next
  case cs_cancel
  then show ?thesis by (rule cancel_effects)
next
  case (cs_cancel_engine now ns i reason n)
  let ?rs = "filter (\<lambda>r. targets_engine ns i r \<and> request_active (rq_status r)) (requests db)"
  have "distinct (map rq_id ?rs)" using inv by (intro filter_distinct_ids) (simp add: compute_inv_def)
  then have "effects digest keep db (fold (\<lambda>r. retire_request now ((\<lambda>_. reason) r) (Some [(''error'', JStr reason)]) r) ?rs db)"
    by (intro retire_fold_effects) (auto simp: request_pending_def request_active_def)
  then show ?thesis using cs_cancel_engine by (simp add: cancel_active_requests_for_engine_def Let_def)
next
  case (cs_exhaust tx locked ns n)
  let ?rs = "select_ordered (\<lambda>r. exhausted_request ns (tx_now tx) r \<and> \<not> locked (rq_id r))
      (\<lambda>r. (the (rq_lease_expires_at r), rq_id r)) RECONCILIATION_BATCH_SIZE (requests db)"
  have rs: "r \<in> set (requests db) \<and> request_pending r" if "r \<in> set ?rs" for r
    using that set_select_ordered by (fastforce simp: exhausted_request_def request_pending_def)
  have "effects digest keep db (fold (\<lambda>r. retire_request (tx_now tx) (exhausted_reason r) None r) ?rs db)"
    using rs inv by (intro retire_fold_effects unique_select_ordered) (auto simp: compute_inv_def)
  moreover have "request_change digest keep (fold (\<lambda>r. retire_request (tx_now tx) (exhausted_reason r) None r) ?rs db) db'"
    using cs_exhaust by (intro ch_effect eff_frame) (auto simp: stage_exhausted_requests_def Let_def refresh_compute_work_def)
  ultimately show ?thesis by simp
next
  case (cs_remove tx ns pid delete_source src)
  then show ?thesis by (rule remove_effects)
next
  case (cs_expire tx ns now locked scan)
  then show ?thesis by (auto simp: expire_preflights_def intro: expire_effects)
next
  case (cs_authorize tx ns wall2 eid tok g ok)
  then show ?thesis by (rule authorize_effects)
next
  case cs_other
  then show ?thesis by (blast intro: ch_effect eff_frame)
qed

lemma compute_run_effects:
  assumes "(compute_step uuid5 digest cfg keep)\<^sup>*\<^sup>* s t" and "compute_inv digest s" and "1 \<le> runtime_compute_max_attempts cfg"
  shows "effects digest keep s t \<and> compute_inv digest t"
  using assms
proof (induction rule: rtranclp_induct)
  case (step x y)
  then have "effects digest keep x y" using compute_step_effects by blast
  then show ?case using step effects_kept by (meson rtranclp_trans)
qed simp

subsection \<open>Example databases\<close>

definition empty_compute :: compute_db where
  "empty_compute = \<lparr>ipc_sent = [], work_rows = [], wake_rows = [], events = [], receipts = [], part_receipts = [],
     runs = [], run_events = [], run_datasources = [], jobs = [], worker_runs = [], requests = [], request_datasources = [],
     flights = [], datasources = []\<rparr>"

definition example_command :: compute_command where
  "example_command = \<lparr>cmd_input_revisions = [], cmd_body = Some (C_Schema ''a1''
     \<lparr>pl_analysis_id = ''a1'', pl_tabs = [\<lparr>tab_datasource_id = ''d1'', tab_steps = []\<rparr>]\<rparr>), cmd_settings = []\<rparr>"

definition example_digest :: "compute_command \<Rightarrow> string" where
  "example_digest c = (if c = example_command then ''x'' else ''y'')"

definition example_stage :: "string \<Rightarrow> compute_db \<Rightarrow> ((compute_request \<times> bool) \<times> compute_db) result" where
  "example_stage rid db = stage_shared_flight_request (\<lambda>x. x) example_digest example_settings (example_txn 1 rid) 1 ''n'' CK_SCHEMA
     example_command None (\<lambda>_. None) (\<lambda>_. True) quiet_env db"

definition staged_compute :: compute_db where
  "staged_compute = (case example_stage ''r1'' empty_compute of Inr (_, db) \<Rightarrow> db | Inl _ \<Rightarrow> empty_compute)"

end
