(* ===== verification/Compute_Guarantees.thy ===== *)
theory Compute_Guarantees
  imports Compute_Facts
begin

text \<open>
  What the compute request queue guarantees, on top of the effects and the invariant of
  \<open>Compute_Facts\<close>: fencing, one request per engine under interleaved claim loops, exact sharing of
  flights, final and readable responses, idempotent completion, and the end of the claim loop.
\<close>

subsection \<open>Example states\<close>

lemma empty_compute_inv: "compute_inv digest empty_compute"
  by (simp add: compute_inv_def empty_compute_def engines_exclusive_def unique_by_def)

lemmas compute_example_defs = empty_compute_def example_command_def example_digest_def example_stage_def
  stage_shared_flight_request_def stage_request_core_def quiet_env_def check_preflight_parent_def datasource_command_of_def
  snapshot_input_revisions_def datasource_ids_for_command_def pipeline_datasource_ids_def flight_key_def
  SHARED_FLIGHT_REQUEST_KINDS_def ANALYSIS_FLIGHT_REQUEST_KINDS_def DATASOURCE_FLIGHT_REQUEST_KINDS_def command_name_def
  shared_flight_command_def find_reusable_flight_def read_flight_def reusable_flight_def insert_request_def stage_sources_def
  register_sources_def new_request_def truthy_def append_wake_def example_settings_def example_txn_def
  compute_worker_identity_for_command_def interactive_identity_def

definition example_request :: compute_request where
  "example_request = new_request example_settings 1 ''n'' CK_SCHEMA example_command ''r1''"

lemma staged_compute_rows:
  "requests staged_compute = [example_request]"
  "flights staged_compute = [\<lparr>fl_namespace = ''n'', fl_flight_key = ''2:x'', fl_request_id = ''r1'', fl_created_at = 1, fl_expires_at = None\<rparr>]"
  by (simp_all add: staged_compute_def example_request_def compute_example_defs table_simps Let_def)

lemma example_cfg: "1 \<le> runtime_compute_max_attempts example_settings"
  by (simp add: example_settings_def)

lemma staged_compute_step: "compute_step (\<lambda>x. x) example_digest example_settings keep empty_compute staged_compute"
proof -
  have "example_stage ''r1'' empty_compute = Inr ((example_request, True), staged_compute)"
    by (simp add: staged_compute_def example_request_def compute_example_defs table_simps Let_def)
  then show ?thesis unfolding example_stage_def stage_shared_flight_request_def by (auto split: if_splits intro: cs_stage)
qed

lemma staged_compute_run: "(compute_step (\<lambda>x. x) example_digest example_settings keep)\<^sup>*\<^sup>* empty_compute staged_compute"
  using staged_compute_step by (rule r_into_rtranclp)

lemma staged_compute_inv: "compute_inv example_digest staged_compute"
  using compute_run_effects [OF staged_compute_run empty_compute_inv example_cfg] by simp

text \<open>The request claimed by a worker.\<close>

definition claimed_compute :: compute_db where
  "claimed_compute = snd (take_request (example_txn 2 ''t1'') ''w1'' (\<lambda>d. d) example_request staged_compute)"

lemma example_claimable: "example_request \<in> set (requests staged_compute)" "request_claimable 2 [] example_request"
  "\<not> active_sibling example_request staged_compute"
  by (simp_all add: staged_compute_rows request_claimable_def example_request_def new_request_def active_sibling_def)

lemma claimed_compute_step: "compute_step (\<lambda>x. x) example_digest example_settings keep staged_compute claimed_compute"
  unfolding claimed_compute_def by (rule cs_claim [OF example_claimable prod.collapse [symmetric]])

lemma claimed_compute_run: "(compute_step (\<lambda>x. x) example_digest example_settings keep)\<^sup>*\<^sup>* staged_compute claimed_compute"
  using claimed_compute_step by (rule r_into_rtranclp)

lemma claimed_compute_inv: "compute_inv example_digest claimed_compute"
  using compute_run_effects [OF claimed_compute_run staged_compute_inv example_cfg] by simp

lemma claimed_compute_rows:
  "requests claimed_compute = [request_claim_values ''w1'' ''t1'' 2 example_request example_request]"
  by (simp add: claimed_compute_def take_request_db staged_compute_rows request_claim_where_def rowcount_def update_where_def example_txn_def)

definition cancelled_compute :: compute_db where
  "cancelled_compute = snd (cancel_active_requests_for_engine 3 ''n''
     \<lparr>wi_scope = SCOPE_ANALYSIS_INTERACTIVE, wi_reuse_policy = POLICY_SHARED, wi_resource_id = ''a1''\<rparr> ''shutdown'' claimed_compute)"

lemma cancelled_compute_step: "compute_step (\<lambda>x. x) example_digest example_settings keep claimed_compute cancelled_compute"
  unfolding cancelled_compute_def by (rule cs_cancel_engine [OF prod.collapse [symmetric]])

lemma cancelled_compute_run: "(compute_step (\<lambda>x. x) example_digest example_settings keep)\<^sup>*\<^sup>* claimed_compute cancelled_compute"
  using cancelled_compute_step by (rule r_into_rtranclp)

lemma cancelled_compute_rows:
  "map rq_status (requests cancelled_compute) = [CR_FAILED]" "map rq_id (requests cancelled_compute) = [''r1'']"
  by (simp_all add: cancelled_compute_def cancel_active_requests_for_engine_def claimed_compute_rows targets_engine_def request_active_def
      request_claim_values_def example_request_def new_request_def compute_worker_identity_for_command_def interactive_identity_def
      example_command_def retire_request_def publish_terminal_def finish_flight_def update_where_def terminal_values_def Let_def)

subsection \<open>Fencing\<close>

lemma active_request_claim_current:
  assumes "active_request_claim tx rid w tok g db = Some r" and "unique_by rq_id (requests db)"
  shows "row_current rq_id rq_lease_generation request_holder (requests db) rid tok g"
proof -
  have "r \<in> set (requests db)" "rq_id r = rid" "rq_status r = CR_RUNNING" "rq_claim_token r = Some tok" "rq_lease_generation r = g"
    using assms(1) by (auto simp: active_request_claim_def find_Some_iff request_claim_live_def)
  moreover from this have "get_row rq_id rid (requests db) = Some r" using get_row_unique [OF assms(2), of r] by simp
  ultimately show ?thesis by (simp add: row_current_def request_holder_def)
qed

text \<open>C9: fencing of compute requests. Once a worker's claim was lost (reclaimed, cancelled,
  exhausted or finished), then after any further transactions that leave the row of the request in place, removals
  of other requests included, it cannot renew the lease, and its
  result is never written: publishing it leaves the database as it is and at most acknowledges an
  identical result that is already there.\<close>

theorem lost_request_claim_is_inert:
  assumes cfg: "1 \<le> runtime_compute_max_attempts cfg" and inv: "compute_inv digest s"
    and held: "row_current rq_id rq_lease_generation request_holder (requests s) rid tok g"
    and run1: "(compute_step uuid5 digest cfg {rid})\<^sup>*\<^sup>* s t"
    and lost: "\<not> row_current rq_id rq_lease_generation request_holder (requests t) rid tok g"
    and run2: "(compute_step uuid5 digest cfg {rid})\<^sup>*\<^sup>* t u"
  shows "renew_request_leases cfg tx [\<lparr>rc_request_id = rid, rc_claim_token = tok, rc_lease_generation = g\<rparr>] worker u = Inr ([], u) \<and>
    mark_request_completed dump ns tx now rid e worker tok g arts fin env u =
      Inr (matching_terminal_request rid CR_COMPLETED e None arts u, u) \<and>
    mark_request_failed dump ns tx now rid err e worker tok g fin env u =
      Inr (matching_terminal_request rid CR_FAILED e (Some err) (None, None, None) u, u)"
proof -
  have t: "effects digest {rid} s t" "compute_inv digest t" using compute_run_effects [OF run1 inv cfg] by auto
  have u: "effects digest {rid} t u" "compute_inv digest u" using compute_run_effects [OF run2 t(2) cfg] by auto
  have gone: "\<not> row_current rq_id rq_lease_generation request_holder (requests u) rid tok g"
    using request_lease.fencing [where keep = "{rid}" and k = rid, OF inv _ t(1) _ u(1)] held lost by blast
  have uniq: "unique_by rq_id (requests u)" using u(2) by (simp add: compute_inv_def)
  have none: "active_request_claim tx rid worker tok g u = None"
    using active_request_claim_current [OF _ uniq] gone by (cases "active_request_claim tx rid worker tok g u") blast+
  have "\<not> renewable worker (tx_wall tx) [\<lparr>rc_request_id = rid, rc_claim_token = tok, rc_lease_generation = g\<rparr>] r"
    if "r \<in> set (requests u)" for r
    using gone get_row_unique [OF uniq that] by (auto simp: renewable_def row_current_def request_holder_def)
  then have "filter (renewable worker (tx_wall tx) [\<lparr>rc_request_id = rid, rc_claim_token = tok, rc_lease_generation = g\<rparr>]) (requests u) = []"
    "\<And>f. update_where (renewable worker (tx_wall tx) [\<lparr>rc_request_id = rid, rc_claim_token = tok, rc_lease_generation = g\<rparr>]) f (requests u) = requests u"
    by (auto simp: filter_empty_conv update_where_def intro: map_idI)
  then show ?thesis using none
    by (simp add: renew_request_leases_def mark_request_completed_def mark_request_failed_def finish_claimed_request_def Let_def)
qed

theorem lost_request_claim_is_inert_witness:
  "renew_request_leases example_settings (example_txn 4 ''x'') [\<lparr>rc_request_id = ''r1'', rc_claim_token = ''t1'', rc_lease_generation = 1\<rparr>] ''w1''
     cancelled_compute = Inr ([], cancelled_compute)"
proof -
  have held: "row_current rq_id rq_lease_generation request_holder (requests claimed_compute) ''r1'' ''t1'' 1"
    by (simp add: claimed_compute_rows row_current_def request_holder_def request_claim_values_def example_request_def new_request_def table_simps)
  have lost: "\<not> row_current rq_id rq_lease_generation request_holder (requests cancelled_compute) ''r1'' ''t1'' 1"
    using cancelled_compute_rows by (auto simp: row_current_def request_holder_def table_simps split: option.splits dest!: get_row_SomeD)
  show ?thesis
    using lost_request_claim_is_inert [OF example_cfg claimed_compute_inv held cancelled_compute_run lost rtranclp.rtrancl_refl]
    by blast
qed

subsection \<open>One request per engine\<close>

text \<open>What the locks of a claim guarantee: the other sessions run whole transactions, and leave the row
  a round has selected for update alone.\<close>

definition rounds_respect_locks ::
  "('a compute_db_scheme \<Rightarrow> 'a compute_db_scheme \<Rightarrow> bool) \<Rightarrow> string list \<Rightarrow> compute_kind list option \<Rightarrow>
   ('a compute_db_scheme \<Rightarrow> 'a compute_db_scheme) \<Rightarrow> 'a compute_db_scheme claim_round list \<Rightarrow> bool" where
  "rounds_respect_locks step reclaimable allowed late rds \<longleftrightarrow>
     (\<forall>d. step\<^sup>*\<^sup>* d (late d)) \<and>
     (\<forall>rd \<in> set rds. \<forall>d. step\<^sup>*\<^sup>* d (cr_env rd d) \<and>
        (\<forall>blocked row. pick_request reclaimable allowed blocked rd d = Some row \<longrightarrow> row \<in> set (requests (cr_env rd d))))"

lemma pick_request_candidate:
  assumes "pick_request reclaimable allowed blocked rd db = Some row"
  shows "row \<in> set (requests db) \<and> claim_candidate (tx_now (cr_txn rd)) reclaimable allowed blocked db row \<and> \<not> cr_locked rd (rq_id row)"
  using assms by (auto simp: pick_request_def dest: first_row_select_Some)

lemma take_request_run:
  fixes db :: "'a compute_db_scheme"
  assumes row: "row \<in> set (requests db)" "request_claimable now rec row" "\<not> active_sibling row db"
    and late: "\<And>d. (compute_step uuid5 digest cfg keep)\<^sup>*\<^sup>* d (late d)"
  shows "(compute_step uuid5 digest cfg keep)\<^sup>*\<^sup>* db (snd (take_request tx w late row db))"
proof -
  let ?d = "snd (take_request tx w (\<lambda>d. d) row db)"
  have "compute_step uuid5 digest cfg keep db ?d" by (rule cs_claim [OF row prod.collapse [symmetric]])
  moreover have "snd (take_request tx w late row db) = db \<or> snd (take_request tx w late row db) = late ?d"
    by (simp add: take_request_db)
  ultimately show ?thesis using late [of ?d] by (auto intro: converse_rtranclp_into_rtranclp)
qed

lemma claim_rounds_run:
  fixes db :: "'a compute_db_scheme"
  assumes "claim_rounds w rec al late blocked rds db = Some (r, db')"
    and "rounds_respect_locks (compute_step uuid5 digest cfg keep) rec al late rds"
  shows "(compute_step uuid5 digest cfg keep)\<^sup>*\<^sup>* db db'"
  using assms
proof (induction rds arbitrary: blocked db)
  case (Cons rd rds)
  have ok: "rounds_respect_locks (compute_step uuid5 digest cfg keep) rec al late rds"
    and env: "(compute_step uuid5 digest cfg keep)\<^sup>*\<^sup>* db (cr_env rd db)"
    using Cons.prems(2) by (auto simp: rounds_respect_locks_def)
  show ?case
  proof (cases "pick_request rec al blocked rd db")
    case (Some row)
    note c = pick_request_candidate [OF Some]
    have row: "row \<in> set (requests (cr_env rd db))" using Cons.prems(2) Some by (auto simp: rounds_respect_locks_def)
    show ?thesis
    proof (cases "engine_free (cr_free rd) row \<and> \<not> active_sibling row (cr_env rd db)")
      case True
      then have "db' = snd (take_request (cr_txn rd) w late row (cr_env rd db))" using Cons.prems(1) Some by simp
      moreover have "(compute_step uuid5 digest cfg keep)\<^sup>*\<^sup>* (cr_env rd db) (snd (take_request (cr_txn rd) w late row (cr_env rd db)))"
        using True c Cons.prems(2) row by (intro take_request_run) (auto simp: claim_candidate_def rounds_respect_locks_def)
      ultimately show ?thesis using env by simp
    next
      case False
      then obtain b where "claim_rounds w rec al late b rds (cr_env rd db) = Some (r, db')"
        using Cons.prems(1) Some by (auto split: if_splits)
      then show ?thesis using Cons.IH [OF _ ok] env by (meson rtranclp_trans)
    qed
  qed (use Cons.prems in simp)
qed simp

text \<open>C1: one request per engine. However the claim loops of several API processes interleave, and
  whatever transactions run between their statements, removals of requests included, no two requests of the same namespace and
  compute worker identity are running at once.\<close>

theorem engine_runs_one_request:
  assumes cfg: "1 \<le> runtime_compute_max_attempts cfg" and inv: "compute_inv digest s"
    and run: "(compute_step uuid5 digest cfg {})\<^sup>*\<^sup>* s db"
    and claim: "claim_next_request worker reclaimable allowed late rounds db = Some (r, db')"
    and locks: "rounds_respect_locks (compute_step uuid5 digest cfg {}) reclaimable allowed late rounds"
    and two: "a \<in> set (requests db')" "b \<in> set (requests db')" "rq_status a = CR_RUNNING" "rq_status b = CR_RUNNING" "same_engine a b"
  shows "a = b"
proof -
  have "(compute_step uuid5 digest cfg {})\<^sup>*\<^sup>* s db'"
    using claim_rounds_run [OF claim [unfolded claim_next_request_def] locks] run by simp
  then have i: "compute_inv digest db'" using compute_run_effects inv cfg by blast
  then have "rq_id a = rq_id b" using two unfolding compute_inv_def engines_exclusive_def by blast
  then show ?thesis using i two unique_by_eq by (auto simp: compute_inv_def)
qed

definition example_round :: "compute_db claim_round" where
  "example_round = \<lparr>cr_txn = example_txn 2 ''t1'', cr_locked = (\<lambda>_. False), cr_free = (\<lambda>_. True), cr_env = (\<lambda>d. d)\<rparr>"

lemma example_round_simps [simp]: "cr_txn example_round = example_txn 2 ''t1''" "cr_locked example_round k = False"
  "cr_free example_round e = True" "cr_env example_round d = d"
  by (simp_all add: example_round_def)

lemma example_round_respects: "rounds_respect_locks (compute_step uuid5 digest cfg keep) rec al (\<lambda>d. d) [example_round]"
  using pick_request_candidate by (fastforce simp: rounds_respect_locks_def)

lemma example_pick: "pick_request [] None [] example_round staged_compute = Some example_request"
  by (simp add: pick_request_def staged_compute_rows select_ordered_def claim_candidate_def example_claimable
      example_txn_def first_row_def running_sibling_def split: option.split)

lemma example_claim: "claim_next_request ''w1'' [] None (\<lambda>d. d) [example_round] staged_compute = Some (fst (take_request (example_txn 2 ''t1'') ''w1'' (\<lambda>d. d) example_request staged_compute), claimed_compute)"
  using example_claimable(3) by (simp add: claim_next_request_def example_pick claimed_compute_def engine_free_def split: option.split)

theorem engine_runs_one_request_witness: "hd (requests claimed_compute) = last (requests claimed_compute)"
proof -
  have "hd (requests claimed_compute) \<in> set (requests claimed_compute)" "last (requests claimed_compute) \<in> set (requests claimed_compute)"
    "rq_status (hd (requests claimed_compute)) = CR_RUNNING" "rq_status (last (requests claimed_compute)) = CR_RUNNING"
    "same_engine (hd (requests claimed_compute)) (last (requests claimed_compute))"
    by (simp_all add: claimed_compute_rows request_claim_values_def same_engine_def example_request_def new_request_def
        compute_worker_identity_for_command_def example_command_def interactive_identity_def)
  from engine_runs_one_request [OF example_cfg staged_compute_inv rtranclp.rtrancl_refl example_claim example_round_respects this]
  show ?thesis .
qed

subsection \<open>Shared flights\<close>

lemma kind_number_inj: "kind_number a = kind_number b \<Longrightarrow> a = b"
  by (cases a; cases b; simp)

lemma kind_number_colon: "CHR '':'' \<notin> set (kind_number k)"
  by (cases k) simp_all

lemma flight_key_inj:
  assumes "flight_key digest a c = Some k" and "flight_key digest b d = Some k"
  shows "a = b \<and> digest c = digest d"
proof -
  have e: "kind_number a @ CHR '':'' # digest c = kind_number b @ CHR '':'' # digest d"
    using assms by (auto simp: flight_key_def split: if_splits)
  have pre: "takeWhile (\<lambda>x. x \<noteq> CHR '':'') (kind_number n @ CHR '':'' # s) = kind_number n" for n s
    using kind_number_colon [of n] by (subst takeWhile_tail) (auto simp: takeWhile_eq_all_conv)
  have "kind_number a = kind_number b" using arg_cong [OF e, of "takeWhile (\<lambda>x. x \<noteq> CHR '':'')"] by (simp only: pre)
  then show ?thesis using e kind_number_inj by auto
qed

definition follows_flight :: "(compute_command \<Rightarrow> string) \<Rightarrow> string \<Rightarrow> string \<Rightarrow> timestamp \<Rightarrow> compute_request \<Rightarrow> 'a compute_db_scheme \<Rightarrow> bool" where
  "follows_flight digest ns k now r db \<longleftrightarrow> get_request (rq_id r) db = Some r \<and> rq_namespace r = ns \<and>
     flight_key digest (rq_kind r) (ce_command (rq_command_envelope r)) = Some k \<and>
     (request_active (rq_status r) \<or> rq_status r = CR_COMPLETED \<and>
        (\<exists>f \<in> set (flights db). fl_request_id f = rq_id r \<and> sql_gt (fl_expires_at f) now))"

lemma reusable_request_follows:
  assumes "compute_inv digest db" and "get_row flight_id (ns, k) (flights db) = Some f"
    and "reusable_flight_request now (get_row rq_id (fl_request_id f) (requests db)) f = Inr (Some r)"
  shows "follows_flight digest ns k now r db"
proof -
  have f: "f \<in> set (flights db)" "fl_namespace f = ns" "fl_flight_key f = k" using get_row_SomeD [OF assms(2)] by auto
  then obtain q where q: "get_row rq_id (fl_request_id f) (requests db) = Some q" "rq_namespace q = ns"
      "flight_key digest (rq_kind q) (ce_command (rq_command_envelope q)) = Some k"
    using assms(1) by (auto simp: compute_inv_def flight_ok_def)
  have "q = r" "request_active (rq_status r) \<or> rq_status r = CR_COMPLETED \<and> sql_gt (fl_expires_at f) now"
    using assms(3) q(1) by (auto simp: reusable_flight_request_def elim!: and_then_okE split: if_splits)
  moreover have "rq_id q = fl_request_id f" using get_row_SomeD [OF q(1)] by simp
  ultimately show ?thesis using q f(1) by (auto simp: follows_flight_def get_request_def)
qed

lemma find_reusable_follows:
  "compute_inv digest db \<Longrightarrow> find_reusable_flight ns k now db = Inr (Some r) \<Longrightarrow> follows_flight digest ns k now r db"
  by (auto simp: find_reusable_flight_def read_flight_def split: option.splits intro: reusable_request_follows)

lemma reusable_flight_follows:
  assumes "reusable_flight ns k now env db = Inr (Some r, db')" and "compute_inv digest db" and "compute_inv digest (env db)"
  shows "follows_flight digest ns k now r db'"
  using assms(1) reusable_request_follows [OF assms(2)] reusable_request_follows [OF assms(3)]
  by (auto simp: reusable_flight_def read_flight_def Let_def elim!: and_then_okE split: option.splits)

text \<open>A shared flight serves exactly the command it was created for. A caller that is given an
  existing request gets one of its own namespace and kind, for the same command over the same input
  revisions it would have staged, still active or completed within the cache window; this holds
  under interference of other sessions, for every digest without a collision on the command.\<close>

theorem flight_follower_same_command:
  assumes inv: "compute_inv digest db"
    and nocoll: "\<And>c'. digest c' = digest (snapshot_input_revisions db c) \<Longrightarrow> c' = snapshot_input_revisions db c"
    and env: "\<And>d. effects digest keep d (se_lookup env d)" "\<And>d. effects digest keep d (se_stale env d)"
    and st: "stage_shared_flight_request uuid5 digest cfg tx now ns kind c rid validate free env db = Inr ((r, False), db')"
  shows "rq_kind r = kind \<and> rq_namespace r = ns \<and> ce_command (rq_command_envelope r) = snapshot_input_revisions db c \<and>
    get_request (rq_id r) db' = Some r \<and>
    (request_active (rq_status r) \<or> rq_status r = CR_COMPLETED \<and>
       (\<exists>f \<in> set (flights db'). fl_request_id f = rq_id r \<and> sql_gt (fl_expires_at f) now))"
proof -
  have core: "stage_request_core uuid5 digest cfg tx now ns kind c True rid validate free env db = Inr ((r, False), db')"
    and shared: "kind \<in> set SHARED_FLIGHT_REQUEST_KINDS"
    using st by (auto simp: stage_shared_flight_request_def split: if_splits)
  then obtain k where k: "flight_key digest kind (snapshot_input_revisions db c) = Some k" by (auto simp: flight_key_def)
  have inv1: "compute_inv digest (se_lookup env db)" using effects_kept [OF env(1) inv] by blast
  have inv2: "compute_inv digest (se_stale env (se_lookup env db))" using effects_kept [OF env(2) inv1] by blast
  from core have "find_reusable_flight ns k now db = Inr (Some r) \<and> db' = db \<or>
      reusable_flight ns k now (se_stale env) (se_lookup env db) = Inr (Some r, db')"
    by (auto simp: stage_request_core_def Let_def k elim!: and_then_okE split: option.splits if_splits)
  then have "follows_flight digest ns k now r db'"
    using find_reusable_follows [OF inv] reusable_flight_follows [where db = "se_lookup env db" and env = "se_stale env" and digest = digest, OF _ inv1 inv2]
    by blast
  then show ?thesis using flight_key_inj [OF k] nocoll unfolding follows_flight_def by metis
qed

lemma staged_datasources: "datasources staged_compute = []"
  by (simp add: staged_compute_def compute_example_defs table_simps Let_def)

lemma example_follow: "stage_shared_flight_request (\<lambda>x. x) example_digest example_settings (example_txn 1 ''r2'') 1 ''n'' CK_SCHEMA
     example_command None (\<lambda>_. None) (\<lambda>_. True) quiet_env staged_compute = Inr ((example_request, False), staged_compute)"
proof -
  have "rq_id example_request = ''r1''" "rq_status example_request = CR_QUEUED" by (simp_all add: example_request_def new_request_def)
  then show ?thesis
    by (simp add: staged_compute_rows staged_datasources reusable_flight_request_def request_active_def compute_example_defs table_simps Let_def)
qed

theorem flight_follower_same_command_witness:
  "rq_kind example_request = CK_SCHEMA \<and> ce_command (rq_command_envelope example_request) = example_command \<and>
   get_request (rq_id example_request) staged_compute = Some example_request"
proof -
  have snap: "snapshot_input_revisions staged_compute example_command = example_command"
    by (simp add: snapshot_input_revisions_def example_command_def datasource_ids_for_command_def pipeline_datasource_ids_def
        staged_datasources table_simps)
  have "c' = example_command" if "example_digest c' = example_digest (snapshot_input_revisions staged_compute example_command)" for c'
    using that by (simp add: snap example_digest_def split: if_splits)
  then show ?thesis
    using flight_follower_same_command [OF staged_compute_inv _ _ _ example_follow] by (simp add: snap quiet_env_def)
qed

subsection \<open>Responses\<close>

lemma response_payload_ok:
  assumes "request_ok r" and "\<not> request_active (rq_status r)"
  shows "\<exists>e. rq_response_envelope r = Some e \<and> response_payload r = Inr (rs_response e)"
  using assms by (auto simp: request_ok_def request_pending_def request_active_def response_payload_def response_fits_def)

text \<open>Clearing and expiring preflights leaves requests of other kinds alone.\<close>

lemma remove_keeps_others:
  fixes db :: "'a compute_db_scheme"
  assumes rm: "remove_preflight uuid5 cfg tx ns pid delete_source db = Inr (src, db')"
    and other: "\<And>x. x \<in> set (requests db) \<Longrightarrow> rq_id x = rid \<Longrightarrow> rq_kind x \<noteq> CK_DATASOURCE_PREFLIGHT"
  shows "get_request rid db' = get_request rid db"
proof (cases "db' = db")
  case False
  then obtain r source where r: "get_row rq_id pid (requests db) = Some r" "rq_kind r = CK_DATASOURCE_PREFLIGHT" "release_preflight uuid5 cfg tx 0 ns source r db = Inr db'"
    using rm by (auto simp: remove_preflight_def Let_def elim!: and_then_okE split: option.splits if_splits)
  have "rq_id r \<noteq> rid" using other get_row_SomeD [OF r(1)] r(2) by auto
  then show ?thesis using release_preflight_tables [OF r(3)] by (simp add: get_request_def get_row_delete_key)
qed simp

lemma expire_rows_others:
  fixes db :: "'a compute_db_scheme"
  shows "expire_rows uuid5 cfg tx i ns rs db = Inr db' \<Longrightarrow> (\<And>r. r \<in> set rs \<Longrightarrow> rq_id r \<noteq> rid) \<Longrightarrow> get_request rid db' = get_request rid db"
proof (induction uuid5 cfg tx i ns rs db rule: expire_rows.induct)
  case (2 uuid5 cfg tx i ns r rs db)
  show ?case
  proof (cases "preflight_active (rq_id r) db")
    case True
    then show ?thesis using 2 by simp
  next
    case False
    then obtain db1 where db1: "release_preflight uuid5 cfg tx i ns (preflight_source r) r db = Inr db1" "expire_rows uuid5 cfg tx (Suc i) ns rs db1 = Inr db'"
      using "2.prems"(1) by (auto elim!: and_then_okE)
    have "get_request rid db1 = get_request rid db"
      using release_preflight_tables [OF db1(1)] "2.prems"(2) [of r] by (simp add: get_request_def get_row_delete_key)
    moreover have "get_request rid db' = get_request rid db1" by (rule "2.IH"(2) [OF False db1(2)]) (use "2.prems"(2) in simp)
    ultimately show ?thesis by simp
  qed
qed simp

lemma expire_keeps_others:
  fixes db :: "'a compute_db_scheme"
  assumes ex: "expire_preflights uuid5 cfg tx ns now locked scan db = Inr db'" and scan: "\<And>rs. set (scan rs) \<subseteq> set rs"
    and other: "\<And>x. x \<in> set (requests db) \<Longrightarrow> rq_id x = rid \<Longrightarrow> rq_kind x \<noteq> CK_DATASOURCE_PREFLIGHT"
  shows "get_request rid db' = get_request rid db"
proof (rule expire_rows_others [OF ex [unfolded expire_preflights_def]])
  fix r assume "r \<in> set (take 32 (scan (filter (\<lambda>r. preflight_expired (now - PREFLIGHT_TTL) r \<and> \<not> locked (rq_id r)) (requests db))))"
  then have "r \<in> set (filter (\<lambda>r. preflight_expired (now - PREFLIGHT_TTL) r \<and> \<not> locked (rq_id r)) (requests db))"
    using scan in_set_takeD by (meson subsetD)
  then show "rq_id r \<noteq> rid" using other by (auto simp: preflight_expired_def)
qed

text \<open>C27: a terminal request is final and readable for as long as its row exists. Whatever transactions follow that
  leave the row in place, removals of other requests included, its status, response, error and completion time stay, and
  reading its response never raises. A row that is not a preflight stays in place: neither clearing a preflight, under any
  identifier, nor expiring preflights removes the row of a request of another kind.\<close>

theorem terminal_request_final:
  assumes cfg: "1 \<le> runtime_compute_max_attempts cfg" and inv: "compute_inv digest s"
    and r: "get_request rid s = Some r" and tm: "\<not> request_active (rq_status r)" and run: "(compute_step uuid5 digest cfg {rid})\<^sup>*\<^sup>* s t"
  shows "(\<exists>r' e. get_request rid t = Some r' \<and> rq_status r' = rq_status r \<and> rq_response_envelope r' = Some e \<and>
      rq_response_envelope r = Some e \<and> rq_error_message r' = rq_error_message r \<and> rq_completed_at r' = rq_completed_at r \<and>
      response_payload r' = Inr (rs_response e) \<and> rq_kind r' = rq_kind r) \<and>
    (rq_kind r \<noteq> CK_DATASOURCE_PREFLIGHT \<longrightarrow>
       (\<forall>tx ns pid delete_source src t'. remove_preflight uuid5 cfg tx ns pid delete_source t = Inr (src, t') \<longrightarrow> get_request rid t' = get_request rid t) \<and>
       (\<forall>tx ns now locked scan t'. (\<forall>rs. set (scan rs) \<subseteq> set rs) \<longrightarrow> expire_preflights uuid5 cfg tx ns now locked scan t = Inr t' \<longrightarrow>
          get_request rid t' = get_request rid t))"
proof -
  have t: "effects digest {rid} s t" "compute_inv digest t" using compute_run_effects [OF run inv cfg] by auto
  have "get_row rq_id rid (requests s) = Some r" using r by (simp add: get_request_def)
  then obtain r' where r': "get_row rq_id rid (requests t) = Some r'" "request_move r r'"
    using conjunct2 [OF effects_kept [OF t(1) inv]] by (auto simp: kept_moves_def)
  have np: "\<not> request_pending r" using tm by (simp add: request_pending_def request_active_def)
  have "request_ok r'" using t(2) get_row_SomeD [OF r'(1)] by (simp add: compute_inv_def)
  moreover have same: "rq_status r' = rq_status r" "rq_response_envelope r' = rq_response_envelope r" "rq_error_message r' = rq_error_message r"
      "rq_completed_at r' = rq_completed_at r" "rq_kind r' = rq_kind r" using r'(2) np by (simp_all add: request_move_def)
  ultimately have "\<exists>r' e. get_request rid t = Some r' \<and> rq_status r' = rq_status r \<and> rq_response_envelope r' = Some e \<and>
      rq_response_envelope r = Some e \<and> rq_error_message r' = rq_error_message r \<and> rq_completed_at r' = rq_completed_at r \<and>
      response_payload r' = Inr (rs_response e) \<and> rq_kind r' = rq_kind r"
    using response_payload_ok [of r'] tm r'(1) by (fastforce simp: get_request_def)
  moreover have "rq_kind x \<noteq> CK_DATASOURCE_PREFLIGHT" if "rq_kind r \<noteq> CK_DATASOURCE_PREFLIGHT" "x \<in> set (requests t)" "rq_id x = rid" for x
  proof -
    have "get_row rq_id (rq_id x) (requests t) = Some x" using t(2) that(2) by (intro get_row_unique) (simp_all add: compute_inv_def)
    then show ?thesis using that(1,3) r'(1) same(5) by simp
  qed
  note other = this
  have "get_request rid t' = get_request rid t"
    if "rq_kind r \<noteq> CK_DATASOURCE_PREFLIGHT" "remove_preflight uuid5 cfg tx ns pid delete_source t = Inr (src, t')" for tx ns pid delete_source src t'
    using remove_keeps_others [OF that(2)] other [OF that(1)] by blast
  moreover have "get_request rid t' = get_request rid t"
    if "rq_kind r \<noteq> CK_DATASOURCE_PREFLIGHT" "\<forall>rs. set (scan rs) \<subseteq> set rs" "expire_preflights uuid5 cfg tx ns now locked scan t = Inr t'"
    for tx ns now locked scan t'
    using expire_keeps_others [OF that(3)] that(2) other [OF that(1)] by blast
  ultimately show ?thesis by blast
qed

theorem terminal_request_final_witness:
  "(\<exists>e :: response_envelope. map_option response_payload (get_request ''r1'' cancelled_compute) = Some (Inr (rs_response e))) \<and>
   (\<exists>t'. remove_preflight (\<lambda>x. x) example_settings (example_txn 4 ''x'') ''n'' ''r1'' True cancelled_compute = Inr (None, t') \<and>
      get_request ''r1'' t' = get_request ''r1'' cancelled_compute)"
proof -
  obtain r where r: "get_request ''r1'' cancelled_compute = Some r" "rq_status r = CR_FAILED"
    using cancelled_compute_rows by (cases "requests cancelled_compute") (auto simp: get_request_def table_simps)
  have inv: "compute_inv example_digest cancelled_compute"
    using compute_run_effects [OF cancelled_compute_run claimed_compute_inv example_cfg] by simp
  have kind: "rq_kind r = CK_SCHEMA"
  proof -
    have "get_row rq_id ''r1'' (requests claimed_compute) = Some (request_claim_values ''w1'' ''t1'' 2 example_request example_request)"
      by (simp add: claimed_compute_rows table_simps request_claim_values_def example_request_def new_request_def)
    then obtain r' where "get_row rq_id ''r1'' (requests cancelled_compute) = Some r'" "rq_kind r' = CK_SCHEMA"
      using effects_kept [OF conjunct1 [OF compute_run_effects [OF cancelled_compute_run [of "{''r1''}"] claimed_compute_inv example_cfg]] claimed_compute_inv]
      by (auto simp: kept_moves_def request_move_def request_claim_values_def example_request_def new_request_def)
    then show ?thesis using r(1) by (simp add: get_request_def)
  qed
  have "\<not> request_active (rq_status r)" using r(2) by (simp add: request_active_def)
  note final = terminal_request_final [OF example_cfg inv r(1) this rtranclp.rtrancl_refl]
  from final obtain r' and e :: response_envelope where "get_request ''r1'' cancelled_compute = Some r'" "response_payload r' = Inr (rs_response e)" by blast
  then have "map_option response_payload (get_request ''r1'' cancelled_compute) = Some (Inr (rs_response e))" by simp
  moreover have rm: "remove_preflight (\<lambda>x. x) example_settings (example_txn 4 ''x'') ''n'' ''r1'' True cancelled_compute = Inr (None, cancelled_compute)"
    using r(1) kind by (simp add: remove_preflight_def get_request_def)
  moreover have "rq_kind r \<noteq> CK_DATASOURCE_PREFLIGHT" using kind by simp
  then have "get_request ''r1'' cancelled_compute = get_request ''r1'' cancelled_compute" using final rm by blast
  ultimately show ?thesis by blast
qed

lemma terminal_not_live: "rq_status r \<noteq> CR_RUNNING \<Longrightarrow> get_row rq_id rid (requests db) = Some r \<Longrightarrow> unique_by rq_id (requests db) \<Longrightarrow>
    active_request_claim tx rid w tok g db = None"
  using active_request_claim_current [of tx rid w tok g db]
  by (cases "active_request_claim tx rid w tok g db") (auto simp: row_current_def request_holder_def)

lemma finish_result:
  fixes db :: "'a compute_db_scheme"
  assumes claim: "active_request_claim tx rid w tok g db = Some q" and inv: "compute_inv digest db"
    and fin: "mark_request_completed dump ns tx now rid e w tok g arts fz (\<lambda>d. d) db = Inr (x, db')"
  shows "\<exists>r. x = Some r \<and> get_row rq_id rid (requests db') = Some r \<and> rq_status r = CR_COMPLETED \<and> rq_response_envelope r = Some e \<and>
    rq_error_message r = None \<and> (rq_artifact_path r, rq_artifact_name r, rq_artifact_content_type r) = arts"
proof -
  from fin claim obtain db1 cached where d: "db' = publish_terminal CR_COMPLETED e None now cached (put_artifacts (Some arts)) rid (rq_namespace q) db1"
      "x = get_row rq_id rid (requests db')" "stage_run_finalization dump ns q fz WR_SUCCESS db = Inr db1"
    by (auto simp: mark_request_completed_def finish_claimed_request_def Let_def elim!: and_then_okE)
  have f: "requests db1 = requests db"
    using d(3) by (auto simp: stage_run_finalization_def stage_update_compute_worker_run_def elim!: and_then_okE split: option.splits if_splits)
  have q: "q \<in> set (requests db)" "rq_id q = rid"
    using claim by (auto simp: active_request_claim_def find_Some_iff request_claim_live_def)
  then have "get_row rq_id rid (requests db) = Some q" using get_row_unique [of rq_id "requests db" q] inv by (simp add: compute_inv_def)
  then have "get_row rq_id rid (requests db') = Some (terminal_values CR_COMPLETED e None now (put_artifacts (Some arts) q))"
    using q(2) by (simp add: d(1) publish_terminal_def finish_flight_def f table_simps terminal_values_def)
  then show ?thesis using d(2) by (cases arts) (simp add: terminal_values_def put_artifacts_def)
qed

text \<open>Completing a request is idempotent. A worker that repeats its completion after the first
  one committed, because the answer was lost, is given the stored request and nothing is written; a
  repetition with another response is told that the claim is gone, and writes nothing either.\<close>

theorem completion_idempotent:
  assumes inv: "compute_inv digest db" and claim: "active_request_claim tx rid w tok g db = Some q"
    and fin: "mark_request_completed dump ns tx now rid e w tok g arts fz (\<lambda>d. d) db = Inr (x, db')"
  shows "\<exists>r. x = Some r \<and> rq_status r = CR_COMPLETED \<and>
    mark_request_completed dump ns tx2 now2 rid e w tok g arts fz2 env2 db' = Inr (Some r, db') \<and>
    (e2 = e \<or> mark_request_completed dump ns tx2 now2 rid e2 w tok g arts fz2 env2 db' = Inr (None, db'))"
proof -
  obtain r where r: "x = Some r" "get_row rq_id rid (requests db') = Some r" "rq_status r = CR_COMPLETED" "rq_response_envelope r = Some e"
      "rq_error_message r = None" "(rq_artifact_path r, rq_artifact_name r, rq_artifact_content_type r) = arts"
    using finish_result [OF claim inv fin] by blast
  have "effects digest {} db db'"
    using fin unfolding mark_request_completed_def by (rule finish_effects) (simp_all add: inv)
  then have "unique_by rq_id (requests db')" using effects_kept inv by (auto simp: compute_inv_def)
  then have "active_request_claim tx2 rid w tok g db' = None" using terminal_not_live r by force
  then show ?thesis using r
    by (auto simp: mark_request_completed_def finish_claimed_request_def matching_terminal_request_def Let_def)
qed

definition example_response :: response_envelope where
  "example_response = \<lparr>rs_kind = CK_SCHEMA, rs_status = CR_COMPLETED, rs_correlation_id = ''r1'', rs_response = [], rs_error_message = None\<rparr>"

theorem completion_idempotent_witness:
  "\<exists>r db'. mark_request_completed Inr ''n'' (example_txn 3 ''x'') 3 ''r1'' example_response ''w1'' ''t1'' 1 (None, None, None) None (\<lambda>d. d) claimed_compute =
      Inr (Some r, db') \<and>
    mark_request_completed Inr ''n'' (example_txn 4 ''x'') 4 ''r1'' example_response ''w1'' ''t1'' 1 (None, None, None) None (\<lambda>d. d) db' = Inr (Some r, db')"
proof -
  let ?q = "request_claim_values ''w1'' ''t1'' 2 example_request example_request"
  have q: "active_request_claim (example_txn 3 ''x'') ''r1'' ''w1'' ''t1'' 1 claimed_compute = Some ?q"
    by (simp add: active_request_claim_def claimed_compute_rows request_claim_live_def request_claim_values_def example_request_def new_request_def
        example_txn_def seconds_def CLAIM_DELIVERY_LEASE_SECONDS_def)
  have "validate_response_envelope ?q example_response CR_COMPLETED = Inr ()" "cache_completed_flight (put_artifacts (Some (None, None, None)) ?q) = Inr True"
    by (simp_all add: validate_response_envelope_def example_response_def cache_completed_flight_def request_claim_values_def example_request_def new_request_def)
  then have "\<exists>x db'. mark_request_completed Inr ''n'' (example_txn 3 ''x'') 3 ''r1'' example_response ''w1'' ''t1'' 1 (None, None, None) None (\<lambda>d. d) claimed_compute =
      Inr (x, db')"
    by (simp add: mark_request_completed_def finish_claimed_request_def q stage_run_finalization_def Let_def)
  then obtain x db' where f: "mark_request_completed Inr ''n'' (example_txn 3 ''x'') 3 ''r1'' example_response ''w1'' ''t1'' 1 (None, None, None) None (\<lambda>d. d)
      claimed_compute = Inr (x, db')" by blast
  from completion_idempotent [OF claimed_compute_inv q f, of "example_txn 4 ''x''" 4 None "\<lambda>d. d"]
  obtain r where "x = Some r" "mark_request_completed Inr ''n'' (example_txn 4 ''x'') 4 ''r1'' example_response ''w1'' ''t1'' 1 (None, None, None) None
      (\<lambda>d. d) db' = Inr (Some r, db')" by blast
  then show ?thesis using f by (intro exI [of _ r] exI [of _ db'] conjI) simp_all
qed

subsection \<open>The end of the claim loop\<close>

definition queue_engines :: "'a compute_db_scheme \<Rightarrow> engine set" where
  "queue_engines db = {e. \<exists>r \<in> set (requests db). engine_claim_identity r = Some e}"

lemma queue_engines_finite: "finite (queue_engines db)"
proof -
  have "queue_engines db \<subseteq> the ` engine_claim_identity ` set (requests db)" by (force simp: queue_engines_def)
  then show ?thesis by (rule finite_subset) simp
qed

lemma candidate_no_sibling:
  assumes "claim_candidate now rec al blocked db row" and "engine_claim_identity row \<noteq> None"
  shows "\<not> active_sibling row db"
  using assms by (auto simp: claim_candidate_def running_sibling_def same_engine_def active_sibling_def list_ex_iff engine_claim_identity_def)

lemma candidate_engine:
  assumes "pick_request rec al blocked rd db = Some row" and "engine_claim_identity row = Some e"
  shows "e \<in> queue_engines db - set blocked"
  using pick_request_candidate [OF assms(1)] assms(2) by (auto simp: queue_engines_def claim_candidate_def)

text \<open>The states that the rounds of a loop meet, and the rounds in which no other session starts a request. A
  request that runs after a round was started by it unless it ran before.\<close>

fun round_states :: "'a compute_db_scheme claim_round list \<Rightarrow> 'a compute_db_scheme \<Rightarrow> 'a compute_db_scheme list" where
  "round_states [] db = [db]"
| "round_states (rd # rds) db = db # round_states rds (cr_env rd db)"

definition runs_request :: "'a compute_db_scheme \<Rightarrow> string \<Rightarrow> string \<Rightarrow> worker_identity option \<Rightarrow> bool" where
  "runs_request db rid ns identity \<longleftrightarrow>
     (\<exists>r \<in> set (requests db). rq_id r = rid \<and> rq_namespace r = ns \<and> rq_worker_identity r = identity \<and> rq_status r = CR_RUNNING)"

definition starts_none :: "'a compute_db_scheme \<Rightarrow> 'a compute_db_scheme \<Rightarrow> bool" where
  "starts_none db db' \<longleftrightarrow>
     (\<forall>r \<in> set (requests db'). rq_status r = CR_RUNNING \<longrightarrow> runs_request db (rq_id r) (rq_namespace r) (rq_worker_identity r))"

fun undisturbed_rounds :: "'a compute_db_scheme claim_round list \<Rightarrow> 'a compute_db_scheme \<Rightarrow> nat" where
  "undisturbed_rounds [] db = 0"
| "undisturbed_rounds (rd # rds) db = (if starts_none db (cr_env rd db) then 1 else 0) + undisturbed_rounds rds (cr_env rd db)"

lemma round_state_head: "db \<in> set (round_states rds db)"
  by (cases rds) simp_all

lemma undisturbed_no_sibling:
  assumes pick: "pick_request rec al blocked rd db = Some row" and none: "starts_none db db'"
    and id: "\<And>r. r \<in> set (requests db') \<Longrightarrow> rq_status r = CR_RUNNING \<Longrightarrow> rq_worker_identity r \<noteq> None"
  shows "\<not> active_sibling row db'"
proof
  assume "active_sibling row db'"
  then obtain s where s: "s \<in> set (requests db')" "rq_namespace s = rq_namespace row" "rq_worker_identity s = rq_worker_identity row" "rq_status s = CR_RUNNING"
      "rq_id s \<noteq> rq_id row" by (auto simp: active_sibling_def list_ex_iff)
  have "runs_request db (rq_id s) (rq_namespace s) (rq_worker_identity s)" using none s(1,4) unfolding starts_none_def by blast
  then have "active_sibling row db" using s by (auto simp: runs_request_def active_sibling_def list_ex_iff)
  moreover have "engine_claim_identity row \<noteq> None" using id [OF s(1,4)] s(3) by (simp add: engine_claim_identity_def)
  ultimately show False using candidate_no_sibling pick_request_candidate [OF pick] by blast
qed

lemma claim_rounds_end:
  assumes "finite E" and "\<forall>d \<in> set (round_states rds db). queue_engines d \<subseteq> E"
    and "\<forall>d \<in> set (round_states rds db). \<forall>r \<in> set (requests d). rq_status r = CR_RUNNING \<longrightarrow> rq_worker_identity r \<noteq> None"
    and "card (E - set blocked) < undisturbed_rounds rds db"
  shows "\<exists>x. claim_rounds w rec al late blocked rds db = Some x"
  using assms(2-)
proof (induction rds arbitrary: blocked db)
  case (Cons rd rds)
  let ?db = "cr_env rd db"
  have later: "\<forall>d \<in> set (round_states rds ?db). queue_engines d \<subseteq> E"
      "\<forall>d \<in> set (round_states rds ?db). \<forall>r \<in> set (requests d). rq_status r = CR_RUNNING \<longrightarrow> rq_worker_identity r \<noteq> None"
    using Cons.prems(1,2) by simp_all
  show ?case
  proof (cases "pick_request rec al blocked rd db")
    case (Some row)
    show ?thesis
    proof (cases "engine_free (cr_free rd) row")
      case False
      then obtain e where e: "engine_claim_identity row = Some e" by (auto simp: engine_free_def split: option.splits)
      have "e \<in> E - set blocked" using candidate_engine [OF Some e] Cons.prems(1) by auto
      then have "card (E - set blocked - {e}) < card (E - set blocked)" by (intro card_Diff1_less) (simp add: assms(1))
      moreover have "E - set (e # blocked) = E - set blocked - {e}" by auto
      ultimately have "card (E - set (e # blocked)) < undisturbed_rounds rds ?db" using Cons.prems(3) by (simp split: if_splits)
      from Cons.IH [OF later this] show ?thesis using False Some e by simp
    next
      case True
      show ?thesis
      proof (cases "active_sibling row ?db")
        case sib: True
        have "?db \<in> set (round_states (rd # rds) db)" by (simp add: round_state_head)
        then have "\<not> starts_none db ?db" using undisturbed_no_sibling [OF Some] sib Cons.prems(2) by blast
        then have "card (E - set blocked) < undisturbed_rounds rds ?db" using Cons.prems(3) by simp
        from Cons.IH [OF later this] show ?thesis using True Some sib by simp
      qed (use Some True in simp)
    qed
  qed simp
qed simp

text \<open>C28: the claim loop ends. A round that does not decide has found its engine locked, which blocks that engine for
  the rounds that follow, or was overtaken: between its snapshot and its check under the lock another session
  started a request for the same engine. So while no request without an engine identity is running, the loop has
  returned as soon as the rounds in which no other session started a request outnumber the engines that were in the
  queue, whatever else the other sessions committed between the rounds.\<close>

theorem claim_loop_ends:
  assumes "\<forall>d \<in> set (round_states rounds db). \<forall>r \<in> set (requests d). rq_status r = CR_RUNNING \<longrightarrow> rq_worker_identity r \<noteq> None"
    and "card (\<Union>d \<in> set (round_states rounds db). queue_engines d) < undisturbed_rounds rounds db"
  shows "\<exists>r db'. claim_next_request worker reclaimable allowed late rounds db = Some (r, db')"
proof -
  let ?E = "\<Union>d \<in> set (round_states rounds db). queue_engines d"
  have "finite ?E" by (simp add: queue_engines_finite)
  moreover have "\<forall>d \<in> set (round_states rounds db). queue_engines d \<subseteq> ?E" by blast
  ultimately have "\<exists>x. claim_rounds worker reclaimable allowed late [] rounds db = Some x"
    by (rule claim_rounds_end [OF _ _ assms(1)]) (simp add: assms(2))
  then show ?thesis by (auto simp: claim_next_request_def)
qed

text \<open>Two requests of one engine: another session starts the second one while the first round checks the first.\<close>

definition second_request :: compute_request where
  "second_request = example_request\<lparr>rq_id := ''r2''\<rparr>"

definition two_queued :: compute_db where
  "two_queued = staged_compute\<lparr>requests := [example_request, second_request]\<rparr>"

definition overtaken_round :: "compute_db claim_round" where
  "overtaken_round = example_round\<lparr>cr_env := (\<lambda>d. d\<lparr>requests := [example_request, request_claim_values ''w2'' ''t2'' 2 second_request second_request]\<rparr>)\<rparr>"

theorem claim_loop_ends_witness:
  "undisturbed_rounds [overtaken_round, example_round, example_round] two_queued = 2 \<and>
   (\<exists>r db'. claim_next_request ''w1'' [] None (\<lambda>d. d) [overtaken_round, example_round, example_round] two_queued = Some (r, db'))"
proof -
  let ?started = "two_queued\<lparr>requests := [example_request, request_claim_values ''w2'' ''t2'' 2 second_request second_request]\<rparr>"
  have env: "cr_env overtaken_round two_queued = ?started" by (simp add: overtaken_round_def two_queued_def)
  have q: "rq_status example_request = CR_QUEUED" "rq_namespace second_request = ''n''" "rq_namespace example_request = ''n''"
      "rq_status second_request = CR_QUEUED" "rq_worker_identity second_request = rq_worker_identity example_request"
      "\<exists>i. rq_worker_identity example_request = Some i"
    by (simp_all add: example_request_def second_request_def new_request_def compute_worker_identity_for_command_def example_command_def interactive_identity_def)
  have states: "round_states [overtaken_round, example_round, example_round] two_queued = [two_queued, ?started, ?started, ?started]"
    by (simp add: env)
  have n: "starts_none d d" for d :: compute_db by (auto simp: starts_none_def runs_request_def)
  have "\<not> starts_none two_queued ?started" using q by (auto simp: starts_none_def runs_request_def two_queued_def)
  then have count: "undisturbed_rounds [overtaken_round, example_round, example_round] two_queued = 2" by (simp add: env n)
  obtain i where i: "rq_worker_identity example_request = Some i" using q(6) by blast
  have "queue_engines two_queued = {(''n'', i)}" "queue_engines ?started = {(''n'', i)}"
    using q i by (auto simp: queue_engines_def two_queued_def engine_claim_identity_def request_claim_values_def)
  then have "(\<Union>d \<in> set (round_states [overtaken_round, example_round, example_round] two_queued). queue_engines d) = {(''n'', i)}"
    unfolding states by simp
  then have few: "card (\<Union>d \<in> set (round_states [overtaken_round, example_round, example_round] two_queued). queue_engines d) <
      undisturbed_rounds [overtaken_round, example_round, example_round] two_queued" unfolding count by simp
  have ids: "\<forall>d \<in> set (round_states [overtaken_round, example_round, example_round] two_queued). \<forall>r \<in> set (requests d).
      rq_status r = CR_RUNNING \<longrightarrow> rq_worker_identity r \<noteq> None"
    unfolding states using q i by (simp add: two_queued_def request_claim_values_def)
  show ?thesis using count claim_loop_ends [OF ids few] by blast
qed

text \<open>C29: the claim loop spins on requests without an engine identity. The candidate query admits
  such a request, but the recheck counts every running request of the namespace without an identity
  as its sibling; as nothing is blocked between the rounds, the loop makes no decision in any number
  of rounds until that other request ends.\<close>

theorem claim_loop_spins_without_identity:
  assumes "\<forall>rd \<in> set rounds. cr_env rd db = db \<and> pick_request reclaimable allowed [] rd db = Some row"
    and "rq_worker_identity row = None"
    and "other \<in> set (requests db)" "rq_status other = CR_RUNNING" "rq_worker_identity other = None"
      "rq_namespace other = rq_namespace row" "rq_id other \<noteq> rq_id row"
  shows "claim_next_request worker reclaimable allowed late rounds db = None"
proof -
  have "active_sibling row db" using assms(2-) by (auto simp: active_sibling_def list_ex_iff intro: bexI [of _ other])
  moreover have "engine_free free row" for free using assms(2) by (simp add: engine_free_def engine_claim_identity_def)
  ultimately have "claim_rounds worker reclaimable allowed late [] rounds db = None"
    using assms(1) by (induction rounds) auto
  then show ?thesis by (simp add: claim_next_request_def)
qed

definition adhoc_request :: "string \<Rightarrow> compute_request" where
  "adhoc_request rid = example_request\<lparr>rq_id := rid, rq_worker_identity := None\<rparr>"

definition adhoc_compute :: compute_db where
  "adhoc_compute = empty_compute\<lparr>requests := [request_claim_values ''w1'' ''t1'' 2 (adhoc_request ''r1'') (adhoc_request ''r1''), adhoc_request ''r2'']\<rparr>"

theorem claim_loop_spins_without_identity_witness:
  "claim_next_request ''w2'' [] None (\<lambda>d. d) (replicate 1000 example_round) adhoc_compute = None"
proof -
  have rows: "requests adhoc_compute = [request_claim_values ''w1'' ''t1'' 2 (adhoc_request ''r1'') (adhoc_request ''r1''), adhoc_request ''r2'']"
    by (simp add: adhoc_compute_def)
  have "pick_request [] None [] example_round adhoc_compute = Some (adhoc_request ''r2'')"
    by (simp add: pick_request_def rows adhoc_request_def example_request_def new_request_def request_claim_values_def select_ordered_def
        claim_candidate_def request_claimable_def running_sibling_def same_engine_def engine_claim_identity_def example_txn_def first_row_def
        seconds_def CLAIM_DELIVERY_LEASE_SECONDS_def)
  then show ?thesis
    by (intro claim_loop_spins_without_identity [where row = "adhoc_request ''r2''" and
          other = "request_claim_values ''w1'' ''t1'' 2 (adhoc_request ''r1'') (adhoc_request ''r1'')"])
      (auto simp: rows request_claim_values_def adhoc_request_def)
qed

end
