(* ===== verification/Datasources.thy ===== *)
theory Datasources
  imports Storage_Cleanup
begin

text \<open>
  The life of a datasource row: fenced publication (\<open>modules/datasource/publication_service.py\<close>,
  \<open>stage_output_datasource\<close> of \<open>modules/datasource/commands.py\<close>), updates (\<open>update_datasource\<close> of
  \<open>modules/datasource/service.py\<close>) and deletion through a tombstone
  (\<open>backend_core/datasource_delete_service.py\<close>), each with the storage intents it settles or creates.

  \<open>guard\<close> is the caller's \<open>publication_guard\<close>, which raises when the claim behind the publication is
  lost. The advisory lifecycle lock of a deletion is held to the end of its transaction, so a
  deletion is one step. Responses are the row; the column descriptions attached to a schema are not
  modelled.
\<close>

definition datasource_not_found :: "string \<Rightarrow> py_error" where
  "datasource_not_found did = AppError ''DATASOURCE_NOT_FOUND'' (''DataSource '' @ did @ '' not found'')"

subsection \<open>Publication\<close>

definition check_guard :: "('a \<Rightarrow> py_error option) \<Rightarrow> 'a \<Rightarrow> unit result" where
  "check_guard guard db = (case guard db of None \<Rightarrow> Inr () | Some x \<Rightarrow> Inl x)"

definition replayed_response ::
  "(string \<Rightarrow> string) \<Rightarrow> txn \<Rightarrow> string \<Rightarrow> datasource \<Rightarrow> datasource \<Rightarrow> ('a compute_db_scheme \<Rightarrow> py_error option) \<Rightarrow> 'a compute_db_scheme \<Rightarrow>
   (datasource \<times> 'a compute_db_scheme) result" where
  "replayed_response uuid5 tx ns new existing guard db =
     (if ds_name existing \<noteq> ds_name new \<or> ds_source_type existing \<noteq> ds_source_type new \<or> ds_owner_id existing \<noteq> ds_owner_id new
      then Inl (ValueError (''Datasource publication ID '' @ ds_id existing @ '' is already in use''))
      else and_then (check_guard guard db) (\<lambda>_.
           and_then (settle_publication uuid5 tx ns (ds_config existing) db) (\<lambda>db1. Inr (existing, db1))))"

text \<open>The row a creation inserts: the given columns, the defaults of the model for the others.\<close>

definition imported :: "datasource \<Rightarrow> datasource" where
  "imported d = d\<lparr>ds_revision := 1, ds_created_by_analysis_id := None, ds_created_by := ''import'', ds_is_hidden := False,
     ds_is_pending_delete := False, ds_delete_requested_at := None\<rparr>"

text \<open>\<open>env\<close> is what other sessions commit between the existence check and the insert; \<open>tx2\<close> is the
  transaction after the rollback of an insert that lost the race.\<close>

definition create_datasource ::
  "(string \<Rightarrow> string) \<Rightarrow> txn \<Rightarrow> txn \<Rightarrow> string \<Rightarrow> datasource \<Rightarrow> ('a compute_db_scheme \<Rightarrow> py_error option) \<Rightarrow>
   ('a compute_db_scheme \<Rightarrow> 'a compute_db_scheme) \<Rightarrow> 'a compute_db_scheme \<Rightarrow> (datasource \<times> 'a compute_db_scheme) result" where
  "create_datasource uuid5 tx tx2 ns new guard env db =
     and_then (check_guard guard db) (\<lambda>_.
       case get_row ds_id (ds_id new) (datasources db) of
         Some existing \<Rightarrow> replayed_response uuid5 tx ns new existing (\<lambda>_. None) db
       | None \<Rightarrow>
           let db1 = env db
           in (case get_row ds_id (ds_id new) (datasources db1) of
                 Some existing \<Rightarrow> replayed_response uuid5 tx2 ns new existing guard db1
               | None \<Rightarrow>
                   and_then (settle_publication uuid5 tx ns (ds_config new) (db1\<lparr>datasources := datasources db1 @ [imported new]\<rparr>))
                     (\<lambda>db2. Inr (imported new, db2))))"

definition publication_where :: "string \<Rightarrow> int \<Rightarrow> datasource \<Rightarrow> bool" where
  "publication_where did rv d \<longleftrightarrow> ds_id d = did \<and> ds_revision d = rv \<and> \<not> ds_is_pending_delete d"

definition publish_ingest ::
  "(string \<Rightarrow> string) \<Rightarrow> txn \<Rightarrow> string \<Rightarrow> string \<Rightarrow> json \<Rightarrow> int \<Rightarrow> json option \<Rightarrow> ('a compute_db_scheme \<Rightarrow> py_error option) \<Rightarrow>
   ('a compute_db_scheme \<Rightarrow> 'a compute_db_scheme) \<Rightarrow> 'a compute_db_scheme \<Rightarrow> (datasource option \<times> 'a compute_db_scheme) result" where
  "publish_ingest uuid5 tx ns did config rv schema guard env db =
     (case get_row ds_id did (datasources db) of
        None \<Rightarrow> Inl (datasource_not_found did)
      | Some _ \<Rightarrow>
          and_then (check_guard guard db) (\<lambda>_.
            let db1 = env db
            in if rowcount (publication_where did rv) (datasources db1) \<noteq> 1
               then Inl (RuntimeError (''Datasource '' @ did @ '' publication fence was replaced''))
               else and_then (settle_publication uuid5 tx ns config
                        (db1\<lparr>datasources := update_where (publication_where did rv)
                           (\<lambda>d. d\<lparr>ds_config := config, ds_revision := rv + 1, ds_schema_cache := schema\<rparr>) (datasources db1)\<rparr>))
                      (\<lambda>db2. Inr (get_row ds_id did (datasources db2), db2))))"

definition publish_schema_cache ::
  "string \<Rightarrow> int \<Rightarrow> json \<Rightarrow> ('a compute_db_scheme \<Rightarrow> py_error option) \<Rightarrow> ('a compute_db_scheme \<Rightarrow> 'a compute_db_scheme) \<Rightarrow>
   'a compute_db_scheme \<Rightarrow> 'a compute_db_scheme result" where
  "publish_schema_cache did rv schema guard env db =
     and_then (check_guard guard db) (\<lambda>_.
       let db1 = env db
       in if rowcount (publication_where did rv) (datasources db1) \<noteq> 1
          then (case get_row ds_id did (datasources db1) of
                  None \<Rightarrow> Inl (datasource_not_found did)
                | Some d \<Rightarrow> if ds_is_pending_delete d then Inl (datasource_not_found did)
                            else Inl (RuntimeError (''Datasource '' @ did @ '' revision changed before schema publication'')))
          else Inr (db1\<lparr>datasources := update_where (publication_where did rv) (\<lambda>d. d\<lparr>ds_schema_cache := Some schema\<rparr>)
                          (datasources db1)\<rparr>))"

record publication_claim =
  pc_job_id :: string
  pc_build_id :: string
  pc_worker_id :: string
  pc_claim_token :: string
  pc_lease_generation :: int
  pc_build_result :: "payload option"

text \<open>The columns an output publication writes: \<open>new\<close> carries them, \<open>hidden\<close> is \<open>is_hidden\<close>.\<close>

definition republish :: "datasource \<Rightarrow> bool \<Rightarrow> bool option \<Rightarrow> datasource \<Rightarrow> datasource" where
  "republish new keep_schema_cache hidden d =
     d\<lparr>ds_revision := ds_revision d + 1, ds_name := ds_name new, ds_source_type := ds_source_type new, ds_config := ds_config new,
       ds_schema_cache := (if keep_schema_cache then ds_schema_cache d else ds_schema_cache new),
       ds_created_by_analysis_id := ds_created_by_analysis_id new, ds_created_by := ''analysis'',
       ds_is_pending_delete := False, ds_delete_requested_at := None,
       ds_is_hidden := (case hidden of None \<Rightarrow> ds_is_hidden d | Some h \<Rightarrow> h)\<rparr>"

fun enqueue_deliveries ::
  "settings \<Rightarrow> txn \<Rightarrow> nat \<Rightarrow> string \<Rightarrow> payload list \<Rightarrow> 'a outbox_db_scheme \<Rightarrow> 'a outbox_db_scheme result" where
  "enqueue_deliveries cfg tx i ns [] db = Inr db"
| "enqueue_deliveries cfg tx i ns (p # ps) db =
     and_then (enqueue_notification_delivery cfg tx i ns p db) (enqueue_deliveries cfg tx (Suc i) ns ps)"

definition stage_output_datasource ::
  "settings \<Rightarrow> txn \<Rightarrow> string \<Rightarrow> timestamp \<Rightarrow> datasource \<Rightarrow> bool \<Rightarrow> bool option \<Rightarrow> publication_claim option \<Rightarrow> payload list \<Rightarrow> 'a compute_db_scheme \<Rightarrow>
   'a compute_db_scheme result" where
  "stage_output_datasource cfg tx ns now new keep hidden claim deliveries db =
     and_then (case claim of
                 None \<Rightarrow> Inr ()
               | Some c \<Rightarrow> if active_job_claim tx (pc_job_id c) (pc_build_id c) (pc_worker_id c) (pc_claim_token c) (pc_lease_generation c) db = None
                           then Inl (RuntimeError ''Build job lease is no longer active'') else Inr ()) (\<lambda>_.
       let db1 = (case get_row ds_id (ds_id new) (datasources db) of
                    None \<Rightarrow> db\<lparr>datasources := datasources db @
                       [new\<lparr>ds_created_by := ''analysis'', ds_revision := 1, ds_is_pending_delete := False, ds_delete_requested_at := None,
                             ds_description := None, ds_owner_id := None,
                             ds_is_hidden := (case hidden of None \<Rightarrow> True | Some h \<Rightarrow> h)\<rparr>]\<rparr>
                  | Some _ \<Rightarrow> db\<lparr>datasources := update_where (\<lambda>d. ds_id d = ds_id new) (republish new keep hidden) (datasources db)\<rparr>)
       in and_then (case claim of
                      None \<Rightarrow> Inr db1
                    | Some c \<Rightarrow> stage_build_result_json (pc_build_id c) (pc_build_result c) now db1)
            (enqueue_deliveries cfg tx 0 ns deliveries))"

definition get_active_datasource :: "string \<Rightarrow> 'a compute_db_scheme \<Rightarrow> datasource result" where
  "get_active_datasource did db =
     (case get_row ds_id did (datasources db) of
        None \<Rightarrow> Inl (datasource_not_found did)
      | Some d \<Rightarrow> if ds_is_pending_delete d then Inl (datasource_not_found did) else Inr d)"

subsection \<open>Updates\<close>

text \<open>The fields a client sends; a description may be sent as null. \<open>read_is_excel\<close> compares what \<open>DataSourceFileType.read\<close>
  makes of the field \<open>file_type\<close> with the value for Excel; the numbers and names of that enumeration are generated.\<close>

record datasource_update =
  du_name :: "string option"
  du_description :: "string option option"
  du_config :: "payload option"
  du_is_hidden :: "bool option"

definition datasource_validation_error :: "string \<Rightarrow> py_error" where
  "datasource_validation_error msg = AppError ''DATASOURCE_VALIDATION_ERROR'' msg"

definition PROTECTED_SNAPSHOT_KEYS :: "string list" where
  "PROTECTED_SNAPSHOT_KEYS = [''snapshot_id'', ''snapshot_timestamp_ms'', ''current_snapshot_id'', ''current_snapshot_timestamp_ms'',
     ''time_travel_snapshot_id'', ''time_travel_snapshot_timestamp_ms'', ''time_travel_ui'']"

definition EXCEL_BOUND_KEYS :: "string list" where
  "EXCEL_BOUND_KEYS = [''sheet_name'', ''start_row'', ''start_col'', ''end_col'', ''end_row'', ''table_name'', ''named_range'', ''cell_range'']"

definition immutable_keys :: "string \<Rightarrow> string list" where
  "immutable_keys source_type =
     (if source_type = ''file'' then [''file_path''] else if source_type = ''database'' then [''connection_string'']
      else if source_type = ''iceberg'' then [''metadata_path''] else [])"

definition has_key :: "payload \<Rightarrow> string \<Rightarrow> bool" where
  "has_key p k \<longleftrightarrow> map_of p k \<noteq> None"

definition get_or_null :: "string \<Rightarrow> payload \<Rightarrow> json" where
  "get_or_null k p = (case map_of p k of None \<Rightarrow> JNull | Some v \<Rightarrow> v)"

text \<open>The configuration after an update, with whether parsing options were sent.\<close>

definition update_config ::
  "(json \<Rightarrow> bool result) \<Rightarrow> string \<Rightarrow> (string \<times> int \<times> int \<times> int \<times> int) option \<Rightarrow> payload \<Rightarrow> payload \<Rightarrow> (payload \<times> bool) result" where
  "update_config read_is_excel source_type selection c u =
     (if has_key u ''column_schema'' then Inl (datasource_validation_error ''Datasource schemas are read-only and cannot be modified'')
      else if list_ex (has_key u) PROTECTED_SNAPSHOT_KEYS
      then Inl (datasource_validation_error ''Snapshot metadata fields are system-managed and cannot be modified'')
      else if list_ex (\<lambda>k. has_key u k \<and> get_or_null k u \<noteq> get_or_null k c) (immutable_keys source_type)
      then Inl (datasource_validation_error ''Datasource location is immutable. Create a new datasource to change location.'')
      else let parsing = list_ex (has_key u) (EXCEL_BOUND_KEYS @ [''csv_options'', ''has_header'', ''skip_rows'']);
               next = merge_obj c u;
               bounds = list_ex (has_key u) EXCEL_BOUND_KEYS
           in and_then (read_is_excel (get_or_null ''file_type'' next)) (\<lambda>excel.
                if \<not> (source_type = ''file'' \<and> excel \<and> bounds) then Inr (next, parsing)
                else if get_or_null ''file_path'' next \<in> {JNull, JBool False, JInt 0, JStr [], JList [], JObj []}
                then Inl (datasource_validation_error ''Excel datasource requires file_path'')
                else case selection of
                       None \<Rightarrow> Inl (datasource_validation_error ''Excel selection must be resolved by the datasource compute worker'')
                     | Some (sheet, start_row, start_col, end_col, end_row) \<Rightarrow>
                         Inr (merge_obj next [(''sheet_name'', JStr sheet), (''start_row'', JInt start_row), (''start_col'', JInt start_col),
                                (''end_col'', JInt end_col), (''end_row'', JInt end_row)], parsing)))"

definition apply_update ::
  "(json \<Rightarrow> bool result) \<Rightarrow> datasource_update \<Rightarrow> (string \<times> int \<times> int \<times> int \<times> int) option \<Rightarrow> datasource \<Rightarrow> datasource result" where
  "apply_update read_is_excel upd selection d =
     (let d1 = d\<lparr>ds_name := (case du_name upd of None \<Rightarrow> ds_name d | Some n \<Rightarrow> n),
                 ds_description := (case du_description upd of None \<Rightarrow> ds_description d | Some x \<Rightarrow> x),
                 ds_is_hidden := (case du_is_hidden upd of None \<Rightarrow> ds_is_hidden d | Some h \<Rightarrow> h)\<rparr>
      in case du_config upd of
           None \<Rightarrow> Inr d1
         | Some u \<Rightarrow>
             (case ds_config d of
                JObj c \<Rightarrow>
                  and_then (update_config read_is_excel (ds_source_type d) selection c u) (\<lambda>(next, parsing).
                    Inr (if same_dict next c then d1
                         else d1\<lparr>ds_config := JObj next, ds_schema_cache := if parsing then None else ds_schema_cache d\<rparr>))
              | _ \<Rightarrow> Inl (RuntimeError ''TypeError'')))"

definition update_datasource ::
  "(string \<Rightarrow> string) \<Rightarrow> (json \<Rightarrow> bool result) \<Rightarrow> txn \<Rightarrow> string \<Rightarrow> string \<Rightarrow> datasource_update \<Rightarrow> (string \<times> int \<times> int \<times> int \<times> int) option \<Rightarrow>
   int option \<Rightarrow> 'a compute_db_scheme \<Rightarrow> (datasource \<times> 'a compute_db_scheme) result" where
  "update_datasource uuid5 read_is_excel tx ns did upd selection expected db =
     and_then (get_active_datasource did db) (\<lambda>d.
       if expected \<noteq> None \<and> expected \<noteq> Some (ds_revision d)
       then Inl (datasource_validation_error ''Datasource changed while Excel selection was being resolved'')
       else and_then (apply_update read_is_excel upd selection d) (\<lambda>d1.
              if d1 = d then Inr (d, db)
              else let d2 = d1\<lparr>ds_revision := ds_revision d + 1\<rparr>
                   in and_then (settle_publication uuid5 tx ns (ds_config d2)
                          (db\<lparr>datasources := update_where (\<lambda>x. ds_id x = did) (\<lambda>_. d2) (datasources db)\<rparr>))
                        (\<lambda>db1. Inr (d2, db1))))"

subsection \<open>Deletion\<close>

definition stage_delete ::
  "settings \<Rightarrow> txn \<Rightarrow> string \<Rightarrow> timestamp \<Rightarrow> string \<Rightarrow> 'a compute_db_scheme \<Rightarrow> 'a compute_db_scheme result" where
  "stage_delete cfg tx ns now did db =
     (case get_row ds_id did (datasources db) of
        None \<Rightarrow> Inl (datasource_not_found did)
      | Some d \<Rightarrow>
          if ds_is_pending_delete d
          then Inr (snd (append_wake cfg (tx_wakes tx 0) (tx_stmt tx) ns K_DATASOURCE_DELETE db))
          else and_then (enqueue_datasource_delete_notification cfg tx 0 ns did
                   (db\<lparr>datasources := update_where (\<lambda>x. ds_id x = did)
                      (\<lambda>x. x\<lparr>ds_is_pending_delete := True, ds_is_hidden := True, ds_delete_requested_at := Some now\<rparr>) (datasources db)\<rparr>))
                 (\<lambda>db1. Inr (snd (append_wake cfg (tx_wakes tx 1) (tx_stmt tx) ns K_DATASOURCE_DELETE db1))))"

text \<open>NULL sorts last in ascending order.\<close>

definition list_pending_deletes :: "'a compute_db_scheme \<Rightarrow> datasource list" where
  "list_pending_deletes db =
     sort_key (\<lambda>d. (ds_delete_requested_at d = None, case ds_delete_requested_at d of None \<Rightarrow> 0 | Some t \<Rightarrow> t, ds_created_at d, ds_id d))
       (filter ds_is_pending_delete (datasources db))"

definition delete_work_pending :: "timestamp \<Rightarrow> 'a compute_db_scheme \<Rightarrow> bool" where
  "delete_work_pending t db \<longleftrightarrow> list_ex ds_is_pending_delete (datasources db)"

definition finalize_delete ::
  "(string \<Rightarrow> string) \<Rightarrow> string \<Rightarrow> settings \<Rightarrow> txn \<Rightarrow> string \<Rightarrow> string \<Rightarrow> 'a compute_db_scheme \<Rightarrow> (bool \<times> 'a compute_db_scheme) result" where
  "finalize_delete uuid5 dburl cfg tx ns did db =
     (case get_row ds_id did (datasources db) of
        None \<Rightarrow> Inr (False, db)
      | Some d \<Rightarrow>
          if \<not> ds_is_pending_delete d then Inr (False, db)
          else if has_active_request_for_datasource did db \<or> has_active_build_for_datasource ns did db then Inr (False, db)
          else and_then (enqueue_datasource_cleanup uuid5 dburl cfg tx ns d db) (\<lambda>db1.
                 let db2 = db1\<lparr>datasources := delete_where (\<lambda>x. ds_id x = did) (datasources db1)\<rparr>
                 in Inr (True, refresh_quiet cfg ns K_DATASOURCE_DELETE delete_work_pending (\<lambda>_ _. None) (tx_stmt tx) db2)))"

end
