(* ===== verification/Storage_Facts.thy ===== *)
theory Storage_Facts
  imports Compute_Facts Datasources
begin

text \<open>
  What storage cleanup guarantees. Every transaction that touches an intent is a move of the table of
  events: an intent that was authorized for deletion is never tracked or published again, and an
  intent that is tracked or authorized always stays claimable, so no object is forgotten. On top of
  the moves: publications of an authorized path are refused, an authorization is only given to the
  live claim of an object nobody holds, and a finalized deletion leaves an intent for every object.
\<close>

subsection \<open>Intents and their moves\<close>

definition barred :: "outbox_event \<Rightarrow> bool" where
  "barred e \<longleftrightarrow> ev_kind e = STORAGE_CLEANUP_KIND \<and>
     (phase_of (ev_payload_json e) = Inr SP_AUTHORIZED \<or> phase_of (ev_payload_json e) = Inr SP_DELETED)"

definition unfinished :: "outbox_event \<Rightarrow> bool" where
  "unfinished e \<longleftrightarrow> ev_status e = OB_PENDING \<or> ev_status e = OB_FAILED \<or>
     ev_status e = OB_DISPATCHING \<and> ev_lease_expires_at e \<noteq> None"

definition intent_ok :: "outbox_event \<Rightarrow> bool" where
  "intent_ok e \<longleftrightarrow> (ev_kind e = STORAGE_CLEANUP_KIND \<longrightarrow> distinct (map fst (ev_payload_json e)) \<and>
     (case phase_of (ev_payload_json e) of
        Inl _ \<Rightarrow> False
      | Inr ph \<Rightarrow> if ph = SP_TRACKED \<or> ph = SP_AUTHORIZED then unfinished e else ev_status e = OB_DISPATCHED))"

definition intent_move :: "outbox_event \<Rightarrow> outbox_event \<Rightarrow> bool" where
  "intent_move a b \<longleftrightarrow> ev_id b = ev_id a \<and> ev_kind b = ev_kind a \<and> (intent_ok a \<longrightarrow> intent_ok b) \<and> (barred a \<longrightarrow> barred b)"

definition intents_inv :: "outbox_event list \<Rightarrow> bool" where
  "intents_inv es \<longleftrightarrow> unique_by ev_id es \<and> (\<forall>e \<in> set es. intent_ok e)"

definition intents_move :: "outbox_event list \<Rightarrow> outbox_event list \<Rightarrow> bool" where
  "intents_move es fs \<longleftrightarrow> (intents_inv es \<longrightarrow> intents_inv fs \<and> rows_evolve intent_move es fs)"

lemma intent_move_refl [simp]: "intent_move e e"
  by (simp add: intent_move_def)

lemma intents_move_refl [simp]: "intents_move es es"
  by (simp add: intents_move_def)

lemma intent_move_trans: "intent_move a b \<Longrightarrow> intent_move b c \<Longrightarrow> intent_move a c"
  by (simp add: intent_move_def)

lemma intents_move_trans [trans]: "intents_move es fs \<Longrightarrow> intents_move fs gs \<Longrightarrow> intents_move es gs"
  unfolding intents_move_def using rows_evolve_trans [of intent_move es fs gs] intent_move_trans by blast

lemma intents_move_kept:
  assumes "intents_move es fs" and "intents_inv es" and "get_row ev_id i es = Some e"
  shows "\<exists>f. get_row ev_id i fs = Some f \<and> intent_move e f"
  using assms rows_evolve_kept [of intent_move es fs ev_id i e] by (auto simp: intents_move_def intent_move_def)

lemma intents_move_update:
  assumes "\<And>e. e \<in> set es \<Longrightarrow> P e \<Longrightarrow> intent_ok e \<Longrightarrow> intent_move e (f e)" and "\<And>e. ev_id (f e) = ev_id e"
  shows "intents_move es (update_where P f es)"
  unfolding intents_move_def
proof
  assume inv: "intents_inv es"
  then have m: "intent_move e (f e)" if "e \<in> set es" "P e" for e using assms(1) that by (auto simp: intents_inv_def)
  then have "intent_ok x" if "x \<in> set (update_where P f es)" for x
    using inv that by (auto simp: set_update_where intents_inv_def intent_move_def)
  then show "intents_inv (update_where P f es) \<and> rows_evolve intent_move es (update_where P f es)"
    using inv m assms(2) by (auto simp: intents_inv_def unique_update intro: rows_evolve_update)
qed

lemma intents_move_append:
  assumes "get_row ev_id (ev_id e) es = None" and "intent_ok e"
  shows "intents_move es (es @ [e])"
  using assms by (auto simp: intents_move_def intents_inv_def unique_append1 intro: rows_evolve_append)

lemma intents_move_put:
  assumes "get_row ev_id i (events db) = Some a" and "intent_ok a \<Longrightarrow> intent_move a e" and "ev_id e = ev_id a"
  shows "intents_move (events db) (events (put_event e db))"
proof -
  have "intents_move (events db) (update_where (\<lambda>r. r = a) (\<lambda>_. e) (events db))" if "intents_inv (events db)"
    unfolding intents_move_def
  proof
    have a: "a \<in> set (events db)" using get_row_SomeD [OF assms(1)] by simp
    then have m: "intent_move a e" using that assms(2) by (simp add: intents_inv_def)
    then have "intent_ok e" using that a by (simp add: intents_inv_def intent_move_def)
    moreover have "map ev_id (update_where (\<lambda>r. r = a) (\<lambda>_. e) (events db)) = map ev_id (events db)"
      using assms(3) by (simp add: update_where_def)
    ultimately show "intents_inv (update_where (\<lambda>r. r = a) (\<lambda>_. e) (events db)) \<and>
        rows_evolve intent_move (events db) (update_where (\<lambda>r. r = a) (\<lambda>_. e) (events db))"
      using that m by (auto simp: intents_inv_def unique_by_def set_update_where intro: rows_evolve_update)
  qed
  moreover have "update_where (\<lambda>r. ev_id r = ev_id e) (\<lambda>_. e) (events db) = update_where (\<lambda>r. r = a) (\<lambda>_. e) (events db)"
    if "intents_inv (events db)"
    unfolding update_where_def
  proof (rule map_cong [OF refl])
    fix r assume r: "r \<in> set (events db)"
    have "r = a" if "ev_id r = ev_id a"
      using unique_by_eq [of ev_id "events db" r a] \<open>intents_inv (events db)\<close> get_row_SomeD [OF assms(1)] r that by (simp add: intents_inv_def)
    then show "(if ev_id r = ev_id e then e else r) = (if r = a then e else r)" using assms(3) by auto
  qed
  ultimately show ?thesis by (simp add: put_event_def intents_move_def)
qed

subsection \<open>Phases\<close>

lemma phase_with [simp]: "phase_of (with_phase ph p) = Inr ph"
  by (cases ph) (simp_all add: phase_of_def with_phase_def str_field_def update_conv)

lemma phase_transfer [simp]: "phase_of (transfer_to k i r p) = phase_of p"
  by (simp add: phase_of_def transfer_to_def merge_obj_def str_field_def update_conv)

lemma phase_facts: "intent_ok e \<Longrightarrow> ev_kind e = STORAGE_CLEANUP_KIND \<Longrightarrow> phase_of (ev_payload_json e) = Inr ph \<Longrightarrow>
    (if ph = SP_TRACKED \<or> ph = SP_AUTHORIZED then unfinished e else ev_status e = OB_DISPATCHED)"
  by (simp add: intent_ok_def)

lemma distinct_merge [simp]: "distinct (map fst (merge_obj p q)) \<longleftrightarrow> distinct (map fst p)"
  unfolding merge_obj_def by (induction q arbitrary: p) (simp_all add: split_beta update_keys)

lemma distinct_keys [simp]:
  "distinct (map fst (AList.update k v p)) \<longleftrightarrow> distinct (map fst p)"
  "distinct (map fst (with_phase ph p)) \<longleftrightarrow> distinct (map fst p)"
  "distinct (map fst (transfer_to kd i r p)) \<longleftrightarrow> distinct (map fst p)"
  by (simp_all add: with_phase_def transfer_to_def update_keys)

lemma same_dict_phase:
  assumes "same_dict p q" and "distinct (map fst p)" and "phase_of q = Inr ph"
  shows "phase_of p = Inr ph"
proof -
  obtain x where x: "map_of q ''phase'' = Some x" using assms(3) by (auto simp: phase_of_def str_field_def split: option.splits)
  then have "(''phase'', x) \<in> set p" using assms(1) map_of_SomeD by (fastforce simp: same_dict_def)
  then have "map_of p ''phase'' = Some x" using assms(2) by simp
  then show ?thesis using assms(3) x by (simp add: phase_of_def str_field_def)
qed

lemma new_intent_ok: "ev_id (new_intent i now at url p) = i" "distinct (map fst p) \<Longrightarrow> intent_ok (new_intent i now at url p)"
  by (simp_all add: new_intent_def new_event_def intent_ok_def unfinished_def)

text \<open>Tracking an intent again, settling it and authorizing it, as moves.\<close>

lemma track_move:
  assumes "phase_of (ev_payload_json a) = Inr SP_TRACKED \<or> phase_of (ev_payload_json a) = Inr SP_PUBLISHED"
    and "phase_of p = Inr SP_TRACKED" and "distinct (map fst (ev_payload_json a)) \<Longrightarrow> distinct (map fst p)"
    and "ev_kind e = ev_kind a" "ev_id e = ev_id a" "ev_payload_json e = p"
  shows "intent_move a (rearm_event now at e)"
  using assms by (auto simp: intent_move_def rearm_event_def intent_ok_def unfinished_def barred_def)

lemma settle_move:
  assumes "phase_of (ev_payload_json a) = Inr SP_TRACKED \<or> phase_of (ev_payload_json a) = Inr SP_PUBLISHED"
  shows "intent_move a (settle_values now a)"
  using assms by (auto simp: intent_move_def settle_values_def intent_ok_def barred_def)

lemma intent_move_frame:
  assumes "ev_id b = ev_id a" "ev_kind b = ev_kind a" "ev_payload_json b = ev_payload_json a" "ev_status b = ev_status a"
    and "unfinished a \<Longrightarrow> unfinished b"
  shows "intent_move a b"
  using assms by (auto simp: intent_move_def intent_ok_def barred_def split: sum.split)

subsection \<open>Operations\<close>

lemma events_storage_frames [simp]:
  "events (storage_wake cfg tx i ns db) = events db"
  "events (rearm cfg tx i ns e at db) = events (put_event (rearm_event (tx_now tx) at e) db)"
  "events (refresh_storage cfg tx ns db) = events db"
  by (simp_all add: storage_wake_def rearm_def refresh_storage_def)

lemma rearm_moves:
  assumes "get_row ev_id i (events db) = Some a"
    and "phase_of (ev_payload_json a) = Inr SP_TRACKED \<or> phase_of (ev_payload_json a) = Inr SP_PUBLISHED"
    and "phase_of (ev_payload_json e) = Inr SP_TRACKED"
    and "distinct (map fst (ev_payload_json a)) \<Longrightarrow> distinct (map fst (ev_payload_json e))"
    and "ev_kind e = ev_kind a" "ev_id e = ev_id a"
  shows "intents_move (events db) (events (rearm cfg tx n ns e at db))"
proof -
  have "intent_move a (rearm_event (tx_now tx) at e)" by (rule track_move [OF assms(2,3,4,5,6) refl])
  then show ?thesis using assms(6) by (auto intro!: intents_move_put [OF assms(1)] simp: rearm_event_def)
qed

lemma enqueue_intent_moves:
  assumes "enqueue_intent uuid5 cfg tx i ns url p at db = Inr (e, db')" and "distinct (map fst p)"
  shows "intents_move (events db) (events db')"
proof (cases "get_row ev_id (storage_event_id uuid5 ns url) (events db)")
  case None
  then show ?thesis using assms new_intent_ok
    by (auto simp: enqueue_intent_def Let_def elim!: and_then_okE split: if_splits intro!: intents_move_append)
next
  case (Some a)
  then show ?thesis using assms
    by (auto simp: enqueue_intent_def Let_def elim!: and_then_okE split: if_splits intro!: intents_move_put [OF Some] intent_move_frame
        simp: unfinished_def)
qed

lemma owner_payload_keys [simp]: "distinct (map fst (owner_payload r k i))"
  by (simp add: owner_payload_def)

lemmas enqueue_owned_moves = enqueue_intent_moves [OF _ owner_payload_keys]

lemma lock_tracked_upload_facts:
  assumes "lock_tracked_upload uuid5 ns uid path c db = Inr e"
  shows "get_row ev_id (storage_event_id uuid5 ns path) (events db) = Some e \<and> phase_of (ev_payload_json e) = Inr SP_TRACKED"
  using assms by (auto simp: lock_tracked_upload_def elim!: and_then_okE split: option.splits if_splits)

lemma upload_moves:
  "renew_upload_source uuid5 cfg tx ns uid path db = Inr db' \<Longrightarrow> intents_move (events db) (events db')"
  "release_upload_source_for_cleanup uuid5 cfg tx ns uid path db = Inr db' \<Longrightarrow> intents_move (events db) (events db')"
  "register_upload_source uuid5 cfg tx ns uid path db = Inr db' \<Longrightarrow> intents_move (events db) (events db')"
  by (auto simp: renew_upload_source_def release_upload_source_for_cleanup_def register_upload_source_def
      simp del: events_storage_frames elim!: and_then_okE dest!: lock_tracked_upload_facts
      intro: rearm_moves enqueue_owned_moves split: if_splits)

lemma register_preflight_moves:
  assumes "register_preflight_source uuid5 cfg tx i ns pid rid path at db = Inr db'"
  shows "intents_move (events db) (events db')"
proof (cases "get_row ev_id (storage_event_id uuid5 ns path) (events db)")
  case (Some a)
  then show ?thesis using assms
    by (auto simp: register_preflight_source_def simp del: events_storage_frames elim!: and_then_okE
        intro: enqueue_owned_moves intro!: rearm_moves [OF Some] split: if_splits)
qed (use assms in \<open>auto simp: register_preflight_source_def elim!: and_then_okE intro: enqueue_owned_moves\<close>)

lemma lock_source_intent_facts:
  assumes "lock_source_intent uuid5 ns path env db = Inr (Some (e, ow))"
  shows "get_row ev_id (ev_id e) (events (env db)) = Some e \<and>
    (phase_of (ev_payload_json e) = Inr SP_TRACKED \<or> phase_of (ev_payload_json e) = Inr SP_PUBLISHED)"
proof -
  from assms obtain i where i: "get_row ev_id i (events (env db)) = Some e"
    and ph: "phase_of (ev_payload_json e) = Inr SP_TRACKED \<or> phase_of (ev_payload_json e) = Inr SP_PUBLISHED"
    by (auto simp: lock_source_intent_def Let_def elim!: and_then_okE split: option.splits if_splits)
  then show ?thesis using get_row_SomeD [OF i] by simp
qed

lemma transfer_moves:
  fixes db :: "'a compute_db_scheme"
  assumes "transfer_preflight_source uuid5 cfg tx i ns path rid env db = Inr db'"
  shows "intents_move (events (env db)) (events db')"
proof -
  from assms obtain locked where l: "lock_source_intent uuid5 ns path env db = Inr locked"
    by (auto simp: transfer_preflight_source_def elim!: and_then_okE)
  show ?thesis
  proof (cases locked)
    case None
    then show ?thesis using assms l
      by (auto simp: transfer_preflight_source_def Let_def elim!: and_then_okE split: if_splits intro: enqueue_owned_moves)
  next
    case (Some eo)
    obtain e ow where eo: "eo = (e, ow)" by (cases eo)
    note f = lock_source_intent_facts [OF l [unfolded Some eo]]
    have h: "intents_move (events (env db)) (events (hand_over cfg tx i ns rid e d))"
      if "events d = events (env db)" "phase_of (ev_payload_json e) = Inr SP_TRACKED" for d :: "'a compute_db_scheme"
      unfolding hand_over_def that(1) [symmetric] by (rule rearm_moves) (use f that in auto)
    show ?thesis using assms l Some f h
      by (auto simp: transfer_preflight_source_def Let_def eo elim!: and_then_okE split: if_splits option.splits owner_row.splits)
  qed
qed

lemma settle_referenced_moves:
  assumes "settle_referenced tx e db = Inr db'" and "get_row ev_id i (events db) = Some e"
  shows "intents_move (events db) (events db')"
  using assms(1) settle_move
  by (auto simp: settle_referenced_def elim!: and_then_okE split: if_splits intro!: intents_move_put [OF assms(2)] simp: settle_values_def)

lemma settle_all_moves:
  "settle_all tx is db = Inr db' \<Longrightarrow> intents_move (events db) (events db')"
proof (induction "is" arbitrary: db)
  case (Cons i "is")
  then show ?case
    by (auto elim!: and_then_okE split: option.splits if_splits dest: settle_referenced_moves intro: intents_move_trans)
qed simp

lemma settle_publication_moves:
  assumes "settle_publication uuid5 tx ns config db = Inr db'"
  shows "intents_move (events db) (events db')"
proof -
  from assms obtain db1 js where "settle_all tx (map (storage_event_id uuid5 ns) (published_paths config)) db = Inr db1"
      "db' = db1 \<or> settle_all tx js db1 = Inr db'"
    by (auto simp: settle_publication_def elim!: and_then_okE split: option.splits if_splits) blast
  then show ?thesis using settle_all_moves intents_move_trans by blast
qed

lemma enqueue_target_moves:
  assumes "enqueue_datasource_target uuid5 cfg tx i ns url p db = Inr db'" and "distinct (map fst p)"
  shows "intents_move (events db) (events db')"
proof (cases "get_row ev_id (storage_event_id uuid5 ns url) (events db)")
  case (Some a)
  have r: "intents_move (events db) (events (rearm cfg tx i ns
      (a\<lparr>ev_payload_json := with_phase SP_TRACKED (AList.update ''url'' (JStr url) p), ev_dispatched_at := None\<rparr>) None db))"
    if "phase_of (ev_payload_json a) = Inr ph" "\<not> (ph = SP_AUTHORIZED \<or> ph = SP_DELETED)" for ph
    by (rule rearm_moves [OF Some]) (use that assms(2) in \<open>cases ph; simp\<close>)+
  show ?thesis using assms(1) r
    by (auto simp: enqueue_datasource_target_def Some simp del: events_storage_frames elim!: and_then_okE split: if_splits)
qed (use assms in \<open>auto simp: enqueue_datasource_target_def elim!: and_then_okE intro: enqueue_intent_moves\<close>)

lemma rearm_published_moves:
  "rearm_published cfg tx i ns tbl fp ss db = Inr db' \<Longrightarrow> \<forall>s \<in> set ss. distinct (map fst (ev_payload_json s)) \<Longrightarrow>
   intents_move (events db) (events db')"
proof (induction ss arbitrary: i db)
  case (Cons s ss)
  show ?case
  proof (cases "rearm_published cfg tx i ns tbl fp ss db = Inr db'")
    case False
    with Cons.prems(1) obtain e where e: "get_row ev_id (ev_id s) (events db) = Some e" "phase_of (ev_payload_json s) = Inr SP_PUBLISHED"
        "same_dict (ev_payload_json e) (ev_payload_json s)" "ev_status e = OB_DISPATCHED"
      and r: "rearm_published cfg tx (Suc i) ns tbl fp ss
        (rearm cfg tx i ns (e\<lparr>ev_payload_json := with_phase SP_TRACKED (ev_payload_json s), ev_dispatched_at := None\<rparr>) None db) = Inr db'"
      by (auto simp: Let_def elim!: and_then_okE split: if_splits option.splits)
    have "intents_move (events db) (events (rearm cfg tx i ns
        (e\<lparr>ev_payload_json := with_phase SP_TRACKED (ev_payload_json s), ev_dispatched_at := None\<rparr>) None db))"
      unfolding events_storage_frames
    proof (rule intents_move_put [OF e(1)])
      assume ok: "intent_ok e"
      show "intent_move e (rearm_event (tx_now tx) None (e\<lparr>ev_payload_json := with_phase SP_TRACKED (ev_payload_json s), ev_dispatched_at := None\<rparr>))"
        using ok e(2,3) Cons.prems(2) same_dict_phase
        by (fastforce simp: intent_move_def rearm_event_def intent_ok_def unfinished_def barred_def)
    qed (simp add: rearm_event_def)
    then show ?thesis using Cons.IH [OF r] Cons.prems(2) intents_move_trans by auto
  qed (use Cons in auto)
qed simp

lemma enqueue_targets_moves:
  "enqueue_targets uuid5 cfg tx i ns did ts db = Inr (j, db') \<Longrightarrow> intents_move (events db) (events db')"
proof (induction ts arbitrary: i db)
  case (Cons t ts)
  obtain url pre identity where t: "t = (url, pre, identity)" by (cases t)
  from Cons.prems obtain i' db1 where "db1 = db \<or> intents_move (events db) (events db1)" "enqueue_targets uuid5 cfg tx i' ns did ts db1 = Inr (j, db')"
    by (auto simp: t elim!: and_then_okE split: if_splits dest!: enqueue_target_moves) blast+
  then show ?case using Cons.IH intents_move_trans by blast
qed simp

lemma catalog_intents_subset: "set (catalog_intents nsp tbl fp db) \<subseteq> {e \<in> set (events db). ev_kind e = STORAGE_CLEANUP_KIND}"
  by (auto simp: catalog_intents_def)

lemma rearm_catalog_moves:
  assumes "rearm_published_catalog_intents cfg tx i ns nsp tbl fp db = Inr db'"
  shows "intents_move (events db) (events db')"
proof -
  have "\<forall>s \<in> set (catalog_intents nsp tbl fp db). distinct (map fst (ev_payload_json s))" if "intents_inv (events db)"
    using that catalog_intents_subset [of nsp tbl fp db] by (fastforce simp: intents_inv_def intent_ok_def)
  then show ?thesis using rearm_published_moves assms
    unfolding rearm_published_catalog_intents_def intents_move_def by blast
qed

lemma datasource_cleanup_moves:
  assumes "enqueue_datasource_cleanup uuid5 dburl cfg tx ns d db = Inr db'"
  shows "intents_move (events db) (events db')"
proof -
  from assms have "db' = db \<or> (\<exists>i ts db1. enqueue_targets uuid5 cfg tx 0 ns (ds_id d) ts db = Inr (i, db1) \<and>
      (db' = db1 \<or> (\<exists>nsp tbl fp. rearm_published_catalog_intents cfg tx i ns nsp tbl fp db1 = Inr db')))"
    by (auto simp: enqueue_datasource_cleanup_def Let_def elim!: and_then_okE split: json.splits option.splits prod.splits) blast+
  then show ?thesis using enqueue_targets_moves rearm_catalog_moves intents_move_trans intents_move_refl by metis
qed

lemma register_stage_moves:
  fixes db :: "'a compute_db_scheme"
  assumes "register_stage uuid5 dburl cfg tx ns did kind oid w tok g pre man cat bid db = Inr db'"
  shows "intents_move (events db) (events db')"
  using assms
  by (auto simp: register_stage_def Let_def elim!: and_then_okE split: if_splits prod.splits dest!: enqueue_intent_moves
      dest: intents_move_trans)

lemma claim_fold_moves:
  assumes "\<forall>r \<in> set evs. ev_id r \<in> (\<lambda>p. ev_id (snd p)) ` set ps \<longrightarrow> unfinished r"
  shows "intents_move evs (fold (\<lambda>(j, e) rs. update_where (\<lambda>r. ev_id r = ev_id e) (claim_event cfg now (toks j)) rs) ps evs)"
  using assms
proof (induction ps arbitrary: evs)
  case (Cons p ps)
  let ?evs = "update_where (\<lambda>r. ev_id r = ev_id (snd p)) (claim_event cfg now (toks (fst p))) evs"
  have m: "intent_move r (claim_event cfg now (toks (fst p)) r)" if "r \<in> set evs" "ev_id r = ev_id (snd p)" for r
    using Cons.prems that by (auto simp: intent_move_def claim_event_def intent_ok_def barred_def unfinished_def split: sum.splits)
  have "intents_move evs ?evs" by (rule intents_move_update) (use m in \<open>auto simp: claim_event_def\<close>)
  moreover have "\<forall>r \<in> set ?evs. ev_id r \<in> (\<lambda>p. ev_id (snd p)) ` set ps \<longrightarrow> unfinished r"
    using Cons.prems by (auto simp: set_update_where claim_event_def unfinished_def)
  ultimately show ?case using Cons.IH intents_move_trans by (simp add: split_beta)
qed simp

lemma claim_intents_move:
  assumes "claim_next_events cfg tx locked limit kinds db = (cs, db')"
  shows "intents_move (events db) (events db')"
proof -
  let ?ch = "claimable_events (tx_now tx) locked limit kinds db"
  have db': "events db' = events db \<or> events db' = claim_events cfg (tx_now tx) (tx_ids tx) ?ch (events db)"
    using assms by (auto simp: claim_next_events_def Let_def split: if_splits)
  have "unfinished r" if inv: "intents_inv (events db)" and r: "r \<in> set (events db)" "ev_id r = ev_id e" and e: "e \<in> set ?ch" for r e
  proof -
    have "outbox_inv db" using inv by (simp add: intents_inv_def outbox_inv_def)
    then have ec: "e \<in> set (events db)" "event_claimable (tx_now tx) kinds e" using claimable_events_facts(1) e by fast+
    then have "r = e" using unique_by_eq [of ev_id "events db" r e] inv r by (simp add: intents_inv_def)
    then show ?thesis using ec(2) by (auto simp: event_claimable_def unfinished_def sql_le_def split: option.splits)
  qed
  then have "intents_move (events db) (claim_events cfg (tx_now tx) (tx_ids tx) ?ch (events db))" if "intents_inv (events db)"
    unfolding claim_events_def using that by (intro claim_fold_moves) (auto dest: enumerate_mem)
  then show ?thesis using db' by (auto simp: intents_move_def)
qed

lemma foreign_update_moves:
  assumes "\<forall>r \<in> set es. P r \<longrightarrow> ev_kind r \<noteq> STORAGE_CLEANUP_KIND" and "\<And>r. ev_id (f r) = ev_id r" "\<And>r. ev_kind (f r) = ev_kind r"
  shows "intents_move es (update_where P f es)"
  by (rule intents_move_update) (use assms in \<open>auto simp: intent_move_def intent_ok_def barred_def\<close>)

lemma finalize_values_frame [simp]: "ev_id (finalize_values cfg now err e) = ev_id e" "ev_kind (finalize_values cfg now err e) = ev_kind e"
    "ev_payload_json (finalize_values cfg now err e) = ev_payload_json e"
  by (simp_all add: finalize_values_def Let_def)

lemma finalize_loop_foreign:
  "finalize_loop cfg now rec by_id es n db = Inr (n', db') \<Longrightarrow>
   \<forall>r \<in> set (events db). ev_id r \<in> ev_id ` set es \<longrightarrow> ev_kind r \<noteq> STORAGE_CLEANUP_KIND \<Longrightarrow> intents_move (events db) (events db')"
proof (induction cfg now rec by_id es n db rule: finalize_loop.induct)
  case (2 cfg now rec by_id e es f d db)
  show ?case
  proof (cases "\<exists>c err. map_of by_id (ev_id e) = Some (c, err) \<and> claim_matches c e")
    case False
    then have "finalize_loop cfg now rec by_id (e # es) (f, d) db = finalize_loop cfg now rec by_id es (f, d) db"
      by (auto split: option.split)
    then show ?thesis using 2 False by (cases "map_of by_id (ev_id e)") auto
  next
    case True
    then obtain c err where c: "map_of by_id (ev_id e) = Some (c, err)" "claim_matches c e" by blast
    with "2.prems"(1) obtain db1 where f: "finalize_event cfg now rec err e db = Inr db1"
      by (auto split: sum.splits)
    have "intents_move (events db) (events db1)"
      unfolding finalize_event_events [OF f] by (rule foreign_update_moves) (use "2.prems"(2) in auto)
    moreover have "\<forall>r \<in> set (events db1). ev_id r \<in> ev_id ` set es \<longrightarrow> ev_kind r \<noteq> STORAGE_CLEANUP_KIND"
      unfolding finalize_event_events [OF f] using "2.prems"(2) by (auto simp: set_update_where)
    then have "intents_move (events db1) (events db')"
      using "2.IH"(3) [OF c(1) refl _ f] "2.prems"(1) c f by auto
    ultimately show ?thesis by (rule intents_move_trans)
  qed
qed simp

lemma finalize_foreign_moves:
  assumes "finalize_claims cfg tx outcomes rec db = Inr (n, db')"
    and "\<forall>r \<in> set (events db). ev_id r \<in> fst ` set (claims_by_id outcomes) \<longrightarrow> ev_kind r \<noteq> STORAGE_CLEANUP_KIND"
  shows "intents_move (events db) (events db')"
  using assms unfolding finalize_claims_def Let_def
  by (auto split: if_splits sum.splits prod.splits intro!: finalize_loop_foreign)

lemma record_part_intents:
  "record_external_delivery_part cfg tx claim part db = Inr (b, db') \<Longrightarrow> intents_move (events db) (events db')"
  by (auto simp: record_external_delivery_part_def Let_def unfinished_def intro!: intents_move_update intent_move_frame split: if_splits option.splits)

lemma storage_not_external: "STORAGE_CLEANUP_KIND \<in> set ISOLATED_DELIVERY_KINDS"
  by (simp add: ISOLATED_DELIVERY_KINDS_def)

lemma authorize_payload_cases:
  fixes db :: "'a compute_db_scheme"
  assumes "authorize_payload tx ns wall2 kind p ow e db = Inr (ok, db')"
  shows "\<not> ok \<and> (db' = db \<or> settle_referenced tx e db = Inr db') \<or>
    ok \<and> (\<exists>url rid. str_field ''url'' p = Inr url \<and> str_field ''resource_id'' p = Inr rid \<and>
      \<not> has_reference url (map_of p ''is_prefix'' = Some (JBool True)) (get_str ''catalog_namespace'' p) (get_str ''catalog_table'' p)
          (get_str ''catalog_family_prefix'' p) db \<and>
      \<not> source_in_use ns url rid db \<and> sql_gt (ev_lease_expires_at e) wall2 \<and>
      events db' = events (put_event (e\<lparr>ev_payload_json := with_phase SP_AUTHORIZED (ev_payload_json e)\<rparr>) db))"
proof -
  have owner: "events (put_event x (case ow of Some (Owner_Request r) \<Rightarrow> if k then delete_request (rq_id r) d else d | _ \<Rightarrow> d)) = events (put_event x d)"
    for k x and d :: "'a compute_db_scheme"
    by (auto simp: put_event_def delete_request_def split: option.split owner_row.split)
  show ?thesis using assms owner
    by (auto simp: authorize_payload_def Let_def elim!: and_then_okE split: if_splits)
qed

lemma authorize_cases:
  fixes db :: "'a compute_db_scheme"
  assumes "authorize_cleanup tx ns wall2 env eid tok g db = Inr (ok, db')"
  shows "\<not> ok \<and> (db' = db \<or> db' = env db) \<or>
    (\<exists>seen e kind ow v. get_row ev_id eid (events db) = Some seen \<and> get_row ev_id eid (events (env db)) = Some e \<and>
      ev_kind seen = STORAGE_CLEANUP_KIND \<and> claim_holds_event tok g (ev_payload_json seen) e \<and>
      sql_gt (ev_lease_expires_at e) (tx_wall tx) \<and> str_field ''owner_kind'' (ev_payload_json seen) = Inr kind \<and>
      lock_owner (ev_payload_json seen) (env db) = Inr ow \<and> owner_verdict kind (ev_payload_json seen) (tx_wall tx) ow = Inr v \<and>
      (\<not> ok \<and> settle_referenced tx e (env db) = Inr db' \<or>
       v = Owner_Gone \<and> authorize_payload tx ns wall2 kind (ev_payload_json seen) ow e (env db) = Inr (ok, db')))"
  using assms
  by (auto simp: authorize_cleanup_def Let_def elim!: and_then_okE split: option.splits if_splits owner_verdict.splits)

lemma authorize_moves:
  fixes db :: "'a compute_db_scheme"
  assumes "authorize_cleanup tx ns wall2 env eid tok g db = Inr (ok, db')"
  shows "db' = db \<or> intents_move (events (env db)) (events db')"
proof -
  have auth: "intents_move (events (env db)) (events (put_event (e\<lparr>ev_payload_json := with_phase SP_AUTHORIZED (ev_payload_json e)\<rparr>) (env db)))"
    if "get_row ev_id eid (events (env db)) = Some e" "claim_holds_event tok g p e" for e p
    by (rule intents_move_put [OF that(1)])
      (use that(2) in \<open>auto simp: claim_holds_event_def intent_move_def intent_ok_def barred_def unfinished_def split: sum.splits if_splits\<close>)
  from authorize_cases [OF assms] show ?thesis
  proof (elim disjE exE conjE)
    fix seen e kind ow v
    assume e: "get_row ev_id eid (events (env db)) = Some e" "claim_holds_event tok g (ev_payload_json seen) e"
      and a: "authorize_payload tx ns wall2 kind (ev_payload_json seen) ow e (env db) = Inr (ok, db')"
    from authorize_payload_cases [OF a] show ?thesis using auth [OF e] settle_referenced_moves [OF _ e(1)] by auto
  qed (auto dest: settle_referenced_moves)
qed

text \<open>Completing a cleanup: the intent is deleted and dispatched in one transaction, or failed and
  claimable again.\<close>

lemma complete_cleanup_row:
  assumes "complete_cleanup cfg tx ns eid tok g err db = Inr (ok, db')" and "intents_inv (events db)"
  shows "db' = db \<or> (\<exists>e. get_row ev_id eid (events db) = Some e \<and> ev_kind e = STORAGE_CLEANUP_KIND \<and> ev_status e = OB_DISPATCHING \<and>
      (err = None \<longrightarrow> phase_of (ev_payload_json e) = Inr SP_AUTHORIZED) \<and>
      events db' = events (put_event (finalize_values cfg (tx_now tx) err
        (if err = None then e\<lparr>ev_payload_json := with_phase SP_DELETED (ev_payload_json e)\<rparr> else e)) db))"
proof (cases "db' = db")
  case False
  from assms(1) False obtain e where e: "get_row ev_id eid (events db) = Some e" "ev_kind e = STORAGE_CLEANUP_KIND" "ev_status e = OB_DISPATCHING"
      "ev_claim_token e = Some tok" "ev_lease_generation e = g" "err = None \<longrightarrow> phase_of (ev_payload_json e) = Inr SP_AUTHORIZED"
    by (auto simp: complete_cleanup_def Let_def elim!: and_then_okE split: option.splits if_splits)
  let ?e1 = "if err = None then e\<lparr>ev_payload_json := with_phase SP_DELETED (ev_payload_json e)\<rparr> else e"
  let ?db1 = "if err = None then put_event ?e1 db else db"
  let ?c = "\<lparr>oc_event_id = eid, oc_claim_token = tok, oc_lease_generation = g, oc_event_kind = STORAGE_CLEANUP_KIND,
     oc_payload = ev_payload_json e, oc_already_delivered = False, oc_completed_parts = []\<rparr>"
  have id: "ev_id e = eid" using get_row_SomeD [OF e(1)] by simp
  have u: "unique_by ev_id (events db)" using assms(2) by (simp add: intents_inv_def)
  have row: "get_row ev_id (oc_event_id ?c) (events ?db1) = Some ?e1"
    using e(1) id by (simp add: put_event_def get_row_replace)
  have "map ev_id (events ?db1) = map ev_id (events db)" by (auto simp: put_event_def update_where_def)
  then have inv1: "outbox_inv ?db1" using u by (simp add: outbox_inv_def unique_by_def)
  have m: "ev_status ?e1 = OB_DISPATCHING" "claim_matches ?c ?e1" using e by (auto simp: claim_matches_def)
  have ext: "STORAGE_CLEANUP_KIND \<notin> set EXTERNAL_DELIVERY_KINDS" "STORAGE_CLEANUP_KIND \<noteq> TELEGRAM_DELIVERY"
    by (simp_all add: STORAGE_CLEANUP_KIND_def EXTERNAL_DELIVERY_KINDS_def EMAIL_DELIVERY_def TELEGRAM_DELIVERY_def)
  have fe: "finalize_event cfg (tx_now tx) False err ?e1 ?db1 =
      Inr (?db1\<lparr>events := update_where (\<lambda>r. ev_id r = eid) (finalize_values cfg (tx_now tx) err) (events ?db1)\<rparr>)"
    using e(2) id ext storage_not_external by (simp add: finalize_event_def Let_def)
  have fin: "finalize_claims cfg tx [(?c, err)] False ?db1 = Inr ((1, if err = None then 1 else 0),
      ?db1\<lparr>events := update_where (\<lambda>r. ev_id r = eid) (finalize_values cfg (tx_now tx) err) (events ?db1)\<rparr>)"
    using finalize_current [OF inv1 row m, of cfg tx err False] by (simp add: fe)
  have "events db' = update_where (\<lambda>r. ev_id r = eid) (finalize_values cfg (tx_now tx) err) (events ?db1)"
    using assms(1) e fin by (auto simp: complete_cleanup_def finalize_storage_cleanup_def Let_def elim!: and_then_okE split: if_splits)
  moreover have "update_where (\<lambda>r. ev_id r = eid) f (events ?db1) = update_where (\<lambda>r. ev_id r = eid) (\<lambda>_. f ?e1) (events db)" for f
  proof (cases err)
    case (Some x)
    have "r = e" if "r \<in> set (events db)" "ev_id r = eid" for r
      using unique_by_eq [OF u that(1)] get_row_SomeD [OF e(1)] that(2) by auto
    then show ?thesis using Some by (auto simp: update_where_def)
  qed (use id in \<open>auto simp: put_event_def update_where_def\<close>)
  ultimately show ?thesis using e id by (auto simp: put_event_def)
qed simp

lemma complete_moves:
  assumes "complete_cleanup cfg tx ns eid tok g err db = Inr (ok, db')"
  shows "intents_move (events db) (events db')"
proof -
  have "intents_move (events db) (events db')" if inv: "intents_inv (events db)"
  proof (cases "db' = db")
    case False
    then obtain e where e: "get_row ev_id eid (events db) = Some e" "ev_kind e = STORAGE_CLEANUP_KIND" "ev_status e = OB_DISPATCHING"
        "err = None \<longrightarrow> phase_of (ev_payload_json e) = Inr SP_AUTHORIZED"
      and db': "events db' = events (put_event (finalize_values cfg (tx_now tx) err
        (if err = None then e\<lparr>ev_payload_json := with_phase SP_DELETED (ev_payload_json e)\<rparr> else e)) db)"
      using complete_cleanup_row [OF assms inv] by blast
    have "intent_move e (finalize_values cfg (tx_now tx) err
        (if err = None then e\<lparr>ev_payload_json := with_phase SP_DELETED (ev_payload_json e)\<rparr> else e))"
      if "intent_ok e"
      using that e by (cases err) (auto simp: intent_move_def intent_ok_def barred_def unfinished_def finalize_values_def Let_def split: sum.splits if_splits)
    then show ?thesis unfolding db' by (intro intents_move_put [OF e(1)]) auto
  qed simp
  then show ?thesis by (simp add: intents_move_def)
qed

lemma create_moves:
  fixes db :: "'a compute_db_scheme"
  assumes "create_datasource uuid5 tx tx2 ns new guard env db = Inr (d, db')"
  shows "intents_move (events db) (events db') \<or> intents_move (events (env db)) (events db')"
  using assms
  by (auto simp: create_datasource_def replayed_response_def Let_def elim!: and_then_okE split: option.splits if_splits
      dest!: settle_publication_moves)

lemma ingest_moves:
  fixes db :: "'a compute_db_scheme"
  assumes "publish_ingest uuid5 tx ns did config rv schema guard env db = Inr (d, db')"
  shows "intents_move (events (env db)) (events db')"
  using assms
  by (auto simp: publish_ingest_def Let_def elim!: and_then_okE split: option.splits if_splits dest!: settle_publication_moves)

lemma finalize_delete_moves:
  fixes db :: "'a compute_db_scheme"
  assumes "finalize_delete uuid5 dburl cfg tx ns did db = Inr (ok, db')"
  shows "intents_move (events db) (events db')"
  using assms
  by (auto simp: finalize_delete_def Let_def elim!: and_then_okE split: option.splits if_splits dest!: datasource_cleanup_moves)

lemma update_datasource_moves:
  fixes db :: "'a compute_db_scheme"
  assumes "update_datasource uuid5 read_is_excel tx ns did upd selection expected db = Inr (d, db')"
  shows "intents_move (events db) (events db')"
  using assms
  by (auto simp: update_datasource_def Let_def elim!: and_then_okE split: if_splits dest!: settle_publication_moves)

lemma release_preflight_moves:
  fixes db :: "'a compute_db_scheme"
  assumes "release_preflight uuid5 cfg tx i ns source r db = Inr db'"
  shows "intents_move (events db) (events db')"
proof (cases source)
  case None
  then show ?thesis using assms by (auto simp: release_preflight_def delete_request_def)
next
  case (Some path)
  then obtain rid db1 where "register_preflight_source uuid5 cfg tx i ns (rq_id r) rid path None db = Inr db1" "db' = delete_request (rq_id r) db1"
    using assms by (auto simp: release_preflight_def elim!: and_then_okE split: option.splits)
  then show ?thesis using register_preflight_moves by (auto simp: delete_request_def)
qed

lemma remove_preflight_moves:
  fixes db :: "'a compute_db_scheme"
  assumes "remove_preflight uuid5 cfg tx ns pid delete_source db = Inr (src, db')"
  shows "intents_move (events db) (events db')"
proof (cases "db' = db")
  case False
  then obtain source r where "release_preflight uuid5 cfg tx 0 ns source r db = Inr db'"
    using assms by (auto simp: remove_preflight_def Let_def elim!: and_then_okE split: option.splits if_splits)
  then show ?thesis by (rule release_preflight_moves)
qed simp

lemma expire_rows_moves:
  fixes db :: "'a compute_db_scheme"
  shows "expire_rows uuid5 cfg tx i ns rs db = Inr db' \<Longrightarrow> intents_move (events db) (events db')"
proof (induction uuid5 cfg tx i ns rs db rule: expire_rows.induct)
  case (2 uuid5 cfg tx i ns r rs db)
  show ?case
  proof (cases "preflight_active (rq_id r) db")
    case True
    then show ?thesis using 2 by simp
  next
    case False
    then obtain db1 where db1: "release_preflight uuid5 cfg tx i ns (preflight_source r) r db = Inr db1" "expire_rows uuid5 cfg tx (Suc i) ns rs db1 = Inr db'"
      using "2.prems" by (auto elim!: and_then_okE)
    show ?thesis by (rule intents_move_trans [OF release_preflight_moves [OF db1(1)] "2.IH"(2) [OF False db1(2)]])
  qed
qed simp

subsection \<open>The table of intents as a transition system\<close>

text \<open>The transactions that write intents, with what other sessions commit before their row locks;
  the dispatch of other events; new notifications; and every transaction that leaves the outbox alone.\<close>

inductive storage_step :: "(string \<Rightarrow> string) \<Rightarrow> string \<Rightarrow> settings \<Rightarrow> 'a compute_db_scheme \<Rightarrow> 'a compute_db_scheme \<Rightarrow> bool"
  for uuid5 dburl cfg where
  st_upload: "register_upload_source uuid5 cfg tx ns uid path db = Inr db' \<Longrightarrow> storage_step uuid5 dburl cfg db db'"
| st_renew: "renew_upload_source uuid5 cfg tx ns uid path db = Inr db' \<Longrightarrow> storage_step uuid5 dburl cfg db db'"
| st_release: "release_upload_source_for_cleanup uuid5 cfg tx ns uid path db = Inr db' \<Longrightarrow> storage_step uuid5 dburl cfg db db'"
| st_preflight: "register_preflight_source uuid5 cfg tx i ns pid rid path at db = Inr db' \<Longrightarrow> storage_step uuid5 dburl cfg db db'"
| st_transfer: "transfer_preflight_source uuid5 cfg tx i ns path rid env db = Inr db' \<Longrightarrow>
    (storage_step uuid5 dburl cfg)\<^sup>*\<^sup>* db (env db) \<Longrightarrow> storage_step uuid5 dburl cfg db db'"
| st_stage: "register_stage uuid5 dburl cfg tx ns did kind oid w tok g pre man cat bid db = Inr db' \<Longrightarrow> storage_step uuid5 dburl cfg db db'"
| st_create: "create_datasource uuid5 tx tx2 ns new guard env db = Inr (d, db') \<Longrightarrow>
    (storage_step uuid5 dburl cfg)\<^sup>*\<^sup>* db (env db) \<Longrightarrow> storage_step uuid5 dburl cfg db db'"
| st_ingest: "publish_ingest uuid5 tx ns did config rv schema guard env db = Inr (r, db') \<Longrightarrow>
    (storage_step uuid5 dburl cfg)\<^sup>*\<^sup>* db (env db) \<Longrightarrow> storage_step uuid5 dburl cfg db db'"
| st_update: "update_datasource uuid5 read_is_excel tx ns did upd selection expected db = Inr (d, db') \<Longrightarrow> storage_step uuid5 dburl cfg db db'"
| st_remove: "remove_preflight uuid5 cfg tx ns pid delete_source db = Inr (src, db') \<Longrightarrow> storage_step uuid5 dburl cfg db db'"
| st_expire: "expire_preflights uuid5 cfg tx ns now locked scan db = Inr db' \<Longrightarrow> storage_step uuid5 dburl cfg db db'"
| st_delete: "finalize_delete uuid5 dburl cfg tx ns did db = Inr (ok, db') \<Longrightarrow> storage_step uuid5 dburl cfg db db'"
| st_claim: "claim_next_events cfg tx locked limit kinds db = (cs, db') \<Longrightarrow> storage_step uuid5 dburl cfg db db'"
| st_authorize: "authorize_cleanup tx ns wall2 env eid tok g db = Inr (ok, db') \<Longrightarrow>
    (storage_step uuid5 dburl cfg)\<^sup>*\<^sup>* db (env db) \<Longrightarrow> storage_step uuid5 dburl cfg db db'"
| st_complete: "complete_cleanup cfg tx ns eid tok g err db = Inr (ok, db') \<Longrightarrow> storage_step uuid5 dburl cfg db db'"
| st_finalize: "finalize_claims cfg tx outcomes rec db = Inr (n, db') \<Longrightarrow>
    \<forall>r \<in> set (events db). ev_id r \<in> fst ` set (claims_by_id outcomes) \<longrightarrow> ev_kind r \<noteq> STORAGE_CLEANUP_KIND \<Longrightarrow>
    storage_step uuid5 dburl cfg db db'"
| st_part: "record_external_delivery_part cfg tx claim part db = Inr (b, db') \<Longrightarrow> storage_step uuid5 dburl cfg db db'"
| st_notify: "get_row ev_id (tx_ids tx i) (events db) = None \<Longrightarrow> kind \<noteq> STORAGE_CLEANUP_KIND \<Longrightarrow>
    storage_step uuid5 dburl cfg db (enqueue_event cfg tx i kind p ns db)"
| st_frame: "events db' = events db \<Longrightarrow> storage_step uuid5 dburl cfg db db'"

lemma storage_env_moves:
  assumes "(\<lambda>x y. storage_step uuid5 dburl cfg x y \<and> intents_move (events x) (events y))\<^sup>*\<^sup>* s t"
  shows "intents_move (events s) (events t)"
  using assms by (induction rule: rtranclp_induct) (auto intro: intents_move_trans)

lemma storage_step_moves: "storage_step uuid5 dburl cfg db db' \<Longrightarrow> intents_move (events db) (events db')"
proof (induction rule: storage_step.induct)
  case (st_transfer tx i ns path rid env db db')
  show ?case by (rule intents_move_trans [OF storage_env_moves [OF st_transfer(2)] transfer_moves [OF st_transfer(1)]])
next
  case (st_create tx tx2 ns new guard env db d db')
  show ?case using create_moves [OF st_create(1)] storage_env_moves [OF st_create(2)] intents_move_trans by blast
next
  case (st_ingest tx ns did config rv schema guard env db r db')
  show ?case by (rule intents_move_trans [OF storage_env_moves [OF st_ingest(2)] ingest_moves [OF st_ingest(1)]])
next
  case (st_authorize tx ns wall2 env eid tok g db ok db')
  show ?case using authorize_moves [OF st_authorize(1)] storage_env_moves [OF st_authorize(2)] intents_move_trans by auto
next
  case (st_notify tx i db kind p ns)
  then show ?case by (auto simp: events_enqueue new_event_def intent_ok_def intro!: intents_move_append)
qed (auto intro: upload_moves register_preflight_moves register_stage_moves finalize_delete_moves claim_intents_move complete_moves
    finalize_foreign_moves record_part_intents update_datasource_moves remove_preflight_moves expire_rows_moves simp: expire_preflights_def)

lemma storage_run_moves: "(storage_step uuid5 dburl cfg)\<^sup>*\<^sup>* s t \<Longrightarrow> intents_move (events s) (events t)"
  by (induction rule: rtranclp_induct) (auto intro: intents_move_trans dest: storage_step_moves)

interpretation intents: preserved "storage_step uuid5 dburl cfg" "\<lambda>db. intents_inv (events db)" for uuid5 dburl cfg
  by unfold_locales (auto dest: storage_step_moves simp: intents_move_def)

text \<open>C11: no stored object is ever forgotten. After any transactions, an intent that is tracked or
  authorized is still in the queue: once enough time has passed a cleanup claim can take it, whatever
  failed or crashed before; and only published and deleted intents have left the queue.\<close>

theorem storage_intents_never_lost:
  assumes inv: "intents_inv (events s)" and run: "(storage_step uuid5 dburl cfg)\<^sup>*\<^sup>* s t"
    and e: "e \<in> set (events t)" "ev_kind e = STORAGE_CLEANUP_KIND"
  shows "(\<exists>t0. \<forall>now \<ge> t0. event_claimable now (Some [STORAGE_CLEANUP_KIND]) e) \<and>
      phase_of (ev_payload_json e) \<in> {Inr SP_TRACKED, Inr SP_AUTHORIZED} \<or>
    ev_status e = OB_DISPATCHED \<and> phase_of (ev_payload_json e) \<in> {Inr SP_PUBLISHED, Inr SP_DELETED}"
proof -
  have "intents_inv (events t)" by (rule intents.run_inv [OF run inv])
  then have ok: "intent_ok e" using e(1) by (simp add: intents_inv_def)
  then obtain ph where ph: "phase_of (ev_payload_json e) = Inr ph" using e(2) by (auto simp: intent_ok_def split: sum.splits)
  show ?thesis
  proof (cases "ph = SP_TRACKED \<or> ph = SP_AUTHORIZED")
    case True
    then have "unfinished e" using phase_facts [OF ok e(2) ph] by simp
    then have "\<forall>now \<ge> max (ev_available_at e) (case ev_lease_expires_at e of None \<Rightarrow> 0 | Some x \<Rightarrow> x).
        event_claimable now (Some [STORAGE_CLEANUP_KIND]) e"
      using e(2) by (auto simp: event_claimable_def unfinished_def split: option.splits)
    then show ?thesis using True ph by blast
  next
    case False
    then have "ev_status e = OB_DISPATCHED" using phase_facts [OF ok e(2) ph] by simp
    then show ?thesis using ph False by (cases ph) auto
  qed
qed

definition upload_storage :: compute_db where
  "upload_storage = empty_compute\<lparr>events := [claim_event example_settings 1 ''t1''
     (new_intent ''e1'' 1 None ''s3://n/uploads/f'' (owner_payload ''u1'' OW_UPLOAD ''u1''))]\<rparr>"

lemma upload_storage_inv: "intents_inv (events upload_storage)"
  by (simp add: upload_storage_def intents_inv_def unique_by_def intent_ok_def claim_event_def new_intent_def new_event_def unfinished_def)

theorem storage_intents_never_lost_witness:
  "(\<exists>t0. \<forall>now \<ge> t0. event_claimable now (Some [STORAGE_CLEANUP_KIND]) (hd (events upload_storage)))"
proof -
  have "hd (events upload_storage) \<in> set (events upload_storage)" "ev_kind (hd (events upload_storage)) = STORAGE_CLEANUP_KIND"
    "ev_status (hd (events upload_storage)) \<noteq> OB_DISPATCHED"
    by (simp_all add: upload_storage_def claim_event_def new_intent_def new_event_def)
  then show ?thesis using storage_intents_never_lost [OF upload_storage_inv rtranclp.rtrancl_refl] by blast
qed

subsection \<open>Authorization\<close>

text \<open>A field of a document, by the keys on the way to it.\<close>

fun json_at :: "string list \<Rightarrow> json \<Rightarrow> json option" where
  "json_at [] j = Some j"
| "json_at (k # ks) (JObj d) = (case map_of d k of None \<Rightarrow> None | Some v \<Rightarrow> json_at ks v)"
| "json_at (k # ks) _ = None"

text \<open>A datasource refers to the object or prefix of an intent by one of its paths, or by its catalog table: the very
  table of the intent or one of the family of tables that the intent covers.\<close>

definition refers_by_path :: "payload \<Rightarrow> datasource \<Rightarrow> bool" where
  "refers_by_path p d \<longleftrightarrow>
     (\<exists>url path. map_of p ''url'' = Some (JStr url) \<and>
        (\<exists>keys \<in> {[''metadata_path''], [''file_path''], [''source'', ''metadata_path''], [''source'', ''file_path'']}.
           json_at keys (ds_config d) = Some (JStr path)) \<and>
        (path = url \<or> map_of p ''is_prefix'' = Some (JBool True) \<and> (\<exists>rest. path = rstrip_char (CHR ''/'') url @ ''/'' @ rest)))"

definition refers_by_table :: "payload \<Rightarrow> datasource \<Rightarrow> bool" where
  "refers_by_table p d \<longleftrightarrow>
     (\<exists>catalog table named. map_of p ''catalog_namespace'' = Some (JStr catalog) \<and> map_of p ''catalog_table'' = Some (JStr table) \<and>
        json_at [''namespace''] (ds_config d) = Some (JStr catalog) \<and> json_at [''table''] (ds_config d) = Some (JStr named) \<and>
        (named = table \<or> (\<exists>family rest. map_of p ''catalog_family_prefix'' = Some (JStr family) \<and> named = family @ rest)))"

text \<open>A request that waits or runs uses the object: it reads the very path, it runs on the engine of the resource, or
  it is associated with the resource. A build in flight uses it when it is associated with the resource.\<close>

definition used_by_request :: "string \<Rightarrow> payload \<Rightarrow> 'a compute_db_scheme \<Rightarrow> bool" where
  "used_by_request ns p db \<longleftrightarrow>
     (\<exists>r \<in> set (requests db). (rq_status r = CR_QUEUED \<or> rq_status r = CR_RUNNING) \<and>
        (rq_namespace r = ns \<and> (\<exists>url. map_of p ''url'' = Some (JStr url) \<and> rq_artifact_path r = Some url) \<or>
         rq_namespace r = ns \<and> (\<exists>i. rq_worker_identity r = Some i \<and> map_of p ''resource_id'' = Some (JStr (wi_resource_id i))) \<or>
         (\<exists>a \<in> set (request_datasources db). rqd_request_id a = rq_id r \<and> map_of p ''resource_id'' = Some (JStr (rqd_datasource_id a)))))"

definition used_by_build :: "string \<Rightarrow> payload \<Rightarrow> 'a compute_db_scheme \<Rightarrow> bool" where
  "used_by_build ns p db \<longleftrightarrow>
     (\<exists>a \<in> set (run_datasources db). rd_namespace a = ns \<and> map_of p ''resource_id'' = Some (JStr (rd_datasource_id a)) \<and>
        (\<exists>r \<in> set (runs db). run_id r = rd_build_id a \<and> run_namespace r = ns \<and> run_in_flight r))"

text \<open>The owner of the intent holds the object: a datasource while its row exists, a preflight or a consumer of the source
  while its request waits or runs, a compute or build attempt while its exact claim has a lease.\<close>

definition claim_holds :: "payload \<Rightarrow> timestamp \<Rightarrow> string option \<Rightarrow> int \<Rightarrow> timestamp option \<Rightarrow> bool" where
  "claim_holds p now tok g expires \<longleftrightarrow>
     (\<exists>t x. tok = Some t \<and> map_of p ''owner_token'' = Some (JStr t) \<and> map_of p ''owner_generation'' = Some (JInt g) \<and> expires = Some x \<and> now < x)"

definition held_by_owner :: "payload \<Rightarrow> timestamp \<Rightarrow> 'a compute_db_scheme \<Rightarrow> bool" where
  "held_by_owner p now db \<longleftrightarrow>
     (\<exists>kind oid. map_of p ''owner_kind'' = Some (JStr kind) \<and> map_of p ''owner_id'' = Some (JStr oid) \<and>
        (kind = ''datasource'' \<and> get_row ds_id oid (datasources db) \<noteq> None \<or>
         kind \<in> {''preflight'', ''source''} \<and>
           (\<exists>r. get_row rq_id oid (requests db) = Some r \<and> (rq_status r = CR_QUEUED \<or> rq_status r = CR_RUNNING)) \<or>
         kind = ''compute'' \<and>
           (\<exists>r. get_row rq_id oid (requests db) = Some r \<and> claim_holds p now (rq_claim_token r) (rq_lease_generation r) (rq_lease_expires_at r)) \<or>
         kind = ''build'' \<and>
           (\<exists>j. get_row job_id oid (jobs db) = Some j \<and> claim_holds p now (job_claim_token j) (job_lease_generation j) (job_lease_expires_at j))))"

definition still_owned :: "string \<Rightarrow> payload \<Rightarrow> timestamp \<Rightarrow> 'a compute_db_scheme \<Rightarrow> bool" where
  "still_owned ns p now db \<longleftrightarrow>
     (\<exists>d \<in> set (datasources db). refers_by_path p d \<or> refers_by_table p d) \<or>
     used_by_request ns p db \<or> used_by_build ns p db \<or> held_by_owner p now db"

lemma str_field_iff: "str_field k p = Inr x \<longleftrightarrow> map_of p k = Some (JStr x)"
  by (auto simp: str_field_def split: option.splits json.splits)

lemma get_str_iff: "get_str k p = Some x \<longleftrightarrow> map_of p k = Some (JStr x)"
  by (auto simp: get_str_def split: option.splits json.splits)

lemma json_str_at: "json_str k c = Some x \<longleftrightarrow> json_at [k] c = Some (JStr x)"
  by (cases c) (auto simp: json_str_def json_get_def split: option.splits json.splits)

lemma nested_str_at: "json_str k (nested m c) = Some x \<longleftrightarrow> json_at [m, k] c = Some (JStr x)"
proof (cases "json_get m c")
  case None
  then show ?thesis by (cases c) (auto simp: nested_def json_str_def json_get_def split: option.splits)
next
  case (Some j)
  then show ?thesis using json_str_at [of k j x] by (cases c) (auto simp: nested_def json_get_def split: option.splits)
qed

lemma reference_paths_at:
  "path \<in> set (reference_paths c) \<longleftrightarrow>
     (\<exists>keys \<in> {[''metadata_path''], [''file_path''], [''source'', ''metadata_path''], [''source'', ''file_path'']}. json_at keys c = Some (JStr path))"
proof -
  have "path \<in> set (reference_paths c) \<longleftrightarrow> json_str ''metadata_path'' c = Some path \<or> json_str ''file_path'' c = Some path \<or>
      json_str ''metadata_path'' (nested ''source'' c) = Some path \<or> json_str ''file_path'' (nested ''source'' c) = Some path"
    by (auto simp: reference_paths_def split: option.splits)
  then show ?thesis unfolding nested_str_at unfolding json_str_at by simp
qed

lemma unreferenced:
  assumes url: "str_field ''url'' p = Inr url" and d: "d \<in> set (datasources db)"
    and none: "\<not> has_reference url (map_of p ''is_prefix'' = Some (JBool True)) (get_str ''catalog_namespace'' p) (get_str ''catalog_table'' p)
      (get_str ''catalog_family_prefix'' p) db"
  shows "\<not> refers_by_path p d" and "\<not> refers_by_table p d"
proof -
  let ?c = "ds_config d"
  have n: "\<not> list_ex (\<lambda>x. x = url \<or> (map_of p ''is_prefix'' = Some (JBool True) \<and> starts_with x (rstrip_char (CHR ''/'') url @ ''/''))) (reference_paths ?c)"
      "\<not> (get_str ''catalog_namespace'' p \<noteq> None \<and> get_str ''catalog_table'' p \<noteq> None \<and> json_str ''namespace'' ?c = get_str ''catalog_namespace'' p \<and>
         (json_str ''table'' ?c = get_str ''catalog_table'' p \<or>
          (get_str ''catalog_family_prefix'' p \<noteq> None \<and> sql_starts_with (json_str ''table'' ?c) (the (get_str ''catalog_family_prefix'' p)))))"
    using none d unfolding has_reference_def Let_def list_ex_iff by blast+
  show "\<not> refers_by_path p d"
  proof
    assume "refers_by_path p d"
    then obtain path where path: "path \<in> set (reference_paths ?c)"
        "path = url \<or> map_of p ''is_prefix'' = Some (JBool True) \<and> (\<exists>rest. path = rstrip_char (CHR ''/'') url @ ''/'' @ rest)"
      using url unfolding refers_by_path_def reference_paths_at [symmetric] str_field_iff by auto
    then show False using n(1) unfolding list_ex_iff starts_with_iff by auto
  qed
  show "\<not> refers_by_table p d"
  proof
    assume "refers_by_table p d"
    then obtain catalog table named where t: "get_str ''catalog_namespace'' p = Some catalog" "get_str ''catalog_table'' p = Some table"
        "json_str ''namespace'' ?c = Some catalog" "json_str ''table'' ?c = Some named"
        "named = table \<or> (\<exists>family rest. get_str ''catalog_family_prefix'' p = Some family \<and> named = family @ rest)"
      unfolding refers_by_table_def get_str_iff [symmetric] json_str_at [symmetric] by blast
    then show False using n(2) by (auto simp: sql_starts_with_def starts_with_iff)
  qed
qed

lemma unused:
  assumes url: "str_field ''url'' p = Inr url" and rid: "str_field ''resource_id'' p = Inr rid" and none: "\<not> source_in_use ns url rid db"
  shows "\<not> used_by_request ns p db" and "\<not> used_by_build ns p db"
proof -
  have p: "map_of p ''url'' = Some (JStr url)" "map_of p ''resource_id'' = Some (JStr rid)" using url rid by (simp_all add: str_field_iff)
  have n: "\<not> has_active_request_for_datasource rid db" "\<not> has_active_build_for_datasource ns rid db"
      "\<And>r. r \<in> set (requests db) \<Longrightarrow> rq_namespace r = ns \<Longrightarrow> request_active (rq_status r) \<Longrightarrow>
         map_option wi_resource_id (rq_worker_identity r) \<noteq> Some rid \<and> rq_artifact_path r \<noteq> Some url"
    using none unfolding source_in_use_def list_ex_iff by blast+
  show "\<not> used_by_request ns p db"
    using n(1,3) unfolding used_by_request_def has_active_request_for_datasource_def list_ex_iff p by (fastforce simp: request_active_def)
  show "\<not> used_by_build ns p db"
    using n(2) unfolding used_by_build_def has_active_build_for_datasource_def list_ex_iff p by auto
qed

lemma lease_gone:
  assumes "lease_verdict p now tok g expires = Inr Owner_Gone"
  shows "\<not> claim_holds p now tok g expires"
  using assms by (auto simp: lease_verdict_def claim_holds_def split: option.splits if_splits)

lemma locked_owner:
  assumes kind: "str_field ''owner_kind'' p = Inr kind" and oid: "str_field ''owner_id'' p = Inr oid" and lock: "lock_owner p db = Inr ow"
  shows "kind = ''datasource'' \<Longrightarrow> ow = map_option Owner_Datasource (get_row ds_id oid (datasources db))"
    and "kind = ''build'' \<Longrightarrow> ow = map_option Owner_Job (get_row job_id oid (jobs db))"
    and "kind = ''preflight'' \<Longrightarrow> ow = map_option Owner_Request (get_row rq_id oid (requests db))"
    and "kind = ''source'' \<Longrightarrow> ow = map_option Owner_Request (get_row rq_id oid (requests db))"
    and "kind = ''compute'' \<Longrightarrow> ow = map_option Owner_Request (get_row rq_id oid (requests db))"
  using lock by (simp_all add: lock_owner_def kind oid)

lemma active_owner_holds:
  assumes gone: "owner_verdict kind p now (Some (Owner_Request r)) = Inr Owner_Gone" and active: "request_active (rq_status r)"
  shows "kind \<noteq> ''preflight''" and "kind \<noteq> ''source''"
proof -
  show "kind \<noteq> ''preflight''" using gone active by (auto simp: owner_verdict_def elim!: and_then_okE split: if_splits)
  show "kind \<noteq> ''source''" using gone active by (auto simp: owner_verdict_def)
qed

lemma owner_gone:
  assumes kind: "str_field ''owner_kind'' p = Inr kind" and lock: "lock_owner p db = Inr ow" and gone: "owner_verdict kind p now ow = Inr Owner_Gone"
  shows "\<not> held_by_owner p now db"
proof
  assume "held_by_owner p now db"
  then obtain oid where oid: "str_field ''owner_id'' p = Inr oid"
    and h: "kind = ''datasource'' \<and> get_row ds_id oid (datasources db) \<noteq> None \<or>
         kind \<in> {''preflight'', ''source''} \<and>
           (\<exists>r. get_row rq_id oid (requests db) = Some r \<and> (rq_status r = CR_QUEUED \<or> rq_status r = CR_RUNNING)) \<or>
         kind = ''compute'' \<and>
           (\<exists>r. get_row rq_id oid (requests db) = Some r \<and> claim_holds p now (rq_claim_token r) (rq_lease_generation r) (rq_lease_expires_at r)) \<or>
         kind = ''build'' \<and>
           (\<exists>j. get_row job_id oid (jobs db) = Some j \<and> claim_holds p now (job_claim_token j) (job_lease_generation j) (job_lease_expires_at j))"
    using kind unfolding held_by_owner_def str_field_iff by force
  note owner = locked_owner [OF kind oid lock]
  have idle: "\<not> request_active (rq_status r)" if k: "kind \<in> {''preflight'', ''source''}" and r: "get_row rq_id oid (requests db) = Some r" for r
  proof
    have "ow = Some (Owner_Request r)" using k owner(3,4) r by (elim insertE emptyE) simp_all
    then have verdict: "owner_verdict kind p now (Some (Owner_Request r)) = Inr Owner_Gone" using gone by simp
    assume "request_active (rq_status r)"
    then have "kind \<noteq> ''preflight''" "kind \<noteq> ''source''" by (rule active_owner_holds [OF verdict])+
    then show False using k by blast
  qed
  from h show False
  proof (elim disjE conjE exE)
    assume "kind = ''datasource''" "get_row ds_id oid (datasources db) \<noteq> None"
    then show False using owner(1) gone by (auto simp: owner_verdict_def)
  next
    fix r assume "kind \<in> {''preflight'', ''source''}" "get_row rq_id oid (requests db) = Some r" "rq_status r = CR_QUEUED"
    then show False using idle by (simp add: request_active_def)
  next
    fix r assume "kind \<in> {''preflight'', ''source''}" "get_row rq_id oid (requests db) = Some r" "rq_status r = CR_RUNNING"
    then show False using idle by (simp add: request_active_def)
  next
    fix r assume k: "kind = ''compute''" and r: "get_row rq_id oid (requests db) = Some r"
      and c: "claim_holds p now (rq_claim_token r) (rq_lease_generation r) (rq_lease_expires_at r)"
    have "ow = Some (Owner_Request r)" using owner(5) k r by simp
    then show False using gone k lease_gone c by (simp add: owner_verdict_def)
  next
    fix j assume k: "kind = ''build''" and j: "get_row job_id oid (jobs db) = Some j"
      and c: "claim_holds p now (job_claim_token j) (job_lease_generation j) (job_lease_expires_at j)"
    have "ow = Some (Owner_Job j)" using owner(2) k j by simp
    then show False using gone lease_gone c by (simp add: owner_verdict_def)
  qed
qed

lemma same_dict_map_of:
  assumes "same_dict p q" and "distinct (map fst p)"
  shows "map_of p = map_of q"
proof
  fix k
  have in_q: "(k, v) \<in> set q \<longleftrightarrow> map_of p k = Some v" for v using assms by (simp add: same_dict_def)
  show "map_of p k = map_of q k"
  proof (cases "map_of q k")
    case None
    then have "k \<notin> fst ` set q" by (simp add: map_of_eq_None_iff)
    then have "map_of p k \<noteq> Some v" for v using in_q by force
    then show ?thesis using None by (cases "map_of p k") auto
  next
    case (Some v)
    then show ?thesis using in_q map_of_SomeD [OF Some] by simp
  qed
qed

lemma still_owned_dict: "map_of p = map_of q \<Longrightarrow> still_owned ns p now db = still_owned ns q now db"
  by (simp add: still_owned_def refers_by_path_def refers_by_table_def used_by_request_def used_by_build_def held_by_owner_def claim_holds_def)

lemma same_dict_field:
  assumes "same_dict p q" and "distinct (map fst p)" and "str_field k q = Inr x"
  shows "str_field k p = Inr x"
proof -
  have q: "map_of q k = Some (JStr x)" using assms(3) by (auto simp: str_field_def split: option.splits json.splits)
  then have "(k, JStr x) \<in> set p" using assms(1) map_of_SomeD by (fastforce simp: same_dict_def)
  then show ?thesis using assms(2) by (simp add: str_field_def)
qed

lemma settle_all_barred:
  assumes "get_row ev_id i (events db) = Some e" and "barred e" and "i \<in> set is"
  shows "\<exists>x. settle_all tx is db = Inl x"
  using assms
proof (induction "is" arbitrary: db)
  case (Cons j "is")
  show ?case
  proof (cases "j = i")
    case True
    then show ?thesis using Cons.prems by (auto simp: barred_def settle_referenced_def)
  next
    case False
    have keep: "get_row ev_id i (events d) = Some e" if "settle_referenced tx f db = Inr d" "get_row ev_id j (events db) = Some f" for f d
      using that Cons.prems(1) False get_row_SomeD [OF that(2)]
      by (auto simp: settle_referenced_def put_event_def settle_values_def get_row_replace elim!: and_then_okE split: if_splits)
    show ?thesis
    proof (cases "get_row ev_id j (events db)")
      case (Some f)
      then show ?thesis using Cons False keep
        by (cases "settle_referenced tx f db") auto
    qed (use Cons False in auto)
  qed
qed simp

lemma settle_publication_barred:
  assumes "get_row ev_id (storage_event_id uuid5 ns url) (events db) = Some e" and "barred e" and "url \<in> set (published_paths config)"
  shows "\<exists>x. settle_publication uuid5 tx ns config db = Inl x"
  using settle_all_barred [OF assms(1,2), of "map (storage_event_id uuid5 ns) (published_paths config)" tx] assms(3)
  by (auto simp: settle_publication_def)

lemma lock_source_barred:
  assumes "get_row ev_id (storage_event_id uuid5 ns url) (events db) = Some e0"
    and "get_row ev_id (storage_event_id uuid5 ns url) (events (env db)) = Some e" and "barred e"
  shows "\<exists>x. lock_source_intent uuid5 ns url env db = Inl x"
proof (cases "lock_owner (ev_payload_json e0) (env db)")
  case (Inr ow)
  have "ev_id e0 = storage_event_id uuid5 ns url" using get_row_SomeD [OF assms(1)] by simp
  then show ?thesis using assms Inr by (auto simp: lock_source_intent_def barred_def Let_def)
qed (use assms(1) in \<open>simp add: lock_source_intent_def Let_def\<close>)

text \<open>C2: an authorization to delete is safe when it is given. The claim is the one recorded on the
  intent and its lease still runs. No datasource refers to the object: none of its paths is the object or lies below the
  prefix, and it names neither the table of the intent nor one of the family of tables the intent covers. No queued or
  running request reads the object, runs on the engine of its resource or is associated with it, no build in flight is
  associated with it, and the owner of the intent does not hold it: a datasource that owns it is gone, the request of a
  preflight or consumer has ended, an attempt has lost its claim or its lease. The intent is marked as authorized in the
  same transaction.\<close>

theorem cleanup_authorization_safe:
  assumes inv: "intents_inv (events db)" and env: "(storage_step uuid5 dburl cfg)\<^sup>*\<^sup>* db (env db)"
    and auth: "authorize_cleanup tx ns wall2 env eid tok g db = Inr (True, db')"
  shows "\<exists>e. get_row ev_id eid (events (env db)) = Some e \<and>
    ev_status e = OB_DISPATCHING \<and> ev_claim_token e = Some tok \<and> ev_lease_generation e = g \<and> sql_gt (ev_lease_expires_at e) wall2 \<and>
    \<not> still_owned ns (ev_payload_json e) (tx_wall tx) (env db) \<and>
    get_row ev_id eid (events db') = Some (e\<lparr>ev_payload_json := with_phase SP_AUTHORIZED (ev_payload_json e)\<rparr>)"
proof -
  from authorize_cases [OF auth] obtain seen e kind ow where e: "get_row ev_id eid (events db) = Some seen"
      "get_row ev_id eid (events (env db)) = Some e" "ev_kind seen = STORAGE_CLEANUP_KIND" "claim_holds_event tok g (ev_payload_json seen) e"
    and o: "str_field ''owner_kind'' (ev_payload_json seen) = Inr kind" "lock_owner (ev_payload_json seen) (env db) = Inr ow"
      "owner_verdict kind (ev_payload_json seen) (tx_wall tx) ow = Inr Owner_Gone"
    and a: "authorize_payload tx ns wall2 kind (ev_payload_json seen) ow e (env db) = Inr (True, db')"
    by auto
  let ?p = "ev_payload_json seen"
  from authorize_payload_cases [OF a] obtain url rid where u: "str_field ''url'' ?p = Inr url" "str_field ''resource_id'' ?p = Inr rid"
      "\<not> has_reference url (map_of ?p ''is_prefix'' = Some (JBool True)) (get_str ''catalog_namespace'' ?p) (get_str ''catalog_table'' ?p)
          (get_str ''catalog_family_prefix'' ?p) (env db)"
      "\<not> source_in_use ns url rid (env db)" "sql_gt (ev_lease_expires_at e) wall2"
      "events db' = events (put_event (e\<lparr>ev_payload_json := with_phase SP_AUTHORIZED (ev_payload_json e)\<rparr>) (env db))"
    by auto
  obtain f where f: "get_row ev_id eid (events (env db)) = Some f" "intent_move seen f"
    using intents_move_kept [OF storage_run_moves [OF env] inv e(1)] by blast
  have "intents_inv (events (env db))" by (rule intents.run_inv [OF env inv])
  then have "distinct (map fst (ev_payload_json e))"
    using f e get_row_SomeD [OF e(2)] by (auto simp: intents_inv_def intent_ok_def intent_move_def)
  then have same: "map_of (ev_payload_json e) = map_of ?p" using same_dict_map_of e(4) by (simp add: claim_holds_event_def)
  have "\<not> still_owned ns ?p (tx_wall tx) (env db)"
    using unreferenced [OF u(1) _ u(3)] unused [OF u(1,2,4)] owner_gone [OF o] by (auto simp: still_owned_def)
  then have "\<not> still_owned ns (ev_payload_json e) (tx_wall tx) (env db)" by (simp add: still_owned_dict [OF same])
  moreover have "get_row ev_id eid (events db') = Some (e\<lparr>ev_payload_json := with_phase SP_AUTHORIZED (ev_payload_json e)\<rparr>)"
    using e(2) get_row_SomeD [OF e(2)] by (simp add: u(6) put_event_def get_row_replace)
  ultimately show ?thesis using e u(5) by (auto simp: claim_holds_event_def)
qed

definition authorized_storage :: compute_db where
  "authorized_storage = put_event ((hd (events upload_storage))
     \<lparr>ev_payload_json := with_phase SP_AUTHORIZED (ev_payload_json (hd (events upload_storage)))\<rparr>) upload_storage"

lemmas storage_example_defs = upload_storage_def empty_compute_def claim_event_def new_intent_def new_event_def owner_payload_def
  with_phase_def example_settings_def example_txn_def seconds_def

lemma example_authorization:
  "authorize_cleanup (example_txn 2 ''x'') ''n'' 2 (\<lambda>d. d) ''e1'' ''t1'' 1 upload_storage = Inr (True, authorized_storage)"
  by (simp add: authorize_cleanup_def authorize_payload_def authorized_storage_def storage_example_defs table_simps claim_holds_event_def
      same_dict_def str_field_def lock_owner_def phase_of_def owner_verdict_def has_reference_def source_in_use_def
      has_active_request_for_datasource_def has_active_build_for_datasource_def Let_def)

theorem cleanup_authorization_safe_witness:
  "\<not> still_owned ''n'' (ev_payload_json (hd (events upload_storage))) 2 upload_storage \<and>
   map_option (\<lambda>e. phase_of (ev_payload_json e)) (get_row ev_id ''e1'' (events authorized_storage)) = Some (Inr SP_AUTHORIZED)"
proof -
  obtain e where e: "get_row ev_id ''e1'' (events upload_storage) = Some e"
      "\<not> still_owned ''n'' (ev_payload_json e) (tx_wall (example_txn 2 ''x'')) upload_storage"
      "get_row ev_id ''e1'' (events authorized_storage) = Some (e\<lparr>ev_payload_json := with_phase SP_AUTHORIZED (ev_payload_json e)\<rparr>)"
    using cleanup_authorization_safe [OF upload_storage_inv rtranclp.rtrancl_refl example_authorization] by blast
  have "get_row ev_id ''e1'' (events upload_storage) = Some (hd (events upload_storage))" by (simp add: storage_example_defs table_simps)
  then have "e = hd (events upload_storage)" using e(1) by (metis option.inject)
  then show ?thesis using e by (simp add: example_txn_def)
qed

lemma authorize_marks:
  assumes "authorize_cleanup tx ns wall2 env eid tok g db = Inr (True, db')"
  shows "\<exists>e. get_row ev_id eid (events (env db)) = Some e \<and>
    get_row ev_id eid (events db') = Some (e\<lparr>ev_payload_json := with_phase SP_AUTHORIZED (ev_payload_json e)\<rparr>)"
proof -
  obtain seen e kind ow where "get_row ev_id eid (events db) = Some seen" and e: "get_row ev_id eid (events (env db)) = Some e"
    and a: "authorize_payload tx ns wall2 kind (ev_payload_json seen) ow e (env db) = Inr (True, db')"
    using authorize_cases [OF assms] by blast
  from authorize_payload_cases [OF a]
  have "events db' = events (put_event (e\<lparr>ev_payload_json := with_phase SP_AUTHORIZED (ev_payload_json e)\<rparr>) (env db))" by auto
  then show ?thesis using e get_row_SomeD [OF e] by (simp add: put_event_def get_row_replace)
qed

text \<open>C3: an authorization is final. Whatever transactions follow it, registrations of the same source for a
  preflight included, the intent stays authorized or deleted. Then creating a datasource whose configuration publishes
  the object, publishing an ingest or an update with such a configuration, validating the object as the source of a
  preflight and handing it to a consumer all raise, also when other sessions commit between the statements of that attempt.
  (A preflight is only registered after its source was validated; outputs of builds do not settle publications.)\<close>

theorem authorized_path_never_published:
  fixes db :: "'a compute_db_scheme"
  assumes inv: "intents_inv (events db)" and env: "(storage_step uuid5 dburl cfg)\<^sup>*\<^sup>* db (env db)"
    and auth: "authorize_cleanup tx ns wall2 env (storage_event_id uuid5 ns url) tok g db = Inr (True, db')"
    and run: "(storage_step uuid5 dburl cfg)\<^sup>*\<^sup>* db' t" and env2: "(storage_step uuid5 dburl cfg)\<^sup>*\<^sup>* t (env2 t)"
    and path: "url \<in> set (published_paths config)"
    and fresh: "ds_config new = config" "get_row ds_id (ds_id new) (datasources t) = None" "get_row ds_id (ds_id new) (datasources (env2 t)) = None"
  shows "(\<exists>e. get_row ev_id (storage_event_id uuid5 ns url) (events t) = Some e \<and> phase_of (ev_payload_json e) \<in> {Inr SP_AUTHORIZED, Inr SP_DELETED}) \<and>
    (\<exists>x. publish_ingest uuid5 tx2 ns did config rv schema guard env2 t = Inl x) \<and>
    (\<forall>d d'. get_active_datasource upd_id t = Inr d \<and> apply_update read_is_excel upd selection d = Inr d' \<and> d' \<noteq> d \<and> ds_config d' = config \<longrightarrow>
       (\<exists>x. update_datasource uuid5 read_is_excel tx2 ns upd_id upd selection expected t = Inl x)) \<and>
    (\<exists>x. create_datasource uuid5 tx2 tx3 ns new guard env2 t = Inl x) \<and>
    (\<exists>x. validate_source_enqueue uuid5 ns url env2 t = Inl x) \<and>
    (\<exists>x. transfer_preflight_source uuid5 cfg tx2 i ns url rid env2 t = Inl x)"
proof -
  let ?id = "storage_event_id uuid5 ns url"
  obtain e where e: "get_row ev_id ?id (events (env db)) = Some e"
      "get_row ev_id ?id (events db') = Some (e\<lparr>ev_payload_json := with_phase SP_AUTHORIZED (ev_payload_json e)\<rparr>)"
    using authorize_marks [OF auth] by blast
  have step: "storage_step uuid5 dburl cfg db db'" by (rule st_authorize [OF auth env])
  have inv': "intents_inv (events db')" using storage_step_moves [OF step] inv by (simp add: intents_move_def)
  have "ev_kind e = STORAGE_CLEANUP_KIND"
    using authorize_cases [OF auth] e(1) intents_move_kept [OF storage_run_moves [OF env] inv] by (fastforce simp: intent_move_def)
  then have b: "barred (e\<lparr>ev_payload_json := with_phase SP_AUTHORIZED (ev_payload_json e)\<rparr>)" by (simp add: barred_def)
  obtain e1 where e1: "get_row ev_id ?id (events t) = Some e1" "barred e1"
    using intents_move_kept [OF storage_run_moves [OF run] inv' e(2)] b by (auto simp: intent_move_def)
  obtain e2 where e2: "get_row ev_id ?id (events (env2 t)) = Some e2" "barred e2"
    using intents_move_kept [OF storage_run_moves [OF env2] intents.run_inv [OF run inv'] e1(1)] e1(2) by (auto simp: intent_move_def)
  have settle: "\<exists>x. settle_publication uuid5 tx' ns config d = Inl x" if "events d = events (env2 t)" for tx' and d :: "'a compute_db_scheme"
    using settle_publication_barred [of uuid5 ns url d e2 config] e2 path that by simp
  obtain x where x: "lock_source_intent uuid5 ns url env2 t = Inl x" using lock_source_barred [where env = env2, OF e1(1) e2] by blast
  have "\<exists>x. publish_ingest uuid5 tx2 ns did config rv schema guard env2 t = Inl x"
    using settle [of "env2 t\<lparr>datasources := update_where (publication_where did rv)
        (\<lambda>d. d\<lparr>ds_config := config, ds_revision := rv + 1, ds_schema_cache := schema\<rparr>) (datasources (env2 t))\<rparr>" tx2]
    by (cases "check_guard guard t") (auto simp: publish_ingest_def Let_def split: option.split)
  moreover have "\<exists>x. create_datasource uuid5 tx2 tx3 ns new guard env2 t = Inl x"
    using settle [of "env2 t\<lparr>datasources := datasources (env2 t) @ [imported new]\<rparr>" tx2] fresh
    by (cases "check_guard guard t") (auto simp: create_datasource_def Let_def)
  moreover have "\<exists>x. update_datasource uuid5 read_is_excel tx2 ns upd_id upd selection expected t = Inl x"
    if "get_active_datasource upd_id t = Inr d" "apply_update read_is_excel upd selection d = Inr d'" "d' \<noteq> d" "ds_config d' = config" for d d'
    using settle_publication_barred [of uuid5 ns url "t\<lparr>datasources := update_where (\<lambda>x. ds_id x = upd_id)
        (\<lambda>_. d'\<lparr>ds_revision := ds_revision d + 1\<rparr>) (datasources t)\<rparr>" e1 config tx2] e1 path that
    by (auto simp: update_datasource_def Let_def)
  moreover have "\<exists>e. get_row ev_id ?id (events t) = Some e \<and> phase_of (ev_payload_json e) \<in> {Inr SP_AUTHORIZED, Inr SP_DELETED}"
    using e1 by (auto simp: barred_def)
  ultimately show ?thesis using x by (simp add: validate_source_enqueue_def transfer_preflight_source_def)
qed

definition example_upload_datasource :: datasource where
  "example_upload_datasource = \<lparr>ds_id = ''d1'', ds_name = ''d'', ds_description = None, ds_source_type = ''file'',
     ds_config = JObj [(''file_path'', JStr ''s3://n/uploads/f'')], ds_schema_cache = None, ds_revision = 1,
     ds_created_by_analysis_id = None, ds_created_by = ''import'', ds_is_hidden = False, ds_is_pending_delete = False,
     ds_owner_id = None, ds_created_at = 1, ds_delete_requested_at = None\<rparr>"

theorem authorized_path_never_published_witness:
  "\<exists>x. create_datasource (\<lambda>_. ''e1'') (example_txn 3 ''x'') (example_txn 3 ''x'') ''n'' example_upload_datasource (\<lambda>_. None) (\<lambda>d. d)
     authorized_storage = Inl x"
proof -
  have id: "storage_event_id (\<lambda>_. ''e1'') ''n'' ''s3://n/uploads/f'' = ''e1''" by (simp add: storage_event_id_def)
  have paths: "''s3://n/uploads/f'' \<in> set (published_paths (ds_config example_upload_datasource))"
    by (simp add: published_paths_def example_upload_datasource_def json_str_def json_get_def nested_def)
  have none: "get_row ds_id (ds_id example_upload_datasource) (datasources authorized_storage) = None"
    by (simp add: authorized_storage_def put_event_def upload_storage_def empty_compute_def table_simps)
  note p = authorized_path_never_published [where ?uuid5.0 = "\<lambda>_. ''e1''" and url = "''s3://n/uploads/f''" and ns = "''n''",
      unfolded id, OF upload_storage_inv rtranclp.rtrancl_refl example_authorization rtranclp.rtrancl_refl]
  show ?thesis using p [where ?env2.0 = "\<lambda>d. d", OF rtranclp.rtrancl_refl paths refl none none] by blast
qed

subsection \<open>Deleting a datasource\<close>

text \<open>The stored objects a datasource row refers to.\<close>

definition datasource_objects :: "datasource \<Rightarrow> string list" where
  "datasource_objects d =
     concat (map (\<lambda>x. case x of None \<Rightarrow> [] | Some s \<Rightarrow> [s])
       [if ds_source_type d = ''iceberg'' then json_str ''metadata_path'' (ds_config d) else None,
        if ds_source_type d = ''file'' then json_str ''file_path'' (ds_config d) else None,
        if json_str ''source_type'' (nested ''source'' (ds_config d)) = Some ''file'' then json_str ''file_path'' (nested ''source'' (ds_config d)) else None])"

definition awaits_deletion :: "string \<Rightarrow> outbox_event list \<Rightarrow> bool" where
  "awaits_deletion i es \<longleftrightarrow> (\<exists>e. get_row ev_id i es = Some e \<and> ev_kind e = STORAGE_CLEANUP_KIND \<and>
     (phase_of (ev_payload_json e) = Inr SP_TRACKED \<or> barred e))"

lemma awaits_put:
  assumes "awaits_deletion j (events db)" and "ev_kind e = STORAGE_CLEANUP_KIND" and "phase_of (ev_payload_json e) = Inr SP_TRACKED"
  shows "awaits_deletion j (events (put_event e db))"
  using assms by (auto simp: awaits_deletion_def put_event_def get_row_replace)

lemma awaits_enqueue:
  assumes "enqueue_datasource_target uuid5 cfg tx i ns url p db = Inr db'"
  shows "awaits_deletion (storage_event_id uuid5 ns url) (events db') \<and> (awaits_deletion j (events db) \<longrightarrow> awaits_deletion j (events db'))"
proof (cases "get_row ev_id (storage_event_id uuid5 ns url) (events db)")
  case None
  then show ?thesis using assms new_intent_ok(1)
    by (auto simp: enqueue_datasource_target_def enqueue_intent_def Let_def awaits_deletion_def table_simps new_intent_def new_event_def
        elim!: and_then_okE split: if_splits)
next
  case (Some e)
  let ?e = "rearm_event (tx_now tx) None (e\<lparr>ev_payload_json := with_phase SP_TRACKED (AList.update ''url'' (JStr url) p), ev_dispatched_at := None\<rparr>)"
  have k: "ev_kind e = STORAGE_CLEANUP_KIND" and c: "barred e \<and> db' = db \<or> events db' = events (put_event ?e db)"
    using assms by (auto simp: enqueue_datasource_target_def Some identity_in_use_def barred_def elim!: and_then_okE split: if_splits)
  have id: "ev_id e = storage_event_id uuid5 ns url" using get_row_SomeD [OF Some] by simp
  from c show ?thesis
  proof
    assume c: "events db' = events (put_event ?e db)"
    have "awaits_deletion (storage_event_id uuid5 ns url) (events (put_event ?e db))"
      using Some k id by (auto simp: awaits_deletion_def put_event_def get_row_replace rearm_event_def)
    then show ?thesis unfolding c using awaits_put [of j db ?e] k by (simp add: rearm_event_def)
  qed (use Some k in \<open>auto simp: awaits_deletion_def\<close>)
qed

lemma awaits_targets:
  assumes "enqueue_targets uuid5 cfg tx i ns did ts db = Inr (n, db')"
  shows "(awaits_deletion j (events db) \<longrightarrow> awaits_deletion j (events db')) \<and>
    (\<forall>url \<in> fst ` set ts. is_managed_url ns MANAGED_ROOTS url = Inr True \<longrightarrow> awaits_deletion (storage_event_id uuid5 ns url) (events db'))"
  using assms
proof (induction ts arbitrary: i db j)
  case (Cons t ts)
  obtain url pre identity where t: "t = (url, pre, identity)" by (cases t)
  from Cons.prems obtain m where m: "is_managed_url ns MANAGED_ROOTS url = Inr m" by (auto simp: t elim!: and_then_okE)
  show ?case
  proof (cases m)
    case False
    then have "enqueue_targets uuid5 cfg tx i ns did ts db = Inr (n, db')" using Cons.prems m by (simp add: t)
    from Cons.IH [OF this] show ?thesis using m False by (auto simp: t)
  next
    case True
    with Cons.prems m obtain p db1 where q: "enqueue_datasource_target uuid5 cfg tx i ns url p db = Inr db1"
        "enqueue_targets uuid5 cfg tx (Suc i) ns did ts db1 = Inr (n, db')"
      by (auto simp: t elim!: and_then_okE)
    show ?thesis using awaits_enqueue [OF q(1)] Cons.IH [OF q(2)] by (auto simp: t)
  qed
qed simp

lemma awaits_rearm:
  "rearm_published cfg tx i ns tbl fp ss db = Inr db' \<Longrightarrow> \<forall>s \<in> set ss. ev_kind s = STORAGE_CLEANUP_KIND \<Longrightarrow>
   \<forall>s \<in> set ss. \<forall>e \<in> set (events db). ev_id e = ev_id s \<longrightarrow> ev_kind e = STORAGE_CLEANUP_KIND \<Longrightarrow>
   awaits_deletion j (events db) \<Longrightarrow> awaits_deletion j (events db')"
proof (induction ss arbitrary: i db)
  case (Cons s ss)
  show ?case
  proof (cases "rearm_published cfg tx i ns tbl fp ss db = Inr db'")
    case False
    with Cons.prems(1) obtain e where e: "get_row ev_id (ev_id s) (events db) = Some e"
      and r: "rearm_published cfg tx (Suc i) ns tbl fp ss
        (rearm cfg tx i ns (e\<lparr>ev_payload_json := with_phase SP_TRACKED (ev_payload_json s), ev_dispatched_at := None\<rparr>) None db) = Inr db'"
      by (auto simp: Let_def elim!: and_then_okE split: if_splits option.splits)
    let ?e = "rearm_event (tx_now tx) None (e\<lparr>ev_payload_json := with_phase SP_TRACKED (ev_payload_json s), ev_dispatched_at := None\<rparr>)"
    have k: "ev_kind e = STORAGE_CLEANUP_KIND" using Cons.prems(3) get_row_SomeD [OF e] by simp
    have "awaits_deletion j (events (put_event ?e db))" by (rule awaits_put [OF Cons.prems(4)]) (simp_all add: rearm_event_def k)
    moreover have "\<forall>s \<in> set ss. \<forall>e \<in> set (events (put_event ?e db)). ev_id e = ev_id s \<longrightarrow> ev_kind e = STORAGE_CLEANUP_KIND"
      using Cons.prems(3) k by (auto simp: put_event_def set_update_where rearm_event_def)
    moreover have "\<forall>s \<in> set ss. ev_kind s = STORAGE_CLEANUP_KIND" using Cons.prems(2) by simp
    ultimately show ?thesis using Cons.IH [OF r] by (simp only: events_storage_frames)
  next
    case True
    have a: "\<forall>s \<in> set ss. ev_kind s = STORAGE_CLEANUP_KIND"
      "\<forall>s \<in> set ss. \<forall>e \<in> set (events db). ev_id e = ev_id s \<longrightarrow> ev_kind e = STORAGE_CLEANUP_KIND"
      using Cons.prems(2,3) by (meson list.set_intros(2))+
    show ?thesis by (rule Cons.IH [OF True a Cons.prems(4)])
  qed
qed simp

lemma setdefault_keys: "fst ` set (setdefault k v d) = insert k (fst ` set d)"
  by (force simp: setdefault_def split: option.split dest: map_of_SomeD)

lemma file_targets_keys:
  "fst ` set (file_targets d ts) = fst ` set ts \<union>
     {f. ds_source_type d = ''file'' \<and> json_str ''file_path'' (ds_config d) = Some f} \<union>
     {f. json_str ''source_type'' (nested ''source'' (ds_config d)) = Some ''file'' \<and> json_str ''file_path'' (nested ''source'' (ds_config d)) = Some f}"
proof -
  have keys: "fst ` set (fold (\<lambda>x acc. case x of None \<Rightarrow> acc | Some f \<Rightarrow> setdefault f (False, []) acc) xs acc) =
      fst ` set acc \<union> {f. Some f \<in> set xs}" for xs :: "string option list" and acc :: targets
    by (induction xs arbitrary: acc) (auto simp: setdefault_keys split: option.split)
  have src: "(case json_get ''source'' (ds_config d) of
      Some (JObj src) \<Rightarrow> if get_str ''source_type'' src = Some ''file'' then [get_str ''file_path'' src] else [] | _ \<Rightarrow> []) =
    (if json_str ''source_type'' (nested ''source'' (ds_config d)) = Some ''file'' then [json_str ''file_path'' (nested ''source'' (ds_config d))] else [])"
  proof (cases "json_get ''source'' (ds_config d)")
    case None
    then show ?thesis by (simp add: nested_def json_str_def [of _ JNull] json_get_def [of _ JNull])
  next
    case (Some j)
    then show ?thesis by (cases j) (simp_all add: nested_def json_str_def json_get_def get_str_def)
  qed
  show ?thesis by (simp only: file_targets_def Let_def src keys) auto
qed

lemma metadata_targets_keys:
  assumes "metadata_targets did identity (Some m) = Inr ts"
  shows "m \<in> fst ` set ts"
  using assms by (auto simp: metadata_targets_def Let_def dom_update elim!: and_then_okE split: if_splits)

lemma awaits_rearm_catalog:
  assumes "rearm_published_catalog_intents cfg tx i ns nsp tbl fp db = Inr db'" and inv: "intents_inv (events db)"
    and "awaits_deletion j (events db)"
  shows "awaits_deletion j (events db')"
proof (rule awaits_rearm [OF assms(1) [unfolded rearm_published_catalog_intents_def] _ _ assms(3)])
  show "\<forall>s \<in> set (catalog_intents nsp tbl fp db). ev_kind s = STORAGE_CLEANUP_KIND" using catalog_intents_subset by fastforce
  show "\<forall>s \<in> set (catalog_intents nsp tbl fp db). \<forall>e \<in> set (events db). ev_id e = ev_id s \<longrightarrow> ev_kind e = STORAGE_CLEANUP_KIND"
  proof (intro ballI impI)
    fix s e assume s: "s \<in> set (catalog_intents nsp tbl fp db)" and e: "e \<in> set (events db)" "ev_id e = ev_id s"
    have k: "s \<in> set (events db)" "ev_kind s = STORAGE_CLEANUP_KIND" using catalog_intents_subset [of nsp tbl fp db] s by blast+
    then have "e = s" using unique_by_eq [of ev_id "events db" e s] inv e by (simp add: intents_inv_def)
    then show "ev_kind e = STORAGE_CLEANUP_KIND" using k(2) by simp
  qed
qed

lemma cleanup_awaits:
  assumes "enqueue_datasource_cleanup uuid5 dburl cfg tx ns d db = Inr db'" and inv: "intents_inv (events db)" and "ds_config d = JObj c"
    and url: "url \<in> set (datasource_objects d)" "is_managed_url ns MANAGED_ROOTS url = Inr True"
  shows "awaits_deletion (storage_event_id uuid5 ns url) (events db')"
proof -
  let ?m = "if ds_source_type d = ''iceberg'' then json_str ''metadata_path'' (ds_config d) else None"
  from assms(1,3) obtain identity ts n db1 where t: "metadata_targets (ds_id d) identity ?m = Inr ts"
      "enqueue_targets uuid5 cfg tx 0 ns (ds_id d) (sort_key fst (file_targets d ts)) db = Inr (n, db1)"
      "db' = db1 \<or> (\<exists>nsp tbl fp. rearm_published_catalog_intents cfg tx n ns nsp tbl fp db1 = Inr db')"
    by (auto simp: enqueue_datasource_cleanup_def Let_def elim!: and_then_okE split: option.splits prod.splits) blast+
  have "url \<in> fst ` set (file_targets d ts)"
    using url(1) metadata_targets_keys [of "ds_id d" identity url ts] t(1)
    by (auto simp: datasource_objects_def file_targets_keys split: if_splits option.splits)
  then have a: "awaits_deletion (storage_event_id uuid5 ns url) (events db1)" using awaits_targets [OF t(2)] url(2) by auto
  have "intents_inv (events db1)" using enqueue_targets_moves [OF t(2)] inv by (simp add: intents_move_def)
  then show ?thesis using t(3) a awaits_rearm_catalog by blast
qed

text \<open>A finalized deletion forgets no object. When the deletion of a datasource is finalized, nothing
  active refers to it, its row is gone, and every object in managed storage that the row referred to
  has an intent that is tracked for deletion or already authorized or deleted.\<close>

theorem finalize_delete_tracks_objects:
  fixes db :: "'a compute_db_scheme"
  assumes inv: "intents_inv (events db)" and row: "get_row ds_id did (datasources db) = Some d" "ds_config d = JObj c"
    and fin: "finalize_delete uuid5 dburl cfg tx ns did db = Inr (True, db')"
  shows "ds_is_pending_delete d \<and> \<not> has_active_request_for_datasource did db \<and> \<not> has_active_build_for_datasource ns did db \<and>
    get_row ds_id did (datasources db') = None \<and>
    (\<forall>url \<in> set (datasource_objects d). is_managed_url ns MANAGED_ROOTS url = Inr True \<longrightarrow>
       awaits_deletion (storage_event_id uuid5 ns url) (events db'))"
proof -
  from fin row obtain db1 where g: "ds_is_pending_delete d" "\<not> has_active_request_for_datasource did db" "\<not> has_active_build_for_datasource ns did db"
    and c: "enqueue_datasource_cleanup uuid5 dburl cfg tx ns d db = Inr db1"
    and db': "db' = refresh_quiet cfg ns K_DATASOURCE_DELETE delete_work_pending (\<lambda>_ _. None) (tx_stmt tx)
      (db1\<lparr>datasources := delete_where (\<lambda>x. ds_id x = did) (datasources db1)\<rparr>)"
    by (auto simp: finalize_delete_def Let_def elim!: and_then_okE split: if_splits)
  have ds: "datasources (refresh_quiet cfg ns k pq dq now x) = datasources x" for k pq dq now and x :: "'a compute_db_scheme"
    using refresh_quiet_cases [of cfg ns k pq dq now x] by (auto simp: publish_marker_def delete_wakes_def Let_def split: option.splits)
  have "get_row ds_id did (datasources db') = None" by (auto simp: db' ds get_row_None_iff delete_where_def)
  then show ?thesis using g cleanup_awaits [OF c inv row(2)] by (simp add: db')
qed

definition pending_storage :: compute_db where
  "pending_storage = upload_storage\<lparr>datasources := [example_upload_datasource\<lparr>ds_is_pending_delete := True\<rparr>]\<rparr>"

lemma example_managed: "is_managed_url ''n'' MANAGED_ROOTS ''s3://n/uploads/f'' = Inr True"
  by code_simp

lemma example_finalize: "\<exists>db'. finalize_delete (\<lambda>_. ''e1'') ''db'' example_settings (example_txn 2 ''x'') ''n'' ''d1'' pending_storage = Inr (True, db')"
  by (simp add: finalize_delete_def pending_storage_def example_upload_datasource_def table_simps has_active_request_for_datasource_def
      has_active_build_for_datasource_def upload_storage_def empty_compute_def enqueue_datasource_cleanup_def metadata_targets_def file_targets_def
      setdefault_def json_str_def json_get_def example_managed enqueue_datasource_target_def storage_event_id_def identity_in_use_def
      claim_event_def new_intent_def new_event_def with_phase_def owner_payload_def phase_of_def str_field_def get_str_def merge_obj_def Let_def)

theorem finalize_delete_tracks_objects_witness:
  "\<exists>db'. finalize_delete (\<lambda>_. ''e1'') ''db'' example_settings (example_txn 2 ''x'') ''n'' ''d1'' pending_storage = Inr (True, db') \<and>
     awaits_deletion ''e1'' (events db') \<and> get_row ds_id ''d1'' (datasources db') = None"
proof -
  obtain db' where f: "finalize_delete (\<lambda>_. ''e1'') ''db'' example_settings (example_txn 2 ''x'') ''n'' ''d1'' pending_storage = Inr (True, db')"
    using example_finalize by blast
  have inv: "intents_inv (events pending_storage)" using upload_storage_inv by (simp add: pending_storage_def)
  have r: "get_row ds_id ''d1'' (datasources pending_storage) = Some (example_upload_datasource\<lparr>ds_is_pending_delete := True\<rparr>)"
    "ds_config (example_upload_datasource\<lparr>ds_is_pending_delete := True\<rparr>) = JObj [(''file_path'', JStr ''s3://n/uploads/f'')]"
    by (simp_all add: pending_storage_def example_upload_datasource_def table_simps)
  have "''s3://n/uploads/f'' \<in> set (datasource_objects (example_upload_datasource\<lparr>ds_is_pending_delete := True\<rparr>))"
    by (simp add: datasource_objects_def example_upload_datasource_def json_str_def json_get_def)
  then have "awaits_deletion ''e1'' (events db')" "get_row ds_id ''d1'' (datasources db') = None"
    using finalize_delete_tracks_objects [OF inv r f] example_managed by (auto simp: storage_event_id_def)
  then show ?thesis using f by blast
qed

end
