(* ===== verification/Analysis_Cycles.thy ===== *)
theory Analysis_Cycles
  imports Compute_Types
begin

text \<open>
  Analyses that read the outputs of other analyses must not form a cycle
  (\<open>backend_core/analysis_cycles.py\<close>). A datasource of the type \<open>analysis\<close> stands for the analysis that
  created it; before an analysis starts to read such a datasource, the links that are already there are
  searched depth first.
\<close>

record analysis_link =
  al_analysis_id :: string
  al_datasource_id :: string

record analysis_db = compute_db +
  analysis_links :: "analysis_link list"

definition DATA_SOURCE_TYPES :: "string list" where
  "DATA_SOURCE_TYPES = [''file'', ''database'', ''iceberg'', ''analysis'', ''schedule'']"

text \<open>\<open>is_analysis_source\<close> raises on a type that is not one of the enum.\<close>

definition is_analysis_source :: "datasource \<Rightarrow> bool result" where
  "is_analysis_source d =
     (if ds_source_type d \<notin> set DATA_SOURCE_TYPES then Inl (ValueError ''Unsupported DataSourceType'')
      else Inr (ds_source_type d = ''analysis''))"

definition analysis_source_id :: "datasource \<Rightarrow> string result" where
  "analysis_source_id d =
     (if truthy (ds_created_by_analysis_id d) then Inr (the (ds_created_by_analysis_id d))
      else Inl (ValueError (''Analysis datasource '' @ ds_id d @ '' missing created_by_analysis_id'')))"

text \<open>What the body of the loop over the links of an analysis recurses into: nothing, an analysis, or
  an exception.\<close>

definition link_target :: "'a analysis_db_scheme \<Rightarrow> analysis_link \<Rightarrow> string option result" where
  "link_target db l =
     (case get_row ds_id (al_datasource_id l) (datasources db) of
        None \<Rightarrow> Inr None
      | Some d \<Rightarrow> and_then (is_analysis_source d) (\<lambda>a. if a then and_then (analysis_source_id d) (\<lambda>s. Inr (Some s)) else Inr None))"

definition links_of :: "'a analysis_db_scheme \<Rightarrow> string \<Rightarrow> string option result list" where
  "links_of db a = map (link_target db) (filter (\<lambda>l. al_analysis_id l = a) (analysis_links db))"

definition targets_of :: "string option result list \<Rightarrow> string set" where
  "targets_of ls = {t. Inr (Some t) \<in> set ls}"

definition all_targets :: "'a analysis_db_scheme \<Rightarrow> string set" where
  "all_targets db = targets_of (map (link_target db) (analysis_links db))"

lemma targets_of_simps [simp]:
  "targets_of [] = {}" "targets_of (Inl x # ls) = targets_of ls" "targets_of (Inr None # ls) = targets_of ls"
  "targets_of (Inr (Some t) # ls) = insert t (targets_of ls)"
  by (auto simp: targets_of_def)

lemma finite_targets [simp]: "finite (targets_of ls)"
proof -
  have "targets_of ls \<subseteq> (\<lambda>x. the (projr x)) ` set ls" by (force simp: targets_of_def)
  then show ?thesis by (rule finite_subset) simp
qed

lemma links_subset: "targets_of (links_of db a) \<subseteq> all_targets db"
  by (auto simp: targets_of_def links_of_def all_targets_def)

text \<open>The loop of \<open>reaches_analysis\<close> over the remaining links, with the recursive call in its body; the
  set \<open>visited\<close> is shared by all calls.\<close>

function (sequential) reaches_any ::
  "'a analysis_db_scheme \<Rightarrow> string \<Rightarrow> string list \<Rightarrow> string option result list \<Rightarrow> (bool \<times> string list) result" where
  "reaches_any db goal visited [] = Inr (False, visited)"
| "reaches_any db goal visited (Inl x # ls) = Inl x"
| "reaches_any db goal visited (Inr None # ls) = reaches_any db goal visited ls"
| "reaches_any db goal visited (Inr (Some t) # ls) =
     (if t = goal then Inr (True, visited)
      else if t \<in> set visited then reaches_any db goal visited ls
      else case reaches_any db goal (t # visited) (links_of db t) of
             Inl x \<Rightarrow> Inl x
           | Inr (found, visited') \<Rightarrow> if found then Inr (True, visited') else reaches_any db goal visited' ls)"
  by pat_completeness auto

lemma reaches_any_visited:
  "reaches_any_dom (db, goal, visited, ls) \<Longrightarrow> reaches_any db goal visited ls = Inr (b, visited') \<Longrightarrow> set visited \<subseteq> set visited'"
proof (induction db goal visited ls arbitrary: b visited' rule: reaches_any.pinduct)
  case (4 db goal visited t ls)
  show ?case
  proof (cases "t = goal \<or> t \<in> set visited")
    case True
    then show ?thesis using 4 by (auto simp: reaches_any.psimps split: if_splits)
  next
    case False
    then show ?thesis using "4.prems" "4.IH"(2,3) "4.hyps"
      by (fastforce simp: reaches_any.psimps split: if_splits sum.splits prod.splits)
  qed
qed (simp_all add: reaches_any.psimps)

lemma targets_shrink:
  "t \<notin> set visited \<Longrightarrow> card (all_targets db \<union> targets_of (links_of db t) - set (t # visited)) <
     card (all_targets db \<union> targets_of (Inr (Some t) # ls) - set visited)"
  using links_subset [of db t] by (intro psubset_card_mono) (auto simp: all_targets_def)

lemma targets_mono:
  "targets_of ls \<subseteq> targets_of ms \<Longrightarrow> set visited \<subseteq> set visited' \<Longrightarrow>
   card (all_targets db \<union> targets_of ls - set visited') \<le> card (all_targets db \<union> targets_of ms - set visited)"
  by (intro card_mono) (auto simp: all_targets_def)

termination reaches_any
proof (relation "measures [\<lambda>(db, goal, visited, ls). card ((all_targets db \<union> targets_of ls) - set visited), \<lambda>(db, goal, visited, ls). length ls]",
    goal_cases)
  case (2 db goal visited ls)
  show ?case using targets_mono [of ls "Inr None # ls" visited visited db] by (auto simp: le_less)
next
  case (3 db goal visited t ls)
  show ?case using targets_mono [of ls "Inr (Some t) # ls" visited visited db] by (auto simp: le_less)
next
  case (4 db goal visited t ls)
  then show ?case using targets_shrink [of t visited db ls] by simp
next
  case (5 db goal visited t ls x found visited')
  then have "set (t # visited) \<subseteq> set visited'" using reaches_any_visited [OF 5(6), of False visited'] by (cases x) auto
  then show ?case using targets_mono [of ls "Inr (Some t) # ls" visited visited' db] by (auto simp: le_less)
qed simp

text \<open>\<open>assert_no_analysis_cycle\<close>: the outermost call is the loop over a single link.\<close>

definition assert_no_analysis_cycle :: "'a analysis_db_scheme \<Rightarrow> string \<Rightarrow> string \<Rightarrow> unit result" where
  "assert_no_analysis_cycle db analysis_id source_analysis_id =
     (if analysis_id = source_analysis_id
      then Inl (AppError ''ANALYSIS_CYCLE_ERROR'' ''Analysis cannot use itself as a datasource'')
      else and_then (reaches_any db analysis_id [] [Inr (Some source_analysis_id)]) (\<lambda>(found, _).
             if found then Inl (AppError ''ANALYSIS_CYCLE_ERROR'' ''Analysis datasource introduces a cycle'') else Inr ()))"

subsection \<open>The search decides reachability\<close>

text \<open>The analyses an analysis reads, through its datasources.\<close>

definition reads_analysis :: "'a analysis_db_scheme \<Rightarrow> (string \<times> string) set" where
  "reads_analysis db = {(a, b). \<exists>l \<in> set (analysis_links db). \<exists>d. al_analysis_id l = a \<and>
     get_row ds_id (al_datasource_id l) (datasources db) = Some d \<and> ds_source_type d = ''analysis'' \<and> ds_created_by_analysis_id d = Some b}"

definition links_ok :: "'a analysis_db_scheme \<Rightarrow> bool" where
  "links_ok db \<longleftrightarrow> (\<forall>d \<in> set (datasources db). ds_source_type d \<in> set DATA_SOURCE_TYPES \<and>
     (ds_source_type d = ''analysis'' \<longrightarrow> truthy (ds_created_by_analysis_id d)))"

lemma link_target_ok:
  assumes "links_ok db"
  shows "link_target db l = Inr (case get_row ds_id (al_datasource_id l) (datasources db) of
     None \<Rightarrow> None | Some d \<Rightarrow> if ds_source_type d = ''analysis'' then ds_created_by_analysis_id d else None)"
proof (cases "get_row ds_id (al_datasource_id l) (datasources db)")
  case (Some d)
  then have "d \<in> set (datasources db)" by (blast dest: get_row_SomeD)
  then show ?thesis using assms Some
    by (auto simp: link_target_def links_ok_def is_analysis_source_def analysis_source_id_def truthy_def split: option.splits)
qed (simp add: link_target_def)

lemma targets_links: "links_ok db \<Longrightarrow> targets_of (links_of db a) = {b. (a, b) \<in> reads_analysis db}"
  by (auto simp: targets_of_def links_of_def reads_analysis_def link_target_ok split: option.splits if_splits) force+

lemma links_no_error: "links_ok db \<Longrightarrow> Inl x \<notin> set (links_of db a)"
  by (auto simp: links_of_def link_target_ok)

lemma reaches_any_total: "links_ok db \<Longrightarrow> \<forall>x. Inl x \<notin> set ls \<Longrightarrow> \<exists>b v. reaches_any db goal visited ls = Inr (b, v)"
proof (induction db goal visited ls rule: reaches_any.induct)
  case (4 db goal visited t ls)
  then show ?case using links_no_error [of db] by (auto split: sum.splits) (metis old.sum.inject(1) sum.distinct(1))+
qed auto

lemma reaches_any_found: "links_ok db \<Longrightarrow> reaches_any db goal visited ls = Inr (True, v) \<Longrightarrow>
    \<exists>t \<in> targets_of ls. (t, goal) \<in> (reads_analysis db)\<^sup>*"
proof (induction db goal visited ls arbitrary: v rule: reaches_any.induct)
  case (4 db goal visited t ls)
  consider "t = goal" | "t \<noteq> goal" "t \<in> set visited"
    | v1 where "t \<noteq> goal" "t \<notin> set visited" "reaches_any db goal (t # visited) (links_of db t) = Inr (True, v1)"
    | v1 where "t \<noteq> goal" "t \<notin> set visited" "reaches_any db goal (t # visited) (links_of db t) = Inr (False, v1)"
    using "4.prems"(2) by (auto split: if_splits sum.splits)
  then show ?case
  proof cases
    case 2
    then show ?thesis using "4.IH"(1) [OF 2 "4.prems"(1)] "4.prems"(2) by auto
  next
    case 3
    obtain u where "(t, u) \<in> reads_analysis db" "(u, goal) \<in> (reads_analysis db)\<^sup>*"
      using "4.IH"(2) [OF 3(1,2) "4.prems"(1) 3(3)] targets_links [OF "4.prems"(1), of t] by blast
    then show ?thesis by (auto intro: converse_rtrancl_into_rtrancl)
  next
    case 4
    then have "reaches_any db goal v1 ls = Inr (True, v)" using "4.prems"(2) by simp
    then show ?thesis using "4.IH"(3) [OF 4(1,2,3) refl _ "4.prems"(1)] by auto
  qed auto
qed auto

lemma reaches_any_closed: "links_ok db \<Longrightarrow> reaches_any db goal visited ls = Inr (False, v) \<Longrightarrow>
    targets_of ls \<subseteq> set v \<and> set visited \<subseteq> set v \<and> (goal \<in> set v \<longrightarrow> goal \<in> set visited) \<and>
    (\<forall>x \<in> set v - set visited. \<forall>y. (x, y) \<in> reads_analysis db \<longrightarrow> y \<in> set v)"
proof (induction db goal visited ls arbitrary: v rule: reaches_any.induct)
  case (4 db goal visited t ls)
  have g: "t \<noteq> goal" using "4.prems"(2) by (auto split: if_splits)
  show ?case
  proof (cases "t \<in> set visited")
    case True
    then show ?thesis using "4.IH"(1) [OF g True "4.prems"(1)] "4.prems"(2) g by auto
  next
    case False
    with "4.prems"(2) g obtain v1 where r: "reaches_any db goal (t # visited) (links_of db t) = Inr (False, v1)" "reaches_any db goal v1 ls = Inr (False, v)"
      by (auto split: if_splits sum.splits prod.splits)
    have a: "targets_of (links_of db t) \<subseteq> set v1" "set (t # visited) \<subseteq> set v1" "goal \<in> set v1 \<longrightarrow> goal \<in> set (t # visited)"
        "\<forall>x \<in> set v1 - set (t # visited). \<forall>y. (x, y) \<in> reads_analysis db \<longrightarrow> y \<in> set v1"
      using "4.IH"(2) [OF g False "4.prems"(1) r(1)] by blast+
    have b: "targets_of ls \<subseteq> set v" "set v1 \<subseteq> set v" "goal \<in> set v \<longrightarrow> goal \<in> set v1"
        "\<forall>x \<in> set v - set v1. \<forall>y. (x, y) \<in> reads_analysis db \<longrightarrow> y \<in> set v"
      using "4.IH"(3) [OF g False r(1) refl _ "4.prems"(1) r(2)] by simp_all
    have "y \<in> set v" if "x \<in> set v" "x \<notin> set visited" "(x, y) \<in> reads_analysis db" for x y
    proof (cases "x \<in> set v1")
      case True
      have "y \<in> set v1"
      proof (cases "x = t")
        case True
        then have "y \<in> targets_of (links_of db t)" using that(3) targets_links [OF "4.prems"(1), of t] by blast
        then show ?thesis using a(1) by blast
      next
        case False
        then have "x \<in> set v1 - set (t # visited)" using True that(2) by simp
        then show ?thesis using a(4) that(3) by blast
      qed
      then show ?thesis using b(2) by blast
    next
      case False
      then show ?thesis using that b(4) by blast
    qed
    moreover have "insert t (targets_of ls) \<subseteq> set v" "set visited \<subseteq> set v" "goal \<in> set v \<longrightarrow> goal \<in> set visited"
      using a(2,3) b(1-3) g by auto
    ultimately show ?thesis unfolding targets_of_simps by blast
  qed
qed auto

text \<open>C30: the cycle check is exact. On well-formed datasources the check never fails otherwise: it
  refuses a source analysis exactly when the source is the analysis itself or reads it, directly or
  through other analyses, so that accepting it cannot close a cycle.\<close>

theorem analysis_cycle_check_exact:
  assumes ok: "links_ok db"
  shows "(assert_no_analysis_cycle db a s = Inr () \<longleftrightarrow> (s, a) \<notin> (reads_analysis db)\<^sup>*) \<and>
    (assert_no_analysis_cycle db a s = Inr () \<and> (a, a) \<notin> (reads_analysis db)\<^sup>+ \<longrightarrow> (a, a) \<notin> (insert (a, s) (reads_analysis db))\<^sup>+)"
proof -
  let ?R = "reads_analysis db"
  have "assert_no_analysis_cycle db a s = Inr () \<longleftrightarrow> (s, a) \<notin> ?R\<^sup>*"
  proof (cases "a = s")
    case False
    have "\<forall>x. Inl x \<notin> set [Inr (Some s) :: string option result]" by simp
    then obtain b v where r: "reaches_any db a [] [Inr (Some s)] = Inr (b, v)" using reaches_any_total [OF ok] by blast
    show ?thesis
    proof (cases b)
      case True
      then show ?thesis using reaches_any_found [OF ok, of a "[]" "[Inr (Some s)]" v] r False by (simp add: assert_no_analysis_cycle_def)
    next
      case not_found: False
      note c = reaches_any_closed [OF ok, of a "[]" "[Inr (Some s)]" v]
      have "y \<in> set v" if "(s, y) \<in> ?R\<^sup>*" for y
        using that by (induction rule: rtrancl_induct) (use c r not_found in auto)
      then show ?thesis using c r not_found False by (auto simp: assert_no_analysis_cycle_def)
    qed
  qed (simp add: assert_no_analysis_cycle_def)
  moreover have "(a, a) \<notin> (insert (a, s) ?R)\<^sup>+" if "(s, a) \<notin> ?R\<^sup>*" "(a, a) \<notin> ?R\<^sup>+"
    using that by (auto simp: trancl_insert)
  ultimately show ?thesis by blast
qed

definition example_cycle_db :: analysis_db where
  "example_cycle_db = compute_db.extend \<lparr>ipc_sent = [], work_rows = [], wake_rows = [], events = [], receipts = [], part_receipts = [],
     runs = [], run_events = [], run_datasources = [], jobs = [], worker_runs = [], requests = [], request_datasources = [], flights = [],
     datasources = [\<lparr>ds_id = ''d'', ds_name = ''d'', ds_description = None, ds_source_type = ''analysis'', ds_config = JObj [],
       ds_schema_cache = None, ds_revision = 1, ds_created_by_analysis_id = Some ''a1'', ds_created_by = ''analysis'', ds_is_hidden = False,
       ds_is_pending_delete = False, ds_owner_id = None, ds_created_at = 1, ds_delete_requested_at = None\<rparr>]\<rparr>
     \<lparr>analysis_links = [\<lparr>al_analysis_id = ''a2'', al_datasource_id = ''d''\<rparr>]\<rparr>"

theorem analysis_cycle_check_exact_witness: "assert_no_analysis_cycle example_cycle_db ''a1'' ''a2'' \<noteq> Inr ()"
proof -
  have "links_ok example_cycle_db" "(''a2'', ''a1'') \<in> reads_analysis example_cycle_db"
    by (simp_all add: example_cycle_db_def compute_db.extend_def links_ok_def DATA_SOURCE_TYPES_def truthy_def reads_analysis_def table_simps)
  then show ?thesis using analysis_cycle_check_exact [of example_cycle_db "''a1''" "''a2''"] by blast
qed

end
