(* ===== verification/Pipeline_Plan.thy ===== *)
theory Pipeline_Plan
  imports Prelude
begin

text \<open>
  How a worker plans the steps of a pipeline: disabled steps are skipped and their children relinked
  to the nearest applied ancestor (\<open>worker/runtime/compute_utils.py\<close>), the steps are ordered after their
  dependencies, and each branch is computed from its nearest cached ancestor on
  (\<open>_build_pipeline_details\<close> in \<open>worker/runtime/polars_compute.py\<close>).

  The parameter \<open>apply\<close> is the conversion and application of one step by Polars on the frame of its
  parent, \<open>source\<close> the loaded datasource, \<open>blank\<close> the empty frame, \<open>cached\<close> the frames the preview cache has.
  Progress callbacks, timings and the bookkeeping of the cache are not modelled.
\<close>

subsection \<open>Disabled steps\<close>

text \<open>\<open>ps_is_applied\<close> says that \<open>is_applied\<close> is not \<open>False\<close>. A dependency that is null is the empty string.\<close>

record pipeline_step =
  ps_id :: "string option"
  ps_depends_on :: "string list"
  ps_is_applied :: bool
  ps_body :: json

type_synonym step_map = "(string \<times> pipeline_step) list"

definition find_step_index :: "pipeline_step list \<Rightarrow> string \<Rightarrow> int result" where
  "find_step_index steps target =
     (if target = ''source'' then Inr (-1)
      else case find (\<lambda>(i, s). ps_id s = Some target) (enumerate 0 steps) of
             None \<Rightarrow> Inl (AppError ''STEP_NOT_FOUND'' (''Step with id '' @ target @ '' not found in pipeline''))
           | Some (i, _) \<Rightarrow> Inr (int i))"

definition put_step :: "pipeline_step \<Rightarrow> step_map \<Rightarrow> step_map" where
  "put_step s m = (if truthy (ps_id s) then AList.update (the (ps_id s)) s m else m)"

definition build_step_map :: "pipeline_step list \<Rightarrow> step_map" where
  "build_step_map steps = fold put_step steps []"

definition first_dependency :: "pipeline_step \<Rightarrow> string option" where
  "first_dependency s = (case ps_depends_on s of [] \<Rightarrow> None | d # _ \<Rightarrow> if d = [] then None else Some d)"

function applied_ancestor :: "step_map \<Rightarrow> string set \<Rightarrow> string list \<Rightarrow> string \<Rightarrow> string option" where
  "applied_ancestor m applied_ids seen parent =
     (if parent \<in> applied_ids then Some parent
      else if parent \<in> set seen then None
      else case map_of m parent of
             None \<Rightarrow> None
           | Some p \<Rightarrow> (case first_dependency p of None \<Rightarrow> None | Some d \<Rightarrow> applied_ancestor m applied_ids (parent # seen) d))"
  by pat_completeness auto
termination
proof (relation "measure (\<lambda>(m, _, seen, _). card (fst ` set m - set seen))", simp, clarsimp)
  fix m :: step_map and seen parent p
  assume "parent \<notin> set seen" "map_of m parent = Some p"
  then have "parent \<in> fst ` set m - set seen" by (force dest: map_of_SomeD)
  then show "card (fst ` set m - insert parent (set seen)) < card (fst ` set m - set seen)" by (intro psubset_card_mono) auto
qed

declare applied_ancestor.simps [simp del]

definition nearest_applied_ancestor :: "string \<Rightarrow> step_map \<Rightarrow> string set \<Rightarrow> string option" where
  "nearest_applied_ancestor sid m applied_ids =
     (case map_of m sid of
        None \<Rightarrow> None
      | Some s \<Rightarrow> (case first_dependency s of None \<Rightarrow> None | Some d \<Rightarrow> applied_ancestor m applied_ids [] d))"

definition relink :: "step_map \<Rightarrow> string set \<Rightarrow> pipeline_step \<Rightarrow> pipeline_step" where
  "relink m applied_ids s =
     (if \<not> truthy (ps_id s) then s
      else s\<lparr>ps_depends_on := (case nearest_applied_ancestor (the (ps_id s)) m applied_ids of
               None \<Rightarrow> [] | Some p \<Rightarrow> if p = [] then [] else [p])\<rparr>)"

definition step_ids :: "pipeline_step list \<Rightarrow> string set" where
  "step_ids steps = set (map (\<lambda>s. the (ps_id s)) (filter (\<lambda>s. truthy (ps_id s)) steps))"

definition apply_steps :: "pipeline_step list \<Rightarrow> pipeline_step list" where
  "apply_steps steps =
     (let applied = filter ps_is_applied steps
      in if applied = [] then [] else map (relink (build_step_map steps) (step_ids applied)) applied)"

definition resolve_applied_target :: "pipeline_step list \<Rightarrow> string \<Rightarrow> string" where
  "resolve_applied_target steps target =
     (if target = ''source'' then ''source''
      else let m = build_step_map steps
           in case map_of m target of
                None \<Rightarrow> ''source''
              | Some s \<Rightarrow> if ps_is_applied s then target
                          else (case nearest_applied_ancestor target m (fst ` set (filter (\<lambda>(_, x). ps_is_applied x) m)) of
                                  None \<Rightarrow> ''source'' | Some p \<Rightarrow> if p = [] then ''source'' else p))"

subsection \<open>Ordering the steps\<close>

fun index_steps :: "pipeline_step list \<Rightarrow> step_map \<Rightarrow> step_map result" where
  "index_steps [] m = Inr m"
| "index_steps (s # ss) m =
     (if \<not> truthy (ps_id s) then Inl (ValueError ''Each pipeline step must include an id'')
      else index_steps ss (AList.update (the (ps_id s)) s m))"

definition invalid_pipeline :: "string \<Rightarrow> py_error" where
  "invalid_pipeline m = AppError ''PIPELINE_VALIDATION_ERROR'' m"

text \<open>The loop that fills \<open>dependency_map\<close>, \<open>dependents\<close> and \<open>in_degree\<close>; all three follow from the first.\<close>

type_synonym dependency_map = "(string \<times> string option) list"

fun dependencies :: "step_map \<Rightarrow> step_map \<Rightarrow> dependency_map result" where
  "dependencies m [] = Inr []"
| "dependencies m ((sid, s) # rest) =
     (if length (ps_depends_on s) > 1
      then Inl (invalid_pipeline (''Step '' @ sid @ '' has multiple dependencies. Merge steps are not supported.''))
      else case ps_depends_on s of
             [] \<Rightarrow> and_then (dependencies m rest) (\<lambda>dm. Inr ((sid, None) # dm))
           | dep # _ \<Rightarrow>
               if map_of m dep = None then Inl (invalid_pipeline (''Step '' @ sid @ '' depends on missing step '' @ dep @ ''.''))
               else and_then (dependencies m rest) (\<lambda>dm. Inr ((sid, Some dep) # dm)))"

definition dependents :: "dependency_map \<Rightarrow> string \<Rightarrow> string list" where
  "dependents dm i = map fst (filter (\<lambda>(_, d). d = Some i) dm)"

type_synonym degrees = "(string \<times> int) list"

definition in_degree :: "dependency_map \<Rightarrow> degrees" where
  "in_degree dm = map (\<lambda>(i, d). (i, if d = None then 0 else 1)) dm"

fun relax :: "degrees \<Rightarrow> string list \<Rightarrow> string list \<Rightarrow> (degrees \<times> string list) result" where
  "relax deg q [] = Inr (deg, q)"
| "relax deg q (c # cs) =
     (case map_of deg c of
        None \<Rightarrow> Inl (KeyError c)
      | Some n \<Rightarrow> relax (AList.update c (n - 1) deg) (if n - 1 = 0 then q @ [c] else q) cs)"

definition degree_sum :: "degrees \<Rightarrow> nat" where
  "degree_sum deg = sum_list (map (nat \<circ> snd) deg)"

lemma degree_sum_update: "map_of deg c = Some n \<Longrightarrow> degree_sum (AList.update c v deg) + nat n = degree_sum deg + nat v"
  by (induction deg) (auto simp: degree_sum_def)

lemma relax_decreases: "relax deg q cs = Inr (deg', q') \<Longrightarrow> degree_sum deg' + length q' \<le> degree_sum deg + length q"
proof (induction deg q cs rule: relax.induct)
  case (2 deg q c cs)
  then obtain n where n: "map_of deg c = Some n" by (auto split: option.splits)
  show ?case using 2 n degree_sum_update [OF n, of "n - 1"] by (fastforce split: if_splits)
qed simp

function ordering :: "dependency_map \<Rightarrow> degrees \<Rightarrow> string list \<Rightarrow> string list \<Rightarrow> string list result" where
  "ordering dm deg [] ordered = Inr ordered"
| "ordering dm deg (c # q) ordered =
     (case relax deg q (dependents dm c) of
        Inl x \<Rightarrow> Inl x | Inr (deg', q') \<Rightarrow> ordering dm deg' q' (ordered @ [c]))"
  by pat_completeness auto
termination
  by (relation "measure (\<lambda>(_, deg, q, _). degree_sum deg + length q)") (auto dest!: relax_decreases [OF sym] relax_decreases)

definition ordered_steps :: "dependency_map \<Rightarrow> string list result" where
  "ordered_steps dm =
     and_then (ordering dm (in_degree dm) (map fst (filter (\<lambda>(_, n). n = 0) (in_degree dm))) []) (\<lambda>os.
       if length os \<noteq> length dm then Inl (invalid_pipeline ''Pipeline contains a cycle. Remove cyclic dependencies to continue.'') else Inr os)"

subsection \<open>Running the plan\<close>

text \<open>From a step without dependents up to the nearest materialized ancestor.\<close>

function climb :: "dependency_map \<Rightarrow> string set \<Rightarrow> string list \<Rightarrow> string option \<Rightarrow> string list result" where
  "climb dm cached req None = Inr req"
| "climb dm cached req (Some a) =
     (if a \<in> set req then Inr req
      else if a \<in> cached then Inr (a # req)
      else case map_of dm a of None \<Rightarrow> Inl (KeyError a) | Some d \<Rightarrow> climb dm cached (a # req) d)"
  by pat_completeness auto
termination
proof (relation "measure (\<lambda>(dm, _, req, _). card (fst ` set dm - set req))", simp, clarsimp)
  fix dm :: dependency_map and req a d
  assume "a \<notin> set req" "map_of dm a = Some d"
  then have "a \<in> fst ` set dm - set req" by (force dest: map_of_SomeD)
  then show "card (fst ` set dm - insert a (set req)) < card (fst ` set dm - set req)" by (intro psubset_card_mono) auto
qed

fun required_steps :: "dependency_map \<Rightarrow> string set \<Rightarrow> string list \<Rightarrow> string list \<Rightarrow> string list result" where
  "required_steps dm cached req [] = Inr req"
| "required_steps dm cached req (i # rest) =
     (if dependents dm i \<noteq> [] then required_steps dm cached req rest
      else and_then (climb dm cached req (Some i)) (\<lambda>req'. required_steps dm cached req' rest))"

fun run_steps ::
  "(string \<Rightarrow> 'f \<Rightarrow> 'f result) \<Rightarrow> 'f \<Rightarrow> dependency_map \<Rightarrow> string list \<Rightarrow> string set \<Rightarrow> string list \<Rightarrow> (string \<times> 'f) list \<Rightarrow> (string \<times> 'f) list result" where
  "run_steps apply lf dm req cached [] sm = Inr sm"
| "run_steps apply lf dm req cached (i # rest) sm =
     (if i \<notin> set req \<or> i \<in> cached then run_steps apply lf dm req cached rest sm
      else and_then (case map_of dm i of
               None \<Rightarrow> Inl (KeyError i)
             | Some None \<Rightarrow> Inr lf
             | Some (Some p) \<Rightarrow> (case map_of sm p of None \<Rightarrow> Inl (KeyError p) | Some f \<Rightarrow> Inr f)) (\<lambda>parent_frame.
           and_then (apply i parent_frame) (\<lambda>f. run_steps apply lf dm req cached rest (AList.update i f sm))))"

definition run_plan ::
  "(string \<Rightarrow> 'f \<Rightarrow> 'f result) \<Rightarrow> 'f \<Rightarrow> 'f \<Rightarrow> (string \<times> 'f) list \<Rightarrow> dependency_map \<Rightarrow> string list \<Rightarrow> 'f result" where
  "run_plan apply source blank cached dm os =
     (let hit = fst ` set cached
      in and_then (required_steps dm hit [] (map fst dm)) (\<lambda>req.
           let lf = (if os = [] \<or> (\<exists>i \<in> set req. map_of dm i = Some None \<and> i \<notin> hit) then source else blank)
           in if os = [] then Inr lf
              else and_then (run_steps apply lf dm req hit os cached) (\<lambda>sm.
                case map_of sm (last os) of None \<Rightarrow> Inl (KeyError (last os)) | Some f \<Rightarrow> Inr f)))"

definition plan_steps :: "pipeline_step list \<Rightarrow> (dependency_map \<times> string list) result" where
  "plan_steps steps =
     and_then (index_steps (apply_steps steps) []) (\<lambda>m.
     and_then (dependencies m m) (\<lambda>dm.
     and_then (ordered_steps dm) (\<lambda>os. Inr (dm, os))))"

definition build_pipeline ::
  "(string \<Rightarrow> 'f \<Rightarrow> 'f result) \<Rightarrow> 'f \<Rightarrow> 'f \<Rightarrow> (string \<times> 'f) list \<Rightarrow> pipeline_step list \<Rightarrow> 'f result" where
  "build_pipeline apply source blank cached steps =
     and_then (plan_steps steps) (\<lambda>(dm, os). run_plan apply source blank cached dm os)"

end
