(* ===== verification/Pipeline_Facts.thy ===== *)
theory Pipeline_Facts
  imports Pipeline_Plan
begin

text \<open>
  What planning a pipeline guarantees: the order is a topological order of all steps, and planning
  fails with a cycle error exactly when the dependencies are cyclic; running the plan finds the frame
  of every parent it needs and returns the frame that the steps define, however much of it was cached.
\<close>

subsection \<open>Dependencies\<close>

definition dm_ok :: "dependency_map \<Rightarrow> bool" where
  "dm_ok dm \<longleftrightarrow> distinct (map fst dm) \<and> (\<forall>i p. map_of dm i = Some (Some p) \<longrightarrow> p \<in> fst ` set dm)"

definition dep_rel :: "dependency_map \<Rightarrow> (string \<times> string) set" where
  "dep_rel dm = {(p, i). map_of dm i = Some (Some p)}"

definition before :: "dependency_map \<Rightarrow> string list \<Rightarrow> string \<Rightarrow> bool" where
  "before dm os i \<longleftrightarrow> (case map_of dm i of Some (Some p) \<Rightarrow> p \<in> set os | _ \<Rightarrow> True)"

definition topo :: "dependency_map \<Rightarrow> string list \<Rightarrow> bool" where
  "topo dm os \<longleftrightarrow> (\<forall>k < length os. before dm (take k os) (os ! k))"

lemma topo_snoc: "topo dm (os @ [c]) \<longleftrightarrow> topo dm os \<and> before dm os c"
  by (auto simp: topo_def nth_append less_Suc_eq)

lemma dependents_iff: "distinct (map fst dm) \<Longrightarrow> i \<in> set (dependents dm c) \<longleftrightarrow> map_of dm i = Some (Some c)"
  by (force simp: dependents_def)

lemma distinct_dependents: "distinct (map fst dm) \<Longrightarrow> distinct (dependents dm c)"
  by (simp add: dependents_def distinct_map_filter)

lemma map_of_in_degree: "map_of (in_degree dm) i = map_option (\<lambda>d. if d = None then 0 else 1) (map_of dm i)"
  unfolding in_degree_def by (induction dm) auto

lemma map_of_key: "i \<in> fst ` set m \<Longrightarrow> \<exists>x. map_of m i = Some x"
  by (metis map_of_eq_None_iff option.exhaust)

subsection \<open>The ordering loop\<close>

lemma relax_ones:
  "distinct cs \<Longrightarrow> \<forall>c \<in> set cs. map_of deg c = Some 1 \<Longrightarrow> relax deg q cs = Inr (fold (\<lambda>c. AList.update c 0) cs deg, q @ cs)"
proof (induction cs arbitrary: deg q)
  case (Cons c cs)
  have "\<forall>i \<in> set cs. map_of (AList.update c 0 deg) i = Some 1" using Cons.prems by (auto simp: update_conv)
  then show ?case using Cons.IH [of "AList.update c 0 deg" "q @ [c]"] Cons.prems by simp
qed simp

lemma map_of_zeroes: "map_of (fold (\<lambda>c. AList.update c 0) cs deg) i = (if i \<in> set cs then Some 0 else map_of deg i)"
  by (induction cs arbitrary: deg) (auto simp: update_conv)

definition ord_inv :: "dependency_map \<Rightarrow> degrees \<Rightarrow> string list \<Rightarrow> string list \<Rightarrow> bool" where
  "ord_inv dm deg q os \<longleftrightarrow> distinct (os @ q) \<and> set (os @ q) \<subseteq> fst ` set dm \<and> topo dm os \<and>
     (\<forall>i \<in> fst ` set dm. map_of deg i = Some (if before dm os i then 0 else 1) \<and> (i \<in> set (os @ q) \<longleftrightarrow> before dm os i))"

lemma ord_inv_step:
  assumes ok: "distinct (map fst dm)" and inv: "ord_inv dm deg (c # q) os"
  shows "\<exists>deg'. relax deg q (dependents dm c) = Inr (deg', q @ dependents dm c) \<and> ord_inv dm deg' (q @ dependents dm c) (os @ [c])"
proof -
  let ?cs = "dependents dm c" and ?deg = "fold (\<lambda>c. AList.update c 0) (dependents dm c) deg"
  have c: "c \<notin> set os" "c \<in> fst ` set dm" "before dm os c" using inv by (auto simp: ord_inv_def)
  have cs: "i \<in> set ?cs \<longleftrightarrow> map_of dm i = Some (Some c)" for i by (rule dependents_iff [OF ok])
  have new: "\<not> before dm os i" "i \<in> fst ` set dm" if "i \<in> set ?cs" for i
    using that c(1) cs by (auto simp: before_def dest: map_of_SomeD intro: rev_image_eqI)
  have row: "map_of deg i = Some (if before dm os i then 0 else 1)" "i \<in> set (os @ c # q) \<longleftrightarrow> before dm os i" if "i \<in> fst ` set dm" for i
    using inv that unfolding ord_inv_def by blast+
  have one: "\<forall>i \<in> set ?cs. map_of deg i = Some 1" using new row(1) by simp
  have bef: "before dm (os @ [c]) i \<longleftrightarrow> before dm os i \<or> i \<in> set ?cs" for i
    by (auto simp: before_def cs split: option.splits)
  have "set ?cs \<inter> set (os @ c # q) = {}" using new row(2) by blast
  moreover have "i \<in> set ((os @ [c]) @ q @ ?cs) \<longleftrightarrow> before dm (os @ [c]) i" if "i \<in> fst ` set dm" for i
    using row(2) [OF that] bef by auto
  moreover have "map_of ?deg i = Some (if before dm (os @ [c]) i then 0 else 1)" if "i \<in> fst ` set dm" for i
    using row(1) [OF that] bef by (auto simp: map_of_zeroes)
  moreover have "distinct (os @ c # q)" "set (os @ c # q) \<subseteq> fst ` set dm" "topo dm os" using inv by (simp_all add: ord_inv_def)
  ultimately have "ord_inv dm ?deg (q @ ?cs) (os @ [c])"
    using new(2) distinct_dependents [OF ok, of c] c(3) unfolding ord_inv_def by (auto simp: topo_snoc)
  then show ?thesis using relax_ones [OF distinct_dependents [OF ok] one, of q] by blast
qed

lemma ordering_inv:
  "distinct (map fst dm) \<Longrightarrow> ord_inv dm deg q os \<Longrightarrow> \<exists>os' deg'. ordering dm deg q os = Inr os' \<and> ord_inv dm deg' [] os'"
proof (induction dm deg q os rule: ordering.induct)
  case (2 dm deg c q ordered)
  obtain deg' where "relax deg q (dependents dm c) = Inr (deg', q @ dependents dm c)" "ord_inv dm deg' (q @ dependents dm c) (ordered @ [c])"
    using ord_inv_step [OF "2.prems"] by blast
  then show ?case using "2.IH" [OF _ refl "2.prems"(1)] by simp
qed auto

lemma ord_inv_start:
  assumes "distinct (map fst dm)"
  shows "ord_inv dm (in_degree dm) (map fst (filter (\<lambda>(_, n). n = 0) (in_degree dm))) []"
proof -
  have z: "map fst (filter (\<lambda>(_, n). n = 0) (in_degree dm)) = map fst (filter (\<lambda>(_, d). d = None) dm)"
    unfolding in_degree_def by (induction dm) (auto split: if_splits)
  have "i \<in> set (map fst (filter (\<lambda>(_, d). d = None) dm)) \<longleftrightarrow> map_of dm i = Some None" for i using assms by force
  then have "map_of (in_degree dm) i = Some (if before dm [] i then 0 else 1) \<and>
      (i \<in> set ([] @ map fst (filter (\<lambda>(_, d). d = None) dm)) \<longleftrightarrow> before dm [] i)" if key: "i \<in> fst ` set dm" for i
  proof -
    obtain d where "map_of dm i = Some d" using map_of_key [OF key] by blast
    then show ?thesis using \<open>\<And>i. i \<in> set (map fst (filter (\<lambda>(_, d). d = None) dm)) \<longleftrightarrow> map_of dm i = Some None\<close>
      by (cases d) (simp_all add: before_def map_of_in_degree)
  qed
  then show ?thesis unfolding ord_inv_def z using assms by (auto simp: topo_def distinct_map_filter)
qed

lemma topo_acyclic:
  assumes "topo dm os" and "distinct os" and "fst ` set dm \<subseteq> set os"
  shows "acyclic (dep_rel dm)"
proof -
  define idx where "idx = the_inv_into {..<length os} (\<lambda>k. os ! k)"
  have "inj_on (\<lambda>k. os ! k) {..<length os}" using assms(2) by (intro inj_on_nth) auto
  then have idx: "idx (os ! k) = k" if "k < length os" for k using that by (simp add: idx_def the_inv_into_f_f)
  have "idx p < idx i" if "(p, i) \<in> dep_rel dm" for p i
  proof -
    have d: "map_of dm i = Some (Some p)" using that by (simp add: dep_rel_def)
    then have "i \<in> set os" using assms(3) by (force dest: map_of_SomeD)
    then obtain k where k: "k < length os" "os ! k = i" by (auto simp: in_set_conv_nth)
    then have "p \<in> set (take k os)" using assms(1) d by (auto simp: topo_def before_def)
    then obtain j where "j < k" "os ! j = p" using k(1) by (auto simp: in_set_conv_nth)
    then show ?thesis using idx k by (metis order_less_trans)
  qed
  then have "dep_rel dm \<subseteq> measure idx" by auto
  then show ?thesis using wf_subset [OF wf_measure] wf_acyclic by blast
qed

lemma stuck_cyclic:
  assumes ok: "dm_ok dm" and closed: "\<forall>i \<in> fst ` set dm. i \<in> set os \<longleftrightarrow> before dm os i" and left: "\<not> fst ` set dm \<subseteq> set os"
  shows "\<not> acyclic (dep_rel dm)"
proof
  assume "acyclic (dep_rel dm)"
  moreover have "dep_rel dm \<subseteq> fst ` set dm \<times> fst ` set dm" using ok by (force simp: dep_rel_def dm_ok_def dest: map_of_SomeD)
  then have "finite (dep_rel dm)" by (rule finite_subset) simp
  ultimately have "wf (dep_rel dm)" by (simp add: finite_acyclic_wf)
  then obtain i where i: "i \<in> fst ` set dm - set os" "\<And>y. (y, i) \<in> dep_rel dm \<Longrightarrow> y \<notin> fst ` set dm - set os"
    using left wfE_min [of "dep_rel dm" _ "fst ` set dm - set os"] by blast
  then have "\<not> before dm os i" using closed by blast
  then obtain p where "map_of dm i = Some (Some p)" "p \<notin> set os" by (auto simp: before_def split: option.splits)
  then show False using i(2) [of p] ok by (auto simp: dep_rel_def dm_ok_def)
qed

text \<open>Ordering the steps is exact. Planning succeeds exactly when the dependencies have no cycle;
  then it returns every step once, each after the step it depends on, and otherwise it raises the
  cycle error.\<close>

theorem step_order_exact:
  assumes "dm_ok dm"
  shows "if acyclic (dep_rel dm) then \<exists>os. ordered_steps dm = Inr os \<and> distinct os \<and> set os = fst ` set dm \<and> topo dm os
    else ordered_steps dm = Inl (invalid_pipeline ''Pipeline contains a cycle. Remove cyclic dependencies to continue.'')"
proof -
  have d: "distinct (map fst dm)" using assms by (simp add: dm_ok_def)
  obtain os deg where o: "ordering dm (in_degree dm) (map fst (filter (\<lambda>(_, n). n = 0) (in_degree dm))) [] = Inr os" "ord_inv dm deg [] os"
    using ordering_inv [OF d ord_inv_start [OF d]] by blast
  have os: "distinct os" "set os \<subseteq> fst ` set dm" "topo dm os" "\<forall>i \<in> fst ` set dm. i \<in> set os \<longleftrightarrow> before dm os i"
    using o(2) by (auto simp: ord_inv_def)
  have len: "length os = length dm \<longleftrightarrow> fst ` set dm \<subseteq> set os"
  proof
    assume "length os = length dm"
    then have "card (set os) = card (fst ` set dm)" using os(1) d by (metis distinct_card length_map list.set_map)
    then show "fst ` set dm \<subseteq> set os" using card_subset_eq [OF _ os(2)] by simp
  next
    assume "fst ` set dm \<subseteq> set os"
    then have "set os = set (map fst dm)" using os(2) by auto
    then show "length os = length dm" using os(1) d by (metis distinct_card length_map)
  qed
  show ?thesis
  proof (cases "fst ` set dm \<subseteq> set os")
    case True
    then have "acyclic (dep_rel dm)" using topo_acyclic os by blast
    moreover have "ordered_steps dm = Inr os" using True len o(1) by (simp add: ordered_steps_def)
    ultimately show ?thesis using True os by auto
  next
    case False
    then have "\<not> acyclic (dep_rel dm)" using stuck_cyclic [OF assms os(4)] by blast
    moreover have "ordered_steps dm = Inl (invalid_pipeline ''Pipeline contains a cycle. Remove cyclic dependencies to continue.'')"
      using False len o(1) by (simp add: ordered_steps_def)
    ultimately show ?thesis by simp
  qed
qed

definition example_dm :: dependency_map where
  "example_dm = [(''b'', Some ''a''), (''a'', None)]"

lemma example_dm_ok: "dm_ok example_dm" "acyclic (dep_rel example_dm)"
proof -
  have "dep_rel example_dm = {(''a'', ''b'')}" by (auto simp: dep_rel_def example_dm_def split: if_splits)
  moreover have "acyclic ({} :: (string \<times> string) set)" by (simp add: acyclic_def)
  ultimately show "acyclic (dep_rel example_dm)" by (simp add: acyclic_insert)
qed (auto simp: dm_ok_def example_dm_def split: if_splits)

theorem step_order_exact_witness: "\<exists>os. ordered_steps example_dm = Inr os \<and> set os = {''a'', ''b''} \<and> topo example_dm os"
  using step_order_exact [OF example_dm_ok(1)] example_dm_ok(2) by (auto simp: example_dm_def)

subsection \<open>Running the plan\<close>

text \<open>The frame a step defines: the cached one, or the step applied to the frame of its parent.\<close>

inductive frame_of :: "(string \<Rightarrow> 'f \<Rightarrow> 'f result) \<Rightarrow> 'f \<Rightarrow> dependency_map \<Rightarrow> (string \<times> 'f) list \<Rightarrow> string \<Rightarrow> 'f \<Rightarrow> bool"
  for ap source dm cached where
  fr_cached: "map_of cached i = Some f \<Longrightarrow> frame_of ap source dm cached i f"
| fr_root: "map_of cached i = None \<Longrightarrow> map_of dm i = Some None \<Longrightarrow> ap i source = Inr f \<Longrightarrow> frame_of ap source dm cached i f"
| fr_step: "map_of cached i = None \<Longrightarrow> map_of dm i = Some (Some p) \<Longrightarrow> frame_of ap source dm cached p g \<Longrightarrow> ap i g = Inr f \<Longrightarrow>
    frame_of ap source dm cached i f"

inductive_cases frame_ofE: "frame_of ap source dm cached i f"

text \<open>A frame is determined by the steps, so it is the reference the plan is compared with.\<close>

lemma frame_of_unique: "frame_of apply source dm cached i f \<Longrightarrow> frame_of apply source dm cached i g \<Longrightarrow> f = g"
proof (induction arbitrary: g rule: frame_of.induct)
  case (fr_step i p h f)
  from fr_step.prems obtain h' where h: "frame_of apply source dm cached p h'" "apply i h' = Inr g"
    by (rule frame_ofE) (use fr_step.hyps(1,2) in auto)
  have "h = h'" by (rule fr_step.IH [OF h(1)])
  then show ?case using h(2) fr_step.hyps by simp
next
  case (fr_root i f)
  from fr_root.prems show ?case by (rule frame_ofE) (use fr_root in auto)
next
  case (fr_cached i f)
  from fr_cached.prems show ?case by (rule frame_ofE) (use fr_cached in auto)
qed

definition closed_under :: "dependency_map \<Rightarrow> string set \<Rightarrow> string list \<Rightarrow> string option \<Rightarrow> bool" where
  "closed_under dm cached req pending \<longleftrightarrow>
     set req \<subseteq> fst ` set dm \<and> (\<forall>i p. i \<in> set req \<longrightarrow> i \<notin> cached \<longrightarrow> map_of dm i = Some (Some p) \<longrightarrow> p \<in> set req \<or> pending = Some p)"

lemma climb_closed:
  "dm_ok dm \<Longrightarrow> closed_under dm cached req a \<Longrightarrow> a \<in> {None} \<union> Some ` fst ` set dm \<Longrightarrow>
   \<exists>req'. climb dm cached req a = Inr req' \<and> closed_under dm cached req' None \<and> set req \<subseteq> set req' \<and> (\<forall>x. a = Some x \<longrightarrow> x \<in> set req')"
proof (induction dm cached req a rule: climb.induct)
  case (2 dm cached req a)
  obtain d where d: "map_of dm a = Some d" using "2.prems"(3) map_of_key by fastforce
  show ?case
  proof (cases "a \<in> set req \<or> a \<in> cached")
    case True
    then show ?thesis using "2.prems"(2,3) by (auto simp: closed_under_def)
  next
    case False
    have "closed_under dm cached (a # req) d" using "2.prems"(2,3) d by (auto simp: closed_under_def)
    moreover have "d \<in> {None} \<union> Some ` fst ` set dm" using "2.prems"(1) d by (cases d) (auto simp: dm_ok_def)
    ultimately show ?thesis using "2.IH" [OF _ _ d "2.prems"(1)] False d by auto
  qed
qed auto

lemma required_closed:
  "dm_ok dm \<Longrightarrow> closed_under dm cached req None \<Longrightarrow> set is \<subseteq> fst ` set dm \<Longrightarrow>
   \<exists>req'. required_steps dm cached req is = Inr req' \<and> closed_under dm cached req' None \<and> set req \<subseteq> set req' \<and>
     (\<forall>i \<in> set is. dependents dm i = [] \<longrightarrow> i \<in> set req')"
proof (induction "is" arbitrary: req)
  case (Cons i "is")
  show ?case
  proof (cases "dependents dm i = []")
    case True
    have "closed_under dm cached req (Some i)" using Cons.prems(2) by (auto simp: closed_under_def)
    then obtain r1 where r1: "climb dm cached req (Some i) = Inr r1" "closed_under dm cached r1 None" "set req \<subseteq> set r1" "i \<in> set r1"
      using climb_closed [OF Cons.prems(1), of cached req "Some i"] Cons.prems(3) by auto
    then show ?thesis using Cons.IH [OF Cons.prems(1) r1(2)] Cons.prems(3) True by fastforce
  qed (use Cons in auto)
qed simp

text \<open>The loop over the ordered steps, after the prefix \<open>pre\<close>.\<close>

lemma run_steps_frames:
  assumes ok: "dm_ok dm" and req: "closed_under dm (fst ` set cached) req None"
    and src: "\<And>i. i \<in> set req \<Longrightarrow> map_of dm i = Some None \<Longrightarrow> i \<notin> fst ` set cached \<Longrightarrow> lf = source"
  shows "topo dm (pre @ rest) \<Longrightarrow> set (pre @ rest) = fst ` set dm \<Longrightarrow> distinct (pre @ rest) \<Longrightarrow>
    \<forall>i f. map_of sm i = Some f \<longrightarrow> frame_of apply source dm cached i f \<Longrightarrow>
    \<forall>i. i \<in> fst ` set cached \<or> i \<in> set req \<and> i \<in> set pre \<longrightarrow> map_of sm i \<noteq> None \<Longrightarrow>
    (\<exists>i g x. apply i g = Inl x \<and> run_steps apply lf dm req (fst ` set cached) rest sm = Inl x) \<or>
    (\<exists>sm'. run_steps apply lf dm req (fst ` set cached) rest sm = Inr sm' \<and> (\<forall>i f. map_of sm' i = Some f \<longrightarrow> frame_of apply source dm cached i f) \<and>
       (\<forall>i. i \<in> fst ` set cached \<or> i \<in> set req \<and> i \<in> set (pre @ rest) \<longrightarrow> map_of sm' i \<noteq> None))"
proof (induction rest arbitrary: pre sm)
  case (Cons i rest)
  have again: "topo dm ((pre @ [i]) @ rest)" "set ((pre @ [i]) @ rest) = fst ` set dm" "distinct ((pre @ [i]) @ rest)" using Cons.prems by simp_all
  show ?case
  proof (cases "i \<notin> set req \<or> i \<in> fst ` set cached")
    case True
    then have "\<forall>j. j \<in> fst ` set cached \<or> j \<in> set req \<and> j \<in> set (pre @ [i]) \<longrightarrow> map_of sm j \<noteq> None" using Cons.prems(5) by auto
    from Cons.IH [OF again Cons.prems(4) this] show ?thesis using True by simp
  next
    case False
    then have i: "i \<in> set req" "map_of cached i = None" by (auto simp: map_of_eq_None_iff)
    obtain d where d: "map_of dm i = Some d" using Cons.prems(2) map_of_key [of i dm] by auto
    have "before dm pre i" using Cons.prems(1) by (auto simp: topo_def dest!: spec [of _ "length pre"])
    have "\<exists>pf. (case d of None \<Rightarrow> Inr lf | Some p \<Rightarrow> (case map_of sm p of None \<Rightarrow> Inl (KeyError p) | Some f \<Rightarrow> Inr f)) = Inr pf \<and>
        (\<forall>f. apply i pf = Inr f \<longrightarrow> frame_of apply source dm cached i f)"
    proof (cases d)
      case None
      then have "lf = source" using src [OF i(1)] d False by blast
      then show ?thesis using None d i(2) by (auto intro: fr_root)
    next
      case (Some p)
      then have "p \<in> set pre" "p \<in> set req" using \<open>before dm pre i\<close> d req False by (auto simp: before_def closed_under_def)
      then obtain g where "map_of sm p = Some g" using Cons.prems(5) by fastforce
      then show ?thesis using Some d i(2) Cons.prems(4) by (auto intro: fr_step)
    qed
    then obtain pf where pf: "(case d of None \<Rightarrow> Inr lf | Some p \<Rightarrow> (case map_of sm p of None \<Rightarrow> Inl (KeyError p) | Some f \<Rightarrow> Inr f)) = Inr pf"
      "\<And>f. apply i pf = Inr f \<Longrightarrow> frame_of apply source dm cached i f" by blast
    have run: "run_steps apply lf dm req (fst ` set cached) (i # rest) sm =
        and_then (apply i pf) (\<lambda>f. run_steps apply lf dm req (fst ` set cached) rest (AList.update i f sm))"
      using False d pf(1) by (cases d) auto
    show ?thesis
    proof (cases "apply i pf")
      case (Inr f)
      have "\<forall>j g. map_of (AList.update i f sm) j = Some g \<longrightarrow> frame_of apply source dm cached j g"
        using pf(2) [OF Inr] Cons.prems(4) by (auto simp: update_conv)
      moreover have "\<forall>j. j \<in> fst ` set cached \<or> j \<in> set req \<and> j \<in> set (pre @ [i]) \<longrightarrow> map_of (AList.update i f sm) j \<noteq> None"
        using Cons.prems(5) by (auto simp: update_conv)
      ultimately show ?thesis using Cons.IH [OF again, of "AList.update i f sm"] run Inr by simp
    qed (use run in auto)
  qed
qed simp

lemma index_steps_keys:
  "index_steps ss m = Inr m' \<Longrightarrow> distinct (map fst m) \<Longrightarrow>
   distinct (map fst m') \<and> fst ` set m' = fst ` set m \<union> {i. \<exists>s \<in> set ss. ps_id s = Some i} \<and>
   snd ` set m' \<subseteq> snd ` set m \<union> set ss \<and> (\<forall>s \<in> set ss. truthy (ps_id s))"
proof (induction ss arbitrary: m)
  case (Cons s ss)
  then have t: "truthy (ps_id s)" and r: "index_steps ss (AList.update (the (ps_id s)) s m) = Inr m'" by (auto split: if_splits)
  have v: "snd ` set (AList.update (the (ps_id s)) s m) \<subseteq> insert s (snd ` set m)"
    by (induction m) auto
  obtain i where i: "ps_id s = Some i" using t by (auto simp: truthy_def split: option.splits)
  have "distinct (map fst (AList.update (the (ps_id s)) s m))" using Cons.prems(2) by (simp add: update_keys)
  note ih = Cons.IH [OF r this]
  have "fst ` set m' = fst ` set m \<union> {i. \<exists>s \<in> set (s # ss). ps_id s = Some i}" using ih i by (auto simp: dom_update)
  moreover have "snd ` set m' \<subseteq> snd ` set m \<union> set (s # ss)" using ih v by (simp only: list.set) blast
  ultimately show ?case using ih t by simp
qed simp

lemma dependencies_map:
  "dependencies m ms = Inr dm \<Longrightarrow> map fst dm = map fst ms \<and> (\<forall>i p. (i, Some p) \<in> set dm \<longrightarrow> p \<in> fst ` set m)"
proof (induction m ms arbitrary: dm rule: dependencies.induct)
  case (2 m sid s rest)
  show ?case
  proof (cases "ps_depends_on s")
    case Nil
    then obtain dm' where d: "dependencies m rest = Inr dm'" "dm = (sid, None) # dm'" using "2.prems" by (auto elim!: and_then_okE)
    show ?thesis using "2.IH"(1) [OF _ Nil d(1)] Nil d(2) by simp
  next
    case (Cons dep ds)
    then obtain dm' where d: "ds = []" "map_of m dep \<noteq> None" "dependencies m rest = Inr dm'" "dm = (sid, Some dep) # dm'"
      using "2.prems" by (auto elim!: and_then_okE split: if_splits)
    have "dep \<in> fst ` set m" using d(2) by (simp add: map_of_eq_None_iff)
    then show ?thesis using "2.IH"(2) [OF _ Cons d(2,3)] Cons d(1,4) by simp
  qed
qed simp

lemma plan_steps_facts:
  assumes "plan_steps steps = Inr (dm, os)"
  shows "dm_ok dm \<and> distinct os \<and> set os = fst ` set dm \<and> topo dm os"
proof -
  from assms obtain m where m: "index_steps (apply_steps steps) [] = Inr m" "dependencies m m = Inr dm" "ordered_steps dm = Inr os"
    by (auto simp: plan_steps_def elim!: and_then_okE)
  have keys: "map fst dm = map fst m" using dependencies_map [OF m(2)] by simp
  then have "fst ` set dm = fst ` set m" by (metis list.set_map)
  moreover have "distinct (map fst dm)" using index_steps_keys [OF m(1)] keys by simp
  ultimately have ok: "dm_ok dm" using dependencies_map [OF m(2)] by (auto simp: dm_ok_def)
  show ?thesis using step_order_exact [OF ok] m(3) ok by (auto split: if_splits)
qed

lemma last_step_leaf:
  assumes ok: "dm_ok dm" and os: "distinct os" "set os = fst ` set dm" "topo dm os" "os \<noteq> []"
  shows "dependents dm (last os) = []"
proof (rule ccontr)
  assume "dependents dm (last os) \<noteq> []"
  then obtain i where i: "map_of dm i = Some (Some (last os))"
    using dependents_iff [of dm _ "last os"] ok by (fastforce simp: dm_ok_def neq_Nil_conv)
  then have "i \<in> set os" using os(2) by (force dest: map_of_SomeD)
  then obtain k where k: "k < length os" "os ! k = i" by (auto simp: in_set_conv_nth)
  then have "last os \<in> set (take k os)" using os(3) i by (auto simp: topo_def before_def)
  then obtain j where j: "j < k" "os ! j = last os" using k(1) by (auto simp: in_set_conv_nth)
  have "last os = os ! (length os - 1)" using os(4) by (simp add: last_conv_nth)
  then have "j = length os - 1" using j k(1) os(1) nth_eq_iff_index_eq [OF os(1), of j "length os - 1"] by auto
  then show False using j(1) k(1) by simp
qed

text \<open>Running the plan computes what the steps define. For every set of cached frames, the plan
  returns exactly the frame that the last step has by applying each step to the frame of its parent
  from the source or the nearest cached ancestor on; the only exceptions it can raise are those of a
  step itself, so it never misses the frame of a parent.\<close>

theorem plan_computes_frames:
  assumes plan: "plan_steps steps = Inr (dm, os)" and ne: "os \<noteq> []"
  shows "(\<exists>f. build_pipeline ap source blank cached steps = Inr f \<and> frame_of ap source dm cached (last os) f) \<or>
    (\<exists>i g x. ap i g = Inl x \<and> build_pipeline ap source blank cached steps = Inl x)"
proof -
  note p = plan_steps_facts [OF plan]
  let ?hit = "fst ` set cached"
  have "closed_under dm ?hit [] None" by (simp add: closed_under_def)
  then obtain req where req: "required_steps dm ?hit [] (map fst dm) = Inr req" "closed_under dm ?hit req None"
      "\<forall>i \<in> set (map fst dm). dependents dm i = [] \<longrightarrow> i \<in> set req"
    using required_closed [of dm ?hit "[]" "map fst dm"] p by auto
  let ?lf = "if os = [] \<or> (\<exists>i \<in> set req. map_of dm i = Some None \<and> i \<notin> ?hit) then source else blank"
  let ?run = "run_steps ap ?lf dm req ?hit os cached"
  have run: "build_pipeline ap source blank cached steps =
      and_then ?run (\<lambda>sm. case map_of sm (last os) of None \<Rightarrow> Inl (KeyError (last os)) | Some f \<Rightarrow> Inr f)"
    using ne by (simp only: build_pipeline_def plan run_plan_def req(1) Let_def and_then_simps prod.case if_False)
  have l: "last os \<in> set os" using ne by simp
  moreover have "dependents dm (last os) = []" using last_step_leaf [of dm os] p ne by blast
  ultimately have l': "last os \<in> set req" using req(3) p unfolding list.set_map by blast
  have "(\<exists>i g x. ap i g = Inl x \<and> ?run = Inl x) \<or>
    (\<exists>sm'. ?run = Inr sm' \<and> (\<forall>i f. map_of sm' i = Some f \<longrightarrow> frame_of ap source dm cached i f) \<and>
       (\<forall>i. i \<in> ?hit \<or> i \<in> set req \<and> i \<in> set ([] @ os) \<longrightarrow> map_of sm' i \<noteq> None))"
    by (rule run_steps_frames [OF _ req(2), where pre = "[]"]) (use p in \<open>auto intro: fr_cached simp: map_of_eq_None_iff\<close>)
  then consider i g x where "ap i g = Inl x" "?run = Inl x"
    | sm' where "?run = Inr sm'" "\<forall>i f. map_of sm' i = Some f \<longrightarrow> frame_of ap source dm cached i f"
        "\<forall>i. i \<in> ?hit \<or> i \<in> set req \<and> i \<in> set ([] @ os) \<longrightarrow> map_of sm' i \<noteq> None" by blast
  then show ?thesis
  proof cases
    case (1 i g x)
    have "build_pipeline ap source blank cached steps = Inl x" unfolding run 1(2) by simp
    then show ?thesis using 1(1) by blast
  next
    case (2 sm')
    obtain f where "map_of sm' (last os) = Some f" using 2(3) l l' by fastforce
    then show ?thesis unfolding run 2(1) using 2(2) by simp
  qed
qed

text \<open>Two steps, the first of them cached: only the second is applied, to the cached frame.\<close>

definition sample_steps :: "pipeline_step list" where
  "sample_steps =
     [\<lparr>ps_id = Some ''a'', ps_depends_on = [], ps_is_applied = True, ps_body = JNull\<rparr>,
      \<lparr>ps_id = Some ''x'', ps_depends_on = [''a''], ps_is_applied = False, ps_body = JNull\<rparr>,
      \<lparr>ps_id = Some ''b'', ps_depends_on = [''x''], ps_is_applied = True, ps_body = JNull\<rparr>]"

lemma sample_plan: "plan_steps sample_steps = Inr ([(''a'', None), (''b'', Some ''a'')], [''a'', ''b''])"
  by code_simp

theorem plan_computes_frames_witness:
  "\<exists>f. build_pipeline (\<lambda>i g. Inr (g @ i)) ''src'' ''blank'' [(''a'', ''old'')] sample_steps = Inr f \<and>
     frame_of (\<lambda>i g. Inr (g @ i)) ''src'' [(''a'', None), (''b'', Some ''a'')] [(''a'', ''old'')] ''b'' f"
  using plan_computes_frames [OF sample_plan, of "\<lambda>i g. Inr (g @ i)" "''src''" "''blank''" "[(''a'', ''old'')]"] by simp

subsection \<open>Validation after relinking\<close>

lemma applied_ancestor_applied: "applied_ancestor m A seen p = Some x \<Longrightarrow> x \<in> A"
proof (induction m A seen p rule: applied_ancestor.induct)
  case (1 m A seen p)
  from "1.prems" show ?case by (subst (asm) applied_ancestor.simps) (use "1.IH" in \<open>auto split: if_splits option.splits\<close>)
qed

lemma relink_facts:
  "ps_id (relink m A s) = ps_id s"
  "truthy (ps_id s) \<Longrightarrow> ps_depends_on (relink m A s) = [] \<or> (\<exists>p \<in> A. ps_depends_on (relink m A s) = [p])"
  using applied_ancestor_applied
  by (auto simp: relink_def nearest_applied_ancestor_def split: option.splits)

lemma dependencies_total:
  "\<forall>s \<in> snd ` set ms. ps_depends_on s = [] \<or> (\<exists>p \<in> fst ` set m. ps_depends_on s = [p]) \<Longrightarrow> \<exists>dm. dependencies m ms = Inr dm"
proof (induction m ms rule: dependencies.induct)
  case (2 m sid s rest)
  have rest: "\<forall>s \<in> snd ` set rest. ps_depends_on s = [] \<or> (\<exists>p \<in> fst ` set m. ps_depends_on s = [p])" using "2.prems" by simp
  from "2.prems" consider "ps_depends_on s = []" | p where "p \<in> fst ` set m" "ps_depends_on s = [p]" by auto
  then show ?case
  proof cases
    case 1
    then obtain dm where "dependencies m rest = Inr dm" using "2.IH"(1) [OF _ 1 rest] by auto
    then show ?thesis using 1 by simp
  next
    case 2
    then have n: "map_of m p \<noteq> None" by (simp add: map_of_eq_None_iff)
    then obtain dm where "dependencies m rest = Inr dm" using "2.IH"(2) [OF _ 2(2) n rest] 2(2) by auto
    then show ?thesis using 2(2) n by auto
  qed
qed simp

text \<open>C31: two of the validations never fire. Relinking has replaced the dependencies of every step by
  none or one applied step before they are checked, so a plan is only ever rejected for a step without
  an ID or a cycle: a step with several dependencies silently keeps the nearest applied ancestor along
  its first one, and a step whose dependency is missing silently becomes a root.\<close>

theorem dependency_checks_never_fire:
  assumes "plan_steps steps = Inl x"
  shows "x = ValueError ''Each pipeline step must include an id'' \<or>
    x = invalid_pipeline ''Pipeline contains a cycle. Remove cyclic dependencies to continue.''"
proof (cases "index_steps (apply_steps steps) []")
  case (Inl y)
  have "index_steps ss m = Inl z \<Longrightarrow> z = ValueError ''Each pipeline step must include an id''" for ss m z
    by (induction ss arbitrary: m) (auto split: if_splits)
  then show ?thesis using assms Inl by (auto simp: plan_steps_def)
next
  case (Inr m)
  have a: "\<forall>s \<in> set (apply_steps steps). ps_depends_on s = [] \<or> (\<exists>p \<in> {i. \<exists>s \<in> set (apply_steps steps). ps_id s = Some i}. ps_depends_on s = [p])"
    if t: "\<forall>s \<in> set (apply_steps steps). truthy (ps_id s)"
  proof
    fix s assume s: "s \<in> set (apply_steps steps)"
    let ?A = "step_ids (filter ps_is_applied steps)" and ?m = "build_step_map steps"
    have as: "set (apply_steps steps) = relink ?m ?A ` set (filter ps_is_applied steps)"
      by (simp add: apply_steps_def Let_def filter_empty_conv)
    then obtain s0 where s0: "s = relink ?m ?A s0" "s0 \<in> set (filter ps_is_applied steps)" using s by blast
    have "truthy (ps_id s0)" using t s s0(1) relink_facts(1) by metis
    moreover have "?A \<subseteq> {i. \<exists>s \<in> set (apply_steps steps). ps_id s = Some i}"
      unfolding as by (auto simp: step_ids_def relink_facts(1) truthy_def split: option.splits)
    ultimately show "ps_depends_on s = [] \<or> (\<exists>p \<in> {i. \<exists>s \<in> set (apply_steps steps). ps_id s = Some i}. ps_depends_on s = [p])"
      using relink_facts(2) [of s0 ?m ?A] unfolding s0(1) by blast
  qed
  note k = index_steps_keys [OF Inr, simplified]
  have "\<exists>dm. dependencies m m = Inr dm"
  proof (rule dependencies_total, rule ballI)
    fix s assume "s \<in> snd ` set m"
    then have "s \<in> set (apply_steps steps)" using k by blast
    then show "ps_depends_on s = [] \<or> (\<exists>p \<in> fst ` set m. ps_depends_on s = [p])" using a k by auto
  qed
  then obtain dm where dm: "dependencies m m = Inr dm" by blast
  have keys: "map fst dm = map fst m" using dependencies_map [OF dm] by simp
  then have "fst ` set dm = fst ` set m" by (metis list.set_map)
  then have ok: "dm_ok dm" using dependencies_map [OF dm] k keys by (auto simp: dm_ok_def)
  show ?thesis using assms step_order_exact [OF ok] by (auto simp: plan_steps_def Inr dm split: if_splits)
qed

definition cyclic_steps :: "pipeline_step list" where
  "cyclic_steps =
     [\<lparr>ps_id = Some ''a'', ps_depends_on = [''b''], ps_is_applied = True, ps_body = JNull\<rparr>,
      \<lparr>ps_id = Some ''b'', ps_depends_on = [''a''], ps_is_applied = True, ps_body = JNull\<rparr>]"

definition merging_steps :: "pipeline_step list" where
  "merging_steps =
     [\<lparr>ps_id = Some ''a'', ps_depends_on = [''gone''], ps_is_applied = True, ps_body = JNull\<rparr>,
      \<lparr>ps_id = Some ''b'', ps_depends_on = [], ps_is_applied = True, ps_body = JNull\<rparr>,
      \<lparr>ps_id = Some ''c'', ps_depends_on = [''a'', ''b''], ps_is_applied = True, ps_body = JNull\<rparr>]"

lemma cyclic_rejected:
  "plan_steps cyclic_steps = Inl (invalid_pipeline ''Pipeline contains a cycle. Remove cyclic dependencies to continue.'')"
  by code_simp

theorem dependency_checks_never_fire_witness:
  "(\<exists>x. plan_steps cyclic_steps = Inl x \<and>
     (x = ValueError ''Each pipeline step must include an id'' \<or>
      x = invalid_pipeline ''Pipeline contains a cycle. Remove cyclic dependencies to continue.'')) \<and>
   plan_steps merging_steps = Inr ([(''a'', None), (''b'', None), (''c'', Some ''a'')], [''a'', ''b'', ''c''])"
proof
  show "plan_steps merging_steps = Inr ([(''a'', None), (''b'', None), (''c'', Some ''a'')], [''a'', ''b'', ''c''])" by code_simp
qed (use dependency_checks_never_fire [OF cyclic_rejected] cyclic_rejected in blast)

end
