(* ===== verification/Pipeline_Types.thy ===== *)
theory Pipeline_Types
  imports Urls
begin

text \<open>
  The typed form of a stored analysis pipeline (\<open>backend_core/domain/analysis/pipeline_types.py\<close>), the
  table of step types (\<open>domain/analysis/step_types.py\<close>), the validated pipeline of a build request
  (\<open>domain/compute/schemas.py\<close>) and the datasources a build reads and publishes
  (\<open>backend_core/build_datasource_dependencies.py\<close>).

  The classes read JSON documents leniently: a missing or ill-typed part becomes an empty value, and
  fields the code does not check keep whatever JSON they hold. The parameter \<open>rep\<close> is \<open>str\<close> of a list or
  dict, which the code only reaches on documents whose IDs are no strings.
\<close>

subsection \<open>Reading JSON\<close>

text \<open>\<open>d.get(k)\<close> and \<open>d.get(k, default)\<close>; JSON null is \<open>None\<close>.\<close>

definition py_get :: "string \<Rightarrow> payload \<Rightarrow> json" where
  "py_get k d = (case map_of d k of None \<Rightarrow> JNull | Some v \<Rightarrow> v)"

definition py_get_or :: "string \<Rightarrow> json \<Rightarrow> payload \<Rightarrow> json" where
  "py_get_or k v0 d = (case map_of d k of None \<Rightarrow> v0 | Some v \<Rightarrow> v)"

fun py_str :: "(json \<Rightarrow> string) \<Rightarrow> json \<Rightarrow> string" where
  "py_str rep JNull = ''None''"
| "py_str rep (JBool b) = (if b then ''True'' else ''False'')"
| "py_str rep (JInt i) = show_int i"
| "py_str rep (JStr s) = s"
| "py_str rep v = rep v"

text \<open>\<open>v if isinstance(v, dict) else {}\<close> and the same for lists.\<close>

definition dict_or_empty :: "json \<Rightarrow> payload" where
  "dict_or_empty v = (case v of JObj d \<Rightarrow> d | _ \<Rightarrow> [])"

definition list_or_empty :: "json \<Rightarrow> json list" where
  "list_or_empty v = (case v of JList xs \<Rightarrow> xs | _ \<Rightarrow> [])"

text \<open>\<open>for x in v\<close>: a dict yields its keys, a string its characters, other scalars raise.\<close>

definition py_iter :: "json \<Rightarrow> json list result" where
  "py_iter v = (case v of
     JList xs \<Rightarrow> Inr xs
   | JObj d \<Rightarrow> Inr (map (JStr \<circ> fst) d)
   | JStr s \<Rightarrow> Inr (map (\<lambda>c. JStr [c]) s)
   | _ \<Rightarrow> Inl (RuntimeError ''TypeError''))"

definition dicts_of :: "json list \<Rightarrow> payload list" where
  "dicts_of xs = concat (map (\<lambda>v. case v of JObj d \<Rightarrow> [d] | _ \<Rightarrow> []) xs)"

subsection \<open>The stored pipeline\<close>

record typed_step =
  st_id :: string
  st_type :: string
  st_config :: payload
  st_depends_on :: "json list"
  st_is_applied :: json

record tab_datasource =
  td_id :: string
  td_config :: payload
  td_analysis_tab_id :: json

record tab_output =
  to_result_id :: string
  to_format :: string
  to_filename :: string
  to_extra :: payload

record typed_tab =
  tt_id :: string
  tt_name :: string
  tt_datasource :: tab_datasource
  tt_output :: tab_output
  tt_steps :: "typed_step list"
  tt_parent_id :: json

definition str_of :: "(json \<Rightarrow> string) \<Rightarrow> string \<Rightarrow> payload \<Rightarrow> string" where
  "str_of rep k d = py_str rep (py_get_or k (JStr []) d)"

definition step_from_dict :: "(json \<Rightarrow> string) \<Rightarrow> payload \<Rightarrow> typed_step" where
  "step_from_dict rep d =
     \<lparr>st_id = str_of rep ''id'' d, st_type = str_of rep ''type'' d, st_config = dict_or_empty (py_get ''config'' d),
      st_depends_on = list_or_empty (py_get ''depends_on'' d), st_is_applied = py_get ''is_applied'' d\<rparr>"

definition step_to_dict :: "typed_step \<Rightarrow> payload" where
  "step_to_dict s =
     [(''id'', JStr (st_id s)), (''type'', JStr (st_type s)), (''config'', JObj (st_config s)),
      (''depends_on'', JList (st_depends_on s)), (''is_applied'', st_is_applied s)]"

definition datasource_from_dict :: "(json \<Rightarrow> string) \<Rightarrow> payload \<Rightarrow> tab_datasource" where
  "datasource_from_dict rep d =
     \<lparr>td_id = str_of rep ''id'' d, td_config = dict_or_empty (py_get ''config'' d), td_analysis_tab_id = py_get ''analysis_tab_id'' d\<rparr>"

definition datasource_to_dict :: "tab_datasource \<Rightarrow> payload" where
  "datasource_to_dict t =
     [(''id'', JStr (td_id t)), (''config'', JObj (td_config t)), (''analysis_tab_id'', td_analysis_tab_id t)]"

definition OUTPUT_KEYS :: "string list" where
  "OUTPUT_KEYS = [''result_id'', ''format'', ''filename'']"

definition output_from_dict :: "(json \<Rightarrow> string) \<Rightarrow> payload \<Rightarrow> tab_output" where
  "output_from_dict rep d =
     \<lparr>to_result_id = str_of rep ''result_id'' d, to_format = str_of rep ''format'' d, to_filename = str_of rep ''filename'' d,
      to_extra = filter (\<lambda>(k, _). k \<notin> set OUTPUT_KEYS) d\<rparr>"

definition output_to_dict :: "tab_output \<Rightarrow> payload" where
  "output_to_dict t =
     merge_obj [(''result_id'', JStr (to_result_id t)), (''format'', JStr (to_format t)), (''filename'', JStr (to_filename t))] (to_extra t)"

definition tab_from_dict :: "(json \<Rightarrow> string) \<Rightarrow> payload \<Rightarrow> typed_tab result" where
  "tab_from_dict rep d =
     and_then (py_iter (py_get_or ''steps'' (JList []) d)) (\<lambda>raw_steps.
       Inr \<lparr>tt_id = str_of rep ''id'' d, tt_name = str_of rep ''name'' d,
            tt_datasource = datasource_from_dict rep (dict_or_empty (py_get ''datasource'' d)),
            tt_output = output_from_dict rep (dict_or_empty (py_get ''output'' d)),
            tt_steps = map (step_from_dict rep) (dicts_of raw_steps), tt_parent_id = py_get ''parent_id'' d\<rparr>)"

definition tab_to_dict :: "typed_tab \<Rightarrow> payload" where
  "tab_to_dict t =
     [(''id'', JStr (tt_id t)), (''name'', JStr (tt_name t)), (''datasource'', JObj (datasource_to_dict (tt_datasource t))),
      (''output'', JObj (output_to_dict (tt_output t))), (''steps'', JList (map (JObj \<circ> step_to_dict) (tt_steps t)))] @
     (if tt_parent_id t = JNull then [] else [(''parent_id'', tt_parent_id t)])"

fun tabs_from_dicts :: "(json \<Rightarrow> string) \<Rightarrow> payload list \<Rightarrow> typed_tab list result" where
  "tabs_from_dicts rep [] = Inr []"
| "tabs_from_dicts rep (d # ds) =
     and_then (tab_from_dict rep d) (\<lambda>t. and_then (tabs_from_dicts rep ds) (\<lambda>ts. Inr (t # ts)))"

definition pipeline_from_dict :: "(json \<Rightarrow> string) \<Rightarrow> payload \<Rightarrow> typed_tab list result" where
  "pipeline_from_dict rep d =
     and_then (py_iter (py_get_or ''tabs'' (JList []) d)) (\<lambda>raw_tabs. tabs_from_dicts rep (dicts_of raw_tabs))"

definition pipeline_to_dict :: "typed_tab list \<Rightarrow> payload" where
  "pipeline_to_dict tabs = [(''tabs'', JList (map (JObj \<circ> tab_to_dict) tabs))]"

definition find_tab :: "string \<Rightarrow> typed_tab list \<Rightarrow> typed_tab result" where
  "find_tab i tabs = (case find (\<lambda>t. tt_id t = i) tabs of
     None \<Rightarrow> Inl (ValueError (''Tab '' @ i @ '' not found'')) | Some t \<Rightarrow> Inr t)"

subsection \<open>Step types\<close>

text \<open>The fields of \<open>StepTypes\<close>: the value, the canonical type of an alias, its chart type and the config
  keys that name other datasources.\<close>

record step_type_info =
  sy_value :: string
  sy_normalized :: "string option"
  sy_chart_type :: "string option"
  sy_dependency_keys :: "string list"

definition plain_type :: "string \<Rightarrow> step_type_info" where
  "plain_type v = \<lparr>sy_value = v, sy_normalized = None, sy_chart_type = None, sy_dependency_keys = []\<rparr>"

definition plot_type :: "string \<Rightarrow> step_type_info" where
  "plot_type c = \<lparr>sy_value = ''plot_'' @ c, sy_normalized = Some ''chart'', sy_chart_type = Some c, sy_dependency_keys = []\<rparr>"

definition STEP_TYPES :: "step_type_info list" where
  "STEP_TYPES =
     map plain_type [''select'', ''drop'', ''filter'', ''groupby''] @
     [(plain_type ''join'')\<lparr>sy_dependency_keys := [''right_source'']\<rparr>, (plain_type ''union_by_name'')\<lparr>sy_dependency_keys := [''sources'']\<rparr>] @
     map plain_type [''unpivot'', ''explode'', ''pivot'', ''sample'', ''limit'', ''topk'', ''view'', ''export'', ''download'', ''chart'',
       ''notification'', ''ai'', ''datasource'', ''sort'', ''rename'', ''expression'', ''with_columns'', ''fill_null'', ''deduplicate'',
       ''string_transform'', ''timeseries''] @
     map plot_type [''bar'', ''horizontal_bar'', ''area'', ''heatgrid'', ''histogram'', ''scatter'', ''line'', ''pie'', ''boxplot'']"

definition definition_for :: "string \<Rightarrow> step_type_info option" where
  "definition_for v = get_row sy_value v STEP_TYPES"

definition step_type_has :: "string \<Rightarrow> bool" where
  "step_type_has v \<longleftrightarrow> definition_for v \<noteq> None"

definition step_is_plot_alias :: "string \<Rightarrow> bool" where
  "step_is_plot_alias v \<longleftrightarrow> (case definition_for v of None \<Rightarrow> False | Some d \<Rightarrow> sy_chart_type d \<noteq> None)"

definition all_step_types :: "bool \<Rightarrow> string list" where
  "all_step_types include_plot_aliases =
     (if include_plot_aliases then map sy_value STEP_TYPES else filter (\<lambda>v. \<not> step_is_plot_alias v) (map sy_value STEP_TYPES))"

definition normalized_step_type :: "string \<Rightarrow> string" where
  "normalized_step_type v = (case definition_for v of None \<Rightarrow> v | Some d \<Rightarrow> or_else (sy_normalized d) (sy_value d))"

definition step_chart_type :: "string \<Rightarrow> string option" where
  "step_chart_type v = (case definition_for v of None \<Rightarrow> None | Some d \<Rightarrow> sy_chart_type d)"

definition dependency_config_keys :: "string \<Rightarrow> string list" where
  "dependency_config_keys v = (case definition_for v of None \<Rightarrow> [] | Some d \<Rightarrow> sy_dependency_keys d)"

definition strings_of :: "json list \<Rightarrow> string list" where
  "strings_of xs = concat (map (\<lambda>v. case v of JStr s \<Rightarrow> [s] | _ \<Rightarrow> []) xs)"

definition dependency_values :: "string \<Rightarrow> payload \<Rightarrow> string list" where
  "dependency_values v config =
     concat (map (\<lambda>k. case py_get k config of
         JStr s \<Rightarrow> if s = [] then [] else [s]
       | JList xs \<Rightarrow> filter (\<lambda>s. s \<noteq> []) (strings_of xs)
       | _ \<Rightarrow> []) (dependency_config_keys v))"

subsection \<open>Writing a pipeline and reading it back\<close>

text \<open>A document as Python holds it: the keys of every dict are distinct.\<close>

fun json_ok :: "json \<Rightarrow> bool" where
  "json_ok (JList xs) \<longleftrightarrow> (\<forall>v \<in> set xs. json_ok v)"
| "json_ok (JObj d) \<longleftrightarrow> distinct (map fst d) \<and> (\<forall>kv \<in> set d. json_ok (snd kv))"
| "json_ok _ \<longleftrightarrow> True"

definition output_ok :: "tab_output \<Rightarrow> bool" where
  "output_ok t \<longleftrightarrow> distinct (map fst (to_extra t)) \<and> fst ` set (to_extra t) \<inter> set OUTPUT_KEYS = {}"

lemma update_fresh: "k \<notin> fst ` set d \<Longrightarrow> AList.update k v d = d @ [(k, v)]"
  by (induction d) auto

lemma merge_obj_disjoint:
  "distinct (map fst new) \<Longrightarrow> fst ` set base \<inter> fst ` set new = {} \<Longrightarrow> merge_obj base new = base @ new"
  unfolding merge_obj_def
proof (induction new arbitrary: base)
  case (Cons kv new)
  obtain k v where kv: "kv = (k, v)" by (cases kv)
  have "fst ` set (base @ [kv]) \<inter> fst ` set new = {}" using Cons.prems kv by auto
  then show ?case using Cons.IH [of "base @ [kv]"] Cons.prems kv by (simp add: update_fresh)
qed simp

lemma py_get_step [simp]: "step_from_dict rep (step_to_dict s) = s"
  by (simp add: step_from_dict_def step_to_dict_def str_of_def py_get_def py_get_or_def dict_or_empty_def list_or_empty_def)

lemma datasource_roundtrip [simp]: "datasource_from_dict rep (datasource_to_dict t) = t"
  by (simp add: datasource_from_dict_def datasource_to_dict_def str_of_def py_get_def py_get_or_def dict_or_empty_def)

lemma output_roundtrip:
  assumes "output_ok t"
  shows "output_from_dict rep (output_to_dict t) = t"
proof -
  have d: "output_to_dict t = [(''result_id'', JStr (to_result_id t)), (''format'', JStr (to_format t)), (''filename'', JStr (to_filename t))] @ to_extra t"
    unfolding output_to_dict_def using assms
    by (intro merge_obj_disjoint) (auto simp: output_ok_def OUTPUT_KEYS_def)
  have "filter (\<lambda>(k, _). k \<notin> set OUTPUT_KEYS) (to_extra t) = to_extra t"
    using assms by (force simp: output_ok_def filter_id_conv)
  then show ?thesis by (simp add: d output_from_dict_def str_of_def py_get_or_def) (simp add: OUTPUT_KEYS_def)
qed

lemma dicts_of_map [simp]: "dicts_of (map (\<lambda>x. JObj (f x)) xs) = map f xs"
  by (induction xs) (auto simp: dicts_of_def)

lemma tab_roundtrip:
  assumes "output_ok (tt_output t)"
  shows "tab_from_dict rep (tab_to_dict t) = Inr t"
  using output_roundtrip [OF assms, of rep]
  by (simp add: tab_from_dict_def tab_to_dict_def str_of_def py_get_def py_get_or_def py_iter_def dict_or_empty_def comp_def map_idI)

lemma tabs_roundtrip:
  "\<forall>t \<in> set ts. output_ok (tt_output t) \<Longrightarrow> tabs_from_dicts rep (map tab_to_dict ts) = Inr ts"
  by (induction ts) (auto simp: tab_roundtrip)

lemma json_ok_get: "json_ok (JObj d) \<Longrightarrow> json_ok v \<Longrightarrow> json_ok (py_get_or k v d)"
  by (force simp: py_get_or_def split: option.split dest: map_of_SomeD)

lemma json_ok_iter: "json_ok v \<Longrightarrow> py_iter v = Inr xs \<Longrightarrow> d \<in> set (dicts_of xs) \<Longrightarrow> json_ok (JObj d)"
  by (cases v) (fastforce simp: py_iter_def dicts_of_def simp del: json_ok.simps(2) split: json.splits)+

lemma output_from_dict_ok:
  assumes "json_ok v"
  shows "output_ok (output_from_dict rep (dict_or_empty v))"
  using assms by (cases v) (auto simp: output_ok_def output_from_dict_def dict_or_empty_def distinct_map_filter)

lemma tab_from_dict_ok: "json_ok (JObj d) \<Longrightarrow> tab_from_dict rep d = Inr t \<Longrightarrow> output_ok (tt_output t)"
  using json_ok_get [of d JNull "''output''"] output_from_dict_ok
  by (auto simp: tab_from_dict_def py_get_def py_get_or_def elim!: and_then_okE)

lemma tabs_from_dicts_ok:
  "\<forall>d \<in> set ds. json_ok (JObj d) \<Longrightarrow> tabs_from_dicts rep ds = Inr ts \<Longrightarrow> \<forall>t \<in> set ts. output_ok (tt_output t)"
  by (induction ds arbitrary: ts) (auto elim!: and_then_okE simp del: json_ok.simps dest: tab_from_dict_ok)

text \<open>C21: reading a stored pipeline is stable. Whatever document the typed pipeline was read from, writing
  it with \<open>to_dict\<close> and reading the result gives the same tabs, steps and outputs again.\<close>

theorem pipeline_roundtrip:
  assumes "json_ok (JObj d)" and "pipeline_from_dict rep d = Inr tabs"
  shows "pipeline_from_dict rep (pipeline_to_dict tabs) = Inr tabs"
proof -
  from assms(2) obtain raw where raw: "py_iter (py_get_or ''tabs'' (JList []) d) = Inr raw" "tabs_from_dicts rep (dicts_of raw) = Inr tabs"
    by (auto simp: pipeline_from_dict_def elim!: and_then_okE)
  have "json_ok (py_get_or ''tabs'' (JList []) d)" using assms(1) by (rule json_ok_get) simp
  then have "\<forall>x \<in> set (dicts_of raw). json_ok (JObj x)" using json_ok_iter [OF _ raw(1)] by blast
  then have "\<forall>t \<in> set tabs. output_ok (tt_output t)" by (rule tabs_from_dicts_ok [OF _ raw(2)])
  then show ?thesis
    by (simp add: pipeline_from_dict_def pipeline_to_dict_def py_get_or_def py_iter_def tabs_roundtrip comp_def)
qed

definition sample_pipeline :: payload where
  "sample_pipeline =
     [(''tabs'', JList [JObj [(''id'', JInt 7), (''datasource'', JObj [(''id'', JStr ''d'')]), (''output'', JObj [(''format'', JStr ''csv''),
        (''mode'', JStr ''full''), (''result_id'', JStr ''r'')]), (''steps'', JList [JObj [(''id'', JStr ''s''), (''config'', JNull)], JStr ''junk''])]])]"

definition sample_tabs :: "typed_tab list" where
  "sample_tabs =
     [\<lparr>tt_id = ''7'', tt_name = [], tt_datasource = \<lparr>td_id = ''d'', td_config = [], td_analysis_tab_id = JNull\<rparr>,
       tt_output = \<lparr>to_result_id = ''r'', to_format = ''csv'', to_filename = [], to_extra = [(''mode'', JStr ''full'')]\<rparr>,
       tt_steps = [\<lparr>st_id = ''s'', st_type = [], st_config = [], st_depends_on = [], st_is_applied = JNull\<rparr>], tt_parent_id = JNull\<rparr>]"

lemma sample_pipeline_read: "pipeline_from_dict (\<lambda>_. []) sample_pipeline = Inr sample_tabs"
  by code_simp

theorem pipeline_roundtrip_witness:
  "json_ok (JObj sample_pipeline) \<and> pipeline_from_dict (\<lambda>_. []) (pipeline_to_dict sample_tabs) = Inr sample_tabs"
proof
  show ok: "json_ok (JObj sample_pipeline)" by (simp add: sample_pipeline_def)
  show "pipeline_from_dict (\<lambda>_. []) (pipeline_to_dict sample_tabs) = Inr sample_tabs"
    by (rule pipeline_roundtrip [OF ok sample_pipeline_read])
qed

end
