(* ===== verification/Build_Requests.thy ===== *)
theory Build_Requests
  imports Pipeline_Types Analysis_Cycles Datasources
begin

text \<open>
  From a stored analysis to the request of a build: the payload that the scheduler builds
  (\<open>build_analysis_pipeline_payload\<close> in \<open>modules/scheduler/service.py\<close>), its validation by the models of
  \<open>backend_core/domain/compute/schemas.py\<close>, and the datasources that the build reads and publishes
  (\<open>backend_core/build_datasource_dependencies.py\<close>). A failed model validation is one \<open>ValidationError\<close>, a
  subclass of \<open>ValueError\<close>; which fields it lists is not modelled.
\<close>

record analysis =
  an_id :: string
  an_name :: string
  an_pipeline_definition :: payload

subsection \<open>Strings and truth\<close>

definition nonblank :: "json \<Rightarrow> bool" where
  "nonblank v \<longleftrightarrow> (case v of JStr s \<Rightarrow> py_strip s \<noteq> [] | _ \<Rightarrow> False)"

fun py_truth :: "json \<Rightarrow> bool" where
  "py_truth JNull \<longleftrightarrow> False"
| "py_truth (JBool b) \<longleftrightarrow> b"
| "py_truth (JInt i) \<longleftrightarrow> i \<noteq> 0"
| "py_truth (JStr s) \<longleftrightarrow> s \<noteq> []"
| "py_truth (JList xs) \<longleftrightarrow> xs \<noteq> []"
| "py_truth (JObj d) \<longleftrightarrow> d \<noteq> []"

fun result_map :: "('a \<Rightarrow> 'b result) \<Rightarrow> 'a list \<Rightarrow> 'b list result" where
  "result_map f [] = Inr []"
| "result_map f (x # xs) = and_then (f x) (\<lambda>y. and_then (result_map f xs) (\<lambda>ys. Inr (y # ys)))"

subsection \<open>The validated request\<close>

record request_tab =
  rt_id :: string
  rt_name :: "string option"
  rt_datasource_id :: string
  rt_analysis_tab_id :: "string option"
  rt_source_type :: "string option"
  rt_config :: payload
  rt_output :: payload
  rt_steps :: "payload list"

record build_request =
  bq_analysis_id :: string
  bq_tabs :: "request_tab list"
  bq_tab_id :: string

definition validation_error :: py_error where
  "validation_error = ValueError ''ValidationError''"

definition as_str :: "json option \<Rightarrow> string result" where
  "as_str v = (case v of Some (JStr s) \<Rightarrow> Inr s | _ \<Rightarrow> Inl validation_error)"

definition as_optional_str :: "json option \<Rightarrow> string option result" where
  "as_optional_str v = (case v of Some (JStr s) \<Rightarrow> Inr (Some s) | Some JNull \<Rightarrow> Inr None | _ \<Rightarrow> Inl validation_error)"

definition as_dict :: "json option \<Rightarrow> payload result" where
  "as_dict v = (case v of Some (JObj d) \<Rightarrow> Inr d | _ \<Rightarrow> Inl validation_error)"

definition as_list :: "json option \<Rightarrow> json list result" where
  "as_list v = (case v of Some (JList xs) \<Rightarrow> Inr xs | _ \<Rightarrow> Inl validation_error)"

text \<open>A stripped string of at least one character.\<close>

definition as_stripped :: "json option \<Rightarrow> string result" where
  "as_stripped v = and_then (as_str v) (\<lambda>s. if py_strip s = [] then Inl validation_error else Inr (py_strip s))"

definition STEP_KEYS :: "string list" where
  "STEP_KEYS = [''id'', ''type'', ''config'', ''depends_on'', ''is_applied'']"

definition step_valid :: "payload \<Rightarrow> bool" where
  "step_valid s \<longleftrightarrow>
     fst ` set s \<subseteq> set STEP_KEYS \<and> nonblank (py_get ''id'' s) \<and> nonblank (py_get ''type'' s) \<and>
     (case py_get ''type'' s of JStr t \<Rightarrow> step_type_has t | _ \<Rightarrow> False) \<and>
     (case py_get ''config'' s of JNull \<Rightarrow> True | JObj _ \<Rightarrow> True | _ \<Rightarrow> False) \<and>
     (case py_get ''depends_on'' s of JNull \<Rightarrow> True | JList ds \<Rightarrow> list_all nonblank ds | _ \<Rightarrow> False) \<and>
     (case py_get ''is_applied'' s of JNull \<Rightarrow> True | JBool _ \<Rightarrow> True | _ \<Rightarrow> False)"

definition validate_step :: "json \<Rightarrow> payload result" where
  "validate_step v = and_then (as_dict (Some v)) (\<lambda>s. if step_valid s then Inr s else Inl validation_error)"

definition validate_output :: "json option \<Rightarrow> payload result" where
  "validate_output v = and_then (as_dict v) (\<lambda>out.
     if nonblank (py_get ''result_id'' out) \<and> nonblank (py_get ''filename'' out) \<and> nonblank (py_get ''format'' out)
     then Inr out else Inl validation_error)"

definition validate_tab :: "json \<Rightarrow> request_tab result" where
  "validate_tab v =
     and_then (as_dict (Some v)) (\<lambda>t.
     and_then (as_str (map_of t ''id'')) (\<lambda>tid.
     and_then (if map_of t ''name'' = None then Inr None else as_optional_str (map_of t ''name'')) (\<lambda>name.
     and_then (as_dict (map_of t ''datasource'')) (\<lambda>ds.
     and_then (as_stripped (map_of ds ''id'')) (\<lambda>did.
     and_then (as_optional_str (map_of ds ''analysis_tab_id'')) (\<lambda>atab.
     and_then (if map_of ds ''source_type'' = None then Inr None else as_optional_str (map_of ds ''source_type'')) (\<lambda>stype.
     and_then (as_dict (map_of ds ''config'')) (\<lambda>cfg.
     and_then (as_stripped (map_of cfg ''branch'')) (\<lambda>branch.
     and_then (validate_output (map_of t ''output'')) (\<lambda>out.
     and_then (as_list (map_of t ''steps'')) (\<lambda>steps.
     and_then (result_map validate_step steps) (\<lambda>ss.
       Inr \<lparr>rt_id = tid, rt_name = name, rt_datasource_id = did, rt_analysis_tab_id = atab, rt_source_type = stype,
            rt_config = (''branch'', JStr branch) # filter (\<lambda>(k, _). k \<noteq> ''branch'') cfg, rt_output = out, rt_steps = ss\<rparr>))))))))))))"

definition validate_request :: "payload \<Rightarrow> string \<Rightarrow> build_request result" where
  "validate_request p tab_id =
     and_then (as_str (map_of p ''analysis_id'')) (\<lambda>aid.
       if aid = [] then Inl validation_error
       else and_then (as_list (map_of p ''tabs'')) (\<lambda>raw.
         if raw = [] then Inl validation_error
         else and_then (result_map validate_tab raw) (\<lambda>tabs.
           Inr \<lparr>bq_analysis_id = aid, bq_tabs = tabs, bq_tab_id = tab_id\<rparr>)))"

definition opt_json :: "string option \<Rightarrow> json" where
  "opt_json s = (case s of None \<Rightarrow> JNull | Some x \<Rightarrow> JStr x)"

definition dump_tab :: "request_tab \<Rightarrow> json" where
  "dump_tab t =
     JObj [(''id'', JStr (rt_id t)), (''name'', opt_json (rt_name t)),
       (''datasource'', JObj [(''id'', JStr (rt_datasource_id t)), (''analysis_tab_id'', opt_json (rt_analysis_tab_id t)),
          (''source_type'', opt_json (rt_source_type t)), (''config'', JObj (rt_config t))]),
       (''output'', JObj (rt_output t)), (''steps'', JList (map JObj (rt_steps t)))]"

definition pipeline_payload :: "build_request \<Rightarrow> payload" where
  "pipeline_payload q =
     [(''analysis_id'', JStr (bq_analysis_id q)), (''tabs'', JList (map dump_tab (bq_tabs q))), (''tab_id'', JStr (bq_tab_id q))]"

text \<open>\<open>normalize_pipeline_step_configs_for_protocol\<close>; the canonical form of one step config
  (\<open>normalize_step_config_for_protocol\<close> of \<open>modules/analysis/step_schemas.py\<close>, pydantic models per step type)
  is the parameter \<open>norm\<close>.\<close>

definition normalize_step :: "(string \<Rightarrow> payload \<Rightarrow> payload) \<Rightarrow> json \<Rightarrow> json" where
  "normalize_step norm v = (case v of
     JObj s \<Rightarrow> (case (py_get ''type'' s, py_get ''config'' s) of
        (JStr t, JObj c) \<Rightarrow> JObj (AList.update ''config'' (JObj (norm t c)) s)
      | _ \<Rightarrow> JObj s)
   | _ \<Rightarrow> v)"

definition normalize_tab :: "(string \<Rightarrow> payload \<Rightarrow> payload) \<Rightarrow> json \<Rightarrow> json" where
  "normalize_tab norm v = (case v of
     JObj t \<Rightarrow> (case py_get ''steps'' t of
        JList ss \<Rightarrow> JObj (AList.update ''steps'' (JList (map (normalize_step norm) ss)) t)
      | _ \<Rightarrow> JObj t)
   | _ \<Rightarrow> v)"

definition normalize_pipeline :: "(string \<Rightarrow> payload \<Rightarrow> payload) \<Rightarrow> payload \<Rightarrow> payload" where
  "normalize_pipeline norm p = (case py_get ''tabs'' p of
     JList ts \<Rightarrow> AList.update ''tabs'' (JList (map (normalize_tab norm) ts)) p
   | _ \<Rightarrow> p)"

definition build_request_json :: "(string \<Rightarrow> payload \<Rightarrow> payload) \<Rightarrow> build_request \<Rightarrow> payload" where
  "build_request_json norm q =
     (let p = normalize_pipeline norm (pipeline_payload q)
      in [(''analysis_pipeline'', JObj [(''analysis_id'', py_get ''analysis_id'' p), (''tabs'', py_get ''tabs'' p)]),
          (''tab_id'', JStr (bq_tab_id q))])"

subsection \<open>The payload of an analysis\<close>

definition tab_output_id :: "payload \<Rightarrow> json result" where
  "tab_output_id t = (case py_get ''output'' t of
     JObj out \<Rightarrow> if py_truth (py_get ''result_id'' out) then Inr (py_get ''result_id'' out)
                 else Inl (ValueError ''Analysis pipeline tab missing output.result_id'')
   | _ \<Rightarrow> Inl (ValueError ''Analysis pipeline tab missing output configuration''))"

fun collect_outputs :: "(json \<Rightarrow> string) \<Rightarrow> payload list \<Rightarrow> (string \<times> string) list \<Rightarrow> (string \<times> string) list result" where
  "collect_outputs rep [] m = Inr m"
| "collect_outputs rep (t # ts) m =
     and_then (tab_output_id t) (\<lambda>oid.
       collect_outputs rep ts (if py_truth (py_get ''id'' t) then AList.update (py_str rep (py_get ''id'' t)) (py_str rep oid) m else m))"

text \<open>One tab of the second loop; \<open>local\<close> are the outputs of the analysis itself.\<close>

definition payload_tab :: "(json \<Rightarrow> string) \<Rightarrow> string set \<Rightarrow> 'a compute_db_scheme \<Rightarrow> payload \<Rightarrow> json result" where
  "payload_tab rep locals db t =
     (case py_get ''datasource'' t of
        JObj ds \<Rightarrow> and_then (tab_output_id t) (\<lambda>_.
          case py_get ''config'' ds of
            JObj config \<Rightarrow>
              if \<not> nonblank (py_get ''branch'' config) then Inl (ValueError ''Analysis pipeline tab datasource.config.branch is required'')
              else if \<not> py_truth (py_get ''id'' ds) then Inl (ValueError ''Analysis pipeline tab missing datasource.id'')
              else let did = py_str rep (py_get ''id'' ds);
                       atab = (case py_get ''analysis_tab_id'' ds of JStr s \<Rightarrow> JStr s | _ \<Rightarrow> JNull);
                       own = (py_truth atab \<or> did \<in> locals);
                       model = (if own then None else get_row ds_id did (datasources db))
                   in and_then (case model of
                        None \<Rightarrow> Inr (if own then JStr ''analysis'' else JNull, config)
                      | Some m \<Rightarrow> (case ds_config m of
                          JObj c \<Rightarrow> Inr (JStr (ds_source_type m), merge_obj (merge_obj [(''branch'', py_get ''branch'' config)] c) config)
                        | _ \<Rightarrow> Inl (RuntimeError ''TypeError''))) (\<lambda>(stype, merged).
                     Inr (JObj (merge_obj t
                       [(''datasource'', JObj (merge_obj ds [(''id'', py_get ''id'' ds), (''analysis_tab_id'', atab), (''source_type'', stype), (''config'', JObj merged)])),
                        (''steps'', py_get_or ''steps'' (JList []) t)])))
          | _ \<Rightarrow> Inl (ValueError ''Analysis pipeline tab datasource.config must be a dict''))
      | _ \<Rightarrow> Inl (ValueError ''Analysis pipeline tab datasource must be a dict''))"

definition build_analysis_pipeline_payload :: "(json \<Rightarrow> string) \<Rightarrow> 'a compute_db_scheme \<Rightarrow> analysis \<Rightarrow> payload result" where
  "build_analysis_pipeline_payload rep db a =
     (case py_get_or ''tabs'' (JList []) (an_pipeline_definition a) of
        JList (v # vs) \<Rightarrow>
          let ts = dicts_of (v # vs)
          in and_then (collect_outputs rep ts []) (\<lambda>m.
             and_then (result_map (payload_tab rep (snd ` set m) db) ts) (\<lambda>tabs.
               Inr [(''analysis_id'', JStr (an_id a)), (''tabs'', JList tabs)]))
      | _ \<Rightarrow> Inr [(''analysis_id'', JStr (an_id a)), (''tabs'', JList [])])"

subsection \<open>Datasources of a build\<close>

definition output_datasource_ids :: "build_request \<Rightarrow> string set" where
  "output_datasource_ids q = set (concat (map (\<lambda>t. case py_get ''result_id'' (rt_output t) of JStr s \<Rightarrow> [s] | _ \<Rightarrow> []) (bq_tabs q)))"

definition step_sources :: "payload \<Rightarrow> string list" where
  "step_sources s = (case py_get ''config'' s of
     JObj c \<Rightarrow> (case py_get ''right_source'' c of JStr x \<Rightarrow> [x] | _ \<Rightarrow> []) @
               (case py_get ''sources'' c of JList xs \<Rightarrow> strings_of xs | _ \<Rightarrow> [])
   | _ \<Rightarrow> [])"

definition local_ids :: "build_request \<Rightarrow> string set" where
  "local_ids q = set (map rt_id (bq_tabs q)) \<union> output_datasource_ids q"

definition tab_external_ids :: "string set \<Rightarrow> request_tab \<Rightarrow> string list" where
  "tab_external_ids locals t =
     (if rt_analysis_tab_id t = None \<and> (rt_datasource_id t \<notin> locals \<or> rt_source_type t = Some ''schedule'') then [rt_datasource_id t] else []) @
     filter (\<lambda>s. s \<notin> locals) (concat (map step_sources (rt_steps t)))"

definition external_datasource_ids :: "build_request \<Rightarrow> string list" where
  "external_datasource_ids q = sort (remdups (concat (map (tab_external_ids (local_ids q)) (bq_tabs q))))"

definition build_datasource_ids :: "build_request \<Rightarrow> string list" where
  "build_datasource_ids q = sorted_list_of_set (set (external_datasource_ids q) \<union> output_datasource_ids q)"

text \<open>The shared lifecycle locks order the reads with a deletion; a datasource that is missing or being
  deleted raises.\<close>

definition lock_active_datasources :: "string list \<Rightarrow> 'a compute_db_scheme \<Rightarrow> unit result" where
  "lock_active_datasources ids db =
     and_then (result_map (\<lambda>i. get_active_datasource i db) (sort (remdups ids))) (\<lambda>_. Inr ())"

end
