(* ===== verification/Schedules.thy ===== *)
theory Schedules
  imports Build_Requests
begin

text \<open>
  Schedules (\<open>modules/scheduler/service.py\<close>, \<open>persistence/scheduler/models.py\<close>, \<open>domain/scheduler/schemas.py\<close>):
  creation, update and deletion, the scan for due schedules with its keyset pagination, claims under a
  fenced lease, the builds a claimed schedule enqueues, the reconciliation of finished builds, the
  next wake of the namespace and the RPC that runs one scan (\<open>RunDueSchedules\<close> in
  \<open>backend_grpc/server.py\<close>).

  The parameter \<open>cron\<close> is \<open>croniter(expression, base).get_next\<close>, which raises on a bad expression; \<open>rep\<close> and
  \<open>norm\<close> are those of the build requests. Application clocks are arguments. Columns are time zone aware,
  so every comparison is one of instants.
\<close>

type_synonym cron = "string \<Rightarrow> timestamp \<Rightarrow> timestamp result"

record schedule =
  sc_id :: string
  sc_datasource_id :: string
  sc_description :: "string option"
  sc_cron_expression :: string
  sc_enabled :: bool
  sc_depends_on :: "string option"
  sc_trigger_on_datasource_id :: "string option"
  sc_last_run :: "timestamp option"
  sc_next_run :: "timestamp option"
  sc_lease_owner :: "string option"
  sc_claim_token :: "string option"
  sc_lease_generation :: int
  sc_lease_expires_at :: "timestamp option"
  sc_attempts :: int
  sc_last_claimed_at :: "timestamp option"
  sc_last_triggered_at :: "timestamp option"
  sc_last_success_at :: "timestamp option"
  sc_last_failure_at :: "timestamp option"
  sc_last_successful_build_id :: "string option"
  sc_created_at :: timestamp

record schedule_db = analysis_db +
  analyses :: "analysis list"
  schedules :: "schedule list"

definition SCHEDULE_LEASE_DURATION :: int where
  "SCHEDULE_LEASE_DURATION = seconds 300"

definition SCHEDULE_CANDIDATE_BATCH_SIZE :: nat where
  "SCHEDULE_CANDIDATE_BATCH_SIZE = 100"

text \<open>\<open>datetime.min\<close> in microseconds since the epoch.\<close>

definition DATETIME_MIN :: timestamp where
  "DATETIME_MIN = seconds (- 62135596800)"

definition get_schedule :: "string \<Rightarrow> 'a schedule_db_scheme \<Rightarrow> schedule option" where
  "get_schedule i db = get_row sc_id i (schedules db)"

definition put_schedule :: "schedule \<Rightarrow> 'a schedule_db_scheme \<Rightarrow> 'a schedule_db_scheme" where
  "put_schedule s db = db\<lparr>schedules := update_where (\<lambda>r. sc_id r = sc_id s) (\<lambda>_. s) (schedules db)\<rparr>"

definition release_lease :: "schedule \<Rightarrow> schedule" where
  "release_lease s = s\<lparr>sc_lease_owner := None, sc_claim_token := None, sc_lease_expires_at := None\<rparr>"

subsection \<open>Cron\<close>

definition compute_next_run :: "cron \<Rightarrow> string \<Rightarrow> timestamp \<Rightarrow> timestamp option result" where
  "compute_next_run cron expr base = (if expr = [] then Inr None else and_then (cron expr base) (\<lambda>t. Inr (Some t)))"

definition should_run :: "cron \<Rightarrow> timestamp \<Rightarrow> string \<Rightarrow> timestamp option \<Rightarrow> bool result" where
  "should_run cron wall expr last_run =
     (if expr = [] then Inr False
      else case last_run of None \<Rightarrow> Inr True | Some t \<Rightarrow> and_then (cron expr t) (\<lambda>n. Inr (n \<le> wall)))"

subsection \<open>Creating, updating and deleting\<close>

record schedule_create =
  cr_datasource_id :: string
  cr_description :: "string option"
  cr_cron_expression :: string
  cr_enabled :: bool
  cr_depends_on :: "string option"
  cr_trigger_on_datasource_id :: "string option"

text \<open>The outer option of a field is whether the caller set it, the inner one whether the value is null.\<close>

record schedule_update =
  up_cron_expression :: "string option option"
  up_description :: "string option option"
  up_enabled :: "bool option option"
  up_datasource_id :: "string option option"
  up_depends_on :: "string option option"
  up_trigger_on_datasource_id :: "string option option"

definition attr :: "'v option option \<Rightarrow> 'v option" where
  "attr x = (case x of None \<Rightarrow> None | Some v \<Rightarrow> v)"

definition normalize_description :: "string option \<Rightarrow> string option" where
  "normalize_description d = (case d of None \<Rightarrow> None | Some s \<Rightarrow> if py_strip s = [] then None else Some s)"

definition DESCRIPTION_MAX_LENGTH :: nat where
  "DESCRIPTION_MAX_LENGTH = 2000"

definition description_fits :: "string option \<Rightarrow> bool" where
  "description_fits d \<longleftrightarrow> (case d of None \<Rightarrow> True | Some s \<Rightarrow> length s \<le> DESCRIPTION_MAX_LENGTH)"

definition one_trigger :: "string option \<Rightarrow> string option \<Rightarrow> bool" where
  "one_trigger depends_on trigger \<longleftrightarrow> \<not> (truthy depends_on \<and> truthy trigger)"

definition validate_create :: "schedule_create \<Rightarrow> schedule_create result" where
  "validate_create p =
     (if description_fits (cr_description p) \<and> one_trigger (cr_depends_on p) (cr_trigger_on_datasource_id p)
      then Inr (p\<lparr>cr_description := normalize_description (cr_description p)\<rparr>) else Inl validation_error)"

definition validate_update :: "schedule_update \<Rightarrow> schedule_update result" where
  "validate_update p =
     (if description_fits (attr (up_description p)) \<and> one_trigger (attr (up_depends_on p)) (attr (up_trigger_on_datasource_id p))
      then Inr (p\<lparr>up_description := map_option normalize_description (up_description p)\<rparr>) else Inl validation_error)"

definition schedule_not_found :: "string \<Rightarrow> py_error" where
  "schedule_not_found i = AppError ''SCHEDULE_NOT_FOUND'' (''Schedule '' @ i @ '' not found'')"

definition is_analysis_output :: "datasource \<Rightarrow> bool result" where
  "is_analysis_output d =
     (if ds_created_by d = ''import'' then Inr False else if ds_created_by d = ''analysis'' then Inr True
      else Inl (ValueError ''Unsupported DataSourceCreatedBy''))"

definition validate_schedule_references :: "string option \<Rightarrow> string option \<Rightarrow> 'a schedule_db_scheme \<Rightarrow> unit result" where
  "validate_schedule_references depends_on trigger db =
     (if truthy depends_on \<and> get_schedule (the depends_on) db = None
      then Inl (AppError ''SCHEDULE_VALIDATION_ERROR'' ''Dependency schedule not found'')
      else if truthy trigger \<and> get_row ds_id (the trigger) (datasources db) = None
      then Inl (datasource_not_found (the trigger)) else Inr ())"

definition new_schedule :: "schedule_create \<Rightarrow> string \<Rightarrow> timestamp \<Rightarrow> timestamp option \<Rightarrow> schedule" where
  "new_schedule p i now next_run =
     \<lparr>sc_id = i, sc_datasource_id = cr_datasource_id p, sc_description = cr_description p,
      sc_cron_expression = cr_cron_expression p, sc_enabled = cr_enabled p, sc_depends_on = cr_depends_on p,
      sc_trigger_on_datasource_id = cr_trigger_on_datasource_id p, sc_last_run = None, sc_next_run = next_run,
      sc_lease_owner = None, sc_claim_token = None, sc_lease_generation = 0, sc_lease_expires_at = None, sc_attempts = 0,
      sc_last_claimed_at = None, sc_last_triggered_at = None, sc_last_success_at = None, sc_last_failure_at = None,
      sc_last_successful_build_id = None, sc_created_at = now\<rparr>"

definition stage_create_schedule ::
  "settings \<Rightarrow> cron \<Rightarrow> txn \<Rightarrow> string \<Rightarrow> timestamp \<Rightarrow> schedule_create \<Rightarrow> 'a schedule_db_scheme \<Rightarrow>
   (schedule \<times> 'a schedule_db_scheme) result" where
  "stage_create_schedule cfg cron tx ns now p db =
     (case get_row ds_id (cr_datasource_id p) (datasources db) of
        None \<Rightarrow> Inl (datasource_not_found (cr_datasource_id p))
      | Some d \<Rightarrow>
          and_then (is_analysis_output d) (\<lambda>output.
            if output \<and> \<not> truthy (ds_created_by_analysis_id d)
            then Inl (AppError ''SCHEDULE_VALIDATION_ERROR'' ''Datasource has no analysis provenance'')
            else and_then (validate_schedule_references (cr_depends_on p) (cr_trigger_on_datasource_id p) db) (\<lambda>_.
                 and_then (compute_next_run cron (cr_cron_expression p) now) (\<lambda>next_run.
                   let s = new_schedule p (tx_ids tx 0) now next_run
                   in if get_schedule (sc_id s) db \<noteq> None then Inl (RuntimeError ''IntegrityError'')
                      else Inr (s, mark_schedule_pending cfg (tx_wakes tx 0) (tx_stmt tx) ns (db\<lparr>schedules := schedules db @ [s]\<rparr>))))))"

text \<open>The loop of \<open>setattr\<close>; the flush refuses a null in a column that is not nullable.\<close>

definition set_fields :: "schedule_update \<Rightarrow> schedule \<Rightarrow> schedule result" where
  "set_fields p s =
     (if up_cron_expression p = Some None \<or> up_enabled p = Some None \<or> up_datasource_id p = Some None
      then Inl (RuntimeError ''IntegrityError'')
      else Inr (s\<lparr>sc_cron_expression := (case attr (up_cron_expression p) of None \<Rightarrow> sc_cron_expression s | Some v \<Rightarrow> v),
             sc_description := (case up_description p of None \<Rightarrow> sc_description s | Some v \<Rightarrow> v),
             sc_enabled := (case attr (up_enabled p) of None \<Rightarrow> sc_enabled s | Some v \<Rightarrow> v),
             sc_datasource_id := (case attr (up_datasource_id p) of None \<Rightarrow> sc_datasource_id s | Some v \<Rightarrow> v),
             sc_depends_on := (case up_depends_on p of None \<Rightarrow> sc_depends_on s | Some v \<Rightarrow> v),
             sc_trigger_on_datasource_id := (case up_trigger_on_datasource_id p of None \<Rightarrow> sc_trigger_on_datasource_id s | Some v \<Rightarrow> v)\<rparr>))"

definition stage_update_schedule ::
  "settings \<Rightarrow> cron \<Rightarrow> txn \<Rightarrow> string \<Rightarrow> timestamp \<Rightarrow> string \<Rightarrow> schedule_update \<Rightarrow> 'a schedule_db_scheme \<Rightarrow>
   (schedule \<times> 'a schedule_db_scheme) result" where
  "stage_update_schedule cfg cron tx ns now i p db =
     (case get_schedule i db of
        None \<Rightarrow> Inl (schedule_not_found i)
      | Some s \<Rightarrow>
          if truthy (attr (up_datasource_id p)) \<and> get_row ds_id (the (attr (up_datasource_id p))) (datasources db) = None
          then Inl (datasource_not_found (the (attr (up_datasource_id p))))
          else and_then (validate_schedule_references (attr (up_depends_on p)) (attr (up_trigger_on_datasource_id p)) db) (\<lambda>_.
               and_then (if truthy (attr (up_cron_expression p)) then compute_next_run cron (the (attr (up_cron_expression p))) now
                         else Inr (sc_next_run s)) (\<lambda>next_run.
               and_then (set_fields p s) (\<lambda>s1.
                 let s2 = s1\<lparr>sc_next_run := next_run\<rparr>
                 in Inr (s2, mark_schedule_pending cfg (tx_wakes tx 0) (tx_stmt tx) ns (put_schedule s2 db))))))"

definition stage_delete_schedule ::
  "settings \<Rightarrow> txn \<Rightarrow> string \<Rightarrow> string \<Rightarrow> 'a schedule_db_scheme \<Rightarrow> 'a schedule_db_scheme result" where
  "stage_delete_schedule cfg tx ns i db =
     (if get_schedule i db = None then Inl (schedule_not_found i)
      else Inr (mark_schedule_pending cfg (tx_wakes tx 0) (tx_stmt tx) ns
             (db\<lparr>schedules := delete_where (\<lambda>s. sc_id s = i) (schedules db)\<rparr>)))"

subsection \<open>Due schedules\<close>

definition schedule_candidate :: "timestamp \<Rightarrow> schedule \<Rightarrow> bool" where
  "schedule_candidate now s \<longleftrightarrow>
     sc_enabled s \<and> (sc_depends_on s \<noteq> None \<or> sc_trigger_on_datasource_id s \<noteq> None \<or> sc_next_run s = None \<or> sql_le (sc_next_run s) now)"

definition due_key :: "schedule \<Rightarrow> timestamp \<times> timestamp \<times> string" where
  "due_key s = ((case sc_next_run s of None \<Rightarrow> DATETIME_MIN | Some t \<Rightarrow> t), sc_created_at s, sc_id s)"

text \<open>\<open>max(completed_at)\<close> over the completed runs that read or published a datasource.\<close>

fun sql_max :: "timestamp option list \<Rightarrow> timestamp option" where
  "sql_max [] = None"
| "sql_max (None # xs) = sql_max xs"
| "sql_max (Some x # xs) = (case sql_max xs of None \<Rightarrow> Some x | Some y \<Rightarrow> Some (max x y))"

definition latest_completed_at :: "string \<Rightarrow> 'a schedule_db_scheme \<Rightarrow> timestamp option" where
  "latest_completed_at did db =
     (if get_row ds_id did (datasources db) = None then None
      else sql_max (map run_completed_at (filter (\<lambda>r. run_status r = BR_COMPLETED \<and>
             (run_current_datasource_id r = Some did \<or> run_current_output_id r = Some did)) (runs db))))"

definition dependency_success :: "string \<Rightarrow> 'a schedule_db_scheme \<Rightarrow> timestamp option" where
  "dependency_success i db = (case get_schedule i db of None \<Rightarrow> None | Some s \<Rightarrow> sc_last_success_at s)"

definition after :: "timestamp option \<Rightarrow> timestamp option \<Rightarrow> bool" where
  "after completed reference = (case completed of None \<Rightarrow> False | Some c \<Rightarrow> (case reference of None \<Rightarrow> True | Some r \<Rightarrow> r < c))"

definition or_time :: "timestamp option \<Rightarrow> timestamp option \<Rightarrow> timestamp option" where
  "or_time a b = (if a \<noteq> None then a else b)"

text \<open>The body of the loop that fills \<open>due\<close>.\<close>

definition schedule_due :: "cron \<Rightarrow> timestamp \<Rightarrow> timestamp \<Rightarrow> 'a schedule_db_scheme \<Rightarrow> schedule \<Rightarrow> bool result" where
  "schedule_due cron wall now db s =
     (let reference = or_time (sc_last_triggered_at s) (sc_last_run s)
      in if get_row ds_id (sc_datasource_id s) (datasources db) = None then Inr False
         else if truthy (sc_depends_on s) \<and> after (dependency_success (the (sc_depends_on s)) db) (sc_last_triggered_at s) then Inr True
         else if truthy (sc_trigger_on_datasource_id s) \<and>
                 after (latest_completed_at (the (sc_trigger_on_datasource_id s)) db) reference then Inr True
         else if truthy (sc_depends_on s) \<or> truthy (sc_trigger_on_datasource_id s) then Inr False
         else case sc_next_run s of
                Some t \<Rightarrow> Inr (t \<le> now)
              | None \<Rightarrow> should_run cron wall (sc_cron_expression s) reference)"

fun due_schedule_candidates ::
  "cron \<Rightarrow> timestamp \<Rightarrow> timestamp \<Rightarrow> 'a schedule_db_scheme \<Rightarrow> schedule list \<Rightarrow> schedule list result" where
  "due_schedule_candidates cron wall now db [] = Inr []"
| "due_schedule_candidates cron wall now db (s # ss) =
     and_then (schedule_due cron wall now db s) (\<lambda>d.
     and_then (due_schedule_candidates cron wall now db ss) (\<lambda>ds. Inr (if d then s # ds else ds)))"

subsection \<open>Claims\<close>

definition lease_takeable :: "timestamp \<Rightarrow> string list \<Rightarrow> schedule \<Rightarrow> bool" where
  "lease_takeable now reclaimable s \<longleftrightarrow>
     sc_lease_owner s = None \<or> sql_in (sc_lease_owner s) reclaimable \<or> sql_le (sc_lease_expires_at s) now"

definition claim_base :: "timestamp \<Rightarrow> string list \<Rightarrow> 'a schedule_db_scheme \<Rightarrow> schedule \<Rightarrow> bool" where
  "claim_base now reclaimable db s \<longleftrightarrow>
     schedule_candidate now s \<and> \<not> has_inflight_build_for_schedule (sc_id s) db \<and> lease_takeable now reclaimable s"

text \<open>One page of \<open>_schedule_candidate_batches\<close> after the cursor.\<close>

definition schedule_batch ::
  "(schedule \<Rightarrow> bool) \<Rightarrow> (timestamp \<times> timestamp \<times> string) option \<Rightarrow> schedule list \<Rightarrow> schedule list" where
  "schedule_batch P cursor ss =
     select_ordered (\<lambda>s. P s \<and> (case cursor of None \<Rightarrow> True | Some c \<Rightarrow> c < due_key s)) due_key SCHEDULE_CANDIDATE_BATCH_SIZE ss"

definition lock_order :: "schedule \<Rightarrow> (nat \<times> timestamp) \<times> timestamp \<times> string" where
  "lock_order s = ((case sc_next_run s of None \<Rightarrow> (0, 0) | Some t \<Rightarrow> (1, t)), sc_created_at s, sc_id s)"

definition schedule_claim_where :: "schedule \<Rightarrow> schedule \<Rightarrow> bool" where
  "schedule_claim_where s r \<longleftrightarrow> sc_id r = sc_id s \<and> sc_lease_owner r = sc_lease_owner s"

definition schedule_claim_values :: "string \<Rightarrow> string \<Rightarrow> timestamp \<Rightarrow> schedule \<Rightarrow> schedule" where
  "schedule_claim_values worker tok now r =
     r\<lparr>sc_lease_owner := Some worker, sc_claim_token := Some tok, sc_lease_generation := sc_lease_generation r + 1,
       sc_lease_expires_at := Some (now + SCHEDULE_LEASE_DURATION), sc_last_claimed_at := Some now, sc_attempts := sc_attempts r + 1\<rparr>"

text \<open>The loop over the locked rows of one page; the claim tokens are unique by a constraint.\<close>

fun claim_locked ::
  "string \<Rightarrow> timestamp \<Rightarrow> nat \<Rightarrow> (nat \<Rightarrow> string) \<Rightarrow> schedule list \<Rightarrow> string list \<Rightarrow> 'a schedule_db_scheme \<Rightarrow>
   (string list \<times> 'a schedule_db_scheme) result" where
  "claim_locked worker now limit toks [] claimed db = Inr (claimed, db)"
| "claim_locked worker now limit toks (s # ss) claimed db =
     (if has_inflight_build_for_schedule (sc_id s) db then claim_locked worker now limit toks ss claimed db
      else if rowcount (schedule_claim_where s) (schedules db) \<noteq> 1
      then claim_locked worker now limit (\<lambda>n. toks (Suc n)) ss claimed db
      else if list_ex (\<lambda>r. sc_claim_token r = Some (toks 0) \<and> \<not> schedule_claim_where s r) (schedules db)
      then Inl (RuntimeError ''IntegrityError'')
      else let db1 = db\<lparr>schedules := update_where (schedule_claim_where s) (schedule_claim_values worker (toks 0) now) (schedules db)\<rparr>;
               claimed1 = claimed @ [sc_id s]
           in if limit \<le> length claimed1 then Inr (claimed1, db1)
              else claim_locked worker now limit (\<lambda>n. toks (Suc n)) ss claimed1 db1)"

text \<open>What one page of the scan sees: what other sessions commit before the page is read and before its
  rows are locked, the rows they hold locked then, and the tokens drawn.\<close>

record 'db scan_page =
  sp_before :: "'db \<Rightarrow> 'db"
  sp_between :: "'db \<Rightarrow> 'db"
  sp_locked :: "string \<Rightarrow> bool"
  sp_tokens :: "nat \<Rightarrow> string"

definition page_locked_rows ::
  "timestamp \<Rightarrow> string list \<Rightarrow> (string \<Rightarrow> bool) \<Rightarrow> string list \<Rightarrow> 'a schedule_db_scheme \<Rightarrow> schedule list" where
  "page_locked_rows now reclaimable locked due_ids db =
     select_ordered (\<lambda>s. claim_base now reclaimable db s \<and> sc_id s \<in> set due_ids \<and> \<not> locked (sc_id s))
       lock_order SCHEDULE_CANDIDATE_BATCH_SIZE (schedules db)"

text \<open>The scan over the pages. It has no value when the pages it is given do not suffice.\<close>

fun claim_pages ::
  "cron \<Rightarrow> timestamp \<Rightarrow> timestamp \<Rightarrow> string \<Rightarrow> string list \<Rightarrow> nat \<Rightarrow> 'a schedule_db_scheme scan_page list \<Rightarrow>
   (timestamp \<times> timestamp \<times> string) option \<Rightarrow> string list \<Rightarrow> 'a schedule_db_scheme \<Rightarrow>
   (string list \<times> 'a schedule_db_scheme) result option" where
  "claim_pages cron wall now worker reclaimable limit [] cursor claimed db = None"
| "claim_pages cron wall now worker reclaimable limit (pg # pgs) cursor claimed db =
     (let db1 = sp_before pg db;
          batch = schedule_batch (claim_base now reclaimable db1) cursor (schedules db1);
          go = (\<lambda>claimed db'. if length batch < SCHEDULE_CANDIDATE_BATCH_SIZE then Some (Inr (claimed, db'))
                else claim_pages cron wall now worker reclaimable limit pgs (Some (due_key (last batch))) claimed db')
      in if batch = [] then Some (Inr (claimed, db1))
         else case due_schedule_candidates cron wall now db1 batch of
                Inl x \<Rightarrow> Some (Inl x)
              | Inr [] \<Rightarrow> go claimed db1
              | Inr due \<Rightarrow>
                  let db2 = sp_between pg db1
                  in case and_then (due_schedule_candidates cron wall now db2
                            (page_locked_rows now reclaimable (sp_locked pg) (map sc_id due) db2)) (\<lambda>rows.
                            claim_locked worker now limit (sp_tokens pg) rows claimed db2) of
                       Inl x \<Rightarrow> Some (Inl x)
                     | Inr (claimed', db3) \<Rightarrow> if limit \<le> length claimed' then Some (Inr (claimed', db3)) else go claimed' db3)"

definition claim_due_schedules ::
  "cron \<Rightarrow> timestamp \<Rightarrow> timestamp \<Rightarrow> string \<Rightarrow> string list \<Rightarrow> nat \<Rightarrow> 'a schedule_db_scheme scan_page list \<Rightarrow> 'a schedule_db_scheme \<Rightarrow>
   (schedule list \<times> 'a schedule_db_scheme) result option" where
  "claim_due_schedules cron wall now worker reclaimable limit pages db =
     (if limit < 1 then Some (Inr ([], db))
      else map_option (\<lambda>r. and_then r (\<lambda>(claimed, db'). Inr (map (\<lambda>i. the (get_schedule i db')) claimed, db')))
             (claim_pages cron wall now worker reclaimable limit pages None [] db))"

subsection \<open>Enqueueing the builds of a claimed schedule\<close>

datatype target_kind = TK_ANALYSIS | TK_RAW | TK_DATASOURCE

definition supports_external_ingestion :: "json \<Rightarrow> bool result" where
  "supports_external_ingestion v = (case v of
     JNull \<Rightarrow> Inr False
   | JStr t \<Rightarrow> if t \<in> set DATA_SOURCE_TYPES then Inr (t = ''file'' \<or> t = ''database'') else Inl (ValueError ''Unsupported DataSourceType'')
   | JInt n \<Rightarrow> if 1 \<le> n \<and> n \<le> 5 then Inr (n = 1 \<or> n = 2) else Inl (ValueError ''Unsupported DataSourceType'')
   | JBool b \<Rightarrow> if b then Inr True else Inl (ValueError ''Unsupported DataSourceType'')
   | _ \<Rightarrow> Inl (ValueError ''Unsupported DataSourceType''))"

definition is_reingestable_raw :: "datasource \<Rightarrow> bool result" where
  "is_reingestable_raw d =
     (if ds_source_type d \<notin> set DATA_SOURCE_TYPES then Inl (ValueError ''Unsupported DataSourceType'')
      else if ds_source_type d \<noteq> ''iceberg'' then Inr False
      else and_then (is_analysis_output d) (\<lambda>output.
        if output then Inr False
        else case ds_config d of
               JObj c \<Rightarrow> (case py_get ''source'' c of JObj src \<Rightarrow> supports_external_ingestion (py_get ''source_type'' src) | _ \<Rightarrow> Inr False)
             | _ \<Rightarrow> Inr False))"

definition target_kind :: "datasource \<Rightarrow> target_kind result" where
  "target_kind d =
     and_then (is_analysis_output d) (\<lambda>output.
       if output \<and> truthy (ds_created_by_analysis_id d) then Inr TK_ANALYSIS
       else and_then (is_reingestable_raw d) (\<lambda>raw. Inr (if raw then TK_RAW else TK_DATASOURCE)))"

definition resolve_schedule_target :: "string \<Rightarrow> 'a schedule_db_scheme \<Rightarrow> (target_kind \<times> string option) result" where
  "resolve_schedule_target did db =
     (case get_row ds_id did (datasources db) of
        None \<Rightarrow> Inl (datasource_not_found did)
      | Some d \<Rightarrow> and_then (target_kind d) (\<lambda>k.
          Inr (k, if k = TK_ANALYSIS then ds_created_by_analysis_id d else None)))"

text \<open>The arguments of one call of \<open>_enqueue_schedule_build\<close>.\<close>

record build_order =
  bo_analysis_id :: string
  bo_analysis_name :: string
  bo_tab_id :: "string option"
  bo_tab_name :: "string option"
  bo_request :: build_request
  bo_output_id :: "string option"
  bo_output_name :: "string option"

definition build_analysis_request ::
  "(json \<Rightarrow> string) \<Rightarrow> schedule \<Rightarrow> string \<Rightarrow> 'a schedule_db_scheme \<Rightarrow> build_order result" where
  "build_analysis_request rep s aid db =
     (case get_row an_id aid (analyses db) of
        None \<Rightarrow> Inl (ValueError (''Analysis '' @ aid @ '' not found for datasource '' @ sc_datasource_id s))
      | Some a \<Rightarrow>
          and_then (pipeline_from_dict rep (an_pipeline_definition a)) (\<lambda>tabs.
            case find (\<lambda>t. to_result_id (tt_output t) = sc_datasource_id s) tabs of
              None \<Rightarrow> Inl (ValueError (''No tab found in analysis '' @ aid @ '' that produces datasource '' @ sc_datasource_id s))
            | Some t \<Rightarrow>
                and_then (build_analysis_pipeline_payload rep db a) (\<lambda>p.
                and_then (validate_request p (tt_id t)) (\<lambda>q.
                  Inr \<lparr>bo_analysis_id = an_id a, bo_analysis_name = an_name a, bo_tab_id = Some (tt_id t), bo_tab_name = Some (tt_name t),
                       bo_request = q, bo_output_id = None, bo_output_name = None\<rparr>))))"

definition build_ingest_request :: "schedule \<Rightarrow> build_request result" where
  "build_ingest_request s =
     validate_request
       [(''analysis_id'', JStr (sc_id s)),
        (''tabs'', JList [JObj [(''id'', JStr (sc_id s)), (''name'', JStr ''Scheduled ingest''),
           (''datasource'', JObj [(''id'', JStr (sc_datasource_id s)), (''analysis_tab_id'', JNull), (''source_type'', JStr ''schedule''),
              (''config'', JObj [(''branch'', JStr ''master'')])]),
           (''output'', JObj [(''result_id'', JStr (sc_datasource_id s)), (''datasource_type'', JStr ''iceberg''), (''format'', JStr ''parquet''),
              (''filename'', JStr (''schedule_ingest_'' @ sc_id s))]),
           (''steps'', JList [])]])] (sc_id s)"

definition ingest_order :: "schedule \<Rightarrow> 'a schedule_db_scheme \<Rightarrow> build_order result" where
  "ingest_order s db =
     (let name = (case get_row ds_id (sc_datasource_id s) (datasources db) of
                    None \<Rightarrow> sc_datasource_id s | Some d \<Rightarrow> if ds_name d = [] then sc_datasource_id s else ds_name d);
          title = ''Schedule ingest '' @ name
      in and_then (build_ingest_request s) (\<lambda>q.
           Inr \<lparr>bo_analysis_id = sc_id s, bo_analysis_name = title, bo_tab_id = Some (sc_id s), bo_tab_name = Some ''Scheduled ingest'',
                bo_request = q, bo_output_id = None, bo_output_name = Some title\<rparr>))"

text \<open>Analyses with a tab that reads the datasource from outside, by ID.\<close>

definition reads_datasource :: "string \<Rightarrow> typed_tab \<Rightarrow> bool" where
  "reads_datasource did t \<longleftrightarrow> \<not> py_truth (td_analysis_tab_id (tt_datasource t)) \<and> td_id (tt_datasource t) = did"

fun reading_tabs :: "(json \<Rightarrow> string) \<Rightarrow> string \<Rightarrow> analysis list \<Rightarrow> (analysis \<times> typed_tab) list result" where
  "reading_tabs rep did [] = Inr []"
| "reading_tabs rep did (a # as) =
     and_then (pipeline_from_dict rep (an_pipeline_definition a)) (\<lambda>tabs.
     and_then (reading_tabs rep did as) (\<lambda>rest.
       Inr (case find (reads_datasource did) tabs of None \<Rightarrow> rest | Some t \<Rightarrow> (a, t) # rest)))"

definition analyses_reading_datasource ::
  "(json \<Rightarrow> string) \<Rightarrow> string \<Rightarrow> 'a schedule_db_scheme \<Rightarrow> (analysis \<times> typed_tab) list result" where
  "analyses_reading_datasource rep did db = reading_tabs rep did (sort_key an_id (analyses db))"

definition reader_order ::
  "(json \<Rightarrow> string) \<Rightarrow> schedule \<Rightarrow> analysis \<times> typed_tab \<Rightarrow> 'a schedule_db_scheme \<Rightarrow> build_order result" where
  "reader_order rep s r db =
     (case r of (a, t) \<Rightarrow>
        if tt_id t = [] then Inl (ValueError (''Analysis '' @ an_id a @ '' tab reading '' @ sc_datasource_id s @ '' has no id''))
        else and_then (build_analysis_pipeline_payload rep db a) (\<lambda>p.
             and_then (validate_request p (tt_id t)) (\<lambda>q.
               Inr \<lparr>bo_analysis_id = an_id a, bo_analysis_name = an_name a, bo_tab_id = Some (tt_id t), bo_tab_name = Some (tt_name t),
                    bo_request = q, bo_output_id = Some (to_result_id (tt_output t)), bo_output_name = None\<rparr>)))"

text \<open>\<open>x or y\<close> on optional strings, with an optional alternative.\<close>

definition or_opt :: "string option \<Rightarrow> string option \<Rightarrow> string option" where
  "or_opt a b = (if truthy a then a else b)"

definition schedule_run :: "(string \<Rightarrow> payload \<Rightarrow> payload) \<Rightarrow> schedule \<Rightarrow> string \<Rightarrow> timestamp \<Rightarrow> string \<Rightarrow> build_order \<Rightarrow> build_run" where
  "schedule_run norm s ns now bid q =
     \<lparr>run_id = bid, run_namespace = ns, run_schedule_id = Some (sc_id s), run_analysis_id = bo_analysis_id q,
      run_analysis_name = bo_analysis_name q, run_status = BR_QUEUED, run_request_json = build_request_json norm (bo_request q),
      run_starter_json = [(''user_id'', JNull), (''display_name'', JNull), (''email'', JNull), (''triggered_by'', JStr (''schedule:'' @ sc_id s))],
      run_resource_config_json = None, run_result_json = None, run_current_compute_worker_run_id = None,
      run_current_kind = Some ''build'', run_current_datasource_id = Some (sc_datasource_id s), run_current_tab_id = bo_tab_id q,
      run_current_tab_name = bo_tab_name q, run_current_output_id = or_opt (bo_output_id q) (Some (sc_datasource_id s)),
      run_current_output_name = or_opt (bo_output_name q) (bo_tab_name q), run_progress = 0, run_elapsed_ms = 0,
      run_estimated_remaining_ms = None, run_current_step = None, run_current_step_index = None, run_total_steps = 0,
      run_total_tabs = int (length (bq_tabs (bo_request q))), run_duration_ms = None, run_error_message = None,
      run_cancelled_at = None, run_cancelled_by = None, run_created_at = now, run_started_at = now, run_completed_at = None,
      run_updated_at = now, run_version = 1, run_execution_generation = 0, run_next_event_sequence = 1\<rparr>"

definition enqueue_schedule_build ::
  "settings \<Rightarrow> (string \<Rightarrow> payload \<Rightarrow> payload) \<Rightarrow> txn \<Rightarrow> string \<Rightarrow> timestamp \<Rightarrow> schedule \<Rightarrow> string \<Rightarrow> build_order \<Rightarrow> 'a schedule_db_scheme \<Rightarrow>
   'a schedule_db_scheme result" where
  "enqueue_schedule_build cfg norm tx ns now s bid q db =
     and_then (lock_active_datasources (external_datasource_ids (bo_request q)) db) (\<lambda>_.
     and_then (stage_build_run (schedule_run norm s ns now bid q) (build_datasource_ids (bo_request q)) db) (\<lambda>db1.
     and_then (stage_job cfg tx bid ns 1 db1) (\<lambda>(_, db2).
       enqueue_build_job_notification cfg tx 1 ns db2)))"

text \<open>The builds are staged one after the other, each from a request that is made just before; \<open>ids\<close> are
  their build IDs and the identifiers of their jobs and notifications.\<close>

fun enqueue_orders ::
  "settings \<Rightarrow> (string \<Rightarrow> payload \<Rightarrow> payload) \<Rightarrow> string \<Rightarrow> timestamp \<Rightarrow> schedule \<Rightarrow> (nat \<Rightarrow> string \<times> txn) \<Rightarrow>
   ('a schedule_db_scheme \<Rightarrow> build_order result) list \<Rightarrow> 'a schedule_db_scheme \<Rightarrow> 'a schedule_db_scheme result" where
  "enqueue_orders cfg norm ns now s ids [] db = Inr db"
| "enqueue_orders cfg norm ns now s ids (q # qs) db =
     and_then (q db) (\<lambda>order.
     and_then (enqueue_schedule_build cfg norm (snd (ids 0)) ns now s (fst (ids 0)) order db)
       (enqueue_orders cfg norm ns now s (\<lambda>n. ids (Suc n)) qs))"

definition schedule_orders ::
  "(json \<Rightarrow> string) \<Rightarrow> schedule \<Rightarrow> 'a schedule_db_scheme \<Rightarrow> ('a schedule_db_scheme \<Rightarrow> build_order result) list result" where
  "schedule_orders rep s db =
     and_then (resolve_schedule_target (sc_datasource_id s) db) (\<lambda>(kind, aid).
       if kind = TK_ANALYSIS
       then (case aid of
               None \<Rightarrow> Inl (ValueError (''Analysis provenance missing for schedule '' @ sc_id s))
             | Some a \<Rightarrow> Inr [build_analysis_request rep s a])
       else and_then (analyses_reading_datasource rep (sc_datasource_id s) db) (\<lambda>readers.
              if readers \<noteq> [] then Inr (map (reader_order rep s) readers)
              else if kind = TK_DATASOURCE
              then Inl (ValueError (''Datasource '' @ sc_datasource_id s @ '' has no analysis reading it and cannot be re-ingested. Schedule an analysis output instead.''))
              else Inr [ingest_order s]))"

definition schedule_claim_live :: "string \<Rightarrow> string \<Rightarrow> int \<Rightarrow> timestamp \<Rightarrow> schedule \<Rightarrow> bool" where
  "schedule_claim_live worker tok g now s \<longleftrightarrow>
     sc_lease_owner s = Some worker \<and> sc_claim_token s = Some tok \<and> sc_lease_generation s = g \<and> sql_gt (sc_lease_expires_at s) now"

text \<open>The direct wake after the commit; the outbox event makes it redundant.\<close>

definition wake_build_worker :: "string \<Rightarrow> 'a schedule_db_scheme \<Rightarrow> 'a schedule_db_scheme" where
  "wake_build_worker ns db = notify_on_commit [(''kind'', JStr ''job''), (''namespace'', JStr ns)] db"

definition enqueue_schedule_run ::
  "settings \<Rightarrow> (json \<Rightarrow> string) \<Rightarrow> (string \<Rightarrow> payload \<Rightarrow> payload) \<Rightarrow> (nat \<Rightarrow> string \<times> txn) \<Rightarrow> string \<Rightarrow> timestamp \<Rightarrow>
   string \<Rightarrow> string \<Rightarrow> string \<Rightarrow> int \<Rightarrow> 'a schedule_db_scheme \<Rightarrow> (string \<times> 'a schedule_db_scheme) result" where
  "enqueue_schedule_run cfg rep norm ids ns now sid worker tok g db =
     (case get_schedule sid db of
        None \<Rightarrow> Inl (ValueError (''Schedule '' @ sid @ '' not found''))
      | Some s \<Rightarrow>
          if has_inflight_build_for_schedule sid db then Inl (ValueError (''Schedule '' @ sid @ '' already has an in-flight build''))
          else if \<not> schedule_claim_live worker tok g now s then Inl (ValueError (''Schedule '' @ sid @ '' claim is stale''))
          else and_then (schedule_orders rep s db) (\<lambda>orders.
               and_then (enqueue_orders cfg norm ns now s ids orders db) (\<lambda>db1.
                 Inr (fst (ids 0), wake_build_worker ns
                   (put_schedule (s\<lparr>sc_last_triggered_at := Some now, sc_last_failure_at := None\<rparr>) db1)))))"

subsection \<open>Failed and finished builds\<close>

definition mark_schedule_enqueue_failed ::
  "settings \<Rightarrow> txn \<Rightarrow> string \<Rightarrow> timestamp \<Rightarrow> string \<Rightarrow> string \<Rightarrow> int \<Rightarrow> 'a schedule_db_scheme \<Rightarrow>
   (schedule option \<times> 'a schedule_db_scheme) result" where
  "mark_schedule_enqueue_failed cfg tx ns now sid tok g db =
     (case get_schedule sid db of
        None \<Rightarrow> Inr (None, db)
      | Some s \<Rightarrow>
          if sc_claim_token s \<noteq> Some tok \<or> sc_lease_generation s \<noteq> g then Inl (ValueError (''Schedule '' @ sid @ '' claim was replaced''))
          else let s1 = release_lease (s\<lparr>sc_last_failure_at := Some now\<rparr>)
               in Inr (Some s1, mark_schedule_pending cfg (tx_wakes tx 0) (tx_stmt tx) ns (put_schedule s1 db)))"

definition run_finished_at :: "build_run \<Rightarrow> timestamp" where
  "run_finished_at r = (case run_completed_at r of None \<Rightarrow> run_updated_at r | Some t \<Rightarrow> t)"

definition run_applied :: "schedule \<Rightarrow> build_run \<Rightarrow> bool" where
  "run_applied s r \<longleftrightarrow>
     (if run_status r = BR_COMPLETED then sc_last_successful_build_id s = Some (run_id r)
      else (case sc_last_failure_at s of None \<Rightarrow> False | Some t \<Rightarrow> run_finished_at r \<le> t))"

definition apply_schedule_run_reconciliation ::
  "cron \<Rightarrow> timestamp \<Rightarrow> string \<Rightarrow> 'a schedule_db_scheme \<Rightarrow> (schedule option \<times> 'a schedule_db_scheme) result" where
  "apply_schedule_run_reconciliation cron now bid db =
     (case get_build_run bid db of
        None \<Rightarrow> Inr (None, db)
      | Some r \<Rightarrow>
          if \<not> run_is_terminal (run_status r) then Inr (None, db)
          else case run_schedule_id r of
                 None \<Rightarrow> Inr (None, db)
               | Some sid \<Rightarrow> (case get_schedule sid db of
                   None \<Rightarrow> Inr (None, db)
                 | Some s \<Rightarrow>
                     if sql_gt (sc_last_triggered_at s) (run_created_at r) then Inr (None, db)
                     else if sc_lease_owner s = None \<and> run_applied s r then Inr (None, db)
                     else and_then (if run_status r = BR_COMPLETED
                            then and_then (compute_next_run cron (sc_cron_expression s) now) (\<lambda>n.
                                   Inr ((release_lease s)\<lparr>sc_last_run := Some (run_finished_at r), sc_last_success_at := Some (run_finished_at r),
                                      sc_last_successful_build_id := Some (run_id r), sc_next_run := n\<rparr>))
                            else Inr ((release_lease s)\<lparr>sc_last_failure_at := Some (run_finished_at r)\<rparr>)) (\<lambda>s1.
                          Inr (Some s1, put_schedule s1 db))))"

definition reconcile_schedule_run ::
  "cron \<Rightarrow> timestamp \<Rightarrow> string \<Rightarrow> 'a schedule_db_scheme \<Rightarrow> (schedule option \<times> 'a schedule_db_scheme) result" where
  "reconcile_schedule_run cron now bid db = apply_schedule_run_reconciliation cron now bid db"

definition reconcile_candidate :: "string \<Rightarrow> 'a schedule_db_scheme \<Rightarrow> build_run \<Rightarrow> bool" where
  "reconcile_candidate ns db r \<longleftrightarrow>
     run_namespace r = ns \<and> run_is_terminal (run_status r) \<and>
     list_ex (\<lambda>s. run_schedule_id r = Some (sc_id s) \<and> sc_lease_owner s \<noteq> None \<and> \<not> sql_gt (sc_last_triggered_at s) (run_created_at r)) (schedules db) \<and>
     list_ex (\<lambda>j. job_build_id j = run_id r \<and> job_is_terminal (job_status j)) (jobs db)"

text \<open>PostgreSQL sorts nulls last.\<close>

definition completed_order :: "build_run \<Rightarrow> (nat \<times> timestamp) \<times> string" where
  "completed_order r = ((case run_completed_at r of None \<Rightarrow> (1, 0) | Some t \<Rightarrow> (0, t)), run_id r)"

fun reconcile_all ::
  "cron \<Rightarrow> timestamp \<Rightarrow> string list \<Rightarrow> nat \<Rightarrow> 'a schedule_db_scheme \<Rightarrow> (nat \<times> 'a schedule_db_scheme) result" where
  "reconcile_all cron now [] n db = Inr (n, db)"
| "reconcile_all cron now (bid # bids) n db =
     and_then (apply_schedule_run_reconciliation cron now bid db) (\<lambda>(s, db').
       reconcile_all cron now bids (if s = None then n else Suc n) db')"

definition reconcile_pending_schedule_runs ::
  "cron \<Rightarrow> timestamp \<Rightarrow> string \<Rightarrow> nat \<Rightarrow> 'a schedule_db_scheme \<Rightarrow> (nat \<times> 'a schedule_db_scheme) result" where
  "reconcile_pending_schedule_runs cron now ns limit db =
     reconcile_all cron now (map run_id (select_ordered (reconcile_candidate ns db) completed_order limit (runs db))) 0 db"

subsection \<open>The next wake of the namespace\<close>

definition eligible_cron :: "'a schedule_db_scheme \<Rightarrow> schedule \<Rightarrow> bool" where
  "eligible_cron db s \<longleftrightarrow>
     sc_enabled s \<and> sc_depends_on s = None \<and> sc_trigger_on_datasource_id s = None \<and> \<not> has_inflight_build_for_schedule (sc_id s) db"

definition lease_free :: "timestamp \<Rightarrow> schedule \<Rightarrow> bool" where
  "lease_free now s \<longleftrightarrow> sc_lease_owner s = None \<or> sql_le (sc_lease_expires_at s) now"

definition next_cron :: "timestamp \<Rightarrow> 'a schedule_db_scheme \<Rightarrow> timestamp option" where
  "next_cron now db = sql_min (map sc_next_run (filter (\<lambda>s. eligible_cron db s \<and> lease_free now s) (schedules db)))"

definition lease_due :: "timestamp \<Rightarrow> 'a schedule_db_scheme \<Rightarrow> timestamp option" where
  "lease_due now db =
     sql_min (map (\<lambda>s. if sql_gt (sc_lease_expires_at s) now then sc_lease_expires_at s else Some now)
       (filter (\<lambda>s. sc_enabled s \<and> sc_lease_owner s \<noteq> None \<and> sc_lease_expires_at s \<noteq> None \<and>
                    \<not> has_inflight_build_for_schedule (sc_id s) db) (schedules db)))"

text \<open>The loop over the schedules without a next run; it stores the run it computes.\<close>

fun fill_next_runs ::
  "cron \<Rightarrow> timestamp \<Rightarrow> schedule list \<Rightarrow> timestamp option list \<Rightarrow> 'a schedule_db_scheme \<Rightarrow>
   (timestamp option list \<times> 'a schedule_db_scheme) result" where
  "fill_next_runs cron now [] cands db = Inr (cands, db)"
| "fill_next_runs cron now (s # ss) cands db =
     (case sc_last_run s of
        None \<Rightarrow> fill_next_runs cron now ss (cands @ [Some now]) db
      | Some t \<Rightarrow> and_then (compute_next_run cron (sc_cron_expression s) t) (\<lambda>n.
          case n of
            None \<Rightarrow> fill_next_runs cron now ss cands db
          | Some v \<Rightarrow> fill_next_runs cron now ss (cands @ [Some (max now v)]) (put_schedule (s\<lparr>sc_next_run := Some v\<rparr>) db)))"

definition next_schedule_namespace_due_at ::
  "cron \<Rightarrow> timestamp \<Rightarrow> 'a schedule_db_scheme \<Rightarrow> (timestamp option \<times> 'a schedule_db_scheme) result" where
  "next_schedule_namespace_due_at cron now db =
     (let missing = filter (\<lambda>s. eligible_cron db s \<and> sc_next_run s = None \<and> lease_free now s) (schedules db)
      in and_then (fill_next_runs cron now missing [next_cron now db, lease_due now db] db) (\<lambda>(cands, db1). Inr (sql_min cands, db1)))"

definition finish_schedule_work_scan ::
  "settings \<Rightarrow> cron \<Rightarrow> txn \<Rightarrow> timestamp \<Rightarrow> string \<Rightarrow> int \<Rightarrow> int list \<Rightarrow> 'a schedule_db_scheme \<Rightarrow> 'a schedule_db_scheme result" where
  "finish_schedule_work_scan cfg cron tx now ns g wake_ids db =
     and_then (next_schedule_namespace_due_at cron now db) (\<lambda>(due_at, db1).
       finish_schedule_scan cfg (tx_stmt tx) ns g due_at wake_ids db1)"

subsection \<open>One scan\<close>

record enqueue_step =
  es_ids :: "nat \<Rightarrow> string \<times> txn"
  es_tx :: txn
  es_now :: timestamp

text \<open>The loop of \<open>RunDueSchedules\<close> over the claimed schedules: what each of them enqueued or the error it
  failed with. An error of \<open>mark_schedule_enqueue_failed\<close> ends the loop.\<close>

fun run_claimed ::
  "settings \<Rightarrow> (json \<Rightarrow> string) \<Rightarrow> (string \<Rightarrow> payload \<Rightarrow> payload) \<Rightarrow> string \<Rightarrow> string \<Rightarrow> (nat \<Rightarrow> enqueue_step) \<Rightarrow>
   (nat \<Rightarrow> 'a schedule_db_scheme \<Rightarrow> 'a schedule_db_scheme) \<Rightarrow> schedule list \<Rightarrow> 'a schedule_db_scheme \<Rightarrow>
   (string \<times> (py_error + string)) list \<Rightarrow> ((string \<times> (py_error + string)) list \<times> 'a schedule_db_scheme) result" where
  "run_claimed cfg rep norm ns worker steps env [] db out = Inr (out, db)"
| "run_claimed cfg rep norm ns worker steps env (s # ss) db out =
     (case sc_claim_token s of
        None \<Rightarrow> Inl (RuntimeError (''Schedule '' @ sc_id s @ '' claim token missing''))
      | Some tok \<Rightarrow>
          let st = steps 0; db0 = env 0 db
          in case enqueue_schedule_run cfg rep norm (es_ids st) ns (es_now st) (sc_id s) worker tok (sc_lease_generation s) db0 of
               Inr (bid, db1) \<Rightarrow>
                 run_claimed cfg rep norm ns worker (\<lambda>n. steps (Suc n)) (\<lambda>n. env (Suc n)) ss db1 (out @ [(sc_id s, Inr bid)])
             | Inl x \<Rightarrow>
                 and_then (mark_schedule_enqueue_failed cfg (es_tx st) ns (es_now st) (sc_id s) tok (sc_lease_generation s) db0) (\<lambda>(_, db1).
                   run_claimed cfg rep norm ns worker (\<lambda>n. steps (Suc n)) (\<lambda>n. env (Suc n)) ss db1 (out @ [(sc_id s, Inl x)])))"

text \<open>The inputs of one scan: the clocks and identifiers of its transactions and what other sessions
  commit between them.\<close>

record 'db scan_inputs =
  in_reconcile_now :: timestamp
  in_claim_now :: timestamp
  in_wall :: timestamp
  in_pages :: "'db scan_page list"
  in_steps :: "nat \<Rightarrow> enqueue_step"
  in_env :: "nat \<Rightarrow> 'db \<Rightarrow> 'db"
  in_finish_tx :: txn
  in_finish_now :: timestamp

definition run_due_schedules ::
  "settings \<Rightarrow> cron \<Rightarrow> (json \<Rightarrow> string) \<Rightarrow> (string \<Rightarrow> payload \<Rightarrow> payload) \<Rightarrow> string \<Rightarrow> string \<Rightarrow> int \<Rightarrow> int list \<Rightarrow>
   'a schedule_db_scheme scan_inputs \<Rightarrow> 'a schedule_db_scheme \<Rightarrow>
   ((string \<times> (py_error + string)) list \<times> 'a schedule_db_scheme) result option" where
  "run_due_schedules cfg cron rep norm ns worker g wake_ids inp db =
     (if ns = [] then Some (Inl (RuntimeError ''Scheduler run must target a namespace''))
      else case reconcile_pending_schedule_runs cron (in_reconcile_now inp) ns SCHEDULE_CANDIDATE_BATCH_SIZE db of
             Inl x \<Rightarrow> Some (Inl x)
           | Inr (_, db1) \<Rightarrow>
               map_option (\<lambda>claims.
                 and_then claims (\<lambda>(claimed, db2).
                 and_then (run_claimed cfg rep norm ns worker (in_steps inp) (in_env inp) claimed db2 []) (\<lambda>(out, db3).
                 and_then (finish_schedule_work_scan cfg cron (in_finish_tx inp) (in_finish_now inp) ns g wake_ids db3) (\<lambda>db4.
                   Inr (out, db4)))))
                 (claim_due_schedules cron (in_wall inp) (in_claim_now inp) worker [] 100 (in_pages inp) db1))"

end
