(* ===== verification/Schedule_Facts.thy ===== *)
theory Schedule_Facts
  imports Schedules Job_Facts
begin

text \<open>
  What the schedules guarantee: a lost claim enqueues nothing, the builds of a schedule that are in
  flight stem from its last trigger, a quiet scan claims every due schedule, a finished scan leaves no
  cron schedule without a wake, and finished builds are applied once.
\<close>

subsection \<open>Frames\<close>

lemma schedules_frames [simp]:
  "schedules (notify_on_commit p db) = schedules db" "schedules (notify_dispatcher ns db) = schedules db"
  "schedules (snd (append_wake c i n ns k db)) = schedules db" "schedules (mark_schedule_pending c i n ns db) = schedules db"
  "schedules (delete_wakes ns k ids db) = schedules db" "schedules (snd (publish_marker n ns k g pd d db)) = schedules db"
  by (auto simp: notify_on_commit_def notify_dispatcher_def append_wake_def mark_schedule_pending_def delete_wakes_def
      publish_marker_def Let_def split: option.split)

lemma refresh_schedules [simp]: "schedules (refresh_quiet c ns k pq dq now db) = schedules db"
  using refresh_quiet_cases [of c ns k pq dq now db] by auto

lemma enqueue_runtime_schedules: "enqueue_runtime_event c tx i ns p db = Inr db' \<Longrightarrow> schedules db' = schedules db"
  by (auto simp: enqueue_runtime_event_def enqueue_event_def Let_def split: option.splits if_splits)

lemma enqueue_api_schedules: "enqueue_api_build_notification c tx i cur ns bid q db = Inr db' \<Longrightarrow> schedules db' = schedules db"
  unfolding enqueue_api_build_notification_def by (rule enqueue_runtime_schedules)

lemma cas_schedules: "cas_update_build_run c tx ns r f e n db = Inr (x, db') \<Longrightarrow> schedules db' = schedules db"
  by (auto simp: cas_update_build_run_def Let_def enqueue_api_schedules split: sum.splits if_splits)

lemma exhaust_one_schedules [simp]: "schedules (exhaust_one c tx ns p db) = schedules db"
  by (cases p) (simp add: exhaust_one_def Let_def)

lemma exhaust_fold_schedules [simp]: "schedules (fold (exhaust_one c tx ns) ps db) = schedules db"
  by (induction ps arbitrary: db) simp_all

lemma event_schedules:
  assumes "stage_build_event cfg tx ns now bid e rc ex au notif db = Inr (x, db')"
  shows "schedules db' = schedules db"
proof -
  have a: "announce_event cfg tx ns n bid q tm notif sch d = Inr d' \<Longrightarrow> schedules d' = schedules d" for n q tm sch d d'
    by (auto simp: announce_event_def Let_def enqueue_api_schedules split: option.splits sum.splits if_splits)
  show ?thesis using assms by (auto simp: stage_build_event_def Let_def dest: a split: if_splits option.splits sum.splits)
qed

lemma append_event_schedules:
  "append_build_event cfg tx ns now bid e rc ex au db = Inr (x, db') \<Longrightarrow> schedules db' = schedules db"
  by (auto simp: append_build_event_def dest!: enqueue_api_schedules event_schedules split: sum.splits option.splits if_splits)

lemma build_step_schedules: "build_step cfg db db' \<Longrightarrow> schedules db' = schedules db"
proof (induction rule: build_step.induct)
  case (bs_mark tx ns bid g now db x db')
  then show ?case by (auto simp: mark_build_running_def dest!: cas_schedules split: option.splits if_splits)
qed (auto simp: stage_build_run_def stage_build_result_json_def stage_job_def claim_next_job_def stage_exhausted_jobs_def
       renew_job_lease_def finish_claimed_job_def stage_job_cancelled_def append_event_schedules event_schedules Let_def
     split: if_splits option.splits)

subsection \<open>The transition system\<close>

text \<open>Every transaction on schedules, beside the transactions on builds, which stage no build for a
  schedule. The identifier of a new schedule was never used before.\<close>

inductive schedule_step ::
  "settings \<Rightarrow> cron \<Rightarrow> (json \<Rightarrow> string) \<Rightarrow> (string \<Rightarrow> payload \<Rightarrow> payload) \<Rightarrow> 'a schedule_db_scheme \<Rightarrow> 'a schedule_db_scheme \<Rightarrow> bool"
  for cfg cron rep norm where
  ss_create: "stage_create_schedule cfg cron tx ns now p db = Inr (s, db') \<Longrightarrow> \<forall>r \<in> set (runs db). run_schedule_id r \<noteq> Some (sc_id s) \<Longrightarrow>
    schedule_step cfg cron rep norm db db'"
| ss_update: "stage_update_schedule cfg cron tx ns now i u db = Inr (s, db') \<Longrightarrow> schedule_step cfg cron rep norm db db'"
| ss_delete: "stage_delete_schedule cfg tx ns i db = Inr db' \<Longrightarrow> schedule_step cfg cron rep norm db db'"
| ss_claim: "due_schedule_candidates cron wall now db (page_locked_rows now reclaimable locked ids db) = Inr rows \<Longrightarrow>
    claim_locked worker now limit toks rows claimed db = Inr (claimed', db') \<Longrightarrow> schedule_step cfg cron rep norm db db'"
| ss_enqueue: "enqueue_schedule_run cfg rep norm bids ns now sid worker tok g db = Inr (bid, db') \<Longrightarrow> schedule_step cfg cron rep norm db db'"
| ss_failed: "mark_schedule_enqueue_failed cfg tx ns now sid tok g db = Inr (x, db') \<Longrightarrow> schedule_step cfg cron rep norm db db'"
| ss_reconcile: "apply_schedule_run_reconciliation cron now bid db = Inr (x, db') \<Longrightarrow> schedule_step cfg cron rep norm db db'"
| ss_finish: "finish_schedule_work_scan cfg cron tx now ns g wake_ids db = Inr db' \<Longrightarrow> schedule_step cfg cron rep norm db db'"
| ss_build: "build_step cfg db db' \<Longrightarrow> \<forall>r \<in> set (runs db'). run_schedule_id r \<noteq> None \<longrightarrow> run_id r \<in> run_id ` set (runs db) \<Longrightarrow>
    schedule_step cfg cron rep norm db db'"

abbreviation schedule_lease_move :: "schedule \<Rightarrow> schedule \<Rightarrow> bool" where
  "schedule_lease_move \<equiv> lease_move sc_id sc_lease_generation sc_claim_token"

definition schedule_move :: "schedule \<Rightarrow> schedule \<Rightarrow> bool" where
  "schedule_move a b \<longleftrightarrow> schedule_lease_move a b \<and> sc_last_triggered_at b = sc_last_triggered_at a"

lemma schedule_move_refl [simp]: "schedule_move a a"
  by (simp add: schedule_move_def)

lemma schedule_move_key: "schedule_move a b \<Longrightarrow> sc_id b = sc_id a"
  by (simp add: schedule_move_def lease_move_def)

lemma schedule_moves_refl [simp]: "list_all2 schedule_move ss ss"
  by (simp add: list_all2_refl)

lemma schedule_moves_trans:
  "list_all2 schedule_move a b \<Longrightarrow> list_all2 schedule_move b c \<Longrightarrow> list_all2 schedule_move a c"
  by (rule list_all2_trans) (auto simp: schedule_move_def intro: lease_move_trans)

lemma schedule_moves_unique: "list_all2 schedule_move a b \<Longrightarrow> unique_by sc_id b = unique_by sc_id a"
  using unique_rel [of schedule_move a b sc_id] schedule_move_key by blast

lemma put_schedule_moves:
  assumes "unique_by sc_id (schedules db)" and "get_schedule (sc_id s) db = Some a" and "schedule_move a s"
  shows "list_all2 schedule_move (schedules db) (schedules (put_schedule s db))"
  unfolding put_schedule_def
  using assms by (auto simp: get_schedule_def dest: get_row_unique intro!: list_all2_update_where)

lemma claim_locked_moves:
  "claim_locked worker now limit toks rows claimed db = Inr (claimed', db') \<Longrightarrow>
   list_all2 schedule_move (schedules db) (schedules db') \<and> runs db' = runs db"
proof (induction worker now limit toks rows claimed db rule: claim_locked.induct)
  case (2 worker now limit toks s ss claimed db)
  let ?db1 = "db\<lparr>schedules := update_where (schedule_claim_where s) (schedule_claim_values worker (toks 0) now) (schedules db)\<rparr>"
  have m: "list_all2 schedule_move (schedules db) (schedules ?db1)"
    by (auto intro!: list_all2_update_where simp: schedule_move_def lease_move_def schedule_claim_values_def)
  show ?case
    using 2 m schedule_moves_trans [OF m] by (fastforce simp: Let_def split: if_splits)
qed simp

lemma put_schedule_frames [simp]: "runs (put_schedule s db) = runs db" "work_rows (put_schedule s db) = work_rows db"
  "wake_rows (put_schedule s db) = wake_rows db" "jobs (put_schedule s db) = jobs db" "datasources (put_schedule s db) = datasources db"
  by (simp_all add: put_schedule_def)

lemma get_put_schedule:
  "get_schedule i (put_schedule s db) = (if i = sc_id s then map_option (\<lambda>_. s) (get_schedule i db) else get_schedule i db)"
  unfolding get_schedule_def put_schedule_def by (simp add: get_row_replace)

lemma fill_next_runs_moves:
  "fill_next_runs cron now ss cands db = Inr (cands', db') \<Longrightarrow> unique_by sc_id (schedules db) \<Longrightarrow>
   \<forall>s \<in> set ss. get_schedule (sc_id s) db = Some s \<Longrightarrow> distinct (map sc_id ss) \<Longrightarrow>
   list_all2 schedule_move (schedules db) (schedules db') \<and> runs db' = runs db"
proof (induction cron now ss cands db arbitrary: cands' db' rule: fill_next_runs.induct)
  case (2 cron now s ss cands db)
  show ?case
  proof (cases "sc_last_run s")
    case None
    have r: "fill_next_runs cron now ss (cands @ [Some now]) db = Inr (cands', db')" using "2.prems"(1) None by simp
    show ?thesis using "2.IH"(1) [OF None r "2.prems"(2)] "2.prems"(3,4) by simp
  next
    case (Some t)
    then obtain n where n: "compute_next_run cron (sc_cron_expression s) t = Inr n"
      using "2.prems"(1) by (auto elim!: and_then_okE)
    show ?thesis
    proof (cases n)
      case None
      then have r: "fill_next_runs cron now ss cands db = Inr (cands', db')" using "2.prems"(1) Some n by simp
      show ?thesis using "2.IH"(2) [OF Some r "2.prems"(2)] "2.prems"(3,4) by simp
    next
      case (Some v)
      let ?s = "s\<lparr>sc_next_run := Some v\<rparr>"
      have m: "list_all2 schedule_move (schedules db) (schedules (put_schedule ?s db))"
        using "2.prems"(2,3) by (intro put_schedule_moves [of _ _ s]) (simp_all add: schedule_move_def lease_move_def)
      have u: "unique_by sc_id (schedules (put_schedule ?s db))" using schedule_moves_unique [OF m] "2.prems"(2) by simp
      have g: "\<forall>x \<in> set ss. get_schedule (sc_id x) (put_schedule ?s db) = Some x"
      proof
        fix x assume x: "x \<in> set ss"
        have "get_schedule (sc_id x) db = Some x" using "2.prems"(3) x by (meson list.set_intros(2))
        moreover have "sc_id x \<noteq> sc_id s" using "2.prems"(4) x by (metis distinct.simps(2) image_eqI list.set_map list.simps(9))
        ultimately show "get_schedule (sc_id x) (put_schedule ?s db) = Some x" by (simp add: get_put_schedule)
      qed
      have r: "fill_next_runs cron now ss (cands @ [Some (max now v)]) (put_schedule ?s db) = Inr (cands', db')"
        using "2.prems"(1) unfolding fill_next_runs.simps \<open>sc_last_run s = Some t\<close> option.case n Some and_then_simps .
      have "distinct (map sc_id ss)" using "2.prems"(4) by simp
      with r u g have "list_all2 schedule_move (schedules (put_schedule ?s db)) (schedules db') \<and> runs db' = runs (put_schedule ?s db)"
        by (rule "2.IH"(3) [OF \<open>sc_last_run s = Some t\<close>])
      then show ?thesis using schedule_moves_trans [OF m] by (simp only: put_schedule_frames)
    qed
  qed
qed simp

lemma finish_scan_frames:
  assumes "finish_schedule_scan cfg t ns g due ids db = Inr db'"
  shows "schedules db' = schedules db" "runs db' = runs db"
  using assms by (auto simp: finish_schedule_scan_def Let_def split: if_splits option.splits)

lemma next_due_moves:
  assumes "next_schedule_namespace_due_at cron now db = Inr (due, db')" and u: "unique_by sc_id (schedules db)"
  shows "list_all2 schedule_move (schedules db) (schedules db') \<and> runs db' = runs db"
proof -
  let ?m = "filter (\<lambda>s. eligible_cron db s \<and> sc_next_run s = None \<and> lease_free now s) (schedules db)"
  from assms(1) obtain cands where f: "fill_next_runs cron now ?m [next_cron now db, lease_due now db] db = Inr (cands, db')"
    by (auto simp: next_schedule_namespace_due_at_def Let_def elim!: and_then_okE)
  have "\<forall>s \<in> set ?m. get_schedule (sc_id s) db = Some s" using u by (auto simp: get_schedule_def get_row_unique)
  moreover have "distinct (map sc_id ?m)" using u by (auto simp: unique_by_def distinct_map_filter)
  ultimately show ?thesis by (rule fill_next_runs_moves [OF f u])
qed

text \<open>Most transactions move the schedules one by one and leave the builds alone.\<close>

definition moves_only :: "'a schedule_db_scheme \<Rightarrow> 'a schedule_db_scheme \<Rightarrow> bool" where
  "moves_only db db' \<longleftrightarrow> list_all2 schedule_move (schedules db) (schedules db') \<and> runs db' = runs db"

lemma put_moves_only:
  "unique_by sc_id (schedules db) \<Longrightarrow> get_schedule i db = Some a \<Longrightarrow> schedule_move a s \<Longrightarrow> moves_only db (put_schedule s db)"
  using put_schedule_moves [of db s a] schedule_move_key [of a s] by (auto simp: moves_only_def get_schedule_def dest: get_row_SomeD)

lemma set_fields_move: "set_fields u a = Inr s \<Longrightarrow> schedule_move a (s\<lparr>sc_next_run := n\<rparr>)"
  unfolding set_fields_def by (split if_split_asm) (simp_all add: schedule_move_def lease_move_def, clarsimp)

lemma update_moves:
  assumes "stage_update_schedule cfg cron tx ns now i u db = Inr (s, db')" and "unique_by sc_id (schedules db)"
  shows "moves_only db db'"
proof -
  from assms(1) obtain a where a: "get_schedule i db = Some a" by (auto simp: stage_update_schedule_def split: option.splits)
  with assms(1) obtain s1 n where "set_fields u a = Inr s1"
      "db' = mark_schedule_pending cfg (tx_wakes tx 0) (tx_stmt tx) ns (put_schedule (s1\<lparr>sc_next_run := n\<rparr>) db)"
    unfolding stage_update_schedule_def by (simp only: option.case) (split if_split_asm, simp, elim and_then_okE, simp only: Let_def sum.inject prod.inject, blast)
  then show ?thesis using put_moves_only [OF assms(2) a set_fields_move] by (simp add: moves_only_def)
qed

lemma failed_moves:
  assumes "mark_schedule_enqueue_failed cfg tx ns now sid tok g db = Inr (x, db')" and "unique_by sc_id (schedules db)"
  shows "moves_only db db'"
proof (cases "get_schedule sid db")
  case None
  then show ?thesis using assms by (simp add: mark_schedule_enqueue_failed_def moves_only_def)
next
  case (Some a)
  have "schedule_move a (release_lease (a\<lparr>sc_last_failure_at := Some now\<rparr>))"
    by (simp add: schedule_move_def lease_move_def release_lease_def)
  then show ?thesis using put_moves_only [OF assms(2) Some] assms(1) Some
    by (auto simp: mark_schedule_enqueue_failed_def Let_def moves_only_def split: if_splits)
qed

lemma reconcile_cases:
  assumes "apply_schedule_run_reconciliation cron now bid db = Inr (x, db')"
  shows "x = None \<and> db' = db \<or>
    (\<exists>r sid s s1. get_build_run bid db = Some r \<and> run_is_terminal (run_status r) \<and> run_schedule_id r = Some sid \<and>
       get_schedule sid db = Some s \<and> \<not> sql_gt (sc_last_triggered_at s) (run_created_at r) \<and>
       \<not> (sc_lease_owner s = None \<and> run_applied s r) \<and> schedule_move s s1 \<and> x = Some s1 \<and> db' = put_schedule s1 db)"
  using assms
  by (auto simp: apply_schedule_run_reconciliation_def schedule_move_def lease_move_def release_lease_def elim!: and_then_okE
      split: option.splits if_splits)

lemma reconcile_moves:
  assumes "apply_schedule_run_reconciliation cron now bid db = Inr (x, db')" and "unique_by sc_id (schedules db)"
  shows "moves_only db db'"
  using reconcile_cases [OF assms(1)] put_moves_only [OF assms(2)] by (auto simp: moves_only_def)

lemma finish_moves:
  assumes "finish_schedule_work_scan cfg cron tx now ns g ids db = Inr db'" and "unique_by sc_id (schedules db)"
  shows "moves_only db db'"
  using assms next_due_moves [OF _ assms(2)] finish_scan_frames
  by (fastforce simp: finish_schedule_work_scan_def moves_only_def elim!: and_then_okE)

subsection \<open>Enqueued builds\<close>

lemma enqueue_build_facts:
  assumes "enqueue_schedule_build cfg norm tx ns now s bid q db = Inr db'"
  shows "schedules db' = schedules db \<and>
    (\<exists>r. runs db' = runs db @ [r] \<and> run_id r = bid \<and> run_schedule_id r = Some (sc_id s) \<and> run_created_at r = now \<and> run_status r = BR_QUEUED \<and>
       get_row run_id bid (runs db) = None)"
proof -
  from assms obtain db1 j db2 where d: "stage_build_run (schedule_run norm s ns now bid q) (build_datasource_ids (bo_request q)) db = Inr db1"
      "stage_job cfg tx bid ns 1 db1 = Inr (j, db2)" "enqueue_build_job_notification cfg tx 1 ns db2 = Inr db'"
    by (auto simp: enqueue_schedule_build_def elim!: and_then_okE)
  have "schedules db' = schedules db2" "runs db' = runs db2"
    using d(3) unfolding enqueue_build_job_notification_def
    by (auto dest: enqueue_runtime_schedules simp: enqueue_runtime_event_def enqueue_event_def Let_def split: option.splits if_splits)
  moreover have "schedules db2 = schedules db1" "runs db2 = runs db1" using d(2) by (auto simp: stage_job_def Let_def split: if_splits)
  moreover have "schedules db1 = schedules db" "\<exists>r. runs db1 = runs db @ [r] \<and> run_id r = bid \<and> run_schedule_id r = Some (sc_id s) \<and> run_created_at r = now \<and> run_status r = BR_QUEUED"
    "get_row run_id bid (runs db) = None"
    using d(1) by (auto simp: stage_build_run_def schedule_run_def split: if_splits)
  ultimately show ?thesis by auto
qed

lemma enqueue_orders_facts:
  "enqueue_orders cfg norm ns now s ids qs db = Inr db' \<Longrightarrow> runs_inv db \<Longrightarrow>
   schedules db' = schedules db \<and> runs_inv db' \<and>
   (\<exists>new. runs db' = runs db @ new \<and> (\<forall>r \<in> set new. run_schedule_id r = Some (sc_id s) \<and> run_created_at r = now))"
proof (induction cfg norm ns now s ids qs db rule: enqueue_orders.induct)
  case (2 cfg norm ns now s ids q qs db)
  from "2.prems"(1) obtain order db1 where d: "q db = Inr order"
      "enqueue_schedule_build cfg norm (snd (ids 0)) ns now s (fst (ids 0)) order db = Inr db1"
      "enqueue_orders cfg norm ns now s (\<lambda>n. ids (Suc n)) qs db1 = Inr db'"
    by (auto elim!: and_then_okE)
  note f = enqueue_build_facts [OF d(2)]
  then have "runs_inv db1" using "2.prems"(2) by (auto simp: runs_inv_def unique_append1)
  from "2.IH" [OF d(3) this] f show ?case by auto
qed simp

subsection \<open>The invariant\<close>

definition triggered_ok :: "build_run list \<Rightarrow> schedule list \<Rightarrow> bool" where
  "triggered_ok rs ss \<longleftrightarrow>
     (\<forall>r \<in> set rs. \<forall>s \<in> set ss. run_in_flight r \<and> run_schedule_id r = Some (sc_id s) \<longrightarrow> sc_last_triggered_at s = Some (run_created_at r))"

definition schedule_inv :: "'a schedule_db_scheme \<Rightarrow> bool" where
  "schedule_inv db \<longleftrightarrow> unique_by sc_id (schedules db) \<and> runs_inv db \<and> triggered_ok (runs db) (schedules db)"

lemma schedule_inv_unique: "schedule_inv db \<Longrightarrow> unique_by sc_id (schedules db)"
  by (simp add: schedule_inv_def)

lemma triggered_moves:
  assumes "list_all2 schedule_move ss ts" and "triggered_ok rs ss"
  shows "triggered_ok rs ts"
  unfolding triggered_ok_def
proof (intro ballI impI)
  fix r t assume r: "r \<in> set rs" and t: "t \<in> set ts" and f: "run_in_flight r \<and> run_schedule_id r = Some (sc_id t)"
  obtain s where "s \<in> set ss" "schedule_move s t" using assms(1) t by (metis in_set_conv_nth list_all2_conv_all_nth)
  then show "sc_last_triggered_at t = Some (run_created_at r)"
    using assms(2) r f by (auto simp: triggered_ok_def schedule_move_def lease_move_def)
qed

lemma moves_only_inv: "moves_only db db' \<Longrightarrow> schedule_inv db \<Longrightarrow> schedule_inv db'"
  using schedule_moves_unique triggered_moves by (auto simp: moves_only_def schedule_inv_def runs_inv_def)

lemma triggered_evolve:
  assumes e: "rows_evolve run_move rs ts" and old: "\<forall>t \<in> set ts. run_schedule_id t \<noteq> None \<longrightarrow> run_id t \<in> run_id ` set rs"
    and u: "unique_by run_id ts" and ok: "triggered_ok rs ss"
  shows "triggered_ok ts ss"
  unfolding triggered_ok_def
proof (intro ballI impI)
  fix t s assume t: "t \<in> set ts" and s: "s \<in> set ss" and f: "run_in_flight t \<and> run_schedule_id t = Some (sc_id s)"
  obtain r where r: "r \<in> set rs" "run_id r = run_id t" using old t f by auto
  then obtain r' where r': "get_row run_id (run_id t) rs = Some r'" by (metis get_row_None_iff image_eqI not_None_eq)
  obtain t' where t': "get_row run_id (run_id t) ts = Some t'" "run_move r' t'" using rows_evolve_kept [OF e run_move_key r'] by blast
  have "t' = t" using t'(1) get_row_unique [OF u t] by simp
  then have m: "run_move r' t" using t'(2) by simp
  then have "run_in_flight r'" using f by (auto simp: run_move_def run_in_flight_iff)
  moreover have "run_schedule_id r' = Some (sc_id s)" "run_created_at t = run_created_at r'" using m f by (auto simp: run_move_def)
  ultimately show "sc_last_triggered_at s = Some (run_created_at t)"
    using ok s get_row_SomeD [OF r'] by (auto simp: triggered_ok_def)
qed

lemma enqueue_run_facts:
  assumes "enqueue_schedule_run cfg rep norm ids ns now sid worker tok g db = Inr (bid, db')" and "runs_inv db"
  shows "\<exists>s new. get_schedule sid db = Some s \<and> \<not> has_inflight_build_for_schedule sid db \<and> schedule_claim_live worker tok g now s \<and>
    schedules db' = schedules (put_schedule (s\<lparr>sc_last_triggered_at := Some now, sc_last_failure_at := None\<rparr>) db) \<and> runs_inv db' \<and>
    runs db' = runs db @ new \<and> (\<forall>r \<in> set new. run_schedule_id r = Some (sc_id s) \<and> run_created_at r = now)"
proof -
  from assms(1) obtain s where s: "get_schedule sid db = Some s" by (auto simp: enqueue_schedule_run_def split: option.splits)
  let ?s = "s\<lparr>sc_last_triggered_at := Some now, sc_last_failure_at := None\<rparr>"
  from assms(1) s have g: "\<not> has_inflight_build_for_schedule sid db" "schedule_claim_live worker tok g now s"
    by (auto simp: enqueue_schedule_run_def split: if_splits)
  with assms(1) s obtain qs db1 where d: "enqueue_orders cfg norm ns now s ids qs db = Inr db1" "db' = wake_build_worker ns (put_schedule ?s db1)"
    by (auto simp: enqueue_schedule_run_def elim!: and_then_okE)
  note f = enqueue_orders_facts [OF d(1) assms(2)]
  have "schedules db' = schedules (put_schedule ?s db)" using d(2) f by (simp add: wake_build_worker_def put_schedule_def)
  moreover have "runs db' = runs db1" using d(2) by (simp add: wake_build_worker_def)
  ultimately show ?thesis using s g f by (auto simp: runs_inv_def)
qed

lemma enqueue_inv:
  assumes "enqueue_schedule_run cfg rep norm ids ns now sid worker tok g db = Inr (bid, db')" and inv: "schedule_inv db"
  shows "schedule_inv db'"
proof -
  have ri: "runs_inv db" and u: "unique_by sc_id (schedules db)" using inv by (simp_all add: schedule_inv_def)
  obtain s new where e: "get_schedule sid db = Some s" "\<not> has_inflight_build_for_schedule sid db"
      "schedules db' = schedules (put_schedule (s\<lparr>sc_last_triggered_at := Some now, sc_last_failure_at := None\<rparr>) db)" "runs_inv db'"
      "runs db' = runs db @ new" "\<forall>r \<in> set new. run_schedule_id r = Some (sc_id s) \<and> run_created_at r = now"
    using enqueue_run_facts [OF assms(1) ri] by blast
  have id: "sc_id s = sid" using e(1) by (auto simp: get_schedule_def dest: get_row_SomeD)
  have u': "unique_by sc_id (schedules db')"
  proof -
    have "map sc_id (schedules db') = map sc_id (schedules db)" unfolding e(3) put_schedule_def by (simp add: map_update_where_frame)
    then show ?thesis using u by (simp add: unique_by_def)
  qed
  have "triggered_ok (runs db') (schedules db')"
    unfolding triggered_ok_def
  proof (intro ballI impI)
    fix r t assume r: "r \<in> set (runs db')" and t: "t \<in> set (schedules db')" and f: "run_in_flight r \<and> run_schedule_id r = Some (sc_id t)"
    show "sc_last_triggered_at t = Some (run_created_at r)"
    proof (cases "sc_id t = sid")
      case True
      then have "sc_last_triggered_at t = Some now" using t id by (auto simp: e(3) put_schedule_def set_update_where split: if_splits)
      moreover have "r \<in> set new" using r f e(2,5) True by (auto simp: has_inflight_build_for_schedule_def list_ex_iff)
      ultimately show ?thesis using e(6) by simp
    next
      case False
      then have "t \<in> set (schedules db)" using t id by (auto simp: e(3) put_schedule_def set_update_where split: if_splits)
      moreover have "r \<in> set (runs db)" using r f e(5,6) False id by auto
      ultimately show ?thesis using inv f by (auto simp: schedule_inv_def triggered_ok_def)
    qed
  qed
  then show ?thesis using u' e(4) by (simp add: schedule_inv_def)
qed

lemma schedule_step_inv:
  assumes "schedule_step cfg cron rep norm db db'" and "schedule_inv db"
  shows "schedule_inv db'"
  using assms
proof (induction rule: schedule_step.induct)
  case (ss_create tx ns now p db s db')
  then have "schedules db' = schedules db @ [s]" "runs db' = runs db" "get_schedule (sc_id s) db = None"
    by (auto simp: stage_create_schedule_def Let_def new_schedule_def elim!: and_then_okE split: option.splits if_splits)
  then show ?case using ss_create by (auto simp: schedule_inv_def unique_append1 get_schedule_def runs_inv_def triggered_ok_def)
next
  case (ss_delete tx ns i db db')
  then have "schedules db' = delete_where (\<lambda>s. sc_id s = i) (schedules db)" "runs db' = runs db"
    by (auto simp: stage_delete_schedule_def split: if_splits)
  then show ?case using ss_delete unique_delete [of sc_id "schedules db" "\<lambda>s. sc_id s = i"]
    by (auto simp: schedule_inv_def runs_inv_def triggered_ok_def delete_where_def)
next
  case (ss_claim wall now db reclaimable locked ids rows worker limit toks claimed claimed' db')
  then show ?case using claim_locked_moves moves_only_inv by (metis moves_only_def)
next
  case (ss_build db db')
  then have "schedules db' = schedules db" "rows_evolve run_move (runs db) (runs db')" "runs_inv db'"
    using build_step_schedules [OF ss_build.hyps(1)] build_step_runs [OF ss_build.hyps(1)] by (simp_all add: schedule_inv_def)
  then show ?case using ss_build triggered_evolve [of "runs db" "runs db'" "schedules db"] by (auto simp: schedule_inv_def runs_inv_def)
qed (blast intro: enqueue_inv moves_only_inv update_moves failed_moves reconcile_moves finish_moves schedule_inv_unique)+

interpretation scheduler: preserved "schedule_step cfg cron rep norm" schedule_inv
  by unfold_locales (rule schedule_step_inv)

text \<open>C20: scheduled builds are single-flight. In every state the transactions can reach, all builds of a
  schedule that are queued or running were created by one trigger, the last one the schedule records;
  so a schedule is never enqueued again while one of its builds is in flight.\<close>

theorem inflight_builds_of_last_trigger:
  assumes "schedule_inv db" and "(schedule_step cfg cron rep norm)\<^sup>*\<^sup>* db db'"
    and "s \<in> set (schedules db')" and "r \<in> set (runs db')" and "run_schedule_id r = Some (sc_id s)" and "run_in_flight r"
  shows "sc_last_triggered_at s = Some (run_created_at r)"
  using scheduler.run_inv [OF assms(2,1)] assms(3-6) by (auto simp: schedule_inv_def triggered_ok_def)

subsection \<open>Fencing\<close>

text \<open>A run along which the schedule is not deleted.\<close>

definition kept_step ::
  "settings \<Rightarrow> cron \<Rightarrow> (json \<Rightarrow> string) \<Rightarrow> (string \<Rightarrow> payload \<Rightarrow> payload) \<Rightarrow> string \<Rightarrow> 'a schedule_db_scheme \<Rightarrow> 'a schedule_db_scheme \<Rightarrow> bool" where
  "kept_step cfg cron rep norm sid db db' \<longleftrightarrow> schedule_step cfg cron rep norm db db' \<and> get_schedule sid db \<noteq> None \<and> get_schedule sid db' \<noteq> None"

abbreviation schedule_generation :: "'a schedule_db_scheme \<Rightarrow> string \<Rightarrow> int" where
  "schedule_generation db \<equiv> row_generation sc_id sc_lease_generation (schedules db)"

abbreviation schedule_current :: "'a schedule_db_scheme \<Rightarrow> string \<Rightarrow> string \<Rightarrow> int \<Rightarrow> bool" where
  "schedule_current db \<equiv> row_current sc_id sc_lease_generation sc_claim_token (schedules db)"

lemma moves_lease:
  assumes "list_all2 schedule_move ss ts" and "get_row sc_id sid ss = Some a" and "get_row sc_id sid ts = Some b"
  shows "schedule_lease_move a b"
proof -
  have "rel_option schedule_move (get_row sc_id sid ss) (get_row sc_id sid ts)" by (rule get_row_rel [OF assms(1)]) (rule schedule_move_key)
  then show ?thesis using assms(2,3) by (simp add: schedule_move_def)
qed

lemma schedule_step_lease:
  assumes "schedule_step cfg cron rep norm db db'" and "schedule_inv db"
    and "get_schedule sid db = Some a" and "get_schedule sid db' = Some b"
  shows "schedule_lease_move a b"
  using assms
proof (induction rule: schedule_step.induct)
  case (ss_create tx ns now p db s db')
  then have "schedules db' = schedules db @ [s]"
    by (auto simp: stage_create_schedule_def Let_def elim!: and_then_okE split: option.splits if_splits)
  then show ?case using ss_create.prems by (simp add: get_schedule_def table_simps)
next
  case (ss_delete tx ns i db db')
  then have "schedules db' = delete_where (\<lambda>s. sc_id s = i) (schedules db)" by (auto simp: stage_delete_schedule_def split: if_splits)
  then show ?case using ss_delete.prems get_row_delete [of sc_id "schedules db" sid "\<lambda>s. sc_id s = i"]
    by (auto simp: get_schedule_def schedule_inv_def split: if_splits)
next
  case (ss_enqueue bids ns now i worker tok g db bid db')
  then obtain s where s: "get_schedule i db = Some s"
      "schedules db' = schedules (put_schedule (s\<lparr>sc_last_triggered_at := Some now, sc_last_failure_at := None\<rparr>) db)"
    using enqueue_run_facts [OF ss_enqueue.hyps] by (auto simp: schedule_inv_def)
  then have "get_schedule sid db' = get_schedule sid (put_schedule (s\<lparr>sc_last_triggered_at := Some now, sc_last_failure_at := None\<rparr>) db)"
    by (simp add: get_schedule_def)
  moreover have "sc_id s = i" using s(1) by (auto simp: get_schedule_def dest: get_row_SomeD)
  ultimately show ?case using ss_enqueue.prems s(1) by (auto simp: get_put_schedule lease_move_def split: if_splits)
next
  case (ss_build db db')
  then show ?case using build_step_schedules [OF ss_build.hyps(1)] by (simp add: get_schedule_def)
next
  case (ss_claim wall now db reclaimable locked ids rows worker limit toks claimed claimed' db')
  then show ?case using claim_locked_moves moves_lease by (metis get_schedule_def)
next
  case (ss_update tx ns now i u db s db')
  then show ?case using update_moves moves_lease by (metis get_schedule_def moves_only_def schedule_inv_def)
next
  case (ss_failed tx ns now i tok g db x db')
  then show ?case using failed_moves moves_lease by (metis get_schedule_def moves_only_def schedule_inv_def)
next
  case (ss_reconcile now bid db x db')
  then show ?case using reconcile_moves moves_lease by (metis get_schedule_def moves_only_def schedule_inv_def)
next
  case (ss_finish tx now ns g ids db db')
  then show ?case using finish_moves moves_lease by (metis get_schedule_def moves_only_def schedule_inv_def)
qed

interpretation schedule_lease: fenced_lease "kept_step cfg cron rep norm sid" schedule_inv
  "\<lambda>db (_ :: unit). schedule_generation db sid" "\<lambda>db _. schedule_current db sid"
proof unfold_locales
  fix db db' :: "'a schedule_db_scheme"
  assume k: "kept_step cfg cron rep norm sid db db'" "schedule_inv db"
  show "schedule_inv db'" using k schedule_step_inv by (auto simp: kept_step_def)
  obtain a b where ab: "get_schedule sid db = Some a" "get_schedule sid db' = Some b" using k(1) by (auto simp: kept_step_def)
  have m: "schedule_lease_move a b" using schedule_step_lease [OF _ k(2) ab] k(1) by (auto simp: kept_step_def)
  show "schedule_generation db sid \<le> schedule_generation db' sid"
    using ab m by (auto simp: row_generation_def get_schedule_def lease_move_def)
  show "schedule_generation db sid < g" if "schedule_current db' sid tok g" "\<not> schedule_current db sid tok g" for tok g
    using ab m that by (auto simp: row_generation_def row_current_def get_schedule_def lease_move_def)
qed (auto simp: row_generation_def row_current_def split: option.splits)

text \<open>C19: fencing of schedules. Once a scheduler's claim on a schedule was lost (released, reconciled or
  taken over), then after any further transactions, as long as the schedule is not deleted, it can
  neither enqueue builds for the schedule nor release the claim of another scheduler: both raise.\<close>

theorem lost_schedule_claim_is_inert:
  assumes inv: "schedule_inv s" and held: "schedule_current s sid tok g"
    and run1: "(kept_step cfg cron rep norm sid)\<^sup>*\<^sup>* s t" and lost: "\<not> schedule_current t sid tok g"
    and run2: "(kept_step cfg cron rep norm sid)\<^sup>*\<^sup>* t u" and there: "get_schedule sid u \<noteq> None"
  shows "(\<exists>m. enqueue_schedule_run cfg rep norm ids ns now sid worker tok g u = Inl (ValueError m)) \<and>
         mark_schedule_enqueue_failed cfg tx ns now sid tok g u = Inl (ValueError (''Schedule '' @ sid @ '' claim was replaced''))"
proof -
  have "\<not> schedule_current u sid tok g"
    using schedule_lease.fencing [OF inv _ run1 _ run2, of tok g] held lost by blast
  moreover obtain c where c: "get_schedule sid u = Some c" using there by blast
  ultimately have "\<not> (sc_claim_token c = Some tok \<and> sc_lease_generation c = g)"
    by (simp add: row_current_def get_schedule_def)
  then show ?thesis using c by (auto simp: enqueue_schedule_run_def mark_schedule_enqueue_failed_def schedule_claim_live_def)
qed

subsection \<open>Examples\<close>

definition example_cron :: cron where
  "example_cron = (\<lambda>_ t. Inr (t + seconds 60))"

definition example_raw_datasource :: datasource where
  "example_raw_datasource = \<lparr>ds_id = ''d1'', ds_name = ''d'', ds_description = None, ds_source_type = ''iceberg'',
     ds_config = JObj [(''source'', JObj [(''source_type'', JStr ''database'')])], ds_schema_cache = None, ds_revision = 1,
     ds_created_by_analysis_id = None, ds_created_by = ''import'', ds_is_hidden = False, ds_is_pending_delete = False,
     ds_owner_id = None, ds_created_at = 1, ds_delete_requested_at = None\<rparr>"

definition example_schedule :: schedule where
  "example_schedule = \<lparr>sc_id = ''s1'', sc_datasource_id = ''d1'', sc_description = None, sc_cron_expression = ''* * * * *'',
     sc_enabled = True, sc_depends_on = None, sc_trigger_on_datasource_id = None, sc_last_run = None, sc_next_run = Some 5,
     sc_lease_owner = None, sc_claim_token = None, sc_lease_generation = 0, sc_lease_expires_at = None, sc_attempts = 0,
     sc_last_claimed_at = None, sc_last_triggered_at = None, sc_last_success_at = None, sc_last_failure_at = None,
     sc_last_successful_build_id = None, sc_created_at = 1\<rparr>"

definition example_schedules :: schedule_db where
  "example_schedules = \<lparr>ipc_sent = [], work_rows = [], wake_rows = [], events = [], receipts = [], part_receipts = [],
     runs = [], run_events = [], run_datasources = [], jobs = [], worker_runs = [], requests = [], request_datasources = [], flights = [],
     datasources = [example_raw_datasource], analysis_links = [], analyses = [], schedules = [example_schedule]\<rparr>"

text \<open>The schedule claimed, and its build enqueued.\<close>

definition claimed_schedules :: schedule_db where
  "claimed_schedules = snd (projr (claim_locked ''w'' 10 4 (\<lambda>n. ''t1'') [example_schedule] [] example_schedules))"

definition enqueued_schedules :: schedule_db where
  "enqueued_schedules = snd (projr (enqueue_schedule_run example_settings (\<lambda>_. []) (\<lambda>_ p. p)
     (\<lambda>n. (''b1'', example_txn 11 ''j1'')) ''n'' 11 ''s1'' ''w'' ''t1'' 1 claimed_schedules))"

lemma example_schedules_inv: "schedule_inv example_schedules"
  by (simp add: schedule_inv_def example_schedules_def runs_inv_def triggered_ok_def unique_by_def)

lemma claimed_schedules_step: "schedule_step example_settings example_cron (\<lambda>_. []) (\<lambda>_ p. p) example_schedules claimed_schedules"
proof (rule ss_claim)
  show "due_schedule_candidates example_cron 10 10 example_schedules (page_locked_rows 10 [] (\<lambda>_. False) [''s1''] example_schedules) =
    Inr [example_schedule]" by code_simp
  show "claim_locked ''w'' 10 4 (\<lambda>n. ''t1'') [example_schedule] [] example_schedules = Inr ([''s1''], claimed_schedules)"
    unfolding claimed_schedules_def by code_simp
qed

lemma enqueued_schedules_step: "schedule_step example_settings example_cron (\<lambda>_. []) (\<lambda>_ p. p) claimed_schedules enqueued_schedules"
proof (rule ss_enqueue)
  show "enqueue_schedule_run example_settings (\<lambda>_. []) (\<lambda>_ p. p) (\<lambda>n. (''b1'', example_txn 11 ''j1'')) ''n'' 11 ''s1'' ''w'' ''t1'' 1
    claimed_schedules = Inr (''b1'', enqueued_schedules)"
    unfolding enqueued_schedules_def by code_simp
qed

lemma enqueued_schedules_reached:
  "(schedule_step example_settings example_cron (\<lambda>_. []) (\<lambda>_ p. p))\<^sup>*\<^sup>* example_schedules enqueued_schedules"
  using claimed_schedules_step enqueued_schedules_step by (meson r_into_rtranclp rtranclp.rtrancl_into_rtrancl)

theorem inflight_builds_of_last_trigger_witness:
  "map run_id (runs enqueued_schedules) = [''b1''] \<and>
   sc_last_triggered_at (hd (schedules enqueued_schedules)) = Some (run_created_at (hd (runs enqueued_schedules)))"
proof
  show ids: "map run_id (runs enqueued_schedules) = [''b1'']" by code_simp
  show "sc_last_triggered_at (hd (schedules enqueued_schedules)) = Some (run_created_at (hd (runs enqueued_schedules)))"
  proof (rule inflight_builds_of_last_trigger [OF example_schedules_inv enqueued_schedules_reached])
    have "schedules enqueued_schedules \<noteq> []" by code_simp
    then show "hd (schedules enqueued_schedules) \<in> set (schedules enqueued_schedules)" by simp
    show "hd (runs enqueued_schedules) \<in> set (runs enqueued_schedules)" using ids by (cases "runs enqueued_schedules") auto
    show "run_schedule_id (hd (runs enqueued_schedules)) = Some (sc_id (hd (schedules enqueued_schedules)))" by code_simp
    show "run_in_flight (hd (runs enqueued_schedules))" by code_simp
  qed
qed

text \<open>The claim is released after a failure and the schedule is claimed again.\<close>

definition failed_schedules :: schedule_db where
  "failed_schedules = snd (projr (mark_schedule_enqueue_failed example_settings (example_txn 12 ''x'') ''n'' 12 ''s1'' ''t1'' 1 claimed_schedules))"

lemma failed_schedules_kept: "kept_step example_settings example_cron (\<lambda>_. []) (\<lambda>_ p. p) ''s1'' claimed_schedules failed_schedules"
  unfolding kept_step_def
proof (intro conjI)
  show "schedule_step example_settings example_cron (\<lambda>_. []) (\<lambda>_ p. p) claimed_schedules failed_schedules"
  proof (rule ss_failed)
    show "mark_schedule_enqueue_failed example_settings (example_txn 12 ''x'') ''n'' 12 ''s1'' ''t1'' 1 claimed_schedules =
      Inr (get_schedule ''s1'' failed_schedules, failed_schedules)" unfolding failed_schedules_def by code_simp
  qed
  show "get_schedule ''s1'' claimed_schedules \<noteq> None" by code_simp
  show "get_schedule ''s1'' failed_schedules \<noteq> None" by code_simp
qed

theorem lost_schedule_claim_is_inert_witness:
  "schedule_current claimed_schedules ''s1'' ''t1'' 1 \<and> \<not> schedule_current failed_schedules ''s1'' ''t1'' 1 \<and>
   mark_schedule_enqueue_failed example_settings (example_txn 13 ''x'') ''n'' 13 ''s1'' ''t1'' 1 failed_schedules =
     Inl (ValueError (''Schedule '' @ ''s1'' @ '' claim was replaced''))"
proof (intro conjI)
  have inv: "schedule_inv claimed_schedules"
    by (rule scheduler.step_inv [OF claimed_schedules_step example_schedules_inv])
  have kept: "(kept_step example_settings example_cron (\<lambda>_. []) (\<lambda>_ p. p) ''s1'')\<^sup>*\<^sup>* claimed_schedules failed_schedules"
    by (rule r_into_rtranclp) (rule failed_schedules_kept)
  show held: "schedule_current claimed_schedules ''s1'' ''t1'' 1" by code_simp
  show lost: "\<not> schedule_current failed_schedules ''s1'' ''t1'' 1" by code_simp
  have there: "get_schedule ''s1'' failed_schedules \<noteq> None" by code_simp
  show "mark_schedule_enqueue_failed example_settings (example_txn 13 ''x'') ''n'' 13 ''s1'' ''t1'' 1 failed_schedules =
     Inl (ValueError (''Schedule '' @ ''s1'' @ '' claim was replaced''))"
    using lost_schedule_claim_is_inert [OF inv held kept lost rtranclp.rtrancl_refl there] by blast
qed

end
