(* ===== verification/Schedule_Scans.thy ===== *)
theory Schedule_Scans
  imports Schedule_Facts
begin

text \<open>
  What one scan of a namespace achieves: the keyset pages visit every candidate, so a scan that nothing
  disturbs claims all due schedules; the marker that a finished scan publishes is due no later than the
  next cron schedule of the namespace; a finished build is applied to its schedule exactly once.
\<close>

subsection \<open>The published wake\<close>

lemma fill_next_runs_facts:
  assumes "fill_next_runs cron now ss cands db = Inr (cands', db')"
    and "\<forall>s \<in> set ss. get_schedule (sc_id s) db = Some s" and "distinct (map sc_id ss)"
  shows "set cands \<subseteq> set cands' \<and> (\<forall>i. i \<notin> sc_id ` set ss \<longrightarrow> get_schedule i db' = get_schedule i db) \<and>
    (\<forall>s \<in> set ss. (sc_last_run s = None \<longrightarrow> Some now \<in> set cands' \<and> get_schedule (sc_id s) db' = Some s) \<and>
       (\<forall>t. sc_last_run s = Some t \<longrightarrow> (\<exists>n. compute_next_run cron (sc_cron_expression s) t = Inr n \<and>
          (case n of None \<Rightarrow> get_schedule (sc_id s) db' = Some s
           | Some v \<Rightarrow> get_schedule (sc_id s) db' = Some (s\<lparr>sc_next_run := Some v\<rparr>) \<and> Some (max now v) \<in> set cands'))))"
  (is "?C cands db ss")
  using assms
proof (induction ss arbitrary: cands db)
  case (Cons s ss)
  have d: "distinct (map sc_id ss)" and n: "sc_id s \<notin> sc_id ` set ss" using Cons.prems(3) by auto
  have old: "\<forall>x \<in> set ss. get_schedule (sc_id x) db = Some x" using Cons.prems(2) by (meson list.set_intros(2))
  have s: "get_schedule (sc_id s) db = Some s" using Cons.prems(2) by (meson list.set_intros(1))
  show ?case
  proof (cases "sc_last_run s")
    case None
    then have r: "fill_next_runs cron now ss (cands @ [Some now]) db = Inr (cands', db')" using Cons.prems(1) by simp
    have "?C (cands @ [Some now]) db ss" by (rule Cons.IH [OF r old d])
    then show ?thesis using None n s by (simp add: image_iff)
  next
    case (Some t)
    then obtain m where m: "compute_next_run cron (sc_cron_expression s) t = Inr m" using Cons.prems(1) by (auto elim!: and_then_okE)
    show ?thesis
    proof (cases m)
      case None
      then have r: "fill_next_runs cron now ss cands db = Inr (cands', db')" using Cons.prems(1) Some m by simp
      have "?C cands db ss" by (rule Cons.IH [OF r old d])
      then show ?thesis using None Some m n s by (simp add: image_iff)
    next
      case (Some v)
      let ?db = "put_schedule (s\<lparr>sc_next_run := Some v\<rparr>) db"
      have r: "fill_next_runs cron now ss (cands @ [Some (max now v)]) ?db = Inr (cands', db')"
        using Cons.prems(1) \<open>sc_last_run s = Some t\<close> m Some by simp
      have old': "\<forall>x \<in> set ss. get_schedule (sc_id x) ?db = Some x"
        using old n by (simp add: get_put_schedule image_iff) metis
      have c: "?C (cands @ [Some (max now v)]) ?db ss" by (rule Cons.IH [OF r old' d])
      have "get_schedule (sc_id s) db' = Some (s\<lparr>sc_next_run := Some v\<rparr>)" using c n s by (simp add: get_put_schedule)
      moreover have "\<forall>i. i \<notin> sc_id ` set (s # ss) \<longrightarrow> get_schedule i db' = get_schedule i db"
        using c by (simp add: get_put_schedule)
      ultimately show ?thesis using c \<open>sc_last_run s = Some t\<close> m Some by simp
    qed
  qed
qed simp

lemma finish_scan_listed:
  assumes "finish_schedule_scan cfg now ns g due ids db = Inr db'" and "distributed_runtime_enabled cfg" and "sql_le due t"
  shows "namespace_listed ns K_SCHEDULE t db'"
proof -
  obtain rows gen upd where w: "work_rows db' = update_where (\<lambda>r. nw_namespace r = ns \<and> nw_kind r = K_SCHEDULE \<and> nw_generation r = gen) upd rows"
      "\<And>r. nw_due_at (upd r) = due \<and> nw_namespace (upd r) = nw_namespace r \<and> nw_kind (upd r) = nw_kind r"
      "rowcount (\<lambda>r. nw_namespace r = ns \<and> nw_kind r = K_SCHEDULE \<and> nw_generation r = gen) rows \<noteq> 0"
    using assms(1,2) by (auto simp: finish_schedule_scan_def Let_def split: if_splits)
  from w(3) obtain r where r: "r \<in> set rows" "nw_namespace r = ns \<and> nw_kind r = K_SCHEDULE \<and> nw_generation r = gen"
    by (auto simp: rowcount_0_iff)
  then have "upd r \<in> set (work_rows db')" unfolding w(1) set_update_where by force
  then show ?thesis using r(2) w(2) [of r] assms(3) unfolding namespace_listed_iff work_row_due_def by auto
qed

lemma finish_scan_datasources:
  "finish_schedule_scan cfg t ns g due ids db = Inr db' \<Longrightarrow> datasources db' = datasources db"
  by (auto simp: finish_schedule_scan_def delete_wakes_def Let_def split: if_splits option.splits)

lemma lease_due_bound:
  assumes "s \<in> set (schedules db)" and "sc_enabled s" and "\<not> has_inflight_build_for_schedule (sc_id s) db"
    and "\<not> lease_free now s" and "sc_lease_expires_at s \<noteq> None" and "lease_takeable t [] s"
  shows "\<exists>d. lease_due now db = Some d \<and> d \<le> t"
proof -
  obtain e where e: "sc_lease_expires_at s = Some e" "now < e" "e \<le> t" "sc_lease_owner s \<noteq> None"
    using assms(4-6) by (auto simp: lease_free_def lease_takeable_def sql_in_def split: option.splits)
  have "Some e \<in> set (map (\<lambda>s. if sql_gt (sc_lease_expires_at s) now then sc_lease_expires_at s else Some now)
      (filter (\<lambda>s. sc_enabled s \<and> sc_lease_owner s \<noteq> None \<and> sc_lease_expires_at s \<noteq> None \<and>
                    \<not> has_inflight_build_for_schedule (sc_id s) db) (schedules db)))"
    using assms(1-3) e by force
  from sql_min_lower [OF this] show ?thesis using e(3) by (auto simp: lease_due_def)
qed

lemma next_cron_bound:
  assumes "s \<in> set (schedules db)" and "eligible_cron db s" and "lease_free now s" and "sc_next_run s = Some n"
  shows "\<exists>d. next_cron now db = Some d \<and> d \<le> n"
  unfolding next_cron_def by (rule sql_min_lower) (use assms in force)

lemma next_due_bound:
  assumes f: "next_schedule_namespace_due_at cron now db = Inr (due, db')" and u: "unique_by sc_id (schedules db)"
    and s: "s \<in> set (schedules db')" and e: "eligible_cron db' s" and l: "sc_lease_owner s = None \<or> sc_lease_expires_at s \<noteq> None"
    and t: "now \<le> t" and take: "lease_takeable t [] s" and d: "schedule_due cron wall t db' s = Inr True"
  shows "sql_le due t"
proof -
  let ?m = "filter (\<lambda>s. eligible_cron db s \<and> sc_next_run s = None \<and> lease_free now s) (schedules db)"
  from f obtain cands where fill: "fill_next_runs cron now ?m [next_cron now db, lease_due now db] db = Inr (cands, db')" and due: "due = sql_min cands"
    by (auto simp: next_schedule_namespace_due_at_def Let_def elim!: and_then_okE)
  have "\<forall>s \<in> set ?m. get_schedule (sc_id s) db = Some s" using u by (auto simp: get_schedule_def get_row_unique)
  moreover have "distinct (map sc_id ?m)" using u by (auto simp: unique_by_def distinct_map_filter)
  ultimately have c: "set [next_cron now db, lease_due now db] \<subseteq> set cands"
      "\<forall>i. i \<notin> sc_id ` set ?m \<longrightarrow> get_schedule i db' = get_schedule i db"
      "\<forall>s \<in> set ?m. (sc_last_run s = None \<longrightarrow> Some now \<in> set cands \<and> get_schedule (sc_id s) db' = Some s) \<and>
       (\<forall>t. sc_last_run s = Some t \<longrightarrow> (\<exists>n. compute_next_run cron (sc_cron_expression s) t = Inr n \<and>
          (case n of None \<Rightarrow> get_schedule (sc_id s) db' = Some s
           | Some v \<Rightarrow> get_schedule (sc_id s) db' = Some (s\<lparr>sc_next_run := Some v\<rparr>) \<and> Some (max now v) \<in> set cands)))"
    using fill_next_runs_facts [OF fill] by blast+
  have low: "Some x \<in> set cands \<Longrightarrow> x \<le> t \<Longrightarrow> sql_le due t" for x
    using sql_min_lower [of x cands] due by force
  have m: "list_all2 schedule_move (schedules db) (schedules db')" and rr: "runs db' = runs db" using next_due_moves [OF f u] by auto
  have u': "unique_by sc_id (schedules db')" using schedule_moves_unique [OF m] u by simp
  then have gs: "get_schedule (sc_id s) db' = Some s" using s by (simp add: get_schedule_def get_row_unique)
  show ?thesis
  proof (cases "sc_id s \<in> sc_id ` set ?m")
    case False
    then have "get_schedule (sc_id s) db = Some s" using c(2) gs by simp
    then have sd: "s \<in> set (schedules db)" by (auto simp: get_schedule_def dest: get_row_SomeD)
    have el: "eligible_cron db s" using e rr by (simp add: eligible_cron_def has_inflight_build_for_schedule_def)
    show ?thesis
    proof (cases "lease_free now s")
      case True
      then obtain n where n: "sc_next_run s = Some n" using False sd el by (cases "sc_next_run s") (auto simp: image_iff)
      moreover have "n \<le> t" using d n e by (auto simp: schedule_due_def eligible_cron_def Let_def truthy_def split: if_splits)
      moreover obtain x where "next_cron now db = Some x" "x \<le> n" using next_cron_bound [OF sd el True n] by blast
      ultimately show ?thesis using low [of x] c(1) by simp
    next
      case False
      then obtain x where "lease_due now db = Some x" "x \<le> t"
        using lease_due_bound [OF sd _ _ False _ take] el l by (auto simp: eligible_cron_def lease_free_def)
      then show ?thesis using low [of x] c(1) by simp
    qed
  next
    case True
    then obtain s0 where s0: "s0 \<in> set ?m" "sc_id s0 = sc_id s" by auto
    show ?thesis
    proof (cases "sc_last_run s0")
      case None
      then show ?thesis using c(3) s0(1) low [of now] t by blast
    next
      case (Some t0)
      then obtain n where n: "compute_next_run cron (sc_cron_expression s0) t0 = Inr n"
          "case n of None \<Rightarrow> get_schedule (sc_id s0) db' = Some s0
           | Some v \<Rightarrow> get_schedule (sc_id s0) db' = Some (s0\<lparr>sc_next_run := Some v\<rparr>) \<and> Some (max now v) \<in> set cands"
        using c(3) s0(1) by blast
      show ?thesis
      proof (cases n)
        case None
        then have "sc_cron_expression s0 = []" using n(1) by (auto simp: compute_next_run_def elim!: and_then_okE split: if_splits)
        moreover have "get_schedule (sc_id s0) db' = Some s0" using n(2) None by simp
        then have "s = s0" using gs s0(2) by (metis option.inject)
        ultimately have "sc_cron_expression s = []" "sc_next_run s = None" using s0(1) by simp_all
        then have "schedule_due cron wall t db' s \<noteq> Inr True" using e by (simp add: schedule_due_def eligible_cron_def should_run_def Let_def truthy_def)
        then show ?thesis using d by simp
      next
        case (Some v)
        then have nv: "get_schedule (sc_id s0) db' = Some (s0\<lparr>sc_next_run := Some v\<rparr>)" "Some (max now v) \<in> set cands" using n(2) by simp_all
        then have sv: "s = s0\<lparr>sc_next_run := Some v\<rparr>" using gs s0(2) by (metis option.inject)
        then have "sc_next_run s = Some v" by simp
        then have "v \<le> t" using d e by (simp add: schedule_due_def eligible_cron_def Let_def truthy_def split: if_splits)
        then show ?thesis using low [OF nv(2)] t by simp
      qed
    qed
  qed
qed

text \<open>C33: no cron schedule is lost. After a finished scan, at every later time at which a schedule of the
  namespace without a trigger is due and free to be claimed, the namespace is listed for a scan,
  either by the marker that the scan published or by a wake that came in since.\<close>

theorem cron_schedule_stays_listed:
  assumes fin: "finish_schedule_work_scan cfg cron tx now ns g ids db = Inr db'"
    and cfg: "distributed_runtime_enabled cfg" and inv: "schedule_inv db"
    and s: "s \<in> set (schedules db')" "eligible_cron db' s" "sc_lease_owner s = None \<or> sc_lease_expires_at s \<noteq> None"
    and t: "now \<le> t" and free: "lease_takeable t [] s" and due: "schedule_due cron wall t db' s = Inr True"
  shows "namespace_listed ns K_SCHEDULE t db'"
proof -
  from fin obtain due_at db1 where f: "next_schedule_namespace_due_at cron now db = Inr (due_at, db1)"
      "finish_schedule_scan cfg (tx_stmt tx) ns g due_at ids db1 = Inr db'"
    by (auto simp: finish_schedule_work_scan_def elim!: and_then_okE)
  note fr = finish_scan_frames [OF f(2)]
  have e1: "eligible_cron db1 s" using s(2) fr by (simp add: eligible_cron_def has_inflight_build_for_schedule_def)
  have "schedule_due cron wall t db1 s = schedule_due cron wall t db' s"
    using e1 s(2) fr finish_scan_datasources [OF f(2)]
    by (simp add: schedule_due_def eligible_cron_def Let_def truthy_def)
  then have "sql_le due_at t"
    using next_due_bound [OF f(1) schedule_inv_unique [OF inv] _ e1 s(3) t free] s(1) fr due by simp
  then show ?thesis by (rule finish_scan_listed [OF f(2) cfg])
qed

subsection \<open>Finished builds\<close>

text \<open>A finished build settles its schedule. Applying a terminal build of the last trigger releases the
  lease; a completed build sets the last run, the last success and the next cron time, any other one
  only the last failure; applying it again changes nothing.\<close>

theorem reconciliation_settles_schedule:
  assumes inv: "schedule_inv db" and r: "get_build_run bid db = Some r" "run_is_terminal (run_status r)" "run_schedule_id r = Some sid"
    and s: "get_schedule sid db = Some s" "\<not> sql_gt (sc_last_triggered_at s) (run_created_at r)"
    and ap: "apply_schedule_run_reconciliation cron now bid db = Inr (x, db')"
  shows "\<exists>s'. get_schedule sid db' = Some s' \<and> sc_lease_owner s' = None \<and> run_applied s' r \<and>
    sc_lease_generation s' = sc_lease_generation s \<and>
    (x = None \<longrightarrow> db' = db) \<and>
    (x \<noteq> None \<and> run_status r = BR_COMPLETED \<longrightarrow> sc_last_success_at s' = Some (run_finished_at r) \<and>
       compute_next_run cron (sc_cron_expression s) now = Inr (sc_next_run s')) \<and>
    (x \<noteq> None \<and> run_status r \<noteq> BR_COMPLETED \<longrightarrow> sc_next_run s' = sc_next_run s \<and> sc_last_failure_at s' = Some (run_finished_at r)) \<and>
    apply_schedule_run_reconciliation cron now' bid db' = Inr (None, db')"
proof -
  have sid: "sc_id s = sid" using s(1) by (auto simp: get_schedule_def dest: get_row_SomeD)
  have bid: "run_id r = bid" using r(1) by (auto simp: get_build_run_def dest: get_row_SomeD)
  show ?thesis
  proof (cases "sc_lease_owner s = None \<and> run_applied s r")
    case True
    then have "x = None" "db' = db" using ap r s by (auto simp: apply_schedule_run_reconciliation_def)
    then show ?thesis using True r s ap by (auto simp: apply_schedule_run_reconciliation_def)
  next
    case False
    show ?thesis
    proof (cases "run_status r = BR_COMPLETED")
      case True
      then obtain n where n: "compute_next_run cron (sc_cron_expression s) now = Inr n"
          "x = Some ((release_lease s)\<lparr>sc_last_run := Some (run_finished_at r), sc_last_success_at := Some (run_finished_at r),
             sc_last_successful_build_id := Some (run_id r), sc_next_run := n\<rparr>)" "db' = put_schedule (the x) db"
        using ap r s False by (auto simp: apply_schedule_run_reconciliation_def elim!: and_then_okE)
      then have g: "get_schedule sid db' = x" using s(1) sid by (simp add: get_put_schedule release_lease_def)
      have b: "get_build_run bid db' = Some r" using n(3) r(1) by (simp add: get_build_run_def)
      show ?thesis using g b n(1,2) True r(2,3) s(2) bid
        by (auto simp: apply_schedule_run_reconciliation_def run_applied_def release_lease_def)
    next
      case nc: False
      have x: "x = Some ((release_lease s)\<lparr>sc_last_failure_at := Some (run_finished_at r)\<rparr>)" "db' = put_schedule (the x) db"
        using ap r s False nc by (auto simp: apply_schedule_run_reconciliation_def)
      then have g: "get_schedule sid db' = x" using s(1) sid by (simp add: get_put_schedule release_lease_def)
      have b: "get_build_run bid db' = Some r" using x(2) r(1) by (simp add: get_build_run_def)
      show ?thesis using g b x(1) nc r(2,3) s(2)
        by (auto simp: apply_schedule_run_reconciliation_def run_applied_def release_lease_def)
    qed
  qed
qed

subsection \<open>A replaced claim in a batch\<close>

text \<open>C34: one replaced claim ends the whole scan. When the claim of a schedule was taken over before its
  builds are enqueued, recording the failure raises as well, so the rest of the claimed batch is
  dropped and the scan is not finished.\<close>

theorem replaced_claim_ends_batch:
  assumes "sc_claim_token s = Some tok" and "get_schedule (sc_id s) (env 0 db) = Some s'"
    and "sc_claim_token s' \<noteq> Some tok \<or> sc_lease_generation s' \<noteq> sc_lease_generation s"
  shows "\<exists>m. run_claimed cfg rep norm ns worker steps env (s # ss) db out = Inl (ValueError m)"
proof -
  have "mark_schedule_enqueue_failed cfg tx ns now (sc_id s) tok (sc_lease_generation s) (env 0 db) =
      Inl (ValueError (''Schedule '' @ sc_id s @ '' claim was replaced''))" for tx now
    using assms by (simp add: mark_schedule_enqueue_failed_def)
  moreover have "\<exists>m. enqueue_schedule_run cfg rep norm ids ns now (sc_id s) worker tok (sc_lease_generation s) (env 0 db) = Inl (ValueError m)" for ids now
    using assms by (auto simp: enqueue_schedule_run_def schedule_claim_live_def)
  ultimately show ?thesis using assms(1)
    by (auto simp: Let_def split: sum.split) (metis sum.distinct(1))
qed

subsection \<open>A quiet scan\<close>

text \<open>Nothing but the scan itself changes the database, no row is locked and the tokens are new.\<close>

fun quiet_pages :: "'a schedule_db_scheme scan_page list \<Rightarrow> string set \<Rightarrow> bool" where
  "quiet_pages [] used \<longleftrightarrow> True"
| "quiet_pages (pg # pgs) used \<longleftrightarrow>
     (\<forall>db. sp_before pg db = db) \<and> (\<forall>db. sp_between pg db = db) \<and> (\<forall>i. \<not> sp_locked pg i) \<and> inj (sp_tokens pg) \<and>
     range (sp_tokens pg) \<inter> used = {} \<and> quiet_pages pgs (used \<union> range (sp_tokens pg))"

definition unleased :: "schedule \<Rightarrow> schedule" where
  "unleased s = s\<lparr>sc_lease_owner := None, sc_claim_token := None, sc_lease_generation := 0, sc_lease_expires_at := None,
                  sc_attempts := 0, sc_last_claimed_at := None\<rparr>"

lemma unleased_eqD:
  assumes "unleased a = unleased b"
  shows "sc_id a = sc_id b" "due_key a = due_key b" "sc_last_success_at a = sc_last_success_at b"
proof -
  have "sc_id (unleased a) = sc_id (unleased b)" "due_key (unleased a) = due_key (unleased b)"
    "sc_last_success_at (unleased a) = sc_last_success_at (unleased b)" using assms by simp_all
  then show "sc_id a = sc_id b" "due_key a = due_key b" "sc_last_success_at a = sc_last_success_at b"
    by (simp_all add: unleased_def due_key_def)
qed

text \<open>The database after some claims of the scan: the rows in \<open>claimed\<close> changed their lease columns only, all
  others are as they were.\<close>

definition scanned :: "'a schedule_db_scheme \<Rightarrow> string list \<Rightarrow> string set \<Rightarrow> 'a schedule_db_scheme \<Rightarrow> bool" where
  "scanned db0 claimed used db \<longleftrightarrow>
     runs db = runs db0 \<and> datasources db = datasources db0 \<and>
     list_all2 (\<lambda>a b. unleased a = unleased b \<and> (sc_id a \<notin> set claimed \<longrightarrow> b = a)) (schedules db0) (schedules db) \<and>
     (\<forall>s \<in> set (schedules db). \<forall>tok. sc_claim_token s = Some tok \<longrightarrow> tok \<in> used)"

lemma scanned_ids: "scanned db0 claimed used db \<Longrightarrow> map sc_id (schedules db) = map sc_id (schedules db0)"
proof -
  assume "scanned db0 claimed used db"
  then have "list_all2 (\<lambda>a b. unleased a = unleased b \<and> (sc_id a \<notin> set claimed \<longrightarrow> b = a)) (schedules db0) (schedules db)" by (simp add: scanned_def)
  then show ?thesis by (induction rule: list_all2_induct) (auto dest: unleased_eqD)
qed

lemma scanned_unique: "scanned db0 claimed used db \<Longrightarrow> unique_by sc_id (schedules db0) \<Longrightarrow> unique_by sc_id (schedules db)"
  using scanned_ids [of db0 claimed used db] by (simp add: unique_by_def)

lemma scanned_unclaimed:
  assumes "scanned db0 claimed used db" and "sc_id s \<notin> set claimed"
  shows "s \<in> set (schedules db) \<longleftrightarrow> s \<in> set (schedules db0)"
proof -
  have "list_all2 (\<lambda>a b. unleased a = unleased b \<and> (sc_id a \<notin> set claimed \<longrightarrow> b = a)) (schedules db0) (schedules db)"
    using assms(1) by (simp add: scanned_def)
  then show ?thesis using assms(2)
  proof (induction rule: list_all2_induct)
    case (Cons a as b bs)
    then show ?case using unleased_eqD(1) [of a b] by auto
  qed simp
qed

lemma scanned_due:
  assumes "scanned db0 claimed used db" and "unique_by sc_id (schedules db0)"
  shows "schedule_due cron wall now db s = schedule_due cron wall now db0 s"
proof -
  have l: "list_all2 (\<lambda>a b. unleased a = unleased b) (schedules db0) (schedules db)"
    using assms(1) by (auto simp: scanned_def elim!: list_all2_mono)
  have rel: "rel_option (\<lambda>a b. unleased a = unleased b) (get_schedule i db0) (get_schedule i db)" for i
    unfolding get_schedule_def by (rule get_row_rel [OF l]) (auto dest: unleased_eqD)
  have "dependency_success i db = dependency_success i db0" for i
  proof (cases "get_schedule i db0")
    case (Some a)
    then obtain b where "get_schedule i db = Some b" "unleased a = unleased b" using rel [of i] by (auto simp: option_rel_Some1)
    then show ?thesis using Some unleased_eqD(3) [of a b] by (simp add: dependency_success_def)
  next
    case None
    then have "get_schedule i db = None" using rel [of i] by simp
    then show ?thesis using None by (simp add: dependency_success_def)
  qed
  moreover have "latest_completed_at i db = latest_completed_at i db0" for i
    using assms(1) by (simp add: latest_completed_at_def scanned_def)
  ultimately show ?thesis using assms(1) by (simp add: schedule_due_def scanned_def Let_def)
qed

lemma scanned_mono: "scanned db0 claimed used db \<Longrightarrow> used \<subseteq> used' \<Longrightarrow> scanned db0 claimed used' db"
  by (auto simp: scanned_def)

lemma due_candidates_filter:
  assumes "\<forall>s \<in> set ss. \<exists>b. schedule_due cron wall now db s = Inr b"
  shows "due_schedule_candidates cron wall now db ss = Inr (filter (\<lambda>s. schedule_due cron wall now db s = Inr True) ss)"
  using assms
proof (induction ss)
  case (Cons s ss)
  then obtain b where "schedule_due cron wall now db s = Inr b" by auto
  then show ?case using Cons by (cases b) auto
qed simp

lemma claim_locked_all:
  assumes "\<forall>s \<in> set rows. s \<in> set (schedules db) \<and> \<not> has_inflight_build_for_schedule (sc_id s) db"
    and "distinct (map sc_id rows)" and "scanned db0 claimed used db" and "unique_by sc_id (schedules db0)"
    and "inj toks" and "range toks \<inter> used = {}" and "sc_id ` set rows \<inter> set claimed = {}" and "length claimed < limit"
  shows "\<exists>db'. claim_locked worker now limit toks rows claimed db = Inr (claimed @ map sc_id (take (limit - length claimed) rows), db') \<and>
    scanned db0 (claimed @ map sc_id (take (limit - length claimed) rows)) (used \<union> range toks) db'"
  using assms
proof (induction rows arbitrary: toks claimed used db)
  case Nil
  then show ?case by (auto simp: scanned_def)
next
  case (Cons s ss)
  let ?P = "schedule_claim_where s" and ?v = "schedule_claim_values worker (toks 0) now"
  let ?db = "db\<lparr>schedules := update_where ?P ?v (schedules db)\<rparr>"
  have u: "unique_by sc_id (schedules db)" by (rule scanned_unique [OF Cons.prems(3,4)])
  have s: "s \<in> set (schedules db)" "\<not> has_inflight_build_for_schedule (sc_id s) db" using Cons.prems(1) by (meson list.set_intros(1))+
  have P: "r \<in> set (schedules db) \<Longrightarrow> ?P r \<longleftrightarrow> r = s" for r
    using unique_by_eq [OF u _ s(1)] by (auto simp: schedule_claim_where_def)
  have one: "rowcount ?P (schedules db) = 1"
    using rowcount_key_1 [OF u, of ?P "sc_id s"] get_row_unique [OF u s(1)] by (auto simp: schedule_claim_where_def)
  have tok: "\<not> list_ex (\<lambda>r. sc_claim_token r = Some (toks 0) \<and> \<not> ?P r) (schedules db)"
    using Cons.prems(3,6) by (auto simp: list_ex_iff scanned_def)
  have sc: "scanned db0 (claimed @ [sc_id s]) (used \<union> {toks 0}) ?db"
  proof -
    have B: "list_all2 (\<lambda>b c. unleased b = unleased c \<and> (sc_id b \<noteq> sc_id s \<longrightarrow> c = b)) (schedules db) (schedules ?db)"
      by (auto intro!: list_all2_update_where simp: unleased_def schedule_claim_values_def schedule_claim_where_def)
    have A: "list_all2 (\<lambda>a b. unleased a = unleased b \<and> (sc_id a \<notin> set claimed \<longrightarrow> b = a)) (schedules db0) (schedules db)"
      using Cons.prems(3) by (simp add: scanned_def)
    have "list_all2 (\<lambda>a c. unleased a = unleased c \<and> (sc_id a \<notin> set (claimed @ [sc_id s]) \<longrightarrow> c = a)) (schedules db0) (schedules ?db)"
      by (rule list_all2_trans [OF _ A B]) auto
    moreover have "\<forall>r \<in> set (schedules ?db). \<forall>t. sc_claim_token r = Some t \<longrightarrow> t \<in> used \<union> {toks 0}"
      using Cons.prems(3) by (auto simp: scanned_def set_update_where schedule_claim_values_def split: if_splits)
    ultimately show ?thesis using Cons.prems(3) by (simp add: scanned_def)
  qed
  have "\<forall>x \<in> set ss. x \<in> set (schedules ?db) \<and> \<not> has_inflight_build_for_schedule (sc_id x) ?db"
  proof
    fix x assume x: "x \<in> set ss"
    then have "x \<in> set (schedules db)" "\<not> has_inflight_build_for_schedule (sc_id x) db" using Cons.prems(1) by (meson list.set_intros(2))+
    moreover have "sc_id x \<noteq> sc_id s" using Cons.prems(2) imageI [OF x, of sc_id] by auto
    ultimately show "x \<in> set (schedules ?db) \<and> \<not> has_inflight_build_for_schedule (sc_id x) ?db"
      by (auto simp: set_update_where schedule_claim_where_def has_inflight_build_for_schedule_def intro!: image_eqI [of _ _ x])
  qed
  moreover have "inj (\<lambda>n. toks (Suc n))" using Cons.prems(5) by (auto simp: inj_def)
  moreover have "range (\<lambda>n. toks (Suc n)) \<inter> (used \<union> {toks 0}) = {}" using Cons.prems(5,6) rangeI [of toks] by (fastforce simp: inj_def)
  moreover have "sc_id ` set ss \<inter> set (claimed @ [sc_id s]) = {}" "distinct (map sc_id ss)" using Cons.prems(2,7) by auto
  ultimately have rest: "\<exists>db'. claim_locked worker now limit (\<lambda>n. toks (Suc n)) ss (claimed @ [sc_id s]) ?db =
        Inr ((claimed @ [sc_id s]) @ map sc_id (take (limit - length (claimed @ [sc_id s])) ss), db') \<and>
      scanned db0 ((claimed @ [sc_id s]) @ map sc_id (take (limit - length (claimed @ [sc_id s])) ss)) (used \<union> {toks 0} \<union> range (\<lambda>n. toks (Suc n))) db'"
    if "length (claimed @ [sc_id s]) < limit"
    using Cons.IH [OF _ _ sc Cons.prems(4) _ _ _ that, of "\<lambda>n. toks (Suc n)"] by blast
  have drawn: "used \<union> {toks 0} \<union> range (\<lambda>n. toks (Suc n)) = used \<union> range toks"
    by (auto simp: image_iff) (metis not0_implies_Suc)
  show ?case
  proof (cases "length (claimed @ [sc_id s]) < limit")
    case True
    then have "take (limit - length claimed) (s # ss) = s # take (limit - length (claimed @ [sc_id s])) ss"
      by (simp add: take_Cons' Suc_diff_Suc)
    then show ?thesis using rest [OF True] drawn s(2) one tok True by (simp add: Let_def)
  next
    case False
    then have "limit - length claimed = Suc 0" using Cons.prems(8) by simp
    moreover have "scanned db0 (claimed @ [sc_id s]) (used \<union> range toks) ?db" by (rule scanned_mono [OF sc]) auto
    ultimately show ?thesis using s(2) one tok False by (simp add: Let_def)
  qed
qed

definition past :: "(timestamp \<times> timestamp \<times> string) option \<Rightarrow> schedule \<Rightarrow> bool" where
  "past cursor s \<longleftrightarrow> (case cursor of None \<Rightarrow> True | Some c \<Rightarrow> c < due_key s)"

lemma schedule_batch_past: "schedule_batch P cursor ss = select_ordered (\<lambda>s. P s \<and> past cursor s) due_key SCHEDULE_CANDIDATE_BATCH_SIZE ss"
  by (simp add: schedule_batch_def past_def)

lemma set_batch: "s \<in> set (schedule_batch P cursor ss) \<Longrightarrow> s \<in> set ss \<and> P s \<and> past cursor s"
  using set_select_ordered [of "\<lambda>s. P s \<and> past cursor s"] by (fastforce simp: schedule_batch_past)

lemma sorted_last: "sorted (map f xs) \<Longrightarrow> x \<in> set xs \<Longrightarrow> f x \<le> f (last xs)"
proof (induction xs rule: rev_induct)
  case (snoc y ys)
  then show ?case by (auto simp: sorted_append)
qed simp

lemma batch_last: "s \<in> set (schedule_batch P cursor ss) \<Longrightarrow> due_key s \<le> due_key (last (schedule_batch P cursor ss))"
  by (rule sorted_last) (simp_all add: schedule_batch_def select_ordered_def take_map [symmetric])

text \<open>What a page takes is the stretch of the candidates between the cursor it starts at and the one it leaves.\<close>

lemma batch_stretch:
  assumes "unique_by sc_id ss" and "schedule_batch P cursor ss \<noteq> []" and "s \<in> set ss" and "P s"
  shows "s \<in> set (schedule_batch P cursor ss) \<longleftrightarrow> past cursor s \<and> \<not> past (Some (due_key (last (schedule_batch P cursor ss)))) s"
proof -
  let ?b = "schedule_batch P cursor ss"
  have l: "last ?b \<in> set ?b" using assms(2) by simp
  have "due_key (last ?b) < due_key s" if "past cursor s" "s \<notin> set ?b"
  proof -
    have "due_key (last ?b) \<le> due_key s"
      using select_ordered_rest [of s ss "\<lambda>s. P s \<and> past cursor s" due_key SCHEDULE_CANDIDATE_BATCH_SIZE "last ?b"] that l assms(3,4)
      by (simp add: schedule_batch_past)
    moreover have "due_key (last ?b) \<noteq> due_key s"
      using unique_by_eq [OF assms(1) assms(3), of "last ?b"] set_batch [OF l] l that(2) by (auto simp: due_key_def)
    ultimately show ?thesis by simp
  qed
  moreover have "past cursor s \<and> \<not> due_key (last ?b) < due_key s" if "s \<in> set ?b"
    using set_batch [OF that] batch_last [OF that] by auto
  ultimately show ?thesis by (auto simp: past_def)
qed

lemma past_mono: "past cursor l \<Longrightarrow> past (Some (due_key l)) s \<Longrightarrow> past cursor s"
  by (auto simp: past_def split: option.splits)

lemma batch_distinct: "unique_by sc_id ss \<Longrightarrow> distinct (map sc_id (schedule_batch P cursor ss))"
  by (simp add: schedule_batch_def unique_select_ordered)

lemma short_batch:
  assumes "length (schedule_batch P cursor ss) < SCHEDULE_CANDIDATE_BATCH_SIZE" and "s \<in> set ss" and "P s" and "past cursor s"
  shows "s \<in> set (schedule_batch P cursor ss)"
  using select_ordered_full [of s ss "\<lambda>s. P s \<and> past cursor s" due_key SCHEDULE_CANDIDATE_BATCH_SIZE] assms
  by (auto simp: schedule_batch_past)

definition remaining :: "(schedule \<Rightarrow> bool) \<Rightarrow> (timestamp \<times> timestamp \<times> string) option \<Rightarrow> schedule list \<Rightarrow> schedule set" where
  "remaining P cursor ss = {s \<in> set ss. P s \<and> past cursor s}"

lemma full_batch_progress:
  assumes u: "unique_by sc_id ss" and full: "\<not> length (schedule_batch P cursor ss) < SCHEDULE_CANDIDATE_BATCH_SIZE"
  shows "card (remaining P (Some (due_key (last (schedule_batch P cursor ss)))) ss) + SCHEDULE_CANDIDATE_BATCH_SIZE \<le> card (remaining P cursor ss)"
proof -
  let ?b = "schedule_batch P cursor ss" let ?c = "Some (due_key (last ?b))"
  have ne: "?b \<noteq> []" using full by (auto simp: SCHEDULE_CANDIDATE_BATCH_SIZE_def)
  have lb: "past cursor (last ?b)" using set_batch [of "last ?b" P cursor ss] ne by simp
  have "remaining P ?c ss \<union> set ?b \<subseteq> remaining P cursor ss"
    using past_mono [OF lb] set_batch [of _ P cursor ss] unfolding remaining_def by blast
  moreover have "remaining P ?c ss \<inter> set ?b = {}"
    using batch_stretch [OF u ne] unfolding remaining_def by blast
  moreover have "card (set ?b) = length ?b" using batch_distinct [OF u] by (metis distinct_card distinct_map)
  moreover have "finite (remaining P cursor ss)" "finite (remaining P ?c ss)" by (simp_all add: remaining_def)
  ultimately have "card (remaining P ?c ss) + length ?b \<le> card (remaining P cursor ss)"
    by (metis List.finite_set card_Un_disjoint card_mono)
  then show ?thesis using full by simp
qed

text \<open>The pages of a quiet scan.\<close>

definition due_now :: "cron \<Rightarrow> timestamp \<Rightarrow> timestamp \<Rightarrow> string list \<Rightarrow> 'a schedule_db_scheme \<Rightarrow> schedule \<Rightarrow> bool" where
  "due_now cron wall now reclaimable db s \<longleftrightarrow> claim_base now reclaimable db s \<and> schedule_due cron wall now db s = Inr True"

lemma scanned_base: "scanned db0 claimed used db \<Longrightarrow> claim_base now reclaimable db s = claim_base now reclaimable db0 s"
  by (simp add: claim_base_def has_inflight_build_for_schedule_def scanned_def)

lemma scanned_filter:
  assumes "list_all2 (\<lambda>a b. unleased a = unleased b \<and> (sc_id a \<notin> set claimed \<longrightarrow> b = a)) as bs"
    and "\<forall>s \<in> set as. sc_id s \<in> set claimed \<longrightarrow> \<not> past cursor s"
  shows "filter (\<lambda>s. P s \<and> past cursor s) bs = filter (\<lambda>s. P s \<and> past cursor s) as"
  using assms
proof (induction rule: list_all2_induct)
  case (Cons a as b bs)
  have "past cursor a = past cursor b" using Cons.hyps(1) unleased_eqD(2) [of a b] by (simp add: past_def split: option.split)
  then show ?case using Cons by (cases "past cursor a") auto
qed simp

lemma scanned_batch:
  assumes "scanned db0 claimed used db" and "\<forall>s \<in> set (schedules db0). sc_id s \<in> set claimed \<longrightarrow> \<not> past cursor s"
  shows "schedule_batch (claim_base now reclaimable db) cursor (schedules db) =
    schedule_batch (claim_base now reclaimable db0) cursor (schedules db0)"
  using scanned_filter [of claimed "schedules db0" "schedules db" cursor] assms scanned_base [OF assms(1)]
  unfolding schedule_batch_past select_ordered_def by (simp add: scanned_def)

lemma unlocked_page_rows:
  assumes u: "unique_by sc_id (schedules db)" and due: "set due \<subseteq> set (schedules db)" "distinct (map sc_id due)"
    and base: "\<forall>s \<in> set due. claim_base now reclaimable db s" and n: "length due \<le> SCHEDULE_CANDIDATE_BATCH_SIZE"
  shows "set (page_locked_rows now reclaimable (\<lambda>i. False) (map sc_id due) db) = set due"
proof -
  let ?P = "\<lambda>s. claim_base now reclaimable db s \<and> sc_id s \<in> set (map sc_id due) \<and> \<not> False"
  have "s \<in> set due" if s: "s \<in> set (schedules db)" "sc_id s \<in> set (map sc_id due)" for s
  proof -
    from s(2) obtain d where "d \<in> set due" "sc_id d = sc_id s" by auto
    then show ?thesis using unique_by_eq [OF u s(1), of d] due(1) by auto
  qed
  then have "{s \<in> set (schedules db). ?P s} = set due" using due(1) base by auto
  then have eq: "set (filter ?P (schedules db)) = set due" by simp
  moreover have "distinct (filter ?P (schedules db))" using u by (simp add: unique_by_def distinct_map)
  ultimately have "length (filter ?P (schedules db)) = length due" using due(2) by (metis distinct_card distinct_map)
  then show ?thesis using n eq unfolding page_locked_rows_def select_ordered_def by simp
qed

lemma quiet_pages_less: "quiet_pages pgs (used \<union> drawn) \<Longrightarrow> quiet_pages pgs used"
proof (induction pgs arbitrary: used)
  case (Cons pg pgs)
  have "used \<union> drawn \<union> range (sp_tokens pg) = used \<union> range (sp_tokens pg) \<union> drawn" by blast
  then show ?case using Cons.prems Cons.IH [of "used \<union> range (sp_tokens pg)"] by auto
qed simp

lemma quiet_page:
  fixes db0 :: "'a schedule_db_scheme"
  defines "C \<equiv> (\<lambda>now reclaimable. claim_base now reclaimable db0)"
  assumes u: "unique_by sc_id (schedules db0)" and sc: "scanned db0 claimed used db"
    and cl: "\<forall>s \<in> set (schedules db0). sc_id s \<in> set claimed \<longrightarrow> \<not> past cursor s"
    and dist: "distinct claimed" and lim: "length claimed < limit"
    and toks: "inj toks" "range toks \<inter> used = {}"
    and due: "due = filter (\<lambda>s. schedule_due cron wall now db0 s = Inr True) (schedule_batch (C now reclaimable) cursor (schedules db0))"
  shows "\<exists>rows db'. due_schedule_candidates cron wall now db (page_locked_rows now reclaimable (\<lambda>i. False) (map sc_id due) db) = Inr rows \<and>
    claim_locked worker now limit toks rows claimed db = Inr (claimed @ map sc_id (take (limit - length claimed) rows), db') \<and> set rows = set due \<and>
    distinct (claimed @ map sc_id rows) \<and>
    scanned db0 (claimed @ map sc_id (take (limit - length claimed) rows)) (used \<union> range toks) db'"
proof -
  let ?rows = "page_locked_rows now reclaimable (\<lambda>i. False) (map sc_id due) db"
  have udb: "unique_by sc_id (schedules db)" by (rule scanned_unique [OF sc u])
  have b: "s \<in> set (schedules db0) \<and> claim_base now reclaimable db0 s \<and> past cursor s \<and> schedule_due cron wall now db0 s = Inr True"
    if "s \<in> set due" for s using set_batch [of s] that by (auto simp: due C_def)
  have free: "sc_id s \<notin> set claimed" if "s \<in> set due" for s using b [OF that] cl by blast
  have rows: "set ?rows = set due"
  proof (rule unlocked_page_rows [OF udb])
    show "set due \<subseteq> set (schedules db)" using b free scanned_unclaimed [OF sc] by blast
    show "distinct (map sc_id due)" using batch_distinct [OF u] by (simp add: due distinct_map_filter)
    show "\<forall>s \<in> set due. claim_base now reclaimable db s" using b scanned_base [OF sc] by blast
    show "length due \<le> SCHEDULE_CANDIDATE_BATCH_SIZE"
      using le_trans [OF length_filter_le select_ordered_length] by (simp add: due schedule_batch_def)
  qed
  have all_due: "\<forall>s \<in> set ?rows. schedule_due cron wall now db s = Inr True" using b rows scanned_due [OF sc u] by auto
  then have cand: "due_schedule_candidates cron wall now db ?rows = Inr ?rows"
    using due_candidates_filter [of ?rows cron wall now db] by (auto simp: filter_id_conv)
  have drows: "distinct (map sc_id ?rows)" using unique_select_ordered [OF udb] by (simp add: page_locked_rows_def)
  have fresh: "sc_id ` set ?rows \<inter> set claimed = {}" using free rows by auto
  have new: "distinct (claimed @ map sc_id ?rows)" using dist drows fresh by auto
  have "\<forall>s \<in> set ?rows. s \<in> set (schedules db) \<and> \<not> has_inflight_build_for_schedule (sc_id s) db"
    using b rows free scanned_unclaimed [OF sc] scanned_base [OF sc] by (metis claim_base_def)
  note claim_locked_all [OF this drows sc u toks fresh lim, of worker now]
  then show ?thesis using cand rows new by blast
qed

text \<open>The outcome of a scan: as many distinct due schedules as the limit allows.\<close>

definition claims_due :: "(schedule \<Rightarrow> bool) \<Rightarrow> nat \<Rightarrow> schedule list \<Rightarrow> string list \<Rightarrow> bool" where
  "claims_due P limit ss claimed \<longleftrightarrow>
     distinct claimed \<and> set claimed \<subseteq> sc_id ` {s \<in> set ss. P s} \<and> length claimed = min limit (card {s \<in> set ss. P s})"

lemma card_ids: "unique_by sc_id ss \<Longrightarrow> card (sc_id ` {s \<in> set ss. P s}) = card {s \<in> set ss. P s}"
  by (rule card_image) (auto simp: inj_on_def dest: unique_by_eq)

lemma claims_due_all:
  assumes "unique_by sc_id ss" and "distinct claimed" and "set claimed = sc_id ` {s \<in> set ss. P s}" and "length claimed < limit"
  shows "claims_due P limit ss claimed"
  using assms card_ids [OF assms(1), of P] distinct_card [OF assms(2)] by (simp add: claims_due_def)

lemma claims_due_full:
  assumes "unique_by sc_id ss" and "distinct claimed" and "set claimed \<subseteq> sc_id ` {s \<in> set ss. P s}" and "length claimed = limit"
  shows "claims_due P limit ss claimed"
proof -
  have "card (set claimed) \<le> card (sc_id ` {s \<in> set ss. P s})" by (rule card_mono) (use assms(3) in auto)
  then show ?thesis using assms card_ids [OF assms(1), of P] distinct_card [OF assms(2)] by (simp add: claims_due_def)
qed

lemma quiet_pages_claim:
  fixes db0 :: "'a schedule_db_scheme"
  assumes u: "unique_by sc_id (schedules db0)"
    and comp: "\<forall>s \<in> set (schedules db0). claim_base now reclaimable db0 s \<longrightarrow> (\<exists>b. schedule_due cron wall now db0 s = Inr b)"
  shows "quiet_pages pages used \<Longrightarrow> scanned db0 claimed used db \<Longrightarrow> distinct claimed \<Longrightarrow> length claimed < limit \<Longrightarrow>
    set claimed = sc_id ` {s \<in> set (schedules db0). due_now cron wall now reclaimable db0 s \<and> \<not> past cursor s} \<Longrightarrow>
    card (remaining (claim_base now reclaimable db0) cursor (schedules db0)) < SCHEDULE_CANDIDATE_BATCH_SIZE * length pages \<Longrightarrow>
    \<exists>claimed' used' db'. claim_pages cron wall now worker reclaimable limit pages cursor claimed db = Some (Inr (claimed', db')) \<and>
      scanned db0 claimed' used' db' \<and> claims_due (due_now cron wall now reclaimable db0) limit (schedules db0) claimed'"
proof (induction pages arbitrary: used claimed db cursor)
  case (Cons pg pgs)
  let ?C = "claim_base now reclaimable db0" and ?S = "set (schedules db0)"
  let ?D = "due_now cron wall now reclaimable db0"
  let ?b = "schedule_batch ?C cursor (schedules db0)"
  let ?due = "filter (\<lambda>s. schedule_due cron wall now db0 s = Inr True) ?b"
  let ?c = "Some (due_key (last ?b))"
  let ?next = "\<lambda>claimed db'. if length ?b < SCHEDULE_CANDIDATE_BATCH_SIZE then Some (Inr (claimed, db'))
                else claim_pages cron wall now worker reclaimable limit pgs ?c claimed db'"
  note q = Cons.prems(1) and sc = Cons.prems(2) and dist = Cons.prems(3) and lim = Cons.prems(4) and cl = Cons.prems(5) and few = Cons.prems(6)
  have old: "\<forall>s \<in> ?S. sc_id s \<in> set claimed \<longrightarrow> \<not> past cursor s"
    using cl unique_by_eq [OF u] by (auto simp: image_iff)
  have batch: "schedule_batch (claim_base now reclaimable db) cursor (schedules db) = ?b" by (rule scanned_batch [OF sc old])
  have cand: "due_schedule_candidates cron wall now db ?b = Inr ?due"
    using due_candidates_filter [of ?b cron wall now db] comp set_batch [of _ ?C cursor "schedules db0"]
    by (simp add: scanned_due [OF sc u])
  have due: "{s \<in> ?S. ?D s \<and> past cursor s} \<inter> set ?b = set ?due" using set_batch [of _ ?C cursor "schedules db0"] by (auto simp: due_now_def)
  have go: "\<exists>claimed'' used' db''. ?next claimed' db' = Some (Inr (claimed'', db'')) \<and> scanned db0 claimed'' used' db'' \<and>
      claims_due ?D limit (schedules db0) claimed''"
    if b: "?b \<noteq> []" and used': "quiet_pages pgs used'" and sc': "scanned db0 claimed' used' db'" and dist': "distinct claimed'" and lim': "length claimed' < limit"
      and cl': "set claimed' = set claimed \<union> sc_id ` set ?due" for claimed' used' db'
  proof (cases "length ?b < SCHEDULE_CANDIDATE_BATCH_SIZE")
    case True
    then have "{s \<in> ?S. ?D s} = {s \<in> ?S. ?D s \<and> \<not> past cursor s} \<union> set ?due"
      using short_batch [OF True] unfolding due [symmetric] due_now_def by blast
    then have "set claimed' = sc_id ` {s \<in> ?S. ?D s}" using cl' cl by (simp add: image_Un)
    then have "claims_due ?D limit (schedules db0) claimed'" by (rule claims_due_all [OF u dist' _ lim'])
    then show ?thesis using True sc' by auto
  next
    case False
    have lb: "past cursor (last ?b)" using set_batch [of "last ?b" ?C cursor "schedules db0"] b by simp
    have "{s \<in> ?S. ?D s \<and> \<not> past ?c s} = {s \<in> ?S. ?D s \<and> \<not> past cursor s} \<union> set ?due"
      using batch_stretch [OF u b] past_mono [OF lb] unfolding due [symmetric] due_now_def by blast
    then have "set claimed' = sc_id ` {s \<in> ?S. ?D s \<and> \<not> past ?c s}" using cl' cl by (simp add: image_Un)
    then show ?thesis using Cons.IH [OF used' sc' dist' lim'] full_batch_progress [OF u False] few False by auto
  qed
  have pg: "sp_before pg db = db" "sp_between pg db = db" "sp_locked pg = (\<lambda>i. False)" "inj (sp_tokens pg)"
      "range (sp_tokens pg) \<inter> used = {}" "quiet_pages pgs (used \<union> range (sp_tokens pg))" using q by auto
  consider "?b = []" | "?b \<noteq> []" "?due = []" | "?b \<noteq> []" "?due \<noteq> []" by blast
  then show ?case
  proof cases
    case 1
    then have "{s \<in> ?S. ?D s} = {s \<in> ?S. ?D s \<and> \<not> past cursor s}"
      using short_batch [of ?C cursor "schedules db0"] by (auto simp: due_now_def SCHEDULE_CANDIDATE_BATCH_SIZE_def)
    then have "claims_due ?D limit (schedules db0) claimed" using claims_due_all [OF u dist _ lim] cl by simp
    then show ?thesis using 1 sc pg by (auto simp: Let_def batch)
  next
    case 2
    have "quiet_pages pgs used" using pg(6) quiet_pages_less by blast
    then have "\<exists>claimed'' used' db''. ?next claimed db = Some (Inr (claimed'', db'')) \<and> scanned db0 claimed'' used' db'' \<and>
      claims_due ?D limit (schedules db0) claimed''" using go [OF 2(1) _ sc dist lim] 2(2) by simp
    moreover have "claim_pages cron wall now worker reclaimable limit (pg # pgs) cursor claimed db = ?next claimed db"
      using pg(1) cand 2 by (simp add: Let_def batch)
    ultimately show ?thesis by (simp only:)
  next
    case 3
    obtain rows db' where r: "due_schedule_candidates cron wall now db (page_locked_rows now reclaimable (\<lambda>i. False) (map sc_id ?due) db) = Inr rows"
        "claim_locked worker now limit (sp_tokens pg) rows claimed db = Inr (claimed @ map sc_id (take (limit - length claimed) rows), db')"
        "set rows = set ?due" "distinct (claimed @ map sc_id rows)"
        "scanned db0 (claimed @ map sc_id (take (limit - length claimed) rows)) (used \<union> range (sp_tokens pg)) db'"
      using quiet_page [OF u sc old dist lim pg(4,5) refl, of cron wall now reclaimable worker] by blast
    let ?new = "claimed @ map sc_id (take (limit - length claimed) rows)"
    have step: "claim_pages cron wall now worker reclaimable limit (pg # pgs) cursor claimed db =
        (if limit \<le> length ?new then Some (Inr (?new, db')) else ?next ?new db')"
    proof -
      obtain d ds where e: "?due = d # ds" using 3(2) by (cases ?due) auto
      show ?thesis using pg(1-3) cand [unfolded e] r(1) [unfolded e] r(2) 3(1) lim by (simp add: Let_def batch)
    qed
    have dnew: "distinct ?new" using r(4) by (auto simp: distinct_map dest: in_set_takeD inj_on_subset [OF _ set_take_subset])
    show ?thesis
    proof (cases "limit \<le> length ?new")
      case True
      have "set ?new \<subseteq> set claimed \<union> sc_id ` set ?due" using r(3) by (auto dest: in_set_takeD)
      also have "\<dots> \<subseteq> sc_id ` {s \<in> ?S. ?D s}" unfolding cl due [symmetric] by blast
      finally have "claims_due ?D limit (schedules db0) ?new" by (rule claims_due_full [OF u dnew]) (use True lim in auto)
      then show ?thesis using step True r(5) by auto
    next
      case False
      then have "take (limit - length claimed) rows = rows" using lim by auto
      then have all: "?new = claimed @ map sc_id rows" by simp
      have "set ?new = set claimed \<union> sc_id ` set ?due" unfolding all using r(3) by simp
      note go [OF 3(1) pg(6) r(5) dnew not_le_imp_less [OF False] this]
      moreover have "claim_pages cron wall now worker reclaimable limit (pg # pgs) cursor claimed db = ?next ?new db'" by (rule trans [OF step if_not_P [OF False]])
      ultimately show ?thesis by (simp only:)
    qed
  qed
qed simp

text \<open>C32: a scan completes and passes over nothing. On a quiet database, where only the scan itself commits, no row is
  locked and the drawn tokens are new, with readable due conditions and enough pages for its schedules, the keyset scan of
  \<open>claim_due_schedules\<close> ends for every limit of at least one. It claims schedules that were claimable and due when it
  began, each of them once, and as many as there are up to the limit: all of them when at most that many were due.\<close>

theorem quiet_scan_claims_all_due:
  fixes db :: "'a schedule_db_scheme"
  assumes "quiet_pages pages {tok. Some tok \<in> sc_claim_token ` set (schedules db)}"
    and "unique_by sc_id (schedules db)" and "1 \<le> limit"
    and "length (schedules db) < SCHEDULE_CANDIDATE_BATCH_SIZE * length pages"
    and "\<forall>s \<in> set (schedules db). claim_base now reclaimable db s \<longrightarrow> \<not> isl (schedule_due cron wall now db s)"
    and due: "due = {s \<in> set (schedules db). claim_base now reclaimable db s \<and> schedule_due cron wall now db s = Inr True}"
  shows "\<exists>ss db'. claim_due_schedules cron wall now worker reclaimable limit pages db = Some (Inr (ss, db')) \<and>
    distinct (map sc_id ss) \<and> sc_id ` set ss \<subseteq> sc_id ` due \<and> length ss = min limit (card due) \<and>
    (card due \<le> limit \<longrightarrow> sc_id ` set ss = sc_id ` due)"
proof -
  have "card (remaining (claim_base now reclaimable db) None (schedules db)) \<le> length (schedules db)"
    by (rule le_trans [OF card_mono card_length]) (auto simp: remaining_def)
  then have few: "card (remaining (claim_base now reclaimable db) None (schedules db)) < SCHEDULE_CANDIDATE_BATCH_SIZE * length pages"
    using assms(4) by simp
  have sc: "scanned db [] {tok. Some tok \<in> sc_claim_token ` set (schedules db)} db"
    by (auto simp: scanned_def list_all2_same image_iff intro: sym)
  have comp: "\<forall>s \<in> set (schedules db). claim_base now reclaimable db s \<longrightarrow> (\<exists>b. schedule_due cron wall now db s = Inr b)"
    using assms(5) by (auto simp: isl_def) (metis sumE)
  have "0 < limit" using assms(3) by simp
  then obtain ids used db' where r: "claim_pages cron wall now worker reclaimable limit pages None [] db = Some (Inr (ids, db'))"
      "scanned db ids used db'" "claims_due (due_now cron wall now reclaimable db) limit (schedules db) ids"
    using quiet_pages_claim [OF assms(2) comp assms(1) sc, of limit None worker] few by (auto simp: past_def)
  have due': "{s \<in> set (schedules db). due_now cron wall now reclaimable db s} = due" by (simp add: due due_now_def)
  have ids: "distinct ids" "set ids \<subseteq> sc_id ` due" "length ids = min limit (card due)" using r(3) by (simp_all add: claims_due_def due')
  have all: "set ids = sc_id ` due" if "card due \<le> limit"
  proof (rule card_subset_eq [OF _ ids(2)])
    show "finite (sc_id ` due)" by (simp add: due)
    show "card (set ids) = card (sc_id ` due)"
      using card_ids [OF assms(2), of "due_now cron wall now reclaimable db"] ids that distinct_card [OF ids(1)] by (simp add: due')
  qed
  have "get_schedule i db' = Some (the (get_schedule i db')) \<and> sc_id (the (get_schedule i db')) = i" if "i \<in> set ids" for i
  proof -
    have "i \<in> set (map sc_id (schedules db'))" using that ids(2) scanned_ids [OF r(2)] by (auto simp: due)
    then obtain s where "s \<in> set (schedules db')" "sc_id s = i" by auto
    then show ?thesis using get_row_unique [OF scanned_unique [OF r(2) assms(2)]] by (auto simp: get_schedule_def)
  qed
  then have ret: "map sc_id (map (\<lambda>i. the (get_schedule i db')) ids) = ids" by (simp add: map_idI)
  obtain ss where ss: "ss = map (\<lambda>i. the (get_schedule i db')) ids" by simp
  have "map sc_id ss = ids" using ret by (simp only: ss)
  then have "sc_id ` set ss = set ids" "distinct (map sc_id ss)" "length ss = length ids" using ids(1) by (metis set_map, simp, metis length_map)
  moreover have "claim_due_schedules cron wall now worker reclaimable limit pages db = Some (Inr (ss, db'))"
    using r(1) assms(3) by (simp add: claim_due_schedules_def ss)
  ultimately show ?thesis using ids(2,3) all by metis
qed

subsection \<open>Examples\<close>

definition scanned_schedules :: schedule_db where
  "scanned_schedules = projr (finish_schedule_work_scan example_settings example_cron (example_txn 3 ''x'') 3 ''n'' 0 [] example_schedules)"

theorem cron_schedule_stays_listed_witness: "namespace_listed ''n'' K_SCHEDULE 7 scanned_schedules"
proof (rule cron_schedule_stays_listed)
  show "finish_schedule_work_scan example_settings example_cron (example_txn 3 ''x'') 3 ''n'' 0 [] example_schedules = Inr scanned_schedules"
    unfolding scanned_schedules_def by code_simp
  show "distributed_runtime_enabled example_settings" by code_simp
  show "schedule_inv example_schedules" by (rule example_schedules_inv)
  show "example_schedule \<in> set (schedules scanned_schedules)" by code_simp
  show "eligible_cron scanned_schedules example_schedule" by code_simp
  show "sc_lease_owner example_schedule = None \<or> sc_lease_expires_at example_schedule \<noteq> None" by code_simp
  show "(3 :: int) \<le> 7" by simp
  show "lease_takeable 7 [] example_schedule" by code_simp
  show "schedule_due example_cron 7 7 scanned_schedules example_schedule = Inr True" by code_simp
qed

definition built_schedules :: schedule_db where
  "built_schedules = claimed_schedules\<lparr>runs := [example_run\<lparr>run_status := BR_COMPLETED, run_completed_at := Some 20\<rparr>]\<rparr>"

definition settled_schedules :: schedule_db where
  "settled_schedules = snd (projr (apply_schedule_run_reconciliation example_cron 21 ''b1'' built_schedules))"

theorem reconciliation_settles_schedule_witness:
  "map sc_lease_owner (schedules settled_schedules) = [None] \<and>
   apply_schedule_run_reconciliation example_cron 30 ''b1'' settled_schedules = Inr (None, settled_schedules)"
proof
  let ?r = "example_run\<lparr>run_status := BR_COMPLETED, run_completed_at := Some 20\<rparr>" and ?s = "hd (schedules claimed_schedules)"
  have "schedule_inv built_schedules"
    unfolding schedule_inv_def runs_inv_def triggered_ok_def unique_by_def by code_simp
  moreover have "get_build_run ''b1'' built_schedules = Some ?r" "run_is_terminal (run_status ?r)" "run_schedule_id ?r = Some ''s1''"
    "get_schedule ''s1'' built_schedules = Some ?s" "\<not> sql_gt (sc_last_triggered_at ?s) (run_created_at ?r)" by code_simp+
  moreover have "apply_schedule_run_reconciliation example_cron 21 ''b1'' built_schedules = Inr (get_schedule ''s1'' settled_schedules, settled_schedules)"
    unfolding settled_schedules_def by code_simp
  ultimately show "apply_schedule_run_reconciliation example_cron 30 ''b1'' settled_schedules = Inr (None, settled_schedules)"
    using reconciliation_settles_schedule [where now' = 30] by blast
  show "map sc_lease_owner (schedules settled_schedules) = [None]" by code_simp
qed

theorem replaced_claim_ends_batch_witness:
  "\<exists>m. run_claimed example_settings (\<lambda>_. []) (\<lambda>_ p. p) ''n'' ''w'' (\<lambda>_. \<lparr>es_ids = \<lambda>_. (''b1'', example_txn 13 ''j''), es_tx = example_txn 13 ''x'', es_now = 13\<rparr>)
     (\<lambda>_ _. failed_schedules) (schedules claimed_schedules @ [example_schedule]) claimed_schedules [] = Inl (ValueError m)"
proof -
  let ?s = "hd (schedules claimed_schedules)"
  have "sc_claim_token ?s = Some ''t1''" "get_schedule (sc_id ?s) failed_schedules = Some (hd (schedules failed_schedules))"
    "sc_claim_token (hd (schedules failed_schedules)) \<noteq> Some ''t1''" "schedules claimed_schedules = [?s]" by code_simp+
  then show ?thesis
    using replaced_claim_ends_batch [of ?s "''t1''" "\<lambda>_ _. failed_schedules" claimed_schedules "hd (schedules failed_schedules)"] by (metis append_Cons append_Nil)
qed

definition quiet_page_of :: "schedule_db scan_page" where
  "quiet_page_of = \<lparr>sp_before = id, sp_between = id, sp_locked = (\<lambda>_. False), sp_tokens = (\<lambda>n. replicate n (CHR ''t''))\<rparr>"

text \<open>Two schedules are due: with a limit of one the scan claims one of them, with the limit of the scheduler both.\<close>

definition two_due :: schedule_db where
  "two_due = example_schedules\<lparr>schedules := [example_schedule, example_schedule\<lparr>sc_id := ''s2''\<rparr>]\<rparr>"

theorem quiet_scan_claims_all_due_witness:
  "(\<exists>ss db'. claim_due_schedules example_cron 10 10 ''w'' [] 1 [quiet_page_of] two_due = Some (Inr (ss, db')) \<and> length ss = 1) \<and>
   (\<exists>ss db'. claim_due_schedules example_cron 10 10 ''w'' [] 100 [quiet_page_of] two_due = Some (Inr (ss, db')) \<and> sc_id ` set ss = {''s1'', ''s2''})"
proof -
  let ?s = "example_schedule\<lparr>sc_id := ''s2''\<rparr>"
  let ?due = "{s \<in> set (schedules two_due). claim_base 10 [] two_due s \<and> schedule_due example_cron 10 10 two_due s = Inr True}"
  have "inj (\<lambda>n. replicate n (CHR ''t''))" by (rule injI) (metis length_replicate)
  then have q: "quiet_pages [quiet_page_of] {tok. Some tok \<in> sc_claim_token ` set (schedules two_due)}"
    by (simp add: quiet_page_of_def two_due_def example_schedule_def)
  have u: "unique_by sc_id (schedules two_due)" by (simp add: two_due_def unique_by_def example_schedule_def)
  have n: "length (schedules two_due) < SCHEDULE_CANDIDATE_BATCH_SIZE * length [quiet_page_of]"
    by (simp add: two_due_def SCHEDULE_CANDIDATE_BATCH_SIZE_def)
  have d: "list_all (\<lambda>s. claim_base 10 [] two_due s \<and> schedule_due example_cron 10 10 two_due s = Inr True) (schedules two_due)" by code_simp
  have s: "schedules two_due = [example_schedule, ?s]" "sc_id example_schedule = ''s1''" "sc_id ?s = ''s2''"
    by (simp_all add: two_due_def example_schedule_def)
  have c: "\<forall>s \<in> set (schedules two_due). claim_base 10 [] two_due s \<longrightarrow> \<not> isl (schedule_due example_cron 10 10 two_due s)"
    using d by (auto simp: list_all_iff)
  have due: "?due = {example_schedule, ?s}" using d unfolding list_all_iff s(1) by auto
  have "example_schedule \<noteq> ?s"
  proof
    assume "example_schedule = ?s"
    then have "sc_id example_schedule = sc_id ?s" by (rule arg_cong)
    then show False unfolding s(2,3) by simp
  qed
  then have two: "card ?due = 2" unfolding due by simp
  have "\<exists>ss db'. claim_due_schedules example_cron 10 10 ''w'' [] 1 [quiet_page_of] two_due = Some (Inr (ss, db')) \<and> length ss = min 1 (card ?due)"
    using quiet_scan_claims_all_due [OF q u order_refl n c refl, of "''w''"] by blast
  moreover have "\<exists>ss db'. claim_due_schedules example_cron 10 10 ''w'' [] 100 [quiet_page_of] two_due = Some (Inr (ss, db')) \<and> sc_id ` set ss = sc_id ` ?due"
    using quiet_scan_claims_all_due [OF q u _ n c refl, of 100 "''w''"] two by auto
  moreover have "sc_id ` ?due = {''s1'', ''s2''}" unfolding due using s(2,3) by simp
  ultimately show ?thesis using two by simp
qed

end
