(* ===== verification/Schedule_Views.thy ===== *)
theory Schedule_Views
  imports Schedule_Facts
begin

text \<open>
  What the schedule API answers and commits (\<open>modules/scheduler/service.py\<close> and
  \<open>modules/scheduler/commands.py\<close>): the response of a schedule with the names of its analysis and tab, the
  listing with its search, and the commands that commit a change, answer it and wake the worker. The
  listing loads all datasources and analyses of a page at once; it is shown to answer what the
  response of each single schedule would be.
\<close>

subsection \<open>Responses\<close>

record schedule_response =
  sr_schedule :: schedule
  sr_analysis_id :: "string option"
  sr_analysis_name :: "string option"
  sr_tab_id :: "string option"
  sr_tab_name :: "string option"

text \<open>The name of the first tab with the ID in the config, which may be any JSON value.\<close>

definition response_tab_name :: "(json \<Rightarrow> string) \<Rightarrow> json \<Rightarrow> analysis \<Rightarrow> string option result" where
  "response_tab_name rep tab_id a =
     (if \<not> py_truth tab_id then Inr None
      else and_then (pipeline_from_dict rep (an_pipeline_definition a)) (\<lambda>tabs.
             Inr (case find (\<lambda>t. JStr (tt_id t) = tab_id) tabs of
                    None \<Rightarrow> None | Some t \<Rightarrow> Some (if tt_name t = [] then ''unnamed'' else tt_name t))))"

definition build_schedule_response ::
  "(json \<Rightarrow> string) \<Rightarrow> schedule \<Rightarrow> datasource option \<Rightarrow> analysis option \<Rightarrow> schedule_response result" where
  "build_schedule_response rep s d a =
     (case d of
        None \<Rightarrow> Inr \<lparr>sr_schedule = s, sr_analysis_id = None, sr_analysis_name = None, sr_tab_id = None, sr_tab_name = None\<rparr>
      | Some d \<Rightarrow> (case ds_config d of
            JObj c \<Rightarrow>
              let tab_id = py_get ''analysis_tab_id'' c
              in and_then (case a of None \<Rightarrow> Inr None | Some a \<Rightarrow> response_tab_name rep tab_id a) (\<lambda>tab_name.
                   case tab_id of
                     JNull \<Rightarrow> Inr \<lparr>sr_schedule = s, sr_analysis_id = ds_created_by_analysis_id d, sr_analysis_name = map_option an_name a,
                                  sr_tab_id = None, sr_tab_name = tab_name\<rparr>
                   | JStr i \<Rightarrow> Inr \<lparr>sr_schedule = s, sr_analysis_id = ds_created_by_analysis_id d, sr_analysis_name = map_option an_name a,
                                   sr_tab_id = Some i, sr_tab_name = tab_name\<rparr>
                   | _ \<Rightarrow> Inl validation_error)
          | _ \<Rightarrow> Inl (RuntimeError ''AttributeError'')))"

definition enrich_schedule_response ::
  "(json \<Rightarrow> string) \<Rightarrow> 'a schedule_db_scheme \<Rightarrow> schedule \<Rightarrow> schedule_response result" where
  "enrich_schedule_response rep db s =
     (let d = get_row ds_id (sc_datasource_id s) (datasources db);
          a = (case d of None \<Rightarrow> None
               | Some d \<Rightarrow> if truthy (ds_created_by_analysis_id d) then get_row an_id (the (ds_created_by_analysis_id d)) (analyses db) else None)
      in build_schedule_response rep s d a)"

subsection \<open>The search\<close>

text \<open>\<open>ILIKE\<close> of PostgreSQL on ASCII text: \<open>%\<close> stands for any text, \<open>_\<close> for one character, a backslash
  takes the next character literally; letters match in either case.\<close>

definition lower_char :: "char \<Rightarrow> char" where
  "lower_char c = (let n = (of_char c :: nat) in if 65 \<le> n \<and> n \<le> 90 then char_of (n + 32) else c)"

fun ilike :: "string \<Rightarrow> string \<Rightarrow> bool" where
  "ilike [] t \<longleftrightarrow> t = []"
| "ilike (p # ps) t \<longleftrightarrow>
     (if p = CHR ''%'' then ilike ps t \<or> (case t of [] \<Rightarrow> False | _ # ts \<Rightarrow> ilike (p # ps) ts)
      else if p = CHR 0x5C then (case ps of [] \<Rightarrow> False | q # qs \<Rightarrow> (case t of [] \<Rightarrow> False | c # ts \<Rightarrow> lower_char q = lower_char c \<and> ilike qs ts))
      else (case t of [] \<Rightarrow> False | c # ts \<Rightarrow> (p = CHR ''_'' \<or> lower_char p = lower_char c) \<and> ilike ps ts))"

definition search_matches :: "string \<Rightarrow> string \<Rightarrow> bool" where
  "search_matches search t \<longleftrightarrow> ilike (CHR ''%'' # search @ ''%'') t"

definition schedule_matches :: "string option \<Rightarrow> string option \<Rightarrow> 'a schedule_db_scheme \<Rightarrow> schedule \<Rightarrow> bool" where
  "schedule_matches did search db s \<longleftrightarrow>
     (truthy did \<longrightarrow> sc_datasource_id s = the did) \<and>
     (truthy search \<longrightarrow>
        (let d = get_row ds_id (sc_datasource_id s) (datasources db);
             a = Option.bind d (\<lambda>d. Option.bind (ds_created_by_analysis_id d) (\<lambda>i. get_row an_id i (analyses db)));
             m = search_matches (the search)
         in m (sc_id s) \<or> m (sc_datasource_id s) \<or> m (sc_cron_expression s) \<or>
            (case d of None \<Rightarrow> False | Some d \<Rightarrow> m (ds_name d)) \<or> (case a of None \<Rightarrow> False | Some a \<Rightarrow> m (an_name a))))"

subsection \<open>The listing\<close>

definition newest_first :: "schedule \<Rightarrow> timestamp \<times> string" where
  "newest_first s = (- sc_created_at s, sc_id s)"

definition schedule_page ::
  "string option \<Rightarrow> string option \<Rightarrow> int \<Rightarrow> int \<Rightarrow> 'a schedule_db_scheme \<Rightarrow> schedule list" where
  "schedule_page did search limit offset db =
     take (nat limit) (drop (nat offset) (sort_key newest_first (filter (schedule_matches did search db) (schedules db))))"

text \<open>A dict comprehension keeps the last row of a key.\<close>

definition dict_by :: "('r \<Rightarrow> string) \<Rightarrow> 'r list \<Rightarrow> string \<rightharpoonup> 'r" where
  "dict_by key rs = map_of (rev (map (\<lambda>r. (key r, r)) rs))"

definition list_schedules ::
  "(json \<Rightarrow> string) \<Rightarrow> string option \<Rightarrow> string option \<Rightarrow> int \<Rightarrow> int \<Rightarrow> 'a schedule_db_scheme \<Rightarrow> schedule_response list result" where
  "list_schedules rep did search limit offset db =
     (if limit < 0 \<or> offset < 0 then Inl (RuntimeError ''DataError'')
      else let ss = schedule_page did search limit offset db;
               ds_rows = filter (\<lambda>d. ds_id d \<in> sc_datasource_id ` set ss) (datasources db);
               ds_map = dict_by ds_id ds_rows;
               analysis_ids = map (\<lambda>d. the (ds_created_by_analysis_id d)) (filter (\<lambda>d. truthy (ds_created_by_analysis_id d)) ds_rows);
               analysis_map = dict_by an_id (filter (\<lambda>a. an_id a \<in> set analysis_ids) (analyses db))
           in result_map (\<lambda>s.
                let d = ds_map (sc_datasource_id s);
                    a = (case d of None \<Rightarrow> None
                         | Some d \<Rightarrow> if truthy (ds_created_by_analysis_id d) then analysis_map (the (ds_created_by_analysis_id d)) else None)
                in build_schedule_response rep s d a) ss)"

subsection \<open>Commands\<close>

text \<open>The change is committed before the response is made: when that raises, the change stays and the
  worker is not woken.\<close>

definition answered ::
  "(json \<Rightarrow> string) \<Rightarrow> string \<Rightarrow> schedule \<times> 'a schedule_db_scheme \<Rightarrow> schedule_response result \<times> 'a schedule_db_scheme" where
  "answered rep ns x = (case x of (s, db) \<Rightarrow>
     (case enrich_schedule_response rep db s of Inl e \<Rightarrow> (Inl e, db) | Inr r \<Rightarrow> (Inr r, wake_build_worker ns db)))"

definition create_schedule ::
  "settings \<Rightarrow> cron \<Rightarrow> (json \<Rightarrow> string) \<Rightarrow> txn \<Rightarrow> string \<Rightarrow> timestamp \<Rightarrow> schedule_create \<Rightarrow> 'a schedule_db_scheme \<Rightarrow>
   (schedule_response result \<times> 'a schedule_db_scheme) result" where
  "create_schedule cfg cron rep tx ns now p db =
     and_then (stage_create_schedule cfg cron tx ns now p db) (\<lambda>x. Inr (answered rep ns x))"

definition update_schedule ::
  "settings \<Rightarrow> cron \<Rightarrow> (json \<Rightarrow> string) \<Rightarrow> txn \<Rightarrow> string \<Rightarrow> timestamp \<Rightarrow> string \<Rightarrow> schedule_update \<Rightarrow> 'a schedule_db_scheme \<Rightarrow>
   (schedule_response result \<times> 'a schedule_db_scheme) result" where
  "update_schedule cfg cron rep tx ns now i p db =
     and_then (stage_update_schedule cfg cron tx ns now i p db) (\<lambda>x. Inr (answered rep ns x))"

definition delete_schedule :: "settings \<Rightarrow> txn \<Rightarrow> string \<Rightarrow> string \<Rightarrow> 'a schedule_db_scheme \<Rightarrow> 'a schedule_db_scheme result" where
  "delete_schedule cfg tx ns i db = stage_delete_schedule cfg tx ns i db"

subsection \<open>Correctness\<close>

lemma dict_by_row: "unique_by key rs \<Longrightarrow> dict_by key rs k = get_row key k rs"
proof -
  assume u: "unique_by key rs"
  then have "distinct (map fst (map (\<lambda>r. (key r, r)) rs))" by (simp add: unique_by_def comp_def)
  then have "dict_by key rs = map_of (map (\<lambda>r. (key r, r)) rs)" unfolding dict_by_def
    by (subst map_of_inject_set) (simp_all add: rev_map [symmetric])
  moreover have "map_of (map (\<lambda>r. (key r, r)) rs) k = get_row key k rs" by (induction rs) (auto simp: get_row_def)
  ultimately show ?thesis by simp
qed

lemma get_row_filter: "(\<And>r. key r = k \<Longrightarrow> P r) \<Longrightarrow> get_row key k (filter P rs) = get_row key k rs"
  by (induction rs) (auto simp: get_row_def)

lemma unique_filter: "unique_by key rs \<Longrightarrow> unique_by key (filter P rs)"
  by (simp add: unique_by_def distinct_map_filter)

lemma dict_by_filter: "unique_by key rs \<Longrightarrow> k \<in> K \<Longrightarrow> dict_by key (filter (\<lambda>r. key r \<in> K) rs) k = get_row key k rs"
  by (simp add: dict_by_row unique_filter get_row_filter)

lemma result_map_cong: "(\<And>x. x \<in> set xs \<Longrightarrow> f x = g x) \<Longrightarrow> result_map f xs = result_map g xs"
  by (induction xs) auto

text \<open>A search text without wildcards finds the texts that contain it, in either case.\<close>

definition plain_text :: "string \<Rightarrow> bool" where
  "plain_text s \<longleftrightarrow> CHR ''%'' \<notin> set s \<and> CHR ''_'' \<notin> set s \<and> CHR 0x5C \<notin> set s"

lemma ilike_any: "ilike ''%'' t"
  by (induction t) auto

lemma ilike_plain: "plain_text s \<Longrightarrow> ilike (s @ ''%'') t \<longleftrightarrow> (\<exists>b. map lower_char t = map lower_char s @ b)"
proof (induction s arbitrary: t)
  case Nil
  then show ?case using ilike_any by simp
next
  case (Cons p ps)
  then show ?case by (cases t) (auto simp: plain_text_def)
qed

lemma infix_Cons: "(\<exists>a b. x # xs = a @ s @ b) \<longleftrightarrow> (\<exists>b. x # xs = s @ b) \<or> (\<exists>a b. xs = a @ s @ b)" (is "?l \<longleftrightarrow> ?r")
proof
  assume ?l
  then obtain a b where "x # xs = a @ s @ b" by blast
  then show ?r by (cases a) auto
next
  assume ?r
  then show ?l by (metis append_Cons append_Nil)
qed

lemma search_substring:
  assumes "plain_text s"
  shows "search_matches s t \<longleftrightarrow> (\<exists>a b. map lower_char t = a @ map lower_char s @ b)"
proof (induction t)
  case Nil
  then show ?case using ilike_plain [OF assms, of "[]"] by (auto simp: search_matches_def)
next
  case (Cons c ts)
  have "search_matches s (c # ts) \<longleftrightarrow> ilike (s @ ''%'') (c # ts) \<or> search_matches s ts" by (simp add: search_matches_def)
  also have "\<dots> \<longleftrightarrow> (\<exists>b. map lower_char (c # ts) = map lower_char s @ b) \<or> (\<exists>a b. map lower_char ts = a @ map lower_char s @ b)"
    using Cons ilike_plain [OF assms] by simp
  also have "\<dots> \<longleftrightarrow> (\<exists>a b. map lower_char (c # ts) = a @ map lower_char s @ b)"
    by (simp add: infix_Cons)
  finally show ?case .
qed

text \<open>The listing is exact. It answers, for each schedule of the page and in its order, what the response of
  that schedule alone is, or raises the first of their errors; the pages of a limit cut the matching
  schedules, newest first, into pieces without a gap or an overlap.\<close>

theorem schedule_listing_exact:
  assumes "unique_by ds_id (datasources db)" and "unique_by an_id (analyses db)" and "0 \<le> limit" and "0 \<le> offset" and "0 \<le> next_limit"
  shows "list_schedules rep did search limit offset db =
      result_map (enrich_schedule_response rep db) (schedule_page did search limit offset db) \<and>
    schedule_page did search limit offset db @ schedule_page did search next_limit (offset + limit) db =
      schedule_page did search (limit + next_limit) offset db \<and>
    (int (length (schedules db)) \<le> limit \<longrightarrow>
      set (schedule_page did search limit 0 db) = {s \<in> set (schedules db). schedule_matches did search db s}) \<and>
    sorted (map newest_first (schedule_page did search limit offset db))"
proof (intro conjI impI)
  let ?ss = "schedule_page did search limit offset db"
  show "list_schedules rep did search limit offset db = result_map (enrich_schedule_response rep db) ?ss"
  proof -
    let ?ds = "filter (\<lambda>d. ds_id d \<in> sc_datasource_id ` set ?ss) (datasources db)"
    let ?as = "map (\<lambda>d. the (ds_created_by_analysis_id d)) (filter (\<lambda>d. truthy (ds_created_by_analysis_id d)) ?ds)"
    have d: "dict_by ds_id ?ds (sc_datasource_id s) = get_row ds_id (sc_datasource_id s) (datasources db)" if "s \<in> set ?ss" for s
      using dict_by_filter [OF assms(1)] that by simp
    have a: "dict_by an_id (filter (\<lambda>a. an_id a \<in> set ?as) (analyses db)) (the (ds_created_by_analysis_id r)) =
        get_row an_id (the (ds_created_by_analysis_id r)) (analyses db)"
      if "s \<in> set ?ss" "get_row ds_id (sc_datasource_id s) (datasources db) = Some r" "truthy (ds_created_by_analysis_id r)" for s r
    proof (rule dict_by_filter [OF assms(2)])
      have "r \<in> set ?ds" using get_row_SomeD [OF that(2)] that(1) by auto
      then show "the (ds_created_by_analysis_id r) \<in> set ?as" using that(3) by auto
    qed
    have "build_schedule_response rep s (dict_by ds_id ?ds (sc_datasource_id s))
        (case dict_by ds_id ?ds (sc_datasource_id s) of None \<Rightarrow> None
         | Some r \<Rightarrow> if truthy (ds_created_by_analysis_id r)
             then dict_by an_id (filter (\<lambda>a. an_id a \<in> set ?as) (analyses db)) (the (ds_created_by_analysis_id r)) else None) =
        enrich_schedule_response rep db s" if "s \<in> set ?ss" for s
      unfolding enrich_schedule_response_def Let_def d [OF that] using a [OF that] by (auto split: option.split simp del: set_map set_filter)
    then have "result_map (\<lambda>s. build_schedule_response rep s (dict_by ds_id ?ds (sc_datasource_id s))
        (case dict_by ds_id ?ds (sc_datasource_id s) of None \<Rightarrow> None
         | Some r \<Rightarrow> if truthy (ds_created_by_analysis_id r)
             then dict_by an_id (filter (\<lambda>a. an_id a \<in> set ?as) (analyses db)) (the (ds_created_by_analysis_id r)) else None)) ?ss =
        result_map (enrich_schedule_response rep db) ?ss" by (rule result_map_cong)
    then show ?thesis using assms(3,4) by (simp only: list_schedules_def Let_def not_less [symmetric] if_False simp_thms)
  qed
  show "?ss @ schedule_page did search next_limit (offset + limit) db = schedule_page did search (limit + next_limit) offset db"
    using assms(3-5) by (simp add: schedule_page_def nat_add_distrib take_add add.commute)
  show "set (schedule_page did search limit 0 db) = {s \<in> set (schedules db). schedule_matches did search db s}"
    if "int (length (schedules db)) \<le> limit"
  proof -
    have "length (filter (schedule_matches did search db) (schedules db)) \<le> nat limit"
      using length_filter_le [of "schedule_matches did search db" "schedules db"] that by linarith
    then show ?thesis by (simp add: schedule_page_def)
  qed
  show "sorted (map newest_first ?ss)" by (simp add: schedule_page_def take_map [symmetric] drop_map [symmetric] sorted_wrt_drop)
qed

definition listed_schedules :: schedule_db where
  "listed_schedules = example_schedules\<lparr>schedules := [example_schedule, example_schedule\<lparr>sc_id := ''s2'', sc_created_at := 2\<rparr>]\<rparr>"

theorem schedule_listing_exact_witness:
  "list_schedules (\<lambda>_. []) None (Some ''S'') 100 0 listed_schedules =
     result_map (enrich_schedule_response (\<lambda>_. []) listed_schedules) (schedule_page None (Some ''S'') 100 0 listed_schedules) \<and>
   map sc_id (schedule_page None (Some ''S'') 100 0 listed_schedules) = [''s2'', ''s1'']"
proof
  have "unique_by ds_id (datasources listed_schedules)" "unique_by an_id (analyses listed_schedules)"
    by (simp_all add: listed_schedules_def example_schedules_def unique_by_def)
  from schedule_listing_exact [OF this, of 100 0 0 "\<lambda>_. []" None "Some ''S''"]
  show "list_schedules (\<lambda>_. []) None (Some ''S'') 100 0 listed_schedules =
     result_map (enrich_schedule_response (\<lambda>_. []) listed_schedules) (schedule_page None (Some ''S'') 100 0 listed_schedules)" by simp
  show "map sc_id (schedule_page None (Some ''S'') 100 0 listed_schedules) = [''s2'', ''s1'']" by code_simp
qed

end
