(* ===== verification/Engine_Manager.thy ===== *)
theory Engine_Manager
  imports Prelude "HOL-Library.AList"
begin

text \<open>
  The process manager of a worker (\<open>worker/runtime/compute_manager.py\<close>): which compute engines run, which
  are starting and stopping, and which requests wait for one. All bookkeeping happens in sections under
  one lock; container starts, stops and health probes happen between them. Every locked section is one
  definition on the record \<open>manager\<close>, and the sections of one call are joined by the local state of that
  call (\<open>spawn_local\<close>, \<open>pending_release\<close>, \<open>stop_local\<close>), so that calls can interleave at any section.

  Objects that the code compares by identity (engines, events, admissions, futures) are numbers. An
  engine's job, liveness and configuration change without the lock and are read from \<open>engine_view\<close>. The clock is
  an argument of the sections that read it. Log lines, metrics and the throttled activity snapshots are
  left out.
\<close>

subsection \<open>Identities and configurations\<close>

record identity_key =
  ik_namespace :: string
  ik_scope :: int
  ik_reuse_policy :: int
  ik_resource_id :: string

record resource_config =
  rc_max_threads :: "int option"
  rc_max_memory_mb :: "int option"
  rc_streaming_chunk_size :: "int option"

text \<open>A value that is missing or the default is left out.\<close>

definition keep_custom :: "int option \<Rightarrow> int option \<Rightarrow> int option" where
  "keep_custom d v = (if v = d then None else v)"

definition normalize_config :: "resource_config \<Rightarrow> resource_config \<Rightarrow> resource_config" where
  "normalize_config defaults c =
     \<lparr>rc_max_threads = keep_custom (rc_max_threads defaults) (rc_max_threads c),
      rc_max_memory_mb = keep_custom (rc_max_memory_mb defaults) (rc_max_memory_mb c),
      rc_streaming_chunk_size = keep_custom (rc_streaming_chunk_size defaults) (rc_streaming_chunk_size c)\<rparr>"

definition configs_differ :: "resource_config \<Rightarrow> resource_config \<Rightarrow> bool" where
  "configs_differ old new \<longleftrightarrow>
     rc_max_threads old \<noteq> rc_max_threads new \<or> rc_max_memory_mb old \<noteq> rc_max_memory_mb new \<or>
     rc_streaming_chunk_size old \<noteq> rc_streaming_chunk_size new"

text \<open>What the manager reads of an engine: \<open>resource_config\<close>, \<open>last_known_alive\<close> and \<open>current_job_id\<close>.\<close>

record engine_view =
  ev_config :: resource_config
  ev_alive :: bool
  ev_job :: "string option"

subsection \<open>State\<close>

record worker_info =
  wi_engine :: nat
  wi_last_activity :: timestamp
  wi_build_id :: "string option"
  wi_run_id :: "string option"
  wi_active_reservations :: nat

record capacity_admission =
  ad_id :: nat
  ad_evicted :: "(identity_key \<times> worker_info) option"
  ad_event :: "nat option"
  ad_warm_claim :: bool
  ad_cold_start :: bool
  ad_claimed :: bool

record spawn_waiter =
  sw_id :: nat
  sw_key :: identity_key
  sw_priority :: nat
  sw_reserve_existing :: bool

text \<open>What a future was resolved with.\<close>

datatype wake = Owns_Admission | Uses_Existing bool | Was_Closed | Capacity_Changed

record warm_cleanup =
  wc_engine :: nat
  wc_identity :: identity_key
  wc_attempts :: nat

record manager =
  mg_engines :: "(identity_key \<times> worker_info) list"
  mg_capacity_starts :: int
  mg_reserved_stops :: "nat list"
  mg_cold_starts :: int
  mg_warm_target :: int
  mg_capacity_waiters :: "nat list"
  mg_spawn_waiters :: "spawn_waiter list"
  mg_next_priority :: nat
  mg_admissions :: "(identity_key \<times> capacity_admission list) list"
  mg_events :: "(identity_key \<times> nat) list"
  mg_events_set :: "nat list"
  mg_request_reservations :: "(identity_key \<times> nat) list"
  mg_starting :: "nat list"
  mg_stopping :: "nat list"
  mg_stopping_warm :: "nat list"
  mg_cleanups :: "warm_cleanup list"
  mg_closed :: bool
  mg_warm_workers :: "nat list"
  mg_warm_claims :: int
  mg_warm_starts :: int
  mg_replenish_trigger :: bool
  mg_released :: "nat list"
  mg_resolved :: "(nat \<times> wake) list"
  mg_fresh :: nat

definition ADMISSION_PRIORITIES :: nat where
  "ADMISSION_PRIORITIES = 3"

text \<open>Dictionaries and sets of the manager: insertion keeps the place of a key.\<close>

abbreviation dict_get :: "('k \<times> 'v) list \<Rightarrow> 'k \<Rightarrow> 'v option" where
  "dict_get d k \<equiv> map_of d k"

definition reservations :: "identity_key \<Rightarrow> manager \<Rightarrow> nat" where
  "reservations k m = (case dict_get (mg_request_reservations m) k of None \<Rightarrow> 0 | Some n \<Rightarrow> n)"

definition admissions_of :: "identity_key \<Rightarrow> manager \<Rightarrow> capacity_admission list" where
  "admissions_of k m = (case dict_get (mg_admissions m) k of None \<Rightarrow> [] | Some as \<Rightarrow> as)"

definition set_admissions :: "identity_key \<Rightarrow> capacity_admission list \<Rightarrow> manager \<Rightarrow> manager" where
  "set_admissions k as m =
     m\<lparr>mg_admissions := if as = [] then AList.delete k (mg_admissions m) else AList.update k as (mg_admissions m)\<rparr>"

definition down :: "int \<Rightarrow> int" where
  "down n = max 0 (n - 1)"

definition touch :: "timestamp \<Rightarrow> identity_key \<Rightarrow> manager \<Rightarrow> manager" where
  "touch now k m =
     m\<lparr>mg_engines := map (\<lambda>(k', i). (k', if k' = k then i\<lparr>wi_last_activity := now\<rparr> else i)) (mg_engines m)\<rparr>"

definition reserve_request :: "identity_key \<Rightarrow> manager \<Rightarrow> manager" where
  "reserve_request k m = m\<lparr>mg_request_reservations := AList.update k (reservations k m + 1) (mg_request_reservations m)\<rparr>"

definition track_stopping :: "nat \<Rightarrow> manager \<Rightarrow> manager" where
  "track_stopping e m = m\<lparr>mg_stopping := List.insert e (mg_stopping m)\<rparr>"

definition untrack_stopping_engine :: "nat \<Rightarrow> manager \<Rightarrow> manager" where
  "untrack_stopping_engine e m =
     m\<lparr>mg_stopping := removeAll e (mg_stopping m), mg_reserved_stops := removeAll e (mg_reserved_stops m)\<rparr>"

subsection \<open>Capacity\<close>

definition capacity_used :: "manager \<Rightarrow> int" where
  "capacity_used m =
     int (length (mg_engines m)) + int (length (mg_stopping m)) - int (length (mg_reserved_stops m)) + mg_capacity_starts m"

definition warm_worker_available :: "manager \<Rightarrow> bool" where
  "warm_worker_available m \<longleftrightarrow> mg_warm_claims m < int (length (mg_warm_workers m))"

definition busy :: "(nat \<Rightarrow> engine_view) \<Rightarrow> manager \<Rightarrow> identity_key \<times> worker_info \<Rightarrow> bool" where
  "busy view m x \<longleftrightarrow>
     wi_active_reservations (snd x) \<noteq> 0 \<or> reservations (fst x) m \<noteq> 0 \<or> truthy (ev_job (view (wi_engine (snd x))))"

definition find_idle_engine :: "(nat \<Rightarrow> engine_view) \<Rightarrow> manager \<Rightarrow> (identity_key \<times> worker_info) option" where
  "find_idle_engine view m =
     (case filter (\<lambda>x. \<not> busy view m x) (mg_engines m) of
        [] \<Rightarrow> None | cands \<Rightarrow> Some (arg_min_list (\<lambda>x. wi_last_activity (snd x)) cands))"

text \<open>One active-start ticket, and a warm worker when one is left.\<close>

definition take_ticket :: "(identity_key \<times> worker_info) option \<Rightarrow> nat option \<Rightarrow> manager \<Rightarrow> capacity_admission \<times> manager" where
  "take_ticket evicted event m =
     (let warm = warm_worker_available m;
          a = \<lparr>ad_id = mg_fresh m, ad_evicted = evicted, ad_event = event, ad_warm_claim = warm, ad_cold_start = \<not> warm, ad_claimed = False\<rparr>
      in (a, m\<lparr>mg_cold_starts := mg_cold_starts m + (if warm then 0 else 1), mg_capacity_starts := mg_capacity_starts m + 1,
               mg_warm_claims := mg_warm_claims m + (if warm then 1 else 0), mg_fresh := Suc (mg_fresh m)\<rparr>))"

definition reserve_capacity :: "int \<Rightarrow> (nat \<Rightarrow> engine_view) \<Rightarrow> manager \<Rightarrow> (capacity_admission \<times> manager) option" where
  "reserve_capacity workers view m =
     (if capacity_used m < workers then Some (take_ticket None None m)
      else case find_idle_engine view m of
             None \<Rightarrow> None
           | Some (k, i) \<Rightarrow>
               let m1 = track_stopping (wi_engine i) (m\<lparr>mg_engines := AList.delete k (mg_engines m)\<rparr>);
                   m2 = m1\<lparr>mg_reserved_stops := List.insert (wi_engine i) (mg_reserved_stops m1),
                           mg_events := AList.update k (mg_fresh m1) (mg_events m1), mg_fresh := Suc (mg_fresh m1)\<rparr>
               in Some (take_ticket (Some (k, i)) (Some (mg_fresh m1)) m2))"

subsection \<open>The admission queue\<close>

definition eligible :: "manager \<Rightarrow> spawn_waiter \<Rightarrow> bool" where
  "eligible m w \<longleftrightarrow> dict_get (mg_events m) (sw_key w) = None \<and> admissions_of (sw_key w) m = []"

definition first_index :: "('w \<Rightarrow> bool) \<Rightarrow> 'w list \<Rightarrow> nat option" where
  "first_index P ws = find (\<lambda>i. P (ws ! i)) [0..<length ws]"

text \<open>The classes are tried in rotation from the next one; within a class the first waiter is taken.\<close>

definition pick_waiter :: "manager \<Rightarrow> (nat \<times> nat) option" where
  "pick_waiter m =
     (case find (\<lambda>p. \<exists>w \<in> set (mg_spawn_waiters m). eligible m w \<and> sw_priority w = p)
             (map (\<lambda>off. (mg_next_priority m + off) mod ADMISSION_PRIORITIES) [0..<ADMISSION_PRIORITIES]) of
        None \<Rightarrow> None
      | Some p \<Rightarrow>
          map_option (\<lambda>i. (i, (p + 1) mod ADMISSION_PRIORITIES))
            (first_index (\<lambda>w. eligible m w \<and> sw_priority w = p) (mg_spawn_waiters m)))"

definition drop_waiter :: "nat \<Rightarrow> manager \<Rightarrow> manager" where
  "drop_waiter i m = m\<lparr>mg_spawn_waiters := take i (mg_spawn_waiters m) @ drop (Suc i) (mg_spawn_waiters m)\<rparr>"

definition resolve :: "nat \<Rightarrow> wake \<Rightarrow> manager \<Rightarrow> manager" where
  "resolve f w m = m\<lparr>mg_resolved := mg_resolved m @ [(f, w)]\<rparr>"

text \<open>One round of the loop: \<open>None\<close> when the loop ends.\<close>

definition admit_one :: "int \<Rightarrow> (nat \<Rightarrow> engine_view) \<Rightarrow> timestamp \<Rightarrow> manager \<Rightarrow> manager option" where
  "admit_one workers view now m =
     (case pick_waiter m of
        None \<Rightarrow> None
      | Some (i, next_priority) \<Rightarrow>
          let w = mg_spawn_waiters m ! i
          in if dict_get (mg_engines m) (sw_key w) \<noteq> None
             then let m1 = drop_waiter i m
                  in Some (resolve (sw_id w) (Uses_Existing (sw_reserve_existing w))
                       (if sw_reserve_existing w then touch now (sw_key w) (reserve_request (sw_key w) m1) else m1))
             else case reserve_capacity workers view m of
                    None \<Rightarrow> None
                  | Some (a, m1) \<Rightarrow>
                      Some (resolve (sw_id w) Owns_Admission
                        (set_admissions (sw_key w) (admissions_of (sw_key w) m1 @ [a]) ((drop_waiter i m1)\<lparr>mg_next_priority := next_priority\<rparr>))))"

lemma pick_waiter_index: "pick_waiter m = Some (i, p) \<Longrightarrow> i < length (mg_spawn_waiters m)"
  unfolding pick_waiter_def first_index_def by (auto split: option.splits simp: find_Some_iff)

lemma reserve_capacity_waiters: "reserve_capacity workers view m = Some (a, m') \<Longrightarrow> mg_spawn_waiters m' = mg_spawn_waiters m"
  by (auto simp: reserve_capacity_def take_ticket_def Let_def track_stopping_def split: if_splits option.splits)

lemma admit_one_shrinks:
  assumes "admit_one workers view now m = Some m'"
  shows "length (mg_spawn_waiters m') < length (mg_spawn_waiters m)"
proof -
  from assms obtain i p where p: "pick_waiter m = Some (i, p)" by (auto simp: admit_one_def split: option.splits)
  note i = pick_waiter_index [OF p]
  have d: "length (mg_spawn_waiters (drop_waiter i x)) < length (mg_spawn_waiters m)" if "mg_spawn_waiters x = mg_spawn_waiters m" for x
    using that i by (auto simp: drop_waiter_def min_def)
  show ?thesis using assms p d [OF refl] d [OF reserve_capacity_waiters]
    by (auto simp: admit_one_def Let_def resolve_def touch_def reserve_request_def set_admissions_def drop_waiter_def
        split: if_splits option.splits)
qed

function admit_spawn_waiters :: "int \<Rightarrow> (nat \<Rightarrow> engine_view) \<Rightarrow> timestamp \<Rightarrow> manager \<Rightarrow> manager" where
  "admit_spawn_waiters workers view now m =
     (if mg_spawn_waiters m = [] then m
      else if mg_closed m
      then m\<lparr>mg_spawn_waiters := [], mg_resolved := mg_resolved m @ map (\<lambda>w. (sw_id w, Was_Closed)) (mg_spawn_waiters m)\<rparr>
      else case admit_one workers view now m of None \<Rightarrow> m | Some m' \<Rightarrow> admit_spawn_waiters workers view now m')"
  by auto
termination
  by (relation "measure (\<lambda>(_, _, _, m). length (mg_spawn_waiters m))") (auto dest: admit_one_shrinks)

declare admit_spawn_waiters.simps [simp del]

definition notify_capacity_changed :: "int \<Rightarrow> (nat \<Rightarrow> engine_view) \<Rightarrow> timestamp \<Rightarrow> manager \<Rightarrow> manager" where
  "notify_capacity_changed workers view now m =
     (let m1 = m\<lparr>mg_capacity_waiters := [], mg_resolved := mg_resolved m @ map (\<lambda>f. (f, Capacity_Changed)) (mg_capacity_waiters m)\<rparr>
      in admit_spawn_waiters workers view now m1)"

subsection \<open>Waiting for an admission\<close>

definition identity_busy :: "identity_key \<Rightarrow> manager \<Rightarrow> bool" where
  "identity_busy k m \<longleftrightarrow>
     dict_get (mg_events m) k \<noteq> None \<or> admissions_of k m \<noteq> [] \<or> list_ex (\<lambda>w. sw_key w = k) (mg_spawn_waiters m)"

datatype identity_turn = Turn_Closed | Turn_Free | Turn_Wait nat

definition identity_turn :: "identity_key \<Rightarrow> manager \<Rightarrow> identity_turn \<times> manager" where
  "identity_turn k m =
     (if mg_closed m then (Turn_Closed, m)
      else if \<not> identity_busy k m then (Turn_Free, m)
      else (Turn_Wait (mg_fresh m), m\<lparr>mg_capacity_waiters := mg_capacity_waiters m @ [mg_fresh m], mg_fresh := Suc (mg_fresh m)\<rparr>))"

definition forget_capacity_waiter :: "nat \<Rightarrow> manager \<Rightarrow> manager" where
  "forget_capacity_waiter f m = m\<lparr>mg_capacity_waiters := removeAll f (mg_capacity_waiters m)\<rparr>"

datatype admission_entry = Enter_Closed | Enter_Existing | Enter_Busy | Enter_Queued nat

definition enter_spawn_admission ::
  "int \<Rightarrow> (nat \<Rightarrow> engine_view) \<Rightarrow> timestamp \<Rightarrow> identity_key \<Rightarrow> nat \<Rightarrow> bool \<Rightarrow> manager \<Rightarrow> admission_entry \<times> manager" where
  "enter_spawn_admission workers view now k priority reserve m =
     (if mg_closed m then (Enter_Closed, m)
      else if dict_get (mg_engines m) k \<noteq> None
      then (Enter_Existing, if reserve then touch now k (reserve_request k m) else m)
      else if identity_busy k m then (Enter_Busy, m)
      else (Enter_Queued (mg_fresh m),
            admit_spawn_waiters workers view now
              (m\<lparr>mg_spawn_waiters := mg_spawn_waiters m @ [\<lparr>sw_id = mg_fresh m, sw_key = k, sw_priority = priority, sw_reserve_existing = reserve\<rparr>],
                 mg_fresh := Suc (mg_fresh m)\<rparr>)))"

text \<open>A cancelled request leaves the queue; what it owned is released by the calls that follow.\<close>

definition cancel_spawn_waiter :: "int \<Rightarrow> (nat \<Rightarrow> engine_view) \<Rightarrow> timestamp \<Rightarrow> nat \<Rightarrow> manager \<Rightarrow> manager" where
  "cancel_spawn_waiter workers view now f m =
     admit_spawn_waiters workers view now (m\<lparr>mg_spawn_waiters := filter (\<lambda>w. sw_id w \<noteq> f) (mg_spawn_waiters m)\<rparr>)"

definition reserve_engine_request :: "timestamp \<Rightarrow> identity_key \<Rightarrow> manager \<Rightarrow> manager result" where
  "reserve_engine_request now k m =
     (if mg_closed m then Inl (RuntimeError ''Process manager is shut down'') else Inr (touch now k (reserve_request k m)))"

definition release_engine_request :: "identity_key \<Rightarrow> manager \<Rightarrow> manager" where
  "release_engine_request k m =
     m\<lparr>mg_request_reservations :=
         if reservations k m \<le> 1 then AList.delete k (mg_request_reservations m)
         else AList.update k (reservations k m - 1) (mg_request_reservations m)\<rparr>"

definition capacity_free :: "int \<Rightarrow> (nat \<Rightarrow> engine_view) \<Rightarrow> manager \<Rightarrow> bool" where
  "capacity_free workers view m \<longleftrightarrow> capacity_used m < workers \<or> find_idle_engine view m \<noteq> None"

text \<open>\<open>wait_for_capacity\<close>: closed, free, or parked under a new future.\<close>

definition wait_for_capacity :: "int \<Rightarrow> (nat \<Rightarrow> engine_view) \<Rightarrow> manager \<Rightarrow> identity_turn \<times> manager" where
  "wait_for_capacity workers view m =
     (if mg_closed m then (Turn_Closed, m)
      else if capacity_free workers view m then (Turn_Free, m)
      else (Turn_Wait (mg_fresh m), m\<lparr>mg_capacity_waiters := mg_capacity_waiters m @ [mg_fresh m], mg_fresh := Suc (mg_fresh m)\<rparr>))"

subsection \<open>Returning an admission\<close>

record pending_release =
  pr_key :: identity_key
  pr_info :: worker_info
  pr_event :: "nat option"

datatype release_result = Not_Released | Released | Restoring pending_release

definition finish_engine_event :: "identity_key \<Rightarrow> nat \<Rightarrow> manager \<Rightarrow> manager" where
  "finish_engine_event k ev m =
     (if dict_get (mg_events m) k = Some ev
      then m\<lparr>mg_events := AList.delete k (mg_events m), mg_events_set := ev # mg_events_set m\<rparr> else m)"

definition finish_event_opt :: "identity_key \<Rightarrow> nat option \<Rightarrow> manager \<Rightarrow> manager" where
  "finish_event_opt k ev m = (case ev of None \<Rightarrow> m | Some e \<Rightarrow> finish_engine_event k e m)"

definition release_spawn_admission ::
  "int \<Rightarrow> (nat \<Rightarrow> engine_view) \<Rightarrow> timestamp \<Rightarrow> identity_key \<Rightarrow> manager \<Rightarrow> release_result \<times> manager" where
  "release_spawn_admission workers view now k m =
     (case admissions_of k m of
        [] \<Rightarrow> (Not_Released, m)
      | a # as \<Rightarrow>
          if ad_claimed a then (Not_Released, m)
          else let m1 = (set_admissions k as m)
                     \<lparr>mg_warm_claims := if ad_warm_claim a then down (mg_warm_claims m) else mg_warm_claims m,
                      mg_cold_starts := if ad_cold_start a then down (mg_cold_starts m) else mg_cold_starts m,
                      mg_replenish_trigger := mg_replenish_trigger m \<or> ad_cold_start a, mg_released := ad_id a # mg_released m\<rparr>
               in case ad_evicted a of
                    None \<Rightarrow> (Released, admit_spawn_waiters workers view now (m1\<lparr>mg_capacity_starts := down (mg_capacity_starts m1)\<rparr>))
                  | Some (k', i) \<Rightarrow> (Restoring \<lparr>pr_key = k', pr_info = i, pr_event = ad_event a\<rparr>, m1))"

text \<open>The evicted engine is put back when it is still alive; otherwise it is stopped first.\<close>

definition restore_evicted ::
  "int \<Rightarrow> (nat \<Rightarrow> engine_view) \<Rightarrow> timestamp \<Rightarrow> pending_release \<Rightarrow> manager \<Rightarrow> manager" where
  "restore_evicted workers view now pr m =
     (let m1 = untrack_stopping_engine (wi_engine (pr_info pr)) m
      in admit_spawn_waiters workers view now
           (m1\<lparr>mg_engines := AList.update (pr_key pr) (pr_info pr) (mg_engines m1), mg_capacity_starts := down (mg_capacity_starts m1)\<rparr>))"

definition evicted_stopped ::
  "int \<Rightarrow> (nat \<Rightarrow> engine_view) \<Rightarrow> timestamp \<Rightarrow> pending_release \<Rightarrow> manager \<Rightarrow> manager" where
  "evicted_stopped workers view now pr m =
     (let m1 = untrack_stopping_engine (wi_engine (pr_info pr)) m
      in admit_spawn_waiters workers view now (m1\<lparr>mg_capacity_starts := down (mg_capacity_starts m1)\<rparr>))"

subsection \<open>Spawning an engine\<close>

datatype spawn_phase = Ph_Prior | Ph_Claim | Ph_Evict | Ph_Evict_Event bool | Ph_Warm | Ph_Probe nat | Ph_Cold | Ph_Create | Ph_Boot
  | Ph_Failed | Ph_Release | Ph_Check | Ph_Exit

record spawn_local =
  sp_key :: identity_key
  sp_event :: nat
  sp_reserve :: bool
  sp_admission :: "capacity_admission option"
  sp_prior :: "nat option"
  sp_evicted :: "(identity_key \<times> worker_info) option"
  sp_eviction_event :: "nat option"
  sp_start_held :: bool
  sp_warm_held :: bool
  sp_cold_held :: bool
  sp_consumed :: bool
  sp_engine :: "nat option"
  sp_registered :: bool
  sp_phase :: spawn_phase

datatype spawn_entry = Spawn_Closed | Spawn_Wait nat | Spawn_Reused worker_info | Spawn_Started spawn_local

definition reusable :: "resource_config \<Rightarrow> resource_config \<Rightarrow> (nat \<Rightarrow> engine_view) \<Rightarrow> worker_info \<Rightarrow> bool" where
  "reusable defaults cfg view i \<longleftrightarrow>
     \<not> configs_differ (normalize_config defaults (ev_config (view (wi_engine i)))) (normalize_config defaults cfg) \<and> ev_alive (view (wi_engine i))"

definition claim_admission :: "identity_key \<Rightarrow> manager \<Rightarrow> manager" where
  "claim_admission k m = (case admissions_of k m of [] \<Rightarrow> m | a # as \<Rightarrow> set_admissions k (a\<lparr>ad_claimed := True\<rparr> # as) m)"

definition new_spawn :: "identity_key \<Rightarrow> nat \<Rightarrow> bool \<Rightarrow> capacity_admission option \<Rightarrow> spawn_local" where
  "new_spawn k ev reserve a =
     \<lparr>sp_key = k, sp_event = ev, sp_reserve = reserve, sp_admission = a, sp_prior = None, sp_evicted = None, sp_eviction_event = None,
      sp_start_held = False, sp_warm_held = False, sp_cold_held = False, sp_consumed = False, sp_engine = None,
      sp_registered = False, sp_phase = Ph_Claim\<rparr>"

definition spawn_enter ::
  "(nat \<Rightarrow> engine_view) \<Rightarrow> timestamp \<Rightarrow> resource_config \<Rightarrow> resource_config \<Rightarrow> bool \<Rightarrow> identity_key \<Rightarrow> manager \<Rightarrow> spawn_entry \<times> manager" where
  "spawn_enter view now defaults cfg reserve k m =
     (if mg_closed m then (Spawn_Closed, m)
      else case dict_get (mg_events m) k of
        Some ev \<Rightarrow> (Spawn_Wait ev, m)
      | None \<Rightarrow>
          let a = (case admissions_of k m of [] \<Rightarrow> None | b # _ \<Rightarrow> Some (b\<lparr>ad_claimed := True\<rparr>));
              m1 = (claim_admission k m)\<lparr>mg_events := AList.update k (mg_fresh m) (mg_events m), mg_fresh := Suc (mg_fresh m)\<rparr>;
              sp = new_spawn k (mg_fresh m) reserve a
          in case dict_get (mg_engines m) k of
               None \<Rightarrow> (Spawn_Started sp, m1)
             | Some i \<Rightarrow>
                 if reusable defaults cfg view i
                 then let i' = i\<lparr>wi_last_activity := now, wi_active_reservations := wi_active_reservations i + (if reserve then 1 else 0)\<rparr>
                      in (Spawn_Reused i', m\<lparr>mg_engines := AList.update k i' (mg_engines m)\<rparr>)
                 else let m2 = track_stopping (wi_engine i) (m1\<lparr>mg_engines := AList.delete k (mg_engines m1)\<rparr>);
                          warm = warm_worker_available m2
                      in if a \<noteq> None then (Spawn_Started (sp\<lparr>sp_prior := Some (wi_engine i), sp_phase := Ph_Prior\<rparr>), m2)
                         else (Spawn_Started (sp\<lparr>sp_prior := Some (wi_engine i), sp_start_held := True, sp_warm_held := warm, sp_cold_held := \<not> warm,
                                  sp_phase := Ph_Prior\<rparr>),
                               m2\<lparr>mg_capacity_starts := mg_capacity_starts m2 + 1, mg_reserved_stops := List.insert (wi_engine i) (mg_reserved_stops m2),
                                  mg_warm_claims := mg_warm_claims m2 + (if warm then 1 else 0),
                                  mg_cold_starts := mg_cold_starts m2 + (if warm then 0 else 1)\<rparr>))"

text \<open>After the prior engine was stopped, or its stop raised.\<close>

definition spawn_prior_done :: "bool \<Rightarrow> spawn_local \<Rightarrow> manager \<Rightarrow> spawn_local \<times> manager" where
  "spawn_prior_done ok sp m =
     (sp\<lparr>sp_phase := if ok then Ph_Claim else Ph_Failed\<rparr>, untrack_stopping_engine (the (sp_prior sp)) m)"

definition try_claim_capacity_slot ::
  "int \<Rightarrow> (nat \<Rightarrow> engine_view) \<Rightarrow> manager \<Rightarrow> (capacity_admission \<times> manager) option" where
  "try_claim_capacity_slot workers view m =
     (if mg_closed m \<or> mg_spawn_waiters m \<noteq> [] then None else reserve_capacity workers view m)"

definition hold :: "capacity_admission \<Rightarrow> spawn_local \<Rightarrow> spawn_local" where
  "hold c sp =
     sp\<lparr>sp_start_held := True, sp_warm_held := ad_warm_claim c, sp_cold_held := ad_cold_start c, sp_evicted := ad_evicted c,
        sp_eviction_event := ad_event c, sp_phase := if ad_evicted c = None then Ph_Warm else Ph_Evict\<rparr>"

definition spawn_claim :: "int \<Rightarrow> (nat \<Rightarrow> engine_view) \<Rightarrow> spawn_local \<Rightarrow> manager \<Rightarrow> spawn_local \<times> manager" where
  "spawn_claim workers view sp m =
     (case sp_admission sp of
        Some a \<Rightarrow>
          (case admissions_of (sp_key sp) m of
             b # bs \<Rightarrow> if ad_id b = ad_id a then (hold a (sp\<lparr>sp_consumed := True\<rparr>), set_admissions (sp_key sp) bs m) else (hold a sp, m)
           | [] \<Rightarrow> (hold a sp, m))
      | None \<Rightarrow>
          if sp_prior sp \<noteq> None then (sp\<lparr>sp_phase := if sp_start_held sp then Ph_Warm else Ph_Failed\<rparr>, m)
          else case try_claim_capacity_slot workers view m of
                 None \<Rightarrow> (sp\<lparr>sp_phase := Ph_Failed\<rparr>, m)
               | Some (c, m1) \<Rightarrow> (hold c sp, m1))"

text \<open>After the evicted engine was stopped: it is untracked, then its event is finished.\<close>

definition spawn_evict_done :: "bool \<Rightarrow> spawn_local \<Rightarrow> manager \<Rightarrow> spawn_local \<times> manager" where
  "spawn_evict_done ok sp m =
     (sp\<lparr>sp_phase := Ph_Evict_Event ok\<rparr>, untrack_stopping_engine (wi_engine (snd (the (sp_evicted sp)))) m)"

definition spawn_evict_event :: "bool \<Rightarrow> spawn_local \<Rightarrow> manager \<Rightarrow> spawn_local \<times> manager" where
  "spawn_evict_event ok sp m =
     (sp\<lparr>sp_phase := if ok then Ph_Warm else Ph_Failed\<rparr>, finish_event_opt (fst (the (sp_evicted sp))) (sp_eviction_event sp) m)"

definition spawn_pop_warm :: "spawn_local \<Rightarrow> manager \<Rightarrow> spawn_local \<times> manager" where
  "spawn_pop_warm sp m =
     (let m1 = m\<lparr>mg_warm_claims := if sp_warm_held sp then down (mg_warm_claims m) else mg_warm_claims m\<rparr>
      in case mg_warm_workers m1 of
           [] \<Rightarrow> (sp\<lparr>sp_warm_held := False, sp_phase := Ph_Cold\<rparr>, m1)
         | c # cs \<Rightarrow> (sp\<lparr>sp_warm_held := False, sp_phase := Ph_Probe c\<rparr>,
                      m1\<lparr>mg_warm_workers := cs, mg_starting := List.insert c (mg_starting m1), mg_replenish_trigger := True\<rparr>))"

definition queue_rejected_warm_worker :: "nat \<Rightarrow> identity_key \<Rightarrow> manager \<Rightarrow> manager" where
  "queue_rejected_warm_worker e k m =
     m\<lparr>mg_starting := removeAll e (mg_starting m), mg_stopping_warm := List.insert e (mg_stopping_warm m),
       mg_cleanups := mg_cleanups m @ [\<lparr>wc_engine = e, wc_identity = k, wc_attempts = 0\<rparr>], mg_replenish_trigger := True\<rparr>"

text \<open>After the health probe: a healthy worker is bound to the identity, another one is rejected.\<close>

definition spawn_probed :: "bool \<Rightarrow> nat \<Rightarrow> spawn_local \<Rightarrow> manager \<Rightarrow> spawn_local \<times> manager" where
  "spawn_probed healthy c sp m =
     (if healthy then (sp\<lparr>sp_engine := Some c, sp_phase := Ph_Boot\<rparr>, m)
      else (sp\<lparr>sp_phase := Ph_Warm\<rparr>, queue_rejected_warm_worker c (sp_key sp) m))"

definition spawn_cold :: "spawn_local \<Rightarrow> manager \<Rightarrow> spawn_local \<times> manager" where
  "spawn_cold sp m =
     (sp\<lparr>sp_cold_held := True, sp_phase := Ph_Create\<rparr>, if sp_cold_held sp then m else m\<lparr>mg_cold_starts := mg_cold_starts m + 1\<rparr>)"

definition spawn_create :: "spawn_local \<Rightarrow> manager \<Rightarrow> spawn_local \<times> manager" where
  "spawn_create sp m =
     (sp\<lparr>sp_engine := Some (mg_fresh m), sp_phase := Ph_Boot\<rparr>,
      m\<lparr>mg_starting := List.insert (mg_fresh m) (mg_starting m), mg_fresh := Suc (mg_fresh m)\<rparr>)"

text \<open>The ticket becomes a live engine.\<close>

definition spawn_register :: "timestamp \<Rightarrow> spawn_local \<Rightarrow> manager \<Rightarrow> spawn_local \<times> manager" where
  "spawn_register now sp m =
     (let e = the (sp_engine sp);
          i = \<lparr>wi_engine = e, wi_last_activity = now, wi_build_id = None, wi_run_id = None, wi_active_reservations = if sp_reserve sp then 1 else 0\<rparr>
      in (sp\<lparr>sp_start_held := False, sp_registered := True, sp_phase := Ph_Exit\<rparr>,
          m\<lparr>mg_starting := removeAll e (mg_starting m), mg_engines := AList.update (sp_key sp) i (mg_engines m),
            mg_capacity_starts := if sp_start_held sp then down (mg_capacity_starts m) else mg_capacity_starts m\<rparr>))"

text \<open>The exception handler: an admission that is still queued is unclaimed and returned.\<close>

definition spawn_unclaim :: "spawn_local \<Rightarrow> manager \<Rightarrow> spawn_local \<times> manager" where
  "spawn_unclaim sp m =
     (case sp_admission sp of
        None \<Rightarrow> (sp\<lparr>sp_phase := Ph_Exit\<rparr>, m)
      | Some a \<Rightarrow>
          if sp_consumed sp then (sp\<lparr>sp_phase := Ph_Exit\<rparr>, m)
          else case admissions_of (sp_key sp) m of
                 b # bs \<Rightarrow> if ad_id b = ad_id a
                            then (sp\<lparr>sp_phase := Ph_Release\<rparr>, set_admissions (sp_key sp) (b\<lparr>ad_claimed := False\<rparr> # bs) m)
                            else (sp\<lparr>sp_phase := Ph_Check\<rparr>, m)
               | [] \<Rightarrow> (sp\<lparr>sp_phase := Ph_Check\<rparr>, m))"

definition spawn_check :: "spawn_local \<Rightarrow> manager \<Rightarrow> spawn_local" where
  "spawn_check sp m =
     (case sp_admission sp of
        Some a \<Rightarrow> if ad_id a \<in> set (mg_released m)
                  then sp\<lparr>sp_start_held := False, sp_warm_held := False, sp_cold_held := False, sp_phase := Ph_Exit\<rparr>
                  else sp\<lparr>sp_phase := Ph_Exit\<rparr>
      | None \<Rightarrow> sp\<lparr>sp_phase := Ph_Exit\<rparr>)"

definition spawn_exit :: "spawn_local \<Rightarrow> manager \<Rightarrow> manager" where
  "spawn_exit sp m =
     m\<lparr>mg_starting := (case sp_engine sp of None \<Rightarrow> mg_starting m | Some e \<Rightarrow> removeAll e (mg_starting m)),
       mg_warm_claims := if sp_warm_held sp then down (mg_warm_claims m) else mg_warm_claims m,
       mg_capacity_starts := if sp_start_held sp then down (mg_capacity_starts m) else mg_capacity_starts m,
       mg_cold_starts := if sp_cold_held sp then down (mg_cold_starts m) else mg_cold_starts m,
       mg_replenish_trigger := mg_replenish_trigger m \<or> sp_cold_held sp,
       mg_events := AList.delete (sp_key sp) (mg_events m),
       mg_events_set := (case dict_get (mg_events m) (sp_key sp) of None \<Rightarrow> mg_events_set m | Some ev \<Rightarrow> ev # mg_events_set m)\<rparr>"

definition release_reservation :: "identity_key \<Rightarrow> nat \<Rightarrow> manager \<Rightarrow> manager" where
  "release_reservation k e m =
     (case dict_get (mg_engines m) k of
        None \<Rightarrow> m
      | Some i \<Rightarrow> if wi_engine i = e
                  then m\<lparr>mg_engines := AList.update k (i\<lparr>wi_active_reservations := wi_active_reservations i - 1\<rparr>) (mg_engines m)\<rparr>
                  else m)"

definition set_runtime_context :: "identity_key \<Rightarrow> string option \<Rightarrow> string option \<Rightarrow> manager \<Rightarrow> manager" where
  "set_runtime_context k build run m =
     (case dict_get (mg_engines m) k of
        None \<Rightarrow> m
      | Some i \<Rightarrow> m\<lparr>mg_engines := AList.update k (i\<lparr>wi_build_id := build, wi_run_id := run\<rparr>) (mg_engines m)\<rparr>)"

subsection \<open>Stopping engines\<close>

text \<open>A call that stops an engine: its identity, the engine it took out of the map, its event, and whether the
  engine is untracked already.\<close>

record stop_local =
  st_key :: identity_key
  st_engine :: "nat option"
  st_event :: nat
  st_untracked :: bool

datatype stop_entry = Stop_Wait nat | Stop_Done bool | Stop_Started stop_local

definition take_out :: "identity_key \<Rightarrow> worker_info option \<Rightarrow> manager \<Rightarrow> stop_local \<times> manager" where
  "take_out k info m =
     (let m1 = m\<lparr>mg_events := AList.update k (mg_fresh m) (mg_events m), mg_engines := AList.delete k (mg_engines m), mg_fresh := Suc (mg_fresh m)\<rparr>
      in (\<lparr>st_key = k, st_engine = map_option wi_engine info, st_event = mg_fresh m, st_untracked = False\<rparr>,
          case info of None \<Rightarrow> m1 | Some i \<Rightarrow> track_stopping (wi_engine i) m1))"

definition shutdown_compute_worker :: "identity_key \<Rightarrow> manager \<Rightarrow> stop_entry \<times> manager" where
  "shutdown_compute_worker k m =
     (case dict_get (mg_events m) k of
        Some ev \<Rightarrow> (Stop_Wait ev, m)
      | None \<Rightarrow> (case take_out k (dict_get (mg_engines m) k) m of (st, m') \<Rightarrow> (Stop_Started st, m')))"

definition shutdown_compute_worker_if_idle :: "(nat \<Rightarrow> engine_view) \<Rightarrow> identity_key \<Rightarrow> manager \<Rightarrow> stop_entry \<times> manager" where
  "shutdown_compute_worker_if_idle view k m =
     (case dict_get (mg_events m) k of
        Some ev \<Rightarrow> (Stop_Wait ev, m)
      | None \<Rightarrow> (case dict_get (mg_engines m) k of
            None \<Rightarrow> (Stop_Done (reservations k m = 0 \<and> admissions_of k m = [] \<and> \<not> list_ex (\<lambda>w. sw_key w = k) (mg_spawn_waiters m)), m)
          | Some i \<Rightarrow> if busy view m (k, i) then (Stop_Done False, m)
                      else (case take_out k (Some i) m of (st, m') \<Rightarrow> (Stop_Started st, m'))))"

text \<open>Whether an engine is stopped with the request that lost its lease.\<close>

definition SHARED_POLICY :: "int \<Rightarrow> bool" where
  "SHARED_POLICY p \<longleftrightarrow> p = 1"

definition stops_after_lease_loss :: "(nat \<Rightarrow> engine_view) \<Rightarrow> identity_key \<Rightarrow> manager \<Rightarrow> bool" where
  "stops_after_lease_loss view k m \<longleftrightarrow>
     \<not> SHARED_POLICY (ik_reuse_policy k) \<and>
     (case dict_get (mg_engines m) k of
        None \<Rightarrow> False
      | Some i \<Rightarrow> reservations k m = 1 \<and> wi_active_reservations i \<le> 1 \<and> \<not> list_ex (\<lambda>w. sw_key w = k) (mg_spawn_waiters m) \<and>
                  admissions_of k m = [] \<and> \<not> truthy (ev_job (view (wi_engine i))))"

definition stop_untrack :: "stop_local \<Rightarrow> manager \<Rightarrow> stop_local \<times> manager" where
  "stop_untrack st m = (st\<lparr>st_untracked := True\<rparr>, case st_engine st of None \<Rightarrow> m | Some e \<Rightarrow> untrack_stopping_engine e m)"

definition stop_finish :: "stop_local \<Rightarrow> manager \<Rightarrow> manager" where
  "stop_finish st m = finish_engine_event (st_key st) (st_event st) m"

text \<open>The reaper: \<open>tracked\<close> is the map it read before it probed the engines, and \<open>alive\<close> what the probes said.\<close>

definition reapable ::
  "int \<Rightarrow> (nat \<Rightarrow> engine_view) \<Rightarrow> (nat \<Rightarrow> bool) \<Rightarrow> timestamp \<Rightarrow> manager \<Rightarrow> identity_key \<times> worker_info \<Rightarrow> bool" where
  "reapable ttl view alive now m x \<longleftrightarrow>
     (case dict_get (mg_engines m) (fst x) of
        None \<Rightarrow> False
      | Some i \<Rightarrow> wi_engine i = wi_engine (snd x) \<and> \<not> busy view m (fst x, i) \<and>
                  \<not> (alive (wi_engine i) \<and> now - wi_last_activity i < seconds ttl) \<and> dict_get (mg_events m) (fst x) = None)"

fun reap_idle_engines ::
  "int \<Rightarrow> (nat \<Rightarrow> engine_view) \<Rightarrow> (nat \<Rightarrow> bool) \<Rightarrow> timestamp \<Rightarrow> (identity_key \<times> worker_info) list \<Rightarrow> manager \<Rightarrow> stop_local list \<times> manager" where
  "reap_idle_engines ttl view alive now [] m = ([], m)"
| "reap_idle_engines ttl view alive now (x # xs) m =
     (if reapable ttl view alive now m x
      then case take_out (fst x) (dict_get (mg_engines m) (fst x)) m of (st, m1) \<Rightarrow>
             (case reap_idle_engines ttl view alive now xs m1 of (sts, m2) \<Rightarrow> (st # sts, m2))
      else reap_idle_engines ttl view alive now xs m)"

subsection \<open>The warm reserve\<close>

datatype replenish_step = Start_Warm | Clean_Up warm_cleanup | Replenish_Stop | Replenish_Wait | Replenish_Idle

definition replenish_begin :: "bool \<Rightarrow> bool \<Rightarrow> manager \<Rightarrow> replenish_step \<times> manager" where
  "replenish_begin factory reaper_stop m =
     (let stopping = mg_closed m \<or> reaper_stop;
          total = int (length (mg_warm_workers m)) + mg_warm_starts m + int (length (mg_stopping_warm m))
      in if \<not> stopping \<and> factory \<and> total < max (mg_warm_target m) 0
         then (Start_Warm, m\<lparr>mg_cold_starts := mg_cold_starts m + 1, mg_warm_starts := mg_warm_starts m + 1\<rparr>)
         else case mg_cleanups m of
                c # cs \<Rightarrow> (Clean_Up c, m\<lparr>mg_cleanups := cs\<rparr>)
              | [] \<Rightarrow> (if stopping \<or> \<not> factory then (if stopping \<and> mg_events m \<noteq> [] then Replenish_Wait else Replenish_Stop)
                       else Replenish_Idle, m))"

text \<open>\<open>engine\<close> is the worker that was started, if it was; the result says whether it is discarded.\<close>

definition replenish_end :: "bool \<Rightarrow> nat option \<Rightarrow> manager \<Rightarrow> bool \<times> manager" where
  "replenish_end reaper_stop engine m =
     (let m1 = m\<lparr>mg_warm_starts := down (mg_warm_starts m), mg_cold_starts := down (mg_cold_starts m), mg_replenish_trigger := True\<rparr>
      in case engine of
           None \<Rightarrow> (False, m1)
         | Some e \<Rightarrow>
             if mg_closed m \<or> reaper_stop then (True, m1)
             else if int (length (mg_warm_workers m)) < max (mg_warm_target m) 0
             then (False, m1\<lparr>mg_starting := removeAll e (mg_starting m1), mg_warm_workers := mg_warm_workers m1 @ [e]\<rparr>)
             else (True, m1))"

definition cleanup_end :: "bool \<Rightarrow> bool \<Rightarrow> warm_cleanup \<Rightarrow> manager \<Rightarrow> manager" where
  "cleanup_end ok reaper_stop c m =
     (if ok \<or> mg_closed m \<or> reaper_stop then m\<lparr>mg_stopping_warm := removeAll (wc_engine c) (mg_stopping_warm m)\<rparr>
      else m\<lparr>mg_cleanups := c\<lparr>wc_attempts := Suc (wc_attempts c)\<rparr> # mg_cleanups m\<rparr>)"

text \<open>The delay before the next attempt, in milliseconds.\<close>

definition cleanup_retry_delay :: "warm_cleanup \<Rightarrow> nat" where
  "cleanup_retry_delay c = min (250 * 2 ^ min (wc_attempts c) 4) 4000"

subsection \<open>Shutdown\<close>

definition shutdown_close :: "manager \<Rightarrow> manager" where
  "shutdown_close m = m\<lparr>mg_closed := True, mg_replenish_trigger := True\<rparr>"

definition shutdown_collect :: "manager \<Rightarrow> manager" where
  "shutdown_collect m =
     (let unclaimed = filter (\<lambda>a. \<not> ad_claimed a) (concat (map snd (mg_admissions m)))
      in m\<lparr>mg_warm_workers := [], mg_warm_claims := 0, mg_stopping := fold List.insert (mg_warm_workers m) (mg_stopping m),
           mg_capacity_waiters := [], mg_spawn_waiters := [],
           mg_resolved := mg_resolved m @ map (\<lambda>w. (sw_id w, Was_Closed)) (mg_spawn_waiters m) @ map (\<lambda>f. (f, Was_Closed)) (mg_capacity_waiters m),
           mg_released := map ad_id unclaimed @ mg_released m, mg_admissions := [], mg_request_reservations := [], mg_capacity_starts := 0,
           mg_cold_starts := max 0 (mg_cold_starts m - int (length (filter ad_cold_start unclaimed)))\<rparr>)"

definition shutdown_drain :: "manager \<Rightarrow> manager" where
  "shutdown_drain m = m\<lparr>mg_cleanups := []\<rparr>"

definition shutdown_engines :: "manager \<Rightarrow> manager" where
  "shutdown_engines m =
     m\<lparr>mg_engines := [], mg_stopping := fold (\<lambda>x. List.insert (wi_engine (snd x))) (mg_engines m) (mg_stopping m)\<rparr>"

definition managed_engines :: "manager \<Rightarrow> nat list" where
  "managed_engines m =
     map (\<lambda>x. wi_engine (snd x)) (mg_engines m) @ mg_warm_workers m @ mg_starting m @ mg_stopping m @ mg_stopping_warm m"

end
