(* ===== verification/Engine_System.thy ===== *)
theory Engine_System
  imports Engine_Manager
begin

text \<open>
  The calls on the process manager as a transition system. A state is the manager, the engines' own
  state, and the calls that are between two of their locked sections; a step is one locked section. A
  call that notifies the waiters after a section owes a notification, which is a step of its own. The
  steps of the calls interleave freely.

  Two rules of use are built in, which all callers in \<open>worker/runtime/compute_request_runtime.py\<close>,
  \<open>worker/builds/build_execution.py\<close> and \<open>acquire_engine\<close> keep: an engine is only spawned under a reservation of its
  identity (or one that the spawn itself makes), and a reservation is not returned before the call it was made for.
\<close>

record system =
  sy_manager :: manager
  sy_view :: "nat \<Rightarrow> engine_view"
  sy_spawns :: "spawn_local list"
  sy_releases :: "pending_release list"
  sy_stops :: "stop_local list"
  sy_tails :: "(identity_key \<times> nat option) list"
  sy_owed :: nat

abbreviation owe :: "system \<Rightarrow> system" where
  "owe s \<equiv> s\<lparr>sy_owed := Suc (sy_owed s)\<rparr>"

abbreviation with_manager :: "manager \<Rightarrow> system \<Rightarrow> system" where
  "with_manager m s \<equiv> s\<lparr>sy_manager := m\<rparr>"

text \<open>The sections of a spawn that is in progress, with whether a notification follows.\<close>

inductive spawn_section ::
  "int \<Rightarrow> (nat \<Rightarrow> engine_view) \<Rightarrow> timestamp \<Rightarrow> spawn_local \<Rightarrow> manager \<Rightarrow> spawn_local \<Rightarrow> manager \<Rightarrow> bool \<Rightarrow> bool"
  for workers view now sp m where
  sec_prior: "sp_phase sp = Ph_Prior \<Longrightarrow> spawn_prior_done ok sp m = (sp', m') \<Longrightarrow> spawn_section workers view now sp m sp' m' False"
| sec_claim: "sp_phase sp = Ph_Claim \<Longrightarrow> spawn_claim workers view sp m = (sp', m') \<Longrightarrow> spawn_section workers view now sp m sp' m' False"
| sec_evict: "sp_phase sp = Ph_Evict \<Longrightarrow> spawn_evict_done ok sp m = (sp', m') \<Longrightarrow> spawn_section workers view now sp m sp' m' False"
| sec_event: "sp_phase sp = Ph_Evict_Event ok \<Longrightarrow> spawn_evict_event ok sp m = (sp', m') \<Longrightarrow> spawn_section workers view now sp m sp' m' True"
| sec_warm: "sp_phase sp = Ph_Warm \<Longrightarrow> spawn_pop_warm sp m = (sp', m') \<Longrightarrow> spawn_section workers view now sp m sp' m' False"
| sec_probe: "sp_phase sp = Ph_Probe c \<Longrightarrow> spawn_probed healthy c sp m = (sp', m') \<Longrightarrow> spawn_section workers view now sp m sp' m' False"
| sec_cold: "sp_phase sp = Ph_Cold \<Longrightarrow> spawn_cold sp m = (sp', m') \<Longrightarrow> spawn_section workers view now sp m sp' m' False"
| sec_create: "sp_phase sp = Ph_Create \<Longrightarrow> spawn_create sp m = (sp', m') \<Longrightarrow> spawn_section workers view now sp m sp' m' False"
| sec_fail: "sp_phase sp = Ph_Create \<or> sp_phase sp = Ph_Boot \<Longrightarrow> spawn_section workers view now sp m (sp\<lparr>sp_phase := Ph_Failed\<rparr>) m False"
| sec_register: "sp_phase sp = Ph_Boot \<Longrightarrow> spawn_register now sp m = (sp', m') \<Longrightarrow> spawn_section workers view now sp m sp' m' True"
| sec_unclaim: "sp_phase sp = Ph_Failed \<Longrightarrow> spawn_unclaim sp m = (sp', m') \<Longrightarrow> spawn_section workers view now sp m sp' m' False"
| sec_check: "sp_phase sp = Ph_Check \<Longrightarrow> spawn_section workers view now sp m (spawn_check sp m) m False"

inductive engine_step :: "int \<Rightarrow> resource_config \<Rightarrow> int \<Rightarrow> system \<Rightarrow> system \<Rightarrow> bool"
  for workers defaults ttl where
  en_view: "engine_step workers defaults ttl s (owe (s\<lparr>sy_view := v\<rparr>))"
| en_view_quiet: "\<forall>e. truthy (ev_job (sy_view s e)) \<longrightarrow> truthy (ev_job (v e)) \<Longrightarrow> engine_step workers defaults ttl s (s\<lparr>sy_view := v\<rparr>)"
| en_notify: "engine_step workers defaults ttl s
    (s\<lparr>sy_manager := notify_capacity_changed workers (sy_view s) now (sy_manager s), sy_owed := sy_owed s - 1\<rparr>)"
| en_turn: "identity_turn k (sy_manager s) = (r, m') \<Longrightarrow> engine_step workers defaults ttl s (with_manager m' s)"
| en_forget: "engine_step workers defaults ttl s (with_manager (forget_capacity_waiter f (sy_manager s)) s)"
| en_enter: "enter_spawn_admission workers (sy_view s) now k priority reserve (sy_manager s) = (r, m') \<Longrightarrow> priority < ADMISSION_PRIORITIES \<Longrightarrow>
    engine_step workers defaults ttl s (with_manager m' s)"
| en_cancel: "engine_step workers defaults ttl s (owe (with_manager (cancel_spawn_waiter workers (sy_view s) now f (sy_manager s)) s))"
| en_reserve: "reserve_engine_request now k (sy_manager s) = Inr m' \<Longrightarrow> engine_step workers defaults ttl s (with_manager m' s)"
| en_unreserve: "\<forall>sp \<in> set (sy_spawns s). sp_key sp = k \<longrightarrow> sp_reserve sp \<or> 1 < reservations k (sy_manager s) \<Longrightarrow>
    engine_step workers defaults ttl s (owe (with_manager (release_engine_request k (sy_manager s)) s))"
| en_wait: "wait_for_capacity workers (sy_view s) (sy_manager s) = (r, m') \<Longrightarrow> engine_step workers defaults ttl s (with_manager m' s)"
| en_release: "release_spawn_admission workers (sy_view s) now k (sy_manager s) = (r, m') \<Longrightarrow>
    engine_step workers defaults ttl s (case r of Restoring pr \<Rightarrow> (with_manager m' s)\<lparr>sy_releases := pr # sy_releases s\<rparr> | _ \<Rightarrow> owe (with_manager m' s))"
| en_restore: "sy_releases s = xs @ pr # ys \<Longrightarrow> \<not> mg_closed (sy_manager s) \<Longrightarrow>
    engine_step workers defaults ttl s (s\<lparr>sy_manager := restore_evicted workers (sy_view s) now pr (sy_manager s), sy_releases := xs @ ys,
      sy_tails := (pr_key pr, pr_event pr) # sy_tails s\<rparr>)"
| en_evicted: "sy_releases s = xs @ pr # ys \<Longrightarrow>
    engine_step workers defaults ttl s (s\<lparr>sy_manager := evicted_stopped workers (sy_view s) now pr (sy_manager s), sy_releases := xs @ ys,
      sy_tails := (pr_key pr, pr_event pr) # sy_tails s\<rparr>)"
| en_tail: "sy_tails s = xs @ (k, ev) # ys \<Longrightarrow>
    engine_step workers defaults ttl s (owe (s\<lparr>sy_manager := finish_event_opt k ev (sy_manager s), sy_tails := xs @ ys\<rparr>))"
| en_spawn: "spawn_enter (sy_view s) now defaults cfg reserve k (sy_manager s) = (r, m') \<Longrightarrow>
    reserve \<or> 0 < reservations k (sy_manager s) \<Longrightarrow>
    engine_step workers defaults ttl s (case r of Spawn_Started sp \<Rightarrow> (with_manager m' s)\<lparr>sy_spawns := sp # sy_spawns s\<rparr> | _ \<Rightarrow> with_manager m' s)"
| en_section: "sy_spawns s = xs @ sp # ys \<Longrightarrow> spawn_section workers (sy_view s) now sp (sy_manager s) sp' m' notifies \<Longrightarrow>
    engine_step workers defaults ttl s (s\<lparr>sy_manager := m', sy_spawns := xs @ sp' # ys, sy_owed := sy_owed s + (if notifies then 1 else 0)\<rparr>)"
| en_spawn_release: "sy_spawns s = xs @ sp # ys \<Longrightarrow> sp_phase sp = Ph_Release \<Longrightarrow>
    release_spawn_admission workers (sy_view s) now (sp_key sp) (sy_manager s) = (r, m') \<Longrightarrow>
    engine_step workers defaults ttl s
      (let s' = s\<lparr>sy_manager := m', sy_spawns := xs @ sp\<lparr>sp_phase := Ph_Check\<rparr> # ys\<rparr>
       in case r of Restoring pr \<Rightarrow> s'\<lparr>sy_releases := pr # sy_releases s\<rparr> | _ \<Rightarrow> owe s')"
| en_spawn_exit: "sy_spawns s = xs @ sp # ys \<Longrightarrow> sp_phase sp = Ph_Exit \<Longrightarrow>
    engine_step workers defaults ttl s (owe (s\<lparr>sy_manager := spawn_exit sp (sy_manager s), sy_spawns := xs @ ys\<rparr>))"
| en_done: "\<forall>sp \<in> set (sy_spawns s). sp_key sp = k \<longrightarrow> sp_engine sp \<noteq> Some e \<Longrightarrow>
    engine_step workers defaults ttl s (owe (with_manager (release_reservation k e (sy_manager s)) s))"
| en_context: "engine_step workers defaults ttl s (with_manager (set_runtime_context k b r (sy_manager s)) s)"
| en_shutdown: "shutdown_compute_worker k (sy_manager s) = (Stop_Started st, m') \<Longrightarrow>
    engine_step workers defaults ttl s ((with_manager m' s)\<lparr>sy_stops := st # sy_stops s\<rparr>)"
| en_shutdown_idle: "shutdown_compute_worker_if_idle (sy_view s) k (sy_manager s) = (Stop_Started st, m') \<Longrightarrow>
    engine_step workers defaults ttl s ((with_manager m' s)\<lparr>sy_stops := st # sy_stops s\<rparr>)"
| en_reap: "reap_idle_engines ttl (sy_view s) alive now tracked (sy_manager s) = (sts, m') \<Longrightarrow>
    engine_step workers defaults ttl s ((with_manager m' s)\<lparr>sy_stops := sts @ sy_stops s\<rparr>)"
| en_untrack: "sy_stops s = xs @ st # ys \<Longrightarrow> \<not> st_untracked st \<Longrightarrow> stop_untrack st (sy_manager s) = (st', m') \<Longrightarrow>
    engine_step workers defaults ttl s (s\<lparr>sy_manager := m', sy_stops := xs @ st' # ys\<rparr>)"
| en_stop: "sy_stops s = xs @ st # ys \<Longrightarrow> st_untracked st \<Longrightarrow>
    engine_step workers defaults ttl s (owe (s\<lparr>sy_manager := stop_finish st (sy_manager s), sy_stops := xs @ ys\<rparr>))"
| en_replenish: "replenish_begin factory stopping (sy_manager s) = (r, m') \<Longrightarrow> engine_step workers defaults ttl s (with_manager m' s)"
| en_track: "engine_step workers defaults ttl s (with_manager ((sy_manager s)\<lparr>mg_starting := List.insert (mg_fresh (sy_manager s)) (mg_starting (sy_manager s)),
      mg_fresh := Suc (mg_fresh (sy_manager s))\<rparr>) s)"
| en_replenished: "replenish_end stopping engine (sy_manager s) = (d, m') \<Longrightarrow> engine_step workers defaults ttl s (owe (with_manager m' s))"
| en_discard: "engine_step workers defaults ttl s (with_manager ((sy_manager s)\<lparr>mg_starting := removeAll e (mg_starting (sy_manager s))\<rparr>) s)"
| en_cleanup: "engine_step workers defaults ttl s (with_manager (cleanup_end ok stopping c (sy_manager s)) s)"
| en_close: "engine_step workers defaults ttl s (with_manager (shutdown_close (sy_manager s)) s)"
| en_collect: "mg_closed (sy_manager s) \<Longrightarrow> engine_step workers defaults ttl s (with_manager (shutdown_collect (sy_manager s)) s)"
| en_drain: "mg_closed (sy_manager s) \<Longrightarrow> engine_step workers defaults ttl s (with_manager (shutdown_drain (sy_manager s)) s)"
| en_engines: "mg_closed (sy_manager s) \<Longrightarrow> engine_step workers defaults ttl s (with_manager (shutdown_engines (sy_manager s)) s)"

definition empty_manager :: "int \<Rightarrow> manager" where
  "empty_manager target =
     \<lparr>mg_engines = [], mg_capacity_starts = 0, mg_reserved_stops = [], mg_cold_starts = 0, mg_warm_target = target, mg_capacity_waiters = [],
      mg_spawn_waiters = [], mg_next_priority = 0, mg_admissions = [], mg_events = [], mg_events_set = [], mg_request_reservations = [],
      mg_starting = [], mg_stopping = [], mg_stopping_warm = [], mg_cleanups = [], mg_closed = False, mg_warm_workers = [], mg_warm_claims = 0,
      mg_warm_starts = 0, mg_replenish_trigger = False, mg_released = [], mg_resolved = [], mg_fresh = 0\<rparr>"

definition start_system :: "int \<Rightarrow> (nat \<Rightarrow> engine_view) \<Rightarrow> system" where
  "start_system target view =
     \<lparr>sy_manager = empty_manager target, sy_view = view, sy_spawns = [], sy_releases = [], sy_stops = [], sy_tails = [], sy_owed = 0\<rparr>"

end
