(* ===== verification/Engine_Facts.thy ===== *)
theory Engine_Facts
  imports Engine_System "HOL-Library.Multiset"
begin

text \<open>
  The process manager never runs more containers than it may, and its tickets are accounted for: in every
  state that its calls can reach, the number of active starts is the number of admissions and calls that
  hold a ticket, and engines that run, stop or boot for an identity never exceed the capacity. The proof
  needs that calls on one identity exclude each other, which the events of the identities ensure.
\<close>

subsection \<open>Dictionaries\<close>

lemma alist_split:
  assumes "distinct (map fst d)" and "map_of d k = Some v"
  shows "\<exists>xs ys. d = xs @ (k, v) # ys \<and> (\<forall>v'. AList.update k v' d = xs @ (k, v') # ys) \<and> AList.delete k d = xs @ ys"
  using assms
proof (induction d)
  case (Cons x d)
  obtain k' v' where x: "x = (k', v')" by (cases x)
  show ?case
  proof (cases "k' = k")
    case True
    then have "AList.delete k d = d" using Cons.prems(1) x by simp
    then have "x # d = [] @ (k, v) # d \<and> (\<forall>v'. AList.update k v' (x # d) = [] @ (k, v') # d) \<and> AList.delete k (x # d) = [] @ d"
      using True Cons.prems(2) x by simp
    then show ?thesis by blast
  next
    case False
    then obtain xs ys where "d = xs @ (k, v) # ys" "\<forall>v'. AList.update k v' d = xs @ (k, v') # ys" "AList.delete k d = xs @ ys"
      using Cons.IH Cons.prems x by auto
    then have "x # d = (x # xs) @ (k, v) # ys \<and> (\<forall>v'. AList.update k v' (x # d) = (x # xs) @ (k, v') # ys) \<and> AList.delete k (x # d) = (x # xs) @ ys"
      using False x by simp
    then show ?thesis by blast
  qed
qed simp

lemma alist_new: "map_of d k = None \<Longrightarrow> AList.update k v d = d @ [(k, v)]"
  by (induction d) auto

lemma length_delete: "map_of d k \<noteq> None \<Longrightarrow> length (AList.delete k d) < length d"
  by (induction d) (auto simp: less_Suc_eq_le length_delete_le split: if_splits)

lemma length_update: "length (AList.update k v d) = (if map_of d k = None then Suc (length d) else length d)"
  by (induction d) auto

subsection \<open>Tickets\<close>

definition queued :: "manager \<Rightarrow> capacity_admission list" where
  "queued m = concat (map snd (mg_admissions m))"

definition tickets :: "capacity_admission list \<Rightarrow> spawn_local list \<Rightarrow> pending_release list \<Rightarrow> nat" where
  "tickets qs sps prs = length qs + length (filter sp_start_held sps) + length prs"

definition ad_stops :: "capacity_admission \<Rightarrow> nat list" where
  "ad_stops a = (case ad_evicted a of None \<Rightarrow> [] | Some x \<Rightarrow> [wi_engine (snd x)])"

definition sp_stops :: "spawn_local \<Rightarrow> nat list" where
  "sp_stops sp = (case sp_phase sp of
     Ph_Prior \<Rightarrow> if sp_start_held sp then [the (sp_prior sp)] else []
   | Ph_Evict \<Rightarrow> [wi_engine (snd (the (sp_evicted sp)))] | _ \<Rightarrow> [])"

text \<open>The stops that are paid for by a ticket.\<close>

definition paid_stops :: "capacity_admission list \<Rightarrow> spawn_local list \<Rightarrow> pending_release list \<Rightarrow> nat list" where
  "paid_stops qs sps prs = concat (map ad_stops qs) @ concat (map sp_stops sps) @ map (\<lambda>pr. wi_engine (pr_info pr)) prs"

definition booting :: "spawn_local \<Rightarrow> bool" where
  "booting sp \<longleftrightarrow> sp_engine sp \<noteq> None \<and> \<not> sp_registered sp"

definition accounted :: "int \<Rightarrow> manager \<Rightarrow> capacity_admission list \<Rightarrow> spawn_local list \<Rightarrow> pending_release list \<Rightarrow> bool" where
  "accounted workers m qs sps prs \<longleftrightarrow>
     mg_capacity_starts m = int (tickets qs sps prs) \<and> capacity_used m \<le> workers \<and> distinct (mg_reserved_stops m) \<and>
     set (mg_reserved_stops m) \<subseteq> set (mg_stopping m) \<and> set (mg_reserved_stops m) \<subseteq> set (paid_stops qs sps prs)"

subsection \<open>Exclusive identities\<close>

definition ad_owns :: "capacity_admission \<Rightarrow> (identity_key \<times> nat option) list" where
  "ad_owns a = (case ad_evicted a of None \<Rightarrow> [] | Some x \<Rightarrow> [(fst x, ad_event a)])"

definition evicting :: "spawn_local \<Rightarrow> bool" where
  "evicting sp \<longleftrightarrow> (case sp_phase sp of Ph_Evict \<Rightarrow> True | Ph_Evict_Event _ \<Rightarrow> True | _ \<Rightarrow> False)"

definition sp_owns :: "spawn_local \<Rightarrow> (identity_key \<times> nat option) list" where
  "sp_owns sp = (sp_key sp, Some (sp_event sp)) # (if evicting sp then [(fst (the (sp_evicted sp)), sp_eviction_event sp)] else [])"

text \<open>The identities that a call or an admission holds, with the event it installed.\<close>

definition owners ::
  "capacity_admission list \<Rightarrow> spawn_local list \<Rightarrow> pending_release list \<Rightarrow> stop_local list \<Rightarrow> (identity_key \<times> nat option) list" where
  "owners qs sps prs sts = concat (map ad_owns qs) @ concat (map sp_owns sps) @ map (\<lambda>pr. (pr_key pr, pr_event pr)) prs @
     map (\<lambda>st. (st_key st, Some (st_event st))) sts"

definition registered_at :: "identity_key \<Rightarrow> spawn_local list \<Rightarrow> bool" where
  "registered_at k sps \<longleftrightarrow> (\<exists>sp \<in> set sps. sp_key sp = k \<and> sp_registered sp)"

definition exclusive :: "manager \<Rightarrow> spawn_local list \<Rightarrow> (identity_key \<times> nat option) list \<Rightarrow> (identity_key \<times> nat option) list \<Rightarrow> bool" where
  "exclusive m sps own tls \<longleftrightarrow>
     distinct (map fst own) \<and>
     (\<forall>x \<in> set own. snd x \<noteq> None \<and> dict_get (mg_events m) (fst x) = snd x) \<and>
     (\<forall>x \<in> set own. dict_get (mg_engines m) (fst x) \<noteq> None \<longrightarrow> registered_at (fst x) sps) \<and>
     (\<forall>x \<in> set own \<union> set tls. \<forall>n. snd x = Some n \<longrightarrow> n < mg_fresh m) \<and>
     set tls \<inter> set own = {} \<and> distinct (map fst (mg_engines m))"

text \<open>What a spawn in progress relies on.\<close>

definition protected :: "manager \<Rightarrow> spawn_local \<Rightarrow> bool" where
  "protected m sp \<longleftrightarrow>
     (sp_reserve sp \<or> 0 < reservations (sp_key sp) m) \<and>
     (sp_registered sp \<longrightarrow> (\<forall>i. dict_get (mg_engines m) (sp_key sp) = Some i \<longrightarrow>
        sp_engine sp = Some (wi_engine i) \<and> (sp_reserve sp \<longrightarrow> 0 < wi_active_reservations i)))"

definition early :: "spawn_local \<Rightarrow> bool" where
  "early sp \<longleftrightarrow> sp_phase sp = Ph_Prior \<or> sp_phase sp = Ph_Claim"

definition holding :: "spawn_phase \<Rightarrow> bool" where
  "holding ph \<longleftrightarrow> (case ph of Ph_Evict \<Rightarrow> True | Ph_Evict_Event _ \<Rightarrow> True | Ph_Warm \<Rightarrow> True | Ph_Probe _ \<Rightarrow> True | Ph_Cold \<Rightarrow> True
     | Ph_Create \<Rightarrow> True | Ph_Boot \<Rightarrow> True | _ \<Rightarrow> False)"

definition sp_ok :: "spawn_local \<Rightarrow> bool" where
  "sp_ok sp \<longleftrightarrow>
     (holding (sp_phase sp) \<longrightarrow> sp_start_held sp \<and> (sp_admission sp \<noteq> None \<longrightarrow> sp_consumed sp) \<and> (sp_engine sp \<noteq> None \<longleftrightarrow> sp_phase sp = Ph_Boot)) \<and>
     (early sp \<longrightarrow> sp_engine sp = None \<and> \<not> sp_consumed sp \<and> (sp_start_held sp \<longleftrightarrow> sp_admission sp = None \<and> sp_prior sp \<noteq> None)) \<and>
     (sp_phase sp = Ph_Prior \<longrightarrow> sp_prior sp \<noteq> None) \<and>
     (sp_phase sp \<noteq> Ph_Exit \<longrightarrow> \<not> sp_registered sp) \<and>
     (booting sp \<longrightarrow> sp_start_held sp) \<and> (sp_registered sp \<longrightarrow> \<not> sp_start_held sp) \<and>
     (sp_admission sp \<noteq> None \<and> \<not> sp_consumed sp \<longrightarrow> sp_engine sp = None \<and> \<not> sp_start_held sp) \<and>
     (sp_phase sp = Ph_Release \<or> sp_phase sp = Ph_Check \<longrightarrow> sp_admission sp \<noteq> None \<and> \<not> sp_consumed sp) \<and>
     (evicting sp \<longrightarrow> sp_evicted sp \<noteq> None)"

definition core_inv ::
  "int \<Rightarrow> manager \<Rightarrow> capacity_admission list \<Rightarrow> spawn_local list \<Rightarrow> pending_release list \<Rightarrow> stop_local list \<Rightarrow> (identity_key \<times> nat option) list \<Rightarrow> bool" where
  "core_inv workers m qs sps prs sts tls \<longleftrightarrow>
     accounted workers m qs sps prs \<and> exclusive m sps (owners qs sps prs sts) tls \<and> (\<forall>sp \<in> set sps. protected m sp \<and> sp_ok sp)"

text \<open>The admission that a spawn has claimed stays the first one of its identity until the spawn takes it.\<close>

definition claims :: "manager \<Rightarrow> spawn_local \<Rightarrow> bool" where
  "claims m sp \<longleftrightarrow> (\<forall>a. early sp \<and> sp_admission sp = Some a \<longrightarrow> ad_claimed a \<and> (\<exists>as. admissions_of (sp_key sp) m = a # as))"

definition engine_inv ::
  "int \<Rightarrow> manager \<Rightarrow> spawn_local list \<Rightarrow> pending_release list \<Rightarrow> stop_local list \<Rightarrow> (identity_key \<times> nat option) list \<Rightarrow> bool" where
  "engine_inv workers m sps prs sts tls \<longleftrightarrow>
     mg_closed m \<or>
     (core_inv workers m (queued m) sps prs sts tls \<and> (\<forall>sp \<in> set sps. claims m sp) \<and> distinct (map fst (mg_admissions m)))"

definition system_inv :: "int \<Rightarrow> system \<Rightarrow> bool" where
  "system_inv workers s \<longleftrightarrow> engine_inv workers (sy_manager s) (sy_spawns s) (sy_releases s) (sy_stops s) (sy_tails s)"

subsection \<open>Frames\<close>

text \<open>Sections that change nothing the invariant speaks of.\<close>

definition engines_like :: "(identity_key \<times> worker_info) list \<Rightarrow> (identity_key \<times> worker_info) list \<Rightarrow> bool" where
  "engines_like d d' \<longleftrightarrow> map fst d' = map fst d \<and>
     (\<forall>k i. dict_get d' k = Some i \<longrightarrow>
        (\<exists>j. dict_get d k = Some j \<and> wi_engine i = wi_engine j \<and> wi_active_reservations j \<le> wi_active_reservations i))"

definition same_core :: "manager \<Rightarrow> manager \<Rightarrow> bool" where
  "same_core m m' \<longleftrightarrow>
     mg_capacity_starts m' = mg_capacity_starts m \<and> mg_stopping m' = mg_stopping m \<and>
     mg_reserved_stops m' = mg_reserved_stops m \<and> mg_admissions m' = mg_admissions m \<and> mg_events m' = mg_events m \<and>
     mg_closed m' = mg_closed m \<and> mg_fresh m \<le> mg_fresh m' \<and> engines_like (mg_engines m) (mg_engines m') \<and>
     (\<forall>k. reservations k m \<le> reservations k m')"

lemma engines_like_refl [simp]: "engines_like d d"
  by (auto simp: engines_like_def)

lemma engines_like_trans:
  assumes "engines_like a b" and "engines_like b c"
  shows "engines_like a c"
  unfolding engines_like_def
proof (intro conjI allI impI)
  show "map fst c = map fst a" using assms by (simp add: engines_like_def)
  fix k i assume "dict_get c k = Some i"
  then obtain j where "dict_get b k = Some j" "wi_engine i = wi_engine j" "wi_active_reservations j \<le> wi_active_reservations i"
    using assms(2) unfolding engines_like_def by blast
  then show "\<exists>j. dict_get a k = Some j \<and> wi_engine i = wi_engine j \<and> wi_active_reservations j \<le> wi_active_reservations i"
    using assms(1) unfolding engines_like_def by (metis order_trans)
qed

lemma engines_like_None: "engines_like d d' \<Longrightarrow> dict_get d' k = None \<longleftrightarrow> dict_get d k = None"
  by (metis engines_like_def map_of_eq_None_iff set_map)

lemma same_core_refl [simp]: "same_core m m"
  by (simp add: same_core_def)

lemma same_core_trans: "same_core a b \<Longrightarrow> same_core b c \<Longrightarrow> same_core a c"
  by (auto simp: same_core_def intro: engines_like_trans order_trans)

lemma exclusive_mono:
  assumes "exclusive m sps own tls" and "mg_events m' = mg_events m" and "mg_fresh m \<le> mg_fresh m'"
    and "\<And>k. dict_get (mg_engines m') k \<noteq> None \<Longrightarrow> dict_get (mg_engines m) k \<noteq> None" and "distinct (map fst (mg_engines m'))"
  shows "exclusive m' sps own tls"
proof -
  have "\<forall>x \<in> set own. dict_get (mg_engines m') (fst x) \<noteq> None \<longrightarrow> registered_at (fst x) sps"
    using assms(1,4) unfolding exclusive_def by meson
  moreover have "\<forall>x \<in> set own \<union> set tls. \<forall>n. snd x = Some n \<longrightarrow> n < mg_fresh m'"
    using assms(1,3) unfolding exclusive_def by (meson less_le_trans)
  ultimately show ?thesis using assms(1,5) unfolding exclusive_def assms(2) by blast
qed

lemma core_frame:
  assumes c: "same_core m m'" and inv: "core_inv workers m qs sps prs sts tls"
  shows "core_inv workers m' qs sps prs sts tls"
proof -
  have e: "engines_like (mg_engines m) (mg_engines m')" using c by (simp add: same_core_def)
  then have len: "length (mg_engines m') = length (mg_engines m)" by (metis engines_like_def length_map)
  have "accounted workers m' qs sps prs"
    using inv c len by (simp add: core_inv_def accounted_def capacity_used_def same_core_def)
  moreover have "exclusive m' sps (owners qs sps prs sts) tls"
  proof (rule exclusive_mono [of m])
    show "exclusive m sps (owners qs sps prs sts) tls" using inv by (simp add: core_inv_def)
    then show "distinct (map fst (mg_engines m'))" using e by (simp add: exclusive_def engines_like_def)
    show "dict_get (mg_engines m) k \<noteq> None" if "dict_get (mg_engines m') k \<noteq> None" for k using that engines_like_None [OF e, of k] by simp
  qed (use c in \<open>simp_all add: same_core_def\<close>)
  moreover have "protected m' sp" if "sp \<in> set sps" for sp
  proof -
    have "protected m sp" using inv that by (simp add: core_inv_def)
    then show ?thesis using c unfolding protected_def same_core_def engines_like_def by (metis (no_types, lifting) less_le_trans)
  qed
  ultimately show ?thesis using inv by (simp add: core_inv_def)
qed

lemma engine_frame:
  assumes c: "same_core m m'" and inv: "engine_inv workers m sps prs sts tls"
  shows "engine_inv workers m' sps prs sts tls"
proof -
  have "queued m' = queued m" "\<And>k. admissions_of k m' = admissions_of k m" "mg_closed m' = mg_closed m" "mg_admissions m' = mg_admissions m"
    using c by (simp_all add: queued_def admissions_of_def same_core_def)
  then show ?thesis using inv core_frame [OF c] by (auto simp: engine_inv_def claims_def)
qed

lemma map_of_touch: "map_of (map (\<lambda>(k', i). (k', if k' = k then f i else i)) d) j = (if j = k then map_option f (map_of d k) else map_of d j)"
  by (induction d) auto

lemma touch_core [simp]: "same_core m (touch now k m)"
proof -
  have "map fst (mg_engines (touch now k m)) = map fst (mg_engines m)" by (auto simp: touch_def)
  moreover have "reservations j (touch now k m) = reservations j m" for j by (simp add: reservations_def touch_def)
  ultimately show ?thesis
    by (auto simp: same_core_def engines_like_def) (auto simp: touch_def map_of_touch split: if_splits)
qed

lemma reserve_request_core [simp]: "same_core m (reserve_request k m)"
  by (auto simp: same_core_def reserve_request_def reservations_def update_conv' split: option.splits)

lemma drop_waiter_core [simp]: "same_core m (drop_waiter i m)"
  by (simp add: same_core_def drop_waiter_def reservations_def)

lemma resolve_core [simp]: "same_core m (resolve f w m)"
  by (simp add: same_core_def resolve_def reservations_def)

subsection \<open>Capacity sections\<close>

lemma used_untrack:
  assumes "distinct (mg_reserved_stops m)" and "set (mg_reserved_stops m) \<subseteq> set (mg_stopping m)"
  shows "capacity_used (untrack_stopping_engine e m) \<le> capacity_used m"
proof -
  have s: "length (removeAll e (mg_stopping m)) + (if e \<in> set (mg_stopping m) then 1 else 0) \<le> length (mg_stopping m)"
    using length_removeAll_less [of e "mg_stopping m"] by (auto simp: removeAll_id)
  have "length (removeAll e (mg_reserved_stops m)) + (if e \<in> set (mg_reserved_stops m) then 1 else 0) = length (mg_reserved_stops m)"
    using assms(1) distinct_remove1_removeAll [OF assms(1), of e] by (auto simp: length_remove1 removeAll_id) (metis One_nat_def Suc_pred length_pos_if_in_set length_remove1)
  then show ?thesis using s assms(2) by (auto simp: capacity_used_def untrack_stopping_engine_def split: if_splits)
qed

lemma find_idle_facts:
  assumes "find_idle_engine view m = Some x"
  shows "x \<in> set (mg_engines m)" "\<not> busy view m x"
proof -
  let ?c = "filter (\<lambda>x. \<not> busy view m x) (mg_engines m)"
  have "?c \<noteq> []" "x = arg_min_list (\<lambda>x. wi_last_activity (snd x)) ?c" using assms by (auto simp: find_idle_engine_def split: list.splits)
  then have "x \<in> set ?c" using arg_min_list_in by blast
  then show "x \<in> set (mg_engines m)" "\<not> busy view m x" by auto
qed

text \<open>The event of an identity under a call is never replaced: its engine, if there is one, is busy.\<close>

lemma idle_not_owned:
  assumes inv: "core_inv workers m qs sps prs sts tls" and idle: "find_idle_engine view m = Some (k, i)"
  shows "k \<notin> fst ` set (owners qs sps prs sts)" and "dict_get (mg_engines m) k = Some i"
proof -
  have d: "distinct (map fst (mg_engines m))" using inv by (simp add: core_inv_def exclusive_def)
  then show e: "dict_get (mg_engines m) k = Some i" using find_idle_facts(1) [OF idle] by simp
  have "\<not> registered_at k sps"
  proof
    assume "registered_at k sps"
    then obtain sp where "sp \<in> set sps" "sp_key sp = k" "sp_registered sp" by (auto simp: registered_at_def)
    then have "protected m sp" using inv by (simp add: core_inv_def)
    then have "0 < wi_active_reservations i \<or> 0 < reservations k m" using e \<open>sp_key sp = k\<close> \<open>sp_registered sp\<close> by (auto simp: protected_def)
    then show False using find_idle_facts(2) [OF idle] by (auto simp: busy_def)
  qed
  then show "k \<notin> fst ` set (owners qs sps prs sts)" using inv e unfolding core_inv_def exclusive_def by fastforce
qed

lemma core_ticket:
  assumes inv: "core_inv workers m qs sps prs sts tls" and "capacity_used m < workers" and "take_ticket None None m = (a, m')"
  shows "core_inv workers m' (a # qs) sps prs sts tls"
proof -
  have a: "ad_evicted a = None" and m': "mg_engines m' = mg_engines m" "mg_stopping m' = mg_stopping m" "mg_reserved_stops m' = mg_reserved_stops m"
      "mg_capacity_starts m' = mg_capacity_starts m + 1" "mg_events m' = mg_events m" "mg_fresh m \<le> mg_fresh m'"
      "mg_request_reservations m' = mg_request_reservations m"
    using assms(3) by (auto simp: take_ticket_def Let_def)
  have "accounted workers m' (a # qs) sps prs"
    using inv assms(2) by (simp add: core_inv_def accounted_def tickets_def paid_stops_def ad_stops_def a capacity_used_def m')
  moreover have "owners (a # qs) sps prs sts = owners qs sps prs sts" by (simp add: owners_def ad_owns_def a)
  moreover have "exclusive m' sps (owners qs sps prs sts) tls"
    by (rule exclusive_mono [of m]) (use inv in \<open>auto simp: core_inv_def m' exclusive_def\<close>)
  ultimately show ?thesis using inv by (simp add: core_inv_def protected_def m' reservations_def)
qed

lemma core_evict:
  assumes inv: "core_inv workers m qs sps prs sts tls" and idle: "find_idle_engine view m = Some (k, i)"
    and m2: "m2 = (track_stopping (wi_engine i) (m\<lparr>mg_engines := AList.delete k (mg_engines m)\<rparr>))
      \<lparr>mg_reserved_stops := List.insert (wi_engine i) (mg_reserved_stops m), mg_events := AList.update k (mg_fresh m) (mg_events m), mg_fresh := Suc (mg_fresh m)\<rparr>"
    and "take_ticket (Some (k, i)) (Some (mg_fresh m)) m2 = (a, m')"
  shows "core_inv workers m' (a # qs) sps prs sts tls"
proof -
  let ?own = "owners qs sps prs sts"
  have a: "ad_evicted a = Some (k, i)" "ad_event a = Some (mg_fresh m)" and m': "mg_engines m' = AList.delete k (mg_engines m)"
      "mg_stopping m' = List.insert (wi_engine i) (mg_stopping m)" "mg_reserved_stops m' = List.insert (wi_engine i) (mg_reserved_stops m)"
      "mg_capacity_starts m' = mg_capacity_starts m + 1" "mg_events m' = AList.update k (mg_fresh m) (mg_events m)" "mg_fresh m' = Suc (Suc (mg_fresh m))"
      "mg_request_reservations m' = mg_request_reservations m"
    using assms(4) by (auto simp: take_ticket_def Let_def m2 track_stopping_def)
  note free = idle_not_owned [OF inv idle]
  have "length (AList.delete k (mg_engines m)) < length (mg_engines m)" by (rule length_delete) (simp add: free(2))
  then have acc: "accounted workers m' (a # qs) sps prs"
    using inv by (auto simp: core_inv_def accounted_def tickets_def paid_stops_def ad_stops_def a capacity_used_def m' List.insert_def)
  have own: "owners (a # qs) sps prs sts = (k, Some (mg_fresh m)) # ?own" by (simp add: owners_def ad_owns_def a)
  have ex: "exclusive m sps ?own tls" using inv by (simp add: core_inv_def)
  have ev: "dict_get (mg_events m') j = (if j = k then Some (mg_fresh m) else dict_get (mg_events m) j)" for j by (simp add: m' update_conv')
  have en: "dict_get (mg_engines m') j = (if j = k then None else dict_get (mg_engines m) j)" for j by (simp add: m' delete_conv')
  have fresh: "(k, Some (mg_fresh m)) \<notin> set tls" using ex unfolding exclusive_def by (metis UnI2 less_irrefl snd_conv)
  have "exclusive m' sps ((k, Some (mg_fresh m)) # ?own) tls"
    unfolding exclusive_def
  proof (intro conjI)
    show "distinct (map fst ((k, Some (mg_fresh m)) # ?own))" using ex free(1) by (simp add: exclusive_def)
    show "\<forall>x \<in> set ((k, Some (mg_fresh m)) # ?own). snd x \<noteq> None \<and> dict_get (mg_events m') (fst x) = snd x"
      using ex free(1) unfolding exclusive_def ev by auto
    show "\<forall>x \<in> set ((k, Some (mg_fresh m)) # ?own). dict_get (mg_engines m') (fst x) \<noteq> None \<longrightarrow> registered_at (fst x) sps"
      using ex unfolding exclusive_def en by auto
    show "\<forall>x \<in> set ((k, Some (mg_fresh m)) # ?own) \<union> set tls. \<forall>n. snd x = Some n \<longrightarrow> n < mg_fresh m'"
      using ex unfolding exclusive_def m' by (auto simp: less_Suc_eq)
    show "set tls \<inter> set ((k, Some (mg_fresh m)) # ?own) = {}" using ex fresh unfolding exclusive_def by simp
    show "distinct (map fst (mg_engines m'))" using ex unfolding exclusive_def m' by (simp add: distinct_delete)
  qed
  moreover have "protected m' sp" if "sp \<in> set sps" for sp
    using inv that en by (auto simp: core_inv_def protected_def reservations_def m')
  ultimately show ?thesis using inv acc own by (simp add: core_inv_def)
qed

lemma core_reserve:
  assumes inv: "core_inv workers m qs sps prs sts tls" and r: "reserve_capacity workers view m = Some (a, m')"
  shows "core_inv workers m' (a # qs) sps prs sts tls"
proof (cases "capacity_used m < workers")
  case True
  then show ?thesis using core_ticket [OF inv True] r by (simp add: reserve_capacity_def)
next
  case False
  then obtain k i where idle: "find_idle_engine view m = Some (k, i)" using r by (auto simp: reserve_capacity_def split: option.splits)
  show ?thesis by (rule core_evict [OF inv idle refl]) (use r False idle in \<open>simp add: reserve_capacity_def Let_def track_stopping_def\<close>)
qed

lemma reserve_frame:
  assumes "reserve_capacity workers view m = Some (a, m')"
  shows "mg_admissions m' = mg_admissions m" "mg_closed m' = mg_closed m" "\<not> ad_claimed a"
  using assms by (auto simp: reserve_capacity_def take_ticket_def Let_def track_stopping_def split: if_splits option.splits)

lemma concat_perm: "mset xs = mset ys \<Longrightarrow> mset (concat (map f xs)) = mset (concat (map f ys))"
  by (simp add: mset_concat flip: sum_mset_sum_list)

lemma core_perm:
  assumes "mset qs = mset qs'"
  shows "core_inv workers m qs sps prs sts tls = core_inv workers m qs' sps prs sts tls"
proof -
  have "length qs = length qs'" using assms by (metis size_mset)
  moreover have "set (concat (map ad_stops qs)) = set (concat (map ad_stops qs'))" using assms by (metis set_concat set_map set_mset_mset)
  moreover have m: "mset (owners qs sps prs sts) = mset (owners qs' sps prs sts)"
    using concat_perm [OF assms, of ad_owns] by (simp add: owners_def)
  then have "set (owners qs sps prs sts) = set (owners qs' sps prs sts)" by (metis set_mset_mset)
  moreover have "distinct (map fst (owners qs sps prs sts)) = distinct (map fst (owners qs' sps prs sts))"
    using m by (metis mset_eq_imp_distinct_iff mset_map)
  ultimately show ?thesis by (simp add: core_inv_def accounted_def tickets_def paid_stops_def exclusive_def)
qed

lemma queued_set:
  assumes "distinct (map fst (mg_admissions m))"
  shows "mset (queued (set_admissions k as m)) + mset (admissions_of k m) = mset (queued m) + mset as"
proof (cases "dict_get (mg_admissions m) k")
  case None
  moreover from None have "k \<notin> fst ` set (mg_admissions m)" by (simp add: map_of_eq_None_iff)
  ultimately show ?thesis by (simp add: queued_def set_admissions_def admissions_of_def alist_new)
next
  case (Some bs)
  from alist_split [OF assms Some] obtain xs ys where "mg_admissions m = xs @ (k, bs) # ys"
      "AList.update k as (mg_admissions m) = xs @ (k, as) # ys" "AList.delete k (mg_admissions m) = xs @ ys" by blast
  then show ?thesis using Some by (simp add: queued_def set_admissions_def admissions_of_def)
qed

lemma admissions_set: "admissions_of j (set_admissions k as m) = (if j = k then as else admissions_of j m)"
  by (auto simp: admissions_of_def set_admissions_def update_conv' delete_conv')

lemma set_admissions_distinct: "distinct (map fst (mg_admissions m)) \<Longrightarrow> distinct (map fst (mg_admissions (set_admissions k as m)))"
  by (simp add: set_admissions_def distinct_update distinct_delete)

lemma set_admissions_core: "same_core (m\<lparr>mg_admissions := d\<rparr>) ((set_admissions k as m)\<lparr>mg_admissions := d\<rparr>)"
  by (simp add: set_admissions_def)

lemma core_inv_admissions: "core_inv workers (m\<lparr>mg_admissions := d\<rparr>) qs sps prs sts tls = core_inv workers m qs sps prs sts tls"
  by (simp add: core_inv_def accounted_def capacity_used_def exclusive_def protected_def reservations_def)

lemma core_set_admissions: "core_inv workers (set_admissions k as m) qs sps prs sts tls = core_inv workers m qs sps prs sts tls"
  unfolding set_admissions_def by (rule core_inv_admissions)

subsection \<open>The admission queue\<close>

lemma claims_append:
  assumes "claims m sp" and "\<And>a as. admissions_of (sp_key sp) m = a # as \<Longrightarrow> \<exists>bs. admissions_of (sp_key sp) m' = a # bs"
  shows "claims m' sp"
  using assms unfolding claims_def by meson

lemma engine_inv_open:
  assumes "engine_inv workers m sps prs sts tls" and "\<not> mg_closed m"
  shows "core_inv workers m (queued m) sps prs sts tls" "sp \<in> set sps \<Longrightarrow> claims m sp" "distinct (map fst (mg_admissions m))"
  using assms by (auto simp: engine_inv_def)

lemma admit_one_inv:
  assumes inv: "engine_inv workers m sps prs sts tls" and "admit_one workers view now m = Some m'"
  shows "engine_inv workers m' sps prs sts tls"
proof -
  from assms(2) obtain i p where p: "pick_waiter m = Some (i, p)" by (auto simp: admit_one_def split: option.splits)
  let ?w = "mg_spawn_waiters m ! i" let ?k = "sw_key ?w"
  show ?thesis
  proof (cases "dict_get (mg_engines m) ?k")
    case (Some x)
    let ?m1 = "if sw_reserve_existing ?w then touch now ?k (reserve_request ?k (drop_waiter i m)) else drop_waiter i m"
    have "same_core m ?m1" by (simp add: same_core_trans [OF drop_waiter_core same_core_trans [OF reserve_request_core touch_core]])
    then have "same_core m (resolve (sw_id ?w) (Uses_Existing (sw_reserve_existing ?w)) ?m1)" by (rule same_core_trans [OF _ resolve_core])
    moreover have "m' = resolve (sw_id ?w) (Uses_Existing (sw_reserve_existing ?w)) ?m1" using assms(2) p Some by (simp add: admit_one_def Let_def)
    ultimately show ?thesis using engine_frame [OF _ inv] by simp
  next
    case None
    then obtain a m1 where r: "reserve_capacity workers view m = Some (a, m1)" and
      m': "m' = resolve (sw_id ?w) Owns_Admission (set_admissions ?k (admissions_of ?k m1 @ [a]) ((drop_waiter i m1)\<lparr>mg_next_priority := p\<rparr>))"
      using assms(2) p by (auto simp: admit_one_def Let_def split: option.splits)
    note rf = reserve_frame [OF r]
    let ?m2 = "(drop_waiter i m1)\<lparr>mg_next_priority := p\<rparr>" let ?m3 = "set_admissions ?k (admissions_of ?k m1 @ [a]) ?m2"
    have c2: "same_core m1 ?m2" by (simp add: same_core_def drop_waiter_def reservations_def)
    have "engine_inv workers ?m3 sps prs sts tls"
    proof (cases "mg_closed m")
      case True
      then show ?thesis using rf by (simp add: engine_inv_def set_admissions_def drop_waiter_def)
    next
      case False
      note o = engine_inv_open [OF inv False]
      have ad: "mg_admissions ?m2 = mg_admissions m" "admissions_of j ?m2 = admissions_of j m" "admissions_of j m1 = admissions_of j m" "queued ?m2 = queued m" for j
        using rf by (simp_all add: drop_waiter_def admissions_of_def queued_def)
      have q: "mset (queued ?m3) = mset (a # queued m)"
        using queued_set [of ?m2 ?k "admissions_of ?k m1 @ [a]"] o(3) by (simp add: ad)
      have "core_inv workers ?m3 (a # queued m) sps prs sts tls"
        unfolding core_set_admissions by (rule core_frame [OF c2 core_reserve [OF o(1) r]])
      then have "core_inv workers ?m3 (queued ?m3) sps prs sts tls" using core_perm [OF q] by blast
      moreover have "claims ?m3 sp" if "sp \<in> set sps" for sp
        by (rule claims_append [OF o(2) [OF that]]) (auto simp: admissions_set ad)
      moreover have "distinct (map fst (mg_admissions ?m3))" by (rule set_admissions_distinct) (simp add: ad o(3))
      ultimately show ?thesis by (simp add: engine_inv_def)
    qed
    then show ?thesis unfolding m' by (rule engine_frame [OF resolve_core])
  qed
qed

lemma admit_inv: "engine_inv workers m sps prs sts tls \<Longrightarrow> engine_inv workers (admit_spawn_waiters workers view now m) sps prs sts tls"
proof (induction workers view now m rule: admit_spawn_waiters.induct)
  case (1 workers view now m)
  show ?case
  proof (cases "mg_spawn_waiters m = [] \<or> mg_closed m")
    case True
    then show ?thesis using "1.prems" by (subst admit_spawn_waiters.simps) (auto simp: engine_inv_def)
  next
    case False
    show ?thesis
    proof (cases "admit_one workers view now m")
      case None
      then show ?thesis using "1.prems" False by (subst admit_spawn_waiters.simps) simp
    next
      case (Some m')
      then have "engine_inv workers (admit_spawn_waiters workers view now m') sps prs sts tls"
        using "1.IH" [of m'] False admit_one_inv [OF "1.prems" Some] by blast
      then show ?thesis using False Some by (subst admit_spawn_waiters.simps) simp
    qed
  qed
qed

lemma notify_inv: "engine_inv workers m sps prs sts tls \<Longrightarrow> engine_inv workers (notify_capacity_changed workers view now m) sps prs sts tls"
  unfolding notify_capacity_changed_def Let_def
  by (rule admit_inv) (auto intro!: engine_frame [of m] simp: same_core_def reservations_def)

lemma enter_inv:
  assumes "engine_inv workers m sps prs sts tls" and "enter_spawn_admission workers view now k priority reserve m = (r, m')"
  shows "engine_inv workers m' sps prs sts tls"
proof -
  have "engine_inv workers (m\<lparr>mg_spawn_waiters := ws, mg_fresh := Suc (mg_fresh m)\<rparr>) sps prs sts tls" for ws
    by (rule engine_frame [OF _ assms(1)]) (simp add: same_core_def reservations_def)
  moreover have "engine_inv workers (touch now k (reserve_request k m)) sps prs sts tls"
    by (rule engine_frame [OF same_core_trans [OF reserve_request_core touch_core] assms(1)])
  ultimately show ?thesis using assms admit_inv by (auto simp: enter_spawn_admission_def split: if_splits)
qed

lemma cancel_inv: "engine_inv workers m sps prs sts tls \<Longrightarrow> engine_inv workers (cancel_spawn_waiter workers view now f m) sps prs sts tls"
  unfolding cancel_spawn_waiter_def by (rule admit_inv) (auto intro!: engine_frame [of m] simp: same_core_def reservations_def)

subsection \<open>Returned admissions\<close>

lemma core_release_ticket:
  assumes "core_inv workers m (a # qs) sps prs sts tls" and "ad_evicted a = None"
  shows "core_inv workers (m\<lparr>mg_capacity_starts := down (mg_capacity_starts m)\<rparr>) qs sps prs sts tls"
  using assms
  by (auto simp: core_inv_def accounted_def tickets_def paid_stops_def ad_stops_def ad_owns_def owners_def capacity_used_def down_def exclusive_def
      protected_def reservations_def)

lemma core_release_evicted:
  assumes "core_inv workers m (a # qs) sps prs sts tls" and "ad_evicted a = Some (k, i)"
  shows "core_inv workers m qs sps (\<lparr>pr_key = k, pr_info = i, pr_event = ad_event a\<rparr> # prs) sts tls"
proof -
  let ?pr = "\<lparr>pr_key = k, pr_info = i, pr_event = ad_event a\<rparr>"
  have m: "mset (owners qs sps (?pr # prs) sts) = mset (owners (a # qs) sps prs sts)" using assms(2) by (simp add: owners_def ad_owns_def)
  then have "set (owners qs sps (?pr # prs) sts) = set (owners (a # qs) sps prs sts)" by (metis set_mset_mset)
  moreover have "distinct (map fst (owners qs sps (?pr # prs) sts)) = distinct (map fst (owners (a # qs) sps prs sts))"
    using m by (metis mset_eq_imp_distinct_iff mset_map)
  ultimately show ?thesis using assms
    by (auto simp: core_inv_def accounted_def tickets_def paid_stops_def ad_stops_def exclusive_def)
qed

lemma release_inv:
  assumes inv: "engine_inv workers m sps prs sts tls" and r: "release_spawn_admission workers view now k m = (r, m')"
  shows "engine_inv workers m' sps (case r of Restoring pr \<Rightarrow> pr # prs | _ \<Rightarrow> prs) sts tls"
proof (cases "admissions_of k m")
  case Nil
  then show ?thesis using assms by (auto simp: release_spawn_admission_def)
next
  case (Cons a as)
  let ?m1 = "(set_admissions k as m)
     \<lparr>mg_warm_claims := if ad_warm_claim a then down (mg_warm_claims m) else mg_warm_claims m,
      mg_cold_starts := if ad_cold_start a then down (mg_cold_starts m) else mg_cold_starts m,
      mg_replenish_trigger := mg_replenish_trigger m \<or> ad_cold_start a, mg_released := ad_id a # mg_released m\<rparr>"
  show ?thesis
  proof (cases "ad_claimed a")
    case True
    then show ?thesis using assms Cons by (auto simp: release_spawn_admission_def)
  next
    case False
    have c: "same_core (set_admissions k as m) ?m1" by (simp add: same_core_def reservations_def)
    have ad: "admissions_of j ?m1 = (if j = k then as else admissions_of j m)" "queued ?m1 = queued (set_admissions k as m)"
        "mg_admissions ?m1 = mg_admissions (set_admissions k as m)" "mg_closed ?m1 = mg_closed m" for j
      using admissions_set [of j k as m] by (simp_all add: admissions_of_def queued_def set_admissions_def)
    have base: "core_inv workers ?m1 (a # queued ?m1) sps prs sts tls \<and> (\<forall>sp \<in> set sps. claims ?m1 sp) \<and> distinct (map fst (mg_admissions ?m1))"
      if o: "\<not> mg_closed m"
    proof (intro conjI ballI)
      note oi = engine_inv_open [OF inv o]
      have q: "mset (a # queued ?m1) = mset (queued m)" using queued_set [OF oi(3), of k as] Cons unfolding ad by simp
      have "core_inv workers ?m1 (queued m) sps prs sts tls" using core_frame [OF c] oi(1) core_set_admissions by blast
      then show "core_inv workers ?m1 (a # queued ?m1) sps prs sts tls" using core_perm [OF q] by blast
      show "distinct (map fst (mg_admissions ?m1))" unfolding ad by (rule set_admissions_distinct [OF oi(3)])
      fix sp assume "sp \<in> set sps"
      then show "claims ?m1 sp" using oi(2) Cons False unfolding claims_def ad by fastforce
    qed
    show ?thesis
    proof (cases "ad_evicted a")
      case None
      let ?m2 = "?m1\<lparr>mg_capacity_starts := down (mg_capacity_starts ?m1)\<rparr>"
      have "engine_inv workers ?m2 sps prs sts tls"
      proof (cases "mg_closed m")
        case True
        then show ?thesis using ad(4) by (simp add: engine_inv_def)
      next
        case False
        have "queued ?m2 = queued ?m1" "claims ?m2 sp = claims ?m1 sp" "mg_admissions ?m2 = mg_admissions ?m1" for sp
          by (simp_all add: queued_def claims_def admissions_of_def)
        then show ?thesis using base [OF False] core_release_ticket [OF _ None] unfolding engine_inv_def by metis
      qed
      then show ?thesis using r Cons False None admit_inv by (auto simp: release_spawn_admission_def Let_def)
    next
      case (Some x)
      have "engine_inv workers ?m1 sps (\<lparr>pr_key = fst x, pr_info = snd x, pr_event = ad_event a\<rparr> # prs) sts tls"
        using base core_release_evicted [of workers ?m1 a "queued ?m1" sps prs sts tls "fst x" "snd x"] Some ad(4)
        by (cases "mg_closed m") (simp_all add: engine_inv_def)
      then show ?thesis using r Cons False Some by (auto simp: release_spawn_admission_def Let_def split: prod.splits)
    qed
  qed
qed

lemma exclusive_sub:
  assumes "exclusive m sps own tls" and "distinct (map fst own')" and "set own' \<subseteq> set own"
    and "\<And>x. x \<in> set own' \<Longrightarrow> dict_get (mg_events m') (fst x) = dict_get (mg_events m) (fst x)"
    and "\<And>x. x \<in> set own' \<Longrightarrow> dict_get (mg_engines m') (fst x) \<noteq> None \<Longrightarrow> dict_get (mg_engines m) (fst x) \<noteq> None \<or> registered_at (fst x) sps'"
    and "\<And>x. x \<in> set own' \<Longrightarrow> registered_at (fst x) sps \<Longrightarrow> registered_at (fst x) sps'"
    and "mg_fresh m \<le> mg_fresh m'" and "set tls' \<subseteq> set tls \<union> set own" and "set tls' \<inter> set own' = {}" and "distinct (map fst (mg_engines m'))"
  shows "exclusive m' sps' own' tls'"
  unfolding exclusive_def
proof (intro conjI)
  have e: "\<forall>x \<in> set own. snd x \<noteq> None \<and> dict_get (mg_events m) (fst x) = snd x"
      "\<forall>x \<in> set own. dict_get (mg_engines m) (fst x) \<noteq> None \<longrightarrow> registered_at (fst x) sps"
      "\<forall>x \<in> set own \<union> set tls. \<forall>n. snd x = Some n \<longrightarrow> n < mg_fresh m" using assms(1) by (auto simp: exclusive_def)
  show "\<forall>x \<in> set own'. snd x \<noteq> None \<and> dict_get (mg_events m') (fst x) = snd x" using e(1) assms(3,4) by auto
  show "\<forall>x \<in> set own'. dict_get (mg_engines m') (fst x) \<noteq> None \<longrightarrow> registered_at (fst x) sps'" using e(2) assms(3,5,6) by blast
  have "set own' \<union> set tls' \<subseteq> set own \<union> set tls" using assms(3,8) by blast
  then show "\<forall>x \<in> set own' \<union> set tls'. \<forall>n. snd x = Some n \<longrightarrow> n < mg_fresh m'"
    using e(3) assms(7) by (meson less_le_trans subsetD)
qed (use assms in simp_all)

lemma core_pr_drop:
  assumes inv: "core_inv workers m qs sps (xs @ pr # ys) sts tls"
    and m': "m' = (untrack_stopping_engine (wi_engine (pr_info pr)) m)\<lparr>mg_engines := d, mg_capacity_starts := down (mg_capacity_starts m)\<rparr>"
    and d: "d = mg_engines m \<or> d = AList.update (pr_key pr) (pr_info pr) (mg_engines m)"
  shows "core_inv workers m' qs sps (xs @ ys) sts ((pr_key pr, pr_event pr) # tls)"
proof -
  let ?own = "owners qs sps (xs @ pr # ys) sts" and ?own' = "owners qs sps (xs @ ys) sts" and ?x = "(pr_key pr, pr_event pr)"
  let ?e = "wi_engine (pr_info pr)"
  have a: "accounted workers m qs sps (xs @ pr # ys)" and ex: "exclusive m sps ?own tls" using inv by (simp_all add: core_inv_def)
  have perm: "mset ?own = mset (?x # ?own')" by (simp add: owners_def)
  have dist: "distinct (map fst (?x # ?own'))" using ex perm by (metis exclusive_def mset_eq_imp_distinct_iff mset_map)
  have sub: "set ?own = insert ?x (set ?own')" using perm by (metis list.set(2) set_mset_mset)
  have fr: "mg_engines m' = d" "mg_stopping m' = removeAll ?e (mg_stopping m)" "mg_reserved_stops m' = removeAll ?e (mg_reserved_stops m)"
      "mg_capacity_starts m' = down (mg_capacity_starts m)" "mg_events m' = mg_events m" "mg_fresh m' = mg_fresh m" "reservations k m' = reservations k m" for k
    using m' by (simp_all add: untrack_stopping_engine_def reservations_def)
  have dd: "dict_get d k = (if k = pr_key pr \<and> d \<noteq> mg_engines m then Some (pr_info pr) else dict_get (mg_engines m) k)" for k
    using d by (auto simp: update_conv')
  have len: "length d \<le> Suc (length (mg_engines m))" using d by (auto simp: length_update)
  have "accounted workers m' qs sps (xs @ ys)"
    using a used_untrack [of m ?e] len by (auto simp: accounted_def tickets_def paid_stops_def capacity_used_def untrack_stopping_engine_def fr down_def distinct_removeAll)
  moreover have "exclusive m' sps ?own' (?x # tls)"
  proof (rule exclusive_sub [OF ex])
    show "dict_get (mg_engines m) (fst x) \<noteq> None \<or> registered_at (fst x) sps"
      if "x \<in> set ?own'" "dict_get (mg_engines m') (fst x) \<noteq> None" for x
    proof -
      have "fst x \<in> fst ` set ?own'" using that(1) by (rule imageI)
      then have "fst x \<noteq> pr_key pr" using dist by (metis distinct.simps(2) fst_conv list.set_map list.simps(9))
      then show ?thesis using that(2) by (simp add: fr dd)
    qed
    show "set (?x # tls) \<inter> set ?own' = {}" using ex dist sub unfolding exclusive_def by (auto simp: image_iff)
    show "distinct (map fst (mg_engines m'))" using ex d unfolding exclusive_def by (auto simp: fr distinct_update)
  qed (use dist sub fr in auto)
  moreover have "protected m' sp \<and> sp_ok sp" if "sp \<in> set sps" for sp
  proof -
    have "(sp_key sp, Some (sp_event sp)) \<in> set ?own'" using that by (auto simp: owners_def sp_owns_def)
    then have "sp_key sp \<noteq> pr_key pr" using dist by (auto simp: image_iff)
    then show ?thesis using inv that by (auto simp: core_inv_def protected_def fr dd split: if_splits)
  qed
  ultimately show ?thesis by (simp add: core_inv_def)
qed

lemma engine_pr_drop:
  assumes inv: "engine_inv workers m sps (xs @ pr # ys) sts tls"
    and m': "m' = (untrack_stopping_engine (wi_engine (pr_info pr)) m)\<lparr>mg_engines := d, mg_capacity_starts := down (mg_capacity_starts m)\<rparr>"
    and d: "d = mg_engines m \<or> d = AList.update (pr_key pr) (pr_info pr) (mg_engines m)"
  shows "engine_inv workers m' sps (xs @ ys) sts ((pr_key pr, pr_event pr) # tls)"
proof -
  have "queued m' = queued m" "claims m' sp = claims m sp" "mg_closed m' = mg_closed m" "mg_admissions m' = mg_admissions m" for sp
    using m' by (simp_all add: queued_def claims_def admissions_of_def untrack_stopping_engine_def)
  then show ?thesis using inv core_pr_drop [OF _ m' d] by (auto simp: engine_inv_def)
qed

lemma restore_inv:
  assumes "engine_inv workers m sps (xs @ pr # ys) sts tls"
  shows "engine_inv workers (restore_evicted workers view now pr m) sps (xs @ ys) sts ((pr_key pr, pr_event pr) # tls)"
    and "engine_inv workers (evicted_stopped workers view now pr m) sps (xs @ ys) sts ((pr_key pr, pr_event pr) # tls)"
  unfolding restore_evicted_def evicted_stopped_def Let_def
  by (rule admit_inv, rule engine_pr_drop [OF assms], auto simp: untrack_stopping_engine_def)+

text \<open>A finished event.\<close>

lemma finish_event_own:
  assumes "exclusive m sps own tls" and "x \<in> set own" and "(k, Some ev) \<notin> set own"
  shows "dict_get (mg_events (finish_engine_event k ev m)) (fst x) = dict_get (mg_events m) (fst x)"
proof -
  have "dict_get (mg_events m) (fst x) = snd x" using assms(1,2) by (simp add: exclusive_def)
  then have "\<not> (fst x = k \<and> dict_get (mg_events m) k = Some ev)" using assms(2,3) by (cases x) auto
  then show ?thesis by (auto simp: finish_engine_event_def delete_conv')
qed

lemma finish_event_frame [simp]:
  "mg_engines (finish_engine_event k ev m) = mg_engines m" "mg_stopping (finish_engine_event k ev m) = mg_stopping m"
  "mg_reserved_stops (finish_engine_event k ev m) = mg_reserved_stops m" "mg_capacity_starts (finish_engine_event k ev m) = mg_capacity_starts m"
  "mg_fresh (finish_engine_event k ev m) = mg_fresh m" "reservations j (finish_engine_event k ev m) = reservations j m"
  "mg_admissions (finish_engine_event k ev m) = mg_admissions m" "mg_closed (finish_engine_event k ev m) = mg_closed m"
  "queued (finish_engine_event k ev m) = queued m" "admissions_of j (finish_engine_event k ev m) = admissions_of j m"
  by (simp_all add: finish_engine_event_def reservations_def queued_def admissions_of_def)

lemma tail_inv:
  assumes inv: "engine_inv workers m sps prs sts (xs @ (k, ev) # ys)"
  shows "engine_inv workers (finish_event_opt k ev m) sps prs sts (xs @ ys)"
proof (cases "mg_closed m")
  case True
  then show ?thesis by (auto simp: engine_inv_def finish_event_opt_def split: option.split)
next
  case False
  note o = engine_inv_open [OF inv False]
  let ?m = "finish_event_opt k ev m"
  have ex: "exclusive m sps (owners (queued m) sps prs sts) (xs @ (k, ev) # ys)" using o(1) by (simp add: core_inv_def)
  have "exclusive ?m sps (owners (queued m) sps prs sts) (xs @ ys)"
  proof (rule exclusive_sub [OF ex])
    show "dict_get (mg_events ?m) (fst x) = dict_get (mg_events m) (fst x)" if "x \<in> set (owners (queued m) sps prs sts)" for x
      using that ex finish_event_own [OF ex that] by (cases ev) (auto simp: finish_event_opt_def exclusive_def)
  qed (use ex in \<open>auto simp: exclusive_def finish_event_opt_def split: option.splits\<close>)
  then show ?thesis using o
    by (cases ev) (auto simp: engine_inv_def core_inv_def finish_event_opt_def accounted_def capacity_used_def protected_def claims_def)
qed

subsection \<open>Spawns\<close>

lemma core_map:
  assumes "map (\<lambda>a. (ad_evicted a, ad_event a)) qs = map (\<lambda>a. (ad_evicted a, ad_event a)) qs'"
  shows "core_inv workers m qs sps prs sts tls = core_inv workers m qs' sps prs sts tls"
proof -
  have "length qs = length qs'" using assms by (metis length_map)
  moreover have "map ad_stops qs = map (\<lambda>x. case fst x of None \<Rightarrow> [] | Some x \<Rightarrow> [wi_engine (snd x)]) (map (\<lambda>a. (ad_evicted a, ad_event a)) qs)"
    "map ad_stops qs' = map (\<lambda>x. case fst x of None \<Rightarrow> [] | Some x \<Rightarrow> [wi_engine (snd x)]) (map (\<lambda>a. (ad_evicted a, ad_event a)) qs')"
    by (simp_all add: ad_stops_def)
  then have "map ad_stops qs = map ad_stops qs'" using assms by simp
  moreover have "map ad_owns qs = map (\<lambda>y. case fst y of None \<Rightarrow> [] | Some x \<Rightarrow> [(fst x, snd y)]) (map (\<lambda>a. (ad_evicted a, ad_event a)) qs)"
    "map ad_owns qs' = map (\<lambda>y. case fst y of None \<Rightarrow> [] | Some x \<Rightarrow> [(fst x, snd y)]) (map (\<lambda>a. (ad_evicted a, ad_event a)) qs')"
    by (simp_all add: ad_owns_def split: option.split)
  then have "map ad_owns qs = map ad_owns qs'" using assms by simp
  ultimately show ?thesis by (simp add: core_inv_def accounted_def tickets_def paid_stops_def owners_def)
qed

lemma queued_map:
  assumes "distinct (map fst (mg_admissions m))" and "admissions_of k m = a # as" and "f a' = f a"
  shows "map f (queued (set_admissions k (a' # as) m)) = map f (queued m)"
proof -
  have s: "dict_get (mg_admissions m) k = Some (a # as)" using assms(2) by (auto simp: admissions_of_def split: option.splits)
  from alist_split [OF assms(1) s] obtain xs ys where "mg_admissions m = xs @ (k, a # as) # ys"
      "AList.update k (a' # as) (mg_admissions m) = xs @ (k, a' # as) # ys" by blast
  then show ?thesis using assms(3) by (simp add: queued_def set_admissions_def)
qed

lemma core_enter:
  assumes inv: "core_inv workers m qs sps prs sts tls" and k: "dict_get (mg_events m) k = None"
    and sp: "sp_key sp = k" "sp_event sp = mg_fresh m" "sp_ok sp" "\<not> sp_registered sp" "\<not> evicting sp" "sp_reserve sp \<or> 0 < reservations k m"
    and m': "mg_events m' = AList.update k (mg_fresh m) (mg_events m)" "mg_fresh m' = Suc (mg_fresh m)"
      "\<And>j. dict_get (mg_engines m') j = (if j = k then None else dict_get (mg_engines m) j)" "distinct (map fst (mg_engines m'))"
      "\<And>j. reservations j m' = reservations j m"
    and acc: "accounted workers m' qs (sp # sps) prs"
  shows "core_inv workers m' qs (sp # sps) prs sts tls"
proof -
  let ?own = "owners qs sps prs sts" and ?x = "(k, Some (mg_fresh m))"
  have ex: "exclusive m sps ?own tls" using inv by (simp add: core_inv_def)
  have free: "k \<notin> fst ` set ?own" using ex k unfolding exclusive_def by force
  have perm: "mset (owners qs (sp # sps) prs sts) = mset (?x # ?own)" using sp by (simp add: owners_def sp_owns_def)
  then have set_own: "set (owners qs (sp # sps) prs sts) = insert ?x (set ?own)" by (metis list.set(2) set_mset_mset)
  have fresh: "?x \<notin> set tls" using ex unfolding exclusive_def by (metis UnI2 less_irrefl snd_conv)
  have reg: "registered_at j (sp # sps) = registered_at j sps" for j using sp(4) by (auto simp: registered_at_def)
  have ev: "dict_get (mg_events m') j = (if j = k then Some (mg_fresh m) else dict_get (mg_events m) j)" for j by (simp add: m'(1) update_conv')
  have "exclusive m' (sp # sps) (owners qs (sp # sps) prs sts) tls"
    unfolding exclusive_def set_own reg
  proof (intro conjI)
    show "distinct (map fst (owners qs (sp # sps) prs sts))"
      using perm ex free by (metis (no_types, lifting) distinct.simps(2) exclusive_def fst_conv list.set_map list.simps(9) mset_eq_imp_distinct_iff mset_map)
    show "\<forall>x \<in> insert ?x (set ?own). snd x \<noteq> None \<and> dict_get (mg_events m') (fst x) = snd x" using ex free unfolding exclusive_def ev by auto
    show "\<forall>x \<in> insert ?x (set ?own). dict_get (mg_engines m') (fst x) \<noteq> None \<longrightarrow> registered_at (fst x) sps" using ex unfolding exclusive_def m'(3) by auto
    show "\<forall>x \<in> insert ?x (set ?own) \<union> set tls. \<forall>n. snd x = Some n \<longrightarrow> n < mg_fresh m'" using ex unfolding exclusive_def m'(2) by (auto simp: less_Suc_eq)
    show "set tls \<inter> insert ?x (set ?own) = {}" using ex fresh unfolding exclusive_def by simp
  qed (rule m'(4))
  moreover have "protected m' s \<and> sp_ok s" if "s \<in> set (sp # sps)" for s
    using that inv sp m' by (auto simp: core_inv_def protected_def)
  ultimately show ?thesis using acc by (simp add: core_inv_def)
qed

lemma core_internal:
  assumes inv: "core_inv workers m qs (xs @ sp # ys) prs sts tls" and c: "same_core m m'"
    and "sp_key sp' = sp_key sp" "sp_reserve sp' = sp_reserve sp" "sp_registered sp' = sp_registered sp"
      "sp_start_held sp' = sp_start_held sp" "set (sp_stops sp) \<subseteq> set (sp_stops sp')" "sp_owns sp' = sp_owns sp" "sp_ok sp'" "sp_registered sp \<Longrightarrow> sp_engine sp' = sp_engine sp"
  shows "core_inv workers m' qs (xs @ sp' # ys) prs sts tls"
proof -
  have "core_inv workers m' qs (xs @ sp # ys) prs sts tls" by (rule core_frame [OF c inv])
  then have i: "accounted workers m' qs (xs @ sp # ys) prs" "exclusive m' (xs @ sp # ys) (owners qs (xs @ sp # ys) prs sts) tls"
    "\<forall>s \<in> set (xs @ sp # ys). protected m' s \<and> sp_ok s" by (simp_all add: core_inv_def)
  have "set (paid_stops qs (xs @ sp # ys) prs) \<subseteq> set (paid_stops qs (xs @ sp' # ys) prs)" using assms(7) by (auto simp: paid_stops_def)
  then have "accounted workers m' qs (xs @ sp' # ys) prs" using i(1) assms(6) by (auto simp: accounted_def tickets_def)
  moreover have "registered_at k (xs @ sp' # ys) = registered_at k (xs @ sp # ys)" for k using assms(3,5) by (simp add: registered_at_def)
  then have "exclusive m' (xs @ sp' # ys) (owners qs (xs @ sp' # ys) prs sts) tls" using i(2) assms(8) by (simp add: exclusive_def owners_def)
  moreover have "protected m' sp'" using i(3) assms(3,4,5,10) by (simp add: protected_def)
  ultimately show ?thesis using i(3) assms(9) by (simp add: core_inv_def)
qed

lemma core_stop_done:
  assumes inv: "core_inv workers m qs (xs @ sp # ys) prs sts tls"
    and "sp_key sp' = sp_key sp" "sp_reserve sp' = sp_reserve sp" "sp_registered sp' = sp_registered sp"
      "sp_start_held sp' = sp_start_held sp" "set (sp_stops sp) \<subseteq> {e}" "sp_owns sp' = sp_owns sp" "sp_ok sp'" "sp_engine sp' = sp_engine sp"
  shows "core_inv workers (untrack_stopping_engine e m) qs (xs @ sp' # ys) prs sts tls"
proof -
  let ?m = "untrack_stopping_engine e m"
  have a: "accounted workers m qs (xs @ sp # ys) prs" using inv by (simp add: core_inv_def)
  have "set (paid_stops qs (xs @ sp # ys) prs) \<subseteq> insert e (set (paid_stops qs (xs @ sp' # ys) prs))"
    using assms(6) by (auto simp: paid_stops_def)
  then have "accounted workers ?m qs (xs @ sp' # ys) prs"
    using a used_untrack [of m e] assms(5)
    by (auto simp: accounted_def tickets_def capacity_used_def untrack_stopping_engine_def distinct_removeAll)
  moreover have "exclusive ?m (xs @ sp' # ys) (owners qs (xs @ sp' # ys) prs sts) tls"
    using inv assms(2,4,7) by (simp add: core_inv_def exclusive_def owners_def registered_at_def untrack_stopping_engine_def)
  ultimately show ?thesis using inv assms
    by (auto simp: core_inv_def protected_def untrack_stopping_engine_def reservations_def)
qed

lemma core_hold:
  assumes inv: "core_inv workers m (a # qs) (xs @ sp # ys) prs sts tls" and "early sp" and "\<not> sp_start_held sp" and "sp_stops sp = []" and "sp_ok sp"
    and sp': "sp' = hold a (sp\<lparr>sp_consumed := c\<rparr>)" and "sp_admission sp \<noteq> None \<longrightarrow> c"
  shows "core_inv workers m qs (xs @ sp' # ys) prs sts tls"
proof -
  have ne: "\<not> evicting sp" using assms(2) by (auto simp: early_def evicting_def)
  have s: "sp_key sp' = sp_key sp" "sp_event sp' = sp_event sp" "sp_reserve sp' = sp_reserve sp" "sp_registered sp' = sp_registered sp" "sp_start_held sp'"
      "sp_engine sp' = sp_engine sp" by (simp_all add: sp' hold_def)
  have stops: "sp_stops sp' = ad_stops a" by (simp add: sp' hold_def sp_stops_def ad_stops_def split: option.split)
  have owns: "sp_owns sp' = sp_owns sp @ ad_owns a"
    using ne by (auto simp: sp_owns_def sp' hold_def ad_owns_def evicting_def split: option.split)
  have m: "mset (owners qs (xs @ sp' # ys) prs sts) = mset (owners (a # qs) (xs @ sp # ys) prs sts)" by (simp add: owners_def owns)
  then have so: "set (owners qs (xs @ sp' # ys) prs sts) = set (owners (a # qs) (xs @ sp # ys) prs sts)" by (metis set_mset_mset)
  have "distinct (map fst (owners qs (xs @ sp' # ys) prs sts)) = distinct (map fst (owners (a # qs) (xs @ sp # ys) prs sts))"
    using m by (metis mset_eq_imp_distinct_iff mset_map)
  then have "exclusive m (xs @ sp' # ys) (owners qs (xs @ sp' # ys) prs sts) tls"
    using inv so s by (simp add: core_inv_def exclusive_def registered_at_def)
  moreover have "accounted workers m qs (xs @ sp' # ys) prs"
    using inv assms(3,4) s stops by (auto simp: core_inv_def accounted_def tickets_def paid_stops_def)
  moreover have "sp_ok sp'" using assms(2,5,7) by (auto simp: sp_ok_def sp' hold_def early_def holding_def booting_def evicting_def)
  ultimately show ?thesis using inv s by (auto simp: core_inv_def protected_def)
qed

lemma claims_spawns: "\<forall>s \<in> set (xs @ sp # ys). claims m s \<Longrightarrow> claims m sp' \<Longrightarrow> \<forall>s \<in> set (xs @ sp' # ys). claims m s"
  by auto

lemma not_early_claims: "\<not> early sp \<Longrightarrow> claims m sp"
  by (simp add: claims_def)

text \<open>Sections of a spawn that only move its phase, warm workers and counters.\<close>

lemma engine_internal:
  assumes inv: "engine_inv workers m (xs @ sp # ys) prs sts tls" and c: "same_core m m'"
    and "sp_key sp' = sp_key sp" "sp_reserve sp' = sp_reserve sp" "sp_registered sp' = sp_registered sp"
      "sp_start_held sp' = sp_start_held sp" "set (sp_stops sp) \<subseteq> set (sp_stops sp')" "sp_owns sp' = sp_owns sp" "sp_ok sp \<Longrightarrow> sp_ok sp'"
      "sp_ok sp \<Longrightarrow> sp_registered sp \<Longrightarrow> sp_engine sp' = sp_engine sp" "\<not> early sp'"
  shows "engine_inv workers m' (xs @ sp' # ys) prs sts tls"
proof (cases "mg_closed m")
  case True
  then show ?thesis using c by (simp add: engine_inv_def same_core_def)
next
  case False
  note o = engine_inv_open [OF inv False]
  have q: "queued m' = queued m" "\<And>k. admissions_of k m' = admissions_of k m" "mg_admissions m' = mg_admissions m"
    using c by (simp_all add: queued_def admissions_of_def same_core_def)
  have ok: "sp_ok sp" using o(1) by (simp add: core_inv_def)
  have "core_inv workers m' (queued m') (xs @ sp' # ys) prs sts tls"
    unfolding q by (rule core_internal [OF o(1) c assms(3-8) assms(9) [OF ok] assms(10) [OF ok]])
  moreover have "\<forall>s \<in> set (xs @ sp' # ys). claims m' s"
    using o(2) not_early_claims [OF assms(11)] by (auto simp: claims_def q)
  ultimately show ?thesis using o(3) by (simp add: engine_inv_def q)
qed

lemmas spawn_simps = sp_ok_def holding_def early_def booting_def evicting_def sp_stops_def sp_owns_def

lemma spawn_warm_inv:
  assumes "engine_inv workers m (xs @ sp # ys) prs sts tls" and "sp_phase sp = Ph_Warm" and "spawn_pop_warm sp m = (sp', m')"
  shows "engine_inv workers m' (xs @ sp' # ys) prs sts tls"
  by (rule engine_internal [OF assms(1)])
    (use assms(2,3) in \<open>auto simp: spawn_pop_warm_def Let_def same_core_def reservations_def spawn_simps split: list.splits\<close>)

lemma spawn_probe_inv:
  assumes "engine_inv workers m (xs @ sp # ys) prs sts tls" and "sp_phase sp = Ph_Probe c" and "spawn_probed healthy c sp m = (sp', m')"
  shows "engine_inv workers m' (xs @ sp' # ys) prs sts tls"
  by (rule engine_internal [OF assms(1)])
    (use assms(2,3) in \<open>auto simp: spawn_probed_def queue_rejected_warm_worker_def same_core_def reservations_def spawn_simps split: if_splits\<close>)

lemma spawn_cold_inv:
  assumes "engine_inv workers m (xs @ sp # ys) prs sts tls" and "sp_phase sp = Ph_Cold" and "spawn_cold sp m = (sp', m')"
  shows "engine_inv workers m' (xs @ sp' # ys) prs sts tls"
  by (rule engine_internal [OF assms(1)])
    (use assms(2,3) in \<open>auto simp: spawn_cold_def same_core_def reservations_def spawn_simps split: if_splits\<close>)

lemma spawn_create_inv:
  assumes "engine_inv workers m (xs @ sp # ys) prs sts tls" and "sp_phase sp = Ph_Create" and "spawn_create sp m = (sp', m')"
  shows "engine_inv workers m' (xs @ sp' # ys) prs sts tls"
  by (rule engine_internal [OF assms(1)])
    (use assms(2,3) in \<open>auto simp: spawn_create_def same_core_def reservations_def spawn_simps\<close>)

lemma spawn_fail_inv:
  assumes "engine_inv workers m (xs @ sp # ys) prs sts tls" and "sp_phase sp \<in> {Ph_Create, Ph_Boot, Ph_Release, Ph_Failed}"
    and "ph \<in> {Ph_Failed, Ph_Check, Ph_Exit, Ph_Release}"
    and "ph = Ph_Release \<or> ph = Ph_Check \<Longrightarrow> sp_ok sp \<Longrightarrow> sp_admission sp \<noteq> None \<and> \<not> sp_consumed sp"
  shows "engine_inv workers m (xs @ sp\<lparr>sp_phase := ph\<rparr> # ys) prs sts tls"
proof (rule engine_internal [OF assms(1) same_core_refl])
  have s: "\<not> early sp" "\<not> evicting sp" "sp_stops sp = []" "sp_phase sp \<noteq> Ph_Exit" "sp_phase sp \<noteq> Ph_Prior"
    using assms(2) by (auto simp: spawn_simps)
  have h: "\<not> holding ph" "ph \<noteq> Ph_Prior" "ph \<noteq> Ph_Claim" "\<not> evicting (sp\<lparr>sp_phase := ph\<rparr>)" "sp_stops (sp\<lparr>sp_phase := ph\<rparr>) = []"
    using assms(3) by (auto simp: spawn_simps)
  show "sp_ok sp \<Longrightarrow> sp_ok (sp\<lparr>sp_phase := ph\<rparr>)" using s h assms(4) by (simp add: sp_ok_def early_def booting_def)
  show "\<not> early (sp\<lparr>sp_phase := ph\<rparr>)" using h by (simp add: early_def)
  show "sp_owns (sp\<lparr>sp_phase := ph\<rparr>) = sp_owns sp" using s h by (simp add: sp_owns_def)
  show "set (sp_stops sp) \<subseteq> set (sp_stops (sp\<lparr>sp_phase := ph\<rparr>))" using s by simp
qed simp_all

lemma spawn_check_inv:
  assumes inv: "engine_inv workers m (xs @ sp # ys) prs sts tls" and "sp_phase sp = Ph_Check"
  shows "engine_inv workers m (xs @ spawn_check sp m # ys) prs sts tls"
proof (cases "mg_closed m")
  case True
  then show ?thesis by (simp add: engine_inv_def)
next
  case False
  then have ok: "sp_ok sp" using inv by (simp add: engine_inv_def core_inv_def)
  have p: "sp_phase (spawn_check sp m) = Ph_Exit" by (simp add: spawn_check_def split: option.split)
  show ?thesis
  proof (rule engine_internal [OF inv same_core_refl])
    show "sp_start_held (spawn_check sp m) = sp_start_held sp"
      using ok assms(2) by (auto simp: spawn_check_def sp_ok_def split: option.split)
  qed (use assms(2) in \<open>auto simp: spawn_check_def spawn_simps split: option.splits\<close>)
qed

lemma distinct_middle: "distinct (as @ bs @ cs) \<Longrightarrow> distinct bs"
  by simp

lemma distinct_parts: "distinct (as @ bs @ cs) \<Longrightarrow> x \<in> set bs \<Longrightarrow> x \<notin> set as \<union> set cs"
  by auto

lemma spawn_keys:
  assumes "distinct (map fst (owners qs (xs @ sp # ys) prs sts))" and "x \<in> set xs \<union> set ys"
  shows "sp_key x \<noteq> sp_key sp"
proof
  assume eq: "sp_key x = sp_key sp"
  have k: "sp_key z \<in> set (map fst (concat (map sp_owns zs)))" if "z \<in> set zs" for z zs
    using that by (force simp: sp_owns_def)
  let ?own = "map fst (concat (map sp_owns xs)) @ map fst (concat (map sp_owns [sp])) @ map fst (concat (map sp_owns ys))"
  have "map fst (owners qs (xs @ sp # ys) prs sts) = map fst (concat (map ad_owns qs)) @ ?own @ map fst (map (\<lambda>pr. (pr_key pr, pr_event pr)) prs @
      map (\<lambda>st. (st_key st, Some (st_event st))) sts)" by (simp add: owners_def)
  from assms(1) [unfolded this] have "distinct ?own" by (rule distinct_middle)
  moreover have "sp_key sp \<in> set (map fst (concat (map sp_owns [sp])))" by (simp add: sp_owns_def)
  moreover have "sp_key sp \<in> set (map fst (concat (map sp_owns xs))) \<union> set (map fst (concat (map sp_owns ys)))"
    using assms(2) k [of x xs] k [of x ys] eq by auto
  ultimately show False by (rule distinct_parts [THEN notE])
qed

lemma spawn_unclaim_inv:
  assumes inv: "engine_inv workers m (xs @ sp # ys) prs sts tls" and ph: "sp_phase sp = Ph_Failed" and u: "spawn_unclaim sp m = (sp', m')"
  shows "engine_inv workers m' (xs @ sp' # ys) prs sts tls"
proof (cases "m' = m")
  case True
  from u obtain ph' where s: "sp' = sp\<lparr>sp_phase := ph'\<rparr>" "ph' \<in> {Ph_Exit, Ph_Check, Ph_Release}"
      "ph' \<noteq> Ph_Exit \<Longrightarrow> sp_admission sp \<noteq> None \<and> \<not> sp_consumed sp"
    by (auto simp: spawn_unclaim_def split: option.splits if_splits list.splits)
  show ?thesis unfolding True s(1) by (rule spawn_fail_inv [OF inv]) (use ph s in auto)
next
  case False
  from u False obtain a b bs where a: "sp_admission sp = Some a" "\<not> sp_consumed sp" and b: "admissions_of (sp_key sp) m = b # bs"
    and s: "sp' = sp\<lparr>sp_phase := Ph_Release\<rparr>" "m' = set_admissions (sp_key sp) (b\<lparr>ad_claimed := False\<rparr> # bs) m"
    by (auto simp: spawn_unclaim_def split: option.splits if_splits list.splits)
  have inv': "engine_inv workers m (xs @ sp' # ys) prs sts tls" unfolding s by (rule spawn_fail_inv [OF inv]) (use ph a in auto)
  show ?thesis
  proof (cases "mg_closed m")
    case True
    then show ?thesis by (simp add: engine_inv_def s set_admissions_def)
  next
    case opened: False
    note o = engine_inv_open [OF inv' opened]
    have "core_inv workers m' (queued m') (xs @ sp' # ys) prs sts tls"
      using o(1) core_map [OF queued_map [OF o(3) b, of "\<lambda>a. (ad_evicted a, ad_event a)" "b\<lparr>ad_claimed := False\<rparr>"]]
      unfolding s(2) core_set_admissions by simp
    moreover have "claims m' x" if "x \<in> set (xs @ sp' # ys)" for x
    proof (cases "sp_key x = sp_key sp")
      case True
      have "distinct (map fst (owners (queued m) (xs @ sp' # ys) prs sts))" using o(1) by (simp add: core_inv_def exclusive_def)
      from spawn_keys [OF this, of x] have "x = sp'" using True that s(1) by auto
      then show ?thesis using s by (simp add: claims_def early_def)
    next
      case False
      then show ?thesis using o(2) [OF that] by (simp add: claims_def s admissions_set)
    qed
    moreover have "distinct (map fst (mg_admissions m'))" unfolding s(2) by (rule set_admissions_distinct [OF o(3)])
    ultimately show ?thesis by (simp add: engine_inv_def)
  qed
qed

lemma spawn_prior_inv:
  assumes inv: "engine_inv workers m (xs @ sp # ys) prs sts tls" and ph: "sp_phase sp = Ph_Prior" and u: "spawn_prior_done ok sp m = (sp', m')"
  shows "engine_inv workers m' (xs @ sp' # ys) prs sts tls"
proof (cases "mg_closed m")
  case True
  then show ?thesis using u by (auto simp: engine_inv_def spawn_prior_done_def untrack_stopping_engine_def)
next
  case False
  note o = engine_inv_open [OF inv False]
  have s: "sp' = sp\<lparr>sp_phase := if ok then Ph_Claim else Ph_Failed\<rparr>" and m': "m' = untrack_stopping_engine (the (sp_prior sp)) m"
    using u by (simp_all add: spawn_prior_done_def)
  have spok: "sp_ok sp" using o(1) by (simp add: core_inv_def)
  have q: "queued m' = queued m" "\<And>k. admissions_of k m' = admissions_of k m" "mg_admissions m' = mg_admissions m"
    by (simp_all add: m' queued_def admissions_of_def untrack_stopping_engine_def)
  have "core_inv workers m' (queued m) (xs @ sp' # ys) prs sts tls"
    unfolding m' by (rule core_stop_done [OF o(1)]) (use ph spok in \<open>auto simp: s spawn_simps split: if_splits\<close>)
  moreover have "claims m' sp'" using o(2) [of sp] ph by (auto simp: claims_def q s early_def)
  then have "\<forall>x \<in> set (xs @ sp' # ys). claims m' x" using o(2) by (auto simp: claims_def q)
  ultimately show ?thesis using o(3) by (simp add: engine_inv_def q)
qed

lemma spawn_claim_inv:
  assumes inv: "engine_inv workers m (xs @ sp # ys) prs sts tls" and ph: "sp_phase sp = Ph_Claim" and u: "spawn_claim workers view sp m = (sp', m')"
  shows "engine_inv workers m' (xs @ sp' # ys) prs sts tls"
proof (cases "mg_closed m")
  case True
  have "mg_closed m'" using u True
    by (auto simp: spawn_claim_def try_claim_capacity_slot_def set_admissions_def split: option.splits list.splits if_splits)
  then show ?thesis by (simp add: engine_inv_def)
next
  case opened: False
  note o = engine_inv_open [OF inv opened]
  have spok: "sp_ok sp" and e: "early sp" "sp_stops sp = []" using o(1) ph by (simp_all add: core_inv_def early_def sp_stops_def)
  have ne: "\<not> early (hold a x)" for a x by (simp add: hold_def early_def)
  show ?thesis
  proof (cases "sp_admission sp")
    case (Some a)
    obtain as where as: "ad_claimed a" "admissions_of (sp_key sp) m = a # as" using o(2) [of sp] e(1) Some by (auto simp: claims_def)
    then have s: "sp' = hold a (sp\<lparr>sp_consumed := True\<rparr>)" "m' = set_admissions (sp_key sp) as m" using u Some by (simp_all add: spawn_claim_def)
    have held: "\<not> sp_start_held sp" using spok e Some by (simp add: sp_ok_def)
    have q: "mset (a # queued m') = mset (queued m)" using queued_set [OF o(3), of "sp_key sp" as] as s(2) by simp
    have "core_inv workers m' (a # queued m') (xs @ sp # ys) prs sts tls"
      using core_perm [OF q] o(1) unfolding s(2) core_set_admissions by blast
    then have "core_inv workers m' (queued m') (xs @ sp' # ys) prs sts tls"
      by (rule core_hold [OF _ e(1) held e(2) spok s(1)]) simp
    moreover have "claims m' x" if "x \<in> set (xs @ sp' # ys)" for x
    proof (cases "sp_key x = sp_key sp")
      case True
      have "sp_key sp' = sp_key sp" by (simp add: s hold_def)
      moreover have "distinct (map fst (owners (queued m) (xs @ sp # ys) prs sts))" using o(1) by (simp add: core_inv_def exclusive_def)
      ultimately have "x = sp'" using True that spawn_keys [of "queued m" xs sp ys prs sts x] by auto
      then show ?thesis using ne s by (simp add: claims_def)
    next
      case False
      have "x \<in> set (xs @ sp # ys)" using that False by (auto simp: s hold_def)
      then show ?thesis using o(2) False by (simp add: claims_def s admissions_set)
    qed
    moreover have "distinct (map fst (mg_admissions m'))" unfolding s(2) by (rule set_admissions_distinct [OF o(3)])
    ultimately show ?thesis by (simp add: engine_inv_def)
  next
    case None
    show ?thesis
    proof (cases "sp_prior sp \<noteq> None \<or> try_claim_capacity_slot workers view m = None")
      case True
      then obtain ph' where s: "m' = m" "sp' = sp\<lparr>sp_phase := ph'\<rparr>" "ph' = Ph_Warm \<and> sp_start_held sp \<or> ph' = Ph_Failed"
        using u None by (auto simp: spawn_claim_def split: if_splits)
      show ?thesis unfolding s(1,2)
        by (rule engine_internal [OF inv same_core_refl]) (use ph s(3) None in \<open>auto simp: spawn_simps\<close>)
    next
      case False
      then obtain a m1 where c: "try_claim_capacity_slot workers view m = Some (a, m1)" by auto
      then have r: "reserve_capacity workers view m = Some (a, m1)" by (auto simp: try_claim_capacity_slot_def split: if_splits)
      have s: "sp' = hold a (sp\<lparr>sp_consumed := False\<rparr>)" "m' = m1" using u None False c spok e by (auto simp: spawn_claim_def hold_def sp_ok_def)
      have held: "\<not> sp_start_held sp" using spok e None False by (simp add: sp_ok_def)
      note rf = reserve_frame [OF r]
      have q: "queued m' = queued m" "\<And>k. admissions_of k m' = admissions_of k m" using rf s by (simp_all add: queued_def admissions_of_def)
      have "core_inv workers m' (queued m') (xs @ sp' # ys) prs sts tls"
        using core_hold [OF core_reserve [OF o(1) r] e(1) held e(2) spok s(1)] None s q by simp
      moreover have "claims m' x" if "x \<in> set (xs @ sp' # ys)" for x
      proof (cases "x = sp'")
        case True
        then show ?thesis using not_early_claims [OF ne] by (simp add: s)
      next
        case False
        then have "claims m x" using that by (intro o(2)) auto
        then show ?thesis by (rule claims_append) (simp add: q)
      qed
      ultimately show ?thesis using o(3) rf s by (simp add: engine_inv_def)
    qed
  qed
qed

lemma spawn_evict_inv:
  assumes inv: "engine_inv workers m (xs @ sp # ys) prs sts tls" and ph: "sp_phase sp = Ph_Evict" and u: "spawn_evict_done ok sp m = (sp', m')"
  shows "engine_inv workers m' (xs @ sp' # ys) prs sts tls"
proof (cases "mg_closed m")
  case True
  then show ?thesis using u by (auto simp: engine_inv_def spawn_evict_done_def untrack_stopping_engine_def)
next
  case False
  note o = engine_inv_open [OF inv False]
  have s: "sp' = sp\<lparr>sp_phase := Ph_Evict_Event ok\<rparr>" and m': "m' = untrack_stopping_engine (wi_engine (snd (the (sp_evicted sp)))) m"
    using u by (simp_all add: spawn_evict_done_def)
  have spok: "sp_ok sp" using o(1) by (simp add: core_inv_def)
  have q: "queued m' = queued m" "\<And>k. admissions_of k m' = admissions_of k m" "mg_admissions m' = mg_admissions m"
    by (simp_all add: m' queued_def admissions_of_def untrack_stopping_engine_def)
  have "core_inv workers m' (queued m) (xs @ sp' # ys) prs sts tls"
    unfolding m' by (rule core_stop_done [OF o(1)]) (use ph spok in \<open>auto simp: s spawn_simps split: if_splits\<close>)
  moreover have "\<forall>x \<in> set (xs @ sp' # ys). claims m' x" using o(2) by (auto simp: claims_def q s early_def)
  ultimately show ?thesis using o(3) by (simp add: engine_inv_def q)
qed

end
