(* ===== verification/Engine_Steps.thy ===== *)
theory Engine_Steps
  imports Engine_Facts
begin

text \<open>
  The remaining sections of the process manager keep the invariant of \<open>Engine_Facts\<close>, and with them every
  step of the calls does.
\<close>

lemma map_fst_update: "map_of d k \<noteq> None \<Longrightarrow> map fst (AList.update k v d) = map fst d"
  by (induction d) auto

lemma engines_like_update:
  assumes "dict_get d k = Some j" and "wi_engine i = wi_engine j" and "wi_active_reservations j \<le> wi_active_reservations i"
  shows "engines_like d (AList.update k i d)"
  using assms by (auto simp: engines_like_def map_fst_update update_conv' split: if_splits)

lemma same_core_context [simp]: "same_core m (set_runtime_context k build run m)"
  by (auto simp: set_runtime_context_def same_core_def reservations_def intro!: engines_like_update split: option.split)

subsection \<open>Reservations\<close>

lemma reservations_release: "reservations j (release_engine_request k m) = (if j = k then reservations k m - 1 else reservations j m)"
  by (auto simp: release_engine_request_def reservations_def update_conv' delete_conv' split: option.splits)

lemma unreserve_inv:
  assumes inv: "engine_inv workers m sps prs sts tls"
    and g: "\<forall>sp \<in> set sps. sp_key sp = k \<longrightarrow> sp_reserve sp \<or> 1 < reservations k m"
  shows "engine_inv workers (release_engine_request k m) sps prs sts tls"
proof -
  let ?m = "release_engine_request k m"
  have q: "mg_closed ?m = mg_closed m" "queued ?m = queued m" "claims ?m sp = claims m sp" "mg_admissions ?m = mg_admissions m"
      "mg_engines ?m = mg_engines m" "accounted workers ?m qs sps prs = accounted workers m qs sps prs"
      "exclusive ?m sps own tls = exclusive m sps own tls" for sp qs own
    by (simp_all add: release_engine_request_def queued_def claims_def admissions_of_def accounted_def capacity_used_def exclusive_def)
  have "protected ?m sp" if "sp \<in> set sps" "protected m sp" for sp
    using that g by (auto simp: protected_def reservations_release q(5))
  then show ?thesis using inv by (auto simp: engine_inv_def core_inv_def q)
qed

lemma done_inv:
  assumes inv: "engine_inv workers m sps prs sts tls"
    and g: "\<forall>sp \<in> set sps. sp_key sp = k \<longrightarrow> sp_engine sp \<noteq> Some e"
  shows "engine_inv workers (release_reservation k e m) sps prs sts tls"
proof (cases "\<exists>i. dict_get (mg_engines m) k = Some i \<and> wi_engine i = e")
  case False
  then show ?thesis using inv by (auto simp: release_reservation_def split: option.splits)
next
  case True
  then obtain i where i: "dict_get (mg_engines m) k = Some i" "wi_engine i = e" by blast
  define d where "d = AList.update k (i\<lparr>wi_active_reservations := wi_active_reservations i - 1\<rparr>) (mg_engines m)"
  let ?m = "m\<lparr>mg_engines := d\<rparr>"
  have r: "release_reservation k e m = ?m" using i by (simp add: release_reservation_def d_def)
  have keys: "map fst d = map fst (mg_engines m)" using i by (simp add: map_fst_update d_def)
  have none: "dict_get d j = None \<longleftrightarrow> dict_get (mg_engines m) j = None" for j using i by (auto simp: d_def update_conv')
  have q: "mg_closed ?m = mg_closed m" "queued ?m = queued m" "claims ?m sp = claims m sp" "mg_admissions ?m = mg_admissions m"
      "accounted workers ?m qs sps prs = accounted workers m qs sps prs" for sp qs
    by (simp_all add: queued_def claims_def admissions_of_def accounted_def capacity_used_def d_def length_update i)
  have x: "exclusive ?m sps own tls = exclusive m sps own tls" for own
    using keys by (simp add: exclusive_def none)
  have "protected ?m sp" if "sp \<in> set sps" "protected m sp" for sp
    using that g i by (auto simp: protected_def reservations_def d_def update_conv' split: if_splits)
  then show ?thesis unfolding r using inv by (auto simp: engine_inv_def core_inv_def q x)
qed

subsection \<open>Stops\<close>

lemma take_out_fields:
  assumes "take_out k info m = (st, m')"
  shows "st_key st = k" "st_event st = mg_fresh m" "\<not> st_untracked st" "mg_events m' = AList.update k (mg_fresh m) (mg_events m)"
    "mg_engines m' = AList.delete k (mg_engines m)" "mg_fresh m' = Suc (mg_fresh m)" "mg_capacity_starts m' = mg_capacity_starts m"
    "mg_reserved_stops m' = mg_reserved_stops m" "set (mg_stopping m) \<subseteq> set (mg_stopping m')"
    "length (mg_stopping m') \<le> length (mg_stopping m) + (if info = None then 0 else 1)"
    "mg_admissions m' = mg_admissions m" "mg_closed m' = mg_closed m" "mg_request_reservations m' = mg_request_reservations m"
  using assms by (auto simp: take_out_def Let_def track_stopping_def List.insert_def split: option.splits)

lemma take_out_inv:
  assumes inv: "engine_inv workers m sps prs sts tls" and k: "dict_get (mg_events m) k = None"
    and t: "take_out k (dict_get (mg_engines m) k) m = (st, m')"
  shows "engine_inv workers m' sps prs (st # sts) tls"
proof (cases "mg_closed m")
  case True
  then show ?thesis using take_out_fields(12) [OF t] by (simp add: engine_inv_def)
next
  case False
  note o = engine_inv_open [OF inv False] and f = take_out_fields [OF t]
  let ?own = "owners (queued m) sps prs sts" and ?x = "(k, Some (mg_fresh m))"
  have a: "accounted workers m (queued m) sps prs" and ex: "exclusive m sps ?own tls" using o(1) by (simp_all add: core_inv_def)
  have free: "k \<notin> fst ` set ?own" using ex k unfolding exclusive_def by force
  have perm: "mset (owners (queued m) sps prs (st # sts)) = mset (?x # ?own)" using f(1,2) by (simp add: owners_def)
  then have so: "set (owners (queued m) sps prs (st # sts)) = insert ?x (set ?own)" by (metis list.set(2) set_mset_mset)
  have fresh: "?x \<notin> set tls" using ex unfolding exclusive_def by (metis UnI2 less_irrefl snd_conv)
  have ev: "dict_get (mg_events m') j = (if j = k then Some (mg_fresh m) else dict_get (mg_events m) j)" for j by (simp add: f(4) update_conv')
  have en: "dict_get (mg_engines m') j = (if j = k then None else dict_get (mg_engines m) j)" for j by (simp add: f(5) delete_conv')
  have len: "length (mg_engines m') + length (mg_stopping m') \<le> length (mg_engines m) + length (mg_stopping m)"
    using f(10) length_delete [of "mg_engines m" k] length_delete_le [of k "mg_engines m"] unfolding f(5)
    by (cases "dict_get (mg_engines m) k") simp_all
  have "accounted workers m' (queued m) sps prs"
    using a len f(7,8,9) by (auto simp: accounted_def capacity_used_def)
  moreover have "exclusive m' sps (owners (queued m) sps prs (st # sts)) tls"
    unfolding exclusive_def so
  proof (intro conjI)
    show "distinct (map fst (owners (queued m) sps prs (st # sts)))"
      using perm ex free by (metis (no_types, lifting) distinct.simps(2) exclusive_def fst_conv list.set_map list.simps(9) mset_eq_imp_distinct_iff mset_map)
    show "\<forall>x \<in> insert ?x (set ?own). snd x \<noteq> None \<and> dict_get (mg_events m') (fst x) = snd x" using ex free unfolding exclusive_def ev by auto
    show "\<forall>x \<in> insert ?x (set ?own). dict_get (mg_engines m') (fst x) \<noteq> None \<longrightarrow> registered_at (fst x) sps" using ex unfolding exclusive_def en by auto
    show "\<forall>x \<in> insert ?x (set ?own) \<union> set tls. \<forall>n. snd x = Some n \<longrightarrow> n < mg_fresh m'" using ex unfolding exclusive_def f(6) by (auto simp: less_Suc_eq)
    show "set tls \<inter> insert ?x (set ?own) = {}" using ex fresh unfolding exclusive_def by simp
    show "distinct (map fst (mg_engines m'))" using ex unfolding exclusive_def f(5) by (simp add: distinct_delete)
  qed
  moreover have "protected m' sp" if "sp \<in> set sps" for sp
    using o(1) that en by (auto simp: core_inv_def protected_def reservations_def f(13))
  ultimately have "core_inv workers m' (queued m) sps prs (st # sts) tls" using o(1) by (simp add: core_inv_def)
  moreover have "queued m' = queued m" "claims m' sp = claims m sp" for sp using f(11) by (simp_all add: queued_def claims_def admissions_of_def)
  ultimately show ?thesis using o(2,3) f(11) by (simp add: engine_inv_def)
qed

lemma shutdown_inv:
  assumes "engine_inv workers m sps prs sts tls" and "shutdown_compute_worker k m = (Stop_Started st, m')"
  shows "engine_inv workers m' sps prs (st # sts) tls"
  using assms(2) take_out_inv [OF assms(1)] by (auto simp: shutdown_compute_worker_def split: option.splits prod.splits)

lemma shutdown_idle_inv:
  assumes "engine_inv workers m sps prs sts tls" and "shutdown_compute_worker_if_idle view k m = (Stop_Started st, m')"
  shows "engine_inv workers m' sps prs (st # sts) tls"
  using assms(2) take_out_inv [OF assms(1)] by (auto simp: shutdown_compute_worker_if_idle_def split: option.splits prod.splits if_splits)

lemma engine_inv_stops:
  assumes "mset sts = mset sts'"
  shows "engine_inv workers m sps prs sts tls = engine_inv workers m sps prs sts' tls"
proof -
  have m: "mset (owners qs sps prs sts) = mset (owners qs sps prs sts')" for qs using assms by (simp add: owners_def)
  then have "set (owners qs sps prs sts) = set (owners qs sps prs sts')" for qs by (metis set_mset_mset)
  moreover have "distinct (map fst (owners qs sps prs sts)) = distinct (map fst (owners qs sps prs sts'))" for qs
    using m by (metis mset_eq_imp_distinct_iff mset_map)
  ultimately show ?thesis by (simp add: engine_inv_def core_inv_def exclusive_def)
qed

lemma reap_inv:
  "engine_inv workers m sps prs sts tls \<Longrightarrow> reap_idle_engines ttl view alive now tracked m = (sts', m') \<Longrightarrow>
   engine_inv workers m' sps prs (sts' @ sts) tls"
proof (induction tracked arbitrary: m sts sts')
  case (Cons x xs)
  show ?case
  proof (cases "reapable ttl view alive now m x")
    case False
    then show ?thesis using Cons by simp
  next
    case True
    obtain st m1 where t: "take_out (fst x) (dict_get (mg_engines m) (fst x)) m = (st, m1)" by fastforce
    obtain sts1 where r: "reap_idle_engines ttl view alive now xs m1 = (sts1, m')" "sts' = st # sts1"
      using Cons.prems(2) True t by (auto split: prod.splits)
    have "dict_get (mg_events m) (fst x) = None" using True by (auto simp: reapable_def split: option.splits)
    from Cons.IH [OF take_out_inv [OF Cons.prems(1) this t] r(1)] show ?thesis
      using engine_inv_stops [of "sts1 @ st # sts" "sts' @ sts"] r(2) by simp
  qed
qed simp

lemma untrack_inv:
  assumes inv: "engine_inv workers m sps prs (xs @ st # ys) tls" and u: "stop_untrack st m = (st', m')"
  shows "engine_inv workers m' sps prs (xs @ st' # ys) tls"
proof -
  have k: "st_key st' = st_key st" "st_event st' = st_event st" using u by (auto simp: stop_untrack_def)
  have own: "owners qs sps prs (xs @ st' # ys) = owners qs sps prs (xs @ st # ys)" for qs by (simp add: owners_def k)
  have same: "engine_inv workers m sps prs (xs @ st' # ys) tls" using inv by (simp add: engine_inv_def core_inv_def own)
  show ?thesis
  proof (cases "st_engine st")
    case None
    then show ?thesis using same u by (simp add: stop_untrack_def)
  next
    case (Some e)
    then have m': "m' = untrack_stopping_engine e m" using u by (simp add: stop_untrack_def)
    have q: "mg_closed m' = mg_closed m" "queued m' = queued m" "claims m' sp = claims m sp" "mg_admissions m' = mg_admissions m"
        "exclusive m' sps own tls = exclusive m sps own tls" "protected m' sp = protected m sp" for sp own
      by (simp_all add: m' untrack_stopping_engine_def queued_def claims_def admissions_of_def exclusive_def protected_def reservations_def)
    have "accounted workers m' qs sps prs" if "accounted workers m qs sps prs" for qs
      using that used_untrack [of m e] by (auto simp: m' accounted_def untrack_stopping_engine_def distinct_removeAll)
    then show ?thesis using same by (auto simp: engine_inv_def core_inv_def q)
  qed
qed

lemma stop_inv:
  assumes inv: "engine_inv workers m sps prs (xs @ st # ys) tls"
  shows "engine_inv workers (stop_finish st m) sps prs (xs @ ys) tls"
proof (cases "mg_closed m")
  case True
  then show ?thesis by (simp add: engine_inv_def stop_finish_def)
next
  case False
  note o = engine_inv_open [OF inv False]
  let ?own = "owners (queued m) sps prs (xs @ st # ys)" and ?own' = "owners (queued m) sps prs (xs @ ys)" and ?x = "(st_key st, Some (st_event st))"
  have ex: "exclusive m sps ?own tls" using o(1) by (simp add: core_inv_def)
  have perm: "mset ?own = mset (?x # ?own')" by (simp add: owners_def)
  have dist: "distinct (map fst (?x # ?own'))" using ex perm by (metis exclusive_def mset_eq_imp_distinct_iff mset_map)
  have sub: "set ?own = insert ?x (set ?own')" using perm by (metis list.set(2) set_mset_mset)
  have nx: "?x \<notin> set ?own'" using dist by force
  have "exclusive (stop_finish st m) sps ?own' tls"
  proof (rule exclusive_sub [OF ex])
    have ex': "exclusive m sps ?own' tls" using ex dist sub by (auto simp: exclusive_def)
    show "dict_get (mg_events (stop_finish st m)) (fst x) = dict_get (mg_events m) (fst x)" if "x \<in> set ?own'" for x
      unfolding stop_finish_def by (rule finish_event_own [OF ex' that nx])
  qed (use ex dist sub in \<open>auto simp: exclusive_def stop_finish_def\<close>)
  then show ?thesis using o
    by (auto simp: engine_inv_def core_inv_def stop_finish_def accounted_def capacity_used_def protected_def claims_def)
qed

subsection \<open>The rest of a spawn\<close>

lemma spawn_event_inv:
  assumes inv: "engine_inv workers m (xs @ sp # ys) prs sts tls" and ph: "sp_phase sp = Ph_Evict_Event b" and u: "spawn_evict_event b sp m = (sp', m')"
  shows "engine_inv workers m' (xs @ sp' # ys) prs sts tls"
proof (cases "mg_closed m")
  case True
  then show ?thesis using u by (auto simp: engine_inv_def spawn_evict_event_def finish_event_opt_def split: option.splits)
next
  case False
  note o = engine_inv_open [OF inv False]
  let ?k = "fst (the (sp_evicted sp))"
  have s: "sp' = sp\<lparr>sp_phase := if b then Ph_Warm else Ph_Failed\<rparr>" and m': "m' = finish_event_opt ?k (sp_eviction_event sp) m"
    using u by (simp_all add: spawn_evict_event_def)
  let ?own = "owners (queued m) (xs @ sp # ys) prs sts" and ?own' = "owners (queued m) (xs @ sp' # ys) prs sts" and ?x = "(?k, sp_eviction_event sp)"
  have ex: "exclusive m (xs @ sp # ys) ?own tls" using o(1) by (simp add: core_inv_def)
  have owns: "sp_owns sp = sp_owns sp' @ [?x]" using ph by (auto simp: s sp_owns_def evicting_def)
  have perm: "mset ?own = mset (?x # ?own')" by (simp add: owners_def owns)
  have dist: "distinct (map fst (?x # ?own'))" using ex perm by (metis exclusive_def mset_eq_imp_distinct_iff mset_map)
  have sub: "set ?own = insert ?x (set ?own')" using perm by (metis list.set(2) set_mset_mset)
  have nx: "?x \<notin> set ?own'" using dist by force
  have reg: "registered_at j (xs @ sp' # ys) = registered_at j (xs @ sp # ys)" for j by (simp add: registered_at_def s)
  have fr: "mg_engines m' = mg_engines m" "mg_fresh m' = mg_fresh m" "mg_admissions m' = mg_admissions m" "mg_stopping m' = mg_stopping m"
      "mg_reserved_stops m' = mg_reserved_stops m" "mg_capacity_starts m' = mg_capacity_starts m" "reservations j m' = reservations j m"
      "queued m' = queued m" "admissions_of j m' = admissions_of j m" for j
    by (simp_all add: m' finish_event_opt_def split: option.split)
  have "exclusive m' (xs @ sp' # ys) ?own' tls"
  proof (rule exclusive_sub [OF ex])
    have ex': "exclusive m (xs @ sp # ys) ?own' tls" using ex dist sub by (auto simp: exclusive_def)
    show "dict_get (mg_events m') (fst x) = dict_get (mg_events m) (fst x)" if "x \<in> set ?own'" for x
      using finish_event_own [OF ex' that] nx by (cases "sp_eviction_event sp") (simp_all add: m' finish_event_opt_def)
  qed (use ex dist sub in \<open>auto simp: exclusive_def fr reg\<close>)
  moreover have "accounted workers m' (queued m) (xs @ sp' # ys) prs"
    using o(1) ph by (auto simp: core_inv_def accounted_def capacity_used_def fr tickets_def paid_stops_def sp_stops_def s)
  moreover have "sp_ok sp'" using o(1) ph by (auto simp: core_inv_def s spawn_simps)
  moreover have "protected m' x" if "x \<in> set (xs @ sp' # ys)" for x
    using that o(1) by (auto simp: core_inv_def protected_def fr s)
  ultimately have "core_inv workers m' (queued m) (xs @ sp' # ys) prs sts tls" using o(1) by (auto simp: core_inv_def)
  moreover have "claims m' x" if "x \<in> set (xs @ sp' # ys)" for x
    using that o(2) by (auto simp: claims_def fr s early_def split: if_splits)
  ultimately show ?thesis using o(3) by (simp add: engine_inv_def fr)
qed

lemma own_key_notin:
  assumes "distinct (map fst (owners qs (xs @ sp # ys) prs sts))" and "x \<in> set (owners qs (xs @ ys) prs sts)"
  shows "fst x \<noteq> sp_key sp"
proof -
  have "mset (owners qs (xs @ sp # ys) prs sts) = mset (sp_owns sp @ owners qs (xs @ ys) prs sts)" by (simp add: owners_def)
  then have "distinct (map fst (sp_owns sp @ owners qs (xs @ ys) prs sts))" using assms(1) by (metis mset_eq_imp_distinct_iff mset_map)
  then have "sp_key sp \<notin> fst ` set (owners qs (xs @ ys) prs sts)" by (simp add: sp_owns_def)
  then show ?thesis using assms(2) by (metis imageI)
qed

lemma spawn_register_inv:
  assumes inv: "engine_inv workers m (xs @ sp # ys) prs sts tls" and ph: "sp_phase sp = Ph_Boot" and u: "spawn_register now sp m = (sp', m')"
  shows "engine_inv workers m' (xs @ sp' # ys) prs sts tls"
proof (cases "mg_closed m")
  case True
  then show ?thesis using u by (auto simp: engine_inv_def spawn_register_def Let_def)
next
  case False
  note o = engine_inv_open [OF inv False]
  let ?i = "\<lparr>wi_engine = the (sp_engine sp), wi_last_activity = now, wi_build_id = None, wi_run_id = None,
     wi_active_reservations = if sp_reserve sp then 1 else 0\<rparr>"
  have ok: "sp_ok sp" and ex: "exclusive m (xs @ sp # ys) (owners (queued m) (xs @ sp # ys) prs sts) tls" using o(1) by (simp_all add: core_inv_def)
  have held: "sp_start_held sp" "sp_engine sp \<noteq> None" using ok ph by (auto simp: sp_ok_def holding_def)
  have s: "sp' = sp\<lparr>sp_start_held := False, sp_registered := True, sp_phase := Ph_Exit\<rparr>" using u by (simp add: spawn_register_def Let_def)
  have fr: "mg_engines m' = AList.update (sp_key sp) ?i (mg_engines m)" "mg_fresh m' = mg_fresh m" "mg_admissions m' = mg_admissions m"
      "mg_stopping m' = mg_stopping m" "mg_reserved_stops m' = mg_reserved_stops m" "mg_capacity_starts m' = down (mg_capacity_starts m)"
      "reservations j m' = reservations j m" "queued m' = queued m" "admissions_of j m' = admissions_of j m" "mg_events m' = mg_events m" for j
    using u held by (auto simp: spawn_register_def Let_def reservations_def queued_def admissions_of_def)
  have en: "dict_get (mg_engines m') j = (if j = sp_key sp then Some ?i else dict_get (mg_engines m) j)" for j by (auto simp: fr(1) update_conv')
  have own: "owners (queued m) (xs @ sp' # ys) prs sts = owners (queued m) (xs @ sp # ys) prs sts"
    using ph by (simp add: owners_def sp_owns_def s evicting_def)
  have reg: "registered_at j (xs @ sp' # ys) \<longleftrightarrow> j = sp_key sp \<or> registered_at j (xs @ sp # ys)" for j by (auto simp: registered_at_def s)
  have "exclusive m' (xs @ sp' # ys) (owners (queued m) (xs @ sp' # ys) prs sts) tls"
    unfolding own
  proof (rule exclusive_sub [OF ex])
    show "distinct (map fst (mg_engines m'))" using ex by (simp add: exclusive_def fr distinct_update)
  qed (use ex in \<open>auto simp: exclusive_def fr(2-10) en reg split: if_splits\<close>)
  moreover have "accounted workers m' (queued m) (xs @ sp' # ys) prs"
    using o(1) ph held length_update [of "sp_key sp" ?i "mg_engines m"]
    by (auto simp: core_inv_def accounted_def capacity_used_def fr tickets_def paid_stops_def sp_stops_def s down_def split: if_splits)
  moreover have "sp_ok sp'" using ok ph by (auto simp: s spawn_simps)
  moreover have "protected m' x" if x: "x \<in> set (xs @ sp' # ys)" for x
  proof (cases "x = sp'")
    case True
    have "protected m sp" using o(1) by (simp add: core_inv_def)
    then show ?thesis using held by (auto simp: True s protected_def fr(7) en)
  next
    case False
    then have "x \<in> set xs \<union> set ys" using x by auto
    then have "sp_key x \<noteq> sp_key sp" using ex spawn_keys [of "queued m" xs sp ys prs sts x] by (simp add: exclusive_def)
    moreover have "protected m x" using o(1) \<open>x \<in> set xs \<union> set ys\<close> by (auto simp: core_inv_def)
    ultimately show ?thesis by (simp add: protected_def fr(7) en)
  qed
  ultimately have "core_inv workers m' (queued m) (xs @ sp' # ys) prs sts tls" using o(1) by (auto simp: core_inv_def)
  moreover have "claims m' x" if "x \<in> set (xs @ sp' # ys)" for x
    using that o(2) by (auto simp: claims_def fr(9) s early_def)
  ultimately show ?thesis using o(3) by (simp add: engine_inv_def fr(3,8))
qed

lemma spawn_exit_inv:
  assumes inv: "engine_inv workers m (xs @ sp # ys) prs sts tls" and ph: "sp_phase sp = Ph_Exit"
  shows "engine_inv workers (spawn_exit sp m) (xs @ ys) prs sts tls"
proof (cases "mg_closed m")
  case True
  then show ?thesis by (simp add: engine_inv_def spawn_exit_def)
next
  case False
  note o = engine_inv_open [OF inv False]
  let ?m = "spawn_exit sp m" and ?own = "owners (queued m) (xs @ sp # ys) prs sts" and ?own' = "owners (queued m) (xs @ ys) prs sts"
  have ex: "exclusive m (xs @ sp # ys) ?own tls" using o(1) by (simp add: core_inv_def)
  have dist: "distinct (map fst ?own)" using ex by (simp add: exclusive_def)
  have sub: "set ?own' \<subseteq> set ?own" by (auto simp: owners_def)
  have perm: "mset ?own = mset (sp_owns sp @ ?own')" by (simp add: owners_def)
  then have "distinct (map fst (sp_owns sp @ ?own'))" using dist by (metis mset_eq_imp_distinct_iff mset_map)
  then have dist': "distinct (map fst ?own')" by simp
  have key: "fst x \<noteq> sp_key sp" if "x \<in> set ?own'" for x by (rule own_key_notin [OF dist that])
  have fr: "mg_engines ?m = mg_engines m" "mg_fresh ?m = mg_fresh m" "mg_admissions ?m = mg_admissions m" "mg_stopping ?m = mg_stopping m"
      "mg_reserved_stops ?m = mg_reserved_stops m" "mg_capacity_starts ?m = (if sp_start_held sp then down (mg_capacity_starts m) else mg_capacity_starts m)"
      "reservations j ?m = reservations j m" "queued ?m = queued m" "admissions_of j ?m = admissions_of j m"
      "dict_get (mg_events ?m) j = (if j = sp_key sp then None else dict_get (mg_events m) j)" for j
    by (simp_all add: spawn_exit_def reservations_def queued_def admissions_of_def delete_conv')
  have reg: "registered_at j (xs @ ys) = registered_at j (xs @ sp # ys)" if "j \<noteq> sp_key sp" for j using that by (auto simp: registered_at_def)
  have "exclusive ?m (xs @ ys) ?own' tls"
    by (rule exclusive_sub [OF ex dist' sub]) (use ex sub key reg in \<open>auto simp: exclusive_def fr\<close>)
  moreover have "accounted workers ?m (queued m) (xs @ ys) prs"
    using o(1) ph by (auto simp: core_inv_def accounted_def capacity_used_def fr tickets_def paid_stops_def sp_stops_def down_def)
  moreover have "protected ?m x" if "protected m x" for x using that by (simp add: protected_def fr)
  ultimately have "core_inv workers ?m (queued m) (xs @ ys) prs sts tls" using o(1) by (auto simp: core_inv_def)
  moreover have "claims ?m x" if "x \<in> set (xs @ ys)" for x using that o(2) [of x] by (auto simp: claims_def fr)
  ultimately show ?thesis using o(3) by (simp add: engine_inv_def fr)
qed

lemma claim_inv_parts:
  assumes "distinct (map fst (mg_admissions m))"
  shows "core_inv workers m' (queued (claim_admission k m)) sps prs sts tls = core_inv workers m' (queued m) sps prs sts tls"
    and "map fst (mg_admissions (claim_admission k m)) = map fst (mg_admissions m) \<or> distinct (map fst (mg_admissions (claim_admission k m)))"
proof -
  show "core_inv workers m' (queued (claim_admission k m)) sps prs sts tls = core_inv workers m' (queued m) sps prs sts tls"
  proof (cases "admissions_of k m")
    case Nil
    then show ?thesis by (simp add: claim_admission_def)
  next
    case (Cons a as)
    have "claim_admission k m = set_admissions k (a\<lparr>ad_claimed := True\<rparr> # as) m" by (simp add: claim_admission_def Cons)
    then show ?thesis using core_map [OF queued_map [OF assms Cons, of "\<lambda>a. (ad_evicted a, ad_event a)" "a\<lparr>ad_claimed := True\<rparr>"]] by simp
  qed
  show "map fst (mg_admissions (claim_admission k m)) = map fst (mg_admissions m) \<or> distinct (map fst (mg_admissions (claim_admission k m)))"
    using set_admissions_distinct [OF assms] by (simp add: claim_admission_def split: list.split)
qed

lemma claim_frame [simp]:
  "mg_engines (claim_admission k m) = mg_engines m" "mg_stopping (claim_admission k m) = mg_stopping m"
  "mg_reserved_stops (claim_admission k m) = mg_reserved_stops m" "mg_capacity_starts (claim_admission k m) = mg_capacity_starts m"
  "mg_request_reservations (claim_admission k m) = mg_request_reservations m" "mg_closed (claim_admission k m) = mg_closed m"
  "mg_warm_claims (claim_admission k m) = mg_warm_claims m" "mg_warm_workers (claim_admission k m) = mg_warm_workers m"
  by (simp_all add: claim_admission_def set_admissions_def split: list.split)

lemma claim_admissions:
  "admissions_of j (claim_admission k m) =
     (if j = k then (case admissions_of k m of [] \<Rightarrow> [] | a # as \<Rightarrow> a\<lparr>ad_claimed := True\<rparr> # as) else admissions_of j m)"
  by (auto simp: claim_admission_def admissions_set split: list.split)

lemma spawn_enter_started:
  assumes "spawn_enter view now defaults cfg reserve k m = (Spawn_Started sp, m')"
  shows "\<not> mg_closed m" "dict_get (mg_events m) k = None" "sp_key sp = k" "sp_event sp = mg_fresh m" "\<not> sp_registered sp" "\<not> evicting sp" "sp_ok sp"
    "sp_reserve sp = reserve" "sp_admission sp = (case admissions_of k m of [] \<Rightarrow> None | b # _ \<Rightarrow> Some (b\<lparr>ad_claimed := True\<rparr>))"
    "mg_events m' = AList.update k (mg_fresh m) (mg_events m)" "mg_fresh m' = Suc (mg_fresh m)"
    "mg_engines m' = AList.delete k (mg_engines m)" "mg_request_reservations m' = mg_request_reservations m" "mg_closed m' = mg_closed m"
    "mg_admissions m' = mg_admissions (claim_admission k m)"
    "mg_capacity_starts m' = mg_capacity_starts m + (if sp_start_held sp then 1 else 0)"
    "set (mg_reserved_stops m) \<subseteq> set (mg_stopping m) \<Longrightarrow>
       int (length (mg_engines m')) + int (length (mg_stopping m')) - int (length (mg_reserved_stops m')) + (if sp_start_held sp then 1 else 0)
       \<le> int (length (mg_engines m)) + int (length (mg_stopping m)) - int (length (mg_reserved_stops m))"
    "distinct (mg_reserved_stops m) \<Longrightarrow> distinct (mg_reserved_stops m')"
    "set (mg_reserved_stops m) \<subseteq> set (mg_stopping m) \<Longrightarrow> set (mg_reserved_stops m') \<subseteq> set (mg_stopping m')"
    "set (mg_reserved_stops m') \<subseteq> set (mg_reserved_stops m) \<union> set (sp_stops sp)"
proof -
  have del: "dict_get (mg_engines m) k = None \<Longrightarrow> AList.delete k (mg_engines m) = mg_engines m"
    by (simp add: map_of_eq_None_iff delete_id)
  have len: "dict_get (mg_engines m) k \<noteq> None \<Longrightarrow> length (AList.delete k (mg_engines m)) < length (mg_engines m)" by (rule length_delete)
  note d = assms [unfolded spawn_enter_def Let_def new_spawn_def] 
  show "\<not> mg_closed m" "dict_get (mg_events m) k = None" "sp_key sp = k" "sp_event sp = mg_fresh m" "\<not> sp_registered sp" "\<not> evicting sp"
      "sp_reserve sp = reserve" "sp_admission sp = (case admissions_of k m of [] \<Rightarrow> None | b # _ \<Rightarrow> Some (b\<lparr>ad_claimed := True\<rparr>))"
    using d by (auto simp: evicting_def split: if_splits option.splits)
  show "sp_ok sp" using d by (auto simp: spawn_simps split: if_splits option.splits)
  show "mg_events m' = AList.update k (mg_fresh m) (mg_events m)" "mg_fresh m' = Suc (mg_fresh m)"
      "mg_request_reservations m' = mg_request_reservations m" "mg_closed m' = mg_closed m" "mg_admissions m' = mg_admissions (claim_admission k m)"
      "mg_capacity_starts m' = mg_capacity_starts m + (if sp_start_held sp then 1 else 0)"
    using d by (auto simp: track_stopping_def split: if_splits option.splits)
  show "mg_engines m' = AList.delete k (mg_engines m)" using d del by (auto simp: track_stopping_def split: if_splits option.splits)
  show "distinct (mg_reserved_stops m')" if "distinct (mg_reserved_stops m)"
    using that d by (auto simp: track_stopping_def split: if_splits option.splits)
  show "set (mg_reserved_stops m') \<subseteq> set (mg_stopping m')" if "set (mg_reserved_stops m) \<subseteq> set (mg_stopping m)"
    using that d by (auto simp: track_stopping_def split: if_splits option.splits)
  show "set (mg_reserved_stops m') \<subseteq> set (mg_reserved_stops m) \<union> set (sp_stops sp)"
    using d by (auto simp: track_stopping_def sp_stops_def split: if_splits option.splits)
  show "int (length (mg_engines m')) + int (length (mg_stopping m')) - int (length (mg_reserved_stops m')) + (if sp_start_held sp then 1 else 0)
       \<le> int (length (mg_engines m)) + int (length (mg_stopping m)) - int (length (mg_reserved_stops m))" if "set (mg_reserved_stops m) \<subseteq> set (mg_stopping m)"
    using that d len by (auto simp: track_stopping_def List.insert_def split: if_splits option.splits)
qed

lemma spawn_started_inv:
  assumes inv: "engine_inv workers m sps prs sts tls" and e: "spawn_enter view now defaults cfg reserve k m = (Spawn_Started sp, m')"
    and r: "reserve \<or> 0 < reservations k m"
  shows "engine_inv workers m' (sp # sps) prs sts tls"
proof -
  note f = spawn_enter_started [OF e]
  note o = engine_inv_open [OF inv f(1)]
  have a: "accounted workers m (queued m) sps prs" and ex: "exclusive m sps (owners (queued m) sps prs sts) tls" using o(1) by (simp_all add: core_inv_def)
  have acc: "accounted workers m' (queued m) (sp # sps) prs"
    using a f(16-20) by (auto simp: accounted_def tickets_def capacity_used_def paid_stops_def)
  have "core_inv workers m' (queued m) (sp # sps) prs sts tls"
    by (rule core_enter [OF o(1) f(2,3,4,7,5,6) _ f(10,11) _ _ _ acc])
      (use ex r f(8) in \<open>auto simp: f(12,13) delete_conv' exclusive_def distinct_delete reservations_def\<close>)
  moreover have q: "queued m' = queued (claim_admission k m)" "admissions_of j m' = admissions_of j (claim_admission k m)" for j
    using f(15) by (simp_all add: queued_def admissions_of_def)
  ultimately have "core_inv workers m' (queued m') (sp # sps) prs sts tls" using claim_inv_parts(1) [OF o(3)] by simp
  moreover have "claims m' sp" using f(3,9) by (auto simp: claims_def q claim_admissions split: list.splits)
  moreover have "claims m' x" if "x \<in> set sps" for x
  proof -
    have "(sp_key x, Some (sp_event x)) \<in> set (owners (queued m) sps prs sts)" using that by (auto simp: owners_def sp_owns_def)
    then have "dict_get (mg_events m) (sp_key x) \<noteq> None" using ex unfolding exclusive_def by fastforce
    then have "sp_key x \<noteq> k" using f(2) by auto
    then show ?thesis by (intro claims_append [OF o(2) [OF that]]) (simp add: q claim_admissions)
  qed
  moreover have "distinct (map fst (mg_admissions m'))" using claim_inv_parts(2) [OF o(3), of k] o(3) f(15) by auto
  ultimately show ?thesis by (simp add: engine_inv_def)
qed

lemma spawn_other_inv:
  assumes inv: "engine_inv workers m sps prs sts tls" and e: "spawn_enter view now defaults cfg reserve k m = (r, m')" and "\<And>sp. r \<noteq> Spawn_Started sp"
  shows "engine_inv workers m' sps prs sts tls"
proof -
  have "same_core m m'" using e assms(3)
    by (auto simp: spawn_enter_def Let_def same_core_def reservations_def intro!: engines_like_update split: if_splits option.splits)
  then show ?thesis by (rule engine_frame [OF _ inv])
qed

lemma section_inv:
  assumes inv: "engine_inv workers m (xs @ sp # ys) prs sts tls" and "spawn_section workers view now sp m sp' m' b"
  shows "engine_inv workers m' (xs @ sp' # ys) prs sts tls"
  using assms(2)
proof cases
  case (sec_fail)
  then show ?thesis using spawn_fail_inv [OF inv, of Ph_Failed] by auto
qed (use spawn_prior_inv [OF inv] spawn_claim_inv [OF inv] spawn_evict_inv [OF inv] spawn_event_inv [OF inv] spawn_warm_inv [OF inv]
    spawn_probe_inv [OF inv] spawn_cold_inv [OF inv] spawn_create_inv [OF inv] spawn_register_inv [OF inv] spawn_unclaim_inv [OF inv]
    spawn_check_inv [OF inv] in auto)

lemma release_section_inv:
  assumes inv: "engine_inv workers m (xs @ sp # ys) prs sts tls" and ph: "sp_phase sp = Ph_Release"
    and r: "release_spawn_admission workers view now (sp_key sp) m = (r, m')"
  shows "engine_inv workers m' (xs @ sp\<lparr>sp_phase := Ph_Check\<rparr> # ys) (case r of Restoring pr \<Rightarrow> pr # prs | _ \<Rightarrow> prs) sts tls"
proof -
  have "engine_inv workers m (xs @ sp\<lparr>sp_phase := Ph_Check\<rparr> # ys) prs sts tls"
    by (rule spawn_fail_inv [OF inv]) (use ph in \<open>auto simp: sp_ok_def\<close>)
  then show ?thesis by (rule release_inv [OF _ r])
qed

subsection \<open>Every step\<close>

lemma same_core_turn: "identity_turn k m = (r, m') \<Longrightarrow> same_core m m'"
  by (auto simp: identity_turn_def same_core_def reservations_def split: if_splits)

lemma same_core_wait: "wait_for_capacity workers view m = (r, m') \<Longrightarrow> same_core m m'"
  by (auto simp: wait_for_capacity_def same_core_def reservations_def split: if_splits)

lemma same_core_reserve: "reserve_engine_request now k m = Inr m' \<Longrightarrow> same_core m m'"
  by (auto simp: reserve_engine_request_def intro: same_core_trans [OF reserve_request_core touch_core] split: if_splits)

lemma same_core_replenish: "replenish_begin factory stopping m = (r, m') \<Longrightarrow> same_core m m'"
  by (auto simp: replenish_begin_def Let_def same_core_def reservations_def split: if_splits list.splits)

lemma same_core_replenished: "replenish_end stopping engine m = (d, m') \<Longrightarrow> same_core m m'"
  by (auto simp: replenish_end_def Let_def same_core_def reservations_def split: if_splits option.splits)

lemma same_core_cleanup: "same_core m (cleanup_end ok stopping c m)"
  by (auto simp: cleanup_end_def same_core_def reservations_def)

lemma same_core_forget: "same_core m (forget_capacity_waiter f m)"
  by (auto simp: forget_capacity_waiter_def same_core_def reservations_def)

lemma same_core_starting: "same_core m (m\<lparr>mg_starting := es\<rparr>)" "same_core m (m\<lparr>mg_starting := es, mg_fresh := Suc (mg_fresh m)\<rparr>)"
  by (auto simp: same_core_def reservations_def)

lemmas same_core_sections = same_core_turn same_core_wait same_core_reserve same_core_replenish same_core_replenished same_core_cleanup
  same_core_forget same_core_starting same_core_context

lemma closed_inv: "mg_closed m \<Longrightarrow> engine_inv workers m sps prs sts tls"
  by (simp add: engine_inv_def)

lemma engine_step_inv:
  assumes "engine_step workers defaults ttl s s'" and "system_inv workers s"
  shows "system_inv workers s'"
proof -
  have inv: "engine_inv workers (sy_manager s) (sy_spawns s) (sy_releases s) (sy_stops s) (sy_tails s)"
    using assms(2) by (simp add: system_inv_def)
  note frame = engine_frame [OF _ inv]
  show ?thesis using assms(1)
  proof cases
    case (en_view v) then show ?thesis using inv by (simp add: system_inv_def)
  next
    case (en_view_quiet v) then show ?thesis using inv by (simp add: system_inv_def)
  next
    case (en_notify now) then show ?thesis using notify_inv [OF inv] by (simp add: system_inv_def)
  next
    case (en_enter now k priority reserve r m') then show ?thesis using enter_inv [OF inv] by (simp add: system_inv_def)
  next
    case (en_cancel now f) then show ?thesis using cancel_inv [OF inv] by (simp add: system_inv_def)
  next
    case (en_unreserve k) then show ?thesis using unreserve_inv [OF inv] by (simp add: system_inv_def)
  next
    case (en_release now k r m') then show ?thesis using release_inv [OF inv, of _ now k r m'] by (cases r) (simp_all add: system_inv_def)
  next
    case (en_restore xs pr ys now) then show ?thesis using inv restore_inv(1) by (simp add: system_inv_def)
  next
    case (en_evicted xs pr ys now) then show ?thesis using inv restore_inv(2) by (simp add: system_inv_def)
  next
    case (en_tail xs k ev ys) then show ?thesis using inv tail_inv by (simp add: system_inv_def)
  next
    case (en_spawn now cfg reserve k r m')
    then show ?thesis using spawn_started_inv [OF inv, of _ now defaults cfg reserve k] spawn_other_inv [OF inv, of _ now defaults cfg reserve k r m']
      by (cases r) (simp_all add: system_inv_def)
  next
    case (en_section xs sp ys now sp' m' notifies) then show ?thesis using inv section_inv by (simp add: system_inv_def)
  next
    case (en_spawn_release xs sp ys now r m')
    then show ?thesis using inv release_section_inv [of workers "sy_manager s" xs sp ys "sy_releases s" "sy_stops s" "sy_tails s" _ now r m']
      by (cases r) (simp_all add: system_inv_def Let_def)
  next
    case (en_spawn_exit xs sp ys) then show ?thesis using inv spawn_exit_inv by (simp add: system_inv_def)
  next
    case (en_done k e) then show ?thesis using done_inv [OF inv] by (simp add: system_inv_def)
  next
    case (en_shutdown k st m') then show ?thesis using shutdown_inv [OF inv] by (simp add: system_inv_def)
  next
    case (en_shutdown_idle k st m') then show ?thesis using shutdown_idle_inv [OF inv] by (simp add: system_inv_def)
  next
    case (en_reap alive now tracked sts m') then show ?thesis using reap_inv [OF inv] by (simp add: system_inv_def)
  next
    case (en_untrack xs st ys st' m') then show ?thesis using inv untrack_inv by (simp add: system_inv_def)
  next
    case (en_stop xs st ys) then show ?thesis using inv stop_inv by (simp add: system_inv_def)
  next
    case en_close then show ?thesis by (simp add: system_inv_def closed_inv shutdown_close_def)
  next
    case en_collect then show ?thesis by (simp add: system_inv_def closed_inv shutdown_collect_def Let_def)
  next
    case en_drain then show ?thesis by (simp add: system_inv_def closed_inv shutdown_drain_def)
  next
    case en_engines then show ?thesis by (simp add: system_inv_def closed_inv shutdown_engines_def)
  qed (use frame same_core_sections in \<open>auto simp: system_inv_def\<close>)
qed

lemma start_inv: "0 \<le> workers \<Longrightarrow> system_inv workers (start_system target view)"
  by (simp add: system_inv_def start_system_def engine_inv_def core_inv_def accounted_def exclusive_def empty_manager_def queued_def tickets_def
      paid_stops_def owners_def capacity_used_def)

end
