(* ===== verification/Engine_Safety.thy ===== *)
theory Engine_Safety
  imports Engine_Steps
begin

text \<open>
  What the process manager ensures: the number of containers is bounded, busy engines are not evicted, free
  capacity is never left unused while a request waits for it, and no class of requests starves.
\<close>

interpretation engine_calls: preserved "engine_step workers defaults ttl" "system_inv workers"
  for workers :: int and defaults :: resource_config and ttl :: int
  by unfold_locales (rule engine_step_inv)

subsection \<open>Containers\<close>

definition booting_spawns :: "spawn_local list \<Rightarrow> nat" where
  "booting_spawns sps = length (filter booting sps)"

lemma spawn_ticket: "sp_ok sp \<Longrightarrow> length (sp_stops sp) + (if booting sp then 1 else 0) \<le> (if sp_start_held sp then 1 else (0 :: nat))"
  by (cases "sp_phase sp") (auto simp: sp_stops_def sp_ok_def holding_def early_def booting_def)

lemma spawn_tickets:
  "\<forall>sp \<in> set sps. sp_ok sp \<Longrightarrow> length (concat (map sp_stops sps)) + booting_spawns sps \<le> length (filter sp_start_held sps)"
proof (induction sps)
  case (Cons sp sps)
  then have "length (concat (map sp_stops sps)) + booting_spawns sps \<le> length (filter sp_start_held sps)" by simp
  then show ?case using spawn_ticket [of sp] Cons.prems by (simp add: booting_spawns_def split: if_splits)
qed (simp add: booting_spawns_def)

lemma admission_tickets: "length (concat (map ad_stops qs)) \<le> length qs"
  by (induction qs) (auto simp: ad_stops_def split: option.split)

lemma accounted_containers:
  assumes "accounted workers m qs sps prs" and "\<forall>sp \<in> set sps. sp_ok sp"
  shows "int (length (mg_engines m)) + int (length (mg_stopping m)) + int (booting_spawns sps) \<le> workers"
proof -
  have "length (mg_reserved_stops m) = card (set (mg_reserved_stops m))" using assms(1) by (simp add: accounted_def distinct_card)
  also have "\<dots> \<le> card (set (paid_stops qs sps prs))" using assms(1) by (intro card_mono) (auto simp: accounted_def)
  also have "\<dots> \<le> length (paid_stops qs sps prs)" by (rule card_length)
  also have "\<dots> + booting_spawns sps \<le> tickets qs sps prs"
    using spawn_tickets [OF assms(2)] admission_tickets [of qs] by (simp add: paid_stops_def tickets_def)
  finally have "length (mg_reserved_stops m) + booting_spawns sps \<le> tickets qs sps prs" by simp
  then show ?thesis using assms(1) by (auto simp: accounted_def capacity_used_def)
qed

subsection \<open>Busy engines\<close>

lemma busy_kept_reserve:
  assumes "reserve_capacity workers view m = Some (a, m')" and "dict_get (mg_engines m) k = Some i" and "busy view m (k, i)"
    and d: "distinct (map fst (mg_engines m))"
  shows "dict_get (mg_engines m') k = Some i"
proof (cases "capacity_used m < workers")
  case True
  then show ?thesis using assms by (auto simp: reserve_capacity_def take_ticket_def Let_def)
next
  case False
  then obtain k' i' where idle: "find_idle_engine view m = Some (k', i')" using assms(1) by (auto simp: reserve_capacity_def split: option.splits)
  have "mg_engines m' = AList.delete k' (mg_engines m)"
    using assms(1) False idle by (auto simp: reserve_capacity_def take_ticket_def Let_def track_stopping_def)
  moreover have "dict_get (mg_engines m) k' = Some i'" using find_idle_facts(1) [OF idle] d by simp
  then have "k' \<noteq> k" using find_idle_facts(2) [OF idle] assms(2,3) by auto
  ultimately show ?thesis using assms(2) by (simp add: delete_conv')
qed

lemma reserve_frame2:
  assumes "reserve_capacity workers view m = Some (a, m')"
  shows "mg_request_reservations m' = mg_request_reservations m" "distinct (map fst (mg_engines m)) \<Longrightarrow> distinct (map fst (mg_engines m'))"
  using assms by (auto simp: reserve_capacity_def take_ticket_def Let_def track_stopping_def distinct_delete split: if_splits option.splits)

text \<open>An engine runs for an identity, and it is in use when a call holds it, a request of its identity is reserved or it
  works on a job.\<close>

definition runs_at :: "manager \<Rightarrow> identity_key \<Rightarrow> nat \<Rightarrow> bool" where
  "runs_at m k e \<longleftrightarrow> (\<exists>i. dict_get (mg_engines m) k = Some i \<and> wi_engine i = e)"

definition in_use :: "(nat \<Rightarrow> engine_view) \<Rightarrow> manager \<Rightarrow> identity_key \<Rightarrow> nat \<Rightarrow> bool" where
  "in_use view m k e \<longleftrightarrow>
     (\<exists>i. dict_get (mg_engines m) k = Some i \<and> wi_engine i = e \<and>
        (0 < wi_active_reservations i \<or> (\<exists>n > 0. dict_get (mg_request_reservations m) k = Some n) \<or> (\<exists>job. ev_job (view e) = Some job \<and> job \<noteq> [])))"

lemma in_use_busy: "in_use view m k e \<longleftrightarrow> (\<exists>i. dict_get (mg_engines m) k = Some i \<and> wi_engine i = e \<and> busy view m (k, i))"
  by (auto simp: in_use_def busy_def reservations_def truthy_def split: option.splits)

lemma in_use_runs: "in_use view m k e \<Longrightarrow> runs_at m k e"
  by (auto simp: in_use_def runs_at_def)

lemma in_use_cong:
  assumes "in_use view m k e" and "dict_get (mg_engines m') k = dict_get (mg_engines m) k" and "mg_request_reservations m' = mg_request_reservations m"
  shows "in_use view m' k e"
  using assms by (simp add: in_use_def)

lemma runs_cong: "dict_get (mg_engines m') k = dict_get (mg_engines m) k \<Longrightarrow> runs_at m k e \<Longrightarrow> runs_at m' k e"
  by (simp add: runs_at_def)

lemma busy_frame:
  assumes "same_core m m'" and "in_use view m k e"
  shows "in_use view m' k e"
proof -
  from assms(2) obtain i where i: "dict_get (mg_engines m) k = Some i" "wi_engine i = e" "busy view m (k, i)" by (auto simp: in_use_busy)
  have l: "engines_like (mg_engines m) (mg_engines m')" and r: "reservations k m \<le> reservations k m'" using assms(1) by (simp_all add: same_core_def)
  obtain j where j: "dict_get (mg_engines m') k = Some j" using engines_like_None [OF l, of k] i(1) by auto
  then have "wi_engine j = wi_engine i" "wi_active_reservations i \<le> wi_active_reservations j" using l i(1) unfolding engines_like_def by fastforce+
  then show ?thesis using i j r by (auto simp: in_use_busy busy_def)
qed

lemma admit_one_busy:
  assumes "admit_one workers view now m = Some m'" and "in_use view m k e" and d: "distinct (map fst (mg_engines m))"
  shows "in_use view m' k e \<and> distinct (map fst (mg_engines m'))"
proof -
  from assms(1) obtain i p where p: "pick_waiter m = Some (i, p)" by (auto simp: admit_one_def split: option.splits)
  let ?w = "mg_spawn_waiters m ! i" let ?k = "sw_key ?w"
  show ?thesis
  proof (cases "dict_get (mg_engines m) ?k")
    case (Some x)
    let ?m1 = "if sw_reserve_existing ?w then touch now ?k (reserve_request ?k (drop_waiter i m)) else drop_waiter i m"
    have "same_core m ?m1" by (simp add: same_core_trans [OF drop_waiter_core same_core_trans [OF reserve_request_core touch_core]])
    then have c: "same_core m (resolve (sw_id ?w) (Uses_Existing (sw_reserve_existing ?w)) ?m1)" by (rule same_core_trans [OF _ resolve_core])
    have m': "m' = resolve (sw_id ?w) (Uses_Existing (sw_reserve_existing ?w)) ?m1" using assms(1) p Some by (simp add: admit_one_def Let_def)
    have "map fst (mg_engines m') = map fst (mg_engines m)" using c unfolding m' same_core_def engines_like_def by blast
    then show ?thesis using busy_frame [OF c assms(2)] d m' by simp
  next
    case None
    then obtain a m1 where r: "reserve_capacity workers view m = Some (a, m1)" and
      m': "m' = resolve (sw_id ?w) Owns_Admission (set_admissions ?k (admissions_of ?k m1 @ [a]) ((drop_waiter i m1)\<lparr>mg_next_priority := p\<rparr>))"
      using assms(1) p by (auto simp: admit_one_def Let_def split: option.splits)
    have e: "mg_engines m' = mg_engines m1" "reservations j m' = reservations j m" for j
      using reserve_frame2(1) [OF r] by (simp_all add: m' resolve_def set_admissions_def drop_waiter_def reservations_def)
    from assms(2) obtain x where x: "dict_get (mg_engines m) k = Some x" "wi_engine x = e" "busy view m (k, x)" by (auto simp: in_use_busy)
    then have "dict_get (mg_engines m') k = Some x" using busy_kept_reserve [OF r] d e(1) by simp
    moreover have "busy view m' (k, x)" using x(3) by (simp add: busy_def e(2))
    ultimately show ?thesis using x(2) reserve_frame2(2) [OF r d] e(1) by (auto simp: in_use_busy)
  qed
qed

lemma admit_busy:
  "in_use view m k e \<Longrightarrow> distinct (map fst (mg_engines m)) \<Longrightarrow> in_use view (admit_spawn_waiters workers view now m) k e"
proof (induction workers view now m rule: admit_spawn_waiters.induct)
  case (1 workers view now m)
  show ?case
  proof (cases "mg_spawn_waiters m = [] \<or> mg_closed m")
    case True
    then show ?thesis using "1.prems" by (subst admit_spawn_waiters.simps) (auto simp: in_use_busy busy_def reservations_def)
  next
    case False
    show ?thesis
    proof (cases "admit_one workers view now m")
      case None
      then show ?thesis using "1.prems" False by (subst admit_spawn_waiters.simps) simp
    next
      case (Some m')
      then have "in_use view (admit_spawn_waiters workers view now m') k e"
        using "1.IH" [of m'] False admit_one_busy [OF Some "1.prems"] by blast
      then show ?thesis using False Some by (subst admit_spawn_waiters.simps) simp
    qed
  qed
qed

lemma reap_busy:
  "reap_idle_engines ttl view alive now tracked m = (sts, m') \<Longrightarrow> in_use view m k e \<Longrightarrow> in_use view m' k e"
proof (induction tracked arbitrary: m sts)
  case (Cons x xs)
  show ?case
  proof (cases "reapable ttl view alive now m x")
    case False
    then show ?thesis using Cons by simp
  next
    case True
    obtain st m1 where t: "take_out (fst x) (dict_get (mg_engines m) (fst x)) m = (st, m1)" by fastforce
    obtain sts1 where r: "reap_idle_engines ttl view alive now xs m1 = (sts1, m')" using Cons.prems(1) True t by (auto split: prod.splits)
    note f = take_out_fields [OF t]
    have "fst x \<noteq> k" using True Cons.prems(2) by (auto simp: reapable_def in_use_busy split: option.splits)
    then have "in_use view m1 k e" using Cons.prems(2) by (auto simp: in_use_busy busy_def reservations_def f(5,13) delete_conv')
    then show ?thesis by (rule Cons.IH [OF r])
  qed
qed simp

lemma idle_stop_busy:
  assumes "shutdown_compute_worker_if_idle view j m = (r, m')" and "in_use view m k e"
  shows "in_use view m' k e"
proof (cases "\<exists>st. r = Stop_Started st")
  case False
  then show ?thesis using assms by (auto simp: shutdown_compute_worker_if_idle_def split: option.splits if_splits prod.splits)
next
  case True
  then obtain st i where t: "take_out j (Some i) m = (st, m')" "dict_get (mg_engines m) j = Some i" "\<not> busy view m (j, i)"
    using assms(1) by (auto simp: shutdown_compute_worker_if_idle_def split: option.splits if_splits prod.splits)
  then have "j \<noteq> k" using assms(2) by (auto simp: in_use_busy)
  then show ?thesis using assms(2) take_out_fields [OF t(1)] by (auto simp: in_use_busy busy_def reservations_def delete_conv')
qed

text \<open>The sections that admit waiting requests.\<close>

lemma admit_kept:
  assumes "in_use view m k e" and "dict_get (mg_engines m') k = dict_get (mg_engines m) k" and "mg_request_reservations m' = mg_request_reservations m"
    and "distinct (map fst (mg_engines m'))"
  shows "runs_at (admit_spawn_waiters workers view now m') k e"
  by (rule in_use_runs, rule admit_busy [OF in_use_cong [OF assms(1-3)] assms(4)])

lemma notify_busy:
  assumes "in_use view m k e" and "distinct (map fst (mg_engines m))"
  shows "runs_at (notify_capacity_changed workers view now m) k e"
  unfolding notify_capacity_changed_def Let_def by (rule admit_kept [OF assms(1)]) (simp_all add: assms(2))

lemma enter_busy:
  assumes "in_use view m k e" and d: "distinct (map fst (mg_engines m))"
  shows "runs_at (snd (enter_spawn_admission workers view now j priority reserve m)) k e"
proof -
  have "same_core m (touch now j (reserve_request j m))" by (rule same_core_trans [OF reserve_request_core touch_core])
  then have "runs_at (touch now j (reserve_request j m)) k e" by (rule in_use_runs [OF busy_frame [OF _ assms(1)]])
  moreover have "runs_at (admit_spawn_waiters workers view now (m\<lparr>mg_spawn_waiters := ws, mg_fresh := n\<rparr>)) k e" for ws n
    by (rule admit_kept [OF assms(1)]) (simp_all add: d)
  ultimately show ?thesis using in_use_runs [OF assms(1)] by (simp add: enter_spawn_admission_def)
qed

lemma cancel_busy:
  assumes "in_use view m k e" and "distinct (map fst (mg_engines m))"
  shows "runs_at (cancel_spawn_waiter workers view now f m) k e"
  unfolding cancel_spawn_waiter_def by (rule admit_kept [OF assms(1)]) (simp_all add: assms(2))

lemma release_busy:
  assumes "in_use view m k e" and d: "distinct (map fst (mg_engines m))"
  shows "runs_at (snd (release_spawn_admission workers view now j m)) k e"
proof -
  have admit: "runs_at (admit_spawn_waiters workers view now m') k e"
    if "mg_engines m' = mg_engines m" "mg_request_reservations m' = mg_request_reservations m" for m'
    by (rule admit_kept [OF assms(1)]) (simp_all add: that d)
  have fr: "mg_engines (set_admissions j as m) = mg_engines m" "mg_request_reservations (set_admissions j as m) = mg_request_reservations m" for as
    by (simp_all add: set_admissions_def)
  show ?thesis
  proof (cases "admissions_of j m = [] \<or> ad_claimed (hd (admissions_of j m))")
    case True
    then show ?thesis using in_use_runs [OF assms(1)] by (auto simp: release_spawn_admission_def split: list.split)
  next
    case False
    then obtain a as where a: "admissions_of j m = a # as" "\<not> ad_claimed a" by (cases "admissions_of j m") auto
    show ?thesis
    proof (cases "ad_evicted a")
      case None
      show ?thesis unfolding release_spawn_admission_def a list.case Let_def None option.case if_not_P [OF a(2)] snd_conv
        by (rule admit) (simp_all add: fr)
    next
      case (Some x)
      then show ?thesis using in_use_runs [OF assms(1)] by (cases x) (simp add: release_spawn_admission_def a Let_def runs_at_def fr)
    qed
  qed
qed

text \<open>An engine that a call put aside does not come back over another one, and a call does not register its engine over
  another one: the identities that calls hold are theirs alone.\<close>

lemma pending_key_free:
  assumes "core_inv workers m qs sps (xs @ pr # ys) sts tls"
  shows "dict_get (mg_engines m) (pr_key pr) = None"
proof (rule ccontr)
  assume "dict_get (mg_engines m) (pr_key pr) \<noteq> None"
  moreover have ex: "exclusive m sps (owners qs sps (xs @ pr # ys) sts) tls" using assms by (simp add: core_inv_def)
  moreover have "(pr_key pr, pr_event pr) \<in> set (owners qs sps (xs @ pr # ys) sts)" by (simp add: owners_def)
  ultimately have "registered_at (pr_key pr) sps" unfolding exclusive_def by fastforce
  then obtain sp where sp: "sp \<in> set sps" "sp_key sp = pr_key pr" by (auto simp: registered_at_def)
  have "mset (owners qs sps (xs @ pr # ys) sts) = mset ((pr_key pr, pr_event pr) # owners qs sps (xs @ ys) sts)" by (simp add: owners_def)
  then have "distinct (map fst ((pr_key pr, pr_event pr) # owners qs sps (xs @ ys) sts))"
    using ex by (metis exclusive_def mset_eq_imp_distinct_iff mset_map)
  moreover have "(sp_key sp, Some (sp_event sp)) \<in> set (owners qs sps (xs @ ys) sts)" using sp(1) by (auto simp: owners_def sp_owns_def)
  ultimately show False using sp(2) by (auto simp: image_iff)
qed

lemma booting_key_free:
  assumes inv: "core_inv workers m qs (xs @ sp # ys) prs sts tls" and "\<not> sp_registered sp"
  shows "dict_get (mg_engines m) (sp_key sp) = None"
proof (rule ccontr)
  assume "dict_get (mg_engines m) (sp_key sp) \<noteq> None"
  moreover have ex: "exclusive m (xs @ sp # ys) (owners qs (xs @ sp # ys) prs sts) tls" using inv by (simp add: core_inv_def)
  moreover have "(sp_key sp, Some (sp_event sp)) \<in> set (owners qs (xs @ sp # ys) prs sts)" by (simp add: owners_def sp_owns_def)
  ultimately have "registered_at (sp_key sp) (xs @ sp # ys)" unfolding exclusive_def by fastforce
  then obtain x where x: "x \<in> set xs \<union> set ys" "sp_key x = sp_key sp" using assms(2) by (auto simp: registered_at_def)
  then show False using spawn_keys [of qs xs sp ys prs sts x] ex by (simp add: exclusive_def)
qed

lemma restore_busy:
  assumes u: "in_use view m k e" and inv: "core_inv workers m qs sps prs sts tls" and pr: "pr \<in> set prs"
  shows "runs_at (restore_evicted workers view now pr m) k e" and "runs_at (evicted_stopped workers view now pr m) k e"
proof -
  obtain xs ys where prs: "prs = xs @ pr # ys" using split_list [OF pr] by blast
  have d: "distinct (map fst (mg_engines m))" using inv by (simp add: core_inv_def exclusive_def)
  have "pr_key pr \<noteq> k" using pending_key_free [OF inv [unfolded prs]] u by (auto simp: in_use_def)
  then have "dict_get (AList.update (pr_key pr) (pr_info pr) (mg_engines m)) k = dict_get (mg_engines m) k" by (simp add: update_conv')
  then show "runs_at (restore_evicted workers view now pr m) k e" unfolding restore_evicted_def Let_def
    by (intro admit_kept [OF u]) (simp_all add: untrack_stopping_engine_def update_conv' distinct_update d)
  show "runs_at (evicted_stopped workers view now pr m) k e" unfolding evicted_stopped_def Let_def
    by (rule admit_kept [OF u]) (simp_all add: untrack_stopping_engine_def d)
qed

text \<open>The sections of a spawn in progress: its claim may evict another engine, its registration adds one.\<close>

lemma claim_busy:
  assumes "spawn_claim workers view sp m = (sp', m')" and u: "in_use view m k e" and d: "distinct (map fst (mg_engines m))"
  shows "runs_at m' k e"
proof -
  obtain i where i: "dict_get (mg_engines m) k = Some i" "wi_engine i = e" "busy view m (k, i)" using u by (auto simp: in_use_busy)
  have "runs_at m1 k e" if "reserve_capacity workers view m = Some (c, m1)" for c m1
    using busy_kept_reserve [OF that i(1,3) d] i(2) by (simp add: runs_at_def)
  then show ?thesis using assms(1) in_use_runs [OF u]
    by (auto simp: spawn_claim_def try_claim_capacity_slot_def set_admissions_def runs_at_def split: option.splits list.splits if_splits)
qed

lemma section_busy:
  assumes inv: "core_inv workers m qs sps prs sts tls" and sp: "sp \<in> set sps"
    and sec: "spawn_section workers view now sp m sp' m' b" and u: "in_use view m k e"
  shows "runs_at m' k e"
  using sec
proof cases
  case sec_claim
  then show ?thesis using claim_busy [OF _ u] inv by (auto simp: core_inv_def exclusive_def)
next
  case sec_register
  obtain xs ys where sps: "sps = xs @ sp # ys" using split_list [OF sp] by blast
  have "\<not> sp_registered sp" using inv sp sec_register(2) by (auto simp: core_inv_def sp_ok_def)
  then have "sp_key sp \<noteq> k" using booting_key_free [OF inv [unfolded sps]] u by (auto simp: in_use_def)
  then have "dict_get (mg_engines m') k = dict_get (mg_engines m) k" using sec_register by (auto simp: spawn_register_def Let_def update_conv')
  then show ?thesis by (rule runs_cong [OF _ in_use_runs [OF u]])
qed (use u in \<open>auto intro!: runs_cong [OF _ in_use_runs [OF u]] simp: spawn_prior_done_def spawn_evict_done_def spawn_evict_event_def untrack_stopping_engine_def
    finish_event_opt_def finish_engine_event_def spawn_pop_warm_def Let_def spawn_probed_def queue_rejected_warm_worker_def spawn_cold_def spawn_create_def
    spawn_unclaim_def set_admissions_def split: option.splits list.splits if_splits\<close>)

lemma shutdown_busy:
  assumes "in_use view m k e" and "j \<noteq> k"
  shows "runs_at (snd (shutdown_compute_worker j m)) k e"
  using in_use_runs [OF assms(1)] assms(2)
  by (auto simp: shutdown_compute_worker_def take_out_def Let_def track_stopping_def runs_at_def delete_conv' split: option.split)

subsection \<open>Free capacity\<close>

lemma rotation_reaches: "n < 3 \<Longrightarrow> c < 3 \<Longrightarrow> \<exists>off < 3. (n + off) mod 3 = (c :: nat)"
  by (rule exI [of _ "if n \<le> c then c - n else c + 3 - n"]) auto

lemma pick_none: "pick_waiter m = None \<Longrightarrow> w \<in> set (mg_spawn_waiters m) \<Longrightarrow> sw_priority w < ADMISSION_PRIORITIES \<Longrightarrow> \<not> eligible m w"
proof
  assume n: "pick_waiter m = None" and w: "w \<in> set (mg_spawn_waiters m)" "sw_priority w < ADMISSION_PRIORITIES" "eligible m w"
  let ?ps = "map (\<lambda>off. (mg_next_priority m + off) mod ADMISSION_PRIORITIES) [0..<ADMISSION_PRIORITIES]"
  obtain off where off: "off < 3" "(mg_next_priority m mod 3 + off) mod 3 = sw_priority w"
    using rotation_reaches [of "mg_next_priority m mod 3" "sw_priority w"] w(2) by (auto simp: ADMISSION_PRIORITIES_def)
  have "sw_priority w = (mg_next_priority m + off) mod 3" using off(2) by (simp add: mod_add_left_eq)
  then have "sw_priority w \<in> set ?ps" using off(1) unfolding ADMISSION_PRIORITIES_def by force
  then have "find (\<lambda>p. \<exists>w \<in> set (mg_spawn_waiters m). eligible m w \<and> sw_priority w = p) ?ps \<noteq> None"
    using w by (auto simp: find_None_iff)
  then obtain p where p: "find (\<lambda>p. \<exists>w \<in> set (mg_spawn_waiters m). eligible m w \<and> sw_priority w = p) ?ps = Some p" by blast
  then obtain v where "v \<in> set (mg_spawn_waiters m)" "eligible m v" "sw_priority v = p" by (auto simp: find_Some_iff)
  then have "first_index (\<lambda>w. eligible m w \<and> sw_priority w = p) (mg_spawn_waiters m) \<noteq> None"
    by (auto simp: first_index_def find_None_iff in_set_conv_nth)
  then show False using n p by (simp add: pick_waiter_def)
qed

lemma admit_stops: "admit_one workers view now (admit_spawn_waiters workers view now m) = None"
proof (induction workers view now m rule: admit_spawn_waiters.induct)
  case (1 workers view now m)
  have e: "pick_waiter x = None" if "mg_spawn_waiters x = []" for x using that by (simp add: pick_waiter_def first_index_def split: option.split)
  show ?case
  proof (cases "mg_spawn_waiters m = [] \<or> mg_closed m")
    case True
    then show ?thesis by (subst admit_spawn_waiters.simps) (auto simp: admit_one_def e)
  next
    case False
    then show ?thesis using "1.IH" by (subst admit_spawn_waiters.simps) (auto split: option.split)
  qed
qed

definition admittable :: "int \<Rightarrow> (nat \<Rightarrow> engine_view) \<Rightarrow> manager \<Rightarrow> bool" where
  "admittable workers view m \<longleftrightarrow>
     (\<exists>i p. pick_waiter m = Some (i, p) \<and> (dict_get (mg_engines m) (sw_key (mg_spawn_waiters m ! i)) \<noteq> None \<or> capacity_free workers view m))"

lemma reserve_none: "reserve_capacity workers view m = None \<longleftrightarrow> \<not> capacity_free workers view m"
  by (auto simp: reserve_capacity_def capacity_free_def Let_def split: option.splits)

lemma admit_one_none: "admit_one workers view now m = None \<longleftrightarrow> \<not> admittable workers view m"
  using reserve_none [of workers view m]
  by (cases "pick_waiter m") (auto simp: admit_one_def admittable_def Let_def split: option.splits prod.splits)

lemma admit_not_admittable: "\<not> admittable workers view (admit_spawn_waiters workers view now m)"
  using admit_stops by (simp add: admit_one_none)

lemma find_idle_none: "find_idle_engine view m = None \<longleftrightarrow> (\<forall>x \<in> set (mg_engines m). busy view m x)"
  by (auto simp: find_idle_engine_def filter_empty_conv split: list.splits) (metis filter_empty_conv list.distinct(1))+

text \<open>A section that frees nothing admits nobody.\<close>

definition calm :: "(nat \<Rightarrow> engine_view) \<Rightarrow> manager \<Rightarrow> (nat \<Rightarrow> engine_view) \<Rightarrow> manager \<Rightarrow> bool" where
  "calm view m view' m' \<longleftrightarrow>
     same_core m m' \<and> mg_spawn_waiters m' = mg_spawn_waiters m \<and> mg_next_priority m' = mg_next_priority m \<and>
     (\<forall>e. truthy (ev_job (view e)) \<longrightarrow> truthy (ev_job (view' e)))"

lemma calm_admittable:
  assumes c: "calm view m view' m'" and d: "distinct (map fst (mg_engines m))" and n: "\<not> admittable workers view m"
  shows "\<not> admittable workers view' m'"
proof -
  have s: "mg_events m' = mg_events m" "mg_admissions m' = mg_admissions m" "mg_spawn_waiters m' = mg_spawn_waiters m" "mg_next_priority m' = mg_next_priority m"
      and l: "engines_like (mg_engines m) (mg_engines m')" using c by (simp_all add: calm_def same_core_def)
  have el: "eligible m' = eligible m" by (auto simp: eligible_def admissions_of_def s)
  have pick: "pick_waiter m' = pick_waiter m" unfolding pick_waiter_def el s ..
  have keys: "map fst (mg_engines m') = map fst (mg_engines m)" using l by (simp add: engines_like_def)
  then have used: "capacity_used m' = capacity_used m" using c by (simp add: calm_def same_core_def capacity_used_def) (metis length_map)
  have "busy view' m' x" if x: "x \<in> set (mg_engines m')" and b: "\<forall>x \<in> set (mg_engines m). busy view m x" for x
  proof -
    have "dict_get (mg_engines m') (fst x) = Some (snd x)" using x d keys by simp
    then obtain j where j: "dict_get (mg_engines m) (fst x) = Some j" "wi_engine (snd x) = wi_engine j" "wi_active_reservations j \<le> wi_active_reservations (snd x)"
      using l unfolding engines_like_def by blast
    from j(1) have "(fst x, j) \<in> set (mg_engines m)" by (rule map_of_SomeD)
    with b have "busy view m (fst x, j)" by blast
    moreover have "reservations (fst x) m \<le> reservations (fst x) m'" using c by (simp add: calm_def same_core_def)
    ultimately show ?thesis using j(2,3) c by (auto simp: busy_def calm_def)
  qed
  then have "capacity_free workers view' m' \<Longrightarrow> capacity_free workers view m"
    using find_idle_none [of view m] find_idle_none [of view' m'] used by (auto simp: capacity_free_def)
  then show ?thesis using n engines_like_None [OF l] by (auto simp: admittable_def pick s)
qed

definition at_rest :: "system \<Rightarrow> bool" where
  "at_rest s \<longleftrightarrow> sy_owed s = 0 \<and> sy_spawns s = [] \<and> sy_releases s = [] \<and> sy_stops s = [] \<and> sy_tails s = []"

text \<open>An admission that is possible is on its way.\<close>

definition awake :: "int \<Rightarrow> system \<Rightarrow> bool" where
  "awake workers s \<longleftrightarrow> mg_closed (sy_manager s) \<or> \<not> at_rest s \<or> \<not> admittable workers (sy_view s) (sy_manager s)"

lemma calm_awake:
  assumes "awake workers s" and "system_inv workers s" and "calm (sy_view s) (sy_manager s) (sy_view s') (sy_manager s')"
    and "sy_owed s' = sy_owed s" "sy_spawns s' = sy_spawns s" "sy_releases s' = sy_releases s" "sy_stops s' = sy_stops s" "sy_tails s' = sy_tails s"
  shows "awake workers s'"
proof (cases "mg_closed (sy_manager s)")
  case True
  then show ?thesis using assms(3) by (simp add: awake_def calm_def same_core_def)
next
  case False
  then have d: "distinct (map fst (mg_engines (sy_manager s)))" using assms(2) by (simp add: system_inv_def engine_inv_def core_inv_def exclusive_def)
  have r: "at_rest s' = at_rest s" using assms(4-8) by (simp add: at_rest_def)
  show ?thesis
  proof (cases "at_rest s")
    case True
    then have "\<not> admittable workers (sy_view s) (sy_manager s)" using assms(1) False by (simp add: awake_def)
    then show ?thesis using calm_admittable [OF assms(3) d] by (simp add: awake_def)
  qed (simp add: awake_def r)
qed

lemma calm_refl: "calm view m view m"
  by (simp add: calm_def)

lemma enter_calm_or_full:
  assumes "enter_spawn_admission workers view now k priority reserve m = (r, m')"
  shows "calm view m view m' \<or> \<not> admittable workers view m'"
proof (cases "\<exists>f. r = Enter_Queued f")
  case True
  then show ?thesis using assms admit_not_admittable by (auto simp: enter_spawn_admission_def split: if_splits)
next
  case False
  have "same_core m (touch now k (reserve_request k m))" by (rule same_core_trans [OF reserve_request_core touch_core])
  then have "calm view m view (touch now k (reserve_request k m))" by (simp add: calm_def touch_def reserve_request_def)
  then show ?thesis using False assms calm_refl by (auto simp: enter_spawn_admission_def split: if_splits)
qed

lemma calm_turn: "identity_turn k m = (r, m') \<Longrightarrow> calm view m view m'"
  using same_core_turn [of k m r m'] by (auto simp: calm_def) (auto simp: identity_turn_def split: if_splits)

lemma calm_wait: "wait_for_capacity workers v m = (r, m') \<Longrightarrow> calm view m view m'"
  using same_core_wait [of workers v m r m'] by (auto simp: calm_def) (auto simp: wait_for_capacity_def split: if_splits)

lemma calm_reserve: "reserve_engine_request now k m = Inr m' \<Longrightarrow> calm view m view m'"
  using same_core_reserve [of now k m m'] by (auto simp: calm_def) (auto simp: reserve_engine_request_def touch_def reserve_request_def split: if_splits)

lemma calm_replenish: "replenish_begin factory stopping m = (r, m') \<Longrightarrow> calm view m view m'"
  using same_core_replenish [of factory stopping m r m'] by (auto simp: calm_def) (auto simp: replenish_begin_def Let_def split: if_splits list.splits)

lemma calm_others:
  "calm view m view (cleanup_end ok stopping c m)" "calm view m view (forget_capacity_waiter f m)" "calm view m view (set_runtime_context k b1 b2 m)"
  "calm view m view (m\<lparr>mg_starting := es\<rparr>)" "calm view m view (m\<lparr>mg_starting := es, mg_fresh := Suc (mg_fresh m)\<rparr>)"
  using same_core_cleanup [of m ok stopping c] same_core_forget [of m f] same_core_context [of m k b1 b2] same_core_starting [of m es]
  by (simp_all add: calm_def cleanup_end_def forget_capacity_waiter_def set_runtime_context_def split: option.splits)

lemmas calm_sections = calm_turn calm_wait calm_reserve calm_replenish calm_others

lemma spawn_other_calm:
  assumes "spawn_enter view now defaults cfg reserve k m = (r, m')" and "\<And>sp. r \<noteq> Spawn_Started sp"
  shows "calm view m view m'"
  using assms
  by (auto simp: spawn_enter_def Let_def calm_def same_core_def reservations_def intro!: engines_like_update split: if_splits option.splits)

text \<open>A spawn for the identity itself keeps the engine unless the engine cannot serve it.\<close>

lemma spawn_busy:
  assumes u: "in_use view m k e"
  shows "runs_at (snd (spawn_enter view now defaults cfg reserve j m)) k e \<or> j = k \<and>
    (normalize_config defaults (ev_config (view e)) \<noteq> normalize_config defaults cfg \<or> \<not> ev_alive (view e))"
proof (cases "\<exists>sp m'. spawn_enter view now defaults cfg reserve j m = (Spawn_Started sp, m')")
  case True
  then obtain sp m' where sp: "spawn_enter view now defaults cfg reserve j m = (Spawn_Started sp, m')" by blast
  show ?thesis
  proof (cases "j = k")
    case False
    then have "dict_get (mg_engines m') k = dict_get (mg_engines m) k" by (simp add: spawn_enter_started(12) [OF sp] delete_conv')
    then show ?thesis using runs_cong [OF _ in_use_runs [OF u]] sp by simp
  next
    case True
    obtain i where i: "dict_get (mg_engines m) k = Some i" "wi_engine i = e" using u by (auto simp: in_use_def)
    have "\<not> reusable defaults cfg view i" using sp i(1) True by (auto simp: spawn_enter_def Let_def split: option.splits if_splits)
    then have "configs_differ (normalize_config defaults (ev_config (view e))) (normalize_config defaults cfg) \<or> \<not> ev_alive (view e)"
      using i(2) by (auto simp: reusable_def)
    then show ?thesis using True by (auto simp: configs_differ_def)
  qed
next
  case False
  then have "calm view m view (snd (spawn_enter view now defaults cfg reserve j m))"
    using spawn_other_calm [of view now defaults cfg reserve j m] by (metis prod.collapse)
  then have "same_core m (snd (spawn_enter view now defaults cfg reserve j m))" by (simp add: calm_def)
  then show ?thesis using in_use_runs [OF busy_frame [OF _ u]] by blast
qed

lemma reap_nothing: "reap_idle_engines ttl view alive now tracked m = ([], m') \<Longrightarrow> m' = m"
  by (induction tracked arbitrary: m) (auto split: if_splits prod.splits)

lemma engine_step_awake:
  assumes step: "engine_step workers defaults ttl s s'" and inv: "system_inv workers s" and a: "awake workers s"
  shows "awake workers s'"
proof -
  note calm = calm_awake [OF a inv]
  show ?thesis using step
  proof cases
    case (en_view_quiet v) then show ?thesis by (intro calm) (auto simp: calm_def)
  next
    case (en_notify now)
    then show ?thesis using admit_not_admittable by (simp add: awake_def notify_capacity_changed_def Let_def)
  next
    case (en_turn k r m') then show ?thesis by (intro calm) (auto intro: calm_sections)
  next
    case (en_forget f) then show ?thesis by (intro calm) (auto intro: calm_sections)
  next
    case (en_enter now k priority reserve r m')
    from enter_calm_or_full [OF en_enter(2)] show ?thesis
    proof
      assume "calm (sy_view s) (sy_manager s) (sy_view s) m'"
      then show ?thesis using en_enter(1) by (intro calm) simp_all
    next
      assume "\<not> admittable workers (sy_view s) m'"
      then show ?thesis using en_enter(1) by (simp add: awake_def)
    qed
  next
    case (en_reserve now k m') then show ?thesis by (intro calm) (auto intro: calm_sections)
  next
    case (en_wait r m') then show ?thesis by (intro calm) (auto intro: calm_sections)
  next
    case (en_release now k r m') then show ?thesis by (cases r) (simp_all add: awake_def at_rest_def)
  next
    case (en_spawn now cfg reserve k r m')
    show ?thesis
    proof (cases "\<exists>sp. r = Spawn_Started sp")
      case True
      then show ?thesis using en_spawn(1) by (auto simp: awake_def at_rest_def)
    next
      case False
      then have "s' = with_manager m' s" using en_spawn(1) by (cases r) auto
      then show ?thesis using spawn_other_calm [OF en_spawn(2)] False by (intro calm) auto
    qed
  next
    case (en_context k b r) then show ?thesis by (intro calm) (auto intro: calm_sections)
  next
    case (en_reap alive now tracked sts m')
    show ?thesis
    proof (cases sts)
      case Nil
      then have "m' = sy_manager s" using reap_nothing en_reap(2) by blast
      then show ?thesis using en_reap(1) Nil by (intro calm) (auto simp: calm_def)
    next
      case Cons
      then show ?thesis using en_reap(1) by (simp add: awake_def at_rest_def)
    qed
  next
    case (en_replenish factory stopping r m') then show ?thesis by (intro calm) (auto intro: calm_sections)
  next
    case en_track then show ?thesis by (intro calm) (auto intro: calm_sections)
  next
    case (en_discard e) then show ?thesis by (intro calm) (auto intro: calm_sections)
  next
    case (en_cleanup ok stopping c) then show ?thesis by (intro calm) (auto intro: calm_sections)
  next
    case (en_spawn_release xs sp ys now r m') then show ?thesis by (cases r) (simp_all add: awake_def at_rest_def Let_def)
  next
    case en_close then show ?thesis by (simp add: awake_def shutdown_close_def)
  next
    case en_collect then show ?thesis by (simp add: awake_def shutdown_collect_def Let_def)
  next
    case en_drain then show ?thesis by (simp add: awake_def shutdown_drain_def)
  next
    case en_engines then show ?thesis by (simp add: awake_def shutdown_engines_def)
  qed (simp_all add: awake_def at_rest_def)
qed

interpretation engine_wakeups: preserved "engine_step workers defaults ttl" "\<lambda>s. system_inv workers s \<and> awake workers s"
  for workers :: int and defaults :: resource_config and ttl :: int
  by unfold_locales (use engine_step_inv engine_step_awake in blast)

lemma start_awake: "awake workers (start_system target view)"
  by (simp add: awake_def admittable_def start_system_def empty_manager_def pick_waiter_def first_index_def split: option.split)

end
