(* ===== verification/Engine_Properties.thy ===== *)
theory Engine_Properties
  imports Engine_Safety
begin

text \<open>
  The properties of the process manager: bounded containers, engines in use, wake-ups, the order of
  admissions, and the events of identities.
\<close>

subsection \<open>The order of admissions\<close>

definition ahead :: "spawn_waiter \<Rightarrow> spawn_waiter list \<Rightarrow> nat" where
  "ahead w ws = length (filter (\<lambda>x. sw_priority x = sw_priority w) (takeWhile (\<lambda>x. sw_id x \<noteq> sw_id w) ws))"

definition class_rank :: "nat \<Rightarrow> nat \<Rightarrow> nat" where
  "class_rank next_priority c = (c + ADMISSION_PRIORITIES - next_priority mod ADMISSION_PRIORITIES) mod ADMISSION_PRIORITIES"

text \<open>A bound on the admissions that go to others first.\<close>

definition turns :: "manager \<Rightarrow> spawn_waiter \<Rightarrow> nat" where
  "turns m w = ADMISSION_PRIORITIES * ahead w (mg_spawn_waiters m) + class_rank (mg_next_priority m) (sw_priority w)"

lemma three_cases: "n < 3 \<longleftrightarrow> n = 0 \<or> n = 1 \<or> n = (2 :: nat)"
  by auto

lemma rank_step:
  assumes c: "c < 3" and off: "off < 3" and q: "q = (n + off) mod 3" and "\<And>j. j < off \<Longrightarrow> (n + j) mod 3 \<noteq> c" and "q \<noteq> c"
  shows "class_rank ((q + 1) mod 3) c < class_rank n c"
proof -
  obtain r where r: "n mod 3 = r" "r < 3" by simp
  have "(n + j) mod 3 = (r + j) mod 3" for j using r(1) by (metis mod_add_left_eq)
  then have h: "q = (r + off) mod 3" "\<And>j. j < off \<Longrightarrow> (r + j) mod 3 \<noteq> c" using q assms(4) by auto
  show ?thesis using c off r h(1) h(2) [of 0] h(2) [of 1] assms(5) unfolding class_rank_def ADMISSION_PRIORITIES_def three_cases by auto
qed

lemma pick_waiter_facts:
  assumes "pick_waiter m = Some (i, p)"
  shows "\<exists>off < 3. sw_priority (mg_spawn_waiters m ! i) = (mg_next_priority m + off) mod 3 \<and>
      (\<forall>j < off. \<forall>w \<in> set (mg_spawn_waiters m). eligible m w \<longrightarrow> sw_priority w \<noteq> (mg_next_priority m + j) mod 3)"
    and "p = (sw_priority (mg_spawn_waiters m ! i) + 1) mod 3" and "i < length (mg_spawn_waiters m)" and "eligible m (mg_spawn_waiters m ! i)"
    and "\<And>j. j < i \<Longrightarrow> eligible m (mg_spawn_waiters m ! j) \<Longrightarrow> sw_priority (mg_spawn_waiters m ! j) \<noteq> sw_priority (mg_spawn_waiters m ! i)"
proof -
  let ?ws = "mg_spawn_waiters m" let ?P = "\<lambda>p. \<exists>w \<in> set ?ws. eligible m w \<and> sw_priority w = p"
  let ?ps = "map (\<lambda>off. (mg_next_priority m + off) mod ADMISSION_PRIORITIES) [0..<ADMISSION_PRIORITIES]"
  obtain q where q: "find ?P ?ps = Some q" and f: "first_index (\<lambda>w. eligible m w \<and> sw_priority w = q) ?ws = Some i" and p: "p = (q + 1) mod 3"
    using assms by (auto simp: pick_waiter_def ADMISSION_PRIORITIES_def split: option.splits)
  have i: "i < length ?ws" "eligible m (?ws ! i)" "sw_priority (?ws ! i) = q" "\<forall>j < i. \<not> (eligible m (?ws ! j) \<and> sw_priority (?ws ! j) = q)"
    using f by (auto simp: first_index_def find_Some_iff)
  obtain off where "off < 3" "q = (mg_next_priority m + off) mod 3" "\<forall>j < off. \<not> ?P ((mg_next_priority m + j) mod 3)"
    using q by (auto simp: find_Some_iff ADMISSION_PRIORITIES_def)
  then show "\<exists>off < 3. sw_priority (?ws ! i) = (mg_next_priority m + off) mod 3 \<and>
      (\<forall>j < off. \<forall>w \<in> set ?ws. eligible m w \<longrightarrow> sw_priority w \<noteq> (mg_next_priority m + j) mod 3)" using i(3) by blast
  show "p = (sw_priority (?ws ! i) + 1) mod 3" "i < length ?ws" "eligible m (?ws ! i)" using p i by simp_all
  show "sw_priority (?ws ! j) \<noteq> sw_priority (?ws ! i)" if "j < i" "eligible m (?ws ! j)" for j using that i(3,4) by blast
qed

lemma takeWhile_other:
  assumes "sw_id v \<noteq> sw_id w"
  shows "takeWhile (\<lambda>x. sw_id x \<noteq> sw_id w) (as @ v # bs) =
    (if \<forall>x \<in> set as. sw_id x \<noteq> sw_id w then as @ v # takeWhile (\<lambda>x. sw_id x \<noteq> sw_id w) bs else takeWhile (\<lambda>x. sw_id x \<noteq> sw_id w) as)"
  using assms by (auto simp: takeWhile_append)

lemma ahead_drop:
  assumes "sw_id v \<noteq> sw_id w"
  shows "ahead w (as @ bs) + (if sw_priority v = sw_priority w \<and> (\<forall>x \<in> set as. sw_id x \<noteq> sw_id w) then 1 else 0) = ahead w (as @ v # bs)"
  unfolding ahead_def takeWhile_other [OF assms] by (auto simp: takeWhile_append)

lemma admit_one_cases:
  assumes "admit_one workers view now m = Some m'" and "pick_waiter m = Some (i, p)"
  shows "mg_spawn_waiters m' = take i (mg_spawn_waiters m) @ drop (Suc i) (mg_spawn_waiters m)"
    and "mg_next_priority m' = mg_next_priority m \<and> mg_capacity_starts m' = mg_capacity_starts m \<or>
         mg_next_priority m' = p \<and> mg_capacity_starts m' = mg_capacity_starts m + 1"
proof -
  have r: "mg_spawn_waiters m1 = mg_spawn_waiters m \<and> mg_capacity_starts m1 = mg_capacity_starts m + 1" if "reserve_capacity workers view m = Some (a, m1)" for a m1
    using that by (auto simp: reserve_capacity_def take_ticket_def Let_def track_stopping_def split: if_splits option.splits)
  show "mg_spawn_waiters m' = take i (mg_spawn_waiters m) @ drop (Suc i) (mg_spawn_waiters m)"
    using assms by (auto simp: admit_one_def Let_def resolve_def touch_def reserve_request_def set_admissions_def drop_waiter_def dest: r split: if_splits option.splits)
  show "mg_next_priority m' = mg_next_priority m \<and> mg_capacity_starts m' = mg_capacity_starts m \<or>
         mg_next_priority m' = p \<and> mg_capacity_starts m' = mg_capacity_starts m + 1"
    using assms by (auto simp: admit_one_def Let_def resolve_def touch_def reserve_request_def set_admissions_def drop_waiter_def dest: r split: if_splits option.splits)
qed

lemma class_rank_bound: "class_rank n c < 3"
  by (simp add: class_rank_def ADMISSION_PRIORITIES_def)

lemma admit_one_turns:
  assumes a: "admit_one workers view now m = Some m'" and w: "w \<in> set (mg_spawn_waiters m)" "w \<in> set (mg_spawn_waiters m')" "eligible m w"
    and c: "sw_priority w < ADMISSION_PRIORITIES" and d: "distinct (map sw_id (mg_spawn_waiters m))"
  shows "turns m' w \<le> turns m w" and "mg_capacity_starts m' \<noteq> mg_capacity_starts m \<Longrightarrow> turns m' w < turns m w"
proof -
  from a obtain i p where p: "pick_waiter m = Some (i, p)" by (auto simp: admit_one_def split: option.splits)
  note f = pick_waiter_facts [OF p] and ac = admit_one_cases [OF a p]
  let ?ws = "mg_spawn_waiters m" let ?v = "?ws ! i" let ?as = "take i ?ws" and ?bs = "drop (Suc i) ?ws"
  have ws: "?ws = ?as @ ?v # ?bs" using f(3) by (rule id_take_nth_drop)
  have "distinct (map sw_id (?as @ ?v # ?bs))" using d ws by metis
  moreover have "w \<in> set ?as \<union> set ?bs" using w(2) ac(1) by simp
  ultimately have id: "sw_id ?v \<noteq> sw_id w" by (auto simp: image_iff)
  have first: "\<forall>x \<in> set ?as. sw_id x \<noteq> sw_id w" if "sw_priority ?v = sw_priority w"
  proof (rule ccontr)
    assume "\<not> (\<forall>x \<in> set ?as. sw_id x \<noteq> sw_id w)"
    then obtain x where x: "x \<in> set ?as" "sw_id x = sw_id w" by blast
    then have "x = w" using w(1) d in_set_takeD [OF x(1)] by (metis distinct_map inj_onD)
    then obtain j where "j < i" "?ws ! j = w" using x(1) by (auto simp: in_set_conv_nth)
    then show False using f(5) [of j] w(3) that by simp
  qed
  have ah: "ahead w (mg_spawn_waiters m') + (if sw_priority ?v = sw_priority w then 1 else 0) = ahead w ?ws"
    using ahead_drop [OF id, of ?as ?bs] ac(1) ws first by auto
  have strict: "turns m' w < turns m w" if n: "mg_next_priority m' = p"
  proof (cases "sw_priority ?v = sw_priority w")
    case True
    then show ?thesis using ah class_rank_bound [of p "sw_priority w"] n by (simp add: turns_def ADMISSION_PRIORITIES_def)
  next
    case False
    obtain off where off: "off < 3" "sw_priority ?v = (mg_next_priority m + off) mod 3"
        "\<forall>j < off. \<forall>w \<in> set ?ws. eligible m w \<longrightarrow> sw_priority w \<noteq> (mg_next_priority m + j) mod 3" using f(1) by blast
    have "(mg_next_priority m + j) mod 3 \<noteq> sw_priority w" if "j < off" for j using off(3) w(1,3) that by metis
    then have "class_rank p (sw_priority w) < class_rank (mg_next_priority m) (sw_priority w)"
      unfolding f(2) by (intro rank_step [OF _ off(1,2)]) (use c False in \<open>auto simp: ADMISSION_PRIORITIES_def\<close>)
    then show ?thesis using ah False n by (simp add: turns_def)
  qed
  show "turns m' w \<le> turns m w" using ac(2) strict ah by (fastforce simp: turns_def)
  show "turns m' w < turns m w" if "mg_capacity_starts m' \<noteq> mg_capacity_starts m" using ac(2) strict that by blast
qed

subsection \<open>Events that nobody will set\<close>

definition lost_event :: "nat \<Rightarrow> manager \<Rightarrow> bool" where
  "lost_event ev m \<longleftrightarrow> ev < mg_fresh m \<and> ev \<notin> set (mg_events_set m) \<and> (\<forall>k. dict_get (mg_events m) k \<noteq> Some ev)"

lemma lost_frame:
  assumes "lost_event ev m" and "mg_fresh m \<le> mg_fresh m'" and "mg_events_set m' = mg_events_set m" and "mg_events m' = mg_events m"
  shows "lost_event ev m'"
  using assms by (auto simp: lost_event_def)

lemma lost_new:
  assumes "lost_event ev m" and "Suc (mg_fresh m) \<le> mg_fresh m'" and "mg_events_set m' = mg_events_set m" and "mg_events m' = AList.update k (mg_fresh m) (mg_events m)"
  shows "lost_event ev m'"
  using assms by (auto simp: lost_event_def update_conv')

lemma lost_finish: "lost_event ev m \<Longrightarrow> lost_event ev (finish_event_opt k x m)"
  by (auto simp: lost_event_def finish_event_opt_def finish_engine_event_def delete_conv' split: option.split)

lemma lost_reserve:
  assumes "reserve_capacity workers view m = Some (a, m')" and "lost_event ev m"
  shows "lost_event ev m'"
proof (cases "capacity_used m < workers")
  case True
  then show ?thesis using assms by (intro lost_frame [OF assms(2)]) (auto simp: reserve_capacity_def take_ticket_def Let_def)
next
  case False
  then obtain k i where "find_idle_engine view m = Some (k, i)" using assms(1) by (auto simp: reserve_capacity_def split: option.splits)
  then show ?thesis using assms(1) False
    by (intro lost_new [OF assms(2), of _ k]) (auto simp: reserve_capacity_def take_ticket_def Let_def track_stopping_def)
qed

lemma lost_admit_one:
  assumes "admit_one workers view now m = Some m'" and "lost_event ev m"
  shows "lost_event ev m'"
proof -
  have f: "mg_events (touch n k x) = mg_events x" "mg_events_set (touch n k x) = mg_events_set x" "mg_fresh (touch n k x) = mg_fresh x" for n k x
    by (simp_all add: touch_def)
  have "\<exists>m1. lost_event ev m1 \<and> mg_fresh m1 \<le> mg_fresh m' \<and> mg_events_set m' = mg_events_set m1 \<and> mg_events m' = mg_events m1"
    using assms lost_reserve [OF _ assms(2)]
    by (auto simp: admit_one_def Let_def resolve_def f reserve_request_def set_admissions_def drop_waiter_def split: if_splits option.splits)
      (metis order_refl)+
  then show ?thesis using lost_frame by blast
qed

lemma lost_admit: "lost_event ev m \<Longrightarrow> lost_event ev (admit_spawn_waiters workers view now m)"
proof (induction workers view now m rule: admit_spawn_waiters.induct)
  case (1 workers view now m)
  show ?case
  proof (cases "mg_spawn_waiters m = [] \<or> mg_closed m")
    case True
    then show ?thesis using "1.prems" by (subst admit_spawn_waiters.simps) (auto intro: lost_frame)
  next
    case False
    then show ?thesis using "1.IH" "1.prems" lost_admit_one by (subst admit_spawn_waiters.simps) (auto split: option.split)
  qed
qed

lemma lost_section:
  assumes "spawn_section workers view now sp m sp' m' b" and l: "lost_event ev m"
  shows "lost_event ev m'"
  using assms(1)
proof cases
  case sec_claim
  then show ?thesis using lost_reserve [OF _ l] lost_frame [OF l, of m']
    by (auto simp: spawn_claim_def try_claim_capacity_slot_def set_admissions_def split: option.splits list.splits if_splits)
next
  case sec_event
  then show ?thesis using lost_finish [OF l] by (auto simp: spawn_evict_event_def)
qed (use l in \<open>auto intro!: lost_frame [OF l] simp: spawn_prior_done_def spawn_evict_done_def untrack_stopping_engine_def spawn_pop_warm_def Let_def
    spawn_probed_def queue_rejected_warm_worker_def spawn_cold_def spawn_create_def spawn_register_def spawn_unclaim_def set_admissions_def
    split: option.splits list.splits if_splits\<close>)

lemma lost_release:
  assumes "release_spawn_admission workers view now k m = (r, m')" and l: "lost_event ev m"
  shows "lost_event ev m'"
proof -
  have "lost_event ev m1" if "mg_fresh m1 = mg_fresh m" "mg_events_set m1 = mg_events_set m" "mg_events m1 = mg_events m" for m1
    using lost_frame [OF l] that by simp
  then show ?thesis using assms(1) lost_admit l
    by (auto simp: release_spawn_admission_def Let_def set_admissions_def split: list.splits if_splits option.splits)
qed

lemma lost_take_out: "take_out k info m = (st, m') \<Longrightarrow> lost_event ev m \<Longrightarrow> lost_event ev m'"
  by (erule lost_new) (auto simp: take_out_def Let_def track_stopping_def split: option.splits)

lemma lost_reap: "reap_idle_engines ttl view alive now tracked m = (sts, m') \<Longrightarrow> lost_event ev m \<Longrightarrow> lost_event ev m'"
  by (induction tracked arbitrary: m sts) (auto split: if_splits prod.splits dest: lost_take_out)

lemma lost_spawn_enter:
  assumes "spawn_enter view now defaults cfg reserve k m = (r, m')" and l: "lost_event ev m"
  shows "lost_event ev m'"
proof (cases "\<exists>sp. r = Spawn_Started sp")
  case True
  then obtain sp where sp: "spawn_enter view now defaults cfg reserve k m = (Spawn_Started sp, m')" using assms(1) by blast
  have c: "mg_events_set (claim_admission j x) = mg_events_set x" for j x by (simp add: claim_admission_def set_admissions_def split: list.split)
  have "mg_events_set m' = mg_events_set m"
    using sp by (auto simp: spawn_enter_def Let_def track_stopping_def c split: if_splits option.splits)
  then show ?thesis using spawn_enter_started(10,11) [OF sp] by (intro lost_new [OF l]) auto
next
  case False
  then show ?thesis using assms by (auto simp: spawn_enter_def Let_def intro!: lost_frame [OF l] split: if_splits option.splits)
qed

lemma lost_step:
  assumes "engine_step workers defaults ttl s s'" and l: "lost_event ev (sy_manager s)"
  shows "lost_event ev (sy_manager s')"
proof -
  note frame = lost_frame [OF l] and admit = lost_admit [OF lost_frame [OF l]]
  have t: "mg_events (touch n k x) = mg_events x" "mg_events_set (touch n k x) = mg_events_set x" "mg_fresh (touch n k x) = mg_fresh x" for n k x
    by (simp_all add: touch_def)
  show ?thesis using assms(1)
  proof cases
    case (en_notify now) then show ?thesis by (auto simp: notify_capacity_changed_def Let_def intro!: admit)
  next
    case (en_turn k r m') then show ?thesis by (auto simp: identity_turn_def intro!: frame split: if_splits)
  next
    case (en_enter now k priority reserve r m')
    then show ?thesis by (auto simp: enter_spawn_admission_def t reserve_request_def intro!: frame admit split: if_splits)
  next
    case (en_cancel now f) then show ?thesis by (auto simp: cancel_spawn_waiter_def intro!: admit)
  next
    case (en_reserve now k m') then show ?thesis by (auto simp: reserve_engine_request_def t reserve_request_def intro!: frame split: if_splits)
  next
    case (en_wait r m') then show ?thesis by (auto simp: wait_for_capacity_def intro!: frame split: if_splits)
  next
    case (en_release now k r m') then show ?thesis using lost_release [OF _ l] by (cases r) auto
  next
    case (en_restore xs pr ys now) then show ?thesis by (auto simp: restore_evicted_def Let_def untrack_stopping_engine_def intro!: admit)
  next
    case (en_evicted xs pr ys now) then show ?thesis by (auto simp: evicted_stopped_def Let_def untrack_stopping_engine_def intro!: admit)
  next
    case (en_tail xs k ev ys) then show ?thesis using lost_finish [OF l] by auto
  next
    case (en_spawn now cfg reserve k r m') then show ?thesis using lost_spawn_enter [OF _ l] by (cases r) auto
  next
    case (en_section xs sp ys now sp' m' notifies) then show ?thesis using lost_section [OF _ l] by auto
  next
    case (en_spawn_release xs sp ys now r m') then show ?thesis using lost_release [OF _ l] by (cases r) (auto simp: Let_def)
  next
    case (en_spawn_exit xs sp ys)
    then show ?thesis using l by (auto simp: lost_event_def spawn_exit_def delete_conv' split: option.splits)
  next
    case (en_done k e) then show ?thesis by (auto simp: release_reservation_def intro!: frame split: option.split)
  next
    case (en_context k b r) then show ?thesis by (auto simp: set_runtime_context_def intro!: frame split: option.split)
  next
    case (en_shutdown k st m') then show ?thesis using lost_take_out [OF _ l] by (auto simp: shutdown_compute_worker_def split: option.splits prod.splits)
  next
    case (en_shutdown_idle k st m')
    then show ?thesis using lost_take_out [OF _ l] by (auto simp: shutdown_compute_worker_if_idle_def split: option.splits prod.splits if_splits)
  next
    case (en_reap alive now tracked sts m') then show ?thesis using lost_reap [OF _ l] by auto
  next
    case (en_untrack xs st ys st' m')
    then show ?thesis using l by (auto simp: stop_untrack_def untrack_stopping_engine_def intro!: frame split: option.splits)
  next
    case (en_stop xs st ys)
    then show ?thesis using lost_finish [OF l, of "st_key st" "Some (st_event st)"] by (simp add: stop_finish_def finish_event_opt_def)
  next
    case (en_replenish factory stopping r m') then show ?thesis by (auto simp: replenish_begin_def Let_def intro!: frame split: if_splits list.splits)
  next
    case (en_replenished stopping engine d m') then show ?thesis by (auto simp: replenish_end_def Let_def intro!: frame split: if_splits option.splits)
  next
    case (en_collect) then show ?thesis by (auto simp: shutdown_collect_def Let_def intro!: frame)
  qed (use l in \<open>auto intro!: frame simp: forget_capacity_waiter_def release_engine_request_def cleanup_end_def shutdown_close_def shutdown_drain_def
      shutdown_engines_def\<close>)
qed

interpretation engine_events: preserved "engine_step workers defaults ttl" "\<lambda>s. lost_event ev (sy_manager s)"
  for workers :: int and defaults :: resource_config and ttl :: int and ev :: nat
  by unfold_locales (rule lost_step)

subsection \<open>A run in which an eviction is undone\<close>

text \<open>One slot, three identities: the engine of the first is evicted for the second, whose request is
  cancelled while the third one waits.\<close>

definition ident :: "string \<Rightarrow> identity_key" where
  "ident r = \<lparr>ik_namespace = ''default'', ik_scope = 1, ik_reuse_policy = 1, ik_resource_id = r\<rparr>"

definition no_config :: resource_config where
  "no_config = \<lparr>rc_max_threads = None, rc_max_memory_mb = None, rc_streaming_chunk_size = None\<rparr>"

definition idle_view :: "nat \<Rightarrow> engine_view" where
  "idle_view e = \<lparr>ev_config = no_config, ev_alive = True, ev_job = None\<rparr>"

definition started :: "spawn_entry \<Rightarrow> spawn_local" where
  "started r = (case r of Spawn_Started sp \<Rightarrow> sp | _ \<Rightarrow> new_spawn (ident []) 0 True None)"

definition advance :: "(spawn_local \<Rightarrow> manager \<Rightarrow> spawn_local \<times> manager) \<Rightarrow> bool \<Rightarrow> system \<Rightarrow> system" where
  "advance f b s =
     s\<lparr>sy_manager := snd (f (hd (sy_spawns s)) (sy_manager s)), sy_spawns := [fst (f (hd (sy_spawns s)) (sy_manager s))],
       sy_owed := sy_owed s + (if b then 1 else 0)\<rparr>"

lemma advance_step:
  assumes "length (sy_spawns s) = 1" and
    "spawn_section workers (sy_view s) now (hd (sy_spawns s)) (sy_manager s) (fst (f (hd (sy_spawns s)) (sy_manager s))) (snd (f (hd (sy_spawns s)) (sy_manager s))) b"
  shows "engine_step workers defaults ttl s (advance f b s)"
proof -
  have "sy_spawns s = [] @ hd (sy_spawns s) # []" using assms(1) by (cases "sy_spawns s") auto
  from en_section [OF this assms(2)] show ?thesis by (simp add: advance_def)
qed

definition asked :: "string \<Rightarrow> system \<Rightarrow> system" where
  "asked r s = with_manager (snd (enter_spawn_admission 1 (sy_view s) 0 (ident r) 0 False (sy_manager s))) s"

lemma asked_step: "engine_step 1 no_config 60 s (asked r s)"
  unfolding asked_def by (rule en_enter [OF prod.collapse [symmetric]]) (simp add: ADMISSION_PRIORITIES_def)

definition run1 :: system where "run1 = asked ''a'' (start_system 0 idle_view)"
definition run2 :: system where
  "run2 = (let r = spawn_enter idle_view 0 no_config no_config True (ident ''a'') (sy_manager run1)
           in (with_manager (snd r) run1)\<lparr>sy_spawns := [started (fst r)]\<rparr>)"
definition run3 :: system where "run3 = advance (spawn_claim 1 idle_view) False run2"
definition run4 :: system where "run4 = advance spawn_pop_warm False run3"
definition run5 :: system where "run5 = advance spawn_cold False run4"
definition run6 :: system where "run6 = advance spawn_create False run5"
definition run7 :: system where "run7 = advance (spawn_register 0) True run6"
definition run8 :: system where "run8 = owe (run7\<lparr>sy_manager := spawn_exit (hd (sy_spawns run7)) (sy_manager run7), sy_spawns := []\<rparr>)"
definition run9 :: system where "run9 = owe (with_manager (release_reservation (ident ''a'') 3 (sy_manager run8)) run8)"

definition settled :: manager where
  "settled = (empty_manager 0)
     \<lparr>mg_engines := [(ident ''a'', \<lparr>wi_engine = 3, wi_last_activity = 0, wi_build_id = None, wi_run_id = None, wi_active_reservations = 0\<rparr>)],
      mg_next_priority := 1, mg_events_set := [2], mg_replenish_trigger := True, mg_resolved := [(0, Owns_Admission)], mg_fresh := 4\<rparr>"

definition evicting_a :: manager where
  "evicting_a = settled
     \<lparr>mg_engines := [], mg_capacity_starts := 1, mg_reserved_stops := [3],
      mg_spawn_waiters := [\<lparr>sw_id = 7, sw_key = ident ''c'', sw_priority = 0, sw_reserve_existing = False\<rparr>],
      mg_events := [(ident ''a'', 5)], mg_stopping := [3], mg_released := [6],
      mg_resolved := [(0, Owns_Admission), (4, Owns_Admission)], mg_fresh := 8\<rparr>"

lemma settled_value: "sy_manager run9 = settled"
  by code_simp

lemma run9_value [code]: "run9 = (start_system 0 idle_view)\<lparr>sy_manager := settled, sy_owed := 3\<rparr>"
proof -
  have "sy_owed run9 = 3" "sy_view run9 = idle_view" "sy_spawns run9 = []" "sy_releases run9 = []" "sy_stops run9 = []" "sy_tails run9 = []"
    by (simp_all add: run1_def run2_def run3_def run4_def run5_def run6_def run7_def run8_def run9_def asked_def advance_def start_system_def Let_def)
  then show ?thesis using settled_value by (simp add: start_system_def)
qed

definition run10 :: system where "run10 = asked ''c'' (asked ''b'' run9)"
definition undo :: pending_release where
  "undo = (case fst (release_spawn_admission 1 idle_view 0 (ident ''b'') (sy_manager run10)) of
     Restoring pr \<Rightarrow> pr | _ \<Rightarrow> \<lparr>pr_key = ident [], pr_info = snd (hd (mg_engines (sy_manager run9))), pr_event = None\<rparr>)"
definition run11 :: system where
  "run11 = (with_manager (snd (release_spawn_admission 1 idle_view 0 (ident ''b'') (sy_manager run10))) run10)\<lparr>sy_releases := [undo]\<rparr>"
lemma evicting_value: "sy_manager run11 = evicting_a"
  by code_simp

lemma undo_value [code]:
  "undo = \<lparr>pr_key = ident ''a'', pr_info = \<lparr>wi_engine = 3, wi_last_activity = 0, wi_build_id = None, wi_run_id = None, wi_active_reservations = 0\<rparr>,
     pr_event = Some 5\<rparr>"
  by code_simp

lemma run11_value [code]: "run11 = (start_system 0 idle_view)\<lparr>sy_manager := evicting_a, sy_releases := [undo], sy_owed := 3\<rparr>"
proof -
  have "sy_owed run11 = 3" "sy_view run11 = idle_view" "sy_spawns run11 = []" "sy_stops run11 = []" "sy_tails run11 = []" "sy_releases run11 = [undo]"
    by (simp_all add: run11_def run10_def asked_def run9_value start_system_def)
  then show ?thesis using evicting_value by (simp add: start_system_def)
qed

definition run12 :: system where
  "run12 = run11\<lparr>sy_manager := restore_evicted 1 idle_view 0 undo (sy_manager run11), sy_releases := [], sy_tails := [(ident ''a'', Some 5)]\<rparr>"
definition run13 :: system where
  "run13 = owe (run12\<lparr>sy_manager := finish_event_opt (ident ''a'') (Some 5) (sy_manager run12), sy_tails := []\<rparr>)"

lemma run_views:
  "sy_view run1 = idle_view" "sy_view run2 = idle_view" "sy_view run3 = idle_view" "sy_view run4 = idle_view" "sy_view run5 = idle_view"
  "sy_view run6 = idle_view" "sy_view run9 = idle_view" "sy_view run10 = idle_view" "sy_view run11 = idle_view"
  by (simp_all add: run1_def run2_def run3_def run4_def run5_def run6_def run7_def run8_def run9_def run10_def run11_def asked_def advance_def start_system_def Let_def)

lemma run_spawns: "length (sy_spawns run2) = 1" "length (sy_spawns run3) = 1" "length (sy_spawns run4) = 1" "length (sy_spawns run5) = 1" "length (sy_spawns run6) = 1"
    "length (sy_spawns run7) = 1"
  by (simp_all add: run2_def run3_def run4_def run5_def run6_def run7_def advance_def Let_def)

lemma run_phases:
  "fst (spawn_enter idle_view 0 no_config no_config True (ident ''a'') (sy_manager run1)) =
     Spawn_Started (started (fst (spawn_enter idle_view 0 no_config no_config True (ident ''a'') (sy_manager run1))))"
  "sp_phase (hd (sy_spawns run2)) = Ph_Claim" "sp_phase (hd (sy_spawns run3)) = Ph_Warm" "sp_phase (hd (sy_spawns run4)) = Ph_Cold"
  "sp_phase (hd (sy_spawns run5)) = Ph_Create" "sp_phase (hd (sy_spawns run6)) = Ph_Boot" "sp_phase (hd (sy_spawns run7)) = Ph_Exit"
  by code_simp+

lemma undo_release: "fst (release_spawn_admission 1 idle_view 0 (ident ''b'') (sy_manager run10)) = Restoring undo" "pr_key undo = ident ''a''" "pr_event undo = Some 5"
  "mg_closed (sy_manager run11) = False" "shutdown_compute_worker (ident ''a'') (sy_manager run11) = (Stop_Wait 5, sy_manager run11)"
  by code_simp+

lemma empty_fields: "sy_spawns run1 = []" "sy_spawns run8 = []" "sy_releases run10 = []" "sy_tails run11 = []" "sy_spawns run9 = []"
  by (simp_all add: run1_def run2_def run3_def run4_def run5_def run6_def run7_def run8_def run9_def run10_def run11_def asked_def advance_def start_system_def Let_def)

lemma two_steps: "r a b \<Longrightarrow> r b c \<Longrightarrow> r\<^sup>*\<^sup>* a c"
  by (rule converse_rtranclp_into_rtranclp, assumption) (rule r_into_rtranclp)

lemma run_start: "(engine_step 1 no_config 60)\<^sup>*\<^sup>* (start_system 0 idle_view) run7"
proof -
  let ?st = "engine_step 1 no_config 60"
  have s1: "?st (start_system 0 idle_view) run1" unfolding run1_def by (rule asked_step)
  have s2: "?st run1 run2"
  proof -
    let ?e = "spawn_enter idle_view 0 no_config no_config True (ident ''a'') (sy_manager run1)"
    have "spawn_enter (sy_view run1) 0 no_config no_config True (ident ''a'') (sy_manager run1) = (Spawn_Started (started (fst ?e)), snd ?e)"
      using run_phases(1) run_views(1) by (metis prod.collapse)
    from en_spawn [OF this, of 1 60] show ?thesis by (simp add: run2_def Let_def empty_fields)
  qed
  have s3: "?st run2 run3" unfolding run3_def
    by (rule advance_step [OF run_spawns(1)]) (rule sec_claim [OF run_phases(2)], simp add: run_views)
  have s4: "?st run3 run4" unfolding run4_def by (rule advance_step [OF run_spawns(2)]) (rule sec_warm [OF run_phases(3)], simp)
  have s5: "?st run4 run5" unfolding run5_def by (rule advance_step [OF run_spawns(3)]) (rule sec_cold [OF run_phases(4)], simp)
  have s6: "?st run5 run6" unfolding run6_def by (rule advance_step [OF run_spawns(4)]) (rule sec_create [OF run_phases(5)], simp)
  have s7: "?st run6 run7" unfolding run7_def by (rule advance_step [OF run_spawns(5)]) (rule sec_register [OF run_phases(6)], simp)
  have "?st\<^sup>*\<^sup>* (start_system 0 idle_view) run2" using s1 s2 by (rule two_steps)
  also have "?st\<^sup>*\<^sup>* run2 run4" using s3 s4 by (rule two_steps)
  also have "?st\<^sup>*\<^sup>* run4 run6" using s5 s6 by (rule two_steps)
  also have "?st\<^sup>*\<^sup>* run6 run7" using s7 by (rule r_into_rtranclp)
  finally show ?thesis .
qed

lemma run_settled: "(engine_step 1 no_config 60)\<^sup>*\<^sup>* (start_system 0 idle_view) run9"
proof -
  let ?st = "engine_step 1 no_config 60"
  have one: "sy_spawns run7 = [] @ hd (sy_spawns run7) # []" using run_spawns(6) by (cases "sy_spawns run7") auto
  have s8: "?st run7 run8" unfolding run8_def using en_spawn_exit [OF one run_phases(7)] by simp
  have s9: "?st run8 run9" unfolding run9_def by (rule en_done) (simp add: empty_fields)
  note run_start
  also have "?st\<^sup>*\<^sup>* run7 run9" using s8 s9 by (rule two_steps)
  finally show ?thesis .
qed

lemma run_evict: "(engine_step 1 no_config 60)\<^sup>*\<^sup>* (start_system 0 idle_view) run11"
proof -
  let ?st = "engine_step 1 no_config 60"
  have s10: "?st run9 (asked ''b'' run9)" "?st (asked ''b'' run9) run10" unfolding run10_def by (rule asked_step)+
  have s11: "?st run10 run11"
  proof -
    have "release_spawn_admission 1 (sy_view run10) 0 (ident ''b'') (sy_manager run10) =
        (Restoring undo, snd (release_spawn_admission 1 idle_view 0 (ident ''b'') (sy_manager run10)))"
      using undo_release(1) run_views(8) by (metis prod.collapse)
    from en_release [OF this] show ?thesis by (simp add: run11_def empty_fields)
  qed
  note run_settled
  also have "?st\<^sup>*\<^sup>* run9 run10" using s10 by (rule two_steps)
  also have "?st\<^sup>*\<^sup>* run10 run11" using s11 by (rule r_into_rtranclp)
  finally show ?thesis .
qed

lemma run_undone: "(engine_step 1 no_config 60)\<^sup>*\<^sup>* run11 run13"
proof -
  let ?st = "engine_step 1 no_config 60"
  have "sy_releases run11 = [] @ undo # []" by (simp add: run11_def)
  from en_restore [OF this, of 1 no_config 60 0] have s12: "?st run11 run12"
    by (simp add: undo_release run12_def run_views empty_fields)
  have s13: "?st run12 run13" unfolding run13_def using en_tail [of run12 "[]" "ident ''a''" "Some 5" "[]"] by (simp add: run12_def)
  show ?thesis using s12 s13 by (rule two_steps)
qed

lemma run_lost: "lost_event 5 (sy_manager run13)"
proof -
  have e: "map snd (mg_events (sy_manager run13)) = [8]" and "mg_fresh (sy_manager run13) = 10" "mg_events_set (sy_manager run13) = [2]" by code_simp+
  moreover have "dict_get (mg_events (sy_manager run13)) k \<noteq> Some 5" for k
  proof
    assume "dict_get (mg_events (sy_manager run13)) k = Some 5"
    from map_of_SomeD [OF this] have "5 \<in> set (map snd (mg_events (sy_manager run13)))" by force
    then show False by (simp add: e)
  qed
  ultimately show ?thesis by (simp add: lost_event_def)
qed

subsection \<open>Properties\<close>

lemma reached_inv:
  assumes "(engine_step workers defaults ttl)\<^sup>*\<^sup>* (start_system target view) s" and "0 \<le> workers" and "\<not> mg_closed (sy_manager s)"
  shows "core_inv workers (sy_manager s) (queued (sy_manager s)) (sy_spawns s) (sy_releases s) (sy_stops s) (sy_tails s)"
  using engine_calls.run_inv [OF assms(1) start_inv [OF assms(2)]] assms(3) by (simp add: system_inv_def engine_inv_def)

text \<open>C4: However the calls on the process manager interleave, while it is not closed the engines that run, the engines that are being stopped and
  the engines that boot for an identity are together at most the number of compute workers, and every
  active start is a queued admission, a spawn or a returned admission that still holds its ticket.\<close>

theorem containers_bounded:
  assumes "(engine_step workers defaults ttl)\<^sup>*\<^sup>* (start_system target view) s" and "0 \<le> workers" and "\<not> mg_closed (sy_manager s)"
  shows "int (length (mg_engines (sy_manager s))) + int (length (mg_stopping (sy_manager s))) + int (booting_spawns (sy_spawns s)) \<le> workers \<and>
    mg_capacity_starts (sy_manager s) = int (tickets (queued (sy_manager s)) (sy_spawns s) (sy_releases s))"
proof -
  have a: "accounted workers (sy_manager s) (queued (sy_manager s)) (sy_spawns s) (sy_releases s)" "\<forall>sp \<in> set (sy_spawns s). sp_ok sp"
    using reached_inv [OF assms] by (simp_all add: core_inv_def)
  then show ?thesis using accounted_containers [OF a] by (simp add: accounted_def)
qed

theorem containers_bounded_witness:
  "int (length (mg_engines (sy_manager run11))) + int (length (mg_stopping (sy_manager run11))) + int (booting_spawns (sy_spawns run11)) \<le> 1 \<and>
   mg_capacity_starts (sy_manager run11) = int (tickets (queued (sy_manager run11)) (sy_spawns run11) (sy_releases run11))"
  by (rule containers_bounded [OF run_evict]) (simp_all add: undo_release)





text \<open>C35: Free capacity is never left unused: when no call is under way and no notification is owed, a waiting
  request either waits for its own identity, or every slot is held by an engine in use, by an engine that is
  being stopped or by a granted admission.\<close>

theorem no_lost_wakeups:
  assumes "(engine_step workers defaults ttl)\<^sup>*\<^sup>* (start_system target view) s" and "0 \<le> workers" and "\<not> mg_closed (sy_manager s)"
    and "at_rest s" and "w \<in> set (mg_spawn_waiters (sy_manager s))" and "sw_priority w < ADMISSION_PRIORITIES"
  shows "\<not> (eligible (sy_manager s) w \<and> capacity_free workers (sy_view s) (sy_manager s))"
proof -
  have "awake workers s" using engine_wakeups.run_inv [OF assms(1)] start_inv [OF assms(2)] start_awake by blast
  then have "\<not> admittable workers (sy_view s) (sy_manager s)" using assms(3,4) by (simp add: awake_def)
  then show ?thesis using pick_none [OF _ assms(5,6)] by (cases "pick_waiter (sy_manager s)") (auto simp: admittable_def)
qed

definition queueing :: system where
  "queueing = asked ''b'' (asked ''a'' (start_system 0 idle_view))"

theorem no_lost_wakeups_witness:
  "\<not> (eligible (sy_manager queueing) (hd (mg_spawn_waiters (sy_manager queueing))) \<and> capacity_free 1 (sy_view queueing) (sy_manager queueing))"
proof (rule no_lost_wakeups)
  show "(engine_step 1 no_config 60)\<^sup>*\<^sup>* (start_system 0 idle_view) queueing"
    unfolding queueing_def using asked_step asked_step by (rule two_steps)
  show "\<not> mg_closed (sy_manager queueing)" "hd (mg_spawn_waiters (sy_manager queueing)) \<in> set (mg_spawn_waiters (sy_manager queueing))"
    "sw_priority (hd (mg_spawn_waiters (sy_manager queueing))) < ADMISSION_PRIORITIES" by code_simp+
  show "at_rest queueing" by (simp add: at_rest_def queueing_def asked_def start_system_def)
qed simp

text \<open>C13: No request starves: whenever another request is admitted, the bound on the admissions that
  precede an eligible request falls, and it never rises.\<close>

theorem bounded_overtaking:
  assumes "admit_one workers view now m = Some m'" and "w \<in> set (mg_spawn_waiters m)" and "w \<in> set (mg_spawn_waiters m')" and "eligible m w"
    and "sw_priority w < ADMISSION_PRIORITIES" and "distinct (map sw_id (mg_spawn_waiters m))"
  shows "turns m' w \<le> turns m w \<and> (mg_capacity_starts m' = mg_capacity_starts m \<or> turns m' w < turns m w)"
  using admit_one_turns [OF assms] by blast

definition three_waiting :: manager where
  "three_waiting = (empty_manager 0)\<lparr>mg_fresh := 10, mg_next_priority := 1, mg_spawn_waiters :=
     map (\<lambda>(i, r, p). \<lparr>sw_id = i, sw_key = ident r, sw_priority = p, sw_reserve_existing = False\<rparr>) [(1, ''a'', 0), (2, ''b'', 0), (3, ''c'', 2)]\<rparr>"

theorem bounded_overtaking_witness:
  "let m' = the (admit_one 1 idle_view 0 three_waiting); w = mg_spawn_waiters three_waiting ! 1
   in turns m' w \<le> turns three_waiting w \<and> (mg_capacity_starts m' = mg_capacity_starts three_waiting \<or> turns m' w < turns three_waiting w)"
proof -
  let ?m = "the (admit_one 1 idle_view 0 three_waiting)" let ?w = "mg_spawn_waiters three_waiting ! 1"
  have "admit_one 1 idle_view 0 three_waiting \<noteq> None" "?w \<in> set (mg_spawn_waiters three_waiting)" "?w \<in> set (mg_spawn_waiters ?m)"
      "eligible three_waiting ?w" "sw_priority ?w < ADMISSION_PRIORITIES" "distinct (map sw_id (mg_spawn_waiters three_waiting))" by code_simp+
  from bounded_overtaking [OF _ this(2-6), of 1 idle_view 0] this(1) show ?thesis by (simp add: Let_def)
qed

text \<open>C37: An event can be lost: a call that waits for the eviction of an identity waits for ever when
  the evicted engine is restored and evicted again in the same section, since the second event replaces
  the first one, which nobody sets any more.\<close>

theorem undone_eviction_loses_event:
  "\<exists>s t. (engine_step 1 no_config 60)\<^sup>*\<^sup>* (start_system 0 idle_view) s \<and>
     shutdown_compute_worker (ident ''a'') (sy_manager s) = (Stop_Wait 5, sy_manager s) \<and>
     (engine_step 1 no_config 60)\<^sup>*\<^sup>* s t \<and>
     {u. (engine_step 1 no_config 60)\<^sup>*\<^sup>* t u \<and> 5 \<in> set (mg_events_set (sy_manager u))} = {}"
proof -
  have "5 \<notin> set (mg_events_set (sy_manager u))" if "(engine_step 1 no_config 60)\<^sup>*\<^sup>* run13 u" for u
    using engine_events.run_inv [OF that run_lost] by (simp add: lost_event_def)
  then show ?thesis using run_evict run_undone undo_release(5) by blast
qed

end
