(* ===== verification/Preview_Cache.thy ===== *)
theory Preview_Cache
  imports Pipeline_Plan Pipeline_Types "HOL-Library.List_Lexorder" "HOL-Library.Char_ord"
begin

text \<open>
  The preview cache of an engine (\<open>worker/runtime/preview_cache.py\<close>) and its use when a pipeline is built for
  a preview (\<open>_build_pipeline_details\<close> in \<open>worker/runtime/polars_compute.py\<close>). A frame and the lazy frame that
  defines it are the same value \<open>'f\<close>. The parameters are \<open>hash\<close> (SHA-256 of a JSON text), \<open>operate\<close> (the
  Polars function of an operation), \<open>streams\<close> (whether a streaming collection of a frame succeeds),
  \<open>convert\<close> (the validated form of a step) and the loaded datasources with their keys. Timings and
  progress callbacks are left out.
\<close>

subsection \<open>Keys\<close>

text \<open>\<open>json.dumps\<close> with sorted keys: the value it writes.\<close>

fun canon :: "json \<Rightarrow> json" where
  "canon (JList vs) = JList (map canon vs)"
| "canon (JObj kvs) = JObj (sort_key fst (map (\<lambda>(k, v). (k, canon v)) kvs))"
| "canon v = v"

definition canonical_hash :: "(json \<Rightarrow> string) \<Rightarrow> json \<Rightarrow> string" where
  "canonical_hash hash v = hash (canon v)"

record backend_step =
  bs_operation :: string
  bs_params :: payload

definition CACHEABLE_OPERATIONS :: "string list" where
  "CACHEABLE_OPERATIONS =
     [''deduplicate'', ''drop'', ''explode'', ''fill_null'', ''filter'', ''groupby'', ''join'', ''limit'', ''pivot'', ''rename'', ''sample'', ''select'',
      ''sort'', ''string_transform'', ''timeseries'', ''topk'', ''union_by_name'', ''unpivot'', ''with_columns'']"

definition TRANSPARENT_OPERATIONS :: "string list" where
  "TRANSPARENT_OPERATIONS = [''chart'', ''download'', ''export'', ''view'']"

definition pure_expression :: "json \<Rightarrow> bool" where
  "pure_expression e = (case e of JObj kvs \<Rightarrow> map_of kvs ''type'' \<in> {Some (JStr ''literal''), Some (JStr ''column'')} | _ \<Rightarrow> False)"

definition is_str :: "json \<Rightarrow> bool" where
  "is_str v = (case v of JStr _ \<Rightarrow> True | _ \<Rightarrow> False)"

definition str_val :: "json \<Rightarrow> string" where
  "str_val v = (case v of JStr s \<Rightarrow> s | _ \<Rightarrow> [])"

text \<open>The other datasources that a step reads: \<open>None\<close> when they are not given as strings.\<close>

definition right_source :: "payload \<Rightarrow> string list option" where
  "right_source p = (case map_of p ''right_source'' of
     None \<Rightarrow> Some [] | Some JNull \<Rightarrow> Some [] | Some (JStr s) \<Rightarrow> Some [s] | Some _ \<Rightarrow> None)"

definition union_sources :: "string \<Rightarrow> payload \<Rightarrow> string list option" where
  "union_sources operation p =
     (if operation \<noteq> ''union_by_name'' then Some []
      else case map_of p ''sources'' of
             Some (JList vs) \<Rightarrow> if list_all is_str vs then Some (map str_val vs) else None
           | _ \<Rightarrow> None)"

definition referenced_sources :: "backend_step \<Rightarrow> string list option" where
  "referenced_sources st =
     (case (right_source (bs_params st), union_sources (bs_operation st) (bs_params st)) of
        (Some a, Some b) \<Rightarrow> Some (remdups (a @ b)) | _ \<Rightarrow> None)"

definition expressions_pure :: "backend_step \<Rightarrow> bool" where
  "expressions_pure st =
     (case map_of (bs_params st) ''expressions'' of Some (JList es) \<Rightarrow> list_all pure_expression es | _ \<Rightarrow> False)"

definition digest_object :: "backend_step \<Rightarrow> string \<Rightarrow> (string \<times> string) list \<Rightarrow> json" where
  "digest_object st parent keys =
     JObj [(''operation'', JStr (bs_operation st)), (''params'', JObj (bs_params st)), (''parent'', JStr parent),
           (''sources'', JObj (map (\<lambda>(s, k). (s, JStr k)) keys))]"

text \<open>The key of a step on a parent with a key, or \<open>None\<close> when the step is not cached.\<close>

definition own_key :: "(json \<Rightarrow> string) \<Rightarrow> string \<Rightarrow> backend_step \<Rightarrow> (string \<times> string option) list \<Rightarrow> string option" where
  "own_key hash parent st source_keys =
     (if bs_operation st \<notin> set CACHEABLE_OPERATIONS then None
      else if bs_operation st = ''with_columns'' \<and> \<not> expressions_pure st then None
      else case referenced_sources st of
             None \<Rightarrow> None
           | Some rs \<Rightarrow>
               if list_all (\<lambda>s. Option.bind (map_of source_keys s) id \<noteq> None) rs
               then Some (canonical_hash hash (digest_object st parent (map (\<lambda>s. (s, the (Option.bind (map_of source_keys s) id))) rs)))
               else None)"

definition step_key :: "(json \<Rightarrow> string) \<Rightarrow> string option \<Rightarrow> backend_step \<Rightarrow> (string \<times> string option) list \<Rightarrow> string option" where
  "step_key hash parent st source_keys =
     (if bs_operation st \<in> set TRANSPARENT_OPERATIONS then parent
      else case parent of None \<Rightarrow> None | Some p \<Rightarrow> own_key hash p st source_keys)"

subsection \<open>Frames and their owners\<close>

record 'f preview_cache =
  pc_frames :: "(string \<times> 'f) list"
  pc_owners :: "(string \<times> string) list"

definition empty_cache :: "'f preview_cache" where
  "empty_cache = \<lparr>pc_frames = [], pc_owners = []\<rparr>"

definition cache_get :: "string option \<Rightarrow> 'f preview_cache \<Rightarrow> 'f option" where
  "cache_get key c = (case key of None \<Rightarrow> None | Some k \<Rightarrow> map_of (pc_frames c) k)"

definition remove_unowned_frame :: "string \<Rightarrow> 'f preview_cache \<Rightarrow> 'f preview_cache" where
  "remove_unowned_frame key c =
     (if key \<in> snd ` set (pc_owners c) then c else c\<lparr>pc_frames := AList.delete key (pc_frames c)\<rparr>)"

definition cache_put :: "string \<Rightarrow> string \<Rightarrow> 'f \<Rightarrow> 'f preview_cache \<Rightarrow> 'f preview_cache" where
  "cache_put owner key frame c =
     (let c1 = (case map_of (pc_owners c) owner of
                  None \<Rightarrow> c
                | Some previous \<Rightarrow>
                    if previous \<noteq> key then remove_unowned_frame previous (c\<lparr>pc_owners := AList.delete owner (pc_owners c)\<rparr>) else c)
      in c1\<lparr>pc_frames := AList.update key frame (pc_frames c1), pc_owners := AList.update owner key (pc_owners c1)\<rparr>)"

definition cache_discard :: "string \<Rightarrow> 'f preview_cache \<Rightarrow> 'f preview_cache" where
  "cache_discard owner c =
     (case map_of (pc_owners c) owner of
        None \<Rightarrow> c | Some previous \<Rightarrow> remove_unowned_frame previous (c\<lparr>pc_owners := AList.delete owner (pc_owners c)\<rparr>))"

definition cache_invalidate :: "string \<Rightarrow> string option \<Rightarrow> 'f preview_cache \<Rightarrow> 'f preview_cache" where
  "cache_invalidate owner key c = (if key = None \<or> map_of (pc_owners c) owner \<noteq> key then cache_discard owner c else c)"

definition materialize :: "('f \<Rightarrow> bool) \<Rightarrow> string option \<Rightarrow> 'f \<Rightarrow> string \<Rightarrow> 'f preview_cache \<Rightarrow> 'f \<times> 'f preview_cache" where
  "materialize streams key lf owner c =
     (case key of
        None \<Rightarrow> (lf, c)
      | Some k \<Rightarrow>
          (case cache_get key c of
             Some cached \<Rightarrow> (cached, cache_put owner k cached c)
           | None \<Rightarrow> if streams lf then (lf, cache_put owner k lf c) else (lf, c)))"

definition cache_collect ::
  "('f \<Rightarrow> bool) \<Rightarrow> (int \<Rightarrow> int \<Rightarrow> 'f \<Rightarrow> 'p) \<Rightarrow> string option \<Rightarrow> 'f \<Rightarrow> int \<Rightarrow> int \<Rightarrow> string option \<Rightarrow> 'f preview_cache \<Rightarrow> 'p \<times> 'f preview_cache" where
  "cache_collect streams slice key lf offset limit owner c =
     (case key of
        None \<Rightarrow> (slice offset limit lf, c)
      | Some k \<Rightarrow> (case materialize streams key lf (case owner of None \<Rightarrow> k | Some ow \<Rightarrow> ow) c of
                     (result, c') \<Rightarrow> (slice offset limit result, c')))"

subsection \<open>Building a pipeline with the cache\<close>

text \<open>A datasource of a preview: its key, if it has one, and what loading it gives.\<close>

record 'f loaded =
  ld_key :: "string option"
  ld_frame :: "'f result"

definition apply_backend_step ::
  "(string \<Rightarrow> payload \<Rightarrow> (string \<Rightarrow> 'f option) \<Rightarrow> 'f \<Rightarrow> 'f result) \<Rightarrow> (string \<Rightarrow> backend_step result) \<Rightarrow> (string \<Rightarrow> 'f option) \<Rightarrow> string \<Rightarrow> 'f \<Rightarrow> 'f result" where
  "apply_backend_step operate convert rights i f =
     and_then (convert i) (\<lambda>st.
       if bs_operation st = [] then Inl (ValueError ''Step operation is required'')
       else if bs_operation st \<in> set TRANSPARENT_OPERATIONS then Inr f
       else operate (bs_operation st) (bs_params st) rights f)"

definition converted :: "(string \<Rightarrow> backend_step result) \<Rightarrow> string \<Rightarrow> backend_step option" where
  "converted convert i = (case convert i of Inl _ \<Rightarrow> None | Inr st \<Rightarrow> Some st)"

definition is_view :: "(string \<Rightarrow> backend_step result) \<Rightarrow> string \<Rightarrow> bool \<Rightarrow> bool" where
  "is_view convert i enabled \<longleftrightarrow>
     (case converted convert i of
        None \<Rightarrow> False
      | Some st \<Rightarrow> bs_operation st = ''view'' \<and>
          (map_of (bs_params st) ''cache_enabled'' \<notin> {Some JNull, Some (JBool False), Some (JInt 0), Some (JStr []), Some (JList []), Some (JObj [])}) = enabled)"

definition discard_views :: "(string \<Rightarrow> backend_step result) \<Rightarrow> string list \<Rightarrow> 'f preview_cache \<Rightarrow> 'f preview_cache" where
  "discard_views convert os c = fold (\<lambda>i c. if is_view convert i False then cache_discard i c else c) os c"

fun step_keys ::
  "(json \<Rightarrow> string) \<Rightarrow> (string \<Rightarrow> backend_step result) \<Rightarrow> dependency_map \<Rightarrow> string option \<Rightarrow> (string \<times> string option) list \<Rightarrow> string list \<Rightarrow>
   (string \<times> string option) list \<Rightarrow> (string \<times> string option) list" where
  "step_keys hash convert dm source_key right_keys [] ks = ks"
| "step_keys hash convert dm source_key right_keys (i # rest) ks =
     (let parent = (case map_of dm i of Some (Some p) \<Rightarrow> Option.bind (map_of ks p) id | _ \<Rightarrow> source_key);
          key = (case converted convert i of None \<Rightarrow> None | Some st \<Rightarrow> step_key hash parent st right_keys)
      in step_keys hash convert dm source_key right_keys rest (AList.update i key ks))"

text \<open>Every step gives up a frame that no longer is its own, and takes the cached one of its key.\<close>

fun probe ::
  "(string \<Rightarrow> backend_step result) \<Rightarrow> (string \<times> string option) list \<Rightarrow> 'f preview_cache \<Rightarrow> (string \<times> 'f) list \<Rightarrow> (string \<times> 'f) list \<times> 'f preview_cache" where
  "probe convert [] c cf = (cf, c)"
| "probe convert ((i, key) # rest) c cf =
     (let c1 = cache_invalidate i key c
      in case cache_get key c1 of
           None \<Rightarrow> probe convert rest c1 cf
         | Some f \<Rightarrow> probe convert rest (if is_view convert i True then cache_put i (the key) f c1 else c1) (cf @ [(i, f)]))"

definition sources_read :: "backend_step \<Rightarrow> string list" where
  "sources_read st =
     (case map_of (bs_params st) ''right_source'' of Some (JStr s) \<Rightarrow> [s] | _ \<Rightarrow> []) @
     (case map_of (bs_params st) ''sources'' of Some (JList vs) \<Rightarrow> map str_val (filter is_str vs) | _ \<Rightarrow> [])"

definition required_sources :: "(string \<Rightarrow> backend_step result) \<Rightarrow> string list \<Rightarrow> string list" where
  "required_sources convert ids = concat (map (\<lambda>i. case converted convert i of None \<Rightarrow> [] | Some st \<Rightarrow> sources_read st) ids)"

text \<open>The message of a failed load ends with the text of its exception, which is left out.\<close>

fun load_rights :: "'f preview_cache \<Rightarrow> (string \<Rightarrow> bool) \<Rightarrow> (string \<times> 'f loaded) list \<Rightarrow> (string \<times> 'f) list \<Rightarrow> (string \<times> 'f) list result" where
  "load_rights c needed [] rs = Inr rs"
| "load_rights c needed ((s, d) # rest) rs =
     (if \<not> needed s then load_rights c needed rest rs
      else case (case cache_get (ld_key d) c of Some f \<Rightarrow> Inr f | None \<Rightarrow> ld_frame d) of
             Inl _ \<Rightarrow> Inl (invalid_pipeline (''Failed to load datasource '' @ s))
           | Inr f \<Rightarrow> load_rights c needed rest (rs @ [(s, f)]))"

fun run_cached ::
  "('f \<Rightarrow> bool) \<Rightarrow> (string \<Rightarrow> backend_step result) \<Rightarrow> (string \<Rightarrow> 'f \<Rightarrow> 'f result) \<Rightarrow> 'f \<Rightarrow> dependency_map \<Rightarrow> (string \<times> string option) list \<Rightarrow>
   string list \<Rightarrow> string set \<Rightarrow> string list \<Rightarrow> (string \<times> 'f) list \<Rightarrow> 'f preview_cache \<Rightarrow> (string \<times> 'f) list result \<times> 'f preview_cache" where
  "run_cached streams convert apply lf dm keys req hit [] sm c = (Inr sm, c)"
| "run_cached streams convert apply lf dm keys req hit (i # rest) sm c =
     (if i \<notin> set req \<or> i \<in> hit then run_cached streams convert apply lf dm keys req hit rest sm c
      else case and_then (case map_of dm i of
               None \<Rightarrow> Inl (KeyError i)
             | Some None \<Rightarrow> Inr lf
             | Some (Some p) \<Rightarrow> (case map_of sm p of None \<Rightarrow> Inl (KeyError p) | Some f \<Rightarrow> Inr f)) (apply i) of
             Inl x \<Rightarrow> (Inl x, c)
           | Inr f \<Rightarrow>
               (case (if is_view convert i True then materialize streams (Option.bind (map_of keys i) id) f i c else (f, c)) of
                  (g, c') \<Rightarrow> run_cached streams convert apply lf dm keys req hit rest (AList.update i g sm) c'))"

text \<open>The frame of the last step with its key, and the cache after the call, also when it raises.\<close>

definition cached_plan ::
  "(json \<Rightarrow> string) \<Rightarrow> ('f \<Rightarrow> bool) \<Rightarrow> (string \<Rightarrow> payload \<Rightarrow> (string \<Rightarrow> 'f option) \<Rightarrow> 'f \<Rightarrow> 'f result) \<Rightarrow> (string \<Rightarrow> backend_step result) \<Rightarrow> 'f \<Rightarrow>
   'f loaded \<Rightarrow> (string \<times> 'f loaded) list \<Rightarrow> dependency_map \<Rightarrow> string list \<Rightarrow> 'f preview_cache \<Rightarrow> ('f \<times> string option) result \<times> 'f preview_cache" where
  "cached_plan hash streams operate convert blank source rights dm os c =
     (let c1 = discard_views convert os c;
          ks = step_keys hash convert dm (ld_key source) (map (\<lambda>(s, d). (s, ld_key d)) rights) os (map (\<lambda>(i, _). (i, None)) dm);
          c2 = cache_invalidate ''source'' (ld_key source) c1
      in case probe convert ks c2 [] of (cached, c3) \<Rightarrow>
         let hit = fst ` set cached
         in case required_steps dm hit [] (map fst dm) of
              Inl x \<Rightarrow> (Inl x, c3)
            | Inr req \<Rightarrow>
                case (if os = [] \<or> (\<exists>i \<in> set req. map_of dm i = Some None \<and> i \<notin> hit)
                      then (case cache_get (ld_key source) c3 of Some f \<Rightarrow> Inr f | None \<Rightarrow> ld_frame source) else Inr blank) of
                  Inl x \<Rightarrow> (Inl x, c3)
                | Inr lf \<Rightarrow>
                    case load_rights c3 (\<lambda>s. s \<in> set (required_sources convert (filter (\<lambda>i. i \<notin> hit) req))) rights [] of
                      Inl x \<Rightarrow> (Inl x, c3)
                    | Inr rs \<Rightarrow>
                        if os = [] then (Inr (lf, ld_key source), c3)
                        else case run_cached streams convert (apply_backend_step operate convert (map_of rs)) lf dm ks req hit os cached c3 of
                               (Inl x, c4) \<Rightarrow> (Inl x, c4)
                             | (Inr sm, c4) \<Rightarrow>
                                 (case map_of sm (last os) of
                                    None \<Rightarrow> (Inl (KeyError (last os)), c4)
                                  | Some f \<Rightarrow> (Inr (f, Option.bind (map_of ks (last os)) id), c4)))"

definition build_pipeline_cached ::
  "(json \<Rightarrow> string) \<Rightarrow> ('f \<Rightarrow> bool) \<Rightarrow> (string \<Rightarrow> payload \<Rightarrow> (string \<Rightarrow> 'f option) \<Rightarrow> 'f \<Rightarrow> 'f result) \<Rightarrow> (string \<Rightarrow> backend_step result) \<Rightarrow> 'f \<Rightarrow>
   'f loaded \<Rightarrow> (string \<times> 'f loaded) list \<Rightarrow> pipeline_step list \<Rightarrow> 'f preview_cache \<Rightarrow> ('f \<times> string option) result \<times> 'f preview_cache" where
  "build_pipeline_cached hash streams operate convert blank source rights steps c =
     (case plan_steps steps of
        Inl x \<Rightarrow> (Inl x, c)
      | Inr (dm, os) \<Rightarrow> cached_plan hash streams operate convert blank source rights dm os c)"

subsection \<open>A page of the preview\<close>

text \<open>The type of a step when it is a string; no other value is the name of a type.\<close>

definition ps_type :: "pipeline_step \<Rightarrow> string" where
  "ps_type st = (case ps_body st of JObj kvs \<Rightarrow> (case map_of kvs ''type'' of Some (JStr t) \<Rightarrow> t | _ \<Rightarrow> []) | _ \<Rightarrow> [])"

definition last_applied :: "pipeline_step list \<Rightarrow> pipeline_step option" where
  "last_applied steps = find ps_is_applied (rev steps)"

definition page_owner :: "pipeline_step list \<Rightarrow> string" where
  "page_owner steps = (case last_applied steps of None \<Rightarrow> ''source'' | Some st \<Rightarrow> (case ps_id st of None \<Rightarrow> [] | Some i \<Rightarrow> i))"

definition page_key :: "pipeline_step list \<Rightarrow> string option \<Rightarrow> string option" where
  "page_key steps key =
     (case last_applied steps of Some st \<Rightarrow> if normalized_step_type (ps_type st) = ''view'' then None else key | None \<Rightarrow> key)"

text \<open>\<open>chart\<close> is the page of a trailing chart step, which is not cached; \<open>slice\<close> collects the rows of a frame
  and normalizes their time zones. Of the result of the call the page is kept.\<close>

definition execute_preview ::
  "(json \<Rightarrow> string) \<Rightarrow> ('f \<Rightarrow> bool) \<Rightarrow> (string \<Rightarrow> payload \<Rightarrow> (string \<Rightarrow> 'f option) \<Rightarrow> 'f \<Rightarrow> 'f result) \<Rightarrow> (string \<Rightarrow> backend_step result) \<Rightarrow> 'f \<Rightarrow>
   ('f \<Rightarrow> 'p option result) \<Rightarrow> (int \<Rightarrow> int \<Rightarrow> 'f \<Rightarrow> 'p) \<Rightarrow> 'f loaded \<Rightarrow> (string \<times> 'f loaded) list \<Rightarrow> pipeline_step list \<Rightarrow> int \<Rightarrow> int \<Rightarrow>
   'f preview_cache \<Rightarrow> 'p result \<times> 'f preview_cache" where
  "execute_preview hash streams operate convert blank chart slice source rights steps offset limit c =
     (case build_pipeline_cached hash streams operate convert blank source rights steps c of
        (Inl x, c') \<Rightarrow> (Inl x, c')
      | (Inr (lf, key), c') \<Rightarrow>
          (case chart lf of
             Inl x \<Rightarrow> (Inl x, c')
           | Inr (Some page) \<Rightarrow> (Inr page, c')
           | Inr None \<Rightarrow>
               (case cache_collect streams slice (page_key steps key) lf offset limit (Some (page_owner steps)) c' of
                  (page, c'') \<Rightarrow> (Inr page, c''))))"

end
