(* ===== verification/Preview_Facts.thy ===== *)
theory Preview_Facts
  imports Preview_Cache Pipeline_Facts "HOL-Library.Countable" "HOL-Library.Countable"
begin

text \<open>
  The preview cache is transparent: a preview with the cache shows what the steps of the pipeline define,
  whatever previews of whatever pipelines ran before. A key stands for one frame, given that
  the hash has no collisions, that a datasource key stands for one content, and that an operation
  depends on its parameters and on the sources it names only.
\<close>

subsection \<open>What a key stands for\<close>

text \<open>The sources that an operation with these parameters may read.\<close>

definition sources_of :: "string \<Rightarrow> payload \<Rightarrow> string list" where
  "sources_of operation p =
     (case right_source p of None \<Rightarrow> [] | Some a \<Rightarrow> a) @ (case union_sources operation p of None \<Rightarrow> [] | Some b \<Rightarrow> b)"

definition local_operations :: "(string \<Rightarrow> payload \<Rightarrow> (string \<Rightarrow> 'f option) \<Rightarrow> 'f \<Rightarrow> 'f result) \<Rightarrow> bool" where
  "local_operations operate \<longleftrightarrow>
     (\<forall>operation p p' R R' f. canon (JObj p) = canon (JObj p') \<longrightarrow> (\<forall>s \<in> set (sources_of operation p). R s = R' s) \<longrightarrow>
        operate operation p R f = operate operation p' R' f)"

definition source_keys_apart :: "(json \<Rightarrow> string) \<Rightarrow> string set \<Rightarrow> bool" where
  "source_keys_apart hash S \<longleftrightarrow> (\<forall>st parent keys. canonical_hash hash (digest_object st parent keys) \<notin> S)"

inductive denotes ::
  "(json \<Rightarrow> string) \<Rightarrow> (string \<Rightarrow> payload \<Rightarrow> (string \<Rightarrow> 'f option) \<Rightarrow> 'f \<Rightarrow> 'f result) \<Rightarrow> (string \<Rightarrow> 'f) \<Rightarrow> string set \<Rightarrow> string \<Rightarrow> 'f \<Rightarrow> bool"
  for hash operate content S where
  den_source: "k \<in> S \<Longrightarrow> denotes hash operate content S k (content k)"
| den_step: "denotes hash operate content S p g \<Longrightarrow> referenced_sources st = Some (map fst keys) \<Longrightarrow> snd ` set keys \<subseteq> S \<Longrightarrow>
    operate (bs_operation st) (bs_params st) (\<lambda>s. map_option content (map_of keys s)) g = Inr f \<Longrightarrow>
    denotes hash operate content S (canonical_hash hash (digest_object st p keys)) f"

inductive_cases denotesE: "denotes hash operate content S k f"

lemma digest_keys_sorted: "sorted [''operation'', ''params'', ''parent'', ''sources'']"
  by code_simp

lemma canon_digest:
  "canon (digest_object st p keys) =
     JObj [(''operation'', JStr (bs_operation st)), (''params'', canon (JObj (bs_params st))), (''parent'', JStr p),
           (''sources'', JObj (sort_key fst (map (\<lambda>(s, k). (s, JStr k)) keys)))]"
proof -
  let ?xs = "[(''operation'', JStr (bs_operation st)), (''params'', canon (JObj (bs_params st))), (''parent'', JStr p),
           (''sources'', canon (JObj (map (\<lambda>(s, k). (s, JStr k)) keys)))]"
  have "sort_key fst ?xs = ?xs" by (rule sort_key_id_if_sorted) (use digest_keys_sorted in simp)
  moreover have "canon (JObj (map (\<lambda>(s, k). (s, JStr k)) keys)) = JObj (sort_key fst (map (\<lambda>(s, k). (s, JStr k)) keys))"
    by (simp add: comp_def case_prod_unfold)
  ultimately show ?thesis by (simp add: digest_object_def)
qed

lemma map_of_sort: "distinct (map fst xs) \<Longrightarrow> map_of (sort_key fst xs) = map_of xs"
  by (rule map_of_eqI) (auto intro!: ext simp: map_of_eq_Some_iff distinct_map)

lemma map_of_strings: "map_of (map (\<lambda>(s, k). (s, JStr k)) keys) s = map_option JStr (map_of keys s)"
  by (induction keys) auto

lemma digest_inj:
  assumes "inj hash" and "canonical_hash hash (digest_object st p keys) = canonical_hash hash (digest_object st' p' keys')"
    and "distinct (map fst keys)" and "distinct (map fst keys')"
  shows "bs_operation st = bs_operation st'" "canon (JObj (bs_params st)) = canon (JObj (bs_params st'))" "p = p'" "map_of keys = map_of keys'"
proof -
  have "canon (digest_object st p keys) = canon (digest_object st' p' keys')" using assms(1,2) by (simp add: canonical_hash_def inj_eq)
  then have e: "bs_operation st = bs_operation st'" "canon (JObj (bs_params st)) = canon (JObj (bs_params st'))" "p = p'"
      "sort_key fst (map (\<lambda>(s, k). (s, JStr k)) keys) = sort_key fst (map (\<lambda>(s, k). (s, JStr k)) keys')"
    unfolding canon_digest by simp_all
  then show "bs_operation st = bs_operation st'" "canon (JObj (bs_params st)) = canon (JObj (bs_params st'))" "p = p'" by blast+
  have d: "distinct (map fst (map (\<lambda>(s, k). (s, JStr k)) xs))" if "distinct (map fst xs)" for xs :: "(string \<times> string) list"
    using that by (simp add: comp_def case_prod_beta)
  have "map_of (map (\<lambda>(s, k). (s, JStr k)) keys) = map_of (map (\<lambda>(s, k). (s, JStr k)) keys')"
    using e(4) map_of_sort [OF d [OF assms(3)]] map_of_sort [OF d [OF assms(4)]] by metis
  then have "map_option JStr (map_of keys s) = map_option JStr (map_of keys' s)" for s using map_of_strings by metis
  then show "map_of keys = map_of keys'" by (intro ext) (metis json.inject(3) option.inj_map_strong)
qed

lemma referenced_facts:
  assumes "referenced_sources st = Some rs"
  shows "distinct rs" "set rs = set (sources_of (bs_operation st) (bs_params st))"
  using assms by (auto simp: referenced_sources_def sources_of_def split: option.splits)

lemma denotes_unique:
  assumes "inj hash" and "local_operations operate" and "source_keys_apart hash S"
  shows "denotes hash operate content S k f \<Longrightarrow> denotes hash operate content S k f' \<Longrightarrow> f = f'"
proof (induction arbitrary: f' rule: denotes.induct)
  case (den_source k)
  from den_source.prems show ?case
    by (rule denotesE) (use den_source.hyps assms(3) in \<open>auto simp: source_keys_apart_def\<close>)
next
  case (den_step p g st keys f)
  from den_step.prems show ?case
  proof (rule denotesE)
    assume "canonical_hash hash (digest_object st p keys) \<in> S"
    then show ?thesis using assms(3) by (simp add: source_keys_apart_def)
  next
    fix p' g' st' keys'
    assume a: "canonical_hash hash (digest_object st p keys) = canonical_hash hash (digest_object st' p' keys')"
      "denotes hash operate content S p' g'" "referenced_sources st' = Some (map fst keys')" "snd ` set keys' \<subseteq> S"
      "operate (bs_operation st') (bs_params st') (\<lambda>s. map_option content (map_of keys' s)) g' = Inr f'"
    note e = digest_inj [OF assms(1) a(1) referenced_facts(1) [OF den_step.hyps(2)] referenced_facts(1) [OF a(3)]]
    have "g = g'" using den_step.IH a(2) e(3) by simp
    then have "operate (bs_operation st) (bs_params st) (\<lambda>s. map_option content (map_of keys s)) g =
        operate (bs_operation st') (bs_params st') (\<lambda>s. map_option content (map_of keys' s)) g'"
      using assms(2) e unfolding local_operations_def by metis
    then show ?thesis using den_step.hyps(4) a(5) by simp
  qed
qed

subsection \<open>The frames of the cache\<close>

text \<open>Every frame is the one its key stands for, and the frames are exactly those that a step owns.\<close>

definition cache_ok :: "(string \<Rightarrow> 'f \<Rightarrow> bool) \<Rightarrow> 'f preview_cache \<Rightarrow> bool" where
  "cache_ok P c \<longleftrightarrow>
     (\<forall>k f. map_of (pc_frames c) k = Some f \<longrightarrow> P k f) \<and> fst ` set (pc_frames c) = snd ` set (pc_owners c) \<and>
     distinct (map fst (pc_frames c)) \<and> distinct (map fst (pc_owners c))"

lemma empty_ok: "cache_ok P empty_cache"
  by (simp add: cache_ok_def empty_cache_def)

lemma cache_get_ok: "cache_ok P c \<Longrightarrow> cache_get (Some k) c = Some f \<Longrightarrow> P k f"
  by (simp add: cache_ok_def cache_get_def)

lemma owners_delete:
  assumes "distinct (map fst d)" and "map_of d k = Some v"
  shows "insert v (snd ` set (AList.delete k d)) = snd ` set d"
proof -
  have "(k, v) \<in> set d" using assms(2) by (rule map_of_SomeD)
  moreover have "w = v" if "(k, w) \<in> set d" for w using that assms by simp
  ultimately have "set d = insert (k, v) (set (AList.delete k d))" by (fastforce simp: AList.delete_eq)
  from arg_cong [OF this, of "image snd"] show ?thesis by simp
qed

lemma remove_ok:
  assumes "cache_ok P c" and "map_of (pc_owners c) owner = Some key"
  shows "cache_ok P (remove_unowned_frame key (c\<lparr>pc_owners := AList.delete owner (pc_owners c)\<rparr>))"
proof -
  let ?o = "AList.delete owner (pc_owners c)"
  have o: "insert key (snd ` set ?o) = snd ` set (pc_owners c)" using assms by (intro owners_delete) (simp_all add: cache_ok_def)
  have f: "fst ` set (AList.delete key (pc_frames c)) = fst ` set (pc_frames c) - {key}"
    by (auto simp: AList.delete_eq image_iff)
  have d: "distinct (map fst ?o)" "distinct (map fst (AList.delete key (pc_frames c)))" using assms(1) by (simp_all add: cache_ok_def distinct_delete)
  show ?thesis
  proof (cases "key \<in> snd ` set ?o")
    case True
    then show ?thesis using assms(1) o d by (auto simp: cache_ok_def remove_unowned_frame_def)
  next
    case False
    then have "fst ` set (AList.delete key (pc_frames c)) = snd ` set ?o" using f o assms(1) by (auto simp: cache_ok_def)
    then show ?thesis using False assms(1) d by (auto simp: cache_ok_def remove_unowned_frame_def delete_conv' split: if_splits)
  qed
qed

lemma discard_ok: "cache_ok P c \<Longrightarrow> cache_ok P (cache_discard owner c)"
  using remove_ok by (fastforce simp: cache_discard_def split: option.split)

lemma invalidate_ok: "cache_ok P c \<Longrightarrow> cache_ok P (cache_invalidate owner key c)"
  by (simp add: cache_invalidate_def discard_ok)

lemma update_owner:
  assumes "map_of d k = None \<or> map_of d k = Some v"
  shows "snd ` set (AList.update k v d) = insert v (snd ` set d)"
  using assms by (induction d) (auto split: if_splits)

lemma put_ok:
  assumes c: "cache_ok P c" and "P key f"
  shows "cache_ok P (cache_put owner key f c)"
proof -
  define c1 where "c1 = (case map_of (pc_owners c) owner of None \<Rightarrow> c
     | Some previous \<Rightarrow> if previous \<noteq> key then remove_unowned_frame previous (c\<lparr>pc_owners := AList.delete owner (pc_owners c)\<rparr>) else c)"
  have ok: "cache_ok P c1" unfolding c1_def using c remove_ok [OF c] by (auto split: option.split)
  have "map_of (pc_owners c1) owner = None \<or> map_of (pc_owners c1) owner = Some key"
    unfolding c1_def by (auto simp: remove_unowned_frame_def delete_conv' split: option.split)
  then have o: "snd ` set (AList.update owner key (pc_owners c1)) = insert key (snd ` set (pc_owners c1))" by (rule update_owner)
  have f: "fst ` set (AList.update key f (pc_frames c1)) = insert key (fst ` set (pc_frames c1))" by (simp add: dom_update)
  have p: "cache_put owner key f c = c1\<lparr>pc_frames := AList.update key f (pc_frames c1), pc_owners := AList.update owner key (pc_owners c1)\<rparr>"
    by (simp add: cache_put_def c1_def Let_def)
  have "distinct (map fst (AList.update key f (pc_frames c1)))" "distinct (map fst (AList.update owner key (pc_owners c1)))"
    using ok by (simp_all add: cache_ok_def distinct_update)
  then show ?thesis unfolding p using ok o f assms(2) by (auto simp: cache_ok_def update_conv' split: if_splits)
qed

lemma materialize_ok:
  assumes "cache_ok P c" and "\<And>k. key = Some k \<Longrightarrow> P k f" and "\<And>k g. P k g \<Longrightarrow> P k f \<Longrightarrow> g = f"
    and "materialize streams key f owner c = (g, c')"
  shows "g = f" "cache_ok P c'"
proof -
  have "g = f \<and> cache_ok P c'"
  proof (cases "\<exists>k h. key = Some k \<and> cache_get key c = Some h")
    case True
    then obtain k h where k: "key = Some k" "cache_get key c = Some h" by blast
    then have h: "P k h" using cache_get_ok [OF assms(1)] by simp
    then have "h = f" using assms(2,3) k(1) by blast
    then show ?thesis using assms(4) k put_ok [OF assms(1) h] by (auto simp: materialize_def)
  next
    case False
    then show ?thesis using assms(1,2,4) put_ok [OF assms(1)] by (auto simp: materialize_def split: option.splits if_splits)
  qed
  then show "g = f" "cache_ok P c'" by blast+
qed

lemma collect_ok:
  assumes "cache_ok P c" and "\<And>k. key = Some k \<Longrightarrow> P k f" and "\<And>k g. P k g \<Longrightarrow> P k f \<Longrightarrow> g = f"
    and "cache_collect streams slice key f offset limit owner c = (page, c')"
  shows "page = slice offset limit f" "cache_ok P c'"
proof -
  have "page = slice offset limit f \<and> cache_ok P c'"
  proof (cases key)
    case None
    then show ?thesis using assms(1,4) by (auto simp: cache_collect_def)
  next
    case (Some k)
    obtain g c1 where m: "materialize streams key f (case owner of None \<Rightarrow> k | Some ow \<Rightarrow> ow) c = (g, c1)" by fastforce
    from materialize_ok [OF assms(1-3) this] show ?thesis using assms(4) Some m by (auto simp: cache_collect_def)
  qed
  then show "page = slice offset limit f" "cache_ok P c'" by blast+
qed

lemma discard_views_ok: "cache_ok P c \<Longrightarrow> cache_ok P (discard_views convert os c)"
  unfolding discard_views_def by (induction os arbitrary: c) (auto intro: discard_ok)

text \<open>A hit is a step whose key stands for the cached frame.\<close>

lemma probe_ok:
  "cache_ok P c \<Longrightarrow> probe convert ks c cf = (cf', c') \<Longrightarrow> \<forall>i f. (i, f) \<in> set cf \<longrightarrow> (\<exists>k. map_of all i = Some (Some k) \<and> P k f) \<Longrightarrow>
   \<forall>x \<in> set ks. map_of all (fst x) = Some (snd x) \<Longrightarrow>
   cache_ok P c' \<and> (\<forall>i f. (i, f) \<in> set cf' \<longrightarrow> (\<exists>k. map_of all i = Some (Some k) \<and> P k f))"
proof (induction convert ks c cf rule: probe.induct)
  case (2 convert i key rest c cf)
  let ?c1 = "cache_invalidate i key c"
  have c1: "cache_ok P ?c1" by (rule invalidate_ok [OF "2.prems"(1)])
  show ?case
  proof (cases "cache_get key ?c1")
    case None
    then show ?thesis using "2.IH"(1) [OF refl None c1] "2.prems" by (simp add: Let_def)
  next
    case (Some f)
    then obtain k where k: "key = Some k" by (auto simp: cache_get_def split: option.splits)
    then have pk: "P k f" using cache_get_ok [OF c1] Some by simp
    let ?c2 = "if is_view convert i True then cache_put i (the key) f ?c1 else ?c1"
    have "cache_ok P ?c2" using c1 put_ok [OF c1 pk] k by simp
    moreover have "\<forall>j g. (j, g) \<in> set (cf @ [(i, f)]) \<longrightarrow> (\<exists>k. map_of all j = Some (Some k) \<and> P k g)"
      using "2.prems"(3,4) pk k by auto
    ultimately show ?thesis using "2.IH"(2) [OF refl Some] "2.prems"(2,4) Some by (simp add: Let_def)
  qed
qed simp

subsection \<open>The keys of the steps\<close>

definition parent_key :: "dependency_map \<Rightarrow> string option \<Rightarrow> (string \<times> string option) list \<Rightarrow> string \<Rightarrow> string option" where
  "parent_key dm source_key ks i = (case map_of dm i of Some (Some p) \<Rightarrow> Option.bind (map_of ks p) id | _ \<Rightarrow> source_key)"

definition key_rule ::
  "(json \<Rightarrow> string) \<Rightarrow> (string \<Rightarrow> backend_step result) \<Rightarrow> dependency_map \<Rightarrow> string option \<Rightarrow> (string \<times> string option) list \<Rightarrow> (string \<times> string option) list \<Rightarrow>
   string \<Rightarrow> string option" where
  "key_rule hash convert dm sk rk ks i =
     (case converted convert i of None \<Rightarrow> None | Some st \<Rightarrow> step_key hash (parent_key dm sk ks i) st rk)"

lemma step_keys_rule:
  "distinct (pre @ rest) \<Longrightarrow> topo dm (pre @ rest) \<Longrightarrow> \<forall>i \<in> set pre. map_of ks i = Some (key_rule hash convert dm sk rk ks i) \<Longrightarrow>
   ks' = step_keys hash convert dm sk rk rest ks \<Longrightarrow>
   \<forall>i \<in> set (pre @ rest). map_of ks' i = Some (key_rule hash convert dm sk rk ks' i)"
proof (induction rest arbitrary: pre ks)
  case (Cons i rest)
  let ?ks = "AList.update i (key_rule hash convert dm sk rk ks i) ks"
  have n: "i \<notin> set pre" using Cons.prems(1) by simp
  have before: "before dm pre i" using Cons.prems(2) by (auto simp: topo_def dest!: spec [of _ "length pre"])
  have pre: "before dm pre j" if j: "j \<in> set pre" for j
  proof -
    obtain k where k: "k < length pre" "pre ! k = j" using j by (auto simp: in_set_conv_nth)
    then have "before dm (take k pre) j" using Cons.prems(2) by (auto simp: topo_def nth_append dest!: spec [of _ k])
    then show ?thesis by (auto simp: before_def dest: in_set_takeD split: option.splits)
  qed
  have same: "key_rule hash convert dm sk rk ?ks j = key_rule hash convert dm sk rk ks j" if "before dm pre j" for j
    using that n by (auto simp: key_rule_def parent_key_def before_def update_conv' split: option.splits)
  have "\<forall>j \<in> set (pre @ [i]). map_of ?ks j = Some (key_rule hash convert dm sk rk ?ks j)"
    using Cons.prems(3) same [OF before] same [OF pre] n by (auto simp: update_conv')
  moreover have "ks' = step_keys hash convert dm sk rk rest ?ks"
    using Cons.prems(4) unfolding key_rule_def parent_key_def by (simp add: Let_def)
  ultimately show ?case using Cons.IH [of "pre @ [i]" ?ks] Cons.prems(1,2) by simp
qed simp

lemma keys_update: "i \<in> fst ` set ks \<Longrightarrow> map fst (AList.update i v ks) = map fst ks"
  by (induction ks) auto

lemma step_keys_fst: "set rest \<subseteq> fst ` set ks \<Longrightarrow> map fst (step_keys hash convert dm sk rk rest ks) = map fst ks"
proof (induction rest arbitrary: ks)
  case (Cons i rest)
  have k: "map fst (AList.update i v ks) = map fst ks" for v by (rule keys_update) (use Cons.prems in simp)
  have "set rest \<subseteq> fst ` set (AList.update i v ks)" for v using Cons.prems by (auto simp: dom_update)
  then show ?case using Cons.IH k by (simp add: Let_def)
qed simp

text \<open>What a preview relies on: the key of a datasource stands for its content.\<close>

definition sources_ok :: "(string \<Rightarrow> 'f) \<Rightarrow> string set \<Rightarrow> 'f loaded \<Rightarrow> 'f \<Rightarrow> (string \<times> 'f loaded) list \<Rightarrow> bool" where
  "sources_ok content S source src rights \<longleftrightarrow>
     ld_frame source = Inr src \<and> distinct (map fst rights) \<and>
     (\<forall>d \<in> insert source (snd ` set rights). \<forall>k. ld_key d = Some k \<longrightarrow> k \<in> S \<and> ld_frame d = Inr (content k))"

definition all_rights :: "(string \<times> 'f loaded) list \<Rightarrow> string \<Rightarrow> 'f option" where
  "all_rights rights s = (case map_of rights s of None \<Rightarrow> None | Some d \<Rightarrow> (case ld_frame d of Inl _ \<Rightarrow> None | Inr f \<Rightarrow> Some f))"

lemma map_of_map_snd: "map_of (map (\<lambda>(s, d). (s, g d)) xs) s = map_option g (map_of xs s)"
  by (induction xs) auto

lemma own_key_facts:
  assumes "own_key hash p st rk = Some k"
  shows "\<exists>keys. k = canonical_hash hash (digest_object st p keys) \<and> referenced_sources st = Some (map fst keys) \<and>
      (\<forall>s \<in> fst ` set keys. map_of rk s = Some (map_of keys s))" and "bs_operation st \<noteq> []"
proof -
  obtain rs where rs: "referenced_sources st = Some rs" "\<forall>s \<in> set rs. Option.bind (map_of rk s) id \<noteq> None"
    and k: "k = canonical_hash hash (digest_object st p (map (\<lambda>s. (s, the (Option.bind (map_of rk s) id))) rs))"
    and c: "bs_operation st \<in> set CACHEABLE_OPERATIONS"
    using assms by (auto simp: own_key_def list_all_iff split: if_splits option.splits)
  let ?keys = "map (\<lambda>s. (s, the (Option.bind (map_of rk s) id))) rs"
  have fst: "map fst ?keys = rs" by (simp add: comp_def)
  have keys: "map_of rk s = Some (map_of ?keys s)" if s: "s \<in> set rs" for s
  proof -
    have "map_of ?keys s = Some (the (Option.bind (map_of rk s) id))" using s by (simp add: map_of_map_restrict)
    then show ?thesis using rs(2) s by (cases "map_of rk s") auto
  qed
  show "\<exists>keys. k = canonical_hash hash (digest_object st p keys) \<and> referenced_sources st = Some (map fst keys) \<and>
      (\<forall>s \<in> fst ` set keys. map_of rk s = Some (map_of keys s))"
  proof (intro exI conjI ballI)
    show "k = canonical_hash hash (digest_object st p ?keys)" by (rule k)
    show "referenced_sources st = Some (map fst ?keys)" unfolding fst by (rule rs(1))
    show "map_of rk s = Some (map_of ?keys s)" if "s \<in> fst ` set ?keys" for s
      using that fst by (intro keys) (metis list.set_map)
  qed
  show "bs_operation st \<noteq> []" using c by (auto simp: CACHEABLE_OPERATIONS_def)
qed

lemma local_use:
  assumes "local_operations operate" and "canon (JObj p) = canon (JObj p')" and "\<And>s. s \<in> set (sources_of operation p) \<Longrightarrow> R s = R' s"
  shows "operate operation p R f = operate operation p' R' f"
  using assms unfolding local_operations_def by blast

lemma rights_content:
  assumes ok: "sources_ok content S source src rights" and "referenced_sources st = Some (map fst keys)"
    and keys: "\<forall>s \<in> fst ` set keys. map_of (map (\<lambda>(s, d). (s, ld_key d)) rights) s = Some (map_of keys s)"
  shows "snd ` set keys \<subseteq> S" and "\<And>s. s \<in> set (sources_of (bs_operation st) (bs_params st)) \<Longrightarrow> map_option content (map_of keys s) = all_rights rights s"
proof -
  note r = referenced_facts [OF assms(2)]
  have one: "k \<in> S \<and> all_rights rights s = Some (content k)" if "(s, k) \<in> set keys" for s k
  proof -
    have mk: "map_of keys s = Some k" using that r(1) by simp
    moreover have "s \<in> fst ` set keys" using that by (force)
    ultimately have "map_of (map (\<lambda>(s, d). (s, ld_key d)) rights) s = Some (Some k)" using keys by metis
    then have "map_option ld_key (map_of rights s) = Some (Some k)" by (simp only: map_of_map_snd)
    then obtain d where d: "map_of rights s = Some d" "ld_key d = Some k" by auto
    then have "d \<in> snd ` set rights" by (force dest: map_of_SomeD)
    then show ?thesis using ok d by (auto simp: sources_ok_def all_rights_def)
  qed
  then show "snd ` set keys \<subseteq> S" by force
  show "map_option content (map_of keys s) = all_rights rights s" if "s \<in> set (sources_of (bs_operation st) (bs_params st))" for s
  proof -
    have "s \<in> fst ` set keys" using that r(2) by simp
    then obtain k where k: "(s, k) \<in> set keys" by force
    then have "map_of keys s = Some k" using r(1) by simp
    then show ?thesis using one [OF k] by simp
  qed
qed

lemma key_step:
  assumes ok: "sources_ok content S source src rights" and loc: "local_operations operate" and st: "convert i = Inr st"
    and k: "step_key hash (Some pk) st (map (\<lambda>(s, d). (s, ld_key d)) rights) = Some k"
    and g: "denotes hash operate content S pk g" and f: "apply_backend_step operate convert (all_rights rights) i g = Inr f"
  shows "denotes hash operate content S k f"
proof (cases "bs_operation st \<in> set TRANSPARENT_OPERATIONS")
  case True
  then show ?thesis using k g f st by (auto simp: step_key_def apply_backend_step_def split: if_splits)
next
  case False
  then have own: "own_key hash pk st (map (\<lambda>(s, d). (s, ld_key d)) rights) = Some k" using k by (simp add: step_key_def)
  from own_key_facts(1) [OF this] obtain keys where keys: "k = canonical_hash hash (digest_object st pk keys)" "referenced_sources st = Some (map fst keys)"
    "\<forall>s \<in> fst ` set keys. map_of (map (\<lambda>(s, d). (s, ld_key d)) rights) s = Some (map_of keys s)" by blast
  note rc = rights_content [OF ok keys(2,3)]
  have "operate (bs_operation st) (bs_params st) (all_rights rights) g = Inr f"
    using f st False own_key_facts(2) [OF own] by (simp add: apply_backend_step_def)
  moreover have "operate (bs_operation st) (bs_params st) (\<lambda>s. map_option content (map_of keys s)) g =
      operate (bs_operation st) (bs_params st) (all_rights rights) g"
    by (rule local_use [OF loc refl]) (rule rc(2))
  ultimately show ?thesis unfolding keys(1) by (intro den_step [OF g keys(2) rc(1)]) simp
qed

lemma key_step_back:
  assumes ok: "sources_ok content S source src rights" and inj: "inj hash" and loc: "local_operations operate" and apart: "source_keys_apart hash S"
    and st: "convert i = Inr st" and k: "step_key hash (Some pk) st (map (\<lambda>(s, d). (s, ld_key d)) rights) = Some k"
    and f: "denotes hash operate content S k f"
  shows "\<exists>g. denotes hash operate content S pk g \<and> apply_backend_step operate convert (all_rights rights) i g = Inr f"
proof (cases "bs_operation st \<in> set TRANSPARENT_OPERATIONS")
  case True
  then have "bs_operation st \<noteq> []" by (auto simp: TRANSPARENT_OPERATIONS_def)
  then show ?thesis using True k f st by (auto simp: step_key_def apply_backend_step_def split: if_splits)
next
  case False
  then have own: "own_key hash pk st (map (\<lambda>(s, d). (s, ld_key d)) rights) = Some k" using k by (simp add: step_key_def)
  from own_key_facts(1) [OF this] obtain keys where keys: "k = canonical_hash hash (digest_object st pk keys)" "referenced_sources st = Some (map fst keys)"
    "\<forall>s \<in> fst ` set keys. map_of (map (\<lambda>(s, d). (s, ld_key d)) rights) s = Some (map_of keys s)" by blast
  note rc = rights_content [OF ok keys(2,3)]
  from f show ?thesis
  proof (rule denotesE)
    assume "k \<in> S"
    then show ?thesis using apart keys(1) by (simp add: source_keys_apart_def)
  next
    fix p' g st' keys'
    assume a: "k = canonical_hash hash (digest_object st' p' keys')" "denotes hash operate content S p' g" "referenced_sources st' = Some (map fst keys')"
      "operate (bs_operation st') (bs_params st') (\<lambda>s. map_option content (map_of keys' s)) g = Inr f"
    have "canonical_hash hash (digest_object st pk keys) = canonical_hash hash (digest_object st' p' keys')" using keys(1) a(1) by simp
    note e = digest_inj [OF inj this referenced_facts(1) [OF keys(2)] referenced_facts(1) [OF a(3)]]
    have "operate (bs_operation st) (bs_params st) (all_rights rights) g = operate (bs_operation st) (bs_params st') (\<lambda>s. map_option content (map_of keys' s)) g"
      by (rule local_use [OF loc e(2)]) (simp add: rc(2) [symmetric] e(4))
    then have "operate (bs_operation st) (bs_params st) (all_rights rights) g = Inr f" using e(1) a(4) by simp
    then have "apply_backend_step operate convert (all_rights rights) i g = Inr f"
      using st False own_key_facts(2) [OF own] by (simp add: apply_backend_step_def)
    then show ?thesis using a(2) e(3) by blast
  qed
qed

text \<open>The key of a step stands for the frame that the steps define, and for no other.\<close>

lemma keys_denote:
  assumes ok: "sources_ok content S source src rights" and loc: "local_operations operate"
    and ks: "\<forall>i \<in> fst ` set dm. map_of ks i = Some (key_rule hash convert dm (ld_key source) (map (\<lambda>(s, d). (s, ld_key d)) rights) ks i)"
  shows "frame_of (apply_backend_step operate convert (all_rights rights)) src dm [] i f \<Longrightarrow> map_of ks i = Some (Some k) \<Longrightarrow> denotes hash operate content S k f"
proof (induction arbitrary: k rule: frame_of.induct)
  case (fr_cached i f)
  then show ?case by simp
next
  case (fr_root i f)
  have "i \<in> fst ` set dm" using fr_root.hyps(2) by (force dest: map_of_SomeD)
  then have "Some k = key_rule hash convert dm (ld_key source) (map (\<lambda>(s, d). (s, ld_key d)) rights) ks i" using ks fr_root.prems by auto
  then obtain st where st: "convert i = Inr st" "step_key hash (ld_key source) st (map (\<lambda>(s, d). (s, ld_key d)) rights) = Some k"
    using fr_root.hyps(2) by (auto simp: key_rule_def parent_key_def converted_def split: option.splits sum.splits)
  then obtain pk where pk: "ld_key source = Some pk" by (cases "ld_key source") (auto simp: step_key_def split: if_splits)
  then have "denotes hash operate content S pk src" using ok den_source [of pk S] by (fastforce simp: sources_ok_def)
  then show ?case using key_step [where convert = convert and i = i, OF ok loc st(1) _ _ fr_root.hyps(3), of hash pk k] st(2) pk by simp
next
  case (fr_step i p g f)
  have "i \<in> fst ` set dm" using fr_step.hyps(2) by (force dest: map_of_SomeD)
  then have "Some k = key_rule hash convert dm (ld_key source) (map (\<lambda>(s, d). (s, ld_key d)) rights) ks i" using ks fr_step.prems by auto
  then obtain st where st: "convert i = Inr st" "step_key hash (Option.bind (map_of ks p) id) st (map (\<lambda>(s, d). (s, ld_key d)) rights) = Some k"
    using fr_step.hyps(2) by (auto simp: key_rule_def parent_key_def converted_def split: option.splits sum.splits)
  then obtain pk where pk: "map_of ks p = Some (Some pk)" "Option.bind (map_of ks p) id = Some pk"
    by (cases "Option.bind (map_of ks p) id") (auto simp: step_key_def bind_eq_Some_conv split: if_splits)
  show ?case using key_step [where convert = convert and i = i, OF ok loc st(1) _ fr_step.IH [OF pk(1)] fr_step.hyps(4), of k] st(2) pk(2) by simp
qed

lemma keys_only_denote:
  assumes ok: "sources_ok content S source src rights" and inj: "inj hash" and loc: "local_operations operate" and apart: "source_keys_apart hash S"
    and ks: "\<forall>i \<in> set os. map_of ks i = Some (key_rule hash convert dm (ld_key source) (map (\<lambda>(s, d). (s, ld_key d)) rights) ks i)"
    and os: "topo dm os" "set os = fst ` set dm"
  shows "n \<le> length os \<Longrightarrow> i \<in> set (take n os) \<Longrightarrow> map_of ks i = Some (Some k) \<Longrightarrow> denotes hash operate content S k f \<Longrightarrow>
    frame_of (apply_backend_step operate convert (all_rights rights)) src dm [] i f"
proof (induction n arbitrary: i k f)
  case (Suc n)
  show ?case
  proof (cases "i \<in> set (take n os)")
    case True
    then show ?thesis using Suc by simp
  next
    case False
    then have i: "i = os ! n" using Suc.prems(1,2) by (simp add: take_Suc_conv_app_nth)
    then have b: "before dm (take n os) i" "i \<in> set os" using os(1) Suc.prems(1) by (auto simp: topo_def)
    then have "Some k = key_rule hash convert dm (ld_key source) (map (\<lambda>(s, d). (s, ld_key d)) rights) ks i" using ks Suc.prems(3) by auto
    then obtain st where st: "convert i = Inr st" "step_key hash (parent_key dm (ld_key source) ks i) st (map (\<lambda>(s, d). (s, ld_key d)) rights) = Some k"
      by (auto simp: key_rule_def converted_def split: option.splits sum.splits)
    then obtain pk where pk: "parent_key dm (ld_key source) ks i = Some pk"
      by (cases "parent_key dm (ld_key source) ks i") (auto simp: step_key_def split: if_splits)
    then have sk: "step_key hash (Some pk) st (map (\<lambda>(s, d). (s, ld_key d)) rights) = Some k" using st(2) by simp
    have "\<exists>g. denotes hash operate content S pk g \<and> apply_backend_step operate convert (all_rights rights) i g = Inr f"
      by (rule key_step_back [where convert = convert and i = i, OF ok inj loc apart st(1) sk Suc.prems(4)])
    then obtain g where g: "denotes hash operate content S pk g" "apply_backend_step operate convert (all_rights rights) i g = Inr f"
      by (elim exE conjE)
    obtain d where d: "map_of dm i = Some d" using map_of_key [of i dm] b(2) os(2) by auto
    show ?thesis
    proof (cases d)
      case None
      then have "ld_key source = Some pk" using pk d by (simp add: parent_key_def)
      then have c: "pk \<in> S" "src = content pk" using ok by (fastforce simp: sources_ok_def)+
      have "g = content pk" by (rule denotes_unique [OF inj loc apart g(1) den_source [OF c(1)]])
      then have "g = src" using c(2) by simp
      then show ?thesis using None d g(2) by (auto intro: fr_root)
    next
      case (Some p)
      then have "map_of ks p = Some (Some pk)" "p \<in> set (take n os)" using pk d b(1) by (auto simp: parent_key_def before_def bind_eq_Some_conv)
      then have "frame_of (apply_backend_step operate convert (all_rights rights)) src dm [] p g" using Suc.IH Suc.prems(1) g(1) by simp
      then show ?thesis using Some d g(2) by (auto intro: fr_step)
    qed
  qed
qed simp

subsection \<open>Running the plan with the cache\<close>

lemma frame_step_iff:
  assumes "map_of dm i = Some (Some p)" and "frame_of ap src dm [] p g"
  shows "frame_of ap src dm [] i f \<longleftrightarrow> ap i g = Inr f"
proof
  assume "frame_of ap src dm [] i f"
  then obtain h where "frame_of ap src dm [] p h" "ap i h = Inr f" using assms(1) by (auto elim: frame_ofE)
  then show "ap i g = Inr f" using frame_of_unique [OF assms(2)] by blast
qed (use assms in \<open>simp add: fr_step\<close>)

lemma run_cached_frames:
  assumes ok: "dm_ok dm" and req: "closed_under dm hit req None"
    and src: "\<And>i. i \<in> set req \<Longrightarrow> map_of dm i = Some None \<Longrightarrow> i \<notin> hit \<Longrightarrow> lf = src"
    and ap: "\<And>i g. i \<in> set req \<Longrightarrow> i \<notin> hit \<Longrightarrow> apply i g = ap i g"
    and key: "\<And>i f k. frame_of ap src dm [] i f \<Longrightarrow> map_of ks i = Some (Some k) \<Longrightarrow> P k f" and uniq: "\<And>k f g. P k g \<Longrightarrow> P k f \<Longrightarrow> g = f"
  shows "topo dm (pre @ rest) \<Longrightarrow> set (pre @ rest) = fst ` set dm \<Longrightarrow> distinct (pre @ rest) \<Longrightarrow>
    \<forall>i f. map_of sm i = Some f \<longrightarrow> frame_of ap src dm [] i f \<Longrightarrow> \<forall>i. i \<in> hit \<or> i \<in> set req \<and> i \<in> set pre \<longrightarrow> map_of sm i \<noteq> None \<Longrightarrow>
    cache_ok P c \<Longrightarrow> run_cached streams convert apply lf dm ks req hit rest sm c = (r, c') \<Longrightarrow>
    cache_ok P c' \<and>
    (\<forall>sm'. r = Inr sm' \<longrightarrow> (\<forall>i f. map_of sm' i = Some f \<longrightarrow> frame_of ap src dm [] i f) \<and>
       (\<forall>i. i \<in> hit \<or> i \<in> set req \<and> i \<in> set (pre @ rest) \<longrightarrow> map_of sm' i \<noteq> None)) \<and>
    (\<forall>x. r = Inl x \<longrightarrow> (\<exists>i \<in> set (pre @ rest). \<forall>f. \<not> frame_of ap src dm [] i f))"
proof (induction rest arbitrary: pre sm c)
  case (Cons i rest)
  have again: "topo dm ((pre @ [i]) @ rest)" "set ((pre @ [i]) @ rest) = fst ` set dm" "distinct ((pre @ [i]) @ rest)" using Cons.prems(1-3) by simp_all
  show ?case
  proof (cases "i \<notin> set req \<or> i \<in> hit")
    case True
    then have "\<forall>j. j \<in> hit \<or> j \<in> set req \<and> j \<in> set (pre @ [i]) \<longrightarrow> map_of sm j \<noteq> None" using Cons.prems(5) by auto
    moreover have "run_cached streams convert apply lf dm ks req hit rest sm c = (r, c')" using True Cons.prems(7) by simp
    ultimately show ?thesis using Cons.IH [OF again Cons.prems(4) _ Cons.prems(6)] by simp
  next
    case False
    then have i: "i \<in> set req" "i \<notin> hit" by blast+
    obtain d where d: "map_of dm i = Some d" using Cons.prems(2) map_of_key [of i dm] by auto
    have before: "before dm pre i" using Cons.prems(1) by (auto simp: topo_def dest!: spec [of _ "length pre"])
    let ?parent = "case map_of dm i of None \<Rightarrow> Inl (KeyError i) | Some None \<Rightarrow> Inr lf
      | Some (Some p) \<Rightarrow> (case map_of sm p of None \<Rightarrow> Inl (KeyError p) | Some f \<Rightarrow> Inr f)"
    have "\<exists>pf. ?parent = Inr pf \<and> (\<forall>f. ap i pf = Inr f \<longleftrightarrow> frame_of ap src dm [] i f)"
    proof (cases d)
      case None
      then have "lf = src" using src [OF i(1)] d i(2) by blast
      then show ?thesis using None d by (auto intro: fr_root elim: frame_ofE)
    next
      case (Some p)
      then have "p \<in> set pre" "p \<in> set req" using before d req i by (auto simp: before_def closed_under_def)
      then obtain g where g: "map_of sm p = Some g" using Cons.prems(5) by fastforce
      then have "frame_of ap src dm [] p g" using Cons.prems(4) by blast
      then show ?thesis using g Some d frame_step_iff [of dm i p ap src g] by simp
    qed
    then obtain pf where pf: "?parent = Inr pf" "\<And>f. ap i pf = Inr f \<longleftrightarrow> frame_of ap src dm [] i f" by blast
    show ?thesis
    proof (cases "ap i pf")
      case (Inl x)
      then have "r = Inl x" "c' = c" using Cons.prems(7) False pf(1) ap [OF i] by auto
      then show ?thesis using Cons.prems(6) Inl pf(2) by simp
    next
      case (Inr f)
      then have fr: "frame_of ap src dm [] i f" using pf(2) by blast
      let ?key = "Option.bind (map_of ks i) id"
      obtain g c1 where m: "(if is_view convert i True then materialize streams ?key f i c else (f, c)) = (g, c1)" by fastforce
      have kp: "\<And>k. ?key = Some k \<Longrightarrow> P k f" using key [OF fr] by (auto simp: bind_eq_Some_conv)
      have g: "g = f \<and> cache_ok P c1"
      proof (cases "is_view convert i True")
        case True
        then have mm: "materialize streams ?key f i c = (g, c1)" using m by simp
        have "g = f" by (rule materialize_ok(1) [OF Cons.prems(6) _ _ mm]) (use kp uniq in blast)+
        moreover have "cache_ok P c1" by (rule materialize_ok(2) [OF Cons.prems(6) _ _ mm]) (use kp uniq in blast)+
        ultimately show ?thesis by blast
      next
        case False
        then show ?thesis using m Cons.prems(6) by simp
      qed
      have run: "run_cached streams convert apply lf dm ks req hit rest (AList.update i f sm) c1 = (r, c')"
        using Cons.prems(7) False pf(1) ap [OF i] Inr m g by (simp split: if_splits)
      have "\<forall>j h. map_of (AList.update i f sm) j = Some h \<longrightarrow> frame_of ap src dm [] j h"
        using fr Cons.prems(4) by (auto simp: update_conv')
      moreover have "\<forall>j. j \<in> hit \<or> j \<in> set req \<and> j \<in> set (pre @ [i]) \<longrightarrow> map_of (AList.update i f sm) j \<noteq> None"
        using Cons.prems(5) by (auto simp: update_conv')
      ultimately show ?thesis using Cons.IH [OF again _ _ _ run] g by simp
    qed
  qed
next
  case (Nil pre sm c)
  have "r = Inr sm" "c' = c" using Nil.prems(7) by simp_all
  then show ?case using Nil.prems(4-6) by simp
qed

lemma load_rights_fails: "load_rights c needed rest rs = Inl x \<Longrightarrow> \<exists>d \<in> snd ` set rest. \<exists>y. ld_frame d = Inl y"
  by (induction c needed rest rs rule: load_rights.induct) (auto split: if_splits sum.splits option.splits)

lemma load_rights_facts:
  assumes c: "cache_ok (denotes hash operate content S) c" and ok: "sources_ok content S source src all"
    and un: "\<And>k f g. denotes hash operate content S k g \<Longrightarrow> denotes hash operate content S k f \<Longrightarrow> g = f"
  shows "load_rights c needed rest rs = Inr rs' \<Longrightarrow> all = seen @ rest \<Longrightarrow> \<forall>s. needed s \<longrightarrow> map_of rs s = all_rights seen s \<Longrightarrow>
    \<forall>s. needed s \<longrightarrow> map_of rs' s = all_rights all s"
proof (induction rest arbitrary: seen rs)
  case (Cons x rest)
  obtain s d where x: "x = (s, d)" by (cases x)
  have dist: "s \<notin> fst ` set seen" using ok Cons.prems(2) x by (auto simp: sources_ok_def)
  then have new: "map_of seen s = None" by (simp add: map_of_eq_None_iff)
  have at: "all_rights (seen @ [(s, d)]) t = (if t = s then (case ld_frame d of Inl _ \<Rightarrow> None | Inr f \<Rightarrow> Some f) else all_rights seen t)" for t
    using new by (auto simp: all_rights_def map_add_def split: option.splits)
  have none: "all_rights seen s = None" by (simp add: all_rights_def new)
  show ?case
  proof (cases "needed s")
    case False
    then have "\<forall>t. needed t \<longrightarrow> map_of rs t = all_rights (seen @ [x]) t" using Cons.prems(3) by (auto simp: x at)
    moreover have "load_rights c needed rest rs = Inr rs'" using Cons.prems(1) False x by simp
    ultimately show ?thesis using Cons.IH [of rs "seen @ [x]"] Cons.prems(2) by simp
  next
    case True
    then obtain f where f: "(case cache_get (ld_key d) c of Some f \<Rightarrow> Inr f | None \<Rightarrow> ld_frame d) = Inr f" "load_rights c needed rest (rs @ [(s, f)]) = Inr rs'"
      using Cons.prems(1) x by (auto split: sum.splits)
    have "ld_frame d = Inr f"
    proof (cases "cache_get (ld_key d) c")
      case None
      then show ?thesis using f(1) by simp
    next
      case (Some g)
      then obtain k where k: "ld_key d = Some k" by (auto simp: cache_get_def split: option.splits)
      have "d \<in> snd ` set all" using Cons.prems(2) x by force
      then have l: "k \<in> S" "ld_frame d = Inr (content k)" using ok k by (auto simp: sources_ok_def)
      have "denotes hash operate content S k g" using cache_get_ok [OF c] Some k by simp
      then have "g = content k" using un den_source [OF l(1)] by blast
      then show ?thesis using l(2) f(1) Some by simp
    qed
    then have "\<forall>t. needed t \<longrightarrow> map_of (rs @ [(s, f)]) t = all_rights (seen @ [x]) t"
      using Cons.prems(3) True none by (auto simp: x at map_add_def split: option.splits)
    then show ?thesis using Cons.IH [of "rs @ [(s, f)]" "seen @ [x]"] f(2) Cons.prems(2) by simp
  qed
qed simp

lemma sources_read_of: "set (sources_of (bs_operation st) (bs_params st)) \<subseteq> set (sources_read st)"
proof -
  have "set (case right_source (bs_params st) of None \<Rightarrow> [] | Some a \<Rightarrow> a) \<subseteq> set (sources_read st)"
    by (auto simp: sources_read_def right_source_def split: option.splits json.splits)
  moreover have "set (case union_sources (bs_operation st) (bs_params st) of None \<Rightarrow> [] | Some b \<Rightarrow> b) \<subseteq> set (sources_read st)"
    by (auto simp: sources_read_def union_sources_def list_all_iff split: option.splits json.splits if_splits)
  ultimately show ?thesis by (simp add: sources_of_def)
qed

lemma apply_required:
  assumes loc: "local_operations operate" and i: "i \<in> set ids" and rs: "\<forall>s. s \<in> set (required_sources convert ids) \<longrightarrow> R s = R' s"
  shows "apply_backend_step operate convert R i g = apply_backend_step operate convert R' i g"
proof (cases "convert i")
  case (Inr st)
  have "s \<in> set (required_sources convert ids)" if "s \<in> set (sources_of (bs_operation st) (bs_params st))" for s
    using that sources_read_of [of st] i Inr by (auto simp: required_sources_def converted_def intro!: bexI [of _ i])
  then have "operate (bs_operation st) (bs_params st) R g = operate (bs_operation st) (bs_params st) R' g"
    using rs by (intro local_use [OF loc refl]) blast
  then show ?thesis using Inr by (simp add: apply_backend_step_def)
qed (simp add: apply_backend_step_def)

lemma cached_plan_frames:
  assumes inj: "inj hash" and loc: "local_operations operate" and apart: "source_keys_apart hash S"
    and ok: "sources_ok content S source src rights" and c: "cache_ok (denotes hash operate content S) c"
    and dm: "dm_ok dm" "distinct os" "set os = fst ` set dm" "topo dm os"
    and call: "cached_plan hash streams operate convert blank source rights dm os c = (r, c')"
  shows "cache_ok (denotes hash operate content S) c' \<and>
    (\<forall>f key. r = Inr (f, key) \<longrightarrow>
       (if os = [] then f = src else frame_of (apply_backend_step operate convert (all_rights rights)) src dm [] (last os) f) \<and>
       (\<forall>k. key = Some k \<longrightarrow> denotes hash operate content S k f)) \<and>
    ((\<forall>d \<in> snd ` set rights. \<exists>f. ld_frame d = Inr f) \<and> (\<forall>i \<in> set os. \<exists>f. frame_of (apply_backend_step operate convert (all_rights rights)) src dm [] i f) \<longrightarrow>
     (\<exists>f key. r = Inr (f, key)))"
proof -
  let ?P = "denotes hash operate content S" and ?ap = "apply_backend_step operate convert (all_rights rights)"
  let ?rk = "map (\<lambda>(s, d). (s, ld_key d)) rights"
  define ks where "ks = step_keys hash convert dm (ld_key source) ?rk os (map (\<lambda>(i, _). (i, None)) dm)"
  have un: "g = f" if "?P k g" "?P k f" for k f g by (rule denotes_unique [OF inj loc apart that])
  have rule: "\<forall>i \<in> set os. map_of ks i = Some (key_rule hash convert dm (ld_key source) ?rk ks i)"
    using step_keys_rule [of "[]" os dm "map (\<lambda>(i, _). (i, None)) dm" hash convert "ld_key source" ?rk ks] dm ks_def by simp
  have fstk: "map fst (map (\<lambda>(i, _ :: string option). (i, None :: string option)) dm) = map fst dm" by (simp add: comp_def case_prod_unfold)
  have "set os \<subseteq> fst ` set (map (\<lambda>(i, _ :: string option). (i, None :: string option)) dm)" using dm(3) by force
  from step_keys_fst [OF this] have kfst: "map fst ks = map fst dm" unfolding ks_def fstk .
  have kd: "\<forall>x \<in> set ks. map_of ks (fst x) = Some (snd x)" using kfst dm(1) by (simp add: dm_ok_def)
  have den: "?P k f" if "frame_of ?ap src dm [] i f" "map_of ks i = Some (Some k)" for i f k
    by (rule keys_denote [OF ok loc _ that]) (use rule dm(3) in simp)
  have conv: "frame_of ?ap src dm [] i f" if i: "map_of ks i = Some (Some k)" "?P k f" for i f k
  proof -
    have "i \<in> fst ` set ks" using i(1) by (force dest: map_of_SomeD)
    then have "i \<in> set (take (length os) os)" using kfst dm(3) by (metis list.set_map order_refl take_all)
    then show ?thesis by (intro keys_only_denote [OF ok inj loc apart rule dm(4,3) order_refl _ i]) simp
  qed
  define c2 where "c2 = cache_invalidate ''source'' (ld_key source) (discard_views convert os c)"
  have c2: "cache_ok ?P c2" unfolding c2_def by (intro invalidate_ok discard_views_ok c)
  obtain cached c3 where pr: "probe convert ks c2 [] = (cached, c3)" by fastforce
  have p: "cache_ok ?P c3" "\<forall>i f. (i, f) \<in> set cached \<longrightarrow> (\<exists>k. map_of ks i = Some (Some k) \<and> ?P k f)"
    using probe_ok [OF c2 pr _ kd] by simp_all
  have hits: "frame_of ?ap src dm [] i f" if i: "map_of cached i = Some f" for i f
  proof -
    obtain k where "map_of ks i = Some (Some k)" "?P k f" using p(2) map_of_SomeD [OF i] by blast
    then show ?thesis by (rule conv)
  qed
  let ?hit = "fst ` set cached"
  have "closed_under dm ?hit [] None" by (simp add: closed_under_def)
  then obtain req where req: "required_steps dm ?hit [] (map fst dm) = Inr req" "closed_under dm ?hit req None"
      "\<forall>i \<in> set (map fst dm). dependents dm i = [] \<longrightarrow> i \<in> set req"
    using required_closed [OF dm(1), of ?hit "[]" "map fst dm"] by auto
  let ?need = "os = [] \<or> (\<exists>i \<in> set req. map_of dm i = Some None \<and> i \<notin> ?hit)"
  let ?load = "if ?need then (case cache_get (ld_key source) c3 of Some f \<Rightarrow> Inr f | None \<Rightarrow> ld_frame source) else Inr blank"
  have lf: "?load = Inr (if ?need then src else blank)"
  proof (cases "cache_get (ld_key source) c3")
    case None
    have "ld_frame source = Inr src" using ok by (simp add: sources_ok_def)
    then show ?thesis by (cases ?need) (simp_all only: None if_True if_False option.case)
  next
    case (Some g)
    then obtain k where k: "ld_key source = Some k" by (auto simp: cache_get_def split: option.splits)
    then have l: "k \<in> S" "src = content k" using ok by (fastforce simp: sources_ok_def)+
    have "?P k g" using cache_get_ok [OF p(1)] Some k by simp
    then have "g = src" using un den_source [OF l(1)] l(2) by metis
    then show ?thesis by (cases ?need) (simp_all only: Some if_True if_False option.case)
  qed
  let ?needed = "\<lambda>s. s \<in> set (required_sources convert (filter (\<lambda>i. i \<notin> ?hit) req))"
  have plan: "cached_plan hash streams operate convert blank source rights dm os c =
      (case load_rights c3 ?needed rights [] of
         Inl x \<Rightarrow> (Inl x, c3)
       | Inr rs \<Rightarrow>
           if os = [] then (Inr (if ?need then src else blank, ld_key source), c3)
           else case run_cached streams convert (apply_backend_step operate convert (map_of rs)) (if ?need then src else blank) dm ks req ?hit os cached c3 of
                  (Inl x, c4) \<Rightarrow> (Inl x, c4)
                | (Inr sm, c4) \<Rightarrow>
                    (case map_of sm (last os) of
                       None \<Rightarrow> (Inl (KeyError (last os)), c4)
                     | Some f \<Rightarrow> (Inr (f, Option.bind (map_of ks (last os)) id), c4)))"
    unfolding cached_plan_def Let_def ks_def [symmetric] c2_def [symmetric] pr prod.case req(1) sum.case lf ..
  show ?thesis
  proof (cases "load_rights c3 ?needed rights []")
    case (Inl x)
    then have "(Inl x, c3) = (r, c')" using call unfolding plan by (simp only: sum.case)
    moreover have "\<not> (\<forall>d \<in> snd ` set rights. \<exists>f. ld_frame d = Inr f)" using load_rights_fails [OF Inl] by fastforce
    ultimately show ?thesis using p(1) by auto
  next
    case (Inr rs)
    note loaded = Inr
    have rs: "\<forall>s. ?needed s \<longrightarrow> map_of rs s = all_rights rights s"
      by (rule load_rights_facts [where seen = "[]", OF p(1) ok un Inr]) (simp_all add: all_rights_def)
    have same: "apply_backend_step operate convert (map_of rs) i g = ?ap i g" if "i \<in> set req" "i \<notin> ?hit" for i g
      by (rule apply_required [OF loc _ rs]) (use that in simp)
    show ?thesis
    proof (cases "os = []")
      case True
      then have r: "r = Inr (src, ld_key source)" "c' = c3" using call Inr unfolding plan by simp_all
      have "?P k src" if "ld_key source = Some k" for k
        using ok that den_source [of k S] by (fastforce simp: sources_ok_def)
      then show ?thesis using True r p(1) by auto
    next
      case False
      obtain r1 c4 where run: "run_cached streams convert (apply_backend_step operate convert (map_of rs)) (if ?need then src else blank) dm ks req ?hit os cached c3 = (r1, c4)"
        by fastforce
      have "cache_ok ?P c4 \<and> (\<forall>sm'. r1 = Inr sm' \<longrightarrow> (\<forall>i f. map_of sm' i = Some f \<longrightarrow> frame_of ?ap src dm [] i f) \<and>
          (\<forall>i. i \<in> ?hit \<or> i \<in> set req \<and> i \<in> set ([] @ os) \<longrightarrow> map_of sm' i \<noteq> None)) \<and> (\<forall>x. r1 = Inl x \<longrightarrow> (\<exists>i \<in> set ([] @ os). \<forall>f. \<not> frame_of ?ap src dm [] i f))"
        by (rule run_cached_frames [OF dm(1) req(2) _ same den un _ _ _ _ _ p(1) run])
          (use dm hits in \<open>auto simp: map_of_eq_None_iff\<close>)
      then have res: "cache_ok ?P c4" "\<And>sm' i f. r1 = Inr sm' \<Longrightarrow> map_of sm' i = Some f \<Longrightarrow> frame_of ?ap src dm [] i f"
          "\<And>x. r1 = Inl x \<Longrightarrow> \<not> (\<forall>i \<in> set os. \<exists>f. frame_of ?ap src dm [] i f)"
          "\<And>sm'. r1 = Inr sm' \<Longrightarrow> last os \<in> set req \<Longrightarrow> map_of sm' (last os) \<noteq> None" using False by auto
      show ?thesis
      proof (cases r1)
        case (Inl x)
        then have "(Inl x, c4) = (r, c')" using call run False loaded unfolding plan by (simp only: sum.case prod.case if_False)
        then show ?thesis using res(1) res(3) [OF Inl] by auto
      next
        case (Inr sm)
        show ?thesis
        proof (cases "map_of sm (last os)")
          case None
          have "last os \<in> set req" using req(3) last_step_leaf [OF dm False] dm(3) False by (metis last_in_set list.set_map)
          then show ?thesis using res(4) [OF Inr] None by simp
        next
          case (Some f)
          then have fr: "frame_of ?ap src dm [] (last os) f" using res(2) [OF Inr] by blast
          have "(Inr (f, Option.bind (map_of ks (last os)) id), c4) = (r, c')"
            using call run False Inr Some loaded unfolding plan by (simp only: sum.case prod.case if_False option.case)
          then have "r = Inr (f, Option.bind (map_of ks (last os)) id)" "c' = c4" by simp_all
          moreover have "?P k f" if "Option.bind (map_of ks (last os)) id = Some k" for k
            using that den [OF fr] by (auto simp: bind_eq_Some_conv)
          ultimately show ?thesis using fr res(1) False by auto
        qed
      qed
    qed
  qed
qed

subsection \<open>The page of a preview\<close>

lemma all_required:
  assumes dm: "dm_ok dm" "distinct os" "set os = fst ` set dm" "topo dm os"
    and req: "closed_under dm {} req None" "\<forall>i \<in> set (map fst dm). dependents dm i = [] \<longrightarrow> i \<in> set req"
  shows "k < length os \<Longrightarrow> os ! k \<in> set req"
proof (induction "length os - k" arbitrary: k rule: less_induct)
  case less
  have mem: "os ! k \<in> set (map fst dm)" using less.prems dm(3) nth_mem [of k os] by simp
  show ?case
  proof (cases "dependents dm (os ! k) = []")
    case True
    then show ?thesis using req(2) mem by blast
  next
    case False
    then obtain j where j: "map_of dm j = Some (Some (os ! k))"
      using dependents_iff [of dm _ "os ! k"] dm(1) by (fastforce simp: dm_ok_def neq_Nil_conv)
    then have "j \<in> set os" using dm(3) by (force dest: map_of_SomeD)
    then obtain n where n: "n < length os" "os ! n = j" by (auto simp: in_set_conv_nth)
    then have "os ! k \<in> set (take n os)" using dm(4) j by (auto simp: topo_def before_def)
    then obtain m where m: "m < n" "os ! m = os ! k" using n(1) by (auto simp: in_set_conv_nth)
    then have "m = k" using nth_eq_iff_index_eq [OF dm(2), of m k] n(1) less.prems by simp
    then have "j \<in> set req" using less.hyps [of n] m(1) n by simp
    then show ?thesis using req(1) j by (auto simp: closed_under_def)
  qed
qed

lemma uncached_frames:
  fixes ap :: "string \<Rightarrow> 'f \<Rightarrow> 'f result"
  assumes plan: "plan_steps steps = Inr (dm, os)" and run: "build_pipeline ap src blank [] steps = Inr g"
  shows "\<forall>i \<in> set os. \<exists>f. frame_of ap src dm [] i f" "if os = [] then g = src else frame_of ap src dm [] (last os) g"
proof -
  note p = plan_steps_facts [OF plan]
  have "closed_under dm {} [] None" by (simp add: closed_under_def)
  then obtain req where req: "required_steps dm {} [] (map fst dm) = Inr req" "closed_under dm {} req None"
      "\<forall>i \<in> set (map fst dm). dependents dm i = [] \<longrightarrow> i \<in> set req"
    using required_closed [of dm "{}" "[]" "map fst dm"] p by auto
  have every: "i \<in> set req" if "i \<in> set os" for i
    using all_required [OF _ _ _ _ req(2,3)] p that by (metis in_set_conv_nth)
  let ?need = "os = [] \<or> (\<exists>i \<in> set req. map_of dm i = Some None \<and> i \<notin> {})"
  let ?lf = "if ?need then src else blank"
  have steps: "(if os = [] then Inr ?lf else and_then (run_steps ap ?lf dm req {} os [])
      (\<lambda>sm. case map_of sm (last os) of None \<Rightarrow> Inl (KeyError (last os)) | Some f \<Rightarrow> Inr f)) = Inr g"
    using run by (simp only: build_pipeline_def plan run_plan_def req(1) Let_def and_then_simps prod.case list.set image_empty)
  have "(\<forall>i \<in> set os. \<exists>f. frame_of ap src dm [] i f) \<and> (if os = [] then g = src else frame_of ap src dm [] (last os) g)"
  proof (cases "os = []")
    case False
    then obtain sm where sm: "run_steps ap ?lf dm req {} os [] = Inr sm" "map_of sm (last os) = Some g"
      using steps by (auto elim!: and_then_okE split: option.splits)
    let ?nil = "[] :: (string \<times> 'f) list"
    have "(\<exists>i h x. ap i h = Inl x \<and> run_steps ap ?lf dm req (fst ` set ?nil) os [] = Inl x) \<or>
      (\<exists>sm'. run_steps ap ?lf dm req (fst ` set ?nil) os [] = Inr sm' \<and> (\<forall>i f. map_of sm' i = Some f \<longrightarrow> frame_of ap src dm [] i f) \<and>
         (\<forall>i. i \<in> fst ` set ?nil \<or> i \<in> set req \<and> i \<in> set ([] @ os) \<longrightarrow> map_of sm' i \<noteq> None))"
      by (rule run_steps_frames [where pre = "[]" and cached = "[]"]) (use p req(2) in auto)
    then have sm': "\<forall>i f. map_of sm i = Some f \<longrightarrow> frame_of ap src dm [] i f" "\<forall>i \<in> set os. map_of sm i \<noteq> None"
      using sm(1) every by auto
    then show ?thesis using sm(2) False by (simp add: not_None_eq) blast
  qed (use steps in simp)
  then show "\<forall>i \<in> set os. \<exists>f. frame_of ap src dm [] i f" "if os = [] then g = src else frame_of ap src dm [] (last os) g" by blast+
qed

text \<open>C5: the preview cache never changes what a preview shows. Whatever was previewed before with the same cache, if
  the pipeline without a cache computes a frame then the preview returns the page of exactly that frame,
  whichever steps were taken from the cache, and the cache afterwards still holds only frames that
  their keys stand for and that some step owns. This rests on SHA-256 being injective on the hashed texts,
  on datasource keys that stand for one content, and on operations that depend only on their
  parameters, their input and the sources they name.\<close>

theorem cached_preview_exact:
  assumes "inj hash" and "local_operations operate" and "source_keys_apart hash S"
    and "sources_ok content S source src rights" and "\<forall>d \<in> snd ` set rights. \<exists>f. ld_frame d = Inr f"
    and "cache_ok (denotes hash operate content S) c"
    and "build_pipeline (apply_backend_step operate convert (all_rights rights)) src blank [] steps = Inr f"
  shows "\<exists>c'. execute_preview hash streams operate convert blank chart slice source rights steps offset limit c =
      (map_sum id (\<lambda>page. case page of None \<Rightarrow> slice offset limit f | Some p \<Rightarrow> p) (chart f), c') \<and>
    cache_ok (denotes hash operate content S) c'"
proof -
  obtain dm os where plan: "plan_steps steps = Inr (dm, os)" using assms(7) by (auto simp: build_pipeline_def elim!: and_then_okE)
  then have p: "dm_ok dm" "distinct os" "set os = fst ` set dm" "topo dm os" using plan_steps_facts by blast+
  let ?P = "denotes hash operate content S"
  note ref = uncached_frames [OF plan assms(7)]
  obtain r c1 where call: "cached_plan hash streams operate convert blank source rights dm os c = (r, c1)" by fastforce
  note facts = cached_plan_frames [OF assms(1-4,6) p call]
  obtain g key where r: "r = Inr (g, key)" using facts assms(5) ref(1) by blast
  have "g = f" using facts ref(2) r frame_of_unique by (metis (full_types))
  then have key: "?P k f" if "key = Some k" for k using facts r that by blast
  have build: "build_pipeline_cached hash streams operate convert blank source rights steps c = (Inr (f, key), c1)"
    using call r \<open>g = f\<close> by (simp add: build_pipeline_cached_def plan)
  have c1: "cache_ok ?P c1" using facts by blast
  obtain page c2 where col: "cache_collect streams slice (page_key steps key) f offset limit (Some (page_owner steps)) c1 = (page, c2)" by fastforce
  have pk: "?P k f" if "page_key steps key = Some k" for k
    using that key by (auto simp: page_key_def split: option.splits if_splits)
  have un: "h = f" if "?P k h" "?P k f" for k h by (rule denotes_unique [OF assms(1-3) that])
  have "page = slice offset limit f" "cache_ok ?P c2" by (rule collect_ok [OF c1 pk un col]; assumption)+
  then show ?thesis using build col c1 by (auto simp: execute_preview_def split: sum.splits option.splits)
qed

text \<open>Two filters on a datasource whose frame is in the cache, with a joined datasource that has no key.\<close>

instance json :: countable
  by countable_datatype

definition sample_hash :: "json \<Rightarrow> string" where
  "sample_hash j = replicate (to_nat j) CHR ''x''"

lemma sample_hash_inj: "inj sample_hash"
  by (rule injI) (auto simp: sample_hash_def dest: arg_cong [of _ _ length])

definition sample_operate :: "string \<Rightarrow> payload \<Rightarrow> (string \<Rightarrow> string option) \<Rightarrow> string \<Rightarrow> string result" where
  "sample_operate operation p R f = Inr (f @ operation)"

definition sample_convert :: "string \<Rightarrow> backend_step result" where
  "sample_convert i = Inr \<lparr>bs_operation = ''filter'', bs_params = [(''column'', JStr i)]\<rparr>"

definition sample_source :: "string loaded" where
  "sample_source = \<lparr>ld_key = Some ''k'', ld_frame = Inr ''src''\<rparr>"

definition sample_rights :: "(string \<times> string loaded) list" where
  "sample_rights = [(''r'', \<lparr>ld_key = None, ld_frame = Inr ''right''\<rparr>)]"

definition sample_cache :: "string preview_cache" where
  "sample_cache = \<lparr>pc_frames = [(''k'', ''src'')], pc_owners = [(''source'', ''k'')]\<rparr>"

lemma sample_keys_apart: "source_keys_apart sample_hash {''k''}"
proof -
  have "replicate n CHR ''x'' \<noteq> ''k''" for n by (cases n) auto
  then show ?thesis by (simp add: source_keys_apart_def canonical_hash_def sample_hash_def)
qed

lemma sample_cache_ok: "cache_ok (denotes sample_hash sample_operate (\<lambda>_. ''src'') {''k''}) sample_cache"
  using den_source [of "''k''" "{''k''}" sample_hash sample_operate "\<lambda>_. ''src''"] by (simp add: cache_ok_def sample_cache_def)

lemma sample_uncached:
  "build_pipeline (apply_backend_step sample_operate sample_convert (all_rights sample_rights)) ''src'' [] [] sample_steps = Inr ''srcfilterfilter''"
  by code_simp

theorem cached_preview_exact_witness:
  "\<exists>c'. execute_preview sample_hash (\<lambda>_. True) sample_operate sample_convert [] (\<lambda>_. Inr None) (\<lambda>offset limit f. take (nat limit) (drop (nat offset) f))
       sample_source sample_rights sample_steps 3 6 sample_cache = (Inr ''filter'', c') \<and>
     cache_ok (denotes sample_hash sample_operate (\<lambda>_. ''src'') {''k''}) c'"
proof -
  have "local_operations sample_operate" by (simp add: local_operations_def sample_operate_def)
  moreover have "sources_ok (\<lambda>_. ''src'') {''k''} sample_source ''src'' sample_rights"
    by (simp add: sources_ok_def sample_source_def sample_rights_def)
  moreover have "\<forall>d \<in> snd ` set sample_rights. \<exists>f. ld_frame d = Inr f" by (simp add: sample_rights_def)
  ultimately show ?thesis
    using cached_preview_exact [OF sample_hash_inj _ sample_keys_apart _ _ sample_cache_ok sample_uncached, of sample_source "\<lambda>_. True" "\<lambda>_. Inr None"
        "\<lambda>offset limit f. take (nat limit) (drop (nat offset) f)" 3 6] by simp
qed

end
