(* ===== verification/Docker_Hosts.thy ===== *)
theory Docker_Hosts
  imports Urls "HOL-Library.List_Lexorder" "HOL-Library.Char_ord" "HOL-Library.AList"
begin

text \<open>
  The Docker hosts on which engines are placed: configuration, health and least-loaded placement
  (\<open>worker/runtime/docker_hosts.py\<close>), and of \<open>worker/runtime/docker_compute_worker.py\<close> the launch with failover, the check at
  startup, the sweep of orphaned containers and the resources of a container. What a Docker daemon answers
  is an argument. The time \<open>now\<close> is an integer; a load is a fraction that is compared exactly.
\<close>

subsection \<open>Configuration\<close>

record host_spec =
  hs_name :: string
  hs_docker_host :: string
  hs_connect_host :: string
  hs_network :: string
  hs_endpoint :: string
  hs_max_workers :: int
  hs_tls_cert_path :: string

definition HOST_FIELDS :: "string list" where
  "HOST_FIELDS = [''name'', ''docker_host'', ''connect_host'', ''compute_worker_network'', ''object_store_endpoint'', ''max_workers'', ''tls_cert_path'']"

definition LOCAL_SCHEMES :: "string list" where
  "LOCAL_SCHEMES = [''unix://'', ''npipe://'', ''http+unix://'']"

definition SUPPORTED_SCHEMES :: "string list" where
  "SUPPORTED_SCHEMES = LOCAL_SCHEMES @ [''tcp://'', ''ssh://'', ''http://'', ''https://'']"

definition DEFAULT_HOST_NAME :: string where
  "DEFAULT_HOST_NAME = ''local''"

definition is_local :: "host_spec \<Rightarrow> bool" where
  "is_local h \<longleftrightarrow> list_ex (starts_with (hs_docker_host h)) LOCAL_SCHEMES"

definition uses_published_ports :: "host_spec \<Rightarrow> bool" where
  "uses_published_ports h \<longleftrightarrow> hs_connect_host h \<noteq> []"

definition enforces_cpu_quota :: "host_spec \<Rightarrow> bool" where
  "enforces_cpu_quota h \<longleftrightarrow> \<not> (is_local h \<and> uses_published_ports h)"

definition host_name_start :: "char \<Rightarrow> bool" where
  "host_name_start c \<longleftrightarrow> CHR ''a'' \<le> c \<and> c \<le> CHR ''z'' \<or> CHR ''0'' \<le> c \<and> c \<le> CHR ''9''"

definition host_name_ok :: "string \<Rightarrow> bool" where
  "host_name_ok s \<longleftrightarrow>
     (case s of [] \<Rightarrow> False | c # cs \<Rightarrow> host_name_start c \<and> length cs \<le> 62 \<and> list_all (\<lambda>x. host_name_start x \<or> x \<in> set ''_.-'') cs)"

definition HOSTS_VAR :: string where
  "HOSTS_VAR = ''COMPUTE_WORKER_DOCKER_HOSTS''"

definition quoted :: "string \<Rightarrow> string" where
  "quoted s = CHR 0x27 # s @ [CHR 0x27]"

definition read_str :: "payload \<Rightarrow> string \<Rightarrow> string \<Rightarrow> string result" where
  "read_str entry key dflt =
     (case map_of entry key of
        None \<Rightarrow> Inr (py_strip dflt)
      | Some JNull \<Rightarrow> Inr dflt
      | Some (JStr s) \<Rightarrow> Inr (py_strip s)
      | Some _ \<Rightarrow> Inl (ValueError (HOSTS_VAR @ '' entry field '' @ quoted key @ '' must be a string'')))"

text \<open>The single-host settings.\<close>

record host_defaults =
  hd_docker_host :: string
  hd_connect_host :: string
  hd_network :: string
  hd_endpoint :: string

definition or_default :: "string \<Rightarrow> string \<Rightarrow> string" where
  "or_default s d = (if s = [] then d else s)"

definition read_max_workers :: "string \<Rightarrow> payload \<Rightarrow> int result" where
  "read_max_workers label entry =
     (case map_of entry ''max_workers'' of
        None \<Rightarrow> Inr 0
      | Some (JInt n) \<Rightarrow> if n < 0 then Inl (ValueError (label @ '' max_workers must be a non-negative integer'')) else Inr n
      | Some _ \<Rightarrow> Inl (ValueError (label @ '' max_workers must be a non-negative integer'')))"

definition parse_entry :: "host_defaults \<Rightarrow> nat \<Rightarrow> nat \<Rightarrow> string list \<Rightarrow> payload \<Rightarrow> host_spec result" where
  "parse_entry d number index seen entry =
     (let at = HOSTS_VAR @ ''['' @ show_nat index @ '']'';
          unknown = sort (remdups (filter (\<lambda>k. k \<notin> set HOST_FIELDS) (map fst entry)))
      in if unknown \<noteq> [] then Inl (ValueError (at @ '' has unknown fields: '' @ join_with '', '' unknown))
         else and_then (read_str entry ''name'' (if number = 1 then DEFAULT_HOST_NAME else [])) (\<lambda>name.
           if \<not> host_name_ok name then Inl (ValueError (at @ '' needs a name matching ^[a-z0-9][a-z0-9_.-]{0,62}$''))
           else if name \<in> set seen then Inl (ValueError (HOSTS_VAR @ '' has duplicate host name '' @ quoted name))
           else and_then (read_str entry ''docker_host'' []) (\<lambda>dh.
             let docker_host = or_default dh (hd_docker_host d); label = HOSTS_VAR @ ''['' @ name @ '']''
             in if \<not> list_ex (starts_with docker_host) SUPPORTED_SCHEMES
                then Inl (ValueError (label @ '' docker_host must start with one of '' @ join_with '', '' SUPPORTED_SCHEMES))
                else and_then (read_max_workers label entry) (\<lambda>mw.
                  and_then (read_str entry ''connect_host'' (hd_connect_host d)) (\<lambda>ch.
                  and_then (read_str entry ''compute_worker_network'' []) (\<lambda>nw.
                  and_then (read_str entry ''object_store_endpoint'' []) (\<lambda>ep.
                  and_then (read_str entry ''tls_cert_path'' []) (\<lambda>tls.
                    let spec = \<lparr>hs_name = name, hs_docker_host = docker_host, hs_connect_host = ch, hs_network = or_default nw (hd_network d),
                                hs_endpoint = or_default ep (hd_endpoint d), hs_max_workers = mw, hs_tls_cert_path = tls\<rparr>
                    in if \<not> is_local spec \<and> ch = [] then Inl (ValueError (label @ '' is remote and needs connect_host; compute workers publish an RPC port there and the manager dials that address''))
                       else if tls \<noteq> [] \<and> \<not> list_ex (starts_with docker_host) [''tcp://'', ''https://'']
                       then Inl (ValueError (label @ '' tls_cert_path only applies to tcp:// daemons''))
                       else Inr spec))))))))"

fun parse_entries :: "host_defaults \<Rightarrow> nat \<Rightarrow> nat \<Rightarrow> string list \<Rightarrow> json list \<Rightarrow> host_spec list result" where
  "parse_entries d number index seen [] = Inr []"
| "parse_entries d number index seen (v # vs) =
     (case v of
        JObj entry \<Rightarrow>
          and_then (parse_entry d number index seen entry) (\<lambda>spec.
          and_then (parse_entries d number (Suc index) (hs_name spec # seen) vs) (\<lambda>rest. Inr (spec # rest)))
      | _ \<Rightarrow> Inl (ValueError (HOSTS_VAR @ ''['' @ show_nat index @ ''] must be an object'')))"

text \<open>\<open>loads\<close> is \<open>json.loads\<close>; the text of its error is left out of the message.\<close>

definition parse_docker_hosts :: "(string \<Rightarrow> json option) \<Rightarrow> host_defaults \<Rightarrow> string \<Rightarrow> host_spec list result" where
  "parse_docker_hosts loads d raw =
     (if py_strip raw = []
      then Inr [\<lparr>hs_name = DEFAULT_HOST_NAME, hs_docker_host = hd_docker_host d, hs_connect_host = hd_connect_host d, hs_network = hd_network d,
                 hs_endpoint = hd_endpoint d, hs_max_workers = 0, hs_tls_cert_path = []\<rparr>]
      else case loads (py_strip raw) of
             None \<Rightarrow> Inl (ValueError (HOSTS_VAR @ '' must be a JSON list''))
           | Some (JList (v # vs)) \<Rightarrow> parse_entries d (length (v # vs)) 0 [] (v # vs)
           | Some _ \<Rightarrow> Inl (ValueError (HOSTS_VAR @ '' must be a non-empty JSON list of host objects'')))"

subsection \<open>The registry\<close>

record host_state =
  ho_spec :: host_spec
  ho_healthy :: bool
  ho_unavailable_until :: int
  ho_last_error :: "string option"
  ho_checked_at :: "int option"
  ho_cpu_count :: "int option"
  ho_image_id :: "string option"
  ho_image_ref :: "string option"
  ho_placements :: "string list"

record host_registry =
  rg_states :: "(string \<times> host_state) list"
  rg_image :: string
  rg_cooldown :: int

definition new_host_state :: "host_spec \<Rightarrow> host_state" where
  "new_host_state spec =
     \<lparr>ho_spec = spec, ho_healthy = False, ho_unavailable_until = 0, ho_last_error = None, ho_checked_at = None, ho_cpu_count = None,
      ho_image_id = None, ho_image_ref = None, ho_placements = []\<rparr>"

definition new_host_registry :: "host_spec list \<Rightarrow> string \<Rightarrow> int \<Rightarrow> host_registry result" where
  "new_host_registry specs img cooldown =
     (if specs = [] then Inl (ValueError ''At least one Docker host is required'')
      else Inr \<lparr>rg_states = fold (\<lambda>spec. AList.update (hs_name spec) (new_host_state spec)) specs [], rg_image = img, rg_cooldown = cooldown\<rparr>)"

definition registry_hosts :: "host_registry \<Rightarrow> host_spec list" where
  "registry_hosts r = map (ho_spec \<circ> snd) (rg_states r)"

definition on_host :: "string \<Rightarrow> (host_state \<Rightarrow> host_state) \<Rightarrow> host_registry \<Rightarrow> host_registry" where
  "on_host name f r = r\<lparr>rg_states := map (\<lambda>(n, s). (n, if n = name then f s else s)) (rg_states r)\<rparr>"

text \<open>What a daemon answers: to the connection and ping, to \<open>info\<close> with its \<open>NCPU\<close> if that is an integer, to the
  lookups of the image and of the network.\<close>

record daemon_reply =
  dr_ping :: "unit result"
  dr_info :: "int option result"
  dr_image :: "string result"
  dr_network :: "unit result"

definition context_of :: "string \<Rightarrow> daemon_reply \<Rightarrow> host_state \<Rightarrow> (int \<times> string) result" where
  "context_of img d s =
     and_then (case ho_cpu_count s of
         Some n \<Rightarrow> Inr n
       | None \<Rightarrow> and_then (dr_info d) (\<lambda>n. Inr (case n of Some k \<Rightarrow> if 0 < k then k else 0 | None \<Rightarrow> 0))) (\<lambda>cpus.
     and_then (if ho_image_ref s = Some img \<and> truthy (ho_image_id s) then Inr (the (ho_image_id s)) else dr_image d) (\<lambda>i.
     and_then (dr_network d) (\<lambda>_. Inr (cpus, i))))"

definition store_context :: "string \<Rightarrow> int \<Rightarrow> string \<Rightarrow> host_state \<Rightarrow> host_state" where
  "store_context img cpus i s = s\<lparr>ho_cpu_count := Some cpus, ho_image_ref := Some img, ho_image_id := Some i\<rparr>"

definition launch_context :: "string \<Rightarrow> daemon_reply \<Rightarrow> host_registry \<Rightarrow> (int option \<times> string) result \<times> host_registry" where
  "launch_context name d r =
     (case map_of (rg_states r) name of
        None \<Rightarrow> (Inl (KeyError name), r)
      | Some s \<Rightarrow>
          (case context_of (rg_image r) d s of
             Inl x \<Rightarrow> (Inl x, r)
           | Inr (cpus, i) \<Rightarrow> (Inr (if cpus = 0 then None else Some cpus, i), on_host name (store_context (rg_image r) cpus i) r)))"

definition record_failure :: "int \<Rightarrow> string \<Rightarrow> string \<Rightarrow> host_registry \<Rightarrow> host_registry" where
  "record_failure now name message r =
     on_host name (\<lambda>s. s\<lparr>ho_healthy := False, ho_last_error := Some message, ho_checked_at := Some now,
                         ho_unavailable_until := now + rg_cooldown r\<rparr>) r"

definition mark_ready :: "int \<Rightarrow> string \<Rightarrow> host_registry \<Rightarrow> host_registry" where
  "mark_ready now name r =
     on_host name (\<lambda>s. s\<lparr>ho_healthy := True, ho_last_error := None, ho_checked_at := Some now, ho_unavailable_until := 0\<rparr>) r"

definition error_text :: "py_error \<Rightarrow> string" where
  "error_text x = (case x of ValueError s \<Rightarrow> ''ValueError: '' @ s | RuntimeError s \<Rightarrow> ''RuntimeError: '' @ s | KeyError s \<Rightarrow> ''KeyError: '' @ s
     | FlightLockBusy s \<Rightarrow> s | StorageCleanupConflict s \<Rightarrow> s | AppError c s \<Rightarrow> c @ '': '' @ s)"

definition probe_host :: "int \<Rightarrow> string \<Rightarrow> daemon_reply \<Rightarrow> host_registry \<Rightarrow> bool \<times> host_registry" where
  "probe_host now name d r =
     (case (case dr_ping d of Inl x \<Rightarrow> (Inl x, r) | Inr _ \<Rightarrow> launch_context name d r) of
        (Inl x, r') \<Rightarrow> (False, record_failure now name (error_text x) r')
      | (Inr _, r') \<Rightarrow> (True, mark_ready now name r'))"

fun probe_hosts :: "int \<Rightarrow> (string \<Rightarrow> daemon_reply) \<Rightarrow> string list \<Rightarrow> host_registry \<Rightarrow> (string \<times> bool) list \<times> host_registry" where
  "probe_hosts now daemons [] r = ([], r)"
| "probe_hosts now daemons (n # ns) r =
     (case probe_host now n (daemons n) r of (ok, r1) \<Rightarrow> (case probe_hosts now daemons ns r1 of (oks, r2) \<Rightarrow> ((n, ok) # oks, r2)))"

definition probe_all :: "int \<Rightarrow> (string \<Rightarrow> daemon_reply) \<Rightarrow> host_registry \<Rightarrow> (string \<times> bool) list \<times> host_registry" where
  "probe_all now daemons r = probe_hosts now daemons (map hs_name (registry_hosts r)) r"

definition record_placement :: "string \<Rightarrow> string \<Rightarrow> host_registry \<Rightarrow> host_registry" where
  "record_placement name cid r = on_host name (\<lambda>s. s\<lparr>ho_placements := List.insert cid (ho_placements s)\<rparr>) r"

definition release_placement :: "string \<Rightarrow> string \<Rightarrow> host_registry \<Rightarrow> host_registry" where
  "release_placement name cid r = on_host name (\<lambda>s. s\<lparr>ho_placements := removeAll cid (ho_placements s)\<rparr>) r"

definition host_eligible :: "int \<Rightarrow> string list \<Rightarrow> host_state \<Rightarrow> bool" where
  "host_eligible now excluded s \<longleftrightarrow>
     hs_name (ho_spec s) \<notin> set excluded \<and> \<not> (\<not> ho_healthy s \<or> now < ho_unavailable_until s) \<and>
     \<not> (hs_max_workers (ho_spec s) \<noteq> 0 \<and> hs_max_workers (ho_spec s) \<le> int (length (ho_placements s)))"

definition host_cpus :: "host_state \<Rightarrow> int" where
  "host_cpus s = max (case ho_cpu_count s of None \<Rightarrow> 1 | Some n \<Rightarrow> if n = 0 then 1 else n) 1"

text \<open>The order of the scores: placements per CPU, then placements.\<close>

definition less_loaded :: "host_state \<Rightarrow> host_state \<Rightarrow> bool" where
  "less_loaded a b \<longleftrightarrow>
     (let p = int (length (ho_placements a)); q = int (length (ho_placements b))
      in p * host_cpus b < q * host_cpus a \<or> p * host_cpus b = q * host_cpus a \<and> p < q)"

text \<open>\<open>min\<close> keeps the first of equal candidates.\<close>

definition least_loaded :: "host_state \<Rightarrow> host_state list \<Rightarrow> host_state" where
  "least_loaded s ss = fold (\<lambda>x best. if less_loaded x best then x else best) ss s"

definition describe_ineligible :: "int \<Rightarrow> string list \<Rightarrow> host_registry \<Rightarrow> string" where
  "describe_ineligible now excluded r =
     join_with '', '' (map (\<lambda>(_, s). hs_name (ho_spec s) @ ''='' @
       (if hs_name (ho_spec s) \<in> set excluded then ''excluded''
        else if \<not> ho_healthy s \<or> now < ho_unavailable_until s then ''unhealthy'' else ''full'')) (rg_states r))"

definition select_host :: "int \<Rightarrow> string list \<Rightarrow> host_registry \<Rightarrow> host_spec result" where
  "select_host now excluded r =
     (case filter (host_eligible now excluded) (map snd (rg_states r)) of
        [] \<Rightarrow> Inl (RuntimeError (''No Docker host can accept a compute container ('' @ describe_ineligible now excluded r @ '')''))
      | s # ss \<Rightarrow> Inr (ho_spec (least_loaded s ss)))"

record host_status =
  st_name :: string
  st_healthy :: bool
  st_placements :: nat
  st_cpu_count :: "int option"
  st_max_workers :: int
  st_last_error :: "string option"
  st_checked_at :: "int option"

definition registry_snapshot :: "int \<Rightarrow> host_registry \<Rightarrow> host_status list" where
  "registry_snapshot now r =
     map (\<lambda>(_, s). \<lparr>st_name = hs_name (ho_spec s), st_healthy = (ho_healthy s \<and> ho_unavailable_until s \<le> now), st_placements = length (ho_placements s),
                     st_cpu_count = ho_cpu_count s, st_max_workers = hs_max_workers (ho_spec s), st_last_error = ho_last_error s,
                     st_checked_at = ho_checked_at s\<rparr>) (rg_states r)"

definition placement_capacity :: "host_registry \<Rightarrow> int option" where
  "placement_capacity r =
     (if list_ex (\<lambda>h. hs_max_workers h = 0) (registry_hosts r) then None else Some (sum_list (map hs_max_workers (registry_hosts r))))"

text \<open>The check before the worker registers.\<close>

definition validate_readiness :: "int \<Rightarrow> int \<Rightarrow> (string \<Rightarrow> daemon_reply) \<Rightarrow> host_registry \<Rightarrow> unit result \<times> host_registry" where
  "validate_readiness now workers daemons r =
     (case probe_all now daemons r of (oks, r') \<Rightarrow>
        if \<not> list_ex snd oks
        then (Inl (RuntimeError (''No Docker host is available for compute workers ('' @
                join_with ''; '' (map (\<lambda>st. st_name st @ '': '' @ (case st_last_error st of None \<Rightarrow> ''None'' | Some e \<Rightarrow> e))
                  (filter (\<lambda>st. \<not> st_healthy st) (registry_snapshot now r'))) @ '')'')), r')
        else case placement_capacity r' of
               Some cap \<Rightarrow>
                 if cap < workers
                 then (Inl (RuntimeError (''COMPUTE_WORKERS='' @ show_int workers @ '' exceeds the summed max_workers='' @ show_int cap @
                         '' of COMPUTE_WORKER_DOCKER_HOSTS; raise the host caps (or leave one host uncapped) or lower COMPUTE_WORKERS'')), r')
                 else (Inr (), r')
             | None \<Rightarrow> (Inr (), r'))"

subsection \<open>Launching a container\<close>

text \<open>How a launch on a host ends: with a container, with a failure of the host, or with another error. A
  failure may come after the container was created; it is then removed again or left for the sweep.\<close>

datatype left_behind = Nothing_Created | Removed string | Left string

datatype launch_outcome =
    Launched string
  | Host_Failed string left_behind
  | Request_Failed py_error left_behind

definition settle_placement :: "string \<Rightarrow> left_behind \<Rightarrow> host_registry \<Rightarrow> host_registry" where
  "settle_placement name b r =
     (case b of
        Nothing_Created \<Rightarrow> r
      | Removed cid \<Rightarrow> release_placement name cid (record_placement name cid r)
      | Left cid \<Rightarrow> record_placement name cid r)"

text \<open>A round of the failover loop: what other threads do before the host is selected and while the container is
  created, the times, and the outcome of the launch.\<close>

record launch_round =
  lr_before :: "host_registry \<Rightarrow> host_registry"
  lr_now :: int
  lr_during :: "host_registry \<Rightarrow> host_registry"
  lr_outcome :: "host_spec \<Rightarrow> launch_outcome"
  lr_failed_at :: int

fun launch_with_failover ::
  "launch_round list \<Rightarrow> string list \<Rightarrow> (string \<times> string) option \<Rightarrow> host_registry \<Rightarrow> ((string \<times> string) result \<times> host_registry) option" where
  "launch_with_failover [] attempted last_failure r = None"
| "launch_with_failover (l # ls) attempted last_failure r =
     (let r1 = lr_before l r
      in case select_host (lr_now l) attempted r1 of
           Inl x \<Rightarrow>
             Some (Inl (case last_failure of
                          None \<Rightarrow> x
                        | Some (h, m) \<Rightarrow> RuntimeError (''Compute worker launch failed on every eligible Docker host; last host '' @ h @ '': '' @ m)), r1)
         | Inr host \<Rightarrow>
             let name = hs_name host; r2 = lr_during l r1
             in case lr_outcome l host of
                  Launched cid \<Rightarrow> Some (Inr (name, cid), record_placement name cid r2)
                | Request_Failed x b \<Rightarrow> Some (Inl x, settle_placement name b r2)
                | Host_Failed m b \<Rightarrow>
                    launch_with_failover ls (name # attempted) (Some (name, m)) (record_failure (lr_failed_at l) name m (settle_placement name b r2)))"

text \<open>A listener that never became ready is a failure of the host unless the container is seen to have exited.\<close>

definition is_host_failure :: "string \<Rightarrow> bool" where
  "is_host_failure container_status \<longleftrightarrow> container_status \<in> {''running'', ''unknown''}"

subsection \<open>The sweep of orphaned containers\<close>

record container =
  ct_id :: string
  ct_labels :: "(string \<times> string) list"
  ct_state :: string

record sweep =
  sw_generation :: "int option"
  sw_remove_running :: bool
  sw_keep :: "string list"
  sw_grace :: int

definition GENERATION_LABEL :: string where
  "GENERATION_LABEL = ''io.dataforge.coordinator-generation''"

definition ct_running :: "container \<Rightarrow> bool" where
  "ct_running ct \<longleftrightarrow> ct_state ct \<notin> {''dead'', ''exited''}"

definition stale_generation :: "sweep \<Rightarrow> container \<Rightarrow> bool" where
  "stale_generation w ct \<longleftrightarrow>
     (case sw_generation w of None \<Rightarrow> False | Some g \<Rightarrow> map_of (ct_labels ct) GENERATION_LABEL \<noteq> Some (show_int g))"

text \<open>\<open>fromiso\<close> is \<open>datetime.fromisoformat\<close>.\<close>

definition in_grace :: "(string \<Rightarrow> int option) \<Rightarrow> int \<Rightarrow> sweep \<Rightarrow> container \<Rightarrow> bool" where
  "in_grace fromiso now w ct \<longleftrightarrow>
     (case (case map_of (ct_labels ct) ''io.dataforge.created-at'' of None \<Rightarrow> None | Some s \<Rightarrow> if s = [] then None else fromiso s) of
        None \<Rightarrow> True
      | Some created \<Rightarrow> now - created < sw_grace w)"

definition sweep_removes :: "(string \<Rightarrow> int option) \<Rightarrow> int \<Rightarrow> sweep \<Rightarrow> container \<Rightarrow> bool" where
  "sweep_removes fromiso now w ct \<longleftrightarrow>
     ct_id ct \<notin> set (sw_keep w) \<and> \<not> (\<not> sw_remove_running w \<and> ct_running ct) \<and>
     \<not> (\<not> stale_generation w ct \<and> ct_running ct \<and> 0 < sw_grace w \<and> in_grace fromiso now w ct)"

text \<open>\<open>guard n\<close> is the \<open>n\<close>-th check of the coordinator generation, \<open>gone\<close> tells whether the removal of a container
  succeeds. A failed check ends the sweep with its exception, a failed removal is skipped.\<close>

fun sweep_containers ::
  "(string \<Rightarrow> int option) \<Rightarrow> int \<Rightarrow> sweep \<Rightarrow> (nat \<Rightarrow> unit result) \<Rightarrow> (string \<Rightarrow> bool) \<Rightarrow> string \<Rightarrow> nat \<Rightarrow> container list \<Rightarrow> nat \<Rightarrow> host_registry \<Rightarrow>
   nat result \<times> host_registry" where
  "sweep_containers fromiso now w guard gone host n [] removed r = (Inr removed, r)"
| "sweep_containers fromiso now w guard gone host n (ct # cts) removed r =
     (if \<not> sweep_removes fromiso now w ct then sweep_containers fromiso now w guard gone host n cts removed r
      else case guard n of
             Inl x \<Rightarrow> (Inl x, r)
           | Inr _ \<Rightarrow>
               if gone (ct_id ct)
               then sweep_containers fromiso now w guard gone host (Suc n) cts (Suc removed) (release_placement host (ct_id ct) r)
               else sweep_containers fromiso now w guard gone host (Suc n) cts removed r)"

definition reconcile_host_containers ::
  "(string \<Rightarrow> int option) \<Rightarrow> int \<Rightarrow> sweep \<Rightarrow> (nat \<Rightarrow> unit result) \<Rightarrow> (string \<Rightarrow> bool) \<Rightarrow> string \<Rightarrow> container list \<Rightarrow> host_registry \<Rightarrow>
   nat result \<times> host_registry" where
  "reconcile_host_containers fromiso now w guard gone host cts r =
     (case guard 0 of Inl x \<Rightarrow> (Inl x, r) | Inr _ \<Rightarrow> sweep_containers fromiso now w guard gone host 1 cts 0 r)"

subsection \<open>The resources and the name of a container\<close>

definition int_of_json :: "json \<Rightarrow> int option" where
  "int_of_json v = (case v of JInt n \<Rightarrow> Some n | JBool b \<Rightarrow> Some (if b then 1 else 0) | _ \<Rightarrow> None)"

definition or_int :: "int option \<Rightarrow> int \<Rightarrow> int" where
  "or_int v d = (case v of None \<Rightarrow> d | Some n \<Rightarrow> if n = 0 then d else n)"

definition available_threads :: "int \<Rightarrow> int option \<Rightarrow> int option \<Rightarrow> int" where
  "available_threads cores runtime_cpus os_cpus = or_int (Some cores) (or_int runtime_cpus (or_int os_cpus 1))"

definition config_int :: "payload \<Rightarrow> string \<Rightarrow> int \<Rightarrow> int option" where
  "config_int config key dflt = (case map_of config key of None \<Rightarrow> Some dflt | Some v \<Rightarrow> int_of_json v)"

record resources =
  rs_max_threads :: int
  rs_max_memory_mb :: int
  rs_chunk_size :: int

definition effective_resources :: "int \<Rightarrow> int \<Rightarrow> int \<Rightarrow> payload \<Rightarrow> resources" where
  "effective_resources available memory chunk config =
     (let threads = (case config_int config ''max_threads'' available of Some n \<Rightarrow> if 0 < n then n else available | None \<Rightarrow> available)
      in \<lparr>rs_max_threads = min threads available,
          rs_max_memory_mb = (case config_int config ''max_memory_mb'' memory of Some n \<Rightarrow> if 0 \<le> n then n else 0 | None \<Rightarrow> 0),
          rs_chunk_size = (case config_int config ''streaming_chunk_size'' chunk of Some n \<Rightarrow> if 0 \<le> n then n else 0 | None \<Rightarrow> 0)\<rparr>)"

definition container_nano_cpus :: "int \<Rightarrow> host_spec \<Rightarrow> int option" where
  "container_nano_cpus threads h =
     (if threads \<le> 0 then None else if \<not> enforces_cpu_quota h then None else Some (max 100000000 (threads * 1000000000)))"

definition object_store_endpoint :: "string \<Rightarrow> host_spec \<Rightarrow> string" where
  "object_store_endpoint endpoint h =
     (let internal = ''http://host.docker.internal''; ip = ''http://127.0.0.1''; name = ''http://localhost''
      in if hs_endpoint h \<noteq> [] then hs_endpoint h
         else if is_local h \<and> uses_published_ports h \<and> starts_with endpoint ip then internal @ drop (length ip) endpoint
         else if is_local h \<and> uses_published_ports h \<and> starts_with endpoint name then internal @ drop (length name) endpoint
         else endpoint)"

definition safe_name :: "string \<Rightarrow> string" where
  "safe_name v =
     (let s = strip_char (CHR ''-'') (map (\<lambda>c. if is_alnum c then lower_latin c else CHR ''-'') v) in if s = [] then ''compute-worker'' else s)"

text \<open>\<open>digest\<close> is the hexadecimal digest of the identity with a fresh UUID.\<close>

definition container_name :: "string \<Rightarrow> string \<Rightarrow> string \<Rightarrow> string" where
  "container_name digest namespace resource =
     take 63 (''dataforge-compute-worker-'' @ take 15 (safe_name namespace) @ ''-'' @ take 15 (safe_name resource) @ ''-'' @ take 12 digest)"

end
