(* ===== verification/Docker_Placement.thy ===== *)
theory Docker_Placement
  imports Docker_Hosts Complex_Main
begin

text \<open>
  Facts about the Docker hosts: which configurations are accepted, that the selected host is the least loaded
  one, that the failover ends and tries every host, and how far launches that overlap can exceed the
  cap of a host.
\<close>

subsection \<open>Accepted configurations\<close>

definition host_ok :: "host_spec \<Rightarrow> bool" where
  "host_ok h \<longleftrightarrow> host_name_ok (hs_name h) \<and> list_ex (starts_with (hs_docker_host h)) SUPPORTED_SCHEMES \<and> 0 \<le> hs_max_workers h \<and>
     (is_local h \<or> hs_connect_host h \<noteq> []) \<and> (hs_tls_cert_path h = [] \<or> list_ex (starts_with (hs_docker_host h)) [''tcp://'', ''https://''])"

lemma read_max_workers_nonneg: "read_max_workers label entry = Inr n \<Longrightarrow> 0 \<le> n"
  by (auto simp: read_max_workers_def split: option.splits json.splits if_splits)

lemma parse_entry_ok:
  assumes "parse_entry d number index seen entry = Inr h"
  shows "host_ok h" "hs_name h \<notin> set seen"
  using assms read_max_workers_nonneg
  by (auto simp: parse_entry_def Let_def host_ok_def elim!: and_then_okE split: if_splits)

lemma parse_entries_ok:
  "parse_entries d number index seen vs = Inr hs \<Longrightarrow>
   list_all host_ok hs \<and> distinct (map hs_name hs) \<and> set (map hs_name hs) \<inter> set seen = {} \<and> length hs = length vs"
proof (induction d number index seen vs arbitrary: hs rule: parse_entries.induct)
  case (2 d number index seen v vs)
  from "2.prems" obtain entry spec rest where e: "v = JObj entry" "parse_entry d number index seen entry = Inr spec"
      "parse_entries d number (Suc index) (hs_name spec # seen) vs = Inr rest" "hs = spec # rest"
    by (auto split: json.splits elim!: and_then_okE)
  from "2.IH" [OF e(1,3)] parse_entry_ok [OF e(2)] show ?case by (auto simp: e(4))
qed simp

lemma accepted_hosts_ok:
  assumes "parse_docker_hosts loads d raw = Inr hs" and "py_strip raw \<noteq> []"
  shows "hs \<noteq> [] \<and> list_all host_ok hs \<and> distinct (map hs_name hs)"
proof -
  obtain v vs where "loads (py_strip raw) = Some (JList (v # vs))" "parse_entries d (length (v # vs)) 0 [] (v # vs) = Inr hs"
    using assms by (auto simp: parse_docker_hosts_def split: option.splits json.splits list.splits)
  from parse_entries_ok [OF this(2)] show ?thesis by auto
qed

subsection \<open>The least loaded host\<close>

definition host_load :: "host_state \<Rightarrow> rat" where
  "host_load s = of_nat (length (ho_placements s)) / of_int (host_cpus s)"

lemma host_cpus_pos: "0 < host_cpus s"
  by (simp add: host_cpus_def)

lemma less_loaded_iff:
  "less_loaded a b \<longleftrightarrow> host_load a < host_load b \<or> host_load a = host_load b \<and> length (ho_placements a) < length (ho_placements b)"
proof -
  let ?p = "int (length (ho_placements a))" and ?q = "int (length (ho_placements b))"
  have pos: "0 < (of_int (host_cpus a) :: rat)" "0 < (of_int (host_cpus b) :: rat)" using host_cpus_pos by simp_all
  have "host_load a < host_load b \<longleftrightarrow> of_int (?p * host_cpus b) < (of_int (?q * host_cpus a) :: rat)"
    using pos by (simp add: host_load_def divide_less_eq less_divide_eq)
  then have lt: "host_load a < host_load b \<longleftrightarrow> ?p * host_cpus b < ?q * host_cpus a" by (simp only: of_int_less_iff)
  have "host_load a = host_load b \<longleftrightarrow> of_int (?p * host_cpus b) = (of_int (?q * host_cpus a) :: rat)"
    using pos by (simp add: host_load_def frac_eq_eq)
  then have eq: "host_load a = host_load b \<longleftrightarrow> ?p * host_cpus b = ?q * host_cpus a" by (simp only: of_int_eq_iff)
  show ?thesis unfolding lt eq less_loaded_def Let_def by simp
qed

lemma least_loaded_split:
  "\<exists>ys zs. s # ss = ys @ least_loaded s ss # zs \<and> (\<forall>x \<in> set ys. less_loaded (least_loaded s ss) x) \<and> (\<forall>x \<in> set zs. \<not> less_loaded x (least_loaded s ss))"
proof (induction ss rule: rev_induct)
  case (snoc x ss)
  then obtain ys zs where h: "s # ss = ys @ least_loaded s ss # zs" "\<forall>y \<in> set ys. less_loaded (least_loaded s ss) y"
      "\<forall>z \<in> set zs. \<not> less_loaded z (least_loaded s ss)" by blast
  show ?case
  proof (cases "less_loaded x (least_loaded s ss)")
    case True
    then have "least_loaded s (ss @ [x]) = x" by (simp add: least_loaded_def)
    moreover have "\<forall>y \<in> set (s # ss). less_loaded x y" unfolding h(1) using True h(2,3) by (auto simp: less_loaded_iff)
    ultimately show ?thesis by (intro exI [of _ "s # ss"] exI [of _ "[]"]) simp
  next
    case False
    then have "least_loaded s (ss @ [x]) = least_loaded s ss" by (simp add: least_loaded_def)
    then show ?thesis using h False by (intro exI [of _ ys] exI [of _ "zs @ [x]"]) auto
  qed
next
  case Nil
  show ?case by (rule exI [of _ "[]"]) (simp add: least_loaded_def)
qed

lemma filter_split: "filter P xs = ys @ x # zs \<Longrightarrow> \<exists>us vs. xs = us @ x # vs \<and> filter P us = ys \<and> filter P vs = zs"
proof (induction xs arbitrary: ys)
  case (Cons a xs)
  show ?case
  proof (cases "P a \<and> ys = []")
    case True
    then show ?thesis using Cons.prems by (intro exI [of _ "[]"] exI [of _ xs]) simp
  next
    case False
    then obtain ws where ws: "filter P xs = ws @ x # zs" "ys = (if P a then a # ws else ws)"
      using Cons.prems by (cases ys) (auto split: if_splits)
    then obtain us vs where "xs = us @ x # vs" "filter P us = ws" "filter P vs = zs" using Cons.IH by blast
    then show ?thesis using ws(2) by (intro exI [of _ "a # us"] exI [of _ vs]) simp
  qed
qed simp

text \<open>C38: Placement is least loaded. A launch goes to a healthy host below its cap that was not tried before, whose
  placements per CPU are the lowest of all such hosts; among hosts of the same load it is one with the fewest
  placements and the first of these in the configuration. A launch is refused exactly when no such host exists.\<close>

theorem least_loaded_selected:
  "case select_host now excluded r of
     Inl _ \<Rightarrow> \<forall>s \<in> snd ` set (rg_states r). \<not> host_eligible now excluded s
   | Inr h \<Rightarrow> \<exists>us s vs. map snd (rg_states r) = us @ s # vs \<and> ho_spec s = h \<and> host_eligible now excluded s \<and>
       (\<forall>x \<in> set (us @ vs). host_eligible now excluded x \<longrightarrow>
          host_load s < host_load x \<or> host_load s = host_load x \<and> length (ho_placements s) \<le> length (ho_placements x)) \<and>
       (\<forall>x \<in> set us. host_eligible now excluded x \<longrightarrow> host_load s < host_load x \<or> length (ho_placements s) < length (ho_placements x))"
proof (cases "filter (host_eligible now excluded) (map snd (rg_states r))")
  case Nil
  then have "\<forall>s \<in> snd ` set (rg_states r). \<not> host_eligible now excluded s" by (auto simp: filter_empty_conv)
  then show ?thesis using Nil by (simp add: select_host_def)
next
  case (Cons c cs)
  let ?s = "least_loaded c cs"
  obtain ys zs where split: "c # cs = ys @ ?s # zs" "\<forall>x \<in> set ys. less_loaded ?s x" "\<forall>x \<in> set zs. \<not> less_loaded x ?s"
    using least_loaded_split by blast
  obtain us vs where w: "map snd (rg_states r) = us @ ?s # vs" "filter (host_eligible now excluded) us = ys" "filter (host_eligible now excluded) vs = zs"
    using filter_split [of "host_eligible now excluded"] Cons split(1) by metis
  have "?s \<in> set (filter (host_eligible now excluded) (map snd (rg_states r)))" unfolding Cons split(1) by simp
  then have "host_eligible now excluded ?s" by simp
  moreover have "\<forall>x \<in> set us. host_eligible now excluded x \<longrightarrow> less_loaded ?s x" using split(2) w(2) by auto
  moreover have "\<forall>x \<in> set vs. host_eligible now excluded x \<longrightarrow> \<not> less_loaded x ?s" using split(3) w(3) by auto
  ultimately have "\<exists>us s vs. map snd (rg_states r) = us @ s # vs \<and> ho_spec s = ho_spec ?s \<and> host_eligible now excluded s \<and>
       (\<forall>x \<in> set (us @ vs). host_eligible now excluded x \<longrightarrow>
          host_load s < host_load x \<or> host_load s = host_load x \<and> length (ho_placements s) \<le> length (ho_placements x)) \<and>
       (\<forall>x \<in> set us. host_eligible now excluded x \<longrightarrow> host_load s < host_load x \<or> length (ho_placements s) < length (ho_placements x))"
    using w(1) by (intro exI [of _ us] exI [of _ ?s] exI [of _ vs]) (auto simp: less_loaded_iff)
  moreover have "select_host now excluded r = Inr (ho_spec ?s)" using Cons by (simp add: select_host_def)
  ultimately show ?thesis by simp
qed

subsection \<open>The failover\<close>

text \<open>The hosts of a registry never change.\<close>

definition layout :: "host_registry \<Rightarrow> (string \<times> host_spec) list" where
  "layout r = map (\<lambda>(n, s). (n, ho_spec s)) (rg_states r)"

definition layout_ok :: "host_registry \<Rightarrow> bool" where
  "layout_ok r \<longleftrightarrow> distinct (map fst (rg_states r)) \<and> (\<forall>(n, h) \<in> set (layout r). hs_name h = n)"

lemma new_host_registry_layout:
  assumes "new_host_registry hs img cooldown = Inr r"
  shows "layout_ok r" "\<forall>(name, st) \<in> set (rg_states r). ho_placements st = [] \<and> ho_spec st \<in> set hs"
proof -
  have fold: "distinct (map fst xs) \<Longrightarrow> \<forall>(n, st) \<in> set xs. hs_name (ho_spec st) = n \<and> ho_placements st = [] \<and> ho_spec st \<in> set all \<Longrightarrow> set specs \<subseteq> set all \<Longrightarrow>
      distinct (map fst (fold (\<lambda>spec. AList.update (hs_name spec) (new_host_state spec)) specs xs)) \<and>
      (\<forall>(n, st) \<in> set (fold (\<lambda>spec. AList.update (hs_name spec) (new_host_state spec)) specs xs). hs_name (ho_spec st) = n \<and> ho_placements st = [] \<and> ho_spec st \<in> set all)"
    for specs all xs
  proof (induction specs arbitrary: xs)
    case (Cons h specs)
    let ?ys = "AList.update (hs_name h) (new_host_state h) xs"
    have "set ?ys \<subseteq> insert (hs_name h, new_host_state h) (set xs)" by (induction xs) auto
    then have "\<forall>(n, st) \<in> set ?ys. hs_name (ho_spec st) = n \<and> ho_placements st = [] \<and> ho_spec st \<in> set all"
      using Cons.prems by (auto simp: new_host_state_def)
    then show ?case using Cons.IH [of ?ys] Cons.prems by (simp add: distinct_update)
  qed simp
  have r: "rg_states r = fold (\<lambda>spec. AList.update (hs_name spec) (new_host_state spec)) hs []"
    using assms by (auto simp: new_host_registry_def split: if_splits)
  from fold [of "[]" hs hs] show "layout_ok r" "\<forall>(name, st) \<in> set (rg_states r). ho_placements st = [] \<and> ho_spec st \<in> set hs"
    by (auto simp: r layout_ok_def layout_def)
qed

lemma layout_on_host: "(\<And>s. ho_spec (f s) = ho_spec s) \<Longrightarrow> layout (on_host name f r) = layout r"
  by (simp add: layout_def on_host_def comp_def case_prod_unfold)

lemma layout_kept [simp]:
  "layout (record_failure now name m r) = layout r" "layout (mark_ready now name r) = layout r"
  "layout (record_placement name cid r) = layout r" "layout (release_placement name cid r) = layout r"
  "layout (settle_placement name b r) = layout r"
proof -
  show *: "layout (record_placement name cid r) = layout r" for name cid r unfolding record_placement_def by (rule layout_on_host) simp
  show **: "layout (release_placement name cid r) = layout r" for name cid r unfolding release_placement_def by (rule layout_on_host) simp
  show "layout (record_failure now name m r) = layout r" unfolding record_failure_def by (rule layout_on_host) simp
  show "layout (mark_ready now name r) = layout r" unfolding mark_ready_def by (rule layout_on_host) simp
  show "layout (settle_placement name b r) = layout r" by (simp add: settle_placement_def * ** split: left_behind.split)
qed

lemma layout_same: "layout r = layout r' \<Longrightarrow> layout_ok r = layout_ok r' \<and> map fst (rg_states r) = map fst (rg_states r')"
proof -
  assume l: "layout r = layout r'"
  have "map fst (rg_states r) = map fst (layout r)" for r by (simp add: layout_def comp_def case_prod_unfold)
  then show ?thesis using l by (simp add: layout_ok_def)
qed

lemma selected_eligible:
  assumes "select_host now attempted r = Inr h"
  obtains n s where "(n, s) \<in> set (rg_states r)" "ho_spec s = h" "host_eligible now attempted s"
proof (cases "filter (host_eligible now attempted) (map snd (rg_states r))")
  case (Cons c cs)
  have "least_loaded c cs \<in> set (c # cs)" using least_loaded_split [of c cs] by (metis in_set_conv_decomp)
  then have "least_loaded c cs \<in> set (filter (host_eligible now attempted) (map snd (rg_states r)))" unfolding Cons .
  then have "least_loaded c cs \<in> snd ` set (rg_states r)" "host_eligible now attempted (least_loaded c cs)" by simp_all
  moreover have "ho_spec (least_loaded c cs) = h" using assms Cons by (simp add: select_host_def)
  ultimately show ?thesis using that by auto
qed (use assms in \<open>simp add: select_host_def\<close>)

lemma layout_name: "layout_ok r \<Longrightarrow> (n, s) \<in> set (rg_states r) \<Longrightarrow> hs_name (ho_spec s) = n"
  by (auto simp: layout_ok_def layout_def)

lemma select_host_new:
  assumes "select_host now attempted r = Inr h" and "layout_ok r"
  shows "hs_name h \<in> set (map fst (rg_states r))" "hs_name h \<notin> set attempted"
proof -
  obtain n s where s: "(n, s) \<in> set (rg_states r)" "ho_spec s = h" "host_eligible now attempted s" using selected_eligible [OF assms(1)] .
  then have "hs_name h = n" using layout_name [OF assms(2)] by blast
  then show "hs_name h \<in> set (map fst (rg_states r))" "hs_name h \<notin> set attempted" using s by (force simp: host_eligible_def)+
qed

lemma placed_there:
  assumes "name \<in> set (map fst (rg_states r))"
  shows "\<exists>s. (name, s) \<in> set (rg_states (record_placement name cid r)) \<and> cid \<in> set (ho_placements s)"
proof -
  obtain s where "(name, s) \<in> set (rg_states r)" using assms by auto
  then show ?thesis
    by (intro exI [of _ "s\<lparr>ho_placements := List.insert cid (ho_placements s)\<rparr>"]) (force simp: record_placement_def on_host_def)
qed

lemma refused_all: "select_host now attempted r = Inl x \<Longrightarrow> \<forall>s \<in> snd ` set (rg_states r). \<not> host_eligible now attempted s"
  by (auto simp: select_host_def filter_empty_conv split: list.splits)

definition rounds_keep_hosts :: "launch_round list \<Rightarrow> bool" where
  "rounds_keep_hosts ls \<longleftrightarrow> (\<forall>l \<in> set ls. \<forall>r. layout (lr_before l r) = layout r \<and> layout (lr_during l r) = layout r)"

text \<open>What it takes of a host to accept a container, whoever asks.\<close>

definition accepts_container :: "int \<Rightarrow> host_state \<Rightarrow> bool" where
  "accepts_container now s \<longleftrightarrow> ho_healthy s \<and> ho_unavailable_until s \<le> now \<and>
     (hs_max_workers (ho_spec s) = 0 \<or> int (length (ho_placements s)) < hs_max_workers (ho_spec s))"

lemma host_eligible_iff: "host_eligible now excluded s \<longleftrightarrow> hs_name (ho_spec s) \<notin> set excluded \<and> accepts_container now s"
  by (auto simp: host_eligible_def accepts_container_def)

text \<open>The registry after launches that failed on the given hosts, one in each round; \<open>None\<close> when a round would
  not have failed on its host.\<close>

fun after_failures :: "launch_round list \<Rightarrow> host_spec list \<Rightarrow> host_registry \<Rightarrow> host_registry option" where
  "after_failures ls [] r = Some r"
| "after_failures [] (h # hs) r = None"
| "after_failures (l # ls) (h # hs) r =
     (case lr_outcome l h of
        Host_Failed m b \<Rightarrow>
          after_failures ls hs (record_failure (lr_failed_at l) (hs_name h) m (settle_placement (hs_name h) b (lr_during l (lr_before l r))))
      | _ \<Rightarrow> None)"

text \<open>How the round after the failures on the hosts \<open>tried\<close> ends the launch.\<close>

definition last_round :: "launch_round \<Rightarrow> string set \<Rightarrow> host_registry \<Rightarrow> (string \<times> string) result \<Rightarrow> host_registry \<Rightarrow> bool" where
  "last_round l tried r res r' \<longleftrightarrow>
     (\<exists>name s. (name, s) \<in> set (rg_states (lr_before l r)) \<and> name \<notin> tried \<and> accepts_container (lr_now l) s \<and>
        ((\<exists>cid. lr_outcome l (ho_spec s) = Launched cid \<and> res = Inr (name, cid) \<and> r' = record_placement name cid (lr_during l (lr_before l r))) \<or>
         (\<exists>x b. lr_outcome l (ho_spec s) = Request_Failed x b \<and> res = Inl x \<and> r' = settle_placement name b (lr_during l (lr_before l r))))) \<or>
     (\<exists>x. res = Inl x) \<and> r' = lr_before l r \<and> (\<forall>(name, s) \<in> set (rg_states (lr_before l r)). name \<in> tried \<or> \<not> accepts_container (lr_now l) s)"

definition failover_run :: "launch_round list \<Rightarrow> string list \<Rightarrow> host_registry \<Rightarrow> (string \<times> string) result \<Rightarrow> host_registry \<Rightarrow> bool" where
  "failover_run ls attempted r res r' \<longleftrightarrow>
     (\<exists>hs rn. length hs < length ls \<and> distinct (map hs_name hs @ attempted) \<and> set (map hs_name hs) \<subseteq> set (map fst (rg_states r)) \<and>
        after_failures ls hs r = Some rn \<and> last_round (ls ! length hs) (set (map hs_name hs @ attempted)) rn res r')"

lemma failover_run_now:
  "distinct attempted \<Longrightarrow> last_round l (set attempted) r res r' \<Longrightarrow> failover_run (l # ls) attempted r res r'"
  unfolding failover_run_def by (intro exI [of _ "[]"] exI [of _ r]) simp

lemma failover_run_later:
  assumes failed: "lr_outcome l h = Host_Failed m b" and h: "hs_name h \<in> set (map fst (rg_states r))"
    and r3: "r3 = record_failure (lr_failed_at l) (hs_name h) m (settle_placement (hs_name h) b (lr_during l (lr_before l r)))"
    and same: "map fst (rg_states r3) = map fst (rg_states r)" and run: "failover_run ls (hs_name h # attempted) r3 res r'"
  shows "failover_run (l # ls) attempted r res r'"
proof -
  obtain hs rn where hs: "length hs < length ls" "distinct (map hs_name hs @ hs_name h # attempted)" "set (map hs_name hs) \<subseteq> set (map fst (rg_states r3))"
      "after_failures ls hs r3 = Some rn" "last_round (ls ! length hs) (set (map hs_name hs @ hs_name h # attempted)) rn res r'"
    using run unfolding failover_run_def by blast
  have "after_failures (l # ls) (h # hs) r = Some rn" using failed hs(4) by (simp add: r3)
  moreover have "distinct (map hs_name (h # hs) @ attempted)" using hs(2) by auto
  moreover have "set (map hs_name (h # hs)) \<subseteq> set (map fst (rg_states r))" using hs(3) h same by simp
  moreover have "set (map hs_name (h # hs) @ attempted) = set (map hs_name hs @ hs_name h # attempted)" by auto
  then have "last_round ((l # ls) ! length (h # hs)) (set (map hs_name (h # hs) @ attempted)) rn res r'" using hs(5) by simp
  moreover have "length (h # hs) < length (l # ls)" using hs(1) by simp
  ultimately show ?thesis unfolding failover_run_def by blast
qed

lemma last_round_refused:
  assumes "select_host (lr_now l) attempted (lr_before l r) = Inl x" and "layout_ok (lr_before l r)"
  shows "last_round l (set attempted) r (Inl y) (lr_before l r)"
  using refused_all [OF assms(1)] layout_name [OF assms(2)] unfolding last_round_def host_eligible_iff by fastforce

lemma last_round_selected:
  assumes "select_host (lr_now l) attempted (lr_before l r) = Inr h" and "layout_ok (lr_before l r)"
    and "(\<exists>cid. lr_outcome l h = Launched cid \<and> res = Inr (hs_name h, cid) \<and> r' = record_placement (hs_name h) cid (lr_during l (lr_before l r))) \<or>
         (\<exists>x b. lr_outcome l h = Request_Failed x b \<and> res = Inl x \<and> r' = settle_placement (hs_name h) b (lr_during l (lr_before l r)))"
  shows "last_round l (set attempted) r res r'"
proof -
  obtain n s where s: "(n, s) \<in> set (rg_states (lr_before l r))" "ho_spec s = h" "host_eligible (lr_now l) attempted s" using selected_eligible [OF assms(1)] .
  then have "hs_name h = n" using layout_name [OF assms(2)] by blast
  then show ?thesis using s assms(3) unfolding last_round_def host_eligible_iff by (intro disjI1 exI [of _ n] exI [of _ s]) simp
qed

lemma failover_ends:
  "rounds_keep_hosts ls \<Longrightarrow> layout_ok r \<Longrightarrow> distinct attempted \<Longrightarrow> set attempted \<subseteq> set (map fst (rg_states r)) \<Longrightarrow>
   length (rg_states r) < length ls + length attempted \<Longrightarrow>
   \<exists>res r'. launch_with_failover ls attempted lf r = Some (res, r') \<and> layout r' = layout r \<and> failover_run ls attempted r res r'"
proof (induction ls attempted lf r rule: launch_with_failover.induct)
  case (1 attempted lf r)
  have "length attempted = card (set attempted)" using distinct_card [OF "1.prems"(3)] by simp
  also have "\<dots> \<le> card (set (map fst (rg_states r)))" by (rule card_mono [OF finite_set "1.prems"(4)])
  also have "\<dots> \<le> length (rg_states r)" by (metis card_length length_map)
  finally show ?case using "1.prems"(5) by simp
next
  case (2 l ls attempted lf r)
  let ?r1 = "lr_before l r" let ?r2 = "lr_during l ?r1"
  have lay: "layout ?r1 = layout r" "layout ?r2 = layout r" using "2.prems"(1) by (simp_all add: rounds_keep_hosts_def)
  note same = layout_same [OF lay(1)] layout_same [OF lay(2)]
  have ok1: "layout_ok ?r1" using same(1) "2.prems"(2) by simp
  note now = failover_run_now [OF "2.prems"(3)]
  show ?case
  proof (cases "select_host (lr_now l) attempted ?r1")
    case (Inl x)
    then show ?thesis using lay(1) now [OF last_round_refused [where l = l, OF Inl ok1]] by (simp add: Let_def)
  next
    case (Inr h)
    have new: "hs_name h \<in> set (map fst (rg_states r))" "hs_name h \<notin> set attempted"
      using select_host_new [OF Inr ok1] same by simp_all
    note selected = now [OF last_round_selected [where l = l, OF Inr ok1]]
    show ?thesis
    proof (cases "lr_outcome l h")
      case (Launched cid)
      then have "failover_run (l # ls) attempted r (Inr (hs_name h, cid)) (record_placement (hs_name h) cid ?r2)" by (intro selected disjI1) simp
      then show ?thesis using Inr Launched lay(2) by (simp add: Let_def)
    next
      case (Request_Failed x b)
      then have "failover_run (l # ls) attempted r (Inl x) (settle_placement (hs_name h) b ?r2)" by (intro selected disjI2) simp
      then show ?thesis using Inr Request_Failed lay(2) by (simp add: Let_def)
    next
      case (Host_Failed m b)
      let ?r3 = "record_failure (lr_failed_at l) (hs_name h) m (settle_placement (hs_name h) b ?r2)"
      have l3: "layout ?r3 = layout r" using lay(2) by simp
      note s3 = layout_same [OF l3]
      have len: "length (rg_states ?r3) = length (rg_states r)" using s3 by (metis length_map)
      have "\<exists>res r'. launch_with_failover ls (hs_name h # attempted) (Some (hs_name h, m)) ?r3 = Some (res, r') \<and> layout r' = layout ?r3 \<and>
          failover_run ls (hs_name h # attempted) ?r3 res r'"
      proof (rule "2.IH" [OF refl Inr refl refl Host_Failed])
        show "rounds_keep_hosts ls" using "2.prems"(1) by (simp add: rounds_keep_hosts_def)
        show "layout_ok ?r3" using s3 "2.prems"(2) by simp
        show "set (hs_name h # attempted) \<subseteq> set (map fst (rg_states ?r3))" using new(1) "2.prems"(4) s3 by simp
      qed (use "2.prems"(3,5) new(2) len in simp_all)
      then obtain res r' where run: "launch_with_failover ls (hs_name h # attempted) (Some (hs_name h, m)) ?r3 = Some (res, r')" "layout r' = layout ?r3"
          "failover_run ls (hs_name h # attempted) ?r3 res r'" by blast
      then have "failover_run (l # ls) attempted r res r'" using failover_run_later [OF Host_Failed new(1) refl] s3 by simp
      then show ?thesis using Inr Host_Failed l3 run(1,2) by (simp add: Let_def)
    qed
  qed
qed

text \<open>C17: the failover ends and gives up on no host too early. Whatever other threads do with the registry, one
  round more than there are hosts is enough. The launch has then failed on some hosts, a different one in each
  round, and the round after these ends it in one of three ways: a host that was not tried and that accepts
  containers at that time launched the container, which is recorded on it and is the result; the launch on such
  a host failed for the request itself, whose error is raised; or the launch gives up, and in the registry it read
  every host was tried or accepts no container: it is unhealthy, in its cooldown at that time or at its cap.\<close>

theorem failover_tries_every_host:
  assumes "rounds_keep_hosts ls" and "layout_ok r" and "length (rg_states r) < length ls"
  shows "\<exists>res r' hs rn. launch_with_failover ls [] None r = Some (res, r') \<and> layout r' = layout r \<and>
    length hs < length ls \<and> distinct (map hs_name hs) \<and> set (map hs_name hs) \<subseteq> set (map fst (rg_states r)) \<and>
    after_failures ls hs r = Some rn \<and> last_round (ls ! length hs) (set (map hs_name hs)) rn res r'"
  using failover_ends [OF assms(1,2), of "[]" None] assms(3) unfolding failover_run_def by simp

definition example_host :: "string \<Rightarrow> int \<Rightarrow> host_spec" where
  "example_host name cap =
     \<lparr>hs_name = name, hs_docker_host = ''tcp://'' @ name, hs_connect_host = name, hs_network = ''df'', hs_endpoint = [], hs_max_workers = cap, hs_tls_cert_path = []\<rparr>"

definition example_registry :: "int \<Rightarrow> host_registry" where
  "example_registry cap =
     mark_ready 0 ''b'' (mark_ready 0 ''a''
       \<lparr>rg_states = [(''a'', new_host_state (example_host ''a'' cap)), (''b'', new_host_state (example_host ''b'' cap))], rg_image = ''i'', rg_cooldown = 30\<rparr>)"

lemmas example_registry_defs = example_registry_def mark_ready_def on_host_def new_host_state_def example_host_def

lemma example_layout: "layout_ok (example_registry cap)"
  by (simp add: example_registry_def layout_ok_def layout_def mark_ready_def on_host_def new_host_state_def example_host_def)

theorem least_loaded_selected_witness:
  "select_host 1 [] (record_placement ''a'' ''c1'' (example_registry 2)) = Inr (example_host ''b'' 2) \<and>
   (\<exists>us s vs. map snd (rg_states (record_placement ''a'' ''c1'' (example_registry 2))) = us @ s # vs \<and> ho_spec s = example_host ''b'' 2 \<and> host_eligible 1 [] s)"
proof -
  have sel: "select_host 1 [] (record_placement ''a'' ''c1'' (example_registry 2)) = Inr (example_host ''b'' 2)"
    by (simp add: example_registry_defs record_placement_def select_host_def host_eligible_def least_loaded_def less_loaded_def host_cpus_def)
  then show ?thesis
    using least_loaded_selected [where now = 1 and excluded = "[]" and r = "record_placement ''a'' ''c1'' (example_registry 2)"] by (simp only: sum.case) blast
qed

definition example_launch_round :: launch_round where
  "example_launch_round = \<lparr>lr_before = (\<lambda>r. r), lr_now = 1, lr_during = (\<lambda>r. r),
     lr_outcome = (\<lambda>h. if hs_name h = ''a'' then Host_Failed ''down'' Nothing_Created else Launched ''c1''), lr_failed_at = 2\<rparr>"

definition failing_round :: launch_round where
  "failing_round = example_launch_round\<lparr>lr_outcome := (\<lambda>h. Host_Failed ''down'' Nothing_Created)\<rparr>"

text \<open>The first host fails the launch and the second takes the container; with both failing the launch gives up.\<close>

theorem failover_tries_every_host_witness:
  "(\<exists>r' hs rn. launch_with_failover [example_launch_round, example_launch_round, example_launch_round] [] None (example_registry 1) = Some (Inr (''b'', ''c1''), r') \<and>
      after_failures [example_launch_round, example_launch_round, example_launch_round] hs (example_registry 1) = Some rn \<and>
      last_round ([example_launch_round, example_launch_round, example_launch_round] ! length hs) (set (map hs_name hs)) rn (Inr (''b'', ''c1'')) r') \<and>
   (\<exists>x r' hs rn. launch_with_failover [failing_round, failing_round, failing_round] [] None (example_registry 1) = Some (Inl x, r') \<and>
      after_failures [failing_round, failing_round, failing_round] hs (example_registry 1) = Some rn \<and>
      last_round ([failing_round, failing_round, failing_round] ! length hs) (set (map hs_name hs)) rn (Inl x) r')"
proof
  note run_defs = failing_round_def example_launch_round_def example_registry_defs record_failure_def record_placement_def settle_placement_def select_host_def
    host_eligible_def least_loaded_def less_loaded_def host_cpus_def Let_def
  have k: "rounds_keep_hosts [example_launch_round, example_launch_round, example_launch_round]" "rounds_keep_hosts [failing_round, failing_round, failing_round]"
    by (simp_all add: rounds_keep_hosts_def example_launch_round_def failing_round_def)
  have n: "length (rg_states (example_registry 1)) < length [example_launch_round, example_launch_round, example_launch_round]"
      "length (rg_states (example_registry 1)) < length [failing_round, failing_round, failing_round]"
    by (simp_all add: example_registry_defs)
  have run: "map_option fst (launch_with_failover [example_launch_round, example_launch_round, example_launch_round] [] None (example_registry 1)) = Some (Inr (''b'', ''c1''))"
    by (simp add: run_defs)
  show "\<exists>r' hs rn. launch_with_failover [example_launch_round, example_launch_round, example_launch_round] [] None (example_registry 1) = Some (Inr (''b'', ''c1''), r') \<and>
      after_failures [example_launch_round, example_launch_round, example_launch_round] hs (example_registry 1) = Some rn \<and>
      last_round ([example_launch_round, example_launch_round, example_launch_round] ! length hs) (set (map hs_name hs)) rn (Inr (''b'', ''c1'')) r'"
    using failover_tries_every_host [OF k(1) example_layout n(1)] run by (elim exE) (auto simp del: after_failures.simps launch_with_failover.simps)
  have run': "map_option (isl \<circ> fst) (launch_with_failover [failing_round, failing_round, failing_round] [] None (example_registry 1)) = Some True"
    by (simp add: run_defs)
  show "\<exists>x r' hs rn. launch_with_failover [failing_round, failing_round, failing_round] [] None (example_registry 1) = Some (Inl x, r') \<and>
      after_failures [failing_round, failing_round, failing_round] hs (example_registry 1) = Some rn \<and>
      last_round ([failing_round, failing_round, failing_round] ! length hs) (set (map hs_name hs)) rn (Inl x) r'"
    using failover_tries_every_host [OF k(2) example_layout n(2)] run' by (elim exE) (auto simp: isl_def simp del: after_failures.simps launch_with_failover.simps)
qed

subsection \<open>The cap of a host\<close>

text \<open>The registry with the launches under way: a thread has selected its host but not yet recorded the
  placement of its container, which it does once the daemon has created it.\<close>

record placement_system =
  pl_registry :: host_registry
  pl_launching :: "(nat \<times> string) list"

inductive host_step :: "placement_system \<Rightarrow> placement_system \<Rightarrow> bool" where
  hp_select: "thread \<notin> fst ` set (pl_launching s) \<Longrightarrow> select_host now excluded (pl_registry s) = Inr h \<Longrightarrow>
    host_step s (s\<lparr>pl_launching := (thread, hs_name h) # pl_launching s\<rparr>)"
| hp_placed: "(thread, name) \<in> set (pl_launching s) \<Longrightarrow>
    host_step s \<lparr>pl_registry = record_placement name cid (pl_registry s), pl_launching = remove1 (thread, name) (pl_launching s)\<rparr>"
| hp_not_created: "(thread, name) \<in> set (pl_launching s) \<Longrightarrow>
    host_step s (s\<lparr>pl_launching := remove1 (thread, name) (pl_launching s)\<rparr>)"
| hp_released: "host_step s (s\<lparr>pl_registry := release_placement name cid (pl_registry s)\<rparr>)"
| hp_failed: "host_step s (s\<lparr>pl_registry := record_failure now name m (pl_registry s)\<rparr>)"
| hp_ready: "host_step s (s\<lparr>pl_registry := mark_ready now name (pl_registry s)\<rparr>)"
| hp_context: "host_step s (s\<lparr>pl_registry := on_host name (store_context img cpus i) (pl_registry s)\<rparr>)"

text \<open>Runs in which at most \<open>n\<close> launches overlap.\<close>

definition host_step_within :: "nat \<Rightarrow> placement_system \<Rightarrow> placement_system \<Rightarrow> bool" where
  "host_step_within n s t \<longleftrightarrow> host_step s t \<and> length (pl_launching t) \<le> n"

definition launches_on :: "string \<Rightarrow> placement_system \<Rightarrow> nat" where
  "launches_on name s = length (filter (\<lambda>x. snd x = name) (pl_launching s))"

definition caps_inv :: "nat \<Rightarrow> placement_system \<Rightarrow> bool" where
  "caps_inv n s \<longleftrightarrow> layout_ok (pl_registry s) \<and>
     (\<forall>(name, st) \<in> set (rg_states (pl_registry s)). hs_max_workers (ho_spec st) \<noteq> 0 \<longrightarrow>
        int (length (ho_placements st)) + int (launches_on name s) < hs_max_workers (ho_spec st) + int n)"

lemma on_host_state:
  assumes "(name, st') \<in> set (rg_states (on_host h f r))"
  obtains st where "(name, st) \<in> set (rg_states r)" "st' = (if name = h then f st else st)"
  using assms by (auto simp: on_host_def)

lemma caps_on_host:
  assumes inv: "caps_inv n s" and spec: "\<And>st. ho_spec (f st) = ho_spec st"
    and less: "\<And>name st. (name, st) \<in> set (rg_states (pl_registry s)) \<Longrightarrow>
      length (ho_placements (if name = h then f st else st)) + launches_on name t \<le> length (ho_placements st) + launches_on name s"
    and t: "pl_registry t = on_host h f (pl_registry s)"
  shows "caps_inv n t"
  unfolding caps_inv_def
proof
  show "layout_ok (pl_registry t)" using inv layout_same [OF layout_on_host [OF spec]] by (simp add: caps_inv_def t)
  show "\<forall>(name, st) \<in> set (rg_states (pl_registry t)). hs_max_workers (ho_spec st) \<noteq> 0 \<longrightarrow>
      int (length (ho_placements st)) + int (launches_on name t) < hs_max_workers (ho_spec st) + int n"
  proof clarify
    fix name st' assume "(name, st') \<in> set (rg_states (pl_registry t))" and cap: "hs_max_workers (ho_spec st') \<noteq> 0"
    then obtain st where st: "(name, st) \<in> set (rg_states (pl_registry s))" "st' = (if name = h then f st else st)"
      unfolding t by (auto elim: on_host_state)
    have same: "ho_spec st' = ho_spec st" using st(2) spec by simp
    have "int (length (ho_placements st)) + int (launches_on name s) < hs_max_workers (ho_spec st) + int n"
      using inv st(1) cap same by (auto simp: caps_inv_def)
    then show "int (length (ho_placements st')) + int (launches_on name t) < hs_max_workers (ho_spec st') + int n"
      using less [OF st(1)] st(2) same by simp
  qed
qed

lemma on_host_id: "on_host h (\<lambda>st. st) r = r"
  by (simp add: on_host_def case_prod_unfold)

lemma launches_removed:
  assumes "(thread, h) \<in> set (pl_launching s)" and "pl_launching t = remove1 (thread, h) (pl_launching s)"
  shows "launches_on name s = launches_on name t + (if name = h then 1 else 0)"
proof -
  have "length (filter P xs) = length (filter P (remove1 x xs)) + (if P x then 1 else 0)" if "x \<in> set xs" for P and x :: "nat \<times> string" and xs
    using that by (induction xs) auto
  from this [OF assms(1)] show ?thesis by (simp add: launches_on_def assms(2))
qed

lemma selected_state:
  assumes "select_host now excluded r = Inr h" and "layout_ok r" and "(hs_name h, st) \<in> set (rg_states r)"
  shows "host_eligible now excluded st"
proof -
  obtain n s where s: "(n, s) \<in> set (rg_states r)" "ho_spec s = h" "host_eligible now excluded s" using selected_eligible [OF assms(1)] .
  then have "hs_name h = n" using layout_name [OF assms(2)] by blast
  then have "st = s" using s(1) assms(2,3) by (metis eq_key_imp_eq_value layout_ok_def)
  then show ?thesis using s(3) by simp
qed

lemma caps_select:
  assumes inv: "caps_inv n s" and sel: "select_host now excluded (pl_registry s) = Inr h" and n: "length ((thread, hs_name h) # pl_launching s) \<le> n"
  shows "caps_inv n (s\<lparr>pl_launching := (thread, hs_name h) # pl_launching s\<rparr>)"
  unfolding caps_inv_def
proof
  have lay: "layout_ok (pl_registry s)" using inv by (simp add: caps_inv_def)
  then show "layout_ok (pl_registry (s\<lparr>pl_launching := (thread, hs_name h) # pl_launching s\<rparr>))" by simp
  let ?t = "s\<lparr>pl_launching := (thread, hs_name h) # pl_launching s\<rparr>"
  show "\<forall>(name, st) \<in> set (rg_states (pl_registry ?t)). hs_max_workers (ho_spec st) \<noteq> 0 \<longrightarrow>
      int (length (ho_placements st)) + int (launches_on name ?t) < hs_max_workers (ho_spec st) + int n"
  proof clarify
    fix name st assume st: "(name, st) \<in> set (rg_states (pl_registry ?t))" and cap: "hs_max_workers (ho_spec st) \<noteq> 0"
    show "int (length (ho_placements st)) + int (launches_on name ?t) < hs_max_workers (ho_spec st) + int n"
    proof (cases "name = hs_name h")
      case True
      then have "host_eligible now excluded st" using selected_state [OF sel lay] st by simp
      then have "int (length (ho_placements st)) < hs_max_workers (ho_spec st)" using cap by (simp add: host_eligible_def)
      moreover have "launches_on name ?t \<le> n" using n length_filter_le [of "\<lambda>x. snd x = name" "pl_launching ?t"] by (simp add: launches_on_def)
      ultimately show ?thesis by simp
    next
      case False
      then have "launches_on name ?t = launches_on name s" by (simp add: launches_on_def)
      then show ?thesis using inv st cap by (auto simp: caps_inv_def)
    qed
  qed
qed

lemma caps_step: "host_step_within n s t \<Longrightarrow> caps_inv n s \<Longrightarrow> caps_inv n t"
proof -
  assume step: "host_step_within n s t" and inv: "caps_inv n s"
  from step have "host_step s t" and n: "length (pl_launching t) \<le> n" by (simp_all add: host_step_within_def)
  then show ?thesis
  proof cases
    case (hp_select thread now excluded h)
    then show ?thesis using caps_select [OF inv] n by simp
  next
    case (hp_placed thread h cid)
    have "launches_on name s = launches_on name t + (if name = h then 1 else 0)" for name
      by (rule launches_removed [OF hp_placed(2)]) (simp add: hp_placed(1))
    then show ?thesis
      by (intro caps_on_host [OF inv, where h = h and f = "\<lambda>st. st\<lparr>ho_placements := List.insert cid (ho_placements st)\<rparr>"])
        (auto simp: hp_placed(1) record_placement_def List.insert_def)
  next
    case (hp_not_created thread h)
    have "launches_on name s = launches_on name t + (if name = h then 1 else 0)" for name
      by (rule launches_removed [OF hp_not_created(2)]) (simp add: hp_not_created(1))
    then show ?thesis
      by (intro caps_on_host [OF inv, where h = h and f = "\<lambda>st. st"]) (auto simp: hp_not_created(1) on_host_id)
  next
    case (hp_released h cid)
    show ?thesis
      by (intro caps_on_host [OF inv, where h = h and f = "\<lambda>st. st\<lparr>ho_placements := removeAll cid (ho_placements st)\<rparr>"])
        (auto simp: hp_released release_placement_def launches_on_def length_removeAll_less_eq)
  next
    case (hp_failed now h m)
    show ?thesis
      by (rule caps_on_host [OF inv]) (auto simp: hp_failed record_failure_def launches_on_def)
  next
    case (hp_ready now h)
    show ?thesis
      by (rule caps_on_host [OF inv]) (auto simp: hp_ready mark_ready_def launches_on_def)
  next
    case (hp_context h img cpus i)
    show ?thesis
      by (rule caps_on_host [OF inv]) (auto simp: hp_context store_context_def launches_on_def)
  qed
qed

interpretation placements: preserved "host_step_within n" "caps_inv n"
  for n :: nat
  by unfold_locales (rule caps_step)

text \<open>The cap of a host bounds its containers up to the launches that overlap. Starting without containers, while at
  most \<open>n\<close> launches are between the choice of a host and the recording of their container, a host with a cap holds
  fewer than its cap plus \<open>n\<close> containers; with one launch at a time it keeps its cap.\<close>

theorem host_cap_bounded:
  assumes start: "layout_ok (pl_registry s)" "pl_launching s = []" "\<forall>(name, st) \<in> set (rg_states (pl_registry s)). ho_placements st = [] \<and> 0 \<le> hs_max_workers (ho_spec st)"
    and run: "(host_step_within n)\<^sup>*\<^sup>* s t"
    and host: "(name, st) \<in> set (rg_states (pl_registry t))" "hs_max_workers (ho_spec st) \<noteq> 0"
  shows "int (length (ho_placements st)) < hs_max_workers (ho_spec st) + int n"
proof -
  have "caps_inv n s" using start by (auto simp: caps_inv_def launches_on_def)
  with run have "caps_inv n t" by (rule placements.run_inv)
  then have "int (length (ho_placements st)) + int (launches_on name t) < hs_max_workers (ho_spec st) + int n"
    using host by (auto simp: caps_inv_def)
  then show ?thesis by simp
qed

definition example_placements :: "(nat \<times> string) list \<Rightarrow> host_registry \<Rightarrow> placement_system" where
  "example_placements ts r = \<lparr>pl_registry = r, pl_launching = ts\<rparr>"

text \<open>Two launches overlap: both select the only host with a free place before either records its container.\<close>

definition busy_registry :: host_registry where
  "busy_registry = record_failure 0 ''b'' ''down'' (example_registry 1)"

lemma busy_select: "select_host 1 [] busy_registry = Inr (example_host ''a'' 1)"
  by (simp add: busy_registry_def example_registry_defs record_failure_def select_host_def host_eligible_def least_loaded_def)

lemma overlapping_launches:
  "(host_step_within 2)\<^sup>*\<^sup>* (example_placements [] busy_registry)
     (example_placements [] (record_placement ''a'' ''c2'' (record_placement ''a'' ''c1'' busy_registry)))"
proof -
  have name: "hs_name (example_host ''a'' 1) = ''a''" by (simp add: example_host_def)
  have "host_step_within 2 (example_placements [] busy_registry) (example_placements [(1, ''a'')] busy_registry)"
    using hp_select [of 1 "example_placements [] busy_registry" 1 "[]" "example_host ''a'' 1"] busy_select
    by (simp add: host_step_within_def example_placements_def name)
  moreover have "host_step_within 2 (example_placements [(1, ''a'')] busy_registry) (example_placements [(2, ''a''), (1, ''a'')] busy_registry)"
    using hp_select [of 2 "example_placements [(1, ''a'')] busy_registry" 1 "[]" "example_host ''a'' 1"] busy_select
    by (simp add: host_step_within_def example_placements_def name)
  moreover have "host_step_within 2 (example_placements [(2, ''a''), (1, ''a'')] busy_registry)
      (example_placements [(2, ''a'')] (record_placement ''a'' ''c1'' busy_registry))"
    using hp_placed [of 1 "''a''" "example_placements [(2, ''a''), (1, ''a'')] busy_registry" "''c1''"]
    by (simp add: host_step_within_def example_placements_def)
  moreover have "host_step_within 2 (example_placements [(2, ''a'')] (record_placement ''a'' ''c1'' busy_registry))
      (example_placements [] (record_placement ''a'' ''c2'' (record_placement ''a'' ''c1'' busy_registry)))"
    using hp_placed [of 2 "''a''" "example_placements [(2, ''a'')] (record_placement ''a'' ''c1'' busy_registry)" "''c2''"]
    by (simp add: host_step_within_def example_placements_def)
  ultimately show ?thesis by (meson rtranclp.rtrancl_refl rtranclp.rtrancl_into_rtrancl)
qed

lemmas busy_defs = busy_registry_def record_failure_def record_placement_def example_registry_defs

theorem host_cap_bounded_witness:
  "int (length (ho_placements (snd (hd (rg_states (record_placement ''a'' ''c2'' (record_placement ''a'' ''c1'' busy_registry))))))) < 1 + int 2"
proof -
  let ?r = "record_placement ''a'' ''c2'' (record_placement ''a'' ''c1'' busy_registry)"
  have lay: "layout_ok busy_registry" using layout_same [of busy_registry "example_registry 1"] example_layout by (simp add: busy_registry_def)
  have none: "\<forall>(name, st) \<in> set (rg_states busy_registry). ho_placements st = [] \<and> 0 \<le> hs_max_workers (ho_spec st)"
    by (simp add: busy_defs)
  have hd: "(''a'', snd (hd (rg_states ?r))) \<in> set (rg_states ?r)" "hs_max_workers (ho_spec (snd (hd (rg_states ?r)))) = 1"
    by (simp_all add: busy_defs)
  show ?thesis
    using host_cap_bounded [OF _ _ _ overlapping_launches, of "''a''" "snd (hd (rg_states ?r))"] lay none hd
    by (simp add: example_placements_def)
qed

text \<open>The cap of a host is not a hard cap. A host is selected under the lock of the registry, but the place is only
  recorded when the container exists, so two launches that overlap both find the last free place: in a run with two
  launches a host that may hold one container holds two.\<close>

theorem host_cap_exceeded:
  "\<exists>t. (host_step_within 2)\<^sup>*\<^sup>* (example_placements [] busy_registry) t \<and> pl_launching t = [] \<and>
     map_option (\<lambda>st. (hs_max_workers (ho_spec st), ho_placements st)) (map_of (rg_states (pl_registry t)) ''a'') = Some (1, [''c2'', ''c1''])"
  by (rule exI, rule conjI, rule overlapping_launches) (simp add: busy_defs example_placements_def List.insert_def)

subsection \<open>The sweep, and the resources and names of containers\<close>

text \<open>The sweep frees no place of a container that the manager still owns.\<close>

lemma sweep_keeps:
  assumes "sweep_containers fromiso now w guard gone host n cts removed r = (res, r')" and "cid \<in> set (sw_keep w)" and "(name, st) \<in> set (rg_states r)" and "cid \<in> set (ho_placements st)"
  shows "\<exists>st'. (name, st') \<in> set (rg_states r') \<and> cid \<in> set (ho_placements st')"
  using assms
proof (induction fromiso now w guard gone host n cts removed r arbitrary: st rule: sweep_containers.induct)
  case (2 fromiso now w guard gone host n ct cts removed r)
  show ?case
  proof (cases "sweep_removes fromiso now w ct")
    case False
    then show ?thesis using 2 by simp
  next
    case True
    then have other: "ct_id ct \<noteq> cid" using "2.prems"(2) by (auto simp: sweep_removes_def)
    show ?thesis
    proof (cases "guard n")
      case (Inl x)
      then show ?thesis using 2 True by auto
    next
      case (Inr u)
      let ?f = "\<lambda>st :: host_state. st\<lparr>ho_placements := removeAll (ct_id ct) (ho_placements st)\<rparr>"
      have "(name, if name = host then ?f st else st) \<in> set (rg_states (release_placement host (ct_id ct) r))"
        using "2.prems"(3) by (force simp: release_placement_def on_host_def)
      moreover have "cid \<in> set (ho_placements (if name = host then ?f st else st))" using "2.prems"(4) other by auto
      ultimately show ?thesis using "2.IH"(2,3) "2.prems" True Inr by (cases "gone (ct_id ct)") simp_all
    qed
  qed
qed auto

lemma effective_threads_bounded: "1 \<le> available \<Longrightarrow> rs_max_threads (effective_resources available memory chunk config) \<in> {1..available}"
  by (auto simp: effective_resources_def Let_def split: option.splits)

lemma container_name_length: "length (container_name digest namespace resource) \<le> 63"
  by (simp add: container_name_def)

text \<open>With a long namespace and a long resource only half of the digits of the hash remain in the name.\<close>

lemma container_name_cut:
  assumes "15 \<le> length (safe_name namespace)" and "15 \<le> length (safe_name resource)"
  shows "container_name digest namespace resource =
    ''dataforge-compute-worker-'' @ take 15 (safe_name namespace) @ ''-'' @ take 15 (safe_name resource) @ ''-'' @ take 6 digest"
  using assms by (simp add: container_name_def min_absorb2)

end
