(* ===== verification/Response_Recovery.thy ===== *)
theory Response_Recovery
  imports Urls "HOL-Library.AList"
begin

text \<open>
  How a request of the API waits for its compute response (\<open>backend_core/compute_response_recovery.py\<close> and the wait in
  \<open>_submit_and_wait\<close> of \<open>modules/compute/executor_client.py\<close>). All requests run on one event loop and no section under
  the lock of the recovery suspends, so an operation is one atomic step. A notification may be lost; a poll of
  the database recovers it. A terminal request is a value \<open>'r\<close> with its ID; times and log lines are left out.
\<close>

subsection \<open>The operations\<close>

record 'r pending_response =
  pr_namespace :: string
  pr_waiter_count :: nat
  pr_wake_version :: nat
  pr_terminal :: "'r option"
  pr_event_set :: bool

type_synonym 'r recovery = "(string \<times> 'r pending_response) list"

definition MAX_REQUESTS_PER_NAMESPACE_POLL :: nat where
  "MAX_REQUESTS_PER_NAMESPACE_POLL = 256"

definition register :: "string \<Rightarrow> string \<Rightarrow> 'r recovery \<Rightarrow> 'r recovery result" where
  "register rid ns p =
     (case map_of p rid of
        None \<Rightarrow> Inr (p @ [(rid, \<lparr>pr_namespace = ns, pr_waiter_count = 1, pr_wake_version = 0, pr_terminal = None, pr_event_set = False\<rparr>)])
      | Some c \<Rightarrow>
          if pr_namespace c = ns then Inr (AList.update rid (c\<lparr>pr_waiter_count := pr_waiter_count c + 1\<rparr>) p)
          else Inl (ValueError (''Request '' @ rid @ '' is already registered for namespace '' @ [CHR 0x27] @ pr_namespace c @ [CHR 0x27])))"

definition unregister :: "string \<Rightarrow> 'r recovery \<Rightarrow> 'r recovery" where
  "unregister rid p =
     (case map_of p rid of
        None \<Rightarrow> p
      | Some c \<Rightarrow> if pr_waiter_count c \<le> 1 then AList.delete rid p else AList.update rid (c\<lparr>pr_waiter_count := pr_waiter_count c - 1\<rparr>) p)"

definition terminal_request :: "string \<Rightarrow> 'r recovery \<Rightarrow> 'r option" where
  "terminal_request rid p = (case map_of p rid of None \<Rightarrow> None | Some c \<Rightarrow> pr_terminal c)"

definition wake_version :: "string \<Rightarrow> 'r recovery \<Rightarrow> nat" where
  "wake_version rid p = (case map_of p rid of None \<Rightarrow> 0 | Some c \<Rightarrow> pr_wake_version c)"

text \<open>One turn of the loop in \<open>wait_for_wake\<close>: the version to return, or \<open>None\<close> when it goes to sleep on the event.\<close>

definition wake_check :: "string \<Rightarrow> nat \<Rightarrow> 'r recovery \<Rightarrow> nat option \<times> 'r recovery" where
  "wake_check rid last_seen p =
     (case map_of p rid of
        None \<Rightarrow> (Some last_seen, p)
      | Some c \<Rightarrow>
          if pr_wake_version c \<noteq> last_seen then (Some (pr_wake_version c), p)
          else (None, AList.update rid (c\<lparr>pr_event_set := False\<rparr>) p))"

definition notify :: "string \<Rightarrow> 'r recovery \<Rightarrow> 'r recovery" where
  "notify rid p =
     (case map_of p rid of
        None \<Rightarrow> p
      | Some c \<Rightarrow> AList.update rid (c\<lparr>pr_wake_version := pr_wake_version c + 1, pr_event_set := True\<rparr>) p)"

definition recover_response :: "('r \<Rightarrow> string) \<Rightarrow> string \<Rightarrow> 'r \<Rightarrow> 'r recovery \<Rightarrow> 'r recovery" where
  "recover_response rid_of ns tr p =
     (case map_of p (rid_of tr) of
        None \<Rightarrow> p
      | Some c \<Rightarrow>
          if pr_namespace c \<noteq> ns then p
          else AList.update (rid_of tr) (c\<lparr>pr_terminal := Some tr, pr_wake_version := pr_wake_version c + 1, pr_event_set := True\<rparr>) p)"

definition pending_count :: "'r recovery \<Rightarrow> nat" where
  "pending_count p = length p"

text \<open>Nothing in the program calls \<open>clear\<close>, so it is not among the steps below.\<close>

definition clear_pending :: "'r recovery \<Rightarrow> 'r recovery" where
  "clear_pending p = []"

text \<open>The requests of a poll: those without a result, by namespace, in batches.\<close>

definition poll_groups :: "'r recovery \<Rightarrow> (string \<times> string list) list" where
  "poll_groups p =
     fold (\<lambda>(rid, c) g. if pr_terminal c = None then AList.update (pr_namespace c) (case map_of g (pr_namespace c) of None \<Rightarrow> [rid] | Some is \<Rightarrow> is @ [rid]) g else g) p []"

function batched :: "nat \<Rightarrow> 'a list \<Rightarrow> 'a list list" where
  "batched n xs = (if xs = [] \<or> n = 0 then [] else take n xs # batched n (drop n xs))"
  by pat_completeness auto
termination by (relation "measure (\<lambda>(n, xs). length xs)") auto

declare batched.simps [simp del]

definition poll_batches :: "'r recovery \<Rightarrow> (string \<times> string list) list" where
  "poll_batches p = concat (map (\<lambda>(ns, is). map (\<lambda>b. (ns, b)) (batched MAX_REQUESTS_PER_NAMESPACE_POLL is)) (poll_groups p))"

text \<open>\<open>query\<close> is the database query of a batch; a batch whose query fails is skipped.\<close>

definition poll_once :: "('r \<Rightarrow> string) \<Rightarrow> (string \<Rightarrow> string list \<Rightarrow> 'r list result) \<Rightarrow> 'r recovery \<Rightarrow> 'r recovery" where
  "poll_once rid_of query p =
     fold (\<lambda>(ns, b) q. case query ns b of Inl _ \<Rightarrow> q | Inr trs \<Rightarrow> fold (recover_response rid_of ns) trs q) (poll_batches p) p"

subsection \<open>Waiting requests\<close>

text \<open>A waiting request: it looks for a recovered result, reads the database, finds the response still open,
  sleeps, or has been woken. The number is the last version it has seen.\<close>

datatype wait_state = Reading nat | Asking nat | Checked nat | Blocked nat | Woken nat

record waiter =
  wt_request :: string
  wt_namespace :: string
  wt_state :: wait_state

record 'r wait_system =
  wy_recovery :: "'r recovery"
  wy_waiters :: "(nat \<times> waiter) list"
  wy_committed :: "string set"
  wy_owed :: "string set"
  wy_lost :: "string set"

definition set_waiter :: "nat \<Rightarrow> wait_state \<Rightarrow> (nat \<times> waiter) list \<Rightarrow> (nat \<times> waiter) list" where
  "set_waiter t st ws = map (\<lambda>(u, w). (u, if u = t then w\<lparr>wt_state := st\<rparr> else w)) ws"

text \<open>Setting the event resolves the futures of all that sleep on it.\<close>

definition wake_state :: "wait_state \<Rightarrow> wait_state" where
  "wake_state st = (case st of Blocked v \<Rightarrow> Woken v | _ \<Rightarrow> st)"

definition wake_waiters :: "string \<Rightarrow> (nat \<times> waiter) list \<Rightarrow> (nat \<times> waiter) list" where
  "wake_waiters rid ws = map (\<lambda>(u, w). (u, if wt_request w = rid then w\<lparr>wt_state := wake_state (wt_state w)\<rparr> else w)) ws"

text \<open>The steps. A terminal commit owes a notification, which is delivered or lost; what the poll reads is
  committed. A request leaves when it has its response or is cancelled.\<close>

inductive wait_step :: "('r \<Rightarrow> string) \<Rightarrow> 'r wait_system \<Rightarrow> 'r wait_system \<Rightarrow> bool" for rid_of where
  ws_submit: "t \<notin> fst ` set (wy_waiters s) \<Longrightarrow> register rid ns (wy_recovery s) = Inr p \<Longrightarrow>
    wait_step rid_of s (s\<lparr>wy_recovery := p,
      wy_waiters := (t, \<lparr>wt_request = rid, wt_namespace = ns, wt_state = Reading (wake_version rid p)\<rparr>) # wy_waiters s\<rparr>)"
| ws_unrecovered: "(t, w) \<in> set (wy_waiters s) \<Longrightarrow> wt_state w = Reading v \<Longrightarrow> terminal_request (wt_request w) (wy_recovery s) = None \<Longrightarrow>
    wait_step rid_of s (s\<lparr>wy_waiters := set_waiter t (Asking v) (wy_waiters s)\<rparr>)"
| ws_open: "(t, w) \<in> set (wy_waiters s) \<Longrightarrow> wt_state w = Asking v \<Longrightarrow> wt_request w \<notin> wy_committed s \<Longrightarrow>
    wait_step rid_of s (s\<lparr>wy_waiters := set_waiter t (Checked v) (wy_waiters s)\<rparr>)"
| ws_awake: "(t, w) \<in> set (wy_waiters s) \<Longrightarrow> wt_state w \<in> {Checked v, Woken v} \<Longrightarrow> wake_check (wt_request w) v (wy_recovery s) = (Some u, p) \<Longrightarrow>
    wait_step rid_of s (s\<lparr>wy_recovery := p, wy_waiters := set_waiter t (Reading u) (wy_waiters s)\<rparr>)"
| ws_sleep: "(t, w) \<in> set (wy_waiters s) \<Longrightarrow> wt_state w \<in> {Checked v, Woken v} \<Longrightarrow> wake_check (wt_request w) v (wy_recovery s) = (None, p) \<Longrightarrow>
    wait_step rid_of s (s\<lparr>wy_recovery := p, wy_waiters := set_waiter t (Blocked v) (wy_waiters s)\<rparr>)"
| ws_leave: "(t, w) \<in> set (wy_waiters s) \<Longrightarrow>
    wait_step rid_of s (s\<lparr>wy_recovery := unregister (wt_request w) (wy_recovery s), wy_waiters := filter (\<lambda>x. fst x \<noteq> t) (wy_waiters s)\<rparr>)"
| ws_commit: "rid \<notin> wy_committed s \<Longrightarrow>
    wait_step rid_of s (s\<lparr>wy_committed := insert rid (wy_committed s), wy_owed := insert rid (wy_owed s)\<rparr>)"
| ws_notify: "rid \<in> wy_owed s \<Longrightarrow>
    wait_step rid_of s (s\<lparr>wy_recovery := notify rid (wy_recovery s), wy_waiters := wake_waiters rid (wy_waiters s), wy_owed := wy_owed s - {rid}\<rparr>)"
| ws_lost: "rid \<in> wy_owed s \<Longrightarrow> wait_step rid_of s (s\<lparr>wy_owed := wy_owed s - {rid}, wy_lost := insert rid (wy_lost s)\<rparr>)"
| ws_recovered: "rid_of tr \<in> wy_committed s \<Longrightarrow> map_of (wy_recovery s) (rid_of tr) = Some c \<Longrightarrow> pr_namespace c = ns \<Longrightarrow>
    wait_step rid_of s (s\<lparr>wy_recovery := recover_response rid_of ns tr (wy_recovery s), wy_waiters := wake_waiters (rid_of tr) (wy_waiters s),
      wy_lost := wy_lost s - {rid_of tr}\<rparr>)"

definition empty_waits :: "'r wait_system" where
  "empty_waits = \<lparr>wy_recovery = [], wy_waiters = [], wy_committed = {}, wy_owed = {}, wy_lost = {}\<rparr>"

subsection \<open>The invariant\<close>

definition waiters_on :: "string \<Rightarrow> (nat \<times> waiter) list \<Rightarrow> nat" where
  "waiters_on rid ws = length (filter (\<lambda>x. wt_request (snd x) = rid) ws)"

text \<open>What holds for a waiter whose request has the pending entry \<open>c\<close>.\<close>

definition waiter_ok :: "string set \<Rightarrow> string set \<Rightarrow> 'r pending_response \<Rightarrow> waiter \<Rightarrow> bool" where
  "waiter_ok committed due c w \<longleftrightarrow> wt_namespace w = pr_namespace c \<and>
     (case wt_state w of
        Reading v \<Rightarrow> v \<le> pr_wake_version c
      | Asking v \<Rightarrow> v \<le> pr_wake_version c \<and> (v = pr_wake_version c \<longrightarrow> pr_terminal c = None)
      | Checked v \<Rightarrow> v \<le> pr_wake_version c \<and>
          (v = pr_wake_version c \<longrightarrow> pr_terminal c = None \<and> (wt_request w \<in> committed \<longrightarrow> wt_request w \<in> due))
      | Blocked v \<Rightarrow> v = pr_wake_version c \<and> pr_terminal c = None \<and> (wt_request w \<in> committed \<longrightarrow> wt_request w \<in> due)
      | Woken v \<Rightarrow> v < pr_wake_version c)"

definition entry_ok :: "string set \<Rightarrow> (nat \<times> waiter) list \<Rightarrow> string \<Rightarrow> 'r pending_response option \<Rightarrow> bool" where
  "entry_ok committed ws rid entry \<longleftrightarrow>
     (case entry of
        None \<Rightarrow> waiters_on rid ws = 0
      | Some c \<Rightarrow> 0 < waiters_on rid ws \<and> pr_waiter_count c = waiters_on rid ws \<and> (pr_terminal c \<noteq> None \<longrightarrow> rid \<in> committed))"

definition wait_inv :: "'r wait_system \<Rightarrow> bool" where
  "wait_inv s \<longleftrightarrow> distinct (map fst (wy_recovery s)) \<and> distinct (map fst (wy_waiters s)) \<and>
     (\<forall>rid. entry_ok (wy_committed s) (wy_waiters s) rid (map_of (wy_recovery s) rid)) \<and>
     (\<forall>t w c. (t, w) \<in> set (wy_waiters s) \<longrightarrow> map_of (wy_recovery s) (wt_request w) = Some c \<longrightarrow>
        waiter_ok (wy_committed s) (wy_owed s \<union> wy_lost s) c w)"

end
