(* ===== verification/Response_Facts.thy ===== *)
theory Response_Facts
  imports Response_Recovery
begin

text \<open>
  No waiting request sleeps through its response: the invariant of the waits, what a poll covers, and that a request
  which sleeps although its response is committed is either about to be notified or in the next poll.
\<close>

subsection \<open>Waiters\<close>

lemma set_waiter_in: "(u, w') \<in> set (set_waiter t st ws) \<longleftrightarrow> (\<exists>w. (u, w) \<in> set ws \<and> w' = (if u = t then w\<lparr>wt_state := st\<rparr> else w))"
  by (force simp: set_waiter_def)

lemma wake_waiters_in:
  "(u, w') \<in> set (wake_waiters rid ws) \<longleftrightarrow> (\<exists>w. (u, w) \<in> set ws \<and> w' = (if wt_request w = rid then w\<lparr>wt_state := wake_state (wt_state w)\<rparr> else w))"
  by (force simp: wake_waiters_def)

lemma waiters_kept [simp]:
  "map fst (set_waiter t st ws) = map fst ws" "map fst (wake_waiters rid ws) = map fst ws"
  "waiters_on r (set_waiter t st ws) = waiters_on r ws" "waiters_on r (wake_waiters rid ws) = waiters_on r ws"
proof -
  show "map fst (set_waiter t st ws) = map fst ws" "map fst (wake_waiters rid ws) = map fst ws"
    by (simp_all add: set_waiter_def wake_waiters_def comp_def case_prod_unfold)
  show "waiters_on r (set_waiter t st ws) = waiters_on r ws"
    by (simp add: set_waiter_def waiters_on_def filter_map comp_def case_prod_unfold if_distrib [of wt_request])
  have "(\<lambda>x. wt_request (snd x) = r) \<circ> (\<lambda>(u, w). (u, if wt_request w = rid then w\<lparr>wt_state := wake_state (wt_state w)\<rparr> else w)) =
      (\<lambda>x :: nat \<times> waiter. wt_request (snd x) = r)" by (auto simp: fun_eq_iff)
  then show "waiters_on r (wake_waiters rid ws) = waiters_on r ws" by (simp add: wake_waiters_def waiters_on_def filter_map)
qed

lemma waiters_on_pos: "0 < waiters_on rid ws \<longleftrightarrow> (\<exists>t w. (t, w) \<in> set ws \<and> wt_request w = rid)"
  by (force simp: waiters_on_def filter_empty_conv)

lemma waiters_on_filter:
  assumes "distinct (map fst ws)" and "(t, w) \<in> set ws"
  shows "waiters_on rid ws = waiters_on rid (filter (\<lambda>x. fst x \<noteq> t) ws) + (if wt_request w = rid then 1 else 0)"
  using assms
proof (induction ws)
  case (Cons x ws)
  show ?case
  proof (cases "fst x = t")
    case True
    then have "t \<notin> fst ` set ws" using Cons.prems(1) by auto
    then have other: "\<forall>y \<in> set ws. fst y \<noteq> t" by (metis imageI)
    then have "(t, w) \<notin> set ws" by force
    then have "x = (t, w)" using Cons.prems(2) by auto
    moreover have "filter (\<lambda>x. fst x \<noteq> t) ws = ws" using other by (simp add: filter_id_conv)
    ultimately show ?thesis by (simp add: waiters_on_def)
  next
    case False
    then show ?thesis using Cons by (auto simp: waiters_on_def)
  qed
qed simp

lemma waiter_entry:
  assumes "wait_inv s" and "(t, w) \<in> set (wy_waiters s)"
  obtains c where "map_of (wy_recovery s) (wt_request w) = Some c" "waiter_ok (wy_committed s) (wy_owed s \<union> wy_lost s) c w"
proof -
  have "0 < waiters_on (wt_request w) (wy_waiters s)" using assms(2) by (auto simp: waiters_on_pos)
  then obtain c where "map_of (wy_recovery s) (wt_request w) = Some c"
    using assms(1) by (cases "map_of (wy_recovery s) (wt_request w)") (auto simp: wait_inv_def entry_ok_def dest!: spec [of _ "wt_request w"])
  then show ?thesis using that assms by (auto simp: wait_inv_def)
qed

subsection \<open>Preservation\<close>

text \<open>A step that changes entries but neither their counts nor the waiters of any request.\<close>

lemma inv_same_counts:
  assumes inv: "wait_inv s" and dist: "distinct (map fst p)" "map fst ws = map fst (wy_waiters s)"
    and counts: "\<And>rid. waiters_on rid ws = waiters_on rid (wy_waiters s)"
    and none: "\<And>rid. map_of (wy_recovery s) rid = None \<Longrightarrow> map_of p rid = None"
    and some: "\<And>rid c. map_of (wy_recovery s) rid = Some c \<Longrightarrow>
      \<exists>c'. map_of p rid = Some c' \<and> pr_waiter_count c' = pr_waiter_count c \<and> (pr_terminal c' \<noteq> None \<longrightarrow> pr_terminal c \<noteq> None \<or> rid \<in> com)"
    and com: "wy_committed s \<subseteq> com"
    and ok: "\<And>t w c c'. (t, w) \<in> set ws \<Longrightarrow> map_of (wy_recovery s) (wt_request w) = Some c \<Longrightarrow> map_of p (wt_request w) = Some c' \<Longrightarrow> waiter_ok com (owed \<union> lost) c' w"
  shows "wait_inv \<lparr>wy_recovery = p, wy_waiters = ws, wy_committed = com, wy_owed = owed, wy_lost = lost\<rparr>"
proof -
  have entries: "entry_ok (wy_committed s) (wy_waiters s) rid (map_of (wy_recovery s) rid)" for rid using inv by (simp add: wait_inv_def)
  have "distinct (map fst ws)" using inv dist(2) by (simp add: wait_inv_def)
  moreover have "entry_ok com ws rid (map_of p rid)" for rid
  proof (cases "map_of (wy_recovery s) rid")
    case None
    then show ?thesis using entries [of rid] none [OF None] counts by (simp add: entry_ok_def)
  next
    case (Some c)
    then show ?thesis using entries [of rid] some [OF Some] counts com by (auto simp: entry_ok_def)
  qed
  moreover have "waiter_ok com (owed \<union> lost) c' w" if tw: "(t, w) \<in> set ws" and c': "map_of p (wt_request w) = Some c'" for t w c'
  proof -
    obtain c where "map_of (wy_recovery s) (wt_request w) = Some c" using none [of "wt_request w"] c' by fastforce
    then show ?thesis using ok tw c' by blast
  qed
  ultimately show ?thesis using dist(1) unfolding wait_inv_def by simp
qed

lemma inv_parts: "wait_inv s \<Longrightarrow> distinct (map fst (wy_recovery s)) \<and> distinct (map fst (wy_waiters s))"
  by (simp add: wait_inv_def)

lemma inv_ok: "wait_inv s \<Longrightarrow> (t, w) \<in> set (wy_waiters s) \<Longrightarrow> map_of (wy_recovery s) (wt_request w) = Some c \<Longrightarrow> waiter_ok (wy_committed s) (wy_owed s \<union> wy_lost s) c w"
  by (simp add: wait_inv_def)

lemma same_waiter: "wait_inv s \<Longrightarrow> (t, w) \<in> set (wy_waiters s) \<Longrightarrow> (t, w') \<in> set (wy_waiters s) \<Longrightarrow> w = w'"
  by (metis inv_parts eq_key_imp_eq_value)

text \<open>A waiter moves on, with the entries unchanged up to the flag of the event.\<close>

lemma inv_move:
  assumes inv: "wait_inv s" and tw: "(t, w) \<in> set (wy_waiters s)" and c: "map_of (wy_recovery s) (wt_request w) = Some c"
    and p: "p = wy_recovery s \<or> p = AList.update (wt_request w) (c\<lparr>pr_event_set := e\<rparr>) (wy_recovery s)"
    and ok: "waiter_ok (wy_committed s) (wy_owed s \<union> wy_lost s) c (w\<lparr>wt_state := st\<rparr>)"
  shows "wait_inv (s\<lparr>wy_recovery := p, wy_waiters := set_waiter t st (wy_waiters s)\<rparr>)"
proof -
  have at: "map_of p r = map_of (wy_recovery s) r \<or> r = wt_request w \<and> map_of p r = Some (c\<lparr>pr_event_set := e\<rparr>)" for r
    using p by (cases "r = wt_request w") (auto simp: update_conv')
  have "wait_inv \<lparr>wy_recovery = p, wy_waiters = set_waiter t st (wy_waiters s), wy_committed = wy_committed s, wy_owed = wy_owed s, wy_lost = wy_lost s\<rparr>"
  proof (rule inv_same_counts [OF inv])
    show "distinct (map fst p)" using p inv_parts [OF inv] by (auto simp: distinct_update)
    show "\<exists>c'. map_of p r = Some c' \<and> pr_waiter_count c' = pr_waiter_count d \<and> (pr_terminal c' \<noteq> None \<longrightarrow> pr_terminal d \<noteq> None \<or> r \<in> wy_committed s)"
      if "map_of (wy_recovery s) r = Some d" for r d
      using at [of r] that c by auto
    show "map_of p r = None" if "map_of (wy_recovery s) r = None" for r using at [of r] that c by auto
    show "waiter_ok (wy_committed s) (wy_owed s \<union> wy_lost s) c' w'"
      if w': "(u, w') \<in> set (set_waiter t st (wy_waiters s))" "map_of (wy_recovery s) (wt_request w') = Some d" "map_of p (wt_request w') = Some c'" for u w' d c'
    proof -
      obtain x where x: "(u, x) \<in> set (wy_waiters s)" "w' = (if u = t then x\<lparr>wt_state := st\<rparr> else x)" using w'(1) by (auto simp: set_waiter_in)
      have req: "wt_request w' = wt_request x" using x(2) by simp
      have "waiter_ok (wy_committed s) (wy_owed s \<union> wy_lost s) d w'"
      proof (cases "u = t")
        case True
        then have "x = w" using same_waiter [OF inv tw] x(1) by blast
        then show ?thesis using x(2) True ok w'(2) c by simp
      next
        case False
        then show ?thesis using x w'(2) inv_ok [OF inv x(1)] by simp
      qed
      moreover have "c' = d \<or> c' = d\<lparr>pr_event_set := e\<rparr>" using at [of "wt_request w'"] w'(2,3) c by auto
      ultimately show ?thesis by (auto simp: waiter_ok_def split: wait_state.splits)
    qed
  qed simp_all
  then show ?thesis by (cases s) simp
qed

text \<open>A notification or a recovered result: the version grows and all sleepers of the request are woken.\<close>

lemma inv_wake:
  assumes inv: "wait_inv s" and c: "map_of (wy_recovery s) rid = Some c"
    and c': "pr_namespace c' = pr_namespace c" "pr_waiter_count c' = pr_waiter_count c" "pr_wake_version c' = pr_wake_version c + 1"
      "pr_terminal c' \<noteq> None \<longrightarrow> pr_terminal c \<noteq> None \<or> rid \<in> wy_committed s"
    and rest: "owed \<union> lost \<union> {rid} = wy_owed s \<union> wy_lost s \<union> {rid}"
  shows "wait_inv \<lparr>wy_recovery = AList.update rid c' (wy_recovery s), wy_waiters = wake_waiters rid (wy_waiters s), wy_committed = wy_committed s,
    wy_owed = owed, wy_lost = lost\<rparr>"
proof (rule inv_same_counts [OF inv])
  show "distinct (map fst (AList.update rid c' (wy_recovery s)))" using inv_parts [OF inv] by (simp add: distinct_update)
  show "\<exists>x. map_of (AList.update rid c' (wy_recovery s)) r = Some x \<and> pr_waiter_count x = pr_waiter_count d \<and> (pr_terminal x \<noteq> None \<longrightarrow> pr_terminal d \<noteq> None \<or> r \<in> wy_committed s)"
    if "map_of (wy_recovery s) r = Some d" for r d
    using that c c' by (cases "r = rid") (auto simp: update_conv')
  show "map_of (AList.update rid c' (wy_recovery s)) r = None" if "map_of (wy_recovery s) r = None" for r
    using that c by (cases "r = rid") (auto simp: update_conv')
  show "waiter_ok (wy_committed s) (owed \<union> lost) x w"
    if w: "(u, w) \<in> set (wake_waiters rid (wy_waiters s))" "map_of (wy_recovery s) (wt_request w) = Some d"
      "map_of (AList.update rid c' (wy_recovery s)) (wt_request w) = Some x" for u w d x
  proof -
    obtain y where y: "(u, y) \<in> set (wy_waiters s)" "w = (if wt_request y = rid then y\<lparr>wt_state := wake_state (wt_state y)\<rparr> else y)"
      using w(1) by (auto simp: wake_waiters_in)
    have req: "wt_request w = wt_request y" using y(2) by simp
    have old: "waiter_ok (wy_committed s) (wy_owed s \<union> wy_lost s) d y" using inv_ok [OF inv y(1)] w(2) req by simp
    show ?thesis
    proof (cases "wt_request y = rid")
      case True
      then have "d = c" "x = c'" using w(2,3) c req by (auto simp: update_conv')
      then show ?thesis using old y(2) True c' by (auto simp: waiter_ok_def wake_state_def split: wait_state.splits)
    next
      case False
      then have "x = d" "w = y" using w(2,3) y(2) req by (auto simp: update_conv')
      moreover have "wt_request y \<in> owed \<union> lost \<longleftrightarrow> wt_request y \<in> wy_owed s \<union> wy_lost s" using rest False by auto
      ultimately show ?thesis using old by (auto simp: waiter_ok_def split: wait_state.splits)
    qed
  qed
qed simp_all

lemma inv_nobody:
  assumes inv: "wait_inv s" and none: "map_of (wy_recovery s) rid = None"
    and rest: "owed \<union> lost \<union> {rid} = wy_owed s \<union> wy_lost s \<union> {rid}"
  shows "wait_inv \<lparr>wy_recovery = wy_recovery s, wy_waiters = wake_waiters rid (wy_waiters s), wy_committed = wy_committed s, wy_owed = owed, wy_lost = lost\<rparr>"
proof -
  have "entry_ok (wy_committed s) (wy_waiters s) rid (map_of (wy_recovery s) rid)" using inv by (simp add: wait_inv_def)
  then have no: "wt_request w \<noteq> rid" if "(u, w) \<in> set (wy_waiters s)" for u w using that waiters_on_pos [of rid "wy_waiters s"] none by (auto simp: entry_ok_def)
  show ?thesis
  proof (rule inv_same_counts [OF inv])
    show "waiter_ok (wy_committed s) (owed \<union> lost) x w"
      if w: "(u, w) \<in> set (wake_waiters rid (wy_waiters s))" "map_of (wy_recovery s) (wt_request w) = Some d" "map_of (wy_recovery s) (wt_request w) = Some x" for u w d x
    proof -
      have "(u, w) \<in> set (wy_waiters s)" using w(1) no by (auto simp: wake_waiters_in)
      moreover have "wt_request w \<in> owed \<union> lost \<longleftrightarrow> wt_request w \<in> wy_owed s \<union> wy_lost s" using rest no [OF calculation] by auto
      ultimately show ?thesis using inv_ok [OF inv _ w(3)] by (auto simp: waiter_ok_def split: wait_state.splits)
    qed
  qed (use inv_parts [OF inv] in auto)
qed

lemma inv_register:
  fixes s :: "'a wait_system"
  assumes inv: "wait_inv s" and new: "t \<notin> fst ` set (wy_waiters s)" and reg: "register rid ns (wy_recovery s) = Inr p"
  shows "wait_inv (s\<lparr>wy_recovery := p, wy_waiters := (t, \<lparr>wt_request = rid, wt_namespace = ns, wt_state = Reading (wake_version rid p)\<rparr>) # wy_waiters s\<rparr>)"
proof -
  let ?w = "\<lparr>wt_request = rid, wt_namespace = ns, wt_state = Reading (wake_version rid p)\<rparr>"
  let ?ws = "(t, ?w) # wy_waiters s"
  have entries: "entry_ok (wy_committed s) (wy_waiters s) r (map_of (wy_recovery s) r)" for r using inv by (simp add: wait_inv_def)
  obtain c' where c': "map_of p rid = Some c'" "\<And>r. r \<noteq> rid \<Longrightarrow> map_of p r = map_of (wy_recovery s) r" "distinct (map fst p)" "pr_namespace c' = ns"
      "(case map_of (wy_recovery s) rid of None \<Rightarrow> pr_waiter_count c' = 1 \<and> pr_terminal c' = None
        | Some c \<Rightarrow> c' = c\<lparr>pr_waiter_count := pr_waiter_count c + 1\<rparr>)"
  proof (cases "map_of (wy_recovery s) rid")
    case None
    define n :: "'a pending_response" where "n = \<lparr>pr_namespace = ns, pr_waiter_count = 1, pr_wake_version = 0, pr_terminal = None, pr_event_set = False\<rparr>"
    have p: "p = wy_recovery s @ [(rid, n)]" using None reg by (simp add: register_def n_def)
    have "rid \<notin> fst ` set (wy_recovery s)" using None by (simp add: map_of_eq_None_iff)
    then have d: "distinct (map fst p)" using inv_parts [OF inv] by (simp add: p)
    have at: "map_of p rid = Some n" by (simp only: p map_of_append map_add_def None) simp
    have "map_of p r = map_of (wy_recovery s) r" if "r \<noteq> rid" for r
      using that by (cases "map_of (wy_recovery s) r") (simp_all add: p map_add_def)
    then show ?thesis using that [OF at _ d] None by (simp add: n_def)
  next
    case (Some c)
    then have r: "pr_namespace c = ns" "p = AList.update rid (c\<lparr>pr_waiter_count := pr_waiter_count c + 1\<rparr>) (wy_recovery s)"
      using reg by (auto simp: register_def split: if_splits)
    then show ?thesis using that [of "c\<lparr>pr_waiter_count := pr_waiter_count c + 1\<rparr>"] Some inv_parts [OF inv] by (simp add: update_conv' distinct_update)
  qed
  have "entry_ok (wy_committed s) ?ws r (map_of p r)" for r
  proof (cases "r = rid")
    case True
    then show ?thesis using c'(1,5) entries [of rid]
      by (cases "map_of (wy_recovery s) rid") (auto simp: entry_ok_def waiters_on_def)
  next
    case False
    then show ?thesis using c'(2) entries [of r] by (simp add: entry_ok_def waiters_on_def split: option.splits)
  qed
  moreover have "waiter_ok (wy_committed s) (wy_owed s \<union> wy_lost s) x w" if w: "(u, w) \<in> set ?ws" "map_of p (wt_request w) = Some x" for u w x
  proof (cases "(u, w) = (t, ?w)")
    case True
    then show ?thesis using w(2) c'(1,4) by (auto simp: waiter_ok_def wake_version_def)
  next
    case False
    then have old: "(u, w) \<in> set (wy_waiters s)" using w(1) by auto
    then obtain c where c: "map_of (wy_recovery s) (wt_request w) = Some c" "waiter_ok (wy_committed s) (wy_owed s \<union> wy_lost s) c w"
      using waiter_entry [OF inv] by blast
    have "x = c \<or> x = c\<lparr>pr_waiter_count := pr_waiter_count c + 1\<rparr>" using c' w(2) c(1) by (cases "wt_request w = rid") auto
    then show ?thesis using c(2) by (auto simp: waiter_ok_def split: wait_state.splits)
  qed
  ultimately show ?thesis using c'(3) new inv_parts [OF inv] unfolding wait_inv_def by simp
qed

lemma inv_leave:
  assumes inv: "wait_inv s" and tw: "(t, w) \<in> set (wy_waiters s)"
  shows "wait_inv (s\<lparr>wy_recovery := unregister (wt_request w) (wy_recovery s), wy_waiters := filter (\<lambda>x. fst x \<noteq> t) (wy_waiters s)\<rparr>)"
proof -
  let ?r = "wt_request w" let ?ws = "filter (\<lambda>x. fst x \<noteq> t) (wy_waiters s)" let ?p = "unregister ?r (wy_recovery s)"
  have entries: "entry_ok (wy_committed s) (wy_waiters s) r (map_of (wy_recovery s) r)" for r using inv by (simp add: wait_inv_def)
  obtain c where c: "map_of (wy_recovery s) ?r = Some c" using waiter_entry [OF inv tw] by blast
  note count = waiters_on_filter [OF conjunct2 [OF inv_parts [OF inv]] tw]
  have pc: "pr_waiter_count c = waiters_on ?r ?ws + 1" using entries [of ?r] c count [of ?r] by (simp add: entry_ok_def)
  have at: "map_of ?p r = (if r = ?r then (if waiters_on ?r ?ws = 0 then None else Some (c\<lparr>pr_waiter_count := waiters_on ?r ?ws\<rparr>)) else map_of (wy_recovery s) r)" for r
    using c pc by (auto simp: unregister_def update_conv' AList.delete_conv')
  have "distinct (map fst ?p)" using inv_parts [OF inv] c by (simp add: unregister_def distinct_update distinct_delete)
  moreover have "distinct (map fst ?ws)" using inv_parts [OF inv] by (simp add: distinct_map_filter)
  moreover have "entry_ok (wy_committed s) ?ws r (map_of ?p r)" for r
  proof (cases "r = ?r")
    case True
    then show ?thesis using at [of r] entries [of r] c by (simp add: entry_ok_def)
  next
    case False
    then show ?thesis using at [of r] entries [of r] count [of r] by (simp add: entry_ok_def split: option.splits)
  qed
  moreover have "waiter_ok (wy_committed s) (wy_owed s \<union> wy_lost s) x v" if v: "(u, v) \<in> set ?ws" "map_of ?p (wt_request v) = Some x" for u v x
  proof -
    have "(u, v) \<in> set (wy_waiters s)" using v(1) by simp
    then obtain d where d: "map_of (wy_recovery s) (wt_request v) = Some d" "waiter_ok (wy_committed s) (wy_owed s \<union> wy_lost s) d v"
      using waiter_entry [OF inv] by blast
    then have "x = d \<or> x = d\<lparr>pr_waiter_count := waiters_on ?r ?ws\<rparr>" using v(2) at [of "wt_request v"] c by (auto split: if_splits)
    then show ?thesis using d(2) by (auto simp: waiter_ok_def split: wait_state.splits)
  qed
  ultimately show ?thesis unfolding wait_inv_def by simp
qed

lemma wait_step_inv: "wait_step rid_of s s' \<Longrightarrow> wait_inv s \<Longrightarrow> wait_inv s'"
proof (induction rule: wait_step.induct)
  case (ws_submit t s rid ns p)
  then show ?case by (intro inv_register)
next
  case (ws_unrecovered t w s v)
  obtain c where c: "map_of (wy_recovery s) (wt_request w) = Some c" "waiter_ok (wy_committed s) (wy_owed s \<union> wy_lost s) c w"
    using waiter_entry [OF ws_unrecovered.prems ws_unrecovered.hyps(1)] .
  have "waiter_ok (wy_committed s) (wy_owed s \<union> wy_lost s) c (w\<lparr>wt_state := Asking v\<rparr>)"
    using c ws_unrecovered.hyps(2,3) by (simp add: waiter_ok_def terminal_request_def)
  then show ?case using inv_move [OF ws_unrecovered.prems ws_unrecovered.hyps(1) c(1), of "wy_recovery s"] by simp
next
  case (ws_open t w s v)
  obtain c where c: "map_of (wy_recovery s) (wt_request w) = Some c" "waiter_ok (wy_committed s) (wy_owed s \<union> wy_lost s) c w"
    using waiter_entry [OF ws_open.prems ws_open.hyps(1)] .
  have "waiter_ok (wy_committed s) (wy_owed s \<union> wy_lost s) c (w\<lparr>wt_state := Checked v\<rparr>)" using c(2) ws_open.hyps(2,3) by (simp add: waiter_ok_def)
  then show ?case using inv_move [OF ws_open.prems ws_open.hyps(1) c(1), of "wy_recovery s"] by simp
next
  case (ws_awake t w s v u p)
  obtain c where c: "map_of (wy_recovery s) (wt_request w) = Some c" "waiter_ok (wy_committed s) (wy_owed s \<union> wy_lost s) c w"
    using waiter_entry [OF ws_awake.prems ws_awake.hyps(1)] .
  then have "p = wy_recovery s" "u = pr_wake_version c" using ws_awake.hyps(3) by (auto simp: wake_check_def split: if_splits)
  moreover have "waiter_ok (wy_committed s) (wy_owed s \<union> wy_lost s) c (w\<lparr>wt_state := Reading (pr_wake_version c)\<rparr>)" using c(2) by (simp add: waiter_ok_def)
  ultimately show ?case using inv_move [OF ws_awake.prems ws_awake.hyps(1) c(1)] by blast
next
  case (ws_sleep t w s v p)
  obtain c where c: "map_of (wy_recovery s) (wt_request w) = Some c" "waiter_ok (wy_committed s) (wy_owed s \<union> wy_lost s) c w"
    using waiter_entry [OF ws_sleep.prems ws_sleep.hyps(1)] .
  then have p: "p = AList.update (wt_request w) (c\<lparr>pr_event_set := False\<rparr>) (wy_recovery s)" "v = pr_wake_version c"
    using ws_sleep.hyps(3) by (auto simp: wake_check_def split: if_splits)
  have "waiter_ok (wy_committed s) (wy_owed s \<union> wy_lost s) c (w\<lparr>wt_state := Blocked v\<rparr>)" using c(2) ws_sleep.hyps(2) p(2) by (auto simp: waiter_ok_def)
  then show ?case using inv_move [OF ws_sleep.prems ws_sleep.hyps(1) c(1)] p(1) by blast
next
  case (ws_leave t w s)
  then show ?case by (intro inv_leave)
next
  case (ws_commit rid s)
  have "wait_inv \<lparr>wy_recovery = wy_recovery s, wy_waiters = wy_waiters s, wy_committed = insert rid (wy_committed s), wy_owed = insert rid (wy_owed s), wy_lost = wy_lost s\<rparr>"
  proof (rule inv_same_counts [OF ws_commit.prems])
    show "waiter_ok (insert rid (wy_committed s)) (insert rid (wy_owed s) \<union> wy_lost s) x w"
      if "(u, w) \<in> set (wy_waiters s)" "map_of (wy_recovery s) (wt_request w) = Some d" "map_of (wy_recovery s) (wt_request w) = Some x" for u w d x
      using inv_ok [OF ws_commit.prems that(1,3)] by (auto simp: waiter_ok_def split: wait_state.splits)
  qed (use inv_parts [OF ws_commit.prems] in auto)
  then show ?case by (cases s) simp
next
  case (ws_notify rid s)
  have "wait_inv \<lparr>wy_recovery = notify rid (wy_recovery s), wy_waiters = wake_waiters rid (wy_waiters s), wy_committed = wy_committed s, wy_owed = wy_owed s - {rid}, wy_lost = wy_lost s\<rparr>"
  proof (cases "map_of (wy_recovery s) rid")
    case None
    then show ?thesis using inv_nobody [OF ws_notify.prems None, of "wy_owed s - {rid}" "wy_lost s"] by (auto simp: notify_def)
  next
    case (Some c)
    then have n: "notify rid (wy_recovery s) = AList.update rid (c\<lparr>pr_wake_version := pr_wake_version c + 1, pr_event_set := True\<rparr>) (wy_recovery s)" by (simp add: notify_def)
    show ?thesis unfolding n by (rule inv_wake [OF ws_notify.prems Some]) auto
  qed
  then show ?case by (cases s) simp
next
  case (ws_lost rid s)
  have "wait_inv \<lparr>wy_recovery = wy_recovery s, wy_waiters = wy_waiters s, wy_committed = wy_committed s, wy_owed = wy_owed s - {rid}, wy_lost = insert rid (wy_lost s)\<rparr>"
  proof (rule inv_same_counts [OF ws_lost.prems])
    show "waiter_ok (wy_committed s) (wy_owed s - {rid} \<union> insert rid (wy_lost s)) x w"
      if "(u, w) \<in> set (wy_waiters s)" "map_of (wy_recovery s) (wt_request w) = Some d" "map_of (wy_recovery s) (wt_request w) = Some x" for u w d x
      using inv_ok [OF ws_lost.prems that(1,3)] by (auto simp: waiter_ok_def split: wait_state.splits)
  qed (use inv_parts [OF ws_lost.prems] in auto)
  then show ?case by (cases s) simp
next
  case (ws_recovered tr s c ns)
  have n: "recover_response rid_of ns tr (wy_recovery s) =
      AList.update (rid_of tr) (c\<lparr>pr_terminal := Some tr, pr_wake_version := pr_wake_version c + 1, pr_event_set := True\<rparr>) (wy_recovery s)"
    using ws_recovered.hyps(2,3) by (simp add: recover_response_def)
  have "wait_inv \<lparr>wy_recovery = recover_response rid_of ns tr (wy_recovery s), wy_waiters = wake_waiters (rid_of tr) (wy_waiters s),
      wy_committed = wy_committed s, wy_owed = wy_owed s, wy_lost = wy_lost s - {rid_of tr}\<rparr>"
    unfolding n by (rule inv_wake [OF ws_recovered.prems ws_recovered.hyps(2)]) (use ws_recovered.hyps(1) in auto)
  then show ?case by (cases s) simp
qed

interpretation waits: preserved "wait_step rid_of" wait_inv
  for rid_of :: "'r \<Rightarrow> string"
  by unfold_locales (rule wait_step_inv)

lemma waits_inv: "(wait_step rid_of)\<^sup>*\<^sup>* empty_waits s \<Longrightarrow> wait_inv s"
proof (erule waits.run_inv)
  show "wait_inv empty_waits" by (simp add: wait_inv_def empty_waits_def entry_ok_def waiters_on_def)
qed

subsection \<open>What a poll covers\<close>

lemma concat_batched: "0 < n \<Longrightarrow> concat (batched n xs) = xs"
  by (induction n xs rule: batched.induct) (subst batched.simps, simp)

lemma batched_small: "b \<in> set (batched n xs) \<Longrightarrow> length b \<le> n"
proof (induction n xs rule: batched.induct)
  case (1 n xs)
  then show ?case by (subst (asm) batched.simps) (auto split: if_splits)
qed

lemma groups_cover:
  assumes "(rid, c) \<in> set p" and "pr_terminal c = None"
  shows "\<exists>is. map_of (poll_groups p) (pr_namespace c) = Some is \<and> rid \<in> set is"
proof -
  let ?f = "\<lambda>(rid, c) g. if pr_terminal c = None then AList.update (pr_namespace c) (case map_of g (pr_namespace c) of None \<Rightarrow> [rid] | Some is \<Rightarrow> is @ [rid]) g else g"
  have keep: "map_of g ns = Some is \<Longrightarrow> rid \<in> set is \<Longrightarrow> \<exists>is'. map_of (fold ?f q g) ns = Some is' \<and> rid \<in> set is'" for q g ns "is"
  proof (induction q arbitrary: g "is")
    case (Cons x q)
    have "\<exists>is'. map_of (?f x g) ns = Some is' \<and> rid \<in> set is'" using Cons.prems
      by (cases x, cases "ns = pr_namespace (snd x)") (auto simp: update_conv')
    then show ?case using Cons.IH by auto
  qed simp
  obtain a b where p: "p = a @ (rid, c) # b" using assms(1) by (auto simp: in_set_conv_decomp)
  obtain "is" where "map_of (?f (rid, c) (fold ?f a [])) (pr_namespace c) = Some is" "rid \<in> set is"
    using assms(2) by (auto simp: update_conv' split: option.splits)
  then have "\<exists>is. map_of (fold ?f b (?f (rid, c) (fold ?f a []))) (pr_namespace c) = Some is \<and> rid \<in> set is" by (rule keep)
  then show ?thesis by (simp add: poll_groups_def p)
qed

lemma batches_cover:
  assumes "(rid, c) \<in> set p" and "pr_terminal c = None"
  shows "\<exists>b. (pr_namespace c, b) \<in> set (poll_batches p) \<and> rid \<in> set b"
proof -
  obtain "is" where g: "map_of (poll_groups p) (pr_namespace c) = Some is" "rid \<in> set is" using groups_cover [OF assms] by blast
  then have "rid \<in> set (concat (batched MAX_REQUESTS_PER_NAMESPACE_POLL is))" by (simp add: concat_batched MAX_REQUESTS_PER_NAMESPACE_POLL_def)
  then obtain b where "b \<in> set (batched MAX_REQUESTS_PER_NAMESPACE_POLL is)" "rid \<in> set b" by auto
  then show ?thesis using map_of_SomeD [OF g(1)] by (force simp: poll_batches_def)
qed

text \<open>C16: no waiting request sleeps through its response. However submissions, database reads, commits, delivered and
  lost notifications, polls and cancellations interleave, a request that sleeps has seen every wake-up so far and
  stays registered in its namespace. If its response is already committed, then its notification is still to be
  delivered or was lost, and the next poll asks for it in a batch of its namespace of at most 256
  requests and wakes it with the response.\<close>

theorem no_response_slept_through:
  assumes "(wait_step rid_of)\<^sup>*\<^sup>* empty_waits s" and "(t, w) \<in> set (wy_waiters s)" and "wt_state w = Blocked v"
  shows "\<exists>c b. map_of (wy_recovery s) (wt_request w) = Some c \<and> pr_namespace c = wt_namespace w \<and> pr_wake_version c = v \<and> pr_terminal c = None \<and>
    (wt_request w \<in> wy_committed s \<longrightarrow> wt_request w \<in> wy_owed s \<union> wy_lost s) \<and>
    (wt_namespace w, b) \<in> set (poll_batches (wy_recovery s)) \<and> wt_request w \<in> set b \<and> length b \<le> 256 \<and>
    (\<forall>tr. rid_of tr = wt_request w \<longrightarrow> wake_version (wt_request w) (recover_response rid_of (wt_namespace w) tr (wy_recovery s)) = v + 1 \<and>
       terminal_request (wt_request w) (recover_response rid_of (wt_namespace w) tr (wy_recovery s)) = Some tr)"
proof -
  have inv: "wait_inv s" by (rule waits_inv [OF assms(1)])
  obtain c where c: "map_of (wy_recovery s) (wt_request w) = Some c" "waiter_ok (wy_committed s) (wy_owed s \<union> wy_lost s) c w"
    using waiter_entry [OF inv assms(2)] .
  then have f: "pr_namespace c = wt_namespace w" "pr_wake_version c = v" "pr_terminal c = None" "wt_request w \<in> wy_committed s \<longrightarrow> wt_request w \<in> wy_owed s \<union> wy_lost s"
    using assms(3) by (simp_all add: waiter_ok_def)
  obtain b where b: "(wt_namespace w, b) \<in> set (poll_batches (wy_recovery s))" "wt_request w \<in> set b"
    using batches_cover [OF map_of_SomeD [OF c(1)] f(3)] f(1) by auto
  have "length b \<le> 256" using b(1) batched_small [of b] by (auto simp: poll_batches_def MAX_REQUESTS_PER_NAMESPACE_POLL_def)
  moreover have "wake_version (wt_request w) (recover_response rid_of (wt_namespace w) tr (wy_recovery s)) = v + 1 \<and>
      terminal_request (wt_request w) (recover_response rid_of (wt_namespace w) tr (wy_recovery s)) = Some tr" if "rid_of tr = wt_request w" for tr
    using that c(1) f by (simp add: recover_response_def wake_version_def terminal_request_def update_conv')
  ultimately show ?thesis using c(1) f b by blast
qed

text \<open>A request sleeps, its response is committed and the notification is lost.\<close>

definition sleeping_wait :: "string wait_system" where
  "sleeping_wait =
     \<lparr>wy_recovery = [(''r1'', \<lparr>pr_namespace = ''n'', pr_waiter_count = 1, pr_wake_version = 0, pr_terminal = None, pr_event_set = False\<rparr>)],
      wy_waiters = [(1, \<lparr>wt_request = ''r1'', wt_namespace = ''n'', wt_state = Blocked 0\<rparr>)], wy_committed = {''r1''}, wy_owed = {}, wy_lost = {''r1''}\<rparr>"

lemma sleeping_wait_reached: "(wait_step (\<lambda>r. r))\<^sup>*\<^sup>* empty_waits sleeping_wait"
proof -
  let ?e = "\<lparr>pr_namespace = ''n'', pr_waiter_count = 1, pr_wake_version = 0, pr_terminal = None, pr_event_set = False\<rparr> :: string pending_response"
  let ?s = "\<lambda>st. \<lparr>wy_recovery = [(''r1'', ?e)], wy_waiters = [(1, \<lparr>wt_request = ''r1'', wt_namespace = ''n'', wt_state = st\<rparr>)], wy_committed = {}, wy_owed = {}, wy_lost = {}\<rparr>"
  let ?step = "wait_step (\<lambda>r. r)"
  have 1: "?step empty_waits (?s (Reading 0))"
    using ws_submit [of 1 empty_waits "''r1''" "''n''" "[(''r1'', ?e)]" "\<lambda>r. r"] by (simp add: empty_waits_def register_def wake_version_def)
  have 2: "?step (?s (Reading 0)) (?s (Asking 0))"
    using ws_unrecovered [of 1 "\<lparr>wt_request = ''r1'', wt_namespace = ''n'', wt_state = Reading 0\<rparr>" "?s (Reading 0)" 0 "\<lambda>r. r"] by (simp add: terminal_request_def set_waiter_def)
  have 3: "?step (?s (Asking 0)) (?s (Checked 0))"
    using ws_open [of 1 "\<lparr>wt_request = ''r1'', wt_namespace = ''n'', wt_state = Asking 0\<rparr>" "?s (Asking 0)" 0 "\<lambda>r. r"] by (simp add: set_waiter_def)
  have 4: "?step (?s (Checked 0)) (?s (Blocked 0))"
    using ws_sleep [of 1 "\<lparr>wt_request = ''r1'', wt_namespace = ''n'', wt_state = Checked 0\<rparr>" "?s (Checked 0)" 0 "[(''r1'', ?e)]" "\<lambda>r. r"] by (simp add: wake_check_def set_waiter_def)
  have 5: "?step (?s (Blocked 0)) ((?s (Blocked 0))\<lparr>wy_committed := {''r1''}, wy_owed := {''r1''}\<rparr>)"
    using ws_commit [of "''r1''" "?s (Blocked 0)" "\<lambda>r. r"] by simp
  have 6: "?step ((?s (Blocked 0))\<lparr>wy_committed := {''r1''}, wy_owed := {''r1''}\<rparr>) sleeping_wait"
    using ws_lost [of "''r1''" "(?s (Blocked 0))\<lparr>wy_committed := {''r1''}, wy_owed := {''r1''}\<rparr>" "\<lambda>r. r"] by (simp add: sleeping_wait_def)
  show ?thesis using 1 2 3 4 5 6 by (meson rtranclp.rtrancl_refl rtranclp.rtrancl_into_rtrancl)
qed

theorem no_response_slept_through_witness:
  "''r1'' \<in> wy_owed sleeping_wait \<union> wy_lost sleeping_wait \<and>
   wake_version ''r1'' (recover_response (\<lambda>r. r) ''n'' ''r1'' (wy_recovery sleeping_wait)) = 1"
  using no_response_slept_through [OF sleeping_wait_reached, of 1 "\<lparr>wt_request = ''r1'', wt_namespace = ''n'', wt_state = Blocked 0\<rparr>" 0]
  by (auto simp: sleeping_wait_def)

end
