(* ===== verification/Lineage.thy ===== *)
theory Lineage
  imports Analysis_Cycles Pipeline_Types
begin

text \<open>
  The lineage graph of datasources and analyses (\<open>modules/datasource/service_lineage.py\<close>). Nodes are a dict in order of
  insertion, edges a list without repetitions; the search from a target datasource is breadth first. Primary
  keys are unique. \<open>rep\<close> is \<open>repr\<close> of a nested JSON value.
\<close>

subsection \<open>The graph\<close>

datatype node_kind = Internal | Output | Source | Analysis_Node

datatype edge_type = Chains | Produces | Consumes_Internal | Uses

record analysis_row =
  ar_id :: string
  ar_name :: string
  ar_status :: string

record lineage_node =
  ln_kind :: node_kind
  ln_name :: string
  ln_source_type :: "string option"
  ln_branch :: "string option"
  ln_status :: "string option"

type_synonym lineage_edge = "string \<times> string \<times> edge_type"

record lineage_tables =
  lt_datasources :: "datasource list"
  lt_analyses :: "analysis_row list"
  lt_links :: "analysis_link list"

record lineage_query =
  lq_target :: "string option"
  lq_branch :: "string option"
  lq_include_internals :: bool
  lq_mode :: string

definition datasource_key :: "string \<Rightarrow> string" where
  "datasource_key i = ''datasource:'' @ i"

definition analysis_key :: "string \<Rightarrow> string" where
  "analysis_key i = ''analysis:'' @ i"

definition is_internal :: "lineage_tables \<Rightarrow> datasource \<Rightarrow> bool" where
  "is_internal t d \<longleftrightarrow> truthy (ds_created_by_analysis_id d) \<and>
     list_ex (\<lambda>l. al_datasource_id l = ds_id d \<and> Some (al_analysis_id l) = ds_created_by_analysis_id d) (lt_links t)"

definition classify_datasource :: "lineage_tables \<Rightarrow> datasource \<Rightarrow> node_kind" where
  "classify_datasource t d = (if is_internal t d then Internal else if truthy (ds_created_by_analysis_id d) then Output else Source)"

definition query_branch :: "lineage_query \<Rightarrow> string option" where
  "query_branch q = (case lq_branch q of None \<Rightarrow> None | Some b \<Rightarrow> if py_strip b = [] then None else Some (py_strip b))"

definition config_value :: "string \<Rightarrow> datasource \<Rightarrow> json option" where
  "config_value k d = (case ds_config d of JObj c \<Rightarrow> (case map_of c k of Some JNull \<Rightarrow> None | v \<Rightarrow> v) | _ \<Rightarrow> None)"

definition datasource_branch :: "(json \<Rightarrow> string) \<Rightarrow> lineage_query \<Rightarrow> datasource \<Rightarrow> string option" where
  "datasource_branch rep q d =
     (if truthy (lq_target q) \<and> Some (ds_id d) = lq_target q \<and> query_branch q \<noteq> None then query_branch q
      else map_option (py_str rep) (config_value ''branch'' d))"

definition datasource_node :: "(json \<Rightarrow> string) \<Rightarrow> lineage_query \<Rightarrow> lineage_tables \<Rightarrow> datasource \<Rightarrow> lineage_node" where
  "datasource_node rep q t d =
     \<lparr>ln_kind = classify_datasource t d, ln_name = ds_name d, ln_source_type = Some (ds_source_type d), ln_branch = datasource_branch rep q d, ln_status = None\<rparr>"

definition analysis_node :: "analysis_row \<Rightarrow> lineage_node" where
  "analysis_node a = \<lparr>ln_kind = Analysis_Node, ln_name = ar_name a, ln_source_type = None, ln_branch = None, ln_status = Some (ar_status a)\<rparr>"

definition add_node :: "string \<Rightarrow> lineage_node \<Rightarrow> (string \<times> lineage_node) list \<Rightarrow> (string \<times> lineage_node) list" where
  "add_node k n ns = (if k \<in> fst ` set ns then ns else ns @ [(k, n)])"

definition add_edge :: "lineage_edge \<Rightarrow> lineage_edge list \<Rightarrow> lineage_edge list" where
  "add_edge e es = (if e \<in> set es then es else es @ [e])"

type_synonym lineage_graph = "(string \<times> lineage_node) list \<times> lineage_edge list"

definition add_datasource :: "(json \<Rightarrow> string) \<Rightarrow> lineage_query \<Rightarrow> lineage_tables \<Rightarrow> datasource \<Rightarrow> lineage_graph \<Rightarrow> lineage_graph" where
  "add_datasource rep q t d g =
     (case g of (ns, es) \<Rightarrow>
        let ns1 = add_node (datasource_key (ds_id d)) (datasource_node rep q t d) ns
        in if \<not> truthy (ds_created_by_analysis_id d) then (ns1, es)
           else case get_row ar_id (the (ds_created_by_analysis_id d)) (lt_analyses t) of
                  None \<Rightarrow> (ns1, es)
                | Some a \<Rightarrow>
                    (add_node (analysis_key (ar_id a)) (analysis_node a) ns1,
                     add_edge (analysis_key (ar_id a), datasource_key (ds_id d), if is_internal t d then Chains else Produces) es))"

definition add_link :: "(json \<Rightarrow> string) \<Rightarrow> lineage_query \<Rightarrow> lineage_tables \<Rightarrow> analysis_link \<Rightarrow> lineage_graph \<Rightarrow> lineage_graph" where
  "add_link rep q t l g =
     (case g of (ns, es) \<Rightarrow>
        (case (get_row ds_id (al_datasource_id l) (lt_datasources t), get_row ar_id (al_analysis_id l) (lt_analyses t)) of
           (Some d, Some a) \<Rightarrow>
             (add_node (analysis_key (ar_id a)) (analysis_node a) (add_node (datasource_key (ds_id d)) (datasource_node rep q t d) ns),
              add_edge (datasource_key (ds_id d), analysis_key (ar_id a),
                if is_internal t d \<and> ds_created_by_analysis_id d = Some (ar_id a) then Consumes_Internal else Uses) es)
         | _ \<Rightarrow> (ns, es)))"

definition full_lineage :: "(json \<Rightarrow> string) \<Rightarrow> lineage_query \<Rightarrow> lineage_tables \<Rightarrow> lineage_graph" where
  "full_lineage rep q t =
     (let g1 = fold (add_datasource rep q t) (lt_datasources t) ([], []);
          g2 = (fold (\<lambda>a ns. add_node (analysis_key (ar_id a)) (analysis_node a) ns) (lt_analyses t) (fst g1), snd g1)
      in fold (add_link rep q t) (lt_links t) g2)"

subsection \<open>The search\<close>

definition lineage_types :: "bool \<Rightarrow> edge_type set" where
  "lineage_types include_internals = (if include_internals then {Uses, Produces, Chains, Consumes_Internal} else {Uses, Produces})"

definition arcs :: "lineage_query \<Rightarrow> lineage_edge list \<Rightarrow> (string \<times> string) list" where
  "arcs q es =
     map (\<lambda>(a, b, _). if lq_mode q = ''upstream'' then (b, a) else (a, b)) (filter (\<lambda>(_, _, ty). ty \<in> lineage_types (lq_include_internals q)) es)"

definition neighbours :: "(string \<times> string) list \<Rightarrow> string \<Rightarrow> string list" where
  "neighbours as x = remdups (map snd (filter (\<lambda>a. fst a = x) as))"

function bfs :: "(string \<times> string) list \<Rightarrow> string list \<Rightarrow> string list \<Rightarrow> string list" where
  "bfs as reachable [] = reachable"
| "bfs as reachable (x # queue) =
     (let new = filter (\<lambda>y. y \<notin> set reachable) (neighbours as x) in bfs as (reachable @ new) (queue @ new))"
  by pat_completeness auto

termination
proof (relation "measures [\<lambda>(as, reachable, _). card (snd ` set as - set reachable), \<lambda>(_, _, queue). length queue]", simp, goal_cases)
  case (1 as reachable x queue new)
  show ?case
  proof (cases "new = []")
    case False
    then obtain y where "y \<in> set new" by (cases new) auto
    then have "y \<in> snd ` set as - set reachable" using 1 by (auto simp: neighbours_def)
    then have "snd ` set as - set (reachable @ new) \<subset> snd ` set as - set reachable" using \<open>y \<in> set new\<close> by auto
    then show ?thesis by (simp add: psubset_card_mono)
  qed simp
qed

definition restrict_lineage :: "string list \<Rightarrow> lineage_graph \<Rightarrow> lineage_graph" where
  "restrict_lineage reachable g =
     (case g of (ns, es) \<Rightarrow> (filter (\<lambda>(k, _). k \<in> set reachable) ns, filter (\<lambda>(a, b, _). a \<in> set reachable \<and> b \<in> set reachable) es))"

definition hide_internals :: "lineage_graph \<Rightarrow> lineage_graph" where
  "hide_internals g =
     (case g of (ns, es) \<Rightarrow>
        let hidden = map fst (filter (\<lambda>(_, n). ln_kind n = Internal) ns)
        in (filter (\<lambda>(k, _). k \<notin> set hidden) ns,
            filter (\<lambda>(a, b, ty). ty \<notin> {Chains, Consumes_Internal} \<and> a \<notin> set hidden \<and> b \<notin> set hidden) es))"

definition target_visible :: "string \<Rightarrow> lineage_query \<Rightarrow> lineage_tables \<Rightarrow> bool" where
  "target_visible namespace q t \<longleftrightarrow>
     (if truthy (lq_target q)
      then (case get_row ds_id (the (lq_target q)) (lt_datasources t) of
              None \<Rightarrow> False
            | Some d \<Rightarrow> (case config_value ''namespace_name'' d of
                           None \<Rightarrow> True
                         | Some v \<Rightarrow> v \<in> {JBool False, JInt 0, JStr [], JList [], JObj []} \<or> v = JStr namespace))
      else True)"

definition directed :: "lineage_query \<Rightarrow> bool" where
  "directed q \<longleftrightarrow> lq_mode q \<in> {''upstream'', ''downstream''} \<and> truthy (lq_target q)"

definition build_lineage :: "(json \<Rightarrow> string) \<Rightarrow> string \<Rightarrow> lineage_query \<Rightarrow> lineage_tables \<Rightarrow> lineage_graph" where
  "build_lineage rep namespace q t =
     (if \<not> target_visible namespace q t then ([], [])
      else let g = full_lineage rep q t;
               target = datasource_key (the (lq_target q))
           in if directed q \<and> target \<notin> fst ` set (fst g) then ([], [])
              else let g' = (if directed q then restrict_lineage (bfs (arcs q (snd g)) [target] [target]) g else g)
                   in if lq_include_internals q then g' else hide_internals g')"

end
