(* ===== verification/Lineage_Facts.thy ===== *)
theory Lineage_Facts
  imports Lineage
begin

text \<open>
  The lineage graph is the graph of the tables: its nodes are the rows that the target reaches in the
  direction of the query, its edges those between them.
\<close>

subsection \<open>What the tables say\<close>

definition lineage_nodes :: "lineage_tables \<Rightarrow> string set" where
  "lineage_nodes t = datasource_key ` ds_id ` set (lt_datasources t) \<union> analysis_key ` ar_id ` set (lt_analyses t)"

definition producer_edge :: "lineage_tables \<Rightarrow> lineage_edge \<Rightarrow> bool" where
  "producer_edge t e \<longleftrightarrow>
     (\<exists>d \<in> set (lt_datasources t). \<exists>a \<in> set (lt_analyses t). truthy (ds_created_by_analysis_id d) \<and> ds_created_by_analysis_id d = Some (ar_id a) \<and>
        e = (analysis_key (ar_id a), datasource_key (ds_id d), if is_internal t d then Chains else Produces))"

definition reader_edge :: "lineage_tables \<Rightarrow> lineage_edge \<Rightarrow> bool" where
  "reader_edge t e \<longleftrightarrow>
     (\<exists>l \<in> set (lt_links t). \<exists>d \<in> set (lt_datasources t). \<exists>a \<in> set (lt_analyses t). ds_id d = al_datasource_id l \<and> ar_id a = al_analysis_id l \<and>
        e = (datasource_key (ds_id d), analysis_key (ar_id a), if is_internal t d \<and> ds_created_by_analysis_id d = Some (ar_id a) then Consumes_Internal else Uses))"

definition lineage_edges :: "lineage_tables \<Rightarrow> lineage_edge set" where
  "lineage_edges t = {e. producer_edge t e \<or> reader_edge t e}"

definition internal_keys :: "lineage_tables \<Rightarrow> string set" where
  "internal_keys t = {datasource_key (ds_id d) | d. d \<in> set (lt_datasources t) \<and> is_internal t d}"

definition tables_ok :: "lineage_tables \<Rightarrow> bool" where
  "tables_ok t \<longleftrightarrow> distinct (map ds_id (lt_datasources t)) \<and> distinct (map ar_id (lt_analyses t))"

lemma keys_differ [simp]: "datasource_key i \<noteq> analysis_key j" "analysis_key j \<noteq> datasource_key i"
  by (simp_all add: datasource_key_def analysis_key_def)

lemma keys_inj [simp]: "datasource_key i = datasource_key j \<longleftrightarrow> i = j" "analysis_key i = analysis_key j \<longleftrightarrow> i = j"
  by (simp_all add: datasource_key_def analysis_key_def)

lemma row_of:
  assumes "distinct (map f rows)" and "r \<in> set rows"
  shows "get_row f (f r) rows = Some r"
  using assms by (induction rows) (auto simp: get_row_def)

lemma row_in: "get_row f k rows = Some r \<Longrightarrow> r \<in> set rows \<and> f r = k"
  using get_row_SomeD [of f k rows r] by blast

lemma row_none: "get_row f k rows = None \<Longrightarrow> r \<in> set rows \<Longrightarrow> f r \<noteq> k"
  by (auto simp: get_row_def find_None_iff)

subsection \<open>The full graph\<close>

text \<open>A partial graph: nodes of the tables, each as its row says, and some of the edges.\<close>

definition node_right :: "(json \<Rightarrow> string) \<Rightarrow> lineage_query \<Rightarrow> lineage_tables \<Rightarrow> string \<times> lineage_node \<Rightarrow> bool" where
  "node_right rep q t x \<longleftrightarrow>
     (\<exists>d \<in> set (lt_datasources t). x = (datasource_key (ds_id d), datasource_node rep q t d)) \<or> (\<exists>a \<in> set (lt_analyses t). x = (analysis_key (ar_id a), analysis_node a))"

definition graph_ok :: "(json \<Rightarrow> string) \<Rightarrow> lineage_query \<Rightarrow> lineage_tables \<Rightarrow> string set \<Rightarrow> lineage_edge set \<Rightarrow> lineage_graph \<Rightarrow> bool" where
  "graph_ok rep q t K E g \<longleftrightarrow> distinct (map fst (fst g)) \<and> (\<forall>x \<in> set (fst g). node_right rep q t x) \<and> fst ` set (fst g) = K \<and> distinct (snd g) \<and> set (snd g) = E"

lemma graph_add_node: "graph_ok rep q t K E (ns, es) \<Longrightarrow> node_right rep q t (k, n) \<Longrightarrow> graph_ok rep q t (insert k K) E (add_node k n ns, es)"
  by (auto simp: graph_ok_def add_node_def)

lemma graph_add_edge: "graph_ok rep q t K E (ns, es) \<Longrightarrow> graph_ok rep q t K (insert e E) (ns, add_edge e es)"
  by (auto simp: graph_ok_def add_edge_def)

definition producers :: "lineage_tables \<Rightarrow> datasource \<Rightarrow> analysis_row set" where
  "producers t d = {a \<in> set (lt_analyses t). truthy (ds_created_by_analysis_id d) \<and> ds_created_by_analysis_id d = Some (ar_id a)}"

definition datasource_keys_of :: "lineage_tables \<Rightarrow> datasource \<Rightarrow> string set" where
  "datasource_keys_of t d = insert (datasource_key (ds_id d)) ((\<lambda>a. analysis_key (ar_id a)) ` producers t d)"

definition datasource_edges_of :: "lineage_tables \<Rightarrow> datasource \<Rightarrow> lineage_edge set" where
  "datasource_edges_of t d = (\<lambda>a. (analysis_key (ar_id a), datasource_key (ds_id d), if is_internal t d then Chains else Produces)) ` producers t d"

lemma add_datasource_ok:
  assumes t: "tables_ok t" and d: "d \<in> set (lt_datasources t)" and g: "graph_ok rep q t K E g"
  shows "graph_ok rep q t (datasource_keys_of t d \<union> K) (datasource_edges_of t d \<union> E) (add_datasource rep q t d g)"
proof -
  obtain ns es where ge: "g = (ns, es)" by (cases g)
  let ?ns = "add_node (datasource_key (ds_id d)) (datasource_node rep q t d) ns"
  have 1: "graph_ok rep q t (insert (datasource_key (ds_id d)) K) E (?ns, es)"
    by (rule graph_add_node) (use g ge d in \<open>auto simp: node_right_def\<close>)
  consider "\<not> truthy (ds_created_by_analysis_id d)" | "truthy (ds_created_by_analysis_id d)" "get_row ar_id (the (ds_created_by_analysis_id d)) (lt_analyses t) = None"
    | a where "truthy (ds_created_by_analysis_id d)" "get_row ar_id (the (ds_created_by_analysis_id d)) (lt_analyses t) = Some a" by fastforce
  then show ?thesis
  proof cases
    case none: 1
    then have "producers t d = {}" by (simp add: producers_def)
    then show ?thesis using none 1 by (simp add: add_datasource_def ge Let_def datasource_keys_of_def datasource_edges_of_def)
  next
    case 2
    have "ds_created_by_analysis_id d \<noteq> Some (ar_id b)" if "b \<in> set (lt_analyses t)" for b using row_none [OF 2(2) that] by auto
    then have "producers t d = {}" by (auto simp: producers_def)
    then show ?thesis using 1 2 by (simp add: add_datasource_def ge Let_def datasource_keys_of_def datasource_edges_of_def)
  next
    case (3 a)
    have a: "a \<in> set (lt_analyses t)" "ds_created_by_analysis_id d = Some (ar_id a)"
      using row_in [OF 3(2)] 3(1) by (auto simp: truthy_def split: option.splits)
    have "b = a" if b: "b \<in> producers t d" for b
    proof -
      have "b \<in> set (lt_analyses t)" "ar_id b = ar_id a" using b a(2) by (simp_all add: producers_def)
      then show ?thesis using a(1) t row_of [of ar_id "lt_analyses t" a] row_of [of ar_id "lt_analyses t" b] by (simp add: tables_ok_def)
    qed
    moreover have "a \<in> producers t d" using a 3(1) by (simp add: producers_def)
    ultimately have p: "producers t d = {a}" by blast
    have "graph_ok rep q t (insert (analysis_key (ar_id a)) (insert (datasource_key (ds_id d)) K)) E (add_node (analysis_key (ar_id a)) (analysis_node a) ?ns, es)"
      by (rule graph_add_node [OF 1]) (use a(1) in \<open>auto simp: node_right_def\<close>)
    from graph_add_edge [OF this] show ?thesis using 3 by (simp add: add_datasource_def ge Let_def p datasource_keys_of_def datasource_edges_of_def insert_commute)
  qed
qed

definition link_edges_of :: "lineage_tables \<Rightarrow> analysis_link \<Rightarrow> lineage_edge set" where
  "link_edges_of t l = {(datasource_key (ds_id d), analysis_key (ar_id a), if is_internal t d \<and> ds_created_by_analysis_id d = Some (ar_id a) then Consumes_Internal else Uses) | d a.
     d \<in> set (lt_datasources t) \<and> a \<in> set (lt_analyses t) \<and> ds_id d = al_datasource_id l \<and> ar_id a = al_analysis_id l}"

lemma add_link_ok:
  assumes t: "tables_ok t" and g: "graph_ok rep q t K E g" and K: "lineage_nodes t \<subseteq> K"
  shows "graph_ok rep q t K (link_edges_of t l \<union> E) (add_link rep q t l g)"
proof -
  obtain ns es where ge: "g = (ns, es)" by (cases g)
  show ?thesis
  proof (cases "get_row ds_id (al_datasource_id l) (lt_datasources t)")
    case None
    then have "link_edges_of t l = {}" using row_none [OF None] by (auto simp: link_edges_of_def)
    then show ?thesis using g None by (simp add: add_link_def ge)
  next
    case (Some d)
    show ?thesis
    proof (cases "get_row ar_id (al_analysis_id l) (lt_analyses t)")
      case None
      then have "link_edges_of t l = {}" using row_none [OF None] by (auto simp: link_edges_of_def)
      then show ?thesis using g Some None by (simp add: add_link_def ge)
    next
      case a: (Some a)
      have da: "d \<in> set (lt_datasources t)" "ds_id d = al_datasource_id l" "a \<in> set (lt_analyses t)" "ar_id a = al_analysis_id l"
        using row_in [OF Some] row_in [OF a] by simp_all
      have only_d: "x = d" if "x \<in> set (lt_datasources t)" "ds_id x = al_datasource_id l" for x
        using row_of [of ds_id "lt_datasources t" x] that t Some by (simp add: tables_ok_def)
      have only_a: "y = a" if "y \<in> set (lt_analyses t)" "ar_id y = al_analysis_id l" for y
        using row_of [of ar_id "lt_analyses t" y] that t a by (simp add: tables_ok_def)
      have edges: "link_edges_of t l = {(datasource_key (ds_id d), analysis_key (ar_id a),
          if is_internal t d \<and> ds_created_by_analysis_id d = Some (ar_id a) then Consumes_Internal else Uses)}"
        unfolding link_edges_of_def using da only_d only_a by blast
      have in_K: "insert (analysis_key (ar_id a)) (insert (datasource_key (ds_id d)) K) = K" using K da(1,3) by (force simp: lineage_nodes_def)
      have "graph_ok rep q t (insert (analysis_key (ar_id a)) (insert (datasource_key (ds_id d)) K)) E
          (add_node (analysis_key (ar_id a)) (analysis_node a) (add_node (datasource_key (ds_id d)) (datasource_node rep q t d) ns), es)"
        by (intro graph_add_node) (use g ge da(1,3) in \<open>auto simp: node_right_def\<close>)
      from graph_add_edge [OF this] show ?thesis unfolding in_K using Some a by (simp add: add_link_def ge edges)
    qed
  qed
qed

lemma full_lineage_ok:
  assumes t: "tables_ok t"
  shows "graph_ok rep q t (lineage_nodes t) (lineage_edges t) (full_lineage rep q t)"
proof -
  have ds: "graph_ok rep q t ((\<Union>d \<in> set xs. datasource_keys_of t d) \<union> K) ((\<Union>d \<in> set xs. datasource_edges_of t d) \<union> E) (fold (add_datasource rep q t) xs g)"
    if "set xs \<subseteq> set (lt_datasources t)" "graph_ok rep q t K E g" for xs K E g
    using that
  proof (induction xs arbitrary: K E g)
    case (Cons x xs)
    then have "graph_ok rep q t (datasource_keys_of t x \<union> K) (datasource_edges_of t x \<union> E) (add_datasource rep q t x g)" by (intro add_datasource_ok [OF t]) simp_all
    from Cons.IH [OF _ this] Cons.prems(1) show ?case by (simp add: Un_ac)
  qed simp
  have as: "graph_ok rep q t (analysis_key ` ar_id ` set xs \<union> K) E (fold (\<lambda>a ns. add_node (analysis_key (ar_id a)) (analysis_node a) ns) xs ns, es)"
    if "set xs \<subseteq> set (lt_analyses t)" "graph_ok rep q t K E (ns, es)" for xs K E ns es
    using that
  proof (induction xs arbitrary: K ns)
    case (Cons x xs)
    then have "graph_ok rep q t (insert (analysis_key (ar_id x)) K) E (add_node (analysis_key (ar_id x)) (analysis_node x) ns, es)"
      by (intro graph_add_node) (auto simp: node_right_def)
    from Cons.IH [OF _ this] Cons.prems(1) show ?case by simp
  qed simp
  have ls: "graph_ok rep q t (lineage_nodes t) ((\<Union>l \<in> set xs. link_edges_of t l) \<union> E) (fold (add_link rep q t) xs g)" if "graph_ok rep q t (lineage_nodes t) E g" for xs E g
    using that
  proof (induction xs arbitrary: E g)
    case (Cons x xs)
    from add_link_ok [OF t Cons.prems order_refl, of x] have "graph_ok rep q t (lineage_nodes t) (link_edges_of t x \<union> E) (add_link rep q t x g)" .
    from Cons.IH [OF this] show ?case by (simp add: Un_ac)
  qed simp
  let ?g1 = "fold (add_datasource rep q t) (lt_datasources t) ([], [])"
  have "graph_ok rep q t {} {} ([], [])" by (simp add: graph_ok_def)
  from ds [OF order_refl this] have 1: "graph_ok rep q t (\<Union>d \<in> set (lt_datasources t). datasource_keys_of t d) (\<Union>d \<in> set (lt_datasources t). datasource_edges_of t d) (fst ?g1, snd ?g1)" by simp
  have nodes: "analysis_key ` ar_id ` set (lt_analyses t) \<union> (\<Union>d \<in> set (lt_datasources t). datasource_keys_of t d) = lineage_nodes t"
    by (auto simp: lineage_nodes_def datasource_keys_of_def producers_def)
  have edges: "(\<Union>l \<in> set (lt_links t). link_edges_of t l) \<union> (\<Union>d \<in> set (lt_datasources t). datasource_edges_of t d) = lineage_edges t"
  proof -
    have "(\<Union>l \<in> set (lt_links t). link_edges_of t l) = {e. reader_edge t e}" unfolding reader_edge_def link_edges_of_def by blast
    moreover have "(\<Union>d \<in> set (lt_datasources t). datasource_edges_of t d) = {e. producer_edge t e}" unfolding producer_edge_def datasource_edges_of_def producers_def by blast
    ultimately show ?thesis by (auto simp: lineage_edges_def)
  qed
  from ls [OF as [OF order_refl 1, unfolded nodes], of "lt_links t"] show ?thesis unfolding edges by (simp add: full_lineage_def Let_def)
qed

subsection \<open>The search\<close>

lemma neighbours_iff: "z \<in> set (neighbours as y) \<longleftrightarrow> (y, z) \<in> set as"
  by (force simp: neighbours_def)

lemma bfs_closed:
  "set queue \<subseteq> set reach \<Longrightarrow> \<forall>y \<in> set reach - set queue. \<forall>z. (y, z) \<in> set as \<longrightarrow> z \<in> set reach \<Longrightarrow>
   set reach \<subseteq> set (bfs as reach queue) \<and> (\<forall>y \<in> set (bfs as reach queue). \<forall>z. (y, z) \<in> set as \<longrightarrow> z \<in> set (bfs as reach queue))"
proof (induction as reach queue rule: bfs.induct)
  case (2 as reach x queue)
  define new where "new = filter (\<lambda>y. y \<notin> set reach) (neighbours as x)"
  have "set (queue @ new) \<subseteq> set (reach @ new)" using "2.prems"(1) by auto
  moreover have "\<forall>y \<in> set (reach @ new) - set (queue @ new). \<forall>z. (y, z) \<in> set as \<longrightarrow> z \<in> set (reach @ new)"
  proof (intro ballI allI impI)
    fix y z assume y: "y \<in> set (reach @ new) - set (queue @ new)" and yz: "(y, z) \<in> set as"
    show "z \<in> set (reach @ new)"
    proof (cases "y = x")
      case True
      then show ?thesis using yz by (auto simp: new_def neighbours_iff)
    next
      case False
      then have "y \<in> set reach - set (x # queue)" using y by auto
      then have "z \<in> set reach" using "2.prems"(2) yz by blast
      then show ?thesis by simp
    qed
  qed
  ultimately have "set (reach @ new) \<subseteq> set (bfs as (reach @ new) (queue @ new)) \<and>
      (\<forall>y \<in> set (bfs as (reach @ new) (queue @ new)). \<forall>z. (y, z) \<in> set as \<longrightarrow> z \<in> set (bfs as (reach @ new) (queue @ new)))"
    by (rule "2.IH" [OF new_def])
  moreover have "bfs as reach (x # queue) = bfs as (reach @ new) (queue @ new)" by (simp add: new_def Let_def)
  ultimately show ?case by simp
qed simp

lemma bfs_sound:
  "set queue \<subseteq> set reach \<Longrightarrow> \<forall>y \<in> set reach. (x, y) \<in> (set as)\<^sup>* \<Longrightarrow> \<forall>y \<in> set (bfs as reach queue). (x, y) \<in> (set as)\<^sup>*"
proof (induction as reach queue rule: bfs.induct)
  case (2 as reach u queue)
  define new where "new = filter (\<lambda>y. y \<notin> set reach) (neighbours as u)"
  have "(x, y) \<in> (set as)\<^sup>*" if "y \<in> set new" for y
    using that "2.prems" by (auto simp: new_def neighbours_iff intro: rtrancl_into_rtrancl)
  then have "\<forall>y \<in> set (reach @ new). (x, y) \<in> (set as)\<^sup>*" using "2.prems"(2) by auto
  moreover have "set (queue @ new) \<subseteq> set (reach @ new)" using "2.prems"(1) by auto
  ultimately show ?case using "2.IH" [OF new_def] by (simp add: new_def Let_def)
qed simp

declare bfs.simps(2) [simp del]

lemma bfs_exact: "set (bfs as [x] [x]) = {y. (x, y) \<in> (set as)\<^sup>*}"
proof
  show "set (bfs as [x] [x]) \<subseteq> {y. (x, y) \<in> (set as)\<^sup>*}" using bfs_sound [of "[x]" "[x]" x as] by auto
  have closed: "x \<in> set (bfs as [x] [x])" "\<And>y z. y \<in> set (bfs as [x] [x]) \<Longrightarrow> (y, z) \<in> set as \<Longrightarrow> z \<in> set (bfs as [x] [x])"
    using bfs_closed [of "[x]" "[x]" as] by auto
  have "y \<in> set (bfs as [x] [x])" if "(x, y) \<in> (set as)\<^sup>*" for y
    using that by (induction rule: rtrancl_induct) (auto intro: closed)
  then show "{y. (x, y) \<in> (set as)\<^sup>*} \<subseteq> set (bfs as [x] [x])" by blast
qed

subsection \<open>The answer to a query\<close>

text \<open>One step of the lineage in the direction of the query.\<close>

definition lineage_step :: "lineage_query \<Rightarrow> lineage_tables \<Rightarrow> (string \<times> string) set" where
  "lineage_step q t =
     {(a, b). \<exists>ty \<in> lineage_types (lq_include_internals q). (if lq_mode q = ''upstream'' then (b, a, ty) else (a, b, ty)) \<in> lineage_edges t}"

definition shown :: "lineage_query \<Rightarrow> lineage_tables \<Rightarrow> string \<Rightarrow> bool" where
  "shown q t k \<longleftrightarrow> (directed q \<longrightarrow> (datasource_key (the (lq_target q)), k) \<in> (lineage_step q t)\<^sup>*) \<and> (lq_include_internals q \<or> k \<notin> internal_keys t)"

lemma arcs_step: "set es = lineage_edges t \<Longrightarrow> set (arcs q es) = lineage_step q t"
  by (cases "lq_mode q = ''upstream''") (force simp: arcs_def lineage_step_def)+

lemma node_internal:
  assumes t: "tables_ok t" and n: "node_right rep q t (k, n)"
  shows "ln_kind n = Internal \<longleftrightarrow> k \<in> internal_keys t"
proof -
  from n consider d where "d \<in> set (lt_datasources t)" "k = datasource_key (ds_id d)" "n = datasource_node rep q t d"
    | a where "a \<in> set (lt_analyses t)" "k = analysis_key (ar_id a)" "n = analysis_node a" by (auto simp: node_right_def)
  then show ?thesis
  proof cases
    case (1 d)
    have "is_internal t d" if k: "k \<in> internal_keys t"
    proof -
      obtain x where x: "ds_id d = ds_id x" "x \<in> set (lt_datasources t)" "is_internal t x" using k 1(2) by (auto simp: internal_keys_def)
      then have "x = d" using row_of [of ds_id "lt_datasources t" x] row_of [of ds_id "lt_datasources t" d] 1(1) t by (simp add: tables_ok_def)
      then show ?thesis using x(3) by simp
    qed
    then have "k \<in> internal_keys t \<longleftrightarrow> is_internal t d" using 1(1,2) by (auto simp: internal_keys_def)
    then show ?thesis by (simp add: 1(3) datasource_node_def classify_datasource_def)
  next
    case (2 a)
    then show ?thesis by (auto simp: internal_keys_def analysis_node_def)
  qed
qed

lemma hidden_keys:
  assumes t: "tables_ok t" and g: "graph_ok rep q t K E (ns, es)"
  shows "set (map fst (filter (\<lambda>(_, n). ln_kind n = Internal) ns)) = internal_keys t \<inter> fst ` set ns"
proof -
  have "ln_kind n = Internal \<longleftrightarrow> k \<in> internal_keys t" if "(k, n) \<in> set ns" for k n
    using node_internal [OF t] g that by (auto simp: graph_ok_def)
  then show ?thesis by force
qed

lemma edge_ends: "(a, b, ty) \<in> lineage_edges t \<Longrightarrow> a \<in> lineage_nodes t \<and> b \<in> lineage_nodes t"
  by (auto simp: lineage_edges_def producer_edge_def reader_edge_def lineage_nodes_def)

text \<open>Two filters of a graph.\<close>

lemma graph_filter:
  assumes "graph_ok rep q t K E (ns, es)"
  shows "graph_ok rep q t {k \<in> K. P k} {e \<in> E. Q e} (filter (\<lambda>(k, _). P k) ns, filter Q es)"
  using assms by (force simp: graph_ok_def distinct_map_filter case_prod_unfold)

text \<open>C18: the lineage answers exactly what the tables say. For a target of another namespace or without a row the
  graph is empty. Otherwise its nodes are the datasources and analyses, restricted for an upstream or downstream
  query to those that the target reaches against or along the edges, and without the internal datasources
  unless they are asked for; its edges are the ones between these nodes. No node and no edge is repeated, every
  edge ends in nodes of the graph, and every node shows its row.\<close>

theorem lineage_exact:
  assumes t: "tables_ok t"
  shows "if target_visible namespace q t
    then distinct (map fst (fst (build_lineage rep namespace q t))) \<and> distinct (snd (build_lineage rep namespace q t)) \<and>
      fst ` set (fst (build_lineage rep namespace q t)) = {k \<in> lineage_nodes t. shown q t k} \<and>
      set (snd (build_lineage rep namespace q t)) =
        {(a, b, ty) \<in> lineage_edges t. shown q t a \<and> shown q t b \<and> (lq_include_internals q \<or> ty \<in> {Uses, Produces})} \<and>
      (\<forall>x \<in> set (fst (build_lineage rep namespace q t)). node_right rep q t x)
    else build_lineage rep namespace q t = ([], [])"
proof (cases "target_visible namespace q t")
  case True
  obtain ns es where g: "full_lineage rep q t = (ns, es)" by fastforce
  have ok: "graph_ok rep q t (lineage_nodes t) (lineage_edges t) (ns, es)" using full_lineage_ok [OF t, of rep q] g by simp
  then have es: "set es = lineage_edges t" and ns: "fst ` set ns = lineage_nodes t" by (simp_all add: graph_ok_def)
  let ?target = "datasource_key (the (lq_target q))"
  let ?reach = "\<lambda>k. directed q \<longrightarrow> (?target, k) \<in> (lineage_step q t)\<^sup>*"
  have there: "?target \<in> fst ` set ns" if dir: "directed q"
  proof -
    obtain d where "get_row ds_id (the (lq_target q)) (lt_datasources t) = Some d"
      using True dir by (auto simp: target_visible_def directed_def split: option.splits)
    then have "the (lq_target q) \<in> ds_id ` set (lt_datasources t)" using row_in [of ds_id "the (lq_target q)" "lt_datasources t" d] by force
    then show ?thesis unfolding ns lineage_nodes_def by blast
  qed
  define g' where "g' = (if directed q then restrict_lineage (bfs (arcs q es) [?target] [?target]) (ns, es) else (ns, es))"
  have "graph_ok rep q t {k \<in> lineage_nodes t. ?reach k} {e \<in> lineage_edges t. ?reach (fst e) \<and> ?reach (fst (snd e))} g'"
  proof (cases "directed q")
    case True
    have "set (bfs (arcs q es) [?target] [?target]) = {k. ?reach k}" using True by (simp add: bfs_exact arcs_step [OF es])
    then have "g' = (filter (\<lambda>(k, _). ?reach k) ns, filter (\<lambda>e. ?reach (fst e) \<and> ?reach (fst (snd e))) es)"
      using True by (simp add: g'_def restrict_lineage_def case_prod_unfold)
    then show ?thesis using graph_filter [OF ok, of ?reach "\<lambda>e. ?reach (fst e) \<and> ?reach (fst (snd e))"] by simp
  next
    case False
    then show ?thesis using ok by (simp add: g'_def)
  qed
  then obtain ns' es' where g'_eq: "g' = (ns', es')"
    and ok': "graph_ok rep q t {k \<in> lineage_nodes t. ?reach k} {e \<in> lineage_edges t. ?reach (fst e) \<and> ?reach (fst (snd e))} (ns', es')"
    by (cases g') auto
  have "build_lineage rep namespace q t = (if lq_include_internals q then (ns', es') else hide_internals (ns', es'))"
    using True there g'_eq by (cases "directed q") (simp_all add: build_lineage_def g Let_def g'_def)
  moreover have "graph_ok rep q t {k \<in> lineage_nodes t. shown q t k}
      {(a, b, ty) \<in> lineage_edges t. shown q t a \<and> shown q t b \<and> (lq_include_internals q \<or> ty \<in> {Uses, Produces})}
      (if lq_include_internals q then (ns', es') else hide_internals (ns', es'))"
  proof (cases "lq_include_internals q")
    case True
    then have "{k \<in> lineage_nodes t. ?reach k} = {k \<in> lineage_nodes t. shown q t k}"
      "{e \<in> lineage_edges t. ?reach (fst e) \<and> ?reach (fst (snd e))} = {(a, b, ty) \<in> lineage_edges t. shown q t a \<and> shown q t b \<and> (lq_include_internals q \<or> ty \<in> {Uses, Produces})}"
      by (auto simp: shown_def)
    then show ?thesis using ok' True by simp
  next
    case False
    define H where "H = set (map fst (filter (\<lambda>(_, n). ln_kind n = Internal) ns'))"
    have H: "H = internal_keys t \<inter> {k \<in> lineage_nodes t. ?reach k}"
      unfolding H_def hidden_keys [OF t ok'] using ok' by (simp add: graph_ok_def)
    let ?Q = "\<lambda>(a, b, ty). ty \<notin> {Chains, Consumes_Internal} \<and> a \<notin> H \<and> b \<notin> H"
    have hide: "hide_internals (ns', es') = (filter (\<lambda>(k, _). k \<notin> H) ns', filter ?Q es')" unfolding hide_internals_def H_def by simp
    have nodes: "{k \<in> {k \<in> lineage_nodes t. ?reach k}. k \<notin> H} = {k \<in> lineage_nodes t. shown q t k}"
      unfolding H using False by (auto simp: shown_def)
    have types: "ty \<notin> {Chains, Consumes_Internal} \<longleftrightarrow> ty \<in> {Uses, Produces}" for ty by (cases ty) auto
    have edges: "{e \<in> {e \<in> lineage_edges t. ?reach (fst e) \<and> ?reach (fst (snd e))}. ?Q e} =
        {(a, b, ty) \<in> lineage_edges t. shown q t a \<and> shown q t b \<and> (lq_include_internals q \<or> ty \<in> {Uses, Produces})}"
    proof (intro set_eqI)
      fix e :: lineage_edge
      obtain a b ty where e: "e = (a, b, ty)" by (cases e)
      show "e \<in> {e \<in> {e \<in> lineage_edges t. ?reach (fst e) \<and> ?reach (fst (snd e))}. ?Q e} \<longleftrightarrow>
          e \<in> {(a, b, ty) \<in> lineage_edges t. shown q t a \<and> shown q t b \<and> (lq_include_internals q \<or> ty \<in> {Uses, Produces})}"
        using edge_ends [of a b ty t] False types [of ty] by (auto simp: e H shown_def)
    qed
    from graph_filter [OF ok', of "\<lambda>k. k \<notin> H" ?Q] show ?thesis using False by (simp only: hide nodes edges if_False)
  qed
  ultimately show ?thesis using True by (simp add: graph_ok_def)
next
  case False
  then show ?thesis by (simp add: build_lineage_def)
qed

text \<open>An analysis that reads one datasource and writes another, seen downstream from what it reads.\<close>

definition example_lineage_datasource :: "string \<Rightarrow> string option \<Rightarrow> datasource" where
  "example_lineage_datasource i producer =
     \<lparr>ds_id = i, ds_name = i, ds_description = None, ds_source_type = ''iceberg'', ds_config = JObj [], ds_schema_cache = None, ds_revision = 1,
      ds_created_by_analysis_id = producer, ds_created_by = ''x'', ds_is_hidden = False, ds_is_pending_delete = False, ds_owner_id = None,
      ds_created_at = 1, ds_delete_requested_at = None\<rparr>"

definition example_tables :: lineage_tables where
  "example_tables =
     \<lparr>lt_datasources = [example_lineage_datasource ''d1'' None, example_lineage_datasource ''d2'' (Some ''a1''), example_lineage_datasource ''d3'' None],
      lt_analyses = [\<lparr>ar_id = ''a1'', ar_name = ''a'', ar_status = ''draft''\<rparr>], lt_links = [\<lparr>al_analysis_id = ''a1'', al_datasource_id = ''d1''\<rparr>]\<rparr>"

definition example_lineage_query :: lineage_query where
  "example_lineage_query = \<lparr>lq_target = Some ''d1'', lq_branch = None, lq_include_internals = False, lq_mode = ''downstream''\<rparr>"

lemma example_lineage:
  "map fst (fst (build_lineage (\<lambda>_. []) ''n'' example_lineage_query example_tables)) = [''datasource:d1'', ''datasource:d2'', ''analysis:a1'']"
  by code_simp

theorem lineage_exact_witness:
  "{k \<in> lineage_nodes example_tables. shown example_lineage_query example_tables k} = {''datasource:d1'', ''datasource:d2'', ''analysis:a1''}"
proof -
  have ok: "tables_ok example_tables" by (simp add: tables_ok_def example_tables_def example_lineage_datasource_def)
  have vis: "target_visible ''n'' example_lineage_query example_tables" by code_simp
  show ?thesis
    using lineage_exact [OF ok, of "''n''" example_lineage_query "\<lambda>_. []"] vis arg_cong [OF example_lineage, of set] by simp
qed

end
