(* ===== verification/Accounts.thy ===== *)
theory Accounts
  imports Urls "HOL-Library.AList"
begin

text \<open>
  Accounts, sign-in methods, sessions and verification tokens (\<open>modules/auth/service.py\<close>, \<open>modules/auth/commands.py\<close>). A
  command is one transaction: an exception leaves the database unchanged. \<open>kdf password salt rounds\<close> is
  PBKDF2 with SHA-256 of the encoded password, bytes are characters. Identifiers, salts and tokens that the program draws at random are
  arguments (\<open>auth_env\<close>); the set \<open>issued\<close> of the identifiers drawn so far is not in the program. Strings are
  Latin-1, so that \<open>strip\<close>, \<open>lower\<close> and the character classes are exact.
\<close>

subsection \<open>Passwords\<close>

definition hex_digit :: "nat \<Rightarrow> char" where
  "hex_digit n = ''0123456789abcdef'' ! (n mod 16)"

fun to_hex :: "string \<Rightarrow> string" where
  "to_hex [] = []"
| "to_hex (c # cs) = hex_digit (of_char c div 16) # hex_digit (of_char c mod 16) # to_hex cs"

definition is_hexdigit :: "char \<Rightarrow> bool" where
  "is_hexdigit c \<longleftrightarrow> (let n = (of_char c :: nat) in 48 \<le> n \<and> n \<le> 57 \<or> 97 \<le> n \<and> n \<le> 102 \<or> 65 \<le> n \<and> n \<le> 70)"

definition hex_value :: "char \<Rightarrow> nat" where
  "hex_value c = (let n = (of_char c :: nat) in if n \<le> 57 then n - 48 else if n \<le> 70 then n - 55 else n - 87)"

fun from_hex :: "string \<Rightarrow> string" where
  "from_hex (a # b # cs) = char_of (16 * hex_value a + hex_value b) # from_hex cs"
| "from_hex _ = []"

definition PBKDF2_ITERATIONS :: nat where
  "PBKDF2_ITERATIONS = 200000"

definition hash_password :: "(string \<Rightarrow> string \<Rightarrow> nat \<Rightarrow> string) \<Rightarrow> string \<Rightarrow> string \<Rightarrow> string" where
  "hash_password kdf salt password =
     ''pbkdf2_sha256'' @ ''$'' @ show_nat PBKDF2_ITERATIONS @ ''$'' @ to_hex salt @ ''$'' @ to_hex (kdf password salt PBKDF2_ITERATIONS)"

text \<open>\<open>isdigit\<close> also holds for superscripts, which \<open>int\<close> refuses.\<close>

definition is_ascii_digit :: "char \<Rightarrow> bool" where
  "is_ascii_digit c \<longleftrightarrow> (let n = (of_char c :: nat) in 48 \<le> n \<and> n \<le> 57)"

definition is_digit :: "char \<Rightarrow> bool" where
  "is_digit c \<longleftrightarrow> is_ascii_digit c \<or> of_char c \<in> {178, 179, 185 :: nat}"

definition read_nat :: "string \<Rightarrow> nat" where
  "read_nat s = foldl (\<lambda>n c. 10 * n + (of_char c - 48)) 0 s"

definition is_digits :: "string \<Rightarrow> bool" where
  "is_digits s \<longleftrightarrow> s \<noteq> [] \<and> list_all is_digit s"

definition verify_password :: "(string \<Rightarrow> string \<Rightarrow> nat \<Rightarrow> string) \<Rightarrow> string \<Rightarrow> string \<Rightarrow> bool result" where
  "verify_password kdf password hashed =
     (case split_on (CHR ''$'') hashed of
        [scheme, rounds_raw, salt_hex, digest_hex] \<Rightarrow>
          if scheme \<noteq> ''pbkdf2_sha256'' then Inr False
          else if \<not> is_digits rounds_raw then Inr False
          else if odd (length salt_hex) \<or> odd (length digest_hex) then Inr False
          else if \<not> list_all is_hexdigit salt_hex then Inr False
          else if \<not> list_all is_hexdigit digest_hex then Inr False
          else if \<not> list_all is_ascii_digit rounds_raw then Inl (ValueError ''invalid literal for int()'')
          else if 4300 < length rounds_raw then Inl (ValueError ''Exceeds the limit (4300 digits) for integer string conversion'')
          else if read_nat rounds_raw = 0 then Inl (ValueError ''iteration value must be greater than 0.'')
          else if 2147483647 < read_nat rounds_raw then Inl (ValueError ''iteration value is too great.'')
          else Inr (kdf password (from_hex salt_hex) (read_nat rounds_raw) = from_hex digest_hex)
      | _ \<Rightarrow> Inr False)"

definition is_upper :: "char \<Rightarrow> bool" where
  "is_upper c \<longleftrightarrow> (let n = (of_char c :: nat) in 65 \<le> n \<and> n \<le> 90 \<or> 192 \<le> n \<and> n \<le> 222 \<and> n \<noteq> 215)"

definition is_lower :: "char \<Rightarrow> bool" where
  "is_lower c \<longleftrightarrow> (let n = (of_char c :: nat) in 97 \<le> n \<and> n \<le> 122 \<or> n \<in> {170, 181, 186} \<or> 223 \<le> n \<and> n \<noteq> 247)"

definition validate_password :: "string \<Rightarrow> unit result" where
  "validate_password p =
     (if length p < 8 then Inl (ValueError ''Password must be at least 8 characters long'')
      else if \<not> list_ex is_upper p then Inl (ValueError ''Password must contain at least one uppercase letter'')
      else if \<not> list_ex is_lower p then Inl (ValueError ''Password must contain at least one lowercase letter'')
      else if \<not> list_ex is_digit p then Inl (ValueError ''Password must contain at least one digit'')
      else Inr ())"

subsection \<open>Tables\<close>

datatype user_status = US_ACTIVE | US_DISABLED

datatype provider_name = AP_PASSWORD | AP_GOOGLE | AP_GITHUB

datatype token_type = VT_EMAIL_VERIFY | VT_PASSWORD_RESET

record user =
  us_id :: string
  us_email :: string
  us_display_name :: string
  us_avatar_url :: "string option"
  us_status :: user_status
  us_email_verified :: bool
  us_has_password :: bool
  us_preferences :: payload
  us_created_at :: timestamp
  us_updated_at :: timestamp
  us_last_login_at :: "timestamp option"

record auth_provider =
  ap_id :: string
  ap_user_id :: string
  ap_provider :: provider_name
  ap_provider_subject :: string
  ap_provider_metadata :: "payload option"
  ap_created_at :: timestamp

record user_session =
  se_id :: string
  se_user_id :: string
  se_device_info :: "string option"
  se_ip_address :: "string option"
  se_created_at :: timestamp
  se_expires_at :: timestamp
  se_revoked :: bool

record verification_token =
  vt_id :: string
  vt_user_id :: string
  vt_token :: string
  vt_token_type :: token_type
  vt_created_at :: timestamp
  vt_expires_at :: timestamp
  vt_used :: bool

text \<open>A datasource, analysis or UDF of some namespace, with its owner.\<close>

record owned_row =
  ow_id :: string
  ow_owner_id :: "string option"

record auth_db =
  users :: "user list"
  auth_providers :: "auth_provider list"
  user_sessions :: "user_session list"
  verification_tokens :: "verification_token list"
  owned_rows :: "owned_row list"
  issued :: "string set"

record auth_env =
  ae_now :: timestamp
  ae_ids :: "nat \<Rightarrow> string"
  ae_salt :: string
  ae_token :: string

record auth_settings =
  as_default_user_id :: string
  as_default_user_email :: string
  as_default_user_name :: string
  as_default_user_password :: string
  as_session_max_age_days :: int
  as_auth_required :: bool

definition InvalidCredentialsError :: py_error where
  "InvalidCredentialsError = AppError ''INVALID_CREDENTIALS'' ''Invalid email or password''"

definition EmailAlreadyExistsError :: py_error where
  "EmailAlreadyExistsError = AppError ''EMAIL_ALREADY_EXISTS'' ''Email address is already registered''"

definition AccountDisabledError :: py_error where
  "AccountDisabledError = AppError ''ACCOUNT_DISABLED'' ''Account is disabled''"

definition DefaultUserDeletionError :: py_error where
  "DefaultUserDeletionError = AppError ''DEFAULT_USER_DELETION_FORBIDDEN'' ''The default account cannot be deleted''"

definition ProviderUnlinkError :: "string \<Rightarrow> py_error" where
  "ProviderUnlinkError m = AppError ''PROVIDER_UNLINK_ERROR'' m"

definition OAuthError :: "string \<Rightarrow> py_error" where
  "OAuthError m = AppError ''OAUTH_ERROR'' m"

definition TokenExpiredError :: py_error where
  "TokenExpiredError = AppError ''TOKEN_EXPIRED'' ''Token has expired''"

definition TokenInvalidError :: py_error where
  "TokenInvalidError = AppError ''TOKEN_INVALID'' ''Token is invalid''"

subsection \<open>Users and providers\<close>

definition normalize_email :: "string \<Rightarrow> string" where
  "normalize_email e = map lower_latin (py_strip e)"

definition get_user_by_id :: "string \<Rightarrow> auth_db \<Rightarrow> user option" where
  "get_user_by_id uid db = get_row us_id uid (users db)"

definition get_user_by_email :: "string \<Rightarrow> auth_db \<Rightarrow> user option" where
  "get_user_by_email e db = get_row us_email (normalize_email e) (users db)"

definition put_user :: "user \<Rightarrow> auth_db \<Rightarrow> auth_db" where
  "put_user u db = db\<lparr>users := update_where (\<lambda>x. us_id x = us_id u) (\<lambda>_. u) (users db)\<rparr>"

definition put_provider :: "auth_provider \<Rightarrow> auth_db \<Rightarrow> auth_db" where
  "put_provider p db = db\<lparr>auth_providers := update_where (\<lambda>x. ap_id x = ap_id p) (\<lambda>_. p) (auth_providers db)\<rparr>"

definition get_password_provider :: "string \<Rightarrow> auth_db \<Rightarrow> auth_provider option" where
  "get_password_provider uid db = find (\<lambda>p. ap_user_id p = uid \<and> ap_provider p = AP_PASSWORD) (auth_providers db)"

definition provider_password_matches :: "(string \<Rightarrow> string \<Rightarrow> nat \<Rightarrow> string) \<Rightarrow> auth_provider \<Rightarrow> string \<Rightarrow> bool result" where
  "provider_password_matches kdf p password =
     (case ap_provider_metadata p of
        None \<Rightarrow> Inr False
      | Some m \<Rightarrow> (case map_of m ''password_hash'' of Some (JStr h) \<Rightarrow> verify_password kdf password h | _ \<Rightarrow> Inr False))"

definition new_password_provider :: "string \<Rightarrow> user \<Rightarrow> payload \<Rightarrow> timestamp \<Rightarrow> auth_provider" where
  "new_password_provider i u m now =
     \<lparr>ap_id = i, ap_user_id = us_id u, ap_provider = AP_PASSWORD, ap_provider_subject = us_email u, ap_provider_metadata = Some m, ap_created_at = now\<rparr>"

definition add_user :: "user \<Rightarrow> auth_db \<Rightarrow> auth_db" where
  "add_user u db = db\<lparr>users := users db @ [u], issued := insert (us_id u) (issued db)\<rparr>"

definition add_provider :: "auth_provider \<Rightarrow> auth_db \<Rightarrow> auth_db" where
  "add_provider p db = db\<lparr>auth_providers := auth_providers db @ [p], issued := insert (ap_id p) (issued db)\<rparr>"

definition password_metadata :: "(string \<Rightarrow> string \<Rightarrow> nat \<Rightarrow> string) \<Rightarrow> auth_env \<Rightarrow> string \<Rightarrow> payload" where
  "password_metadata kdf env password = [(''password_hash'', JStr (hash_password kdf (ae_salt env) password))]"

definition stage_create_user ::
  "(string \<Rightarrow> string \<Rightarrow> nat \<Rightarrow> string) \<Rightarrow> auth_env \<Rightarrow> string \<Rightarrow> string \<Rightarrow> string \<Rightarrow> bool \<Rightarrow> auth_db \<Rightarrow> (user \<times> auth_db) result" where
  "stage_create_user kdf env email password name verified db =
     (if get_user_by_email (normalize_email email) db \<noteq> None then Inl EmailAlreadyExistsError
      else and_then (validate_password password) (\<lambda>_.
        let u = \<lparr>us_id = ae_ids env 0, us_email = normalize_email email, us_display_name = name, us_avatar_url = None, us_status = US_ACTIVE,
                 us_email_verified = verified, us_has_password = True, us_preferences = [], us_created_at = ae_now env, us_updated_at = ae_now env,
                 us_last_login_at = None\<rparr>
        in Inr (u, add_provider (new_password_provider (ae_ids env 1) u (password_metadata kdf env password) (ae_now env)) (add_user u db))))"

text \<open>Deleting a user also deletes the rows that refer to it, which the foreign keys do.\<close>

definition delete_user :: "string \<Rightarrow> auth_db \<Rightarrow> auth_db" where
  "delete_user uid db =
     db\<lparr>users := filter (\<lambda>u. us_id u \<noteq> uid) (users db), auth_providers := filter (\<lambda>p. ap_user_id p \<noteq> uid) (auth_providers db),
        user_sessions := filter (\<lambda>s. se_user_id s \<noteq> uid) (user_sessions db), verification_tokens := filter (\<lambda>v. vt_user_id v \<noteq> uid) (verification_tokens db)\<rparr>"

definition clear_owned_resources :: "string \<Rightarrow> auth_db \<Rightarrow> auth_db" where
  "clear_owned_resources uid db = db\<lparr>owned_rows := update_where (\<lambda>x. ow_owner_id x = Some uid) (\<lambda>x. x\<lparr>ow_owner_id := None\<rparr>) (owned_rows db)\<rparr>"

definition stage_delete_user_account :: "auth_settings \<Rightarrow> string \<Rightarrow> auth_db \<Rightarrow> auth_db result" where
  "stage_delete_user_account cfg uid db =
     (case get_user_by_id uid db of
        None \<Rightarrow> Inl InvalidCredentialsError
      | Some u \<Rightarrow>
          if us_id u = as_default_user_id cfg then Inl DefaultUserDeletionError
          else Inr (delete_user uid (clear_owned_resources uid db)))"

definition stage_update_profile :: "auth_env \<Rightarrow> string \<Rightarrow> string option \<Rightarrow> string option \<Rightarrow> payload option \<Rightarrow> auth_db \<Rightarrow> auth_db result" where
  "stage_update_profile env uid name avatar preferences db =
     (case get_user_by_id uid db of
        None \<Rightarrow> Inl InvalidCredentialsError
      | Some u \<Rightarrow>
          Inr (put_user (u\<lparr>us_display_name := (case name of None \<Rightarrow> us_display_name u | Some n \<Rightarrow> n),
                           us_avatar_url := (case avatar of None \<Rightarrow> us_avatar_url u | Some a \<Rightarrow> Some a),
                           us_preferences := (case preferences of None \<Rightarrow> us_preferences u | Some p \<Rightarrow> p), us_updated_at := ae_now env\<rparr>) db))"

definition stage_change_password :: "(string \<Rightarrow> string \<Rightarrow> nat \<Rightarrow> string) \<Rightarrow> auth_env \<Rightarrow> string \<Rightarrow> string \<Rightarrow> string \<Rightarrow> auth_db \<Rightarrow> auth_db result" where
  "stage_change_password kdf env uid current new db =
     and_then (validate_password new) (\<lambda>_.
       case get_password_provider uid db of
         None \<Rightarrow> Inl InvalidCredentialsError
       | Some p \<Rightarrow>
           and_then (provider_password_matches kdf p current) (\<lambda>ok.
             if \<not> ok then Inl InvalidCredentialsError
             else case get_user_by_id uid db of
                    None \<Rightarrow> Inl InvalidCredentialsError
                  | Some u \<Rightarrow>
                      Inr (put_user (u\<lparr>us_has_password := True, us_updated_at := ae_now env\<rparr>)
                            (put_provider (p\<lparr>ap_provider_metadata := Some (password_metadata kdf env new)\<rparr>) db))))"

subsection \<open>Sessions\<close>

definition stage_create_session :: "auth_settings \<Rightarrow> auth_env \<Rightarrow> string \<Rightarrow> string option \<Rightarrow> string option \<Rightarrow> auth_db \<Rightarrow> (user_session \<times> auth_db) result" where
  "stage_create_session cfg env uid device ip db =
     (case get_user_by_id uid db of
        None \<Rightarrow> Inl (RuntimeError ''violates foreign key constraint'')
      | Some u \<Rightarrow>
          let s = \<lparr>se_id = ae_ids env 2, se_user_id = uid, se_device_info = device, se_ip_address = ip, se_created_at = ae_now env,
                   se_expires_at = ae_now env + seconds (86400 * as_session_max_age_days cfg), se_revoked = False\<rparr>;
              db1 = put_user (u\<lparr>us_last_login_at := Some (ae_now env), us_updated_at := ae_now env\<rparr>) db
          in Inr (s, db1\<lparr>user_sessions := user_sessions db1 @ [s], issued := insert (se_id s) (issued db1)\<rparr>))"

definition revoke_where :: "(user_session \<Rightarrow> bool) \<Rightarrow> auth_db \<Rightarrow> auth_db" where
  "revoke_where P db = db\<lparr>user_sessions := update_where P (\<lambda>s. s\<lparr>se_revoked := True\<rparr>) (user_sessions db)\<rparr>"

text \<open>The user of a session, and the database after the check, which marks an expired session.\<close>

definition validate_session :: "timestamp \<Rightarrow> string \<Rightarrow> auth_db \<Rightarrow> user option \<times> auth_db" where
  "validate_session now sid db =
     (case get_row se_id sid (user_sessions db) of
        None \<Rightarrow> (None, db)
      | Some s \<Rightarrow>
          (case get_user_by_id (se_user_id s) db of
             None \<Rightarrow> (None, db)
           | Some u \<Rightarrow>
               if se_revoked s then (None, db)
               else if se_expires_at s \<le> now then (None, revoke_where (\<lambda>x. se_id x = sid) db)
               else if us_status u = US_DISABLED then (None, db)
               else (Some u, db)))"

definition stage_revoke_session :: "string \<Rightarrow> auth_db \<Rightarrow> auth_db" where
  "stage_revoke_session sid db = revoke_where (\<lambda>s. se_id s = sid \<and> \<not> se_revoked s) db"

definition stage_revoke_all_sessions :: "string \<Rightarrow> auth_db \<Rightarrow> auth_db" where
  "stage_revoke_all_sessions uid db = revoke_where (\<lambda>s. se_user_id s = uid \<and> \<not> se_revoked s) db"

definition revoke_all_user_sessions :: "string \<Rightarrow> string option \<Rightarrow> auth_db \<Rightarrow> auth_db" where
  "revoke_all_user_sessions uid current db =
     (let db1 = stage_revoke_all_sessions uid db in case current of None \<Rightarrow> db1 | Some sid \<Rightarrow> stage_revoke_session sid db1)"

subsection \<open>The default user\<close>

text \<open>\<open>as_default_user_id\<close> is the constant \<open>_DEFAULT_USER_ID\<close>. The advisory lock lets one seeding run at a time.\<close>

definition build_default_provider_metadata :: "(string \<Rightarrow> string \<Rightarrow> nat \<Rightarrow> string) \<Rightarrow> auth_env \<Rightarrow> string \<Rightarrow> payload" where
  "build_default_provider_metadata kdf env password =
     [(''managed_by'', JStr ''env_default_user''), (''password_hash'', JStr (hash_password kdf (ae_salt env) password))]"

definition desired_email :: "auth_settings \<Rightarrow> string" where
  "desired_email cfg = (let e = normalize_email (as_default_user_email cfg) in if e = [] then ''default@example.com'' else e)"

definition desired_name :: "auth_settings \<Rightarrow> string" where
  "desired_name cfg = (let n = py_strip (as_default_user_name cfg) in if n = [] then hd (split_on (CHR ''@'') (desired_email cfg)) else n)"

definition seed_default_user :: "(string \<Rightarrow> string \<Rightarrow> nat \<Rightarrow> string) \<Rightarrow> auth_settings \<Rightarrow> auth_env \<Rightarrow> auth_db \<Rightarrow> (user \<times> auth_db) result" where
  "seed_default_user kdf cfg env db =
     (if get_user_by_email (desired_email cfg) db \<noteq> None then Inl EmailAlreadyExistsError
      else let u = \<lparr>us_id = as_default_user_id cfg, us_email = desired_email cfg, us_display_name = desired_name cfg, us_avatar_url = None,
                    us_status = US_ACTIVE, us_email_verified = True, us_has_password = True, us_preferences = [], us_created_at = ae_now env,
                    us_updated_at = ae_now env, us_last_login_at = None\<rparr>
           in Inr (u, add_provider (new_password_provider (ae_ids env 1) u (build_default_provider_metadata kdf env (as_default_user_password cfg)) (ae_now env))
                        (add_user u db)))"

text \<open>The settings applied to the stored row; an e-mail address that another account uses is skipped.\<close>

definition default_user_fields :: "auth_settings \<Rightarrow> auth_db \<Rightarrow> user \<Rightarrow> user" where
  "default_user_fields cfg db u =
     u\<lparr>us_display_name := desired_name cfg, us_status := US_ACTIVE, us_email_verified := True, us_has_password := True,
       us_email := (case get_user_by_email (desired_email cfg) db of
                      Some w \<Rightarrow> if us_id w = us_id u then desired_email cfg else us_email u
                    | None \<Rightarrow> desired_email cfg)\<rparr>"

text \<open>The metadata dictionary as the code updates it, and whether the password was replaced.\<close>

definition default_provider_update ::
  "(string \<Rightarrow> string \<Rightarrow> nat \<Rightarrow> string) \<Rightarrow> auth_settings \<Rightarrow> auth_env \<Rightarrow> user \<Rightarrow> auth_provider \<Rightarrow> (auth_provider \<times> bool) result" where
  "default_provider_update kdf cfg env u p =
     and_then (provider_password_matches kdf p (as_default_user_password cfg)) (\<lambda>ok.
       let m0 = (case ap_provider_metadata p of None \<Rightarrow> [] | Some m \<Rightarrow> m);
           m1 = (if ok then m0 else AList.update ''password_hash'' (JStr (hash_password kdf (ae_salt env) (as_default_user_password cfg))) m0);
           m2 = (if map_of m0 ''managed_by'' \<noteq> Some (JStr ''env_default_user'') then AList.update ''managed_by'' (JStr ''env_default_user'') m1 else m1)
       in Inr (p\<lparr>ap_provider_subject := us_email u, ap_provider_metadata := Some m2\<rparr>, \<not> ok))"

definition refresh_default_user :: "(string \<Rightarrow> string \<Rightarrow> nat \<Rightarrow> string) \<Rightarrow> auth_settings \<Rightarrow> auth_env \<Rightarrow> user \<Rightarrow> auth_db \<Rightarrow> (user \<times> auth_db) result" where
  "refresh_default_user kdf cfg env u db =
     (let u1 = default_user_fields cfg db u; touched = u1\<lparr>us_updated_at := ae_now env\<rparr>
      in case get_password_provider (us_id u) db of
           None \<Rightarrow>
             Inr (touched, stage_revoke_all_sessions (us_id u) (put_user touched
               (add_provider (new_password_provider (ae_ids env 1) u1 (build_default_provider_metadata kdf env (as_default_user_password cfg)) (ae_now env)) db)))
         | Some p \<Rightarrow>
             and_then (default_provider_update kdf cfg env u1 p) (\<lambda>(p1, password_changed).
               let db1 = put_provider p1 db;
                   marker_changed = (case ap_provider_metadata p of None \<Rightarrow> True | Some m \<Rightarrow> map_of m ''managed_by'' \<noteq> Some (JStr ''env_default_user''));
                   changed = (u1 \<noteq> u \<or> password_changed \<or> marker_changed \<or> ap_provider_subject p \<noteq> us_email u1)
               in if \<not> changed then Inr (u, db1)
                  else let db2 = put_user touched db1
                       in Inr (touched, if password_changed then stage_revoke_all_sessions (us_id u) db2 else db2)))"

definition stage_ensure_default_user :: "(string \<Rightarrow> string \<Rightarrow> nat \<Rightarrow> string) \<Rightarrow> auth_settings \<Rightarrow> auth_env \<Rightarrow> auth_db \<Rightarrow> (user \<times> auth_db) result" where
  "stage_ensure_default_user kdf cfg env db =
     (case get_user_by_id (as_default_user_id cfg) db of
        None \<Rightarrow> seed_default_user kdf cfg env db
      | Some u \<Rightarrow> refresh_default_user kdf cfg env u db)"

definition get_or_seed_default_user :: "(string \<Rightarrow> string \<Rightarrow> nat \<Rightarrow> string) \<Rightarrow> auth_settings \<Rightarrow> auth_env \<Rightarrow> auth_db \<Rightarrow> (user \<times> auth_db) result" where
  "get_or_seed_default_user kdf cfg env db =
     (case get_user_by_id (as_default_user_id cfg) db of Some u \<Rightarrow> Inr (u, db) | None \<Rightarrow> stage_ensure_default_user kdf cfg env db)"

subsection \<open>External sign-in\<close>

definition find_provider :: "provider_name \<Rightarrow> string \<Rightarrow> auth_db \<Rightarrow> auth_provider option" where
  "find_provider name subject db = find (\<lambda>p. ap_provider p = name \<and> ap_provider_subject p = subject) (auth_providers db)"

definition stage_link_provider ::
  "auth_env \<Rightarrow> string \<Rightarrow> provider_name \<Rightarrow> string \<Rightarrow> payload option \<Rightarrow> auth_db \<Rightarrow> (auth_provider \<times> auth_db) result" where
  "stage_link_provider env uid name subject metadata db =
     (case find_provider name subject db of
        Some p \<Rightarrow> if ap_user_id p \<noteq> uid then Inl (OAuthError ''OAuth identity is already linked to another account'') else Inr (p, db)
      | None \<Rightarrow>
          let p = \<lparr>ap_id = ae_ids env 1, ap_user_id = uid, ap_provider = name, ap_provider_subject = subject, ap_provider_metadata = metadata,
                   ap_created_at = ae_now env\<rparr>
          in Inr (p, add_provider p db))"

definition opt_str :: "string option \<Rightarrow> json" where
  "opt_str s = (case s of None \<Rightarrow> JNull | Some v \<Rightarrow> JStr v)"

definition oauth_metadata :: "string \<Rightarrow> string option \<Rightarrow> payload" where
  "oauth_metadata email avatar = [(''email'', JStr email), (''avatar_url'', opt_str avatar)]"

definition stage_find_or_create_oauth_user ::
  "auth_env \<Rightarrow> provider_name \<Rightarrow> string \<Rightarrow> string \<Rightarrow> string \<Rightarrow> string option \<Rightarrow> auth_db \<Rightarrow> (user \<times> auth_db) result" where
  "stage_find_or_create_oauth_user env name subject email display avatar db =
     (let e = normalize_email email
      in case find_provider name subject db of
           Some p \<Rightarrow>
             (case get_user_by_id (ap_user_id p) db of
                None \<Rightarrow> Inl (OAuthError ''OAuth identity points to a missing user'') | Some u \<Rightarrow> Inr (u, db))
         | None \<Rightarrow>
             (case get_user_by_email e db of
                Some u \<Rightarrow>
                  and_then (stage_link_provider env (us_id u) name subject (Some (oauth_metadata e avatar)) db) (\<lambda>(_, db1).
                    let u1 = u\<lparr>us_avatar_url := (if \<not> truthy (us_avatar_url u) \<and> truthy avatar then avatar else us_avatar_url u),
                               us_display_name := (if us_display_name u = [] \<and> display \<noteq> [] then display else us_display_name u),
                               us_updated_at := ae_now env\<rparr>
                    in Inr (u1, put_user u1 db1))
              | None \<Rightarrow>
                  let u = \<lparr>us_id = ae_ids env 0, us_email = e, us_display_name = (if display = [] then hd (split_on (CHR ''@'') e) else display),
                           us_avatar_url = avatar, us_status = US_ACTIVE, us_email_verified = True, us_has_password = False, us_preferences = [],
                           us_created_at = ae_now env, us_updated_at = ae_now env, us_last_login_at = None\<rparr>;
                      p = \<lparr>ap_id = ae_ids env 1, ap_user_id = us_id u, ap_provider = name, ap_provider_subject = subject,
                           ap_provider_metadata = Some (oauth_metadata e avatar), ap_created_at = ae_now env\<rparr>
                  in Inr (u, add_provider p (add_user u db))))"

text \<open>\<open>others\<close> is what other sessions commit after the rows of the user were read.\<close>

definition stage_unlink_provider :: "(auth_db \<Rightarrow> auth_db) \<Rightarrow> auth_env \<Rightarrow> string \<Rightarrow> provider_name \<Rightarrow> auth_db \<Rightarrow> auth_db result" where
  "stage_unlink_provider others env uid name db =
     (let own = filter (\<lambda>p. ap_user_id p = uid) (auth_providers db);
          db1 = others db
      in if length own \<le> 1 then Inl (ProviderUnlinkError ''Cannot unlink the last login method'')
         else case find (\<lambda>p. ap_provider p = name) own of
                None \<Rightarrow> Inr db1
              | Some p \<Rightarrow>
                  if ap_provider p = AP_PASSWORD then Inl (ProviderUnlinkError ''Password login cannot be unlinked'')
                  else case get_user_by_id uid db1 of
                         None \<Rightarrow> Inl (ProviderUnlinkError ''Cannot unlink provider for a missing account'')
                       | Some u \<Rightarrow>
                           Inr (put_user (u\<lparr>us_has_password := list_ex (\<lambda>r. ap_provider r = AP_PASSWORD \<and> ap_id r \<noteq> ap_id p) own, us_updated_at := ae_now env\<rparr>)
                                 (db1\<lparr>auth_providers := filter (\<lambda>r. ap_id r \<noteq> ap_id p) (auth_providers db1)\<rparr>)))"

subsection \<open>Verification tokens\<close>

definition stage_create_verification_token :: "auth_env \<Rightarrow> string \<Rightarrow> token_type \<Rightarrow> int \<Rightarrow> auth_db \<Rightarrow> string \<times> auth_db" where
  "stage_create_verification_token env uid ty ttl_hours db =
     (let v = \<lparr>vt_id = ae_ids env 3, vt_user_id = uid, vt_token = ae_token env, vt_token_type = ty, vt_created_at = ae_now env,
               vt_expires_at = ae_now env + seconds (3600 * ttl_hours), vt_used = False\<rparr>
      in (ae_token env, db\<lparr>verification_tokens := verification_tokens db @ [v], issued := insert (vt_id v) (insert (vt_token v) (issued db))\<rparr>))"

definition mark_used :: "string \<Rightarrow> auth_db \<Rightarrow> auth_db" where
  "mark_used i db = db\<lparr>verification_tokens := update_where (\<lambda>v. vt_id v = i) (\<lambda>v. v\<lparr>vt_used := True\<rparr>) (verification_tokens db)\<rparr>"

text \<open>The token is read without a lock and written by its ID: what other sessions commit in between (\<open>others\<close>) is not
  seen by the check.\<close>

definition stage_validate_verification_token :: "(auth_db \<Rightarrow> auth_db) \<Rightarrow> auth_env \<Rightarrow> string \<Rightarrow> token_type \<Rightarrow> auth_db \<Rightarrow> (string \<times> auth_db) result" where
  "stage_validate_verification_token others env token ty db =
     (case find (\<lambda>v. vt_token v = token \<and> vt_token_type v = ty) (verification_tokens db) of
        None \<Rightarrow> Inl TokenInvalidError
      | Some v \<Rightarrow>
          if vt_used v then Inl TokenInvalidError
          else if vt_expires_at v \<le> ae_now env then Inl TokenExpiredError
          else Inr (vt_user_id v, mark_used (vt_id v) (others db)))"

definition RESEND_COOLDOWN_MINUTES :: int where
  "RESEND_COOLDOWN_MINUTES = 5"

definition stage_prepare_resend_verification :: "auth_env \<Rightarrow> string \<Rightarrow> auth_db \<Rightarrow> ((string \<times> string) option \<times> auth_db) result" where
  "stage_prepare_resend_verification env uid db =
     (case get_user_by_id uid db of
        None \<Rightarrow> Inl InvalidCredentialsError
      | Some u \<Rightarrow>
          if us_email_verified u then Inr (None, db)
          else let created = map vt_created_at (filter (\<lambda>v. vt_user_id v = uid \<and> vt_token_type v = VT_EMAIL_VERIFY) (verification_tokens db))
               in if created \<noteq> [] \<and> ae_now env < fold max (tl created) (hd created) + seconds (60 * RESEND_COOLDOWN_MINUTES)
                  then Inl (ValueError ''Verification email was sent recently. Please wait before requesting again'')
                  else case stage_create_verification_token env uid VT_EMAIL_VERIFY 24 db of (token, db1) \<Rightarrow> Inr (Some (us_email u, token), db1))"

definition stage_create_password_reset_token :: "auth_env \<Rightarrow> string \<Rightarrow> auth_db \<Rightarrow> string option \<times> auth_db" where
  "stage_create_password_reset_token env email db =
     (case get_user_by_email email db of
        None \<Rightarrow> (None, db)
      | Some u \<Rightarrow> (case stage_create_verification_token env (us_id u) VT_PASSWORD_RESET 1 db of (token, db1) \<Rightarrow> (Some token, db1)))"

definition stage_reset_password ::
  "(string \<Rightarrow> string \<Rightarrow> nat \<Rightarrow> string) \<Rightarrow> (auth_db \<Rightarrow> auth_db) \<Rightarrow> auth_env \<Rightarrow> string \<Rightarrow> string \<Rightarrow> auth_db \<Rightarrow> auth_db result" where
  "stage_reset_password kdf others env token new db =
     and_then (validate_password new) (\<lambda>_.
     and_then (stage_validate_verification_token others env token VT_PASSWORD_RESET db) (\<lambda>(uid, db1).
       case get_user_by_id uid db1 of
         None \<Rightarrow> Inl TokenInvalidError
       | Some u \<Rightarrow>
           let db2 = (case get_password_provider (us_id u) db1 of
                        Some p \<Rightarrow> put_provider (p\<lparr>ap_provider_metadata := Some (password_metadata kdf env new)\<rparr>) db1
                      | None \<Rightarrow> add_provider (new_password_provider (ae_ids env 1) u (password_metadata kdf env new) (ae_now env)) db1)
           in Inr (stage_revoke_all_sessions (us_id u) (put_user (u\<lparr>us_has_password := True, us_updated_at := ae_now env\<rparr>) db2))))"

subsection \<open>Commands\<close>

definition register_user ::
  "(string \<Rightarrow> string \<Rightarrow> nat \<Rightarrow> string) \<Rightarrow> auth_settings \<Rightarrow> auth_env \<Rightarrow> string \<Rightarrow> string \<Rightarrow> string \<Rightarrow> bool \<Rightarrow> string option \<Rightarrow> string option \<Rightarrow> auth_db \<Rightarrow>
   (user \<times> user_session \<times> string option \<times> auth_db) result" where
  "register_user kdf cfg env email password name verified device ip db =
     and_then (stage_create_user kdf env email password name verified db) (\<lambda>(u, db1).
       case (if verified then (None, db1) else (case stage_create_verification_token env (us_id u) VT_EMAIL_VERIFY 24 db1 of (t, d) \<Rightarrow> (Some t, d))) of
         (token, db2) \<Rightarrow> and_then (stage_create_session cfg env (us_id u) device ip db2) (\<lambda>(s, db3). Inr (u, s, token, db3)))"

definition login_user ::
  "(string \<Rightarrow> string \<Rightarrow> nat \<Rightarrow> string) \<Rightarrow> auth_settings \<Rightarrow> auth_env \<Rightarrow> string \<Rightarrow> string \<Rightarrow> string option \<Rightarrow> string option \<Rightarrow> auth_db \<Rightarrow>
   (user \<times> user_session \<times> auth_db) result" where
  "login_user kdf cfg env email password device ip db =
     (case get_user_by_email email db of
        None \<Rightarrow> Inl InvalidCredentialsError
      | Some u \<Rightarrow>
          if us_status u = US_DISABLED then Inl AccountDisabledError
          else case get_password_provider (us_id u) db of
                 None \<Rightarrow> Inl InvalidCredentialsError
               | Some p \<Rightarrow>
                   and_then (provider_password_matches kdf p password) (\<lambda>ok.
                     if \<not> ok then Inl InvalidCredentialsError
                     else and_then (stage_create_session cfg env (us_id u) device ip db) (\<lambda>(s, db1). Inr (u, s, db1))))"

definition authenticate_oauth_user ::
  "auth_settings \<Rightarrow> auth_env \<Rightarrow> provider_name \<Rightarrow> string \<Rightarrow> string \<Rightarrow> string \<Rightarrow> string option \<Rightarrow> string option \<Rightarrow> string option \<Rightarrow> auth_db \<Rightarrow>
   (user \<times> user_session \<times> auth_db) result" where
  "authenticate_oauth_user cfg env name subject email display avatar device ip db =
     and_then (stage_find_or_create_oauth_user env name subject email display avatar db) (\<lambda>(u, db1).
     and_then (stage_create_session cfg env (us_id u) device ip db1) (\<lambda>(s, db2). Inr (u, s, db2)))"

definition verify_email :: "(auth_db \<Rightarrow> auth_db) \<Rightarrow> auth_env \<Rightarrow> string \<Rightarrow> auth_db \<Rightarrow> auth_db result" where
  "verify_email others env token db =
     and_then (stage_validate_verification_token others env token VT_EMAIL_VERIFY db) (\<lambda>(uid, db1).
       case get_user_by_id uid db1 of None \<Rightarrow> Inl InvalidCredentialsError | Some u \<Rightarrow> Inr (put_user (u\<lparr>us_email_verified := True\<rparr>) db1))"

subsection \<open>Requests\<close>

text \<open>What the routes read of a request; an HTTP error is an application error with the status as its code.\<close>

record auth_request =
  ar_session_cookie :: "string option"
  ar_session_header :: "string option"
  ar_websocket :: bool

definition resolve_session_token :: "auth_request \<Rightarrow> string option" where
  "resolve_session_token r =
     (if truthy (ar_session_cookie r) then ar_session_cookie r else if truthy (ar_session_header r) then ar_session_header r else None)"

definition not_authenticated :: py_error where
  "not_authenticated = AppError ''401'' ''Not authenticated''"

definition session_user :: "timestamp \<Rightarrow> auth_request \<Rightarrow> auth_db \<Rightarrow> user option \<times> auth_db" where
  "session_user now r db = (case resolve_session_token r of None \<Rightarrow> (None, db) | Some t \<Rightarrow> validate_session now t db)"

definition resolve_user ::
  "(string \<Rightarrow> string \<Rightarrow> nat \<Rightarrow> string) \<Rightarrow> auth_settings \<Rightarrow> auth_env \<Rightarrow> auth_request \<Rightarrow> auth_db \<Rightarrow> user option result \<times> auth_db" where
  "resolve_user kdf cfg env r db =
     (case session_user (ae_now env) r db of
        (Some u, db1) \<Rightarrow> (Inr (Some u), db1)
      | (None, db1) \<Rightarrow>
          if as_auth_required cfg then (Inr None, db1)
          else (case get_or_seed_default_user kdf cfg env db1 of Inl e \<Rightarrow> (Inl e, db1) | Inr (u, db2) \<Rightarrow> (Inr (Some u), db2)))"

definition get_current_user ::
  "(string \<Rightarrow> string \<Rightarrow> nat \<Rightarrow> string) \<Rightarrow> auth_settings \<Rightarrow> auth_env \<Rightarrow> auth_request \<Rightarrow> auth_db \<Rightarrow> user option result \<times> auth_db" where
  "get_current_user kdf cfg env r db =
     (if ar_websocket r then (Inr None, db)
      else case resolve_user kdf cfg env r db of (Inr None, db1) \<Rightarrow> (Inl not_authenticated, db1) | res \<Rightarrow> res)"

definition get_optional_user_id :: "auth_settings \<Rightarrow> timestamp \<Rightarrow> auth_request \<Rightarrow> auth_db \<Rightarrow> string option \<times> auth_db" where
  "get_optional_user_id cfg now r db =
     (case session_user now r db of
        (Some u, db1) \<Rightarrow> (Some (us_id u), db1)
      | (None, db1) \<Rightarrow> (if as_auth_required cfg then None else Some (as_default_user_id cfg), db1))"

definition get_current_user_id :: "auth_settings \<Rightarrow> timestamp \<Rightarrow> auth_request \<Rightarrow> auth_db \<Rightarrow> string result \<times> auth_db" where
  "get_current_user_id cfg now r db =
     (case get_optional_user_id cfg now r db of (Some i, db1) \<Rightarrow> (Inr i, db1) | (None, db1) \<Rightarrow> (Inl not_authenticated, db1))"

text \<open>A token that is not accepted is refused here even where signing in is optional.\<close>

definition update_profile_request ::
  "(string \<Rightarrow> string \<Rightarrow> nat \<Rightarrow> string) \<Rightarrow> auth_settings \<Rightarrow> auth_env \<Rightarrow> string option \<Rightarrow> string option \<Rightarrow> string option \<Rightarrow> payload option \<Rightarrow> auth_db \<Rightarrow>
   unit result \<times> auth_db" where
  "update_profile_request kdf cfg env token name avatar preferences db =
     (case (case token of
              Some t \<Rightarrow> (case validate_session (ae_now env) t db of (Some u, db1) \<Rightarrow> (Inr u, db1) | (None, db1) \<Rightarrow> (Inl not_authenticated, db1))
            | None \<Rightarrow>
                if as_auth_required cfg then (Inl not_authenticated, db)
                else (case get_or_seed_default_user kdf cfg env db of Inl e \<Rightarrow> (Inl e, db) | Inr (u, db1) \<Rightarrow> (Inr u, db1))) of
        (Inl e, db1) \<Rightarrow> (Inl e, db1)
      | (Inr u, db1) \<Rightarrow> (case stage_update_profile env (us_id u) name avatar preferences db1 of Inl e \<Rightarrow> (Inl e, db1) | Inr db2 \<Rightarrow> (Inr (), db2)))"

definition unlink_provider_route :: "(auth_db \<Rightarrow> auth_db) \<Rightarrow> auth_env \<Rightarrow> string \<Rightarrow> string \<Rightarrow> auth_db \<Rightarrow> auth_db result" where
  "unlink_provider_route others env uid name db =
     (if name = ''google'' then stage_unlink_provider others env uid AP_GOOGLE db
      else if name = ''github'' then stage_unlink_provider others env uid AP_GITHUB db
      else Inl (AppError ''400'' ''Unsupported provider''))"

definition validate_oauth_state :: "string option \<Rightarrow> string option \<Rightarrow> unit result" where
  "validate_oauth_state cookie_state state =
     (if \<not> truthy state then Inl (OAuthError ''OAuth state missing'')
      else if \<not> truthy cookie_state then Inl (OAuthError ''OAuth state cookie missing'')
      else if \<not> list_all (\<lambda>c. of_char c < (128 :: nat)) (the state @ the cookie_state)
      then Inl (RuntimeError ''comparing strings with non-ASCII characters is not supported'')
      else if state \<noteq> cookie_state then Inl (OAuthError ''OAuth state mismatch'')
      else Inr ())"

end
