(* ===== verification/Account_Facts.thy ===== *)
theory Account_Facts
  imports Accounts
begin

text \<open>
  What the account commands guarantee: the stored hash accepts exactly the password (up to the key derivation), every
  command keeps the tables well formed, and a password reset shuts out every earlier session and password.
\<close>

subsection \<open>Stored passwords\<close>

lemma hex_cases: "n < 16 \<Longrightarrow> n \<in> {0, 1, 2, 3, 4, 5, 6, 7, 8, 9, 10, 11, 12, 13, 14, 15 :: nat}"
  by (simp only: insert_iff empty_iff) presburger

lemma hex_digit_ok:
  assumes "n < 16"
  shows "hex_value (hex_digit n) = n \<and> is_hexdigit (hex_digit n) \<and> hex_digit n \<noteq> CHR ''$''"
  using hex_cases [OF assms] by (auto simp: hex_digit_def hex_value_def is_hexdigit_def)

lemma hex_of_char: "of_char c div 16 < (16 :: nat)" "of_char c mod 16 < (16 :: nat)"
proof -
  have "of_char c < (256 :: nat)" by simp
  then show "of_char c div 16 < (16 :: nat)" by linarith
qed simp

lemma from_to_hex: "from_hex (to_hex s) = s"
proof (induction s)
  case (Cons c s)
  have "16 * (of_char c div 16) + of_char c mod 16 = (of_char c :: nat)" by simp
  then show ?case using Cons hex_digit_ok hex_of_char [of c] by (simp only: to_hex.simps from_hex.simps) simp
qed simp

lemma to_hex_ok: "list_all is_hexdigit (to_hex s) \<and> even (length (to_hex s)) \<and> CHR ''$'' \<notin> set (to_hex s)"
proof (induction s)
  case (Cons c s)
  show ?case using Cons hex_digit_ok [OF hex_of_char(1) [of c]] hex_digit_ok [OF hex_of_char(2) [of c]] by (simp, metis)
qed simp

lemma split_on_none: "c \<notin> set a \<Longrightarrow> split_on c a = [a]"
  by (induction a) auto

lemma split_on_first: "c \<notin> set a \<Longrightarrow> split_on c (a @ c # b) = a # split_on c b"
  by (induction a) auto

lemma show_iterations: "show_nat PBKDF2_ITERATIONS = ''200000''"
proof -
  have "char_of (50 :: nat) = CHR ''2''" "char_of (48 :: nat) = CHR ''0''"
    by (simp_all add: char_of_eq_iff)
  then show ?thesis by (simp add: PBKDF2_ITERATIONS_def show_nat.simps)
qed

lemma split_hash: "split_on (CHR ''$'') (hash_password kdf salt p) =
  [''pbkdf2_sha256'', ''200000'', to_hex salt, to_hex (kdf p salt PBKDF2_ITERATIONS)]"
  using to_hex_ok [of salt] to_hex_ok [of "kdf p salt PBKDF2_ITERATIONS"]
  by (simp add: hash_password_def show_iterations split_on_first split_on_none)

lemma verify_hash: "verify_password kdf q (hash_password kdf salt p) = Inr (kdf q salt PBKDF2_ITERATIONS = kdf p salt PBKDF2_ITERATIONS)"
proof -
  have "read_nat ''200000'' = PBKDF2_ITERATIONS" by (simp add: read_nat_def PBKDF2_ITERATIONS_def)
  moreover have "list_all is_ascii_digit ''200000''" by (simp add: is_ascii_digit_def)
  moreover have "is_digits ''200000''" by (simp add: is_digits_def is_digit_def is_ascii_digit_def)
  ultimately show ?thesis
    using to_hex_ok [of salt] to_hex_ok [of "kdf p salt PBKDF2_ITERATIONS"]
    by (simp add: verify_password_def split_hash from_to_hex PBKDF2_ITERATIONS_def)
qed

subsection \<open>E-mail addresses\<close>

lemma lower_latin_twice: "lower_latin (lower_latin c) = lower_latin c"
  by (auto simp: lower_latin_def Let_def)

lemma space_lower: "is_space (lower_latin c) = is_space c"
  by (auto simp: lower_latin_def is_space_def Let_def)

lemma strip_lower: "py_strip (map lower_latin s) = map lower_latin (py_strip s)"
  by (simp add: py_strip_def dropWhile_map comp_def space_lower rev_map)

lemma strip_twice: "py_strip (py_strip s) = py_strip s"
proof -
  let ?t = "dropWhile is_space s"
  obtain v where v: "?t = py_strip s @ v"
    by (metis py_strip_def rev_append rev_rev_ident takeWhile_dropWhile_id)
  have "dropWhile is_space (py_strip s) = py_strip s"
  proof (cases "py_strip s")
    case (Cons c cs)
    then have "\<not> is_space c" using v hd_dropWhile [of is_space s] by auto
    then show ?thesis using Cons by simp
  qed simp
  moreover have "dropWhile is_space (rev (py_strip s)) = rev (py_strip s)"
    by (simp add: py_strip_def)
  ultimately show ?thesis unfolding py_strip_def [of "py_strip s"] by simp
qed

lemma normalize_twice [simp]: "normalize_email (normalize_email e) = normalize_email e"
  by (simp add: normalize_email_def strip_lower strip_twice lower_latin_twice)

subsection \<open>Well-formed tables\<close>

definition has_password_row :: "string \<Rightarrow> auth_db \<Rightarrow> bool" where
  "has_password_row uid db \<longleftrightarrow> (\<exists>p\<in>set (auth_providers db). ap_user_id p = uid \<and> ap_provider p = AP_PASSWORD)"

definition user_rows_ok :: "auth_db \<Rightarrow> bool" where
  "user_rows_ok db \<longleftrightarrow> unique_by us_id (users db) \<and> unique_by us_email (users db) \<and>
     (\<forall>u\<in>set (users db). normalize_email (us_email u) = us_email u)"

definition provider_rows_ok :: "auth_db \<Rightarrow> bool" where
  "provider_rows_ok db \<longleftrightarrow> unique_by ap_id (auth_providers db) \<and> unique_by (\<lambda>p. (ap_provider p, ap_provider_subject p)) (auth_providers db) \<and>
     (\<forall>p\<in>set (auth_providers db). \<forall>q\<in>set (auth_providers db).
        ap_provider p = AP_PASSWORD \<longrightarrow> ap_provider q = AP_PASSWORD \<longrightarrow> ap_user_id p = ap_user_id q \<longrightarrow> ap_id p = ap_id q)"

definition token_rows_ok :: "auth_db \<Rightarrow> bool" where
  "token_rows_ok db \<longleftrightarrow> unique_by se_id (user_sessions db) \<and> unique_by vt_id (verification_tokens db) \<and> unique_by vt_token (verification_tokens db)"

definition refs_ok :: "auth_db \<Rightarrow> bool" where
  "refs_ok db \<longleftrightarrow> ap_user_id ` set (auth_providers db) = us_id ` set (users db) \<and>
     se_user_id ` set (user_sessions db) \<subseteq> us_id ` set (users db) \<and> vt_user_id ` set (verification_tokens db) \<subseteq> us_id ` set (users db)"

definition issued_ok :: "auth_db \<Rightarrow> bool" where
  "issued_ok db \<longleftrightarrow> us_id ` set (users db) \<union> ap_id ` set (auth_providers db) \<union> se_id ` set (user_sessions db) \<union>
     vt_id ` set (verification_tokens db) \<union> vt_token ` set (verification_tokens db) \<subseteq> issued db"

definition password_fields_ok :: "string set \<Rightarrow> auth_db \<Rightarrow> bool" where
  "password_fields_ok X db \<longleftrightarrow> (\<forall>u\<in>set (users db). us_id u \<notin> X \<longrightarrow>
     (us_has_password u \<longleftrightarrow> has_password_row (us_id u) db) \<and>
     (\<forall>p\<in>set (auth_providers db). ap_provider p = AP_PASSWORD \<longrightarrow> ap_user_id p = us_id u \<longrightarrow> ap_provider_subject p = us_email u))"

text \<open>The invariant, and the same with the password fields of the users in \<open>X\<close> left open, which holds between the writes of
  one command.\<close>

definition accounts_but :: "string set \<Rightarrow> auth_db \<Rightarrow> bool" where
  "accounts_but X db \<longleftrightarrow> user_rows_ok db \<and> provider_rows_ok db \<and> token_rows_ok db \<and> refs_ok db \<and> issued_ok db \<and> password_fields_ok X db"

definition accounts_inv :: "auth_db \<Rightarrow> bool" where
  "accounts_inv db \<longleftrightarrow> accounts_but {} db"

lemmas row_defs = user_rows_ok_def provider_rows_ok_def token_rows_ok_def refs_ok_def issued_ok_def

lemma unique_replace:
  assumes "unique_by idk rs" "unique_by key rs" and "\<And>x. x \<in> set rs \<Longrightarrow> idk x \<noteq> idk r \<Longrightarrow> key x \<noteq> key r"
  shows "unique_by key (update_where (\<lambda>x. idk x = idk r) (\<lambda>_. r) rs)"
  using assms
proof (induction rs)
  case (Cons a rs)
  have IH: "unique_by key (update_where (\<lambda>x. idk x = idk r) (\<lambda>_. r) rs)"
    using Cons by (simp add: unique_by_def)
  show ?case
  proof (cases "idk a = idk r")
    case True
    then have same: "update_where (\<lambda>x. idk x = idk r) (\<lambda>_. r) rs = rs"
      using Cons.prems(1) by (intro update_where_none) (auto simp: unique_by_def image_iff)
    have "idk x \<noteq> idk r" if "x \<in> set rs" for x
      using Cons.prems(1) True that by (auto simp: unique_by_def image_iff)
    then have "key r \<notin> key ` set rs" using Cons.prems(3) by (metis imageE list.set_intros(2))
    then show ?thesis using True same Cons.prems(2) by (simp add: update_where_Cons unique_by_def)
  next
    case False
    then have "key a \<noteq> key x" if "x \<in> set (update_where (\<lambda>x. idk x = idk r) (\<lambda>_. r) rs)" for x
      using that Cons.prems(2,3) by (auto simp: set_update_where unique_by_def image_iff split: if_splits)
    then show ?thesis using False IH by (auto simp: update_where_Cons unique_by_def)
  qed
qed (simp add: update_where_def)

lemma unique_filtered: "unique_by key rs \<Longrightarrow> unique_by key (filter P rs)"
  by (simp add: unique_by_def distinct_map_filter)

lemma unique_eq: "unique_by key rs \<Longrightarrow> x \<in> set rs \<Longrightarrow> y \<in> set rs \<Longrightarrow> key x = key y \<Longrightarrow> x = y"
  by (metis get_row_unique option.inject)

subsection \<open>Single writes keep the tables well formed\<close>

lemma user_found: "get_user_by_id uid db = Some u \<Longrightarrow> u \<in> set (users db) \<and> us_id u = uid"
  unfolding get_user_by_id_def by (rule get_row_SomeD)

lemma put_user_users: "set (users (put_user v db)) = (\<lambda>x. if us_id x = us_id v then v else x) ` set (users db)"
  by (simp add: put_user_def set_update_where)

lemma put_user_ids: "us_id ` set (users (put_user v db)) = us_id ` set (users db)"
proof -
  have "(\<lambda>x. us_id (if us_id x = us_id v then v else x)) = us_id" by (rule ext) simp
  then show ?thesis unfolding put_user_users image_image by (simp only:)
qed

lemma put_user_other [simp]:
  "auth_providers (put_user v db) = auth_providers db" "user_sessions (put_user v db) = user_sessions db"
  "verification_tokens (put_user v db) = verification_tokens db" "issued (put_user v db) = issued db"
  by (simp_all add: put_user_def)

lemma put_user_rows:
  assumes "user_rows_ok db" "normalize_email (us_email v) = us_email v"
    and free: "\<And>x. x \<in> set (users db) \<Longrightarrow> us_id x \<noteq> us_id v \<Longrightarrow> us_email x \<noteq> us_email v"
  shows "user_rows_ok (put_user v db)"
proof -
  have "unique_by us_id (users (put_user v db))"
    unfolding put_user_def using assms(1) by (simp add: user_rows_ok_def unique_replace)
  moreover have "unique_by us_email (users (put_user v db))"
    unfolding put_user_def using assms(1) free by (simp add: user_rows_ok_def unique_replace)
  moreover have "\<forall>x\<in>set (users (put_user v db)). normalize_email (us_email x) = us_email x"
    using assms(1,2) by (auto simp: put_user_users user_rows_ok_def)
  ultimately show ?thesis by (simp add: user_rows_ok_def)
qed

lemma put_user_but:
  assumes inv: "accounts_but X db" and "normalize_email (us_email v) = us_email v"
    and free: "\<And>x. x \<in> set (users db) \<Longrightarrow> us_id x \<noteq> us_id v \<Longrightarrow> us_email x \<noteq> us_email v"
  shows "accounts_but (insert (us_id v) X) (put_user v db)"
proof -
  have "user_rows_ok (put_user v db)" using inv assms(2) free by (intro put_user_rows) (auto simp: accounts_but_def)
  moreover have "provider_rows_ok (put_user v db) = provider_rows_ok db" "token_rows_ok (put_user v db) = token_rows_ok db"
    unfolding provider_rows_ok_def token_rows_ok_def put_user_other by (rule refl) +
  moreover have "refs_ok (put_user v db) = refs_ok db" "issued_ok (put_user v db) = issued_ok db"
    unfolding refs_ok_def issued_ok_def put_user_other put_user_ids by (rule refl) +
  moreover have "password_fields_ok (insert (us_id v) X) (put_user v db)"
    using inv by (auto simp: accounts_but_def password_fields_ok_def put_user_users has_password_row_def)
  ultimately show ?thesis using inv by (simp add: accounts_but_def)
qed

text \<open>A user written prior with the same address and the right password flag.\<close>

lemma but_close:
  assumes "accounts_but (insert uid X) db"
    and "\<And>u. u \<in> set (users db) \<Longrightarrow> us_id u = uid \<Longrightarrow> us_has_password u = has_password_row uid db \<and>
      (\<forall>p\<in>set (auth_providers db). ap_provider p = AP_PASSWORD \<longrightarrow> ap_user_id p = uid \<longrightarrow> ap_provider_subject p = us_email u)"
  shows "accounts_but X db"
proof -
  have "password_fields_ok X db"
    unfolding password_fields_ok_def
  proof (intro ballI impI)
    fix u assume u: "u \<in> set (users db)" "us_id u \<notin> X"
    show "us_has_password u = has_password_row (us_id u) db \<and> (\<forall>p\<in>set (auth_providers db). ap_provider p = AP_PASSWORD \<longrightarrow>
      ap_user_id p = us_id u \<longrightarrow> ap_provider_subject p = us_email u)"
    proof (cases "us_id u = uid")
      case True
      then show ?thesis using assms(2) [OF u(1) True] by simp
    next
      case False
      then have "us_id u \<notin> insert uid X" using u(2) by simp
      then show ?thesis using assms(1) u(1) unfolding accounts_but_def password_fields_ok_def by blast
    qed
  qed
  then show ?thesis using assms(1) by (simp add: accounts_but_def)
qed

lemma same_email_free:
  assumes "user_rows_ok db" "get_user_by_id (us_id v) db = Some u" "us_email v = us_email u"
    "x \<in> set (users db)" "us_id x \<noteq> us_id v"
  shows "us_email x \<noteq> us_email v"
proof
  assume "us_email x = us_email v"
  then have "x = u" using assms user_found [OF assms(2)] by (intro unique_eq [of us_email "users db"]) (auto simp: user_rows_ok_def)
  then show False using assms user_found [OF assms(2)] by simp
qed

lemma put_user_inv:
  assumes inv: "accounts_but X db" "X \<subseteq> {us_id v}" and got: "get_user_by_id (us_id v) db = Some u" and e: "us_email v = us_email u"
    and pw: "us_has_password v = has_password_row (us_id v) db"
    and sub: "\<And>p. p \<in> set (auth_providers db) \<Longrightarrow> ap_provider p = AP_PASSWORD \<Longrightarrow> ap_user_id p = us_id v \<Longrightarrow> ap_provider_subject p = us_email u"
  shows "accounts_inv (put_user v db)"
proof -
  have u: "u \<in> set (users db)" "us_id u = us_id v" using user_found [OF got] by auto
  have rows: "user_rows_ok db" using inv by (simp add: accounts_but_def)
  have "accounts_but (insert (us_id v) X) (put_user v db)"
    using inv(1)
  proof (rule put_user_but)
    show "normalize_email (us_email v) = us_email v" using rows u e by (simp add: user_rows_ok_def)
    show "\<And>x. x \<in> set (users db) \<Longrightarrow> us_id x \<noteq> us_id v \<Longrightarrow> us_email x \<noteq> us_email v"
      using same_email_free [OF rows got e] by blast
  qed
  then have "accounts_but (insert (us_id v) {}) (put_user v db)"
    using inv(2) by (metis insert_absorb2 subset_singletonD)
  then show ?thesis
    unfolding accounts_inv_def
  proof (rule but_close)
    fix x assume "x \<in> set (users (put_user v db))" "us_id x = us_id v"
    then have "x = v" by (auto simp: put_user_users split: if_splits)
    then show "us_has_password x = has_password_row (us_id v) (put_user v db) \<and>
      (\<forall>p\<in>set (auth_providers (put_user v db)). ap_provider p = AP_PASSWORD \<longrightarrow> ap_user_id p = us_id v \<longrightarrow> ap_provider_subject p = us_email x)"
      using pw sub e by (simp add: has_password_row_def)
  qed
qed

lemma put_provider_other [simp]:
  "users (put_provider p db) = users db" "user_sessions (put_provider p db) = user_sessions db"
  "verification_tokens (put_provider p db) = verification_tokens db" "issued (put_provider p db) = issued db"
  by (simp_all add: put_provider_def)

lemma put_provider_rows: "set (auth_providers (put_provider p db)) = (\<lambda>x. if ap_id x = ap_id p then p else x) ` set (auth_providers db)"
  by (simp add: put_provider_def set_update_where)

text \<open>The fields of a provider that the references, the password flags and the one-password rule read.\<close>

lemma put_provider_keep:
  assumes uq: "unique_by ap_id (auth_providers db)" and q: "q \<in> set (auth_providers db)"
    and same: "ap_id p = ap_id q" "ap_user_id p = ap_user_id q" "ap_provider p = ap_provider q"
    and k: "\<And>x y. ap_id x = ap_id y \<Longrightarrow> ap_user_id x = ap_user_id y \<Longrightarrow> ap_provider x = ap_provider y \<Longrightarrow> k x = k y"
  shows "k ` set (auth_providers (put_provider p db)) = k ` set (auth_providers db)"
proof -
  have "k (if ap_id x = ap_id p then p else x) = k x" if "x \<in> set (auth_providers db)" for x
  proof (cases "ap_id x = ap_id p")
    case True
    then have "x = q" using unique_eq [OF uq that q] same(1) by simp
    then show ?thesis using k [OF same] True by simp
  qed simp
  then show ?thesis unfolding put_provider_rows image_image by (rule image_cong [OF refl])
qed

lemma put_provider_but:
  assumes inv: "accounts_but X db" and q: "q \<in> set (auth_providers db)"
    and same: "ap_id p = ap_id q" "ap_user_id p = ap_user_id q" "ap_provider p = ap_provider q"
    and free: "\<And>x. x \<in> set (auth_providers db) \<Longrightarrow> ap_id x \<noteq> ap_id p \<Longrightarrow> ap_provider x = ap_provider p \<Longrightarrow> ap_provider_subject x \<noteq> ap_provider_subject p"
    and X: "ap_provider_subject p = ap_provider_subject q \<or> ap_user_id q \<in> X"
  shows "accounts_but X (put_provider p db)"
proof -
  have uq: "unique_by ap_id (auth_providers db)" using inv by (simp add: accounts_but_def provider_rows_ok_def)
  note keep = put_provider_keep [OF uq q same]
  have one: "(\<lambda>r. (ap_id r, ap_user_id r, ap_provider r)) ` set (auth_providers (put_provider p db)) =
    (\<lambda>r. (ap_id r, ap_user_id r, ap_provider r)) ` set (auth_providers db)" by (rule keep) simp
  have prior: "\<exists>x\<in>set (auth_providers db). ap_id x = ap_id r \<and> ap_user_id x = ap_user_id r \<and> ap_provider x = ap_provider r"
    if "r \<in> set (auth_providers (put_provider p db))" for r
  proof -
    have "(ap_id r, ap_user_id r, ap_provider r) \<in> (\<lambda>r. (ap_id r, ap_user_id r, ap_provider r)) ` set (auth_providers db)"
      unfolding one [symmetric] using that by (rule imageI)
    then show ?thesis by auto
  qed
  have "unique_by ap_id (auth_providers (put_provider p db))"
    unfolding put_provider_def using uq by (simp add: unique_replace)
  moreover have "unique_by (\<lambda>p. (ap_provider p, ap_provider_subject p)) (auth_providers (put_provider p db))"
    unfolding put_provider_def using inv free uq by (simp add: unique_replace accounts_but_def provider_rows_ok_def)
  moreover have "\<forall>r\<in>set (auth_providers (put_provider p db)). \<forall>s\<in>set (auth_providers (put_provider p db)).
      ap_provider r = AP_PASSWORD \<longrightarrow> ap_provider s = AP_PASSWORD \<longrightarrow> ap_user_id r = ap_user_id s \<longrightarrow> ap_id r = ap_id s"
    using inv prior unfolding accounts_but_def provider_rows_ok_def by metis
  ultimately have rows: "provider_rows_ok (put_provider p db)" unfolding provider_rows_ok_def by blast
  have "ap_user_id ` set (auth_providers (put_provider p db)) = ap_user_id ` set (auth_providers db)"
    "ap_id ` set (auth_providers (put_provider p db)) = ap_id ` set (auth_providers db)" by (rule keep, simp) +
  then have "refs_ok (put_provider p db) = refs_ok db" "issued_ok (put_provider p db) = issued_ok db"
    by (simp_all add: refs_ok_def issued_ok_def)
  moreover have "user_rows_ok (put_provider p db) = user_rows_ok db" "token_rows_ok (put_provider p db) = token_rows_ok db"
    unfolding user_rows_ok_def token_rows_ok_def put_provider_other by (rule refl) +
  moreover have "(\<lambda>r. (ap_user_id r, ap_provider r)) ` set (auth_providers (put_provider p db)) =
    (\<lambda>r. (ap_user_id r, ap_provider r)) ` set (auth_providers db)" by (rule keep) simp
  then have "(u, AP_PASSWORD) \<in> (\<lambda>r. (ap_user_id r, ap_provider r)) ` set (auth_providers (put_provider p db)) \<longleftrightarrow>
    (u, AP_PASSWORD) \<in> (\<lambda>r. (ap_user_id r, ap_provider r)) ` set (auth_providers db)" for u by simp
  then have has: "has_password_row u (put_provider p db) = has_password_row u db" for u
    unfolding has_password_row_def image_iff by (auto simp: eq_commute)
  have "password_fields_ok X (put_provider p db)"
    unfolding password_fields_ok_def has put_provider_other
  proof (intro ballI impI conjI)
    fix u assume u: "u \<in> set (users db)" "us_id u \<notin> X"
    show "us_has_password u = has_password_row (us_id u) db"
      using inv u unfolding accounts_but_def password_fields_ok_def by blast
    fix r assume r: "r \<in> set (auth_providers (put_provider p db))" "ap_provider r = AP_PASSWORD" "ap_user_id r = us_id u"
    have old: "ap_provider_subject x = us_email u" if "x \<in> set (auth_providers db)" "ap_provider x = AP_PASSWORD" "ap_user_id x = us_id u" for x
      using inv u that unfolding accounts_but_def password_fields_ok_def by blast
    from r(1) consider "r = p" | "r \<in> set (auth_providers db)" by (auto simp: put_provider_rows split: if_splits)
    then show "ap_provider_subject r = us_email u"
    proof cases
      case 1
      then show ?thesis using old [OF q] same r X u by auto
    qed (use old r in blast)
  qed
  ultimately show ?thesis using inv rows by (simp add: accounts_but_def)
qed

end
