(* ===== verification/Account_Steps.thy ===== *)
theory Account_Steps
  imports Account_Facts
begin

text \<open>
  The account commands as steps of the database: every command keeps the invariant of \<open>Account_Facts\<close>. Random
  identifiers are ones that were never issued before.
\<close>

subsection \<open>Adding and removing rows\<close>

lemma but_mono: "accounts_but X db \<Longrightarrow> accounts_but (insert uid X) db"
  by (auto simp: accounts_but_def password_fields_ok_def)

lemma with_sessions:
  assumes "accounts_but X db" "unique_by se_id ss" "se_user_id ` set ss \<subseteq> us_id ` set (users db)" "se_id ` set ss \<subseteq> I" "issued db \<subseteq> I"
  shows "accounts_but X (db\<lparr>user_sessions := ss, issued := I\<rparr>)"
proof -
  let ?d = "db\<lparr>user_sessions := ss, issued := I\<rparr>"
  have "user_rows_ok ?d = user_rows_ok db" "provider_rows_ok ?d = provider_rows_ok db"
    by (simp_all add: user_rows_ok_def provider_rows_ok_def)
  moreover have "password_fields_ok X ?d = password_fields_ok X db" by (simp add: password_fields_ok_def has_password_row_def)
  moreover have "issued_ok ?d" "refs_ok ?d" "token_rows_ok ?d"
    using assms by (auto simp: accounts_but_def issued_ok_def refs_ok_def token_rows_ok_def)
  ultimately show ?thesis using assms(1) by (simp add: accounts_but_def)
qed

lemma with_tokens:
  assumes "accounts_but X db" "unique_by vt_id vs" "unique_by vt_token vs" "vt_user_id ` set vs \<subseteq> us_id ` set (users db)"
    "vt_id ` set vs \<union> vt_token ` set vs \<subseteq> I" "issued db \<subseteq> I"
  shows "accounts_but X (db\<lparr>verification_tokens := vs, issued := I\<rparr>)"
proof -
  let ?d = "db\<lparr>verification_tokens := vs, issued := I\<rparr>"
  have "user_rows_ok ?d = user_rows_ok db" "provider_rows_ok ?d = provider_rows_ok db"
    by (simp_all add: user_rows_ok_def provider_rows_ok_def)
  moreover have "password_fields_ok X ?d = password_fields_ok X db" by (simp add: password_fields_ok_def has_password_row_def)
  moreover have "issued_ok ?d" "refs_ok ?d" "token_rows_ok ?d"
    using assms by (auto simp: accounts_but_def issued_ok_def refs_ok_def token_rows_ok_def)
  ultimately show ?thesis using assms(1) by (simp add: accounts_but_def)
qed

lemma revoke_fields [simp]:
  "users (revoke_where P db) = users db" "auth_providers (revoke_where P db) = auth_providers db"
  "verification_tokens (revoke_where P db) = verification_tokens db" "issued (revoke_where P db) = issued db"
  by (simp_all add: revoke_where_def)

lemma revoke_rows: "set (user_sessions (revoke_where P db)) = (\<lambda>s. if P s then s\<lparr>se_revoked := True\<rparr> else s) ` set (user_sessions db)"
  by (simp add: revoke_where_def set_update_where)

lemma image_unchanged: "(\<And>x. k (f x) = k x) \<Longrightarrow> k ` (\<lambda>x. if P x then f x else x) ` S = k ` S"
  unfolding image_image by (rule image_cong [OF refl]) simp

lemma revoke_image: "(\<And>s. k (s\<lparr>se_revoked := True\<rparr>) = k s) \<Longrightarrow> k ` set (user_sessions (revoke_where P db)) = k ` set (user_sessions db)"
  unfolding revoke_rows by (rule image_unchanged)

lemma revoke_but:
  assumes "accounts_but X db"
  shows "accounts_but X (revoke_where P db)"
proof -
  have "accounts_but X (db\<lparr>user_sessions := user_sessions (revoke_where P db), issued := issued db\<rparr>)"
    using assms
  proof (rule with_sessions)
    show "unique_by se_id (user_sessions (revoke_where P db))"
      using assms by (simp add: revoke_where_def unique_update accounts_but_def token_rows_ok_def)
    show "se_user_id ` set (user_sessions (revoke_where P db)) \<subseteq> us_id ` set (users db)"
      using assms revoke_image [of se_user_id P db] by (simp add: accounts_but_def refs_ok_def)
    show "se_id ` set (user_sessions (revoke_where P db)) \<subseteq> issued db"
      using assms revoke_image [of se_id P db] by (simp add: accounts_but_def issued_ok_def)
  qed simp
  then show ?thesis by (simp add: revoke_where_def)
qed

lemma mark_used_rows:
  "set (verification_tokens (mark_used i db)) = (\<lambda>v. if vt_id v = i then v\<lparr>vt_used := True\<rparr> else v) ` set (verification_tokens db)"
  by (simp add: mark_used_def set_update_where)

lemma mark_used_image:
  "(\<And>v. k (v\<lparr>vt_used := True\<rparr>) = k v) \<Longrightarrow> k ` set (verification_tokens (mark_used i db)) = k ` set (verification_tokens db)"
  unfolding mark_used_rows by (rule image_unchanged)

lemma mark_used_but:
  assumes "accounts_but X db"
  shows "accounts_but X (mark_used i db)"
proof -
  have "accounts_but X (db\<lparr>verification_tokens := verification_tokens (mark_used i db), issued := issued db\<rparr>)"
    using assms
  proof (rule with_tokens)
    show "unique_by vt_id (verification_tokens (mark_used i db))" "unique_by vt_token (verification_tokens (mark_used i db))"
      using assms by (simp_all add: mark_used_def unique_update accounts_but_def token_rows_ok_def)
    show "vt_user_id ` set (verification_tokens (mark_used i db)) \<subseteq> us_id ` set (users db)"
      using assms mark_used_image [of vt_user_id i db] by (simp add: accounts_but_def refs_ok_def)
    show "vt_id ` set (verification_tokens (mark_used i db)) \<union> vt_token ` set (verification_tokens (mark_used i db)) \<subseteq> issued db"
      using assms mark_used_image [of vt_id i db] mark_used_image [of vt_token i db] by (simp add: accounts_but_def issued_ok_def)
  qed simp
  then show ?thesis by (simp add: mark_used_def)
qed

lemma add_provider_fields [simp]:
  "users (add_provider p db) = users db" "auth_providers (add_provider p db) = auth_providers db @ [p]"
  "user_sessions (add_provider p db) = user_sessions db" "verification_tokens (add_provider p db) = verification_tokens db"
  "issued (add_provider p db) = insert (ap_id p) (issued db)"
  by (simp_all add: add_provider_def)

lemma add_user_fields [simp]:
  "users (add_user u db) = users db @ [u]" "auth_providers (add_user u db) = auth_providers db"
  "user_sessions (add_user u db) = user_sessions db" "verification_tokens (add_user u db) = verification_tokens db"
  "issued (add_user u db) = insert (us_id u) (issued db)"
  by (simp_all add: add_user_def)

lemma fresh_row: "get_row key k rs = None \<longleftrightarrow> (\<forall>r\<in>set rs. key r \<noteq> k)"
  unfolding get_row_None_iff by blast

lemma provider_rows_add:
  assumes "provider_rows_ok db" "ap_id p \<notin> ap_id ` set (auth_providers db)"
    and "\<And>x. x \<in> set (auth_providers db) \<Longrightarrow> ap_provider x = ap_provider p \<Longrightarrow> ap_provider_subject x \<noteq> ap_provider_subject p"
    and "ap_provider p = AP_PASSWORD \<Longrightarrow> \<not> has_password_row (ap_user_id p) db"
  shows "provider_rows_ok (add_provider p db)"
proof -
  have "unique_by ap_id (auth_providers db @ [p])" using assms(1,2) by (simp add: unique_append1 get_row_None_iff provider_rows_ok_def)
  moreover have "unique_by (\<lambda>p. (ap_provider p, ap_provider_subject p)) (auth_providers db @ [p])"
    using assms(1,3) by (auto simp: unique_append1 fresh_row provider_rows_ok_def)
  moreover have "ap_id r = ap_id t"
    if rt: "r \<in> set (auth_providers db @ [p])" "t \<in> set (auth_providers db @ [p])" "ap_provider r = AP_PASSWORD" "ap_provider t = AP_PASSWORD" "ap_user_id r = ap_user_id t" for r t
  proof -
    have new: "\<not> (ap_provider x = AP_PASSWORD \<and> ap_provider p = AP_PASSWORD \<and> ap_user_id x = ap_user_id p)" if "x \<in> set (auth_providers db)" for x
      using assms(4) that unfolding has_password_row_def by blast
    consider "r \<in> set (auth_providers db)" "t \<in> set (auth_providers db)" | "r = t" | "r \<in> set (auth_providers db)" "t = p" | "t \<in> set (auth_providers db)" "r = p"
      using rt(1,2) by auto
    then show ?thesis
    proof cases
      case 1
      then show ?thesis using assms(1) rt(3-5) unfolding provider_rows_ok_def by blast
    next
      case 3
      then show ?thesis using new [of r] rt(3-5) by simp
    next
      case 4
      then show ?thesis using new [of t] rt(3-5) by simp
    qed simp
  qed
  ultimately show ?thesis unfolding provider_rows_ok_def add_provider_fields by blast
qed

lemma add_provider_but:
  assumes inv: "accounts_but X db" and fresh: "ap_id p \<notin> issued db" and user: "ap_user_id p \<in> us_id ` set (users db)"
    and free: "\<And>x. x \<in> set (auth_providers db) \<Longrightarrow> ap_provider x = ap_provider p \<Longrightarrow> ap_provider_subject x \<noteq> ap_provider_subject p"
    and pw: "ap_provider p = AP_PASSWORD \<Longrightarrow> \<not> has_password_row (ap_user_id p) db \<and> ap_user_id p \<in> X"
  shows "accounts_but X (add_provider p db)"
proof -
  have "ap_id p \<notin> ap_id ` set (auth_providers db)" using inv fresh by (auto simp: accounts_but_def issued_ok_def)
  then have "provider_rows_ok (add_provider p db)" using inv free pw by (intro provider_rows_add) (auto simp: accounts_but_def)
  moreover have "user_rows_ok (add_provider p db) = user_rows_ok db" "token_rows_ok (add_provider p db) = token_rows_ok db"
    by (simp_all add: user_rows_ok_def token_rows_ok_def)
  moreover have "refs_ok (add_provider p db)" "issued_ok (add_provider p db)"
    using inv user by (auto simp: accounts_but_def refs_ok_def issued_ok_def)
  moreover have "password_fields_ok X (add_provider p db)"
    unfolding password_fields_ok_def
  proof (intro ballI impI)
    fix u assume "u \<in> set (users (add_provider p db))" "us_id u \<notin> X"
    moreover from this have "\<not> (ap_provider p = AP_PASSWORD \<and> ap_user_id p = us_id u)" using pw by auto
    ultimately show "us_has_password u = has_password_row (us_id u) (add_provider p db) \<and>
      (\<forall>q\<in>set (auth_providers (add_provider p db)). ap_provider q = AP_PASSWORD \<longrightarrow> ap_user_id q = us_id u \<longrightarrow> ap_provider_subject q = us_email u)"
      using inv by (auto simp: accounts_but_def password_fields_ok_def has_password_row_def)
  qed
  ultimately show ?thesis using inv by (simp add: accounts_but_def)
qed

lemma provider_keys:
  assumes "provider_rows_ok db"
  shows "unique_by ap_id (auth_providers db)" "unique_by (\<lambda>p. (ap_provider p, ap_provider_subject p)) (auth_providers db)"
  using assms unfolding provider_rows_ok_def by blast +

lemma one_password: "provider_rows_ok db \<Longrightarrow> p \<in> set (auth_providers db) \<Longrightarrow> q \<in> set (auth_providers db) \<Longrightarrow>
  ap_provider p = AP_PASSWORD \<Longrightarrow> ap_provider q = AP_PASSWORD \<Longrightarrow> ap_user_id p = ap_user_id q \<Longrightarrow> ap_id p = ap_id q"
  unfolding provider_rows_ok_def by blast

lemma provider_rows_filter:
  assumes "provider_rows_ok db" "auth_providers db' = filter P (auth_providers db)"
  shows "provider_rows_ok db'"
  unfolding provider_rows_ok_def assms(2)
proof (intro conjI ballI impI)
  show "unique_by ap_id (filter P (auth_providers db))" by (rule unique_filtered [OF provider_keys(1) [OF assms(1)]])
  show "unique_by (\<lambda>p. (ap_provider p, ap_provider_subject p)) (filter P (auth_providers db))"
    by (rule unique_filtered [OF provider_keys(2) [OF assms(1)]])
  fix p q
  assume "p \<in> set (filter P (auth_providers db))" "q \<in> set (filter P (auth_providers db))"
    and pq: "ap_provider p = AP_PASSWORD" "ap_provider q = AP_PASSWORD" "ap_user_id p = ap_user_id q"
  then show "ap_id p = ap_id q" using one_password [OF assms(1) _ _ pq] by simp
qed

lemma provider_owner: "refs_ok db \<Longrightarrow> x \<in> set (auth_providers db) \<Longrightarrow> ap_user_id x \<in> us_id ` set (users db)"
  by (metis refs_ok_def imageI)

text \<open>A new user comes with its first sign-in method.\<close>

lemma add_account_inv:
  assumes inv: "accounts_inv db" and fresh: "us_id u \<notin> us_id ` set (users db)" "ap_id p \<notin> issued db"
    and email: "normalize_email (us_email u) = us_email u" "get_row us_email (us_email u) (users db) = None"
    and p: "ap_user_id p = us_id u" "us_has_password u = (ap_provider p = AP_PASSWORD)" "ap_provider p = AP_PASSWORD \<Longrightarrow> ap_provider_subject p = us_email u"
    and free: "\<And>x. x \<in> set (auth_providers db) \<Longrightarrow> ap_provider x = ap_provider p \<Longrightarrow> ap_provider_subject x \<noteq> ap_provider_subject p"
  shows "accounts_inv (add_provider p (add_user u db))"
proof -
  let ?d = "add_provider p (add_user u db)"
  have old: "user_rows_ok db" "provider_rows_ok db" "token_rows_ok db" "refs_ok db" "issued_ok db" "password_fields_ok {} db"
    using inv by (simp_all add: accounts_inv_def accounts_but_def)
  have new: "x \<in> set (auth_providers db) \<Longrightarrow> ap_user_id x \<noteq> us_id u" for x using provider_owner [OF old(4)] fresh(1) by metis
  have "user_rows_ok ?d" using old(1) fresh(1) email by (auto simp: user_rows_ok_def unique_append1 get_row_None_iff)
  moreover have "provider_rows_ok ?d"
  proof (rule provider_rows_add)
    show "provider_rows_ok (add_user u db)" using old(2) unfolding provider_rows_ok_def add_user_fields .
    show "ap_id p \<notin> ap_id ` set (auth_providers (add_user u db))" using old(5) fresh(2) by (auto simp: issued_ok_def)
    show "\<not> has_password_row (ap_user_id p) (add_user u db)" using new p(1) by (auto simp: has_password_row_def)
  qed (use free in simp)
  moreover have "token_rows_ok ?d" using old(3) by (simp add: token_rows_ok_def)
  moreover have "refs_ok ?d" "issued_ok ?d" using old(4,5) p(1) by (auto simp: refs_ok_def issued_ok_def)
  moreover have "password_fields_ok {} ?d"
    unfolding password_fields_ok_def
  proof (intro ballI impI)
    fix x assume "x \<in> set (users ?d)"
    then consider "x = u" | "x \<in> set (users db)" "us_id x \<noteq> us_id u" using fresh(1) by (auto simp: image_iff)
    then show "us_has_password x = has_password_row (us_id x) ?d \<and>
      (\<forall>q\<in>set (auth_providers ?d). ap_provider q = AP_PASSWORD \<longrightarrow> ap_user_id q = us_id x \<longrightarrow> ap_provider_subject q = us_email x)"
    proof cases
      case 1
      then show ?thesis using new p by (auto simp: has_password_row_def)
    next
      case 2
      then show ?thesis using old(6) p(1) by (auto simp: password_fields_ok_def has_password_row_def)
    qed
  qed
  ultimately show ?thesis by (simp add: accounts_inv_def accounts_but_def)
qed

text \<open>The password row of an account carries its address, so a free address has no password row.\<close>

lemma password_subject_free:
  assumes "accounts_inv db" "get_row us_email e (users db) = None" "x \<in> set (auth_providers db)" "ap_provider x = AP_PASSWORD"
  shows "ap_provider_subject x \<noteq> e"
proof -
  have r: "refs_ok db" "password_fields_ok {} db" using assms(1) by (simp_all add: accounts_inv_def accounts_but_def)
  obtain u where u: "u \<in> set (users db)" "us_id u = ap_user_id x" using provider_owner [OF r(1) assms(3)] by (metis imageE)
  have "ap_provider_subject x = us_email u" using r(2) u assms(3,4) unfolding password_fields_ok_def by auto
  then show ?thesis using assms(2) u(1) by (auto simp: fresh_row)
qed

lemma delete_user_inv:
  assumes "accounts_inv db"
  shows "accounts_inv (delete_user uid db)"
proof -
  have old: "user_rows_ok db" "provider_rows_ok db" "token_rows_ok db" "refs_ok db" "issued_ok db" "password_fields_ok {} db"
    using assms by (simp_all add: accounts_inv_def accounts_but_def)
  have "user_rows_ok (delete_user uid db)" using old(1) by (auto simp: user_rows_ok_def delete_user_def unique_filtered)
  moreover have "provider_rows_ok (delete_user uid db)" using old(2) by (rule provider_rows_filter) (simp add: delete_user_def)
  moreover have "token_rows_ok (delete_user uid db)" using old(3) by (simp add: token_rows_ok_def delete_user_def unique_filtered)
  moreover have "ap_user_id ` {p \<in> set (auth_providers db). ap_user_id p \<noteq> uid} = us_id ` {u \<in> set (users db). us_id u \<noteq> uid}"
  proof -
    have "ap_user_id ` {p \<in> set (auth_providers db). ap_user_id p \<noteq> uid} = ap_user_id ` set (auth_providers db) - {uid}" by blast
    moreover have "us_id ` {u \<in> set (users db). us_id u \<noteq> uid} = us_id ` set (users db) - {uid}" by blast
    ultimately show ?thesis using old(4) by (simp add: refs_ok_def)
  qed
  then have "refs_ok (delete_user uid db)" using old(4) by (auto simp: refs_ok_def delete_user_def)
  moreover have "issued_ok (delete_user uid db)" using old(5) by (auto simp: issued_ok_def delete_user_def)
  moreover have "password_fields_ok {} (delete_user uid db)"
    using old(6) by (auto simp: password_fields_ok_def delete_user_def has_password_row_def)
  ultimately show ?thesis by (simp add: accounts_inv_def accounts_but_def)
qed

subsection \<open>What a step may do to sessions and tokens\<close>

text \<open>Identifiers are only ever added; a session or token row is either new, with an identifier that was never issued, or an
  earlier row, which stays revoked or used if it was.\<close>

definition later :: "auth_db \<Rightarrow> auth_db \<Rightarrow> bool" where
  "later db db' \<longleftrightarrow> issued db \<subseteq> issued db' \<and>
     (\<forall>s'\<in>set (user_sessions db'). se_id s' \<in> issued db \<longrightarrow> (\<exists>s\<in>set (user_sessions db). se_id s = se_id s' \<and> (se_revoked s \<longrightarrow> se_revoked s'))) \<and>
     (\<forall>v'\<in>set (verification_tokens db'). vt_token v' \<in> issued db \<longrightarrow>
        (\<exists>v\<in>set (verification_tokens db). vt_token v = vt_token v' \<and> (vt_used v \<longrightarrow> vt_used v')))"

lemma laterI:
  assumes "issued db \<subseteq> issued db'"
    and "\<And>s'. s' \<in> set (user_sessions db') \<Longrightarrow> se_id s' \<in> issued db \<Longrightarrow> \<exists>s\<in>set (user_sessions db). se_id s = se_id s' \<and> (se_revoked s \<longrightarrow> se_revoked s')"
    and "\<And>v'. v' \<in> set (verification_tokens db') \<Longrightarrow> vt_token v' \<in> issued db \<Longrightarrow>
      \<exists>v\<in>set (verification_tokens db). vt_token v = vt_token v' \<and> (vt_used v \<longrightarrow> vt_used v')"
  shows "later db db'"
  using assms unfolding later_def by blast

lemma later_same: "user_sessions db' = user_sessions db \<Longrightarrow> verification_tokens db' = verification_tokens db \<Longrightarrow> issued db \<subseteq> issued db' \<Longrightarrow> later db db'"
  by (rule laterI) auto

lemma later_trans:
  assumes "later a b" "later b c"
  shows "later a c"
proof (rule laterI)
  show "issued a \<subseteq> issued c" using assms by (auto simp: later_def)
next
  fix s assume s: "s \<in> set (user_sessions c)" "se_id s \<in> issued a"
  then have "se_id s \<in> issued b" using assms(1) by (auto simp: later_def)
  then obtain r where r: "r \<in> set (user_sessions b)" "se_id r = se_id s" "se_revoked r \<longrightarrow> se_revoked s"
    using assms(2) s(1) unfolding later_def by blast
  then obtain q where "q \<in> set (user_sessions a)" "se_id q = se_id r" "se_revoked q \<longrightarrow> se_revoked r"
    using assms(1) s(2) unfolding later_def by metis
  then show "\<exists>q\<in>set (user_sessions a). se_id q = se_id s \<and> (se_revoked q \<longrightarrow> se_revoked s)" using r by auto
next
  fix v assume v: "v \<in> set (verification_tokens c)" "vt_token v \<in> issued a"
  then have "vt_token v \<in> issued b" using assms(1) by (auto simp: later_def)
  then obtain r where r: "r \<in> set (verification_tokens b)" "vt_token r = vt_token v" "vt_used r \<longrightarrow> vt_used v"
    using assms(2) v(1) unfolding later_def by blast
  then obtain q where "q \<in> set (verification_tokens a)" "vt_token q = vt_token r" "vt_used q \<longrightarrow> vt_used r"
    using assms(1) v(2) unfolding later_def by metis
  then show "\<exists>q\<in>set (verification_tokens a). vt_token q = vt_token v \<and> (vt_used q \<longrightarrow> vt_used v)" using r by auto
qed

lemma later_refl: "later db db"
  by (rule later_same) auto

lemma later_revoke: "later db (revoke_where P db)"
  by (rule laterI) (auto simp: revoke_rows)

lemma later_mark: "later db (mark_used i db)"
proof (rule laterI)
  show "issued db \<subseteq> issued (mark_used i db)" by (simp add: mark_used_def)
  show "\<And>s'. s' \<in> set (user_sessions (mark_used i db)) \<Longrightarrow> \<exists>s\<in>set (user_sessions db). se_id s = se_id s' \<and> (se_revoked s \<longrightarrow> se_revoked s')"
    by (auto simp: mark_used_def)
qed (auto simp: mark_used_rows)

lemma later_put_user: "later db (put_user u db)"
  by (rule later_same) auto

lemma later_put_provider: "later db (put_provider p db)"
  by (rule later_same) auto

lemma later_add_provider: "later db (add_provider p db)"
  by (rule later_same) auto

lemma later_add_user: "later db (add_user u db)"
  by (rule later_same) auto

lemma later_delete: "later db (delete_user uid db)"
  by (rule laterI) (auto simp: delete_user_def)

text \<open>A command keeps the invariant and is a step in this sense.\<close>

definition keeps :: "auth_db \<Rightarrow> auth_db \<Rightarrow> bool" where
  "keeps db db' \<longleftrightarrow> accounts_inv db' \<and> later db db'"

definition fresh_env :: "auth_settings \<Rightarrow> auth_env \<Rightarrow> auth_db \<Rightarrow> bool" where
  "fresh_env cfg env db \<longleftrightarrow>
     distinct [ae_ids env 0, ae_ids env 1, ae_ids env 2, ae_ids env 3, ae_token env, as_default_user_id cfg] \<and>
     {ae_ids env 0, ae_ids env 1, ae_ids env 2, ae_ids env 3, ae_token env} \<inter> issued db = {}"

lemma account_parts:
  assumes "accounts_inv db"
  shows "user_rows_ok db" "provider_rows_ok db" "token_rows_ok db" "refs_ok db" "issued_ok db" "password_fields_ok {} db" "accounts_but {} db"
  using assms by (simp_all add: accounts_inv_def accounts_but_def)

lemma fields_of:
  assumes "accounts_inv db" "get_user_by_id uid db = Some u"
  shows "us_has_password u = has_password_row uid db"
    and "p \<in> set (auth_providers db) \<Longrightarrow> ap_provider p = AP_PASSWORD \<Longrightarrow> ap_user_id p = uid \<Longrightarrow> ap_provider_subject p = us_email u"
proof -
  have u: "u \<in> set (users db)" "us_id u = uid" using user_found [OF assms(2)] by simp_all
  show "us_has_password u = has_password_row uid db"
    using account_parts(6) [OF assms(1)] u unfolding password_fields_ok_def by auto
  show "p \<in> set (auth_providers db) \<Longrightarrow> ap_provider p = AP_PASSWORD \<Longrightarrow> ap_user_id p = uid \<Longrightarrow> ap_provider_subject p = us_email u"
    using account_parts(6) [OF assms(1)] u unfolding password_fields_ok_def by auto
qed

lemma user_known: "get_user_by_id uid db = Some u \<Longrightarrow> uid \<in> us_id ` set (users db)"
  by (metis user_found imageI)

lemma touch_user:
  assumes "accounts_inv db" "get_user_by_id uid db = Some u" "us_id v = uid" "us_email v = us_email u" "us_has_password v = us_has_password u"
  shows "keeps db (put_user v db)"
proof -
  have "accounts_inv (put_user v db)"
    by (rule put_user_inv [of "{}" db v u]) (use assms fields_of [OF assms(1,2)] account_parts(7) [OF assms(1)] in auto)
  then show ?thesis by (simp add: keeps_def later_put_user)
qed

subsection \<open>The commands\<close>

lemma session_keeps:
  assumes inv: "accounts_inv db" and fresh: "ae_ids env 2 \<notin> issued db"
    and run: "stage_create_session cfg env uid device ip db = Inr (s, db')"
  shows "keeps db db' \<and> issued db' = insert (ae_ids env 2) (issued db)"
proof -
  obtain u where u: "get_user_by_id uid db = Some u" using run by (auto simp: stage_create_session_def split: option.splits)
  define d where "d = put_user (u\<lparr>us_last_login_at := Some (ae_now env), us_updated_at := ae_now env\<rparr>) db"
  have s: "se_id s = ae_ids env 2" "se_user_id s = uid"
    and db': "db' = d\<lparr>user_sessions := user_sessions d @ [s], issued := insert (se_id s) (issued d)\<rparr>"
    using run u by (auto simp: stage_create_session_def Let_def d_def)
  have d: "keeps db d" unfolding d_def using inv u by (rule touch_user) (use user_found [OF u] in simp_all)
  have but: "accounts_but {} d" using d by (simp add: keeps_def accounts_inv_def)
  have eqs: "issued d = issued db" "user_sessions d = user_sessions db" by (simp_all add: d_def)
  have ids: "us_id ` set (users d) = us_id ` set (users db)" unfolding d_def by (rule put_user_ids)
  have old: "se_id ` set (user_sessions d) \<subseteq> issued d" using account_parts(5) [OF inv] by (auto simp: issued_ok_def eqs)
  have "accounts_but {} db'"
    unfolding db' using but
  proof (rule with_sessions)
    show "unique_by se_id (user_sessions d @ [s])"
      using but old fresh s eqs by (auto simp: unique_append1 get_row_None_iff accounts_but_def token_rows_ok_def)
    show "se_user_id ` set (user_sessions d @ [s]) \<subseteq> us_id ` set (users d)"
      using but s user_known [OF u] ids by (auto simp: accounts_but_def refs_ok_def)
    show "se_id ` set (user_sessions d @ [s]) \<subseteq> insert (se_id s) (issued d)" using old by auto
  qed auto
  moreover have "later db db'"
    by (rule laterI) (use s eqs fresh d_def in \<open>auto simp: db'\<close>)
  ultimately show ?thesis by (simp add: keeps_def accounts_inv_def db' s eqs)
qed

lemma token_keeps:
  assumes inv: "accounts_inv db" and fresh: "ae_ids env 3 \<notin> issued db" "ae_token env \<notin> issued db" and u: "uid \<in> us_id ` set (users db)"
    and run: "stage_create_verification_token env uid ty ttl db = (t, db')"
  shows "keeps db db' \<and> issued db' = {ae_ids env 3, ae_token env} \<union> issued db"
proof -
  define v where "v = \<lparr>vt_id = ae_ids env 3, vt_user_id = uid, vt_token = ae_token env, vt_token_type = ty, vt_created_at = ae_now env,
               vt_expires_at = ae_now env + seconds (3600 * ttl), vt_used = False\<rparr>"
  have v: "vt_id v = ae_ids env 3" "vt_user_id v = uid" "vt_token v = ae_token env" by (simp_all add: v_def)
  have db': "db' = db\<lparr>verification_tokens := verification_tokens db @ [v], issued := {vt_id v, vt_token v} \<union> issued db\<rparr>"
    using run by (auto simp: stage_create_verification_token_def Let_def v_def)
  have old: "vt_id ` set (verification_tokens db) \<union> vt_token ` set (verification_tokens db) \<subseteq> issued db"
    using account_parts(5) [OF inv] by (auto simp: issued_ok_def)
  have "accounts_but {} db'"
    unfolding db' using account_parts(7) [OF inv]
  proof (rule with_tokens)
    show "unique_by vt_id (verification_tokens db @ [v])" "unique_by vt_token (verification_tokens db @ [v])"
      using account_parts(3) [OF inv] old fresh v by (auto simp: unique_append1 get_row_None_iff token_rows_ok_def)
    show "vt_user_id ` set (verification_tokens db @ [v]) \<subseteq> us_id ` set (users db)"
      using account_parts(4) [OF inv] v u by (auto simp: refs_ok_def)
    show "vt_id ` set (verification_tokens db @ [v]) \<union> vt_token ` set (verification_tokens db @ [v]) \<subseteq> {vt_id v, vt_token v} \<union> issued db"
      using old by auto
  qed auto
  moreover have "later db db'"
    by (rule laterI) (use v fresh in \<open>auto simp: db'\<close>)
  ultimately show ?thesis by (simp add: keeps_def accounts_inv_def db' v)
qed

lemma email_lookup: "get_user_by_email (normalize_email e) db = None \<longleftrightarrow> get_row us_email (normalize_email e) (users db) = None"
  by (simp add: get_user_by_email_def)

lemma create_user_keeps:
  assumes inv: "accounts_inv db" and fresh: "ae_ids env 0 \<notin> issued db" "ae_ids env 1 \<notin> issued db"
    and run: "stage_create_user kdf env email password name verified db = Inr (u, db')"
  shows "keeps db db' \<and> issued db' = {ae_ids env 0, ae_ids env 1} \<union> issued db \<and> us_id u \<in> us_id ` set (users db')"
proof -
  define p where "p = new_password_provider (ae_ids env 1) u (password_metadata kdf env password) (ae_now env)"
  have none: "get_row us_email (normalize_email email) (users db) = None"
    using run by (auto simp: stage_create_user_def email_lookup split: if_splits)
  have u: "us_id u = ae_ids env 0" "us_email u = normalize_email email" "us_has_password u" and db': "db' = add_provider p (add_user u db)"
    using run unfolding stage_create_user_def and_then_def by (auto simp: p_def Let_def split: if_splits sum.splits)
  have p: "ap_id p = ae_ids env 1" "ap_user_id p = us_id u" "ap_provider p = AP_PASSWORD" "ap_provider_subject p = us_email u"
    by (simp_all add: p_def new_password_provider_def)
  have "us_id u \<notin> us_id ` set (users db)" using account_parts(5) [OF inv] fresh(1) u(1) by (auto simp: issued_ok_def)
  then have "accounts_inv db'" unfolding db'
    using inv u p none fresh(2) password_subject_free [OF inv none] by (intro add_account_inv) simp_all
  then show ?thesis using later_trans [OF later_add_user later_add_provider] by (auto simp: keeps_def db' p u)
qed

lemma register_keeps:
  assumes inv: "accounts_inv db" and fresh: "fresh_env cfg env db"
    and run: "register_user kdf cfg env email password name verified device ip db = Inr (u, s, t, db')"
  shows "keeps db db'"
proof -
  obtain u0 d1 where c: "stage_create_user kdf env email password name verified db = Inr (u0, d1)"
    using run by (cases "stage_create_user kdf env email password name verified db") (auto simp: register_user_def and_then_def)
  have k1: "keeps db d1" "issued d1 = {ae_ids env 0, ae_ids env 1} \<union> issued db" "us_id u0 \<in> us_id ` set (users d1)"
    using create_user_keeps [OF inv _ _ c] fresh by (auto simp: fresh_env_def)
  obtain t0 d2 where d2: "(if verified then (None, d1) else (case stage_create_verification_token env (us_id u0) VT_EMAIL_VERIFY 24 d1 of (t, d) \<Rightarrow> (Some t, d))) = (t0, d2)"
    by (cases "if verified then (None, d1) else (case stage_create_verification_token env (us_id u0) VT_EMAIL_VERIFY 24 d1 of (t, d) \<Rightarrow> (Some t, d))")
  have k2: "keeps db d2 \<and> ae_ids env 2 \<notin> issued d2"
  proof (cases verified)
    case True
    then show ?thesis using d2 k1 fresh by (auto simp: fresh_env_def)
  next
    case False
    obtain t1 where t1: "stage_create_verification_token env (us_id u0) VT_EMAIL_VERIFY 24 d1 = (t1, d2)"
      using d2 False by (auto split: prod.splits)
    have "accounts_inv d1" using k1 by (simp add: keeps_def)
    then have "keeps d1 d2 \<and> issued d2 = {ae_ids env 3, ae_token env} \<union> issued d1"
      by (rule token_keeps [OF _ _ _ k1(3) t1]) (use fresh k1(2) in \<open>auto simp: fresh_env_def\<close>)
    then show ?thesis using k1 fresh later_trans [of db d1 d2] by (auto simp: keeps_def fresh_env_def)
  qed
  have "register_user kdf cfg env email password name verified device ip db =
      and_then (stage_create_session cfg env (us_id u0) device ip d2) (\<lambda>(s, db3). Inr (u0, s, t0, db3))"
    by (simp only: register_user_def c and_then_simps d2 prod.case)
  then have "stage_create_session cfg env (us_id u0) device ip d2 = Inr (s, db')"
    using run by (cases "stage_create_session cfg env (us_id u0) device ip d2") auto
  then have "keeps d2 db'" using k2 by (intro conjunct1 [OF session_keeps]) (simp_all add: keeps_def)
  then show ?thesis using k2 later_trans [of db d2 db'] by (simp add: keeps_def)
qed

lemma login_keeps:
  assumes "accounts_inv db" "fresh_env cfg env db" "login_user kdf cfg env email password device ip db = Inr (u, s, db')"
  shows "keeps db db'"
proof -
  have "stage_create_session cfg env (us_id u) device ip db = Inr (s, db')"
    using assms(3) by (auto simp: login_user_def and_then_def split: option.splits if_splits sum.splits)
  then show ?thesis using assms(1,2) by (intro conjunct1 [OF session_keeps]) (simp_all add: fresh_env_def)
qed

lemma link_keeps:
  assumes inv: "accounts_inv db" and fresh: "ae_ids env 1 \<notin> issued db" and name: "name \<noteq> AP_PASSWORD" and u: "uid \<in> us_id ` set (users db)"
    and run: "stage_link_provider env uid name subject metadata db = Inr (p, db')"
  shows "keeps db db' \<and> issued db' \<subseteq> insert (ae_ids env 1) (issued db) \<and> users db' = users db"
proof (cases "find_provider name subject db")
  case (Some q)
  then show ?thesis using run inv by (auto simp: stage_link_provider_def keeps_def later_refl split: if_splits)
next
  case None
  have p: "ap_id p = ae_ids env 1" "ap_user_id p = uid" "ap_provider p = name" "ap_provider_subject p = subject" "db' = add_provider p db"
    using run None by (auto simp: stage_link_provider_def Let_def)
  have free: "x \<in> set (auth_providers db) \<Longrightarrow> ap_provider x = name \<Longrightarrow> ap_provider_subject x \<noteq> subject" for x
    using None by (auto simp: find_provider_def find_None_iff)
  have "accounts_but {} (add_provider p db)"
    using account_parts(7) [OF inv] by (rule add_provider_but) (use p fresh u name free in auto)
  then show ?thesis using p by (auto simp: keeps_def accounts_inv_def later_add_provider)
qed

lemma keeps_trans: "keeps a b \<Longrightarrow> keeps b c \<Longrightarrow> keeps a c"
  unfolding keeps_def using later_trans by blast

lemma users_lookup: "users db' = users db \<Longrightarrow> get_user_by_id uid db' = get_user_by_id uid db"
  by (simp add: get_user_by_id_def)

lemma lookup_frames [simp]:
  "get_user_by_id uid (put_provider p db) = get_user_by_id uid db" "get_user_by_id uid (add_provider p db) = get_user_by_id uid db"
  "get_user_by_id uid (mark_used i db) = get_user_by_id uid db" "get_user_by_id uid (revoke_where P db) = get_user_by_id uid db"
  by (simp_all add: get_user_by_id_def mark_used_def)

lemma email_found:
  assumes "accounts_inv db" "get_user_by_email e db = Some u"
  shows "get_user_by_id (us_id u) db = Some u" "us_email u = normalize_email e"
proof -
  have u: "u \<in> set (users db)" "us_email u = normalize_email e" using get_row_SomeD assms(2) unfolding get_user_by_email_def by fast +
  show "us_email u = normalize_email e" by (rule u(2))
  show "get_user_by_id (us_id u) db = Some u"
    using account_parts(1) [OF assms(1)] u(1) unfolding get_user_by_id_def user_rows_ok_def by (simp add: get_row_unique)
qed

lemma oauth_user_keeps:
  assumes inv: "accounts_inv db" and fresh: "fresh_env cfg env db" and name: "name \<noteq> AP_PASSWORD"
    and run: "stage_find_or_create_oauth_user env name subject email display avatar db = Inr (u, db')"
  shows "keeps db db' \<and> issued db' \<subseteq> {ae_ids env 0, ae_ids env 1} \<union> issued db"
proof (cases "find_provider name subject db")
  case (Some q)
  then show ?thesis using run inv by (auto simp: stage_find_or_create_oauth_user_def keeps_def later_refl split: option.splits)
next
  case None
  have fr: "ae_ids env 0 \<notin> issued db" "ae_ids env 1 \<notin> issued db" using fresh by (auto simp: fresh_env_def)
  show ?thesis
  proof (cases "get_user_by_email (normalize_email email) db")
    case (Some w)
    note w = email_found [OF inv Some]
    obtain p d1 where link: "stage_link_provider env (us_id w) name subject (Some (oauth_metadata (normalize_email email) avatar)) db = Inr (p, d1)"
      and db': "db' = put_user u d1" and u: "us_id u = us_id w" "us_email u = us_email w" "us_has_password u = us_has_password w"
      using run None Some by (auto simp: stage_find_or_create_oauth_user_def Let_def and_then_ok)
    have k: "keeps db d1" "issued d1 \<subseteq> insert (ae_ids env 1) (issued db)" "users d1 = users db"
      using link_keeps [OF inv fr(2) name user_known [OF w(1)] link] by simp_all
    have "keeps d1 db'" unfolding db'
      by (rule touch_user [of _ "us_id w" w]) (use k u w users_lookup [OF k(3)] in \<open>simp_all add: keeps_def\<close>)
    then show ?thesis using keeps_trans [OF k(1)] k(2) by (auto simp: db')
  next
    case no_user: None
    define p where "p = \<lparr>ap_id = ae_ids env 1, ap_user_id = ae_ids env 0, ap_provider = name, ap_provider_subject = subject,
      ap_provider_metadata = Some (oauth_metadata (normalize_email email) avatar), ap_created_at = ae_now env\<rparr>"
    have u: "us_id u = ae_ids env 0" "us_email u = normalize_email email" "\<not> us_has_password u" and db': "db' = add_provider p (add_user u db)"
      using run None no_user by (auto simp: stage_find_or_create_oauth_user_def Let_def p_def)
    have "us_id u \<notin> us_id ` set (users db)" using account_parts(5) [OF inv] fr(1) u(1) by (auto simp: issued_ok_def)
    moreover have "x \<in> set (auth_providers db) \<Longrightarrow> ap_provider x = name \<Longrightarrow> ap_provider_subject x \<noteq> subject" for x
      using None by (auto simp: find_provider_def find_None_iff)
    ultimately have "accounts_inv db'" unfolding db'
      using inv u name fr(2) no_user by (intro add_account_inv) (simp_all add: p_def get_user_by_email_def)
    then show ?thesis using later_trans [OF later_add_user later_add_provider] by (auto simp: keeps_def db' p_def u)
  qed
qed

lemma oauth_keeps:
  assumes "accounts_inv db" "fresh_env cfg env db" "name \<noteq> AP_PASSWORD"
    and run: "authenticate_oauth_user cfg env name subject email display avatar device ip db = Inr (u, s, db')"
  shows "keeps db db'"
proof -
  obtain d1 where d1: "stage_find_or_create_oauth_user env name subject email display avatar db = Inr (u, d1)"
    "stage_create_session cfg env (us_id u) device ip d1 = Inr (s, db')"
    using run by (auto simp: authenticate_oauth_user_def and_then_ok)
  have k: "keeps db d1" "issued d1 \<subseteq> {ae_ids env 0, ae_ids env 1} \<union> issued db" using oauth_user_keeps [OF assms(1-3) d1(1)] by simp_all
  have "ae_ids env 2 \<notin> issued d1" using k(2) assms(2) by (auto simp: fresh_env_def)
  then have "keeps d1 db'" using d1(2) k(1) by (intro conjunct1 [OF session_keeps]) (simp_all add: keeps_def)
  then show ?thesis using keeps_trans k(1) by blast
qed

lemma put_metadata_inv:
  assumes inv: "accounts_inv db" and p: "p \<in> set (auth_providers db)"
    and q: "ap_id q = ap_id p" "ap_user_id q = ap_user_id p" "ap_provider q = ap_provider p" "ap_provider_subject q = ap_provider_subject p"
  shows "accounts_inv (put_provider q db)"
  unfolding accounts_inv_def using account_parts(7) [OF inv] p q(1-3)
proof (rule put_provider_but)
  fix x assume x: "x \<in> set (auth_providers db)" "ap_id x \<noteq> ap_id q" "ap_provider x = ap_provider q"
  have "x \<noteq> p" using x(2) q(1) by auto
  then have "(ap_provider x, ap_provider_subject x) \<noteq> (ap_provider p, ap_provider_subject p)"
    using unique_eq [OF provider_keys(2) [OF account_parts(2) [OF inv]] x(1) p] by blast
  then show "ap_provider_subject x \<noteq> ap_provider_subject q" using x(3) q by simp
qed (simp add: q(4))

text \<open>The common part of a password reset and of the seeding: the password row of a user is replaced or added, then the user is written.\<close>

lemma set_password_keeps:
  assumes inv: "accounts_inv db" and fresh: "i \<notin> issued db" and u: "get_user_by_id uid db = Some u"
    and v: "us_id v = uid" "us_email v = us_email u" "us_has_password v"
    and db1: "db1 = (case get_password_provider uid db of
        Some p \<Rightarrow> put_provider (p\<lparr>ap_provider_metadata := Some m\<rparr>) db | None \<Rightarrow> add_provider (new_password_provider i u m now) db)"
  shows "keeps db (put_user v db1)"
proof (cases "get_password_provider uid db")
  case None
  have no: "\<not> has_password_row uid db" using None by (auto simp: get_password_provider_def has_password_row_def find_None_iff)
  define p where "p = new_password_provider i u m now"
  have p: "ap_id p = i" "ap_user_id p = uid" "ap_provider p = AP_PASSWORD" "ap_provider_subject p = us_email u"
    using user_found [OF u] by (simp_all add: p_def new_password_provider_def)
  have db1: "db1 = add_provider p db" using db1 None by (simp add: p_def)
  have but: "accounts_but {uid} (add_provider p db)"
    using but_mono [OF account_parts(7) [OF inv]]
  proof (rule add_provider_but)
    show "ap_id p \<notin> issued db" "ap_user_id p \<in> us_id ` set (users db)" using fresh p user_known [OF u] by simp_all
    fix x assume x: "x \<in> set (auth_providers db)" "ap_provider x = ap_provider p"
    obtain w where w: "w \<in> set (users db)" "us_id w = ap_user_id x" using provider_owner [OF account_parts(4) [OF inv] x(1)] by (metis imageE)
    have sub: "ap_provider_subject x = us_email w" using account_parts(6) [OF inv] w x p unfolding password_fields_ok_def by auto
    have "w \<noteq> u" using no x p w user_found [OF u] unfolding has_password_row_def by metis
    then have "us_email w \<noteq> us_email u"
      using unique_eq [of us_email "users db" w u] w user_found [OF u] account_parts(1) [OF inv] unfolding user_rows_ok_def by blast
    then show "ap_provider_subject x \<noteq> ap_provider_subject p" using sub p by simp
  qed (use no p in simp_all)
  have "accounts_inv (put_user v (add_provider p db))"
    using but
  proof (rule put_user_inv [where u = u])
    show "us_has_password v = has_password_row (us_id v) (add_provider p db)" using v p by (auto simp: has_password_row_def)
    fix x assume "x \<in> set (auth_providers (add_provider p db))" "ap_provider x = AP_PASSWORD" "ap_user_id x = us_id v"
    then show "ap_provider_subject x = us_email u" using p v(1) no by (auto simp: has_password_row_def)
  qed (use u v in simp_all)
  then show ?thesis using later_trans [OF later_add_provider later_put_user] by (simp add: keeps_def db1)
next
  case (Some p)
  have pin: "p \<in> set (auth_providers db)" "ap_user_id p = uid" "ap_provider p = AP_PASSWORD"
    using Some unfolding get_password_provider_def by (auto simp: find_Some_iff)
  define q where "q = p\<lparr>ap_provider_metadata := Some m\<rparr>"
  have db1: "db1 = put_provider q db" using db1 Some by (simp add: q_def)
  have q: "accounts_inv (put_provider q db)" using inv pin(1) by (rule put_metadata_inv) (simp_all add: q_def)
  have has: "us_has_password u" using fields_of(1) [OF inv u] pin unfolding has_password_row_def by blast
  have "keeps (put_provider q db) (put_user v db1)" unfolding db1
    by (rule touch_user [of _ uid u]) (use q u has v in simp_all)
  then show ?thesis using keeps_trans [of db "put_provider q db"] q later_put_provider by (simp add: keeps_def)
qed

lemma change_password_keeps:
  assumes inv: "accounts_inv db" and fresh: "fresh_env cfg env db" and run: "stage_change_password kdf env uid current new db = Inr db'"
  shows "keeps db db'"
proof -
  obtain p u where p: "get_password_provider uid db = Some p" and u: "get_user_by_id uid db = Some u"
    and db': "db' = put_user (u\<lparr>us_has_password := True, us_updated_at := ae_now env\<rparr>) (put_provider (p\<lparr>ap_provider_metadata := Some (password_metadata kdf env new)\<rparr>) db)"
    using run by (auto simp: stage_change_password_def and_then_ok split: option.splits if_splits)
  show ?thesis unfolding db'
    by (rule set_password_keeps [where i = "ae_ids env 1", OF inv _ u]) (use p user_found [OF u] fresh in \<open>simp_all add: fresh_env_def\<close>)
qed

lemma inv_frame:
  assumes inv: "accounts_inv db"
    and eqs: "users db' = users db" "auth_providers db' = auth_providers db" "user_sessions db' = user_sessions db"
      "verification_tokens db' = verification_tokens db" "issued db' = issued db"
  shows "accounts_inv db'"
  using inv unfolding accounts_inv_def accounts_but_def row_defs password_fields_ok_def has_password_row_def eqs .

lemma delete_account_keeps:
  assumes "accounts_inv db" "stage_delete_user_account cfg uid db = Inr db'"
  shows "keeps db db'"
proof -
  have db': "db' = delete_user uid (clear_owned_resources uid db)" using assms(2) by (auto simp: stage_delete_user_account_def split: option.splits if_splits)
  have "accounts_inv (clear_owned_resources uid db)" using assms(1) by (rule inv_frame) (simp_all add: clear_owned_resources_def)
  moreover have "later db (clear_owned_resources uid db)" by (rule later_same) (simp_all add: clear_owned_resources_def)
  ultimately show ?thesis using delete_user_inv later_trans [OF _ later_delete] by (simp add: keeps_def db')
qed

lemma profile_keeps:
  assumes "accounts_inv db" "stage_update_profile env uid name avatar preferences db = Inr db'"
  shows "keeps db db'"
proof -
  obtain u where u: "get_user_by_id uid db = Some u" using assms(2) by (auto simp: stage_update_profile_def split: option.splits)
  define v where "v = u\<lparr>us_display_name := (case name of None \<Rightarrow> us_display_name u | Some n \<Rightarrow> n),
    us_avatar_url := (case avatar of None \<Rightarrow> us_avatar_url u | Some a \<Rightarrow> Some a),
    us_preferences := (case preferences of None \<Rightarrow> us_preferences u | Some p \<Rightarrow> p), us_updated_at := ae_now env\<rparr>"
  have "db' = put_user v db" using assms(2) u by (simp add: stage_update_profile_def v_def)
  moreover have "keeps db (put_user v db)" by (rule touch_user [OF assms(1) u]) (use user_found [OF u] in \<open>simp_all add: v_def\<close>)
  ultimately show ?thesis by simp
qed

lemma revoke_keeps: "accounts_inv db \<Longrightarrow> keeps db (revoke_where P db)"
  by (simp add: keeps_def accounts_inv_def revoke_but later_revoke)

lemma validate_keeps: "accounts_inv db \<Longrightarrow> keeps db (snd (validate_session now sid db))"
  by (auto simp: validate_session_def revoke_keeps keeps_def later_refl accounts_inv_def revoke_but later_revoke split: option.splits)

lemma revoke_all_keeps: "accounts_inv db \<Longrightarrow> keeps db (revoke_all_user_sessions uid current db)"
proof -
  assume inv: "accounts_inv db"
  have k: "keeps db (stage_revoke_all_sessions uid db)" unfolding stage_revoke_all_sessions_def using inv by (rule revoke_keeps)
  then have "keeps (stage_revoke_all_sessions uid db) (stage_revoke_session sid (stage_revoke_all_sessions uid db))" for sid
    unfolding stage_revoke_session_def keeps_def by (intro conjI revoke_keeps [unfolded keeps_def, THEN conjunct1] later_revoke) simp
  then show ?thesis using k keeps_trans by (auto simp: revoke_all_user_sessions_def Let_def split: option.splits)
qed

lemma validate_token_keeps:
  assumes "accounts_inv db" "stage_validate_verification_token id env token ty db = Inr (uid, db')"
  shows "keeps db db' \<and> users db' = users db \<and> auth_providers db' = auth_providers db \<and> issued db' = issued db"
proof -
  obtain i where i: "db' = mark_used i db" using assms(2) by (auto simp: stage_validate_verification_token_def split: option.splits if_splits)
  show ?thesis using assms(1) mark_used_but [of "{}" db i] later_mark [of db i] by (simp add: i keeps_def accounts_inv_def) (simp add: mark_used_def)
qed

lemma verify_email_keeps:
  assumes "accounts_inv db" "verify_email id env token db = Inr db'"
  shows "keeps db db'"
proof -
  obtain uid d1 u where d1: "stage_validate_verification_token id env token VT_EMAIL_VERIFY db = Inr (uid, d1)"
    and u: "get_user_by_id uid d1 = Some u" and db': "db' = put_user (u\<lparr>us_email_verified := True\<rparr>) d1"
    using assms(2) by (auto simp: verify_email_def and_then_ok split: option.splits)
  have k: "keeps db d1" using validate_token_keeps [OF assms(1) d1] by simp
  have "keeps d1 db'" unfolding db' by (rule touch_user [OF _ u]) (use k user_found [OF u] in \<open>simp_all add: keeps_def\<close>)
  then show ?thesis using k keeps_trans by blast
qed

lemma reset_keeps:
  assumes inv: "accounts_inv db" and fresh: "fresh_env cfg env db" and run: "stage_reset_password kdf id env token new db = Inr db'"
  shows "keeps db db'"
proof -
  obtain uid d1 u where d1: "stage_validate_verification_token id env token VT_PASSWORD_RESET db = Inr (uid, d1)"
    and u: "get_user_by_id uid d1 = Some u"
    and db': "db' = stage_revoke_all_sessions (us_id u) (put_user (u\<lparr>us_has_password := True, us_updated_at := ae_now env\<rparr>)
      (case get_password_provider (us_id u) d1 of
         Some p \<Rightarrow> put_provider (p\<lparr>ap_provider_metadata := Some (password_metadata kdf env new)\<rparr>) d1
       | None \<Rightarrow> add_provider (new_password_provider (ae_ids env 1) u (password_metadata kdf env new) (ae_now env)) d1))"
    using run by (auto simp: stage_reset_password_def and_then_ok Let_def split: option.splits)
  have k: "keeps db d1" "issued d1 = issued db" using validate_token_keeps [OF inv d1] by simp_all
  define d3 where "d3 = put_user (u\<lparr>us_has_password := True, us_updated_at := ae_now env\<rparr>)
      (case get_password_provider (us_id u) d1 of
         Some p \<Rightarrow> put_provider (p\<lparr>ap_provider_metadata := Some (password_metadata kdf env new)\<rparr>) d1
       | None \<Rightarrow> add_provider (new_password_provider (ae_ids env 1) u (password_metadata kdf env new) (ae_now env)) d1)"
  have uid: "us_id u = uid" using user_found [OF u] by simp
  have "keeps d1 d3" unfolding d3_def uid
    by (rule set_password_keeps [where i = "ae_ids env 1", OF _ _ u]) (use k fresh uid in \<open>auto simp: keeps_def fresh_env_def\<close>)
  moreover from this have "keeps d3 db'" unfolding db' d3_def [symmetric] stage_revoke_all_sessions_def by (intro revoke_keeps) (simp add: keeps_def)
  ultimately show ?thesis using k(1) keeps_trans by blast
qed

end
