(* ===== verification/Account_Guarantees.thy ===== *)
theory Account_Guarantees
  imports Account_Steps
begin

text \<open>
  The guarantees of the account commands: every reachable database is well formed, the stored hash accepts exactly its
  password, a password reset ends every earlier session and the token for good, and what two overlapping resets do.
\<close>

subsection \<open>The remaining commands\<close>

lemma resend_keeps:
  assumes inv: "accounts_inv db" and fresh: "fresh_env cfg env db" and run: "stage_prepare_resend_verification env uid db = Inr (r, db')"
  shows "keeps db db'"
proof -
  obtain u where u: "get_user_by_id uid db = Some u" using run by (auto simp: stage_prepare_resend_verification_def split: option.splits)
  consider "db' = db" | t where "stage_create_verification_token env uid VT_EMAIL_VERIFY 24 db = (t, db')"
    using run u by (auto simp: stage_prepare_resend_verification_def Let_def split: if_splits prod.splits)
  then show ?thesis
  proof cases
    case 1
    then show ?thesis using inv by (simp add: keeps_def later_refl)
  next
    case 2
    show ?thesis using token_keeps [OF inv _ _ user_known [OF u] 2] fresh by (simp add: fresh_env_def)
  qed
qed

lemma forgot_keeps:
  assumes inv: "accounts_inv db" and fresh: "fresh_env cfg env db" and run: "stage_create_password_reset_token env email db = (r, db')"
  shows "keeps db db'"
proof (cases "get_user_by_email email db")
  case None
  then show ?thesis using run inv by (simp add: stage_create_password_reset_token_def keeps_def later_refl)
next
  case (Some u)
  obtain t where t: "stage_create_verification_token env (us_id u) VT_PASSWORD_RESET 1 db = (t, db')"
    using run Some by (auto simp: stage_create_password_reset_token_def split: prod.splits)
  show ?thesis using token_keeps [OF inv _ _ user_known [OF email_found(1) [OF inv Some]] t] fresh by (simp add: fresh_env_def)
qed

text \<open>Removing a sign-in method that is not the password leaves the user another one.\<close>

lemma drop_provider_but:
  assumes inv: "accounts_inv db" and p: "p \<in> set (auth_providers db)" "ap_provider p \<noteq> AP_PASSWORD" and q: "q \<in> set (auth_providers db)" "ap_user_id q = ap_user_id p" "ap_id q \<noteq> ap_id p"
  shows "accounts_inv (db\<lparr>auth_providers := filter (\<lambda>r. ap_id r \<noteq> ap_id p) (auth_providers db)\<rparr>)" (is "accounts_inv ?d")
proof -
  note old = account_parts [OF inv]
  have stays: "x = p" if "x \<in> set (auth_providers db)" "ap_id x = ap_id p" for x
    using unique_eq [OF provider_keys(1) [OF old(2)] that(1) p(1) that(2)] .
  have rows: "provider_rows_ok ?d" using old(2) by (rule provider_rows_filter) simp
  have imgs: "ap_user_id ` {r \<in> set (auth_providers db). ap_id r \<noteq> ap_id p} = ap_user_id ` set (auth_providers db)" (is "ap_user_id ` ?S = _")
  proof
    show "ap_user_id ` set (auth_providers db) \<subseteq> ap_user_id ` ?S"
    proof
      fix y assume "y \<in> ap_user_id ` set (auth_providers db)"
      then obtain x where x: "x \<in> set (auth_providers db)" "y = ap_user_id x" by blast
      show "y \<in> ap_user_id ` ?S"
      proof (cases "ap_id x = ap_id p")
        case True
        then have "y = ap_user_id q" using stays [OF x(1)] x(2) q(2) by simp
        moreover have "q \<in> ?S" using q by simp
        ultimately show ?thesis by (rule image_eqI)
      next
        case False
        then show ?thesis using x by blast
      qed
    qed
  qed blast
  have has: "has_password_row i ?d = has_password_row i db" for i
    using stays p(2) unfolding has_password_row_def by auto
  have "password_fields_ok {} ?d" using old(6) unfolding password_fields_ok_def has by simp
  moreover have "refs_ok ?d" using old(4) by (simp add: refs_ok_def imgs)
  moreover have "issued_ok ?d" using old(5) by (auto simp: issued_ok_def)
  moreover have "user_rows_ok ?d" "token_rows_ok ?d" using old(1,3) by (simp_all add: user_rows_ok_def token_rows_ok_def)
  ultimately show ?thesis using rows by (simp add: accounts_inv_def accounts_but_def)
qed

lemma two_rows: "unique_by key rs \<Longrightarrow> 1 < length rs \<Longrightarrow> x \<in> set rs \<Longrightarrow> \<exists>y\<in>set rs. key y \<noteq> key x"
proof (rule ccontr)
  assume u: "unique_by key rs" "1 < length rs" "\<not> (\<exists>y\<in>set rs. key y \<noteq> key x)"
  have "key ` set rs \<subseteq> {key x}" using u(3) by blast
  then have "card (key ` set rs) \<le> 1" by (metis card.empty card_insert_le_m1 card_mono empty_iff finite.emptyI finite_insert is_singletonI is_singleton_altdef)
  moreover have "card (key ` set rs) = length rs" using u(1) by (metis unique_by_def distinct_card list.set_map length_map)
  ultimately show False using u(2) by simp
qed

lemma unlink_keeps:
  assumes inv: "accounts_inv db" and run: "stage_unlink_provider id env uid name db = Inr db'"
  shows "keeps db db'"
proof -
  let ?own = "filter (\<lambda>p. ap_user_id p = uid) (auth_providers db)"
  have len: "1 < length ?own" using run by (auto simp: stage_unlink_provider_def Let_def split: if_splits)
  show ?thesis
  proof (cases "find (\<lambda>p. ap_provider p = name) ?own")
    case None
    then show ?thesis using run inv len by (simp add: stage_unlink_provider_def Let_def keeps_def later_refl)
  next
    case (Some p)
    define d where "d = db\<lparr>auth_providers := filter (\<lambda>r. ap_id r \<noteq> ap_id p) (auth_providers db)\<rparr>"
    have p: "p \<in> set ?own" using Some by (metis find_Some_iff nth_mem)
    have np: "ap_provider p \<noteq> AP_PASSWORD" using run len Some by (auto simp: stage_unlink_provider_def Let_def split: if_splits)
    obtain u where u: "get_user_by_id uid db = Some u"
      and db': "db' = put_user (u\<lparr>us_has_password := list_ex (\<lambda>r. ap_provider r = AP_PASSWORD \<and> ap_id r \<noteq> ap_id p) ?own, us_updated_at := ae_now env\<rparr>) d"
      using run len Some np by (auto simp: stage_unlink_provider_def Let_def d_def split: option.splits)
    obtain q where q: "q \<in> set ?own" "ap_id q \<noteq> ap_id p"
      using two_rows [OF unique_filtered [OF provider_keys(1) [OF account_parts(2) [OF inv]]] len p] by blast
    have d: "accounts_inv d" unfolding d_def using inv p np q by (intro drop_provider_but) auto
    have "later db d" by (rule later_same) (simp_all add: d_def)
    have ud: "get_user_by_id uid d = Some u" using u by (simp add: d_def get_user_by_id_def)
    have "list_ex (\<lambda>r. ap_provider r = AP_PASSWORD \<and> ap_id r \<noteq> ap_id p) ?own = has_password_row uid d"
      by (auto simp: list_ex_iff has_password_row_def d_def)
    then have "keeps d db'" unfolding db'
      by (intro touch_user [OF d ud]) (use user_found [OF u] fields_of(1) [OF d ud] in simp_all)
    then show ?thesis using d \<open>later db d\<close> keeps_trans [of db d db'] by (simp add: keeps_def)
  qed
qed

subsection \<open>The default user\<close>

lemma desired_normal: "normalize_email (desired_email cfg) = desired_email cfg"
proof -
  have "normalize_email ''default@example.com'' = ''default@example.com''" by code_simp
  then show ?thesis by (simp add: desired_email_def Let_def)
qed

lemma default_fields:
  assumes inv: "accounts_inv db" and u: "get_user_by_id uid db = Some u"
  shows "us_id (default_user_fields cfg db u) = uid" "us_has_password (default_user_fields cfg db u)"
    "normalize_email (us_email (default_user_fields cfg db u)) = us_email (default_user_fields cfg db u)"
    "x \<in> set (users db) \<Longrightarrow> us_id x \<noteq> uid \<Longrightarrow> us_email x \<noteq> us_email (default_user_fields cfg db u)"
proof -
  let ?e = "us_email (default_user_fields cfg db u)"
  have uin: "u \<in> set (users db)" "us_id u = uid" using user_found [OF u] by simp_all
  show "us_id (default_user_fields cfg db u) = uid" "us_has_password (default_user_fields cfg db u)"
    using uin by (simp_all add: default_user_fields_def)
  have old: "normalize_email (us_email u) = us_email u" using account_parts(1) [OF inv] uin unfolding user_rows_ok_def by blast
  show "normalize_email ?e = ?e"
    using old by (simp add: default_user_fields_def desired_normal split: option.split)
  assume x: "x \<in> set (users db)" "us_id x \<noteq> uid"
  have keep: "us_email x \<noteq> us_email u" using same_email_free [OF account_parts(1) [OF inv], of u u x] u uin x by simp
  show "us_email x \<noteq> ?e"
  proof (cases "get_user_by_email (desired_email cfg) db")
    case None
    then have "us_email x \<noteq> desired_email cfg" using x(1) unfolding get_user_by_email_def desired_normal fresh_row by blast
    then show ?thesis using None by (simp add: default_user_fields_def)
  next
    case (Some w)
    show ?thesis
    proof (cases "us_id w = uid")
      case True
      then have "us_email u = desired_email cfg" using email_found [OF inv Some] u by (simp add: desired_normal)
      then show ?thesis using keep Some True uin by (simp add: default_user_fields_def)
    next
      case False
      then show ?thesis using keep Some uin by (simp add: default_user_fields_def)
    qed
  qed
qed

text \<open>The user and its password row are written together, with an address that no other account uses.\<close>

lemma rename_but:
  assumes inv: "accounts_inv db" and v: "us_id v = uid" "normalize_email (us_email v) = us_email v"
    and free: "\<And>x. x \<in> set (users db) \<Longrightarrow> us_id x \<noteq> uid \<Longrightarrow> us_email x \<noteq> us_email v"
  shows "accounts_but {uid} (put_user v db)"
  using put_user_but [OF account_parts(7) [OF inv], of v] v free by simp

lemma other_subject:
  assumes inv: "accounts_inv db" and x: "x \<in> set (auth_providers db)" "ap_provider x = AP_PASSWORD" "ap_user_id x \<noteq> uid"
    and free: "\<And>x. x \<in> set (users db) \<Longrightarrow> us_id x \<noteq> uid \<Longrightarrow> us_email x \<noteq> e"
  shows "ap_provider_subject x \<noteq> e"
proof -
  obtain w where w: "w \<in> set (users db)" "us_id w = ap_user_id x" using provider_owner [OF account_parts(4) [OF inv] x(1)] by (metis imageE)
  have "ap_provider_subject x = us_email w" using account_parts(6) [OF inv] w x unfolding password_fields_ok_def by auto
  then show ?thesis using free [OF w(1)] w(2) x(3) by simp
qed

lemma close_password:
  assumes but: "accounts_but {uid} d" and v: "v \<in> set (users d)" "us_id v = uid" "us_has_password v"
    and p: "p \<in> set (auth_providers d)" "ap_user_id p = uid" "ap_provider p = AP_PASSWORD" "ap_provider_subject p = us_email v"
  shows "accounts_inv d"
proof -
  have rows: "user_rows_ok d" "provider_rows_ok d" using but by (simp_all add: accounts_but_def)
  show ?thesis unfolding accounts_inv_def using but
  proof (rule but_close)
    fix u assume u: "u \<in> set (users d)" "us_id u = uid"
    then have uv: "u = v" using unique_eq [of us_id "users d" u v] rows(1) v unfolding user_rows_ok_def by simp
    have has: "has_password_row uid d" using p unfolding has_password_row_def by blast
    show "us_has_password u = has_password_row uid d \<and> (\<forall>p\<in>set (auth_providers d). ap_provider p = AP_PASSWORD \<longrightarrow> ap_user_id p = uid \<longrightarrow> ap_provider_subject p = us_email u)"
    proof (intro conjI ballI impI)
      fix x assume x: "x \<in> set (auth_providers d)" "ap_provider x = AP_PASSWORD" "ap_user_id x = uid"
      then have "ap_id x = ap_id p" using one_password [OF rows(2) x(1) p(1)] p by simp
      then have "x = p" by (rule unique_eq [OF provider_keys(1) [OF rows(2)] x(1) p(1)])
      then show "ap_provider_subject x = us_email u" using p(4) uv by simp
    qed (use has uv v in simp)
  qed
qed

lemma put_user_in: "get_user_by_id (us_id v) db = Some u \<Longrightarrow> v \<in> set (users (put_user v db))"
  using user_found [of "us_id v" db u] unfolding put_user_users by force

lemma rename_add_keeps:
  assumes inv: "accounts_inv db" and u: "get_user_by_id uid db = Some u" and v: "us_id v = uid" "normalize_email (us_email v) = us_email v" "us_has_password v"
    and free: "\<And>x. x \<in> set (users db) \<Longrightarrow> us_id x \<noteq> uid \<Longrightarrow> us_email x \<noteq> us_email v"
    and none: "get_password_provider uid db = None"
    and p: "ap_id p \<notin> issued db" "ap_user_id p = uid" "ap_provider p = AP_PASSWORD" "ap_provider_subject p = us_email v"
  shows "keeps db (put_user v (add_provider p db))"
proof -
  have no: "\<not> has_password_row uid db" using none by (auto simp: get_password_provider_def has_password_row_def find_None_iff)
  have swap: "put_user v (add_provider p db) = add_provider p (put_user v db)" by (simp add: put_user_def add_provider_def)
  have "accounts_but {uid} (add_provider p (put_user v db))"
    using rename_but [OF inv v(1,2) free]
  proof (rule add_provider_but)
    fix x assume x: "x \<in> set (auth_providers (put_user v db))" "ap_provider x = ap_provider p"
    have "ap_user_id x \<noteq> uid" using no x p unfolding has_password_row_def by auto
    then show "ap_provider_subject x \<noteq> ap_provider_subject p" using other_subject [OF inv _ _ _ free] x p by simp
  next
    show "ap_user_id p \<in> us_id ` set (users (put_user v db))" unfolding put_user_ids p(2) by (rule user_known [OF u])
  qed (use p no in \<open>simp_all add: has_password_row_def\<close>)
  moreover have "v \<in> set (users (put_user v db))" using put_user_in u v(1) by simp
  ultimately have "accounts_inv (add_provider p (put_user v db))"
    by (intro close_password [where v = v and p = p]) (use v p in simp_all)
  then show ?thesis unfolding swap keeps_def using later_trans [OF later_put_user later_add_provider] by simp
qed

lemma rename_put_keeps:
  assumes inv: "accounts_inv db" and u: "get_user_by_id uid db = Some u" and v: "us_id v = uid" "normalize_email (us_email v) = us_email v" "us_has_password v"
    and free: "\<And>x. x \<in> set (users db) \<Longrightarrow> us_id x \<noteq> uid \<Longrightarrow> us_email x \<noteq> us_email v"
    and p: "p \<in> set (auth_providers db)" "ap_user_id p = uid" "ap_provider p = AP_PASSWORD"
    and q: "ap_id q = ap_id p" "ap_user_id q = uid" "ap_provider q = AP_PASSWORD" "ap_provider_subject q = us_email v"
  shows "keeps db (put_user v (put_provider q db))"
proof -
  have swap: "put_user v (put_provider q db) = put_provider q (put_user v db)" by (simp add: put_user_def put_provider_def)
  have "accounts_but {uid} (put_provider q (put_user v db))"
    using rename_but [OF inv v(1,2) free]
  proof (rule put_provider_but [where q = p])
    fix x assume x: "x \<in> set (auth_providers (put_user v db))" "ap_id x \<noteq> ap_id q" "ap_provider x = ap_provider q"
    have "ap_user_id x \<noteq> uid" using one_password [OF account_parts(2) [OF inv], of x p] x p q by auto
    then show "ap_provider_subject x \<noteq> ap_provider_subject q" using other_subject [OF inv _ _ _ free] x q by simp
  qed (use p q in simp_all)
  moreover have "v \<in> set (users (put_user v db))" using put_user_in u v(1) by simp
  moreover have "q \<in> set (auth_providers (put_provider q (put_user v db)))" unfolding put_provider_rows using p(1) q(1) by force
  ultimately have "accounts_inv (put_provider q (put_user v db))"
    by (intro close_password [where v = v and p = q]) (use v q in simp_all)
  then show ?thesis unfolding swap keeps_def using later_trans [OF later_put_user later_put_provider] by simp
qed

lemma seed_keeps:
  assumes inv: "accounts_inv db" and fresh: "fresh_env cfg env db" and absent: "get_user_by_id (as_default_user_id cfg) db = None"
    and run: "seed_default_user kdf cfg env db = Inr (u, db')"
  shows "keeps db db'"
proof -
  define p where "p = new_password_provider (ae_ids env 1) u (build_default_provider_metadata kdf env (as_default_user_password cfg)) (ae_now env)"
  have none: "get_row us_email (desired_email cfg) (users db) = None"
    using run by (auto simp: seed_default_user_def get_user_by_email_def desired_normal split: if_splits)
  have u: "us_id u = as_default_user_id cfg" "us_email u = desired_email cfg" "us_has_password u" and db': "db' = add_provider p (add_user u db)"
    using run by (auto simp: seed_default_user_def Let_def p_def split: if_splits)
  have p: "ap_id p = ae_ids env 1" "ap_user_id p = us_id u" "ap_provider p = AP_PASSWORD" "ap_provider_subject p = us_email u"
    by (simp_all add: p_def new_password_provider_def)
  have "us_id u \<notin> us_id ` set (users db)" using absent u(1) by (simp add: get_user_by_id_def get_row_None_iff)
  moreover have "ae_ids env 1 \<notin> issued db" using fresh by (simp add: fresh_env_def)
  ultimately have "accounts_inv db'" unfolding db'
    using inv u p none desired_normal password_subject_free [OF inv none] by (intro add_account_inv) simp_all
  then show ?thesis using later_trans [OF later_add_user later_add_provider] by (simp add: keeps_def db')
qed

lemma refresh_keeps:
  assumes inv: "accounts_inv db" and fresh: "fresh_env cfg env db" and u: "get_user_by_id uid db = Some u"
    and run: "refresh_default_user kdf cfg env u db = Inr (w, db')"
  shows "keeps db db'"
proof -
  define u1 where "u1 = default_user_fields cfg db u"
  define t where "t = u1\<lparr>us_updated_at := ae_now env\<rparr>"
  have uid: "us_id u = uid" using user_found [OF u] by simp
  have t: "us_id t = uid" "us_has_password t" "us_email t = us_email u1" "normalize_email (us_email t) = us_email t"
    using default_fields(1-3) [OF inv u] by (simp_all add: t_def u1_def)
  have free: "us_email x \<noteq> us_email t" if "x \<in> set (users db)" "us_id x \<noteq> uid" for x
    using default_fields(4) [OF inv u that] by (simp add: t_def u1_def)
  show ?thesis
  proof (cases "get_password_provider uid db")
    case None
    define p where "p = new_password_provider (ae_ids env 1) u1 (build_default_provider_metadata kdf env (as_default_user_password cfg)) (ae_now env)"
    have db': "db' = stage_revoke_all_sessions uid (put_user t (add_provider p db))"
      using run None by (auto simp: refresh_default_user_def Let_def uid p_def t_def u1_def)
    have "keeps db (put_user t (add_provider p db))"
      using inv u t(1,4,2) free None
      by (rule rename_add_keeps) (use fresh t in \<open>simp_all add: p_def new_password_provider_def fresh_env_def t_def\<close>)
    moreover from this have "keeps (put_user t (add_provider p db)) db'"
      unfolding db' stage_revoke_all_sessions_def by (intro revoke_keeps) (simp add: keeps_def)
    ultimately show ?thesis by (rule keeps_trans)
  next
    case (Some p)
    have p: "p \<in> set (auth_providers db)" "ap_user_id p = uid" "ap_provider p = AP_PASSWORD"
      using Some unfolding get_password_provider_def by (auto simp: find_Some_iff)
    obtain q b where up: "default_provider_update kdf cfg env u1 p = Inr (q, b)"
      using run Some by (auto simp: refresh_default_user_def Let_def uid u1_def and_then_ok)
    have q: "ap_id q = ap_id p" "ap_user_id q = uid" "ap_provider q = AP_PASSWORD" "ap_provider_subject q = us_email t"
      using up p t by (auto simp: default_provider_update_def Let_def and_then_ok)
    have k: "keeps db (put_user t (put_provider q db))"
      using inv u t(1,4,2) free p q by (rule rename_put_keeps)
    consider "db' = put_provider q db" "ap_provider_subject p = us_email u1"
      | "db' = put_user t (put_provider q db)" | "db' = stage_revoke_all_sessions uid (put_user t (put_provider q db))"
      using run Some up by (auto simp: refresh_default_user_def Let_def uid u1_def [symmetric] t_def [symmetric] split: if_splits)
    then show ?thesis
    proof cases
      case 1
      have "accounts_inv (put_provider q db)" using inv p(1) by (rule put_metadata_inv) (use p q t 1(2) in simp_all)
      then show ?thesis using later_put_provider by (simp add: keeps_def 1)
    next
      case 3
      then have "keeps (put_user t (put_provider q db)) db'" using k unfolding stage_revoke_all_sessions_def by (simp add: revoke_keeps keeps_def [of db])
      with k show ?thesis by (rule keeps_trans)
    qed (use k in simp)
  qed
qed

lemma ensure_default_keeps:
  assumes "accounts_inv db" "fresh_env cfg env db" "stage_ensure_default_user kdf cfg env db = Inr (u, db')"
  shows "keeps db db'"
proof (cases "get_user_by_id (as_default_user_id cfg) db")
  case None
  show ?thesis using assms(1,2) None by (rule seed_keeps) (use assms(3) None in \<open>simp add: stage_ensure_default_user_def\<close>)
next
  case (Some w)
  show ?thesis using assms(1,2) Some by (rule refresh_keeps) (use assms(3) Some in \<open>simp add: stage_ensure_default_user_def\<close>)
qed

subsection \<open>Reachable databases\<close>

text \<open>One committed command, run alone: no other command commits while it runs. The routes link and unlink external sign-in methods only.\<close>

inductive auth_step :: "(string \<Rightarrow> string \<Rightarrow> nat \<Rightarrow> string) \<Rightarrow> auth_settings \<Rightarrow> auth_db \<Rightarrow> auth_db \<Rightarrow> bool"
  for kdf cfg where
  Register: "fresh_env cfg env db \<Longrightarrow> register_user kdf cfg env email password name verified device ip db = Inr (u, s, t, db') \<Longrightarrow> auth_step kdf cfg db db'"
| Login: "fresh_env cfg env db \<Longrightarrow> login_user kdf cfg env email password device ip db = Inr (u, s, db') \<Longrightarrow> auth_step kdf cfg db db'"
| Oauth: "fresh_env cfg env db \<Longrightarrow> provider \<noteq> AP_PASSWORD \<Longrightarrow>
    authenticate_oauth_user cfg env provider subject email display avatar device ip db = Inr (u, s, db') \<Longrightarrow> auth_step kdf cfg db db'"
| Verify: "verify_email id env token db = Inr db' \<Longrightarrow> auth_step kdf cfg db db'"
| Resend: "fresh_env cfg env db \<Longrightarrow> stage_prepare_resend_verification env uid db = Inr (r, db') \<Longrightarrow> auth_step kdf cfg db db'"
| Forgot: "fresh_env cfg env db \<Longrightarrow> stage_create_password_reset_token env email db = (r, db') \<Longrightarrow> auth_step kdf cfg db db'"
| Reset: "fresh_env cfg env db \<Longrightarrow> stage_reset_password kdf id env token new db = Inr db' \<Longrightarrow> auth_step kdf cfg db db'"
| Change: "fresh_env cfg env db \<Longrightarrow> stage_change_password kdf env uid current new db = Inr db' \<Longrightarrow> auth_step kdf cfg db db'"
| Profile: "stage_update_profile env uid name avatar preferences db = Inr db' \<Longrightarrow> auth_step kdf cfg db db'"
| Revoke: "auth_step kdf cfg db (stage_revoke_session sid db)"
| Revoke_All: "auth_step kdf cfg db (revoke_all_user_sessions uid current db)"
| Validate: "auth_step kdf cfg db (snd (validate_session now sid db))"
| Delete: "stage_delete_user_account cfg uid db = Inr db' \<Longrightarrow> auth_step kdf cfg db db'"
| Unlink: "unlink_provider_route id env uid name db = Inr db' \<Longrightarrow> auth_step kdf cfg db db'"
| Default: "fresh_env cfg env db \<Longrightarrow> stage_ensure_default_user kdf cfg env db = Inr (u, db') \<Longrightarrow> auth_step kdf cfg db db'"

definition empty_accounts :: auth_db where
  "empty_accounts = \<lparr>users = [], auth_providers = [], user_sessions = [], verification_tokens = [], owned_rows = [], issued = {}\<rparr>"

definition auth_reach :: "(string \<Rightarrow> string \<Rightarrow> nat \<Rightarrow> string) \<Rightarrow> auth_settings \<Rightarrow> auth_db \<Rightarrow> auth_db \<Rightarrow> bool" where
  "auth_reach kdf cfg db db' \<longleftrightarrow> (auth_step kdf cfg)\<^sup>*\<^sup>* db db'"

lemmas command_keeps = register_keeps login_keeps oauth_keeps verify_email_keeps resend_keeps forgot_keeps reset_keeps change_password_keeps
  profile_keeps revoke_all_keeps validate_keeps delete_account_keeps ensure_default_keeps

lemma step_keeps:
  assumes "auth_step kdf cfg db db'" "accounts_inv db"
  shows "keeps db db'"
  using assms
proof (induction rule: auth_step.induct)
  case (Revoke db sid)
  then show ?case unfolding stage_revoke_session_def by (rule revoke_keeps)
next
  case (Unlink env uid name db db')
  then show ?case using unlink_keeps by (auto simp: unlink_provider_route_def split: if_splits)
qed (rule command_keeps; assumption)+

lemma reach_keeps:
  assumes "auth_reach kdf cfg db db'" "accounts_inv db"
  shows "keeps db db'"
  using assms(1) unfolding auth_reach_def
proof (induction rule: rtranclp_induct)
  case base
  show ?case using assms(2) by (simp add: keeps_def later_refl)
next
  case (step b c)
  have "keeps b c" using step.hyps(2) step.IH by (intro step_keeps) (simp_all add: keeps_def)
  with step.IH show ?case by (rule keeps_trans)
qed

lemma empty_inv: "accounts_inv empty_accounts"
  by (simp add: empty_accounts_def accounts_inv_def accounts_but_def row_defs password_fields_ok_def unique_by_def)

lemma reach_inv: "auth_reach kdf cfg empty_accounts db \<Longrightarrow> accounts_inv db"
  using reach_keeps [OF _ empty_inv] by (simp add: keeps_def)

subsection \<open>After a password reset\<close>

definition dead_session :: "string \<Rightarrow> auth_db \<Rightarrow> bool" where
  "dead_session sid db \<longleftrightarrow> sid \<in> issued db \<and> (\<forall>s\<in>set (user_sessions db). se_id s = sid \<longrightarrow> se_revoked s)"

definition spent_token :: "string \<Rightarrow> auth_db \<Rightarrow> bool" where
  "spent_token t db \<longleftrightarrow> t \<in> issued db \<and> (\<forall>v\<in>set (verification_tokens db). vt_token v = t \<longrightarrow> vt_used v)"

lemma dead_later: "later db db' \<Longrightarrow> dead_session sid db \<Longrightarrow> dead_session sid db'"
  unfolding later_def dead_session_def by (metis subsetD)

lemma spent_later: "later db db' \<Longrightarrow> spent_token t db \<Longrightarrow> spent_token t db'"
  unfolding later_def spent_token_def by (metis subsetD)

lemma dead_rejected: "dead_session sid db \<Longrightarrow> fst (validate_session now sid db) = None"
  unfolding dead_session_def validate_session_def by (auto split: option.splits dest!: get_row_SomeD)

text \<open>A request that carries a dead session is turned away where signing in is required.\<close>

lemma current_user_refused:
  assumes "dead_session sid db" "resolve_session_token r = Some sid" "as_auth_required cfg" "\<not> ar_websocket r"
  shows "fst (get_current_user kdf cfg env r db) = Inl not_authenticated"
proof -
  obtain d where "validate_session (ae_now env) sid db = (None, d)"
    using dead_rejected [OF assms(1), of "ae_now env"] by (metis prod.collapse)
  then show ?thesis using assms(2-4) by (simp add: get_current_user_def resolve_user_def session_user_def)
qed

lemma spent_rejected:
  assumes "spent_token t db"
  shows "stage_validate_verification_token others env t ty db = Inl TokenInvalidError"
proof (cases "find (\<lambda>v. vt_token v = t \<and> vt_token_type v = ty) (verification_tokens db)")
  case None
  then show ?thesis by (simp add: stage_validate_verification_token_def)
next
  case (Some v)
  have "v \<in> set (verification_tokens db)" using Some by (metis find_Some_iff nth_mem)
  moreover have "vt_token v = t" using Some by (metis (mono_tags, lifting) find_Some_iff)
  ultimately have "vt_used v" using assms unfolding spent_token_def by blast
  then show ?thesis using Some by (simp add: stage_validate_verification_token_def)
qed

lemma reset_parts:
  assumes run: "stage_reset_password kdf others env token new db = Inr db'"
  obtains v u d1 d3 where "v \<in> set (verification_tokens db)" "vt_token v = token" "d1 = mark_used (vt_id v) (others db)"
    "get_user_by_id (vt_user_id v) d1 = Some u"
    "d3 = (case get_password_provider (vt_user_id v) d1 of
         Some p \<Rightarrow> put_provider (p\<lparr>ap_provider_metadata := Some (password_metadata kdf env new)\<rparr>) d1
       | None \<Rightarrow> add_provider (new_password_provider (ae_ids env 1) u (password_metadata kdf env new) (ae_now env)) d1)"
    "db' = stage_revoke_all_sessions (vt_user_id v) (put_user (u\<lparr>us_has_password := True, us_updated_at := ae_now env\<rparr>) d3)"
proof -
  obtain uid d1 u where d1: "stage_validate_verification_token others env token VT_PASSWORD_RESET db = Inr (uid, d1)" and u: "get_user_by_id uid d1 = Some u"
    and db': "db' = stage_revoke_all_sessions (us_id u) (put_user (u\<lparr>us_has_password := True, us_updated_at := ae_now env\<rparr>)
      (case get_password_provider (us_id u) d1 of
         Some p \<Rightarrow> put_provider (p\<lparr>ap_provider_metadata := Some (password_metadata kdf env new)\<rparr>) d1
       | None \<Rightarrow> add_provider (new_password_provider (ae_ids env 1) u (password_metadata kdf env new) (ae_now env)) d1))"
    using run by (auto simp: stage_reset_password_def and_then_ok Let_def split: option.splits)
  obtain v where v: "find (\<lambda>v. vt_token v = token \<and> vt_token_type v = VT_PASSWORD_RESET) (verification_tokens db) = Some v"
    and eqs: "uid = vt_user_id v" "d1 = mark_used (vt_id v) (others db)"
    using d1 by (auto simp: stage_validate_verification_token_def split: option.splits if_splits)
  have vin: "v \<in> set (verification_tokens db)" using v by (metis find_Some_iff nth_mem)
  have vt: "vt_token v = token" using v by (metis (mono_tags, lifting) find_Some_iff)
  have "us_id u = vt_user_id v" using user_found [OF u] eqs(1) by simp
  then show ?thesis using u db' unfolding eqs(1) by (intro that [OF vin vt eqs(2) _ refl]) simp_all
qed

lemma find_replaced:
  "find P rs = Some p \<Longrightarrow> P q \<Longrightarrow> (\<And>x. x \<in> set rs \<Longrightarrow> k x = k p \<Longrightarrow> P x) \<Longrightarrow> find P (update_where (\<lambda>x. k x = k p) (\<lambda>_. q) rs) = Some q"
  by (induction rs) (auto simp: update_where_def split: if_splits)

lemma find_appended: "find P rs = None \<Longrightarrow> P q \<Longrightarrow> find P (rs @ [q]) = Some q"
  by (induction rs) (auto split: if_splits)

lemma set_password_row:
  assumes inv: "accounts_inv db" and u: "us_id u = uid"
    and db1: "db1 = (case get_password_provider uid db of
        Some p \<Rightarrow> put_provider (p\<lparr>ap_provider_metadata := Some m\<rparr>) db | None \<Rightarrow> add_provider (new_password_provider i u m now) db)"
  shows "\<exists>p. get_password_provider uid db1 = Some p \<and> ap_provider_metadata p = Some m"
proof (cases "get_password_provider uid db")
  case None
  then show ?thesis using u db1 find_appended [of _ "auth_providers db" "new_password_provider i u m now"]
    by (simp add: get_password_provider_def new_password_provider_def)
next
  case (Some p)
  define q where "q = p\<lparr>ap_provider_metadata := Some m\<rparr>"
  have p: "p \<in> set (auth_providers db)" "ap_user_id p = uid" "ap_provider p = AP_PASSWORD"
    using Some unfolding get_password_provider_def by (auto simp: find_Some_iff)
  have "find (\<lambda>p. ap_user_id p = uid \<and> ap_provider p = AP_PASSWORD) (update_where (\<lambda>x. ap_id x = ap_id p) (\<lambda>_. q) (auth_providers db)) = Some q"
    using Some unfolding get_password_provider_def
  proof (rule find_replaced)
    fix x assume "x \<in> set (auth_providers db)" "ap_id x = ap_id p"
    then have "x = p" using unique_eq [OF provider_keys(1) [OF account_parts(2) [OF inv]] _ p(1)] by blast
    then show "ap_user_id x = uid \<and> ap_provider x = AP_PASSWORD" using p by simp
  qed (use p in \<open>simp add: q_def\<close>)
  then show ?thesis using db1 Some by (simp add: get_password_provider_def put_provider_def q_def)
qed

lemma login_decides:
  assumes inv: "accounts_inv db" and u: "u \<in> set (users db)" "us_status u = US_ACTIVE"
    and p: "get_password_provider (us_id u) db = Some p" "ap_provider_metadata p = Some (password_metadata kdf env new)"
  shows "is_ok (login_user kdf cfg env2 (us_email u) q device ip db) \<longleftrightarrow> kdf q (ae_salt env) PBKDF2_ITERATIONS = kdf new (ae_salt env) PBKDF2_ITERATIONS"
proof -
  note rows = account_parts(1) [OF inv, unfolded user_rows_ok_def]
  have e: "get_user_by_email (us_email u) db = Some u" unfolding get_user_by_email_def using rows u(1) by (simp add: get_row_unique)
  have i: "get_user_by_id (us_id u) db = Some u" unfolding get_user_by_id_def using rows u(1) by (simp add: get_row_unique)
  have m: "provider_password_matches kdf p q = Inr (kdf q (ae_salt env) PBKDF2_ITERATIONS = kdf new (ae_salt env) PBKDF2_ITERATIONS)"
    by (simp add: provider_password_matches_def p(2) password_metadata_def verify_hash)
  show ?thesis using u(2) by (simp add: login_user_def e p(1) m i stage_create_session_def Let_def is_ok_def)
qed

lemma put_user_lookup: "get_password_provider uid (put_user u db) = get_password_provider uid db"
  "get_password_provider uid (revoke_where P db) = get_password_provider uid db"
  by (simp_all add: get_password_provider_def)

lemma reset_row:
  assumes inv: "accounts_inv db" "accounts_inv (others db)" and v: "v \<in> set (verification_tokens db)" "vt_token v = token"
    and run: "stage_reset_password kdf others env token new db = Inr db'"
  shows "\<exists>p. get_password_provider (vt_user_id v) db' = Some p \<and> ap_provider_metadata p = Some (password_metadata kdf env new)"
proof -
  obtain w u d1 d3 where w: "w \<in> set (verification_tokens db)" "vt_token w = token" and d1: "d1 = mark_used (vt_id w) (others db)"
    and u: "get_user_by_id (vt_user_id w) d1 = Some u"
    and d3: "d3 = (case get_password_provider (vt_user_id w) d1 of
         Some p \<Rightarrow> put_provider (p\<lparr>ap_provider_metadata := Some (password_metadata kdf env new)\<rparr>) d1
       | None \<Rightarrow> add_provider (new_password_provider (ae_ids env 1) u (password_metadata kdf env new) (ae_now env)) d1)"
    and db': "db' = stage_revoke_all_sessions (vt_user_id w) (put_user (u\<lparr>us_has_password := True, us_updated_at := ae_now env\<rparr>) d3)"
    by (rule reset_parts [OF run])
  have wv: "w = v" using unique_eq [of vt_token "verification_tokens db" w v] account_parts(3) [OF inv(1)] w v unfolding token_rows_ok_def by simp
  have "accounts_inv d1" unfolding d1 accounts_inv_def using account_parts(7) [OF inv(2)] by (rule mark_used_but)
  then have "\<exists>p. get_password_provider (vt_user_id w) d3 = Some p \<and> ap_provider_metadata p = Some (password_metadata kdf env new)"
    using user_found [OF u] d3 by (intro set_password_row) auto
  then show ?thesis by (simp add: db' wv stage_revoke_all_sessions_def put_user_lookup)
qed

text \<open>What a reset leaves: the token is spent, the sessions of its user are dead, the password row holds the new hash.\<close>

lemma reset_effect:
  assumes inv: "accounts_inv db" and v: "v \<in> set (verification_tokens db)" "vt_token v = token"
    and run: "stage_reset_password kdf id env token new db = Inr db'"
  shows "spent_token token db'" "s \<in> set (user_sessions db) \<Longrightarrow> se_user_id s = vt_user_id v \<Longrightarrow> dead_session (se_id s) db'"
proof -
  obtain w u d1 d3 where w: "w \<in> set (verification_tokens db)" "vt_token w = token" and d1: "d1 = mark_used (vt_id w) db"
    and u: "get_user_by_id (vt_user_id w) d1 = Some u"
    and d3: "d3 = (case get_password_provider (vt_user_id w) d1 of
         Some p \<Rightarrow> put_provider (p\<lparr>ap_provider_metadata := Some (password_metadata kdf env new)\<rparr>) d1
       | None \<Rightarrow> add_provider (new_password_provider (ae_ids env 1) u (password_metadata kdf env new) (ae_now env)) d1)"
    and db': "db' = stage_revoke_all_sessions (vt_user_id w) (put_user (u\<lparr>us_has_password := True, us_updated_at := ae_now env\<rparr>) d3)"
    by (rule reset_parts [OF run]) (simp only: id_apply)
  have tok: "token_rows_ok db" "issued_ok db" using account_parts(3,5) [OF inv] by simp_all
  have wv: "w = v" using unique_eq [of vt_token "verification_tokens db" w v] tok(1) w v unfolding token_rows_ok_def by simp
  have frame: "verification_tokens d3 = verification_tokens d1" "user_sessions d3 = user_sessions db" "issued db \<subseteq> issued d3"
    using d3 d1 by (auto simp: mark_used_def split: option.splits)
  have used: "vt_used x" if "x \<in> set (verification_tokens db')" "vt_token x = token" for x
  proof -
    have "x \<in> set (verification_tokens d1)" using that(1) frame(1) by (simp add: db' stage_revoke_all_sessions_def)
    then obtain y where y: "y \<in> set (verification_tokens db)" "x = (if vt_id y = vt_id w then y\<lparr>vt_used := True\<rparr> else y)"
      unfolding d1 mark_used_rows by blast
    then have "y = w" using unique_eq [of vt_token "verification_tokens db" y w] tok(1) w that(2) unfolding token_rows_ok_def by (simp split: if_splits)
    then show ?thesis using y(2) by simp
  qed
  have "token \<in> issued db" using tok(2) v by (auto simp: issued_ok_def)
  then show "spent_token token db'" using used frame(3) by (auto simp: spent_token_def db' stage_revoke_all_sessions_def)
  show "dead_session (se_id s) db'" if s: "s \<in> set (user_sessions db)" "se_user_id s = vt_user_id v"
  proof -
    have "se_revoked x" if x: "x \<in> set (user_sessions db')" "se_id x = se_id s" for x
    proof -
      obtain y where y: "y \<in> set (user_sessions db)" "x = (if se_user_id y = vt_user_id w \<and> \<not> se_revoked y then y\<lparr>se_revoked := True\<rparr> else y)"
        using x(1) frame(2) unfolding db' stage_revoke_all_sessions_def revoke_rows by auto
      then have "y = s" using unique_eq [of se_id "user_sessions db" y s] tok(1) s(1) x(2) unfolding token_rows_ok_def by (simp split: if_splits)
      then show ?thesis using y(2) s(2) wv by (auto split: if_splits)
    qed
    moreover have "se_id s \<in> issued db'" using tok(2) s(1) frame(3) by (auto simp: issued_ok_def db' stage_revoke_all_sessions_def)
    ultimately show ?thesis by (simp add: dead_session_def)
  qed
qed

lemma token_accepted:
  assumes inv: "accounts_inv db" and v: "v \<in> set (verification_tokens db)" "vt_token v = token" "vt_token_type v = ty" "\<not> vt_used v" "ae_now env < vt_expires_at v"
  shows "stage_validate_verification_token others env token ty db = Inr (vt_user_id v, mark_used (vt_id v) (others db))"
proof -
  obtain w where w: "find (\<lambda>x. vt_token x = token \<and> vt_token_type x = ty) (verification_tokens db) = Some w"
    using v by (cases "find (\<lambda>x. vt_token x = token \<and> vt_token_type x = ty) (verification_tokens db)") (auto simp: find_None_iff)
  have "w \<in> set (verification_tokens db)" using w by (metis find_Some_iff nth_mem)
  moreover have "vt_token w = token" using w by (metis (mono_tags, lifting) find_Some_iff)
  ultimately have "w = v" using unique_eq [of vt_token "verification_tokens db" w v] v account_parts(3) [OF inv] unfolding token_rows_ok_def by simp
  then show ?thesis using w v(4,5) by (simp add: stage_validate_verification_token_def)
qed

lemma user_exists: "uid \<in> us_id ` set (users db) \<Longrightarrow> \<exists>u. get_user_by_id uid db = Some u"
  unfolding get_user_by_id_def using get_row_None_iff [of us_id uid "users db"] by fastforce

lemma reset_succeeds:
  assumes inv: "accounts_inv db" and v: "v \<in> set (verification_tokens db)" "vt_token v = token" "vt_token_type v = VT_PASSWORD_RESET" "\<not> vt_used v" "ae_now env < vt_expires_at v"
    and new: "validate_password new = Inr ()" and u: "vt_user_id v \<in> us_id ` set (users (others db))"
  shows "\<exists>d. stage_reset_password kdf others env token new db = Inr d \<and> us_id ` set (users d) = us_id ` set (users (others db))"
proof -
  obtain u where u: "get_user_by_id (vt_user_id v) (mark_used (vt_id v) (others db)) = Some u" using user_exists [OF u] by auto
  define d3 where "d3 = (case get_password_provider (us_id u) (mark_used (vt_id v) (others db)) of
         Some p \<Rightarrow> put_provider (p\<lparr>ap_provider_metadata := Some (password_metadata kdf env new)\<rparr>) (mark_used (vt_id v) (others db))
       | None \<Rightarrow> add_provider (new_password_provider (ae_ids env 1) u (password_metadata kdf env new) (ae_now env)) (mark_used (vt_id v) (others db)))"
  have "users d3 = users (others db)" by (auto simp: d3_def mark_used_def split: option.splits)
  moreover have "stage_reset_password kdf others env token new db = Inr (stage_revoke_all_sessions (us_id u)
      (put_user (u\<lparr>us_has_password := True, us_updated_at := ae_now env\<rparr>) d3))"
    unfolding stage_reset_password_def new and_then_simps token_accepted [OF inv v] prod.case u option.case d3_def Let_def by (rule refl)
  ultimately show ?thesis by (simp add: stage_revoke_all_sessions_def put_user_ids)
qed

subsection \<open>A concrete account\<close>

definition acct_cfg :: auth_settings where
  "acct_cfg = \<lparr>as_default_user_id = ''root'', as_default_user_email = '''', as_default_user_name = '''', as_default_user_password = '''',
     as_session_max_age_days = 30, as_auth_required = True\<rparr>"

definition acct_env :: "string \<Rightarrow> timestamp \<Rightarrow> auth_env" where
  "acct_env tag now = \<lparr>ae_now = now, ae_ids = (\<lambda>n. tag @ [hex_digit n]), ae_salt = ''s'', ae_token = tag @ ''t''\<rparr>"

definition acct_kdf :: "string \<Rightarrow> string \<Rightarrow> nat \<Rightarrow> string" where
  "acct_kdf p s n = p @ s"

definition acct_db1 :: auth_db where
  "acct_db1 = snd (snd (projr (authenticate_oauth_user acct_cfg (acct_env ''a'' 1) AP_GITHUB ''7'' ''Ann@x.io'' ''Ann'' None None None empty_accounts)))"

definition acct_db2 :: auth_db where
  "acct_db2 = snd (stage_create_password_reset_token (acct_env ''b'' 2) ''ann@x.io'' acct_db1)"

lemma acct_oauth:
  "is_ok (authenticate_oauth_user acct_cfg (acct_env ''a'' 1) AP_GITHUB ''7'' ''Ann@x.io'' ''Ann'' None None None empty_accounts)"
  by code_simp

lemma acct_fresh:
  "fresh_env acct_cfg (acct_env ''a'' 1) empty_accounts" "fresh_env acct_cfg (acct_env ''b'' 2) acct_db1" "fresh_env acct_cfg (acct_env ''c'' 3) acct_db2"
  by code_simp +

lemma acct_tokens: "verification_tokens acct_db2 = [\<lparr>vt_id = ''b3'', vt_user_id = ''a0'', vt_token = ''bt'', vt_token_type = VT_PASSWORD_RESET,
    vt_created_at = 2, vt_expires_at = 2 + seconds 3600, vt_used = False\<rparr>]"
  by code_simp

lemma acct_sessions: "map se_id (user_sessions acct_db2) = [''a2'']" "map se_user_id (user_sessions acct_db2) = [''a0'']"
  by code_simp +

lemma acct_passwords: "validate_password ''Passw0rd'' = Inr ()" "validate_password ''Secret123'' = Inr ()"
  by code_simp +

lemma acct_reached: "auth_reach acct_kdf acct_cfg empty_accounts acct_db2"
proof -
  obtain u s d where d: "authenticate_oauth_user acct_cfg (acct_env ''a'' 1) AP_GITHUB ''7'' ''Ann@x.io'' ''Ann'' None None None empty_accounts = Inr (u, s, d)"
    using acct_oauth by (auto simp: is_ok_def split: sum.splits)
  have "auth_step acct_kdf acct_cfg empty_accounts d" using acct_fresh(1) _ d by (rule auth_step.Oauth) simp
  moreover have "d = acct_db1" by (simp add: acct_db1_def d)
  moreover have "auth_step acct_kdf acct_cfg acct_db1 acct_db2"
    unfolding acct_db2_def by (rule auth_step.Forgot [OF acct_fresh(2)]) (rule prod.collapse [symmetric])
  ultimately show ?thesis unfolding auth_reach_def by (meson rtranclp.rtrancl_into_rtrancl rtranclp.rtrancl_refl)
qed

subsection \<open>The properties\<close>

text \<open>C39: Stored passwords round trip. \<open>verify_password\<close> reads back every hash that \<open>hash_password\<close> writes, and accepts a
  password exactly when it derives the same key as the stored one with the stored salt and 200000 rounds.\<close>

theorem stored_password_exact:
  "verify_password kdf q (hash_password kdf salt p) = Inr (kdf q salt 200000 = kdf p salt 200000)"
  using verify_hash [of kdf q salt p] by (simp add: PBKDF2_ITERATIONS_def)

lemma unlink_removes:
  assumes own: "own = filter (\<lambda>p. ap_user_id p = uid) (auth_providers db)" "1 < length own"
    and p: "find (\<lambda>p. ap_provider p = name) own = Some p" "name \<noteq> AP_PASSWORD" and u: "uid \<in> us_id ` set (users (others db))"
  shows "\<exists>d. stage_unlink_provider others env uid name db = Inr d \<and>
    auth_providers d = filter (\<lambda>r. ap_id r \<noteq> ap_id p) (auth_providers (others db)) \<and> us_id ` set (users d) = us_id ` set (users (others db))"
proof -
  obtain v where v: "get_user_by_id uid (others db) = Some v"
    using u get_row_None_iff [of us_id uid "users (others db)"] by (auto simp: get_user_by_id_def)
  have "ap_provider p = name" using p(1) by (auto simp: find_Some_iff)
  then show ?thesis using own p v by (simp add: stage_unlink_provider_def Let_def put_user_ids)
qed

text \<open>C15: Commands that run one after another keep the accounts well formed: in every database they reach from the empty one,
  identifiers, addresses, external identities and tokens are unique, every row refers to an existing user, every user has a
  sign-in method and at most one password, and the password flag and the subject of the password row agree with it.
  Commands that overlap do not: a user whose only sign-in methods are Google and GitHub may unlink both, when the second
  request reads the rows before the first one commits; after that commit it would have been refused.\<close>

theorem accounts_stay_wellformed:
  assumes "auth_reach kdf cfg empty_accounts db"
  shows "accounts_inv db \<and>
    (\<forall>uid a b. filter (\<lambda>p. ap_user_id p = uid) (auth_providers db) \<in> {[a, b], [b, a]} \<and> ap_provider a = AP_GOOGLE \<and> ap_provider b = AP_GITHUB \<longrightarrow>
       (\<exists>d1 d2. unlink_provider_route id env1 uid ''google'' db = Inr d1 \<and> \<not> is_ok (unlink_provider_route id env2 uid ''github'' d1) \<and>
          unlink_provider_route (\<lambda>_. d1) env2 uid ''github'' db = Inr d2 \<and> uid \<in> us_id ` set (users d2) \<and>
          filter (\<lambda>p. ap_user_id p = uid) (auth_providers d2) = []))"
proof (intro conjI allI impI)
  show inv: "accounts_inv db" using assms by (rule reach_inv)
  fix uid a b
  assume two: "filter (\<lambda>p. ap_user_id p = uid) (auth_providers db) \<in> {[a, b], [b, a]} \<and> ap_provider a = AP_GOOGLE \<and> ap_provider b = AP_GITHUB"
  define own where "own = filter (\<lambda>p. ap_user_id p = uid) (auth_providers db)"
  have own: "own = [a, b] \<or> own = [b, a]" "ap_provider a = AP_GOOGLE" "ap_provider b = AP_GITHUB" using two by (auto simp: own_def)
  have found: "1 < length own" "find (\<lambda>p. ap_provider p = AP_GOOGLE) own = Some a" "find (\<lambda>p. ap_provider p = AP_GITHUB) own = Some b"
    using own by auto
  have mem: "set own = {a, b}" using own(1) by auto
  then have rows: "a \<in> set (auth_providers db)" "b \<in> set (auth_providers db)" "ap_user_id a = uid" "ap_user_id b = uid" unfolding own_def by auto
  have ids: "ap_id a \<noteq> ap_id b"
  proof
    assume "ap_id a = ap_id b"
    with provider_keys(1) [OF account_parts(2) [OF inv]] rows(1,2) have "a = b" by (rule unique_by_eq)
    then show False using own(2,3) by simp
  qed
  have user: "uid \<in> us_id ` set (users (id db))"
    using account_parts(4) [OF inv] imageI [OF rows(1), of ap_user_id] rows(3) unfolding refs_ok_def id_apply by simp
  obtain d1 where d1: "stage_unlink_provider id env1 uid AP_GOOGLE db = Inr d1"
      "auth_providers d1 = filter (\<lambda>r. ap_id r \<noteq> ap_id a) (auth_providers db)" "us_id ` set (users d1) = us_id ` set (users db)"
    using unlink_removes [where others = id and env = env1, OF own_def found(1,2) _ user] by auto
  obtain d2 where d2: "stage_unlink_provider (\<lambda>_. d1) env2 uid AP_GITHUB db = Inr d2"
      "auth_providers d2 = filter (\<lambda>r. ap_id r \<noteq> ap_id b) (auth_providers d1)" "us_id ` set (users d2) = us_id ` set (users d1)"
    using unlink_removes [where others = "\<lambda>_. d1" and env = env2, OF own_def found(1,3)] user d1(3) by auto
  have left: "filter (\<lambda>p. ap_user_id p = uid) (auth_providers d1) = filter (\<lambda>p. ap_id p \<noteq> ap_id a) own"
    by (auto simp: d1(2) own_def intro: filter_cong)
  then have "length (filter (\<lambda>p. ap_user_id p = uid) (auth_providers d1)) = 1" using own(1) ids by auto
  then have "\<not> is_ok (stage_unlink_provider id env2 uid AP_GITHUB d1)" by (simp add: stage_unlink_provider_def is_ok_def)
  moreover have "filter (\<lambda>p. ap_user_id p = uid) (auth_providers d2) = []"
    using mem unfolding d2(2) d1(2) filter_empty_conv own_def by auto
  ultimately show "\<exists>d1 d2. unlink_provider_route id env1 uid ''google'' db = Inr d1 \<and> \<not> is_ok (unlink_provider_route id env2 uid ''github'' d1) \<and>
      unlink_provider_route (\<lambda>_. d1) env2 uid ''github'' db = Inr d2 \<and> uid \<in> us_id ` set (users d2) \<and>
      filter (\<lambda>p. ap_user_id p = uid) (auth_providers d2) = []"
    using d1 d2 user by (intro exI [of _ d1] exI [of _ d2]) (simp add: unlink_provider_route_def)
qed

text \<open>The user of the examples signs in with Google too.\<close>

definition linked_accounts :: auth_db where
  "linked_accounts = snd (snd (projr (authenticate_oauth_user acct_cfg (acct_env ''c'' 3) AP_GOOGLE ''8'' ''ann@x.io'' ''Ann'' None None None acct_db2)))"

lemma linked_reached: "auth_reach acct_kdf acct_cfg empty_accounts linked_accounts"
proof -
  have "is_ok (authenticate_oauth_user acct_cfg (acct_env ''c'' 3) AP_GOOGLE ''8'' ''ann@x.io'' ''Ann'' None None None acct_db2)" by code_simp
  then obtain u s d where d: "authenticate_oauth_user acct_cfg (acct_env ''c'' 3) AP_GOOGLE ''8'' ''ann@x.io'' ''Ann'' None None None acct_db2 = Inr (u, s, d)"
    by (auto simp: is_ok_def split: sum.splits)
  have "auth_step acct_kdf acct_cfg acct_db2 d" using acct_fresh(3) _ d by (rule auth_step.Oauth) simp
  moreover have "d = linked_accounts" by (simp add: linked_accounts_def d)
  ultimately show ?thesis using acct_reached unfolding auth_reach_def by (meson rtranclp.rtrancl_into_rtrancl)
qed

theorem accounts_stay_wellformed_witness:
  "accounts_inv linked_accounts \<and> map us_email (users linked_accounts) = [''ann@x.io''] \<and>
   (\<exists>d1 d2. unlink_provider_route id (acct_env ''d'' 4) ''a0'' ''google'' linked_accounts = Inr d1 \<and>
      unlink_provider_route (\<lambda>_. d1) (acct_env ''e'' 4) ''a0'' ''github'' linked_accounts = Inr d2 \<and>
      filter (\<lambda>p. ap_user_id p = ''a0'') (auth_providers d2) = [])"
proof -
  let ?own = "filter (\<lambda>p. ap_user_id p = ''a0'') (auth_providers linked_accounts)"
  have mail: "map us_email (users linked_accounts) = [''ann@x.io'']" by code_simp
  have "map ap_provider ?own = [AP_GITHUB, AP_GOOGLE]" by code_simp
  then obtain a b where "?own = [b, a]" "ap_provider a = AP_GOOGLE" "ap_provider b = AP_GITHUB" by auto
  then have "?own \<in> {[a, b], [b, a]} \<and> ap_provider a = AP_GOOGLE \<and> ap_provider b = AP_GITHUB" by simp
  then show ?thesis
    using mail accounts_stay_wellformed [OF linked_reached, of "acct_env ''d'' 4" "acct_env ''e'' 4"] by blast
qed

text \<open>C14: A password reset ends what came before it. In every later database the sessions that the user had are refused, by the
  request dependency as well, and the token is refused, and right after the reset an active account signs in with exactly the new password.\<close>

theorem reset_shuts_out:
  assumes "auth_reach kdf cfg empty_accounts db" "fresh_env cfg env db"
    and v: "v \<in> set (verification_tokens db)" "vt_token v = token"
    and run: "stage_reset_password kdf id env token new db = Inr db'"
    and after: "auth_reach kdf cfg db' db''"
  shows "(\<forall>s\<in>set (user_sessions db). se_user_id s = vt_user_id v \<longrightarrow> fst (validate_session now (se_id s) db'') = None \<and>
       (\<forall>r. resolve_session_token r = Some (se_id s) \<longrightarrow> as_auth_required cfg \<longrightarrow> \<not> ar_websocket r \<longrightarrow>
          fst (get_current_user kdf cfg env2 r db'') = Inl not_authenticated)) \<and>
    \<not> is_ok (stage_reset_password kdf others env2 token new2 db'') \<and>
    (\<forall>u\<in>set (users db'). us_id u = vt_user_id v \<longrightarrow> us_status u = US_ACTIVE \<longrightarrow>
       is_ok (login_user kdf cfg env2 (us_email u) q device ip db') = (kdf q (ae_salt env) 200000 = kdf new (ae_salt env) 200000))"
proof -
  have inv: "accounts_inv db" using assms(1) by (rule reach_inv)
  have inv': "accounts_inv db'" using reset_keeps [OF inv assms(2) run] by (simp add: keeps_def)
  have l: "later db' db''" using reach_keeps [OF after inv'] by (simp add: keeps_def)
  note eff = reset_effect [OF inv v run]
  have dead: "dead_session (se_id s) db''" if "s \<in> set (user_sessions db)" "se_user_id s = vt_user_id v" for s
    using dead_later [OF l eff(2) [OF that]] .
  have "fst (validate_session now (se_id s) db'') = None \<and> (\<forall>r. resolve_session_token r = Some (se_id s) \<longrightarrow> as_auth_required cfg \<longrightarrow>
      \<not> ar_websocket r \<longrightarrow> fst (get_current_user kdf cfg env2 r db'') = Inl not_authenticated)"
    if "s \<in> set (user_sessions db)" "se_user_id s = vt_user_id v" for s
    using dead_rejected [OF dead [OF that]] current_user_refused [OF dead [OF that]] by blast
  moreover have "\<not> is_ok (stage_reset_password kdf others env2 token new2 db'')"
    using spent_rejected [OF spent_later [OF l eff(1)], of others env2 VT_PASSWORD_RESET]
    by (cases "validate_password new2") (simp_all add: stage_reset_password_def is_ok_def)
  moreover obtain p where p: "get_password_provider (vt_user_id v) db' = Some p" "ap_provider_metadata p = Some (password_metadata kdf env new)"
    using reset_row [where others = id, OF inv _ v run] inv by auto
  have "is_ok (login_user kdf cfg env2 (us_email u) q device ip db') = (kdf q (ae_salt env) 200000 = kdf new (ae_salt env) 200000)"
    if "u \<in> set (users db')" "us_id u = vt_user_id v" "us_status u = US_ACTIVE" for u
    using login_decides [OF inv' that(1,3)] p that(2) by (simp add: PBKDF2_ITERATIONS_def)
  ultimately show ?thesis by blast
qed

theorem reset_shuts_out_witness:
  "\<exists>d. stage_reset_password acct_kdf id (acct_env ''c'' 3) ''bt'' ''Passw0rd'' acct_db2 = Inr d \<and>
     fst (validate_session 4 ''a2'' d) = None \<and> \<not> is_ok (stage_reset_password acct_kdf id (acct_env ''d'' 4) ''bt'' ''Secret123'' d)"
proof -
  define v where "v = \<lparr>vt_id = ''b3'', vt_user_id = ''a0'', vt_token = ''bt'', vt_token_type = VT_PASSWORD_RESET, vt_created_at = 2,
    vt_expires_at = 2 + seconds 3600, vt_used = False\<rparr>"
  have v: "v \<in> set (verification_tokens acct_db2)" "vt_token v = ''bt''" "vt_user_id v = ''a0''" by (simp_all add: acct_tokens v_def)
  obtain s where s: "user_sessions acct_db2 = [s]" "se_id s = ''a2''" "se_user_id s = ''a0''"
    using acct_sessions by (cases "user_sessions acct_db2") auto
  have owner: "''a0'' \<in> us_id ` set (users acct_db2)" by code_simp
  obtain d where d: "stage_reset_password acct_kdf id (acct_env ''c'' 3) ''bt'' ''Passw0rd'' acct_db2 = Inr d"
    using reset_succeeds [OF reach_inv [OF acct_reached] v(1,2) _ _ _ acct_passwords(1), of "acct_env ''c'' 3" id acct_kdf] owner
    by (auto simp: v_def acct_env_def seconds_def)
  have "auth_reach acct_kdf acct_cfg d d" by (simp add: auth_reach_def)
  from reset_shuts_out [OF acct_reached acct_fresh(3) v(1,2) d this, where now = 4 and others = id and ?env2.0 = "acct_env ''d'' 4" and ?new2.0 = "''Secret123''"]
  show ?thesis using d s v(3) by auto
qed

text \<open>C40: The check and the use of a reset token are two statements. A reset that starts while another reset with the same token
  is running succeeds as well, and its password is the one that stays, although the token is refused once the first reset is
  committed.\<close>

theorem reset_token_accepted_twice:
  assumes "auth_reach kdf cfg empty_accounts db" "fresh_env cfg env1 db"
    and v: "v \<in> set (verification_tokens db)" "vt_token v = token" "vt_token_type v = VT_PASSWORD_RESET" "\<not> vt_used v"
    and "ae_now env1 < vt_expires_at v" "ae_now env2 < vt_expires_at v" "validate_password new1 = Inr ()" "validate_password new2 = Inr ()"
  shows "\<exists>d1 d2 p. stage_reset_password kdf id env1 token new1 db = Inr d1 \<and>
    stage_reset_password kdf id env2 token new2 d1 = Inl TokenInvalidError \<and>
    stage_reset_password kdf (\<lambda>_. d1) env2 token new2 db = Inr d2 \<and>
    get_password_provider (vt_user_id v) d2 = Some p \<and> ap_provider_metadata p = Some (password_metadata kdf env2 new2)"
proof -
  have inv: "accounts_inv db" using assms(1) by (rule reach_inv)
  have owner: "vt_user_id v \<in> us_id ` set (users db)" using account_parts(4) [OF inv] v(1) by (auto simp: refs_ok_def)
  obtain d1 where d1: "stage_reset_password kdf id env1 token new1 db = Inr d1" "us_id ` set (users d1) = us_id ` set (users db)"
    using reset_succeeds [OF inv v assms(7,9), of id kdf] owner by auto
  have inv1: "accounts_inv d1" using reset_keeps [OF inv assms(2) d1(1)] by (simp add: keeps_def)
  have "stage_reset_password kdf id env2 token new2 d1 = Inl TokenInvalidError"
    using spent_rejected [OF reset_effect(1) [OF inv v(1,2) d1(1)]] assms(10) by (simp add: stage_reset_password_def)
  moreover obtain d2 where d2: "stage_reset_password kdf (\<lambda>_. d1) env2 token new2 db = Inr d2"
    using reset_succeeds [OF inv v assms(8,10), of "\<lambda>_. d1" kdf] owner d1(2) by auto
  moreover obtain p where "get_password_provider (vt_user_id v) d2 = Some p" "ap_provider_metadata p = Some (password_metadata kdf env2 new2)"
    using reset_row [OF inv inv1 v(1,2) d2] by blast
  ultimately show ?thesis using d1(1) by blast
qed

theorem reset_token_accepted_twice_witness:
  "\<exists>d1 d2. stage_reset_password acct_kdf id (acct_env ''c'' 3) ''bt'' ''Passw0rd'' acct_db2 = Inr d1 \<and>
     stage_reset_password acct_kdf (\<lambda>_. d1) (acct_env ''d'' 4) ''bt'' ''Secret123'' acct_db2 = Inr d2"
proof -
  define v where "v = \<lparr>vt_id = ''b3'', vt_user_id = ''a0'', vt_token = ''bt'', vt_token_type = VT_PASSWORD_RESET, vt_created_at = 2,
    vt_expires_at = 2 + seconds 3600, vt_used = False\<rparr>"
  have v: "v \<in> set (verification_tokens acct_db2)" "vt_token v = ''bt''" "vt_token_type v = VT_PASSWORD_RESET" "\<not> vt_used v"
    by (simp_all add: acct_tokens v_def)
  have "ae_now (acct_env ''c'' 3) < vt_expires_at v" "ae_now (acct_env ''d'' 4) < vt_expires_at v"
    by (simp_all add: v_def acct_env_def seconds_def)
  from reset_token_accepted_twice [OF acct_reached acct_fresh(3) v this acct_passwords] show ?thesis by blast
qed

end
