(* ===== verification/Spec2Isabelle.thy ===== *)
theory Spec2Isabelle
  imports Locks Lock_Watchers Outbox_Facts Wake_Dispatch Job_Facts Compute_Guarantees Storage_Facts Analysis_Cycles Pipeline_Facts
    Schedule_Scans Schedule_Views Engine_Properties Preview_Facts Docker_Placement Response_Facts Lineage_Facts Account_Guarantees
begin

text \<open>
  A verification library for the data-forge runtime.

  \<^bold>\<open>The program.\<close> data-forge runs analyses (pipelines of table operations) over datasources. A backend
  (\<open>packages/backend\<close>) serves the API and keeps all durable state in PostgreSQL, one set of tables per
  namespace plus a shared runtime schema; workers (\<open>packages/worker\<close>) and a scheduler claim work from the
  backend over RPC. Work exists as rows: build runs and their jobs, compute requests, outbox events,
  storage cleanup intents and schedules. A row is claimed by a conditional update that writes an owner,
  a claim token, a lease generation and an expiry; every later write of the owner is guarded by that
  claim. Namespaces with work are found through a durable index of markers and wakes, and PostgreSQL
  NOTIFY only shortens the wait. The theories model these services statement by statement and show that
  their protocols are correct.

  \<^bold>\<open>Conventions.\<close> A table is a list of rows in insertion order, a row is a \<open>record\<close>, and the database of a
  component extends the database of the components it writes to, so that one value is the whole
  database: \<open>work_db\<close>, \<open>outbox_db\<close>, \<open>build_db\<close>, \<open>jobs_db\<close>, \<open>worker_runs_db\<close>, \<open>compute_db\<close>, \<open>analysis_db\<close>,
  \<open>schedule_db\<close>. Every operation takes an extensible record of its database. A raised exception is \<open>Inl\<close> of a
  \<open>py_error\<close> and has no effect on the database, as its transaction is rolled back; a result is \<open>Inr\<close>.
  Times are integers in microseconds, Python integers are \<open>int\<close>, JSON is the datatype \<open>json\<close> with objects
  as association lists. Clocks, new identifiers and random tokens are arguments (\<open>txn\<close>). Where PostgreSQL
  lets other sessions commit between two statements of an operation, the operation takes what they do as
  a function of the database (\<open>env\<close>, or a record such as \<open>claim_round\<close> and \<open>scan_page\<close>), so that theorems hold
  for every interleaving. Row locks with \<open>SKIP LOCKED\<close> are a predicate of the locked rows.

  \<^bold>\<open>Theories.\<close>
  \<^item> \<open>Prelude\<close>: errors, settings, tables (\<open>get_row\<close>, \<open>update_where\<close>, \<open>select_ordered\<close>, \<open>rowcount\<close>) and their
    lemmas, SQL comparisons with null, and the locales \<open>preserved\<close> (an invariant of a step relation),
    \<open>fenced_lease\<close> (once a claim is lost it is lost for good) and \<open>lease_table\<close> (a table whose rows carry such a
    claim). The locales \<open>recoverable_queue\<close> (\<open>Work_Index\<close>: a queue whose pending namespaces stay listed) and
    \<open>lock_session\<close> (\<open>Locks\<close>: a client of the lock service between its statements) build on them. Every locale is
    interpreted on the tables of the program: locks, outbox events, build jobs, compute requests, storage
    intents and schedules.
  \<^item> \<open>Work_Index\<close> (\<open>backend_core/runtime_work_service.py\<close>): markers, wakes, listings, the refresh that
    consumes wakes. The listing is exact, and a refresh deletes only the wakes it has captured.
  \<^item> \<open>Locks\<close> and \<open>Lock_Watchers\<close> (\<open>modules/locks\<close>): resource locks under interleaving, their refinement of a
    map of locks, and the delivery of lock states to watchers.
  \<^item> \<open>Outbox\<close>, \<open>Outbox_Facts\<close>, \<open>Wake_Dispatch\<close> (\<open>backend_core/runtime_outbox_service.py\<close>, \<open>runtime_ipc.py\<close>,
    \<open>live_hubs.py\<close> and the dispatcher of the worker): events are notified exactly once in the distributed runtime, terminal
    events are final, ready events stay listed; hubs and the round robin of namespaces.
  \<^item> \<open>Build_Runs\<close>, \<open>Build_Jobs\<close>, \<open>Build_Facts\<close>, \<open>Job_Facts\<close> (\<open>build_runs_service.py\<close>, \<open>build_jobs_service.py\<close>): runs with
    their event log, jobs with claims and attempts. Event numbers have no gap, finished runs are final, superseded
    executions and lost claims are fenced, no ready build is lost from the index.
  \<^item> \<open>Worker_Runs\<close>, \<open>Compute_Types\<close>, \<open>Compute_Requests\<close>, \<open>Preflights\<close>, \<open>Compute_Facts\<close>, \<open>Compute_Guarantees\<close>
    (\<open>compute_worker_runs_service.py\<close>, \<open>compute_requests_service.py\<close>, \<open>modules/datasource/preflight.py\<close>): requests, shared
    flights, claims per engine, and the removal of preflights, which deletes their requests. An engine runs one request at a
    time, followers get a request for their very command, terminal requests are final while they exist, the claim loop ends (and the case in which it does not).
  \<^item> \<open>Urls\<close>, \<open>Storage_Cleanup\<close>, \<open>Datasources\<close>, \<open>Storage_Facts\<close> (\<open>storage_cleanup_service.py\<close>, publication, update
    and deletion of datasources): objects are only deleted when nothing refers to them, uses them or owns them (\<open>still_owned\<close>,
    stated over the rows), an authorized object is never published again, no intent is lost.
  \<^item> \<open>Analysis_Cycles\<close> (\<open>analysis_cycles.py\<close>): the search for cycles is exact and ends.
  \<^item> \<open>Pipeline_Plan\<close>, \<open>Pipeline_Facts\<close> (\<open>worker/runtime/compute_utils.py\<close>, \<open>polars_compute.py\<close>): disabled steps, the
    topological order, the run over cached frames; the plan computes what the steps define.
  \<^item> \<open>Preview_Cache\<close>, \<open>Preview_Facts\<close> (\<open>worker/runtime/preview_cache.py\<close>, \<open>_build_pipeline_details\<close> and
    \<open>execute_preview\<close>): the keys of steps, cached frames with their owners and the previews that use them. A key stands
    for one frame (\<open>denotes\<close>), and a preview with the cache shows what it shows without.
  \<^item> \<open>Pipeline_Types\<close>, \<open>Build_Requests\<close> (\<open>domain/analysis/pipeline_types.py\<close>, \<open>step_types.py\<close>, the request schemas and
    \<open>build_datasource_dependencies.py\<close>): stored pipelines round-trip; the requests that schedules build.
  \<^item> \<open>Schedules\<close>, \<open>Schedule_Facts\<close>, \<open>Schedule_Scans\<close>, \<open>Schedule_Views\<close> (\<open>modules/scheduler\<close>, \<open>RunDueSchedules\<close> of
    \<open>backend_grpc/server.py\<close>): scheduled builds are single-flight, lost claims are fenced, an undisturbed scan
    claims the due schedules up to its limit, a namespace is woken in time for its cron schedules, finished builds settle their
    schedule, and the listing answers what the single responses are.
  \<^item> \<open>Engine_Manager\<close>, \<open>Engine_System\<close>, \<open>Engine_Facts\<close>, \<open>Engine_Steps\<close>, \<open>Engine_Safety\<close>, \<open>Engine_Properties\<close>
    (\<open>worker/runtime/compute_manager.py\<close>): the process manager of the compute engines. A definition models one section
    under the lock of the manager (\<open>reserve_capacity\<close>, \<open>admit_spawn_waiters\<close>, \<open>spawn_claim\<close>, \<open>restore_evicted\<close>); a
    call is a thread that goes from section to section, and \<open>engine_step\<close> interleaves the threads. The
    number of engines is bounded, no waiting request misses a free slot, no admission class starves,
    engines in use are not stopped, and one reachable run loses the event of an eviction.
  \<^item> \<open>Docker_Hosts\<close>, \<open>Docker_Placement\<close> (\<open>worker/runtime/docker_hosts.py\<close>, \<open>docker_compute_worker.py\<close>): the configuration of
    the Docker hosts, their health, the placement of containers, the failover of a launch, the sweep of orphans and
    the resources of a container. The least loaded eligible host is taken, a launch tries every host and ends,
    and the cap of a host holds up to the number of overlapping launches, which can exceed it.
  \<^item> \<open>Response_Recovery\<close>, \<open>Response_Facts\<close> (\<open>compute_response_recovery.py\<close>, the wait of \<open>executor_client.py\<close>): requests that
    wait for the response of a worker, with lost notifications; no committed response is slept through.
  \<^item> \<open>Lineage\<close>, \<open>Lineage_Facts\<close> (\<open>modules/datasource/service_lineage.py\<close>): the lineage graph is exactly what the tables
    define and the target reaches.
  \<^item> \<open>Accounts\<close>, \<open>Account_Facts\<close>, \<open>Account_Steps\<close>, \<open>Account_Guarantees\<close> (\<open>modules/auth\<close>): users, sign-in methods, sessions
    and verification tokens. \<open>auth_step\<close> runs one command with no other beside it; the databases that such runs reach
    are well formed (\<open>accounts_inv\<close>), stored hashes accept exactly their password, and a reset shuts out earlier sessions. Overlap is a
    parameter of two commands: two overlapping resets with one token both succeed, and two overlapping unlinks
    leave a user without a sign-in method.

  \<^bold>\<open>Bounds.\<close> Loops that depend on what other sessions do take one element per round: the claim loop of compute
  requests a list of rounds (\<open>claim_rounds\<close>) and the schedule scan a list of pages (\<open>claim_pages\<close>); running
  out of them is the value \<open>None\<close>. For both it is proved how many are enough. All other recursions are
  structural or have a termination proof.

  \<^bold>\<open>Parameters.\<close> Hashes, key derivation, UUIDs, cron expressions, the functions of Polars, the conversion of one step config, the
  content and key of a datasource, clocks and random tokens are arguments; where a theorem relies on one of
  them (an injective hash, a cron expression that moves forward) this is a hypothesis of the theorem.

  \<^bold>\<open>Not modelled.\<close>
  \<^item> The frontend, generated protocol code, migrations, configuration, logging and metrics: no logic of the runtime.
  \<^item> The table operations and exports, file and Excel reading, object storage and Iceberg: calls of Polars and
    of other libraries with their semantics.
  \<^item> The RPC server and client, the HTTP routes, chat, MCP tools, mail and Telegram: they translate messages and
    call the services; of the RPC server only the run of the due schedules is modelled.
  \<^item> The calls of the Docker API, the job protocol of a worker and the asyncio tasks that drive the claims: the process
    manager is modelled up to the calls that start, probe and stop an engine, and the placement up to the
    answers of the Docker daemons; job slots, snapshots and the thread of the health monitor are left out.
  \<^item> Cookies, mail and the OAuth exchange with GitHub: calls of other services.
  \<^item> Settings, namespaces, UDFs and versions of analyses: plain table updates.
\<close>

end
